(* ===== verification/Nvme_Prelude.thy ===== *)
theory Nvme_Prelude
  imports Main "HOL-Library.Word"
begin

text \<open>
  Shared vocabulary of the development: the machine integers of the driver, the
  AmigaOS result codes, the operations of the surrounding platform that the
  sources only call (byte order helpers, slab and DMA allocators, reachability
  of an address by PCIe), and the generic lemmas on lists, options and words
  that several components use.

  The platform is a record that every operation which needs it takes as its
  first argument.  What the driver relies on is stated by the predicates
  \<open>le_ok\<close>, \<open>prp_slab_ok\<close>, \<open>req_slab_ok\<close> and \<open>dma_pool_ok\<close> below and is a
  named hypothesis wherever a theorem needs it.
\<close>

unbundle bit_operations_syntax

type_synonym u8 = "8 word"
type_synonym u16 = "16 word"
type_synonym u32 = "32 word"
type_synonym u64 = "64 word"

named_theorems queue_simps \<open>projections of the queue operations\<close>
named_theorems state_simps \<open>how the controller operations act on the state\<close>
named_theorems scsi_simps \<open>layout of emitted SCSI responses\<close>

section \<open>Result codes\<close>

text \<open>
  The BYTE values the submission helpers return and \<open>io_Error\<close> carries
  (exec/errors.h, devices/trackdisk.h, devices/scsidisk.h); \<open>NVME_IO_ASYNC\<close> is
  the extra value of include/nvme/nvme_io.h.  \<open>IOERR_other\<close> is a raw byte from a
  completion that is passed through unmapped.
\<close>

datatype io_error =
    IOERR_NO_ERROR
  | IOERR_OPENFAIL
  | IOERR_ABORTED
  | IOERR_NOCMD
  | IOERR_BADLENGTH
  | IOERR_BADADDRESS
  | IOERR_UNITBUSY
  | IOERR_SELFTEST
  | TDERR_NotSpecified
  | TDERR_DiskChanged
  | TDERR_BadUnitNum
  | HFERR_BadStatus
  | NVME_IO_ASYNC
  | IOERR_other u8

text \<open>Negative errno values of the admin path (emu68-common errors.h).\<close>

datatype errno = ENOMEM | EBUSY | EIO | EINVAL | ENODEV | EOVERFLOW | ETIMEDOUT

section \<open>The platform\<close>

record platform =
  p_le16 :: "u16 \<Rightarrow> u16"
  p_le32 :: "u32 \<Rightarrow> u32"
  p_le64 :: "u64 \<Rightarrow> u64"
  p_reachable :: "u32 \<Rightarrow> u32 \<Rightarrow> bool"
  p_req_slab :: "(nat \<Rightarrow> bool) \<Rightarrow> nat option"
  p_ctx_slab :: "(nat \<Rightarrow> bool) \<Rightarrow> nat option"
  p_prp_slab :: "bool \<Rightarrow> (u32 \<Rightarrow> bool) \<Rightarrow> u32 option"
  p_dma_alloc :: "u32 \<Rightarrow> u32 \<Rightarrow> (u32 \<Rightarrow> bool) \<Rightarrow> u32 option"
  p_pool_alloc :: "u32 \<Rightarrow> u32 list \<Rightarrow> bool"
  p_alloc_signal :: bool

text \<open>The byte order helpers are self-inverse.\<close>

definition le_ok :: "platform \<Rightarrow> bool" where
  "le_ok P \<longleftrightarrow> (\<forall>x. p_le16 P (p_le16 P x) = x) \<and> (\<forall>x. p_le32 P (p_le32 P x) = x) \<and>
    (\<forall>x. p_le64 P (p_le64 P x) = x)"

lemma le_okD:
  assumes "le_ok P"
  shows "p_le16 P (p_le16 P x) = x" "p_le32 P (p_le32 P y) = y" "p_le64 P (p_le64 P z) = z"
  using assms by (auto simp: le_ok_def)

text \<open>
  The PRP slabs hand out an address that is not in use, aligned to the object
  size of the slab: 256 bytes (small) or a controller page (large).
\<close>

definition prp_slab_ok :: "platform \<Rightarrow> bool" where
  "prp_slab_ok P \<longleftrightarrow> (\<forall>small live a. p_prp_slab P small live = Some a \<longrightarrow>
     \<not> live a \<and> (if small then unat a mod 256 = 0 else unat a mod 4096 = 0))"

lemma prp_slab_okD:
  assumes "prp_slab_ok P" "p_prp_slab P small live = Some a"
  shows "\<not> live a" "small \<Longrightarrow> unat a mod 256 = 0" "\<not> small \<Longrightarrow> unat a mod 4096 = 0"
  using assms unfolding prp_slab_ok_def by (metis (full_types))+

text \<open>The object slabs hand out an object that is not in use.\<close>

definition req_slab_ok :: "platform \<Rightarrow> bool" where
  "req_slab_ok P \<longleftrightarrow> (\<forall>live r. p_req_slab P live = Some r \<longrightarrow> \<not> live r) \<and>
    (\<forall>live r. p_ctx_slab P live = Some r \<longrightarrow> \<not> live r)"

lemma req_slab_okD:
  assumes "req_slab_ok P"
  shows "p_req_slab P live = Some r \<Longrightarrow> \<not> live r" "p_ctx_slab P live = Some c \<Longrightarrow> \<not> live c"
  using assms unfolding req_slab_ok_def by blast+

definition dma_pool_ok :: "platform \<Rightarrow> bool" where
  "dma_pool_ok P \<longleftrightarrow> (\<forall>al sz live a. p_dma_alloc P al sz live = Some a \<longrightarrow>
     \<not> live a \<and> a \<noteq> 0 \<and> unat a mod unat al = 0)"

lemma dma_pool_okD:
  assumes "dma_pool_ok P" "p_dma_alloc P al sz live = Some a"
  shows "\<not> live a" "a \<noteq> 0" "unat a mod unat al = 0"
  using assms unfolding dma_pool_ok_def by blast+

section \<open>Lists and options\<close>

text \<open>Number of occupied slots of a table of optional entries.\<close>

definition occupied :: "'a option list \<Rightarrow> nat" where
  "occupied xs = length (filter (\<lambda>x. x \<noteq> None) xs)"

lemma occupied_replicate [simp]: "occupied (replicate n None) = 0"
  by (simp add: occupied_def)

lemma occupied_le: "occupied xs \<le> length xs"
  by (simp add: occupied_def)

lemma occupied_Cons: "occupied (x # xs) = (if x = None then 0 else 1) + occupied xs"
  by (simp add: occupied_def)

lemma occupied_update:
  assumes "i < length xs"
  shows "occupied (xs[i := y]) + (if xs ! i = None then 0 else 1)
       = occupied xs + (if y = None then 0 else 1)"
  using assms
proof (induction xs arbitrary: i)
  case Nil
  then show ?case by simp
next
  case (Cons x xs)
  then show ?case by (cases i) (auto simp: occupied_Cons)
qed

lemma occupied_claim:
  assumes "i < length xs" "xs ! i = None"
  shows "occupied (xs[i := Some y]) = Suc (occupied xs)"
  using occupied_update [OF assms(1), of "Some y"] assms(2) by simp

lemma occupied_release:
  assumes "i < length xs" "xs ! i \<noteq> None"
  shows "Suc (occupied (xs[i := None])) = occupied xs"
  using occupied_update [OF assms(1), of None] assms(2) by simp

lemma occupied_pos:
  assumes "i < length xs" "xs ! i \<noteq> None"
  shows "0 < occupied xs"
  using occupied_release [OF assms] by simp

lemma occupied_zeroD:
  assumes "occupied xs = 0" "i < length xs"
  shows "xs ! i = None"
  using occupied_pos [OF assms(2)] assms(1) by (cases "xs ! i") auto

lemma occupied_full: "occupied xs = length xs \<longleftrightarrow> (\<forall>x \<in> set xs. x \<noteq> None)"
proof (induction xs)
  case Nil
  then show ?case by (simp add: occupied_def)
next
  case (Cons x xs)
  then show ?case using occupied_le [of xs] by (auto simp: occupied_Cons)
qed

lemma take_update_same: "n \<le> i \<Longrightarrow> take n (xs[i := y]) = take n xs"
  by simp

lemma take_Suc_update: "i < length xs \<Longrightarrow> take (Suc i) (xs[i := y]) = take i xs @ [y]"
  by (simp add: take_Suc_conv_app_nth)

section \<open>Ring arithmetic\<close>

lemma mod_less_twice: "(n :: nat) < 2 * d \<Longrightarrow> n mod d = (if n < d then n else n - d)"
  by (auto simp: le_mod_geq)

lemma mod_add_left_inj:
  assumes "((h :: nat) + i) mod d = (h + j) mod d" "i < d" "j < d"
  shows "i = j"
proof -
  have "(h mod d + i) mod d = (h mod d + j) mod d" using assms(1) by (simp add: mod_simps)
  moreover have "h mod d < d" using assms(2) by (cases "d = 0") auto
  ultimately show ?thesis using assms(2,3) by (auto simp: mod_less_twice split: if_splits)
qed

section \<open>Words\<close>

lemma unat_minus_one_word: "0 < (w :: 'a::len word) \<Longrightarrow> unat (w - 1) = unat w - 1"
  by (metis less_irrefl unat_minus_one)

lemma unat_and_4095: "unat (w AND 4095 :: 'a::len word) = unat w mod 4096"
proof -
  have "w AND 4095 = take_bit 12 w" by (simp add: take_bit_eq_mask mask_eq_decr_exp)
  then have "unat (w AND 4095) = take_bit 12 (unat w)" by (simp only: unsigned_take_bit_eq)
  then show ?thesis by (simp add: take_bit_eq_mod)
qed

lemma ucast_up_down_32: "(ucast (ucast (a :: u32) :: u64) :: u32) = a"
  by transfer (simp add: take_bit_take_bit min_def)

lemma unat_lt_size: "unat (w :: 'a::len word) < 2 ^ LENGTH('a)"
  by simp

lemma unat_ucast_mod: "unat (ucast (w :: 'a::len word) :: 'b::len word) = unat w mod 2 ^ LENGTH('b)"
  by (simp add: unsigned_ucast_eq take_bit_eq_mod)

lemma unat_ucast_32_64 [simp]: "unat (ucast (a :: u32) :: u64) = unat a"
  using unat_lt_size [of a] by (simp add: unat_ucast_mod)

lemma unat_add_no_wrap:
  fixes a b :: "'a::len word"
  assumes "unat a + unat b < 2 ^ LENGTH('a)"
  shows "unat (a + b) = unat a + unat b"
  using assms by (simp add: unat_word_ariths)

lemma unat_sub_le:
  fixes a b :: "'a::len word"
  assumes "unat b \<le> unat a"
  shows "unat (a - b) = unat a - unat b"
  using assms by (simp add: unat_sub word_le_nat_alt)

section \<open>A concrete platform\<close>

text \<open>
  The big-endian host the driver is built for: the byte order helpers reverse the
  bytes of a word, and each allocator hands out the first free object of a short
  list.  It instantiates the platform parameter in the evaluations below.
\<close>

definition byte_mirror :: "nat \<Rightarrow> nat \<Rightarrow> nat" where
  "byte_mirror len n = 8 * (len div 8 - 1 - n div 8) + n mod 8"

definition byte_swap :: "'a::len word \<Rightarrow> 'a word" where
  "byte_swap w = horner_sum of_bool 2
     (map (\<lambda>n. bit w (byte_mirror LENGTH('a) n)) [0..<LENGTH('a)])"

lemma byte_mirror_less: "len mod 8 = 0 \<Longrightarrow> n < len \<Longrightarrow> byte_mirror len n < len"
proof -
  assume "len mod 8 = 0" "n < len"
  then obtain k where "len = 8 * k" by (metis mod_0_imp_dvd dvdE)
  with \<open>n < len\<close> show ?thesis unfolding byte_mirror_def by simp
qed

lemma byte_mirror_mirror: "len mod 8 = 0 \<Longrightarrow> n < len \<Longrightarrow> byte_mirror len (byte_mirror len n) = n"
proof -
  assume "len mod 8 = 0" "n < len"
  then obtain k where k: "len = 8 * k" by (metis mod_0_imp_dvd dvdE)
  with \<open>n < len\<close> have "n div 8 < k" by simp
  then have "k - Suc (k - Suc (n div 8)) = n div 8" by simp
  then show ?thesis by (simp add: byte_mirror_def k)
qed

lemma bit_byte_swap:
  "bit (byte_swap (w :: 'a::len word)) n \<longleftrightarrow> n < LENGTH('a) \<and> bit w (byte_mirror LENGTH('a) n)"
  by (auto simp: byte_swap_def bit_horner_sum_bit_word_iff)

lemma byte_swap_swap:
  assumes "LENGTH('a::len) mod 8 = 0"
  shows "byte_swap (byte_swap (w :: 'a word)) = w"
  by (rule bit_word_eqI)
    (use assms in \<open>auto simp: bit_byte_swap byte_mirror_less byte_mirror_mirror\<close>)

definition demo_pages :: "u32 list" where
  "demo_pages = [0x100000, 0x101000, 0x102000, 0x103000, 0x104000, 0x105000, 0x106000, 0x107000,
     0x108000, 0x109000, 0x10a000, 0x10b000, 0x10c000, 0x10d000, 0x10e000, 0x10f000]"

definition m68k_platform :: platform where
  "m68k_platform = \<lparr>p_le16 = byte_swap, p_le32 = byte_swap, p_le64 = byte_swap,
     p_reachable = (\<lambda>a n. True),
     p_req_slab = (\<lambda>live. find (\<lambda>r. \<not> live r) [0, 1, 2, 3]),
     p_ctx_slab = (\<lambda>live. find (\<lambda>r. \<not> live r) [0, 1, 2, 3]),
     p_prp_slab = (\<lambda>small live. find (\<lambda>a. \<not> live a) demo_pages),
     p_dma_alloc = (\<lambda>al n live. find (\<lambda>a. \<not> live a \<and> unat a mod unat al = 0) demo_pages),
     p_pool_alloc = (\<lambda>n used. True), p_alloc_signal = True\<rparr>"

lemma find_SomeD: "find Q xs = Some x \<Longrightarrow> Q x \<and> x \<in> set xs"
  by (auto simp: find_Some_iff)

lemma m68k_le_ok: "le_ok m68k_platform"
  by (simp add: le_ok_def m68k_platform_def byte_swap_swap)

lemma m68k_prp_slab_ok: "prp_slab_ok m68k_platform"
  by (auto simp: prp_slab_ok_def m68k_platform_def demo_pages_def dest!: find_SomeD
      simp del: find.simps)

lemma m68k_req_slab_ok: "req_slab_ok m68k_platform"
  by (auto simp: req_slab_ok_def m68k_platform_def dest!: find_SomeD simp del: find.simps)

lemma m68k_dma_pool_ok: "dma_pool_ok m68k_platform"
  by (auto simp: dma_pool_ok_def m68k_platform_def demo_pages_def dest!: find_SomeD
      simp del: find.simps)

end
