(* ===== verification/Nvme_Types.thy ===== *)
theory Nvme_Types
  imports Nvme_Prelude
begin

text \<open>
  The data of the driver: NVMe commands and completions (include/nvme/nvme_defs.h),
  the queue pair (nvme_queue.h), requests and chunked-I/O contexts
  (nvme_completion.h), namespace units (device.h), the AmigaOS request and the
  controller (nvme_ctrl.h).

  Pointers to requests, contexts, AmigaOS requests, units and tasks are natural
  numbers; the objects live in the maps of the controller state, and an object
  taken from a slab is live exactly when its map has an entry.  Addresses the
  device sees are 32-bit words.  Fields the driver stores in little-endian order
  hold the value after the byte order helper, as the memory does.  Ring indices
  and counters are naturals; the queue invariant bounds them by the queue depth.
\<close>

section \<open>Constants\<close>

abbreviation (input) NVME_SC_SUCCESS :: u16 where "NVME_SC_SUCCESS \<equiv> 0"
abbreviation (input) NVME_SC_INVALID_NS :: u16 where "NVME_SC_INVALID_NS \<equiv> 0xb"
abbreviation (input) NVME_SC_LBA_RANGE :: u16 where "NVME_SC_LBA_RANGE \<equiv> 0x80"
abbreviation (input) NVME_SC_CAP_EXCEEDED :: u16 where "NVME_SC_CAP_EXCEEDED \<equiv> 0x81"
abbreviation (input) NVME_SC_HOST_PATH_ERROR :: u16 where "NVME_SC_HOST_PATH_ERROR \<equiv> 0x370"
abbreviation (input) NVME_SC_HOST_ABORTED_CMD :: u16 where "NVME_SC_HOST_ABORTED_CMD \<equiv> 0x371"
abbreviation (input) NVME_SC_MASK :: u16 where "NVME_SC_MASK \<equiv> 0xff"
abbreviation (input) NVME_SCT_MASK :: u16 where "NVME_SCT_MASK \<equiv> 0x700"
abbreviation (input) NVME_SCT_SC_MASK :: u16 where "NVME_SCT_SC_MASK \<equiv> 0x7ff"
abbreviation (input) NVME_SCT_GENERIC :: u16 where "NVME_SCT_GENERIC \<equiv> 0"
abbreviation (input) NVME_STATUS_CRD :: u16 where "NVME_STATUS_CRD \<equiv> 0x1800"
abbreviation (input) NVME_STATUS_DNR :: u16 where "NVME_STATUS_DNR \<equiv> 0x4000"

abbreviation (input) nvme_cmd_flush :: u8 where "nvme_cmd_flush \<equiv> 0"
abbreviation (input) nvme_cmd_write :: u8 where "nvme_cmd_write \<equiv> 1"
abbreviation (input) nvme_cmd_read :: u8 where "nvme_cmd_read \<equiv> 2"
abbreviation (input) nvme_cmd_write_zeroes :: u8 where "nvme_cmd_write_zeroes \<equiv> 8"
abbreviation (input) nvme_cmd_dsm :: u8 where "nvme_cmd_dsm \<equiv> 9"
abbreviation (input) nvme_admin_create_sq :: u8 where "nvme_admin_create_sq \<equiv> 1"
abbreviation (input) nvme_admin_get_log_page :: u8 where "nvme_admin_get_log_page \<equiv> 2"
abbreviation (input) nvme_admin_create_cq :: u8 where "nvme_admin_create_cq \<equiv> 5"
abbreviation (input) nvme_admin_identify :: u8 where "nvme_admin_identify \<equiv> 6"
abbreviation (input) nvme_admin_abort_cmd :: u8 where "nvme_admin_abort_cmd \<equiv> 8"
abbreviation (input) nvme_admin_set_features :: u8 where "nvme_admin_set_features \<equiv> 9"
abbreviation (input) nvme_admin_async_event :: u8 where "nvme_admin_async_event \<equiv> 0xc"

abbreviation (input) NVME_REQ_CANCELLED :: u32 where "NVME_REQ_CANCELLED \<equiv> 1"
abbreviation (input) NVME_REQ_USERCMD :: u32 where "NVME_REQ_USERCMD \<equiv> 2"
abbreviation (input) NVME_REQ_PRP_LIST :: u32 where "NVME_REQ_PRP_LIST \<equiv> 4"
abbreviation (input) NVME_REQ_ABORT_SENT :: u32 where "NVME_REQ_ABORT_SENT \<equiv> 8"
abbreviation (input) NVME_REQ_AER :: u32 where "NVME_REQ_AER \<equiv> 16"
abbreviation (input) NVME_REQ_PRP_SLAB :: u32 where "NVME_REQ_PRP_SLAB \<equiv> 32"
abbreviation (input) NVME_REQ_PRP_SMALL :: u32 where "NVME_REQ_PRP_SMALL \<equiv> 64"

abbreviation (input) NVME_QUIRK_STRIPE_SIZE :: nat where "NVME_QUIRK_STRIPE_SIZE \<equiv> 0"
abbreviation (input) NVME_QUIRK_IDENTIFY_CNS :: nat where "NVME_QUIRK_IDENTIFY_CNS \<equiv> 1"
abbreviation (input) NVME_QUIRK_DEALLOCATE_ZEROES :: nat where "NVME_QUIRK_DEALLOCATE_ZEROES \<equiv> 2"
abbreviation (input) NVME_QUIRK_DELAY_BEFORE_CHK_RDY :: nat where "NVME_QUIRK_DELAY_BEFORE_CHK_RDY \<equiv> 3"
abbreviation (input) NVME_QUIRK_QDEPTH_ONE :: nat where "NVME_QUIRK_QDEPTH_ONE \<equiv> 6"
abbreviation (input) NVME_QUIRK_MEDIUM_PRIO_SQ :: nat where "NVME_QUIRK_MEDIUM_PRIO_SQ \<equiv> 7"
abbreviation (input) NVME_QUIRK_DISABLE_WRITE_ZEROES :: nat where "NVME_QUIRK_DISABLE_WRITE_ZEROES \<equiv> 9"
abbreviation (input) NVME_QUIRK_128_BYTES_SQES :: nat where "NVME_QUIRK_128_BYTES_SQES \<equiv> 12"
abbreviation (input) NVME_QUIRK_NO_NS_DESC_LIST :: nat where "NVME_QUIRK_NO_NS_DESC_LIST \<equiv> 15"
abbreviation (input) NVME_QUIRK_SKIP_CID_GEN :: nat where "NVME_QUIRK_SKIP_CID_GEN \<equiv> 17"
abbreviation (input) NVME_QUIRK_BOGUS_NID :: nat where "NVME_QUIRK_BOGUS_NID \<equiv> 18"

abbreviation (input) NVME_CTRL_ADMIN_Q_STOPPED :: nat where "NVME_CTRL_ADMIN_Q_STOPPED \<equiv> 0"
abbreviation (input) NVME_CTRL_STARTED_ONCE :: nat where "NVME_CTRL_STARTED_ONCE \<equiv> 1"
abbreviation (input) NVME_CTRL_STOPPED :: nat where "NVME_CTRL_STOPPED \<equiv> 2"
abbreviation (input) NVME_CTRL_SKIP_ID_CNS_CS :: nat where "NVME_CTRL_SKIP_ID_CNS_CS \<equiv> 3"
abbreviation (input) NVME_CTRL_DIRTY_CAPABILITY :: nat where "NVME_CTRL_DIRTY_CAPABILITY \<equiv> 4"
abbreviation (input) NVME_CTRL_FROZEN :: nat where "NVME_CTRL_FROZEN \<equiv> 5"

abbreviation (input) NVME_NS_DEAC :: u32 where "NVME_NS_DEAC \<equiv> 4"
abbreviation (input) NVME_UNIT_DEAD :: u32 where "NVME_UNIT_DEAD \<equiv> 1"
abbreviation (input) NVME_ADMIN_QUEUE_SIZE :: nat where "NVME_ADMIN_QUEUE_SIZE \<equiv> 64"
abbreviation (input) NVME_IO_QUEUE_SIZE :: nat where "NVME_IO_QUEUE_SIZE \<equiv> 256"
abbreviation (input) NVME_DSM_MAX_RANGES :: nat where "NVME_DSM_MAX_RANGES \<equiv> 256"
abbreviation (input) NVME_MAX_RETRIES :: nat where "NVME_MAX_RETRIES \<equiv> 5"
abbreviation (input) NVME_MAX_INFLIGHT_PER_IO :: nat where "NVME_MAX_INFLIGHT_PER_IO \<equiv> 16"
abbreviation (input) NVME_IO_TIMEOUT :: u32 where "NVME_IO_TIMEOUT \<equiv> 30000"
abbreviation (input) NVME_ADMIN_TIMEOUT :: u32 where "NVME_ADMIN_TIMEOUT \<equiv> 60000"
abbreviation (input) NVME_ABORT_TIMEOUT :: u32 where "NVME_ABORT_TIMEOUT \<equiv> 15000"
abbreviation (input) NVME_REG_DBS :: u32 where "NVME_REG_DBS \<equiv> 0x1000"

section \<open>Commands and completions\<close>

text \<open>
  struct nvme_command is a union of 64-byte layouts with a common header; the
  header is the record, the command-specific dwords are the body.
\<close>

datatype nvme_cmd_body =
    Body_none
  | Body_rw (rw_slba: u64) (rw_length: u16)
  | Body_write_zeroes (wz_slba: u64) (wz_length: u16) (wz_control: u16)
  | Body_dsm (dsm_nr: u32) (dsm_attributes: u32)
  | Body_abort (abort_sqid: u16) (abort_cid: u16)
  | Body_features (feat_fid: u32) (feat_dword11: u32)
  | Body_create_cq (ccq_cqid: u16) (ccq_qsize: u16) (ccq_flags: u16) (ccq_irq_vector: u16)
  | Body_create_sq (csq_sqid: u16) (csq_qsize: u16) (csq_flags: u16) (csq_cqid: u16)
  | Body_get_log (log_lid: u8) (log_lsp: u8) (log_numdl: u16) (log_numdu: u16)
      (log_lpol: u32) (log_lpou: u32) (log_csi: u8)
  | Body_identify (id_cns: u8) (id_cntid: u16) (id_csi: u8)
  | Body_cdw (cdw_list: "u32 list")

record nvme_command =
  cmd_opcode :: u8
  cmd_flags :: u8
  cmd_command_id :: u16
  cmd_nsid :: u32
  cmd_prp1 :: u64
  cmd_prp2 :: u64
  cmd_body :: nvme_cmd_body

definition zero_cmd :: nvme_command where
  "zero_cmd = \<lparr>cmd_opcode = 0, cmd_flags = 0, cmd_command_id = 0, cmd_nsid = 0,
     cmd_prp1 = 0, cmd_prp2 = 0, cmd_body = Body_none\<rparr>"

text \<open>
  struct nvme_completion: the result union is kept as its 64-bit member; dword 0,
  the member u32, is its low half here.
\<close>

record nvme_completion =
  cqe_result :: u64
  cqe_command_id :: u16
  cqe_status :: u16

definition zero_cqe :: nvme_completion where
  "zero_cqe = \<lparr>cqe_result = 0, cqe_command_id = 0, cqe_status = 0\<rparr>"

record nvme_dsm_range =
  dr_cattr :: u32
  dr_nlb :: u32
  dr_slba :: u64

section \<open>Queues, requests, contexts\<close>

record nvme_queue =
  q_qid :: u16
  q_depth :: nat
  q_sqe_128b :: bool
  q_skip_cid_gen :: bool
  q_sq_base :: "u32 option"
  q_sq :: "nvme_command list"
  q_sq_tail :: nat
  q_last_sq_tail :: nat
  q_sq_batch_depth :: nat
  q_sq_db_off :: u32
  q_cq_base :: "u32 option"
  q_cq :: "nvme_completion list"
  q_cq_head :: nat
  q_cq_phase :: bool
  q_cq_db_off :: u32
  q_inflight :: "nat option list"
  q_inflight_count :: nat
  q_free_stack :: "u16 list"
  q_free_top :: nat

definition zero_queue :: nvme_queue where
  "zero_queue = \<lparr>q_qid = 0, q_depth = 0, q_sqe_128b = False, q_skip_cid_gen = False,
     q_sq_base = None, q_sq = [], q_sq_tail = 0, q_last_sq_tail = 0, q_sq_batch_depth = 0,
     q_sq_db_off = 0, q_cq_base = None, q_cq = [], q_cq_head = 0, q_cq_phase = False,
     q_cq_db_off = 0, q_inflight = [], q_inflight_count = 0, q_free_stack = [], q_free_top = 0\<rparr>"

text \<open>The queue a request lives on: ctrl->admin_q or ctrl->io_q.\<close>

datatype queue_sel = Admin_q | Io_q

text \<open>The completion callbacks an asynchronous admin command can carry.\<close>

datatype done_cb =
    Done_abort
  | Done_aer
  | Done_io_setup_features
  | Done_io_setup_cq
  | Done_io_setup_sq
  | Done_fw_slot_info

record nvme_request =
  r_io :: "nat option"
  r_unit :: "nat option"
  r_q :: queue_sel
  r_result :: u64
  r_status :: u16
  r_cid :: u16
  r_retries :: nat
  r_flags :: u32
  r_submit_us :: u32
  r_deadline_us :: u32
  r_abort_us :: u32
  r_prp_pages :: "u32 list"
  r_waiter :: "nat option"
  r_done :: "done_cb option"
  r_priv :: u32
  r_ctx :: "nat option"
  r_user_buf :: u32
  r_user_len :: u32
  r_bounce_buf :: "u32 option"
  r_cmd :: nvme_command

definition zero_req :: nvme_request where
  "zero_req = \<lparr>r_io = None, r_unit = None, r_q = Admin_q, r_result = 0, r_status = 0, r_cid = 0,
     r_retries = 0, r_flags = 0, r_submit_us = 0, r_deadline_us = 0, r_abort_us = 0,
     r_prp_pages = [], r_waiter = None, r_done = None, r_priv = 0, r_ctx = None,
     r_user_buf = 0, r_user_len = 0, r_bounce_buf = None, r_cmd = zero_cmd\<rparr>"

record nvme_io_context =
  x_io :: nat
  x_unit :: nat
  x_start_lba :: u64
  x_total_bytes :: u32
  x_dispatched :: u32
  x_completed :: u32
  x_inflight :: nat
  x_first_error :: io_error
  x_opcode :: u8
  x_data_precached :: bool
  x_stalled :: bool
  x_user_data :: u32

definition zero_ctx :: nvme_io_context where
  "zero_ctx = \<lparr>x_io = 0, x_unit = 0, x_start_lba = 0, x_total_bytes = 0, x_dispatched = 0,
     x_completed = 0, x_inflight = 0, x_first_error = IOERR_NO_ERROR, x_opcode = 0,
     x_data_precached = False, x_stalled = False, x_user_data = 0\<rparr>"

section \<open>Units and AmigaOS requests\<close>

record NVMeUnit =
  u_unitNumber :: nat
  u_nsid :: u32
  u_flags :: u32
  u_blockSize :: u32
  u_blockShift :: u32
  u_logicalSectors :: u64
  u_features :: u32
  u_wz_max_bytes :: u32
  u_changeCount :: u32
  u_openCnt :: u16

definition zero_unit :: NVMeUnit where
  "zero_unit = \<lparr>u_unitNumber = 0, u_nsid = 0, u_flags = 0, u_blockSize = 0, u_blockShift = 0,
     u_logicalSectors = 0, u_features = 0, u_wz_max_bytes = 0, u_changeCount = 0, u_openCnt = 0\<rparr>"

record IOStdReq =
  io_Command :: u16
  io_Flags :: u8
  io_Unit :: nat
  io_Error :: io_error
  io_Actual :: u32
  io_Length :: u32
  io_Data :: u32
  io_Offset :: u32
  iotd_Count :: u32

definition zero_io :: IOStdReq where
  "zero_io = \<lparr>io_Command = 0, io_Flags = 0, io_Unit = 0, io_Error = IOERR_NO_ERROR, io_Actual = 0,
     io_Length = 0, io_Data = 0, io_Offset = 0, iotd_Count = 0\<rparr>"

text \<open>
  struct SCSICmd of devices/scsidisk.h, the argument block of HD_SCSICMD.  The
  command descriptor block, the data and the sense buffer are addresses of client
  memory.
\<close>

record SCSICmd =
  scsi_Data :: u32
  scsi_Length :: u32
  scsi_Actual :: u32
  scsi_Command :: u32
  scsi_CmdLength :: u16
  scsi_CmdActual :: u16
  scsi_Flags :: u8
  scsi_Status :: u8
  scsi_SenseData :: u32
  scsi_SenseLength :: u16
  scsi_SenseActual :: u16

definition zero_scsi :: SCSICmd where
  "zero_scsi = \<lparr>scsi_Data = 0, scsi_Length = 0, scsi_Actual = 0, scsi_Command = 0, scsi_CmdLength = 0,
     scsi_CmdActual = 0, scsi_Flags = 0, scsi_Status = 0, scsi_SenseData = 0, scsi_SenseLength = 0, scsi_SenseActual = 0\<rparr>"

text \<open>The structures the driver fills in for a client: struct DriveGeometry, NSDeviceQueryResult and NVMeUnitInfo.\<close>

record DriveGeometry =
  dg_SectorSize :: u32
  dg_TotalSectors :: u32
  dg_Cylinders :: u32
  dg_CylSectors :: u32
  dg_Heads :: u32
  dg_TrackSectors :: u32
  dg_BufMemType :: u32
  dg_DeviceType :: u8
  dg_Flags :: u8
  dg_Reserved :: u16

record NSDeviceQueryResult =
  nsdqr_SizeAvailable :: u32
  nsdqr_DeviceType :: u16
  nsdqr_DeviceSubType :: u16
  nsdqr_SupportedCommands :: "u16 list"

record NVMeUnitInfo =
  nui_StructSize :: u32
  nui_UnitNumber :: u32
  nui_Nsid :: u32
  nui_CtrlFirstUnit :: u32
  nui_CtrlUnitCount :: u32
  nui_CapLo :: u32
  nui_CapHi :: u32
  nui_Version :: u32
  nui_Serial :: "u8 list"
  nui_Model :: "u8 list"
  nui_Firmware :: "u8 list"

datatype client_struct =
    Cs_geometry DriveGeometry
  | Cs_query NSDeviceQueryResult
  | Cs_info NVMeUnitInfo

text \<open>
  A message at the port of the unit task: a client's request, or the internal abort
  request of \<open>abortIO\<close> with its unit and its target.
\<close>

datatype port_msg = Io_msg nat | Abort_msg nat nat

section \<open>Namespaces and Identify data\<close>

text \<open>struct nvme_ns_ids and struct nvme_ns of nvme_identify.h; \<open>ns_unit\<close> is the unit pointer.\<close>

record nvme_ns_ids =
  ids_eui64 :: "u8 list"
  ids_nguid :: "u8 list"
  ids_uuid :: "u8 list"
  ids_csi :: u8

definition zero_ids :: nvme_ns_ids where
  "zero_ids = \<lparr>ids_eui64 = replicate 8 0, ids_nguid = replicate 16 0, ids_uuid = replicate 16 0, ids_csi = 0\<rparr>"

record nvme_ns =
  ns_id :: u32
  ns_lba_shift :: u8
  ns_disk_capacity_sectors :: u64
  ns_unit :: "nat option"
  ns_ms :: u16
  ns_pi_type :: u8
  ns_pic :: u8
  ns_elbaf :: u32
  ns_lbstm :: u64
  ns_ids :: nvme_ns_ids
  ns_flags :: u32

definition zero_ns :: nvme_ns where
  "zero_ns = \<lparr>ns_id = 0, ns_lba_shift = 0, ns_disk_capacity_sectors = 0, ns_unit = None, ns_ms = 0, ns_pi_type = 0,
     ns_pic = 0, ns_elbaf = 0, ns_lbstm = 0, ns_ids = zero_ids, ns_flags = 0\<rparr>"

text \<open>The Command Effects Log, the Host Memory Buffer descriptors and the raw passthrough command.\<close>

record nvme_effects_log =
  fx_acs :: "u8 \<Rightarrow> u32"
  fx_iocs :: "u8 \<Rightarrow> u32"

record nvme_host_mem_buf_desc =
  hd_addr :: u64
  hd_size :: u32

record NVMePassthruCmd =
  pt_Opcode :: u8
  pt_Flags :: u8
  pt_Nsid :: u32
  pt_Cdw2 :: u32
  pt_Cdw3 :: u32
  pt_Metadata :: u32
  pt_Addr :: u32
  pt_MetadataLen :: u32
  pt_DataLen :: u32
  pt_Cdw10 :: u32
  pt_Cdw11 :: u32
  pt_Cdw12 :: u32
  pt_Cdw13 :: u32
  pt_Cdw14 :: u32
  pt_Cdw15 :: u32
  pt_Result :: u32

definition zero_pass :: NVMePassthruCmd where
  "zero_pass = \<lparr>pt_Opcode = 0, pt_Flags = 0, pt_Nsid = 0, pt_Cdw2 = 0, pt_Cdw3 = 0, pt_Metadata = 0, pt_Addr = 0,
     pt_MetadataLen = 0, pt_DataLen = 0, pt_Cdw10 = 0, pt_Cdw11 = 0, pt_Cdw12 = 0, pt_Cdw13 = 0, pt_Cdw14 = 0,
     pt_Cdw15 = 0, pt_Result = 0\<rparr>"

text \<open>Fields of struct NVMeController that bring-up fills from registers and Identify Controller.\<close>

record nvme_caps =
  c_vs :: u32
  c_ctrl_config :: u32
  c_cntlid :: u16
  c_sqsize :: u16
  c_queue_count :: u32
  c_oacs :: u16
  c_wctemp :: u16
  c_cctemp :: u16
  c_abort_limit :: u32
  c_sgls :: u32
  c_max_namespaces :: u32
  c_ctratt :: u32
  c_cntrltype :: u8
  c_shutdown_timeout :: u32
  c_hmpre :: u32
  c_hmmin :: u32
  c_hmminds :: u32
  c_hmmaxd :: u16
  c_dmrl :: u8
  c_dmrsl :: u32
  c_identified :: bool

definition zero_caps :: nvme_caps where
  "zero_caps = \<lparr>c_vs = 0, c_ctrl_config = 0, c_cntlid = 0, c_sqsize = 0, c_queue_count = 0, c_oacs = 0, c_wctemp = 0,
     c_cctemp = 0, c_abort_limit = 0, c_sgls = 0, c_max_namespaces = 0, c_ctratt = 0, c_cntrltype = 0, c_shutdown_timeout = 0,
     c_hmpre = 0, c_hmmin = 0, c_hmminds = 0, c_hmmaxd = 0, c_dmrl = 0, c_dmrsl = 0, c_identified = False\<rparr>"

section \<open>The controller\<close>

datatype nvme_ctrl_state =
    NVME_CTRL_NEW
  | NVME_CTRL_LIVE
  | NVME_CTRL_RESETTING
  | NVME_CTRL_CONNECTING
  | NVME_CTRL_DELETING
  | NVME_CTRL_DELETING_NOIO
  | NVME_CTRL_DEAD

datatype signal =
    Sig_wait nat
  | Sig_reset
  | Sig_msgport
  | Sig_adminport
  | Sig_scan
  | Sig_fw_act
  | Sig_irq

text \<open>
  What the driver does to the world outside its own memory, in program order:
  replies to clients, task signals, MMIO writes, barriers, cache maintenance and the
  admin commands a task waits for (\<open>Ev_sync\<close>).
  (\<open>Ev_flush\<close> and \<open>Ev_flush_ns\<close> carry the to-device flag; the second form does not
  wait for completion.)
\<close>

datatype event =
    Ev_reply nat
  | Ev_signal signal
  | Ev_doorbell u32 u32
  | Ev_mmio u32 u32
  | Ev_barrier
  | Ev_flush u32 u32 bool
  | Ev_flush_ns u32 u32 bool
  | Ev_inval u32 u32
  | Ev_sync nvme_command
  | Ev_vector bool

text \<open>
  \<open>k_unit_waits\<close> records the request a \<open>Wait()\<close> of the unit task is parked on,
  \<open>k_regs\<close> what a read of a controller register returns, \<open>k_scsi\<close>, \<open>k_client\<close> and \<open>k_pass\<close> the
  structures behind \<open>io_Data\<close> pointers; \<open>k_base_units\<close> is the unit list of the device base, by unit handle,
  and \<open>k_nextUnitNumber\<close> its unit counter; the other fields carry the names of struct NVMeController.
\<close>

record NVMeController =
  k_state :: nvme_ctrl_state
  k_flags :: u32
  k_quirks :: u32
  k_db_stride :: u32
  k_admin_q :: nvme_queue
  k_io_q :: nvme_queue
  k_reqs :: "nat \<Rightarrow> nvme_request option"
  k_ctxs :: "nat \<Rightarrow> nvme_io_context option"
  k_ios :: "nat \<Rightarrow> IOStdReq"
  k_units :: "nat \<Rightarrow> NVMeUnit"
  k_retry_list :: "nat list"
  k_io_pending :: "nat list"
  k_ctx_stalled :: "nat list"
  k_msgPort :: "port_msg list"
  k_adminPort :: "nat list"
  k_prp_small :: "u32 \<Rightarrow> u64 list option"
  k_prp_large :: "u32 \<Rightarrow> u64 list option"
  k_dma :: "u32 \<Rightarrow> u32 option"
  k_meta :: "u32 list"
  k_mem :: "u32 \<Rightarrow> u8"
  k_dsm :: "u32 \<Rightarrow> nvme_dsm_range list"
  k_clock :: u32
  k_unit_task :: bool
  k_admin_task :: bool
  k_io_max_inflight :: nat
  k_max_transfer_bytes :: u32
  k_max_hw_sectors :: u32
  k_max_zeroes_sectors :: u32
  k_crdt :: "u16 list"
  k_oaes :: u32
  k_aen_result :: u32
  k_events :: u32
  k_oncs :: u16
  k_mtfa :: u16
  k_cap :: u64
  k_model :: "u8 list"
  k_firmware :: "u8 list"
  k_serial :: "u8 list"
  k_vwc :: u8
  k_openUnits :: u32
  k_firstUnitNumber :: u32
  k_nsCount :: u32
  k_regs :: "u32 \<Rightarrow> u32"
  k_scsi :: "u32 \<Rightarrow> SCSICmd"
  k_client :: "u32 \<Rightarrow> client_struct option"
  k_pass :: "u32 \<Rightarrow> NVMePassthruCmd"
  k_caps :: nvme_caps
  k_namespaces :: "nvme_ns list"
  k_base_units :: "nat list"
  k_nextUnitNumber :: u32
  k_effects :: "(u32 \<times> nvme_effects_log) option"
  k_hmb_descs :: "(u32 \<times> nvme_host_mem_buf_desc list) option"
  k_hmb_nr_descs :: nat
  k_hmb_size :: u32
  k_unit_waits :: "nat option"
  k_trace :: "event list"

definition zero_ctrl :: NVMeController where
  "zero_ctrl = \<lparr>k_state = NVME_CTRL_NEW, k_flags = 0, k_quirks = 0, k_db_stride = 0,
     k_admin_q = zero_queue, k_io_q = zero_queue, k_reqs = (\<lambda>_. None), k_ctxs = (\<lambda>_. None),
     k_ios = (\<lambda>_. zero_io), k_units = (\<lambda>_. zero_unit), k_retry_list = [], k_io_pending = [],
     k_ctx_stalled = [], k_msgPort = [], k_adminPort = [], k_prp_small = (\<lambda>_. None),
     k_prp_large = (\<lambda>_. None), k_dma = (\<lambda>_. None), k_meta = [], k_mem = (\<lambda>_. 0), k_dsm = (\<lambda>_. []),
     k_clock = 0, k_unit_task = False, k_admin_task = False, k_io_max_inflight = 0,
     k_max_transfer_bytes = 0, k_max_hw_sectors = 0, k_max_zeroes_sectors = 0, k_crdt = [0, 0, 0],
     k_oaes = 0, k_aen_result = 0, k_events = 0, k_oncs = 0, k_mtfa = 0, k_cap = 0,
     k_model = replicate 40 0, k_firmware = replicate 8 0, k_serial = replicate 20 0, k_vwc = 0, k_openUnits = 0,
     k_firstUnitNumber = 0, k_nsCount = 0, k_regs = (\<lambda>_. 0), k_scsi = (\<lambda>_. zero_scsi), k_client = (\<lambda>_. None), k_pass = (\<lambda>_. zero_pass),
     k_caps = zero_caps, k_namespaces = [], k_base_units = [], k_nextUnitNumber = 0, k_effects = None,
     k_hmb_descs = None, k_hmb_nr_descs = 0, k_hmb_size = 0, k_unit_waits = None,
     k_trace = []\<rparr>"

section \<open>Access paths\<close>

definition emit :: "event \<Rightarrow> NVMeController \<Rightarrow> NVMeController" where
  "emit e s = s\<lparr>k_trace := k_trace s @ [e]\<rparr>"

definition get_q :: "NVMeController \<Rightarrow> queue_sel \<Rightarrow> nvme_queue" where
  "get_q s sel = (case sel of Admin_q \<Rightarrow> k_admin_q s | Io_q \<Rightarrow> k_io_q s)"

definition upd_q :: "queue_sel \<Rightarrow> (nvme_queue \<Rightarrow> nvme_queue) \<Rightarrow> NVMeController \<Rightarrow> NVMeController" where
  "upd_q sel f s = (case sel of Admin_q \<Rightarrow> s\<lparr>k_admin_q := f (k_admin_q s)\<rparr>
                              | Io_q \<Rightarrow> s\<lparr>k_io_q := f (k_io_q s)\<rparr>)"

definition rq :: "NVMeController \<Rightarrow> nat \<Rightarrow> nvme_request" where
  "rq s r = (case k_reqs s r of Some x \<Rightarrow> x | None \<Rightarrow> zero_req)"

definition upd_req :: "nat \<Rightarrow> (nvme_request \<Rightarrow> nvme_request) \<Rightarrow> NVMeController \<Rightarrow> NVMeController" where
  "upd_req r f s = s\<lparr>k_reqs := (k_reqs s)(r := Some (f (rq s r)))\<rparr>"

definition free_req :: "nat \<Rightarrow> NVMeController \<Rightarrow> NVMeController" where
  "free_req r s = s\<lparr>k_reqs := (k_reqs s)(r := None)\<rparr>"

definition cx :: "NVMeController \<Rightarrow> nat \<Rightarrow> nvme_io_context" where
  "cx s c = (case k_ctxs s c of Some x \<Rightarrow> x | None \<Rightarrow> zero_ctx)"

definition upd_ctx :: "nat \<Rightarrow> (nvme_io_context \<Rightarrow> nvme_io_context) \<Rightarrow> NVMeController \<Rightarrow> NVMeController" where
  "upd_ctx c f s = s\<lparr>k_ctxs := (k_ctxs s)(c := Some (f (cx s c)))\<rparr>"

definition free_ctx :: "nat \<Rightarrow> NVMeController \<Rightarrow> NVMeController" where
  "free_ctx c s = s\<lparr>k_ctxs := (k_ctxs s)(c := None)\<rparr>"

definition upd_io :: "nat \<Rightarrow> (IOStdReq \<Rightarrow> IOStdReq) \<Rightarrow> NVMeController \<Rightarrow> NVMeController" where
  "upd_io i f s = s\<lparr>k_ios := (k_ios s)(i := f (k_ios s i))\<rparr>"

text \<open>memcpy of \<open>n\<close> bytes between disjoint buffers of the 32-bit address space.\<close>

definition mem_copy :: "u32 \<Rightarrow> u32 \<Rightarrow> u32 \<Rightarrow> (u32 \<Rightarrow> u8) \<Rightarrow> u32 \<Rightarrow> u8" where
  "mem_copy dst src n m = (\<lambda>a. if a - dst < n then m (src + (a - dst)) else m a)"

text \<open>
  The allocator calls of emu68-common: dma_zalloc and dma_free on the DMA pool,
  pool_zalloc and pool_free on the metadata pool.
\<close>

definition dma_alloc :: "platform \<Rightarrow> u32 \<Rightarrow> u32 \<Rightarrow> NVMeController \<Rightarrow> (u32 \<times> NVMeController) option" where
  "dma_alloc P al n s = (case p_dma_alloc P al n (\<lambda>a. k_dma s a \<noteq> None) of None \<Rightarrow> None
     | Some a \<Rightarrow> Some (a, s\<lparr>k_dma := (k_dma s)(a := Some n)\<rparr>))"

definition dma_zalloc :: "platform \<Rightarrow> u32 \<Rightarrow> u32 \<Rightarrow> NVMeController \<Rightarrow> (u32 \<times> NVMeController) option" where
  "dma_zalloc P al n s = (case dma_alloc P al n s of None \<Rightarrow> None
     | Some (a, s1) \<Rightarrow> Some (a, s1\<lparr>k_mem := (\<lambda>b. if b - a < n then 0 else k_mem s1 b)\<rparr>))"

definition dma_free :: "u32 \<Rightarrow> NVMeController \<Rightarrow> NVMeController" where
  "dma_free a s = s\<lparr>k_dma := (k_dma s)(a := None)\<rparr>"

definition pool_zalloc :: "platform \<Rightarrow> u32 \<Rightarrow> NVMeController \<Rightarrow> NVMeController option" where
  "pool_zalloc P n s = (if p_pool_alloc P n (k_meta s) then Some (s\<lparr>k_meta := n # k_meta s\<rparr>) else None)"

definition pool_free :: "u32 \<Rightarrow> NVMeController \<Rightarrow> NVMeController" where
  "pool_free n s = s\<lparr>k_meta := remove1 n (k_meta s)\<rparr>"

lemmas access_defs = emit_def get_q_def upd_q_def rq_def upd_req_def free_req_def
  cx_def upd_ctx_def free_ctx_def upd_io_def

end
