(* ===== verification/Nvme_Prp.thy ===== *)
theory Nvme_Prp
  imports Nvme_Types
begin

text \<open>
  PRP construction: \<open>build_prps\<close> of src/nvme/nvme_io.c, the free path of its
  list pages, and the reading of a PRP pair by the device as the NVMe
  specification (4.1.2, quoted in the comment above \<open>build_prps\<close>) defines it.

  The loop of \<open>build_prps\<close> works on the part of the state it touches: the slab
  the list pages come from, the pages recorded on the request, the current list
  page with its write position, PRP2 and the cache maintenance done so far.
\<close>

section \<open>The driver side\<close>

record prp_build =
  pb_heap :: "u32 \<Rightarrow> u64 list option"
  pb_pages :: "u32 list"
  pb_list :: "u32 option"
  pb_pos :: nat
  pb_prp2 :: u64
  pb_events :: "event list"

text \<open>Store into a list page; a store outside the page is outside the model.\<close>

definition prp_store :: "u32 \<Rightarrow> nat \<Rightarrow> u64 \<Rightarrow> (u32 \<Rightarrow> u64 list option) \<Rightarrow> u32 \<Rightarrow> u64 list option" where
  "prp_store a i v h = (case h a of Some xs \<Rightarrow> h(a := Some (xs[i := v])) | None \<Rightarrow> h)"

text \<open>
  The \<open>list == NULL\<close> branch of the loop: at most eight pages, a fresh zeroed
  page, then PRP2 or the chain entry of the previous page.
\<close>

definition prp_new_list :: "platform \<Rightarrow> bool \<Rightarrow> prp_build \<Rightarrow> prp_build + prp_build" where
  "prp_new_list P small b =
    (if length (pb_pages b) \<ge> 8 then Inl b
     else (case p_prp_slab P small (\<lambda>a. pb_heap b a \<noteq> None) of
       None \<Rightarrow> Inl b
     | Some l \<Rightarrow>
        let h = (pb_heap b)(l := Some (replicate (if small then 32 else 512) 0));
            b1 = b\<lparr>pb_heap := h, pb_pages := pb_pages b @ [l], pb_list := Some l, pb_pos := 0\<rparr>
        in if pb_pages b = [] then Inr (b1\<lparr>pb_prp2 := p_le64 P (ucast l)\<rparr>)
           else let prev = last (pb_pages b) in
             Inr (b1\<lparr>pb_heap := prp_store prev 511 (p_le64 P (ucast l)) h,
                     pb_events := pb_events b @ [Ev_flush_ns prev 4096 True]\<rparr>)))"

text \<open>The two writes at the end of an iteration, once a list page is current.\<close>

definition prp_put :: "platform \<Rightarrow> u64 \<Rightarrow> bool \<Rightarrow> prp_build \<Rightarrow> prp_build" where
  "prp_put P entry_addr left b = (case pb_list b of
     None \<Rightarrow> b
   | Some l \<Rightarrow>
       let pos = Suc (pb_pos b) in
       b\<lparr>pb_heap := prp_store l (pb_pos b) (p_le64 P entry_addr) (pb_heap b),
         pb_pos := pos,
         pb_list := (if pos = 511 \<and> left then None else Some l)\<rparr>)"

text \<open>
  The loop over the data pages.  \<open>Inl\<close> is the jump to \<open>free_lists\<close>; the \<open>break\<close> on
  a completely filled page is the \<open>pos = 512\<close> test.
\<close>

function build_prps_loop ::
    "platform \<Rightarrow> bool \<Rightarrow> u64 \<Rightarrow> nat \<Rightarrow> nat \<Rightarrow> prp_build \<Rightarrow> prp_build + prp_build" where
  "build_prps_loop P small base nr i b =
    (if nr \<le> i then Inr b
     else (case (if pb_list b = None then prp_new_list P small b else Inr b) of
       Inl b' \<Rightarrow> Inl b'
     | Inr b1 \<Rightarrow>
        let b2 = prp_put P (base + of_nat i * 4096) (Suc i < nr) b1 in
        if pb_list b2 \<noteq> None \<and> pb_pos b2 = 512 then Inr b2
        else build_prps_loop P small base nr (Suc i) b2))"
  by pat_completeness auto
termination by (relation "measure (\<lambda>(P, small, base, nr, i, b). nr - i)") auto

declare build_prps_loop.simps [simp del]

lemma build_prps_loop_step:
  assumes "\<not> nr \<le> i" "(if pb_list b = None then prp_new_list P small b else Inr b) = Inr b1"
    and "b2 = prp_put P (base + of_nat i * 4096) (Suc i < nr) b1" "pb_pos b2 \<noteq> 512"
  shows "build_prps_loop P small base nr i b = build_prps_loop P small base nr (Suc i) b2"
  using assms by (subst build_prps_loop.simps) (simp add: Let_def)

text \<open>free_lists: every page recorded so far goes back to the slab.\<close>

definition free_lists :: "u32 list \<Rightarrow> (u32 \<Rightarrow> u64 list option) \<Rightarrow> u32 \<Rightarrow> u64 list option" where
  "free_lists pages h = (\<lambda>a. if a \<in> set pages then None else h a)"

definition prp_slab_sel :: "bool \<Rightarrow> NVMeController \<Rightarrow> u32 \<Rightarrow> u64 list option" where
  "prp_slab_sel small s = (if small then k_prp_small s else k_prp_large s)"

definition set_prp_slab ::
    "bool \<Rightarrow> (u32 \<Rightarrow> u64 list option) \<Rightarrow> NVMeController \<Rightarrow> NVMeController" where
  "set_prp_slab small h s = (if small then s\<lparr>k_prp_small := h\<rparr> else s\<lparr>k_prp_large := h\<rparr>)"

definition prp_first :: "u32 \<Rightarrow> u32" where
  "prp_first buf = ucast (4096 - ((ucast buf :: u64) AND 4095))"

definition prp_nr_data_pages :: "u32 \<Rightarrow> u32 \<Rightarrow> u32" where
  "prp_nr_data_pages buf bytes = (bytes - prp_first buf + 4095) div 4096"

definition set_prps :: "u64 \<Rightarrow> u64 \<Rightarrow> u32 list \<Rightarrow> nvme_request \<Rightarrow> nvme_request" where
  "set_prps prp1 prp2 pages r = r\<lparr>r_cmd := (r_cmd r)\<lparr>cmd_prp1 := prp1, cmd_prp2 := prp2\<rparr>,
     r_prp_pages := pages\<rparr>"

text \<open>build_prps: True is the return value 0, False the return value -1.\<close>

definition build_prps ::
    "platform \<Rightarrow> nat \<Rightarrow> u32 \<Rightarrow> u32 \<Rightarrow> NVMeController \<Rightarrow> bool \<times> NVMeController" where
  "build_prps P r buf bytes s =
    (let buf_addr = (ucast buf :: u64);
         first = prp_first buf;
         prp1 = p_le64 P buf_addr;
         prp2_old = cmd_prp2 (r_cmd (rq s r))
     in if bytes \<le> first then (True, upd_req r (set_prps prp1 0 []) s)
        else let nr = prp_nr_data_pages buf bytes in
          if nr = 1 then (True, upd_req r (set_prps prp1 (p_le64 P (buf_addr + ucast first)) []) s)
          else let small = nr \<le> 32;
                   b0 = \<lparr>pb_heap = prp_slab_sel small s, pb_pages = [], pb_list = None, pb_pos = 0,
                         pb_prp2 = prp2_old, pb_events = []\<rparr>
            in (case build_prps_loop P small (buf_addr + ucast first) (unat nr) 0 b0 of
                 Inr b \<Rightarrow>
                   let ev = pb_events b @ (case pb_list b of None \<Rightarrow> []
                              | Some l \<Rightarrow> [Ev_flush_ns l (if small then 256 else 4096) True]);
                       s1 = upd_req r (\<lambda>q. (set_prps prp1 (pb_prp2 b) (pb_pages b) q)
                              \<lparr>r_flags := r_flags q OR NVME_REQ_PRP_LIST OR NVME_REQ_PRP_SLAB
                                 OR (if small then NVME_REQ_PRP_SMALL else 0)\<rparr>) s
                   in (True, (set_prp_slab small (pb_heap b) s1)\<lparr>k_trace := k_trace s @ ev\<rparr>)
               | Inl b \<Rightarrow>
                   (False, (set_prp_slab small (free_lists (pb_pages b) (pb_heap b))
                      (upd_req r (set_prps prp1 (pb_prp2 b) []) s))\<lparr>k_trace := k_trace s @ pb_events b\<rparr>)))"

section \<open>The device side\<close>

text \<open>
  How a controller reads the list at address \<open>l\<close> when \<open>n\<close> data pages are left:
  a list runs to the end of its memory page; if the rest of the transfer fits
  into the entries that are left, they are all data pointers, otherwise the last
  one is a pointer to the next list page.
\<close>

definition prp_avail :: "u32 \<Rightarrow> nat" where
  "prp_avail l = (4096 - unat l mod 4096) div 8"

function prp_walk :: "platform \<Rightarrow> (u32 \<Rightarrow> u64 list option) \<Rightarrow> u32 \<Rightarrow> nat \<Rightarrow> u64 list option" where
  "prp_walk P h l n =
    (case h l of None \<Rightarrow> None
     | Some xs \<Rightarrow>
        if n \<le> prp_avail l
        then (if n \<le> length xs then Some (map (p_le64 P) (take n xs)) else None)
        else if prp_avail l < 2 \<or> length xs < prp_avail l then None
        else (case prp_walk P h (ucast (p_le64 P (xs ! (prp_avail l - 1)))) (n - (prp_avail l - 1)) of
                None \<Rightarrow> None
              | Some ys \<Rightarrow> Some (map (p_le64 P) (take (prp_avail l - 1) xs) @ ys)))"
  by pat_completeness auto
termination by (relation "measure (\<lambda>(P, h, l, n). n)") auto

declare prp_walk.simps [simp del]

text \<open>The data pointers a device derives from PRP1 and PRP2 for a transfer.\<close>

definition prp_decode ::
    "platform \<Rightarrow> (u32 \<Rightarrow> u64 list option) \<Rightarrow> u64 \<Rightarrow> u64 \<Rightarrow> u32 \<Rightarrow> u64 list option" where
  "prp_decode P h prp1 prp2 bytes =
    (let a = p_le64 P prp1; off = unat (a AND 4095); first = 4096 - off in
     if unat bytes \<le> first then Some [a]
     else let n = (unat bytes - first + 4095) div 4096 in
       if n = 1 then Some [a, p_le64 P prp2]
       else map_option (\<lambda>xs. a # xs) (prp_walk P h (ucast (p_le64 P prp2)) n))"

text \<open>What the data pointers must be: the buffer and the pages that follow it.\<close>

definition prp_expected :: "u32 \<Rightarrow> u32 \<Rightarrow> u64 list" where
  "prp_expected buf bytes =
    (let first = 4096 - unat buf mod 4096 in
     ucast buf # (if unat bytes \<le> first then []
       else map (\<lambda>k. ucast buf + of_nat first + of_nat k * 4096)
              [0..<(unat bytes - first + 4095) div 4096]))"

section \<open>The list chain as an invariant\<close>

text \<open>
  \<open>prp_chain\<close>: after \<open>i\<close> data entries, page \<open>j\<close> of the chain holds the entries
  \<open>511 * j\<close> onwards and its last slot points to the next page.
\<close>

definition prp_chain ::
    "platform \<Rightarrow> u64 \<Rightarrow> nat \<Rightarrow> (u32 \<Rightarrow> u64 list option) \<Rightarrow> u32 list \<Rightarrow> nat \<Rightarrow> bool" where
  "prp_chain P base sz h pages i \<longleftrightarrow> (\<forall>j < length pages. \<exists>xs. h (pages ! j) = Some xs \<and> length xs = sz \<and>
     (\<forall>k < 511. 511 * j + k < i \<longrightarrow> xs ! k = p_le64 P (base + of_nat (511 * j + k) * 4096)) \<and>
     (Suc j < length pages \<longrightarrow> xs ! 511 = p_le64 P (ucast (pages ! Suc j))))"

definition prp_inv ::
    "platform \<Rightarrow> bool \<Rightarrow> u64 \<Rightarrow> nat \<Rightarrow> (u32 \<Rightarrow> u64 list option) \<Rightarrow> nat \<Rightarrow> prp_build \<Rightarrow> bool" where
  "prp_inv P small base nr h0 i b \<longleftrightarrow>
     (\<forall>a \<in> set (pb_pages b). h0 a = None \<and> (if small then unat a mod 256 = 0 else unat a mod 4096 = 0)) \<and>
     (\<forall>a. a \<notin> set (pb_pages b) \<longrightarrow> pb_heap b a = h0 a) \<and>
     distinct (pb_pages b) \<and>
     length (pb_pages b) \<le> 8 \<and>
     prp_chain P base (if small then 32 else 512) (pb_heap b) (pb_pages b) i \<and>
     (if pb_pages b = [] then i = 0 \<and> pb_list b = None
      else i = 511 * (length (pb_pages b) - 1) + pb_pos b \<and> 0 < pb_pos b \<and> pb_pos b \<le> 511 \<and>
           pb_prp2 b = p_le64 P (ucast (hd (pb_pages b))) \<and>
           pb_list b = (if pb_pos b = 511 \<and> i < nr then None else Some (last (pb_pages b))))"

lemma prp_chain_fresh:
  assumes "prp_chain P base sz h pages i" "l \<notin> set pages" "i = 511 * length pages"
    and "pages \<noteq> [] \<Longrightarrow> sz = 512" "distinct pages"
  shows "prp_chain P base sz
     (if pages = [] then h(l := Some (replicate sz 0))
      else prp_store (last pages) 511 (p_le64 P (ucast l)) (h(l := Some (replicate sz 0))))
     (pages @ [l]) i"
  unfolding prp_chain_def
proof (intro allI impI)
  fix j assume j: "j < length (pages @ [l])"
  show "\<exists>xs. (if pages = [] then h(l := Some (replicate sz 0))
      else prp_store (last pages) 511 (p_le64 P (ucast l)) (h(l := Some (replicate sz 0))))
      ((pages @ [l]) ! j) = Some xs \<and> length xs = sz \<and>
     (\<forall>k < 511. 511 * j + k < i \<longrightarrow> xs ! k = p_le64 P (base + of_nat (511 * j + k) * 4096)) \<and>
     (Suc j < length (pages @ [l]) \<longrightarrow> xs ! 511 = p_le64 P (ucast ((pages @ [l]) ! Suc j)))"
  proof (cases "j = length pages")
    case True
    then show ?thesis using assms(2,3)
      by (auto simp: prp_store_def nth_append last_conv_nth split: option.splits)
  next
    case False
    with j have jl: "j < length pages" by simp
    with assms(1) obtain xs where xs: "h (pages ! j) = Some xs" "length xs = sz"
      "\<forall>k < 511. 511 * j + k < i \<longrightarrow> xs ! k = p_le64 P (base + of_nat (511 * j + k) * 4096)"
      "Suc j < length pages \<longrightarrow> xs ! 511 = p_le64 P (ucast (pages ! Suc j))"
      unfolding prp_chain_def by blast
    have ne: "pages \<noteq> []" using jl by auto
    with assms(4) have sz: "sz = 512" by blast
    have nl: "pages ! j \<noteq> l" using jl assms(2) by auto
    show ?thesis
    proof (cases "Suc j = length pages")
      case True
      then have lj: "last pages = pages ! j" using ne by (simp add: last_conv_nth flip: True)
      show ?thesis
        using xs ne sz nl lj True jl
        by (intro exI [of _ "xs[511 := p_le64 P (ucast l)]"]) (simp add: prp_store_def nth_append)
    next
      case False
      then have lj: "last pages \<noteq> pages ! j"
        using ne jl assms(5) by (simp add: last_conv_nth nth_eq_iff_index_eq)
      show ?thesis
        using xs ne sz nl lj jl False
        by (intro exI [of _ xs]) (auto simp: prp_store_def nth_append split: option.splits)
    qed
  qed
qed

lemma prp_chain_put:
  assumes "prp_chain P base sz h pages i" "distinct pages" "pages \<noteq> []"
    and "i = 511 * (length pages - 1) + p" "p < 511" "p < sz"
  shows "prp_chain P base sz
     (prp_store (last pages) p (p_le64 P (base + of_nat i * 4096)) h) pages (Suc i)"
  unfolding prp_chain_def
proof (intro allI impI)
  fix j assume j: "j < length pages"
  with assms(1) obtain xs where xs: "h (pages ! j) = Some xs" "length xs = sz"
    "\<forall>k < 511. 511 * j + k < i \<longrightarrow> xs ! k = p_le64 P (base + of_nat (511 * j + k) * 4096)"
    "Suc j < length pages \<longrightarrow> xs ! 511 = p_le64 P (ucast (pages ! Suc j))"
    unfolding prp_chain_def by blast
  have lp: "last pages = pages ! (length pages - 1)" using assms(3) by (simp add: last_conv_nth)
  show "\<exists>xs. prp_store (last pages) p (p_le64 P (base + of_nat i * 4096)) h (pages ! j) = Some xs \<and>
     length xs = sz \<and>
     (\<forall>k < 511. 511 * j + k < Suc i \<longrightarrow> xs ! k = p_le64 P (base + of_nat (511 * j + k) * 4096)) \<and>
     (Suc j < length pages \<longrightarrow> xs ! 511 = p_le64 P (ucast (pages ! Suc j)))"
  proof (cases "Suc j = length pages")
    case True
    then have "length pages - 1 = j" by simp
    then have "last pages = pages ! j" "i = 511 * j + p" using lp assms(4) by simp_all
    then show ?thesis
      using xs True assms(5,6)
      by (intro exI [of _ "xs[p := p_le64 P (base + of_nat i * 4096)]"])
        (auto simp: prp_store_def nth_list_update less_Suc_eq)
  next
    case False
    with j have jl: "j < length pages - 1" by simp
    then have "last pages \<noteq> pages ! j"
      using lp assms(2) j by (simp add: nth_eq_iff_index_eq)
    moreover have "511 * j + k < i" if "k < 511" for k
      using that jl assms(4) by (cases "length pages") auto
    ultimately show ?thesis
      using xs by (intro exI [of _ xs]) (auto simp: prp_store_def split: option.splits)
  qed
qed

text \<open>Inside an iteration: a list page is current and has room.\<close>

definition prp_frame ::
    "bool \<Rightarrow> (u32 \<Rightarrow> u64 list option) \<Rightarrow> prp_build \<Rightarrow> bool" where
  "prp_frame small h0 b \<longleftrightarrow>
     (\<forall>a \<in> set (pb_pages b). h0 a = None \<and> (if small then unat a mod 256 = 0 else unat a mod 4096 = 0)) \<and>
     (\<forall>a. a \<notin> set (pb_pages b) \<longrightarrow> pb_heap b a = h0 a) \<and>
     distinct (pb_pages b) \<and> length (pb_pages b) \<le> 8"

definition prp_mid ::
    "platform \<Rightarrow> bool \<Rightarrow> u64 \<Rightarrow> (u32 \<Rightarrow> u64 list option) \<Rightarrow> nat \<Rightarrow> prp_build \<Rightarrow> bool" where
  "prp_mid P small base h0 i b \<longleftrightarrow> prp_frame small h0 b \<and> pb_pages b \<noteq> [] \<and>
     prp_chain P base (if small then 32 else 512) (pb_heap b) (pb_pages b) i \<and>
     i = 511 * (length (pb_pages b) - 1) + pb_pos b \<and> pb_pos b < 511 \<and>
     pb_prp2 b = p_le64 P (ucast (hd (pb_pages b))) \<and> pb_list b = Some (last (pb_pages b))"

lemma prp_inv_frame: "prp_inv P small base nr h0 i b \<Longrightarrow> prp_frame small h0 b"
  by (simp add: prp_inv_def prp_frame_def)

lemma prp_inv_mid:
  assumes "prp_inv P small base nr h0 i b" "pb_list b \<noteq> None" "i < nr"
  shows "prp_mid P small base h0 i b"
  using assms unfolding prp_inv_def prp_mid_def prp_frame_def by (auto split: if_splits)

lemma prp_chain_dom: "prp_chain P base sz h pages i \<Longrightarrow> a \<in> set pages \<Longrightarrow> h a \<noteq> None"
  unfolding prp_chain_def in_set_conv_nth by fastforce

lemma prp_frame_new:
  assumes "prp_frame small h0 b" "pb_heap b l = None" "length (pb_pages b) < 8"
    and "if small then unat l mod 256 = 0 else unat l mod 4096 = 0" "l \<notin> set (pb_pages b)"
    and "\<And>a. a \<notin> set (pb_pages b) \<Longrightarrow> a \<noteq> l \<Longrightarrow> h a = pb_heap b a"
    and "pb_pages b' = pb_pages b @ [l]" "pb_heap b' = h"
  shows "prp_frame small h0 b'"
  using assms unfolding prp_frame_def by (auto split: if_splits)

lemma prp_new_list_mid:
  assumes inv: "prp_inv P small base nr h0 i b" and l0: "pb_list b = None" and "i < nr"
    and sm: "small \<Longrightarrow> nr \<le> 32" and ok: "prp_slab_ok P" and r: "prp_new_list P small b = Inr b1"
  shows "prp_mid P small base h0 i b1"
proof -
  have pages: "i = 511 * length (pb_pages b)"
    using inv l0 unfolding prp_inv_def
    by (cases "pb_pages b") (auto split: if_splits)
  from r obtain l where lt: "length (pb_pages b) < 8"
    and l: "p_prp_slab P small (\<lambda>a. pb_heap b a \<noteq> None) = Some l"
    unfolding prp_new_list_def by (auto split: if_splits option.splits)
  have fr: "pb_heap b l = None" "if small then unat l mod 256 = 0 else unat l mod 4096 = 0"
    using prp_slab_okD [OF ok l] by auto
  have ch: "prp_chain P base (if small then 32 else 512) (pb_heap b) (pb_pages b) i"
    using inv by (simp add: prp_inv_def)
  have nl: "l \<notin> set (pb_pages b)" using prp_chain_dom [OF ch, of l] fr(1) by blast
  have big: "pb_pages b \<noteq> [] \<Longrightarrow> \<not> small"
    using pages sm \<open>i < nr\<close> by (cases "pb_pages b") auto
  note chn = prp_chain_fresh [OF ch nl pages]
  show ?thesis
  proof (cases "pb_pages b = []")
    case True
    then have b1: "pb_heap b1 = (pb_heap b)(l := Some (replicate (if small then 32 else 512) 0))"
      "pb_pages b1 = [l]" "pb_list b1 = Some l" "pb_pos b1 = 0" "pb_prp2 b1 = p_le64 P (ucast l)"
      using r l lt by (auto simp: prp_new_list_def Let_def)
    have "prp_frame small h0 b1"
      by (rule prp_frame_new [OF prp_inv_frame [OF inv] fr(1) lt fr(2) nl _ _ refl])
        (use True b1 in auto)
    then show ?thesis using chn True b1 pages by (simp add: prp_mid_def)
  next
    case False
    then have b1: "pb_heap b1 = prp_store (last (pb_pages b)) 511 (p_le64 P (ucast l))
        ((pb_heap b)(l := Some (replicate (if small then 32 else 512) 0)))"
      "pb_pages b1 = pb_pages b @ [l]" "pb_list b1 = Some l" "pb_pos b1 = 0" "pb_prp2 b1 = pb_prp2 b"
      using r l lt by (auto simp: prp_new_list_def Let_def)
    have "prp_frame small h0 b1"
      by (rule prp_frame_new [OF prp_inv_frame [OF inv] fr(1) lt fr(2) nl _ b1(2) refl])
        (use False b1(1) in \<open>auto simp: prp_store_def split: option.splits\<close>)
    moreover have "pb_prp2 b = p_le64 P (ucast (hd (pb_pages b)))" "distinct (pb_pages b)"
      using inv False by (auto simp: prp_inv_def)
    ultimately show ?thesis using chn False b1 pages big by (simp add: prp_mid_def)
  qed
qed

lemma prp_put_inv:
  assumes m: "prp_mid P small base h0 i b" and "i < nr" and sm: "small \<Longrightarrow> nr \<le> 32"
    and b': "b' = prp_put P (base + of_nat i * 4096) (Suc i < nr) b"
  shows "prp_inv P small base nr h0 (Suc i) b'" "pb_pos b' < 512"
proof -
  let ?l = "last (pb_pages b)"
  have e: "pb_heap b' = prp_store ?l (pb_pos b) (p_le64 P (base + of_nat i * 4096)) (pb_heap b)"
    "pb_pos b' = Suc (pb_pos b)" "pb_pages b' = pb_pages b" "pb_prp2 b' = pb_prp2 b"
    "pb_list b' = (if pb_pos b' = 511 \<and> Suc i < nr then None else Some ?l)"
    using m by (auto simp: b' prp_put_def prp_mid_def Let_def)
  have "pb_pos b < (if small then 32 else 512)"
    using m sm \<open>i < nr\<close> by (auto simp: prp_mid_def)
  then have ch: "prp_chain P base (if small then 32 else 512) (pb_heap b') (pb_pages b') (Suc i)"
    using m unfolding e(1,3) by (intro prp_chain_put) (auto simp: prp_mid_def prp_frame_def)
  have "?l \<in> set (pb_pages b)" using m by (simp add: prp_mid_def)
  then have fr: "prp_frame small h0 b'"
    using m unfolding prp_frame_def e(1,3)
    by (auto simp: prp_store_def prp_mid_def prp_frame_def split: option.splits)
  show "prp_inv P small base nr h0 (Suc i) b'" "pb_pos b' < 512"
    using fr ch m e unfolding prp_inv_def prp_mid_def prp_frame_def by auto
qed

lemma build_prps_loop_inv:
  assumes "prp_inv P small base nr h0 i b" "i \<le> nr" "small \<Longrightarrow> nr \<le> 32" "prp_slab_ok P"
  shows "case build_prps_loop P small base nr i b of
           Inr b' \<Rightarrow> prp_inv P small base nr h0 nr b'
         | Inl b' \<Rightarrow> prp_frame small h0 b'"
  using assms
proof (induction P small base nr i b rule: build_prps_loop.induct)
  case (1 P small base nr i b)
  show ?case
  proof (cases "nr \<le> i")
    case True
    then show ?thesis using "1.prems" by (simp add: build_prps_loop.simps)
  next
    case False
    then have lt: "i < nr" by simp
    let ?new = "if pb_list b = None then prp_new_list P small b else Inr b"
    show ?thesis
    proof (cases ?new)
      case (Inl b')
      then have "b' = b"
        by (auto simp: prp_new_list_def Let_def split: if_splits option.splits)
      then show ?thesis
        using Inl False prp_inv_frame [OF "1.prems"(1)] by (simp add: build_prps_loop.simps)
    next
      case (Inr b1)
      have mid: "prp_mid P small base h0 i b1"
        using Inr prp_new_list_mid [OF "1.prems"(1) _ lt "1.prems"(3,4), of b1]
          prp_inv_mid [OF "1.prems"(1) _ lt] by (auto split: if_splits)
      let ?b2 = "prp_put P (base + of_nat i * 4096) (Suc i < nr) b1"
      note put = prp_put_inv [OF mid lt "1.prems"(3) refl]
      have "build_prps_loop P small base nr i b = build_prps_loop P small base nr (Suc i) ?b2"
        using False Inr put(2) by (intro build_prps_loop_step) auto
      moreover have "\<not> (pb_list ?b2 \<noteq> None \<and> pb_pos ?b2 = 512)" using put(2) by simp
      ultimately show ?thesis
        using "1.IH" [OF False Inr refl] put(1) lt "1.prems" by simp
    qed
  qed
qed

section \<open>Reading the chain back\<close>

lemma prp_avail_large [simp]: "unat l mod 4096 = 0 \<Longrightarrow> prp_avail l = 512"
  by (simp add: prp_avail_def)

lemma prp_avail_small: "unat l mod 256 = 0 \<Longrightarrow> 32 \<le> prp_avail l"
proof -
  assume "unat l mod 256 = 0"
  then obtain k where "unat l = 256 * k" by (metis mod_0_imp_dvd dvdE)
  then have "unat l mod 4096 = 256 * (k mod 16)" by (simp add: mult_mod_right)
  moreover have "k mod 16 \<le> 15" by simp
  ultimately show ?thesis by (simp add: prp_avail_def)
qed

lemma map_take_entries:
  assumes "n \<le> length xs" "\<And>k. k < n \<Longrightarrow> xs ! k = f (g (m + k))" "\<And>x. f (f x) = x"
  shows "map f (take n xs) = map g [m..<m + n]"
  using assms by (intro nth_equalityI) (auto simp: nth_append)

lemma prp_walk_chain:
  assumes inv: "prp_inv P small base nr h0 nr b" and le: "le_ok P" and "0 < nr"
    and sm: "small \<Longrightarrow> nr \<le> 32" and ok: "nr \<le> 511 \<or> nr mod 511 \<noteq> 1"
    and j: "j < length (pb_pages b)"
  shows "prp_walk P (pb_heap b) (pb_pages b ! j) (nr - 511 * j)
       = Some (map (\<lambda>k. base + of_nat k * 4096) [511 * j..<nr])"
  using j
proof (induction "length (pb_pages b) - j" arbitrary: j rule: less_induct)
  case less
  let ?ps = "pb_pages b" and ?l = "pb_pages b ! j" and ?g = "\<lambda>k. base + of_nat k * 4096 :: u64"
  have ne: "?ps \<noteq> []" using less.prems by auto
  have nr: "nr = 511 * (length ?ps - 1) + pb_pos b" "0 < pb_pos b" "pb_pos b \<le> 511"
    using inv ne by (auto simp: prp_inv_def)
  have ch: "prp_chain P base (if small then 32 else 512) (pb_heap b) ?ps nr"
    using inv by (simp add: prp_inv_def)
  with less.prems obtain xs where xs: "pb_heap b ?l = Some xs" "length xs = (if small then 32 else 512)"
    "\<And>k. k < 511 \<Longrightarrow> 511 * j + k < nr \<Longrightarrow> xs ! k = p_le64 P (?g (511 * j + k))"
    "Suc j < length ?ps \<Longrightarrow> xs ! 511 = p_le64 P (ucast (?ps ! Suc j))"
    unfolding prp_chain_def by blast
  have al: "if small then unat ?l mod 256 = 0 else unat ?l mod 4096 = 0"
    using inv less.prems by (simp add: prp_inv_def)
  have av: "if small then 32 \<le> prp_avail ?l else prp_avail ?l = 512"
    using al prp_avail_small by (auto split: if_splits)
  show ?case
  proof (cases "Suc j = length ?ps")
    case True
    then have n: "nr - 511 * j = pb_pos b" "511 * j + pb_pos b = nr" using nr by auto
    then have "pb_pos b \<le> length xs" "pb_pos b \<le> prp_avail ?l"
      using xs(2) av nr sm by (auto split: if_splits)
    then show ?thesis
      using xs(1,3) n nr(3) map_take_entries [of "pb_pos b" xs "p_le64 P" ?g "511 * j"] le_okD(3) [OF le]
      by (subst prp_walk.simps) auto
  next
    case False
    then have sj: "Suc j < length ?ps" using less.prems by simp
    then have two: "511 * Suc j < nr" using nr by (cases "length ?ps") auto
    then have ns: "\<not> small" using sm by auto
    have n512: "nr - 511 * j \<noteq> 512"
    proof
      assume "nr - 511 * j = 512"
      then have "nr = 1 + 511 * Suc j" by simp
      then have "nr mod 511 = 1" "\<not> nr \<le> 511" by simp_all
      then show False using ok by simp
    qed
    have IH: "prp_walk P (pb_heap b) (?ps ! Suc j) (nr - 511 * Suc j)
        = Some (map ?g [511 * Suc j..<nr])"
      using less.hyps [of "Suc j"] sj less.prems by simp
    have tk: "map (p_le64 P) (take 511 xs) = map ?g [511 * j..<511 * j + 511]"
      using xs ns two le_okD(3) [OF le] by (intro map_take_entries) auto
    have "prp_walk P (pb_heap b) ?l (nr - 511 * j)
        = map_option (\<lambda>ys. map (p_le64 P) (take 511 xs) @ ys)
            (prp_walk P (pb_heap b) (?ps ! Suc j) (nr - 511 * Suc j))"
      using xs(1,2,4) ns av sj two n512 le_okD(3) [OF le]
      by (subst prp_walk.simps) (auto simp: ucast_up_down_32 add.commute split: option.splits)
    also have "\<dots> = Some (map ?g ([511 * j..<511 * j + 511] @ [511 * j + 511..<nr]))"
      using IH tk by (simp add: add.commute)
    also have "[511 * j..<511 * j + 511] @ [511 * j + 511..<nr] = [511 * j..<nr]"
      using two upt_add_eq_append [of "511 * j" "511 * j + 511" "nr - (511 * j + 511)"] by simp
    finally show ?thesis .
  qed
qed

lemma unat_prp_first: "unat (prp_first buf) = 4096 - unat buf mod 4096"
proof -
  have m: "unat ((ucast buf :: u64) AND 4095) = unat buf mod 4096" by (simp add: unat_and_4095)
  then have "unat (4096 - ((ucast buf :: u64) AND 4095)) = 4096 - unat buf mod 4096"
    by (subst unat_sub_le) (auto intro: less_imp_le)
  then show ?thesis unfolding prp_first_def
    by (simp add: unat_ucast_mod)
qed

lemma unat_prp_nr:
  assumes "\<not> bytes \<le> prp_first buf" "unat bytes + 4095 < 2 ^ 32"
  shows "unat (prp_nr_data_pages buf bytes)
       = (unat bytes - (4096 - unat buf mod 4096) + 4095) div 4096"
proof -
  have "unat (prp_first buf) \<le> unat bytes" using assms(1) by (simp add: word_le_nat_alt)
  then have r: "unat (bytes - prp_first buf) = unat bytes - (4096 - unat buf mod 4096)"
    by (simp add: unat_sub_le unat_prp_first)
  moreover have "unat (bytes - prp_first buf + 4095) = unat (bytes - prp_first buf) + 4095"
    using assms(2) r by (subst unat_add_no_wrap) auto
  ultimately show ?thesis by (simp add: prp_nr_data_pages_def unat_div_distrib)
qed

lemma prp_inv_start:
  "prp_inv P small base nr h0 0
     \<lparr>pb_heap = h0, pb_pages = [], pb_list = None, pb_pos = 0, pb_prp2 = p2, pb_events = ev\<rparr>"
  by (simp add: prp_inv_def prp_chain_def)

lemma rq_upd_req [state_simps, simp]: "rq (upd_req r f s) r = f (rq s r)"
  by (simp add: rq_def upd_req_def)

lemma prp_slab_sel_set [simp]:
  "prp_slab_sel small ((set_prp_slab small h s)\<lparr>k_trace := t\<rparr>) = h"
  by (simp add: prp_slab_sel_def set_prp_slab_def)

lemma rq_set_prp_slab [simp]: "rq ((set_prp_slab small h s)\<lparr>k_trace := t\<rparr>) r = rq s r"
  by (simp add: rq_def set_prp_slab_def)

text \<open>Success with a list: the loop invariant at the end describes the request.\<close>

lemma build_prps_listE:
  assumes "prp_slab_ok P" "\<not> bytes \<le> prp_first buf" "prp_nr_data_pages buf bytes \<noteq> 1"
    and "build_prps P r buf bytes s = (True, s')"
  defines "nr \<equiv> unat (prp_nr_data_pages buf bytes)"
  obtains b where "prp_inv P (nr \<le> 32) (ucast buf + ucast (prp_first buf)) nr (prp_slab_sel (nr \<le> 32) s) nr b"
    "prp_slab_sel (nr \<le> 32) s' = pb_heap b" "cmd_prp1 (r_cmd (rq s' r)) = p_le64 P (ucast buf)"
    "cmd_prp2 (r_cmd (rq s' r)) = pb_prp2 b" "r_prp_pages (rq s' r) = pb_pages b"
proof -
  define b0 where "b0 = \<lparr>pb_heap = prp_slab_sel (nr \<le> 32) s, pb_pages = [], pb_list = None, pb_pos = 0,
      pb_prp2 = cmd_prp2 (r_cmd (rq s r)), pb_events = []\<rparr>"
  have sm: "prp_nr_data_pages buf bytes \<le> 32 \<longleftrightarrow> nr \<le> 32" by (simp add: nr_def word_le_nat_alt)
  let ?loop = "build_prps_loop P (nr \<le> 32) (ucast buf + ucast (prp_first buf)) nr 0 b0"
  obtain b where b: "?loop = Inr b"
    using assms(2-4) unfolding build_prps_def
    by (cases ?loop) (auto simp: Let_def sm b0_def simp flip: nr_def)
  have "prp_inv P (nr \<le> 32) (ucast buf + ucast (prp_first buf)) nr (prp_slab_sel (nr \<le> 32) s) 0 b0"
    unfolding b0_def by (rule prp_inv_start)
  from build_prps_loop_inv [OF this _ _ assms(1)] b
  have "prp_inv P (nr \<le> 32) (ucast buf + ucast (prp_first buf)) nr (prp_slab_sel (nr \<le> 32) s) nr b"
    by simp
  moreover have "s' = snd (build_prps P r buf bytes s)" using assms(4) by simp
  ultimately show thesis
    using that [of b] assms(2,3) b unfolding build_prps_def
    by (simp add: Let_def sm set_prps_def b0_def flip: nr_def)
qed

text \<open>Both sides of the comparison in terms of the driver's own page count.\<close>

lemma prp_first_cmp: "unat bytes \<le> 4096 - unat buf mod 4096 \<longleftrightarrow> bytes \<le> prp_first buf"
  by (simp add: word_le_nat_alt unat_prp_first)

lemma prp_first_of_nat: "of_nat (4096 - unat buf mod 4096) = (ucast (prp_first buf) :: u64)"
  by (metis of_nat_unat unat_prp_first)

lemma prp_expected_eq:
  assumes "unat bytes + 4095 < 2 ^ 32"
  shows "prp_expected buf bytes = ucast buf # (if bytes \<le> prp_first buf then []
     else map (\<lambda>k. ucast buf + ucast (prp_first buf) + of_nat k * 4096)
            [0..<unat (prp_nr_data_pages buf bytes)])"
  unfolding prp_expected_def Let_def prp_first_cmp prp_first_of_nat
  using unat_prp_nr [OF _ assms, of buf] by simp

lemma prp_decode_eq:
  assumes "le_ok P" "unat bytes + 4095 < 2 ^ 32"
  shows "prp_decode P h (p_le64 P (ucast buf)) prp2 bytes =
    (if bytes \<le> prp_first buf then Some [ucast buf]
     else if prp_nr_data_pages buf bytes = 1 then Some [ucast buf, p_le64 P prp2]
     else map_option (\<lambda>xs. ucast buf # xs)
            (prp_walk P h (ucast (p_le64 P prp2)) (unat (prp_nr_data_pages buf bytes))))"
proof -
  have a4: "unat ((ucast buf :: u64) AND 4095) = unat buf mod 4096" by (simp add: unat_and_4095)
  have one: "unat (prp_nr_data_pages buf bytes) = 1 \<longleftrightarrow> prp_nr_data_pages buf bytes = 1"
    by (metis unat_1 word_unat_eq_iff)
  show ?thesis
  proof (cases "bytes \<le> prp_first buf")
    case True
    then show ?thesis
      by (simp only: prp_decode_def Let_def le_okD(3) [OF assms(1)] a4 prp_first_cmp if_True)
  next
    case False
    then show ?thesis
      by (simp only: prp_decode_def Let_def le_okD(3) [OF assms(1)] a4 prp_first_cmp if_False
          unat_prp_nr [OF False assms(2), symmetric] one)
  qed
qed

lemma prp_nr_pos:
  assumes "\<not> bytes \<le> prp_first buf" "unat bytes + 4095 < 2 ^ 32"
  shows "0 < unat (prp_nr_data_pages buf bytes)"
proof -
  have "4096 - unat buf mod 4096 < unat bytes" using assms(1) prp_first_cmp [of bytes buf] by linarith
  then show ?thesis unfolding unat_prp_nr [OF assms] by (simp add: div_greater_zero_iff)
qed

text \<open>
  Supply: with at most seven pages taken by this request the slab still has one.
  Then \<open>build_prps\<close> fails only when the transfer needs a ninth list page.
\<close>

definition prp_supply :: "platform \<Rightarrow> bool \<Rightarrow> (u32 \<Rightarrow> u64 list option) \<Rightarrow> bool" where
  "prp_supply P small h \<longleftrightarrow> (\<forall>taken. length taken < 8 \<longrightarrow>
     p_prp_slab P small (\<lambda>a. h a \<noteq> None \<or> a \<in> set taken) \<noteq> None)"

lemma prp_new_list_supply:
  assumes inv: "prp_inv P small base nr h0 i b" and "length (pb_pages b) < 8" and "prp_supply P small h0"
  shows "\<exists>b1. prp_new_list P small b = Inr b1"
proof -
  have ch: "prp_chain P base (if small then 32 else 512) (pb_heap b) (pb_pages b) i"
    using inv by (simp add: prp_inv_def)
  have "pb_heap b a \<noteq> None \<longleftrightarrow> h0 a \<noteq> None \<or> a \<in> set (pb_pages b)" for a
    using inv prp_chain_dom [OF ch, of a] by (cases "a \<in> set (pb_pages b)") (auto simp: prp_inv_def)
  then have eq: "(\<lambda>a. pb_heap b a \<noteq> None) = (\<lambda>a. h0 a \<noteq> None \<or> a \<in> set (pb_pages b))"
    by (rule ext)
  have "p_prp_slab P small (\<lambda>a. pb_heap b a \<noteq> None) \<noteq> None"
    unfolding eq using assms(2,3) unfolding prp_supply_def by blast
  then obtain l where "p_prp_slab P small (\<lambda>a. pb_heap b a \<noteq> None) = Some l" by blast
  then show ?thesis using assms(2) by (simp add: prp_new_list_def Let_def)
qed

lemma build_prps_loop_total:
  assumes "prp_inv P small base nr h0 i b" "i \<le> nr" "small \<Longrightarrow> nr \<le> 32" "prp_slab_ok P"
    and "nr \<le> 4088" "prp_supply P small h0"
  shows "\<exists>b'. build_prps_loop P small base nr i b = Inr b'"
  using assms
proof (induction P small base nr i b rule: build_prps_loop.induct)
  case (1 P small base nr i b)
  show ?case
  proof (cases "nr \<le> i")
    case True
    then show ?thesis by (simp add: build_prps_loop.simps)
  next
    case False
    then have lt: "i < nr" by simp
    let ?new = "if pb_list b = None then prp_new_list P small b else Inr b"
    have "pb_list b = None \<Longrightarrow> length (pb_pages b) < 8"
      using "1.prems"(1,5) lt unfolding prp_inv_def by (cases "pb_pages b") (auto split: if_splits)
    then obtain b1 where b1: "?new = Inr b1"
      using prp_new_list_supply [OF "1.prems"(1) _ "1.prems"(6)] by (cases "pb_list b") auto
    have mid: "prp_mid P small base h0 i b1"
      using b1 prp_new_list_mid [OF "1.prems"(1) _ lt "1.prems"(3,4), of b1]
        prp_inv_mid [OF "1.prems"(1) _ lt] by (auto split: if_splits)
    note put = prp_put_inv [OF mid lt "1.prems"(3) refl]
    have "build_prps_loop P small base nr i b
        = build_prps_loop P small base nr (Suc i) (prp_put P (base + of_nat i * 4096) (Suc i < nr) b1)"
      using False b1 put(2) by (intro build_prps_loop_step) auto
    then show ?thesis
      using "1.IH" [OF False b1 refl] put lt "1.prems" by auto
  qed
qed

lemma build_prps_fst_iff:
  assumes "prp_slab_ok P"
    and "prp_supply P (prp_nr_data_pages buf bytes \<le> 32) (prp_slab_sel (prp_nr_data_pages buf bytes \<le> 32) s)"
    and "\<not> bytes \<le> prp_first buf"
  shows "fst (build_prps P r buf bytes s) \<longleftrightarrow> unat (prp_nr_data_pages buf bytes) \<le> 4088"
proof (cases "prp_nr_data_pages buf bytes = 1")
  case True
  then show ?thesis using assms(3) by (simp add: build_prps_def Let_def)
next
  case False
  let ?nr = "prp_nr_data_pages buf bytes"
  define b0 where "b0 = \<lparr>pb_heap = prp_slab_sel (?nr \<le> 32) s, pb_pages = [], pb_list = None, pb_pos = 0,
      pb_prp2 = cmd_prp2 (r_cmd (rq s r)), pb_events = []\<rparr>"
  let ?base = "ucast buf + ucast (prp_first buf) :: u64"
  let ?loop = "build_prps_loop P (?nr \<le> 32) ?base (unat ?nr) 0 b0"
  have inv: "prp_inv P (?nr \<le> 32) ?base (unat ?nr) (prp_slab_sel (?nr \<le> 32) s) 0 b0"
    unfolding b0_def by (rule prp_inv_start)
  have sm: "?nr \<le> 32 \<Longrightarrow> unat ?nr \<le> 32" by (simp add: word_le_nat_alt)
  have "fst (build_prps P r buf bytes s) \<longleftrightarrow> (\<exists>b. ?loop = Inr b)"
    using False assms(3) by (cases ?loop) (auto simp: build_prps_def Let_def simp flip: b0_def)
  also have "\<dots> \<longleftrightarrow> unat ?nr \<le> 4088"
  proof
    assume "\<exists>b. ?loop = Inr b"
    then obtain b where "prp_inv P (?nr \<le> 32) ?base (unat ?nr) (prp_slab_sel (?nr \<le> 32) s) (unat ?nr) b"
      using build_prps_loop_inv [OF inv _ sm assms(1)] by auto
    then show "unat ?nr \<le> 4088" unfolding prp_inv_def by (auto split: if_splits)
  next
    assume "unat ?nr \<le> 4088"
    then show "\<exists>b. ?loop = Inr b"
      using build_prps_loop_total [OF inv _ sm assms(1) _ assms(2)] by simp
  qed
  finally show ?thesis .
qed

lemma m68k_prp_supply: "prp_supply m68k_platform small (\<lambda>_. None)"
  unfolding prp_supply_def
proof (intro allI impI notI)
  fix taken :: "u32 list"
  assume "length taken < 8" and "p_prp_slab m68k_platform small (\<lambda>a. (None :: u64 list option) \<noteq> None \<or> a \<in> set taken) = None"
  then have "set demo_pages \<subseteq> set taken" by (auto simp: m68k_platform_def find_None_iff)
  then have "card (set demo_pages) \<le> length taken"
    by (meson card_length card_mono finite_set le_trans)
  moreover have "card (set demo_pages) = 16" by (simp add: demo_pages_def)
  ultimately show False using \<open>length taken < 8\<close> by simp
qed

lemma build_prps_reads_back:
  assumes "le_ok P" "prp_slab_ok P" "build_prps P r buf bytes s = (True, s')"
    and "unat bytes + 4095 < 2 ^ 32"
    and "length (prp_expected buf bytes) \<le> 512 \<or> length (prp_expected buf bytes) mod 511 \<noteq> 2"
  shows "prp_decode P (prp_slab_sel (prp_nr_data_pages buf bytes \<le> 32) s')
           (cmd_prp1 (r_cmd (rq s' r))) (cmd_prp2 (r_cmd (rq s' r))) bytes
         = Some (prp_expected buf bytes)"
proof (cases "bytes \<le> prp_first buf \<or> prp_nr_data_pages buf bytes = 1")
  case True
  then have "cmd_prp1 (r_cmd (rq s' r)) = p_le64 P (ucast buf)"
    "\<not> bytes \<le> prp_first buf \<Longrightarrow>
       cmd_prp2 (r_cmd (rq s' r)) = p_le64 P (ucast buf + ucast (prp_first buf))"
    using assms(3) by (auto simp: build_prps_def Let_def set_prps_def split: if_splits)
  then show ?thesis
    using True le_okD(3) [OF assms(1)]
    by (auto simp: prp_decode_eq [OF assms(1,4)] prp_expected_eq [OF assms(4)])
next
  case False
  then have ne: "\<not> bytes \<le> prp_first buf" "prp_nr_data_pages buf bytes \<noteq> 1" by auto
  define nr where "nr = unat (prp_nr_data_pages buf bytes)"
  have sm: "prp_nr_data_pages buf bytes \<le> 32 \<longleftrightarrow> nr \<le> 32" by (simp add: nr_def word_le_nat_alt)
  obtain b where b: "prp_inv P (nr \<le> 32) (ucast buf + ucast (prp_first buf)) nr
        (prp_slab_sel (nr \<le> 32) s) nr b"
    "prp_slab_sel (nr \<le> 32) s' = pb_heap b" "cmd_prp1 (r_cmd (rq s' r)) = p_le64 P (ucast buf)"
    "cmd_prp2 (r_cmd (rq s' r)) = pb_prp2 b"
    by (rule build_prps_listE [OF assms(2) ne assms(3), folded nr_def])
  have pos: "0 < nr" unfolding nr_def by (rule prp_nr_pos [OF ne(1) assms(4)])
  have cond: "nr \<le> 511 \<or> nr mod 511 \<noteq> 1"
    using assms(5) ne(1) unfolding prp_expected_eq [OF assms(4)] nr_def
    by (auto simp: mod_Suc split: if_splits)
  have pages: "pb_pages b \<noteq> []" using b(1) pos by (auto simp: prp_inv_def)
  have "prp_walk P (pb_heap b) (hd (pb_pages b)) nr
     = Some (map (\<lambda>k. ucast buf + ucast (prp_first buf) + of_nat k * 4096) [0..<nr])"
    using prp_walk_chain [OF b(1) assms(1) pos _ cond, of 0] pages by (simp add: hd_conv_nth)
  moreover have "pb_prp2 b = p_le64 P (ucast (hd (pb_pages b)))"
    using b(1) pages by (simp add: prp_inv_def)
  ultimately show ?thesis
    using b(2-4) ne le_okD(3) [OF assms(1)]
    by (simp add: prp_decode_eq [OF assms(1,4)] prp_expected_eq [OF assms(4)] sm ucast_up_down_32
        flip: nr_def)
qed

text \<open>
  C2.  When \<open>build_prps\<close> succeeds, a controller that follows the PRP rules reads
  back exactly the pages of the buffer in order, for every transfer whose page
  count does not leave a single data page behind a chain pointer.
\<close>

theorem build_prps_decode:
  assumes "le_ok P" "prp_slab_ok P" "build_prps P r buf bytes s = (True, s')"
    and "unat bytes + 4095 < 2 ^ 32"
    and "length (prp_expected buf bytes) \<le> 512 \<or> length (prp_expected buf bytes) mod 511 \<noteq> 2"
  shows "prp_decode P (prp_slab_sel (prp_nr_data_pages buf bytes \<le> 32) s')
           (cmd_prp1 (r_cmd (rq s' r))) (cmd_prp2 (r_cmd (rq s' r))) bytes
         = Some (prp_expected buf bytes)"
  by (rule build_prps_reads_back [OF assms])

theorem build_prps_decode_witness:
  "fst (build_prps m68k_platform 0 0x10200 0x3000 zero_ctrl) \<and>
   prp_decode m68k_platform
     (prp_slab_sel True (snd (build_prps m68k_platform 0 0x10200 0x3000 zero_ctrl)))
     (cmd_prp1 (r_cmd (rq (snd (build_prps m68k_platform 0 0x10200 0x3000 zero_ctrl)) 0)))
     (cmd_prp2 (r_cmd (rq (snd (build_prps m68k_platform 0 0x10200 0x3000 zero_ctrl)) 0))) 0x3000
   = Some [0x10200, 0x11000, 0x12000, 0x13000]"
proof -
  have first: "prp_first 0x10200 = 0xe00" by (simp add: prp_first_def)
  have nr: "prp_nr_data_pages 0x10200 0x3000 = 3" by (simp add: prp_nr_data_pages_def first)
  have ok: "fst (build_prps m68k_platform 0 0x10200 0x3000 zero_ctrl)"
    using build_prps_fst_iff [OF m68k_prp_slab_ok, of "0x10200" "0x3000" zero_ctrl 0] m68k_prp_supply
    by (simp add: first nr prp_slab_sel_def zero_ctrl_def)
  have e: "prp_expected 0x10200 0x3000 = [0x10200, 0x11000, 0x12000, 0x13000]"
    by (simp add: prp_expected_eq first nr upt_rec)
  show ?thesis
    using build_prps_decode [OF m68k_le_ok m68k_prp_slab_ok, of 0 "0x10200" "0x3000" zero_ctrl
        "snd (build_prps m68k_platform 0 0x10200 0x3000 zero_ctrl)"] ok e nr
    by (simp add: prod_eq_iff)
qed

text \<open>
  As long as the PRP slab can supply list pages, \<open>build_prps\<close> succeeds exactly
  for transfers of at most 4088 pages beyond the first (eight list pages with 511
  entries each).
\<close>

theorem build_prps_total:
  assumes "prp_slab_ok P"
    and "prp_supply P (prp_nr_data_pages buf bytes \<le> 32) (prp_slab_sel (prp_nr_data_pages buf bytes \<le> 32) s)"
    and "\<not> bytes \<le> prp_first buf"
  shows "fst (build_prps P r buf bytes s) \<longleftrightarrow> unat (prp_nr_data_pages buf bytes) \<le> 4088"
  by (rule build_prps_fst_iff [OF assms])

theorem build_prps_total_witness:
  "\<not> fst (build_prps m68k_platform 0 0x10200 0xff9e00 zero_ctrl) \<longleftrightarrow>
   \<not> unat (prp_nr_data_pages 0x10200 0xff9e00) \<le> 4088"
  using build_prps_total [OF m68k_prp_slab_ok, of "0x10200" "0xff9e00" zero_ctrl 0]
  by (simp add: prp_first_def m68k_prp_supply prp_slab_sel_def zero_ctrl_def)

text \<open>
  When \<open>build_prps\<close> fails, every list page it took is back in its slab: both
  slabs are as before, and the request records no page.
\<close>

theorem build_prps_failure_frees:
  assumes "prp_slab_ok P" "build_prps P r buf bytes s = (False, s')"
  shows "k_prp_small s' = k_prp_small s \<and> k_prp_large s' = k_prp_large s \<and>
         r_prp_pages (rq s' r) = [] \<and> r_flags (rq s' r) = r_flags (rq s r)"
proof -
  let ?nr = "prp_nr_data_pages buf bytes"
  let ?b0 = "\<lparr>pb_heap = prp_slab_sel (?nr \<le> 32) s, pb_pages = [], pb_list = None, pb_pos = 0,
      pb_prp2 = cmd_prp2 (r_cmd (rq s r)), pb_events = []\<rparr>"
  let ?loop = "build_prps_loop P (?nr \<le> 32) (ucast buf + ucast (prp_first buf)) (unat ?nr) 0 ?b0"
  obtain b where b: "?loop = Inl b" and s': "s' = (set_prp_slab (?nr \<le> 32)
      (free_lists (pb_pages b) (pb_heap b)) (upd_req r (set_prps (p_le64 P (ucast buf)) (pb_prp2 b) []) s))
      \<lparr>k_trace := k_trace s @ pb_events b\<rparr>"
    using assms(2) unfolding build_prps_def
    by (cases ?loop) (auto simp: Let_def split: if_splits)
  have "prp_inv P (?nr \<le> 32) (ucast buf + ucast (prp_first buf)) (unat ?nr) (prp_slab_sel (?nr \<le> 32) s) 0 ?b0"
    by (rule prp_inv_start)
  from build_prps_loop_inv [OF this _ _ assms(1)] b
  have "prp_frame (?nr \<le> 32) (prp_slab_sel (?nr \<le> 32) s) b" by (simp add: word_le_nat_alt)
  then have "free_lists (pb_pages b) (pb_heap b) = prp_slab_sel (?nr \<le> 32) s"
    by (auto simp: free_lists_def prp_frame_def fun_eq_iff)
  then show ?thesis
    using s' by (auto simp: set_prp_slab_def prp_slab_sel_def set_prps_def rq_def upd_req_def)
qed

theorem build_prps_failure_frees_witness:
  "\<not> fst (build_prps m68k_platform 0 0x10200 0xff9e00 zero_ctrl) \<and>
   k_prp_large (snd (build_prps m68k_platform 0 0x10200 0xff9e00 zero_ctrl)) = (\<lambda>_. None)"
proof -
  have first: "prp_first 0x10200 = 0xe00" by (simp add: prp_first_def)
  have nr: "prp_nr_data_pages 0x10200 0xff9e00 = 4089" by (simp add: prp_nr_data_pages_def first)
  have f: "\<not> fst (build_prps m68k_platform 0 0x10200 0xff9e00 zero_ctrl)"
    using build_prps_fst_iff [OF m68k_prp_slab_ok, of "0x10200" "0xff9e00" zero_ctrl 0] m68k_prp_supply
    by (simp add: first nr prp_slab_sel_def zero_ctrl_def)
  then obtain s' where "build_prps m68k_platform 0 0x10200 0xff9e00 zero_ctrl = (False, s')"
    by (cases "build_prps m68k_platform 0 0x10200 0xff9e00 zero_ctrl") auto
  then show ?thesis
    using f build_prps_failure_frees [OF m68k_prp_slab_ok] by (fastforce simp: zero_ctrl_def)
qed

lemma prp_walk_boundary:
  assumes inv: "prp_inv P False base nr h0 nr b" and le: "le_ok P"
    and one: "nr mod 511 = 1" and j: "Suc j < length (pb_pages b)"
  shows "prp_walk P (pb_heap b) (pb_pages b ! j) (nr - 511 * j)
       = Some (map (\<lambda>k. base + of_nat k * 4096) [511 * j..<nr - 1] @ [ucast (last (pb_pages b))])"
  using j
proof (induction "length (pb_pages b) - j" arbitrary: j rule: less_induct)
  case less
  let ?ps = "pb_pages b" and ?l = "pb_pages b ! j" and ?g = "\<lambda>k. base + of_nat k * 4096 :: u64"
  have ne: "?ps \<noteq> []" using less.prems by auto
  have nr: "nr = 511 * (length ?ps - 1) + pb_pos b" "0 < pb_pos b" "pb_pos b \<le> 511"
    using inv ne by (auto simp: prp_inv_def)
  then have pos1: "pb_pos b = 1" using one by (cases "pb_pos b = 511") auto
  have al: "prp_avail ?l = 512" using inv less.prems by (simp add: prp_inv_def)
  obtain xs where xs: "pb_heap b ?l = Some xs" "length xs = 512"
    "\<And>k. k < 511 \<Longrightarrow> 511 * j + k < nr \<Longrightarrow> xs ! k = p_le64 P (?g (511 * j + k))"
    "xs ! 511 = p_le64 P (ucast (?ps ! Suc j))"
    using inv less.prems unfolding prp_inv_def prp_chain_def
    by (metis (no_types, lifting) Suc_lessD)
  have lt: "511 * j + 511 < nr" using nr less.prems by (cases "length ?ps") auto
  have tk: "map (p_le64 P) (take 511 xs) = map ?g [511 * j..<511 * j + 511]"
    using xs lt le_okD(3) [OF le] by (intro map_take_entries) auto
  show ?case
  proof (cases "Suc (Suc j) = length ?ps")
    case True
    then have "length ?ps - 1 = Suc j" by simp
    then have n: "nr = 511 * j + 512" using nr(1) pos1 by simp
    have lastp: "last ?ps = ?ps ! Suc j" using True ne by (simp add: last_conv_nth flip: True)
    have "take 512 xs = take 511 xs @ [xs ! 511]"
      using xs(2) take_Suc_conv_app_nth [of 511 xs] by simp
    then have "map (p_le64 P) (take 512 xs)
        = map ?g [511 * j..<511 * j + 511] @ [ucast (?ps ! Suc j)]"
      using tk xs(4) le_okD(3) [OF le] by simp
    then show ?thesis
      using xs(1,2) n al lastp by (subst prp_walk.simps) (simp add: add.commute)
  next
    case False
    then have sj: "Suc (Suc j) < length ?ps" using less.prems by simp
    have two: "511 * Suc j + 511 < nr" using nr sj by (cases "length ?ps") auto
    have IH: "prp_walk P (pb_heap b) (?ps ! Suc j) (nr - 511 * Suc j)
        = Some (map ?g [511 * Suc j..<nr - 1] @ [ucast (last ?ps)])"
      using less.hyps [of "Suc j"] sj by simp
    have "prp_walk P (pb_heap b) ?l (nr - 511 * j)
        = map_option (\<lambda>ys. map (p_le64 P) (take 511 xs) @ ys)
            (prp_walk P (pb_heap b) (?ps ! Suc j) (nr - 511 * Suc j))"
      using xs(1,2,4) al two le_okD(3) [OF le]
      by (subst prp_walk.simps) (auto simp: ucast_up_down_32 add.commute split: option.splits)
    also have "\<dots> = Some (map ?g ([511 * j..<511 * j + 511] @ [511 * j + 511..<nr - 1]) @ [ucast (last ?ps)])"
      using IH tk by (simp add: add.commute)
    also have "[511 * j..<511 * j + 511] @ [511 * j + 511..<nr - 1] = [511 * j..<nr - 1]"
      using two upt_add_eq_append [of "511 * j" "511 * j + 511" "nr - 1 - (511 * j + 511)"] by simp
    finally show ?thesis .
  qed
qed

text \<open>
  The exception to C1: with 512 + 511 k list entries the driver chains to
  one more list page for the single page that is left, while the controller
  takes the last slot of the full page as a data pointer, so its last data
  pointer is the address of the driver's own list page.
\<close>

theorem build_prps_boundary:
  assumes "le_ok P" "prp_slab_ok P" "build_prps P r buf bytes s = (True, s')"
    and "unat bytes + 4095 < 2 ^ 32"
    and "512 < length (prp_expected buf bytes)" "length (prp_expected buf bytes) mod 511 = 2"
  shows "prp_decode P (prp_slab_sel False s')
           (cmd_prp1 (r_cmd (rq s' r))) (cmd_prp2 (r_cmd (rq s' r))) bytes
         = Some (butlast (prp_expected buf bytes) @ [ucast (last (r_prp_pages (rq s' r)))])"
proof -
  define nr where "nr = unat (prp_nr_data_pages buf bytes)"
  have big: "\<not> bytes \<le> prp_first buf" "511 < nr" "nr mod 511 = 1"
    using assms(5,6) unfolding prp_expected_eq [OF assms(4)] nr_def
    by (auto simp: mod_Suc split: if_splits)
  then have n1: "prp_nr_data_pages buf bytes \<noteq> 1" "\<not> nr \<le> 32" by (auto simp: nr_def)
  obtain b where b: "prp_inv P False (ucast buf + ucast (prp_first buf)) nr (prp_slab_sel False s) nr b"
    "prp_slab_sel False s' = pb_heap b" "cmd_prp1 (r_cmd (rq s' r)) = p_le64 P (ucast buf)"
    "cmd_prp2 (r_cmd (rq s' r)) = pb_prp2 b" "r_prp_pages (rq s' r) = pb_pages b"
    using build_prps_listE [OF assms(2) big(1) n1(1) assms(3), folded nr_def] n1(2) by auto
  have pages: "1 < length (pb_pages b)"
    using b(1) big(2) unfolding prp_inv_def by (cases "pb_pages b") (auto split: if_splits)
  then have ne: "pb_pages b \<noteq> []" by auto
  have "prp_walk P (pb_heap b) (hd (pb_pages b)) nr
     = Some (map (\<lambda>k. ucast buf + ucast (prp_first buf) + of_nat k * 4096) [0..<nr - 1]
         @ [ucast (last (pb_pages b))])"
    using prp_walk_boundary [OF b(1) assms(1) big(3), of 0] pages ne by (simp add: hd_conv_nth)
  moreover have "pb_prp2 b = p_le64 P (ucast (hd (pb_pages b)))"
    using b(1) ne by (simp add: prp_inv_def)
  moreover have "prp_expected buf bytes = ucast buf #
      map (\<lambda>k. ucast buf + ucast (prp_first buf) + of_nat k * 4096) [0..<nr]"
    using big(1) by (simp add: prp_expected_eq [OF assms(4)] nr_def)
  moreover have "butlast [0..<nr] = [0..<nr - 1]" using big(2) by (cases nr) auto
  ultimately show ?thesis
    using b(2-5) big n1 le_okD(3) [OF assms(1)]
    by (simp add: prp_decode_eq [OF assms(1,4)] ucast_up_down_32 flip: nr_def map_butlast)
qed

theorem build_prps_boundary_witness:
  "\<exists>s' xs. build_prps m68k_platform 0 0x10200 0x200e00 zero_ctrl = (True, s') \<and>
     prp_decode m68k_platform (prp_slab_sel False s')
       (cmd_prp1 (r_cmd (rq s' 0))) (cmd_prp2 (r_cmd (rq s' 0))) 0x200e00
     = Some (xs @ [ucast (last (r_prp_pages (rq s' 0)))])"
proof -
  have first: "prp_first 0x10200 = 0xe00" by (simp add: prp_first_def)
  have nr: "prp_nr_data_pages 0x10200 0x200e00 = 512" by (simp add: prp_nr_data_pages_def first)
  have "fst (build_prps m68k_platform 0 0x10200 0x200e00 zero_ctrl)"
    using build_prps_fst_iff [OF m68k_prp_slab_ok, of "0x10200" "0x200e00" zero_ctrl 0] m68k_prp_supply
    by (simp add: first nr prp_slab_sel_def zero_ctrl_def)
  then obtain s' where s': "build_prps m68k_platform 0 0x10200 0x200e00 zero_ctrl = (True, s')"
    by (cases "build_prps m68k_platform 0 0x10200 0x200e00 zero_ctrl") auto
  have "length (prp_expected 0x10200 0x200e00) = 513" by (simp add: prp_expected_eq first nr)
  then show ?thesis
    using build_prps_boundary [OF m68k_le_ok m68k_prp_slab_ok s'] s' by auto
qed

end
