(* ===== verification/Nvme_Queue.thy ===== *)
theory Nvme_Queue
  imports Nvme_Types
begin

text \<open>
  The queue pair of include/nvme/nvme_queue.h and src/nvme/nvme_queue.c: the CID
  free stack with its in-flight table, the submission ring with the batched tail
  doorbell, set-up and tear-down.

  The first part is the command identifier pool; its contract is the locale
  \<open>slot_pool\<close>, interpreted on the driver's \<open>nvme_alloc_cid\<close>,
  \<open>nvme_inflight_claim\<close> and \<open>nvme_inflight_release\<close>.  The second part is the
  submission ring, a bounded FIFO (\<open>bounded_fifo\<close>) between the consumed head and
  the tail.
\<close>

section \<open>Command identifiers\<close>

definition cid_tag :: "u16 \<Rightarrow> nat" where
  "cid_tag cid = unat (cid AND 0x0fff)"

definition cid_gen :: "u16 \<Rightarrow> nat" where
  "cid_gen cid = unat (drop_bit 12 cid)"

definition next_cid :: "bool \<Rightarrow> u16 \<Rightarrow> u16" where
  "next_cid skip cid = (if skip then cid AND 0x0fff
     else push_bit 12 ((drop_bit 12 cid + 1) AND 0x0f) OR (cid AND 0x0fff))"

text \<open>The table access of the inline functions; a tag outside the table is no slot.\<close>

definition slot :: "nvme_queue \<Rightarrow> nat \<Rightarrow> nat option" where
  "slot q tag = (if tag < length (q_inflight q) then q_inflight q ! tag else None)"

definition nvme_inflight_claim :: "nvme_queue \<Rightarrow> u16 \<Rightarrow> nat \<Rightarrow> nvme_queue" where
  "nvme_inflight_claim q cid r =
    (let tag = cid_tag cid in
     q\<lparr>q_inflight_count := (if slot q tag = None then q_inflight_count q + 1 else q_inflight_count q),
       q_inflight := (q_inflight q)[tag := Some r]\<rparr>)"

definition nvme_inflight_release :: "nvme_queue \<Rightarrow> u16 \<Rightarrow> nvme_queue" where
  "nvme_inflight_release q cid =
    (let tag = cid_tag cid in
     if slot q tag = None then q
     else q\<lparr>q_inflight := (q_inflight q)[tag := None],
            q_inflight_count := q_inflight_count q - 1,
            q_free_stack := (q_free_stack q)[q_free_top q := next_cid (q_skip_cid_gen q) cid],
            q_free_top := q_free_top q + 1\<rparr>)"

definition nvme_alloc_cid :: "nvme_queue \<Rightarrow> u16 \<times> nvme_queue" where
  "nvme_alloc_cid q =
    (if q_free_top q = 0 then (0xFFFF, q)
     else (q_free_stack q ! (q_free_top q - 1), q\<lparr>q_free_top := q_free_top q - 1\<rparr>))"

text \<open>The pattern of both request allocators: allocate, test for 0xFFFF, claim.\<close>

definition acquire_cid :: "nvme_queue \<Rightarrow> nat \<Rightarrow> (u16 \<times> nvme_queue) option" where
  "acquire_cid q r = (let (cid, q1) = nvme_alloc_cid q in
     if cid = 0xFFFF then None else Some (cid, nvme_inflight_claim q1 cid r))"

subsection \<open>Encoding of tag and generation\<close>

lemma cid_tag_mod: "cid_tag cid = unat cid mod 4096"
proof -
  have "cid AND 0xfff = take_bit 12 cid" by (simp add: take_bit_eq_mask mask_eq_decr_exp)
  then have "cid_tag cid = take_bit 12 (unat cid)"
    unfolding cid_tag_def by (simp only: unsigned_take_bit_eq)
  then show ?thesis by (simp add: take_bit_eq_mod)
qed

lemma cid_gen_div: "cid_gen cid = unat cid div 4096"
  by (simp add: cid_gen_def drop_bit_eq_div unat_div_distrib)

lemma cid_eq_iff: "c = d \<longleftrightarrow> cid_tag c = cid_tag d \<and> cid_gen c = cid_gen d"
  unfolding cid_tag_mod cid_gen_div by (metis div_mult_mod_eq word_unat_eq_iff)

lemma cid_gen_less: "cid_gen cid < 16"
  using unat_lt_size [of cid] by (simp add: cid_gen_div less_mult_imp_div_less)

lemma unat_next_cid:
  "unat (next_cid False cid) = (cid_gen cid + 1) mod 16 * 4096 + cid_tag cid"
proof -
  define g t where "g = (drop_bit 12 cid + 1) AND (0x0f :: u16)" and "t = cid AND (0xfff :: u16)"
  have "g = take_bit 4 (drop_bit 12 cid + 1)" by (simp add: g_def take_bit_eq_mask mask_eq_decr_exp)
  then have "unat g = take_bit 4 (unat (drop_bit 12 cid + 1))" by (simp only: unsigned_take_bit_eq)
  moreover have "unat (drop_bit 12 cid + 1) = cid_gen cid + 1"
    using cid_gen_less [of cid] by (subst unat_add_no_wrap) (auto simp: cid_gen_def)
  ultimately have g: "unat g = (cid_gen cid + 1) mod 16" by (simp add: take_bit_eq_mod)
  then have g15: "unat g \<le> 15" by simp
  have tb: "t = take_bit 12 cid" by (simp add: t_def take_bit_eq_mask mask_eq_decr_exp)
  have t: "unat t = cid_tag cid" "unat t < 4096" by (simp_all add: t_def cid_tag_def flip: cid_tag_mod)
    (simp add: cid_tag_mod flip: cid_tag_def)
  have p: "unat (push_bit 12 g) = unat g * 4096"
    using g15 by (simp add: push_bit_eq_mult unat_word_ariths)
  have "next_cid False cid = push_bit 12 g + t"
    unfolding next_cid_def if_False g_def [symmetric] t_def [symmetric]
    by (rule disjunctive_add [symmetric]) (auto simp: tb bit_simps)
  then show ?thesis
    using p g g15 t by (simp add: unat_add_no_wrap)
qed

lemma cid_tag_next [simp]: "cid_tag (next_cid skip cid) = cid_tag cid"
proof (cases skip)
  case True
  then show ?thesis by (simp add: next_cid_def cid_tag_def)
next
  case False
  then show ?thesis using unat_next_cid [of cid] by (simp add: cid_tag_mod)
qed

lemma cid_gen_next: "cid_gen (next_cid False cid) = (cid_gen cid + 1) mod 16"
  unfolding cid_gen_div [of "next_cid False cid"] unat_next_cid by (simp add: cid_tag_mod)

lemma next_cid_skip: "next_cid True cid = of_nat (cid_tag cid)"
  by (simp add: next_cid_def cid_tag_def)

lemma cid_tag_of_nat: "n < 4096 \<Longrightarrow> cid_tag (of_nat n) = n"
  by (simp add: cid_tag_mod unat_of_nat)

lemma cid_tag_less: "cid_tag cid < 4096"
  by (simp add: cid_tag_mod)

lemma next_cid_differs: "next_cid False cid \<noteq> cid"
  using cid_gen_less [of cid] cid_gen_next [of cid] by (auto simp: mod_Suc split: if_splits)

lemma next_cid_iterate:
  "cid_gen ((next_cid False ^^ k) cid) = (cid_gen cid + k) mod 16 \<and>
   cid_tag ((next_cid False ^^ k) cid) = cid_tag cid"
  by (induction k) (use cid_gen_less [of cid] in \<open>auto simp: cid_gen_next mod_simps\<close>)

section \<open>The slot pool interface\<close>

text \<open>
  What a request allocator needs from the CID pool: acquiring fails only when
  every slot is busy, gives a slot that was idle, and releasing a busy slot makes
  exactly that slot idle.
\<close>

locale slot_pool =
  fixes inv :: "'q \<Rightarrow> bool"
    and busy :: "'q \<Rightarrow> nat \<Rightarrow> 'r option"
    and capacity :: "'q \<Rightarrow> nat"
    and load :: "'q \<Rightarrow> nat"
    and tag :: "'c \<Rightarrow> nat"
    and acquire :: "'q \<Rightarrow> 'r \<Rightarrow> ('c \<times> 'q) option"
    and release :: "'q \<Rightarrow> 'c \<Rightarrow> 'q"
  assumes acquire_None: "inv q \<Longrightarrow> acquire q r = None \<longleftrightarrow> load q = capacity q"
    and acquire_inv: "inv q \<Longrightarrow> acquire q r = Some (c, q') \<Longrightarrow> inv q'"
    and acquire_idle: "inv q \<Longrightarrow> acquire q r = Some (c, q') \<Longrightarrow> busy q (tag c) = None"
    and acquire_busy: "inv q \<Longrightarrow> acquire q r = Some (c, q') \<Longrightarrow> busy q' = (busy q)(tag c := Some r)"
    and acquire_load: "inv q \<Longrightarrow> acquire q r = Some (c, q') \<Longrightarrow> load q' = Suc (load q)"
    and acquire_cap: "inv q \<Longrightarrow> acquire q r = Some (c, q') \<Longrightarrow> capacity q' = capacity q"
    and release_inv: "inv q \<Longrightarrow> inv (release q c)"
    and release_busy: "inv q \<Longrightarrow> busy (release q c) = (busy q)(tag c := None)"
    and release_load: "inv q \<Longrightarrow> busy q (tag c) \<noteq> None \<Longrightarrow> Suc (load (release q c)) = load q"
    and release_idle: "inv q \<Longrightarrow> busy q (tag c) = None \<Longrightarrow> release q c = q"
    and release_cap: "inv q \<Longrightarrow> capacity (release q c) = capacity q"
begin

lemma acquire_release_busy:
  assumes "inv q" "acquire q r = Some (c, q')"
  shows "busy (release q' c) = busy q" "load (release q' c) = load q"
proof -
  have i: "inv q'" by (rule acquire_inv [OF assms])
  show "busy (release q' c) = busy q"
    using release_busy [OF i, of c] acquire_busy [OF assms] acquire_idle [OF assms] by auto
  have "busy q' (tag c) \<noteq> None" using acquire_busy [OF assms] by simp
  then show "load (release q' c) = load q"
    using release_load [OF i] acquire_load [OF assms] by fastforce
qed

lemma release_release: "inv q \<Longrightarrow> release (release q c) c = release q c"
  using release_busy [of q c] by (simp add: release_idle release_inv)

text \<open>Acquiring for a list of owners, stopping at the first failure.\<close>

fun acquire_all :: "'q \<Rightarrow> 'r list \<Rightarrow> 'c list \<times> 'q" where
  "acquire_all q [] = ([], q)"
| "acquire_all q (r # rs) = (case acquire q r of None \<Rightarrow> ([], q)
     | Some (c, q') \<Rightarrow> let (cs, q'') = acquire_all q' rs in (c # cs, q''))"

lemma acquire_all_sound:
  assumes "inv q" "acquire_all q rs = (cs, q')"
  shows "inv q' \<and> distinct (map tag cs) \<and> (\<forall>c \<in> set cs. busy q (tag c) = None) \<and>
    (\<forall>t. busy q t \<noteq> None \<longrightarrow> busy q' t = busy q t) \<and>
    (\<forall>i < length cs. busy q' (tag (cs ! i)) = Some (rs ! i)) \<and>
    load q' = load q + length cs \<and> capacity q' = capacity q"
  using assms
proof (induction rs arbitrary: q cs)
  case Nil
  then show ?case by simp
next
  case (Cons r rs)
  show ?case
  proof (cases "acquire q r")
    case None
    then show ?thesis using Cons.prems by simp
  next
    case (Some p)
    then obtain c q1 where a: "acquire q r = Some (c, q1)" by (cases p) auto
    obtain cs1 where cs: "acquire_all q1 rs = (cs1, q')" "cs = c # cs1"
      using Cons.prems(2) a by (auto split: prod.splits)
    note IH = Cons.IH [OF acquire_inv [OF Cons.prems(1) a] cs(1)]
    have b: "busy q1 = (busy q)(tag c := Some r)" by (rule acquire_busy [OF Cons.prems(1) a])
    have "tag c \<notin> tag ` set cs1" using IH b by auto
    moreover have "\<forall>x \<in> set cs1. busy q (tag x) = None"
      using IH b by (metis fun_upd_apply option.simps(3))
    moreover have "busy q' (tag c) = Some r" using IH b by simp
    moreover have "\<forall>t. busy q t \<noteq> None \<longrightarrow> busy q' t = busy q t"
      using IH b acquire_idle [OF Cons.prems(1) a] by (metis fun_upd_apply)
    ultimately show ?thesis
      using IH acquire_idle [OF Cons.prems(1) a] acquire_load [OF Cons.prems(1) a]
        acquire_cap [OF Cons.prems(1) a]
      unfolding cs(2) by (auto simp: nth_Cons split: nat.splits)
  qed
qed

lemma acquire_all_length:
  assumes "inv q" "load q \<le> capacity q"
  shows "length (fst (acquire_all q rs)) = min (length rs) (capacity q - load q)"
  using assms
proof (induction rs arbitrary: q)
  case Nil
  then show ?case by simp
next
  case (Cons r rs)
  show ?case
  proof (cases "acquire q r")
    case None
    then show ?thesis using acquire_None [OF Cons.prems(1)] by simp
  next
    case (Some p)
    then obtain c q1 where a: "acquire q r = Some (c, q1)" by (cases p) auto
    have "load q \<noteq> capacity q" using acquire_None [OF Cons.prems(1), of r] a by auto
    then have "load q1 \<le> capacity q1" "capacity q - load q = Suc (capacity q1 - load q1)"
      using Cons.prems(2) acquire_load [OF Cons.prems(1) a] acquire_cap [OF Cons.prems(1) a] by auto
    then show ?thesis
      using Cons.IH [OF acquire_inv [OF Cons.prems(1) a]] a
      by (auto simp: min_def split: prod.splits)
  qed
qed

end

subsection \<open>The driver's pool\<close>

definition queue_ok :: "nvme_queue \<Rightarrow> bool" where
  "queue_ok q \<longleftrightarrow>
     length (q_inflight q) = q_depth q \<and> length (q_free_stack q) = q_depth q \<and> q_depth q \<le> 256 \<and>
     q_inflight_count q = occupied (q_inflight q) \<and>
     q_free_top q + q_inflight_count q = q_depth q \<and>
     distinct (map cid_tag (take (q_free_top q) (q_free_stack q))) \<and>
     (\<forall>c \<in> set (take (q_free_top q) (q_free_stack q)).
        cid_tag c < q_depth q \<and> q_inflight q ! cid_tag c = None \<and>
        (q_skip_cid_gen q \<longrightarrow> c = of_nat (cid_tag c)))"

lemma cid_tag_FFFF: "cid_tag 0xFFFF = 4095"
  by (simp add: cid_tag_mod)

lemma queue_ok_alloc:
  assumes "queue_ok q" "q_free_top q \<noteq> 0"
  defines "c \<equiv> q_free_stack q ! (q_free_top q - 1)"
  shows "take (q_free_top q) (q_free_stack q) = take (q_free_top q - 1) (q_free_stack q) @ [c]"
    "cid_tag c < q_depth q" "q_inflight q ! cid_tag c = None" "c \<noteq> 0xFFFF"
proof -
  have lt: "q_free_top q - 1 < length (q_free_stack q)" using assms(1,2) by (auto simp: queue_ok_def)
  then show t: "take (q_free_top q) (q_free_stack q) = take (q_free_top q - 1) (q_free_stack q) @ [c]"
    using assms(2) take_Suc_conv_app_nth [OF lt] by (simp add: c_def)
  show "cid_tag c < q_depth q" "q_inflight q ! cid_tag c = None"
    using assms(1) unfolding queue_ok_def t by auto
  moreover have "q_depth q \<le> 256" using assms(1) by (simp add: queue_ok_def)
  ultimately show "c \<noteq> 0xFFFF" using cid_tag_FFFF by auto
qed

lemma acquire_cid_eq:
  assumes "queue_ok q"
  shows "acquire_cid q r = (if q_free_top q = 0 then None
     else let c = q_free_stack q ! (q_free_top q - 1) in
       Some (c, q\<lparr>q_free_top := q_free_top q - 1, q_inflight_count := q_inflight_count q + 1,
                  q_inflight := (q_inflight q)[cid_tag c := Some r]\<rparr>))"
  using queue_ok_alloc [OF assms] assms
  by (auto simp: acquire_cid_def nvme_alloc_cid_def nvme_inflight_claim_def Let_def slot_def queue_ok_def)

lemma acquire_cid_ok:
  assumes ok: "queue_ok q" and a: "acquire_cid q r = Some (c, q')"
  shows "queue_ok q'" "slot q (cid_tag c) = None" "slot q' = (slot q)(cid_tag c := Some r)"
    "q_inflight_count q' = Suc (q_inflight_count q)" "q_depth q' = q_depth q"
    "c = q_free_stack q ! (q_free_top q - 1)" "q_free_top q' = q_free_top q - 1" "q_free_top q \<noteq> 0"
proof -
  have top: "q_free_top q \<noteq> 0" using a by (auto simp: acquire_cid_eq [OF ok] split: if_splits)
  have q': "c = q_free_stack q ! (q_free_top q - 1)"
    "q' = q\<lparr>q_free_top := q_free_top q - 1, q_inflight_count := q_inflight_count q + 1,
            q_inflight := (q_inflight q)[cid_tag c := Some r]\<rparr>"
    using a top by (auto simp: acquire_cid_eq [OF ok] Let_def)
  note al = queue_ok_alloc [OF ok top, folded q'(1)]
  have len: "length (q_inflight q) = q_depth q" using ok by (simp add: queue_ok_def)
  have other: "cid_tag c \<notin> cid_tag ` set (take (q_free_top q - 1) (q_free_stack q))"
    using ok unfolding queue_ok_def al(1) by auto
  have idle: "(q_inflight q)[cid_tag c := Some r] ! cid_tag d = None"
    if "d \<in> set (take (q_free_top q - Suc 0) (q_free_stack q))" for d
  proof -
    have "q_inflight q ! cid_tag d = None" using ok that unfolding queue_ok_def al(1) by auto
    moreover have "cid_tag d \<noteq> cid_tag c" using other imageI [OF that, of cid_tag] by fastforce
    ultimately show ?thesis by simp
  qed
  show "queue_ok q'"
    using ok top al(2,3) len idle unfolding queue_ok_def al(1) q'(2)
    by (auto simp: occupied_claim)
  show "slot q (cid_tag c) = None" "slot q' = (slot q)(cid_tag c := Some r)"
    using al(2,3) len by (auto simp: slot_def q'(2) fun_eq_iff)
  show "q_inflight_count q' = Suc (q_inflight_count q)" "q_depth q' = q_depth q"
    "c = q_free_stack q ! (q_free_top q - 1)" "q_free_top q' = q_free_top q - 1" "q_free_top q \<noteq> 0"
    using q' top by auto
qed

lemma release_ok:
  assumes ok: "queue_ok q"
  shows "queue_ok (nvme_inflight_release q c)"
    "slot (nvme_inflight_release q c) = (slot q)(cid_tag c := None)"
    "slot q (cid_tag c) \<noteq> None \<Longrightarrow>
       Suc (q_inflight_count (nvme_inflight_release q c)) = q_inflight_count q"
    "q_depth (nvme_inflight_release q c) = q_depth q"
proof -
  let ?t = "cid_tag c" and ?n = "next_cid (q_skip_cid_gen q) c"
  have len: "length (q_inflight q) = q_depth q" "length (q_free_stack q) = q_depth q"
    using ok by (auto simp: queue_ok_def)
  have busy: "?t < q_depth q" "q_inflight q ! ?t \<noteq> None" "q_free_top q < q_depth q"
    "0 < q_inflight_count q" if "slot q ?t \<noteq> None"
  proof -
    show t: "?t < q_depth q" "q_inflight q ! ?t \<noteq> None"
      using that len(1) by (auto simp: slot_def split: if_splits)
    show "0 < q_inflight_count q" using occupied_pos [of ?t "q_inflight q"] t len ok
      by (simp add: queue_ok_def)
    then show "q_free_top q < q_depth q" using ok by (auto simp: queue_ok_def)
  qed
  show "queue_ok (nvme_inflight_release q c)"
  proof (cases "slot q ?t = None")
    case True
    then show ?thesis using ok by (simp add: nvme_inflight_release_def)
  next
    case False
    note b = busy [OF False]
    have "Suc (occupied ((q_inflight q)[?t := None])) = occupied (q_inflight q)"
      using occupied_release [of ?t "q_inflight q"] b len by simp
    moreover have "?t \<notin> cid_tag ` set (take (q_free_top q) (q_free_stack q))"
      using ok b(2) unfolding queue_ok_def by auto
    ultimately show ?thesis
      using ok False b len
      by (auto simp: nvme_inflight_release_def Let_def queue_ok_def take_Suc_update next_cid_skip
          nth_list_update cid_tag_of_nat cid_tag_less)
  qed
  show "slot (nvme_inflight_release q c) = (slot q)(?t := None)"
    using len by (auto simp: slot_def nvme_inflight_release_def Let_def fun_eq_iff)
  show "slot q ?t \<noteq> None \<Longrightarrow> Suc (q_inflight_count (nvme_inflight_release q c)) = q_inflight_count q"
    using busy(4) by (simp add: nvme_inflight_release_def Let_def)
  show "q_depth (nvme_inflight_release q c) = q_depth q"
    by (simp add: nvme_inflight_release_def Let_def)
qed

interpretation cids: slot_pool queue_ok slot q_depth q_inflight_count cid_tag acquire_cid
    nvme_inflight_release
proof
  fix q c r q'
  assume ok: "queue_ok q"
  show "acquire_cid q r = None \<longleftrightarrow> q_inflight_count q = q_depth q"
    using ok by (auto simp: acquire_cid_eq [OF ok] queue_ok_def Let_def)
  show "queue_ok (nvme_inflight_release q c)"
    and "slot (nvme_inflight_release q c) = (slot q)(cid_tag c := None)"
    and "q_depth (nvme_inflight_release q c) = q_depth q"
    by (rule release_ok [OF ok])+
  show "slot q (cid_tag c) \<noteq> None \<Longrightarrow>
      Suc (q_inflight_count (nvme_inflight_release q c)) = q_inflight_count q"
    by (rule release_ok [OF ok])
  show "slot q (cid_tag c) = None \<Longrightarrow> nvme_inflight_release q c = q"
    by (simp add: nvme_inflight_release_def Let_def)
  assume a: "acquire_cid q r = Some (c, q')"
  show "queue_ok q'" "slot q (cid_tag c) = None" "slot q' = (slot q)(cid_tag c := Some r)"
    "q_inflight_count q' = Suc (q_inflight_count q)" "q_depth q' = q_depth q"
    by (rule acquire_cid_ok [OF ok a])+
qed

section \<open>The submission ring\<close>

definition sq_slot_addr :: "nvme_queue \<Rightarrow> nat \<Rightarrow> u32" where
  "sq_slot_addr q tail = (case q_sq_base q of None \<Rightarrow> 0
     | Some b \<Rightarrow> b + push_bit (if q_sqe_128b q then 7 else 6) (of_nat tail))"

text \<open>
  The ring part of \<open>nvme_submit_io\<close>: the slot after the tail must not be the last
  consumed completion slot; the command is copied into the tail slot.
\<close>

definition sq_push :: "nvme_command \<Rightarrow> nvme_queue \<Rightarrow> nvme_queue option" where
  "sq_push cmd q =
    (let tail = q_sq_tail q; nxt = (tail + 1) mod q_depth q in
     if nxt = q_cq_head q then None
     else Some (q\<lparr>q_sq := (q_sq q)[tail := cmd], q_sq_tail := nxt\<rparr>))"

text \<open>The head movement of \<open>drain_cq\<close>: one completion consumed, phase flip on wrap.\<close>

definition cq_advance :: "nvme_queue \<Rightarrow> nvme_queue" where
  "cq_advance q = (if q_cq_head q + 1 = q_depth q
     then q\<lparr>q_cq_head := 0, q_cq_phase := \<not> q_cq_phase q\<rparr>
     else q\<lparr>q_cq_head := q_cq_head q + 1\<rparr>)"

definition sq_used :: "nvme_queue \<Rightarrow> nat" where
  "sq_used q = (q_sq_tail q + q_depth q - q_cq_head q) mod q_depth q"

definition sq_contents :: "nvme_queue \<Rightarrow> nvme_command list" where
  "sq_contents q = map (\<lambda>i. q_sq q ! ((q_cq_head q + i) mod q_depth q)) [0..<sq_used q]"

definition ring_ok :: "nvme_queue \<Rightarrow> bool" where
  "ring_ok q \<longleftrightarrow> 2 \<le> q_depth q \<and> length (q_sq q) = q_depth q \<and> q_sq_tail q < q_depth q \<and>
     q_cq_head q < q_depth q"

text \<open>
  A bounded FIFO with a producer and a consumer, and what follows for a run of
  pushes.
\<close>

locale bounded_fifo =
  fixes inv :: "'q \<Rightarrow> bool"
    and contents :: "'q \<Rightarrow> 'a list"
    and room :: "'q \<Rightarrow> nat"
    and push :: "'a \<Rightarrow> 'q \<Rightarrow> 'q option"
    and pop :: "'q \<Rightarrow> 'q"
  assumes push_None: "inv q \<Longrightarrow> push x q = None \<longleftrightarrow> room q = 0"
    and push_inv: "inv q \<Longrightarrow> push x q = Some q' \<Longrightarrow> inv q'"
    and push_contents: "inv q \<Longrightarrow> push x q = Some q' \<Longrightarrow> contents q' = contents q @ [x]"
    and push_room: "inv q \<Longrightarrow> push x q = Some q' \<Longrightarrow> Suc (room q') = room q"
    and pop_inv: "inv q \<Longrightarrow> inv (pop q)"
    and pop_contents: "inv q \<Longrightarrow> contents q \<noteq> [] \<Longrightarrow> contents (pop q) = tl (contents q)"
    and pop_room: "inv q \<Longrightarrow> contents q \<noteq> [] \<Longrightarrow> room (pop q) = Suc (room q)"
begin

fun push_all :: "'a list \<Rightarrow> 'q \<Rightarrow> 'q option" where
  "push_all [] q = Some q"
| "push_all (x # xs) q = (case push x q of None \<Rightarrow> None | Some q' \<Rightarrow> push_all xs q')"

lemma push_all_Some:
  assumes "inv q" "length xs \<le> room q"
  shows "\<exists>q'. push_all xs q = Some q' \<and> inv q' \<and> contents q' = contents q @ xs \<and>
    room q' = room q - length xs"
  using assms
proof (induction xs arbitrary: q)
  case Nil
  then show ?case by simp
next
  case (Cons x xs)
  then obtain q1 where q1: "push x q = Some q1" using push_None [of q x] by fastforce
  note r = push_room [OF Cons.prems(1) q1]
  then have "length xs \<le> room q1" using Cons.prems(2) by simp
  then show ?case
    using Cons.IH [OF push_inv [OF Cons.prems(1) q1]] q1 push_contents [OF Cons.prems(1) q1] r
    by fastforce
qed

lemma push_all_None:
  assumes "inv q" "room q < length xs"
  shows "push_all xs q = None"
  using assms
proof (induction xs arbitrary: q)
  case Nil
  then show ?case by simp
next
  case (Cons x xs)
  show ?case
  proof (cases "push x q")
    case None
    then show ?thesis by simp
  next
    case (Some q1)
    then show ?thesis
      using Cons.IH [OF push_inv [OF Cons.prems(1) Some]] push_room [OF Cons.prems(1) Some]
        Cons.prems(2) by simp
  qed
qed

lemma pop_push_all:
  assumes "inv q" "contents q = []" "xs \<noteq> []" "length xs \<le> room q" "push_all xs q = Some q'"
  shows "contents (pop q') = tl xs"
proof -
  obtain q1 where "push_all xs q = Some q1" "inv q1" "contents q1 = contents q @ xs"
    using push_all_Some [OF assms(1,4)] by blast
  then show ?thesis using assms pop_contents [of q1] by simp
qed

end

lemma length_sq_contents [simp]: "length (sq_contents q) = sq_used q"
  by (simp add: sq_contents_def)

lemma sq_used_less: "ring_ok q \<Longrightarrow> sq_used q < q_depth q"
  by (simp add: ring_ok_def sq_used_def)

lemma mod_step_cases:
  assumes "(t :: nat) < d" "h < d"
  shows "(t + d - h) mod d = (if h \<le> t then t - h else t + d - h)"
  using assms by (auto simp: le_mod_geq)

lemma sq_push_used:
  assumes ok: "ring_ok q"
  shows "(q_sq_tail q + 1) mod q_depth q = q_cq_head q \<longleftrightarrow> sq_used q + 1 = q_depth q"
    and "(q_cq_head q + sq_used q) mod q_depth q = q_sq_tail q"
  using ok unfolding ring_ok_def sq_used_def
  by (auto simp: mod_step_cases mod_Suc split: if_splits)

lemma sq_push_ok:
  assumes ok: "ring_ok q" and p: "sq_push x q = Some q'"
  shows "ring_ok q'" "sq_used q' = Suc (sq_used q)" "sq_contents q' = sq_contents q @ [x]"
proof -
  have q': "q' = q\<lparr>q_sq := (q_sq q)[q_sq_tail q := x], q_sq_tail := (q_sq_tail q + 1) mod q_depth q\<rparr>"
    and ne: "(q_sq_tail q + 1) mod q_depth q \<noteq> q_cq_head q"
    using p by (auto simp: sq_push_def Let_def split: if_splits)
  show "ring_ok q'" using ok by (auto simp: q' ring_ok_def)
  show used: "sq_used q' = Suc (sq_used q)"
    using ok ne unfolding q' ring_ok_def sq_used_def
    by (auto simp: mod_step_cases mod_Suc split: if_splits)
  have "q_sq_tail q \<noteq> (q_cq_head q + i) mod q_depth q" if "i < sq_used q" for i
    using mod_add_left_inj [of "q_cq_head q" i "q_depth q" "sq_used q"] that
      sq_used_less [OF ok] sq_push_used(2) [OF ok] by auto
  then have "map (\<lambda>i. q_sq q' ! ((q_cq_head q' + i) mod q_depth q')) [0..<sq_used q] = sq_contents q"
    by (auto simp: sq_contents_def q')
  moreover have "q_sq q' ! ((q_cq_head q' + sq_used q) mod q_depth q') = x"
    using ok sq_push_used(2) [OF ok] by (simp add: q' ring_ok_def)
  ultimately show "sq_contents q' = sq_contents q @ [x]"
    unfolding sq_contents_def [of q'] used by simp
qed

lemma cq_advance_ok:
  assumes ok: "ring_ok q"
  shows "ring_ok (cq_advance q)" "sq_used q \<noteq> 0 \<Longrightarrow> Suc (sq_used (cq_advance q)) = sq_used q"
    "sq_used q \<noteq> 0 \<Longrightarrow> sq_contents (cq_advance q) = tl (sq_contents q)"
proof -
  have h: "q_cq_head (cq_advance q) = (q_cq_head q + 1) mod q_depth q"
    and e: "q_sq (cq_advance q) = q_sq q" "q_sq_tail (cq_advance q) = q_sq_tail q"
      "q_depth (cq_advance q) = q_depth q"
    using ok by (auto simp: cq_advance_def ring_ok_def)
  show "ring_ok (cq_advance q)" using ok by (auto simp: ring_ok_def h e)
  assume u: "sq_used q \<noteq> 0"
  show used: "Suc (sq_used (cq_advance q)) = sq_used q"
    using ok u unfolding ring_ok_def sq_used_def h e
    by (auto simp: mod_step_cases mod_Suc split: if_splits)
  have "sq_contents q = map (\<lambda>i. q_sq q ! ((q_cq_head q + i) mod q_depth q)) [0..<Suc (sq_used (cq_advance q))]"
    unfolding sq_contents_def used ..
  then have "tl (sq_contents q)
      = map (\<lambda>i. q_sq q ! ((q_cq_head q + Suc i) mod q_depth q)) [0..<sq_used (cq_advance q)]"
    by (simp add: upt_conv_Cons map_tl [symmetric] map_Suc_upt [symmetric] del: upt_Suc map_Suc_upt)
  then show "sq_contents (cq_advance q) = tl (sq_contents q)"
    unfolding sq_contents_def [of "cq_advance q"] h e by (simp add: mod_simps)
qed

interpretation sqr: bounded_fifo ring_ok sq_contents "\<lambda>q. q_depth q - 1 - sq_used q" sq_push cq_advance
proof
  fix q x q'
  assume ok: "ring_ok q"
  note lt = sq_used_less [OF ok]
  have ne: "sq_contents q \<noteq> [] \<longleftrightarrow> sq_used q \<noteq> 0" by (simp add: sq_contents_def)
  show "sq_push x q = None \<longleftrightarrow> q_depth q - 1 - sq_used q = 0"
    using lt sq_push_used(1) [OF ok] by (auto simp: sq_push_def Let_def)
  show "ring_ok (cq_advance q)" by (rule cq_advance_ok [OF ok])
  show "sq_contents q \<noteq> [] \<Longrightarrow> sq_contents (cq_advance q) = tl (sq_contents q)"
    unfolding ne by (rule cq_advance_ok(3) [OF ok])
  have "q_depth (cq_advance q) = q_depth q" by (simp add: cq_advance_def)
  then show "sq_contents q \<noteq> [] \<Longrightarrow>
      q_depth (cq_advance q) - 1 - sq_used (cq_advance q) = Suc (q_depth q - 1 - sq_used q)"
    using cq_advance_ok(2) [OF ok] lt unfolding ne by linarith
  assume p: "sq_push x q = Some q'"
  have d: "q_depth q' = q_depth q" using p by (auto simp: sq_push_def Let_def split: if_splits)
  show "ring_ok q'" "sq_contents q' = sq_contents q @ [x]" by (rule sq_push_ok [OF ok p])+
  show "Suc (q_depth q' - 1 - sq_used q') = q_depth q - 1 - sq_used q"
    using sq_push_ok(1,2) [OF ok p] sq_used_less [of q'] d by simp
qed

section \<open>Set-up and tear-down\<close>

definition sq_bytes :: "nvme_queue \<Rightarrow> u32" where
  "sq_bytes q = of_nat (q_depth q) * (if q_sqe_128b q then 128 else 64)"

text \<open>The fields filled in before the first allocation.\<close>

definition queue_header :: "NVMeController \<Rightarrow> u16 \<Rightarrow> nat \<Rightarrow> nvme_queue" where
  "queue_header s qid depth = zero_queue\<lparr>
     q_qid := qid, q_depth := depth,
     q_sqe_128b := (qid \<noteq> 0 \<and> bit (k_quirks s) NVME_QUIRK_128_BYTES_SQES),
     q_skip_cid_gen := bit (k_quirks s) NVME_QUIRK_SKIP_CID_GEN,
     q_cq_phase := True,
     q_sq_db_off := NVME_REG_DBS + 2 * ucast qid * k_db_stride s,
     q_cq_db_off := NVME_REG_DBS + (2 * ucast qid + 1) * k_db_stride s\<rparr>"

definition free_stack_init :: "nat \<Rightarrow> u16 list" where
  "free_stack_init depth = map (\<lambda>i. of_nat (depth - 1 - i)) [0..<depth]"

definition set_q :: "queue_sel \<Rightarrow> nvme_queue \<Rightarrow> NVMeController \<Rightarrow> NVMeController" where
  "set_q sel q = upd_q sel (\<lambda>_. q)"

text \<open>
  nvme_setup_queue: True is the return value 0, False is -1.  The error labels
  release what was allocated so far in reverse order and zero the queue.
\<close>

definition nvme_setup_queue ::
    "platform \<Rightarrow> queue_sel \<Rightarrow> u16 \<Rightarrow> nat \<Rightarrow> NVMeController \<Rightarrow> bool \<times> NVMeController" where
  "nvme_setup_queue P sel qid depth s =
    (let q0 = queue_header s qid depth;
         sqb = sq_bytes q0;
         cqb = of_nat depth * 16;
         ifb = of_nat depth * 4;
         fsb = of_nat depth * 2
     in case dma_zalloc P 4096 sqb s of
       None \<Rightarrow> (False, set_q sel zero_queue s)
     | Some (sq, s1) \<Rightarrow> let s1 = emit (Ev_flush sq sqb True) s1 in
       (case dma_zalloc P 4096 cqb s1 of
         None \<Rightarrow> (False, set_q sel zero_queue (dma_free sq s1))
       | Some (cq, s2) \<Rightarrow> let s2 = emit (Ev_flush cq cqb False) s2 in
         (case pool_zalloc P ifb s2 of
           None \<Rightarrow> (False, set_q sel zero_queue (dma_free sq (dma_free cq s2)))
         | Some s3 \<Rightarrow>
           (case pool_zalloc P fsb s3 of
             None \<Rightarrow> (False, set_q sel zero_queue (dma_free sq (dma_free cq (pool_free ifb s3))))
           | Some s4 \<Rightarrow>
               (True, set_q sel (q0\<lparr>
                  q_sq_base := Some sq, q_sq := replicate depth zero_cmd,
                  q_cq_base := Some cq, q_cq := replicate depth zero_cqe,
                  q_inflight := replicate depth None,
                  q_free_stack := free_stack_init depth, q_free_top := depth\<rparr>) s4)))))"

definition nvme_teardown_queue :: "queue_sel \<Rightarrow> NVMeController \<Rightarrow> NVMeController" where
  "nvme_teardown_queue sel s =
    (let q = get_q s sel;
         s1 = (case q_sq_base q of Some a \<Rightarrow> dma_free a s | None \<Rightarrow> s);
         s2 = (case q_cq_base q of Some a \<Rightarrow> dma_free a s1 | None \<Rightarrow> s1);
         s3 = (if q_inflight q \<noteq> [] then pool_free (of_nat (q_depth q) * 4) s2 else s2);
         s4 = (if q_free_stack q \<noteq> [] then pool_free (of_nat (q_depth q) * 2) s3 else s3)
     in set_q sel zero_queue s4)"

text \<open>nvme_cq_pending: the phase test of the interrupt server, after one cache line is invalidated.\<close>

definition cqe_fresh :: "platform \<Rightarrow> nvme_completion \<Rightarrow> bool \<Rightarrow> bool" where
  "cqe_fresh P c phase \<longleftrightarrow> bit (p_le16 P (cqe_status c)) 0 = phase"

definition nvme_cq_pending :: "platform \<Rightarrow> queue_sel \<Rightarrow> NVMeController \<Rightarrow> bool \<times> NVMeController" where
  "nvme_cq_pending P sel s = (let q = get_q s sel in
     case q_cq_base q of None \<Rightarrow> (False, s)
     | Some a \<Rightarrow> (cqe_fresh P (q_cq q ! q_cq_head q) (q_cq_phase q),
                  emit (Ev_inval (a + of_nat (q_cq_head q) * 16) 16) s))"

section \<open>The tail doorbell\<close>

definition nvme_sq_commit :: "queue_sel \<Rightarrow> NVMeController \<Rightarrow> NVMeController" where
  "nvme_sq_commit sel s = (let q = get_q s sel in
     if q_sq_tail q \<noteq> q_last_sq_tail q
     then upd_q sel (\<lambda>q. q\<lparr>q_last_sq_tail := q_sq_tail q\<rparr>)
            (emit (Ev_doorbell (q_sq_db_off q) (of_nat (q_sq_tail q))) (emit Ev_barrier s))
     else s)"

definition nvme_sq_batch_begin :: "queue_sel \<Rightarrow> NVMeController \<Rightarrow> NVMeController" where
  "nvme_sq_batch_begin sel = upd_q sel (\<lambda>q. q\<lparr>q_sq_batch_depth := q_sq_batch_depth q + 1\<rparr>)"

definition nvme_sq_batch_end :: "queue_sel \<Rightarrow> NVMeController \<Rightarrow> NVMeController" where
  "nvme_sq_batch_end sel s =
    (if q_sq_batch_depth (get_q s sel) = 0 then s
     else let s1 = upd_q sel (\<lambda>q. q\<lparr>q_sq_batch_depth := q_sq_batch_depth q - 1\<rparr>) s in
       if q_sq_batch_depth (get_q s1 sel) = 0 then nvme_sq_commit sel s1 else s1)"

section \<open>Access lemmas\<close>

lemma get_q_upd_q [state_simps, simp]: "get_q (upd_q sel f s) sel = f (get_q s sel)"
  by (cases sel) (simp_all add: get_q_def upd_q_def)

lemma get_q_upd_other [state_simps]: "sel \<noteq> sel' \<Longrightarrow> get_q (upd_q sel f s) sel' = get_q s sel'"
  by (cases sel; cases sel') (simp_all add: get_q_def upd_q_def)

lemma get_q_emit [state_simps, simp]: "get_q (emit e s) sel = get_q s sel"
  by (cases sel) (simp_all add: get_q_def emit_def)

lemma get_q_fields [state_simps, simp]:
  "get_q (s\<lparr>k_state := v0\<rparr>) sel = get_q s sel"
  "get_q (s\<lparr>k_flags := v1\<rparr>) sel = get_q s sel"
  "get_q (s\<lparr>k_reqs := v2\<rparr>) sel = get_q s sel"
  "get_q (s\<lparr>k_ctxs := v3\<rparr>) sel = get_q s sel"
  "get_q (s\<lparr>k_ios := v4\<rparr>) sel = get_q s sel"
  "get_q (s\<lparr>k_units := v5\<rparr>) sel = get_q s sel"
  "get_q (s\<lparr>k_retry_list := v6\<rparr>) sel = get_q s sel"
  "get_q (s\<lparr>k_io_pending := v7\<rparr>) sel = get_q s sel"
  "get_q (s\<lparr>k_ctx_stalled := v8\<rparr>) sel = get_q s sel"
  "get_q (s\<lparr>k_msgPort := v9\<rparr>) sel = get_q s sel"
  "get_q (s\<lparr>k_adminPort := v10\<rparr>) sel = get_q s sel"
  "get_q (s\<lparr>k_prp_small := v11\<rparr>) sel = get_q s sel"
  "get_q (s\<lparr>k_prp_large := v12\<rparr>) sel = get_q s sel"
  "get_q (s\<lparr>k_dma := v13\<rparr>) sel = get_q s sel"
  "get_q (s\<lparr>k_meta := v14\<rparr>) sel = get_q s sel"
  "get_q (s\<lparr>k_mem := v15\<rparr>) sel = get_q s sel"
  "get_q (s\<lparr>k_dsm := v16\<rparr>) sel = get_q s sel"
  "get_q (s\<lparr>k_clock := v17\<rparr>) sel = get_q s sel"
  "get_q (s\<lparr>k_trace := v18\<rparr>) sel = get_q s sel"
  "get_q (s\<lparr>k_aen_result := v19\<rparr>) sel = get_q s sel"
  "get_q (s\<lparr>k_events := v20\<rparr>) sel = get_q s sel"
  "get_q (s\<lparr>k_io_max_inflight := v21\<rparr>) sel = get_q s sel"
  "get_q (s\<lparr>k_scsi := v22\<rparr>) sel = get_q s sel"
  "get_q (s\<lparr>k_client := v23\<rparr>) sel = get_q s sel"
  "get_q (s\<lparr>k_quirks := v24\<rparr>) sel = get_q s sel"
  "get_q (s\<lparr>k_openUnits := v25\<rparr>) sel = get_q s sel"
  by (cases sel; simp add: get_q_def)+

lemma get_q_set_q [state_simps, simp]: "get_q (set_q sel q s) sel = q"
  by (simp add: set_q_def)

lemma get_q_set_other [state_simps]: "sel \<noteq> sel' \<Longrightarrow> get_q (set_q sel q s) sel' = get_q s sel'"
  by (simp add: set_q_def get_q_upd_other)

lemma upd_q_fields [state_simps, simp]:
  "k_dma (upd_q sel f s) = k_dma s" "k_meta (upd_q sel f s) = k_meta s"
  "k_reqs (upd_q sel f s) = k_reqs s" "k_ctxs (upd_q sel f s) = k_ctxs s"
  "k_trace (upd_q sel f s) = k_trace s" "k_ios (upd_q sel f s) = k_ios s"
  "k_state (upd_q sel f s) = k_state s" "k_flags (upd_q sel f s) = k_flags s"
  "k_units (upd_q sel f s) = k_units s" "k_quirks (upd_q sel f s) = k_quirks s"
  by (cases sel; simp add: upd_q_def)+

lemma emit_fields [state_simps, simp]:
  "k_dma (emit e s) = k_dma s" "k_meta (emit e s) = k_meta s"
  "k_reqs (emit e s) = k_reqs s" "k_ctxs (emit e s) = k_ctxs s"
  "k_trace (emit e s) = k_trace s @ [e]" "k_ios (emit e s) = k_ios s"
  "k_state (emit e s) = k_state s" "k_flags (emit e s) = k_flags s"
  "k_units (emit e s) = k_units s" "k_quirks (emit e s) = k_quirks s"
  by (simp_all add: emit_def)

lemma set_q_fields [state_simps, simp]:
  "k_dma (set_q sel q s) = k_dma s" "k_meta (set_q sel q s) = k_meta s"
  by (simp_all add: set_q_def)

section \<open>Correctness of set-up and tear-down\<close>

lemma free_stack_init_props:
  assumes "depth \<le> 256"
  shows "length (free_stack_init depth) = depth"
    "distinct (map cid_tag (free_stack_init depth))"
    "c \<in> set (free_stack_init depth) \<Longrightarrow> cid_tag c < depth \<and> c = of_nat (cid_tag c)"
proof -
  have tags: "map cid_tag (free_stack_init depth) = rev [0..<depth]"
    using assms by (intro nth_equalityI) (auto simp: free_stack_init_def cid_tag_of_nat rev_nth simp del: of_nat_diff)
  show "length (free_stack_init depth) = depth" by (simp add: free_stack_init_def)
  show "distinct (map cid_tag (free_stack_init depth))" by (simp add: tags)
  show "c \<in> set (free_stack_init depth) \<Longrightarrow> cid_tag c < depth \<and> c = of_nat (cid_tag c)"
    using assms by (auto simp: free_stack_init_def cid_tag_of_nat simp del: of_nat_diff)
qed

lemma dma_zalloc_cases:
  assumes "dma_zalloc P al n s = Some (a, s')"
  shows "p_dma_alloc P al n (\<lambda>a. k_dma s a \<noteq> None) = Some a" "k_dma s' = (k_dma s)(a := Some n)"
    "k_meta s' = k_meta s" "get_q s' sel = get_q s sel" "k_trace s' = k_trace s"
  using assms by (cases sel; auto simp: dma_zalloc_def dma_alloc_def get_q_def split: option.splits)+

lemma setup_queue_SomeE:
  assumes "nvme_setup_queue P sel qid depth s = (True, s')"
  obtains sq cq where "get_q s' sel = (queue_header s qid depth)\<lparr>
      q_sq_base := Some sq, q_sq := replicate depth zero_cmd, q_cq_base := Some cq,
      q_cq := replicate depth zero_cqe, q_inflight := replicate depth None,
      q_free_stack := free_stack_init depth, q_free_top := depth\<rparr>"
    "k_dma s' = (k_dma s)(sq := Some (sq_bytes (queue_header s qid depth)), cq := Some (of_nat depth * 16))"
    "k_meta s' = of_nat depth * 2 # of_nat depth * 4 # k_meta s"
    "p_dma_alloc P 4096 (sq_bytes (queue_header s qid depth)) (\<lambda>a. k_dma s a \<noteq> None) = Some sq"
    "p_dma_alloc P 4096 (of_nat depth * 16)
       (\<lambda>a. ((k_dma s)(sq := Some (sq_bytes (queue_header s qid depth)))) a \<noteq> None) = Some cq"
proof -
  from assms obtain sq s1 where a1: "dma_zalloc P 4096 (sq_bytes (queue_header s qid depth)) s = Some (sq, s1)"
    by (auto simp: nvme_setup_queue_def Let_def split: option.splits)
  let ?s1 = "emit (Ev_flush sq (sq_bytes (queue_header s qid depth)) True) s1"
  from assms a1 obtain cq s2 where a2: "dma_zalloc P 4096 (of_nat depth * 16) ?s1 = Some (cq, s2)"
    by (auto simp: nvme_setup_queue_def Let_def split: option.splits)
  note d1 = dma_zalloc_cases [OF a1] and d2 = dma_zalloc_cases [OF a2]
  let ?s2 = "emit (Ev_flush cq (of_nat depth * 16) False) s2"
  let ?q = "(queue_header s qid depth)\<lparr>
      q_sq_base := Some sq, q_sq := replicate depth zero_cmd, q_cq_base := Some cq,
      q_cq := replicate depth zero_cqe, q_inflight := replicate depth None,
      q_free_stack := free_stack_init depth, q_free_top := depth\<rparr>"
  have s': "s' = set_q sel ?q (?s2\<lparr>k_meta := of_nat depth * 2 # of_nat depth * 4 # k_meta ?s2\<rparr>)"
    using assms a1 a2
    by (auto simp: nvme_setup_queue_def Let_def pool_zalloc_def split: option.splits if_splits)
  show thesis
    by (rule that [where sq = sq and cq = cq]) (use d1 d2 in \<open>simp_all add: s'\<close>)
qed

lemma setup_queue_ok:
  assumes "nvme_setup_queue P sel qid depth s = (True, s')" "2 \<le> depth" "depth \<le> 256"
  shows "queue_ok (get_q s' sel)" "ring_ok (get_q s' sel)" "sq_contents (get_q s' sel) = []"
    "slot (get_q s' sel) = (\<lambda>_. None)" "q_depth (get_q s' sel) = depth"
proof -
  obtain sq cq where q: "get_q s' sel = (queue_header s qid depth)\<lparr>
      q_sq_base := Some sq, q_sq := replicate depth zero_cmd, q_cq_base := Some cq,
      q_cq := replicate depth zero_cqe, q_inflight := replicate depth None,
      q_free_stack := free_stack_init depth, q_free_top := depth\<rparr>"
    by (rule setup_queue_SomeE [OF assms(1)])
  note fs = free_stack_init_props [OF assms(3)]
  show "queue_ok (get_q s' sel)"
    using fs(1,2) assms(3) by (auto simp: q queue_ok_def queue_header_def zero_queue_def dest: fs(3))
  show "ring_ok (get_q s' sel)" "sq_contents (get_q s' sel) = []"
    "slot (get_q s' sel) = (\<lambda>_. None)" "q_depth (get_q s' sel) = depth"
    using assms(2)
    by (auto simp: q ring_ok_def queue_header_def zero_queue_def sq_contents_def sq_used_def slot_def)
qed

lemma setup_queue_fresh:
  assumes "dma_pool_ok P" "nvme_setup_queue P sel qid depth s = (True, s')"
  obtains sq cq where "q_sq_base (get_q s' sel) = Some sq" "q_cq_base (get_q s' sel) = Some cq"
    "k_dma s sq = None" "k_dma s cq = None" "sq \<noteq> cq" "unat sq mod 4096 = 0" "unat cq mod 4096 = 0"
    "\<forall>a. a \<noteq> sq \<longrightarrow> a \<noteq> cq \<longrightarrow> k_dma s' a = k_dma s a"
    "k_meta s' = of_nat depth * 2 # of_nat depth * 4 # k_meta s"
proof -
  obtain sq cq where b: "get_q s' sel = (queue_header s qid depth)\<lparr>
      q_sq_base := Some sq, q_sq := replicate depth zero_cmd, q_cq_base := Some cq,
      q_cq := replicate depth zero_cqe, q_inflight := replicate depth None,
      q_free_stack := free_stack_init depth, q_free_top := depth\<rparr>"
    "k_dma s' = (k_dma s)(sq := Some (sq_bytes (queue_header s qid depth)), cq := Some (of_nat depth * 16))"
    "k_meta s' = of_nat depth * 2 # of_nat depth * 4 # k_meta s"
    "p_dma_alloc P 4096 (sq_bytes (queue_header s qid depth)) (\<lambda>a. k_dma s a \<noteq> None) = Some sq"
    "p_dma_alloc P 4096 (of_nat depth * 16)
       (\<lambda>a. ((k_dma s)(sq := Some (sq_bytes (queue_header s qid depth)))) a \<noteq> None) = Some cq"
    by (rule setup_queue_SomeE [OF assms(2)])
  note d1 = dma_pool_okD [OF assms(1) b(4)] and d2 = dma_pool_okD [OF assms(1) b(5)]
  have "sq \<noteq> cq" "k_dma s cq = None" using d2(1) by (auto split: if_splits)
  then show thesis
    by (intro that [where sq = sq and cq = cq]) (use b(1-3) d1 d2 in auto)
qed

lemma teardown_queue_eqs:
  assumes "q_sq_base (get_q s sel) = Some sq" "q_cq_base (get_q s sel) = Some cq"
    "q_inflight (get_q s sel) \<noteq> []" "q_free_stack (get_q s sel) \<noteq> []"
  shows "k_dma (nvme_teardown_queue sel s) = (k_dma s)(sq := None, cq := None)"
    "k_meta (nvme_teardown_queue sel s) = remove1 (of_nat (q_depth (get_q s sel)) * 2)
       (remove1 (of_nat (q_depth (get_q s sel)) * 4) (k_meta s))"
  using assms by (simp_all add: nvme_teardown_queue_def dma_free_def pool_free_def Let_def)

lemma remove1_swap_two: "remove1 a (remove1 b (a # b # xs)) = xs"
  by simp

text \<open>
  A successful \<open>nvme_setup_queue\<close> leaves a queue whose CID pool and rings
  satisfy their invariants and are empty, in two fresh page-aligned DMA blocks,
  and tearing the queue down returns every allocation.
\<close>

theorem setup_teardown_queue:
  assumes "dma_pool_ok P" "nvme_setup_queue P sel qid depth s = (True, s')" "2 \<le> depth" "depth \<le> 256"
  shows "queue_ok (get_q s' sel) \<and> ring_ok (get_q s' sel) \<and> sq_contents (get_q s' sel) = [] \<and>
    slot (get_q s' sel) = (\<lambda>_. None) \<and>
    (\<exists>sq cq. q_sq_base (get_q s' sel) = Some sq \<and> q_cq_base (get_q s' sel) = Some cq \<and> sq \<noteq> cq \<and>
       k_dma s sq = None \<and> k_dma s cq = None \<and> unat sq mod 4096 = 0 \<and> unat cq mod 4096 = 0) \<and>
    k_dma (nvme_teardown_queue sel s') = k_dma s \<and> k_meta (nvme_teardown_queue sel s') = k_meta s \<and>
    get_q (nvme_teardown_queue sel s') sel = zero_queue"
proof -
  obtain sq cq where f: "q_sq_base (get_q s' sel) = Some sq" "q_cq_base (get_q s' sel) = Some cq"
    "k_dma s sq = None" "k_dma s cq = None" "sq \<noteq> cq" "unat sq mod 4096 = 0" "unat cq mod 4096 = 0"
    "\<forall>a. a \<noteq> sq \<longrightarrow> a \<noteq> cq \<longrightarrow> k_dma s' a = k_dma s a"
    "k_meta s' = of_nat depth * 2 # of_nat depth * 4 # k_meta s"
    by (rule setup_queue_fresh [OF assms(1,2)])
  note ok = setup_queue_ok [OF assms(2-4)]
  have ne: "q_inflight (get_q s' sel) \<noteq> []" "q_free_stack (get_q s' sel) \<noteq> []"
    using ok(1,5) assms(3) by (auto simp: queue_ok_def)
  note td = teardown_queue_eqs [OF f(1,2) ne]
  have "k_dma (nvme_teardown_queue sel s') = k_dma s"
    unfolding td(1) using f(3-5,8) by (auto simp: fun_eq_iff)
  moreover have "k_meta (nvme_teardown_queue sel s') = k_meta s"
    unfolding td(2) ok(5) f(9) by (rule remove1_swap_two)
  moreover have "get_q (nvme_teardown_queue sel s') sel = zero_queue"
    by (simp add: nvme_teardown_queue_def Let_def)
  ultimately show ?thesis using ok(1-4) f(1-7) by auto
qed

theorem setup_teardown_queue_witness:
  "\<exists>s'. nvme_setup_queue m68k_platform Admin_q 0 64 zero_ctrl = (True, s') \<and>
     queue_ok (get_q s' Admin_q) \<and> k_dma (nvme_teardown_queue Admin_q s') = k_dma zero_ctrl"
proof -
  have "fst (nvme_setup_queue m68k_platform Admin_q 0 64 zero_ctrl)"
    by (simp add: nvme_setup_queue_def Let_def dma_zalloc_def dma_alloc_def pool_zalloc_def
        m68k_platform_def demo_pages_def zero_ctrl_def emit_def)
  then obtain s' where s': "nvme_setup_queue m68k_platform Admin_q 0 64 zero_ctrl = (True, s')"
    by (cases "nvme_setup_queue m68k_platform Admin_q 0 64 zero_ctrl") auto
  show ?thesis using setup_teardown_queue [OF m68k_dma_pool_ok s'] s' by auto
qed

section \<open>Properties of the CID pool\<close>

lemma next_cid_fields:
  "unat (next_cid skip c) mod 4096 = unat c mod 4096 \<and> unat (next_cid skip c) div 4096 = (if skip then 0 else (unat c div 4096 + 1) mod 16) \<and>
    (\<not> skip \<longrightarrow> next_cid skip c \<noteq> c)"
proof (cases skip)
  case True
  have "unat c mod 4096 < 65536" by (rule less_trans [of _ 4096]) simp_all
  then show ?thesis using True by (simp add: next_cid_skip cid_tag_mod unat_of_nat)
next
  case False
  then show ?thesis using unat_next_cid [of c] next_cid_differs [of c] by (simp add: cid_gen_div cid_tag_mod)
qed

text \<open>An identifier that is released and handed out again has moved on to its next generation.\<close>

lemma released_cid_next:
  assumes "queue_ok q" "slot q (cid_tag c) \<noteq> None"
  shows "fst (nvme_alloc_cid (nvme_inflight_release q c)) = next_cid (q_skip_cid_gen q) c"
proof -
  have "0 < q_inflight_count q" using release_ok(3) [OF assms] by simp
  then have "q_free_top q < length (q_free_stack q)" using assms(1) by (auto simp: queue_ok_def)
  then show ?thesis using assms(2) by (auto simp: nvme_alloc_cid_def nvme_inflight_release_def Let_def)
qed

text \<open>
  C19.  Command identifiers.  A queue with a free slot always gives one, with an unused tag, and the tables stay consistent
  over claim and release.  The slot comes back with the same tag in the low 12 bits and, in the high four, the generation after the
  old one, modulo 16, so that a late completion of the old command does not match; a controller with the
  skip quirk gets the bare tag each time.
\<close>

theorem acquire_release_cycle:
  assumes "queue_ok q"
  shows "(acquire_cid q r = None \<longleftrightarrow> (\<forall>t < q_depth q. slot q t \<noteq> None)) \<and>
    (\<forall>c q'. acquire_cid q r = Some (c, q') \<longrightarrow>
       queue_ok q' \<and> c \<noteq> 0xFFFF \<and> slot q (cid_tag c) = None \<and> slot q' = (slot q)(cid_tag c := Some r) \<and>
       queue_ok (nvme_inflight_release q' c) \<and> slot (nvme_inflight_release q' c) = slot q \<and>
       (let c' = fst (nvme_alloc_cid (nvme_inflight_release q' c)) in
          unat c' mod 4096 = unat c mod 4096 \<and>
          unat c' div 4096 = (if q_skip_cid_gen q then 0 else (unat c div 4096 + 1) mod 16) \<and>
          (\<not> q_skip_cid_gen q \<longrightarrow> c' \<noteq> c)))"
proof (intro conjI allI impI)
  have len: "length (q_inflight q) = q_depth q" using assms by (simp add: queue_ok_def)
  have "q_inflight_count q = q_depth q \<longleftrightarrow> (\<forall>x \<in> set (q_inflight q). x \<noteq> None)"
    using assms len occupied_full [of "q_inflight q"] by (simp add: queue_ok_def)
  also have "\<dots> \<longleftrightarrow> (\<forall>t < q_depth q. slot q t \<noteq> None)"
    using len by (auto simp: slot_def all_set_conv_all_nth)
  finally show "acquire_cid q r = None \<longleftrightarrow> (\<forall>t < q_depth q. slot q t \<noteq> None)"
    using cids.acquire_None [OF assms] by simp
next
  fix c q'
  assume a: "acquire_cid q r = Some (c, q')"
  note ok = acquire_cid_ok [OF assms a]
  show "queue_ok q'" "slot q (cid_tag c) = None" "slot q' = (slot q)(cid_tag c := Some r)"
    by (rule ok)+
  show "c \<noteq> 0xFFFF" using a by (auto simp: acquire_cid_def Let_def split: prod.splits if_splits)
  show "queue_ok (nvme_inflight_release q' c)" by (rule cids.release_inv [OF ok(1)])
  show "slot (nvme_inflight_release q' c) = slot q" by (rule cids.acquire_release_busy [OF assms a])
  have "q_skip_cid_gen q' = q_skip_cid_gen q"
    using a by (auto simp: acquire_cid_eq [OF assms] Let_def split: if_splits)
  then have "fst (nvme_alloc_cid (nvme_inflight_release q' c)) = next_cid (q_skip_cid_gen q) c"
    using released_cid_next [OF ok(1), of c] ok(3) by simp
  then show "let c' = fst (nvme_alloc_cid (nvme_inflight_release q' c)) in unat c' mod 4096 = unat c mod 4096 \<and>
      unat c' div 4096 = (if q_skip_cid_gen q then 0 else (unat c div 4096 + 1) mod 16) \<and> (\<not> q_skip_cid_gen q \<longrightarrow> c' \<noteq> c)"
    using next_cid_fields [of "q_skip_cid_gen q" c] by simp
qed

definition demo_queue :: nvme_queue where
  "demo_queue = zero_queue\<lparr>q_depth := 4, q_sq := replicate 4 zero_cmd, q_sq_base := Some 0x1000,
     q_cq := replicate 4 zero_cqe, q_cq_base := Some 0x2000, q_cq_phase := True,
     q_inflight := replicate 4 None, q_free_stack := free_stack_init 4, q_free_top := 4\<rparr>"

lemma demo_queue_ok: "queue_ok demo_queue" "ring_ok demo_queue"
  by (simp_all add: demo_queue_def queue_ok_def ring_ok_def zero_queue_def free_stack_init_def
      cid_tag_def upt_rec)

theorem acquire_release_cycle_witness:
  "\<exists>q'. acquire_cid demo_queue 7 = Some (0, q') \<and> slot q' 0 = Some 7 \<and>
     (let c' = fst (nvme_alloc_cid (nvme_inflight_release q' 0)) in unat c' mod 4096 = 0 \<and> unat c' div 4096 = 1)"
proof -
  have "\<exists>q'. acquire_cid demo_queue 7 = Some (0, q')"
    unfolding acquire_cid_eq [OF demo_queue_ok(1)]
    by (simp add: demo_queue_def zero_queue_def free_stack_init_def upt_rec)
  moreover have "\<not> q_skip_cid_gen demo_queue" by (simp add: demo_queue_def zero_queue_def)
  ultimately show ?thesis
    using acquire_release_cycle [OF demo_queue_ok(1), of 7] by (auto simp: cid_tag_def Let_def)
qed

text \<open>
  The generation in the CID tells the uses of a slot apart: after \<open>k\<close> reuses
  the identifier is the old one again exactly when \<open>k\<close> is a multiple of 16.
\<close>

theorem cid_generation_period:
  "(next_cid False ^^ k) cid = cid \<longleftrightarrow> k mod 16 = 0"
proof -
  have g: "cid_gen cid mod 16 = cid_gen cid" using cid_gen_less [of cid] by simp
  have "(cid_gen cid + k) mod 16 = cid_gen cid \<longleftrightarrow> k mod 16 = 0"
  proof
    assume "(cid_gen cid + k) mod 16 = cid_gen cid"
    then have "(cid_gen cid + k mod 16) mod 16 = (cid_gen cid + 0) mod 16"
      using g by (simp add: mod_add_right_eq)
    then show "k mod 16 = 0" by (rule mod_add_left_inj) simp_all
  next
    assume "k mod 16 = 0"
    then show "(cid_gen cid + k) mod 16 = cid_gen cid"
      using g mod_add_right_eq [of "cid_gen cid" k 16] by simp
  qed
  then show ?thesis using next_cid_iterate [of k cid] by (simp add: cid_eq_iff)
qed

text \<open>
  C21.  The submission ring refines a FIFO of at most \<open>depth - 1\<close> commands: a push
  is refused exactly when that many are outstanding, otherwise it appends and
  disturbs no outstanding command; consuming a completion removes the oldest.
\<close>

theorem sq_ring_fifo:
  assumes "ring_ok q"
  shows "(sq_push cmd q = None \<longleftrightarrow> length (sq_contents q) = q_depth q - 1) \<and>
    (\<forall>q'. sq_push cmd q = Some q' \<longrightarrow> ring_ok q' \<and> sq_contents q' = sq_contents q @ [cmd]) \<and>
    (sq_contents q \<noteq> [] \<longrightarrow> sq_contents (cq_advance q) = tl (sq_contents q)) \<and> ring_ok (cq_advance q)"
proof -
  have "sq_push cmd q = None \<longleftrightarrow> q_depth q - 1 - sq_used q = 0" by (rule sqr.push_None [OF assms])
  moreover have "length (sq_contents q) = sq_used q" by (simp add: sq_contents_def)
  ultimately have "sq_push cmd q = None \<longleftrightarrow> length (sq_contents q) = q_depth q - 1"
    using sq_used_less [OF assms] by linarith
  then show ?thesis
    using sqr.push_inv [OF assms] sqr.push_contents [OF assms]
      sqr.pop_inv [OF assms] sqr.pop_contents [OF assms] by blast
qed

theorem sq_ring_fifo_witness:
  "\<exists>q'. sq_push zero_cmd demo_queue = Some q' \<and> sq_contents q' = [zero_cmd]"
proof -
  have "sq_contents demo_queue = []" "\<exists>q'. sq_push zero_cmd demo_queue = Some q'"
    by (simp_all add: sq_contents_def sq_used_def sq_push_def demo_queue_def zero_queue_def)
  then show ?thesis using sq_ring_fifo [OF demo_queue_ok(2), of zero_cmd] by auto
qed

end
