(* ===== verification/Nvme_Io.thy ===== *)
theory Nvme_Io
  imports Nvme_Prp Nvme_Queue
begin

text \<open>
  I/O dispatch primitives of src/nvme/nvme_io.c: construction of the submission
  queue entries, the life cycle of a request (allocation, DMA clean-up, destruction)
  and \<open>nvme_submit_io\<close>.  The chunk scheduler and the public dispatchers build on
  these in Nvme_Chunk and Nvme_Submit.
\<close>

section \<open>Bounce decision\<close>

definition nvme_needs_bounce :: "platform \<Rightarrow> u32 \<Rightarrow> u32 \<Rightarrow> bool \<Rightarrow> bool" where
  "nvme_needs_bounce P buffer len to_device =
    (if \<not> p_reachable P buffer len then True
     else if to_device then buffer AND 3 \<noteq> 0
     else buffer AND 63 \<noteq> 0)"

section \<open>Submission queue entries\<close>

definition req_nsid :: "NVMeController \<Rightarrow> nvme_request \<Rightarrow> u32" where
  "req_nsid s q = (case r_unit q of Some u \<Rightarrow> u_nsid (k_units s u) | None \<Rightarrow> 0)"

definition nvme_setup_dsm ::
    "platform \<Rightarrow> nat \<Rightarrow> u32 \<Rightarrow> u16 \<Rightarrow> NVMeController \<Rightarrow> bool \<times> NVMeController" where
  "nvme_setup_dsm P r ranges nr s =
    (if ranges = 0 \<or> nr = 0 \<or> unat nr > NVME_DSM_MAX_RANGES then (False, s)
     else let s1 = emit (Ev_flush ranges (16 * 256) True) s in
       (True, upd_req r (\<lambda>q. q\<lparr>
          r_cmd := zero_cmd\<lparr>cmd_opcode := nvme_cmd_dsm, cmd_command_id := r_cid q,
            cmd_nsid := p_le32 P (req_nsid s q),
            cmd_body := Body_dsm (p_le32 P (ucast (nr - 1))) (p_le32 P 4),
            cmd_prp1 := p_le64 P (ucast ranges), cmd_prp2 := 0\<rparr>,
          r_prp_pages := [ranges],
          r_flags := r_flags q OR NVME_REQ_PRP_LIST\<rparr>) s1))"

definition nvme_setup_flush :: "platform \<Rightarrow> nat \<Rightarrow> NVMeController \<Rightarrow> NVMeController" where
  "nvme_setup_flush P r s = upd_req r (\<lambda>q. q\<lparr>
     r_cmd := zero_cmd\<lparr>cmd_opcode := nvme_cmd_flush, cmd_command_id := r_cid q,
       cmd_nsid := p_le32 P (req_nsid s q)\<rparr>\<rparr>) s"

definition nvme_setup_write_zeroes ::
    "platform \<Rightarrow> nat \<Rightarrow> u64 \<Rightarrow> u32 \<Rightarrow> NVMeController \<Rightarrow> NVMeController" where
  "nvme_setup_write_zeroes P r slba blocks s = upd_req r (\<lambda>q. q\<lparr>
     r_cmd := zero_cmd\<lparr>cmd_opcode := nvme_cmd_write_zeroes, cmd_command_id := r_cid q,
       cmd_nsid := p_le32 P (req_nsid s q),
       cmd_body := Body_write_zeroes (p_le64 P slba) (p_le16 P (ucast (blocks - 1)))
         (case r_unit q of
            Some u \<Rightarrow> if u_features (k_units s u) AND NVME_NS_DEAC \<noteq> 0 then p_le16 P 0x200 else 0
          | None \<Rightarrow> 0)\<rparr>\<rparr>) s"

text \<open>nvme_rw_chunk_cap: byte limit of one read or write command at \<open>lba\<close>; 0 is no limit.\<close>

definition nvme_rw_chunk_cap :: "NVMeController \<Rightarrow> u8 \<Rightarrow> u64 \<Rightarrow> u32" where
  "nvme_rw_chunk_cap s shift lba =
    (let cap = k_max_transfer_bytes s; hw = k_max_hw_sectors s in
     if bit (k_quirks s) NVME_QUIRK_STRIPE_SIZE \<and> hw \<noteq> 0 \<and> hw AND (hw - 1) = 0 \<and> 9 \<le> shift
     then let stripe_blocks = drop_bit (unat (shift - 9)) hw in
       if stripe_blocks \<noteq> 0
       then let to_boundary = stripe_blocks - ucast (lba AND ucast (stripe_blocks - 1));
                to_bytes = push_bit (unat shift) to_boundary
            in if cap = 0 \<or> to_bytes < cap then to_bytes else cap
       else cap
     else cap)"

definition block_shift_of :: "NVMeController \<Rightarrow> nvme_request \<Rightarrow> nat" where
  "block_shift_of s q = (case r_unit q of Some u \<Rightarrow> unat (u_blockShift (k_units s u)) | None \<Rightarrow> 9)"

text \<open>The bounce part of nvme_setup_rw: None is the failed allocation, else the DMA address.\<close>

definition setup_bounce ::
    "platform \<Rightarrow> nat \<Rightarrow> u8 \<Rightarrow> u32 \<Rightarrow> u32 \<Rightarrow> NVMeController \<Rightarrow> (u32 \<times> NVMeController) option" where
  "setup_bounce P r opcode buffer bytes s =
    (if buffer \<noteq> 0 \<and> bytes \<noteq> 0 \<and> nvme_needs_bounce P buffer bytes (opcode = nvme_cmd_write)
     then (case dma_alloc P 64 bytes s of None \<Rightarrow> None
       | Some (b, s1) \<Rightarrow>
          let s2 = upd_req r (\<lambda>q. q\<lparr>r_bounce_buf := Some b\<rparr>) s1 in
          Some (b, if opcode = nvme_cmd_write
                   then s2\<lparr>k_mem := mem_copy b buffer bytes (k_mem s2)\<rparr> else s2))
     else Some (buffer, s))"

definition rw_sqe :: "platform \<Rightarrow> NVMeController \<Rightarrow> u64 \<Rightarrow> u32 \<Rightarrow> u8 \<Rightarrow> nvme_request \<Rightarrow> nvme_request" where
  "rw_sqe P s lba count opcode q = q\<lparr>
     r_cmd := zero_cmd\<lparr>cmd_opcode := opcode, cmd_command_id := r_cid q,
       cmd_nsid := p_le32 P (req_nsid s q),
       cmd_body := Body_rw (p_le64 P lba) (p_le16 P (ucast (count - 1)))\<rparr>\<rparr>"

definition precached :: "NVMeController \<Rightarrow> nvme_request \<Rightarrow> bool" where
  "precached s q = (case r_ctx q of Some c \<Rightarrow> x_data_precached (cx s c) | None \<Rightarrow> False)"

definition nvme_setup_rw ::
    "platform \<Rightarrow> nat \<Rightarrow> u64 \<Rightarrow> u32 \<Rightarrow> u8 \<Rightarrow> u32 \<Rightarrow> NVMeController \<Rightarrow> io_error \<times> NVMeController" where
  "nvme_setup_rw P r lba count opcode buffer s =
    (let bytes = push_bit (block_shift_of s (rq s r)) count;
         s1 = upd_req r (\<lambda>q. q\<lparr>r_user_buf := buffer, r_user_len := bytes, r_bounce_buf := None\<rparr>) s
     in case setup_bounce P r opcode buffer bytes s1 of
       None \<Rightarrow> (IOERR_SELFTEST, s1)
     | Some (dma_buf, s2) \<Rightarrow>
         (let s3 = upd_req r (rw_sqe P s2 lba count opcode) s2;
              (ok, s4) = build_prps P r dma_buf bytes s3
          in if \<not> ok then (IOERR_SELFTEST, s4)
             else if dma_buf \<noteq> 0 \<and> bytes \<noteq> 0 \<and>
                     \<not> (precached s4 (rq s4 r) \<and> r_bounce_buf (rq s4 r) = None)
             then (IOERR_NO_ERROR, emit (Ev_flush_ns dma_buf bytes (opcode = nvme_cmd_write)) s4)
             else (IOERR_NO_ERROR, s4)))"

section \<open>Request life cycle\<close>

definition free_prp_pages :: "nvme_request \<Rightarrow> NVMeController \<Rightarrow> NVMeController" where
  "free_prp_pages q s =
    (if r_flags q AND NVME_REQ_PRP_SLAB \<noteq> 0
     then let small = (r_flags q AND NVME_REQ_PRP_SMALL \<noteq> 0) in
       set_prp_slab small (free_lists (r_prp_pages q) (prp_slab_sel small s)) s
     else fold dma_free (rev (r_prp_pages q)) s)"

definition nvme_req_free_dma_buffers :: "nat \<Rightarrow> NVMeController \<Rightarrow> NVMeController" where
  "nvme_req_free_dma_buffers r s =
    (let q = rq s r;
         s1 = (if r_flags q AND NVME_REQ_PRP_LIST \<noteq> 0
               then upd_req r (\<lambda>q. q\<lparr>r_prp_pages := [],
                      r_flags := r_flags q AND NOT (NVME_REQ_PRP_LIST OR NVME_REQ_PRP_SLAB
                                   OR NVME_REQ_PRP_SMALL)\<rparr>) (free_prp_pages q s)
               else s)
     in case r_bounce_buf q of
          Some b \<Rightarrow> upd_req r (\<lambda>q. q\<lparr>r_bounce_buf := None\<rparr>) (dma_free b s1)
        | None \<Rightarrow> s1)"

text \<open>Post-DMA cache work of a read: invalidate, and copy a bounce buffer back.\<close>

definition read_back :: "nvme_request \<Rightarrow> NVMeController \<Rightarrow> NVMeController" where
  "read_back q s =
    (if cmd_opcode (r_cmd q) = nvme_cmd_read \<and> r_user_buf q \<noteq> 0 \<and> r_user_len q \<noteq> 0
     then (case r_bounce_buf q of
         Some b \<Rightarrow> (emit (Ev_inval b (r_user_len q)) s)
           \<lparr>k_mem := mem_copy (r_user_buf q) b (r_user_len q) (k_mem s)\<rparr>
       | None \<Rightarrow> if \<not> precached s q then emit (Ev_inval (r_user_buf q) (r_user_len q)) s else s)
     else s)"

definition nvme_cleanup_cmd :: "nat \<Rightarrow> NVMeController \<Rightarrow> NVMeController" where
  "nvme_cleanup_cmd r s = nvme_req_free_dma_buffers r (read_back (rq s r) s)"

definition nvme_req_destroy :: "nat \<Rightarrow> NVMeController \<Rightarrow> NVMeController" where
  "nvme_req_destroy r s =
    (let q = rq s r;
         s1 = upd_q (r_q q) (\<lambda>qu. nvme_inflight_release qu (r_cid q)) s
     in free_req r (nvme_req_free_dma_buffers r s1))"

text \<open>
  Request allocation on a queue, common to nvme_req_alloc_io and
  nvme_req_alloc_admin; the two differ in the error codes and the filled fields.
\<close>

datatype alloc_failure = No_memory | No_tag

definition req_alloc ::
    "platform \<Rightarrow> queue_sel \<Rightarrow> (nvme_request \<Rightarrow> nvme_request) \<Rightarrow> NVMeController \<Rightarrow>
     (alloc_failure + nat) \<times> NVMeController" where
  "req_alloc P sel fill s =
    (case p_req_slab P (\<lambda>r. k_reqs s r \<noteq> None) of
       None \<Rightarrow> (Inl No_memory, s)
     | Some r \<Rightarrow>
        let s1 = s\<lparr>k_reqs := (k_reqs s)(r := Some zero_req)\<rparr>;
            (cid, q1) = nvme_alloc_cid (get_q s1 sel)
        in if cid = 0xFFFF then (Inl No_tag, free_req r s1)
           else let s2 = set_q sel (nvme_inflight_claim q1 cid r) s1 in
             (Inr r, upd_req r (\<lambda>q. (fill q)\<lparr>r_q := sel, r_cid := cid\<rparr>) s2))"

definition nvme_req_alloc_io ::
    "platform \<Rightarrow> nat \<Rightarrow> nat option \<Rightarrow> NVMeController \<Rightarrow> (io_error + nat) \<times> NVMeController" where
  "nvme_req_alloc_io P unit io s =
    (case req_alloc P Io_q (\<lambda>q. q\<lparr>r_io := io, r_unit := Some unit\<rparr>) s of
       (Inl No_memory, s1) \<Rightarrow> (Inl IOERR_SELFTEST, s1)
     | (Inl No_tag, s1) \<Rightarrow> (Inl IOERR_UNITBUSY, s1)
     | (Inr r, s1) \<Rightarrow> (Inr r, s1))"

section \<open>Submission\<close>

definition nvme_submit_io :: "nat \<Rightarrow> NVMeController \<Rightarrow> io_error \<times> NVMeController" where
  "nvme_submit_io r s =
    (let sel = r_q (rq s r); q = get_q s sel in
     if q_sq_base q = None then (IOERR_BADADDRESS, nvme_req_destroy r s)
     else (case sq_push (r_cmd (rq s r)) q of
        None \<Rightarrow> (IOERR_UNITBUSY, nvme_req_destroy r s)
      | Some q' \<Rightarrow>
          let s1 = emit (Ev_flush_ns (sq_slot_addr q (q_sq_tail q)) 64 True) s;
              s2 = set_q sel q' s1;
              s3 = upd_req r (\<lambda>x. x\<lparr>r_submit_us := k_clock s\<rparr>) s2
          in (NVME_IO_ASYNC, if q_sq_batch_depth q = 0 then nvme_sq_commit sel s3 else s3)))"

definition nvme_check_ready :: "NVMeController \<Rightarrow> bool" where
  "nvme_check_ready s \<longleftrightarrow> k_state s = NVME_CTRL_LIVE"

definition nvme_state_terminal :: "NVMeController \<Rightarrow> bool" where
  "nvme_state_terminal s = (case k_state s of
      NVME_CTRL_NEW \<Rightarrow> False | NVME_CTRL_LIVE \<Rightarrow> False | NVME_CTRL_RESETTING \<Rightarrow> False
    | NVME_CTRL_CONNECTING \<Rightarrow> False | NVME_CTRL_DELETING \<Rightarrow> True
    | NVME_CTRL_DELETING_NOIO \<Rightarrow> True | NVME_CTRL_DEAD \<Rightarrow> True)"

definition nvme_req_noretry :: "nvme_request \<Rightarrow> bool" where
  "nvme_req_noretry q \<longleftrightarrow> r_flags q AND NVME_REQ_CANCELLED \<noteq> 0"

section \<open>Shape of the clean-up operations\<close>

lemma get_q_simps [state_simps, simp]:
  "get_q (upd_req r f s) sel = get_q s sel" "get_q (free_req r s) sel = get_q s sel"
  "get_q (upd_ctx c g s) sel = get_q s sel" "get_q (free_ctx c s) sel = get_q s sel"
  "get_q (upd_io i h s) sel = get_q s sel" "get_q (dma_free a s) sel = get_q s sel"
  "get_q (set_prp_slab small l s) sel = get_q s sel"
  by (cases sel; simp add: get_q_def upd_req_def free_req_def upd_ctx_def free_ctx_def upd_io_def
      dma_free_def set_prp_slab_def)+

lemma rq_simps [state_simps, simp]:
  "rq (upd_q sel g s) r = rq s r" "rq (emit e s) r = rq s r" "rq (set_q sel q s) r = rq s r"
  "rq (dma_free a s) r = rq s r" "rq (set_prp_slab small l s) r = rq s r"
  "rq (upd_ctx c h s) r = rq s r" "rq (free_ctx c s) r = rq s r" "rq (upd_io i k s) r = rq s r"
  by (simp_all add: rq_def set_q_def dma_free_def set_prp_slab_def upd_ctx_def free_ctx_def upd_io_def)

lemma cx_simps [state_simps, simp]:
  "cx (upd_q sel g s) c = cx s c" "cx (emit e s) c = cx s c" "cx (set_q sel q s) c = cx s c"
  "cx (upd_req r f s) c = cx s c" "cx (free_req r s) c = cx s c" "cx (dma_free a s) c = cx s c"
  "cx (set_prp_slab small l s) c = cx s c" "cx (upd_io i k s) c = cx s c"
  by (simp_all add: cx_def set_q_def dma_free_def set_prp_slab_def upd_req_def free_req_def upd_io_def)

lemma rq_Some: "k_reqs s r = Some q \<Longrightarrow> rq s r = q"
  by (simp add: rq_def)

lemma k_reqs_upd_req [state_simps, simp]:
  "k_reqs (upd_req r f s) = (k_reqs s)(r := Some (f (rq s r)))"
  by (simp add: upd_req_def)

lemma k_reqs_simps [state_simps, simp]:
  "k_reqs (free_req r s) = (k_reqs s)(r := None)" "k_reqs (dma_free a s) = k_reqs s"
  "k_reqs (set_prp_slab small l s) = k_reqs s" "k_reqs (set_q sel q s) = k_reqs s"
  by (simp_all add: free_req_def dma_free_def set_prp_slab_def set_q_def)

lemma fold_dma_free:
  "fold dma_free as s = s\<lparr>k_dma := (\<lambda>a. if a \<in> set as then None else k_dma s a)\<rparr>"
  by (induction as arbitrary: s) (auto simp: dma_free_def fun_eq_iff intro!: NVMeController.equality)

definition holds_list :: "nvme_request \<Rightarrow> bool" where
  "holds_list q \<longleftrightarrow> r_flags q AND NVME_REQ_PRP_LIST \<noteq> 0"

definition holds_slab :: "bool \<Rightarrow> nvme_request \<Rightarrow> bool" where
  "holds_slab small q \<longleftrightarrow> holds_list q \<and> r_flags q AND NVME_REQ_PRP_SLAB \<noteq> 0 \<and>
     (r_flags q AND NVME_REQ_PRP_SMALL \<noteq> 0) = small"

text \<open>The DMA-pool blocks a request owns: a range list and the bounce buffer.\<close>

definition req_dma :: "nvme_request \<Rightarrow> u32 set" where
  "req_dma q = (if holds_list q \<and> r_flags q AND NVME_REQ_PRP_SLAB = 0 then set (r_prp_pages q) else {}) \<union>
     set_option (r_bounce_buf q)"

definition req_slab_pages :: "bool \<Rightarrow> nvme_request \<Rightarrow> u32 set" where
  "req_slab_pages small q = (if holds_slab small q then set (r_prp_pages q) else {})"

definition scrubbed :: "nvme_request \<Rightarrow> nvme_request" where
  "scrubbed q = (if holds_list q then q\<lparr>r_prp_pages := [],
     r_flags := r_flags q AND NOT (NVME_REQ_PRP_LIST OR NVME_REQ_PRP_SLAB OR NVME_REQ_PRP_SMALL)\<rparr> else q)
     \<lparr>r_bounce_buf := None\<rparr>"

definition drop_dom :: "'a set \<Rightarrow> ('a \<Rightarrow> 'b option) \<Rightarrow> 'a \<Rightarrow> 'b option" where
  "drop_dom A m = (\<lambda>a. if a \<in> A then None else m a)"

lemma drop_dom_empty [simp]: "drop_dom {} m = m"
  by (simp add: drop_dom_def)

lemma free_dma_buffers_shape:
  assumes "k_reqs s r = Some q"
  shows "nvme_req_free_dma_buffers r s = s\<lparr>k_reqs := (k_reqs s)(r := Some (scrubbed q)),
     k_prp_small := drop_dom (req_slab_pages True q) (k_prp_small s),
     k_prp_large := drop_dom (req_slab_pages False q) (k_prp_large s),
     k_dma := drop_dom (req_dma q) (k_dma s)\<rparr>"
  using assms
  by (cases "r_bounce_buf q")
    (auto intro!: NVMeController.equality simp: nvme_req_free_dma_buffers_def Let_def rq_Some
      free_prp_pages_def fold_dma_free req_dma_def req_slab_pages_def scrubbed_def holds_slab_def
      holds_list_def drop_dom_def dma_free_def upd_req_def set_prp_slab_def prp_slab_sel_def free_lists_def
      rq_def fun_eq_iff)

lemma req_destroy_shape:
  assumes "k_reqs s r = Some q"
  shows "nvme_req_destroy r s = (upd_q (r_q q) (\<lambda>qu. nvme_inflight_release qu (r_cid q)) s)
    \<lparr>k_reqs := (k_reqs s)(r := None),
     k_prp_small := drop_dom (req_slab_pages True q) (k_prp_small s),
     k_prp_large := drop_dom (req_slab_pages False q) (k_prp_large s),
     k_dma := drop_dom (req_dma q) (k_dma s)\<rparr>"
proof -
  let ?s1 = "upd_q (r_q q) (\<lambda>qu. nvme_inflight_release qu (r_cid q)) s"
  have r: "k_reqs ?s1 r = Some q" using assms by simp
  show ?thesis
    unfolding nvme_req_destroy_def Let_def rq_Some [OF assms] free_dma_buffers_shape [OF r]
    by (cases "r_q q") (simp_all add: free_req_def upd_q_def)
qed

definition read_back_events :: "nvme_request \<Rightarrow> NVMeController \<Rightarrow> event list" where
  "read_back_events q s =
    (if cmd_opcode (r_cmd q) = nvme_cmd_read \<and> r_user_buf q \<noteq> 0 \<and> r_user_len q \<noteq> 0
     then (case r_bounce_buf q of
         Some b \<Rightarrow> [Ev_inval b (r_user_len q)]
       | None \<Rightarrow> if \<not> precached s q then [Ev_inval (r_user_buf q) (r_user_len q)] else [])
     else [])"

lemma read_back_shape:
  "read_back q s = s\<lparr>k_mem := k_mem (read_back q s), k_trace := k_trace s @ read_back_events q s\<rparr>"
  by (simp add: read_back_def read_back_events_def emit_def split: option.split)

lemma cleanup_cmd_shape:
  assumes "k_reqs s r = Some q"
  shows "nvme_cleanup_cmd r s = s\<lparr>k_mem := k_mem (read_back q s),
     k_trace := k_trace s @ read_back_events q s,
     k_reqs := (k_reqs s)(r := Some (scrubbed q)),
     k_prp_small := drop_dom (req_slab_pages True q) (k_prp_small s),
     k_prp_large := drop_dom (req_slab_pages False q) (k_prp_large s),
     k_dma := drop_dom (req_dma q) (k_dma s)\<rparr>"
proof -
  have "k_reqs (read_back q s) r = Some q" by (subst read_back_shape) (simp add: assms)
  then show ?thesis
    unfolding nvme_cleanup_cmd_def rq_Some [OF assms]
    by (subst free_dma_buffers_shape, assumption) (subst (1 2 3 4 5) read_back_shape, simp)
qed

section \<open>Invariant of the request tables\<close>

text \<open>
  Both CID pools are consistent, and whatever sits in a slot of a queue is a live
  request on that queue whose CID names the slot.
\<close>

definition tables_ok :: "NVMeController \<Rightarrow> bool" where
  "tables_ok s \<longleftrightarrow> (\<forall>sel. queue_ok (get_q s sel) \<and>
     (q_sq_base (get_q s sel) \<noteq> None \<longrightarrow> ring_ok (get_q s sel)) \<and>
     (\<forall>tag r. slot (get_q s sel) tag = Some r \<longrightarrow>
        (\<exists>q. k_reqs s r = Some q \<and> r_q q = sel \<and> cid_tag (r_cid q) = tag)))"

definition in_slot :: "NVMeController \<Rightarrow> nat \<Rightarrow> bool" where
  "in_slot s r \<longleftrightarrow> (\<exists>q. k_reqs s r = Some q \<and> slot (get_q s (r_q q)) (cid_tag (r_cid q)) = Some r)"

lemma tables_okD:
  assumes "tables_ok s"
  shows "queue_ok (get_q s sel)" "q_sq_base (get_q s sel) \<noteq> None \<Longrightarrow> ring_ok (get_q s sel)"
    "slot (get_q s sel) tag = Some r \<Longrightarrow> \<exists>q. k_reqs s r = Some q \<and> r_q q = sel \<and> cid_tag (r_cid q) = tag"
  using assms unfolding tables_ok_def by blast+

text \<open>Anything that leaves queues, owners and CIDs alone keeps the invariant.\<close>

lemma tables_ok_cong:
  assumes "tables_ok s" "\<And>sel. get_q s' sel = get_q s sel"
    and "\<And>r q. k_reqs s r = Some q \<Longrightarrow>
       \<exists>q'. k_reqs s' r = Some q' \<and> r_q q' = r_q q \<and> cid_tag (r_cid q') = cid_tag (r_cid q)"
  shows "tables_ok s'"
  using assms unfolding tables_ok_def by (metis (no_types, lifting))

lemma sq_push_pool:
  assumes "sq_push cmd q = Some q'"
  shows "queue_ok q' = queue_ok q" "slot q' = slot q" "q_sq_base q' = q_sq_base q"
    "q_sq_batch_depth q' = q_sq_batch_depth q" "q_depth q' = q_depth q" "q_cq_head q' = q_cq_head q"
    "q_last_sq_tail q' = q_last_sq_tail q" "q_sq_db_off q' = q_sq_db_off q"
    "q_inflight q' = q_inflight q"
  using assms
  by (auto simp: sq_push_def Let_def queue_ok_def slot_def fun_eq_iff split: if_splits)

lemma release_ring:
  "ring_ok (nvme_inflight_release q c) = ring_ok q" "q_sq_base (nvme_inflight_release q c) = q_sq_base q"
  "sq_contents (nvme_inflight_release q c) = sq_contents q"
  by (simp_all add: nvme_inflight_release_def Let_def ring_ok_def sq_contents_def sq_used_def)

lemma claim_ring:
  assumes "acquire_cid q r = Some (c, q')"
  shows "ring_ok q' = ring_ok q" "q_sq_base q' = q_sq_base q" "sq_contents q' = sq_contents q"
  using assms
  by (auto simp: acquire_cid_def nvme_alloc_cid_def nvme_inflight_claim_def Let_def ring_ok_def
      sq_contents_def sq_used_def split: if_splits)

text \<open>Releasing the slot of a request and dropping the request.\<close>

lemma tables_ok_release:
  assumes ok: "tables_ok s" and r: "k_reqs s r = Some q" "slot (get_q s (r_q q)) (cid_tag (r_cid q)) = Some r"
    and q': "\<And>sel. get_q s' sel = (if sel = r_q q then nvme_inflight_release (get_q s sel) (r_cid q)
                 else get_q s sel)"
    and reqs: "\<And>r' p. r' \<noteq> r \<Longrightarrow> k_reqs s r' = Some p \<Longrightarrow> k_reqs s' r' = Some p"
  shows "tables_ok s'"
  unfolding tables_ok_def
proof (intro allI conjI impI)
  fix sel
  show "queue_ok (get_q s' sel)" using cids.release_inv tables_okD(1) [OF ok] by (simp add: q')
  show "q_sq_base (get_q s' sel) \<noteq> None \<Longrightarrow> ring_ok (get_q s' sel)"
    using tables_okD(2) [OF ok] by (auto simp: q' release_ring split: if_splits)
  fix tag r'
  assume "slot (get_q s' sel) tag = Some r'"
  then have sl: "slot (get_q s sel) tag = Some r'" and ne: "sel = r_q q \<Longrightarrow> tag \<noteq> cid_tag (r_cid q)"
    using cids.release_busy [OF tables_okD(1) [OF ok, of sel], of "r_cid q"]
    by (auto simp: q' split: if_splits)
  obtain p where p: "k_reqs s r' = Some p" "r_q p = sel" "cid_tag (r_cid p) = tag"
    using tables_okD(3) [OF ok sl] by blast
  then have "r' \<noteq> r" using r(1) ne by auto
  then show "\<exists>p. k_reqs s' r' = Some p \<and> r_q p = sel \<and> cid_tag (r_cid p) = tag"
    using reqs p by blast
qed

lemma req_destroy_ok:
  assumes "tables_ok s" "in_slot s r"
  shows "tables_ok (nvme_req_destroy r s)"
proof -
  obtain q where q: "k_reqs s r = Some q" "slot (get_q s (r_q q)) (cid_tag (r_cid q)) = Some r"
    using assms(2) by (auto simp: in_slot_def)
  show ?thesis
    by (rule tables_ok_release [OF assms(1) q])
      (auto simp: req_destroy_shape [OF q(1)] get_q_def upd_q_def split: queue_sel.splits)
qed

lemma tables_ok_ring:
  assumes "tables_ok s"
    and "\<And>sel. queue_ok (get_q s' sel) = queue_ok (get_q s sel)"
    and "\<And>sel. slot (get_q s' sel) = slot (get_q s sel)"
    and "\<And>sel. q_sq_base (get_q s' sel) = q_sq_base (get_q s sel)"
    and "\<And>sel. ring_ok (get_q s sel) \<Longrightarrow> ring_ok (get_q s' sel)"
    and "\<And>r q. k_reqs s r = Some q \<Longrightarrow>
       \<exists>q'. k_reqs s' r = Some q' \<and> r_q q' = r_q q \<and> cid_tag (r_cid q') = cid_tag (r_cid q)"
  shows "tables_ok s'"
  using assms unfolding tables_ok_def by (metis (no_types, lifting))

lemma sq_commit_shape:
  "nvme_sq_commit sel s =
    (if q_sq_tail (get_q s sel) \<noteq> q_last_sq_tail (get_q s sel)
     then (upd_q sel (\<lambda>q. q\<lparr>q_last_sq_tail := q_sq_tail q\<rparr>) s)\<lparr>k_trace := k_trace s @
            [Ev_barrier, Ev_doorbell (q_sq_db_off (get_q s sel)) (of_nat (q_sq_tail (get_q s sel)))]\<rparr>
     else s)"
  by (cases sel) (simp_all add: nvme_sq_commit_def Let_def emit_def upd_q_def get_q_def)

lemma sq_commit_fields [state_simps, simp]:
  "k_reqs (nvme_sq_commit sel s) = k_reqs s" "k_ctxs (nvme_sq_commit sel s) = k_ctxs s"
  "k_dma (nvme_sq_commit sel s) = k_dma s" "k_ios (nvme_sq_commit sel s) = k_ios s"
  "rq (nvme_sq_commit sel s) r = rq s r"
  by (simp_all add: sq_commit_shape rq_def)

lemma get_q_commit:
  "get_q (nvme_sq_commit sel s) sel' = (if sel' = sel
     then (get_q s sel)\<lparr>q_last_sq_tail := q_sq_tail (get_q s sel)\<rparr> else get_q s sel')"
  by (auto simp: sq_commit_shape get_q_upd_other)

lemma last_tail_irrelevant [simp]:
  "queue_ok (q\<lparr>q_last_sq_tail := t\<rparr>) = queue_ok q" "slot (q\<lparr>q_last_sq_tail := t\<rparr>) = slot q"
  "ring_ok (q\<lparr>q_last_sq_tail := t\<rparr>) = ring_ok q" "sq_contents (q\<lparr>q_last_sq_tail := t\<rparr>) = sq_contents q"
  by (simp_all add: queue_ok_def slot_def ring_ok_def sq_contents_def sq_used_def fun_eq_iff)

lemma submit_io_Async:
  assumes "nvme_submit_io r s = (NVME_IO_ASYNC, s')"
  defines "sel \<equiv> r_q (rq s r)"
  obtains q' where "sq_push (r_cmd (rq s r)) (get_q s sel) = Some q'" "q_sq_base (get_q s sel) \<noteq> None"
    "k_reqs s' = (k_reqs s)(r := Some ((rq s r)\<lparr>r_submit_us := k_clock s\<rparr>))"
    "get_q s' sel = (if q_sq_batch_depth (get_q s sel) = 0 then q'\<lparr>q_last_sq_tail := q_sq_tail q'\<rparr> else q')"
    "\<And>sel'. sel' \<noteq> sel \<Longrightarrow> get_q s' sel' = get_q s sel'"
    "k_trace s' = k_trace s @ Ev_flush_ns (sq_slot_addr (get_q s sel) (q_sq_tail (get_q s sel))) 64 True #
       (if q_sq_batch_depth (get_q s sel) = 0 \<and> q_sq_tail q' \<noteq> q_last_sq_tail q'
        then [Ev_barrier, Ev_doorbell (q_sq_db_off q') (of_nat (q_sq_tail q'))] else [])"
proof -
  obtain q' where q': "sq_push (r_cmd (rq s r)) (get_q s sel) = Some q'"
    and b: "q_sq_base (get_q s sel) \<noteq> None"
    using assms(1) unfolding nvme_submit_io_def Let_def sel_def
    by (auto split: if_splits option.splits)
  let ?s3 = "upd_req r (\<lambda>x. x\<lparr>r_submit_us := k_clock s\<rparr>) (set_q sel q'
      (emit (Ev_flush_ns (sq_slot_addr (get_q s sel) (q_sq_tail (get_q s sel))) 64 True) s))"
  have s': "s' = (if q_sq_batch_depth (get_q s sel) = 0 then nvme_sq_commit sel ?s3 else ?s3)"
    using assms(1) q' b unfolding nvme_submit_io_def Let_def sel_def by auto
  have o: "get_q ?s3 sel' = (if sel' = sel then q' else get_q s sel')" for sel'
    by (simp add: set_q_def get_q_upd_other)
  have t: "k_trace ?s3 = k_trace s @ [Ev_flush_ns (sq_slot_addr (get_q s sel) (q_sq_tail (get_q s sel))) 64 True]"
    by (simp add: set_q_def upd_req_def)
  show thesis
    by (rule that [OF q' b])
      (auto simp: s' get_q_commit o t sq_commit_shape get_q_upd_other get_q_set_other)
qed

lemma submit_io_cases:
  "fst (nvme_submit_io r s) = NVME_IO_ASYNC \<or>
   fst (nvme_submit_io r s) \<in> {IOERR_BADADDRESS, IOERR_UNITBUSY} \<and> snd (nvme_submit_io r s) = nvme_req_destroy r s"
  by (auto simp: nvme_submit_io_def Let_def split: option.splits)

lemma submit_io_ok:
  assumes "tables_ok s" "in_slot s r"
  shows "tables_ok (snd (nvme_submit_io r s))"
proof (cases "fst (nvme_submit_io r s) = NVME_IO_ASYNC")
  case False
  then show ?thesis using submit_io_cases [of r s] req_destroy_ok [OF assms] by auto
next
  case True
  then have "nvme_submit_io r s = (NVME_IO_ASYNC, snd (nvme_submit_io r s))" by (simp add: prod_eq_iff)
  then show ?thesis
  proof (elim submit_io_Async)
    let ?sel = "r_q (rq s r)" and ?s' = "snd (nvme_submit_io r s)"
    fix q'
    assume p: "sq_push (r_cmd (rq s r)) (get_q s ?sel) = Some q'"
      and b: "q_sq_base (get_q s ?sel) \<noteq> None"
      and reqs: "k_reqs ?s' = (k_reqs s)(r := Some ((rq s r)\<lparr>r_submit_us := k_clock s\<rparr>))"
      and g: "get_q ?s' ?sel = (if q_sq_batch_depth (get_q s ?sel) = 0
                then q'\<lparr>q_last_sq_tail := q_sq_tail q'\<rparr> else q')"
      and o: "\<And>sel'. sel' \<noteq> ?sel \<Longrightarrow> get_q ?s' sel' = get_q s sel'"
    note pool = sq_push_pool [OF p] and ring = sq_push_ok(1) [OF tables_okD(2) [OF assms(1) b] p]
    have gg: "queue_ok (get_q ?s' sel) = queue_ok (get_q s sel) \<and> slot (get_q ?s' sel) = slot (get_q s sel) \<and>
       q_sq_base (get_q ?s' sel) = q_sq_base (get_q s sel) \<and>
       (ring_ok (get_q s sel) \<longrightarrow> ring_ok (get_q ?s' sel))" for sel
      using g o [of sel] pool ring by (cases "sel = ?sel") auto
    show "tables_ok ?s'"
      by (rule tables_ok_ring [OF assms(1)]) (use gg reqs in \<open>auto simp: rq_def\<close>)
  qed
qed

lemma req_alloc_cases:
  assumes "tables_ok s" "req_slab_ok P"
  shows "case req_alloc P sel fill s of
     (Inl e, s') \<Rightarrow> s' = s
   | (Inr r, s') \<Rightarrow> k_reqs s r = None \<and> (\<exists>c q'. acquire_cid (get_q s sel) r = Some (c, q') \<and>
        s' = (set_q sel q' s)\<lparr>k_reqs := (k_reqs s)(r := Some ((fill zero_req)\<lparr>r_q := sel, r_cid := c\<rparr>))\<rparr>)"
proof (cases "p_req_slab P (\<lambda>r. k_reqs s r \<noteq> None)")
  case None
  then show ?thesis by (simp add: req_alloc_def)
next
  case (Some r)
  have fresh: "k_reqs s r = None" using req_slab_okD(1) [OF assms(2) Some] by simp
  let ?s1 = "s\<lparr>k_reqs := (k_reqs s)(r := Some zero_req)\<rparr>"
  have g: "get_q ?s1 sel = get_q s sel" by (cases sel) (simp_all add: get_q_def)
  have restore: "free_req r ?s1 = s" using fresh by (simp add: free_req_def fun_upd_idem)
  obtain c q1 where c: "nvme_alloc_cid (get_q s sel) = (c, q1)" by (cases "nvme_alloc_cid (get_q s sel)") auto
  have set: "upd_req r f (set_q sel q ?s1) = (set_q sel q s)\<lparr>k_reqs := (k_reqs s)(r := Some (f zero_req))\<rparr>" for f q
    by (cases sel) (simp_all add: upd_req_def rq_def set_q_def upd_q_def)
  show ?thesis
    using Some fresh restore c by (auto simp: req_alloc_def Let_def g set acquire_cid_def)
qed

lemma req_alloc_ok:
  assumes "tables_ok s" "req_slab_ok P" "req_alloc P sel fill s = (x, s')"
  shows "tables_ok s'" "x = Inr r \<Longrightarrow> in_slot s' r"
proof -
  have "tables_ok s' \<and> (\<forall>r. x = Inr r \<longrightarrow> in_slot s' r)"
  proof (cases x)
    case (Inl e)
    then show ?thesis using req_alloc_cases [OF assms(1,2), of sel fill] assms by simp
  next
    case (Inr r)
    obtain c q' where fresh: "k_reqs s r = None" and a: "acquire_cid (get_q s sel) r = Some (c, q')"
      and s': "s' = (set_q sel q' s)\<lparr>k_reqs := (k_reqs s)(r := Some ((fill zero_req)\<lparr>r_q := sel, r_cid := c\<rparr>))\<rparr>"
      using req_alloc_cases [OF assms(1,2), of sel fill] assms(3) Inr by auto
    have g: "get_q s' sel' = (if sel' = sel then q' else get_q s sel')" for sel'
      by (cases sel; cases sel') (simp_all add: s' set_q_def upd_q_def get_q_def)
    note aq = acquire_cid_ok [OF tables_okD(1) [OF assms(1)] a]
    have "tables_ok s'"
      unfolding tables_ok_def
    proof (intro allI conjI impI)
      fix sel'
      show "queue_ok (get_q s' sel')" using aq(1) tables_okD(1) [OF assms(1)] by (simp add: g)
      show "q_sq_base (get_q s' sel') \<noteq> None \<Longrightarrow> ring_ok (get_q s' sel')"
        using claim_ring [OF a] tables_okD(2) [OF assms(1)] by (auto simp: g split: if_splits)
      fix tag r'
      assume "slot (get_q s' sel') tag = Some r'"
      then have "(sel' = sel \<and> tag = cid_tag c \<and> r' = r) \<or> slot (get_q s sel') tag = Some r'"
        using aq(3) by (auto simp: g split: if_splits)
      then show "\<exists>q. k_reqs s' r' = Some q \<and> r_q q = sel' \<and> cid_tag (r_cid q) = tag"
        using tables_okD(3) [OF assms(1), of sel' tag r'] fresh by (auto simp: s')
    qed
    moreover have "in_slot s' r"
      unfolding in_slot_def g using aq(3)
      by (intro exI [of _ "(fill zero_req)\<lparr>r_q := sel, r_cid := c\<rparr>"]) (simp add: s')
    ultimately show ?thesis using Inr by simp
  qed
  then show "tables_ok s'" "x = Inr r \<Longrightarrow> in_slot s' r" by auto
qed

section \<open>Submission properties\<close>

lemma submit_io_accepts_iff:
  assumes ok: "tables_ok s"
  shows "fst (nvme_submit_io r s) = NVME_IO_ASYNC \<longleftrightarrow> q_sq_base (get_q s (r_q (rq s r))) \<noteq> None \<and>
     sq_used (get_q s (r_q (rq s r))) < q_depth (get_q s (r_q (rq s r))) - 1"
proof -
  let ?q = "get_q s (r_q (rq s r))"
  have "sq_push (r_cmd (rq s r)) ?q = None \<longleftrightarrow> \<not> sq_used ?q < q_depth ?q - 1" if "q_sq_base ?q \<noteq> None"
    using sqr.push_None [OF tables_okD(2) [OF ok that]] sq_used_less [OF tables_okD(2) [OF ok that]]
    by fastforce
  then show ?thesis unfolding nvme_submit_io_def Let_def by (auto split: option.splits)
qed

lemma submit_io_accepted:
  assumes ok: "tables_ok s" and a: "fst (nvme_submit_io r s) = NVME_IO_ASYNC"
  defines "q \<equiv> get_q s (r_q (rq s r))" and "s' \<equiv> snd (nvme_submit_io r s)"
  shows "sq_contents (get_q s' (r_q (rq s r))) = sq_contents q @ [r_cmd (rq s r)]"
    "slot (get_q s' (r_q (rq s r))) = slot q"
    "k_reqs s' = (k_reqs s)(r := Some ((rq s r)\<lparr>r_submit_us := k_clock s\<rparr>))"
    "k_trace s' = k_trace s @ Ev_flush_ns (sq_slot_addr q (q_sq_tail q)) 64 True #
      (if q_sq_batch_depth q = 0 \<and> (q_sq_tail q + 1) mod q_depth q \<noteq> q_last_sq_tail q
       then [Ev_barrier, Ev_doorbell (q_sq_db_off q) (of_nat ((q_sq_tail q + 1) mod q_depth q))] else [])"
    "q_sq_batch_depth (get_q s' (r_q (rq s r))) = q_sq_batch_depth q"
proof -
  let ?sel = "r_q (rq s r)"
  have "nvme_submit_io r s = (NVME_IO_ASYNC, s')" using a by (simp add: prod_eq_iff s'_def)
  then obtain q' where p: "sq_push (r_cmd (rq s r)) q = Some q'" "q_sq_base q \<noteq> None"
    and reqs: "k_reqs s' = (k_reqs s)(r := Some ((rq s r)\<lparr>r_submit_us := k_clock s\<rparr>))"
    and g: "get_q s' ?sel = (if q_sq_batch_depth q = 0 then q'\<lparr>q_last_sq_tail := q_sq_tail q'\<rparr> else q')"
    and t: "k_trace s' = k_trace s @ Ev_flush_ns (sq_slot_addr q (q_sq_tail q)) 64 True #
       (if q_sq_batch_depth q = 0 \<and> q_sq_tail q' \<noteq> q_last_sq_tail q'
        then [Ev_barrier, Ev_doorbell (q_sq_db_off q') (of_nat (q_sq_tail q'))] else [])"
    unfolding q_def by (rule submit_io_Async) blast
  have tl: "q_sq_tail q' = (q_sq_tail q + 1) mod q_depth q"
    using p(1) by (auto simp: sq_push_def Let_def split: if_splits)
  note pool = sq_push_pool [OF p(1)]
  show "sq_contents (get_q s' ?sel) = sq_contents q @ [r_cmd (rq s r)]"
    using sq_push_ok(3) [OF tables_okD(2) [OF ok p(2) [unfolded q_def]] p(1) [unfolded q_def]] g
    by (simp add: q_def)
  show "slot (get_q s' ?sel) = slot q" using pool g by simp
  show "k_reqs s' = (k_reqs s)(r := Some ((rq s r)\<lparr>r_submit_us := k_clock s\<rparr>))" by (rule reqs)
  show "k_trace s' = k_trace s @ Ev_flush_ns (sq_slot_addr q (q_sq_tail q)) 64 True #
      (if q_sq_batch_depth q = 0 \<and> (q_sq_tail q + 1) mod q_depth q \<noteq> q_last_sq_tail q
       then [Ev_barrier, Ev_doorbell (q_sq_db_off q) (of_nat ((q_sq_tail q + 1) mod q_depth q))] else [])"
    using t pool tl by simp
  show "q_sq_batch_depth (get_q s' ?sel) = q_sq_batch_depth q" using g pool by simp
qed

lemma req_destroy_slots:
  assumes "tables_ok s" "k_reqs s r = Some q"
  shows "slot (get_q (nvme_req_destroy r s) sel) =
    (if sel = r_q q then (slot (get_q s sel))(cid_tag (r_cid q) := None) else slot (get_q s sel))"
    "k_reqs (nvme_req_destroy r s) = (k_reqs s)(r := None)"
    "k_trace (nvme_req_destroy r s) = k_trace s"
proof -
  have g: "get_q (nvme_req_destroy r s) sel = (if sel = r_q q
      then nvme_inflight_release (get_q s sel) (r_cid q) else get_q s sel)"
    by (cases sel; cases "r_q q") (simp_all add: req_destroy_shape [OF assms(2)] upd_q_def get_q_def)
  show "slot (get_q (nvme_req_destroy r s) sel) =
    (if sel = r_q q then (slot (get_q s sel))(cid_tag (r_cid q) := None) else slot (get_q s sel))"
    unfolding g using cids.release_busy [OF tables_okD(1) [OF assms(1)]] by simp
  show "k_reqs (nvme_req_destroy r s) = (k_reqs s)(r := None)"
    "k_trace (nvme_req_destroy r s) = k_trace s"
    by (simp_all add: req_destroy_shape [OF assms(2)])
qed

text \<open>
  C18.  \<open>nvme_submit_io\<close> accepts a request exactly when its queue has a ring with
  fewer than \<open>depth - 1\<close> outstanding entries.  Then the command joins the end of
  the submission queue, and outside a batch the entry is cleaned to memory and a
  barrier is passed before the tail doorbell is written.  Otherwise the request
  is destroyed and its slot is idle.  The tables stay consistent either way.
\<close>

theorem submit_io_contract:
  assumes ok: "tables_ok s" and r: "in_slot s r"
  defines "sel \<equiv> r_q (rq s r)"
  shows "(fst (nvme_submit_io r s) = NVME_IO_ASYNC \<longleftrightarrow> q_sq_base (get_q s sel) \<noteq> None \<and>
            length (sq_contents (get_q s sel)) < q_depth (get_q s sel) - 1) \<and>
    (fst (nvme_submit_io r s) = NVME_IO_ASYNC \<longrightarrow>
       sq_contents (get_q (snd (nvme_submit_io r s)) sel) = sq_contents (get_q s sel) @ [r_cmd (rq s r)] \<and>
       slot (get_q (snd (nvme_submit_io r s)) sel) = slot (get_q s sel) \<and>
       (q_sq_batch_depth (get_q s sel) = 0 \<and> q_last_sq_tail (get_q s sel) = q_sq_tail (get_q s sel) \<longrightarrow>
          k_trace (snd (nvme_submit_io r s)) = k_trace s @
            [Ev_flush_ns (sq_slot_addr (get_q s sel) (q_sq_tail (get_q s sel))) 64 True, Ev_barrier,
             Ev_doorbell (q_sq_db_off (get_q s sel))
               (of_nat ((q_sq_tail (get_q s sel) + 1) mod q_depth (get_q s sel)))])) \<and>
    (fst (nvme_submit_io r s) \<noteq> NVME_IO_ASYNC \<longrightarrow>
       k_reqs (snd (nvme_submit_io r s)) r = None \<and>
       slot (get_q (snd (nvme_submit_io r s)) sel) = (slot (get_q s sel))(cid_tag (r_cid (rq s r)) := None)) \<and>
    tables_ok (snd (nvme_submit_io r s))"
proof -
  let ?q = "get_q s sel" and ?s' = "snd (nvme_submit_io r s)"
  obtain x where x: "k_reqs s r = Some x" using r by (auto simp: in_slot_def)
  have iff: "fst (nvme_submit_io r s) = NVME_IO_ASYNC \<longleftrightarrow> q_sq_base ?q \<noteq> None \<and>
      length (sq_contents ?q) < q_depth ?q - 1"
    using submit_io_accepts_iff [OF ok] by (simp add: sel_def)
  have tail: "(q_sq_tail ?q + 1) mod q_depth ?q \<noteq> q_sq_tail ?q" if "q_sq_base ?q \<noteq> None"
    using tables_okD(2) [OF ok that] by (auto simp: ring_ok_def mod_Suc)
  have rej: "k_reqs ?s' r = None \<and>
       slot (get_q ?s' sel) = (slot ?q)(cid_tag (r_cid (rq s r)) := None)"
    if "fst (nvme_submit_io r s) \<noteq> NVME_IO_ASYNC"
    using submit_io_cases [of r s] that req_destroy_slots [OF ok x] by (auto simp: sel_def rq_Some [OF x])
  show ?thesis
    using iff submit_io_accepted [OF ok] tail rej submit_io_ok [OF ok r] by (auto simp: sel_def)
qed

text \<open>A small controller for the evaluations: both queues four entries deep, one unit.\<close>

definition demo_unit :: NVMeUnit where
  "demo_unit = zero_unit\<lparr>u_nsid := 1, u_blockSize := 512, u_blockShift := 9, u_logicalSectors := 1000,
     u_wz_max_bytes := 65536\<rparr>"

definition demo_ctrl :: NVMeController where
  "demo_ctrl = zero_ctrl\<lparr>k_state := NVME_CTRL_LIVE, k_io_q := demo_queue\<lparr>q_qid := 1\<rparr>, k_admin_q := demo_queue,
     k_units := (\<lambda>_. demo_unit), k_io_max_inflight := 3, k_max_transfer_bytes := 4096, k_unit_task := True\<rparr>"

lemma demo_get_q:
  "get_q demo_ctrl Admin_q = demo_queue" "get_q demo_ctrl Io_q = demo_queue\<lparr>q_qid := 1\<rparr>"
  by (simp_all add: demo_ctrl_def get_q_def)

lemma demo_tables_ok: "tables_ok demo_ctrl"
proof -
  have "queue_ok (get_q demo_ctrl sel) \<and> ring_ok (get_q demo_ctrl sel) \<and> slot (get_q demo_ctrl sel) = (\<lambda>_. None)"
    for sel
    using demo_queue_ok
    by (cases sel) (auto simp: demo_get_q queue_ok_def ring_ok_def slot_def demo_queue_def fun_eq_iff)
  then show ?thesis by (simp add: tables_ok_def)
qed

lemma demo_alloc: "\<exists>s. req_alloc m68k_platform Io_q id demo_ctrl = (Inr 0, s)"
  by (simp add: req_alloc_def Let_def m68k_platform_def demo_ctrl_def zero_ctrl_def get_q_def
      nvme_alloc_cid_def demo_queue_def zero_queue_def free_stack_init_def upt_rec)

theorem submit_io_contract_witness:
  "\<exists>s. in_slot s 0 \<and> tables_ok (snd (nvme_submit_io 0 s))"
proof -
  obtain s where a: "req_alloc m68k_platform Io_q id demo_ctrl = (Inr 0, s)" using demo_alloc by blast
  note ok = req_alloc_ok [OF demo_tables_ok m68k_req_slab_ok a]
  show ?thesis using submit_io_contract [OF ok(1) ok(2) [OF refl]] ok(2) by blast
qed

subsection \<open>Doorbell batching\<close>

fun is_doorbell :: "event \<Rightarrow> bool" where
  "is_doorbell (Ev_doorbell _ _) = True"
| "is_doorbell _ = False"

definition doorbells :: "NVMeController \<Rightarrow> event list" where
  "doorbells s = filter is_doorbell (k_trace s)"

definition submit_all :: "nat list \<Rightarrow> NVMeController \<Rightarrow> NVMeController" where
  "submit_all rs s = fold (\<lambda>r s. snd (nvme_submit_io r s)) rs s"

text \<open>Inside a batch a submission writes no doorbell and does not touch the committed tail.\<close>

lemma submit_io_batched:
  assumes ok: "tables_ok s" and r: "in_slot s r" and b: "q_sq_batch_depth (get_q s (r_q (rq s r))) = d" "0 < d"
  defines "s' \<equiv> snd (nvme_submit_io r s)" and "sel \<equiv> r_q (rq s r)"
  shows "doorbells s' = doorbells s" "q_sq_batch_depth (get_q s' sel) = d"
    "q_last_sq_tail (get_q s' sel) = q_last_sq_tail (get_q s sel)"
    "q_sq_db_off (get_q s' sel) = q_sq_db_off (get_q s sel)"
    "\<And>r'. r' \<noteq> r \<Longrightarrow> k_reqs s' r' = k_reqs s r'"
    "\<And>r' sel'. r' \<noteq> r \<Longrightarrow> in_slot s r' \<Longrightarrow> in_slot s' r'"
proof -
  obtain x where x: "k_reqs s r = Some x" "slot (get_q s (r_q x)) (cid_tag (r_cid x)) = Some r"
    using r by (auto simp: in_slot_def)
  have "doorbells s' = doorbells s \<and> q_sq_batch_depth (get_q s' sel) = d \<and>
    q_last_sq_tail (get_q s' sel) = q_last_sq_tail (get_q s sel) \<and>
    q_sq_db_off (get_q s' sel) = q_sq_db_off (get_q s sel) \<and>
    (\<forall>r'. r' \<noteq> r \<longrightarrow> k_reqs s' r' = k_reqs s r') \<and>
    (\<forall>sel' t r'. r' \<noteq> r \<longrightarrow> slot (get_q s sel') t = Some r' \<longrightarrow> slot (get_q s' sel') t = Some r')"
  proof (cases "fst (nvme_submit_io r s) = NVME_IO_ASYNC")
    case True
    then have "nvme_submit_io r s = (NVME_IO_ASYNC, s')" by (simp add: prod_eq_iff s'_def)
    then obtain q' where p: "sq_push (r_cmd (rq s r)) (get_q s sel) = Some q'"
      and reqs: "k_reqs s' = (k_reqs s)(r := Some ((rq s r)\<lparr>r_submit_us := k_clock s\<rparr>))"
      and g: "get_q s' sel = (if q_sq_batch_depth (get_q s sel) = 0 then q'\<lparr>q_last_sq_tail := q_sq_tail q'\<rparr> else q')"
      and o: "\<And>sel'. sel' \<noteq> sel \<Longrightarrow> get_q s' sel' = get_q s sel'"
      and t: "k_trace s' = k_trace s @ Ev_flush_ns (sq_slot_addr (get_q s sel) (q_sq_tail (get_q s sel))) 64 True #
       (if q_sq_batch_depth (get_q s sel) = 0 \<and> q_sq_tail q' \<noteq> q_last_sq_tail q'
        then [Ev_barrier, Ev_doorbell (q_sq_db_off q') (of_nat (q_sq_tail q'))] else [])"
      unfolding sel_def by (rule submit_io_Async) blast
    have "slot (get_q s' sel') = slot (get_q s sel')" for sel'
      using g o sq_push_pool [OF p] b by (cases "sel' = sel") (auto simp: sel_def)
    then show ?thesis
      using reqs g t sq_push_pool [OF p] b by (auto simp: doorbells_def sel_def)
  next
    case False
    then have s': "s' = nvme_req_destroy r s" using submit_io_cases [of r s] by (auto simp: s'_def)
    have "get_q s' sel = nvme_inflight_release (get_q s sel) (r_cid x)"
      unfolding s' req_destroy_shape [OF x(1)] sel_def rq_Some [OF x(1)]
      by (cases "r_q x") (simp_all add: get_q_def upd_q_def)
    moreover have "t \<noteq> cid_tag (r_cid x)" if "slot (get_q s (r_q x)) t = Some r'" "r' \<noteq> r" for t r'
      using that x(2) by auto
    ultimately show ?thesis
      using req_destroy_slots [OF ok x(1)] b
      by (auto simp: s' doorbells_def sel_def rq_Some [OF x(1)] nvme_inflight_release_def Let_def)
  qed
  then show "doorbells s' = doorbells s" "q_sq_batch_depth (get_q s' sel) = d"
    "q_last_sq_tail (get_q s' sel) = q_last_sq_tail (get_q s sel)"
    "q_sq_db_off (get_q s' sel) = q_sq_db_off (get_q s sel)"
    "\<And>r'. r' \<noteq> r \<Longrightarrow> k_reqs s' r' = k_reqs s r'"
    "\<And>r' sel'. r' \<noteq> r \<Longrightarrow> in_slot s r' \<Longrightarrow> in_slot s' r'"
    by (auto simp: in_slot_def)
qed

lemma submit_all_batched:
  assumes "tables_ok s" "distinct rs" "\<And>r. r \<in> set rs \<Longrightarrow> in_slot s r \<and> r_q (rq s r) = sel"
    and "q_sq_batch_depth (get_q s sel) = d" "0 < d"
  shows "tables_ok (submit_all rs s) \<and> doorbells (submit_all rs s) = doorbells s \<and>
    q_sq_batch_depth (get_q (submit_all rs s) sel) = d \<and>
    q_last_sq_tail (get_q (submit_all rs s) sel) = q_last_sq_tail (get_q s sel) \<and>
    q_sq_db_off (get_q (submit_all rs s) sel) = q_sq_db_off (get_q s sel)"
  using assms
proof (induction rs arbitrary: s)
  case Nil
  then show ?case by (simp add: submit_all_def)
next
  case (Cons r rs)
  have r: "in_slot s r" "r_q (rq s r) = sel" using Cons.prems(3) by auto
  let ?s' = "snd (nvme_submit_io r s)"
  note b = submit_io_batched [OF Cons.prems(1) r(1), unfolded r(2), OF Cons.prems(4,5)]
  have "in_slot ?s' r' \<and> r_q (rq ?s' r') = sel" if "r' \<in> set rs" for r'
  proof -
    have "r' \<noteq> r" using that Cons.prems(2) by auto
    then show ?thesis using b(5,6) [of r'] Cons.prems(3) [of r'] that by (simp add: rq_def)
  qed
  then show ?case
    using Cons.IH [OF submit_io_ok [OF Cons.prems(1) r(1)]] b Cons.prems(2,5)
    by (simp add: submit_all_def)
qed

lemma batch_depth_irrelevant [simp]:
  "queue_ok (q\<lparr>q_sq_batch_depth := d\<rparr>) = queue_ok q" "slot (q\<lparr>q_sq_batch_depth := d\<rparr>) = slot q"
  "ring_ok (q\<lparr>q_sq_batch_depth := d\<rparr>) = ring_ok q"
  "sq_contents (q\<lparr>q_sq_batch_depth := d\<rparr>) = sq_contents q"
  by (simp_all add: queue_ok_def slot_def ring_ok_def sq_contents_def sq_used_def fun_eq_iff)

lemma get_q_upd_if: "get_q (upd_q sel f s) sel' = (if sel' = sel then f (get_q s sel) else get_q s sel')"
  by (simp add: get_q_upd_other)

lemma batch_begin_ok: "tables_ok s \<Longrightarrow> tables_ok (nvme_sq_batch_begin sel s)"
  by (erule tables_ok_ring) (auto simp: nvme_sq_batch_begin_def get_q_upd_if)

lemma sq_commit_ok: "tables_ok s \<Longrightarrow> tables_ok (nvme_sq_commit sel s)"
  by (erule tables_ok_ring) (auto simp: get_q_commit)

lemma batch_end_ok: "tables_ok s \<Longrightarrow> tables_ok (nvme_sq_batch_end sel s)"
proof -
  assume "tables_ok s"
  then have "tables_ok (upd_q sel (\<lambda>q. q\<lparr>q_sq_batch_depth := q_sq_batch_depth q - 1\<rparr>) s)"
    by (rule tables_ok_ring) (auto simp: get_q_upd_if)
  then show ?thesis using \<open>tables_ok s\<close> sq_commit_ok by (simp add: nvme_sq_batch_end_def Let_def)
qed

text \<open>
  A bracketed run of submissions on a queue costs one doorbell write, with
  the final tail, if the tail moved at all, and none otherwise.
\<close>

theorem batch_single_doorbell:
  assumes "tables_ok s" "distinct rs" "\<forall>r \<in> set rs. in_slot s r \<and> r_q (rq s r) = sel"
    and "q_sq_batch_depth (get_q s sel) = 0"
  defines "s1 \<equiv> submit_all rs (nvme_sq_batch_begin sel s)"
  shows "doorbells (nvme_sq_batch_end sel s1) = doorbells s @
    (if q_sq_tail (get_q s1 sel) \<noteq> q_last_sq_tail (get_q s sel)
     then [Ev_doorbell (q_sq_db_off (get_q s sel)) (of_nat (q_sq_tail (get_q s1 sel)))] else [])"
proof -
  let ?b = "nvme_sq_batch_begin sel s"
  have g: "get_q ?b sel' = (if sel' = sel then (get_q s sel)\<lparr>q_sq_batch_depth := 1\<rparr> else get_q s sel')" for sel'
    using assms(4) by (simp add: nvme_sq_batch_begin_def get_q_upd_other)
  have same: "k_reqs ?b = k_reqs s" "k_trace ?b = k_trace s"
    by (simp_all add: nvme_sq_batch_begin_def)
  have ok: "tables_ok ?b" and sl: "\<And>r. in_slot s r \<Longrightarrow> in_slot ?b r"
    using batch_begin_ok [OF assms(1)] by (auto simp: in_slot_def g same)
  have run: "tables_ok s1 \<and> doorbells s1 = doorbells ?b \<and> q_sq_batch_depth (get_q s1 sel) = 1 \<and>
    q_last_sq_tail (get_q s1 sel) = q_last_sq_tail (get_q ?b sel) \<and>
    q_sq_db_off (get_q s1 sel) = q_sq_db_off (get_q ?b sel)"
    unfolding s1_def
    by (rule submit_all_batched [OF ok assms(2)]) (use assms(3) sl g in \<open>auto simp: rq_def same\<close>)
  let ?u = "upd_q sel (\<lambda>q. q\<lparr>q_sq_batch_depth := q_sq_batch_depth q - 1\<rparr>) s1"
  have "nvme_sq_batch_end sel s1 = nvme_sq_commit sel ?u" using run by (simp add: nvme_sq_batch_end_def)
  then show ?thesis
    using run by (auto simp: sq_commit_shape doorbells_def g same)
qed

theorem batch_single_doorbell_witness:
  "\<exists>s. in_slot s 0 \<and> doorbells (nvme_sq_batch_end Io_q (submit_all [0] (nvme_sq_batch_begin Io_q s))) =
     doorbells s @ (if q_sq_tail (get_q (submit_all [0] (nvme_sq_batch_begin Io_q s)) Io_q)
         \<noteq> q_last_sq_tail (get_q s Io_q)
       then [Ev_doorbell (q_sq_db_off (get_q s Io_q))
          (of_nat (q_sq_tail (get_q (submit_all [0] (nvme_sq_batch_begin Io_q s)) Io_q)))] else [])"
proof -
  obtain s where a: "req_alloc m68k_platform Io_q id demo_ctrl = (Inr 0, s)" using demo_alloc by blast
  note ok = req_alloc_ok [OF demo_tables_ok m68k_req_slab_ok a]
  have "r_q (rq s 0) = Io_q \<and> q_sq_batch_depth (get_q s Io_q) = 0"
    using a by (auto simp: req_alloc_def Let_def m68k_platform_def demo_ctrl_def zero_ctrl_def get_q_def
      nvme_alloc_cid_def demo_queue_def zero_queue_def free_stack_init_def upt_rec nvme_inflight_claim_def
      set_q_def upd_q_def upd_req_def rq_def)
  then have "\<forall>r \<in> set [0]. in_slot s r \<and> r_q (rq s r) = Io_q" "q_sq_batch_depth (get_q s Io_q) = 0"
    using ok(2) by auto
  then show ?thesis using batch_single_doorbell [OF ok(1), of "[0]" Io_q] by auto
qed

end
