(* ===== verification/Nvme_Setup.thy ===== *)
theory Nvme_Setup
  imports Nvme_Io
begin

text \<open>
  What the set-up functions of src/nvme/nvme_io.c promise about the submission
  queue entry and the data pointers, and how the chunk cap respects the transfer
  limit and the stripe boundary.
\<close>

section \<open>Frame of \<open>build_prps\<close>\<close>

text \<open>What \<open>build_prps\<close> may change in the request: the data pointers, the page list, three flags.\<close>

definition same_but_prps :: "nvme_request \<Rightarrow> nvme_request \<Rightarrow> bool" where
  "same_but_prps q' q \<longleftrightarrow> q' = q\<lparr>r_cmd := (r_cmd q)\<lparr>cmd_prp1 := cmd_prp1 (r_cmd q'), cmd_prp2 := cmd_prp2 (r_cmd q')\<rparr>,
     r_prp_pages := r_prp_pages q', r_flags := r_flags q'\<rparr>"

lemma build_prps_shape:
  assumes "build_prps P r buf bytes s = (ok, s')"
  obtains q' hs hl t where
    "s' = s\<lparr>k_reqs := (k_reqs s)(r := Some q'), k_prp_small := hs, k_prp_large := hl, k_trace := t\<rparr>"
    "same_but_prps q' (rq s r)"
proof -
  have s': "s' = s\<lparr>k_reqs := (k_reqs s)(r := Some (rq s' r)), k_prp_small := k_prp_small s',
      k_prp_large := k_prp_large s', k_trace := k_trace s'\<rparr>"
    using assms unfolding build_prps_def Let_def
    by (auto simp: set_prp_slab_def upd_req_def rq_def split: if_splits sum.splits)
  have "same_but_prps (rq s' r) (rq s r)"
    using assms unfolding build_prps_def Let_def
    by (auto simp: same_but_prps_def set_prps_def split: if_splits sum.splits)
  with that s' show thesis by blast
qed

lemma setup_bounce_cases:
  assumes "setup_bounce P r opcode buffer bytes s = Some (dma, s')" "k_reqs s r = Some q"
  shows "if buffer \<noteq> 0 \<and> bytes \<noteq> 0 \<and> nvme_needs_bounce P buffer bytes (opcode = nvme_cmd_write)
    then p_dma_alloc P 64 bytes (\<lambda>a. k_dma s a \<noteq> None) = Some dma \<and>
      s' = s\<lparr>k_dma := (k_dma s)(dma := Some bytes),
             k_reqs := (k_reqs s)(r := Some (q\<lparr>r_bounce_buf := Some dma\<rparr>)),
             k_mem := (if opcode = nvme_cmd_write then mem_copy dma buffer bytes (k_mem s) else k_mem s)\<rparr>
    else dma = buffer \<and> s' = s"
  using assms
  by (auto simp: setup_bounce_def dma_alloc_def upd_req_def rq_def Let_def split: if_splits option.splits)

text \<open>Everything \<open>nvme_setup_rw\<close> does before \<open>build_prps\<close>, for a live request.\<close>

lemma setup_rw_cases:
  assumes "nvme_setup_rw P r lba count opcode buffer s = (e, s')" "k_reqs s r = Some q" "r_unit q = Some u"
  defines "bytes \<equiv> push_bit (unat (u_blockShift (k_units s u))) count"
  defines "q1 \<equiv> q\<lparr>r_user_buf := buffer, r_user_len := bytes, r_bounce_buf := None\<rparr>"
  defines "s1 \<equiv> s\<lparr>k_reqs := (k_reqs s)(r := Some q1)\<rparr>"
  obtains
    "setup_bounce P r opcode buffer bytes s1 = None" "e = IOERR_SELFTEST" "s' = s1"
  | dma s2 ok s4 where "setup_bounce P r opcode buffer bytes s1 = Some (dma, s2)"
    "build_prps P r dma bytes (upd_req r (rw_sqe P s2 lba count opcode) s2) = (ok, s4)"
    "e = (if ok then IOERR_NO_ERROR else IOERR_SELFTEST)"
    "\<exists>t. s' = s4\<lparr>k_trace := t\<rparr>"
proof -
  have s1: "upd_req r (\<lambda>q. q\<lparr>r_user_buf := buffer, r_user_len := bytes, r_bounce_buf := None\<rparr>) s = s1"
    by (simp add: upd_req_def s1_def q1_def rq_Some [OF assms(2)])
  have b: "push_bit (block_shift_of s (rq s r)) count = bytes"
    by (simp add: bytes_def block_shift_of_def rq_Some [OF assms(2)] assms(3))
  note e = assms(1) [unfolded nvme_setup_rw_def Let_def b s1]
  show thesis
  proof (cases "setup_bounce P r opcode buffer bytes s1")
    case None
    then show thesis using that(1) e by simp
  next
    case (Some p)
    obtain dma s2 where p: "p = (dma, s2)" by (cases p)
    obtain ok s4 where bp: "build_prps P r dma bytes (upd_req r (rw_sqe P s2 lba count opcode) s2) = (ok, s4)"
      by (cases "build_prps P r dma bytes (upd_req r (rw_sqe P s2 lba count opcode) s2)")
    have e': "e = (if ok then IOERR_NO_ERROR else IOERR_SELFTEST)"
      and s': "s' = s4 \<or> s' = emit (Ev_flush_ns dma bytes (opcode = nvme_cmd_write)) s4"
      using e Some p bp by (auto split: if_splits)
    from s' have "s' = s4\<lparr>k_trace := k_trace s'\<rparr>" by (auto simp: emit_def)
    then show thesis using that(2) [OF _ bp e'] Some p by blast
  qed
qed

section \<open>Read and write set-up\<close>

lemma mem_copy_at: "i < n \<Longrightarrow> mem_copy dst src n m (dst + i) = m (src + i)"
  by (simp add: mem_copy_def)

lemma same_but_prpsD:
  assumes "same_but_prps q' q"
  shows "cmd_opcode (r_cmd q') = cmd_opcode (r_cmd q)" "cmd_command_id (r_cmd q') = cmd_command_id (r_cmd q)"
    "cmd_nsid (r_cmd q') = cmd_nsid (r_cmd q)" "cmd_body (r_cmd q') = cmd_body (r_cmd q)"
    "r_bounce_buf q' = r_bounce_buf q" "r_cid q' = r_cid q" "r_q q' = r_q q" "r_ctx q' = r_ctx q"
    "r_io q' = r_io q" "r_unit q' = r_unit q" "r_done q' = r_done q" "r_waiter q' = r_waiter q"
    "r_status q' = r_status q" "r_retries q' = r_retries q" "r_user_len q' = r_user_len q"
    "r_user_buf q' = r_user_buf q"
  by (subst assms [unfolded same_but_prps_def], simp)+

text \<open>
  C20.  When \<open>nvme_setup_rw\<close> succeeds, the command carries the request's CID, the
  namespace, the start LBA and the zero-based block count in device byte order;
  the data pointers describe the user buffer when it can be reached by DMA and
  otherwise a fresh 64-byte aligned bounce buffer, which holds the user's bytes
  for a write.
\<close>

theorem setup_rw_contract:
  assumes "le_ok P" "prp_slab_ok P" "dma_pool_ok P"
    and q: "k_reqs s r = Some q" "r_unit q = Some u"
    and ok: "nvme_setup_rw P r lba count opcode buffer s = (IOERR_NO_ERROR, s')"
  defines "bytes \<equiv> push_bit (unat (u_blockShift (k_units s u))) count"
  assumes small: "unat bytes + 4095 < 2 ^ 32"
  shows "let c = r_cmd (rq s' r) in
    cmd_opcode c = opcode \<and> cmd_command_id c = r_cid q \<and> p_le32 P (cmd_nsid c) = u_nsid (k_units s u) \<and>
    (\<exists>slba len. cmd_body c = Body_rw slba len \<and> p_le64 P slba = lba \<and> p_le16 P len = ucast (count - 1)) \<and>
    (\<exists>dma. (if buffer \<noteq> 0 \<and> bytes \<noteq> 0 \<and> nvme_needs_bounce P buffer bytes (opcode = nvme_cmd_write)
         then r_bounce_buf (rq s' r) = Some dma \<and> k_dma s dma = None \<and> unat dma mod 64 = 0 \<and>
              (opcode = nvme_cmd_write \<longrightarrow> (\<forall>i < bytes. k_mem s' (dma + i) = k_mem s (buffer + i)))
         else dma = buffer \<and> r_bounce_buf (rq s' r) = None \<and> k_mem s' = k_mem s) \<and>
       (length (prp_expected dma bytes) \<le> 512 \<or> length (prp_expected dma bytes) mod 511 \<noteq> 2 \<longrightarrow>
          prp_decode P (prp_slab_sel (prp_nr_data_pages dma bytes \<le> 32) s') (cmd_prp1 c) (cmd_prp2 c) bytes
          = Some (prp_expected dma bytes)))"
proof -
  let ?q1 = "q\<lparr>r_user_buf := buffer, r_user_len := bytes, r_bounce_buf := None\<rparr>"
  let ?s1 = "s\<lparr>k_reqs := (k_reqs s)(r := Some ?q1)\<rparr>"
  obtain dma s2 s4 t where b: "setup_bounce P r opcode buffer bytes ?s1 = Some (dma, s2)"
    and bp: "build_prps P r dma bytes (upd_req r (rw_sqe P s2 lba count opcode) s2) = (True, s4)"
    and s': "s' = s4\<lparr>k_trace := t\<rparr>"
    by (rule setup_rw_cases [OF ok q]) (auto simp: bytes_def split: if_splits)
  let ?s3 = "upd_req r (rw_sqe P s2 lba count opcode) s2"
  have r1: "k_reqs ?s1 r = Some ?q1" by simp
  note bc = setup_bounce_cases [OF b r1]
  obtain q4 hs hl t4 where s4: "s4 = ?s3\<lparr>k_reqs := (k_reqs ?s3)(r := Some q4), k_prp_small := hs,
      k_prp_large := hl, k_trace := t4\<rparr>" and same: "same_but_prps q4 (rq ?s3 r)"
    by (rule build_prps_shape [OF bp])
  have rq': "rq s' r = q4" by (simp add: s' s4 rq_def)
  note sb = same_but_prpsD [OF same]
  have s2: "k_units s2 = k_units s" "r_cid (rq s2 r) = r_cid q" "r_unit (rq s2 r) = Some u"
    using bc q(2) by (auto simp: rq_def split: if_splits)
  have mem: "k_mem s' = k_mem s2" by (simp add: s' s4 upd_req_def)
  have slab: "prp_slab_sel sm s' = prp_slab_sel sm s4" for sm by (simp add: s' prp_slab_sel_def)
  have rq4: "rq s4 r = q4" by (simp add: s4 rq_def)
  have dec: "length (prp_expected dma bytes) \<le> 512 \<or> length (prp_expected dma bytes) mod 511 \<noteq> 2 \<longrightarrow>
      prp_decode P (prp_slab_sel (prp_nr_data_pages dma bytes \<le> 32) s') (cmd_prp1 (r_cmd q4)) (cmd_prp2 (r_cmd q4)) bytes
      = Some (prp_expected dma bytes)"
    using build_prps_reads_back [OF assms(1,2) bp small] by (simp add: slab rq4)
  have "if buffer \<noteq> 0 \<and> bytes \<noteq> 0 \<and> nvme_needs_bounce P buffer bytes (opcode = nvme_cmd_write)
     then r_bounce_buf q4 = Some dma \<and> k_dma s dma = None \<and> unat dma mod 64 = 0 \<and>
          (opcode = nvme_cmd_write \<longrightarrow> (\<forall>i < bytes. k_mem s' (dma + i) = k_mem s (buffer + i)))
     else dma = buffer \<and> r_bounce_buf q4 = None \<and> k_mem s' = k_mem s"
    using bc dma_pool_okD [OF assms(3), of 64 bytes "\<lambda>a. k_dma s a \<noteq> None" dma] unfolding sb mem
    by (auto simp: rw_sqe_def rq_def mem_copy_at split: if_splits)
  then show ?thesis
    using dec s2 le_okD [OF assms(1)] unfolding Let_def rq' sb
    by (auto simp: rw_sqe_def req_nsid_def)
qed

definition demo_rw :: NVMeController where
  "demo_rw = demo_ctrl\<lparr>k_reqs := (\<lambda>_. None)(0 := Some (zero_req\<lparr>r_unit := Some 0, r_q := Io_q\<rparr>))\<rparr>"

theorem setup_rw_contract_witness:
  "\<exists>s'. nvme_setup_rw m68k_platform 0 77 8 nvme_cmd_read 0x10200 demo_rw = (IOERR_NO_ERROR, s') \<and>
     cmd_opcode (r_cmd (rq s' 0)) = nvme_cmd_read \<and> p_le32 m68k_platform (cmd_nsid (r_cmd (rq s' 0))) = 1"
proof -
  have b: "push_bit 9 (8 :: u32) = 4096" by (simp add: push_bit_eq_mult)
  have u: "u_blockShift (k_units demo_rw 0) = 9" "u_nsid (k_units demo_rw 0) = 1"
    by (simp_all add: demo_rw_def demo_ctrl_def demo_unit_def)
  have q: "k_reqs demo_rw 0 = Some (zero_req\<lparr>r_unit := Some 0, r_q := Io_q\<rparr>)"
    "r_unit (zero_req\<lparr>r_unit := Some 0, r_q := Io_q\<rparr>) = Some 0" by (simp_all add: demo_rw_def)
  have "block_shift_of demo_rw (rq demo_rw 0) = 9" using u q by (simp add: block_shift_of_def rq_def)
  then have "fst (nvme_setup_rw m68k_platform 0 77 8 nvme_cmd_read 0x10200 demo_rw) = IOERR_NO_ERROR"
    by (simp add: nvme_setup_rw_def Let_def b setup_bounce_def nvme_needs_bounce_def m68k_platform_def
        build_prps_def prp_first_def prp_nr_data_pages_def)
  then obtain s' where s': "nvme_setup_rw m68k_platform 0 77 8 nvme_cmd_read 0x10200 demo_rw = (IOERR_NO_ERROR, s')"
    by (metis prod.exhaust_sel)
  show ?thesis
    using setup_rw_contract [OF m68k_le_ok m68k_prp_slab_ok m68k_dma_pool_ok q s'] s'
    by (auto simp: u b Let_def)
qed

section \<open>The chunk cap\<close>

lemma word_and_mask: "(w :: 'a::len word) AND (2 ^ n - 1) = take_bit n w"
  by (simp add: take_bit_eq_mask mask_eq_decr_exp)

lemma unat_pow2: "n < LENGTH('a) \<Longrightarrow> unat (2 ^ n :: 'a::len word) = 2 ^ n"
  using unat_of_nat [of "2 ^ n", where 'a = 'a] by simp

lemma unat_take_bit: "unat (take_bit n (w :: 'a::len word)) = unat w mod 2 ^ n"
proof -
  have "unat (take_bit n w) = take_bit n (unat w)" by (simp only: unsigned_take_bit_eq)
  then show ?thesis by (simp add: take_bit_eq_mod)
qed

lemma unat_push_bit:
  fixes w :: "'a::len word"
  assumes "unat w * 2 ^ n < 2 ^ LENGTH('a)"
  shows "unat (push_bit n w) = unat w * 2 ^ n"
proof -
  have "unat (push_bit n w) = take_bit LENGTH('a) (push_bit n (unat w))"
    by (simp only: unsigned_push_bit_eq)
  then show ?thesis using assms by (simp add: push_bit_eq_mult take_bit_eq_mod)
qed

text \<open>
  Under the stripe quirk with a stripe of \<open>2 ^ m\<close> sectors, the chunk cap is
  at least one block, at most the transfer limit, and a command of that size
  starting at \<open>lba\<close> ends at or before the next stripe boundary.
\<close>

theorem chunk_cap_stripe:
  fixes lba :: u64
  assumes quirk: "bit (k_quirks s) NVME_QUIRK_STRIPE_SIZE" and hw: "k_max_hw_sectors s = 2 ^ m" "m + 9 < 32"
    and shift: "9 \<le> unat shift" "unat shift \<le> m + 9"
    and mdts: "k_max_transfer_bytes s = 0 \<or> 2 ^ unat shift \<le> unat (k_max_transfer_bytes s)"
  defines "stripe \<equiv> 2 ^ (m + 9 - unat shift)" and "cap \<equiv> nvme_rw_chunk_cap s shift lba"
  shows "2 ^ unat shift \<le> unat cap \<and> (k_max_transfer_bytes s \<noteq> 0 \<longrightarrow> cap \<le> k_max_transfer_bytes s) \<and>
    (unat lba mod stripe) * 2 ^ unat shift + unat cap \<le> stripe * 2 ^ unat shift"
proof -
  let ?n = "m + 9 - unat shift" and ?sh = "unat shift"
  have sh9: "unat (shift - 9) = ?sh - 9" using shift by (simp add: unat_sub_le)
  have n: "?n < 32" "m - (?sh - 9) = ?n" using hw(2) shift by auto
  have sb: "drop_bit (?sh - 9) (2 ^ m :: u32) = 2 ^ ?n"
    using hw(2) shift n by (intro bit_word_eqI) (auto simp: bit_simps)
  have sb0: "(2 ^ ?n :: u32) \<noteq> 0" using n by simp
  have pow: "(2 ^ m :: u32) AND (2 ^ m - 1) = 0" "(2 ^ m :: u32) \<noteq> 0"
    using hw(2) by (auto simp: word_and_mask take_bit_eq_mod)
  have off: "unat (ucast (lba AND ucast (2 ^ ?n - 1 :: u32)) :: u32) = unat lba mod stripe"
  proof -
    have "(ucast (2 ^ ?n - 1 :: u32) :: u64) = 2 ^ ?n - 1"
      using n by (intro bit_word_eqI) (auto simp: bit_simps simp flip: mask_eq_decr_exp)
    then have "unat (lba AND ucast (2 ^ ?n - 1 :: u32)) = unat lba mod stripe"
      by (simp add: word_and_mask unat_take_bit stripe_def)
    moreover have "unat lba mod stripe < 2 ^ 32"
    proof (rule less_trans)
      show "unat lba mod stripe < stripe" by (simp add: stripe_def)
      show "stripe < 2 ^ 32" unfolding stripe_def using n(1) by (intro power_strict_increasing) auto
    qed
    ultimately show ?thesis by (simp add: unat_ucast_mod)
  qed
  define bnd where "bnd = (2 ^ ?n :: u32) - ucast (lba AND ucast (2 ^ ?n - 1 :: u32))"
  have bnd: "unat bnd = stripe - unat lba mod stripe"
    using off n by (simp add: bnd_def unat_sub_le unat_pow2 stripe_def less_imp_le)
  have total: "stripe * 2 ^ ?sh = 2 ^ (m + 9)" using shift by (simp add: stripe_def flip: power_add)
  have lt: "unat lba mod stripe < stripe" by (simp add: stripe_def)
  have "unat bnd * 2 ^ ?sh \<le> stripe * 2 ^ ?sh" by (simp add: bnd)
  also have "\<dots> < 2 ^ 32" unfolding total using hw(2) by (intro power_strict_increasing) auto
  finally have tb: "unat (push_bit ?sh bnd) = unat bnd * 2 ^ ?sh" by (intro unat_push_bit) simp
  have cap: "cap = (if k_max_transfer_bytes s = 0 \<or> push_bit ?sh bnd < k_max_transfer_bytes s
      then push_bit ?sh bnd else k_max_transfer_bytes s)"
    using quirk hw(1) pow sb sb0 shift(1)
    by (simp add: cap_def nvme_rw_chunk_cap_def Let_def sh9 bnd_def word_le_nat_alt)
  have "(unat lba mod stripe) * 2 ^ ?sh + unat (push_bit ?sh bnd) = stripe * 2 ^ ?sh"
    using lt by (simp add: tb bnd flip: add_mult_distrib)
  moreover have "2 ^ ?sh \<le> unat (push_bit ?sh bnd)" using lt by (simp add: tb bnd)
  ultimately show ?thesis
    using mdts by (auto simp: cap word_less_nat_alt word_le_nat_alt)
qed

theorem chunk_cap_stripe_witness:
  "let s = demo_ctrl\<lparr>k_quirks := 1, k_max_hw_sectors := 2 ^ 8, k_max_transfer_bytes := 131072\<rparr> in
   (unat (300 :: u64) mod 256) * 512 + unat (nvme_rw_chunk_cap s 9 300) \<le> 256 * 512"
  using chunk_cap_stripe [of "demo_ctrl\<lparr>k_quirks := 1, k_max_hw_sectors := 2 ^ 8, k_max_transfer_bytes := 131072\<rparr>"
      8 9 300] by simp

end
