(* ===== verification/Nvme_Chunk.thy ===== *)
theory Nvme_Chunk
  imports Nvme_Setup
begin

text \<open>
  The chunked-I/O scheduler of src/nvme/nvme_io.c: \<open>nvme_io_context_pump\<close> keeps up to
  sixteen sibling commands of one large transfer in flight, and
  \<open>nvme_io_context_finish\<close> replies the originating request.
\<close>

section \<open>Frame of the request-level operations\<close>

text \<open>
  The request-level operations touch the queues, the request heap, the DMA
  resources, memory and the trace; everything else of the controller is as before.
\<close>

definition io_frame :: "NVMeController \<Rightarrow> NVMeController \<Rightarrow> bool" where
  "io_frame s s' \<longleftrightarrow> s' = s\<lparr>k_admin_q := k_admin_q s', k_io_q := k_io_q s', k_reqs := k_reqs s',
     k_prp_small := k_prp_small s', k_prp_large := k_prp_large s', k_dma := k_dma s', k_mem := k_mem s',
     k_trace := k_trace s'\<rparr>"

lemma io_frame_refl [simp]: "io_frame s s"
  by (simp add: io_frame_def)

lemma io_frameD:
  assumes "io_frame s s'"
  shows "k_ctxs s' = k_ctxs s" "k_ios s' = k_ios s" "k_units s' = k_units s" "k_state s' = k_state s"
    "k_flags s' = k_flags s" "k_quirks s' = k_quirks s" "k_io_max_inflight s' = k_io_max_inflight s"
    "k_max_transfer_bytes s' = k_max_transfer_bytes s" "k_max_hw_sectors s' = k_max_hw_sectors s"
    "k_retry_list s' = k_retry_list s" "k_io_pending s' = k_io_pending s"
    "k_ctx_stalled s' = k_ctx_stalled s" "k_msgPort s' = k_msgPort s" "k_clock s' = k_clock s"
    "k_max_zeroes_sectors s' = k_max_zeroes_sectors s" "k_dsm s' = k_dsm s" "k_meta s' = k_meta s"
    "k_adminPort s' = k_adminPort s" "k_crdt s' = k_crdt s" "k_scsi s' = k_scsi s" "k_client s' = k_client s"
  by (subst assms [unfolded io_frame_def], simp)+

lemma io_frame_trans:
  assumes "io_frame s s'" "io_frame s' s''"
  shows "io_frame s s''"
proof -
  have "s'' = s'\<lparr>k_admin_q := k_admin_q s'', k_io_q := k_io_q s'', k_reqs := k_reqs s'',
     k_prp_small := k_prp_small s'', k_prp_large := k_prp_large s'', k_dma := k_dma s'', k_mem := k_mem s'',
     k_trace := k_trace s''\<rparr>" using assms(2) by (simp only: io_frame_def)
  also have "\<dots> = s\<lparr>k_admin_q := k_admin_q s'', k_io_q := k_io_q s'', k_reqs := k_reqs s'',
     k_prp_small := k_prp_small s'', k_prp_large := k_prp_large s'', k_dma := k_dma s'', k_mem := k_mem s'',
     k_trace := k_trace s''\<rparr>"
    by (subst assms(1) [unfolded io_frame_def]) simp
  finally show ?thesis unfolding io_frame_def .
qed

text \<open>Each primitive in the form that chains: it extends a frame that already holds.\<close>

lemma io_frame_step:
  assumes "io_frame s s'"
  shows "io_frame s (upd_req r f s')" "io_frame s (free_req r s')" "io_frame s (emit e s')"
  "io_frame s (upd_q sel g s')" "io_frame s (set_q sel q s')" "io_frame s (dma_free a s')"
  "io_frame s (set_prp_slab small h s')" "io_frame s (s'\<lparr>k_trace := t\<rparr>)" "io_frame s (s'\<lparr>k_mem := m\<rparr>)"
  "io_frame s (s'\<lparr>k_reqs := w\<rparr>)" "io_frame s (s'\<lparr>k_dma := d\<rparr>)" "io_frame s (nvme_sq_commit sel s')"
  by (rule io_frame_trans [OF assms]; cases sel; simp add: io_frame_def upd_req_def free_req_def emit_def
      upd_q_def set_q_def dma_free_def set_prp_slab_def sq_commit_shape)+

declare io_frame_step [simp]

lemma io_frame_batch [simp]:
  assumes "io_frame s s'"
  shows "io_frame s (nvme_sq_batch_begin sel s')" "io_frame s (nvme_sq_batch_end sel s')"
  using assms by (auto simp: nvme_sq_batch_begin_def nvme_sq_batch_end_def Let_def)

lemma io_frame_free_dma [simp]: "io_frame s s' \<Longrightarrow> io_frame s (nvme_req_free_dma_buffers r s')"
  by (simp add: nvme_req_free_dma_buffers_def Let_def free_prp_pages_def fold_dma_free split: option.split)

lemma io_frame_destroy [simp]: "io_frame s s' \<Longrightarrow> io_frame s (nvme_req_destroy r s')"
  by (simp add: nvme_req_destroy_def Let_def)

lemma io_frame_cleanup [simp]: "io_frame s s' \<Longrightarrow> io_frame s (nvme_cleanup_cmd r s')"
  by (subst nvme_cleanup_cmd_def, subst read_back_shape) simp

lemma io_frame_submit [simp]: "io_frame s s' \<Longrightarrow> io_frame s (snd (nvme_submit_io r s'))"
  by (auto simp: nvme_submit_io_def Let_def split: option.split)

lemma io_frame_setup_rw [simp]: "io_frame s s' \<Longrightarrow> io_frame s (snd (nvme_setup_rw P r lba n opc buf s'))"
proof -
  have bnc: "io_frame s x" if "setup_bounce P r opc b m y = Some (d, x)" "io_frame s y" for b m d x y
    using that by (auto simp: setup_bounce_def Let_def dma_alloc_def split: if_splits option.splits)
  have bp: "io_frame s x" if "build_prps P r b m y = (ok, x)" "io_frame s y" for b m ok x y
    by (rule build_prps_shape [OF that(1)], rule io_frame_trans [OF that(2)]) (simp add: io_frame_def)
  assume "io_frame s s'"
  then show ?thesis
    unfolding nvme_setup_rw_def Let_def
    by (auto split: option.split prod.split dest!: bnc bp)
qed

lemma io_frame_setup_wz [simp]: "io_frame s s' \<Longrightarrow> io_frame s (nvme_setup_write_zeroes P r lba n s')"
  by (simp add: nvme_setup_write_zeroes_def)

lemma io_frame_req_alloc [simp]: "io_frame s s' \<Longrightarrow> io_frame s (snd (req_alloc P sel fill s'))"
  by (auto simp: req_alloc_def Let_def split: option.split prod.split)

lemma io_frame_alloc_io [simp]: "io_frame s s' \<Longrightarrow> io_frame s (snd (nvme_req_alloc_io P u io s'))"
  using io_frame_req_alloc [of s s' P Io_q "\<lambda>q. q\<lparr>r_io := io, r_unit := Some u\<rparr>"]
  by (cases "req_alloc P Io_q (\<lambda>q. q\<lparr>r_io := io, r_unit := Some u\<rparr>) s'")
    (auto simp: nvme_req_alloc_io_def split: sum.split alloc_failure.split)

section \<open>The scheduler\<close>

definition sib_cap :: "NVMeController \<Rightarrow> nat" where
  "sib_cap s = (if k_io_max_inflight s < NVME_MAX_INFLIGHT_PER_IO then k_io_max_inflight s
     else NVME_MAX_INFLIGHT_PER_IO)"

text \<open>The geometry of the next chunk of a context: bytes, start LBA, blocks, buffer.\<close>

definition ctx_shift :: "NVMeController \<Rightarrow> nvme_io_context \<Rightarrow> u8" where
  "ctx_shift s x = ucast (u_blockShift (k_units s (x_unit x)))"

definition next_lba :: "NVMeController \<Rightarrow> nvme_io_context \<Rightarrow> u64" where
  "next_lba s x = x_start_lba x + ucast (drop_bit (unat (ctx_shift s x)) (x_dispatched x))"

definition chunk_cap :: "NVMeController \<Rightarrow> nvme_io_context \<Rightarrow> u32" where
  "chunk_cap s x = (if x_opcode x = nvme_cmd_write_zeroes then u_wz_max_bytes (k_units s (x_unit x))
     else nvme_rw_chunk_cap s (ctx_shift s x) (next_lba s x))"

definition next_bytes :: "NVMeController \<Rightarrow> nvme_io_context \<Rightarrow> u32" where
  "next_bytes s x = (let remaining = x_total_bytes x - x_dispatched x; cap = chunk_cap s x in
     if cap \<noteq> 0 \<and> cap < remaining then cap else remaining)"

definition next_blocks :: "NVMeController \<Rightarrow> nvme_io_context \<Rightarrow> u32" where
  "next_blocks s x = drop_bit (unat (ctx_shift s x)) (next_bytes s x)"

definition park_ctx :: "nat \<Rightarrow> NVMeController \<Rightarrow> NVMeController" where
  "park_ctx c s = (upd_ctx c (\<lambda>x. x\<lparr>x_stalled := True\<rparr>) s)\<lparr>k_ctx_stalled := k_ctx_stalled s @ [c]\<rparr>"

text \<open>One pass of the while loop: continue, or leave the function with a result.\<close>

datatype pump_step = Pump_more NVMeController | Pump_stop io_error NVMeController

definition pump_once :: "platform \<Rightarrow> nat \<Rightarrow> NVMeController \<Rightarrow> pump_step" where
  "pump_once P c s =
    (let x = cx s c; n = next_bytes s x; lba = next_lba s x; blocks = next_blocks s x;
         buf = x_user_data x + x_dispatched x
     in case nvme_req_alloc_io P (x_unit x) None s of
       (Inl err, s1) \<Rightarrow> Pump_stop NVME_IO_ASYNC (if x_inflight x = 0 then park_ctx c s1 else s1)
     | (Inr r, s1) \<Rightarrow>
        (let s2 = upd_req r (\<lambda>q. q\<lparr>r_ctx := Some c\<rparr>) s1;
             (serr, s3) = (if x_opcode x = nvme_cmd_write_zeroes
                           then (IOERR_NO_ERROR, nvme_setup_write_zeroes P r lba blocks s2)
                           else nvme_setup_rw P r lba blocks (x_opcode x) buf s2)
         in if serr \<noteq> IOERR_NO_ERROR
            then let s4 = upd_ctx c (\<lambda>x. x\<lparr>x_first_error := serr\<rparr>) (nvme_req_destroy r s3) in
              Pump_stop (if x_inflight x = 0 then serr else NVME_IO_ASYNC) s4
            else
              let s4 = upd_ctx c (\<lambda>x. x\<lparr>x_dispatched := x_dispatched x + n, x_inflight := x_inflight x + 1\<rparr>) s3;
                  (suberr, s5) = nvme_submit_io r s4
              in if suberr = NVME_IO_ASYNC then Pump_more s5
                 else
                   let s6 = upd_ctx c (\<lambda>x. x\<lparr>x_dispatched := x_dispatched x - n, x_inflight := x_inflight x - 1\<rparr>) s5
                   in if suberr = IOERR_UNITBUSY
                      then Pump_stop NVME_IO_ASYNC (if x_inflight (cx s6 c) = 0 then park_ctx c s6 else s6)
                      else let s7 = upd_ctx c (\<lambda>x. x\<lparr>x_first_error := suberr\<rparr>) s6 in
                        Pump_stop (if x_inflight (cx s7 c) = 0 then suberr else NVME_IO_ASYNC) s7))"

lemma cx_upd_ctx [simp]: "cx (upd_ctx c f s) c = f (cx s c)"
  by (simp add: cx_def upd_ctx_def)

lemma io_frame_cx: "io_frame s s' \<Longrightarrow> cx s' c = cx s c"
  by (simp add: cx_def io_frameD)

lemma upd_ctx_fields [simp]:
  "k_io_max_inflight (upd_ctx c f s) = k_io_max_inflight s" "k_units (upd_ctx c f s) = k_units s"
  "k_reqs (upd_ctx c f s) = k_reqs s" "k_ctx_stalled (upd_ctx c f s) = k_ctx_stalled s"
  "k_trace (upd_ctx c f s) = k_trace s" "k_ctxs (upd_ctx c f s) = (k_ctxs s)(c := Some (f (cx s c)))"
  "k_retry_list (upd_ctx c f s) = k_retry_list s" "k_ios (upd_ctx c f s) = k_ios s"
  by (simp_all add: upd_ctx_def)

text \<open>The pass that continues: a request was allocated, set up and accepted.\<close>

lemma pump_once_moreE:
  assumes "pump_once P c s = Pump_more s'"
  obtains r s1 s3 where "nvme_req_alloc_io P (x_unit (cx s c)) None s = (Inr r, s1)"
    "(if x_opcode (cx s c) = nvme_cmd_write_zeroes
      then s3 = nvme_setup_write_zeroes P r (next_lba s (cx s c)) (next_blocks s (cx s c))
                  (upd_req r (\<lambda>q. q\<lparr>r_ctx := Some c\<rparr>) s1)
      else nvme_setup_rw P r (next_lba s (cx s c)) (next_blocks s (cx s c)) (x_opcode (cx s c))
             (x_user_data (cx s c) + x_dispatched (cx s c)) (upd_req r (\<lambda>q. q\<lparr>r_ctx := Some c\<rparr>) s1)
           = (IOERR_NO_ERROR, s3))"
    "nvme_submit_io r (upd_ctx c (\<lambda>x. x\<lparr>x_dispatched := x_dispatched x + next_bytes s (cx s c),
         x_inflight := x_inflight x + 1\<rparr>) s3) = (NVME_IO_ASYNC, s')"
    "io_frame s s3"
proof -
  obtain r s1 where a: "nvme_req_alloc_io P (x_unit (cx s c)) None s = (Inr r, s1)"
    using assms by (cases "nvme_req_alloc_io P (x_unit (cx s c)) None s")
      (auto simp: pump_once_def Let_def split: sum.splits)
  let ?s2 = "upd_req r (\<lambda>q. q\<lparr>r_ctx := Some c\<rparr>) s1"
  let ?set = "if x_opcode (cx s c) = nvme_cmd_write_zeroes
      then (IOERR_NO_ERROR, nvme_setup_write_zeroes P r (next_lba s (cx s c)) (next_blocks s (cx s c)) ?s2)
      else nvme_setup_rw P r (next_lba s (cx s c)) (next_blocks s (cx s c)) (x_opcode (cx s c))
             (x_user_data (cx s c) + x_dispatched (cx s c)) ?s2"
  obtain serr s3 where e: "?set = (serr, s3)" by (cases ?set) auto
  have f1: "io_frame s s1" using io_frame_alloc_io [of s s P "x_unit (cx s c)" None] a by simp
  then have f2: "io_frame s ?s2" by simp
  have f3: "io_frame s s3"
    using e io_frame_setup_rw [OF f2] io_frame_setup_wz [OF f2] by (metis prod.sel(2))
  have rest: "serr = IOERR_NO_ERROR" "nvme_submit_io r (upd_ctx c (\<lambda>x. x\<lparr>x_dispatched := x_dispatched x + next_bytes s (cx s c),
         x_inflight := x_inflight x + 1\<rparr>) s3) = (NVME_IO_ASYNC, s')"
    using assms unfolding pump_once_def Let_def a prod.case sum.case e
    by (auto split: if_splits prod.splits)
  show thesis by (rule that [OF a _ rest(2) f3]) (use e rest(1) in \<open>auto split: if_splits\<close>)
qed

lemma pump_once_more_ctx:
  assumes "pump_once P c s = Pump_more s'"
  shows "cx s' c = (cx s c)\<lparr>x_dispatched := x_dispatched (cx s c) + next_bytes s (cx s c),
           x_inflight := x_inflight (cx s c) + 1\<rparr>"
    "k_io_max_inflight s' = k_io_max_inflight s" "\<And>c'. c' \<noteq> c \<Longrightarrow> k_ctxs s' c' = k_ctxs s c'"
    "k_ctx_stalled s' = k_ctx_stalled s" "k_units s' = k_units s"
proof -
  obtain r s1 s3 where sub: "nvme_submit_io r (upd_ctx c (\<lambda>x. x\<lparr>x_dispatched := x_dispatched x + next_bytes s (cx s c),
         x_inflight := x_inflight x + 1\<rparr>) s3) = (NVME_IO_ASYNC, s')" and f: "io_frame s s3"
    by (rule pump_once_moreE [OF assms])
  let ?s4 = "upd_ctx c (\<lambda>x. x\<lparr>x_dispatched := x_dispatched x + next_bytes s (cx s c),
         x_inflight := x_inflight x + 1\<rparr>) s3"
  have f4: "io_frame ?s4 s'" using io_frame_submit [OF io_frame_refl, of ?s4 r] unfolding sub prod.sel .
  show "cx s' c = (cx s c)\<lparr>x_dispatched := x_dispatched (cx s c) + next_bytes s (cx s c),
           x_inflight := x_inflight (cx s c) + 1\<rparr>"
    using io_frame_cx [OF f4, of c] io_frame_cx [OF f, of c] by simp
  show "k_io_max_inflight s' = k_io_max_inflight s" "k_ctx_stalled s' = k_ctx_stalled s" "k_units s' = k_units s"
    using io_frameD [OF f4] io_frameD [OF f] by simp_all
  show "\<And>c'. c' \<noteq> c \<Longrightarrow> k_ctxs s' c' = k_ctxs s c'"
    using io_frameD [OF f4] io_frameD [OF f] by simp
qed

function nvme_io_context_pump :: "platform \<Rightarrow> nat \<Rightarrow> NVMeController \<Rightarrow> io_error \<times> NVMeController" where
  "nvme_io_context_pump P c s =
    (if x_dispatched (cx s c) < x_total_bytes (cx s c) \<and> x_inflight (cx s c) < sib_cap s
     then (case pump_once P c s of
        Pump_stop e s' \<Rightarrow> (e, s')
      | Pump_more s' \<Rightarrow> nvme_io_context_pump P c s')
     else (NVME_IO_ASYNC, s))"
  by pat_completeness auto
termination
  by (relation "measure (\<lambda>(P, c, s). sib_cap s - x_inflight (cx s c))")
    (auto simp: sib_cap_def pump_once_more_ctx)

declare nvme_io_context_pump.simps [simp del]

definition nvme_io_context_finish :: "nat \<Rightarrow> NVMeController \<Rightarrow> NVMeController" where
  "nvme_io_context_finish c s =
    (let x = cx s c;
         s1 = (if x_data_precached x \<and> x_opcode x = nvme_cmd_read
               then emit (Ev_inval (x_user_data x) (x_total_bytes x)) s else s);
         s2 = upd_io (x_io x) (\<lambda>io. io\<lparr>io_Error := x_first_error x,
                io_Actual := (if x_first_error x \<noteq> IOERR_NO_ERROR then 0 else x_total_bytes x)\<rparr>) s1
     in free_ctx c (emit (Ev_reply (x_io x)) s2))"


section \<open>Accounting of the siblings\<close>

text \<open>The live requests that belong to a context.\<close>

definition siblings :: "NVMeController \<Rightarrow> nat \<Rightarrow> nat set" where
  "siblings s c = {r. \<exists>q. k_reqs s r = Some q \<and> r_ctx q = Some c}"

lemma siblings_cong: "k_reqs s' = k_reqs s \<Longrightarrow> siblings s' c = siblings s c"
  by (simp add: siblings_def)

text \<open>Set-up of one request: the queues, the other requests and the identity of the request stay.\<close>

definition req_frame :: "nat \<Rightarrow> NVMeController \<Rightarrow> NVMeController \<Rightarrow> bool" where
  "req_frame r s s' \<longleftrightarrow> (\<forall>sel. get_q s' sel = get_q s sel) \<and> (\<forall>r'. r' \<noteq> r \<longrightarrow> k_reqs s' r' = k_reqs s r') \<and>
     (k_reqs s r \<noteq> None \<longrightarrow> k_reqs s' r \<noteq> None) \<and>
     r_q (rq s' r) = r_q (rq s r) \<and> r_cid (rq s' r) = r_cid (rq s r) \<and> r_ctx (rq s' r) = r_ctx (rq s r) \<and>
     r_unit (rq s' r) = r_unit (rq s r) \<and> r_io (rq s' r) = r_io (rq s r)"

lemma req_frame_refl [simp]: "req_frame r s s"
  by (simp add: req_frame_def)

lemma req_frame_trans: "req_frame r s s' \<Longrightarrow> req_frame r s' s'' \<Longrightarrow> req_frame r s s''"
  by (simp add: req_frame_def)

lemma req_frame_upd:
  assumes "req_frame r s s'" "\<And>q. r_q (f q) = r_q q \<and> r_cid (f q) = r_cid q \<and> r_ctx (f q) = r_ctx q \<and> r_unit (f q) = r_unit q \<and>
      r_io (f q) = r_io q"
  shows "req_frame r s (upd_req r f s')"
  using assms by (auto simp: req_frame_def)

lemma req_frame_emit [simp]: "req_frame r s s' \<Longrightarrow> req_frame r s (emit e s')"
  by (simp add: req_frame_def)

lemma req_frame_bounce:
  assumes "setup_bounce P r opc b n s' = Some (d, s'')" "req_frame r s s'"
  shows "req_frame r s s''"
proof -
  have mem: "req_frame r s (x\<lparr>k_mem := m\<rparr>)" if "req_frame r s x" for x m
    using that by (simp add: req_frame_def rq_def)
  have "req_frame r s (s'\<lparr>k_dma := d'\<rparr>)" for d' using assms(2) by (simp add: req_frame_def rq_def)
  then show ?thesis
    using assms
    by (auto simp: setup_bounce_def Let_def dma_alloc_def intro!: mem req_frame_upd split: if_splits option.splits)
qed

lemma req_frame_prps:
  assumes "build_prps P r b n s' = (ok, s'')" "req_frame r s s'"
  shows "req_frame r s s''"
proof -
  obtain q' hs hl t where s'': "s'' = s'\<lparr>k_reqs := (k_reqs s')(r := Some q'), k_prp_small := hs,
      k_prp_large := hl, k_trace := t\<rparr>" and q': "same_but_prps q' (rq s' r)"
    by (rule build_prps_shape [OF assms(1)])
  have "rq s'' r = q'" by (simp add: s'' rq_def)
  then show ?thesis
    using assms(2) same_but_prpsD [OF q'] by (simp add: req_frame_def) (simp add: s'')
qed

lemma req_frame_setup_rw: "req_frame r s (snd (nvme_setup_rw P r lba n opc buf s))"
proof -
  let ?s1 = "upd_req r (\<lambda>q. q\<lparr>r_user_buf := buf, r_user_len := push_bit (block_shift_of s (rq s r)) n,
      r_bounce_buf := None\<rparr>) s"
  have f1: "req_frame r s ?s1" by (rule req_frame_upd) simp_all
  show ?thesis
  proof (cases "setup_bounce P r opc buf (push_bit (block_shift_of s (rq s r)) n) ?s1")
    case None
    then show ?thesis using f1 by (simp add: nvme_setup_rw_def Let_def)
  next
    case (Some p)
    obtain d s2 where p: "p = (d, s2)" by (cases p)
    let ?s3 = "upd_req r (rw_sqe P s2 lba n opc) s2"
    have "req_frame r s ?s3"
      using req_frame_bounce [OF _ f1] Some p by (intro req_frame_upd) (auto simp: rw_sqe_def)
    moreover obtain ok s4 where b: "build_prps P r d (push_bit (block_shift_of s (rq s r)) n) ?s3 = (ok, s4)"
      by (meson surj_pair)
    ultimately have "req_frame r s s4" using req_frame_prps by blast
    then show ?thesis using Some p b by (simp add: nvme_setup_rw_def Let_def)
  qed
qed

lemma req_frame_setup_wz: "req_frame r s (nvme_setup_write_zeroes P r lba n s)"
  unfolding nvme_setup_write_zeroes_def by (rule req_frame_upd) simp_all

lemma upd_req_tables:
  assumes "\<And>q. r_q (f q) = r_q q" "\<And>q. r_cid (f q) = r_cid q"
  shows "tables_ok s \<Longrightarrow> tables_ok (upd_req r f s)" "in_slot s r' \<Longrightarrow> in_slot (upd_req r f s) r'"
proof -
  show "tables_ok s \<Longrightarrow> tables_ok (upd_req r f s)"
    by (erule tables_ok_cong) (auto simp: assms rq_def)
  show "in_slot s r' \<Longrightarrow> in_slot (upd_req r f s) r'"
    by (auto simp: in_slot_def assms rq_def)
qed

lemma req_frame_tables:
  assumes "req_frame r s s'" "tables_ok s" "in_slot s r"
  shows "tables_ok s'" "in_slot s' r"
proof -
  obtain q where q: "k_reqs s r = Some q" "slot (get_q s (r_q q)) (cid_tag (r_cid q)) = Some r"
    using assms(3) by (auto simp: in_slot_def)
  then obtain q' where q': "k_reqs s' r = Some q'" "r_q q' = r_q q" "r_cid q' = r_cid q"
    using assms(1) by (auto simp: req_frame_def rq_def)
  then show "in_slot s' r" using assms(1) q by (simp add: in_slot_def req_frame_def)
  show "tables_ok s'"
    by (rule tables_ok_cong [OF assms(2)])
      (use assms(1) q q' in \<open>auto simp: req_frame_def\<close>, metis option.inject)
qed


text \<open>
  One pass of the pump, for a consistent state: it either adds exactly one live
  sibling, or leaves the requests as they were and stops.
\<close>

definition alloc_setup ::
    "platform \<Rightarrow> nat \<Rightarrow> nat \<Rightarrow> NVMeController \<Rightarrow> NVMeController \<Rightarrow> io_error \<times> NVMeController" where
  "alloc_setup P c r s s1 =
    (let x = cx s c; s2 = upd_req r (\<lambda>q. q\<lparr>r_ctx := Some c\<rparr>) s1 in
     if x_opcode x = nvme_cmd_write_zeroes
     then (IOERR_NO_ERROR, nvme_setup_write_zeroes P r (next_lba s x) (next_blocks s x) s2)
     else nvme_setup_rw P r (next_lba s x) (next_blocks s x) (x_opcode x) (x_user_data x + x_dispatched x) s2)"

lemma alloc_io_ok:
  assumes "tables_ok s" "req_slab_ok P" "nvme_req_alloc_io P u io s = (res, s1)"
  shows "res = Inl e \<Longrightarrow> s1 = s"
    "res = Inr r \<Longrightarrow> k_reqs s r = None \<and> tables_ok s1 \<and> in_slot s1 r \<and>
       (\<exists>cid. k_reqs s1 = (k_reqs s)(r := Some (zero_req\<lparr>r_io := io, r_unit := Some u, r_q := Io_q, r_cid := cid\<rparr>)))"
proof -
  let ?f = "\<lambda>q. q\<lparr>r_io := io, r_unit := Some u\<rparr>"
  obtain v s' where a: "req_alloc P Io_q ?f s = (v, s')" by (meson surj_pair)
  note c = req_alloc_cases [OF assms(1,2), of Io_q ?f, unfolded a] and ok = req_alloc_ok [OF assms(1,2) a]
  show "res = Inl e \<Longrightarrow> s1 = s"
    using assms(3) a c by (auto simp: nvme_req_alloc_io_def split: sum.splits alloc_failure.splits)
  assume "res = Inr r"
  then have v: "v = Inr r" "s1 = s'"
    using assms(3) a by (auto simp: nvme_req_alloc_io_def split: sum.splits alloc_failure.splits)
  have "\<exists>cid. k_reqs s' = (k_reqs s)(r := Some ((?f zero_req)\<lparr>r_q := Io_q, r_cid := cid\<rparr>))"
    using c v by auto
  moreover have "(?f zero_req)\<lparr>r_q := Io_q, r_cid := cid\<rparr>
      = zero_req\<lparr>r_io := io, r_unit := Some u, r_q := Io_q, r_cid := cid\<rparr>" for cid by simp
  ultimately show "k_reqs s r = None \<and> tables_ok s1 \<and> in_slot s1 r \<and>
       (\<exists>cid. k_reqs s1 = (k_reqs s)(r := Some (zero_req\<lparr>r_io := io, r_unit := Some u, r_q := Io_q, r_cid := cid\<rparr>)))"
    using c v ok by auto
qed

lemma alloc_setup_ok:
  assumes "tables_ok s" "req_slab_ok P" "nvme_req_alloc_io P (x_unit (cx s c)) None s = (Inr r, s1)"
    and e: "alloc_setup P c r s s1 = (serr, s3)"
  shows "tables_ok s3" "in_slot s3 r" "io_frame s s3" "k_reqs s r = None"
    "\<exists>q. k_reqs s3 = (k_reqs s)(r := Some q) \<and> r_ctx q = Some c \<and> r_unit q = Some (x_unit (cx s c)) \<and> r_q q = Io_q \<and> r_io q = None"
proof -
  note a = alloc_io_ok(2) [OF assms(1-3) refl]
  then obtain cid where reqs: "k_reqs s1 = (k_reqs s)(r := Some (zero_req\<lparr>r_io := None,
      r_unit := Some (x_unit (cx s c)), r_q := Io_q, r_cid := cid\<rparr>))" by blast
  let ?s2 = "upd_req r (\<lambda>q. q\<lparr>r_ctx := Some c\<rparr>) s1"
  have ok2: "tables_ok ?s2" "in_slot ?s2 r"
    using a upd_req_tables [of "\<lambda>q. q\<lparr>r_ctx := Some c\<rparr>" s1 r] by auto
  have f1: "io_frame s s1" using io_frame_alloc_io [OF io_frame_refl, of s P "x_unit (cx s c)" None] assms(3) by simp
  then have f2: "io_frame s ?s2" by simp
  show "io_frame s s3"
    using e io_frame_setup_rw [OF f2] io_frame_setup_wz [OF f2]
    by (auto simp: alloc_setup_def Let_def split: if_splits) (metis prod.sel(2))
  have f3: "req_frame r ?s2 s3"
    using e req_frame_setup_rw [of r ?s2] req_frame_setup_wz [of r ?s2]
    by (auto simp: alloc_setup_def Let_def split: if_splits) (metis prod.sel(2))
  show "tables_ok s3" "in_slot s3 r" using req_frame_tables [OF f3 ok2] by auto
  show "k_reqs s r = None" using a by blast
  have "k_reqs s3 = (k_reqs s)(r := Some (rq s3 r))"
    using f3 reqs by (auto simp: req_frame_def rq_def fun_eq_iff)
  moreover have "r_ctx (rq s3 r) = Some c" "r_unit (rq s3 r) = Some (x_unit (cx s c))" "r_q (rq s3 r) = Io_q" "r_io (rq s3 r) = None"
    using f3 by (simp_all add: req_frame_def) (simp_all add: rq_def reqs)
  ultimately show "\<exists>q. k_reqs s3 = (k_reqs s)(r := Some q) \<and> r_ctx q = Some c \<and>
      r_unit q = Some (x_unit (cx s c)) \<and> r_q q = Io_q \<and> r_io q = None" by blast
qed

text \<open>\<open>pump_once\<close> through the set-up of the allocated request.\<close>

lemma pump_once_alt:
  "pump_once P c s = (case nvme_req_alloc_io P (x_unit (cx s c)) None s of
     (Inl err, s1) \<Rightarrow> Pump_stop NVME_IO_ASYNC (if x_inflight (cx s c) = 0 then park_ctx c s1 else s1)
   | (Inr r, s1) \<Rightarrow> (case alloc_setup P c r s s1 of (serr, s3) \<Rightarrow>
       if serr \<noteq> IOERR_NO_ERROR
       then Pump_stop (if x_inflight (cx s c) = 0 then serr else NVME_IO_ASYNC)
              (upd_ctx c (\<lambda>x. x\<lparr>x_first_error := serr\<rparr>) (nvme_req_destroy r s3))
       else (case nvme_submit_io r (upd_ctx c (\<lambda>x. x\<lparr>x_dispatched := x_dispatched x + next_bytes s (cx s c),
                x_inflight := x_inflight x + 1\<rparr>) s3) of (suberr, s5) \<Rightarrow>
          if suberr = NVME_IO_ASYNC then Pump_more s5
          else let s6 = upd_ctx c (\<lambda>x. x\<lparr>x_dispatched := x_dispatched x - next_bytes s (cx s c),
                          x_inflight := x_inflight x - 1\<rparr>) s5
               in if suberr = IOERR_UNITBUSY
                  then Pump_stop NVME_IO_ASYNC (if x_inflight (cx s6 c) = 0 then park_ctx c s6 else s6)
                  else let s7 = upd_ctx c (\<lambda>x. x\<lparr>x_first_error := suberr\<rparr>) s6 in
                    Pump_stop (if x_inflight (cx s7 c) = 0 then suberr else NVME_IO_ASYNC) s7)))"
  by (simp only: pump_once_def alloc_setup_def Let_def split_def if_distrib [of fst] if_distrib [of snd] prod.sel)


lemma park_ctx_fields [simp]:
  "k_reqs (park_ctx c s) = k_reqs s" "get_q (park_ctx c s) sel = get_q s sel"
  "cx (park_ctx c s) c = (cx s c)\<lparr>x_stalled := True\<rparr>" "k_ctx_stalled (park_ctx c s) = k_ctx_stalled s @ [c]"
  "k_ctxs (park_ctx c s) = (k_ctxs s)(c := Some ((cx s c)\<lparr>x_stalled := True\<rparr>))"
  "k_units (park_ctx c s) = k_units s" "k_io_max_inflight (park_ctx c s) = k_io_max_inflight s"
  by (simp_all add: park_ctx_def cx_def)

lemma tables_ok_same:
  assumes "tables_ok s" "k_reqs s' = k_reqs s" "\<And>sel. get_q s' sel = get_q s sel"
  shows "tables_ok s'"
  using assms by (intro tables_ok_cong [OF assms(1)]) auto

lemma upd_ctx_tables [simp]: "tables_ok (upd_ctx c f s) = tables_ok s" "in_slot (upd_ctx c f s) r = in_slot s r"
  by (auto intro: tables_ok_same simp: in_slot_def)

lemma park_ctx_tables [simp]: "tables_ok (park_ctx c s) = tables_ok s"
  by (auto intro: tables_ok_same)

text \<open>How a stopped pass leaves the context, and what it returns.\<close>

definition pump_stopped :: "nat \<Rightarrow> NVMeController \<Rightarrow> io_error \<Rightarrow> NVMeController \<Rightarrow> bool" where
  "pump_stopped c s e s' \<longleftrightarrow> tables_ok s' \<and> k_reqs s' = k_reqs s \<and>
     sq_contents (get_q s' Io_q) = sq_contents (get_q s Io_q) \<and> (\<forall>c'. c' \<noteq> c \<longrightarrow> k_ctxs s' c' = k_ctxs s c') \<and>
     k_ctxs s' c \<noteq> None \<and> k_io_max_inflight s' = k_io_max_inflight s \<and>
     x_inflight (cx s' c) = x_inflight (cx s c) \<and> x_dispatched (cx s' c) = x_dispatched (cx s c) \<and>
     x_total_bytes (cx s' c) = x_total_bytes (cx s c) \<and> x_io (cx s' c) = x_io (cx s c) \<and>
     (e = NVME_IO_ASYNC \<and> (x_inflight (cx s c) \<noteq> 0 \<or> x_stalled (cx s' c) \<and> c \<in> set (k_ctx_stalled s')) \<or>
      e \<noteq> NVME_IO_ASYNC \<and> e \<noteq> IOERR_NO_ERROR \<and> x_inflight (cx s c) = 0 \<and> x_first_error (cx s' c) = e)"

lemma setup_rw_errors: "fst (nvme_setup_rw P r lba n opc buf s) \<in> {IOERR_NO_ERROR, IOERR_SELFTEST}"
  by (simp add: nvme_setup_rw_def Let_def split: option.split prod.split)

lemma alloc_setup_errors: "fst (alloc_setup P c r s s1) \<in> {IOERR_NO_ERROR, IOERR_SELFTEST}"
  using setup_rw_errors by (simp add: alloc_setup_def Let_def)

lemma destroy_restores:
  assumes "tables_ok s3" "in_slot s3 r" "k_reqs s3 = (k_reqs s)(r := Some q)" "k_reqs s r = None"
  shows "tables_ok (nvme_req_destroy r s3)" "k_reqs (nvme_req_destroy r s3) = k_reqs s"
    "io_frame s3 (nvme_req_destroy r s3)" "sq_contents (get_q (nvme_req_destroy r s3) sel) = sq_contents (get_q s3 sel)"
proof -
  have r: "k_reqs s3 r = Some q" using assms(3) by simp
  show "sq_contents (get_q (nvme_req_destroy r s3) sel) = sq_contents (get_q s3 sel)"
    by (cases sel; cases "r_q q") (simp_all add: req_destroy_shape [OF r] upd_q_def get_q_def release_ring)
  show "k_reqs (nvme_req_destroy r s3) = k_reqs s"
    using req_destroy_slots(2) [OF assms(1) r] assms(3,4) by (simp add: fun_upd_idem)
qed (use req_destroy_ok [OF assms(1,2)] in simp_all)

lemma alloc_io_ring:
  assumes "tables_ok s" "req_slab_ok P" "nvme_req_alloc_io P u io s = (Inr r, s1)"
  shows "sq_contents (get_q s1 Io_q) = sq_contents (get_q s Io_q)"
proof -
  let ?f = "\<lambda>q. q\<lparr>r_io := io, r_unit := Some u\<rparr>"
  have a: "req_alloc P Io_q ?f s = (Inr r, s1)"
    using assms(3) by (auto simp: nvme_req_alloc_io_def split: prod.splits sum.splits alloc_failure.splits)
  obtain cid q' where q: "acquire_cid (get_q s Io_q) r = Some (cid, q')"
    and s1: "s1 = (set_q Io_q q' s)\<lparr>k_reqs := (k_reqs s)(r := Some ((?f zero_req)\<lparr>r_q := Io_q, r_cid := cid\<rparr>))\<rparr>"
    using req_alloc_cases [OF assms(1,2), of Io_q ?f] a by auto
  show ?thesis unfolding s1 using claim_ring(3) [OF q] by simp
qed

lemma alloc_setup_ring:
  assumes "tables_ok s" "req_slab_ok P" "nvme_req_alloc_io P (x_unit (cx s c)) None s = (Inr r, s1)"
    "alloc_setup P c r s s1 = (serr, s3)"
  shows "sq_contents (get_q s3 Io_q) = sq_contents (get_q s Io_q)"
proof -
  have "get_q s3 Io_q = get_q s1 Io_q"
    using assms(4) req_frame_setup_rw [of r "upd_req r (\<lambda>q. q\<lparr>r_ctx := Some c\<rparr>) s1"]
    by (auto simp: alloc_setup_def Let_def nvme_setup_write_zeroes_def req_frame_def split: if_splits)
      (metis prod.sel(2))
  then show ?thesis using alloc_io_ring [OF assms(1-3)] by simp
qed

lemma pump_once_stop:
  assumes ok: "tables_ok s" "req_slab_ok P" and c: "k_ctxs s c \<noteq> None" and st: "pump_once P c s = Pump_stop e s'"
  shows "pump_stopped c s e s'"
proof -
  obtain res s1 where a: "nvme_req_alloc_io P (x_unit (cx s c)) None s = (res, s1)" by (meson surj_pair)
  show ?thesis
  proof (cases res)
    case (Inl err)
    then have "s1 = s" using alloc_io_ok(1) [OF ok a] by simp
    then show ?thesis
      using st ok c Inl a by (auto simp: pump_once_alt pump_stopped_def)
  next
    case (Inr r)
    note a = a [unfolded Inr]
    obtain serr s3 where e3: "alloc_setup P c r s s1 = (serr, s3)" by (meson surj_pair)
    note as = alloc_setup_ok [OF ok a e3]
    obtain q where q: "k_reqs s3 = (k_reqs s)(r := Some q)" using as(5) by blast
    have ctx: "cx s3 c' = cx s c'" "k_ctxs s3 = k_ctxs s" "k_io_max_inflight s3 = k_io_max_inflight s" for c'
      using io_frameD [OF as(3)] by (simp_all add: cx_def)
    show ?thesis
    proof (cases "serr = IOERR_NO_ERROR")
      case False
      note d = destroy_restores [OF as(1,2) q as(4)]
      have ctx': "cx (nvme_req_destroy r s3) c' = cx s c'" "k_ctxs (nvme_req_destroy r s3) = k_ctxs s"
        "k_io_max_inflight (nvme_req_destroy r s3) = k_io_max_inflight s" for c'
        using io_frameD [OF d(3)] ctx by (simp_all add: cx_def)
      have "serr = IOERR_SELFTEST" using alloc_setup_errors [of P c r s s1] e3 False by simp
      then show ?thesis
        using st a e3 d ctx' alloc_setup_ring [OF ok a e3] by (auto simp: pump_once_alt pump_stopped_def split: if_splits)
    next
      case True
      let ?s4 = "upd_ctx c (\<lambda>x. x\<lparr>x_dispatched := x_dispatched x + next_bytes s (cx s c),
                x_inflight := x_inflight x + 1\<rparr>) s3"
      obtain suberr s5 where sub: "nvme_submit_io r ?s4 = (suberr, s5)" by (meson surj_pair)
      have ne: "suberr \<noteq> NVME_IO_ASYNC"
        using st unfolding pump_once_alt a prod.case sum.case e3 sub Let_def by (auto simp: True split: if_splits)
      then have s5: "s5 = nvme_req_destroy r ?s4" "suberr \<in> {IOERR_BADADDRESS, IOERR_UNITBUSY}"
        using submit_io_cases [of r ?s4] unfolding sub by auto
      have t4: "tables_ok ?s4" "in_slot ?s4 r" "k_reqs ?s4 = (k_reqs s)(r := Some q)" using as q by simp_all
      note d = destroy_restores [OF t4 as(4), folded s5(1)]
      have ctx5: "cx s5 c = (cx s c)\<lparr>x_dispatched := x_dispatched (cx s c) + next_bytes s (cx s c),
            x_inflight := x_inflight (cx s c) + 1\<rparr>"
        "\<And>c'. c' \<noteq> c \<Longrightarrow> k_ctxs s5 c' = k_ctxs s c'" "k_io_max_inflight s5 = k_io_max_inflight s"
        using io_frameD [OF d(3)] ctx by (simp_all add: cx_def)
      show ?thesis
        using st s5(2) d(1,2,4) ctx5 alloc_setup_ring [OF ok a e3] unfolding pump_once_alt a prod.case sum.case e3 sub Let_def
        by (auto simp: True pump_stopped_def split: if_splits)
    qed
  qed
qed


section \<open>The commands a pass issues\<close>

definition chunk_cmd :: "platform \<Rightarrow> u8 \<Rightarrow> u64 \<times> u32 \<Rightarrow> nvme_command \<Rightarrow> bool" where
  "chunk_cmd P opc g cmd \<longleftrightarrow> cmd_opcode cmd = opc \<and>
     (if opc = nvme_cmd_write_zeroes
      then \<exists>ctl. cmd_body cmd = Body_write_zeroes (p_le64 P (fst g)) (p_le16 P (ucast (snd g - 1))) ctl
      else cmd_body cmd = Body_rw (p_le64 P (fst g)) (p_le16 P (ucast (snd g - 1))))"

lemma setup_rw_cmd:
  assumes "nvme_setup_rw P r lba n opc buf s = (IOERR_NO_ERROR, s')"
  shows "cmd_opcode (r_cmd (rq s' r)) = opc \<and>
    cmd_body (r_cmd (rq s' r)) = Body_rw (p_le64 P lba) (p_le16 P (ucast (n - 1)))"
proof -
  let ?b = "push_bit (block_shift_of s (rq s r)) n"
  let ?s1 = "upd_req r (\<lambda>q. q\<lparr>r_user_buf := buf, r_user_len := ?b, r_bounce_buf := None\<rparr>) s"
  obtain d s2 where b: "setup_bounce P r opc buf ?b ?s1 = Some (d, s2)"
    using assms by (auto simp: nvme_setup_rw_def Let_def split: option.splits)
  let ?s3 = "upd_req r (rw_sqe P s2 lba n opc) s2"
  obtain ok s4 where bp: "build_prps P r d ?b ?s3 = (ok, s4)" by (meson surj_pair)
  have s': "rq s' r = rq s4 r"
    using assms b bp by (auto simp: nvme_setup_rw_def Let_def split: if_splits)
  obtain q' hs hl tr where "s4 = ?s3\<lparr>k_reqs := (k_reqs ?s3)(r := Some q'), k_prp_small := hs,
      k_prp_large := hl, k_trace := tr\<rparr>" and q': "same_but_prps q' (rq ?s3 r)"
    by (rule build_prps_shape [OF bp])
  then have "rq s4 r = q'" by (simp add: rq_def)
  then show ?thesis using s' same_but_prpsD [OF q'] by (simp add: rw_sqe_def)
qed

lemma alloc_setup_cmd:
  assumes "alloc_setup P c r s s1 = (IOERR_NO_ERROR, s3)"
  shows "chunk_cmd P (x_opcode (cx s c)) (next_lba s (cx s c), next_blocks s (cx s c)) (r_cmd (rq s3 r))"
  using assms setup_rw_cmd
  by (auto simp: alloc_setup_def Let_def chunk_cmd_def nvme_setup_write_zeroes_def split: if_splits)

lemma io_frame_ctx: "io_frame (upd_ctx c f s) s' \<Longrightarrow> io_frame s (s'\<lparr>k_ctxs := k_ctxs s\<rparr>)"
  by (cases s; cases s') (simp add: io_frame_def upd_ctx_def)

lemma pump_once_more:
  assumes ok: "tables_ok s" "req_slab_ok P" and more: "pump_once P c s = Pump_more s'"
  shows "tables_ok s'"
    "\<exists>r q. k_reqs s r = None \<and> k_reqs s' = (k_reqs s)(r := Some q) \<and> r_ctx q = Some c \<and> r_io q = None"
    "\<exists>cmd. sq_contents (get_q s' Io_q) = sq_contents (get_q s Io_q) @ [cmd] \<and>
       chunk_cmd P (x_opcode (cx s c)) (next_lba s (cx s c), next_blocks s (cx s c)) cmd"
    "\<exists>s3. io_frame s s3 \<and> s' = s3\<lparr>k_ctxs := k_ctxs s'\<rparr>"
proof -
  obtain r s1 where a: "nvme_req_alloc_io P (x_unit (cx s c)) None s = (Inr r, s1)"
    using more by (auto simp: pump_once_alt split: prod.splits sum.splits)
  obtain serr s3 where e3: "alloc_setup P c r s s1 = (serr, s3)" by (meson surj_pair)
  note as = alloc_setup_ok [OF ok a e3]
  let ?s4 = "upd_ctx c (\<lambda>x. x\<lparr>x_dispatched := x_dispatched x + next_bytes s (cx s c),
                x_inflight := x_inflight x + 1\<rparr>) s3"
  have serr: "serr = IOERR_NO_ERROR" and sub: "nvme_submit_io r ?s4 = (NVME_IO_ASYNC, s')"
    using more unfolding pump_once_alt a prod.case sum.case e3 Let_def
    by (auto split: if_splits prod.splits)
  have t4: "tables_ok ?s4" "in_slot ?s4 r" using as by simp_all
  have acc: "fst (nvme_submit_io r ?s4) = NVME_IO_ASYNC" "snd (nvme_submit_io r ?s4) = s'"
    unfolding sub by simp_all
  show "tables_ok s'" using submit_io_ok [OF t4] acc by simp
  obtain q where q: "k_reqs s3 = (k_reqs s)(r := Some q)" "r_ctx q = Some c" "r_q q = Io_q" "r_io q = None" using as(5) by blast
  have rq: "rq ?s4 r = q" "rq s3 r = q" using q by (simp_all add: rq_def)
  note sa = submit_io_accepted [OF t4(1) acc(1), unfolded acc(2) rq q(3)]
  have "k_reqs s' = (k_reqs s)(r := Some (q\<lparr>r_submit_us := k_clock ?s4\<rparr>))" using sa(3) q by simp
  then show "\<exists>r q. k_reqs s r = None \<and> k_reqs s' = (k_reqs s)(r := Some q) \<and> r_ctx q = Some c \<and> r_io q = None"
    using as(4) q(2,4) by (intro exI [of _ r] exI [of _ "q\<lparr>r_submit_us := k_clock ?s4\<rparr>"]) simp
  have "sq_contents (get_q s' Io_q) = sq_contents (get_q s Io_q) @ [r_cmd q]"
    using sa(1) alloc_setup_ring [OF ok a e3] by simp
  then show "\<exists>cmd. sq_contents (get_q s' Io_q) = sq_contents (get_q s Io_q) @ [cmd] \<and>
       chunk_cmd P (x_opcode (cx s c)) (next_lba s (cx s c), next_blocks s (cx s c)) cmd"
    using alloc_setup_cmd [OF e3 [unfolded serr]] rq by auto
  have "io_frame ?s4 s'" using io_frame_submit [OF io_frame_refl, of ?s4 r] unfolding acc .
  then have "io_frame s3 (s'\<lparr>k_ctxs := k_ctxs s3\<rparr>)" by (rule io_frame_ctx)
  then show "\<exists>s3. io_frame s s3 \<and> s' = s3\<lparr>k_ctxs := k_ctxs s'\<rparr>"
    using io_frame_trans [OF as(3)] by (intro exI [of _ "s'\<lparr>k_ctxs := k_ctxs s3\<rparr>"]) simp
qed


section \<open>The pump as a whole\<close>

text \<open>The count kept in the context is the number of live siblings.\<close>

definition ctx_counted :: "NVMeController \<Rightarrow> nat \<Rightarrow> bool" where
  "ctx_counted s c \<longleftrightarrow> finite (siblings s c) \<and> card (siblings s c) = x_inflight (cx s c)"

lemma ctx_counted_add:
  assumes "ctx_counted s c" "k_reqs s r = None" "k_reqs s' = (k_reqs s)(r := Some q)" "r_ctx q = Some c"
    and "x_inflight (cx s' c) = x_inflight (cx s c) + 1"
  shows "ctx_counted s' c"
proof -
  have "siblings s' c = insert r (siblings s c)" "r \<notin> siblings s c"
    using assms(2-4) by (auto simp: siblings_def)
  then show ?thesis using assms(1,5) by (simp add: ctx_counted_def)
qed

lemma next_bytes_le: "next_bytes s x \<le> x_total_bytes x - x_dispatched x"
  by (simp add: next_bytes_def Let_def less_imp_le)

lemma dispatched_step:
  assumes "x_dispatched x \<le> x_total_bytes x"
  shows "unat (x_dispatched x + next_bytes s x) = unat (x_dispatched x) + unat (next_bytes s x)"
    "x_dispatched x + next_bytes s x \<le> x_total_bytes x"
proof -
  have n: "unat (next_bytes s x) \<le> unat (x_total_bytes x) - unat (x_dispatched x)"
    using next_bytes_le [of s x] assms by (simp add: word_le_nat_alt unat_sub_le)
  then show u: "unat (x_dispatched x + next_bytes s x) = unat (x_dispatched x) + unat (next_bytes s x)"
    using assms unat_lt_size [of "x_total_bytes x"] by (intro unat_add_no_wrap) (simp add: word_le_nat_alt)
  show "x_dispatched x + next_bytes s x \<le> x_total_bytes x"
    using n assms by (simp add: word_le_nat_alt u)
qed

lemma pump_accounting_aux:
  assumes "tables_ok s" "req_slab_ok P" "k_ctxs s c \<noteq> None" "ctx_counted s c"
    and "x_dispatched (cx s c) \<le> x_total_bytes (cx s c)" "nvme_io_context_pump P c s = (e, s')"
  shows "tables_ok s' \<and> k_ctxs s' c \<noteq> None \<and> ctx_counted s' c \<and>
    x_total_bytes (cx s' c) = x_total_bytes (cx s c) \<and>
    x_dispatched (cx s c) \<le> x_dispatched (cx s' c) \<and> x_dispatched (cx s' c) \<le> x_total_bytes (cx s c) \<and>
    x_inflight (cx s' c) \<le> max (x_inflight (cx s c)) (sib_cap s) \<and>
    (e \<noteq> NVME_IO_ASYNC \<longrightarrow> siblings s' c = {} \<and> e \<noteq> IOERR_NO_ERROR \<and> x_first_error (cx s' c) = e) \<and>
    (e = NVME_IO_ASYNC \<longrightarrow> 0 < sib_cap s \<longrightarrow> x_dispatched (cx s c) < x_total_bytes (cx s c) \<or> 0 < x_inflight (cx s c) \<longrightarrow>
       siblings s' c \<noteq> {} \<or> c \<in> set (k_ctx_stalled s'))"
  using assms
proof (induction P c s arbitrary: e s' rule: nvme_io_context_pump.induct)
  case (1 P c s)
  note prems = 1(2-6)
  have ne: "siblings s c \<noteq> {} \<longleftrightarrow> 0 < x_inflight (cx s c)"
    using prems(4) card_gt_0_iff [of "siblings s c"] by (auto simp: ctx_counted_def)
  let ?go = "x_dispatched (cx s c) < x_total_bytes (cx s c) \<and> x_inflight (cx s c) < sib_cap s"
  show ?case
  proof (cases ?go)
    case False
    then have "e = NVME_IO_ASYNC" "s' = s" using 1(7) by (auto simp: nvme_io_context_pump.simps)
    then show ?thesis using prems False ne by auto
  next
    case go: True
    show ?thesis
    proof (cases "pump_once P c s")
      case (Pump_stop e1 s1)
      then have es: "e = e1" "s' = s1" using 1(7) go by (simp_all add: nvme_io_context_pump.simps)
      note st = pump_once_stop [OF prems(1-3) Pump_stop, folded es]
      then have "siblings s' c = siblings s c" by (intro siblings_cong) (simp add: pump_stopped_def)
      then show ?thesis using st prems go ne by (auto simp: pump_stopped_def ctx_counted_def)
    next
      case (Pump_more s1)
      note m = pump_once_more [OF prems(1,2) Pump_more] and x = pump_once_more_ctx [OF Pump_more]
      obtain r q where r: "k_reqs s r = None" "k_reqs s1 = (k_reqs s)(r := Some q)" "r_ctx q = Some c"
        using m(2) by blast
      have cnt: "ctx_counted s1 c" by (rule ctx_counted_add [OF prems(4) r]) (simp add: x)
      have "x_inflight (cx s1 c) \<noteq> 0" by (simp add: x)
      then have live: "k_ctxs s1 c \<noteq> None" by (cases "k_ctxs s1 c") (auto simp: cx_def zero_ctx_def)
      note d = dispatched_step [OF prems(5), of s]
      have "nvme_io_context_pump P c s1 = (e, s')" using 1(7) go Pump_more by (simp add: nvme_io_context_pump.simps)
      note ih = 1(1) [OF go Pump_more m(1) prems(2) live cnt _ this]
      have "x_dispatched (cx s c) \<le> x_dispatched (cx s1 c)" using d(1) by (simp add: x word_le_nat_alt)
      then show ?thesis using ih d(2) go by (auto simp: x sib_cap_def)
    qed
  qed
qed


text \<open>
  C4.  The chunk scheduler keeps its books: after any pump the context's counter
  is the number of live sibling commands, never above the larger of what it was
  and the sibling cap, and the dispatch cursor only moves forward within the
  transfer.  A synchronous error means that no sibling is left, so the caller may
  free the context; otherwise a sibling is in flight or the context is parked on
  the stalled list, so somebody will pump or finish it.
\<close>

theorem pump_accounting:
  assumes "tables_ok s" "req_slab_ok P" "k_ctxs s c \<noteq> None" "ctx_counted s c"
    and "x_dispatched (cx s c) < x_total_bytes (cx s c)" "0 < sib_cap s" "nvme_io_context_pump P c s = (e, s')"
  shows "tables_ok s' \<and> k_ctxs s' c \<noteq> None \<and> ctx_counted s' c \<and>
    x_total_bytes (cx s' c) = x_total_bytes (cx s c) \<and>
    x_dispatched (cx s c) \<le> x_dispatched (cx s' c) \<and> x_dispatched (cx s' c) \<le> x_total_bytes (cx s c) \<and>
    x_inflight (cx s' c) \<le> max (x_inflight (cx s c)) (sib_cap s) \<and>
    (if e = NVME_IO_ASYNC then siblings s' c \<noteq> {} \<or> c \<in> set (k_ctx_stalled s')
     else siblings s' c = {} \<and> e \<noteq> IOERR_NO_ERROR \<and> x_first_error (cx s' c) = e)"
  using pump_accounting_aux [OF assms(1-4) less_imp_le [OF assms(5)] assms(7)] assms(5,6) by auto

text \<open>A three-chunk transfer on the small controller.\<close>

definition demo_ctx :: nvme_io_context where
  "demo_ctx = zero_ctx\<lparr>x_total_bytes := 10240, x_opcode := nvme_cmd_read, x_user_data := 0x20000, x_start_lba := 77\<rparr>"

definition demo_chunked :: NVMeController where
  "demo_chunked = demo_ctrl\<lparr>k_ctxs := (\<lambda>_. None)(0 := Some demo_ctx)\<rparr>"

lemma demo_chunked_facts:
  "tables_ok demo_chunked" "cx demo_chunked 0 = demo_ctx" "k_ctxs demo_chunked 0 = Some demo_ctx"
  "ctx_counted demo_chunked 0" "sib_cap demo_chunked = 3" "siblings demo_chunked 0 = {}"
proof -
  show "tables_ok demo_chunked"
    by (rule tables_ok_same [OF demo_tables_ok]) (simp_all add: demo_chunked_def)
  show c: "cx demo_chunked 0 = demo_ctx" "k_ctxs demo_chunked 0 = Some demo_ctx"
    by (simp_all add: demo_chunked_def cx_def)
  show sib: "siblings demo_chunked 0 = {}" "sib_cap demo_chunked = 3"
    by (simp_all add: siblings_def demo_chunked_def demo_ctrl_def zero_ctrl_def sib_cap_def)
  show "ctx_counted demo_chunked 0"
    by (simp add: ctx_counted_def sib c demo_ctx_def zero_ctx_def)
qed

theorem pump_accounting_witness:
  "\<exists>e s'. nvme_io_context_pump m68k_platform 0 demo_chunked = (e, s') \<and> tables_ok s' \<and> ctx_counted s' 0 \<and>
     x_inflight (cx s' 0) \<le> 3"
proof -
  obtain e s' where p: "nvme_io_context_pump m68k_platform 0 demo_chunked = (e, s')" by (meson surj_pair)
  show ?thesis
    using pump_accounting [OF demo_chunked_facts(1) m68k_req_slab_ok _ demo_chunked_facts(4) _ _ p] p
    by (simp add: demo_chunked_facts demo_ctx_def zero_ctx_def)
qed

subsection \<open>Which commands the pump issues\<close>

definition same_geometry :: "NVMeController \<Rightarrow> NVMeController \<Rightarrow> bool" where
  "same_geometry s s' \<longleftrightarrow> k_units s' = k_units s \<and> k_max_transfer_bytes s' = k_max_transfer_bytes s \<and>
     k_max_hw_sectors s' = k_max_hw_sectors s \<and> k_quirks s' = k_quirks s"

text \<open>The byte limit of a command of a context at a given LBA; 0 is no limit.\<close>

definition cap_at :: "NVMeController \<Rightarrow> nvme_io_context \<Rightarrow> u64 \<Rightarrow> u32" where
  "cap_at s x lba = (if x_opcode x = nvme_cmd_write_zeroes then u_wz_max_bytes (k_units s (x_unit x))
     else nvme_rw_chunk_cap s (ctx_shift s x) lba)"

lemma geometry_cong:
  assumes "same_geometry s s'"
  shows "ctx_shift s' x = ctx_shift s x" "cap_at s' x = cap_at s x"
  using assms
  by (simp_all add: same_geometry_def ctx_shift_def cap_at_def nvme_rw_chunk_cap_def Let_def fun_eq_iff)

text \<open>Whole blocks everywhere, and the last LBA fits in 64 bits.\<close>

definition ctx_aligned :: "NVMeController \<Rightarrow> nvme_io_context \<Rightarrow> bool" where
  "ctx_aligned s x \<longleftrightarrow> (let bs = 2 ^ unat (ctx_shift s x) in unat (ctx_shift s x) < 32 \<and>
     bs dvd unat (x_total_bytes x) \<and> bs dvd unat (x_dispatched x) \<and> x_dispatched x \<le> x_total_bytes x \<and>
     bs dvd unat (u_wz_max_bytes (k_units s (x_unit x))) \<and> bs dvd unat (k_max_transfer_bytes s) \<and>
     unat (x_start_lba x) + unat (x_total_bytes x) div bs < 2 ^ 64)"

lemma ctx_aligned_cong: "same_geometry s s' \<Longrightarrow> ctx_aligned s' x = ctx_aligned s x"
  by (simp add: ctx_aligned_def same_geometry_def ctx_shift_def)

lemma dvd_unat_push_bit: "n \<le> LENGTH('a) \<Longrightarrow> 2 ^ n dvd unat (push_bit n (w :: 'a::len word))"
proof -
  assume "n \<le> LENGTH('a)"
  then have "(2 :: nat) ^ n dvd 2 ^ LENGTH('a)" by (rule le_imp_power_dvd)
  moreover have "unat (push_bit n w) = (unat w * 2 ^ n) mod 2 ^ LENGTH('a)"
    unfolding unsigned_push_bit_eq by (simp add: push_bit_eq_mult take_bit_eq_mod)
  ultimately show ?thesis by (simp add: dvd_mod)
qed

lemma cap_aligned:
  assumes "ctx_aligned s x"
  shows "2 ^ unat (ctx_shift s x) dvd unat (cap_at s x lba)"
proof -
  have "2 ^ unat (ctx_shift s x) dvd unat (push_bit (unat (ctx_shift s x)) (w :: u32))" for w
    using assms by (intro dvd_unat_push_bit) (simp add: ctx_aligned_def Let_def)
  then show ?thesis
    using assms by (simp add: ctx_aligned_def Let_def cap_at_def nvme_rw_chunk_cap_def)
qed

lemma unat_drop_bit: "unat (drop_bit n (w :: 'a::len word)) = unat w div 2 ^ n"
  unfolding unsigned_drop_bit_eq by (simp add: drop_bit_eq_div take_bit_eq_mod)

lemma one_chunk:
  assumes al: "ctx_aligned s x" and go: "x_dispatched x < x_total_bytes x"
  defines "bs \<equiv> 2 ^ unat (ctx_shift s x)"
  shows "unat (next_lba s x) = unat (x_start_lba x) + unat (x_dispatched x) div bs"
    "unat (next_blocks s x) * bs = unat (next_bytes s x)" "0 < next_blocks s x"
    "cap_at s x (next_lba s x) \<noteq> 0 \<Longrightarrow> next_bytes s x \<le> cap_at s x (next_lba s x)"
    "ctx_aligned s (x\<lparr>x_dispatched := x_dispatched x + next_bytes s x\<rparr>)"
proof -
  note a = al [unfolded ctx_aligned_def Let_def, folded bs_def]
  have bs0: "0 < bs" by (simp add: bs_def)
  have le: "unat (x_dispatched x) div bs \<le> unat (x_total_bytes x) div bs"
    using a by (intro div_le_mono) (simp add: word_le_nat_alt)
  show "unat (next_lba s x) = unat (x_start_lba x) + unat (x_dispatched x) div bs"
    using a le by (simp add: next_lba_def unat_add_no_wrap unat_ucast_32_64 unat_drop_bit flip: bs_def)
  have rem: "unat (x_total_bytes x - x_dispatched x) = unat (x_total_bytes x) - unat (x_dispatched x)"
    using a by (simp add: unat_sub_le word_le_nat_alt)
  have cap: "chunk_cap s x = cap_at s x (next_lba s x)" by (simp add: chunk_cap_def cap_at_def)
  have nb: "bs dvd unat (next_bytes s x)"
    using cap_aligned [OF al] a rem by (auto simp: next_bytes_def Let_def cap dvd_diff_nat simp flip: bs_def)
  have pos: "next_bytes s x \<noteq> 0" using go by (auto simp: next_bytes_def Let_def)
  show blk: "unat (next_blocks s x) * bs = unat (next_bytes s x)"
    using nb by (simp add: next_blocks_def unat_drop_bit flip: bs_def)
  then have "unat (next_blocks s x) \<noteq> 0" using pos by (metis mult_zero_left unat_eq_zero)
  then show "0 < next_blocks s x" by (simp add: word_less_nat_alt)
  show "cap_at s x (next_lba s x) \<noteq> 0 \<Longrightarrow> next_bytes s x \<le> cap_at s x (next_lba s x)"
    by (auto simp: next_bytes_def Let_def cap)
  show "ctx_aligned s (x\<lparr>x_dispatched := x_dispatched x + next_bytes s x\<rparr>)"
    using a nb dispatched_step [of x s]
    by (simp add: ctx_aligned_def Let_def ctx_shift_def bs_def)
qed

text \<open>A list of chunks (start LBA, blocks) that covers the blocks from \<open>a\<close> up to \<open>b\<close> without gap or overlap.\<close>

fun covers :: "nat \<Rightarrow> (u64 \<times> u32) list \<Rightarrow> nat \<Rightarrow> bool" where
  "covers a [] b \<longleftrightarrow> a = b"
| "covers a ((l, n) # gs) b \<longleftrightarrow> unat l = a \<and> 0 < n \<and> covers (a + unat n) gs b"

definition chunk_fits :: "NVMeController \<Rightarrow> nvme_io_context \<Rightarrow> u64 \<times> u32 \<Rightarrow> bool" where
  "chunk_fits s x g \<longleftrightarrow> (cap_at s x (fst g) \<noteq> 0 \<longrightarrow>
     unat (snd g) * 2 ^ unat (ctx_shift s x) \<le> unat (cap_at s x (fst g)))"

definition cursor :: "NVMeController \<Rightarrow> nvme_io_context \<Rightarrow> nat" where
  "cursor s x = unat (x_start_lba x) + unat (x_dispatched x) div 2 ^ unat (ctx_shift s x)"


lemma pump_once_geometry:
  assumes "tables_ok s" "req_slab_ok P" "pump_once P c s = Pump_more s'"
  shows "same_geometry s s'"
proof -
  obtain s3 where s3: "io_frame s s3" "s' = s3\<lparr>k_ctxs := k_ctxs s'\<rparr>"
    using pump_once_more(4) [OF assms] by blast
  have "k_units s' = k_units s3 \<and> k_max_transfer_bytes s' = k_max_transfer_bytes s3 \<and>
     k_max_hw_sectors s' = k_max_hw_sectors s3 \<and> k_quirks s' = k_quirks s3"
    by (subst (1 2 3 4) s3(2)) simp
  then show ?thesis using io_frameD [OF s3(1)] by (simp add: same_geometry_def)
qed

lemma geometry_fields:
  assumes "x_unit x' = x_unit x" "x_opcode x' = x_opcode x" "same_geometry s s'"
  shows "ctx_shift s' x' = ctx_shift s x" "cap_at s' x' = cap_at s x" "chunk_fits s' x' = chunk_fits s x"
proof -
  show "ctx_shift s' x' = ctx_shift s x" "cap_at s' x' = cap_at s x"
    using assms by (simp_all add: geometry_cong) (simp_all add: ctx_shift_def cap_at_def fun_eq_iff)
  then show "chunk_fits s' x' = chunk_fits s x" by (simp add: chunk_fits_def fun_eq_iff)
qed

lemma pump_issues_aux:
  assumes "tables_ok s" "req_slab_ok P" "k_ctxs s c \<noteq> None" "ctx_aligned s (cx s c)"
    and "nvme_io_context_pump P c s = (e, s')"
  shows "\<exists>gs cmds. sq_contents (get_q s' Io_q) = sq_contents (get_q s Io_q) @ cmds \<and>
    list_all2 (chunk_cmd P (x_opcode (cx s c))) gs cmds \<and> list_all (chunk_fits s (cx s c)) gs \<and>
    covers (cursor s (cx s c)) gs (unat (x_start_lba (cx s c)) +
      unat (x_dispatched (cx s' c)) div 2 ^ unat (ctx_shift s (cx s c))) \<and>
    x_inflight (cx s' c) = x_inflight (cx s c) + length cmds"
  using assms
proof (induction P c s arbitrary: e s' rule: nvme_io_context_pump.induct)
  case (1 P c s)
  let ?go = "x_dispatched (cx s c) < x_total_bytes (cx s c) \<and> x_inflight (cx s c) < sib_cap s"
  let ?x = "cx s c" and ?bs = "2 ^ unat (ctx_shift s (cx s c)) :: nat"
  show ?case
  proof (cases ?go)
    case False
    then have "s' = s" using 1(6) by (auto simp: nvme_io_context_pump.simps)
    then show ?thesis by (intro exI [of _ "[]"]) (simp add: cursor_def)
  next
    case go: True
    show ?thesis
    proof (cases "pump_once P c s")
      case (Pump_stop e1 s1)
      then have es: "e = e1" "s' = s1" using 1(6) go by (simp_all add: nvme_io_context_pump.simps)
      then show ?thesis
        using pump_once_stop [OF 1(2-4) Pump_stop]
        by (intro exI [of _ "[]"]) (simp add: pump_stopped_def cursor_def)
    next
      case (Pump_more s1)
      note m = pump_once_more [OF 1(2,3) Pump_more] and x = pump_once_more_ctx [OF Pump_more]
        and geo = pump_once_geometry [OF 1(2,3) Pump_more]
      obtain cmd where cmd: "sq_contents (get_q s1 Io_q) = sq_contents (get_q s Io_q) @ [cmd]"
        "chunk_cmd P (x_opcode ?x) (next_lba s ?x, next_blocks s ?x) cmd" using m(3) by blast
      have fields: "x_unit (cx s1 c) = x_unit ?x" "x_opcode (cx s1 c) = x_opcode ?x"
        "x_start_lba (cx s1 c) = x_start_lba ?x" by (simp_all add: x)
      note gf = geometry_fields [OF fields(1,2) geo] and oc = one_chunk [OF 1(5) conjunct1 [OF go]]
      have "x_inflight (cx s1 c) \<noteq> 0" by (simp add: x)
      then have live: "k_ctxs s1 c \<noteq> None" by (cases "k_ctxs s1 c") (auto simp: cx_def zero_ctx_def)
      have al: "ctx_aligned s1 (cx s1 c)"
        using oc(5) by (simp add: ctx_aligned_cong [OF geo] x) (simp add: ctx_aligned_def ctx_shift_def)
      have "nvme_io_context_pump P c s1 = (e, s')" using 1(6) go Pump_more by (simp add: nvme_io_context_pump.simps)
      then obtain gs cmds where ih: "sq_contents (get_q s' Io_q) = sq_contents (get_q s1 Io_q) @ cmds"
        "list_all2 (chunk_cmd P (x_opcode ?x)) gs cmds" "list_all (chunk_fits s ?x) gs"
        "covers (cursor s1 (cx s1 c)) gs (unat (x_start_lba ?x) + unat (x_dispatched (cx s' c)) div ?bs)"
        "x_inflight (cx s' c) = x_inflight (cx s1 c) + length cmds"
        using 1(1) [OF go Pump_more m(1) 1(3) live al] unfolding gf fields by blast
      have "unat (next_bytes s ?x) div ?bs = unat (next_blocks s ?x)" unfolding oc(2) [symmetric] by simp
      moreover have "?bs dvd unat (x_dispatched ?x)" "x_dispatched ?x \<le> x_total_bytes ?x"
        using 1(5) by (simp_all add: ctx_aligned_def Let_def)
      ultimately have cur: "cursor s1 (cx s1 c) = unat (next_lba s ?x) + unat (next_blocks s ?x)"
        unfolding cursor_def gf fields oc(1) by (simp add: x dispatched_step div_plus_div_distrib_dvd_left)
      have fits: "chunk_fits s ?x (next_lba s ?x, next_blocks s ?x)"
        using oc(2,4) by (simp add: chunk_fits_def word_le_nat_alt)
      have st: "cursor s ?x = unat (next_lba s ?x)" by (simp add: oc(1) cursor_def)
      show ?thesis
        using ih cmd cur fits st oc(3)
        by (intro exI [of _ "(next_lba s ?x, next_blocks s ?x) # gs"] exI [of _ "cmd # cmds"]) (simp add: x)
    qed
  qed
qed

text \<open>
  C3.  The commands a pump appends to the submission queue cover the transfer
  from the old cursor to the new one: consecutive block ranges without gap or
  overlap, none empty, each within the byte limit that holds at its own start
  LBA, with LBA and zero-based length in device byte order.
\<close>

theorem pump_covers_transfer:
  assumes "tables_ok s" "req_slab_ok P" "k_ctxs s c \<noteq> None" "ctx_aligned s (cx s c)"
    and "nvme_io_context_pump P c s = (e, s')"
  shows "\<exists>gs cmds. sq_contents (get_q s' Io_q) = sq_contents (get_q s Io_q) @ cmds \<and>
    list_all2 (chunk_cmd P (x_opcode (cx s c))) gs cmds \<and> list_all (chunk_fits s (cx s c)) gs \<and>
    covers (cursor s (cx s c)) gs (unat (x_start_lba (cx s c)) +
      unat (x_dispatched (cx s' c)) div 2 ^ unat (ctx_shift s (cx s c))) \<and>
    x_inflight (cx s' c) = x_inflight (cx s c) + length cmds"
  by (rule pump_issues_aux [OF assms])

theorem pump_covers_transfer_witness:
  "\<exists>e s' gs cmds. nvme_io_context_pump m68k_platform 0 demo_chunked = (e, s') \<and>
     list_all2 (chunk_cmd m68k_platform nvme_cmd_read) gs cmds \<and>
     covers 77 gs (77 + unat (x_dispatched (cx s' 0)) div 512)"
proof -
  have sh: "ctx_shift demo_chunked demo_ctx = 9"
    by (simp add: ctx_shift_def demo_chunked_def demo_ctrl_def demo_unit_def)
  have x: "x_total_bytes demo_ctx = 10240" "x_dispatched demo_ctx = 0" "x_start_lba demo_ctx = 77"
    "x_opcode demo_ctx = nvme_cmd_read" by (simp_all add: demo_ctx_def zero_ctx_def)
  have "ctx_aligned demo_chunked (cx demo_chunked 0)"
    by (simp add: ctx_aligned_def Let_def demo_chunked_facts sh x)
      (simp add: demo_chunked_def demo_ctrl_def demo_unit_def)
  moreover obtain e s' where p: "nvme_io_context_pump m68k_platform 0 demo_chunked = (e, s')" by (meson surj_pair)
  ultimately show ?thesis
    using pump_covers_transfer [OF demo_chunked_facts(1) m68k_req_slab_ok _ _ p]
    by (fastforce simp: demo_chunked_facts sh x cursor_def)
qed

section \<open>Finish\<close>

lemma finish_shape:
  assumes "k_ctxs s c = Some x"
  shows "nvme_io_context_finish c s = s\<lparr>k_ctxs := (k_ctxs s)(c := None),
    k_ios := (k_ios s)(x_io x := (k_ios s (x_io x))\<lparr>io_Error := x_first_error x,
       io_Actual := (if x_first_error x \<noteq> IOERR_NO_ERROR then 0 else x_total_bytes x)\<rparr>),
    k_trace := k_trace s @ (if x_data_precached x \<and> x_opcode x = nvme_cmd_read
        then [Ev_inval (x_user_data x) (x_total_bytes x)] else []) @ [Ev_reply (x_io x)]\<rparr>"
  using assms by (simp add: nvme_io_context_finish_def Let_def cx_def emit_def upd_io_def free_ctx_def)

end
