(* ===== verification/Nvme_Ctrl.thy ===== *)
theory Nvme_Ctrl
  imports Nvme_Chunk
begin

text \<open>
  The controller life cycle: the state machine of src/nvme/nvme_ctrl.c
  (\<open>nvme_change_ctrl_state\<close>), the transfer limits derived from Identify, the
  freeze and quiesce gates of src/nvme/nvme_queue.c and the task signals of
  src/unit_task.c and src/admin_task.c.
\<close>

section \<open>State machine\<close>

definition ctrl_can_change :: "nvme_ctrl_state \<Rightarrow> nvme_ctrl_state \<Rightarrow> bool" where
  "ctrl_can_change old_state new_state = (case new_state of
     NVME_CTRL_LIVE \<Rightarrow> old_state = NVME_CTRL_CONNECTING
   | NVME_CTRL_RESETTING \<Rightarrow> old_state \<in> {NVME_CTRL_NEW, NVME_CTRL_LIVE}
   | NVME_CTRL_CONNECTING \<Rightarrow> old_state \<in> {NVME_CTRL_NEW, NVME_CTRL_RESETTING}
   | NVME_CTRL_DELETING \<Rightarrow> old_state \<in> {NVME_CTRL_LIVE, NVME_CTRL_RESETTING, NVME_CTRL_CONNECTING}
   | NVME_CTRL_DELETING_NOIO \<Rightarrow> old_state \<in> {NVME_CTRL_DELETING, NVME_CTRL_DEAD}
   | NVME_CTRL_DEAD \<Rightarrow> old_state = NVME_CTRL_DELETING
   | NVME_CTRL_NEW \<Rightarrow> False)"

definition nvme_change_ctrl_state :: "nvme_ctrl_state \<Rightarrow> NVMeController \<Rightarrow> bool \<times> NVMeController" where
  "nvme_change_ctrl_state new_state s =
    (if ctrl_can_change (k_state s) new_state then (True, s\<lparr>k_state := new_state\<rparr>) else (False, s))"

section \<open>Signals and gates\<close>

text \<open>The uniprocessor bit operations of kcompat.h on a flag word.\<close>

definition test_and_set_flag :: "nat \<Rightarrow> u32 \<Rightarrow> bool \<times> u32" where
  "test_and_set_flag n w = (bit w n, w OR push_bit n 1)"

definition test_and_clear_flag :: "nat \<Rightarrow> u32 \<Rightarrow> bool \<times> u32" where
  "test_and_clear_flag n w = (bit w n, w AND NOT (push_bit n 1))"

definition nvme_queue_scan :: "NVMeController \<Rightarrow> NVMeController" where
  "nvme_queue_scan s = (if k_admin_task s then emit (Ev_signal Sig_scan) s else s)"

definition nvme_queue_fw_act_work :: "NVMeController \<Rightarrow> NVMeController" where
  "nvme_queue_fw_act_work s = (if k_admin_task s then emit (Ev_signal Sig_fw_act) s else s)"

definition nvme_reset_ctrl :: "NVMeController \<Rightarrow> bool \<times> NVMeController" where
  "nvme_reset_ctrl s = (if \<not> k_unit_task s then (False, s) else (True, emit (Ev_signal Sig_reset) s))"

definition gate_close :: "nat \<Rightarrow> NVMeController \<Rightarrow> NVMeController" where
  "gate_close n s = s\<lparr>k_flags := snd (test_and_set_flag n (k_flags s))\<rparr>"

definition gate_open :: "nat \<Rightarrow> bool \<Rightarrow> signal \<Rightarrow> NVMeController \<Rightarrow> NVMeController" where
  "gate_open n task sig s =
    (let (was, w) = test_and_clear_flag n (k_flags s); s1 = s\<lparr>k_flags := w\<rparr> in
     if \<not> was then s1 else if task then emit (Ev_signal sig) s1 else s1)"

definition nvme_start_freeze :: "NVMeController \<Rightarrow> NVMeController" where
  "nvme_start_freeze = gate_close NVME_CTRL_FROZEN"

definition nvme_wait_freeze_done :: "NVMeController \<Rightarrow> bool" where
  "nvme_wait_freeze_done s \<longleftrightarrow> q_inflight_count (k_io_q s) = 0"

definition nvme_unfreeze :: "NVMeController \<Rightarrow> NVMeController" where
  "nvme_unfreeze s = gate_open NVME_CTRL_FROZEN (k_unit_task s) Sig_msgport s"

definition nvme_quiesce_io_queues :: "NVMeController \<Rightarrow> NVMeController" where
  "nvme_quiesce_io_queues = gate_close NVME_CTRL_STOPPED"

definition nvme_unquiesce_io_queues :: "NVMeController \<Rightarrow> NVMeController" where
  "nvme_unquiesce_io_queues s = gate_open NVME_CTRL_STOPPED (k_unit_task s) Sig_msgport s"

definition nvme_quiesce_admin_queue :: "NVMeController \<Rightarrow> NVMeController" where
  "nvme_quiesce_admin_queue = gate_close NVME_CTRL_ADMIN_Q_STOPPED"

definition nvme_unquiesce_admin_queue :: "NVMeController \<Rightarrow> NVMeController" where
  "nvme_unquiesce_admin_queue s = gate_open NVME_CTRL_ADMIN_Q_STOPPED (k_admin_task s) Sig_adminport s"

section \<open>Transfer limits\<close>

definition check_shl_overflow :: "u32 \<Rightarrow> u32 \<Rightarrow> u32 option" where
  "check_shl_overflow v sh = (if 32 \<le> sh then None
     else if sh \<noteq> 0 \<and> drop_bit (unat (32 - sh)) v \<noteq> 0 then None
     else Some (push_bit (unat sh) v))"

definition NVME_CAP_MPSMIN :: "u64 \<Rightarrow> u32" where
  "NVME_CAP_MPSMIN cap = ucast (drop_bit 48 cap AND 0xf)"

definition nvme_mps_to_sectors :: "NVMeController \<Rightarrow> u32 \<Rightarrow> u32" where
  "nvme_mps_to_sectors s units =
    (let page_shift = NVME_CAP_MPSMIN (k_cap s) + 12 in
     case check_shl_overflow 1 (units + page_shift - 9) of None \<Rightarrow> 0xFFFFFFFF | Some v \<Rightarrow> v)"

definition nvme_set_limits :: "u32 \<Rightarrow> NVMeController \<Rightarrow> NVMeController" where
  "nvme_set_limits max_hw_sectors s =
    s\<lparr>k_max_transfer_bytes := (if max_hw_sectors = 0 \<or> max_hw_sectors = 0xFFFFFFFF
        then 8 * 1024 * 1024 else push_bit 9 max_hw_sectors)\<rparr>"

text \<open>The MDTS part of \<open>nvme_init_identify\<close>: combine with an earlier limit and derive the byte cap.\<close>

definition apply_mdts :: "u8 \<Rightarrow> NVMeController \<Rightarrow> NVMeController" where
  "apply_mdts mdts s =
    (let m = (if mdts \<noteq> 0 then nvme_mps_to_sectors s (ucast mdts) else 0xFFFFFFFF);
         hw = (if k_max_hw_sectors s = 0 then m
               else if k_max_hw_sectors s < m then k_max_hw_sectors s else m)
     in nvme_set_limits hw (s\<lparr>k_max_hw_sectors := hw\<rparr>))"

section \<open>Properties of the state machine\<close>

locale transition_system =
  fixes step :: "'s \<Rightarrow> 's \<Rightarrow> bool"
begin

definition trapped :: "('s \<Rightarrow> bool) \<Rightarrow> bool" where
  "trapped A \<longleftrightarrow> (\<forall>x y. A x \<longrightarrow> step x y \<longrightarrow> A y)"

lemma trapped_rtranclp:
  assumes "trapped A" "step\<^sup>*\<^sup>* x y" "A x"
  shows "A y"
  using assms(2,3) by (induction rule: rtranclp_induct) (use assms(1) in \<open>auto simp: trapped_def\<close>)

lemma unreachable:
  assumes "trapped A" "A x" "\<not> A y"
  shows "\<not> step\<^sup>*\<^sup>* x y"
  using trapped_rtranclp [OF assms(1)] assms(2,3) by blast

end

interpretation csm: transition_system ctrl_can_change .

definition ctrl_terminal :: "nvme_ctrl_state \<Rightarrow> bool" where
  "ctrl_terminal st \<longleftrightarrow> st \<in> {NVME_CTRL_DELETING, NVME_CTRL_DELETING_NOIO, NVME_CTRL_DEAD}"

lemma terminal_iff: "nvme_state_terminal s \<longleftrightarrow> ctrl_terminal (k_state s)"
  by (cases "k_state s") (simp_all add: nvme_state_terminal_def ctrl_terminal_def)

lemma terminal_trapped: "csm.trapped ctrl_terminal"
  unfolding csm.trapped_def
proof (intro allI impI)
  fix x y assume "ctrl_terminal x" "ctrl_can_change x y"
  then show "ctrl_terminal y" by (cases x; cases y) (simp_all add: ctrl_terminal_def ctrl_can_change_def)
qed

lemma nonterminal_recovers:
  assumes "\<not> ctrl_terminal st"
  shows "ctrl_can_change\<^sup>*\<^sup>* st NVME_CTRL_LIVE"
proof -
  have c: "ctrl_can_change\<^sup>*\<^sup>* NVME_CTRL_CONNECTING NVME_CTRL_LIVE"
    by (rule r_into_rtranclp) (simp add: ctrl_can_change_def)
  have r: "ctrl_can_change NVME_CTRL_RESETTING NVME_CTRL_CONNECTING" "ctrl_can_change NVME_CTRL_NEW NVME_CTRL_CONNECTING"
    by (simp_all add: ctrl_can_change_def)
  show ?thesis
    using assms c converse_rtranclp_into_rtranclp [OF r(1) c] converse_rtranclp_into_rtranclp [OF r(2) c]
    by (cases st) (simp_all add: ctrl_terminal_def)
qed

inductive ctrl_step :: "NVMeController \<Rightarrow> NVMeController \<Rightarrow> bool" where
  granted: "nvme_change_ctrl_state n s = (True, s') \<Longrightarrow> ctrl_step s s'"

inductive_simps ctrl_step_iff: "ctrl_step s s'"

lemma ctrl_step_state: "ctrl_step s s' \<longleftrightarrow> (\<exists>n. ctrl_can_change (k_state s) n \<and> s' = s\<lparr>k_state := n\<rparr>)"
  by (auto simp: ctrl_step_iff nvme_change_ctrl_state_def split: if_splits)

lemma ctrl_steps_down: "ctrl_step\<^sup>*\<^sup>* a b \<Longrightarrow> ctrl_can_change\<^sup>*\<^sup>* (k_state a) (k_state b)"
proof (induction rule: rtranclp_induct)
  case (step y z)
  then have "ctrl_can_change (k_state y) (k_state z)" by (auto simp: ctrl_step_state)
  with step.IH show ?case by (rule rtranclp.rtrancl_into_rtrancl)
qed simp

lemma ctrl_steps_up: "ctrl_can_change\<^sup>*\<^sup>* (k_state s) b \<Longrightarrow> ctrl_step\<^sup>*\<^sup>* s (s\<lparr>k_state := b\<rparr>)"
proof (induction rule: rtranclp_induct)
  case (step y z)
  then have "ctrl_step (s\<lparr>k_state := y\<rparr>) (s\<lparr>k_state := z\<rparr>)" by (auto simp: ctrl_step_state)
  with step.IH show ?case by (rule rtranclp.rtrancl_into_rtrancl)
qed simp

text \<open>
  C22.  \<open>nvme_state_terminal\<close> names exactly the states from which no sequence of
  granted state changes brings the controller back to LIVE.
\<close>

theorem terminal_iff_never_live:
  "nvme_state_terminal s \<longleftrightarrow> (\<nexists>s'. ctrl_step\<^sup>*\<^sup>* s s' \<and> k_state s' = NVME_CTRL_LIVE)"
proof -
  have live: "\<exists>s'. ctrl_step\<^sup>*\<^sup>* s s' \<and> k_state s' = NVME_CTRL_LIVE" if "\<not> ctrl_terminal (k_state s)"
    using ctrl_steps_up [OF nonterminal_recovers [OF that]] by force
  have "\<not> (ctrl_step\<^sup>*\<^sup>* s s' \<and> k_state s' = NVME_CTRL_LIVE)" if "ctrl_terminal (k_state s)" for s'
    using csm.trapped_rtranclp [OF terminal_trapped _ that, of "k_state s'"] ctrl_steps_down [of s s']
    by (auto simp: ctrl_terminal_def)
  then show ?thesis using live by (auto simp: terminal_iff)
qed

section \<open>Properties of the gates\<close>

lemma bit_set_flag: "n < 32 \<Longrightarrow> bit (snd (test_and_set_flag n w)) m \<longleftrightarrow> m = n \<or> bit w m"
  by (auto simp: test_and_set_flag_def bit_simps)

lemma bit_clear_flag: "bit (snd (test_and_clear_flag n w)) m \<longleftrightarrow> m \<noteq> n \<and> bit w m"
  by (auto simp: test_and_clear_flag_def bit_simps dest: bit_imp_le_length)

lemma clear_clear: "\<not> bit w n \<Longrightarrow> w AND NOT (push_bit n 1) = (w :: u32)"
  by (rule bit_word_eqI) (auto simp: bit_simps)

lemma gate_open_shape:
  "gate_open n task sig s = s\<lparr>k_flags := snd (test_and_clear_flag n (k_flags s)),
     k_trace := k_trace s @ (if bit (k_flags s) n \<and> task then [Ev_signal sig] else [])\<rparr>"
  by (simp add: gate_open_def test_and_clear_flag_def Let_def emit_def)

text \<open>
  Closing a dispatch gate and opening it again restores the flag word
  whenever the gate was open before, touches nothing else, and wakes the task
  behind the gate exactly once; opening an open gate wakes nobody.
\<close>

theorem io_gate_cycle:
  "nvme_unquiesce_io_queues (nvme_quiesce_io_queues s) = s\<lparr>
      k_flags := k_flags s AND NOT (push_bit NVME_CTRL_STOPPED 1),
      k_trace := k_trace s @ (if k_unit_task s then [Ev_signal Sig_msgport] else [])\<rparr> \<and>
   (if bit (k_flags s) NVME_CTRL_STOPPED then bit (k_flags (nvme_quiesce_io_queues s)) NVME_CTRL_STOPPED
    else nvme_unquiesce_io_queues s = s)"
proof -
  have "snd (test_and_clear_flag 2 (snd (test_and_set_flag 2 w))) = w AND NOT (push_bit 2 1)" for w
    by (rule bit_word_eqI) (auto simp: test_and_set_flag_def test_and_clear_flag_def bit_simps)
  moreover note clear_clear [of _ 2]
  ultimately show ?thesis
    by (simp add: nvme_unquiesce_io_queues_def nvme_quiesce_io_queues_def gate_open_shape gate_close_def
        bit_set_flag) (simp add: test_and_clear_flag_def)
qed

section \<open>Properties of the limits\<close>

lemma check_shl_one:
  assumes "e < 2 ^ 32"
  shows "check_shl_overflow 1 (of_nat e) = (if e < 32 then Some (2 ^ e) else None)"
proof (cases "e < 32")
  case True
  have u: "unat (of_nat e :: u32) = e" using assms by (simp add: unat_of_nat)
  have "(32 :: u32) \<le> of_nat e \<longleftrightarrow> False" using True u by (simp add: word_le_nat_alt)
  moreover have "drop_bit (32 - e) (1 :: u32) = 0" if "e \<noteq> 0"
    using that True by (intro bit_word_eqI) (auto simp: bit_simps)
  moreover have "unat (32 - of_nat e :: u32) = 32 - e" using True u by (simp add: unat_sub_le)
  ultimately show ?thesis
    using True u by (auto simp: check_shl_overflow_def push_bit_eq_mult)
next
  case False
  have "unat (of_nat e :: u32) = e" using assms by (simp add: unat_of_nat)
  then have "(32 :: u32) \<le> of_nat e" using False by (simp add: word_le_nat_alt)
  then show ?thesis using False by (simp add: check_shl_overflow_def)
qed


lemma mpsmin_bound: "unat (NVME_CAP_MPSMIN cap) \<le> 15"
proof -
  let ?w = "drop_bit 48 cap AND 0xf :: u64"
  have "?w \<le> 0xf" by (rule word_and_le1)
  then have "unat ?w \<le> 15" by (simp add: word_le_nat_alt)
  moreover have "unat (ucast ?w :: u32) \<le> unat ?w" by (simp only: unat_ucast_mod mod_less_eq_dividend)
  ultimately show ?thesis unfolding NVME_CAP_MPSMIN_def by (rule le_trans [rotated])
qed

lemma unat_ffffffff: "unat (0xFFFFFFFF :: u32) = 0xFFFFFFFF"
  by simp

lemma word_pow_zero: "LENGTH('a) \<le> n \<Longrightarrow> (2 ^ n :: 'a::len word) = 0"
  by (simp add: not_less)

text \<open>
  The first Identify of a controller sets the byte cap of one command to
  \<open>2 ^ MDTS\<close> pages as long as that is below 4 GiB, and to the 8 MiB default when
  the page count overflows 32 bits.  In between the shift to bytes wraps and the
  cap becomes zero, which the dispatchers read as no limit.
\<close>

theorem mdts_limit:
  assumes "k_max_hw_sectors s = 0" "mdts \<noteq> 0"
  defines "e \<equiv> unat (NVME_CAP_MPSMIN (k_cap s)) + unat mdts + 3"
  shows "unat (k_max_transfer_bytes (apply_mdts mdts s)) =
    (if e < 23 then 2 ^ unat mdts * 2 ^ (unat (NVME_CAP_MPSMIN (k_cap s)) + 12)
     else if e < 32 then 0 else 8 * 1024 * 1024)"
proof -
  have "unat mdts < 256" using unat_lt_size [of mdts] by simp
  then have e: "e < 2 ^ 32" using mpsmin_bound [of "k_cap s"] by (simp add: e_def)
  have "ucast mdts + (NVME_CAP_MPSMIN (k_cap s) + 12) - 9 = (of_nat e :: u32)"
    by (simp add: e_def)
  then have m: "nvme_mps_to_sectors s (ucast mdts) = (if e < 32 then 2 ^ e else 0xFFFFFFFF)"
    using check_shl_one [OF e] by (simp add: nvme_mps_to_sectors_def)
  have b: "k_max_transfer_bytes (apply_mdts mdts s) =
      (if e < 32 then push_bit 9 (2 ^ e) else 8 * 1024 * 1024)"
  proof (cases "e < 32")
    case True
    then have "unat (2 ^ e :: u32) = 2 ^ e" by (simp add: unat_pow2)
    moreover have "(2 :: nat) ^ e \<noteq> 0xFFFFFFFF"
    proof
      assume *: "(2 :: nat) ^ e = 0xFFFFFFFF"
      have "e \<noteq> 0" using * by (cases e) auto
      then have "even ((2 :: nat) ^ e)" by simp
      then show False unfolding * by simp
    qed
    ultimately have "(2 ^ e :: u32) \<noteq> 0xFFFFFFFF" by (metis unat_ffffffff)
    then show ?thesis using True assms m by (simp add: apply_mdts_def nvme_set_limits_def Let_def)
  qed (use assms m in \<open>simp add: apply_mdts_def nvme_set_limits_def Let_def\<close>)
  show ?thesis
  proof (cases "e < 32")
    case True
    have p: "push_bit 9 (2 ^ e :: u32) = 2 ^ (e + 9)" by (simp add: push_bit_eq_mult power_add mult.commute)
    show ?thesis
    proof (cases "e < 23")
      case True
      have "unat (2 ^ (e + 9) :: u32) = 2 ^ (e + 9)" by (rule unat_pow2) (use True in simp)
      moreover have "(2 :: nat) ^ (e + 9) = 2 ^ unat mdts * 2 ^ (unat (NVME_CAP_MPSMIN (k_cap s)) + 12)"
        by (simp add: e_def power_add)
      ultimately show ?thesis using True by (simp only: b p) simp
    next
      case False
      then have z: "(2 ^ (e + 9) :: u32) = 0" by (intro word_pow_zero) simp
      have "unat (k_max_transfer_bytes (apply_mdts mdts s)) = 0" using True by (simp only: b p z) simp
      then show ?thesis using True False by simp
    qed
  qed (simp add: b)
qed


theorem mdts_limit_witness:
  "unat (k_max_transfer_bytes (apply_mdts 5 demo_ctrl)) = 131072 \<and>
   unat (k_max_transfer_bytes (apply_mdts 20 demo_ctrl)) = 0"
proof -
  have c: "k_max_hw_sectors demo_ctrl = 0" "NVME_CAP_MPSMIN (k_cap demo_ctrl) = 0"
    by (simp_all add: demo_ctrl_def zero_ctrl_def NVME_CAP_MPSMIN_def)
  show ?thesis
    using mdts_limit [OF c(1), of 5] mdts_limit [OF c(1), of 20] by (simp add: c(2))
qed

end
