(* ===== verification/Nvme_Admin.thy ===== *)
theory Nvme_Admin
  imports Nvme_Ctrl
begin

text \<open>
  The admin command path of src/nvme/nvme_admin.c: request allocation, PRP
  staging, asynchronous and synchronous submission, the abort family and the
  command builders; and the queue bring-up commands of src/nvme/nvme_queue.c.

  A synchronous command is two halves around the \<open>Wait()\<close>: \<open>nvme_submit_sync_begin\<close>
  up to the point where the task parks on its signal, \<open>nvme_submit_sync_end\<close> from
  the wake-up on.
\<close>

section \<open>Requests\<close>

definition nvme_bytes_to_numd :: "u32 \<Rightarrow> u32" where
  "nvme_bytes_to_numd len = drop_bit 2 len - 1"

definition nvme_req_alloc_admin :: "platform \<Rightarrow> NVMeController \<Rightarrow> (errno + nat) \<times> NVMeController" where
  "nvme_req_alloc_admin P s =
    (case req_alloc P Admin_q id s of
       (Inl No_memory, s1) \<Rightarrow> (Inl ENOMEM, s1)
     | (Inl No_tag, s1) \<Rightarrow> (Inl EBUSY, s1)
     | (Inr r, s1) \<Rightarrow> (Inr r, s1))"

definition nvme_init_request :: "nvme_command \<Rightarrow> nvme_request \<Rightarrow> nvme_request" where
  "nvme_init_request cmd q = q\<lparr>r_status := 0, r_retries := 0, r_flags := 0,
     r_cmd := cmd\<lparr>cmd_flags := cmd_flags cmd AND NOT 0xC0\<rparr>\<rparr>"

definition nvme_stage_admin_prps :: "platform \<Rightarrow> nat \<Rightarrow> u32 \<Rightarrow> u32 \<Rightarrow> NVMeController \<Rightarrow> NVMeController" where
  "nvme_stage_admin_prps P r buffer buflen s =
    (if buffer = 0 \<or> buflen = 0 then s
     else let addr = (ucast buffer :: u64);
              first_page_left = prp_first buffer;
              prp2 = (if buflen \<le> first_page_left then 0
                      else p_le64 P ((addr + ucast first_page_left) AND NOT 4095))
          in emit (Ev_flush buffer buflen False)
               (upd_req r (\<lambda>q. q\<lparr>r_cmd := (r_cmd q)\<lparr>cmd_prp1 := p_le64 P addr, cmd_prp2 := prp2\<rparr>\<rparr>) s))"

definition stamp_cid :: "nvme_request \<Rightarrow> nvme_request" where
  "stamp_cid q = q\<lparr>r_cmd := (r_cmd q)\<lparr>cmd_command_id := r_cid q\<rparr>\<rparr>"

section \<open>Submission\<close>

definition nvme_submit_async_cmd ::
    "platform \<Rightarrow> nvme_command \<Rightarrow> u32 \<Rightarrow> u32 \<Rightarrow> done_cb \<Rightarrow> u32 \<Rightarrow> u32 \<Rightarrow> NVMeController \<Rightarrow> errno option \<times> NVMeController" where
  "nvme_submit_async_cmd P cmd buffer buflen done priv req_flags s =
    (case nvme_req_alloc_admin P s of
       (Inl err, s1) \<Rightarrow> (Some err, s1)
     | (Inr r, s1) \<Rightarrow>
        let s2 = upd_req r (\<lambda>q. q\<lparr>r_done := Some done, r_priv := priv\<rparr>) s1;
            s3 = upd_req r (\<lambda>q. stamp_cid (nvme_init_request cmd q)) s2;
            s4 = upd_req r (\<lambda>q. q\<lparr>r_flags := r_flags q OR req_flags\<rparr>) s3;
            s5 = nvme_stage_admin_prps P r buffer buflen s4;
            (e, s6) = nvme_submit_io r s5
        in (if e \<noteq> NVME_IO_ASYNC then Some EIO else None, s6))"

definition nvme_submit_sync_begin ::
    "platform \<Rightarrow> nat \<Rightarrow> nvme_command \<Rightarrow> u32 \<Rightarrow> u32 \<Rightarrow> NVMeController \<Rightarrow> (errno + nat) \<times> NVMeController" where
  "nvme_submit_sync_begin P task cmd buffer buflen s =
    (case nvme_req_alloc_admin P s of
       (Inl err, s1) \<Rightarrow> (Inl err, s1)
     | (Inr r, s1) \<Rightarrow>
        if \<not> p_alloc_signal P then (Inl ENOMEM, nvme_req_destroy r s1)
        else
        let s2 = upd_req r (\<lambda>q. q\<lparr>r_waiter := Some task\<rparr>) s1;
            s3 = upd_req r (\<lambda>q. stamp_cid (nvme_init_request cmd q)) s2;
            s4 = nvme_stage_admin_prps P r buffer buflen s3;
            (e, s5) = nvme_submit_io r s4
        in (if e \<noteq> NVME_IO_ASYNC then Inl EIO else Inr r, s5))"

definition nvme_submit_sync_end :: "nat \<Rightarrow> u32 \<Rightarrow> u32 \<Rightarrow> NVMeController \<Rightarrow> (u16 \<times> u64) \<times> NVMeController" where
  "nvme_submit_sync_end r buffer buflen s =
    (let s1 = (if buffer \<noteq> 0 \<and> buflen \<noteq> 0 then emit (Ev_inval buffer buflen) s else s)
     in ((r_status (rq s1 r), r_result (rq s1 r)), free_req r s1))"

section \<open>Abort\<close>

definition abort_done :: "nat \<Rightarrow> NVMeController \<Rightarrow> NVMeController" where
  "abort_done r s = free_req r s"

definition abort_cmd :: "platform \<Rightarrow> u16 \<Rightarrow> u16 \<Rightarrow> nvme_command" where
  "abort_cmd P sqid cid = zero_cmd\<lparr>cmd_opcode := nvme_admin_abort_cmd,
     cmd_body := Body_abort (p_le16 P sqid) (p_le16 P cid)\<rparr>"

definition nvme_submit_abort_sqe :: "platform \<Rightarrow> u16 \<Rightarrow> u16 \<Rightarrow> NVMeController \<Rightarrow> errno option \<times> NVMeController" where
  "nvme_submit_abort_sqe P sqid cid = nvme_submit_async_cmd P (abort_cmd P sqid cid) 0 0 Done_abort 0 0"

definition nvme_abort_request :: "platform \<Rightarrow> nat \<Rightarrow> NVMeController \<Rightarrow> errno option \<times> NVMeController" where
  "nvme_abort_request P r s =
    nvme_submit_abort_sqe P (q_qid (get_q s (r_q (rq s r)))) (r_cid (rq s r)) s"

definition abort_match :: "NVMeController \<Rightarrow> nat \<Rightarrow> nvme_request \<Rightarrow> bool" where
  "abort_match s target q \<longleftrightarrow> r_io q = Some target \<or>
     (case r_ctx q of Some c \<Rightarrow> x_io (cx s c) = target | None \<Rightarrow> False)"

fun abort_loop :: "platform \<Rightarrow> nat \<Rightarrow> nat list \<Rightarrow> nat \<times> NVMeController \<Rightarrow> nat \<times> NVMeController" where
  "abort_loop P target [] (n, s) = (n, s)"
| "abort_loop P target (tag # tags) (n, s) =
    (case slot (get_q s Io_q) tag of
       None \<Rightarrow> abort_loop P target tags (n, s)
     | Some r \<Rightarrow>
        if \<not> abort_match s target (rq s r) then abort_loop P target tags (n, s)
        else (case nvme_abort_request P r s of
            (None, s') \<Rightarrow> abort_loop P target tags (n + 1, s')
          | (Some _, s') \<Rightarrow> abort_loop P target tags (n, s')))"

definition nvme_io_abort :: "platform \<Rightarrow> nat \<Rightarrow> NVMeController \<Rightarrow> bool \<times> NVMeController" where
  "nvme_io_abort P target s =
    (if q_inflight (get_q s Io_q) = [] then (False, s)
     else let (n, s') = abort_loop P target [0..<q_depth (get_q s Io_q)] (0, s) in (n \<noteq> 0, s'))"

section \<open>Command builders\<close>

definition set_features_cmd :: "platform \<Rightarrow> u32 \<Rightarrow> u32 \<Rightarrow> nvme_command" where
  "set_features_cmd P fid dword11 = zero_cmd\<lparr>cmd_opcode := nvme_admin_set_features,
     cmd_body := Body_features (p_le32 P fid) (p_le32 P dword11)\<rparr>"

definition get_log_cmd :: "platform \<Rightarrow> u32 \<Rightarrow> u8 \<Rightarrow> u8 \<Rightarrow> u8 \<Rightarrow> u32 \<Rightarrow> u64 \<Rightarrow> nvme_command" where
  "get_log_cmd P nsid lid lsp csi size_bytes offset =
    (let dwlen = nvme_bytes_to_numd size_bytes in
     zero_cmd\<lparr>cmd_opcode := nvme_admin_get_log_page, cmd_nsid := p_le32 P nsid,
       cmd_body := Body_get_log lid lsp (p_le16 P (ucast (dwlen AND 0xFFFF))) (p_le16 P (ucast (drop_bit 16 dwlen)))
         (p_le32 P (ucast offset)) (p_le32 P (ucast (drop_bit 32 offset))) csi\<rparr>)"

definition nvme_build_set_num_queues :: "platform \<Rightarrow> nvme_command" where
  "nvme_build_set_num_queues P = set_features_cmd P 7 0"

definition base_addr :: "u32 option \<Rightarrow> u64" where
  "base_addr b = (case b of Some a \<Rightarrow> ucast a | None \<Rightarrow> 0)"

definition nvme_build_create_cq :: "platform \<Rightarrow> NVMeController \<Rightarrow> nvme_command" where
  "nvme_build_create_cq P s = zero_cmd\<lparr>cmd_opcode := nvme_admin_create_cq,
     cmd_prp1 := p_le64 P (base_addr (q_cq_base (k_io_q s))),
     cmd_body := Body_create_cq (p_le16 P 1) (p_le16 P 255) (p_le16 P 3) (p_le16 P 0)\<rparr>"

definition nvme_build_create_sq :: "platform \<Rightarrow> NVMeController \<Rightarrow> nvme_command" where
  "nvme_build_create_sq P s =
    (let prio = (if bit (k_quirks s) NVME_QUIRK_MEDIUM_PRIO_SQ then 4 else 0 :: u16) in
     zero_cmd\<lparr>cmd_opcode := nvme_admin_create_sq,
       cmd_prp1 := p_le64 P (base_addr (q_sq_base (k_io_q s))),
       cmd_body := Body_create_sq (p_le16 P 1) (p_le16 P 255) (p_le16 P (1 OR prio)) (p_le16 P 1)\<rparr>)"

definition nvme_set_io_max_inflight :: "NVMeController \<Rightarrow> NVMeController" where
  "nvme_set_io_max_inflight s = s\<lparr>k_io_max_inflight :=
     (if bit (k_quirks s) NVME_QUIRK_QDEPTH_ONE then 1
      else if 1 < q_depth (k_io_q s) then q_depth (k_io_q s) - 1 else 1)\<rparr>"

text \<open>\<open>nvme_setup_admin_queue\<close>; \<open>cap_hi\<close> is the value read from the high dword of CAP.\<close>

definition nvme_setup_admin_queue :: "platform \<Rightarrow> u32 \<Rightarrow> NVMeController \<Rightarrow> bool \<times> NVMeController" where
  "nvme_setup_admin_queue P cap_hi s =
    (let s1 = s\<lparr>k_db_stride := push_bit (unat (cap_hi AND 0xF)) 4\<rparr>;
         (ok, s2) = nvme_setup_queue P Admin_q 0 NVME_ADMIN_QUEUE_SIZE s1
     in if \<not> ok then (False, s2)
        else let asq = base_addr (q_sq_base (k_admin_q s2)); acq = base_addr (q_cq_base (k_admin_q s2)) in
          (True, emit (Ev_mmio 0x34 (ucast (drop_bit 32 acq))) (emit (Ev_mmio 0x30 (ucast acq))
             (emit (Ev_mmio 0x2C (ucast (drop_bit 32 asq))) (emit (Ev_mmio 0x28 (ucast asq))
               (emit (Ev_mmio 0x24 (push_bit 16 63 OR 63)) s2))))))"


section \<open>Asynchronous submission\<close>

lemma io_frame_alloc_admin [simp]: "io_frame s s' \<Longrightarrow> io_frame s (snd (nvme_req_alloc_admin P s'))"
  using io_frame_req_alloc [of s s' P Admin_q id]
  by (cases "req_alloc P Admin_q id s'")
    (auto simp: nvme_req_alloc_admin_def split: sum.split alloc_failure.split)

lemma io_frame_stage [simp]: "io_frame s s' \<Longrightarrow> io_frame s (nvme_stage_admin_prps P r b n s')"
  by (simp add: nvme_stage_admin_prps_def Let_def)

lemma io_frame_async [simp]:
  assumes "io_frame s s'"
  shows "io_frame s (snd (nvme_submit_async_cmd P cmd b n d priv fl s'))"
proof (cases "nvme_req_alloc_admin P s'")
  case (Pair v s1)
  have "io_frame s s1" using io_frame_alloc_admin [OF assms, of P] Pair by simp
  then show ?thesis using Pair by (cases v) (simp_all add: nvme_submit_async_cmd_def Let_def split_def)
qed

lemma req_frame_stage [simp]: "req_frame r s s' \<Longrightarrow> req_frame r s (nvme_stage_admin_prps P r b n s')"
  by (simp add: nvme_stage_admin_prps_def Let_def req_frame_upd)

lemma alloc_admin_ok:
  assumes "tables_ok s" "req_slab_ok P" "nvme_req_alloc_admin P s = (res, s1)"
  shows "res = Inl e \<Longrightarrow> s1 = s"
    "res = Inr r \<Longrightarrow> k_reqs s r = None \<and> tables_ok s1 \<and> in_slot s1 r \<and>
       sq_contents (get_q s1 Admin_q) = sq_contents (get_q s Admin_q) \<and> get_q s1 Io_q = get_q s Io_q \<and>
       (\<exists>cid. k_reqs s1 = (k_reqs s)(r := Some (zero_req\<lparr>r_q := Admin_q, r_cid := cid\<rparr>)))"
proof -
  obtain v s' where a: "req_alloc P Admin_q id s = (v, s')" by (meson surj_pair)
  note c = req_alloc_cases [OF assms(1,2), of Admin_q id, unfolded a] and ok = req_alloc_ok [OF assms(1,2) a]
  show "res = Inl e \<Longrightarrow> s1 = s"
    using assms(3) a c by (auto simp: nvme_req_alloc_admin_def split: sum.splits alloc_failure.splits)
  assume "res = Inr r"
  then have v: "v = Inr r" "s1 = s'"
    using assms(3) a by (auto simp: nvme_req_alloc_admin_def split: sum.splits alloc_failure.splits)
  obtain cid q' where q: "acquire_cid (get_q s Admin_q) r = Some (cid, q')" and fresh: "k_reqs s r = None"
    and s': "s' = (set_q Admin_q q' s)\<lparr>k_reqs := (k_reqs s)(r := Some (zero_req\<lparr>r_q := Admin_q, r_cid := cid\<rparr>))\<rparr>"
    using c v by auto
  have "get_q s' Io_q = get_q s Io_q" "get_q s' Admin_q = q'" by (simp_all add: s' get_q_set_other)
  then show "k_reqs s r = None \<and> tables_ok s1 \<and> in_slot s1 r \<and>
       sq_contents (get_q s1 Admin_q) = sq_contents (get_q s Admin_q) \<and> get_q s1 Io_q = get_q s Io_q \<and>
       (\<exists>cid. k_reqs s1 = (k_reqs s)(r := Some (zero_req\<lparr>r_q := Admin_q, r_cid := cid\<rparr>)))"
    using fresh ok v claim_ring(3) [OF q] by (auto simp: s')
qed

lemma submit_in_slot:
  assumes "tables_ok s" "in_slot s r" "fst (nvme_submit_io r s) = NVME_IO_ASYNC"
  shows "in_slot (snd (nvme_submit_io r s)) r"
proof -
  obtain q where q: "k_reqs s r = Some q" "slot (get_q s (r_q q)) (cid_tag (r_cid q)) = Some r"
    using assms(2) by (auto simp: in_slot_def)
  then show ?thesis
    using submit_io_accepted(2,3) [OF assms(1,3)] by (simp add: in_slot_def rq_def)
qed

text \<open>The request an accepted asynchronous command leaves behind.\<close>

definition async_req :: "nvme_command \<Rightarrow> done_cb \<Rightarrow> u32 \<Rightarrow> nvme_request \<Rightarrow> bool" where
  "async_req cmd d fl q \<longleftrightarrow> r_done q = Some d \<and> r_io q = None \<and> r_ctx q = None \<and> r_unit q = None \<and>
     r_waiter q = None \<and> r_flags q = fl \<and> r_q q = Admin_q \<and> r_bounce_buf q = None \<and> r_prp_pages q = [] \<and>
     r_status q = 0 \<and> r_retries q = 0 \<and> cmd_command_id (r_cmd q) = r_cid q \<and>
     cmd_opcode (r_cmd q) = cmd_opcode cmd \<and> cmd_body (r_cmd q) = cmd_body cmd"

lemma submit_async_cases:
  assumes ok: "tables_ok s" "req_slab_ok P" and a: "nvme_submit_async_cmd P cmd b n d priv fl s = (e, s')"
  shows "tables_ok s'" "e \<noteq> None \<Longrightarrow> k_reqs s' = k_reqs s"
    "e = None \<Longrightarrow> \<exists>r q. k_reqs s r = None \<and> k_reqs s' = (k_reqs s)(r := Some q) \<and> in_slot s' r \<and>
       async_req cmd d fl q \<and> sq_contents (get_q s' Admin_q) = sq_contents (get_q s Admin_q) @ [r_cmd q]"
proof -
  obtain v s1 where v: "nvme_req_alloc_admin P s = (v, s1)" by (meson surj_pair)
  have "tables_ok s' \<and> (e \<noteq> None \<longrightarrow> k_reqs s' = k_reqs s) \<and> (e = None \<longrightarrow>
     (\<exists>r q. k_reqs s r = None \<and> k_reqs s' = (k_reqs s)(r := Some q) \<and> in_slot s' r \<and> async_req cmd d fl q \<and>
        sq_contents (get_q s' Admin_q) = sq_contents (get_q s Admin_q) @ [r_cmd q]))"
  proof (cases v)
    case (Inl err)
    then show ?thesis using alloc_admin_ok(1) [OF ok v] a v ok by (auto simp: nvme_submit_async_cmd_def)
  next
    case (Inr r)
    note al = alloc_admin_ok(2) [OF ok v Inr]
    then obtain cid where q1: "k_reqs s1 = (k_reqs s)(r := Some (zero_req\<lparr>r_q := Admin_q, r_cid := cid\<rparr>))" by blast
    define s4 where "s4 = upd_req r (\<lambda>q. q\<lparr>r_flags := r_flags q OR fl\<rparr>)
      (upd_req r (\<lambda>q. stamp_cid (nvme_init_request cmd q)) (upd_req r (\<lambda>q. q\<lparr>r_done := Some d, r_priv := priv\<rparr>) s1))"
    define s5 where "s5 = nvme_stage_admin_prps P r b n s4"
    have sub: "(e, s') = (if fst (nvme_submit_io r s5) \<noteq> NVME_IO_ASYNC then Some EIO else None, snd (nvme_submit_io r s5))"
      using a Inr v by (simp add: nvme_submit_async_cmd_def Let_def split_def s4_def s5_def)
    have f: "req_frame r s1 s5"
      unfolding s5_def s4_def
      by (intro req_frame_stage req_frame_upd req_frame_refl) (simp_all add: stamp_cid_def nvme_init_request_def)
    note t5 = req_frame_tables [OF f conjunct1 [OF conjunct2 [OF al]]]
    have ok5: "tables_ok s5" "in_slot s5 r" using t5 al by auto
    have rq5: "async_req cmd d fl (rq s5 r)"
      by (simp add: s5_def s4_def nvme_stage_admin_prps_def Let_def async_req_def stamp_cid_def nvme_init_request_def)
        (simp add: rq_def q1 zero_req_def)
    have reqs5: "k_reqs s5 = (k_reqs s)(r := Some (rq s5 r))"
      using f q1 by (auto simp: req_frame_def rq_def fun_eq_iff)
    have g5: "get_q s5 sel = get_q s1 sel" for sel using f by (simp add: req_frame_def)
    show ?thesis
    proof (cases "fst (nvme_submit_io r s5) = NVME_IO_ASYNC")
      case True
      note sa = submit_io_accepted [OF ok5(1) True]
      have s': "s' = snd (nvme_submit_io r s5)" "e = None" using sub True by auto
      have rq: "r_q (rq s5 r) = Admin_q" using rq5 by (simp add: async_req_def)
      have "k_reqs s' = (k_reqs s)(r := Some ((rq s5 r)\<lparr>r_submit_us := k_clock s5\<rparr>))"
        using sa(3) reqs5 s' by simp
      moreover have "async_req cmd d fl ((rq s5 r)\<lparr>r_submit_us := k_clock s5\<rparr>)" using rq5 by (simp add: async_req_def)
      moreover have "sq_contents (get_q s' Admin_q) = sq_contents (get_q s Admin_q) @ [r_cmd (rq s5 r)]"
        using sa(1) al s' by (simp add: rq g5)
      moreover have "in_slot s' r" using submit_in_slot [OF ok5 True] s' by simp
      ultimately show ?thesis
        using submit_io_ok [OF ok5] s' al
        by (auto intro!: exI [of _ r] exI [of _ "(rq s5 r)\<lparr>r_submit_us := k_clock s5\<rparr>"])
    next
      case False
      then have s': "s' = nvme_req_destroy r s5" "e \<noteq> None" using sub submit_io_cases [of r s5] by auto
      then show ?thesis using destroy_restores [OF ok5 reqs5] al by auto
    qed
  qed
  then show "tables_ok s'" "e \<noteq> None \<Longrightarrow> k_reqs s' = k_reqs s"
    "e = None \<Longrightarrow> \<exists>r q. k_reqs s r = None \<and> k_reqs s' = (k_reqs s)(r := Some q) \<and> in_slot s' r \<and>
       async_req cmd d fl q \<and> sq_contents (get_q s' Admin_q) = sq_contents (get_q s Admin_q) @ [r_cmd q]"
    by auto
qed

text \<open>
  An asynchronous admin command either leaves every request as it was and
  reports an error, or leaves exactly one new request in a slot of the admin queue,
  which carries the callback and the flags, with the command at the end of the
  admin submission queue under the request's own CID.
\<close>

theorem submit_async_contract:
  assumes "tables_ok s" "req_slab_ok P" "nvme_submit_async_cmd P cmd b n d priv fl s = (e, s')"
  shows "tables_ok s' \<and> (case e of
     Some _ \<Rightarrow> k_reqs s' = k_reqs s
   | None \<Rightarrow> \<exists>r q. k_reqs s r = None \<and> k_reqs s' = (k_reqs s)(r := Some q) \<and> in_slot s' r \<and>
       async_req cmd d fl q \<and> sq_contents (get_q s' Admin_q) = sq_contents (get_q s Admin_q) @ [r_cmd q])"
  using submit_async_cases [OF assms] by (auto split: option.split)

theorem submit_async_contract_witness:
  "tables_ok (snd (nvme_submit_async_cmd m68k_platform (nvme_build_set_num_queues m68k_platform) 0 0
     Done_io_setup_features 0 0 demo_ctrl))"
  using submit_async_contract [OF demo_tables_ok m68k_req_slab_ok surjective_pairing] by simp

section \<open>Abort names the wrong command\<close>

text \<open>
  The device reads the command identifier of an entry, and the one an Abort names,
  as little-endian 16-bit values.
\<close>

definition dev_command_id :: "platform \<Rightarrow> nvme_command \<Rightarrow> u16" where
  "dev_command_id P c = p_le16 P (cmd_command_id c)"

fun dev_abort_target :: "platform \<Rightarrow> nvme_command \<Rightarrow> (u16 \<times> u16) option" where
  "dev_abort_target P c = (case cmd_body c of Body_abort sqid cid \<Rightarrow> Some (p_le16 P sqid, p_le16 P cid) | _ \<Rightarrow> None)"

text \<open>
  The Abort for a request names the request's queue, but of its command
  identifiers the device sees the one the command was submitted under only when
  that identifier is its own byte swap.
\<close>

theorem abort_names_target:
  assumes "le_ok P" "cmd_command_id c = cid"
  shows "\<exists>t. dev_abort_target P (abort_cmd P sqid cid) = Some (sqid, t) \<and>
    (t = dev_command_id P c \<longleftrightarrow> p_le16 P cid = cid)"
  using le_okD [OF assms(1)] assms(2) by (auto simp: abort_cmd_def dev_command_id_def)

theorem abort_names_target_witness:
  "\<exists>t. dev_abort_target m68k_platform (abort_cmd m68k_platform 1 5) = Some (1, t) \<and>
    t \<noteq> dev_command_id m68k_platform (zero_cmd\<lparr>cmd_command_id := 5\<rparr>)"
proof -
  have "p_le16 m68k_platform 5 \<noteq> 5"
  proof
    assume "p_le16 m68k_platform 5 = 5"
    then have "bit (byte_swap (5 :: u16)) 0 = bit (5 :: u16) 0" by (simp add: m68k_platform_def)
    then show False unfolding bit_byte_swap by (simp add: byte_mirror_def)
  qed
  then show ?thesis
    using abort_names_target [OF m68k_le_ok, of "zero_cmd\<lparr>cmd_command_id := 5\<rparr>" 5 1] by auto
qed

end
