(* ===== verification/Nvme_Aen.thy ===== *)
theory Nvme_Aen
  imports Nvme_Admin
begin

text \<open>
  The callbacks of asynchronous admin commands: asynchronous events
  (src/nvme/nvme_aen.c), the firmware slot log (src/nvme/nvme_fw.c) and the
  bring-up chain of the I/O queue after a reset (src/nvme/nvme_queue.c,
  src/nvme/nvme_probe.c).  All of them run on the unit task, inside the completion
  drain.  A synchronous admin command issued there parks the very task that would
  have to deliver its completion; \<open>k_unit_waits\<close> then names the request it waits for
  and nothing after the call is executed.
\<close>

section \<open>Asynchronous events\<close>

definition nvme_aer_type :: "u32 \<Rightarrow> u32" where
  "nvme_aer_type result = result AND 7"

definition nvme_aer_subtype :: "u32 \<Rightarrow> u32" where
  "nvme_aer_subtype result = drop_bit 8 (result AND 0xff00)"

definition nvme_handle_aen_notice :: "u32 \<Rightarrow> NVMeController \<Rightarrow> bool \<times> NVMeController" where
  "nvme_handle_aen_notice result s =
    (let t = nvme_aer_subtype result in
     if t = 0 then (True, nvme_queue_scan (s\<lparr>k_events := k_events s OR 1\<rparr>))
     else if t = 1 then
       (case nvme_change_ctrl_state NVME_CTRL_RESETTING s of
          (True, s1) \<Rightarrow> (False, nvme_queue_fw_act_work s1)
        | (False, s1) \<Rightarrow> (True, s1))
     else if t = 0xf0 then (True, s\<lparr>k_aen_result := result\<rparr>)
     else (True, s))"

definition nvme_complete_async_event :: "platform \<Rightarrow> u16 \<Rightarrow> u64 \<Rightarrow> NVMeController \<Rightarrow> NVMeController" where
  "nvme_complete_async_event P status res s =
    (let result = p_le32 P (ucast res); t = nvme_aer_type result in
     if drop_bit 1 (p_le16 P status) \<noteq> NVME_SC_SUCCESS then s
     else if t = 2 then snd (nvme_handle_aen_notice result s)
     else if t = 0 \<and> nvme_aer_subtype result = 3 then snd (nvme_reset_ctrl s)
     else if t \<in> {0, 1, 6, 7} then s\<lparr>k_aen_result := result\<rparr>
     else s)"

definition aer_cmd :: nvme_command where
  "aer_cmd = zero_cmd\<lparr>cmd_opcode := nvme_admin_async_event\<rparr>"

definition nvme_submit_aer :: "platform \<Rightarrow> NVMeController \<Rightarrow> NVMeController" where
  "nvme_submit_aer P s = snd (nvme_submit_async_cmd P aer_cmd 0 0 Done_aer 0 NVME_REQ_AER s)"

definition aer_done :: "platform \<Rightarrow> nat \<Rightarrow> NVMeController \<Rightarrow> NVMeController" where
  "aer_done P r s =
    (let status = push_bit 1 (r_status (rq s r));
         s1 = nvme_complete_async_event P status (r_result (rq s r)) s
     in nvme_submit_aer P (free_req r s1))"

section \<open>Firmware slot log\<close>

definition fw_slot_info_done :: "nat \<Rightarrow> NVMeController \<Rightarrow> NVMeController" where
  "fw_slot_info_done r s =
    (let q = rq s r; log = r_priv q;
         s1 = (if r_status q \<noteq> 0 \<or> log = 0 then s
               else let s0 = emit (Ev_inval log 512) s;
                        afi = k_mem s log; cur = afi AND 7; nxt = drop_bit 4 (afi AND 0x70)
                    in if cur = 0 \<or> (nxt \<noteq> 0 \<and> cur \<noteq> nxt) then s0
                       else s0\<lparr>k_firmware := map (\<lambda>i. k_mem s (log + 8 + 8 * (ucast cur - 1) + of_nat i)) [0..<8]\<rparr>);
         s2 = (if log \<noteq> 0 then dma_free log s1 else s1)
     in free_req r s2)"

definition nvme_get_fw_slot_info :: "platform \<Rightarrow> NVMeController \<Rightarrow> NVMeController" where
  "nvme_get_fw_slot_info P s =
    (case dma_zalloc P 64 512 s of None \<Rightarrow> s
     | Some (log, s1) \<Rightarrow>
       (case nvme_submit_async_cmd P (get_log_cmd P 0xFFFFFFFF 3 0 0 512 0) log 512 Done_fw_slot_info log 0 s1 of
          (None, s2) \<Rightarrow> s2
        | (Some _, s2) \<Rightarrow> dma_free log s2))"

section \<open>Start and end of a reset\<close>

abbreviation (input) NVME_AEN_SUPPORTED :: u32 where "NVME_AEN_SUPPORTED \<equiv> 0x80000B00"
abbreviation (input) UNIT_TASK :: nat where "UNIT_TASK \<equiv> 0"

text \<open>Set Features (Async Event Configuration) up to the \<open>Wait()\<close>: the request waited for, if any.\<close>

definition nvme_enable_aen :: "platform \<Rightarrow> nat \<Rightarrow> NVMeController \<Rightarrow> nat option \<times> NVMeController" where
  "nvme_enable_aen P task s =
    (let supported = NVME_AEN_SUPPORTED AND k_oaes s in
     if supported = 0 then (None, s)
     else case nvme_submit_sync_begin P task (set_features_cmd P 0xb supported) 0 0 s of
        (Inl _, s1) \<Rightarrow> (None, s1)
      | (Inr r, s1) \<Rightarrow> (Some r, s1))"

definition nvme_start_ctrl :: "platform \<Rightarrow> NVMeController \<Rightarrow> NVMeController" where
  "nvme_start_ctrl P s =
    (case nvme_enable_aen P UNIT_TASK s of
       (Some r, s1) \<Rightarrow> s1\<lparr>k_unit_waits := Some r\<rparr>
     | (None, s1) \<Rightarrow> nvme_unquiesce_io_queues (nvme_submit_aer P s1))"

definition nvme_reset_finish :: "platform \<Rightarrow> bool \<Rightarrow> NVMeController \<Rightarrow> NVMeController" where
  "nvme_reset_finish P ok s =
    (if \<not> ok
     then snd (nvme_change_ctrl_state NVME_CTRL_DEAD (snd (nvme_change_ctrl_state NVME_CTRL_DELETING s)))
     else let s1 = snd (nvme_change_ctrl_state NVME_CTRL_LIVE (snd (nvme_change_ctrl_state NVME_CTRL_CONNECTING s)));
              s2 = nvme_start_ctrl P s1
          in if k_unit_waits s2 \<noteq> None then s2 else nvme_queue_scan s2)"

definition nvme_io_setup_async_sq :: "platform \<Rightarrow> nat \<Rightarrow> NVMeController \<Rightarrow> NVMeController" where
  "nvme_io_setup_async_sq P r s =
    (let status = r_status (rq s r); s1 = free_req r s in
     if status \<noteq> 0 then nvme_reset_finish P False (nvme_teardown_queue Io_q s1)
     else nvme_reset_finish P True (nvme_set_io_max_inflight s1))"

definition nvme_io_setup_async_cq :: "platform \<Rightarrow> nat \<Rightarrow> NVMeController \<Rightarrow> NVMeController" where
  "nvme_io_setup_async_cq P r s =
    (let status = r_status (rq s r); s1 = free_req r s in
     if status \<noteq> 0 then nvme_reset_finish P False (nvme_teardown_queue Io_q s1)
     else case nvme_submit_async_cmd P (nvme_build_create_sq P s1) 0 0 Done_io_setup_sq 0 0 s1 of
        (None, s2) \<Rightarrow> s2
      | (Some _, s2) \<Rightarrow> nvme_reset_finish P False (nvme_teardown_queue Io_q s2))"

definition nvme_io_setup_async_features :: "platform \<Rightarrow> nat \<Rightarrow> NVMeController \<Rightarrow> NVMeController" where
  "nvme_io_setup_async_features P r s =
    (let status = r_status (rq s r); s1 = free_req r s in
     if status \<noteq> 0 then nvme_reset_finish P False s1
     else case nvme_setup_queue P Io_q 1 NVME_IO_QUEUE_SIZE s1 of
        (False, s2) \<Rightarrow> nvme_reset_finish P False s2
      | (True, s2) \<Rightarrow>
         (case nvme_submit_async_cmd P (nvme_build_create_cq P s2) 0 0 Done_io_setup_cq 0 0 s2 of
            (None, s3) \<Rightarrow> s3
          | (Some _, s3) \<Rightarrow> nvme_reset_finish P False (nvme_teardown_queue Io_q s3)))"

definition nvme_reset_rebuild_io_async :: "platform \<Rightarrow> NVMeController \<Rightarrow> NVMeController" where
  "nvme_reset_rebuild_io_async P s =
    (case nvme_submit_async_cmd P (nvme_build_set_num_queues P) 0 0 Done_io_setup_features 0 0 s of
       (None, s1) \<Rightarrow> s1
     | (Some _, s1) \<Rightarrow> nvme_reset_finish P False s1)"

text \<open>The dispatch through \<open>req->done\<close>.\<close>

definition run_done :: "platform \<Rightarrow> done_cb \<Rightarrow> nat \<Rightarrow> NVMeController \<Rightarrow> NVMeController" where
  "run_done P d r s = (case d of
      Done_abort \<Rightarrow> abort_done r s
    | Done_aer \<Rightarrow> aer_done P r s
    | Done_io_setup_features \<Rightarrow> nvme_io_setup_async_features P r s
    | Done_io_setup_cq \<Rightarrow> nvme_io_setup_async_cq P r s
    | Done_io_setup_sq \<Rightarrow> nvme_io_setup_async_sq P r s
    | Done_fw_slot_info \<Rightarrow> fw_slot_info_done r s)"


section \<open>The tables across a callback\<close>

text \<open>A request that no slot refers to: its completion has been taken off the queue.\<close>

definition idle_req :: "NVMeController \<Rightarrow> nat \<Rightarrow> bool" where
  "idle_req s r \<longleftrightarrow> (\<forall>sel tag. slot (get_q s sel) tag \<noteq> Some r)"

lemma idle_req_cong: "(\<And>sel. get_q s' sel = get_q s sel) \<Longrightarrow> idle_req s' r = idle_req s r"
  by (simp add: idle_req_def)

lemma free_req_tables:
  assumes "tables_ok s" "idle_req s r"
  shows "tables_ok (free_req r s)"
  using assms unfolding tables_ok_def idle_req_def by (auto simp: free_req_def)

lemma tables_ok_replace:
  assumes "tables_ok s" "k_reqs s' = k_reqs s" "\<And>sel'. sel' \<noteq> sel \<Longrightarrow> get_q s' sel' = get_q s sel'"
    and "queue_ok (get_q s' sel)" "q_sq_base (get_q s' sel) \<noteq> None \<Longrightarrow> ring_ok (get_q s' sel)"
    and "slot (get_q s' sel) = (\<lambda>_. None)"
  shows "tables_ok s'"
  unfolding tables_ok_def
proof (intro allI)
  fix sel'
  show "queue_ok (get_q s' sel') \<and> (q_sq_base (get_q s' sel') \<noteq> None \<longrightarrow> ring_ok (get_q s' sel')) \<and>
     (\<forall>tag r. slot (get_q s' sel') tag = Some r \<longrightarrow>
        (\<exists>q. k_reqs s' r = Some q \<and> r_q q = sel' \<and> cid_tag (r_cid q) = tag))"
    using assms(2-6) tables_okD [OF assms(1), of sel'] by (cases "sel' = sel") auto
qed

lemma zero_queue_ok: "queue_ok zero_queue" "slot zero_queue = (\<lambda>_. None)" "q_sq_base zero_queue = None"
  by (auto simp: queue_ok_def zero_queue_def slot_def occupied_def)

lemma teardown_frame:
  "k_reqs (nvme_teardown_queue sel s) = k_reqs s" "get_q (nvme_teardown_queue sel s) sel = zero_queue"
  "sel' \<noteq> sel \<Longrightarrow> get_q (nvme_teardown_queue sel s) sel' = get_q s sel'"
  "k_state (nvme_teardown_queue sel s) = k_state s" "k_flags (nvme_teardown_queue sel s) = k_flags s"
  "k_trace (nvme_teardown_queue sel s) = k_trace s" "k_ctxs (nvme_teardown_queue sel s) = k_ctxs s"
  "k_ios (nvme_teardown_queue sel s) = k_ios s"
  by (cases sel; cases sel'; simp add: nvme_teardown_queue_def Let_def set_q_def get_q_def upd_q_def dma_free_def
      pool_free_def split: option.split)+

definition setup_frame :: "queue_sel \<Rightarrow> NVMeController \<Rightarrow> NVMeController \<Rightarrow> bool" where
  "setup_frame sel s s' \<longleftrightarrow> k_reqs s' = k_reqs s \<and> (\<forall>sel'. sel' \<noteq> sel \<longrightarrow> get_q s' sel' = get_q s sel') \<and>
     k_state s' = k_state s \<and> k_flags s' = k_flags s \<and> k_ctxs s' = k_ctxs s \<and> k_ios s' = k_ios s"

lemma setup_frame_refl: "setup_frame sel s s"
  by (simp add: setup_frame_def)

lemma setup_frame_step:
  assumes "setup_frame sel s s'"
  shows "setup_frame sel s (emit e s')" "setup_frame sel s (dma_free a s')" "setup_frame sel s (pool_free n s')"
    "setup_frame sel s (set_q sel q s')"
    "dma_zalloc P al n s' = Some (b, s2) \<Longrightarrow> setup_frame sel s s2" "pool_zalloc P n s' = Some s3 \<Longrightarrow> setup_frame sel s s3"
proof -
  show "setup_frame sel s (emit e s')" "setup_frame sel s (dma_free a s')" "setup_frame sel s (pool_free n s')"
    using assms by (simp_all add: setup_frame_def dma_free_def pool_free_def)
  show "setup_frame sel s (set_q sel q s')"
    using assms by (cases sel) (auto simp: setup_frame_def set_q_def upd_q_def get_q_def split: queue_sel.splits)
  show "dma_zalloc P al n s' = Some (b, s2) \<Longrightarrow> setup_frame sel s s2" "pool_zalloc P n s' = Some s3 \<Longrightarrow> setup_frame sel s s3"
    using assms by (auto simp: setup_frame_def dma_zalloc_def dma_alloc_def pool_zalloc_def split: option.splits if_splits)
qed

lemma setup_queue_setup_frame:
  assumes "nvme_setup_queue P sel qid depth s = (ok, s')"
  shows "setup_frame sel s s'"
proof -
  have "setup_frame sel s (snd (nvme_setup_queue P sel qid depth s))"
    unfolding nvme_setup_queue_def Let_def
    by (auto split: option.split simp: setup_frame_refl setup_frame_step(1-4))
      ((rule setup_frame_step(1-4) | rule setup_frame_refl | erule setup_frame_step(5,6) [rotated])+)
  then show ?thesis using assms by simp
qed

lemma setup_queue_frame:
  assumes "nvme_setup_queue P sel qid depth s = (ok, s')"
  shows "k_reqs s' = k_reqs s" "sel' \<noteq> sel \<Longrightarrow> get_q s' sel' = get_q s sel'" "k_state s' = k_state s"
    "k_flags s' = k_flags s" "k_ctxs s' = k_ctxs s" "k_ios s' = k_ios s" "\<not> ok \<Longrightarrow> get_q s' sel = zero_queue"
proof -
  show "k_reqs s' = k_reqs s" "sel' \<noteq> sel \<Longrightarrow> get_q s' sel' = get_q s sel'" "k_state s' = k_state s"
    "k_flags s' = k_flags s" "k_ctxs s' = k_ctxs s" "k_ios s' = k_ios s"
    using setup_queue_setup_frame [OF assms] by (simp_all add: setup_frame_def)
  show "\<not> ok \<Longrightarrow> get_q s' sel = zero_queue"
    using assms by (auto simp: nvme_setup_queue_def Let_def split: option.splits)
qed

lemma teardown_tables [simp]: "tables_ok s \<Longrightarrow> tables_ok (nvme_teardown_queue sel s)"
  by (rule tables_ok_replace [where sel = sel]) (simp_all add: teardown_frame zero_queue_ok)

lemma setup_queue_tables:
  assumes "tables_ok s" "nvme_setup_queue P sel qid depth s = (ok, s')" "2 \<le> depth" "depth \<le> 256"
  shows "tables_ok s'"
proof (cases ok)
  case True
  then have "nvme_setup_queue P sel qid depth s = (True, s')" using assms(2) by simp
  note so = setup_queue_ok [OF this assms(3,4)]
  show ?thesis
    by (rule tables_ok_replace [OF assms(1), where sel = sel])
      (use so setup_queue_frame [OF assms(2)] in simp_all)
next
  case False
  show ?thesis
    by (rule tables_ok_replace [OF assms(1), where sel = sel])
      (use False setup_queue_frame [OF assms(2)] zero_queue_ok in simp_all)
qed

lemma async_tables [simp]:
  assumes "req_slab_ok P" "tables_ok s"
  shows "tables_ok (snd (nvme_submit_async_cmd P cmd b n d priv fl s))"
  by (rule submit_async_cases(1) [OF assms(2,1) surjective_pairing])

lemma change_state_tables [simp]: "tables_ok (snd (nvme_change_ctrl_state n s)) = tables_ok s"
  by (auto simp: nvme_change_ctrl_state_def intro: tables_ok_same)

lemma emit_tables [simp]: "tables_ok (emit e s) = tables_ok s"
  by (auto intro: tables_ok_same)

lemma field_tables [simp]:
  "tables_ok (s\<lparr>k_events := v\<rparr>) = tables_ok s" "tables_ok (s\<lparr>k_aen_result := v\<rparr>) = tables_ok s"
  "tables_ok (s\<lparr>k_flags := w\<rparr>) = tables_ok s" "tables_ok (s\<lparr>k_io_max_inflight := n\<rparr>) = tables_ok s"
  "tables_ok (dma_free a s) = tables_ok s"
  by (auto intro: tables_ok_same simp: dma_free_def)

lemma firmware_tables [simp]:
  "tables_ok (s\<lparr>k_firmware := f\<rparr>) = tables_ok s" "tables_ok (s\<lparr>k_unit_waits := u\<rparr>) = tables_ok s"
  "idle_req (s\<lparr>k_firmware := f\<rparr>) r = idle_req s r"
proof -
  have g: "get_q (s\<lparr>k_firmware := f\<rparr>) sel = get_q s sel" "get_q (s\<lparr>k_unit_waits := u\<rparr>) sel = get_q s sel" for sel
    by (cases sel; simp add: get_q_def)+
  show "tables_ok (s\<lparr>k_firmware := f\<rparr>) = tables_ok s" "tables_ok (s\<lparr>k_unit_waits := u\<rparr>) = tables_ok s"
    "idle_req (s\<lparr>k_firmware := f\<rparr>) r = idle_req s r"
    by (auto intro: tables_ok_same simp: g idle_req_def)
qed

lemma gate_tables [simp]: "tables_ok (gate_open n t sig s) = tables_ok s"
  by (auto intro: tables_ok_same simp: gate_open_shape)

lemma submit_aer_tables [simp]: "req_slab_ok P \<Longrightarrow> tables_ok s \<Longrightarrow> tables_ok (nvme_submit_aer P s)"
  by (simp add: nvme_submit_aer_def)

lemma sync_begin_cases:
  assumes ok: "tables_ok s" "req_slab_ok P" and a: "nvme_submit_sync_begin P task cmd b n s = (v, s')"
  shows "tables_ok s'" "v = Inl e \<Longrightarrow> k_reqs s' = k_reqs s"
    "v = Inr r \<Longrightarrow> in_slot s' r \<and> k_reqs s r = None \<and> r_waiter (rq s' r) = Some task \<and> r_q (rq s' r) = Admin_q"
proof -
  obtain w s1 where w: "nvme_req_alloc_admin P s = (w, s1)" by (meson surj_pair)
  have "tables_ok s' \<and> (\<forall>e. v = Inl e \<longrightarrow> k_reqs s' = k_reqs s) \<and> (\<forall>r. v = Inr r \<longrightarrow>
     in_slot s' r \<and> k_reqs s r = None \<and> r_waiter (rq s' r) = Some task \<and> r_q (rq s' r) = Admin_q)"
  proof (cases w)
    case (Inl err)
    then show ?thesis using alloc_admin_ok(1) [OF ok w] a w ok by (auto simp: nvme_submit_sync_begin_def)
  next
    case (Inr r)
    note al = alloc_admin_ok(2) [OF ok w Inr]
    then obtain cid where q1: "k_reqs s1 = (k_reqs s)(r := Some (zero_req\<lparr>r_q := Admin_q, r_cid := cid\<rparr>))" by blast
    show ?thesis
    proof (cases "p_alloc_signal P")
      case False
      then show ?thesis
        using a w Inr destroy_restores [of s1 r s, OF _ _ q1] al by (auto simp: nvme_submit_sync_begin_def)
    next
      case True
      define s4 where "s4 = nvme_stage_admin_prps P r b n (upd_req r (\<lambda>q. stamp_cid (nvme_init_request cmd q))
        (upd_req r (\<lambda>q. q\<lparr>r_waiter := Some task\<rparr>) s1))"
      have sub: "v = (if fst (nvme_submit_io r s4) \<noteq> NVME_IO_ASYNC then Inl EIO else Inr r)" "s' = snd (nvme_submit_io r s4)"
        using a Inr w True by (auto simp: nvme_submit_sync_begin_def Let_def split_def s4_def)
      have f: "req_frame r s1 s4"
        unfolding s4_def
        by (intro req_frame_stage req_frame_upd req_frame_refl) (simp_all add: stamp_cid_def nvme_init_request_def)
      have ok4: "tables_ok s4" "in_slot s4 r" using req_frame_tables [OF f] al by auto
      have wait: "r_waiter (rq s4 r) = Some task"
        by (simp add: s4_def nvme_stage_admin_prps_def Let_def stamp_cid_def nvme_init_request_def)
      have admin: "r_q (rq s4 r) = Admin_q" using f by (simp add: req_frame_def) (simp add: rq_def q1)
      have reqs4: "k_reqs s4 = (k_reqs s)(r := Some (rq s4 r))"
        using f q1 by (auto simp: req_frame_def rq_def fun_eq_iff)
      show ?thesis
      proof (cases "fst (nvme_submit_io r s4) = NVME_IO_ASYNC")
        case True
        have "rq s' r = (rq s4 r)\<lparr>r_submit_us := k_clock s4\<rparr>"
          using submit_io_accepted(3) [OF ok4(1) True] sub(2) by (simp add: rq_def)
        then show ?thesis
          using True sub al submit_io_ok [OF ok4] submit_in_slot [OF ok4 True] wait admin by auto
      next
        case False
        then have "s' = nvme_req_destroy r s4" using sub submit_io_cases [of r s4] by auto
        then show ?thesis using destroy_restores [OF ok4 reqs4] al sub(1) False by auto
      qed
    qed
  qed
  then show "tables_ok s'" "v = Inl e \<Longrightarrow> k_reqs s' = k_reqs s"
    "v = Inr r \<Longrightarrow> in_slot s' r \<and> k_reqs s r = None \<and> r_waiter (rq s' r) = Some task \<and> r_q (rq s' r) = Admin_q"
    by auto
qed

lemma start_ctrl_tables [simp]:
  assumes "req_slab_ok P" "tables_ok s"
  shows "tables_ok (nvme_start_ctrl P s)"
proof -
  obtain v s1 where v: "nvme_submit_sync_begin P UNIT_TASK (set_features_cmd P 0xb (NVME_AEN_SUPPORTED AND k_oaes s)) 0 0 s
      = (v, s1)" by (meson surj_pair)
  have "tables_ok s1" by (rule sync_begin_cases(1) [OF assms(2,1) v])
  then show ?thesis
    using assms v by (cases v) (simp_all add: nvme_start_ctrl_def nvme_enable_aen_def Let_def nvme_unquiesce_io_queues_def)
qed

lemma reset_finish_tables [simp]: "req_slab_ok P \<Longrightarrow> tables_ok s \<Longrightarrow> tables_ok (nvme_reset_finish P ok s)"
  by (simp add: nvme_reset_finish_def Let_def nvme_queue_scan_def)

lemma complete_async_event_tables [simp]: "tables_ok (nvme_complete_async_event P st res s) = tables_ok s"
  by (auto simp: nvme_complete_async_event_def nvme_handle_aen_notice_def Let_def nvme_queue_scan_def
      nvme_reset_ctrl_def nvme_change_ctrl_state_def nvme_queue_fw_act_work_def intro: tables_ok_same)

lemma get_q_async_event [simp]: "get_q (nvme_complete_async_event P st res s) sel = get_q s sel"
  by (auto simp: nvme_complete_async_event_def nvme_handle_aen_notice_def Let_def nvme_queue_scan_def
      nvme_reset_ctrl_def nvme_change_ctrl_state_def nvme_queue_fw_act_work_def)

lemma run_done_tables:
  assumes "req_slab_ok P" "tables_ok s" "idle_req s r"
  shows "tables_ok (run_done P d r s)"
proof (cases d)
  case Done_abort
  then show ?thesis using free_req_tables [OF assms(2,3)] by (simp add: run_done_def abort_done_def)
next
  case Done_aer
  let ?s1 = "nvme_complete_async_event P (push_bit 1 (r_status (rq s r))) (r_result (rq s r)) s"
  have "tables_ok (free_req r ?s1)"
    by (rule free_req_tables) (use assms in \<open>simp_all add: idle_req_def\<close>)
  then show ?thesis using Done_aer assms(1) by (simp add: run_done_def aer_done_def Let_def)
next
  case Done_io_setup_features
  let ?s1 = "free_req r s"
  have 1: "tables_ok ?s1" by (rule free_req_tables [OF assms(2,3)])
  obtain ok s2 where q: "nvme_setup_queue P Io_q 1 NVME_IO_QUEUE_SIZE ?s1 = (ok, s2)" by (meson surj_pair)
  have "tables_ok s2" by (rule setup_queue_tables [OF 1 q]) simp_all
  then show ?thesis
    using 1 q assms(1) async_tables [OF assms(1), of s2 "nvme_build_create_cq P s2" 0 0 Done_io_setup_cq 0 0]
    by (cases ok; cases "nvme_submit_async_cmd P (nvme_build_create_cq P s2) 0 0 Done_io_setup_cq 0 0 s2")
      (auto simp: Done_io_setup_features run_done_def nvme_io_setup_async_features_def Let_def split: option.splits)
next
  case Done_io_setup_cq
  let ?s1 = "free_req r s"
  have 1: "tables_ok ?s1" by (rule free_req_tables [OF assms(2,3)])
  show ?thesis
    using 1 assms(1) async_tables [OF assms(1) 1, of "nvme_build_create_sq P ?s1" 0 0 Done_io_setup_sq 0 0]
    by (cases "nvme_submit_async_cmd P (nvme_build_create_sq P ?s1) 0 0 Done_io_setup_sq 0 0 ?s1")
      (auto simp: Done_io_setup_cq run_done_def nvme_io_setup_async_cq_def Let_def split: option.splits)
next
  case Done_io_setup_sq
  then show ?thesis
    using free_req_tables [OF assms(2,3)] assms(1)
    by (simp add: run_done_def nvme_io_setup_async_sq_def Let_def nvme_set_io_max_inflight_def)
next
  case Done_fw_slot_info
  have i: "idle_req (emit e s) r = idle_req s r" "idle_req (dma_free a s') r = idle_req s' r" for e a s'
    by (simp_all add: idle_req_def)
  show ?thesis
    unfolding Done_fw_slot_info run_done_def fw_slot_info_done_def Let_def done_cb.case
    by (rule free_req_tables) (use assms i in simp_all)
qed


section \<open>What the end of a reset does\<close>

lemma change_state_True: "ctrl_can_change (k_state s) n \<Longrightarrow> nvme_change_ctrl_state n s = (True, s\<lparr>k_state := n\<rparr>)"
  by (simp add: nvme_change_ctrl_state_def)

lemma reset_finish_failed:
  assumes "k_state s = NVME_CTRL_RESETTING"
  shows "nvme_reset_finish P False s = s\<lparr>k_state := NVME_CTRL_DEAD\<rparr>"
  using assms by (simp add: nvme_reset_finish_def change_state_True ctrl_can_change_def)

lemma reset_finish_live:
  assumes "k_state s = NVME_CTRL_RESETTING"
  shows "nvme_reset_finish P True s = (let s2 = nvme_start_ctrl P (s\<lparr>k_state := NVME_CTRL_LIVE\<rparr>)
      in if k_unit_waits s2 \<noteq> None then s2 else nvme_queue_scan s2)"
  using assms by (simp add: nvme_reset_finish_def change_state_True ctrl_can_change_def)

lemma sync_begin_frame: "io_frame s (snd (nvme_submit_sync_begin P task cmd b n s))"
proof (cases "nvme_req_alloc_admin P s")
  case (Pair v s1)
  have "io_frame s s1" using io_frame_alloc_admin [OF io_frame_refl, of s P] Pair by simp
  then show ?thesis using Pair by (cases v) (simp_all add: nvme_submit_sync_begin_def Let_def split_def)
qed

text \<open>
  When the controller reports any event class the driver supports, a
  successful reset ends with the unit task parked on its own Set Features
  command: the request is outstanding on the admin queue, the unit task is its
  waiter, and the dispatch gate that the reset closed is never opened.
\<close>

theorem reset_finish_parks_unit_task:
  assumes "tables_ok s" "req_slab_ok P" "k_state s = NVME_CTRL_RESETTING"
    and "NVME_AEN_SUPPORTED AND k_oaes s \<noteq> 0"
    and "nvme_submit_sync_begin P UNIT_TASK (set_features_cmd P 0xb (NVME_AEN_SUPPORTED AND k_oaes s)) 0 0
           (s\<lparr>k_state := NVME_CTRL_LIVE\<rparr>) = (Inr r, s1)"
  defines "s' \<equiv> nvme_reset_finish P True s"
  shows "k_unit_waits s' = Some r \<and> r_waiter (rq s' r) = Some UNIT_TASK \<and> in_slot s' r \<and>
    r_q (rq s' r) = Admin_q \<and> k_flags s' = k_flags s \<and> k_state s' = NVME_CTRL_LIVE"
proof -
  let ?l = "s\<lparr>k_state := NVME_CTRL_LIVE\<rparr>"
  have l: "tables_ok ?l" by (rule tables_ok_same [OF assms(1)]) simp_all
  have "nvme_enable_aen P UNIT_TASK ?l = (Some r, s1)"
    using assms(4,5) by (simp add: nvme_enable_aen_def Let_def)
  then have s': "s' = s1\<lparr>k_unit_waits := Some r\<rparr>"
    unfolding s'_def reset_finish_live [OF assms(3)] Let_def nvme_start_ctrl_def by simp
  note c = sync_begin_cases(3) [OF l assms(2,5) refl]
  have "io_frame ?l s1" using sync_begin_frame [of ?l P UNIT_TASK] assms(5) by (metis prod.sel(2))
  note f = io_frameD [OF this]
  have g: "get_q s' sel = get_q s1 sel" for sel by (cases sel) (simp_all add: s' get_q_def)
  have "rq s' r = rq s1 r" "k_reqs s' = k_reqs s1" by (simp_all add: s' rq_def)
  then show ?thesis using c f by (simp add: in_slot_def g) (simp add: s')
qed

theorem reset_finish_parks_unit_task_witness:
  "\<exists>r. k_unit_waits (nvme_reset_finish m68k_platform True
      (demo_ctrl\<lparr>k_state := NVME_CTRL_RESETTING, k_oaes := 0x100, k_flags := 4\<rparr>)) = Some r"
proof -
  let ?s = "demo_ctrl\<lparr>k_state := NVME_CTRL_RESETTING, k_oaes := 0x100, k_flags := 4\<rparr>"
  have ok: "tables_ok ?s"
    by (rule tables_ok_same [OF demo_tables_ok]) (simp_all add: get_q_def split: queue_sel.split)
  let ?c = "set_features_cmd m68k_platform 0xb (NVME_AEN_SUPPORTED AND k_oaes ?s)"
  obtain v s1 where v: "nvme_submit_sync_begin m68k_platform UNIT_TASK ?c 0 0 (?s\<lparr>k_state := NVME_CTRL_LIVE\<rparr>) = (v, s1)"
    by (meson surj_pair)
  have "\<exists>r. v = Inr r"
    using v by (auto simp: nvme_submit_sync_begin_def nvme_req_alloc_admin_def req_alloc_def Let_def m68k_platform_def
      demo_ctrl_def zero_ctrl_def get_q_def nvme_alloc_cid_def demo_queue_def zero_queue_def free_stack_init_def
      upt_rec nvme_inflight_claim_def set_q_def upd_q_def upd_req_def rq_def nvme_submit_io_def sq_push_def
      nvme_stage_admin_prps_def stamp_cid_def nvme_init_request_def zero_req_def split: if_splits prod.splits)
  then obtain r where r: "v = Inr r" by blast
  have a: "NVME_AEN_SUPPORTED AND k_oaes ?s \<noteq> 0" "k_state ?s = NVME_CTRL_RESETTING" by simp_all
  show ?thesis
    using reset_finish_parks_unit_task [OF ok m68k_req_slab_ok a(2,1) v [unfolded r]] by blast
qed

end
