(* ===== verification/Nvme_Completion.thy ===== *)
theory Nvme_Completion
  imports Nvme_Aen
begin

text \<open>
  The per-request state machine of src/nvme/nvme_completion.c: status mapping,
  disposition, retry and delivery, with \<open>nvme_resubmit_io\<close> and
  \<open>nvme_fail_nonready_command\<close> of src/nvme/nvme_io.c and the cancel walkers of
  src/nvme/nvme_queue.c, which close the recursion.
\<close>

section \<open>Status and disposition\<close>

definition nvme_error_status :: "u16 \<Rightarrow> io_error" where
  "nvme_error_status status =
    (let sc = status AND NVME_SCT_SC_MASK in
     if sc = NVME_SC_SUCCESS then IOERR_NO_ERROR
     else if sc = NVME_SC_INVALID_NS then TDERR_BadUnitNum
     else if sc = NVME_SC_CAP_EXCEEDED \<or> sc = NVME_SC_LBA_RANGE then IOERR_BADADDRESS
     else TDERR_NotSpecified)"

datatype nvme_disposition = COMPLETE | RETRY

definition nvme_decide_disposition :: "nvme_request \<Rightarrow> nvme_disposition" where
  "nvme_decide_disposition q =
    (if r_status q = 0 then COMPLETE
     else if nvme_req_noretry q \<or> r_status q AND NVME_STATUS_DNR \<noteq> 0 \<or> NVME_MAX_RETRIES \<le> r_retries q
     then COMPLETE
     else if r_status q AND NVME_SCT_MASK = NVME_SCT_GENERIC \<and> r_status q AND NVME_SC_MASK \<noteq> 0
     then COMPLETE
     else RETRY)"

section \<open>Delivery\<close>

definition nvme_end_req :: "platform \<Rightarrow> nat \<Rightarrow> NVMeController \<Rightarrow> NVMeController" where
  "nvme_end_req P r s =
    (let q = rq s r; error = nvme_error_status (r_status q) in
     case r_done q of
       Some d \<Rightarrow> run_done P d r s
     | None \<Rightarrow>
       (case r_waiter q of
          Some w \<Rightarrow> emit (Ev_signal (Sig_wait w)) s
        | None \<Rightarrow>
          (case r_io q of
             Some io \<Rightarrow> emit (Ev_reply io) (upd_io io (\<lambda>x. x\<lparr>
               io_Actual := (if error = IOERR_NO_ERROR then io_Length x else io_Actual x),
               io_Error := error\<rparr>) s)
           | None \<Rightarrow> s)))"

text \<open>
  What \<open>nvme_complete_rq\<close> reads of the request after the delivery: a callback has
  freed it by then, and a freed slab object keeps its contents until it is
  handed out again.
\<close>

definition stale_rq :: "nvme_request \<Rightarrow> nat \<Rightarrow> NVMeController \<Rightarrow> nvme_request" where
  "stale_rq q r s = (case k_reqs s r of Some q' \<Rightarrow> q' | None \<Rightarrow> q)"

definition complete_sibling :: "platform \<Rightarrow> nat \<Rightarrow> nat \<Rightarrow> NVMeController \<Rightarrow> NVMeController" where
  "complete_sibling P r c s =
    (let q = rq s r;
         s1 = (if r_status q \<noteq> 0 \<and> x_first_error (cx s c) = IOERR_NO_ERROR
               then upd_ctx c (\<lambda>x. x\<lparr>x_first_error := nvme_error_status (r_status q)\<rparr>) s else s);
         s2 = upd_ctx c (\<lambda>x. x\<lparr>x_completed := x_completed x + r_user_len q, x_inflight := x_inflight x - 1\<rparr>) s1;
         s3 = free_req r s2;
         s4 = (if x_dispatched (cx s3 c) < x_total_bytes (cx s3 c) \<and> x_first_error (cx s3 c) = IOERR_NO_ERROR
               then snd (nvme_io_context_pump P c s3) else s3)
     in if x_inflight (cx s4 c) = 0 \<and> \<not> x_stalled (cx s4 c) then nvme_io_context_finish c s4 else s4)"

definition complete_now :: "platform \<Rightarrow> nat \<Rightarrow> NVMeController \<Rightarrow> NVMeController" where
  "complete_now P r s =
    (let s1 = nvme_cleanup_cmd r s; q = rq s1 r in
     case r_ctx q of
       Some c \<Rightarrow> complete_sibling P r c s1
     | None \<Rightarrow>
        let s2 = nvme_end_req P r s1; q2 = stale_rq q r s2 in
        if k_unit_waits s2 \<noteq> None then s2
        else if r_done q2 \<noteq> None \<or> r_waiter q2 \<noteq> None then s2
        else if r_io q2 \<noteq> None then free_req r s2
        else s2)"

section \<open>Retry\<close>

definition retry_crd :: "nvme_request \<Rightarrow> nat" where
  "retry_crd q = unat (drop_bit 11 (r_status q AND NVME_STATUS_CRD))"

definition retry_mark :: "nvme_request \<Rightarrow> nvme_request" where
  "retry_mark q = q\<lparr>r_status := 0, r_retries := r_retries q + 1\<rparr>"

definition retry_park :: "nat \<Rightarrow> nat \<Rightarrow> NVMeController \<Rightarrow> NVMeController" where
  "retry_park crd r s =
    (let delay_ms = ucast (k_crdt s ! (crd - 1)) * 100 in
     (upd_req r (\<lambda>q. q\<lparr>r_deadline_us := k_clock s + delay_ms * 1000\<rparr>) s)\<lparr>k_retry_list := k_retry_list s @ [r]\<rparr>)"

definition reclaim :: "nat \<Rightarrow> u16 \<Rightarrow> nvme_queue \<Rightarrow> NVMeController \<Rightarrow> NVMeController" where
  "reclaim r cid q1 s =
    (let sel = r_q (rq s r); s1 = upd_req r (\<lambda>q. q\<lparr>r_cid := cid\<rparr>) s;
         s2 = set_q sel (nvme_inflight_claim q1 cid r) s1
     in upd_req r stamp_cid s2)"

text \<open>
  \<open>nvme_complete_rq\<close> with \<open>nvme_retry_req\<close> and \<open>nvme_resubmit_io\<close> in place: when no
  tag is left the resubmission completes the request again, with the retry counter
  one higher.
\<close>

function nvme_complete_rq :: "platform \<Rightarrow> nat \<Rightarrow> NVMeController \<Rightarrow> NVMeController" where
  "nvme_complete_rq P r s =
    (if nvme_decide_disposition (rq s r) = COMPLETE then complete_now P r s
     else let crd = retry_crd (rq s r); s1 = upd_req r retry_mark s in
       if crd \<noteq> 0 then retry_park crd r s1
       else case nvme_alloc_cid (get_q s1 (r_q (rq s1 r))) of (cid, q1) \<Rightarrow>
         if cid = 0xFFFF
         then nvme_complete_rq P r (upd_req r (\<lambda>q. q\<lparr>r_status := NVME_SC_HOST_PATH_ERROR\<rparr>) s1)
         else snd (nvme_submit_io r (reclaim r cid q1 s1)))"
  by pat_completeness auto
termination
  by (relation "measure (\<lambda>(P, r, s). NVME_MAX_RETRIES - r_retries (rq s r))")
    (auto simp: nvme_decide_disposition_def retry_mark_def split: if_splits)

declare nvme_complete_rq.simps [simp del]

definition nvme_resubmit_io :: "platform \<Rightarrow> nat \<Rightarrow> NVMeController \<Rightarrow> io_error \<times> NVMeController" where
  "nvme_resubmit_io P r s =
    (case nvme_alloc_cid (get_q s (r_q (rq s r))) of (cid, q1) \<Rightarrow>
       if cid = 0xFFFF
       then (NVME_IO_ASYNC, nvme_complete_rq P r (upd_req r (\<lambda>q. q\<lparr>r_status := NVME_SC_HOST_PATH_ERROR\<rparr>) s))
       else nvme_submit_io r (reclaim r cid q1 s))"

definition nvme_retry_req :: "platform \<Rightarrow> nat \<Rightarrow> NVMeController \<Rightarrow> NVMeController" where
  "nvme_retry_req P r s =
    (let crd = retry_crd (rq s r); s1 = upd_req r retry_mark s in
     if crd \<noteq> 0 then retry_park crd r s1 else snd (nvme_resubmit_io P r s1))"

lemma complete_rq_unfold:
  "nvme_complete_rq P r s = (case nvme_decide_disposition (rq s r) of
     COMPLETE \<Rightarrow> complete_now P r s | RETRY \<Rightarrow> nvme_retry_req P r s)"
  by (subst nvme_complete_rq.simps)
    (simp add: nvme_retry_req_def nvme_resubmit_io_def Let_def split: nvme_disposition.split prod.split)

section \<open>Rejection and cancellation\<close>

definition nvme_fail_nonready_command :: "platform \<Rightarrow> nat \<Rightarrow> NVMeController \<Rightarrow> io_error \<times> NVMeController" where
  "nvme_fail_nonready_command P r s =
    (let terminal = nvme_state_terminal s; noretry = nvme_req_noretry (rq s r);
         s1 = upd_req r (\<lambda>q. q\<lparr>r_status := 0, r_retries := 0, r_flags := 0\<rparr>) s
     in if \<not> terminal \<and> \<not> noretry then (IOERR_UNITBUSY, nvme_req_destroy r s1)
        else (NVME_IO_ASYNC, nvme_complete_rq P r (upd_req r (\<lambda>q. q\<lparr>r_status := NVME_SC_HOST_PATH_ERROR\<rparr>) s1)))"

definition nvme_cancel_request :: "platform \<Rightarrow> nat \<Rightarrow> NVMeController \<Rightarrow> NVMeController" where
  "nvme_cancel_request P r s = nvme_complete_rq P r
     (upd_req r (\<lambda>q. q\<lparr>r_status := NVME_SC_HOST_ABORTED_CMD, r_flags := r_flags q OR NVME_REQ_CANCELLED\<rparr>) s)"

fun flush_loop :: "platform \<Rightarrow> queue_sel \<Rightarrow> nat list \<Rightarrow> NVMeController \<Rightarrow> NVMeController" where
  "flush_loop P sel [] s = s"
| "flush_loop P sel (i # is) s =
    (if k_unit_waits s \<noteq> None then s
     else case slot (get_q s sel) i of
       None \<Rightarrow> flush_loop P sel is s
     | Some r \<Rightarrow> flush_loop P sel is
         (nvme_cancel_request P r (upd_q sel (\<lambda>q. nvme_inflight_release q (r_cid (rq s r))) s)))"

definition nvme_flush_queue_inflight :: "platform \<Rightarrow> queue_sel \<Rightarrow> NVMeController \<Rightarrow> NVMeController" where
  "nvme_flush_queue_inflight P sel s =
    (if q_inflight (get_q s sel) = [] then s else flush_loop P sel [0..<q_depth (get_q s sel)] s)"


section \<open>Tables across a completion\<close>

lemma idle_upd_req [simp]: "idle_req (upd_req r' f s) r = idle_req s r"
  by (simp add: idle_req_def)

lemma upd_req_tables_idle:
  assumes "tables_ok s" "idle_req s r"
  shows "tables_ok (upd_req r f s)"
  using assms unfolding tables_ok_def idle_req_def by (auto simp: rq_def)

lemma acquire_cid_alloc:
  assumes "queue_ok q" "nvme_alloc_cid q = (cid, q1)" "cid \<noteq> 0xFFFF"
  shows "acquire_cid q r = Some (cid, nvme_inflight_claim q1 cid r)"
  using assms by (simp add: acquire_cid_def)

lemma reclaim_ok:
  assumes ok: "tables_ok s" "idle_req s r"
    and a: "nvme_alloc_cid (get_q s (r_q (rq s r))) = (cid, q1)" "cid \<noteq> 0xFFFF"
  shows "tables_ok (reclaim r cid q1 s)" "in_slot (reclaim r cid q1 s) r"
    "sq_contents (get_q (reclaim r cid q1 s) sel) = sq_contents (get_q s sel)"
    "rq (reclaim r cid q1 s) r = stamp_cid ((rq s r)\<lparr>r_cid := cid\<rparr>)"
    "\<And>r'. r' \<noteq> r \<Longrightarrow> k_reqs (reclaim r cid q1 s) r' = k_reqs s r'"
proof -
  let ?sel = "r_q (rq s r)" and ?s' = "reclaim r cid q1 s" and ?q = "nvme_inflight_claim q1 cid r"
  have aq: "acquire_cid (get_q s ?sel) r = Some (cid, ?q)"
    by (rule acquire_cid_alloc [OF tables_okD(1) [OF ok(1)] a])
  note ac = acquire_cid_ok [OF tables_okD(1) [OF ok(1)] aq] and ring = claim_ring [OF aq]
  have g: "get_q ?s' sel' = (if sel' = ?sel then ?q else get_q s sel')" for sel'
    by (cases "sel' = ?sel") (simp_all add: reclaim_def Let_def get_q_set_other)
  show rq': "rq ?s' r = stamp_cid ((rq s r)\<lparr>r_cid := cid\<rparr>)" by (simp add: reclaim_def Let_def)
  have live: "k_reqs ?s' r = Some (stamp_cid ((rq s r)\<lparr>r_cid := cid\<rparr>))"
    by (simp add: reclaim_def Let_def)
  show others: "\<And>r'. r' \<noteq> r \<Longrightarrow> k_reqs ?s' r' = k_reqs s r'" by (simp add: reclaim_def Let_def)
  show "sq_contents (get_q ?s' sel) = sq_contents (get_q s sel)" using ring(3) by (simp add: g)
  show "in_slot ?s' r" using ac(3) by (simp add: in_slot_def live g stamp_cid_def)
  show "tables_ok ?s'"
    unfolding tables_ok_def
  proof (intro allI conjI impI)
    fix sel'
    show "queue_ok (get_q ?s' sel')" using ac(1) tables_okD(1) [OF ok(1)] by (simp add: g)
    show "q_sq_base (get_q ?s' sel') \<noteq> None \<Longrightarrow> ring_ok (get_q ?s' sel')"
      using ring tables_okD(2) [OF ok(1)] by (auto simp: g split: if_splits)
    fix tag r'
    assume sl: "slot (get_q ?s' sel') tag = Some r'"
    have "slot (get_q ?s' sel') = (if sel' = ?sel then (slot (get_q s ?sel))(cid_tag cid := Some r) else slot (get_q s sel'))"
      by (cases "sel' = ?sel") (simp_all only: g ac(3) if_True if_False simp_thms)
    with sl consider "sel' = ?sel" "tag = cid_tag cid" "r' = r" | "slot (get_q s sel') tag = Some r'"
      by (cases "sel' = ?sel"; cases "tag = cid_tag cid") simp_all
    then show "\<exists>q. k_reqs ?s' r' = Some q \<and> r_q q = sel' \<and> cid_tag (r_cid q) = tag"
    proof cases
      case 1
      then show ?thesis by (simp add: live stamp_cid_def)
    next
      case 2
      then have "r' \<noteq> r" using ok(2) by (auto simp: idle_req_def)
      then show ?thesis using tables_okD(3) [OF ok(1) 2] others by auto
    qed
  qed
qed

lemma pump_tables:
  assumes "tables_ok s" "req_slab_ok P" "k_ctxs s c \<noteq> None"
  shows "tables_ok (snd (nvme_io_context_pump P c s)) \<and> k_ctxs (snd (nvme_io_context_pump P c s)) c \<noteq> None"
  using assms
proof (induction P c s rule: nvme_io_context_pump.induct)
  case (1 P c s)
  show ?case
  proof (cases "pump_once P c s")
    case (Pump_stop e s')
    then show ?thesis using pump_once_stop [OF 1(2-4) Pump_stop] 1(2-4)
      by (subst (1 2) nvme_io_context_pump.simps) (auto simp: pump_stopped_def)
  next
    case (Pump_more s')
    have "x_inflight (cx s' c) \<noteq> 0" using pump_once_more_ctx(1) [OF Pump_more] by simp
    then have "k_ctxs s' c \<noteq> None" by (cases "k_ctxs s' c") (auto simp: cx_def zero_ctx_def)
    then show ?thesis
      using 1(1) [OF _ Pump_more pump_once_more(1) [OF 1(2,3) Pump_more]] 1(2-4) Pump_more
      by (subst (1 2) nvme_io_context_pump.simps) auto
  qed
qed

lemma cleanup_get_q [simp]: "get_q (nvme_cleanup_cmd r s) sel = get_q s sel"
proof -
  have "get_q (nvme_req_free_dma_buffers r s') sel = get_q s' sel" for s'
    by (simp add: nvme_req_free_dma_buffers_def Let_def free_prp_pages_def fold_dma_free split: option.split)
  moreover have "get_q (read_back q s') sel = get_q s' sel" for q s'
    by (simp add: read_back_def split: option.split)
  ultimately show ?thesis by (simp add: nvme_cleanup_cmd_def)
qed

lemma cleanup_tables:
  assumes "tables_ok s" "idle_req s r" "k_reqs s r = Some q"
  shows "tables_ok (nvme_cleanup_cmd r s)" "idle_req (nvme_cleanup_cmd r s) r"
proof -
  have "k_reqs (nvme_cleanup_cmd r s) = (k_reqs s)(r := Some (scrubbed q))"
    by (simp add: cleanup_cmd_shape [OF assms(3)])
  then have "k_reqs (nvme_cleanup_cmd r s) = k_reqs (upd_req r (\<lambda>_. scrubbed q) s)" by simp
  moreover have "tables_ok (upd_req r (\<lambda>_. scrubbed q) s)" by (rule upd_req_tables_idle [OF assms(1,2)])
  ultimately show "tables_ok (nvme_cleanup_cmd r s)" by (auto intro: tables_ok_same)
  show "idle_req (nvme_cleanup_cmd r s) r" using assms(2) by (simp add: idle_req_def)
qed

lemma finish_tables [simp]: "tables_ok (nvme_io_context_finish c s) = tables_ok s"
proof -
  have "k_reqs (nvme_io_context_finish c s) = k_reqs s \<and> get_q (nvme_io_context_finish c s) sel = get_q s sel" for sel
    by (simp add: nvme_io_context_finish_def Let_def free_ctx_def upd_io_def)
  then show ?thesis by (auto intro: tables_ok_same)
qed

lemma sibling_tables:
  assumes "tables_ok s" "idle_req s r" "req_slab_ok P"
  shows "tables_ok (complete_sibling P r c s)"
proof -
  let ?s1 = "if r_status (rq s r) \<noteq> 0 \<and> x_first_error (cx s c) = IOERR_NO_ERROR
     then upd_ctx c (\<lambda>x. x\<lparr>x_first_error := nvme_error_status (r_status (rq s r))\<rparr>) s else s"
  let ?s3 = "free_req r (upd_ctx c (\<lambda>x. x\<lparr>x_completed := x_completed x + r_user_len (rq s r),
     x_inflight := x_inflight x - 1\<rparr>) ?s1)"
  have "tables_ok ?s3"
    by (rule free_req_tables) (use assms in \<open>simp_all add: idle_req_def\<close>)
  moreover have "k_ctxs ?s3 c \<noteq> None" by (simp add: free_req_def)
  ultimately show ?thesis
    using pump_tables [of ?s3 P c] assms(3) unfolding complete_sibling_def Let_def by simp
qed

text \<open>After a callback the request is gone, or its storage belongs to a new admin command.\<close>

definition admin_owned :: "NVMeController \<Rightarrow> nat \<Rightarrow> bool" where
  "admin_owned s r \<longleftrightarrow> (\<forall>q. k_reqs s r = Some q \<longrightarrow> r_done q \<noteq> None \<or> r_waiter q \<noteq> None)"

lemma admin_owned_async:
  assumes "tables_ok s" "req_slab_ok P" "admin_owned s r"
  shows "admin_owned (snd (nvme_submit_async_cmd P cmd b n d priv fl s)) r"
proof -
  note c = submit_async_cases [OF assms(1,2) surjective_pairing, of cmd b n d priv fl]
  show ?thesis
    using c(2,3) assms(3) unfolding admin_owned_def async_req_def
    by (cases "fst (nvme_submit_async_cmd P cmd b n d priv fl s)") (auto split: if_splits)
qed


lemma admin_owned_cong: "k_reqs s' = k_reqs s \<Longrightarrow> admin_owned s' r = admin_owned s r"
  by (simp add: admin_owned_def)

lemma admin_owned_free [simp]: "admin_owned (free_req r s) r"
  by (simp add: admin_owned_def)

lemma change_state_reqs [simp]: "k_reqs (snd (nvme_change_ctrl_state n s)) = k_reqs s"
  by (simp add: nvme_change_ctrl_state_def)

lemma sync_begin_others:
  assumes "tables_ok s" "req_slab_ok P" "nvme_submit_sync_begin P task cmd b n s = (Inr r, s')" "r' \<noteq> r"
  shows "k_reqs s' r' = k_reqs s r'"
proof -
  obtain w s1 where w: "nvme_req_alloc_admin P s = (w, s1)" by (meson surj_pair)
  then obtain w: "nvme_req_alloc_admin P s = (Inr r, s1)" and sig: "p_alloc_signal P"
    using assms(3) by (cases w) (auto simp: nvme_submit_sync_begin_def Let_def split_def split: if_splits)
  define s4 where "s4 = nvme_stage_admin_prps P r b n (upd_req r (\<lambda>q. stamp_cid (nvme_init_request cmd q))
    (upd_req r (\<lambda>q. q\<lparr>r_waiter := Some task\<rparr>) s1))"
  have f: "req_frame r s1 s4"
    unfolding s4_def
    by (intro req_frame_stage req_frame_upd req_frame_refl) (simp_all add: stamp_cid_def nvme_init_request_def)
  note al = alloc_admin_ok(2) [OF assms(1,2) w refl]
  have t4: "tables_ok s4" using req_frame_tables [OF f] al by auto
  have "fst (nvme_submit_io r s4) = NVME_IO_ASYNC" "s' = snd (nvme_submit_io r s4)"
    using assms(3) w sig by (auto simp: nvme_submit_sync_begin_def Let_def split_def s4_def split: if_splits)
  then have "k_reqs s' r' = k_reqs s4 r'" using submit_io_accepted(3) [OF t4] assms(4) by simp
  then show ?thesis using f al assms(4) by (auto simp: req_frame_def)
qed

lemma admin_owned_reset_finish:
  assumes "tables_ok s" "req_slab_ok P" "admin_owned s r"
  shows "admin_owned (nvme_reset_finish P ok s) r"
proof -
  define s1 where "s1 = snd (nvme_change_ctrl_state NVME_CTRL_LIVE (snd (nvme_change_ctrl_state NVME_CTRL_CONNECTING s)))"
  have 1: "tables_ok s1" "admin_owned s1 r" using assms by (simp_all add: s1_def admin_owned_def)
  obtain v s2 where v: "nvme_submit_sync_begin P UNIT_TASK (set_features_cmd P 0xb (NVME_AEN_SUPPORTED AND k_oaes s1)) 0 0 s1
      = (v, s2)" by (meson surj_pair)
  note c = sync_begin_cases [OF 1(1) assms(2) v]
  have start: "admin_owned (nvme_start_ctrl P s1) r"
  proof (cases "NVME_AEN_SUPPORTED AND k_oaes s1 = 0")
    case True
    then show ?thesis
      using admin_owned_async [OF 1(1) assms(2) 1(2), of aer_cmd 0 0 Done_aer 0 NVME_REQ_AER]
      by (simp add: nvme_start_ctrl_def nvme_enable_aen_def nvme_unquiesce_io_queues_def gate_open_shape
          nvme_submit_aer_def admin_owned_def)
  next
    case False
    show ?thesis
    proof (cases v)
      case (Inl e)
      then have "admin_owned s2 r" using c(2) 1(2) by (simp add: admin_owned_def)
      then show ?thesis
        using False v Inl admin_owned_async [OF c(1) assms(2), of r aer_cmd 0 0 Done_aer 0 NVME_REQ_AER]
        by (simp add: nvme_start_ctrl_def nvme_enable_aen_def nvme_unquiesce_io_queues_def gate_open_shape
            nvme_submit_aer_def admin_owned_def)
    next
      case (Inr r')
      have "admin_owned s2 r"
        unfolding admin_owned_def
      proof (intro allI impI)
        fix q assume q: "k_reqs s2 r = Some q"
        show "r_done q \<noteq> None \<or> r_waiter q \<noteq> None"
        proof (cases "r = r'")
          case True
          then show ?thesis using c(3) [OF Inr] q by (simp add: rq_def)
        next
          case False
          then have "k_reqs s1 r = Some q" using sync_begin_others [OF 1(1) assms(2) v [unfolded Inr] False] q by simp
          then show ?thesis using 1(2) by (simp add: admin_owned_def)
        qed
      qed
      then show ?thesis using False v Inr by (simp add: nvme_start_ctrl_def nvme_enable_aen_def admin_owned_def)
    qed
  qed
  show ?thesis
    using start assms(3)
    by (simp add: nvme_reset_finish_def Let_def nvme_queue_scan_def admin_owned_def flip: s1_def)
qed


lemma admin_owned_run_done:
  assumes "tables_ok s" "req_slab_ok P" "idle_req s r"
  shows "admin_owned (run_done P d r s) r"
proof -
  have free: "tables_ok (free_req r s)" by (rule free_req_tables [OF assms(1,3)])
  have teardown: "admin_owned (nvme_reset_finish P False (nvme_teardown_queue Io_q s')) r"
    if "tables_ok s'" "admin_owned s' r" for s'
    by (rule admin_owned_reset_finish [OF _ assms(2)]) (use that in \<open>simp_all add: admin_owned_def teardown_frame\<close>)
  have step: "admin_owned (case nvme_submit_async_cmd P cmd 0 0 d' 0 0 s' of (None, s2) \<Rightarrow> s2
      | (Some _, s2) \<Rightarrow> nvme_reset_finish P False (nvme_teardown_queue Io_q s2)) r"
    if "tables_ok s'" "admin_owned s' r" for cmd d' s'
    using admin_owned_async [OF that(1) assms(2) that(2), of cmd 0 0 d' 0 0] async_tables [OF assms(2) that(1), of cmd 0 0 d' 0 0]
    by (cases "nvme_submit_async_cmd P cmd 0 0 d' 0 0 s'") (auto simp: teardown split: option.split)
  show ?thesis
  proof (cases d)
    case Done_io_setup_features
    obtain ok s2 where q: "nvme_setup_queue P Io_q 1 NVME_IO_QUEUE_SIZE (free_req r s) = (ok, s2)" by (meson surj_pair)
    have 2: "tables_ok s2" by (rule setup_queue_tables [OF free q]) simp_all
    have 3: "admin_owned s2 r" using setup_queue_frame(1) [OF q] by (simp add: admin_owned_def)
    show ?thesis
      using step [OF 2 3] admin_owned_reset_finish [OF 2 assms(2) 3] admin_owned_reset_finish [OF free assms(2)] q
      by (simp add: Done_io_setup_features run_done_def nvme_io_setup_async_features_def Let_def split: bool.split)
  next
    case Done_io_setup_cq
    then show ?thesis
      using step [OF free] teardown [OF free] by (simp add: run_done_def nvme_io_setup_async_cq_def Let_def)
  next
    case Done_io_setup_sq
    have "tables_ok (nvme_set_io_max_inflight (free_req r s))" "admin_owned (nvme_set_io_max_inflight (free_req r s)) r"
      using free by (simp_all add: nvme_set_io_max_inflight_def admin_owned_def)
    then show ?thesis
      using Done_io_setup_sq teardown [OF free] admin_owned_reset_finish [OF _ assms(2)]
      by (simp add: run_done_def nvme_io_setup_async_sq_def Let_def)
  next
    case Done_aer
    let ?s1 = "nvme_complete_async_event P (push_bit 1 (r_status (rq s r))) (r_result (rq s r)) s"
    have "tables_ok (free_req r ?s1)"
      by (rule free_req_tables) (use assms in \<open>simp_all add: idle_req_def\<close>)
    then show ?thesis
      using Done_aer admin_owned_async [OF _ assms(2), of "free_req r ?s1" r]
      by (simp add: run_done_def aer_done_def Let_def nvme_submit_aer_def)
  qed (simp_all add: run_done_def abort_done_def fw_slot_info_done_def Let_def)
qed

lemma end_req_tables:
  assumes "tables_ok s" "req_slab_ok P" "idle_req s r" "k_reqs s r = Some q"
  shows "tables_ok (nvme_end_req P r s)"
    "r_done q \<noteq> None \<Longrightarrow> admin_owned (nvme_end_req P r s) r"
    "r_done q = None \<Longrightarrow> idle_req (nvme_end_req P r s) r \<and> k_reqs (nvme_end_req P r s) = k_reqs s"
proof -
  have u: "tables_ok (upd_io i f s)" for i f by (rule tables_ok_same [OF assms(1)]) (simp_all add: upd_io_def)
  show "tables_ok (nvme_end_req P r s)"
    using run_done_tables [OF assms(2,1,3)] assms(1) u
    by (simp add: nvme_end_req_def Let_def split: option.split)
  show "r_done q \<noteq> None \<Longrightarrow> admin_owned (nvme_end_req P r s) r"
    using admin_owned_run_done [OF assms(1-3)] assms(4) by (auto simp: nvme_end_req_def Let_def rq_def)
  show "r_done q = None \<Longrightarrow> idle_req (nvme_end_req P r s) r \<and> k_reqs (nvme_end_req P r s) = k_reqs s"
    using assms(3,4)
    by (auto simp: nvme_end_req_def Let_def rq_def idle_req_def upd_io_def split: option.split)
qed

lemma scrubbed_fields [simp]:
  "r_done (scrubbed q) = r_done q" "r_waiter (scrubbed q) = r_waiter q" "r_io (scrubbed q) = r_io q"
  "r_ctx (scrubbed q) = r_ctx q" "r_status (scrubbed q) = r_status q" "r_user_len (scrubbed q) = r_user_len q"
  "r_q (scrubbed q) = r_q q" "r_cid (scrubbed q) = r_cid q" "r_retries (scrubbed q) = r_retries q"
  by (simp_all add: scrubbed_def)

lemma complete_now_tables:
  assumes "tables_ok s" "req_slab_ok P" "idle_req s r" "k_reqs s r = Some q"
  shows "tables_ok (complete_now P r s)"
proof -
  let ?s1 = "nvme_cleanup_cmd r s"
  note c = cleanup_tables [OF assms(1,3,4)]
  have r1: "k_reqs ?s1 r = Some (scrubbed q)" by (simp add: cleanup_cmd_shape [OF assms(4)])
  note e = end_req_tables [OF c(1) assms(2) c(2) r1]
  let ?s2 = "nvme_end_req P r ?s1"
  have rq1: "rq ?s1 r = scrubbed q" using r1 by (simp add: rq_def)
  show ?thesis
  proof (cases "r_ctx q")
    case (Some x)
    then show ?thesis using sibling_tables [OF c assms(2)] by (simp add: complete_now_def Let_def rq1)
  next
    case None
    have "tables_ok (free_req r ?s2)" if "r_done (stale_rq (scrubbed q) r ?s2) = None"
        "r_waiter (stale_rq (scrubbed q) r ?s2) = None"
    proof (cases "r_done q")
      case None
      then show ?thesis using e(3) free_req_tables [OF e(1)] by simp
    next
      case (Some d)
      then have False
        using e(2) that by (cases "k_reqs ?s2 r") (auto simp: admin_owned_def stale_rq_def)
      then show ?thesis ..
    qed
    then show ?thesis using None e(1) by (simp add: complete_now_def Let_def rq1)
  qed
qed

lemma complete_rq_tables:
  assumes "tables_ok s" "req_slab_ok P" "idle_req s r" "k_reqs s r \<noteq> None"
  shows "tables_ok (nvme_complete_rq P r s)"
  using assms
proof (induction P r s rule: nvme_complete_rq.induct)
  case (1 P r s)
  let ?s1 = "upd_req r retry_mark s"
  have t1: "tables_ok ?s1" "idle_req ?s1 r" using upd_req_tables_idle [OF 1(2,4)] 1(4) by simp_all
  obtain cid q1 where a: "nvme_alloc_cid (get_q ?s1 (r_q (rq ?s1 r))) = (cid, q1)" by (meson surj_pair)
  have park: "tables_ok (retry_park n r ?s1)" for n
    unfolding retry_park_def Let_def
    by (rule tables_ok_same [OF upd_req_tables_idle [OF t1]]) simp_all
  have sub: "tables_ok (snd (nvme_submit_io r (reclaim r cid q1 ?s1)))" if "cid \<noteq> 0xFFFF"
    using submit_io_ok [OF reclaim_ok(1,2) [OF t1 a that]] .
  have again: "tables_ok (nvme_complete_rq P r (upd_req r (\<lambda>q. q\<lparr>r_status := NVME_SC_HOST_PATH_ERROR\<rparr>) ?s1))"
    if "nvme_decide_disposition (rq s r) \<noteq> COMPLETE" "retry_crd (rq s r) = 0" "cid = 0xFFFF"
    by (rule 1(1) [OF that(1) refl refl _ a [symmetric] that(3) upd_req_tables_idle [OF t1] 1(3)])
      (use that t1 in simp_all)
  show ?case
  proof (cases "nvme_decide_disposition (rq s r) = COMPLETE")
    case True
    then show ?thesis using complete_now_tables [OF 1(2,3,4)] 1(5) by (subst nvme_complete_rq.simps) auto
  next
    case False
    then show ?thesis
      using park sub again a by (subst nvme_complete_rq.simps) (simp add: Let_def)
  qed
qed

section \<open>Replies\<close>

fun reply_of :: "event \<Rightarrow> nat option" where
  "reply_of (Ev_reply io) = Some io"
| "reply_of _ = None"

text \<open>The AmigaOS requests replied so far, in order.\<close>

definition replies :: "NVMeController \<Rightarrow> nat list" where
  "replies s = List.map_filter reply_of (k_trace s)"

lemma replies_simps [simp]:
  "replies (emit e s) = replies s @ (case reply_of e of Some io \<Rightarrow> [io] | None \<Rightarrow> [])"
  "replies (upd_req r f s) = replies s" "replies (free_req r s) = replies s" "replies (upd_ctx c g s) = replies s"
  "replies (upd_q sel h s) = replies s" "replies (set_q sel q s) = replies s" "replies (park_ctx c s) = replies s"
  "replies (dma_free a s) = replies s" "replies (set_prp_slab small k s) = replies s"
  "replies (s\<lparr>k_reqs := w\<rparr>) = replies s" "replies (s\<lparr>k_dma := d\<rparr>) = replies s" "replies (s\<lparr>k_mem := m\<rparr>) = replies s"
  by (cases sel; simp add: replies_def emit_def map_filter_def park_ctx_def upd_req_def free_req_def upd_q_def
      set_q_def dma_free_def set_prp_slab_def split: option.split)+

lemma replies_commit [simp]: "replies (nvme_sq_commit sel s) = replies s"
  by (simp add: nvme_sq_commit_def Let_def)

lemma replies_free_dma [simp]: "replies (nvme_req_free_dma_buffers r s) = replies s"
  by (simp add: nvme_req_free_dma_buffers_def Let_def free_prp_pages_def fold_dma_free split: option.split)

lemma replies_destroy [simp]: "replies (nvme_req_destroy r s) = replies s"
  by (simp add: nvme_req_destroy_def Let_def)

lemma replies_cleanup [simp]: "replies (nvme_cleanup_cmd r s) = replies s"
  by (simp add: nvme_cleanup_cmd_def read_back_def split: option.split)

lemma replies_submit [simp]: "replies (snd (nvme_submit_io r s)) = replies s"
  by (simp add: nvme_submit_io_def Let_def split: option.split)

lemma replies_req_alloc [simp]: "replies (snd (req_alloc P sel fill s)) = replies s"
  by (simp add: req_alloc_def Let_def split: option.split prod.split)

lemma replies_alloc_io [simp]: "replies (snd (nvme_req_alloc_io P u io s)) = replies s"
  using replies_req_alloc [of P Io_q "\<lambda>q. q\<lparr>r_io := io, r_unit := Some u\<rparr>" s]
  by (cases "req_alloc P Io_q (\<lambda>q. q\<lparr>r_io := io, r_unit := Some u\<rparr>) s")
    (auto simp: nvme_req_alloc_io_def split: sum.split alloc_failure.split)

lemma map_filter_append [simp]: "List.map_filter f (xs @ ys) = List.map_filter f xs @ List.map_filter f ys"
  by (simp add: map_filter_def)

definition no_reply :: "prp_build \<Rightarrow> bool" where
  "no_reply b \<longleftrightarrow> List.map_filter reply_of (pb_events b) = []"

lemma build_loop_no_reply:
  assumes "no_reply b"
  shows "case build_prps_loop P small base nr i b of Inl b' \<Rightarrow> no_reply b' | Inr b' \<Rightarrow> no_reply b'"
  using assms
proof (induction P small base nr i b rule: build_prps_loop.induct)
  case (1 P small base nr i b)
  let ?new = "if pb_list b = None then prp_new_list P small b else Inr b"
  have new: "case ?new of Inl b' \<Rightarrow> no_reply b' | Inr b' \<Rightarrow> no_reply b'"
    using 1(2) by (simp add: no_reply_def prp_new_list_def Let_def split: option.split)
  have put: "no_reply (prp_put P e l b') = no_reply b'" for e l b'
    by (simp add: prp_put_def Let_def no_reply_def split: option.split)
  show ?case
  proof (cases "nr \<le> i")
    case True
    then show ?thesis using 1(2) by (simp add: build_prps_loop.simps)
  next
    case False
    show ?thesis
    proof (cases ?new)
      case (Inl b')
      then show ?thesis using new False by (subst build_prps_loop.simps) (simp only: if_False sum.case)
    next
      case (Inr b1)
      then have "no_reply b1" using new by (simp only: sum.case)
      then show ?thesis
        using 1(1) [OF False Inr refl] put
        by (subst build_prps_loop.simps) (simp only: False Inr Let_def if_False sum.case split: if_split, simp)
    qed
  qed
qed

lemma replies_trace: "replies (s\<lparr>k_trace := k_trace s' @ t\<rparr>) = replies s' @ List.map_filter reply_of t"
  by (simp add: replies_def)

lemma replies_build_prps [simp]: "replies (snd (build_prps P r b n s)) = replies s"
proof -
  let ?b = "\<lambda>small. \<lparr>pb_heap = prp_slab_sel small s, pb_pages = [], pb_list = None, pb_pos = 0,
      pb_prp2 = cmd_prp2 (r_cmd (rq s r)), pb_events = []\<rparr>"
  have "no_reply (?b small)" for small by (simp add: no_reply_def)
  note loop = build_loop_no_reply [OF this]
  have last: "List.map_filter reply_of (case l of None \<Rightarrow> [] | Some a \<Rightarrow> [Ev_flush_ns a m True]) = []" for l m
    by (simp split: option.split)
  show ?thesis
    using loop [of P "prp_nr_data_pages b n \<le> 32" "ucast b + ucast (prp_first b)" "unat (prp_nr_data_pages b n)" 0 "prp_nr_data_pages b n \<le> 32"]
    unfolding build_prps_def Let_def
    by (auto simp: replies_trace no_reply_def last split: sum.splits)
qed

lemma replies_setup_rw [simp]: "replies (snd (nvme_setup_rw P r lba n opc b s)) = replies s"
proof -
  have bnc: "replies x = replies y" if "setup_bounce P r opc b m y = Some (d, x)" for m d x y
    using that by (auto simp: setup_bounce_def Let_def dma_alloc_def split: if_splits option.splits)
  have bp: "replies x = replies y" if "build_prps P r b' m y = (ok, x)" for b' m ok x y
    using replies_build_prps [of P r b' m y] that by simp
  show ?thesis
    unfolding nvme_setup_rw_def Let_def by (auto split: option.split prod.split dest!: bnc bp)
qed

lemma replies_alloc_setup [simp]: "replies (snd (alloc_setup P c r s s1)) = replies s1"
  by (simp add: alloc_setup_def Let_def nvme_setup_write_zeroes_def)

lemma replies_pump_once:
  "pump_once P c s = Pump_more s' \<Longrightarrow> replies s' = replies s"
  "pump_once P c s = Pump_stop e s' \<Longrightarrow> replies s' = replies s"
proof -
  obtain res s1 where a: "nvme_req_alloc_io P (x_unit (cx s c)) None s = (res, s1)" by (meson surj_pair)
  have r1: "replies s1 = replies s" using replies_alloc_io [of P "x_unit (cx s c)" None s] a by simp
  have "replies (case pump_once P c s of Pump_more s' \<Rightarrow> s' | Pump_stop e s' \<Rightarrow> s') = replies s"
  proof (cases res)
    case (Inl err)
    then show ?thesis using a r1 by (simp add: pump_once_alt)
  next
    case (Inr r)
    obtain serr s3 where e3: "alloc_setup P c r s s1 = (serr, s3)" by (meson surj_pair)
    have r3: "replies s3 = replies s" using replies_alloc_setup [of P c r s s1] e3 r1 by simp
    let ?s4 = "upd_ctx c (\<lambda>x. x\<lparr>x_dispatched := x_dispatched x + next_bytes s (cx s c),
                x_inflight := x_inflight x + 1\<rparr>) s3"
    obtain suberr s5 where sub: "nvme_submit_io r ?s4 = (suberr, s5)" by (meson surj_pair)
    have "replies s5 = replies s" using replies_submit [of r ?s4] r3 unfolding sub by simp
    then show ?thesis using r3 unfolding pump_once_alt a prod.case Inr sum.case e3 sub Let_def by simp
  qed
  then show "pump_once P c s = Pump_more s' \<Longrightarrow> replies s' = replies s"
    "pump_once P c s = Pump_stop e s' \<Longrightarrow> replies s' = replies s" by simp_all
qed

lemma replies_pump [simp]: "replies (snd (nvme_io_context_pump P c s)) = replies s"
proof (induction P c s rule: nvme_io_context_pump.induct)
  case (1 P c s)
  then show ?case
    using replies_pump_once [of P c s]
    by (subst nvme_io_context_pump.simps) (auto split: pump_step.split)
qed

section \<open>Completion properties\<close>

text \<open>A live request with nothing but an AmigaOS request to answer.\<close>

definition plain_io :: "nvme_request \<Rightarrow> nat \<Rightarrow> bool" where
  "plain_io q io \<longleftrightarrow> r_io q = Some io \<and> r_ctx q = None \<and> r_done q = None \<and> r_waiter q = None"

lemma complete_plain_io:
  assumes "k_reqs s r = Some q" "plain_io q io" "nvme_decide_disposition q = COMPLETE" "k_unit_waits s = None"
  defines "e \<equiv> nvme_error_status (r_status q)"
  shows "nvme_complete_rq P r s = s\<lparr>k_mem := k_mem (read_back q s),
     k_prp_small := drop_dom (req_slab_pages True q) (k_prp_small s),
     k_prp_large := drop_dom (req_slab_pages False q) (k_prp_large s),
     k_dma := drop_dom (req_dma q) (k_dma s),
     k_ios := (k_ios s)(io := (k_ios s io)\<lparr>
        io_Actual := (if e = IOERR_NO_ERROR then io_Length (k_ios s io) else io_Actual (k_ios s io)), io_Error := e\<rparr>),
     k_trace := k_trace s @ read_back_events q s @ [Ev_reply io],
     k_reqs := (k_reqs s)(r := None)\<rparr>"
proof -
  have q: "rq s r = q" using assms(1) by (simp add: rq_def)
  have c: "nvme_complete_rq P r s = complete_now P r s" by (simp add: complete_rq_unfold q assms(3))
  show ?thesis
    using assms(2,4) unfolding c complete_now_def Let_def cleanup_cmd_shape [OF assms(1)] plain_io_def
    by (simp add: rq_def nvme_end_req_def stale_rq_def Let_def emit_def upd_io_def free_req_def e_def)
qed

text \<open>
  C5.  Completion of a single-shot I/O request: when the request is not to be
  retried, exactly one reply is sent, for the request's own AmigaOS request and
  after the data has been read back; the error field carries the mapped status
  and the transferred count is the whole length exactly on success.  The request,
  its PRP pages and its bounce buffer are released, no other request, context or
  AmigaOS request changes, and the tables stay consistent.
\<close>

theorem complete_single_shot:
  assumes "tables_ok s" "req_slab_ok P" "idle_req s r" "k_reqs s r = Some q" "plain_io q io"
    and "nvme_decide_disposition q = COMPLETE" "k_unit_waits s = None"
  defines "s' \<equiv> nvme_complete_rq P r s"
  shows "tables_ok s' \<and> k_reqs s' = (k_reqs s)(r := None) \<and> replies s' = replies s @ [io] \<and>
     last (k_trace s') = Ev_reply io \<and>
     io_Error (k_ios s' io) = nvme_error_status (r_status q) \<and>
     (r_status q AND NVME_SCT_SC_MASK = NVME_SC_SUCCESS \<longrightarrow> io_Actual (k_ios s' io) = io_Length (k_ios s io)) \<and>
     (\<forall>io'. io' \<noteq> io \<longrightarrow> k_ios s' io' = k_ios s io') \<and> k_ctxs s' = k_ctxs s \<and>
     (\<forall>a \<in> req_dma q. k_dma s' a = None) \<and>
     (\<forall>a \<in> req_slab_pages True q. k_prp_small s' a = None) \<and>
     (\<forall>a \<in> req_slab_pages False q. k_prp_large s' a = None) \<and>
     (cmd_opcode (r_cmd q) = nvme_cmd_read \<and> r_user_buf q \<noteq> 0 \<and> r_user_len q \<noteq> 0 \<longrightarrow>
        (\<forall>b i. r_bounce_buf q = Some b \<and> i < r_user_len q \<longrightarrow> k_mem s' (r_user_buf q + i) = k_mem s (b + i)))"
proof -
  note shape = complete_plain_io [OF assms(4-7), of P, folded s'_def]
  have "tables_ok s'" unfolding s'_def using assms(1-4) by (intro complete_rq_tables) simp_all
  moreover have "List.map_filter reply_of (read_back_events q s) = []"
    by (simp add: read_back_events_def split: option.split)
  then have "replies s' = replies s @ [io]" by (simp add: shape replies_def)
  moreover have "k_mem s' (r_user_buf q + i) = k_mem s (b + i)"
    if "cmd_opcode (r_cmd q) = nvme_cmd_read" "r_user_buf q \<noteq> 0" "r_user_len q \<noteq> 0" "r_bounce_buf q = Some b"
      "i < r_user_len q" for b i
    using that by (simp add: shape read_back_def mem_copy_at)
  ultimately show ?thesis
    by (auto simp: shape nvme_error_status_def Let_def drop_dom_def)
qed

subsection \<open>Retry\<close>

lemma decide_retryD:
  assumes "nvme_decide_disposition q = RETRY"
  shows "r_status q \<noteq> 0" "r_retries q < NVME_MAX_RETRIES" "\<not> nvme_req_noretry q" "r_status q AND NVME_STATUS_DNR = 0"
  using assms by (auto simp: nvme_decide_disposition_def split: if_splits)

lemma retry_crd_le: "retry_crd q \<le> 3"
proof -
  have "drop_bit 11 (r_status q AND NVME_STATUS_CRD) \<le> (3 :: u16)"
    by (simp add: drop_bit_and word_and_le1)
  then show ?thesis by (simp add: retry_crd_def word_le_nat_alt)
qed

lemma slab_fields [simp]:
  "k_prp_small (upd_q sel f s) = k_prp_small s" "k_prp_large (upd_q sel f s) = k_prp_large s" "k_mem (upd_q sel f s) = k_mem s"
  "k_dma (upd_q sel f s) = k_dma s" "k_dma (upd_req r g s) = k_dma s"
  "k_prp_small (set_q sel q s) = k_prp_small s" "k_prp_large (set_q sel q s) = k_prp_large s"
  "k_mem (set_q sel q s) = k_mem s" "k_dma (set_q sel q s) = k_dma s"
  "k_prp_small (upd_req r g s) = k_prp_small s" "k_prp_large (upd_req r g s) = k_prp_large s" "k_mem (upd_req r g s) = k_mem s"
  by (cases sel; simp add: upd_q_def set_q_def upd_req_def)+

text \<open>A retry without a delay hint, once a tag is found: the whole of it is the submission.\<close>

lemma retry_now:
  assumes "tables_ok s" "idle_req s r" "k_reqs s r = Some q" "nvme_decide_disposition q = RETRY"
    and "retry_crd q = 0" "nvme_alloc_cid (get_q s (r_q q)) = (cid, q1)" "cid \<noteq> 0xFFFF"
  defines "s1 \<equiv> reclaim r cid q1 (upd_req r retry_mark s)"
  shows "nvme_complete_rq P r s = snd (nvme_submit_io r s1)" "tables_ok s1" "in_slot s1 r"
    "sq_contents (get_q s1 sel) = sq_contents (get_q s sel)"
    "rq s1 r = stamp_cid ((retry_mark q)\<lparr>r_cid := cid\<rparr>)" "replies s1 = replies s"
    "io_frame s s1" "k_dma s1 = k_dma s" "k_prp_small s1 = k_prp_small s" "k_prp_large s1 = k_prp_large s"
    "k_mem s1 = k_mem s"
proof -
  have rq: "rq s r = q" using assms(3) by (simp add: rq_def)
  have a: "nvme_alloc_cid (get_q (upd_req r retry_mark s) (r_q (rq (upd_req r retry_mark s) r))) = (cid, q1)"
    using assms(6) by (simp add: rq retry_mark_def)
  have t: "tables_ok (upd_req r retry_mark s)" "idle_req (upd_req r retry_mark s) r"
    using upd_req_tables_idle [OF assms(1,2)] assms(2) by simp_all
  note rc = reclaim_ok [OF t a assms(7)]
  show "nvme_complete_rq P r s = snd (nvme_submit_io r s1)"
    using assms(6,7) by (simp add: complete_rq_unfold rq assms(4,5) nvme_retry_req_def Let_def nvme_resubmit_io_def s1_def
        retry_mark_def)
  show "tables_ok s1" "in_slot s1 r" using rc(1,2) by (simp_all add: s1_def)
  show "sq_contents (get_q s1 sel) = sq_contents (get_q s sel)" using rc(3) [of sel] by (simp add: s1_def)
  show "rq s1 r = stamp_cid ((retry_mark q)\<lparr>r_cid := cid\<rparr>)" using rc(4) by (simp add: s1_def rq)
  show "replies s1 = replies s" "io_frame s s1" by (simp_all add: s1_def reclaim_def Let_def)
  show "k_dma s1 = k_dma s" "k_prp_small s1 = k_prp_small s" "k_prp_large s1 = k_prp_large s" "k_mem s1 = k_mem s"
    by (simp_all add: s1_def reclaim_def Let_def)
qed

lemma submit_accepted_dma:
  assumes "fst (nvme_submit_io r s) = NVME_IO_ASYNC"
  shows "k_dma (snd (nvme_submit_io r s)) = k_dma s" "k_prp_small (snd (nvme_submit_io r s)) = k_prp_small s"
    "k_prp_large (snd (nvme_submit_io r s)) = k_prp_large s" "k_mem (snd (nvme_submit_io r s)) = k_mem s"
  using assms
  by (cases "r_q (rq s r)"; auto simp: nvme_submit_io_def Let_def sq_commit_shape upd_req_def set_q_def upd_q_def
      emit_def split: if_splits option.splits)+

lemma fresh_cid:
  assumes "queue_ok qu" "nvme_alloc_cid qu = (cid, q1)" "cid \<noteq> 0xFFFF"
  shows "cid \<in> set (take (q_free_top qu) (q_free_stack qu))" "slot qu (cid_tag cid) = None"
    "\<forall>q0. queue_ok q0 \<and> slot q0 (cid_tag c) \<noteq> None \<and> \<not> q_skip_cid_gen q0 \<and> qu = nvme_inflight_release q0 c \<longrightarrow> cid \<noteq> c"
proof -
  have top: "q_free_top qu \<noteq> 0" and c: "cid = q_free_stack qu ! (q_free_top qu - 1)"
    using assms(2,3) by (auto simp: nvme_alloc_cid_def split: if_splits)
  show "cid \<in> set (take (q_free_top qu) (q_free_stack qu))"
    unfolding queue_ok_alloc(1) [OF assms(1) top] c by simp
  show "slot qu (cid_tag cid) = None" using queue_ok_alloc(3) [OF assms(1) top] by (simp add: slot_def c)
  show "\<forall>q0. queue_ok q0 \<and> slot q0 (cid_tag c) \<noteq> None \<and> \<not> q_skip_cid_gen q0 \<and> qu = nvme_inflight_release q0 c \<longrightarrow> cid \<noteq> c"
  proof (intro allI impI, elim conjE)
    fix q0
    assume q0: "queue_ok q0" "slot q0 (cid_tag c) \<noteq> None" "\<not> q_skip_cid_gen q0" "qu = nvme_inflight_release q0 c"
    then have "cid = next_cid False c" using released_cid_next [OF q0(1,2)] assms(2) by simp
    then show "cid \<noteq> c" using next_cid_differs by simp
  qed
qed

text \<open>
  C17.  A request that the policy retries has failed with a retryable status and
  has fewer than five retries behind it.  With a delay hint it is parked at the
  end of the retry list, its status cleared and its deadline set; without one,
  provided that a tag and a ring entry are free, the same command is submitted again
  under an identifier from the free pool, whose slot was idle; when the drain has just released the
  old identifier and generations are in use, it is not the old one.  In both cases nothing is replied and the data
  pages, PRP lists and bounce buffer of the request stay as they are.
\<close>

theorem retry_contract:
  fixes P :: platform
  assumes "tables_ok s" "idle_req s r" "k_reqs s r = Some q" "nvme_decide_disposition q = RETRY"
  defines "s' \<equiv> nvme_complete_rq P r s" and "qu \<equiv> get_q s (r_q q)"
  assumes room: "retry_crd q \<noteq> 0 \<or> q_free_top qu \<noteq> 0 \<and> q_sq_base qu \<noteq> None \<and> length (sq_contents qu) < q_depth qu - 1"
  shows "r_retries q < 5 \<and> r_retries (rq s' r) = r_retries q + 1 \<and> r_status (rq s' r) = 0 \<and>
    req_dma (rq s' r) = req_dma q \<and> k_dma s' = k_dma s \<and> k_prp_small s' = k_prp_small s \<and>
    k_prp_large s' = k_prp_large s \<and> k_mem s' = k_mem s \<and> replies s' = replies s \<and> k_ios s' = k_ios s \<and>
    (if retry_crd q \<noteq> 0
     then retry_crd q \<le> 3 \<and> k_retry_list s' = k_retry_list s @ [r] \<and> idle_req s' r \<and>
       r_cmd (rq s' r) = r_cmd q \<and>
       r_deadline_us (rq s' r) = k_clock s + ucast (k_crdt s ! (retry_crd q - 1)) * 100000
     else in_slot s' r \<and> k_retry_list s' = k_retry_list s \<and>
       sq_contents (get_q s' (r_q q)) = sq_contents qu @ [(r_cmd q)\<lparr>cmd_command_id := r_cid (rq s' r)\<rparr>] \<and>
       r_cid (rq s' r) \<in> set (take (q_free_top qu) (q_free_stack qu)) \<and> slot qu (cid_tag (r_cid (rq s' r))) = None \<and>
       (\<forall>q0. queue_ok q0 \<and> slot q0 (cid_tag (r_cid q)) \<noteq> None \<and> \<not> q_skip_cid_gen q0 \<and> qu = nvme_inflight_release q0 (r_cid q) \<longrightarrow>
          r_cid (rq s' r) \<noteq> r_cid q))"
proof (cases "retry_crd q = 0")
  case False
  have rq: "rq s r = q" using assms(3) by (simp add: rq_def)
  have s': "s' = retry_park (retry_crd q) r (upd_req r retry_mark s)"
    by (simp add: s'_def complete_rq_unfold rq assms(4) False nvme_retry_req_def Let_def)
  have "idle_req s' r = idle_req s r" by (rule idle_req_cong) (simp add: s' retry_park_def Let_def)
  then have idle: "idle_req s' r" using assms(2) by simp
  show ?thesis
    using False idle decide_retryD(2) [OF assms(4)] retry_crd_le [of q]
    by (simp add: s' retry_park_def Let_def rq retry_mark_def req_dma_def holds_list_def upd_req_def
        replies_def rq_def assms(3))
next
  case True
  have ok: "queue_ok qu" unfolding qu_def by (rule tables_okD(1) [OF assms(1)])
  obtain cid q1 where a: "nvme_alloc_cid (get_q s (r_q q)) = (cid, q1)" by (meson surj_pair)
  have ne: "cid \<noteq> 0xFFFF" using queue_ok_alloc [OF ok] a room True by (auto simp: qu_def nvme_alloc_cid_def)
  note n = retry_now [OF assms(1-4) True a ne]
  let ?s1 = "reclaim r cid q1 (upd_req r retry_mark s)"
  have sel: "r_q (rq ?s1 r) = r_q q" by (simp add: n(5) stamp_cid_def retry_mark_def)
  have depth: "q_depth (get_q ?s1 (r_q q)) = q_depth qu" "q_sq_base (get_q ?s1 (r_q q)) = q_sq_base qu"
    using a by (auto simp: reclaim_def Let_def nvme_inflight_claim_def nvme_alloc_cid_def qu_def retry_mark_def
        rq_def assms(3) split: if_splits)
  have acc: "fst (nvme_submit_io r ?s1) = NVME_IO_ASYNC"
    using submit_io_accepts_iff [OF n(2)] room True n(4) [of "r_q q"]
    by (auto simp: sel depth qu_def simp flip: length_sq_contents)
  note sa = submit_io_accepted [OF n(2) acc] and sd = submit_accepted_dma [OF acc]
  have s': "s' = snd (nvme_submit_io r ?s1)" unfolding s'_def by (rule n(1))
  have "in_slot s' r" unfolding s' by (rule submit_in_slot [OF n(2,3) acc])
  moreover have "rq s' r = (stamp_cid ((retry_mark q)\<lparr>r_cid := cid\<rparr>))\<lparr>r_submit_us := k_clock ?s1\<rparr>"
    by (simp add: s' rq_def sa(3)) (simp add: n(5) flip: rq_def)
  moreover have "io_frame s s'" unfolding s' using n(7) by simp
  moreover have "sq_contents (get_q s' (r_q q)) = sq_contents qu @ [r_cmd (rq ?s1 r)]"
    using sa(1) n(4) by (simp add: s' sel qu_def)
  moreover note fresh_cid [OF ok a [folded qu_def] ne]
  ultimately show ?thesis
    using True decide_retryD(2) [OF assms(4)] sd n
    by (simp add: io_frameD s' stamp_cid_def retry_mark_def req_dma_def holds_list_def)
qed

text \<open>
  C23.  The result of a resubmission is not looked at: when a tag is free but the
  submission ring has no room, the retried request is destroyed, its AmigaOS
  request gets no reply and is on no list, and a chunked transfer keeps counting
  the sibling it has lost.
\<close>

theorem retry_ring_full_loses_request:
  fixes P :: platform
  assumes "tables_ok s" "idle_req s r" "k_reqs s r = Some q" "nvme_decide_disposition q = RETRY" "retry_crd q = 0"
  defines "s' \<equiv> nvme_complete_rq P r s" and "qu \<equiv> get_q s (r_q q)"
  assumes full: "q_free_top qu \<noteq> 0" "q_sq_base qu \<noteq> None" "\<not> length (sq_contents qu) < q_depth qu - 1"
  shows "k_reqs s' = (k_reqs s)(r := None) \<and> replies s' = replies s \<and> k_ios s' = k_ios s \<and> k_ctxs s' = k_ctxs s \<and>
     k_retry_list s' = k_retry_list s \<and> k_io_pending s' = k_io_pending s \<and> k_msgPort s' = k_msgPort s"
proof -
  have ok: "queue_ok qu" unfolding qu_def by (rule tables_okD(1) [OF assms(1)])
  obtain cid q1 where a: "nvme_alloc_cid (get_q s (r_q q)) = (cid, q1)" by (meson surj_pair)
  have ne: "cid \<noteq> 0xFFFF" using queue_ok_alloc [OF ok] a full by (auto simp: qu_def nvme_alloc_cid_def)
  note n = retry_now [OF assms(1-5) a ne]
  let ?s1 = "reclaim r cid q1 (upd_req r retry_mark s)"
  have sel: "r_q (rq ?s1 r) = r_q q" by (simp add: n(5) stamp_cid_def retry_mark_def)
  have depth: "q_depth (get_q ?s1 (r_q q)) = q_depth qu"
    using a by (auto simp: reclaim_def Let_def nvme_inflight_claim_def nvme_alloc_cid_def qu_def retry_mark_def
        rq_def assms(3) split: if_splits)
  have "fst (nvme_submit_io r ?s1) \<noteq> NVME_IO_ASYNC"
    using submit_io_accepts_iff [OF n(2)] full n(4) [of "r_q q"]
    by (auto simp: sel depth qu_def simp flip: length_sq_contents)
  then have s': "s' = nvme_req_destroy r ?s1" using submit_io_cases [of r ?s1] n(1) by (auto simp: s'_def)
  obtain q' where q': "k_reqs ?s1 r = Some q'" using n(3) by (auto simp: in_slot_def)
  have f: "io_frame s s'" unfolding s' using n(7) by simp
  have "k_reqs s' = (k_reqs ?s1)(r := None)" unfolding s' by (rule req_destroy_slots(2) [OF n(2) q'])
  moreover have "k_reqs ?s1 = (k_reqs s)(r := Some q')"
    using q' by (simp add: reclaim_def Let_def rq_def assms(3))
  ultimately show ?thesis using io_frameD [OF f] n(6) by (simp add: s')
qed

subsection \<open>Siblings of a chunked transfer\<close>

text \<open>The error a context holds after a sibling ended with the given status.\<close>

definition latch :: "u16 \<Rightarrow> io_error \<Rightarrow> io_error" where
  "latch status e = (if status \<noteq> 0 \<and> e = IOERR_NO_ERROR then nvme_error_status status else e)"

definition sibling_gone :: "nat \<Rightarrow> nat \<Rightarrow> NVMeController \<Rightarrow> NVMeController" where
  "sibling_gone r c s = free_req r (upd_ctx c (\<lambda>x. x\<lparr>x_first_error := latch (r_status (rq s r)) (x_first_error x),
     x_completed := x_completed x + r_user_len (rq s r), x_inflight := x_inflight x - 1\<rparr>) s)"

lemma complete_sibling_alt:
  "complete_sibling P r c s =
    (let s3 = sibling_gone r c s;
         s4 = (if x_dispatched (cx s3 c) < x_total_bytes (cx s3 c) \<and> x_first_error (cx s3 c) = IOERR_NO_ERROR
               then snd (nvme_io_context_pump P c s3) else s3)
     in if x_inflight (cx s4 c) = 0 \<and> \<not> x_stalled (cx s4 c) then nvme_io_context_finish c s4 else s4)"
proof -
  have "free_req r (upd_ctx c (\<lambda>x. x\<lparr>x_completed := x_completed x + r_user_len (rq s r), x_inflight := x_inflight x - 1\<rparr>)
     (if r_status (rq s r) \<noteq> 0 \<and> x_first_error (cx s c) = IOERR_NO_ERROR
      then upd_ctx c (\<lambda>x. x\<lparr>x_first_error := nvme_error_status (r_status (rq s r))\<rparr>) s else s)) = sibling_gone r c s"
    by (simp add: sibling_gone_def latch_def upd_ctx_def free_req_def cx_def)
  then show ?thesis by (simp only: complete_sibling_def Let_def)
qed

lemma sibling_gone_ctx:
  "cx (sibling_gone r c s) c = (cx s c)\<lparr>x_first_error := latch (r_status (rq s r)) (x_first_error (cx s c)),
     x_completed := x_completed (cx s c) + r_user_len (rq s r), x_inflight := x_inflight (cx s c) - 1\<rparr>"
  "k_ctxs (sibling_gone r c s) c \<noteq> None" "sib_cap (sibling_gone r c s) = sib_cap s"
  "replies (sibling_gone r c s) = replies s" "k_reqs (sibling_gone r c s) = (k_reqs s)(r := None)"
  by (simp_all add: sibling_gone_def free_req_def cx_def upd_ctx_def sib_cap_def replies_def)

lemma sibling_gone_counted:
  assumes "ctx_counted s c" "k_reqs s r = Some q" "r_ctx q = Some c"
  shows "ctx_counted (sibling_gone r c s) c" "0 < x_inflight (cx s c)"
proof -
  have "r \<in> siblings s c" "siblings (sibling_gone r c s) c = siblings s c - {r}"
    using assms(2,3) by (auto simp: siblings_def sibling_gone_ctx)
  then show "ctx_counted (sibling_gone r c s) c" "0 < x_inflight (cx s c)"
    using assms(1) card_gt_0_iff [of "siblings s c"] by (auto simp: ctx_counted_def sibling_gone_ctx)
qed

lemma ios_pump_once:
  "pump_once P c s = Pump_more s' \<Longrightarrow> k_ios s' = k_ios s"
  "pump_once P c s = Pump_stop e s' \<Longrightarrow> k_ios s' = k_ios s"
proof -
  obtain res s1 where a: "nvme_req_alloc_io P (x_unit (cx s c)) None s = (res, s1)" by (meson surj_pair)
  have f1: "io_frame s s1" using io_frame_alloc_io [of s s P "x_unit (cx s c)" None] a by simp
  have park: "k_ios (park_ctx c s2) = k_ios s2" for s2 by (simp add: park_ctx_def)
  have "k_ios (case pump_once P c s of Pump_more s' \<Rightarrow> s' | Pump_stop e s' \<Rightarrow> s') = k_ios s"
  proof (cases res)
    case (Inl err)
    then show ?thesis using a io_frameD(2) [OF f1] park by (simp add: pump_once_alt)
  next
    case (Inr r)
    obtain serr s3 where e3: "alloc_setup P c r s s1 = (serr, s3)" by (meson surj_pair)
    have "io_frame s (snd (alloc_setup P c r s s1))" using f1 by (simp add: alloc_setup_def Let_def)
    then have f3: "io_frame s s3" using e3 by simp
    let ?s4 = "upd_ctx c (\<lambda>x. x\<lparr>x_dispatched := x_dispatched x + next_bytes s (cx s c),
                x_inflight := x_inflight x + 1\<rparr>) s3"
    obtain suberr s5 where sub: "nvme_submit_io r ?s4 = (suberr, s5)" by (meson surj_pair)
    have "k_ios s5 = k_ios s"
      using io_frameD(2) [OF io_frame_submit [OF io_frame_refl, of ?s4 r]] io_frameD(2) [OF f3] unfolding sub by simp
    moreover have "k_ios (nvme_req_destroy r s3) = k_ios s" using io_frameD(2) [OF io_frame_destroy [OF f3]] .
    ultimately show ?thesis using park unfolding pump_once_alt a prod.case Inr sum.case e3 sub Let_def by simp
  qed
  then show "pump_once P c s = Pump_more s' \<Longrightarrow> k_ios s' = k_ios s"
    "pump_once P c s = Pump_stop e s' \<Longrightarrow> k_ios s' = k_ios s" by simp_all
qed

lemma pump_stop_stalled:
  assumes "pump_once P c s = Pump_stop e s'"
  shows "x_stalled (cx s' c) \<longrightarrow> x_stalled (cx s c) \<or> c \<in> set (k_ctx_stalled s')"
proof -
  obtain res s1 where a: "nvme_req_alloc_io P (x_unit (cx s c)) None s = (res, s1)" by (meson surj_pair)
  have f1: "io_frame s s1" using io_frame_alloc_io [of s s P "x_unit (cx s c)" None] a by simp
  show ?thesis
  proof (cases res)
    case (Inl err)
    then show ?thesis using assms a io_frame_cx [OF f1] by (auto simp: pump_once_alt split: if_splits)
  next
    case (Inr r)
    obtain serr s3 where e3: "alloc_setup P c r s s1 = (serr, s3)" by (meson surj_pair)
    have "io_frame s (snd (alloc_setup P c r s s1))" using f1 by (simp add: alloc_setup_def Let_def)
    then have f3: "io_frame s s3" using e3 by simp
    let ?s4 = "upd_ctx c (\<lambda>x. x\<lparr>x_dispatched := x_dispatched x + next_bytes s (cx s c),
                x_inflight := x_inflight x + 1\<rparr>) s3"
    obtain suberr s5 where sub: "nvme_submit_io r ?s4 = (suberr, s5)" by (meson surj_pair)
    have "x_stalled (cx s5 c) = x_stalled (cx s c)"
      using io_frame_cx [OF io_frame_submit [OF io_frame_refl, of ?s4 r], of c] io_frame_cx [OF f3, of c] unfolding sub by simp
    moreover have "cx (nvme_req_destroy r s3) c = cx s c" using io_frame_cx [OF io_frame_destroy [OF f3]] .
    ultimately show ?thesis
      using assms unfolding pump_once_alt a prod.case Inr sum.case e3 sub Let_def by (auto split: if_splits)
  qed
qed

text \<open>What a pump leaves of the context's identity, and when it may leave it without a sibling.\<close>

lemma pump_identity:
  assumes "tables_ok s" "req_slab_ok P" "k_ctxs s c \<noteq> None" "nvme_io_context_pump P c s = (e, s')"
  shows "x_io (cx s' c) = x_io (cx s c) \<and> k_ios s' = k_ios s \<and>
    (x_dispatched (cx s c) < x_total_bytes (cx s c) \<and> 0 < sib_cap s \<and> x_inflight (cx s' c) = 0 \<and> \<not> x_stalled (cx s' c) \<longrightarrow>
       x_first_error (cx s' c) \<noteq> IOERR_NO_ERROR) \<and>
    (x_inflight (cx s' c) = 0 \<longrightarrow> x_inflight (cx s c) = 0) \<and>
    (x_stalled (cx s' c) \<longrightarrow> x_stalled (cx s c) \<or> c \<in> set (k_ctx_stalled s'))"
  using assms
proof (induction P c s arbitrary: e s' rule: nvme_io_context_pump.induct)
  case (1 P c s)
  let ?go = "x_dispatched (cx s c) < x_total_bytes (cx s c) \<and> x_inflight (cx s c) < sib_cap s"
  show ?case
  proof (cases ?go)
    case False
    then show ?thesis using 1(5) by (auto simp: nvme_io_context_pump.simps)
  next
    case go: True
    show ?thesis
    proof (cases "pump_once P c s")
      case (Pump_stop e1 s1)
      then have es: "e = e1" "s' = s1" using 1(5) go by (simp_all add: nvme_io_context_pump.simps)
      note st = pump_once_stop [OF 1(2-4) Pump_stop, folded es]
      then show ?thesis
        using pump_stop_stalled [OF Pump_stop, folded es] ios_pump_once(2) [OF Pump_stop, folded es] by (auto simp: pump_stopped_def)
    next
      case (Pump_more s1)
      note m = pump_once_more [OF 1(2,3) Pump_more] and x = pump_once_more_ctx [OF Pump_more]
      have "x_inflight (cx s1 c) \<noteq> 0" by (simp add: x)
      then have live: "k_ctxs s1 c \<noteq> None" by (cases "k_ctxs s1 c") (auto simp: cx_def zero_ctx_def)
      have "nvme_io_context_pump P c s1 = (e, s')" using 1(5) go Pump_more by (simp add: nvme_io_context_pump.simps)
      note ih = 1(1) [OF go Pump_more m(1) 1(3) live this]
      show ?thesis using ih ios_pump_once(1) [OF Pump_more] by (auto simp: x)
    qed
  qed
qed

text \<open>The refill step that follows a finished sibling.\<close>

lemma sibling_refill:
  assumes "tables_ok s" "req_slab_ok P" "k_ctxs s c \<noteq> None" "ctx_counted s c"
    and "x_dispatched (cx s c) \<le> x_total_bytes (cx s c)" "\<not> x_stalled (cx s c)" "0 < sib_cap s"
  defines "s' \<equiv> (if x_dispatched (cx s c) < x_total_bytes (cx s c) \<and> x_first_error (cx s c) = IOERR_NO_ERROR
               then snd (nvme_io_context_pump P c s) else s)"
  shows "k_ctxs s' c \<noteq> None \<and> ctx_counted s' c \<and> x_total_bytes (cx s' c) = x_total_bytes (cx s c) \<and>
    x_io (cx s' c) = x_io (cx s c) \<and> k_ios s' = k_ios s \<and> replies s' = replies s \<and>
    (x_first_error (cx s c) \<noteq> IOERR_NO_ERROR \<longrightarrow> x_first_error (cx s' c) = x_first_error (cx s c)) \<and>
    (x_inflight (cx s' c) = 0 \<and> \<not> x_stalled (cx s' c) \<and> x_first_error (cx s' c) = IOERR_NO_ERROR \<longrightarrow>
       x_dispatched (cx s c) = x_total_bytes (cx s c)) \<and>
    (x_stalled (cx s' c) \<longrightarrow> c \<in> set (k_ctx_stalled s'))"
proof (cases "x_dispatched (cx s c) < x_total_bytes (cx s c) \<and> x_first_error (cx s c) = IOERR_NO_ERROR")
  case False
  then have "s' = s" by (auto simp: s'_def)
  then show ?thesis using False assms(3-6) by auto
next
  case True
  obtain e where p: "nvme_io_context_pump P c s = (e, s')" using True by (simp add: s'_def prod_eq_iff)
  have "replies s' = replies s" using replies_pump [of P c s] p by simp
  then show ?thesis
    using pump_accounting_aux [OF assms(1-5) p] pump_identity [OF assms(1-3) p] True assms(6,7) by auto
qed

text \<open>
  C6.  Completion of a sibling of a chunked transfer that is not retried: either
  the context lives on, with its counter exact, no reply sent, and a sibling in
  flight or the context parked for the unit task; or it was the last sibling, the
  context is freed and its AmigaOS request replied exactly once.  The reply
  carries the first error latched, with no bytes transferred, and it reports
  success only when the whole transfer had been dispatched.
\<close>

theorem complete_sibling_contract:
  fixes P :: platform
  assumes "tables_ok s" "req_slab_ok P" "idle_req s r" "k_reqs s r = Some q" "r_ctx q = Some c"
    and x: "k_ctxs s c = Some x" "ctx_counted s c" "x_dispatched x \<le> x_total_bytes x" "\<not> x_stalled x" "0 < sib_cap s"
    and disp: "nvme_decide_disposition q = COMPLETE"
  defines "s' \<equiv> nvme_complete_rq P r s" and "err \<equiv> latch (r_status q) (x_first_error x)"
  shows "tables_ok s' \<and>
    (case k_ctxs s' c of
       Some _ \<Rightarrow> ctx_counted s' c \<and> replies s' = replies s \<and> k_ios s' = k_ios s \<and>
         (siblings s' c \<noteq> {} \<or> c \<in> set (k_ctx_stalled s'))
     | None \<Rightarrow> siblings s' c = {} \<and> replies s' = replies s @ [x_io x] \<and>
         (\<exists>e. k_ios s' = (k_ios s)(x_io x := (k_ios s (x_io x))\<lparr>io_Error := e,
                io_Actual := (if e \<noteq> IOERR_NO_ERROR then 0 else x_total_bytes x)\<rparr>) \<and>
              (err \<noteq> IOERR_NO_ERROR \<longrightarrow> e = err) \<and> (e = IOERR_NO_ERROR \<longrightarrow> x_dispatched x = x_total_bytes x)))"
proof -
  have "k_reqs s r \<noteq> None" using assms(4) by simp
  then have tab: "tables_ok s'" unfolding s'_def by (rule complete_rq_tables [OF assms(1-3)])
  define s1 where "s1 = nvme_cleanup_cmd r s"
  have rq: "rq s r = q" "rq s1 r = scrubbed q" using assms(4) by (simp_all add: rq_def s1_def cleanup_cmd_shape)
  have f1: "io_frame s s1" by (simp add: s1_def)
  have reqs1: "k_reqs s1 = (k_reqs s)(r := Some (scrubbed q))" by (simp add: s1_def cleanup_cmd_shape [OF assms(4)])
  have cx1: "cx s1 c = x" using x(1) io_frame_cx [OF f1, of c] by (simp add: cx_def)
  have "siblings s1 c = siblings s c" using assms(4,5) by (auto simp: siblings_def reqs1)
  then have "ctx_counted s1 c" using x(1,2) cx1 by (simp add: ctx_counted_def cx_def)
  moreover have "k_reqs s1 r = Some (scrubbed q)" "r_ctx (scrubbed q) = Some c" using reqs1 assms(5) by simp_all
  ultimately have cnt: "ctx_counted (sibling_gone r c s1) c" by (rule sibling_gone_counted(1))
  define s3 where "s3 = sibling_gone r c s1"
  note g = sibling_gone_ctx [of r c s1, folded s3_def, unfolded cx1 rq(2) scrubbed_fields, folded err_def]
  have s': "s' = (let s4 = (if x_dispatched (cx s3 c) < x_total_bytes (cx s3 c) \<and> x_first_error (cx s3 c) = IOERR_NO_ERROR
               then snd (nvme_io_context_pump P c s3) else s3)
     in if x_inflight (cx s4 c) = 0 \<and> \<not> x_stalled (cx s4 c) then nvme_io_context_finish c s4 else s4)"
    by (simp add: s'_def complete_rq_unfold rq disp complete_now_def Let_def s1_def [symmetric] assms(5)
        complete_sibling_alt s3_def)
  have ios3: "k_ios s3 = k_ios s" using io_frameD(2) [OF f1] by (simp add: s3_def sibling_gone_def free_req_def)
  have rep3: "replies s3 = replies s" using g(4) by (simp add: s1_def)
  have cap3: "sib_cap s3 = sib_cap s" using g(3) io_frameD(7) [OF f1] by (simp add: sib_cap_def)
  have "tables_ok s1" "idle_req s1 r" unfolding s1_def by (rule cleanup_tables [OF assms(1,3,4)])+
  then have t3: "tables_ok s3" unfolding s3_def sibling_gone_def by (intro free_req_tables) (simp_all add: idle_req_def)
  define s4 where "s4 = (if x_dispatched (cx s3 c) < x_total_bytes (cx s3 c) \<and> x_first_error (cx s3 c) = IOERR_NO_ERROR
               then snd (nvme_io_context_pump P c s3) else s3)"
  have "x_dispatched (cx s3 c) \<le> x_total_bytes (cx s3 c)" "\<not> x_stalled (cx s3 c)" "0 < sib_cap s3"
    using x(3-5) cap3 by (simp_all add: g(1))
  note four = sibling_refill [OF t3 assms(2) g(2) cnt [folded s3_def] this, folded s4_def, unfolded ios3 rep3]
  obtain x4 where x4: "k_ctxs s4 c = Some x4" using four by blast
  then have cx4: "cx s4 c = x4" by (simp add: cx_def)
  have ne: "siblings s4 c = {} \<longleftrightarrow> x_inflight x4 = 0" using four by (auto simp: ctx_counted_def cx4)
  have s'4: "s' = (if x_inflight x4 = 0 \<and> \<not> x_stalled x4 then nvme_io_context_finish c s4 else s4)"
    unfolding s' Let_def s4_def [symmetric] by (simp add: cx4)
  show ?thesis
  proof (cases "x_inflight x4 = 0 \<and> \<not> x_stalled x4")
    case False
    then have "s' = s4" using s'4 by auto
    then show ?thesis using tab four False ne x4 by (auto simp: cx4)
  next
    case True
    note f = finish_shape [OF x4]
    have "s' = nvme_io_context_finish c s4" using True s'4 by simp
    moreover have "replies (nvme_io_context_finish c s4) = replies s @ [x_io x]"
      using four by (simp add: f replies_def cx4 g(1))
    moreover have "siblings (nvme_io_context_finish c s4) c = siblings s4 c" by (rule siblings_cong) (simp add: f)
    ultimately show ?thesis
      using tab four True ne by (auto simp: f cx4 g(1))
  qed
qed

subsection \<open>Rejection in a terminal state\<close>

text \<open>
  \<open>nvme_fail_nonready_command\<close> on a freshly allocated request of a
  controller in a terminal state does not reply it.  The path-error status it sets
  is one the retry policy retries, so while tags and ring entries are left the
  request is submitted under a second command identifier and now sits in two slots
  of the table: the first one is never released and the tables are inconsistent.
\<close>

theorem fail_nonready_terminal_leaks_tag:
  fixes P :: platform
  assumes "tables_ok s" "in_slot s r" "nvme_state_terminal s" "k_reqs s r = Some q" "r_q q = Io_q"
    and "q_free_top (k_io_q s) \<noteq> 0" "q_sq_base (k_io_q s) \<noteq> None"
    and "length (sq_contents (k_io_q s)) < q_depth (k_io_q s) - 1"
  defines "res \<equiv> nvme_fail_nonready_command P r s"
  shows "fst res = NVME_IO_ASYNC \<and> replies (snd res) = replies s \<and>
    slot (k_io_q (snd res)) (cid_tag (r_cid q)) = Some r \<and>
    (\<exists>cid. cid_tag cid \<noteq> cid_tag (r_cid q) \<and> slot (k_io_q (snd res)) (cid_tag cid) = Some r \<and>
       r_cid (rq (snd res) r) = cid) \<and>
    \<not> tables_ok (snd res)"
proof -
  define q0 where "q0 = q\<lparr>r_retries := 0, r_flags := 0, r_status := NVME_SC_HOST_PATH_ERROR\<rparr>"
  have iq: "get_q s Io_q = k_io_q s" for s by (simp add: get_q_def)
  have rq: "rq s r = q" using assms(4) by (simp add: rq_def)
  have old: "slot (k_io_q s) (cid_tag (r_cid q)) = Some r" using assms(2,4,5) by (simp add: in_slot_def iq)
  let ?s0 = "upd_req r (\<lambda>_. q0) s"
  let ?s1 = "upd_req r retry_mark ?s0"
  obtain cid q1 where a: "nvme_alloc_cid (k_io_q s) = (cid, q1)" by (meson surj_pair)
  have ok: "queue_ok (k_io_q s)" using tables_okD(1) [OF assms(1), of Io_q] by (simp add: iq)
  have ne: "cid \<noteq> 0xFFFF" using queue_ok_alloc [OF ok assms(6)] a assms(6) by (auto simp: nvme_alloc_cid_def)
  have aq: "acquire_cid (k_io_q s) r = Some (cid, nvme_inflight_claim q1 cid r)"
    by (rule acquire_cid_alloc [OF ok a ne])
  note ac = acquire_cid_ok [OF ok aq] and ring = claim_ring [OF aq]
  have dec: "nvme_decide_disposition q0 = RETRY" "retry_crd q0 = 0"
    by (simp_all add: nvme_decide_disposition_def q0_def nvme_req_noretry_def retry_crd_def)
  let ?s2 = "reclaim r cid q1 ?s1"
  have k2: "k_io_q ?s2 = nvme_inflight_claim q1 cid r" "rq ?s2 r = stamp_cid ((retry_mark q0)\<lparr>r_cid := cid\<rparr>)"
    by (simp_all add: reclaim_def Let_def q0_def retry_mark_def assms(5) set_q_def upd_q_def upd_req_def rq_def)
  have res: "res = (NVME_IO_ASYNC, snd (nvme_submit_io r ?s2))"
  proof -
    have "upd_req r (\<lambda>q. q\<lparr>r_status := NVME_SC_HOST_PATH_ERROR\<rparr>)
        (upd_req r (\<lambda>q. q\<lparr>r_status := 0, r_retries := 0, r_flags := 0\<rparr>) s) = ?s0"
      by (simp add: upd_req_def rq_def assms(4) q0_def)
    moreover have "nvme_complete_rq P r ?s0 = snd (nvme_submit_io r ?s2)"
      using a ne dec
      by (simp add: complete_rq_unfold nvme_retry_req_def nvme_resubmit_io_def Let_def retry_mark_def)
        (simp add: q0_def assms(5) iq)
    ultimately show ?thesis using assms(3) by (simp add: res_def nvme_fail_nonready_command_def Let_def)
  qed
  have "ring_ok (k_io_q s)" using tables_okD(2) [OF assms(1), of Io_q] assms(7) by (simp add: iq)
  then have r2: "ring_ok (k_io_q ?s2)" "q_sq_base (k_io_q ?s2) \<noteq> None" "sq_contents (k_io_q ?s2) = sq_contents (k_io_q s)"
    using ring assms(7) by (simp_all add: k2)
  have sel2: "r_q (rq ?s2 r) = Io_q" by (simp only: k2) (simp add: stamp_cid_def retry_mark_def q0_def assms(5))
  have "sq_used (k_io_q ?s2) < q_depth (k_io_q ?s2) - 1"
    using assms(8) ac(5) r2(3) by (metis k2(1) length_sq_contents)
  then have "sq_push (r_cmd (rq ?s2 r)) (k_io_q ?s2) \<noteq> None" using sqr.push_None [OF r2(1)] by auto
  then have "nvme_submit_io r ?s2 = (NVME_IO_ASYNC, snd (nvme_submit_io r ?s2))"
    using r2(2) by (auto simp: nvme_submit_io_def Let_def sel2 iq split: option.split)
  then obtain q' where p: "sq_push (r_cmd (rq ?s2 r)) (k_io_q ?s2) = Some q'"
    and reqs: "k_reqs (snd res) = (k_reqs ?s2)(r := Some ((rq ?s2 r)\<lparr>r_submit_us := k_clock ?s2\<rparr>))"
    and g: "k_io_q (snd res) = (if q_sq_batch_depth (k_io_q ?s2) = 0 then q'\<lparr>q_last_sq_tail := q_sq_tail q'\<rparr> else q')"
    unfolding res snd_conv by (rule submit_io_Async) (simp add: sel2 iq)
  have sl: "slot (k_io_q (snd res)) = (slot (k_io_q s))(cid_tag cid := Some r)"
    using g sq_push_pool(2) [OF p] ac(3) by (simp add: k2)
  have ne2: "cid_tag cid \<noteq> cid_tag (r_cid q)" using ac(2) old by auto
  have cid': "r_cid (rq (snd res) r) = cid" by (simp add: rq_def reqs) (simp add: k2 stamp_cid_def flip: rq_def)
  have bad: "\<not> tables_ok (snd res)"
  proof
    assume "tables_ok (snd res)"
    then have "cid_tag (r_cid (rq (snd res) r)) = cid_tag (r_cid q)"
      using tables_okD(3) [of "snd res" Io_q "cid_tag (r_cid q)" r] sl ne2 old by (auto simp: iq rq_def)
    then show False using cid' ne2 by simp
  qed
  have "replies (snd res) = replies s" by (simp add: res reclaim_def Let_def)
  then show ?thesis using bad cid' sl ne2 old by (simp add: res)
qed

section \<open>Evaluations\<close>

definition demo_done :: "nvme_request \<Rightarrow> NVMeController" where
  "demo_done q = demo_ctrl\<lparr>k_reqs := (\<lambda>_. None)(0 := Some q)\<rparr>"

definition demo_read :: nvme_request where
  "demo_read = zero_req\<lparr>r_io := Some 7, r_unit := Some 0, r_q := Io_q, r_user_buf := 0x20000, r_user_len := 512,
     r_bounce_buf := Some 0x40000, r_cmd := zero_cmd\<lparr>cmd_opcode := nvme_cmd_read\<rparr>\<rparr>"

lemma demo_slots: "slot (get_q demo_ctrl sel) = (\<lambda>_. None)"
  by (cases sel) (auto simp: demo_get_q slot_def demo_queue_def fun_eq_iff)

lemma demo_done_ok: "tables_ok (demo_done q)" "idle_req (demo_done q) 0" "k_reqs (demo_done q) 0 = Some q"
  "k_unit_waits (demo_done q) = None"
proof -
  have "get_q (demo_done q) sel = get_q demo_ctrl sel" for sel by (simp add: demo_done_def)
  then show "tables_ok (demo_done q)" "idle_req (demo_done q) 0"
    using demo_tables_ok demo_slots by (simp_all add: tables_ok_def idle_req_def)
  show "k_reqs (demo_done q) 0 = Some q" "k_unit_waits (demo_done q) = None"
    by (simp_all add: demo_done_def demo_ctrl_def zero_ctrl_def)
qed

lemma demo_fields: "replies (demo_done q) = []" "k_io_q (demo_done q) = demo_queue\<lparr>q_qid := 1\<rparr>"
  "sq_contents (demo_queue\<lparr>q_qid := 1\<rparr>) = []"
  by (simp_all add: demo_done_def demo_ctrl_def zero_ctrl_def replies_def sq_contents_def sq_used_def demo_queue_def
      zero_queue_def)

theorem complete_single_shot_witness:
  "replies (nvme_complete_rq m68k_platform 0 (demo_done demo_read)) = [7] \<and>
   io_Error (k_ios (nvme_complete_rq m68k_platform 0 (demo_done demo_read)) 7) = IOERR_NO_ERROR"
proof -
  have "plain_io demo_read 7" "nvme_decide_disposition demo_read = COMPLETE"
    by (simp_all add: plain_io_def demo_read_def zero_req_def nvme_decide_disposition_def)
  then show ?thesis
    using complete_single_shot [OF demo_done_ok(1) m68k_req_slab_ok demo_done_ok(2,3) _ _ demo_done_ok(4), of demo_read 7]
    by (simp add: demo_fields nvme_error_status_def demo_read_def zero_req_def)
qed

definition demo_failed :: nvme_request where
  "demo_failed = demo_read\<lparr>r_status := 0x370\<rparr>"

lemma demo_failed_retry: "nvme_decide_disposition demo_failed = RETRY" "retry_crd demo_failed = 0" "r_q demo_failed = Io_q"
  by (simp_all add: demo_failed_def demo_read_def zero_req_def nvme_decide_disposition_def nvme_req_noretry_def retry_crd_def)

theorem retry_contract_witness:
  "in_slot (nvme_complete_rq m68k_platform 0 (demo_done demo_failed)) 0 \<and>
   r_retries (rq (nvme_complete_rq m68k_platform 0 (demo_done demo_failed)) 0) = 1"
proof -
  have q: "get_q (demo_done demo_failed) (r_q demo_failed) = demo_queue\<lparr>q_qid := 1\<rparr>"
    by (simp add: demo_failed_retry get_q_def demo_fields)
  have "q_free_top demo_queue = 4" "q_sq_base demo_queue = Some 0x1000" "q_depth demo_queue = 4" by (simp_all add: demo_queue_def)
  moreover have "r_retries demo_failed = 0" by (simp add: demo_failed_def demo_read_def zero_req_def)
  ultimately show ?thesis
    using retry_contract [OF demo_done_ok(1-3) demo_failed_retry(1), where P = m68k_platform] demo_failed_retry(2)
    by (simp add: q demo_fields)
qed

text \<open>The same request with the ring full.\<close>

definition demo_full :: NVMeController where
  "demo_full = (demo_done demo_failed)\<lparr>k_io_q := demo_queue\<lparr>q_qid := 1, q_sq_tail := 3\<rparr>\<rparr>"

lemma demo_full_ok: "tables_ok demo_full" "idle_req demo_full 0" "k_reqs demo_full 0 = Some demo_failed"
  "k_io_q demo_full = demo_queue\<lparr>q_qid := 1, q_sq_tail := 3\<rparr>"
proof -
  have "queue_ok (get_q demo_full sel) \<and> ring_ok (get_q demo_full sel) \<and> slot (get_q demo_full sel) = (\<lambda>_. None)" for sel
    using demo_queue_ok
    by (cases sel) (auto simp: demo_full_def demo_done_def demo_ctrl_def get_q_def queue_ok_def ring_ok_def slot_def
        demo_queue_def fun_eq_iff)
  then show "tables_ok demo_full" "idle_req demo_full 0" by (simp_all add: tables_ok_def idle_req_def)
  show "k_reqs demo_full 0 = Some demo_failed" "k_io_q demo_full = demo_queue\<lparr>q_qid := 1, q_sq_tail := 3\<rparr>"
    by (simp_all add: demo_full_def demo_done_ok(3))
qed

theorem retry_ring_full_loses_request_witness:
  "k_reqs (nvme_complete_rq m68k_platform 0 demo_full) 0 = None \<and>
   replies (nvme_complete_rq m68k_platform 0 demo_full) = replies demo_full"
proof -
  have q: "get_q demo_full (r_q demo_failed) = demo_queue\<lparr>q_qid := 1, q_sq_tail := 3\<rparr>"
    by (simp add: demo_failed_retry get_q_def demo_full_ok)
  have "q_free_top demo_queue = 4" "q_sq_base demo_queue = Some 0x1000" "q_depth demo_queue = 4" "q_cq_head demo_queue = 0"
    by (simp_all add: demo_queue_def zero_queue_def)
  then show ?thesis
    using retry_ring_full_loses_request [OF demo_full_ok(1-3) demo_failed_retry(1,2), where P = m68k_platform]
    by (simp add: q sq_used_def)
qed

text \<open>The last sibling of a fully dispatched transfer.\<close>

definition demo_last :: NVMeController where
  "demo_last = (demo_done (demo_read\<lparr>r_io := None, r_ctx := Some 0\<rparr>))
     \<lparr>k_ctxs := (\<lambda>_. None)(0 := Some (demo_ctx\<lparr>x_io := 7, x_dispatched := 10240, x_inflight := 1\<rparr>))\<rparr>"

theorem complete_sibling_contract_witness:
  "tables_ok (nvme_complete_rq m68k_platform 0 demo_last)"
proof -
  let ?q = "demo_read\<lparr>r_io := None, r_ctx := Some 0\<rparr>"
  let ?x = "demo_ctx\<lparr>x_io := 7, x_dispatched := 10240, x_inflight := 1\<rparr>"
  have "get_q demo_last sel = get_q (demo_done ?q) sel" for sel by (cases sel) (simp_all add: demo_last_def get_q_def)
  then have ok: "tables_ok demo_last" "idle_req demo_last 0"
    using demo_done_ok(1,2) [of ?q] by (auto simp: tables_ok_def idle_req_def demo_last_def)
  have q: "k_reqs demo_last 0 = Some ?q" "k_ctxs demo_last 0 = Some ?x"
    by (simp_all add: demo_last_def demo_done_ok(3))
  have "siblings demo_last 0 = {0}" by (auto simp: siblings_def demo_last_def demo_done_def)
  then have "ctx_counted demo_last 0" by (simp add: ctx_counted_def cx_def q(2))
  moreover have "sib_cap demo_last = 3" by (simp add: demo_last_def demo_done_def demo_ctrl_def sib_cap_def)
  moreover have "nvme_decide_disposition ?q = COMPLETE" by (simp add: demo_read_def zero_req_def nvme_decide_disposition_def)
  ultimately show ?thesis
    using complete_sibling_contract [OF ok(1) m68k_req_slab_ok ok(2) q(1) _ q(2)] by (simp add: demo_ctx_def zero_ctx_def)
qed

theorem fail_nonready_terminal_leaks_tag_witness:
  "\<exists>s. nvme_state_terminal s \<and> tables_ok s \<and> \<not> tables_ok (snd (nvme_fail_nonready_command m68k_platform 0 s))"
proof -
  obtain s where a: "req_alloc m68k_platform Io_q id demo_ctrl = (Inr 0, s)" using demo_alloc by blast
  note ok = req_alloc_ok [OF demo_tables_ok m68k_req_slab_ok a]
  define s' where "s' = s\<lparr>k_state := NVME_CTRL_DEAD\<rparr>"
  obtain c q' where c: "acquire_cid (get_q demo_ctrl Io_q) 0 = Some (c, q')"
    and s: "s = (set_q Io_q q' demo_ctrl)\<lparr>k_reqs := (k_reqs demo_ctrl)(0 := Some ((id zero_req)\<lparr>r_q := Io_q, r_cid := c\<rparr>))\<rparr>"
    using req_alloc_cases [OF demo_tables_ok m68k_req_slab_ok, of Io_q id] a by auto
  have io: "k_io_q s' = q'" "k_reqs s' 0 = Some (zero_req\<lparr>r_q := Io_q, r_cid := c\<rparr>)"
    by (simp_all add: s'_def s set_q_def upd_q_def)
  have qok: "queue_ok (get_q demo_ctrl Io_q)" by (rule tables_okD(1) [OF demo_tables_ok])
  note ac = acquire_cid_ok [OF qok c] and ring = claim_ring [OF c]
  have free: "q_free_top q' = 3" "q_depth q' = 4" "q_sq_base q' \<noteq> None" "sq_contents q' = []"
    using ac(5,7) ring demo_fields(3) by (simp_all add: demo_get_q demo_queue_def)
  have t: "tables_ok s'" "in_slot s' 0"
    using ok by (auto simp: s'_def in_slot_def intro: tables_ok_same)
  moreover have "nvme_state_terminal s'" by (simp add: s'_def nvme_state_terminal_def)
  ultimately show ?thesis
    using fail_nonready_terminal_leaks_tag [OF t _ io(2), where P = m68k_platform] free by (auto simp: io(1))
qed

end
