(* ===== verification/Nvme_Drain.thy ===== *)
theory Nvme_Drain
  imports Nvme_Completion
begin

text \<open>
  The completion-queue drain and the watchdog of src/nvme/nvme_queue.c.  A drain
  works on the completion ring as the controller left it when the drain started:
  the entries are only ever written by the device, and an entry that arrives
  behind the last one is left to the next drain.
\<close>

section \<open>The drain loop\<close>

definition cqe_tag :: "nvme_completion \<Rightarrow> nat" where
  "cqe_tag c = unat (cqe_command_id c AND 0x0fff)"

text \<open>One fresh entry: the request in the named slot is completed if the whole identifier matches.\<close>

definition drain_cqe :: "platform \<Rightarrow> queue_sel \<Rightarrow> nvme_completion \<Rightarrow> NVMeController \<Rightarrow> NVMeController" where
  "drain_cqe P sel c s =
    (let q = get_q s sel;
         status = drop_bit 1 (p_le16 P (cqe_status c));
         req = (if cqe_tag c < q_depth q then slot q (cqe_tag c) else None)
     in case req of
       Some r \<Rightarrow>
         if cqe_command_id c = r_cid (rq s r)
         then nvme_complete_rq P r
           (upd_q sel (\<lambda>q. nvme_inflight_release q (r_cid (rq s r)))
             (upd_req r (\<lambda>x. x\<lparr>r_status := status, r_result := cqe_result c\<rparr>) s))
         else s
     | None \<Rightarrow> s)"

record drain_pos =
  d_head :: nat
  d_phase :: bool
  d_drained :: nat
  d_line :: u32

definition drain_inval :: "u32 \<Rightarrow> drain_pos \<Rightarrow> NVMeController \<Rightarrow> drain_pos \<times> NVMeController" where
  "drain_inval base d s =
    (let a = base + of_nat (d_head d) * 16; line = a AND NOT 63 in
     if line \<noteq> d_line d then (d\<lparr>d_line := line\<rparr>, emit (Ev_inval a 16) s) else (d, s))"

definition drain_next :: "nat \<Rightarrow> drain_pos \<Rightarrow> drain_pos" where
  "drain_next depth d =
    (if d_head d + 1 = depth then d\<lparr>d_head := 0, d_phase := \<not> d_phase d, d_drained := d_drained d + 1\<rparr>
     else d\<lparr>d_head := d_head d + 1, d_drained := d_drained d + 1\<rparr>)"

text \<open>
  The loop over a ring \<open>cq\<close> of \<open>depth\<close> entries at \<open>base\<close>; the first argument bounds
  the number of passes.  A callback that puts the unit task to sleep stops it.
\<close>

fun drain_loop :: "nat \<Rightarrow> platform \<Rightarrow> queue_sel \<Rightarrow> u32 \<Rightarrow> nvme_completion list \<Rightarrow> nat \<Rightarrow>
    drain_pos \<Rightarrow> NVMeController \<Rightarrow> drain_pos \<times> NVMeController" where
  "drain_loop 0 P sel base cq depth d s = (d, s)"
| "drain_loop (Suc n) P sel base cq depth d s =
    (case drain_inval base d s of (d1, s1) \<Rightarrow>
       if \<not> cqe_fresh P (cq ! d_head d1) (d_phase d1) then (d1, s1)
       else let s2 = drain_cqe P sel (cq ! d_head d1) s1 in
         if k_unit_waits s2 \<noteq> None then (d1, s2)
         else drain_loop n P sel base cq depth (drain_next depth d1) s2)"

definition drain_cq :: "platform \<Rightarrow> queue_sel \<Rightarrow> NVMeController \<Rightarrow> nat \<times> NVMeController" where
  "drain_cq P sel s =
    (let q = get_q s sel in
     case q_cq_base q of
       None \<Rightarrow> (0, s)
     | Some base \<Rightarrow>
       (case drain_loop (Suc (q_depth q)) P sel base (q_cq q) (q_depth q)
               \<lparr>d_head = q_cq_head q, d_phase = q_cq_phase q, d_drained = 0, d_line = 1\<rparr> s of
          (d, s1) \<Rightarrow>
            if k_unit_waits s1 \<noteq> None then (d_drained d, s1)
            else if d_drained d \<noteq> 0
            then (d_drained d, emit (Ev_doorbell (q_cq_db_off (get_q s1 sel)) (of_nat (d_head d)))
                    (upd_q sel (\<lambda>q. q\<lparr>q_cq_head := d_head d, q_cq_phase := d_phase d\<rparr>) s1))
            else (0, s1)))"

definition nvme_process_completions :: "platform \<Rightarrow> NVMeController \<Rightarrow> nat \<times> NVMeController" where
  "nvme_process_completions P s =
    (let s1 = snd (drain_cq P Admin_q s) in
     if k_unit_waits s1 \<noteq> None then (0, s1)
     else case drain_cq P Io_q (nvme_sq_batch_begin Io_q s1) of (n, s2) \<Rightarrow>
       if k_unit_waits s2 \<noteq> None then (n, s2) else (n, nvme_sq_batch_end Io_q s2))"

section \<open>The watchdog\<close>

definition nvme_watchdog_escalate :: "platform \<Rightarrow> queue_sel \<Rightarrow> NVMeController \<Rightarrow> NVMeController" where
  "nvme_watchdog_escalate P sel s =
    (if k_state s = NVME_CTRL_LIVE then emit (Ev_signal Sig_reset) s else nvme_flush_queue_inflight P sel s)"

definition elapsed_ms :: "u32 \<Rightarrow> u32 \<Rightarrow> u32" where
  "elapsed_ms now since = (now - since) div 1000"

definition class_timeout :: "nvme_request \<Rightarrow> u32" where
  "class_timeout q = (if r_unit q \<noteq> None then NVME_IO_TIMEOUT else NVME_ADMIN_TIMEOUT)"

text \<open>One slot of the sweep: the flag says that the sweep ends here.\<close>

definition watchdog_slot :: "platform \<Rightarrow> queue_sel \<Rightarrow> u32 \<Rightarrow> nat \<Rightarrow> NVMeController \<Rightarrow> bool \<times> NVMeController" where
  "watchdog_slot P sel now i s =
    (case slot (get_q s sel) i of
       None \<Rightarrow> (False, s)
     | Some r \<Rightarrow>
        let q = rq s r in
        if r_submit_us q = 0 then (False, s)
        else if r_flags q AND NVME_REQ_AER \<noteq> 0 then (False, s)
        else if r_flags q AND NVME_REQ_ABORT_SENT \<noteq> 0 then
          (if elapsed_ms now (r_abort_us q) < NVME_ABORT_TIMEOUT then (False, s)
           else (True, nvme_watchdog_escalate P sel s))
        else if elapsed_ms now (r_submit_us q) < class_timeout q
        then (False, s)
        else if cmd_opcode (r_cmd q) = nvme_admin_abort_cmd then (True, nvme_watchdog_escalate P sel s)
        else case nvme_abort_request P r s of
            (Some _, s1) \<Rightarrow> (False, s1)
          | (None, s1) \<Rightarrow> (False, upd_req r (\<lambda>x. x\<lparr>r_flags := r_flags x OR NVME_REQ_ABORT_SENT, r_abort_us := now\<rparr>) s1))"

fun watchdog_loop :: "platform \<Rightarrow> queue_sel \<Rightarrow> u32 \<Rightarrow> nat list \<Rightarrow> NVMeController \<Rightarrow> NVMeController" where
  "watchdog_loop P sel now [] s = s"
| "watchdog_loop P sel now (i # is) s =
    (case watchdog_slot P sel now i s of (stop, s1) \<Rightarrow> if stop then s1 else watchdog_loop P sel now is s1)"

definition watchdog_scan_queue :: "platform \<Rightarrow> queue_sel \<Rightarrow> u32 \<Rightarrow> NVMeController \<Rightarrow> NVMeController" where
  "watchdog_scan_queue P sel now s = watchdog_loop P sel now [0..<q_depth (get_q s sel)] s"

text \<open>The signed comparison of the retry deadline: the difference has its top bit clear.\<close>

definition retry_due :: "u32 \<Rightarrow> nvme_request \<Rightarrow> bool" where
  "retry_due now q \<longleftrightarrow> \<not> (sint (now - r_deadline_us q) < 0)"

fun retry_loop :: "platform \<Rightarrow> u32 \<Rightarrow> nat list \<Rightarrow> NVMeController \<Rightarrow> NVMeController" where
  "retry_loop P now [] s = s"
| "retry_loop P now (r # rs) s =
    (if k_unit_waits s \<noteq> None then s
     else if \<not> retry_due now (rq s r) then retry_loop P now rs s
     else retry_loop P now rs (snd (nvme_resubmit_io P r (s\<lparr>k_retry_list := remove1 r (k_retry_list s)\<rparr>))))"

definition nvme_tick_watchdog :: "platform \<Rightarrow> NVMeController \<Rightarrow> NVMeController" where
  "nvme_tick_watchdog P s =
    (let s1 = snd (nvme_process_completions P s) in
     if k_unit_waits s1 \<noteq> None then s1
     else
       let now = k_clock s1;
           s2 = watchdog_scan_queue P Admin_q now s1
       in if k_unit_waits s2 \<noteq> None then s2
       else let s3 = watchdog_scan_queue P Io_q now s2
       in if k_unit_waits s3 \<noteq> None then s3
       else retry_loop P now (k_retry_list s3) s3)"

section \<open>What a completion leaves of a queue\<close>

text \<open>The geometry of a queue and its completion ring, which only set-up, tear-down and the drain change.\<close>

definition geo :: "nvme_queue \<Rightarrow> u16 \<times> nat \<times> u32 option \<times> u32 option \<times> nvme_completion list \<times> nat \<times> bool \<times> u32" where
  "geo q = (q_qid q, q_depth q, q_sq_base q, q_cq_base q, q_cq q, q_cq_head q, q_cq_phase q, q_cq_db_off q)"

text \<open>No request of the I/O queue carries a callback.\<close>

definition io_plain :: "NVMeController \<Rightarrow> bool" where
  "io_plain s \<longleftrightarrow> (\<forall>r q. k_reqs s r = Some q \<longrightarrow> r_q q = Io_q \<longrightarrow> r_done q = None)"

definition dq_frame :: "queue_sel \<Rightarrow> NVMeController \<Rightarrow> NVMeController \<Rightarrow> bool" where
  "dq_frame sel s s' \<longleftrightarrow> geo (get_q s' sel) = geo (get_q s sel) \<and> (io_plain s \<longrightarrow> io_plain s')"

lemma dq_frame_refl [simp]: "dq_frame sel s s"
  by (simp add: dq_frame_def)

lemma dq_frame_trans: "dq_frame sel s s' \<Longrightarrow> dq_frame sel s' s'' \<Longrightarrow> dq_frame sel s s''"
  by (simp add: dq_frame_def)

lemma dq_frame_same:
  assumes "dq_frame sel s s'" "get_q s'' sel = get_q s' sel" "k_reqs s'' = k_reqs s'"
  shows "dq_frame sel s s''"
  using assms by (simp add: dq_frame_def io_plain_def)

lemma geo_pool [simp]:
  "geo (nvme_inflight_release q c) = geo q" "geo (nvme_inflight_claim q c r) = geo q"
  "geo (snd (nvme_alloc_cid q)) = geo q" "geo (q\<lparr>q_last_sq_tail := t\<rparr>) = geo q" "geo (q\<lparr>q_sq_batch_depth := b\<rparr>) = geo q"
  "nvme_alloc_cid q = (c, q') \<Longrightarrow> geo q' = geo q" "sq_push cmd q = Some q' \<Longrightarrow> geo q' = geo q"
  by (auto simp: geo_def nvme_inflight_release_def nvme_inflight_claim_def nvme_alloc_cid_def sq_push_def Let_def
      split: if_splits)

lemma dq_frame_free_req: "dq_frame sel s s' \<Longrightarrow> dq_frame sel s (free_req r s')"
  by (auto simp: dq_frame_def io_plain_def split: if_splits)

lemma dq_frame_step:
  assumes "dq_frame sel s s'"
  shows "dq_frame sel s (free_req r s')" "dq_frame sel s (emit e s')" "dq_frame sel s (upd_ctx c f s')"
    "dq_frame sel s (park_ctx c s')" "dq_frame sel s (dma_free a s')" "dq_frame sel s (set_prp_slab small h s')"
    "dq_frame sel s (s'\<lparr>k_trace := t\<rparr>)" "dq_frame sel s (s'\<lparr>k_mem := m\<rparr>)" "dq_frame sel s (s'\<lparr>k_dma := d\<rparr>)"
    "dq_frame sel s (upd_io io g s')" "dq_frame sel s (free_ctx c s')" "dq_frame sel s (s'\<lparr>k_retry_list := l\<rparr>)"
  by (rule dq_frame_free_req [OF assms]
      | (rule dq_frame_same [OF assms];
         cases sel; simp add: emit_def upd_ctx_def park_ctx_def dma_free_def set_prp_slab_def upd_io_def free_ctx_def get_q_def))+

declare dq_frame_step [simp]

lemma dq_frame_upd_req:
  assumes "dq_frame sel s s'" "r_q (f (rq s' r)) = Io_q \<Longrightarrow> r_q (rq s' r) = Io_q" "r_done (f (rq s' r)) = r_done (rq s' r)"
  shows "dq_frame sel s (upd_req r f s')"
  using assms by (auto simp: dq_frame_def io_plain_def rq_def zero_req_def split: option.splits if_splits)

lemma dq_frame_queue:
  assumes "dq_frame sel s s'"
  shows "geo (f (get_q s' sel)) = geo (get_q s' sel) \<Longrightarrow> dq_frame sel s (upd_q sel' f s')"
    "geo q = geo (get_q s' sel') \<Longrightarrow> dq_frame sel s (set_q sel' q s')"
  using assms by (cases "sel' = sel"; simp add: dq_frame_def io_plain_def get_q_upd_other get_q_set_other)+

lemma dq_frame_commit [simp]: "dq_frame sel s s' \<Longrightarrow> dq_frame sel s (nvme_sq_commit sel' s')"
  by (auto simp: nvme_sq_commit_def Let_def intro!: dq_frame_queue)

lemmas dq_intros = dq_frame_step dq_frame_upd_req dq_frame_queue dq_frame_commit

lemma dq_frame_batch [simp]:
  assumes "dq_frame sel s s'"
  shows "dq_frame sel s (nvme_sq_batch_begin sel' s')" "dq_frame sel s (nvme_sq_batch_end sel' s')"
  using assms by (auto simp: nvme_sq_batch_begin_def nvme_sq_batch_end_def Let_def intro!: dq_intros)

lemma dq_frame_free_dma [simp]: "dq_frame sel s s' \<Longrightarrow> dq_frame sel s (nvme_req_free_dma_buffers r s')"
  by (auto simp: nvme_req_free_dma_buffers_def Let_def free_prp_pages_def fold_dma_free split: option.split
      intro!: dq_intros)

lemma dq_frame_destroy [simp]: "dq_frame sel s s' \<Longrightarrow> dq_frame sel s (nvme_req_destroy r s')"
  by (simp add: nvme_req_destroy_def Let_def dq_frame_queue)

lemma dq_frame_cleanup [simp]: "dq_frame sel s s' \<Longrightarrow> dq_frame sel s (nvme_cleanup_cmd r s')"
  by (subst nvme_cleanup_cmd_def, subst read_back_shape) simp

lemma dq_frame_submit [simp]: "dq_frame sel s s' \<Longrightarrow> dq_frame sel s (snd (nvme_submit_io r s'))"
  by (auto simp: nvme_submit_io_def Let_def split: option.split intro!: dq_intros)

lemma dq_frame_req_alloc:
  assumes "dq_frame sel s s'" "sel' = Io_q \<Longrightarrow> r_done (fill zero_req) = None"
  shows "dq_frame sel s (snd (req_alloc P sel' fill s'))"
  using assms
  by (auto simp: req_alloc_def Let_def dq_frame_def io_plain_def rq_def split: option.split prod.split)
    (auto simp: set_q_def upd_q_def get_q_def split: queue_sel.splits)

lemma dq_frame_alloc_io [simp]: "dq_frame sel s s' \<Longrightarrow> dq_frame sel s (snd (nvme_req_alloc_io P u io s'))"
  using dq_frame_req_alloc [of sel s s' Io_q "\<lambda>q. q\<lparr>r_io := io, r_unit := Some u\<rparr>" P]
  by (cases "req_alloc P Io_q (\<lambda>q. q\<lparr>r_io := io, r_unit := Some u\<rparr>) s'")
    (auto simp: nvme_req_alloc_io_def zero_req_def split: sum.split alloc_failure.split)

lemma dq_frame_setup_rw [simp]: "dq_frame sel s s' \<Longrightarrow> dq_frame sel s (snd (nvme_setup_rw P r lba n opc buf s'))"
proof -
  have bnc: "dq_frame sel s x" if "setup_bounce P r opc b m y = Some (d, x)" "dq_frame sel s y" for b m d x y
    using that by (auto simp: setup_bounce_def Let_def dma_alloc_def split: if_splits option.splits intro!: dq_intros)
  have bp: "dq_frame sel s x" if "build_prps P r b m y = (ok, x)" "dq_frame sel s y" for b m ok x y
  proof (rule build_prps_shape [OF that(1)])
    fix q' hs hl t
    assume x: "x = y\<lparr>k_reqs := (k_reqs y)(r := Some q'), k_prp_small := hs, k_prp_large := hl, k_trace := t\<rparr>"
      and q': "same_but_prps q' (rq y r)"
    have "r_q q' = r_q (rq y r)" "r_done q' = r_done (rq y r)"
      by (subst q' [unfolded same_but_prps_def], simp)+
    then have "dq_frame sel s (upd_req r (\<lambda>_. q') y)" by (intro dq_frame_upd_req [OF that(2)]) simp_all
    then show "dq_frame sel s x" by (rule dq_frame_same) (simp_all add: x)
  qed
  assume "dq_frame sel s s'"
  then show ?thesis
    unfolding nvme_setup_rw_def Let_def
    by (auto split: option.split prod.split intro!: dq_intros dest!: bnc bp simp: rw_sqe_def)
qed

lemma dq_frame_pump_once:
  "pump_once P c s = Pump_more s' \<Longrightarrow> dq_frame sel s s'" "pump_once P c s = Pump_stop e s' \<Longrightarrow> dq_frame sel s s'"
proof -
  obtain res s1 where a: "nvme_req_alloc_io P (x_unit (cx s c)) None s = (res, s1)" by (meson surj_pair)
  have f1: "dq_frame sel s s1" using dq_frame_alloc_io [OF dq_frame_refl, of sel s P "x_unit (cx s c)" None] a by simp
  have "dq_frame sel s (case pump_once P c s of Pump_more s' \<Rightarrow> s' | Pump_stop e s' \<Rightarrow> s')"
  proof (cases res)
    case (Inl err)
    then show ?thesis using a f1 by (simp add: pump_once_alt)
  next
    case (Inr r)
    obtain serr s3 where e3: "alloc_setup P c r s s1 = (serr, s3)" by (meson surj_pair)
    have f2: "dq_frame sel s (upd_req r (\<lambda>q. q\<lparr>r_ctx := Some c\<rparr>) s1)" by (rule dq_frame_upd_req [OF f1]) simp_all
    have "dq_frame sel s (snd (alloc_setup P c r s s1))"
      using dq_frame_setup_rw [OF f2] f2
      by (auto simp: alloc_setup_def Let_def nvme_setup_write_zeroes_def intro!: dq_frame_upd_req)
    then have f3: "dq_frame sel s s3" using e3 by simp
    let ?s4 = "upd_ctx c (\<lambda>x. x\<lparr>x_dispatched := x_dispatched x + next_bytes s (cx s c),
                x_inflight := x_inflight x + 1\<rparr>) s3"
    obtain suberr s5 where sub: "nvme_submit_io r ?s4 = (suberr, s5)" by (meson surj_pair)
    have "dq_frame sel s s5" using dq_frame_submit [of sel s ?s4 r] f3 unfolding sub by simp
    then show ?thesis using f3 unfolding pump_once_alt a prod.case Inr sum.case e3 sub Let_def by simp
  qed
  then show "pump_once P c s = Pump_more s' \<Longrightarrow> dq_frame sel s s'" "pump_once P c s = Pump_stop e s' \<Longrightarrow> dq_frame sel s s'"
    by simp_all
qed

lemma dq_frame_pump: "dq_frame sel s (snd (nvme_io_context_pump P c s))"
proof (induction P c s rule: nvme_io_context_pump.induct)
  case (1 P c s)
  show ?case
  proof (cases "pump_once P c s")
    case (Pump_more s')
    then show ?thesis
      using 1 dq_frame_trans [OF dq_frame_pump_once(1) [OF Pump_more]] by (subst nvme_io_context_pump.simps) simp
  next
    case (Pump_stop e s')
    then show ?thesis using dq_frame_pump_once(2) [OF Pump_stop] by (subst nvme_io_context_pump.simps) simp
  qed
qed

lemma dq_frame_alloc_admin:
  assumes "dq_frame sel s s'" "nvme_req_alloc_admin P s' = (res, s1)"
  shows "dq_frame sel s s1" "res = Inr r \<Longrightarrow> r_q (rq s1 r) = Admin_q"
proof -
  obtain w s2 where w: "req_alloc P Admin_q id s' = (w, s2)" by (meson surj_pair)
  have "s1 = s2" "res = Inr r \<Longrightarrow> w = Inr r"
    using assms(2) w by (auto simp: nvme_req_alloc_admin_def split: sum.splits alloc_failure.splits)
  then show "dq_frame sel s s1" "res = Inr r \<Longrightarrow> r_q (rq s1 r) = Admin_q"
    using dq_frame_req_alloc [OF assms(1), of Admin_q id P] w
    by (auto simp: req_alloc_def Let_def split: option.splits prod.splits if_splits)
qed

lemma dq_frame_stage [simp]: "dq_frame sel s s' \<Longrightarrow> dq_frame sel s (nvme_stage_admin_prps P r b n s')"
  by (auto simp: nvme_stage_admin_prps_def Let_def intro!: dq_intros)

lemma dq_frame_async [simp]:
  assumes "dq_frame sel s s'"
  shows "dq_frame sel s (snd (nvme_submit_async_cmd P cmd b n d priv fl s'))"
proof -
  obtain res s1 where a: "nvme_req_alloc_admin P s' = (res, s1)" by (meson surj_pair)
  note al = dq_frame_alloc_admin [OF assms a]
  show ?thesis
  proof (cases res)
    case (Inl e)
    then show ?thesis using a al(1) by (simp add: nvme_submit_async_cmd_def)
  next
    case (Inr r)
    have "dq_frame sel s (upd_req r (\<lambda>q. q\<lparr>r_done := Some d, r_priv := priv\<rparr>) s1)"
      using al(1) al(2) [OF Inr] by (auto simp: dq_frame_def io_plain_def)
    then show ?thesis
      using a Inr
      by (auto simp: nvme_submit_async_cmd_def Let_def split_def stamp_cid_def nvme_init_request_def
          intro!: dq_frame_submit dq_frame_stage dq_frame_upd_req)
  qed
qed

lemma dq_frame_sync_begin [simp]:
  assumes "dq_frame sel s s'"
  shows "dq_frame sel s (snd (nvme_submit_sync_begin P task cmd b n s'))"
proof -
  obtain res s1 where a: "nvme_req_alloc_admin P s' = (res, s1)" by (meson surj_pair)
  then show ?thesis
    using dq_frame_alloc_admin(1) [OF assms a]
    by (cases res) (auto simp: nvme_submit_sync_begin_def Let_def split_def stamp_cid_def nvme_init_request_def
        intro!: dq_frame_submit dq_frame_stage dq_frame_upd_req)
qed

lemma reqs_async_event: "k_reqs (nvme_complete_async_event P st res s) = k_reqs s"
  by (auto simp: nvme_complete_async_event_def nvme_handle_aen_notice_def Let_def nvme_queue_scan_def
      nvme_queue_fw_act_work_def nvme_change_ctrl_state_def nvme_reset_ctrl_def)

lemma dq_frame_state [simp]:
  assumes "dq_frame sel s s'"
  shows "dq_frame sel s (snd (nvme_change_ctrl_state n s'))" "dq_frame sel s (nvme_queue_scan s')"
    "dq_frame sel s (nvme_unquiesce_io_queues s')" "dq_frame sel s (s'\<lparr>k_unit_waits := w\<rparr>)"
    "dq_frame sel s (nvme_complete_async_event P st res s')" "dq_frame sel s (nvme_set_io_max_inflight s')"
proof -
  have w: "get_q (s'\<lparr>k_unit_waits := w\<rparr>) sel = get_q s' sel" by (cases sel) (simp_all add: get_q_def)
  show "dq_frame sel s (snd (nvme_change_ctrl_state n s'))" "dq_frame sel s (nvme_queue_scan s')"
    "dq_frame sel s (nvme_unquiesce_io_queues s')" "dq_frame sel s (s'\<lparr>k_unit_waits := w\<rparr>)"
    "dq_frame sel s (nvme_complete_async_event P st res s')" "dq_frame sel s (nvme_set_io_max_inflight s')"
    by (rule dq_frame_same [OF assms]; simp add: nvme_change_ctrl_state_def nvme_queue_scan_def nvme_unquiesce_io_queues_def
        gate_open_shape nvme_set_io_max_inflight_def reqs_async_event w)+
qed

lemma dq_frame_start_ctrl [simp]:
  assumes "dq_frame sel s s'"
  shows "dq_frame sel s (nvme_start_ctrl P s')"
proof -
  obtain w s1 where w: "nvme_enable_aen P UNIT_TASK s' = (w, s1)" by (meson surj_pair)
  have "dq_frame sel s (snd (nvme_enable_aen P UNIT_TASK s'))"
    using assms by (simp add: nvme_enable_aen_def Let_def split_def split: sum.split)
  then have "dq_frame sel s s1" using w by simp
  then show ?thesis using w by (simp add: nvme_start_ctrl_def nvme_submit_aer_def split: option.split)
qed

lemma dq_frame_reset_finish [simp]: "dq_frame sel s s' \<Longrightarrow> dq_frame sel s (nvme_reset_finish P ok s')"
  by (simp add: nvme_reset_finish_def Let_def)

lemma dq_frame_other_queue:
  assumes "dq_frame Admin_q s s'"
  shows "dq_frame Admin_q s (nvme_teardown_queue Io_q s')"
    "nvme_setup_queue P Io_q qid depth s' = (ok, s2) \<Longrightarrow> dq_frame Admin_q s s2"
  by (rule dq_frame_same [OF assms]; simp add: teardown_frame setup_queue_frame)+

lemma dq_frame_run_done:
  assumes "dq_frame Admin_q s s'"
  shows "dq_frame Admin_q s (run_done P d r s')"
proof -
  have fr: "dq_frame Admin_q s (free_req r s')" using assms by simp
  have step: "dq_frame Admin_q s (case nvme_submit_async_cmd P cmd 0 0 d' 0 0 y of (None, s2) \<Rightarrow> s2
      | (Some _, s2) \<Rightarrow> nvme_reset_finish P False (nvme_teardown_queue Io_q s2))"
    if "dq_frame Admin_q s y" for cmd d' y
    using dq_frame_async [OF that, of P cmd 0 0 d' 0 0]
    by (cases "nvme_submit_async_cmd P cmd 0 0 d' 0 0 y") (auto simp: dq_frame_other_queue split: option.split)
  show ?thesis
  proof (cases d)
    case Done_io_setup_features
    obtain ok s2 where q: "nvme_setup_queue P Io_q 1 NVME_IO_QUEUE_SIZE (free_req r s') = (ok, s2)" by (meson surj_pair)
    note f2 = dq_frame_other_queue(2) [OF fr q]
    show ?thesis
      using q fr f2 step [OF f2]
      by (simp add: Done_io_setup_features run_done_def nvme_io_setup_async_features_def Let_def split: bool.split)
  next
    case Done_aer
    then show ?thesis using assms by (simp add: run_done_def aer_done_def Let_def nvme_submit_aer_def)
  next
    case Done_fw_slot_info
    have "dq_frame Admin_q s (s''\<lparr>k_firmware := w\<rparr>)" if "dq_frame Admin_q s s''" for s'' w
      by (rule dq_frame_same [OF that]) (simp_all add: get_q_def)
    then show ?thesis using assms by (simp add: Done_fw_slot_info run_done_def fw_slot_info_done_def Let_def)
  qed (use fr step [OF fr] in \<open>simp_all add: run_done_def abort_done_def nvme_io_setup_async_cq_def nvme_io_setup_async_sq_def
      Let_def dq_frame_other_queue\<close>)
qed

lemma dq_frame_end_req:
  assumes "dq_frame sel s s'" "sel = Admin_q \<or> r_done (rq s' r) = None"
  shows "dq_frame sel s (nvme_end_req P r s')"
  using assms dq_frame_run_done [of s s' P]
  by (auto simp: nvme_end_req_def Let_def split: option.split)

lemma dq_frame_finish [simp]: "dq_frame sel s s' \<Longrightarrow> dq_frame sel s (nvme_io_context_finish c s')"
  by (simp add: nvme_io_context_finish_def Let_def)

lemma dq_frame_complete_now:
  assumes "sel = Admin_q \<or> r_done (rq s r) = None" "k_reqs s r \<noteq> None"
  shows "dq_frame sel s (complete_now P r s)"
proof -
  obtain q where q: "k_reqs s r = Some q" using assms(2) by blast
  have rq1: "rq (nvme_cleanup_cmd r s) r = scrubbed q" by (simp add: rq_def cleanup_cmd_shape [OF q])
  have c: "dq_frame sel s (nvme_cleanup_cmd r s)" by simp
  have e: "dq_frame sel s (nvme_end_req P r (nvme_cleanup_cmd r s))"
    by (rule dq_frame_end_req [OF c]) (use assms(1) q in \<open>simp add: rq1 rq_Some\<close>)
  show ?thesis
  proof (cases "r_ctx q")
    case None
    then show ?thesis using e by (simp add: complete_now_def Let_def rq1)
  next
    case (Some x)
    let ?s3 = "sibling_gone r x (nvme_cleanup_cmd r s)"
    have f3: "dq_frame sel s ?s3" using c by (simp add: sibling_gone_def)
    have "dq_frame sel s (snd (nvme_io_context_pump P x ?s3))" by (rule dq_frame_trans [OF f3 dq_frame_pump])
    then show ?thesis using Some f3 by (simp add: complete_now_def Let_def rq1 complete_sibling_alt)
  qed
qed

lemma dq_frame_complete:
  assumes "sel = Admin_q \<or> r_done (rq s r) = None" "k_reqs s r \<noteq> None"
  shows "dq_frame sel s (nvme_complete_rq P r s)"
  using assms
proof (induction P r s rule: nvme_complete_rq.induct)
  case (1 P r s)
  let ?s1 = "upd_req r retry_mark s"
  have f1: "dq_frame sel s ?s1" by (rule dq_frame_upd_req) (simp_all add: retry_mark_def)
  obtain cid q1 where a: "nvme_alloc_cid (get_q ?s1 (r_q (rq ?s1 r))) = (cid, q1)" by (meson surj_pair)
  have "dq_frame sel s (reclaim r cid q1 ?s1)"
    unfolding reclaim_def Let_def
    by (intro dq_frame_upd_req dq_frame_queue f1) (use a in \<open>simp_all add: stamp_cid_def geo_pool(6)\<close>)
  then have sub: "dq_frame sel s (snd (nvme_submit_io r (reclaim r cid q1 ?s1)))" by simp
  have park: "dq_frame sel s (retry_park n r ?s1)" for n
    unfolding retry_park_def Let_def by (intro dq_frame_step dq_frame_upd_req f1) simp_all
  let ?s2 = "upd_req r (\<lambda>q. q\<lparr>r_status := NVME_SC_HOST_PATH_ERROR\<rparr>) ?s1"
  have f2: "dq_frame sel s ?s2" by (rule dq_frame_upd_req [OF f1]) simp_all
  have again: "dq_frame sel ?s2 (nvme_complete_rq P r ?s2)"
    if "nvme_decide_disposition (rq s r) \<noteq> COMPLETE" "retry_crd (rq s r) = 0" "cid = 0xFFFF"
    by (rule 1(1) [OF that(1) refl refl _ a [symmetric] that(3)]) (use that 1(2) in \<open>simp_all add: retry_mark_def\<close>)
  show ?case
  proof (cases "nvme_decide_disposition (rq s r) = COMPLETE")
    case True
    then show ?thesis using dq_frame_complete_now [OF 1(2,3)] by (subst nvme_complete_rq.simps) simp
  next
    case False
    then show ?thesis
      using park sub again dq_frame_trans [OF f2] a by (subst nvme_complete_rq.simps) (simp add: Let_def)
  qed
qed

section \<open>Drain properties\<close>

lemma cqe_tag_cid: "cqe_tag c = cid_tag (cqe_command_id c)"
  by (simp add: cqe_tag_def cid_tag_def)

lemma release_idle:
  assumes ok: "tables_ok s" and sl: "slot (get_q s sel) tag = Some r" and q: "k_reqs s r = Some q"
  defines "s' \<equiv> upd_q sel (\<lambda>qu. nvme_inflight_release qu (r_cid q)) s"
  shows "tables_ok s'" "idle_req s' r"
proof -
  have q': "r_q q = sel" "cid_tag (r_cid q) = tag" using tables_okD(3) [OF ok sl] q by auto
  have g: "get_q s' sel' = (if sel' = r_q q then nvme_inflight_release (get_q s sel') (r_cid q) else get_q s sel')" for sel'
    by (simp add: s'_def q'(1) get_q_upd_if)
  show "tables_ok s'"
    by (rule tables_ok_release [OF ok q _ g]) (use sl q' in \<open>simp_all add: s'_def\<close>)
  show "idle_req s' r"
    unfolding idle_req_def
  proof (intro allI notI)
    fix sel' tag' assume a: "slot (get_q s' sel') tag' = Some r"
    have "slot (nvme_inflight_release (get_q s sel) (r_cid q)) = (slot (get_q s sel))(tag := None)"
      using cids.release_busy [OF tables_okD(1) [OF ok]] q'(2) by simp
    then have "slot (get_q s sel') tag' = Some r" "sel' = sel \<Longrightarrow> tag' \<noteq> tag"
      using a by (auto simp: g q'(1) split: if_splits)
    then show False using tables_okD(3) [OF ok] q q' by fastforce
  qed
qed

text \<open>The request in the slot an entry names, when the entry is its completion.\<close>

definition cqe_match :: "queue_sel \<Rightarrow> nvme_completion \<Rightarrow> NVMeController \<Rightarrow> nat option" where
  "cqe_match sel c s = (case slot (get_q s sel) (cqe_tag c) of
     Some r \<Rightarrow> if cqe_command_id c = r_cid (rq s r) then Some r else None | None \<Rightarrow> None)"

definition delivered :: "platform \<Rightarrow> queue_sel \<Rightarrow> nvme_completion \<Rightarrow> nat \<Rightarrow> NVMeController \<Rightarrow> NVMeController" where
  "delivered P sel c r s = upd_q sel (\<lambda>q. nvme_inflight_release q (r_cid (rq s r)))
     (upd_req r (\<lambda>x. x\<lparr>r_status := drop_bit 1 (p_le16 P (cqe_status c)), r_result := cqe_result c\<rparr>) s)"

lemma drain_cqe_alt:
  assumes "tables_ok s"
  shows "drain_cqe P sel c s = (case cqe_match sel c s of None \<Rightarrow> s | Some r \<Rightarrow> nvme_complete_rq P r (delivered P sel c r s))"
proof -
  have "slot (get_q s sel) (cqe_tag c) = None" if "\<not> cqe_tag c < q_depth (get_q s sel)"
    using that tables_okD(1) [OF assms, of sel] by (simp add: slot_def queue_ok_def)
  then show ?thesis
    by (auto simp: drain_cqe_def cqe_match_def delivered_def Let_def split: option.split)
qed

lemma delivered_ok:
  assumes "tables_ok s" "cqe_match sel c s = Some r"
  shows "tables_ok (delivered P sel c r s)" "idle_req (delivered P sel c r s) r" "dq_frame sel s (delivered P sel c r s)"
    "k_reqs (delivered P sel c r s) = (k_reqs s)(r := Some ((rq s r)
       \<lparr>r_status := drop_bit 1 (p_le16 P (cqe_status c)), r_result := cqe_result c\<rparr>))"
    "r_q (rq s r) = sel" "in_slot s r"
proof -
  let ?f = "\<lambda>x. x\<lparr>r_status := drop_bit 1 (p_le16 P (cqe_status c)), r_result := cqe_result c\<rparr>"
  have sl: "slot (get_q s sel) (cqe_tag c) = Some r" using assms(2) by (auto simp: cqe_match_def split: option.splits if_splits)
  obtain q where q: "k_reqs s r = Some q" "r_q q = sel" "cid_tag (r_cid q) = cqe_tag c"
    using tables_okD(3) [OF assms(1) sl] by blast
  show "r_q (rq s r) = sel" "in_slot s r" using q sl by (auto simp: rq_def in_slot_def)
  have t: "tables_ok (upd_req r ?f s)" by (rule upd_req_tables(1) [OF _ _ assms(1)]) simp_all
  show "tables_ok (delivered P sel c r s)" "idle_req (delivered P sel c r s) r"
    unfolding delivered_def
    using release_idle [OF t, of sel "cqe_tag c" r "?f q"] sl q by (simp_all add: rq_def)
  show "dq_frame sel s (delivered P sel c r s)"
    unfolding delivered_def by (intro dq_frame_queue dq_frame_upd_req dq_frame_refl) simp_all
  show "k_reqs (delivered P sel c r s) = (k_reqs s)(r := Some (?f (rq s r)))" by (simp add: delivered_def)
qed

lemma drain_cqe_ok:
  assumes "tables_ok s" "req_slab_ok P" "io_plain s"
  shows "tables_ok (drain_cqe P sel c s)" "dq_frame sel s (drain_cqe P sel c s)"
proof -
  have "tables_ok (drain_cqe P sel c s) \<and> dq_frame sel s (drain_cqe P sel c s)"
  proof (cases "cqe_match sel c s")
    case None
    then show ?thesis using assms by (simp add: drain_cqe_alt)
  next
    case (Some r)
    note d = delivered_ok [OF assms(1) Some]
    have live: "k_reqs (delivered P sel c r s) r \<noteq> None" by (simp add: d(4))
    obtain q where q: "k_reqs s r = Some q" using d(6) by (auto simp: in_slot_def)
    have "r_done (rq (delivered P sel c r s) r) = r_done q" "r_q q = sel" using d(5) q by (simp_all add: rq_def d(4))
    then have "sel = Admin_q \<or> r_done (rq (delivered P sel c r s) r) = None"
      using assms(3) q by (cases sel) (simp_all add: io_plain_def)
    then have "dq_frame sel s (nvme_complete_rq P r (delivered P sel c r s))"
      using dq_frame_trans [OF d(3) dq_frame_complete] live by blast
    then show ?thesis
      using complete_rq_tables [OF d(1) assms(2) d(2) live] Some assms(1) by (simp add: drain_cqe_alt)
  qed
  then show "tables_ok (drain_cqe P sel c s)" "dq_frame sel s (drain_cqe P sel c s)" by simp_all
qed

text \<open>Position and phase after \<open>k\<close> entries, from head \<open>h\<close> and phase \<open>p\<close>.\<close>

definition ring_phase :: "nat \<Rightarrow> nat \<Rightarrow> bool \<Rightarrow> nat \<Rightarrow> bool" where
  "ring_phase depth h p k = (if h + k < depth then p else \<not> p)"

definition at_pos :: "nat \<Rightarrow> nat \<Rightarrow> bool \<Rightarrow> nat \<Rightarrow> drain_pos \<Rightarrow> bool" where
  "at_pos depth h p k d \<longleftrightarrow> d_head d = (h + k) mod depth \<and> d_phase d = ring_phase depth h p k \<and> d_drained d = k"

definition ring_fresh :: "platform \<Rightarrow> nvme_completion list \<Rightarrow> nat \<Rightarrow> nat \<Rightarrow> bool \<Rightarrow> nat \<Rightarrow> bool" where
  "ring_fresh P cq depth h p k \<longleftrightarrow> cqe_fresh P (cq ! ((h + k) mod depth)) (ring_phase depth h p k)"

lemma drain_next_pos:
  assumes "at_pos depth h p k d" "h < depth" "k < depth"
  shows "at_pos depth h p (Suc k) (drain_next depth d)"
proof (cases "h + k < depth")
  case True
  then show ?thesis
    using assms by (cases "Suc (h + k) = depth") (auto simp: at_pos_def drain_next_def ring_phase_def)
next
  case False
  then have "(h + k) mod depth = h + k - depth" using assms(2,3) by (simp add: mod_if)
  moreover have "(h + Suc k) mod depth = h + Suc k - depth" using False assms(2,3) by (simp add: mod_if)
  ultimately show ?thesis using False assms by (auto simp: at_pos_def drain_next_def ring_phase_def)
qed

lemma drain_inval_pos [simp]: "at_pos depth h p k (fst (drain_inval base d s)) = at_pos depth h p k d"
  by (simp add: drain_inval_def Let_def at_pos_def)

lemma drain_inval_tables [simp]:
  "tables_ok (snd (drain_inval base d s)) = tables_ok s" "io_plain (snd (drain_inval base d s)) = io_plain s"
  "k_unit_waits (snd (drain_inval base d s)) = k_unit_waits s" "dq_frame sel s' s \<Longrightarrow> dq_frame sel s' (snd (drain_inval base d s))"
  by (auto simp: drain_inval_def Let_def io_plain_def emit_def intro: tables_ok_same dq_frame_same)

text \<open>A full lap ends the loop: the first entry has the old phase.\<close>

lemma lap_not_fresh:
  assumes "ring_fresh P cq depth h p 0" "h < depth"
  shows "\<not> ring_fresh P cq depth h p depth"
  using assms by (simp add: ring_fresh_def ring_phase_def cqe_fresh_def)

lemma drain_loop_ok:
  assumes "req_slab_ok P" "h < depth" "k \<le> depth" "n = Suc depth - k" "at_pos depth h p k d"
    and "\<forall>j < k. ring_fresh P cq depth h p j" "tables_ok s" "io_plain s"
    and "drain_loop n P sel base cq depth d s = (d', s')" "k_unit_waits s' = None"
  shows "tables_ok s' \<and> dq_frame sel s s' \<and>
    (\<exists>m. k \<le> m \<and> m \<le> depth \<and> at_pos depth h p m d' \<and> (\<forall>j < m. ring_fresh P cq depth h p j) \<and> \<not> ring_fresh P cq depth h p m)"
  using assms
proof (induction n arbitrary: k d s)
  case 0
  then show ?case by simp
next
  case (Suc n)
  obtain d1 s1 where i: "drain_inval base d s = (d1, s1)" by (meson surj_pair)
  then have d1: "d1 = fst (drain_inval base d s)" "s1 = snd (drain_inval base d s)" by simp_all
  have 1: "at_pos depth h p k d1" "tables_ok s1" "io_plain s1" "dq_frame sel s s1"
    using Suc.prems(5,7,8) by (simp_all add: d1)
  have fresh: "cqe_fresh P (cq ! d_head d1) (d_phase d1) = ring_fresh P cq depth h p k"
    using 1(1) by (simp add: at_pos_def ring_fresh_def)
  show ?case
  proof (cases "ring_fresh P cq depth h p k")
    case False
    then have "d' = d1" "s' = s1" using Suc.prems(9) i fresh by simp_all
    then show ?thesis using 1 Suc.prems(3,6) False by auto
  next
    case True
    have lt: "k < depth"
    proof (rule ccontr)
      assume "\<not> k < depth"
      then have "k = depth" using Suc.prems(3) by simp
      moreover have "ring_fresh P cq depth h p 0"
        using Suc.prems(2,6) True \<open>k = depth\<close> by (cases "depth = 0") auto
      ultimately show False using lap_not_fresh [OF _ Suc.prems(2)] True by blast
    qed
    let ?s2 = "drain_cqe P sel (cq ! d_head d1) s1"
    note ce = drain_cqe_ok [OF 1(2) Suc.prems(1) 1(3), of sel "cq ! d_head d1"]
    have nw: "k_unit_waits ?s2 = None"
      using Suc.prems(9,10) i fresh True by (auto simp: Let_def split: if_splits)
    have rest: "drain_loop n P sel base cq depth (drain_next depth d1) ?s2 = (d', s')"
      using Suc.prems(9) i fresh True nw by (simp add: Let_def)
    have "io_plain ?s2" using ce(2) 1(3) by (simp add: dq_frame_def)
    moreover have "\<forall>j < Suc k. ring_fresh P cq depth h p j" using Suc.prems(6) True by (auto simp: less_Suc_eq)
    ultimately have "tables_ok s' \<and> dq_frame sel ?s2 s' \<and>
      (\<exists>m. Suc k \<le> m \<and> m \<le> depth \<and> at_pos depth h p m d' \<and> (\<forall>j < m. ring_fresh P cq depth h p j) \<and> \<not> ring_fresh P cq depth h p m)"
      using Suc.IH [OF Suc.prems(1,2) _ _ drain_next_pos [OF 1(1) Suc.prems(2) lt] _ ce(1) _ rest Suc.prems(10)]
        lt Suc.prems(4) by simp
    then show ?thesis using dq_frame_trans [OF dq_frame_trans [OF 1(4) ce(2)]] by (auto intro: Suc_leD)
  qed
qed

lemma tables_ok_head:
  assumes "tables_ok s" "hh < q_depth (get_q s sel)"
  shows "tables_ok (upd_q sel (\<lambda>q. q\<lparr>q_cq_head := hh, q_cq_phase := ph\<rparr>) s)"
proof -
  have "queue_ok (q\<lparr>q_cq_head := hh, q_cq_phase := ph\<rparr>) = queue_ok q" "slot (q\<lparr>q_cq_head := hh, q_cq_phase := ph\<rparr>) = slot q" for q
    by (simp_all add: queue_ok_def slot_def fun_eq_iff)
  moreover have "ring_ok (q\<lparr>q_cq_head := hh, q_cq_phase := ph\<rparr>)" if "ring_ok q" "hh < q_depth q" for q
    using that by (simp add: ring_ok_def)
  ultimately show ?thesis
    using assms by (intro tables_ok_ring [OF assms(1)]) (auto simp: get_q_upd_if)
qed

text \<open>
  C25.  Draining a completion queue consumes exactly the entries posted since the
  last drain, in ring order: their number is at most the depth, the head and the
  phase end just behind the last of them, where no fresh entry is left, and the
  head doorbell is written once, last, if anything was consumed.  The request
  tables are consistent afterwards.  (A drain whose callback puts the unit task to
  sleep is excluded; it never returns.)
\<close>

theorem drain_cq_contract:
  assumes "tables_ok s" "req_slab_ok P" "io_plain s"
    and q: "q = get_q s sel" "q_cq_base q = Some base" "q_cq_head q < q_depth q"
    and d: "drain_cq P sel s = (n, s')" "k_unit_waits s' = None"
  shows "n \<le> q_depth q \<and> tables_ok s' \<and> io_plain s' \<and>
    (\<forall>j < n. ring_fresh P (q_cq q) (q_depth q) (q_cq_head q) (q_cq_phase q) j) \<and>
    q_cq (get_q s' sel) = q_cq q \<and> q_depth (get_q s' sel) = q_depth q \<and>
    q_cq_head (get_q s' sel) = (q_cq_head q + n) mod q_depth q \<and>
    q_cq_phase (get_q s' sel) = ring_phase (q_depth q) (q_cq_head q) (q_cq_phase q) n \<and>
    \<not> cqe_fresh P (q_cq q ! q_cq_head (get_q s' sel)) (q_cq_phase (get_q s' sel)) \<and>
    (n \<noteq> 0 \<longrightarrow> last (k_trace s') = Ev_doorbell (q_cq_db_off q) (of_nat (q_cq_head (get_q s' sel))))"
proof -
  let ?d0 = "\<lparr>d_head = q_cq_head q, d_phase = q_cq_phase q, d_drained = 0, d_line = 1\<rparr>"
  obtain d1 s1 where l: "drain_loop (Suc (q_depth q)) P sel base (q_cq q) (q_depth q) ?d0 s = (d1, s1)"
    by (meson surj_pair)
  have res: "(n, s') = (if k_unit_waits s1 \<noteq> None then (d_drained d1, s1)
            else if d_drained d1 \<noteq> 0
            then (d_drained d1, emit (Ev_doorbell (q_cq_db_off (get_q s1 sel)) (of_nat (d_head d1)))
                    (upd_q sel (\<lambda>q. q\<lparr>q_cq_head := d_head d1, q_cq_phase := d_phase d1\<rparr>) s1))
            else (0, s1))"
    using d(1) q(2) l by (simp add: drain_cq_def Let_def flip: q(1))
  have nw: "k_unit_waits s1 = None" using res d(2) by (auto split: if_splits)
  have "at_pos (q_depth q) (q_cq_head q) (q_cq_phase q) 0 ?d0" using q(3) by (simp add: at_pos_def ring_phase_def)
  from drain_loop_ok [OF assms(2) q(3) _ _ this _ assms(1,3) l nw]
  obtain m where t: "tables_ok s1" "dq_frame sel s s1" and m: "m \<le> q_depth q"
      "at_pos (q_depth q) (q_cq_head q) (q_cq_phase q) m d1"
      "\<forall>j < m. ring_fresh P (q_cq q) (q_depth q) (q_cq_head q) (q_cq_phase q) j"
      "\<not> ring_fresh P (q_cq q) (q_depth q) (q_cq_head q) (q_cq_phase q) m"
    by auto
  have g: "geo (get_q s1 sel) = geo q" "io_plain s1" using t(2) assms(3) by (simp_all add: dq_frame_def q(1))
  have head: "d_head d1 = (q_cq_head q + m) mod q_depth q" "d_phase d1 = ring_phase (q_depth q) (q_cq_head q) (q_cq_phase q) m"
    "d_drained d1 = m" using m(2) by (simp_all add: at_pos_def)
  have fr: "\<not> cqe_fresh P (q_cq q ! d_head d1) (d_phase d1)" using m(4) by (simp add: ring_fresh_def head)
  have n: "n = m" using res nw head(3) by (auto split: if_splits)
  show ?thesis
  proof (cases "m = 0")
    case True
    then have "s' = s1" using res nw head(3) by simp
    then show ?thesis using n m(3) t(1) g fr True q(3) head by (simp add: geo_def ring_phase_def)
  next
    case False
    then have s': "s' = emit (Ev_doorbell (q_cq_db_off (get_q s1 sel)) (of_nat (d_head d1)))
                    (upd_q sel (\<lambda>q. q\<lparr>q_cq_head := d_head d1, q_cq_phase := d_phase d1\<rparr>) s1)"
      using res nw head(3) by simp
    have "d_head d1 < q_depth (get_q s1 sel)" using q(3) g(1) by (simp add: head geo_def)
    then have "tables_ok s'" unfolding s' using tables_ok_head [OF t(1)] by (auto intro: tables_ok_same)
    moreover have "io_plain s'" using g(2) by (simp add: s' io_plain_def)
    ultimately show ?thesis using n m g(1) fr head by (simp add: s' geo_def emit_def)
  qed
qed

text \<open>
  C26.  A completion entry is delivered to a request only if the request is in
  flight on that queue in the slot the entry names, under exactly the entry's
  command identifier.  Any other entry, a duplicate or a stale generation,
  changes nothing.  A delivered entry has its slot released and its status and
  result stored before the request is completed.
\<close>

theorem drain_cqe_rejects_stale:
  assumes "tables_ok s"
  shows "case slot (get_q s sel) (cid_tag (cqe_command_id c)) of
      None \<Rightarrow> drain_cqe P sel c s = s
    | Some r \<Rightarrow> if r_cid (rq s r) \<noteq> cqe_command_id c then drain_cqe P sel c s = s
        else \<exists>s1. drain_cqe P sel c s = nvme_complete_rq P r s1 \<and> tables_ok s1 \<and> idle_req s1 r \<and>
          k_reqs s1 = (k_reqs s)(r := Some ((rq s r)\<lparr>r_status := drop_bit 1 (p_le16 P (cqe_status c)), r_result := cqe_result c\<rparr>)) \<and>
          slot (get_q s1 sel) = (slot (get_q s sel))(cid_tag (cqe_command_id c) := None)"
proof (cases "slot (get_q s sel) (cid_tag (cqe_command_id c))")
  case None
  then show ?thesis using assms by (simp add: drain_cqe_alt cqe_match_def cqe_tag_cid)
next
  case (Some r)
  show ?thesis
  proof (cases "r_cid (rq s r) = cqe_command_id c")
    case False
    then show ?thesis using Some assms by (simp add: drain_cqe_alt cqe_match_def cqe_tag_cid)
  next
    case True
    then have m: "cqe_match sel c s = Some r" using Some by (simp add: cqe_match_def cqe_tag_cid)
    note d = delivered_ok [OF assms m]
    have "slot (get_q (delivered P sel c r s) sel) = (slot (get_q s sel))(cid_tag (cqe_command_id c) := None)"
      using cids.release_busy [OF tables_okD(1) [OF assms]] True by (simp add: delivered_def)
    then have "drain_cqe P sel c s = nvme_complete_rq P r (delivered P sel c r s) \<and> tables_ok (delivered P sel c r s) \<and>
        idle_req (delivered P sel c r s) r \<and>
        k_reqs (delivered P sel c r s) = (k_reqs s)(r := Some ((rq s r)\<lparr>r_status := drop_bit 1 (p_le16 P (cqe_status c)), r_result := cqe_result c\<rparr>)) \<and>
        slot (get_q (delivered P sel c r s) sel) = (slot (get_q s sel))(cid_tag (cqe_command_id c) := None)"
      using d(1,2,4) m assms by (simp add: drain_cqe_alt)
    then show ?thesis using Some True by auto
  qed
qed

section \<open>Cancelling a queue\<close>

lemma cancelled_decide: "nvme_decide_disposition (q\<lparr>r_status := st, r_flags := r_flags q OR NVME_REQ_CANCELLED\<rparr>) = COMPLETE"
proof -
  have "bit ((r_flags q OR 1) AND 1) 0" by (simp add: bit_simps)
  then have "(r_flags q OR 1) AND 1 \<noteq> 0" by (metis bit_0_eq bot_apply bot_bool_def)
  then show ?thesis by (simp add: nvme_decide_disposition_def nvme_req_noretry_def)
qed

lemma replies_finish: "replies (nvme_io_context_finish c s) = replies s @ [x_io (cx s c)]"
  by (simp add: nvme_io_context_finish_def Let_def free_ctx_def upd_io_def replies_def emit_def)

lemma finish_fields: "k_reqs (nvme_io_context_finish c s) = k_reqs s" "get_q (nvme_io_context_finish c s) sel = get_q s sel"
  "k_unit_waits (nvme_io_context_finish c s) = k_unit_waits s"
  by (simp_all add: nvme_io_context_finish_def Let_def free_ctx_def upd_io_def) (simp add: emit_def)

text \<open>A cancelled request without a callback: no queue changes, and at most the request itself goes away.\<close>

lemma cancel_shape:
  fixes P :: platform
  assumes "k_reqs s r = Some q" "r_done q = None" "k_unit_waits s = None"
  defines "s' \<equiv> nvme_cancel_request P r s"
  shows "get_q s' sel = get_q s sel" "k_unit_waits s' = None" "r' \<noteq> r \<Longrightarrow> k_reqs s' r' = k_reqs s r'"
    "k_reqs s' r = Some q' \<Longrightarrow> r_done q' = None" "\<exists>l. replies s' = replies s @ l \<and> (\<forall>io. plain_io q io \<longrightarrow> l = [io])"
    "plain_io q io \<Longrightarrow> k_reqs s' r = None"
proof -
  define q0 where "q0 = q\<lparr>r_status := NVME_SC_HOST_ABORTED_CMD, r_flags := r_flags q OR NVME_REQ_CANCELLED\<rparr>"
  define s1 where "s1 = nvme_cleanup_cmd r (upd_req r (\<lambda>_. q0) s)"
  have "k_reqs s1 = (k_reqs s)(r := Some (scrubbed q0))" "k_unit_waits s1 = None"
    using assms(3) by (simp_all add: s1_def cleanup_cmd_shape [of _ r q0]) (simp add: upd_req_def)
  moreover have "replies s1 = replies s" "get_q s1 sel = get_q s sel" for sel by (simp_all add: s1_def)
  ultimately have k1: "k_reqs s1 = (k_reqs s)(r := Some (scrubbed q0))" "k_unit_waits s1 = None" "replies s1 = replies s"
    "get_q s1 sel = get_q s sel" for sel by simp_all
  have q0: "r_done q0 = None" "r_ctx q0 = r_ctx q" "r_waiter q0 = r_waiter q" "r_io q0 = r_io q" "r_status q0 = 0x371"
    using assms(2) by (simp_all add: q0_def)
  have "upd_req r (\<lambda>q. q\<lparr>r_status := NVME_SC_HOST_ABORTED_CMD, r_flags := r_flags q OR NVME_REQ_CANCELLED\<rparr>) s = upd_req r (\<lambda>_. q0) s"
    by (simp add: upd_req_def rq_def assms(1) q0_def)
  then have s': "s' = (case r_ctx q of Some c \<Rightarrow> complete_sibling P r c s1
     | None \<Rightarrow> let s2 = nvme_end_req P r s1; q2 = stale_rq (scrubbed q0) r s2 in
        if k_unit_waits s2 \<noteq> None then s2
        else if r_done q2 \<noteq> None \<or> r_waiter q2 \<noteq> None then s2
        else if r_io q2 \<noteq> None then free_req r s2 else s2)"
    using cancelled_decide [of q NVME_SC_HOST_ABORTED_CMD]
    by (simp add: s'_def nvme_cancel_request_def complete_rq_unfold complete_now_def Let_def flip: q0_def s1_def)
      (simp add: rq_def k1(1) q0 Let_def split: option.split)
  have err: "nvme_error_status 0x371 = TDERR_NotSpecified" by (simp add: nvme_error_status_def Let_def)
  have "get_q s' sel = get_q s sel \<and> k_unit_waits s' = None \<and> (r' \<noteq> r \<longrightarrow> k_reqs s' r' = k_reqs s r') \<and>
    (k_reqs s' r = Some q' \<longrightarrow> r_done q' = None) \<and> (\<exists>l. replies s' = replies s @ l \<and> (\<forall>io. plain_io q io \<longrightarrow> l = [io])) \<and>
    (plain_io q io \<longrightarrow> k_reqs s' r = None)" for sel r' q' io
  proof (cases "r_ctx q")
    case None
    show ?thesis
      using k1 q0 None
      by (auto simp: s' nvme_end_req_def Let_def rq_def stale_rq_def plain_io_def upd_io_def split: option.split)
        (auto simp: replies_def emit_def free_req_def)
  next
    case (Some c)
    let ?s3 = "sibling_gone r c s1"
    have "x_first_error (cx ?s3 c) \<noteq> IOERR_NO_ERROR"
      by (simp add: sibling_gone_ctx latch_def rq_def k1(1) q0 err)
    then have s3: "s' = (if x_inflight (cx ?s3 c) = 0 \<and> \<not> x_stalled (cx ?s3 c) then nvme_io_context_finish c ?s3 else ?s3)"
      using Some by (simp add: s' complete_sibling_alt Let_def)
    have g: "get_q ?s3 sel = get_q s sel" "k_unit_waits ?s3 = None" for sel
      using k1 by (simp_all add: sibling_gone_def free_req_def upd_ctx_def)
    show ?thesis
      using Some g by (auto simp: s3 sibling_gone_ctx k1 plain_io_def replies_finish finish_fields)
  qed
  then show "get_q s' sel = get_q s sel" "k_unit_waits s' = None" "r' \<noteq> r \<Longrightarrow> k_reqs s' r' = k_reqs s r'"
    "k_reqs s' r = Some q' \<Longrightarrow> r_done q' = None" "\<exists>l. replies s' = replies s @ l \<and> (\<forall>io. plain_io q io \<longrightarrow> l = [io])"
    "plain_io q io \<Longrightarrow> k_reqs s' r = None" by blast+
qed

text \<open>The cancel walk over a list of slots of the I/O queue.\<close>

definition cancelled :: "nat list \<Rightarrow> NVMeController \<Rightarrow> NVMeController \<Rightarrow> bool" where
  "cancelled is s s' \<longleftrightarrow> tables_ok s' \<and> io_plain s' \<and> k_unit_waits s' = None \<and>
     slot (get_q s' Io_q) = (\<lambda>tag. if tag \<in> set is then None else slot (get_q s Io_q) tag) \<and>
     (\<forall>r. k_reqs s r = None \<longrightarrow> k_reqs s' r = None) \<and> (\<exists>l. replies s' = replies s @ l) \<and>
     (\<forall>tag r q io. tag \<in> set is \<longrightarrow> slot (get_q s Io_q) tag = Some r \<longrightarrow> k_reqs s r = Some q \<longrightarrow> plain_io q io \<longrightarrow>
        io \<in> set (replies s') \<and> k_reqs s' r = None)"

lemma cancelledD:
  assumes "cancelled is s s'"
  shows "tables_ok s'" "io_plain s'" "k_unit_waits s' = None"
    "slot (get_q s' Io_q) = (\<lambda>tag. if tag \<in> set is then None else slot (get_q s Io_q) tag)"
    "k_reqs s r = None \<Longrightarrow> k_reqs s' r = None" "\<exists>l. replies s' = replies s @ l"
    "tag \<in> set is \<Longrightarrow> slot (get_q s Io_q) tag = Some r \<Longrightarrow> k_reqs s r = Some q \<Longrightarrow> plain_io q io \<Longrightarrow>
        io \<in> set (replies s') \<and> k_reqs s' r = None"
  using assms unfolding cancelled_def by blast+

lemma cancel_slot:
  assumes "tables_ok s" "req_slab_ok P" "io_plain s" "k_unit_waits s = None" "slot (get_q s Io_q) i = Some r"
  defines "s' \<equiv> nvme_cancel_request P r (upd_q Io_q (\<lambda>q. nvme_inflight_release q (r_cid (rq s r))) s)"
  shows "tables_ok s'" "io_plain s'" "k_unit_waits s' = None" "slot (get_q s' Io_q) = (slot (get_q s Io_q))(i := None)"
    "r' \<noteq> r \<Longrightarrow> k_reqs s' r' = k_reqs s r'" "\<exists>l. replies s' = replies s @ l"
    "k_reqs s r = Some q \<Longrightarrow> plain_io q io \<Longrightarrow> io \<in> set (replies s') \<and> k_reqs s' r = None" "k_reqs s r \<noteq> None"
proof -
  obtain q0 where q0: "k_reqs s r = Some q0" "r_q q0 = Io_q" "cid_tag (r_cid q0) = i"
    using tables_okD(3) [OF assms(1,5)] by blast
  let ?s1 = "upd_q Io_q (\<lambda>q. nvme_inflight_release q (r_cid q0)) s"
  have s': "s' = nvme_cancel_request P r ?s1" using q0(1) by (simp add: s'_def rq_def)
  note rel = release_idle [OF assms(1,5) q0(1)]
  have k1: "k_reqs ?s1 r = Some q0" "k_unit_waits ?s1 = None" using q0(1) assms(4) by (simp_all add: upd_q_def)
  have d0: "r_done q0 = None" using assms(3) q0 by (auto simp: io_plain_def)
  note c = cancel_shape [OF k1(1) d0 k1(2), where P = P, folded s']
  have k1': "k_reqs ?s1 = k_reqs s" by simp
  let ?s2 = "upd_req r (\<lambda>q. q\<lparr>r_status := NVME_SC_HOST_ABORTED_CMD, r_flags := r_flags q OR NVME_REQ_CANCELLED\<rparr>) ?s1"
  have "tables_ok ?s2" "idle_req ?s2 r" using upd_req_tables_idle [OF rel] rel(2) by simp_all
  then show "tables_ok s'" unfolding s' nvme_cancel_request_def by (intro complete_rq_tables assms(2)) simp_all
  show "k_unit_waits s' = None" by (rule c(2))
  show oth: "r' \<noteq> r \<Longrightarrow> k_reqs s' r' = k_reqs s r'" for r' using c(3) by simp
  show "io_plain s'"
    unfolding io_plain_def
  proof (intro allI impI)
    fix r' q' assume a: "k_reqs s' r' = Some q'" "r_q q' = Io_q"
    show "r_done q' = None"
      using a assms(3) c(4) oth [of r'] by (cases "r' = r") (auto simp: io_plain_def)
  qed
  have "slot (get_q ?s1 Io_q) = (slot (get_q s Io_q))(i := None)"
    using cids.release_busy [OF tables_okD(1) [OF assms(1)]] q0(3) by simp
  then show "slot (get_q s' Io_q) = (slot (get_q s Io_q))(i := None)" by (simp add: c(1))
  show "\<exists>l. replies s' = replies s @ l" using c(5) by auto
  show "k_reqs s r = Some q \<Longrightarrow> plain_io q io \<Longrightarrow> io \<in> set (replies s') \<and> k_reqs s' r = None"
    using c(5,6) q0(1) by auto
  show "k_reqs s r \<noteq> None" using q0(1) by simp
qed

lemma flush_loop_cancelled:
  assumes "tables_ok s" "req_slab_ok P" "io_plain s" "k_unit_waits s = None"
  shows "cancelled is s (flush_loop P Io_q is s)"
  using assms
proof (induction "is" arbitrary: s)
  case Nil
  then show ?case by (simp add: cancelled_def)
next
  case (Cons i "is")
  show ?case
  proof (cases "slot (get_q s Io_q) i")
    case None
    then show ?thesis using Cons by (auto simp: cancelled_def fun_eq_iff)
  next
    case (Some r)
    define s1 where "s1 = nvme_cancel_request P r (upd_q Io_q (\<lambda>q. nvme_inflight_release q (r_cid (rq s r))) s)"
    define s2 where "s2 = flush_loop P Io_q is s1"
    note c = cancel_slot [OF Cons.prems Some, folded s1_def]
    have l: "flush_loop P Io_q (i # is) s = s2" using Some Cons.prems(4) by (simp add: s1_def s2_def)
    note ih = cancelledD [OF Cons.IH [OF c(1) Cons.prems(2) c(2,3)], folded s2_def]
    have uniq: "tag = i" if "slot (get_q s Io_q) tag = Some r" for tag
      using tables_okD(3) [OF Cons.prems(1) that] tables_okD(3) [OF Cons.prems(1) Some] by auto
    have "io \<in> set (replies s2) \<and> k_reqs s2 r' = None"
      if "tag \<in> set (i # is)" "slot (get_q s Io_q) tag = Some r'" "k_reqs s r' = Some q" "plain_io q io" for tag r' q io
    proof (cases "tag = i")
      case True
      then have "r' = r" using that(2) Some by simp
      then show ?thesis using c(7) that(3,4) ih(5) [of r'] ih(6) by auto
    next
      case False
      then have ne: "r' \<noteq> r" using uniq that(2) by auto
      have "slot (get_q s1 Io_q) tag = Some r'" using False that(2) by (simp add: c(4))
      then show ?thesis using ih(7) [of tag r' q io] that False c(5) [OF ne] by simp
    qed
    moreover have "k_reqs s2 r' = None" if "k_reqs s r' = None" for r'
      using ih(5) [of r'] c(5) [of r'] c(8) that by (cases "r' = r") auto
    moreover have "slot (get_q s2 Io_q) = (\<lambda>tag. if tag \<in> set (i # is) then None else slot (get_q s Io_q) tag)"
      unfolding ih(4) c(4) by (auto simp: fun_eq_iff)
    moreover have "\<exists>l. replies s2 = replies s @ l" using ih(6) c(6) by auto
    ultimately show ?thesis unfolding l cancelled_def using ih(1-3) by blast
  qed
qed

text \<open>
  C27.  Flushing the I/O queue, as a reset and the shutdown do before they free
  the rings, empties every slot of its table and replies every single-shot
  request that was in flight; the request tables stay consistent.
\<close>

theorem flush_io_queue_contract:
  fixes P :: platform
  assumes "tables_ok s" "req_slab_ok P" "io_plain s" "k_unit_waits s = None"
  defines "s' \<equiv> nvme_flush_queue_inflight P Io_q s"
  shows "tables_ok s' \<and> (\<forall>tag. slot (get_q s' Io_q) tag = None) \<and>
    (\<forall>tag r q io. slot (get_q s Io_q) tag = Some r \<longrightarrow> k_reqs s r = Some q \<longrightarrow> plain_io q io \<longrightarrow>
       io \<in> set (replies s') \<and> k_reqs s' r = None)"
proof -
  have ok: "queue_ok (get_q s Io_q)" by (rule tables_okD(1) [OF assms(1)])
  have out: "slot (get_q s Io_q) tag = None" if "\<not> tag < q_depth (get_q s Io_q)" for tag
    using ok that by (simp add: slot_def queue_ok_def)
  show ?thesis
  proof (cases "q_inflight (get_q s Io_q) = []")
    case True
    then show ?thesis using assms(1) by (simp add: s'_def nvme_flush_queue_inflight_def slot_def)
  next
    case False
    then have s': "s' = flush_loop P Io_q [0..<q_depth (get_q s Io_q)] s" by (simp add: s'_def nvme_flush_queue_inflight_def)
    have "tag < q_depth (get_q s Io_q)" if "slot (get_q s Io_q) tag = Some r" for tag r
      using out [of tag] that by (cases "tag < q_depth (get_q s Io_q)") auto
    then show ?thesis
      using flush_loop_cancelled [OF assms(1-4), of "[0..<q_depth (get_q s Io_q)]"] out
      unfolding s' cancelled_def by simp metis
  qed
qed

section \<open>Watchdog properties\<close>

lemma unat_diff_of_nat:
  assumes "t0 \<le> t" "t - t0 < 2 ^ 32"
  shows "unat (of_nat t - of_nat t0 :: u32) = t - t0"
proof -
  have "(of_nat t - of_nat t0 :: u32) = of_nat (t - t0)" using assms(1) by (simp add: of_nat_diff)
  then show ?thesis using assms(2) by (simp add: unat_of_nat take_bit_nat_eq_self)
qed

lemma elapsed_true:
  assumes "t0 \<le> t" "t - t0 < 2 ^ 32"
  shows "unat (elapsed_ms (of_nat t) (of_nat t0)) = (t - t0) div 1000"
  using unat_diff_of_nat [OF assms] by (simp add: elapsed_ms_def unat_div)

lemma submit_slots:
  assumes "nvme_submit_io r s = (NVME_IO_ASYNC, s')"
  shows "slot (get_q s' sel) = slot (get_q s sel)"
proof -
  obtain q' where p: "sq_push (r_cmd (rq s r)) (get_q s (r_q (rq s r))) = Some q'"
    and g: "get_q s' (r_q (rq s r)) = (if q_sq_batch_depth (get_q s (r_q (rq s r))) = 0 then q'\<lparr>q_last_sq_tail := q_sq_tail q'\<rparr> else q')"
    and o: "\<And>sel'. sel' \<noteq> r_q (rq s r) \<Longrightarrow> get_q s' sel' = get_q s sel'"
    by (rule submit_io_Async [OF assms]) blast
  show ?thesis using sq_push_pool(2) [OF p] g o [of sel] by (cases "sel = r_q (rq s r)") simp_all
qed

text \<open>An admin submission never takes a slot away from another request.\<close>

lemma async_keeps_slots:
  assumes ok: "tables_ok s" "req_slab_ok P" and sl: "slot (get_q s sel) i = Some r"
    and a: "nvme_submit_async_cmd P cmd b n d priv fl s = (v, s')"
  shows "slot (get_q s' sel) i = Some r"
proof -
  obtain w s1 where w: "req_alloc P Admin_q id s = (w, s1)" by (meson surj_pair)
  note c = req_alloc_cases [OF ok, of Admin_q id, unfolded w prod.case]
  show ?thesis
  proof (cases w)
    case (Inl f)
    then have "s' = s" using c a w by (cases f) (auto simp: nvme_submit_async_cmd_def nvme_req_alloc_admin_def)
    then show ?thesis using sl by simp
  next
    case (Inr ra)
    then obtain cid q' where fresh: "k_reqs s ra = None" and ac: "acquire_cid (get_q s Admin_q) ra = Some (cid, q')"
      and s1: "s1 = (set_q Admin_q q' s)\<lparr>k_reqs := (k_reqs s)(ra := Some ((id zero_req)\<lparr>r_q := Admin_q, r_cid := cid\<rparr>))\<rparr>"
      using c by auto
    note aq = acquire_cid_ok [OF tables_okD(1) [OF ok(1)] ac]
    define s5 where "s5 = nvme_stage_admin_prps P ra b n (upd_req ra (\<lambda>q. q\<lparr>r_flags := r_flags q OR fl\<rparr>)
      (upd_req ra (\<lambda>q. stamp_cid (nvme_init_request cmd q)) (upd_req ra (\<lambda>q. q\<lparr>r_done := Some d, r_priv := priv\<rparr>) s1)))"
    have f: "req_frame ra s1 s5"
      unfolding s5_def
      by (intro req_frame_stage req_frame_upd req_frame_refl) (simp_all add: stamp_cid_def nvme_init_request_def)
    have s': "s' = snd (nvme_submit_io ra s5)"
      using a w Inr by (simp add: nvme_submit_async_cmd_def nvme_req_alloc_admin_def Let_def split_def s5_def)
    have slots: "slot (get_q s5 sel') = (if sel' = Admin_q then (slot (get_q s sel'))(cid_tag cid := Some ra) else slot (get_q s sel'))" for sel'
    proof -
      have "get_q s5 sel' = get_q s1 sel'" using f by (simp add: req_frame_def)
      moreover have "get_q s1 sel' = (if sel' = Admin_q then q' else get_q s sel')"
        by (cases sel') (simp_all add: s1 set_q_def upd_q_def get_q_def)
      ultimately show ?thesis using aq(3) by simp
    qed
    have s5i: "slot (get_q s5 sel) i = Some r" and ne: "sel = Admin_q \<Longrightarrow> i \<noteq> cid_tag cid"
      using sl aq(2) by (auto simp: slots)
    show ?thesis
    proof (cases "fst (nvme_submit_io ra s5) = NVME_IO_ASYNC")
      case True
      then have "nvme_submit_io ra s5 = (NVME_IO_ASYNC, s')" by (simp add: s' prod_eq_iff)
      then show ?thesis using submit_slots s5i by simp
    next
      case False
      have t1: "tables_ok s1" "in_slot s1 ra" using req_alloc_ok [OF ok w] Inr by auto
      have t5: "tables_ok s5" using req_frame_tables(1) [OF f t1] .
      obtain q5 where q5: "k_reqs s5 ra = Some q5" "r_q q5 = Admin_q" "r_cid q5 = cid"
        using f by (auto simp: req_frame_def s1 rq_def)
      have "s' = nvme_req_destroy ra s5" using False submit_io_cases [of ra s5] by (auto simp: s')
      then show ?thesis using req_destroy_slots(1) [OF t5 q5(1), of sel] s5i ne q5 by auto
    qed
  qed
qed

text \<open>What an admin submission needs: a request from the slab, a tag, and room in the admin ring.\<close>

definition admin_room :: "platform \<Rightarrow> NVMeController \<Rightarrow> bool" where
  "admin_room P s \<longleftrightarrow> p_req_slab P (\<lambda>r. k_reqs s r \<noteq> None) \<noteq> None \<and> q_free_top (get_q s Admin_q) \<noteq> 0 \<and> q_sq_base (get_q s Admin_q) \<noteq> None \<and>
     length (sq_contents (get_q s Admin_q)) < q_depth (get_q s Admin_q) - 1"

lemma async_accepted_iff:
  assumes ok: "tables_ok s" "req_slab_ok P" and a: "nvme_submit_async_cmd P cmd b n d priv fl s = (e, s')"
  shows "e = None \<longleftrightarrow> admin_room P s"
proof -
  let ?q = "get_q s Admin_q"
  obtain w s1 where w: "req_alloc P Admin_q id s = (w, s1)" by (meson surj_pair)
  note c = req_alloc_cases [OF ok, of Admin_q id, unfolded w prod.case]
  show ?thesis
  proof (cases w)
    case (Inl f)
    have "p_req_slab P (\<lambda>r. k_reqs s r \<noteq> None) = None \<or> q_free_top ?q = 0"
    proof (rule ccontr)
      assume "\<not> ?thesis"
      then obtain r where r: "p_req_slab P (\<lambda>r. k_reqs s r \<noteq> None) = Some r" and t: "q_free_top ?q \<noteq> 0" by fastforce
      have "fst (nvme_alloc_cid ?q) \<noteq> 0xFFFF" using queue_ok_alloc(4) [OF tables_okD(1) [OF ok(1)] t] t by (simp add: nvme_alloc_cid_def)
      then show False using w Inl r by (auto simp: req_alloc_def Let_def get_q_def split: prod.splits if_splits)
    qed
    moreover have "e \<noteq> None" using a w Inl by (cases f) (auto simp: nvme_submit_async_cmd_def nvme_req_alloc_admin_def)
    ultimately show ?thesis by (auto simp: admin_room_def)
  next
    case (Inr ra)
    then obtain cid q' where ac: "acquire_cid ?q ra = Some (cid, q')"
      and s1: "s1 = (set_q Admin_q q' s)\<lparr>k_reqs := (k_reqs s)(ra := Some ((id zero_req)\<lparr>r_q := Admin_q, r_cid := cid\<rparr>))\<rparr>"
      using c by auto
    note aq = acquire_cid_ok [OF tables_okD(1) [OF ok(1)] ac]
    have ring: "q_sq_base q' = q_sq_base ?q" "sq_contents q' = sq_contents ?q" "q_depth q' = q_depth ?q"
      using ac unfolding acquire_cid_eq [OF tables_okD(1) [OF ok(1)]]
      by (auto simp: Let_def sq_contents_def sq_used_def split: if_splits)
    define s5 where "s5 = nvme_stage_admin_prps P ra b n (upd_req ra (\<lambda>q. q\<lparr>r_flags := r_flags q OR fl\<rparr>)
      (upd_req ra (\<lambda>q. stamp_cid (nvme_init_request cmd q)) (upd_req ra (\<lambda>q. q\<lparr>r_done := Some d, r_priv := priv\<rparr>) s1)))"
    have f: "req_frame ra s1 s5"
      unfolding s5_def
      by (intro req_frame_stage req_frame_upd req_frame_refl) (simp_all add: stamp_cid_def nvme_init_request_def)
    have t5: "tables_ok s5" using req_frame_tables(1) [OF f] req_alloc_ok [OF ok w] Inr by auto
    have "get_q s1 Admin_q = q'" by (simp add: s1 set_q_def upd_q_def get_q_def)
    then have g5: "get_q s5 Admin_q = q'" using f by (simp add: req_frame_def)
    have "r_q (rq s5 ra) = Admin_q" using f by (auto simp: req_frame_def s1 rq_def)
    then have "fst (nvme_submit_io ra s5) = NVME_IO_ASYNC \<longleftrightarrow>
        q_sq_base ?q \<noteq> None \<and> length (sq_contents ?q) < q_depth ?q - 1"
      using submit_io_accepts_iff [OF t5, of ra] ring by (simp add: g5 flip: length_sq_contents)
    moreover have "e = None \<longleftrightarrow> fst (nvme_submit_io ra s5) = NVME_IO_ASYNC"
      using a w Inr by (auto simp: nvme_submit_async_cmd_def nvme_req_alloc_admin_def Let_def split_def s5_def split: if_splits)
    moreover have "p_req_slab P (\<lambda>r. k_reqs s r \<noteq> None) \<noteq> None" using w Inr by (auto simp: req_alloc_def split: option.splits)
    ultimately show ?thesis using aq(8) by (simp add: admin_room_def)
  qed
qed

lemma abort_outcome:
  assumes ok: "tables_ok s" "req_slab_ok P" and sl: "slot (get_q s sel) i = Some r"
    and q: "k_reqs s r = Some q" "r_q q = sel" "cid_tag (r_cid q) = i"
    and res: "(stop, s') = (case nvme_abort_request P r s of
            (Some _, s1) \<Rightarrow> (False, s1)
          | (None, s1) \<Rightarrow> (False, upd_req r (\<lambda>x. x\<lparr>r_flags := r_flags x OR NVME_REQ_ABORT_SENT, r_abort_us := of_nat t\<rparr>) s1))"
  shows "\<not> stop \<and> tables_ok s' \<and> in_slot s' r \<and>
      (if admin_room P s
       then r_flags (rq s' r) = r_flags q OR NVME_REQ_ABORT_SENT \<and> r_abort_us (rq s' r) = of_nat t \<and>
         (\<exists>ra qa. k_reqs s ra = None \<and> k_reqs s' ra = Some qa \<and> in_slot s' ra \<and> r_done qa = Some Done_abort \<and>
            cmd_opcode (r_cmd qa) = nvme_admin_abort_cmd \<and>
            cmd_body (r_cmd qa) = Body_abort (p_le16 P (q_qid (get_q s sel))) (p_le16 P (r_cid q)) \<and>
            sq_contents (get_q s' Admin_q) = sq_contents (get_q s Admin_q) @ [r_cmd qa])
       else k_reqs s' = k_reqs s)"
proof -
  obtain v s1 where v: "nvme_abort_request P r s = (v, s1)" by (meson surj_pair)
  have v': "nvme_submit_async_cmd P (abort_cmd P (q_qid (get_q s sel)) (r_cid q)) 0 0 Done_abort 0 0 s = (v, s1)"
    using v q by (simp add: nvme_abort_request_def nvme_submit_abort_sqe_def rq_def)
  note c = submit_async_cases [OF ok v'] and keep = async_keeps_slots [OF ok sl v'] and acc = async_accepted_iff [OF ok v']
  show ?thesis
  proof (cases v)
    case (Some e)
    then have "k_reqs s1 = k_reqs s" "stop = False" "s' = s1" using c(2) res v by simp_all
    then show ?thesis using c(1) keep q acc Some by (auto simp: in_slot_def)
  next
    case None
    then obtain ra qa where ra: "k_reqs s ra = None" "k_reqs s1 = (k_reqs s)(ra := Some qa)" "in_slot s1 ra"
      "async_req (abort_cmd P (q_qid (get_q s sel)) (r_cid q)) Done_abort 0 qa"
      "sq_contents (get_q s1 Admin_q) = sq_contents (get_q s Admin_q) @ [r_cmd qa]" using c(3) by blast
    let ?f = "\<lambda>x. x\<lparr>r_flags := r_flags x OR NVME_REQ_ABORT_SENT, r_abort_us := of_nat t\<rparr>"
    have s': "stop = False" "s' = upd_req r ?f s1" using None res v by simp_all
    have ne: "ra \<noteq> r" using ra(1) q(1) by auto
    have r1: "k_reqs s1 r = Some q" using ra(2) ne q(1) by simp
    then have "in_slot s1 r" using keep q by (auto simp: in_slot_def)
    then have ins: "tables_ok s'" "in_slot s' r" "in_slot s' ra"
      unfolding s' using upd_req_tables(1) [of ?f, OF _ _ c(1)] upd_req_tables(2) [of ?f] ra(3) by simp_all
    have "k_reqs s' ra = Some qa" using ra(2) ne by (simp add: s')
    moreover have "rq s' r = ?f q" by (simp add: s') (simp add: rq_def r1)
    moreover have "sq_contents (get_q s' Admin_q) = sq_contents (get_q s Admin_q) @ [r_cmd qa]" using ra(5) by (simp add: s')
    ultimately show ?thesis using ins s'(1) ra(1,4) acc None by (auto simp: async_req_def abort_cmd_def)
  qed
qed

text \<open>
  C28.  The watchdog acts on an occupied slot as its states say, in every controller state.  An event request, an
  unsubmitted request and one within its time limit (across the wrap of the
  32-bit microsecond clock) are left alone.  A request past the limit that has not been
  aborted gets an Abort for its queue and identifier, appended to the admin ring, and is marked with the time, when the slab, the tags and the
  ring of the admin queue have room; otherwise nothing about the requests changes, and in both cases the request stays in its
  slot and the sweep goes on.  When the abort grace has expired, or an Abort command
  itself timed out, the sweep ends: a live controller is only signalled for a reset, and in any other state the queue is
  flushed in place.
\<close>

theorem watchdog_slot_contract:
  assumes ok: "tables_ok s" "req_slab_ok P" and sl: "slot (get_q s sel) i = Some r"
    and t: "r_submit_us (rq s r) = of_nat t0" "r_abort_us (rq s r) = of_nat ta" "t0 \<le> t" "ta \<le> t" "t - t0 < 2 ^ 32" "t - ta < 2 ^ 32"
    and res: "watchdog_slot P sel (of_nat t) i s = (stop, s')"
  defines "q \<equiv> rq s r"
  defines "escalated \<equiv> (if k_state s = NVME_CTRL_LIVE then emit (Ev_signal Sig_reset) s else nvme_flush_queue_inflight P sel s)"
  shows "if r_submit_us q = 0 \<or> r_flags q AND NVME_REQ_AER \<noteq> 0 then (stop, s') = (False, s)
    else if r_flags q AND NVME_REQ_ABORT_SENT \<noteq> 0
    then (stop, s') = (if (t - ta) div 1000 < 15000 then (False, s) else (True, escalated))
    else if (t - t0) div 1000 < (if r_unit q \<noteq> None then 30000 else 60000) then (stop, s') = (False, s)
    else if cmd_opcode (r_cmd q) = nvme_admin_abort_cmd then (stop, s') = (True, escalated)
    else \<not> stop \<and> tables_ok s' \<and> in_slot s' r \<and>
      (if admin_room P s
       then r_flags (rq s' r) = r_flags q OR NVME_REQ_ABORT_SENT \<and> r_abort_us (rq s' r) = of_nat t \<and>
         (\<exists>ra qa. k_reqs s ra = None \<and> k_reqs s' ra = Some qa \<and> in_slot s' ra \<and> r_done qa = Some Done_abort \<and>
            cmd_opcode (r_cmd qa) = nvme_admin_abort_cmd \<and>
            cmd_body (r_cmd qa) = Body_abort (p_le16 P (q_qid (get_q s sel))) (p_le16 P (r_cid q)) \<and>
            sq_contents (get_q s' Admin_q) = sq_contents (get_q s Admin_q) @ [r_cmd qa])
       else k_reqs s' = k_reqs s)"
proof -
  obtain q0 where q0: "k_reqs s r = Some q0" "r_q q0 = sel" "cid_tag (r_cid q0) = i" using tables_okD(3) [OF ok(1) sl] by blast
  have q: "q = q0" "rq s r = q0" using q0(1) by (simp_all add: q_def rq_def)
  have e: "elapsed_ms (of_nat t) (r_submit_us q0) < class_timeout q0 \<longleftrightarrow> (t - t0) div 1000 < (if r_unit q0 \<noteq> None then 30000 else 60000)"
    "elapsed_ms (of_nat t) (r_abort_us q0) < NVME_ABORT_TIMEOUT \<longleftrightarrow> (t - ta) div 1000 < 15000"
    using elapsed_true [of t0 t] elapsed_true [of ta t] t by (simp_all add: word_less_nat_alt q class_timeout_def)
  define act where "act = (case nvme_abort_request P r s of
            (Some _, s1) \<Rightarrow> (False, s1)
          | (None, s1) \<Rightarrow> (False, upd_req r (\<lambda>x. x\<lparr>r_flags := r_flags x OR NVME_REQ_ABORT_SENT, r_abort_us := of_nat t\<rparr>) s1))"
  have w: "(stop, s') =
     (if r_submit_us q0 = 0 \<or> r_flags q0 AND NVME_REQ_AER \<noteq> 0 then (False, s)
      else if r_flags q0 AND NVME_REQ_ABORT_SENT \<noteq> 0
      then if (t - ta) div 1000 < 15000 then (False, s) else (True, escalated)
      else if (t - t0) div 1000 < (if r_unit q0 \<noteq> None then 30000 else 60000) then (False, s)
      else if cmd_opcode (r_cmd q0) = nvme_admin_abort_cmd then (True, escalated)
      else act)"
    unfolding res [symmetric] act_def escalated_def
    using sl e by (simp add: watchdog_slot_def Let_def q nvme_watchdog_escalate_def)
  show ?thesis
    using w abort_outcome [OF ok sl q0, where t = t and stop = stop and s' = s', folded act_def]
    unfolding q by (auto split: if_splits simp del: split_paired_Ex)
qed

lemma div_half:
  fixes u p :: int
  assumes "0 \<le> u" "u < 2 * p"
  shows "u div p = (if p \<le> u then 1 else 0)"
proof (cases "p \<le> u")
  case True
  then show ?thesis using assms int_div_pos_eq [of u p 1 "u - p"] by simp
qed (use assms in \<open>simp add: div_pos_pos_trivial\<close>)

lemma le_int_pow: "(2 ^ n \<le> int m) \<longleftrightarrow> 2 ^ n \<le> m"
  by (metis of_nat_le_iff of_nat_numeral of_nat_power)

lemma sint_neg_iff: "sint (w :: u32) < 0 \<longleftrightarrow> 2 ^ 31 \<le> unat w"
proof -
  have "sint w < 0 \<longleftrightarrow> bit (uint w) 31" by (simp add: sint_uint signed_take_bit_negative_iff)
  also have "\<dots> \<longleftrightarrow> odd (uint w div 2 ^ 31)" by (simp only: bit_iff_odd)
  also have "\<dots> \<longleftrightarrow> 2 ^ 31 \<le> uint w"
  proof -
    have "0 \<le> uint w" "uint w < 2 * 2 ^ 31" using uint_lt2p [of w] by simp_all
    then have "uint w div 2 ^ 31 = (if 2 ^ 31 \<le> uint w then 1 else 0)" by (rule div_half)
    then show ?thesis by simp
  qed
  also have "\<dots> \<longleftrightarrow> 2 ^ 31 \<le> unat w" unfolding uint_nat by (rule le_int_pow)
  finally show ?thesis .
qed

lemma lap_mod:
  fixes N D e :: nat
  assumes "D \<le> N" "e < N"
  shows "(e + (N - D)) mod N = (if D \<le> e then e - D else N - (D - e))"
proof (cases "D \<le> e")
  case True
  then have "e + (N - D) = (e - D) + N" using assms by simp
  then have "(e + (N - D)) mod N = (e - D) mod N" by (metis mod_add_self2)
  then show ?thesis using True assms by simp
next
  case False
  then have "e + (N - D) = N - (D - e)" "N - (D - e) < N" using assms by simp_all
  then show ?thesis using False by simp
qed

text \<open>
  A request parked with a retry delay of \<open>d\<close> tenths of a second is due at a
  tick exactly when that time has passed, as long as the delay is below
  \<open>2 ^ 31\<close> microseconds.  Longer delays, which the 16-bit field can ask for, are
  misread by the signed 32-bit comparison: up to \<open>2 ^ 32\<close> microseconds they are
  due at once.
\<close>

theorem retry_deadline:
  fixes r crd :: nat
  assumes "k_clock s = of_nat t" "k_crdt s ! (crd - 1) = d" "t \<le> t'"
  defines "D \<equiv> unat d * 100000"
  defines "q \<equiv> rq (retry_park crd r s) r"
  shows "(D \<le> 2 ^ 31 \<and> t' - t < 2 ^ 31 \<longrightarrow> (retry_due (of_nat t') q \<longleftrightarrow> D \<le> t' - t)) \<and>
    (2 ^ 31 < D \<and> D \<le> 2 ^ 32 \<longrightarrow> retry_due (of_nat t) q)"
proof -
  have D: "(of_nat D :: u32) = ucast d * 100000" by (simp add: D_def)
  have dl: "r_deadline_us q = of_nat t + of_nat D"
    using assms(2) by (simp add: q_def retry_park_def Let_def rq_def assms(1) D algebra_simps upd_req_def)
  have due: "retry_due now q \<longleftrightarrow> unat (now - r_deadline_us q) < 2 ^ 31" for now
    using sint_neg_iff [of "now - r_deadline_us q"] by (auto simp: retry_due_def)
  have un: "unat (of_nat n :: u32) = n mod 2 ^ 32" for n by (simp add: unat_of_nat take_bit_eq_mod)
  have now: "unat (of_nat t' - r_deadline_us q) = (t' - t + (2 ^ 32 - D)) mod 2 ^ 32" if "D \<le> 2 ^ 32"
  proof -
    have "(of_nat t' - r_deadline_us q :: u32) = of_nat (t' - t) - of_nat D"
      using assms(3) by (simp add: dl of_nat_diff)
    also have "\<dots> = of_nat (t' - t + (2 ^ 32 - D))" using that by (simp add: of_nat_diff)
    finally show ?thesis by (simp only: un)
  qed
  have a: "retry_due (of_nat t') q \<longleftrightarrow> D \<le> t' - t" if "D \<le> 2 ^ 31" "t' - t < 2 ^ 31"
  proof -
    have "D \<le> 2 ^ 32" "t' - t < 2 ^ 32" using that by simp_all
    note n = now [OF this(1)] lap_mod [OF this]
    show ?thesis using that unfolding due n by (cases "D \<le> t' - t") simp_all
  qed
  have "unat (of_nat t - r_deadline_us q) = (2 ^ 32 - D) mod 2 ^ 32" if "D \<le> 2 ^ 32"
  proof -
    have "(of_nat t - r_deadline_us q :: u32) = of_nat (2 ^ 32 - D)" using that by (simp add: dl of_nat_diff)
    then show ?thesis by (simp only: un)
  qed
  then have b: "retry_due (of_nat t) q" if "2 ^ 31 < D" "D \<le> 2 ^ 32"
    using that unfolding due by simp
  show ?thesis using a b by blast
qed

theorem retry_deadline_witness:
  "retry_due 0 (rq (retry_park 1 0 (demo_ctrl\<lparr>k_crdt := [30000, 0, 0]\<rparr>)) 0) \<and>
   \<not> retry_due 0 (rq (retry_park 1 0 (demo_ctrl\<lparr>k_crdt := [10, 0, 0]\<rparr>)) 0)"
  using retry_deadline [of "demo_ctrl\<lparr>k_crdt := [30000, 0, 0]\<rparr>" 0 1 30000 0 0]
    retry_deadline [of "demo_ctrl\<lparr>k_crdt := [10, 0, 0]\<rparr>" 0 1 10 0 0]
  by (simp add: demo_ctrl_def zero_ctrl_def)

section \<open>Evaluations of the drain and the watchdog\<close>

text \<open>One request in flight on the small controller, with its completion posted.\<close>

definition demo_posted :: NVMeController where
  "demo_posted = demo_ctrl\<lparr>k_reqs := (\<lambda>_. None)(0 := Some (demo_read\<lparr>r_cid := 3, r_submit_us := 1\<rparr>)),
     k_io_q := demo_queue\<lparr>q_qid := 1, q_inflight := [None, None, None, Some 0], q_inflight_count := 1, q_free_top := 3,
       q_free_stack := [0, 1, 2, 3],
       q_cq := zero_cqe\<lparr>cqe_command_id := 7, cqe_status := 0x100\<rparr> # replicate 3 zero_cqe\<rparr>\<rparr>"

lemma demo_posted_ok: "tables_ok demo_posted" "io_plain demo_posted" "slot (k_io_q demo_posted) 3 = Some 0"
  "k_reqs demo_posted 0 = Some (demo_read\<lparr>r_cid := 3, r_submit_us := 1\<rparr>)"
  "k_io_q demo_posted = demo_queue\<lparr>q_qid := 1, q_inflight := [None, None, None, Some 0], q_inflight_count := 1, q_free_top := 3,
       q_free_stack := [0, 1, 2, 3],
       q_cq := zero_cqe\<lparr>cqe_command_id := 7, cqe_status := 0x100\<rparr> # replicate 3 zero_cqe\<rparr>"
proof -
  have a: "get_q demo_posted Admin_q = demo_queue" by (simp add: demo_posted_def demo_ctrl_def get_q_def)
  show io: "k_io_q demo_posted = demo_queue\<lparr>q_qid := 1, q_inflight := [None, None, None, Some 0], q_inflight_count := 1, q_free_top := 3,
       q_free_stack := [0, 1, 2, 3],
       q_cq := zero_cqe\<lparr>cqe_command_id := 7, cqe_status := 0x100\<rparr> # replicate 3 zero_cqe\<rparr>"
    by (simp add: demo_posted_def)
  then have b: "get_q demo_posted Io_q = demo_queue\<lparr>q_qid := 1, q_inflight := [None, None, None, Some 0], q_inflight_count := 1, q_free_top := 3,
       q_free_stack := [0, 1, 2, 3],
       q_cq := zero_cqe\<lparr>cqe_command_id := 7, cqe_status := 0x100\<rparr> # replicate 3 zero_cqe\<rparr>" by (simp add: get_q_def)
  show r: "k_reqs demo_posted 0 = Some (demo_read\<lparr>r_cid := 3, r_submit_us := 1\<rparr>)" by (simp add: demo_posted_def)
  have sl: "slot (get_q demo_posted Io_q) tag = (if tag = 3 then Some 0 else None)" for tag
    by (auto simp: b slot_def demo_queue_def less_Suc_eq numeral_eq_Suc)
  then show "slot (k_io_q demo_posted) 3 = Some 0" by (simp add: get_q_def)
  have "cid_tag 0 = 0" "cid_tag 1 = 1" "cid_tag 2 = 2" by (simp_all add: cid_tag_def)
  then have "queue_ok (get_q demo_posted Io_q)"
    by (simp add: b queue_ok_def demo_queue_def occupied_def zero_queue_def)
  moreover have "ring_ok (get_q demo_posted Io_q)" by (simp add: b ring_ok_def demo_queue_def zero_queue_def)
  moreover have "slot (get_q demo_posted Admin_q) = (\<lambda>_. None)" by (auto simp: a slot_def demo_queue_def fun_eq_iff)
  moreover have "r_q (demo_read\<lparr>r_cid := 3, r_submit_us := 1\<rparr>) = Io_q" "cid_tag 3 = 3"
    by (simp_all add: demo_read_def cid_tag_def)
  ultimately have io_ok: "queue_ok (get_q demo_posted Io_q)" "ring_ok (get_q demo_posted Io_q)"
    and no_admin: "slot (get_q demo_posted Admin_q) = (\<lambda>_. None)"
    and q0: "r_q (demo_read\<lparr>r_cid := 3, r_submit_us := 1\<rparr>) = Io_q" "cid_tag 3 = 3" by simp_all
  show "tables_ok demo_posted"
    unfolding tables_ok_def
  proof (intro allI conjI impI)
    fix sel
    show "queue_ok (get_q demo_posted sel)" "ring_ok (get_q demo_posted sel)"
      using io_ok demo_queue_ok a by (cases sel; simp)+
    fix tag r' assume "slot (get_q demo_posted sel) tag = Some r'"
    then have "sel = Io_q" "tag = 3" "r' = 0" using no_admin sl by (cases sel; auto split: if_splits)+
    then show "\<exists>q. k_reqs demo_posted r' = Some q \<and> r_q q = sel \<and> cid_tag (r_cid q) = tag"
      using r q0 by simp
  qed
  show "io_plain demo_posted" by (auto simp: io_plain_def demo_posted_def demo_read_def zero_req_def)
qed

theorem drain_cqe_rejects_stale_witness:
  "drain_cqe m68k_platform Io_q (zero_cqe\<lparr>cqe_command_id := 0x1003\<rparr>) demo_posted = demo_posted"
proof -
  have "cid_tag 0x1003 = 3" by (simp add: cid_tag_def)
  then show ?thesis
    using drain_cqe_rejects_stale [OF demo_posted_ok(1), where sel = Io_q and c = "zero_cqe\<lparr>cqe_command_id := 0x1003\<rparr>"
        and P = m68k_platform]
      demo_posted_ok(3,4) by (simp add: get_q_def rq_def)
qed

theorem flush_io_queue_contract_witness:
  "7 \<in> set (replies (nvme_flush_queue_inflight m68k_platform Io_q demo_posted))"
proof -
  have "plain_io (demo_read\<lparr>r_cid := 3, r_submit_us := 1\<rparr>) 7" by (simp add: plain_io_def demo_read_def zero_req_def)
  moreover have "k_unit_waits demo_posted = None" by (simp add: demo_posted_def demo_ctrl_def zero_ctrl_def)
  ultimately show ?thesis
    using flush_io_queue_contract [OF demo_posted_ok(1) m68k_req_slab_ok demo_posted_ok(2)] demo_posted_ok(3,4)
    by (auto simp: get_q_def)
qed

theorem watchdog_slot_contract_witness:
  "watchdog_slot m68k_platform Io_q 20000001 3 demo_posted = (False, demo_posted) \<and>
   (\<exists>cmd. sq_contents (get_q (snd (watchdog_slot m68k_platform Io_q 40000001 3 demo_posted)) Admin_q) = [cmd] \<and>
      cmd_opcode cmd = nvme_admin_abort_cmd)"
proof -
  let ?q = "demo_read\<lparr>r_cid := 3, r_submit_us := 1\<rparr>"
  have rq: "rq demo_posted 0 = ?q" using demo_posted_ok(4) by (simp add: rq_def)
  have q: "r_submit_us ?q = of_nat 1" "r_abort_us ?q = of_nat 0" "r_flags ?q = 0" "r_unit ?q \<noteq> None" "cmd_opcode (r_cmd ?q) \<noteq> nvme_admin_abort_cmd"
    by (simp_all add: demo_read_def zero_req_def zero_cmd_def)
  obtain stop s' where w: "watchdog_slot m68k_platform Io_q (of_nat 20000001) 3 demo_posted = (stop, s')" by (meson surj_pair)
  obtain stop2 s2 where w2: "watchdog_slot m68k_platform Io_q (of_nat 40000001) 3 demo_posted = (stop2, s2)" by (meson surj_pair)
  have room: "admin_room m68k_platform demo_posted" "sq_contents (get_q demo_posted Admin_q) = []"
    by (simp_all add: admin_room_def m68k_platform_def demo_posted_def demo_ctrl_def get_q_def demo_queue_def zero_queue_def
      sq_contents_def sq_used_def)
  show ?thesis
    using watchdog_slot_contract [OF demo_posted_ok(1) m68k_req_slab_ok, of Io_q 3 0 1 0 20000001 stop s']
      watchdog_slot_contract [OF demo_posted_ok(1) m68k_req_slab_ok, of Io_q 3 0 1 0 40000001 stop2 s2] demo_posted_ok(3) q w w2 room
    by (auto simp: get_q_def rq)
qed

lemma demo_swap: "bit (p_le16 m68k_platform 0x100) 0" "\<not> bit (p_le16 m68k_platform 0) 0"
  by (simp_all add: m68k_platform_def bit_byte_swap byte_mirror_def)

theorem drain_cq_contract_witness:
  "tables_ok (snd (drain_cq m68k_platform Io_q demo_posted)) \<and> fst (drain_cq m68k_platform Io_q demo_posted) = 1"
proof -
  let ?q = "get_q demo_posted Io_q"
  have q: "q_cq_base ?q = Some 0x2000" "q_cq_head ?q < q_depth ?q" "q_depth ?q = 4" "q_cq_phase ?q" "q_cq_head ?q = 0"
    "q_cq ?q = zero_cqe\<lparr>cqe_command_id := 7, cqe_status := 0x100\<rparr> # replicate 3 zero_cqe"
    by (simp_all add: get_q_def demo_posted_ok(5) demo_queue_def zero_queue_def)
  have f: "cqe_fresh m68k_platform (zero_cqe\<lparr>cqe_command_id := 7, cqe_status := 0x100\<rparr>) True"
    "\<not> cqe_fresh m68k_platform zero_cqe True"
    using demo_swap by (simp_all add: cqe_fresh_def zero_cqe_def)
  have c: "drain_cqe m68k_platform Io_q (zero_cqe\<lparr>cqe_command_id := 7, cqe_status := 0x100\<rparr>) s = s" if "get_q s Io_q = ?q" for s
    by (simp add: drain_cqe_def Let_def cqe_tag_def that q)
  have w: "k_unit_waits demo_posted = None" by (simp add: demo_posted_def demo_ctrl_def zero_ctrl_def)
  obtain n s' where d: "drain_cq m68k_platform Io_q demo_posted = (n, s')" by (meson surj_pair)
  have step: "drain_loop 5 P sel b cq dp x s = (case drain_inval b x s of (d1, s1) \<Rightarrow>
       if \<not> cqe_fresh P (cq ! d_head d1) (d_phase d1) then (d1, s1)
       else let s2 = drain_cqe P sel (cq ! d_head d1) s1 in
         if k_unit_waits s2 \<noteq> None then (d1, s2) else drain_loop (Suc 3) P sel b cq dp (drain_next dp d1) s2)" for P sel b cq dp x s
  proof -
    have "(5 :: nat) = Suc (Suc 3)" by simp
    then show ?thesis by (simp only: drain_loop.simps(2))
  qed
  have step4: "drain_loop (Suc 3) P sel b cq dp x s = (case drain_inval b x s of (d1, s1) \<Rightarrow>
       if \<not> cqe_fresh P (cq ! d_head d1) (d_phase d1) then (d1, s1)
       else let s2 = drain_cqe P sel (cq ! d_head d1) s1 in
         if k_unit_waits s2 \<noteq> None then (d1, s2) else drain_loop 3 P sel b cq dp (drain_next dp d1) s2)" for P sel b cq dp x s
    by (simp only: drain_loop.simps(2))
  have step4': "drain_loop 4 P sel b cq dp x s = drain_loop (Suc 3) P sel b cq dp x s" for P sel b cq dp x s
    by simp
  have "n = 1 \<and> k_unit_waits s' = None"
    using d w f
    by (simp add: drain_cq_def q drain_inval_def drain_next_def step step4' [unfolded step4] c Let_def split: if_splits)
      (auto simp: emit_def upd_q_def)
  then show ?thesis
    using drain_cq_contract [OF demo_posted_ok(1) m68k_req_slab_ok demo_posted_ok(2) refl q(1,2) d] d by simp
qed

end
