(* ===== verification/Nvme_Submit.thy ===== *)
theory Nvme_Submit
  imports Nvme_Drain
begin

text \<open>
  The public I/O dispatchers of src/nvme/nvme_io.c: read and write with the
  transparent split at the transfer limit, flush, write zeroes (with its
  deallocate quirk) and dataset management.  The lemmas show that a dispatcher
  either takes over the AmigaOS request, which then has exactly one owner among the
  live requests and contexts, or returns an error and keeps no trace of it.
\<close>

section \<open>The dispatchers\<close>

definition past_end :: "NVMeUnit \<Rightarrow> u64 \<Rightarrow> u32 \<Rightarrow> bool" where
  "past_end U lba blocks \<longleftrightarrow> 0 < u_logicalSectors U \<and> u_logicalSectors U < lba + ucast blocks"

definition block_bytes :: "NVMeUnit \<Rightarrow> u32 \<Rightarrow> u32" where
  "block_bytes U blocks = push_bit (unat (u_blockShift U)) blocks"

text \<open>The single-command path: allocate, check the controller, set up, submit.\<close>

definition single_shot :: "platform \<Rightarrow> nat \<Rightarrow> nat \<Rightarrow> (nat \<Rightarrow> NVMeController \<Rightarrow> io_error \<times> NVMeController) \<Rightarrow>
    NVMeController \<Rightarrow> io_error \<times> NVMeController" where
  "single_shot P u io prepare s =
    (case nvme_req_alloc_io P u (Some io) s of
       (Inl err, s1) \<Rightarrow> (err, s1)
     | (Inr r, s1) \<Rightarrow>
        if \<not> nvme_check_ready s1 then nvme_fail_nonready_command P r s1
        else (case prepare r s1 of (serr, s2) \<Rightarrow>
          if serr \<noteq> IOERR_NO_ERROR then (serr, nvme_req_destroy r s2) else nvme_submit_io r s2))"

text \<open>The multi-command path: a context is filled in, its cache lines are prepared, and it is pumped.\<close>

definition start_context :: "platform \<Rightarrow> nvme_io_context \<Rightarrow> event option \<Rightarrow> NVMeController \<Rightarrow> io_error \<times> NVMeController" where
  "start_context P x prepare s =
    (if \<not> nvme_check_ready s then (if nvme_state_terminal s then IOERR_BADADDRESS else IOERR_UNITBUSY, s)
     else case p_ctx_slab P (\<lambda>c. k_ctxs s c \<noteq> None) of
       None \<Rightarrow> (IOERR_SELFTEST, s)
     | Some c \<Rightarrow>
        let s1 = s\<lparr>k_ctxs := (k_ctxs s)(c := Some x)\<rparr>;
            s2 = (case prepare of Some e \<Rightarrow> emit e s1 | None \<Rightarrow> s1);
            (err, s3) = nvme_io_context_pump P c s2
        in if err \<noteq> NVME_IO_ASYNC then (err, free_ctx c s3) else (NVME_IO_ASYNC, s3))"

definition rw_context :: "platform \<Rightarrow> nat \<Rightarrow> nat \<Rightarrow> u64 \<Rightarrow> u32 \<Rightarrow> u8 \<Rightarrow> u32 \<Rightarrow> nvme_io_context" where
  "rw_context P u io lba bytes opcode buffer =
    zero_ctx\<lparr>x_io := io, x_unit := u, x_start_lba := lba, x_total_bytes := bytes, x_opcode := opcode,
      x_user_data := buffer,
      x_data_precached := \<not> nvme_needs_bounce P buffer bytes (opcode = nvme_cmd_write)\<rparr>"

definition nvme_io_submit_rw ::
    "platform \<Rightarrow> nat \<Rightarrow> nat \<Rightarrow> u64 \<Rightarrow> u32 \<Rightarrow> u8 \<Rightarrow> u32 \<Rightarrow> NVMeController \<Rightarrow> io_error \<times> NVMeController" where
  "nvme_io_submit_rw P u io lba blocks opcode buffer s =
    (let U = k_units s u;
         bytes = block_bytes U blocks;
         cap = nvme_rw_chunk_cap s (ucast (u_blockShift U)) lba
     in if bytes = 0 then (IOERR_BADLENGTH, s)
        else if buffer = 0 then (IOERR_BADADDRESS, s)
        else if past_end U lba blocks then (IOERR_BADADDRESS, s)
        else if cap = 0 \<or> bytes \<le> cap
        then single_shot P u io (\<lambda>r. nvme_setup_rw P r lba blocks opcode buffer) s
        else let x = rw_context P u io lba bytes opcode buffer in
          start_context P x
            (if x_data_precached x then Some (Ev_flush_ns buffer bytes (opcode = nvme_cmd_write)) else None) s)"

definition nvme_io_submit_flush :: "platform \<Rightarrow> nat \<Rightarrow> nat \<Rightarrow> NVMeController \<Rightarrow> io_error \<times> NVMeController" where
  "nvme_io_submit_flush P u io s =
    single_shot P u io (\<lambda>r s. (IOERR_NO_ERROR, nvme_setup_flush P r s)) s"

text \<open>
  nvme_io_submit_dsm owns the range table: it is freed on every error, and by the
  request afterwards.
\<close>

definition nvme_io_submit_dsm :: "platform \<Rightarrow> nat \<Rightarrow> nat \<Rightarrow> u32 \<Rightarrow> u16 \<Rightarrow> NVMeController \<Rightarrow> io_error \<times> NVMeController" where
  "nvme_io_submit_dsm P u io ranges nr s =
    (case nvme_req_alloc_io P u (Some io) s of
       (Inl err, s1) \<Rightarrow> (err, dma_free ranges s1)
     | (Inr r, s1) \<Rightarrow>
        if \<not> nvme_check_ready s1 then nvme_fail_nonready_command P r (dma_free ranges s1)
        else (case nvme_setup_dsm P r ranges nr s1 of (ok, s2) \<Rightarrow>
          if \<not> ok then (IOERR_SELFTEST, nvme_req_destroy r (dma_free ranges s2))
          else nvme_submit_io r s2))"

definition zero_range :: nvme_dsm_range where
  "zero_range = \<lparr>dr_cattr = 0, dr_nlb = 0, dr_slba = 0\<rparr>"

definition nvme_io_submit_write_zeroes ::
    "platform \<Rightarrow> nat \<Rightarrow> nat \<Rightarrow> u64 \<Rightarrow> u32 \<Rightarrow> NVMeController \<Rightarrow> io_error \<times> NVMeController" where
  "nvme_io_submit_write_zeroes P u io lba blocks s =
    (let U = k_units s u in
     if blocks = 0 then (IOERR_BADLENGTH, s)
     else if past_end U lba blocks then (IOERR_BADADDRESS, s)
     else if bit (k_quirks s) NVME_QUIRK_DEALLOCATE_ZEROES
     then (case dma_zalloc P 4096 (16 * 256) s of
         None \<Rightarrow> (IOERR_SELFTEST, s)
       | Some (ranges, s1) \<Rightarrow>
          nvme_io_submit_dsm P u io ranges 1
            (s1\<lparr>k_dsm := (k_dsm s1)(ranges := (replicate NVME_DSM_MAX_RANGES zero_range)
              [0 := \<lparr>dr_cattr = p_le32 P 0, dr_nlb = p_le32 P blocks, dr_slba = p_le64 P lba\<rparr>])\<rparr>))
     else if k_max_zeroes_sectors s = 0 then (IOERR_NOCMD, s)
     else let bytes = block_bytes U blocks in
       if bytes \<le> u_wz_max_bytes U
       then single_shot P u io (\<lambda>r s. (IOERR_NO_ERROR, nvme_setup_write_zeroes P r lba blocks s)) s
       else start_context P (zero_ctx\<lparr>x_io := io, x_unit := u, x_start_lba := lba, x_total_bytes := bytes,
              x_opcode := nvme_cmd_write_zeroes, x_user_data := 0\<rparr>) None s)"

section \<open>Ownership of an AmigaOS request\<close>

text \<open>
  A request is owned by the live single-shot requests and the live contexts that
  will reply it.
\<close>

definition owners :: "NVMeController \<Rightarrow> nat \<Rightarrow> (nat + nat) set" where
  "owners s io = Inl ` {r. \<exists>q. k_reqs s r = Some q \<and> r_io q = Some io} \<union>
     Inr ` {c. \<exists>x. k_ctxs s c = Some x \<and> x_io x = io}"

text \<open>Every chunk belongs to a live context.\<close>

definition ctx_refs_ok :: "NVMeController \<Rightarrow> bool" where
  "ctx_refs_ok s \<longleftrightarrow> (\<forall>r q c. k_reqs s r = Some q \<longrightarrow> r_ctx q = Some c \<longrightarrow> k_ctxs s c \<noteq> None)"

definition will_reply :: "NVMeController \<Rightarrow> nat + nat \<Rightarrow> bool" where
  "will_reply s w = (case w of Inl r \<Rightarrow> in_slot s r
     | Inr c \<Rightarrow> ctx_counted s c \<and> (siblings s c \<noteq> {} \<or> c \<in> set (k_ctx_stalled s)))"

definition io_handoff :: "nat \<Rightarrow> NVMeController \<Rightarrow> io_error \<Rightarrow> NVMeController \<Rightarrow> bool" where
  "io_handoff io s e s' \<longleftrightarrow> tables_ok s' \<and> ctx_refs_ok s' \<and> replies s' = replies s \<and>
     (if e = NVME_IO_ASYNC
      then (\<exists>w. owners s' io = {w} \<and> will_reply s' w) \<and> (\<forall>io'. io' \<noteq> io \<longrightarrow> owners s' io' = owners s io')
      else e \<noteq> IOERR_NO_ERROR \<and> k_reqs s' = k_reqs s \<and> k_ctxs s' = k_ctxs s \<and>
        sq_contents (get_q s' Io_q) = sq_contents (get_q s Io_q))"

lemma handoff_refused [simp]:
  assumes "tables_ok s" "ctx_refs_ok s" "e \<noteq> NVME_IO_ASYNC" "e \<noteq> IOERR_NO_ERROR"
  shows "io_handoff io s e s"
  using assms by (simp add: io_handoff_def)

lemma handoff_single:
  assumes "tables_ok s" "ctx_refs_ok s" "owners s io = {}" "tables_ok s'" "in_slot s' r" "replies s' = replies s"
    and k: "k_reqs s' = (k_reqs s)(r := Some q)" "k_reqs s r = None" "k_ctxs s' = k_ctxs s" "r_io q = Some io" "r_ctx q = None"
  shows "io_handoff io s NVME_IO_ASYNC s'"
proof -
  have "owners s' io' = (if io' = io then {Inl r} else owners s io')" for io' using assms(3) k by (auto simp: owners_def)
  moreover have "ctx_refs_ok s'" using assms(2) k by (auto simp: ctx_refs_ok_def)
  ultimately show ?thesis using assms(4-6) by (simp add: io_handoff_def will_reply_def)
qed

section \<open>The single-command path\<close>

lemma handoff_destroyed:
  assumes "tables_ok s3" "in_slot s3 r" "k_reqs s3 = (k_reqs s)(r := Some q)" "k_reqs s r = None"
    and "k_ctxs s3 = k_ctxs s" "replies s3 = replies s" "ctx_refs_ok s" "e \<noteq> NVME_IO_ASYNC" "e \<noteq> IOERR_NO_ERROR"
    and "sq_contents (get_q s3 Io_q) = sq_contents (get_q s Io_q)"
  shows "io_handoff io s e (nvme_req_destroy r s3)"
proof -
  note d = destroy_restores [OF assms(1-4)]
  have "k_ctxs (nvme_req_destroy r s3) = k_ctxs s" using io_frameD(1) [OF d(3)] assms(5) by simp
  then show ?thesis using d assms(5-) by (simp add: io_handoff_def ctx_refs_ok_def)
qed

text \<open>A freshly allocated request, before anything is set up.\<close>

lemma fresh_request:
  assumes "tables_ok s" "req_slab_ok P" "nvme_req_alloc_io P u (Some io) s = (Inr r, s1)"
  obtains q where "k_reqs s1 = (k_reqs s)(r := Some q)" "k_reqs s r = None" "tables_ok s1" "in_slot s1 r"
    "r_io q = Some io" "r_ctx q = None" "r_q q = Io_q" "r_flags q = 0" "io_frame s s1" "replies s1 = replies s"
    "sq_contents (get_q s1 Io_q) = sq_contents (get_q s Io_q)" "r_prp_pages q = []" "r_bounce_buf q = None" "r_unit q = Some u"
proof -
  note a = alloc_io_ok(2) [OF assms refl]
  obtain cid where c: "k_reqs s1 = (k_reqs s)(r := Some (zero_req\<lparr>r_io := Some io, r_unit := Some u, r_q := Io_q, r_cid := cid\<rparr>))"
    using a by blast
  have f: "io_frame s s1" "replies s1 = replies s"
    using io_frame_alloc_io [OF io_frame_refl, of s P u "Some io"] replies_alloc_io [of P u "Some io" s] assms(3) by simp_all
  show thesis
    by (rule that [OF c]) (use a f alloc_io_ring [OF assms] in \<open>simp_all add: zero_req_def\<close>)
qed

lemma fail_nonready_handoff:
  assumes "tables_ok s1" "in_slot s1 r" "k_reqs s1 = (k_reqs s)(r := Some q)" "k_reqs s r = None"
    and "k_ctxs s1 = k_ctxs s" "replies s1 = replies s" "ctx_refs_ok s" "r_flags q = 0" "\<not> nvme_state_terminal s1"
    and "sq_contents (get_q s1 Io_q) = sq_contents (get_q s Io_q)"
    and "nvme_fail_nonready_command P r s1 = (e, s')"
  shows "io_handoff io s e s'"
proof -
  let ?s2 = "upd_req r (\<lambda>q. q\<lparr>r_status := 0, r_retries := 0, r_flags := 0\<rparr>) s1"
  have rq: "rq s1 r = q" using assms(3) by (simp add: rq_def)
  have "e = IOERR_UNITBUSY" "s' = nvme_req_destroy r ?s2"
    using assms(8,9,11) by (auto simp: nvme_fail_nonready_command_def Let_def rq nvme_req_noretry_def)
  moreover have "tables_ok ?s2" "in_slot ?s2 r"
    using upd_req_tables [of "\<lambda>q. q\<lparr>r_status := 0, r_retries := 0, r_flags := 0\<rparr>" s1 r] assms(1,2) by auto
  ultimately show ?thesis
    using assms(3-10)
    by (auto intro!: handoff_destroyed [where q = "q\<lparr>r_status := 0, r_retries := 0, r_flags := 0\<rparr>"]
        simp: rq upd_req_def replies_def)
qed

text \<open>Submission of a request that has been set up.\<close>

lemma submit_handoff:
  assumes "tables_ok s2" "in_slot s2 r" "k_reqs s2 = (k_reqs s)(r := Some q)" "k_reqs s r = None"
    and "k_ctxs s2 = k_ctxs s" "replies s2 = replies s" "tables_ok s" "ctx_refs_ok s" "owners s io = {}"
    and "r_io q = Some io" "r_ctx q = None" "sq_contents (get_q s2 Io_q) = sq_contents (get_q s Io_q)"
    and e: "nvme_submit_io r s2 = (e, s')"
  shows "io_handoff io s e s'"
proof (cases "e = NVME_IO_ASYNC")
  case False
  then have "e \<in> {IOERR_BADADDRESS, IOERR_UNITBUSY}" "s' = nvme_req_destroy r s2"
    using submit_io_cases [of r s2] e by auto
  then show ?thesis using handoff_destroyed [OF assms(1-6,8)] assms(12) by auto
next
  case True
  have rq: "rq s2 r = q" using assms(3) by (simp add: rq_def)
  have acc: "fst (nvme_submit_io r s2) = NVME_IO_ASYNC" "snd (nvme_submit_io r s2) = s'" using e True by simp_all
  note sa = submit_io_accepted [OF assms(1) acc(1), unfolded acc(2) rq]
  have k: "k_reqs s' = (k_reqs s)(r := Some (q\<lparr>r_submit_us := k_clock s2\<rparr>))" using sa(3) assms(3) by simp
  have "tables_ok s'" using submit_io_ok [OF assms(1,2)] acc by simp
  moreover have "in_slot s' r" using sa(2) assms(2,3) k by (auto simp: in_slot_def)
  moreover have "replies s' = replies s" "k_ctxs s' = k_ctxs s"
    using replies_submit [of r s2] io_frameD(1) [OF io_frame_submit [OF io_frame_refl, of s2 r]] assms(5,6)
    by (simp_all add: acc(2))
  ultimately show ?thesis
    using handoff_single [OF assms(7-9) _ _ _ k assms(4)] assms(10,11) True by simp
qed

text \<open>
  What the single-command path relies on: a set-up routine touches only its own
  request, keeps the identity of that request, and fails only for lack of memory.
\<close>

locale request_setup =
  fixes prepare :: "nat \<Rightarrow> NVMeController \<Rightarrow> io_error \<times> NVMeController"
  assumes setup_req: "req_frame r s (snd (prepare r s))"
    and setup_frame: "io_frame s (snd (prepare r s))"
    and setup_replies: "replies (snd (prepare r s)) = replies s"
    and setup_result: "fst (prepare r s) \<in> {IOERR_NO_ERROR, IOERR_SELFTEST}"
begin

lemma after_setup:
  assumes "k_reqs s1 = (k_reqs s)(r := Some q)" "r_io q = Some io" "r_ctx q = None" "tables_ok s1" "in_slot s1 r"
    and "prepare r s1 = (serr, s2)"
  obtains q2 where "k_reqs s2 = (k_reqs s)(r := Some q2)" "r_io q2 = Some io" "r_ctx q2 = None" "tables_ok s2" "in_slot s2 r"
    "k_ctxs s2 = k_ctxs s1" "replies s2 = replies s1" "get_q s2 Io_q = get_q s1 Io_q" "serr \<in> {IOERR_NO_ERROR, IOERR_SELFTEST}"
proof -
  have f: "req_frame r s1 s2" using setup_req [of r s1] assms(6) by simp
  obtain q2 where q2: "k_reqs s2 r = Some q2" using f assms(1) by (auto simp: req_frame_def)
  have "k_reqs s2 = (k_reqs s)(r := Some q2)" using f q2 assms(1) by (auto simp: req_frame_def)
  moreover have "r_io q2 = Some io" "r_ctx q2 = None" using f q2 assms(1-3) by (auto simp: req_frame_def rq_def)
  ultimately show thesis
    using that req_frame_tables [OF f assms(4,5)] io_frameD(1) [OF setup_frame [of s1 r]] setup_replies [of r s1]
      setup_result [of r s1] f assms(6) by (simp add: req_frame_def)
qed

lemma handoff:
  assumes "tables_ok s" "req_slab_ok P" "ctx_refs_ok s" "owners s io = {}" "\<not> nvme_state_terminal s"
    and e: "single_shot P u io prepare s = (e, s')"
  shows "io_handoff io s e s'"
proof -
  obtain res s1 where a: "nvme_req_alloc_io P u (Some io) s = (res, s1)" by (meson surj_pair)
  show ?thesis
  proof (cases res)
    case (Inl err)
    then have "err \<in> {IOERR_SELFTEST, IOERR_UNITBUSY}"
      using a by (auto simp: nvme_req_alloc_io_def split: prod.splits sum.splits alloc_failure.splits)
    then show ?thesis using alloc_io_ok(1) [OF assms(1,2) a] Inl e a assms(1,3) by (auto simp: single_shot_def)
  next
    case (Inr r)
    obtain q where q: "k_reqs s1 = (k_reqs s)(r := Some q)" "k_reqs s r = None" "tables_ok s1" "in_slot s1 r"
      "r_io q = Some io" "r_ctx q = None" "r_q q = Io_q" "r_flags q = 0" "io_frame s s1" "replies s1 = replies s"
      "sq_contents (get_q s1 Io_q) = sq_contents (get_q s Io_q)"
      using fresh_request [OF assms(1,2) a [unfolded Inr]] by blast
    note fr = io_frameD [OF q(9)]
    obtain serr s2 where st: "prepare r s1 = (serr, s2)" by (meson surj_pair)
    have t: "\<not> nvme_state_terminal s1" using assms(5) fr by (simp add: nvme_state_terminal_def)
    have e': "(e, s') = (if \<not> nvme_check_ready s1 then nvme_fail_nonready_command P r s1
        else if serr \<noteq> IOERR_NO_ERROR then (serr, nvme_req_destroy r s2) else nvme_submit_io r s2)"
      using e [symmetric] unfolding single_shot_def a Inr prod.case sum.case st .
    obtain q2 where q2: "k_reqs s2 = (k_reqs s)(r := Some q2)" "r_io q2 = Some io" "r_ctx q2 = None" "tables_ok s2" "in_slot s2 r"
      "k_ctxs s2 = k_ctxs s1" "replies s2 = replies s1" "get_q s2 Io_q = get_q s1 Io_q" "serr \<in> {IOERR_NO_ERROR, IOERR_SELFTEST}"
      using after_setup [OF q(1,5,6,3,4) st] by blast
    show ?thesis
    proof (cases "nvme_check_ready s1")
      case False
      then show ?thesis using fail_nonready_handoff [OF q(3,4,1,2) _ q(10) assms(3) q(8) t q(11)] e' fr by simp
    next
      case True
      then show ?thesis
        using handoff_destroyed [OF q2(4,5,1) q(2) _ _ assms(3)] q2 q(10,11) fr e'
          submit_handoff [OF q2(4,5,1) q(2) _ _ assms(1,3,4) q2(2,3)]
        by (cases "serr = IOERR_NO_ERROR") auto
    qed
  qed
qed

end

interpretation rw_setup: request_setup "\<lambda>r. nvme_setup_rw P r lba blocks opcode buffer" for P lba blocks opcode buffer
  by unfold_locales (simp_all only: req_frame_setup_rw io_frame_setup_rw io_frame_refl replies_setup_rw setup_rw_errors)

interpretation flush_setup: request_setup "\<lambda>r s. (IOERR_NO_ERROR, nvme_setup_flush P r s)" for P
  by unfold_locales (simp_all add: nvme_setup_flush_def req_frame_upd)

interpretation wz_setup: request_setup "\<lambda>r s. (IOERR_NO_ERROR, nvme_setup_write_zeroes P r lba blocks s)" for P lba blocks
  by unfold_locales (simp_all add: req_frame_setup_wz, simp add: nvme_setup_write_zeroes_def)

section \<open>The multi-command path\<close>

text \<open>A pump adds only chunks of its own context, and a failing one adds nothing.\<close>

lemma pump_only_own:
  assumes "tables_ok s" "req_slab_ok P" "k_ctxs s c \<noteq> None" "nvme_io_context_pump P c s = (e, s')"
  shows "(\<forall>r. k_reqs s' r = k_reqs s r \<or> k_reqs s r = None \<and> (\<exists>q. k_reqs s' r = Some q \<and> r_ctx q = Some c \<and> r_io q = None)) \<and>
    (\<forall>c'. c' \<noteq> c \<longrightarrow> k_ctxs s' c' = k_ctxs s c') \<and> x_io (cx s' c) = x_io (cx s c) \<and>
    (e \<noteq> NVME_IO_ASYNC \<longrightarrow> x_inflight (cx s c) = 0 \<and> k_reqs s' = k_reqs s \<and>
       sq_contents (get_q s' Io_q) = sq_contents (get_q s Io_q))"
  using assms
proof (induction P c s arbitrary: e s' rule: nvme_io_context_pump.induct)
  case (1 P c s)
  let ?go = "x_dispatched (cx s c) < x_total_bytes (cx s c) \<and> x_inflight (cx s c) < sib_cap s"
  show ?case
  proof (cases ?go)
    case False
    then have "e = NVME_IO_ASYNC" "s' = s" using 1(5) by (auto simp: nvme_io_context_pump.simps)
    then show ?thesis by simp
  next
    case go: True
    show ?thesis
    proof (cases "pump_once P c s")
      case (Pump_stop e1 s1)
      then have "e = e1" "s' = s1" using 1(5) go by (simp_all add: nvme_io_context_pump.simps)
      then show ?thesis using pump_once_stop [OF 1(2-4) Pump_stop] by (auto simp: pump_stopped_def)
    next
      case (Pump_more s1)
      note m = pump_once_more [OF 1(2,3) Pump_more] and x = pump_once_more_ctx [OF Pump_more]
      have "x_inflight (cx s1 c) \<noteq> 0" by (simp add: x)
      then have live: "k_ctxs s1 c \<noteq> None" by (cases "k_ctxs s1 c") (auto simp: cx_def zero_ctx_def)
      have "nvme_io_context_pump P c s1 = (e, s')" using 1(5) go Pump_more by (simp add: nvme_io_context_pump.simps)
      note ih = 1(1) [OF go Pump_more m(1) 1(3) live this]
      obtain r q where r: "k_reqs s r = None" "k_reqs s1 = (k_reqs s)(r := Some q)" "r_ctx q = Some c" "r_io q = None"
        using m(2) by blast
      have own: "k_reqs s' r' = k_reqs s r' \<or> k_reqs s r' = None \<and> (\<exists>q. k_reqs s' r' = Some q \<and> r_ctx q = Some c \<and> r_io q = None)" for r'
      proof -
        have "k_reqs s' r' = k_reqs s1 r' \<or> k_reqs s1 r' = None \<and> (\<exists>q. k_reqs s' r' = Some q \<and> r_ctx q = Some c \<and> r_io q = None)"
          using ih by blast
        then show ?thesis using r by (cases "r' = r") auto
      qed
      have async: "e = NVME_IO_ASYNC" using ih by (auto simp: x)
      show ?thesis using own ih x(3) by (simp add: x async)
    qed
  qed
qed

lemma pump_owners:
  assumes "tables_ok s" "req_slab_ok P" "k_ctxs s c \<noteq> None" "nvme_io_context_pump P c s = (e, s')" "k_ctxs s' c \<noteq> None"
  shows "owners s' io = owners s io"
proof -
  have own: "\<forall>r. k_reqs s' r = k_reqs s r \<or> k_reqs s r = None \<and> (\<exists>q. k_reqs s' r = Some q \<and> r_ctx q = Some c \<and> r_io q = None)"
    and others: "\<forall>c'. c' \<noteq> c \<longrightarrow> k_ctxs s' c' = k_ctxs s c'" and self: "x_io (cx s' c) = x_io (cx s c)"
    using pump_only_own [OF assms(1-4)] by blast+
  have "{r. \<exists>q. k_reqs s' r = Some q \<and> r_io q = Some io} = {r. \<exists>q. k_reqs s r = Some q \<and> r_io q = Some io}"
  proof (intro Collect_cong)
    fix r
    show "(\<exists>q. k_reqs s' r = Some q \<and> r_io q = Some io) \<longleftrightarrow> (\<exists>q. k_reqs s r = Some q \<and> r_io q = Some io)"
      using own [THEN spec, of r] by (elim disjE conjE exE) simp_all
  qed
  moreover have "{d. \<exists>x. k_ctxs s' d = Some x \<and> x_io x = io} = {d. \<exists>x. k_ctxs s d = Some x \<and> x_io x = io}"
  proof (intro Collect_cong)
    fix d
    show "(\<exists>x. k_ctxs s' d = Some x \<and> x_io x = io) \<longleftrightarrow> (\<exists>x. k_ctxs s d = Some x \<and> x_io x = io)"
      using others self assms(3,5) by (cases "d = c") (auto simp: cx_def)
  qed
  ultimately show ?thesis by (simp only: owners_def)
qed

lemma start_context_handoff:
  assumes ok: "tables_ok s" "req_slab_ok P" "ctx_refs_ok s" "owners s io = {}"
    and x: "x_io x = io" "x_dispatched x = 0" "x_total_bytes x \<noteq> 0" "x_inflight x = 0"
    and cap: "0 < sib_cap s" and pr: "\<And>ev. prep = Some ev \<Longrightarrow> reply_of ev = None"
    and e: "start_context P x prep s = (e, s')"
  shows "io_handoff io s e s'"
proof (cases "nvme_check_ready s")
  case False
  then have "e \<in> {IOERR_BADADDRESS, IOERR_UNITBUSY}" "s' = s" using e by (auto simp: start_context_def split: if_splits)
  then show ?thesis using ok by auto
next
  case ready: True
  show ?thesis
  proof (cases "p_ctx_slab P (\<lambda>c. k_ctxs s c \<noteq> None)")
    case None
    then show ?thesis using e ready ok by (simp add: start_context_def)
  next
    case (Some c)
    define s2 where "s2 = (case prep of Some e \<Rightarrow> emit e (s\<lparr>k_ctxs := (k_ctxs s)(c := Some x)\<rparr>)
        | None \<Rightarrow> s\<lparr>k_ctxs := (k_ctxs s)(c := Some x)\<rparr>)"
    have fresh: "k_ctxs s c = None" using req_slab_okD(2) [OF ok(2) Some] by simp
    have s2: "k_reqs s2 = k_reqs s" "k_ctxs s2 = (k_ctxs s)(c := Some x)" "get_q s2 sel = get_q s sel"
      "sib_cap s2 = sib_cap s" "cx s2 c = x" "replies s2 = replies s" for sel
      using pr by (cases sel; auto simp: s2_def emit_def get_q_def sib_cap_def cx_def replies_def map_filter_def split: option.split)+
    have t2: "tables_ok s2" by (rule tables_ok_same [OF ok(1)]) (simp_all add: s2)
    have none: "siblings s2 c = {}" using ok(3) fresh unfolding siblings_def s2 ctx_refs_ok_def by blast
    then have cnt: "ctx_counted s2 c" by (simp add: ctx_counted_def s2 x)
    obtain err s3 where p: "nvme_io_context_pump P c s2 = (err, s3)" by (meson surj_pair)
    have live2: "k_ctxs s2 c \<noteq> None" by (simp add: s2)
    have lt: "x_dispatched (cx s2 c) \<le> x_total_bytes (cx s2 c)" "x_dispatched (cx s2 c) < x_total_bytes (cx s2 c)"
      using x by (simp_all add: s2 word_neq_0_conv)
    note acct = pump_accounting_aux [OF t2 ok(2) live2 cnt lt(1) p] and own = pump_only_own [OF t2 ok(2) live2 p]
    have rep: "replies s3 = replies s" using replies_pump [of P c s2] p by (simp add: s2)
    have res: "(e, s') = (if err \<noteq> NVME_IO_ASYNC then (err, free_ctx c s3) else (NVME_IO_ASYNC, s3))"
      using e [symmetric] ready Some p by (simp add: start_context_def Let_def flip: s2_def)
    have refs: "k_ctxs s c' \<noteq> None" if "k_reqs s r = Some q" "r_ctx q = Some c'" for r q c'
      using ok(3) that by (auto simp: ctx_refs_ok_def)
    show ?thesis
    proof (cases "err = NVME_IO_ASYNC")
      case False
      then have s': "e = err" "s' = free_ctx c s3" using res by simp_all
      have gq: "get_q (free_ctx c s3) Io_q = get_q s3 Io_q" "k_reqs (free_ctx c s3) = k_reqs s3"
        by (simp_all add: free_ctx_def get_q_def)
      have k: "k_reqs s' = k_reqs s" "sq_contents (get_q s' Io_q) = sq_contents (get_q s Io_q)"
        using own False by (simp_all add: s' s2 gq)
      have "k_ctxs s' = k_ctxs s" using own fresh by (auto simp: s' s2 free_ctx_def)
      moreover have "tables_ok s'" by (rule tables_ok_same [of s3]) (use acct in \<open>simp_all add: s' free_ctx_def get_q_def split: queue_sel.split\<close>)
      moreover have "replies s' = replies s" using rep by (simp add: s' free_ctx_def replies_def)
      ultimately show ?thesis using k False acct ok(3) s'(1) by (simp add: io_handoff_def ctx_refs_ok_def)
    next
      case True
      then have s': "e = NVME_IO_ASYNC" "s' = s3" using res by simp_all
      have live: "k_ctxs s3 c = Some (cx s3 c)" using acct by (auto simp: cx_def)
      have "owners s3 io' = (if io' = io then {Inr c} else owners s io')" for io'
      proof -
        have "owners s3 io' = owners s2 io'" using pump_owners [OF t2 ok(2) live2 p] live by simp
        also have "\<dots> = (if io' = io then {Inr c} else owners s io')" using ok(4) fresh x(1) by (auto simp: owners_def s2)
        finally show ?thesis .
      qed
      moreover have "will_reply s3 (Inr c)" using acct cap True lt(2) by (simp add: will_reply_def s2)
      moreover have "ctx_refs_ok s3"
        using own live refs by (auto simp: ctx_refs_ok_def s2) (metis option.distinct(1) option.inject)+
      ultimately show ?thesis using acct rep s' by (auto simp: io_handoff_def)
    qed
  qed
qed

section \<open>What a dispatch leaves alone\<close>

definition sub_frame :: "NVMeController \<Rightarrow> NVMeController \<Rightarrow> bool" where
  "sub_frame s s' \<longleftrightarrow> s' = s\<lparr>k_admin_q := k_admin_q s', k_io_q := k_io_q s', k_reqs := k_reqs s',
     k_prp_small := k_prp_small s', k_prp_large := k_prp_large s', k_dma := k_dma s', k_mem := k_mem s',
     k_trace := k_trace s', k_ctxs := k_ctxs s', k_ctx_stalled := k_ctx_stalled s', k_dsm := k_dsm s', k_scsi := k_scsi s'\<rparr>"

lemma sub_frame_refl [simp]: "sub_frame s s"
  by (simp add: sub_frame_def)

lemma sub_frameD:
  assumes "sub_frame s s'"
  shows "k_ios s' = k_ios s" "k_units s' = k_units s" "k_state s' = k_state s" "k_flags s' = k_flags s"
    "k_quirks s' = k_quirks s" "k_io_max_inflight s' = k_io_max_inflight s" "k_retry_list s' = k_retry_list s"
    "k_io_pending s' = k_io_pending s" "k_msgPort s' = k_msgPort s" "k_unit_waits s' = k_unit_waits s" "k_meta s' = k_meta s"
  by (subst assms [unfolded sub_frame_def], simp)+

lemma sub_frame_trans:
  assumes "sub_frame s s'" "sub_frame s' s''"
  shows "sub_frame s s''"
proof -
  have "s'' = s'\<lparr>k_admin_q := k_admin_q s'', k_io_q := k_io_q s'', k_reqs := k_reqs s'',
     k_prp_small := k_prp_small s'', k_prp_large := k_prp_large s'', k_dma := k_dma s'', k_mem := k_mem s'',
     k_trace := k_trace s'', k_ctxs := k_ctxs s'', k_ctx_stalled := k_ctx_stalled s'', k_dsm := k_dsm s'', k_scsi := k_scsi s''\<rparr>"
    using assms(2) by (simp only: sub_frame_def)
  also have "\<dots> = s\<lparr>k_admin_q := k_admin_q s'', k_io_q := k_io_q s'', k_reqs := k_reqs s'',
     k_prp_small := k_prp_small s'', k_prp_large := k_prp_large s'', k_dma := k_dma s'', k_mem := k_mem s'',
     k_trace := k_trace s'', k_ctxs := k_ctxs s'', k_ctx_stalled := k_ctx_stalled s'', k_dsm := k_dsm s'', k_scsi := k_scsi s''\<rparr>"
    by (subst assms(1) [unfolded sub_frame_def]) simp
  finally show ?thesis unfolding sub_frame_def .
qed

lemma sub_frame_io:
  assumes "io_frame s s'"
  shows "sub_frame s s'"
proof -
  note f = io_frameD [OF assms]
  have "s' = s\<lparr>k_admin_q := k_admin_q s', k_io_q := k_io_q s', k_reqs := k_reqs s',
     k_prp_small := k_prp_small s', k_prp_large := k_prp_large s', k_dma := k_dma s', k_mem := k_mem s',
     k_trace := k_trace s'\<rparr>" using assms by (simp only: io_frame_def)
  also have "\<dots> = s\<lparr>k_admin_q := k_admin_q s', k_io_q := k_io_q s', k_reqs := k_reqs s',
     k_prp_small := k_prp_small s', k_prp_large := k_prp_large s', k_dma := k_dma s', k_mem := k_mem s',
     k_trace := k_trace s', k_ctxs := k_ctxs s', k_ctx_stalled := k_ctx_stalled s', k_dsm := k_dsm s', k_scsi := k_scsi s'\<rparr>"
    by (rule NVMeController.equality) (simp_all add: f)
  finally show ?thesis unfolding sub_frame_def .
qed

lemma sub_frame_step:
  assumes "sub_frame s s'"
  shows "sub_frame s (upd_ctx c f s')" "sub_frame s (park_ctx c s')" "sub_frame s (free_ctx c s')" "sub_frame s (emit e s')"
    "sub_frame s (s'\<lparr>k_ctxs := x\<rparr>)" "sub_frame s (s'\<lparr>k_dsm := d\<rparr>)" "sub_frame s (dma_free a s')" "sub_frame s (s'\<lparr>k_mem := m\<rparr>)"
    "sub_frame s (s'\<lparr>k_dma := y\<rparr>)" "sub_frame s (s'\<lparr>k_scsi := z\<rparr>)" "sub_frame s (s'\<lparr>k_ctx_stalled := l\<rparr>)"
  by (rule sub_frame_trans [OF assms]; simp add: sub_frame_def upd_ctx_def park_ctx_def free_ctx_def emit_def dma_free_def)+

declare sub_frame_step [simp]

lemma sub_frame_pump_once:
  "sub_frame s (case pump_once P c s of Pump_more s' \<Rightarrow> s' | Pump_stop e s' \<Rightarrow> s')"
proof -
  obtain res s1 where a: "nvme_req_alloc_io P (x_unit (cx s c)) None s = (res, s1)" by (meson surj_pair)
  have f1: "io_frame s s1" using io_frame_alloc_io [OF io_frame_refl, of s P "x_unit (cx s c)" None] a by simp
  show ?thesis
  proof (cases res)
    case (Inl err)
    then show ?thesis using a sub_frame_io [OF f1] by (simp add: pump_once_alt)
  next
    case (Inr r)
    obtain serr s3 where e3: "alloc_setup P c r s s1 = (serr, s3)" by (meson surj_pair)
    have "io_frame s (upd_req r (\<lambda>q. q\<lparr>r_ctx := Some c\<rparr>) s1)" using f1 by simp
    then have "io_frame s (snd (alloc_setup P c r s s1))" by (simp add: alloc_setup_def Let_def)
    then have f3: "io_frame s s3" using e3 by simp
    let ?s4 = "upd_ctx c (\<lambda>x. x\<lparr>x_dispatched := x_dispatched x + next_bytes s (cx s c),
                x_inflight := x_inflight x + 1\<rparr>) s3"
    obtain suberr s5 where sub: "nvme_submit_io r ?s4 = (suberr, s5)" by (meson surj_pair)
    have "sub_frame ?s4 s5" using sub_frame_io [OF io_frame_submit [OF io_frame_refl, of ?s4 r]] unfolding sub by simp
    then have "sub_frame s s5" by (rule sub_frame_trans [OF sub_frame_step(1) [OF sub_frame_io [OF f3]]])
    moreover have "sub_frame s (nvme_req_destroy r s3)" using sub_frame_io [OF io_frame_destroy [OF f3]] .
    ultimately show ?thesis unfolding pump_once_alt a prod.case Inr sum.case e3 sub Let_def by simp
  qed
qed

lemma sub_frame_pump: "sub_frame s (snd (nvme_io_context_pump P c s))"
proof (induction P c s rule: nvme_io_context_pump.induct)
  case (1 P c s)
  then show ?case
    using sub_frame_pump_once [of s P c] sub_frame_trans
    by (subst nvme_io_context_pump.simps) (auto split: pump_step.split)
qed

lemma sub_frame_fail_nonready:
  assumes "\<not> nvme_state_terminal s1" "r_flags (rq s1 r) = 0"
  shows "io_frame s1 (snd (nvme_fail_nonready_command P r s1))"
  using assms by (simp add: nvme_fail_nonready_command_def Let_def nvme_req_noretry_def)

lemma sub_frame_single:
  assumes "tables_ok s" "req_slab_ok P" "\<not> nvme_state_terminal s" "\<And>r s. io_frame s (snd (prepare r s))"
  shows "sub_frame s (snd (single_shot P u io prepare s))"
proof -
  obtain res s1 where a: "nvme_req_alloc_io P u (Some io) s = (res, s1)" by (meson surj_pair)
  have f1: "io_frame s s1" using io_frame_alloc_io [OF io_frame_refl, of s P u "Some io"] a by simp
  show ?thesis
  proof (cases res)
    case (Inl err)
    then show ?thesis using a sub_frame_io [OF f1] by (simp add: single_shot_def)
  next
    case (Inr r)
    obtain q where q: "k_reqs s1 = (k_reqs s)(r := Some q)" "r_flags q = 0"
      using fresh_request [OF assms(1,2) a [unfolded Inr]] by blast
    obtain serr s2 where st: "prepare r s1 = (serr, s2)" by (meson surj_pair)
    have f2: "io_frame s s2" using io_frame_trans [OF f1] assms(4) [of s1 r] st by simp
    have t: "\<not> nvme_state_terminal s1" using assms(3) io_frameD(4) [OF f1] by (simp add: nvme_state_terminal_def)
    have "io_frame s1 (snd (nvme_fail_nonready_command P r s1))"
      by (rule sub_frame_fail_nonready [OF t]) (use q in \<open>simp add: rq_def\<close>)
    then show ?thesis
      using io_frame_trans [OF f1] f2 unfolding single_shot_def a Inr prod.case sum.case st
      by (auto intro!: sub_frame_io)
  qed
qed

lemma sub_frame_start: "sub_frame s (snd (start_context P x prep s))"
proof -
  have "sub_frame s (snd (nvme_io_context_pump P c t))" if "sub_frame s t" for c t
    using sub_frame_trans [OF that sub_frame_pump] .
  then have "sub_frame s u" if "nvme_io_context_pump P c t = (e, u)" "sub_frame s t" for c t e u
    using that by (metis snd_conv)
  then show ?thesis
    by (auto simp: start_context_def Let_def split: option.split prod.split)
qed

section \<open>Read and write\<close>

lemma past_end_iff: "past_end U lba blocks \<longleftrightarrow> u_logicalSectors U \<noteq> 0 \<and>
    unat (u_logicalSectors U) < (unat lba + unat blocks) mod 2 ^ 64"
proof -
  have "unat (ucast blocks :: u64) = unat blocks" using unat_lt_size [of blocks] by (simp add: unat_ucast_mod)
  then have "unat (lba + ucast blocks) = (unat lba + unat blocks) mod 2 ^ 64" by (simp add: unat_word_ariths)
  then show ?thesis by (simp add: past_end_def word_less_nat_alt word_neq_0_conv)
qed

lemma submit_rw_dispatch:
  assumes "tables_ok s" "req_slab_ok P" "ctx_refs_ok s" "owners s io = {}" "\<not> nvme_state_terminal s" "0 < sib_cap s"
    and e: "nvme_io_submit_rw P u io lba blocks opcode buffer s = (e, s')"
  shows "io_handoff io s e s' \<and>
    (e = NVME_IO_ASYNC \<longrightarrow> block_bytes (k_units s u) blocks \<noteq> 0 \<and> buffer \<noteq> 0 \<and>
       (u_logicalSectors (k_units s u) = 0 \<or>
        (unat lba + unat blocks) mod 2 ^ 64 \<le> unat (u_logicalSectors (k_units s u))))"
proof -
  let ?U = "k_units s u" and ?b = "block_bytes (k_units s u) blocks"
  let ?x = "rw_context P u io lba ?b opcode buffer"
  let ?prep = "if x_data_precached ?x then Some (Ev_flush_ns buffer ?b (opcode = nvme_cmd_write)) else None"
  consider (bad) "?b = 0 \<or> buffer = 0 \<or> past_end ?U lba blocks" "s' = s" "e \<in> {IOERR_BADLENGTH, IOERR_BADADDRESS}"
    | (single) "?b \<noteq> 0" "buffer \<noteq> 0" "\<not> past_end ?U lba blocks"
        "single_shot P u io (\<lambda>r. nvme_setup_rw P r lba blocks opcode buffer) s = (e, s')"
    | (multi) "?b \<noteq> 0" "buffer \<noteq> 0" "\<not> past_end ?U lba blocks" "start_context P ?x ?prep s = (e, s')"
    using e unfolding nvme_io_submit_rw_def Let_def by (auto split: if_splits)
  then show ?thesis
  proof cases
    case bad
    then show ?thesis using assms(1,3) by auto
  next
    case single
    then show ?thesis using rw_setup.handoff [OF assms(1-5) single(4)] by (auto simp: past_end_iff)
  next
    case multi
    have x: "x_io ?x = io" "x_dispatched ?x = 0" "x_total_bytes ?x \<noteq> 0" "x_inflight ?x = 0"
      using multi(1) by (simp_all add: rw_context_def zero_ctx_def)
    have "io_handoff io s e s'"
      by (rule start_context_handoff [OF assms(1-4) x assms(6) _ multi(4)]) (auto split: if_splits)
    then show ?thesis using multi by (auto simp: past_end_iff)
  qed
qed


text \<open>
  C29.  A read or write is handed over completely or not at all.  If
  \<open>nvme_io_submit_rw\<close> answers that the request is asynchronous, the AmigaOS request
  has exactly one owner: a live request in a slot of the I/O queue, or a chunk
  context with a live chunk or a place on the stalled list.  With any other answer
  no request, context or ring entry remains and nothing has been replied, so the
  caller may complete it.  An accepted transfer is not empty, has a buffer and,
  unless the 64-bit sum of LBA and count wraps, lies inside a sized namespace.
\<close>

theorem submit_rw_handoff:
  assumes "tables_ok s" "req_slab_ok P" "ctx_refs_ok s" "owners s io = {}" "\<not> nvme_state_terminal s" "0 < sib_cap s"
    and e: "nvme_io_submit_rw P u io lba blocks opcode buffer s = (e, s')"
  shows "io_handoff io s e s' \<and>
    (e = NVME_IO_ASYNC \<longrightarrow> block_bytes (k_units s u) blocks \<noteq> 0 \<and> buffer \<noteq> 0 \<and>
       (u_logicalSectors (k_units s u) = 0 \<or>
        (unat lba + unat blocks) mod 2 ^ 64 \<le> unat (u_logicalSectors (k_units s u))))"
  by (rule submit_rw_dispatch [OF assms])

theorem submit_rw_handoff_witness:
  "\<exists>e s'. nvme_io_submit_rw m68k_platform 0 7 77 8 nvme_cmd_read 0x10200 demo_ctrl = (e, s') \<and> io_handoff 7 demo_ctrl e s'"
proof -
  obtain e s' where e: "nvme_io_submit_rw m68k_platform 0 7 77 8 nvme_cmd_read 0x10200 demo_ctrl = (e, s')"
    by (meson surj_pair)
  have "ctx_refs_ok demo_ctrl" "owners demo_ctrl 7 = {}" "\<not> nvme_state_terminal demo_ctrl" "0 < sib_cap demo_ctrl"
    by (simp_all add: ctx_refs_ok_def owners_def nvme_state_terminal_def sib_cap_def demo_ctrl_def zero_ctrl_def)
  from submit_rw_handoff [OF demo_tables_ok m68k_req_slab_ok this e] e show ?thesis by blast
qed

lemma single_shot_rw_command:
  assumes "tables_ok s" "req_slab_ok P" "nvme_check_ready s"
    and e: "single_shot P u io (\<lambda>r. nvme_setup_rw P r lba blocks opcode buffer) s = (NVME_IO_ASYNC, s')"
  shows "\<exists>cmd. sq_contents (get_q s' Io_q) = sq_contents (get_q s Io_q) @ [cmd] \<and> cmd_opcode cmd = opcode \<and>
    cmd_body cmd = Body_rw (p_le64 P lba) (p_le16 P (ucast (blocks - 1)))"
proof -
  obtain res s1 where a: "nvme_req_alloc_io P u (Some io) s = (res, s1)" by (meson surj_pair)
  have "\<exists>r. res = Inr r"
    using e a by (cases res) (auto simp: single_shot_def nvme_req_alloc_io_def split: prod.splits sum.splits alloc_failure.splits)
  then obtain r where r: "res = Inr r" by blast
  obtain q where q: "k_reqs s1 = (k_reqs s)(r := Some q)" "tables_ok s1" "in_slot s1 r"
      "r_io q = Some io" "r_ctx q = None" "r_q q = Io_q" "io_frame s s1" "sq_contents (get_q s1 Io_q) = sq_contents (get_q s Io_q)"
    using fresh_request [OF assms(1,2) a [unfolded r]] by blast
  obtain serr s2 where st: "nvme_setup_rw P r lba blocks opcode buffer s1 = (serr, s2)" by (meson surj_pair)
  have rdy: "nvme_check_ready s1" using assms(3) io_frameD(4) [OF q(7)] by (simp add: nvme_check_ready_def)
  have serr: "serr = IOERR_NO_ERROR" and sub: "nvme_submit_io r s2 = (NVME_IO_ASYNC, s')"
    using e setup_rw_errors [of P r lba blocks opcode buffer s1] by (auto simp: single_shot_def a r st rdy split: if_splits)
  obtain q2 where q2: "tables_ok s2" "in_slot s2 r" "get_q s2 Io_q = get_q s1 Io_q"
    using rw_setup.after_setup [OF q(1,4,5,2,3) st] by blast
  have "r_q (rq s2 r) = Io_q" using req_frame_setup_rw [of r s1 P lba blocks opcode buffer] st q(1,6) by (simp add: req_frame_def rq_def)
  then show ?thesis
    using submit_io_accepted(1) [OF q2(1), of r] sub setup_rw_cmd [OF st [unfolded serr]] q2(3) q(8)
    by (intro exI [of _ "r_cmd (rq s2 r)"]) simp
qed

text \<open>
  The range check adds LBA and count in 64 bits.  A single-command transfer
  whose range runs past the end of the LBA space, and wraps to a small sum, is not
  refused for it: it takes the single-command path, and once accepted the command
  in the ring carries the out-of-range LBA.
\<close>

theorem wrapped_range_sent:
  assumes "tables_ok s" "req_slab_ok P" "nvme_check_ready s" "block_bytes (k_units s u) blocks \<noteq> 0" "buffer \<noteq> 0"
    and "block_bytes (k_units s u) blocks \<le> nvme_rw_chunk_cap s (ucast (u_blockShift (k_units s u))) lba"
    and wrap: "2 ^ 64 \<le> unat lba + unat blocks" "unat lba + unat blocks - 2 ^ 64 \<le> unat (u_logicalSectors (k_units s u))"
    and e: "nvme_io_submit_rw P u io lba blocks opcode buffer s = (e, s')"
  shows "(e, s') = single_shot P u io (\<lambda>r. nvme_setup_rw P r lba blocks opcode buffer) s \<and>
    (e = NVME_IO_ASYNC \<longrightarrow> (\<exists>cmd. sq_contents (get_q s' Io_q) = sq_contents (get_q s Io_q) @ [cmd] \<and>
       cmd_body cmd = Body_rw (p_le64 P lba) (p_le16 P (ucast (blocks - 1)))))"
proof -
  have "unat lba + unat blocks < 2 ^ 64 + 2 ^ 64" using unat_lt_size [of lba] unat_lt_size [of blocks] by simp
  then have "(unat lba + unat blocks) mod 2 ^ 64 = unat lba + unat blocks - 2 ^ 64" using wrap(1) by (simp add: mod_if)
  then have ne: "\<not> past_end (k_units s u) lba blocks" using wrap(2) by (simp add: past_end_iff)
  then have s1: "single_shot P u io (\<lambda>r. nvme_setup_rw P r lba blocks opcode buffer) s = (e, s')"
    using e assms(4-6) by (simp add: nvme_io_submit_rw_def Let_def)
  then show ?thesis using single_shot_rw_command [OF assms(1-3), of u io lba blocks opcode buffer s'] s1 by (auto simp: eq_commute)
qed

theorem wrapped_range_sent_witness:
  "\<exists>s' cmd len. nvme_io_submit_rw m68k_platform 0 7 (- 4) 8 nvme_cmd_read 0x10200 demo_ctrl = (NVME_IO_ASYNC, s') \<and>
     u_logicalSectors (k_units demo_ctrl 0) = 1000 \<and> sq_contents (get_q s' Io_q) = [cmd] \<and>
     cmd_body cmd = Body_rw (p_le64 m68k_platform (- 4)) len"
proof -
  let ?res = "nvme_io_submit_rw m68k_platform 0 7 (- 4) 8 nvme_cmd_read 0x10200 demo_ctrl"
  have u: "k_units demo_ctrl 0 = demo_unit" "u_logicalSectors demo_unit = 1000" "u_blockShift demo_unit = 9"
    by (simp_all add: demo_ctrl_def demo_unit_def)
  have b: "block_bytes demo_unit 8 = 4096" by (simp add: block_bytes_def u push_bit_eq_mult)
  have cap: "nvme_rw_chunk_cap demo_ctrl x lba = 4096" for x lba
    by (simp add: nvme_rw_chunk_cap_def Let_def demo_ctrl_def zero_ctrl_def)
  have rdy: "nvme_check_ready demo_ctrl" by (simp add: nvme_check_ready_def demo_ctrl_def)
  have ne: "\<not> past_end demo_unit (- 4) 8" by (simp add: past_end_def u)
  obtain e s' where e: "?res = (e, s')" by (meson surj_pair)
  have "\<exists>s. nvme_req_alloc_io m68k_platform 0 (Some 7) demo_ctrl = (Inr 0, s)"
    by (simp add: nvme_req_alloc_io_def req_alloc_def Let_def m68k_platform_def demo_ctrl_def zero_ctrl_def get_q_def
      nvme_alloc_cid_def demo_queue_def zero_queue_def free_stack_init_def upt_rec)
  then obtain s1 where a: "nvme_req_alloc_io m68k_platform 0 (Some 7) demo_ctrl = (Inr 0, s1)" by blast
  obtain q where q: "k_reqs s1 = (k_reqs demo_ctrl)(0 := Some q)" "tables_ok s1" "in_slot s1 0" "r_q q = Io_q"
      "r_unit q = Some 0" "io_frame demo_ctrl s1" "sq_contents (get_q s1 Io_q) = sq_contents (get_q demo_ctrl Io_q)"
      "r_io q = Some 7" "r_ctx q = None"
    using fresh_request [OF demo_tables_ok m68k_req_slab_ok a] by blast
  have empty: "sq_contents (get_q demo_ctrl Io_q) = []"
    by (simp add: demo_get_q sq_contents_def sq_used_def demo_queue_def zero_queue_def)
  have rq1: "rq s1 0 = q" using q(1) by (simp add: rq_def)
  obtain serr s2 where st: "nvme_setup_rw m68k_platform 0 (- 4) 8 nvme_cmd_read 0x10200 s1 = (serr, s2)" by (meson surj_pair)
  have "block_shift_of s1 (rq s1 0) = 9" using q io_frameD(3) [OF q(6)] by (simp add: block_shift_of_def rq1 u)
  then have serr: "serr = IOERR_NO_ERROR"
    using st by (simp add: nvme_setup_rw_def Let_def push_bit_eq_mult setup_bounce_def nvme_needs_bounce_def m68k_platform_def
        build_prps_def prp_first_def prp_nr_data_pages_def split: if_splits)
  have "dq_frame Io_q demo_ctrl s2"
    using dq_frame_setup_rw [of Io_q demo_ctrl s1 m68k_platform 0 "- 4" 8 nvme_cmd_read "0x10200"]
      dq_frame_alloc_io [OF dq_frame_refl, of Io_q demo_ctrl m68k_platform 0 "Some 7"] a st by simp
  then have geo: "geo (get_q s2 Io_q) = geo (get_q demo_ctrl Io_q)" by (simp add: dq_frame_def)
  obtain q2 where q2: "k_reqs s2 = (k_reqs demo_ctrl)(0 := Some q2)" "tables_ok s2" "get_q s2 Io_q = get_q s1 Io_q"
    using rw_setup.after_setup [OF q(1,8,9,2,3) st] by blast
  have "r_q (rq s2 0) = Io_q"
    using req_frame_setup_rw [of 0 s1 m68k_platform "- 4" 8 nvme_cmd_read "0x10200"] st q(4) rq1 by (simp add: req_frame_def)
  then have "fst (nvme_submit_io 0 s2) = NVME_IO_ASYNC"
    using submit_io_accepts_iff [OF q2(2), of 0] q2(3) q(7) geo unfolding empty
    by (simp add: geo_def demo_get_q demo_queue_def zero_queue_def sq_contents_def)
  moreover have "nvme_check_ready s1" using rdy io_frameD(4) [OF q(6)] by (simp add: nvme_check_ready_def)
  ultimately have "e = NVME_IO_ASYNC"
    using e by (simp add: nvme_io_submit_rw_def Let_def u b cap ne single_shot_def a st serr)
  moreover have "2 ^ 64 \<le> unat (- 4 :: u64) + unat (8 :: u32)" "unat (- 4 :: u64) + unat (8 :: u32) - 2 ^ 64 \<le> unat (1000 :: u64)"
    by simp_all
  ultimately show ?thesis
    using wrapped_range_sent [OF demo_tables_ok m68k_req_slab_ok rdy, of 0 8 "0x10200" "- 4" 7 nvme_cmd_read e s'] e
    by (simp add: u b cap empty) (metis (no_types, lifting))
qed

section \<open>Write zeroes and dataset management\<close>

lemma handoff_cong:
  assumes "k_reqs t = k_reqs s" "k_ctxs t = k_ctxs s" "\<And>sel. get_q t sel = get_q s sel" "k_trace t = k_trace s"
  shows "io_handoff io t e s' = io_handoff io s e s'" "owners t io = owners s io" "ctx_refs_ok t = ctx_refs_ok s"
    "k_ctx_stalled t = k_ctx_stalled s \<Longrightarrow> io_handoff io s' e t = io_handoff io s' e s"
proof -
  have o: "owners t = owners s" using assms by (simp add: owners_def fun_eq_iff)
  then show "owners t io = owners s io" by simp
  show c: "ctx_refs_ok t = ctx_refs_ok s" using assms by (simp add: ctx_refs_ok_def)
  show "io_handoff io t e s' = io_handoff io s e s'" using assms o by (simp add: io_handoff_def replies_def)
  have "tables_ok t = tables_ok s" using tables_ok_same [of t s] tables_ok_same [of s t] assms by auto
  moreover have "will_reply t w = will_reply s w" if "k_ctx_stalled t = k_ctx_stalled s" for w
    using assms that by (simp add: will_reply_def in_slot_def ctx_counted_def siblings_def cx_def split: sum.split)
  ultimately show "k_ctx_stalled t = k_ctx_stalled s \<Longrightarrow> io_handoff io s' e t = io_handoff io s' e s"
    using assms o c by (simp add: io_handoff_def replies_def)
qed

lemma dma_free_fields [simp]:
  "k_reqs (dma_free a s) = k_reqs s" "k_ctxs (dma_free a s) = k_ctxs s" "get_q (dma_free a s) sel = get_q s sel"
  "k_trace (dma_free a s) = k_trace s" "k_ctx_stalled (dma_free a s) = k_ctx_stalled s" "k_state (dma_free a s) = k_state s"
  "k_dma (dma_free a s) = (k_dma s)(a := None)" "tables_ok (dma_free a s) = tables_ok s" "in_slot (dma_free a s) r = in_slot s r"
proof -
  show f: "k_reqs (dma_free a s) = k_reqs s" "k_ctxs (dma_free a s) = k_ctxs s" "k_trace (dma_free a s) = k_trace s"
    "k_ctx_stalled (dma_free a s) = k_ctx_stalled s" "k_state (dma_free a s) = k_state s" "k_dma (dma_free a s) = (k_dma s)(a := None)"
    by (simp_all add: dma_free_def)
  show g: "get_q (dma_free a s) sel = get_q s sel" for sel by (cases sel) (simp_all add: dma_free_def get_q_def)
  show "tables_ok (dma_free a s) = tables_ok s"
    using tables_ok_same [of "dma_free a s" s] tables_ok_same [of s "dma_free a s"] f g by auto
  show "in_slot (dma_free a s) r = in_slot s r" using f g by (simp add: in_slot_def)
qed

lemma alloc_io_dma: "tables_ok s \<Longrightarrow> req_slab_ok P \<Longrightarrow> nvme_req_alloc_io P u io s = (res, s1) \<Longrightarrow> k_dma s1 = k_dma s"
  using req_alloc_cases [of s P Io_q "\<lambda>q. q\<lparr>r_io := io, r_unit := Some u\<rparr>"]
  by (cases "req_alloc P Io_q (\<lambda>q. q\<lparr>r_io := io, r_unit := Some u\<rparr>) s")
    (auto simp: nvme_req_alloc_io_def set_q_def upd_q_def split: sum.splits alloc_failure.splits)

lemma submit_io_dma: "nvme_submit_io r s = (NVME_IO_ASYNC, s') \<Longrightarrow> k_dma s' = k_dma s"
  by (auto simp: nvme_submit_io_def Let_def sq_commit_shape set_q_def upd_q_def upd_req_def emit_def
      split: if_splits option.splits queue_sel.splits)

lemma destroy_dma:
  assumes "k_reqs s r = Some q"
  shows "k_dma (nvme_req_destroy r s) = drop_dom (req_dma q) (k_dma s)"
  using req_destroy_shape [OF assms] by simp

lemma dsm_setup_frame:
  assumes "nvme_setup_dsm P r ranges nr s = (ok, s')"
  shows "req_frame r s s'" "io_frame s s'" "replies s' = replies s" "k_dma s' = k_dma s"
    "\<not> ok \<Longrightarrow> s' = s"
    "ok \<Longrightarrow> r_flags (rq s r) = 0 \<Longrightarrow> r_bounce_buf (rq s r) = None \<Longrightarrow> req_dma (rq s' r) = {ranges}"
proof -
  show "req_frame r s s'" "io_frame s s'" "replies s' = replies s" "\<not> ok \<Longrightarrow> s' = s"
    using assms by (auto simp: nvme_setup_dsm_def Let_def intro!: req_frame_upd split: if_splits)
  show "k_dma s' = k_dma s"
    using assms by (auto simp: nvme_setup_dsm_def Let_def upd_req_def emit_def split: if_splits)
  show "ok \<Longrightarrow> r_flags (rq s r) = 0 \<Longrightarrow> r_bounce_buf (rq s r) = None \<Longrightarrow> req_dma (rq s' r) = {ranges}"
    using assms by (auto simp: nvme_setup_dsm_def Let_def req_dma_def holds_list_def split: if_splits)
qed

definition dsm_owned :: "nat \<Rightarrow> u32 \<Rightarrow> NVMeController \<Rightarrow> io_error \<Rightarrow> NVMeController \<Rightarrow> bool" where
  "dsm_owned io ranges s e s' \<longleftrightarrow>
    (if e = NVME_IO_ASYNC then k_dma s' = k_dma s \<and> (\<exists>r. owners s' io = {Inl r} \<and> req_dma (rq s' r) = {ranges})
     else k_dma s' = (k_dma s)(ranges := None))"

lemma submit_dsm_handoff:
  assumes ok: "tables_ok s" "req_slab_ok P" "ctx_refs_ok s" "owners s io = {}" "\<not> nvme_state_terminal s"
    and e: "nvme_io_submit_dsm P u io ranges nr s = (e, s')"
  shows "io_handoff io s e s' \<and> dsm_owned io ranges s e s'"
proof -
  obtain res s1 where a: "nvme_req_alloc_io P u (Some io) s = (res, s1)" by (meson surj_pair)
  note dma1 = alloc_io_dma [OF ok(1,2) a]
  show ?thesis
  proof (cases res)
    case (Inl err)
    have "err \<in> {IOERR_SELFTEST, IOERR_UNITBUSY}" "s1 = s" "e = err" "s' = dma_free ranges s"
      using a Inl e alloc_io_ok(1) [OF ok(1,2) a]
      by (auto simp: nvme_io_submit_dsm_def nvme_req_alloc_io_def split: prod.splits sum.splits alloc_failure.splits)
    then show ?thesis using ok handoff_cong(4) [of "dma_free ranges s" s io s e] by (auto simp: dsm_owned_def)
  next
    case (Inr r)
    obtain q where q: "k_reqs s1 = (k_reqs s)(r := Some q)" "k_reqs s r = None" "tables_ok s1" "in_slot s1 r"
      "r_io q = Some io" "r_ctx q = None" "r_q q = Io_q" "r_flags q = 0" "io_frame s s1" "replies s1 = replies s"
      "sq_contents (get_q s1 Io_q) = sq_contents (get_q s Io_q)" "r_bounce_buf q = None" "r_prp_pages q = []"
      using fresh_request [OF ok(1,2) a [unfolded Inr]] by blast
    note fr = io_frameD [OF q(9)]
    have rq1: "rq s1 r = q" using q(1) by (simp add: rq_def)
    obtain okd s2 where st: "nvme_setup_dsm P r ranges nr s1 = (okd, s2)" by (meson surj_pair)
    note df = dsm_setup_frame [OF st]
    have e': "(e, s') = (if \<not> nvme_check_ready s1 then nvme_fail_nonready_command P r (dma_free ranges s1)
        else if \<not> okd then (IOERR_SELFTEST, nvme_req_destroy r (dma_free ranges s2)) else nvme_submit_io r s2)"
      using e [symmetric] unfolding nvme_io_submit_dsm_def a Inr prod.case sum.case st .
    let ?f = "dma_free ranges s1"
    have f: "tables_ok ?f" "in_slot ?f r" "k_reqs ?f = (k_reqs s)(r := Some q)" "k_ctxs ?f = k_ctxs s" "replies ?f = replies s"
      "sq_contents (get_q ?f Io_q) = sq_contents (get_q s Io_q)"
      using q fr by (simp_all add: replies_def)
    have none: "req_dma (q\<lparr>r_status := 0, r_retries := 0, r_flags := 0\<rparr>) = {}" "req_dma q = {}"
      using q(8,12) by (simp_all add: req_dma_def holds_list_def)
    consider (nonready) "\<not> nvme_check_ready s1" | (bad) "nvme_check_ready s1" "\<not> okd" | (go) "nvme_check_ready s1" okd by blast
    then show ?thesis
    proof cases
      case nonready
      have t: "\<not> nvme_state_terminal ?f" using ok(5) fr by (simp add: nvme_state_terminal_def)
      have n: "nvme_fail_nonready_command P r ?f = (e, s')" using e' nonready by simp
      have "k_reqs (upd_req r (\<lambda>q. q\<lparr>r_status := 0, r_retries := 0, r_flags := 0\<rparr>) ?f) r
          = Some (q\<lparr>r_status := 0, r_retries := 0, r_flags := 0\<rparr>)" using f(3) by (simp add: rq_def)
      from destroy_dma [OF this] have "e \<noteq> NVME_IO_ASYNC" "k_dma s' = (k_dma s)(ranges := None)"
        using n t q(8) f(3) dma1 none by (auto simp: nvme_fail_nonready_command_def Let_def nvme_req_noretry_def rq_def upd_req_def)
      then show ?thesis
        using fail_nonready_handoff [OF f(1-3) q(2) f(4,5) ok(3) q(8) t f(6) n] by (simp add: dsm_owned_def)
    next
      case bad
      then have "e = IOERR_SELFTEST" "s' = nvme_req_destroy r ?f" using e' df(5) by simp_all
      moreover have "k_dma (nvme_req_destroy r ?f) = (k_dma s)(ranges := None)"
        using destroy_dma [of ?f r q] f(3) none dma1 by simp
      ultimately show ?thesis
        using handoff_destroyed [OF f(1-3) q(2) f(4,5) ok(3), of IOERR_SELFTEST io] f(6) by (simp add: dsm_owned_def)
    next
      case go
      then have sub: "nvme_submit_io r s2 = (e, s')" using e' by simp
      obtain q2 where q2: "k_reqs s2 r = Some q2" using df(1) q(1) by (auto simp: req_frame_def)
      have k2: "k_reqs s2 = (k_reqs s)(r := Some q2)" using df(1) q2 q(1) by (auto simp: req_frame_def)
      have i2: "r_io q2 = Some io" "r_ctx q2 = None" "r_q q2 = Io_q" using df(1) q2 q(5-7) rq1 by (auto simp: req_frame_def rq_def)
      have d2: "req_dma q2 = {ranges}" using df(6) [OF go(2)] q(8,12) rq1 q2 by (simp add: rq_def)
      have h: "io_handoff io s e s'"
        using submit_handoff [OF req_frame_tables [OF df(1) q(3,4)] k2 q(2) _ _ ok(1,3,4) i2(1,2) _ sub] df(1-3) q(10,11) fr
          io_frameD(1) [OF df(2)] by (simp add: req_frame_def)
      show ?thesis
      proof (cases "e = NVME_IO_ASYNC")
        case True
        have "k_reqs s' = (k_reqs s)(r := Some (q2\<lparr>r_submit_us := k_clock s2\<rparr>))"
          using submit_io_accepted(3) [OF req_frame_tables(1) [OF df(1) q(3,4)], of r] sub True k2 by (simp add: rq_def)
        moreover have "req_dma (q2\<lparr>r_submit_us := k_clock s2\<rparr>) = req_dma q2"
          by (simp add: req_dma_def holds_list_def)
        moreover have "k_ctxs s' = k_ctxs s"
          using io_frameD(1) [OF io_frame_submit [OF df(2), of r]] sub fr by simp
        ultimately have "owners s' io = {Inl r} \<and> req_dma (rq s' r) = {ranges}"
          using ok(4) i2 d2 by (auto simp: owners_def rq_def)
        then show ?thesis using h submit_io_dma sub True df(4) dma1 by (auto simp: dsm_owned_def)
      next
        case False
        then have "s' = nvme_req_destroy r s2" using submit_io_cases [of r s2] sub by auto
        then show ?thesis
          using h destroy_dma [OF q2] d2 df(4) dma1 False by (auto simp: dsm_owned_def drop_dom_def)
      qed
    qed
  qed
qed

lemma submit_dsm_frame:
  assumes "tables_ok s" "req_slab_ok P" "\<not> nvme_state_terminal s" "nvme_io_submit_dsm P u io ranges nr s = (e, s')"
  shows "io_frame s s'"
proof -
  obtain res s1 where a: "nvme_req_alloc_io P u (Some io) s = (res, s1)" by (meson surj_pair)
  have f1: "io_frame s s1" using io_frame_alloc_io [OF io_frame_refl, of s P u "Some io"] a by simp
  show ?thesis
  proof (cases res)
    case (Inl err)
    then show ?thesis using a f1 assms(4) by (auto simp: nvme_io_submit_dsm_def)
  next
    case (Inr r)
    obtain q where q: "k_reqs s1 = (k_reqs s)(r := Some q)" "r_flags q = 0"
      using fresh_request [OF assms(1,2) a [unfolded Inr]] by blast
    obtain okd s2 where st: "nvme_setup_dsm P r ranges nr s1 = (okd, s2)" by (meson surj_pair)
    have f2: "io_frame s s2" using io_frame_trans [OF f1 dsm_setup_frame(2) [OF st]] .
    have nr: "snd (nvme_fail_nonready_command P r (dma_free ranges s1)) =
        nvme_req_destroy r (upd_req r (\<lambda>q. q\<lparr>r_status := 0, r_retries := 0, r_flags := 0\<rparr>) (dma_free ranges s1))"
      using assms(3) io_frameD(4) [OF f1] q
      by (simp add: nvme_fail_nonready_command_def nvme_state_terminal_def nvme_req_noretry_def rq_def)
    have "s' = snd (if \<not> nvme_check_ready s1 then nvme_fail_nonready_command P r (dma_free ranges s1)
        else if \<not> okd then (IOERR_SELFTEST, nvme_req_destroy r (dma_free ranges s2)) else nvme_submit_io r s2)"
      using assms(4) unfolding nvme_io_submit_dsm_def a Inr prod.case sum.case st by simp
    then show ?thesis using f1 f2 nr by (simp split: if_splits)
  qed
qed

lemma submit_wz_dispatch:
  assumes ok: "tables_ok s" "req_slab_ok P" "dma_pool_ok P" "ctx_refs_ok s" "owners s io = {}" "\<not> nvme_state_terminal s"
    "0 < sib_cap s"
    and e: "nvme_io_submit_write_zeroes P u io lba blocks s = (e, s')"
  shows "io_handoff io s e s' \<and>
    (bit (k_quirks s) NVME_QUIRK_DEALLOCATE_ZEROES \<longrightarrow> (if e = NVME_IO_ASYNC
       then \<exists>r ranges. owners s' io = {Inl r} \<and> req_dma (rq s' r) = {ranges} \<and> k_dma s ranges = None \<and>
              k_dma s' = (k_dma s)(ranges := Some 4096) \<and>
              k_dsm s' ranges ! 0 = \<lparr>dr_cattr = p_le32 P 0, dr_nlb = p_le32 P blocks, dr_slba = p_le64 P lba\<rparr>
       else k_dma s' = k_dma s))"
proof -
  let ?U = "k_units s u" and ?b = "block_bytes (k_units s u) blocks"
  let ?x = "zero_ctx\<lparr>x_io := io, x_unit := u, x_start_lba := lba, x_total_bytes := ?b,
              x_opcode := nvme_cmd_write_zeroes, x_user_data := 0\<rparr>"
  let ?tab = "(replicate NVME_DSM_MAX_RANGES zero_range)[0 := \<lparr>dr_cattr = p_le32 P 0, dr_nlb = p_le32 P blocks, dr_slba = p_le64 P lba\<rparr>]"
  have nz: "\<not> ?b \<le> u_wz_max_bytes ?U \<Longrightarrow> ?b \<noteq> 0" by auto
  consider (bad) "s' = s" "e \<in> {IOERR_BADLENGTH, IOERR_BADADDRESS, IOERR_SELFTEST, IOERR_NOCMD}"
    | (dsm) ranges m where "bit (k_quirks s) NVME_QUIRK_DEALLOCATE_ZEROES"
        "p_dma_alloc P 4096 (16 * 256) (\<lambda>a. k_dma s a \<noteq> None) = Some ranges"
        "nvme_io_submit_dsm P u io ranges 1
           (s\<lparr>k_dma := (k_dma s)(ranges := Some (16 * 256)), k_mem := m, k_dsm := (k_dsm s)(ranges := ?tab)\<rparr>) = (e, s')"
    | (single) "\<not> bit (k_quirks s) NVME_QUIRK_DEALLOCATE_ZEROES"
        "single_shot P u io (\<lambda>r s. (IOERR_NO_ERROR, nvme_setup_write_zeroes P r lba blocks s)) s = (e, s')"
    | (multi) "\<not> bit (k_quirks s) NVME_QUIRK_DEALLOCATE_ZEROES" "?b \<noteq> 0" "start_context P ?x None s = (e, s')"
    using e nz unfolding nvme_io_submit_write_zeroes_def Let_def dma_zalloc_def dma_alloc_def
    by (auto split: if_splits option.splits)
  then show ?thesis
  proof cases
    case bad
    then show ?thesis using ok by auto
  next
    case single
    then show ?thesis using wz_setup.handoff [OF ok(1,2,4-6)] by blast
  next
    case multi
    have x: "x_io ?x = io" "x_dispatched ?x = 0" "x_total_bytes ?x \<noteq> 0" "x_inflight ?x = 0"
      using multi(2) by (simp_all add: zero_ctx_def)
    show ?thesis using start_context_handoff [OF ok(1,2,4,5) x ok(7) _ multi(3)] multi(1) by simp
  next
    case dsm
    let ?t = "s\<lparr>k_dma := (k_dma s)(ranges := Some (16 * 256)), k_mem := m, k_dsm := (k_dsm s)(ranges := ?tab)\<rparr>"
    have fresh: "k_dma s ranges = None" using dma_pool_okD(1) [OF ok(3) dsm(2)] by simp
    have t: "k_reqs ?t = k_reqs s" "k_ctxs ?t = k_ctxs s" "get_q ?t sel = get_q s sel" "k_trace ?t = k_trace s" for sel
      by (cases sel; simp add: get_q_def)+
    have "tables_ok ?t" by (rule tables_ok_same [OF ok(1)]) (simp_all only: t)
    moreover have "\<not> nvme_state_terminal ?t" using ok(6) by (simp add: nvme_state_terminal_def)
    ultimately have t1: "tables_ok ?t" "\<not> nvme_state_terminal ?t" .
    moreover have "ctx_refs_ok ?t" "owners ?t io = {}" using handoff_cong(2,3) [OF t] ok by simp_all
    ultimately have h: "io_handoff io ?t e s' \<and> dsm_owned io ranges ?t e s'"
      using submit_dsm_handoff [OF _ ok(2) _ _ _ dsm(3)] by blast
    have k: "k_dsm s' = k_dsm ?t" using io_frameD(16) [OF submit_dsm_frame [OF _ ok(2) _ dsm(3)]] t1 by blast
    show ?thesis using h handoff_cong(1) [OF t] fresh unfolding dsm_owned_def k
      by (auto simp: fun_upd_idem)
  qed
qed


text \<open>
  Write zeroes is handed over completely or not at all, like a read or write,
  on each of its three routes: one command, a chunked transfer, or a deallocation
  under the deallocate-zeroes quirk.  On a refusal the DMA pool is as before, so the
  range table of the deallocation is not leaked, and while the deallocation is in
  flight its request owns the table.
\<close>

theorem submit_write_zeroes_handoff:
  assumes ok: "tables_ok s" "req_slab_ok P" "dma_pool_ok P" "ctx_refs_ok s" "owners s io = {}" "\<not> nvme_state_terminal s"
    "0 < sib_cap s"
    and e: "nvme_io_submit_write_zeroes P u io lba blocks s = (e, s')"
  shows "io_handoff io s e s' \<and>
    (bit (k_quirks s) NVME_QUIRK_DEALLOCATE_ZEROES \<longrightarrow> (if e = NVME_IO_ASYNC
       then \<exists>r ranges. owners s' io = {Inl r} \<and> req_dma (rq s' r) = {ranges} \<and> k_dma s ranges = None \<and>
              k_dma s' = (k_dma s)(ranges := Some 4096) \<and>
              k_dsm s' ranges ! 0 = \<lparr>dr_cattr = p_le32 P 0, dr_nlb = p_le32 P blocks, dr_slba = p_le64 P lba\<rparr>
       else k_dma s' = k_dma s))"
  by (rule submit_wz_dispatch [OF assms])

theorem submit_write_zeroes_handoff_witness:
  "\<exists>e s'. nvme_io_submit_write_zeroes m68k_platform 0 7 77 8 (demo_ctrl\<lparr>k_quirks := 4\<rparr>) = (e, s') \<and>
     io_handoff 7 (demo_ctrl\<lparr>k_quirks := 4\<rparr>) e s' \<and> (e \<noteq> NVME_IO_ASYNC \<longrightarrow> k_dma s' = k_dma demo_ctrl)"
proof -
  let ?s = "demo_ctrl\<lparr>k_quirks := 4\<rparr>"
  obtain e s' where e: "nvme_io_submit_write_zeroes m68k_platform 0 7 77 8 ?s = (e, s')"
    by (meson surj_pair)
  have t: "tables_ok ?s" by (rule tables_ok_same [OF demo_tables_ok]) (simp_all add: get_q_def split: queue_sel.split)
  have "ctx_refs_ok ?s" "owners ?s 7 = {}" "\<not> nvme_state_terminal ?s" "0 < sib_cap ?s"
    by (simp_all add: ctx_refs_ok_def owners_def nvme_state_terminal_def sib_cap_def demo_ctrl_def zero_ctrl_def)
  from submit_write_zeroes_handoff [OF t m68k_req_slab_ok m68k_dma_pool_ok this e] e
  show ?thesis by (intro exI [of _ e] exI [of _ s']) (simp split: if_splits)
qed

section \<open>The dispatchers together\<close>

lemma submit_flush_handoff:
  assumes "tables_ok s" "req_slab_ok P" "ctx_refs_ok s" "owners s io = {}" "\<not> nvme_state_terminal s"
    and "nvme_io_submit_flush P u io s = (e, s')"
  shows "io_handoff io s e s'"
  using flush_setup.handoff [OF assms(1-5)] assms(6) by (simp add: nvme_io_submit_flush_def)

lemma submit_frames:
  assumes "tables_ok s" "req_slab_ok P" "\<not> nvme_state_terminal s"
  shows "sub_frame s (snd (nvme_io_submit_rw P u io lba blocks opcode buffer s))"
    "sub_frame s (snd (nvme_io_submit_flush P u io s))" "sub_frame s (snd (nvme_io_submit_dsm P u io ranges nr s))"
proof -
  show "sub_frame s (snd (nvme_io_submit_rw P u io lba blocks opcode buffer s))"
    using sub_frame_single [OF assms, of "\<lambda>r. nvme_setup_rw P r lba blocks opcode buffer" u io] sub_frame_start
    by (simp add: nvme_io_submit_rw_def Let_def)
  show "sub_frame s (snd (nvme_io_submit_flush P u io s))"
    using sub_frame_single [OF assms, of "\<lambda>r s. (IOERR_NO_ERROR, nvme_setup_flush P r s)" u io]
    by (simp add: nvme_io_submit_flush_def nvme_setup_flush_def)
  show "sub_frame s (snd (nvme_io_submit_dsm P u io ranges nr s))"
    by (rule sub_frame_io, rule submit_dsm_frame [OF assms]) (rule surjective_pairing)
qed

lemma submit_wz_frame:
  assumes "tables_ok s" "req_slab_ok P" "\<not> nvme_state_terminal s"
  shows "sub_frame s (snd (nvme_io_submit_write_zeroes P u io lba blocks s))"
proof -
  have dsm: "sub_frame s (snd (nvme_io_submit_dsm P u io ranges 1 t))"
    if "sub_frame s t" "k_reqs t = k_reqs s" "\<And>sel. get_q t sel = get_q s sel" for ranges t
  proof -
    have "tables_ok t" by (rule tables_ok_same [OF assms(1)]) (simp_all add: that)
    moreover have "\<not> nvme_state_terminal t" using assms(3) sub_frameD(3) [OF that(1)] by (simp add: nvme_state_terminal_def)
    ultimately show ?thesis using sub_frame_trans [OF that(1) submit_frames(3)] assms(2) by blast
  qed
  show ?thesis
    using sub_frame_single [OF assms, of "\<lambda>r s. (IOERR_NO_ERROR, nvme_setup_write_zeroes P r lba blocks s)" u io] sub_frame_start
    by (auto simp: nvme_io_submit_write_zeroes_def Let_def dma_zalloc_def dma_alloc_def split: option.split intro!: dsm)
qed

end
