(* ===== verification/Nvme_Scsi.thy ===== *)
theory Nvme_Scsi
  imports Nvme_Submit
begin

text \<open>
  The SCSI emulation of src/unit_commands_scsi.c: sense data, INQUIRY with its VPD
  pages, READ CAPACITY, MODE SENSE, REQUEST SENSE, and the translation of READ, WRITE,
  SYNCHRONIZE CACHE and UNMAP into NVMe commands.

  The emulated commands work on the argument block and on client memory; they take
  and return both.  Multi-byte fields are big endian on the wire and, on the m68k,
  in memory.
\<close>

type_synonym memory = "u32 \<Rightarrow> u8"
type_synonym scsi_st = "SCSICmd \<times> memory"

section \<open>Big-endian fields\<close>

definition scsi_store_be16 :: "u16 \<Rightarrow> u8 list" where
  "scsi_store_be16 v = [ucast (drop_bit 8 v), ucast v]"

definition scsi_store_be32 :: "u32 \<Rightarrow> u8 list" where
  "scsi_store_be32 v = [ucast (drop_bit 24 v), ucast (drop_bit 16 v), ucast (drop_bit 8 v), ucast v]"

definition store_be64 :: "u64 \<Rightarrow> u8 list" where
  "store_be64 v = scsi_store_be32 (ucast (drop_bit 32 v)) @ scsi_store_be32 (ucast v)"

definition scsi_load_be16 :: "memory \<Rightarrow> u32 \<Rightarrow> u16" where
  "scsi_load_be16 m a = push_bit 8 (ucast (m a)) OR ucast (m (a + 1))"

definition scsi_load_be32 :: "memory \<Rightarrow> u32 \<Rightarrow> u32" where
  "scsi_load_be32 m a = push_bit 24 (ucast (m a)) OR push_bit 16 (ucast (m (a + 1))) OR
     push_bit 8 (ucast (m (a + 2))) OR ucast (m (a + 3))"

definition load_be64 :: "memory \<Rightarrow> u32 \<Rightarrow> u64" where
  "load_be64 m a = push_bit 32 (ucast (scsi_load_be32 m a)) OR ucast (scsi_load_be32 m (a + 4))"

text \<open>memcpy of a local buffer to client memory.\<close>

definition mem_put :: "u32 \<Rightarrow> u8 list \<Rightarrow> memory \<Rightarrow> memory" where
  "mem_put a bs m = (\<lambda>x. if unat (x - a) < length bs then bs ! unat (x - a) else m x)"

section \<open>Sense data\<close>

abbreviation (input) SCSIF_READ :: u8 where "SCSIF_READ \<equiv> 1"
abbreviation (input) SCSIF_AUTOSENSE :: u8 where "SCSIF_AUTOSENSE \<equiv> 2"

text \<open>The value of an error code as the byte that lands in io_Error and in the sense data.\<close>

fun error_byte :: "io_error \<Rightarrow> u8" where
  "error_byte IOERR_NO_ERROR = 0"
| "error_byte IOERR_OPENFAIL = - 1"
| "error_byte IOERR_ABORTED = - 2"
| "error_byte IOERR_NOCMD = - 3"
| "error_byte IOERR_BADLENGTH = - 4"
| "error_byte IOERR_BADADDRESS = - 5"
| "error_byte IOERR_UNITBUSY = - 6"
| "error_byte IOERR_SELFTEST = - 7"
| "error_byte TDERR_NotSpecified = 20"
| "error_byte TDERR_DiskChanged = 29"
| "error_byte TDERR_BadUnitNum = 32"
| "error_byte HFERR_BadStatus = 45"
| "error_byte NVME_IO_ASYNC = 1"
| "error_byte (IOERR_other b) = b"

fun sense_code :: "io_error \<Rightarrow> u8 \<times> u8" where
  "sense_code IOERR_UNITBUSY = (3, 4)"
| "sense_code IOERR_BADADDRESS = (3, 0x21)"
| "sense_code IOERR_NOCMD = (5, 0x20)"
| "sense_code _ = (0, 0)"

text \<open>The 18-byte fixed-format sense record; the last three bytes are not written.\<close>

definition scsi_make_sense :: "u32 \<Rightarrow> u32 \<Rightarrow> io_error \<Rightarrow> scsi_st \<Rightarrow> scsi_st" where
  "scsi_make_sense info specific error = (\<lambda>(c, m).
    if scsi_Flags c AND SCSIF_AUTOSENSE = 0 \<or> error_byte error = 0 \<or> scsi_SenseData c = 0 \<or> scsi_SenseLength c < 18
    then (c\<lparr>scsi_SenseActual := 0\<rparr>, m)
    else case sense_code error of (key, asc) \<Rightarrow>
      (c\<lparr>scsi_SenseActual := 18\<rparr>,
       mem_put (scsi_SenseData c)
         ([0x70, 0, key] @ scsi_store_be32 info @ [11] @ scsi_store_be32 specific @ [asc, 0, error_byte error]) m))"

section \<open>Emulated responses\<close>

text \<open>copy_padded: up to \<open>n\<close> characters of a fixed-width string, padded with spaces.\<close>

definition copy_padded :: "u8 list \<Rightarrow> nat \<Rightarrow> u8 list" where
  "copy_padded src n = (let t = takeWhile (\<lambda>b. b \<noteq> 0) (take n src) in t @ replicate (n - length t) 0x20)"

definition unit_supports_dsm :: "NVMeController \<Rightarrow> bool" where
  "unit_supports_dsm s \<longleftrightarrow> k_oncs s AND 4 \<noteq> 0"

definition scsi_emit :: "u8 list \<Rightarrow> u32 \<Rightarrow> scsi_st \<Rightarrow> scsi_st" where
  "scsi_emit bs alloc = (\<lambda>(c, m).
    let len = of_nat (length bs); len = (if alloc < len then alloc else len);
        len = (if scsi_Length c < len then scsi_Length c else len)
    in (c\<lparr>scsi_Actual := len\<rparr>, if len \<noteq> 0 then mem_put (scsi_Data c) (take (unat len) bs) m else m))"

definition cdb :: "scsi_st \<Rightarrow> nat \<Rightarrow> u8" where
  "cdb st i = snd st (scsi_Command (fst st) + of_nat i)"

definition emitted :: "u8 list \<Rightarrow> u32 \<Rightarrow> scsi_st \<Rightarrow> io_error \<times> scsi_st" where
  "emitted bs alloc st = (IOERR_NO_ERROR, scsi_emit bs alloc st)"

definition inquiry_strings :: "NVMeController \<Rightarrow> u8 list" where
  "inquiry_strings s =
    (if k_model s ! 0 \<noteq> 0
     then copy_padded (k_model s) 16 @ copy_padded (k_firmware s) 4 @ copy_padded (k_serial s) 8
     else map (\<lambda>c. of_nat (of_char c)) (''Storage Device  '' @ ''0001'' @ ''        ''))"

definition scsi_inquiry_standard :: "NVMeController \<Rightarrow> u32 \<Rightarrow> scsi_st \<Rightarrow> io_error \<times> scsi_st" where
  "scsi_inquiry_standard s alloc st =
    (if scsi_Data (fst st) = 0 then (IOERR_BADADDRESS, st)
     else emitted ([0, 0, 2, 2, 40, 0, 0, 0] @ map (\<lambda>c. of_nat (of_char c)) ''NVMe    '' @ inquiry_strings s) alloc st)"

definition scsi_inquiry_vpd_00 :: "u32 \<Rightarrow> scsi_st \<Rightarrow> io_error \<times> scsi_st" where
  "scsi_inquiry_vpd_00 alloc st =
    (if scsi_Data (fst st) = 0 then (IOERR_BADADDRESS, st) else emitted [0, 0, 0, 3, 0, 0xB0, 0xB2] alloc st)"

definition vpd_b0 :: "NVMeUnit \<Rightarrow> NVMeController \<Rightarrow> u8 list" where
  "vpd_b0 U s =
    (let max_xfer = (if k_max_transfer_bytes s \<noteq> 0 \<and> u_blockShift U \<noteq> 0
                     then drop_bit (unat (u_blockShift U)) (k_max_transfer_bytes s) else 0);
         unmap = (if unit_supports_dsm s then scsi_store_be32 0xFFFFFFFF @ scsi_store_be32 (of_nat NVME_DSM_MAX_RANGES)
                  else replicate 8 0)
     in [0, 0xB0] @ scsi_store_be16 60 @ replicate 4 0 @ scsi_store_be32 max_xfer @ replicate 8 0 @ unmap @ replicate 36 0)"

definition scsi_inquiry_vpd_b0 :: "NVMeUnit \<Rightarrow> NVMeController \<Rightarrow> u32 \<Rightarrow> scsi_st \<Rightarrow> io_error \<times> scsi_st" where
  "scsi_inquiry_vpd_b0 U s alloc st =
    (if scsi_Data (fst st) = 0 then (IOERR_BADADDRESS, st) else emitted (vpd_b0 U s) alloc st)"

definition scsi_inquiry_vpd_b2 :: "NVMeController \<Rightarrow> u32 \<Rightarrow> scsi_st \<Rightarrow> io_error \<times> scsi_st" where
  "scsi_inquiry_vpd_b2 s alloc st =
    (if scsi_Data (fst st) = 0 then (IOERR_BADADDRESS, st)
     else emitted ([0, 0xB2] @ scsi_store_be16 4 @ [0, if unit_supports_dsm s then 0x80 else 0, 2, 0]) alloc st)"

definition scsi_inquiry :: "NVMeUnit \<Rightarrow> NVMeController \<Rightarrow> scsi_st \<Rightarrow> io_error \<times> scsi_st" where
  "scsi_inquiry U s st =
    (if scsi_CmdLength (fst st) < 6 \<or> scsi_Command (fst st) = 0 then (IOERR_BADLENGTH, st)
     else let page = cdb st 2; alloc = ucast (scsi_load_be16 (snd st) (scsi_Command (fst st) + 3)) in
       if cdb st 1 AND 1 = 0 then scsi_inquiry_standard s alloc st
       else if page = 0 then scsi_inquiry_vpd_00 alloc st
       else if page = 0xB0 then scsi_inquiry_vpd_b0 U s alloc st
       else if page = 0xB2 then scsi_inquiry_vpd_b2 s alloc st
       else (IOERR_NOCMD, scsi_make_sense 0 0 IOERR_NOCMD st))"

definition sector_size :: "NVMeUnit \<Rightarrow> u32" where
  "sector_size U = (if u_blockSize U \<noteq> 0 then u_blockSize U else 512)"

definition scsi_read_capacity_10 :: "NVMeUnit \<Rightarrow> scsi_st \<Rightarrow> io_error \<times> scsi_st" where
  "scsi_read_capacity_10 U st =
    (if scsi_Data (fst st) = 0 then (IOERR_BADADDRESS, scsi_make_sense 0 0 IOERR_BADADDRESS st)
     else let lba = (if u_logicalSectors U < 0xFFFFFFFF then ucast (u_logicalSectors U - 1) else 0xFFFFFFFF) in
       emitted (scsi_store_be32 lba @ scsi_store_be32 (sector_size U)) 8 st)"

definition scsi_read_capacity_16 :: "NVMeUnit \<Rightarrow> scsi_st \<Rightarrow> io_error \<times> scsi_st" where
  "scsi_read_capacity_16 U st =
    (if scsi_Data (fst st) = 0 then (IOERR_BADADDRESS, scsi_make_sense 0 0 IOERR_BADADDRESS st)
     else if scsi_CmdLength (fst st) < 16 \<or> scsi_Command (fst st) = 0 then (IOERR_BADLENGTH, st)
     else let lba = (if u_logicalSectors U \<noteq> 0 then u_logicalSectors U - 1 else 0) in
       emitted (store_be64 lba @ scsi_store_be32 (sector_size U) @ [0, 0, 0])
         (scsi_load_be32 (snd st) (scsi_Command (fst st) + 10)) st)"

text \<open>The mode pages behind the header: format parameters (3) and rigid geometry (4), 24 bytes each.\<close>

definition scsi_write_mode_pages :: "u8 \<Rightarrow> u32 \<Rightarrow> u8 list" where
  "scsi_write_mode_pages page blockSize =
    (if page = 0x3F \<or> page = 3
     then [3, 0x16] @ replicate 8 0 @ [0, 0, ucast (drop_bit 8 blockSize), ucast blockSize] @ replicate 10 0 else []) @
    (if page = 0x3F \<or> page = 4 then [4, 0x16] @ replicate 22 0 else [])"

definition mode_page_ok :: "scsi_st \<Rightarrow> bool" where
  "mode_page_ok st \<longleftrightarrow> cdb st 3 = 0 \<and> cdb st 2 AND 0x3F \<in> {0x3F, 3, 4}"

definition scsi_mode_sense :: "NVMeUnit \<Rightarrow> scsi_st \<Rightarrow> io_error \<times> scsi_st" where
  "scsi_mode_sense U st =
    (if scsi_Data (fst st) = 0 then (IOERR_BADADDRESS, st)
     else if scsi_CmdLength (fst st) < 6 \<or> scsi_Command (fst st) = 0 then (IOERR_BADLENGTH, st)
     else if \<not> mode_page_ok st then (IOERR_NOCMD, scsi_make_sense 0 0 IOERR_NOCMD st)
     else let pages = scsi_write_mode_pages (cdb st 2 AND 0x3F) (sector_size U); idx = 4 + length pages in
       emitted ([of_nat idx - 1, 0, 0, 0] @ pages) (ucast (cdb st 4)) st)"

definition scsi_mode_sense_10 :: "NVMeUnit \<Rightarrow> scsi_st \<Rightarrow> io_error \<times> scsi_st" where
  "scsi_mode_sense_10 U st =
    (if scsi_Data (fst st) = 0 then (IOERR_BADADDRESS, st)
     else if scsi_CmdLength (fst st) < 10 \<or> scsi_Command (fst st) = 0 then (IOERR_BADLENGTH, st)
     else if \<not> mode_page_ok st then (IOERR_NOCMD, scsi_make_sense 0 0 IOERR_NOCMD st)
     else let pages = scsi_write_mode_pages (cdb st 2 AND 0x3F) (sector_size U); idx = 8 + length pages in
       emitted (scsi_store_be16 (of_nat idx - 2) @ replicate 6 0 @ pages)
         (ucast (scsi_load_be16 (snd st) (scsi_Command (fst st) + 7))) st)"

definition scsi_request_sense :: "scsi_st \<Rightarrow> io_error \<times> scsi_st" where
  "scsi_request_sense st =
    (if scsi_Data (fst st) = 0 then (IOERR_BADADDRESS, st)
     else if scsi_CmdLength (fst st) < 6 \<or> scsi_Command (fst st) = 0 then (IOERR_BADLENGTH, st)
     else emitted ([0x70, 0, 0] @ scsi_store_be32 0 @ [11] @ scsi_store_be32 0 @ [0, 0, 0, 0, 0, 0]) (ucast (cdb st 4)) st)"

section \<open>Commands that reach the controller\<close>

definition get_scsi :: "u32 \<Rightarrow> NVMeController \<Rightarrow> scsi_st" where
  "get_scsi a s = (k_scsi s a, k_mem s)"

definition put_scsi :: "u32 \<Rightarrow> scsi_st \<Rightarrow> NVMeController \<Rightarrow> NVMeController" where
  "put_scsi a st s = s\<lparr>k_scsi := (k_scsi s)(a := fst st), k_mem := snd st\<rparr>"

definition upd_scsi :: "u32 \<Rightarrow> (scsi_st \<Rightarrow> scsi_st) \<Rightarrow> NVMeController \<Rightarrow> NVMeController" where
  "upd_scsi a f s = put_scsi a (f (get_scsi a s)) s"

text \<open>
  Translation of a list of LBA ranges into a dataset management range table, in the
  order given; a range that \<open>bad\<close> refuses ends it.  UNMAP and the TRIM command share it.
\<close>

fun dsm_table :: "platform \<Rightarrow> (u64 \<Rightarrow> u32 \<Rightarrow> bool) \<Rightarrow> (u64 \<times> u32) list \<Rightarrow> nvme_dsm_range list option" where
  "dsm_table P bad [] = Some []"
| "dsm_table P bad ((slba, blocks) # ds) =
    (if bad slba blocks then None
     else case dsm_table P bad ds of None \<Rightarrow> None
       | Some rs \<Rightarrow> Some (\<lparr>dr_cattr = p_le32 P 0, dr_nlb = p_le32 P blocks, dr_slba = p_le64 P slba\<rparr> # rs))"

definition dsm_submit_ranges :: "platform \<Rightarrow> nat \<Rightarrow> nat \<Rightarrow> (u64 \<Rightarrow> u32 \<Rightarrow> bool) \<Rightarrow> (u64 \<times> u32) list \<Rightarrow>
    NVMeController \<Rightarrow> io_error \<times> NVMeController" where
  "dsm_submit_ranges P u io bad ds s =
    (case dma_zalloc P 4096 (16 * 256) s of
       None \<Rightarrow> (IOERR_SELFTEST, s)
     | Some (ranges, s1) \<Rightarrow>
        (case dsm_table P bad ds of
           None \<Rightarrow> (IOERR_BADADDRESS, dma_free ranges s1)
         | Some rs \<Rightarrow> nvme_io_submit_dsm P u io ranges (of_nat (length rs))
             (s1\<lparr>k_dsm := (k_dsm s1)(ranges := rs @ replicate (NVME_DSM_MAX_RANGES - length rs) zero_range)\<rparr>)))"

definition unmap_descs :: "memory \<Rightarrow> u32 \<Rightarrow> nat \<Rightarrow> (u64 \<times> u32) list" where
  "unmap_descs m param nr = map (\<lambda>i. (load_be64 m (param + 8 + 16 * of_nat i), scsi_load_be32 m (param + 16 + 16 * of_nat i))) [0..<nr]"

definition scsi_unmap :: "platform \<Rightarrow> nat \<Rightarrow> NVMeController \<Rightarrow> io_error \<times> NVMeController" where
  "scsi_unmap P io s =
    (let u = io_Unit (k_ios s io); a = io_Data (k_ios s io); c = k_scsi s a; m = k_mem s;
         refuse = (\<lambda>e. (e, upd_scsi a (scsi_make_sense 0 0 e) s));
         nothing = (IOERR_NO_ERROR, upd_scsi a (\<lambda>(c, m). (c\<lparr>scsi_Actual := 0\<rparr>, m)) s)
     in if \<not> unit_supports_dsm s then refuse IOERR_NOCMD
        else if scsi_Length c = 0 \<or> scsi_Data c = 0 then nothing
        else if scsi_Length c < 8 then refuse IOERR_BADLENGTH
        else let block_desc_len = scsi_load_be16 m (scsi_Data c + 2); nr = unat block_desc_len div 16 in
          if nr = 0 then nothing
          else if NVME_DSM_MAX_RANGES < nr then refuse IOERR_NOCMD
          else if scsi_Length c < 8 + ucast block_desc_len then refuse IOERR_BADLENGTH
          else case dsm_submit_ranges P u io (past_end (k_units s u)) (unmap_descs m (scsi_Data c) nr) s of (err, s1) \<Rightarrow>
            if err \<noteq> NVME_IO_ASYNC then (err, upd_scsi a (scsi_make_sense 0 0 err) s1)
            else (NVME_IO_ASYNC, upd_scsi a (\<lambda>(c, m). (c\<lparr>scsi_CmdActual := scsi_CmdLength c, scsi_Status := 0\<rparr>, m)) s1))"

definition scsi_sync_cache :: "platform \<Rightarrow> nat \<Rightarrow> NVMeController \<Rightarrow> io_error \<times> NVMeController" where
  "scsi_sync_cache P io s =
    (let u = io_Unit (k_ios s io); a = io_Data (k_ios s io) in
     case nvme_io_submit_flush P u io s of (err, s1) \<Rightarrow>
       if err \<noteq> NVME_IO_ASYNC then (err, upd_scsi a (scsi_make_sense 0 0 err) s1)
       else (NVME_IO_ASYNC, upd_scsi a (\<lambda>(c, m). (c\<lparr>scsi_CmdActual := scsi_CmdLength c, scsi_Status := 0\<rparr>, m)) s1))"

text \<open>The LBA and block count of the three groups of READ and WRITE descriptor blocks.\<close>

definition cdb_range :: "scsi_st \<Rightarrow> u64 \<times> u32" where
  "cdb_range st =
    (let a = scsi_Command (fst st); m = snd st in
     if cdb st 0 \<in> {0x08, 0x0A}
     then (ucast (push_bit 16 (ucast (cdb st 1 AND 0x1F)) OR push_bit 8 (ucast (cdb st 2)) OR ucast (cdb st 3) :: u32),
           if cdb st 4 \<noteq> 0 then ucast (cdb st 4) else 256)
     else if cdb st 0 \<in> {0x28, 0x2A} then (ucast (scsi_load_be32 m (a + 2)), ucast (scsi_load_be16 m (a + 7)))
     else (load_be64 m (a + 2), scsi_load_be32 m (a + 10)))"

definition scsi_transfer :: "platform \<Rightarrow> nat \<Rightarrow> NVMeController \<Rightarrow> io_error \<times> NVMeController" where
  "scsi_transfer P io s =
    (let u = io_Unit (k_ios s io); a = io_Data (k_ios s io); c = k_scsi s a; (lba, count) = cdb_range (get_scsi a s) in
     if drop_bit (unat (u_blockShift (k_units s u))) (scsi_Length c) < count
     then (IOERR_BADLENGTH, upd_scsi a (scsi_make_sense (ucast lba) count IOERR_BADLENGTH) s)
     else case nvme_io_submit_rw P u io lba count
                 (if scsi_Flags c AND SCSIF_READ \<noteq> 0 then nvme_cmd_read else nvme_cmd_write) (scsi_Data c) s of (err, s1) \<Rightarrow>
       if err \<noteq> NVME_IO_ASYNC then (err, upd_scsi a (scsi_make_sense (ucast lba) count err) s1)
       else (NVME_IO_ASYNC, upd_scsi a (\<lambda>(c, m). (c\<lparr>scsi_CmdActual := scsi_CmdLength c, scsi_Status := 0\<rparr>, m)) s1))"

section \<open>The dispatcher\<close>

text \<open>The opcodes that are answered without the controller.\<close>

definition scsi_emulate :: "u8 \<Rightarrow> NVMeUnit \<Rightarrow> NVMeController \<Rightarrow> scsi_st \<Rightarrow> io_error \<times> scsi_st" where
  "scsi_emulate opc U s st =
    (if opc = 0x00 then (IOERR_NO_ERROR, ((fst st)\<lparr>scsi_Actual := 0\<rparr>, snd st))
     else if opc = 0x03 then scsi_request_sense st
     else if opc = 0x12 then scsi_inquiry U s st
     else if opc = 0x1A then scsi_mode_sense U st
     else if opc = 0x5A then scsi_mode_sense_10 U st
     else if opc = 0x25 then scsi_read_capacity_10 U st
     else if opc = 0x9E then scsi_read_capacity_16 U st
     else (IOERR_NOCMD, scsi_make_sense 0 0 IOERR_NOCMD st))"

definition scsi_finish :: "io_error \<Rightarrow> scsi_st \<Rightarrow> scsi_st" where
  "scsi_finish error = (\<lambda>(c, m). (c\<lparr>scsi_CmdActual := scsi_CmdLength c,
     scsi_Status := (if error_byte error \<noteq> 0 then 2 else 0)\<rparr>, m))"

definition handle_scsi_cmd :: "platform \<Rightarrow> nat \<Rightarrow> NVMeController \<Rightarrow> io_error \<times> NVMeController" where
  "handle_scsi_cmd P io s =
    (let u = io_Unit (k_ios s io); a = io_Data (k_ios s io) in
     if a = 0 then (IOERR_BADADDRESS, s)
     else
       let s1 = upd_scsi a (\<lambda>(c, m). (c\<lparr>scsi_SenseActual := 0\<rparr>, m)) s; c = k_scsi s1 a; opc = cdb (get_scsi a s1) 0 in
       if scsi_Command c = 0 then (IOERR_BADADDRESS, s1)
       else if scsi_CmdLength c < 6 then (IOERR_BADLENGTH, s1)
       else case (if opc = 0x42 then scsi_unmap P io s1
                  else if opc = 0x35 then scsi_sync_cache P io s1
                  else if opc \<in> {0x08, 0x0A, 0x28, 0x2A, 0x88, 0x8A} then scsi_transfer P io s1
                  else case scsi_emulate opc (k_units s1 u) s1 (get_scsi a s1) of (e, st) \<Rightarrow> (e, put_scsi a st s1)) of
           (err, s2) \<Rightarrow> if err = NVME_IO_ASYNC then (NVME_IO_ASYNC, s2) else (err, upd_scsi a (scsi_finish err) s2))"

section \<open>Memory and byte order\<close>

lemma length_store [simp]: "length (scsi_store_be16 v) = 2" "length (scsi_store_be32 w) = 4" "length (store_be64 z) = 8"
  by (simp_all add: scsi_store_be16_def scsi_store_be32_def store_be64_def)

lemma mem_put_at:
  assumes "i < length bs" "length bs \<le> 2 ^ 32"
  shows "mem_put a bs m (a + of_nat i) = bs ! i"
proof -
  have "unat (of_nat i :: u32) = i" using assms by (simp add: unat_of_nat)
  then show ?thesis using assms(1) by (simp add: mem_put_def)
qed

lemma mem_put_outside: "length bs \<le> unat (x - a) \<Longrightarrow> mem_put a bs m x = m x"
  by (simp add: mem_put_def)

text \<open>A field stored inside a response reads back.\<close>

lemma be16_bytes: "push_bit 8 (ucast (ucast (drop_bit 8 v) :: u8)) OR ucast (ucast v :: u8) = (v :: u16)"
  by (intro bit_word_eqI) (auto simp: bit_simps)

lemma be32_bytes: "push_bit 24 (ucast (ucast (drop_bit 24 v) :: u8)) OR push_bit 16 (ucast (ucast (drop_bit 16 v) :: u8)) OR
    push_bit 8 (ucast (ucast (drop_bit 8 v) :: u8)) OR ucast (ucast v :: u8) = (v :: u32)"
proof (rule bit_word_eqI)
  fix n
  assume "n < LENGTH(32)"
  then consider "n < 8" | "8 \<le> n" "n < 16" | "16 \<le> n" "n < 24" | "24 \<le> n" "n < 32" by fastforce
  then show "bit (push_bit 24 (ucast (ucast (drop_bit 24 v) :: u8)) OR push_bit 16 (ucast (ucast (drop_bit 16 v) :: u8)) OR
    push_bit 8 (ucast (ucast (drop_bit 8 v) :: u8)) OR ucast (ucast v :: u8) :: u32) n = bit v n"
    by cases (auto simp: bit_simps)
qed

lemma be64_halves: "push_bit 32 (ucast (ucast (drop_bit 32 v) :: u32)) OR ucast (ucast v :: u32) = (v :: u64)"
  by (intro bit_word_eqI) (auto simp: bit_simps)

lemma load_be16_at:
  assumes "bs = xs @ scsi_store_be16 v @ ys" "length bs \<le> 2 ^ 32"
  shows "scsi_load_be16 (mem_put a bs m) (a + of_nat (length xs)) = v"
proof -
  have "mem_put a bs m (a + of_nat (length xs) + of_nat i) = bs ! (length xs + i)" if "i < 2" for i
    using mem_put_at [of "length xs + i" bs a m] assms that by (simp add: scsi_store_be16_def add.assoc)
  from this [of 0] this [of 1] show ?thesis
    by (simp add: assms(1) scsi_load_be16_def scsi_store_be16_def nth_append be16_bytes)
qed

lemma load_be32_at:
  assumes "bs = xs @ scsi_store_be32 v @ ys" "length bs \<le> 2 ^ 32"
  shows "scsi_load_be32 (mem_put a bs m) (a + of_nat (length xs)) = v"
proof -
  have "mem_put a bs m (a + of_nat (length xs) + of_nat i) = bs ! (length xs + i)" if "i < 4" for i
    using mem_put_at [of "length xs + i" bs a m] assms that by (simp add: scsi_store_be32_def add.assoc)
  from this [of 0] this [of 1] this [of 2] this [of 3] show ?thesis
    by (simp add: assms(1) scsi_load_be32_def scsi_store_be32_def nth_append be32_bytes numeral_2_eq_2 numeral_3_eq_3)
qed

section \<open>Where emulated commands write\<close>

definition sense_wanted :: "SCSICmd \<Rightarrow> bool" where
  "sense_wanted c \<longleftrightarrow> scsi_Flags c AND SCSIF_AUTOSENSE \<noteq> 0 \<and> scsi_SenseData c \<noteq> 0 \<and> 18 \<le> scsi_SenseLength c"

text \<open>
  Memory changes only inside the data buffer and, when autosense asks for it, inside
  the sense buffer; of the argument block only the result fields change.
\<close>

definition confined :: "scsi_st \<Rightarrow> scsi_st \<Rightarrow> bool" where
  "confined st st' \<longleftrightarrow> (case st of (c, m) \<Rightarrow> case st' of (c', m') \<Rightarrow>
     (\<forall>x. unat (scsi_Length c) \<le> unat (x - scsi_Data c) \<longrightarrow> \<not> (sense_wanted c \<and> unat (x - scsi_SenseData c) < 18) \<longrightarrow> m' x = m x) \<and>
     c' = c\<lparr>scsi_Actual := scsi_Actual c', scsi_SenseActual := scsi_SenseActual c'\<rparr>)"

lemma confined_refl [simp]: "confined st st"
  by (simp add: confined_def split: prod.split)

lemma confinedD:
  "confined (c, m) (c', m') \<Longrightarrow> unat (scsi_Length c) \<le> unat (x - scsi_Data c) \<Longrightarrow>
    \<not> (sense_wanted c \<and> unat (x - scsi_SenseData c) < 18) \<Longrightarrow> m' x = m x"
  by (simp add: confined_def)

lemma confined_sense [simp]: "confined st (scsi_make_sense info specific e st)"
proof -
  obtain c m where st: "st = (c, m)" by (cases st)
  obtain key asc where k: "sense_code e = (key, asc)" by (cases "sense_code e")
  have "mem_put (scsi_SenseData c) ([0x70, 0, key] @ scsi_store_be32 info @ [11] @ scsi_store_be32 specific @ [asc, 0, error_byte e]) m x
      = m x" if "\<not> unat (x - scsi_SenseData c) < 18" for x
    using that by (intro mem_put_outside) (simp add: scsi_store_be32_def)
  then show ?thesis
    by (auto simp: confined_def scsi_make_sense_def st k sense_wanted_def not_less)
qed

lemma scsi_emit_bounds:
  assumes "scsi_emit bs alloc (c, m) = (c', m')"
  shows "scsi_Actual c' \<le> scsi_Length c" "scsi_Actual c' \<le> alloc" "confined (c, m) (c', m')"
proof -
  let ?l0 = "of_nat (length bs) :: u32"
  let ?l1 = "if alloc < ?l0 then alloc else ?l0"
  let ?l = "if scsi_Length c < ?l1 then scsi_Length c else ?l1"
  have e: "c' = c\<lparr>scsi_Actual := ?l\<rparr>" "m' = (if ?l \<noteq> 0 then mem_put (scsi_Data c) (take (unat ?l) bs) m else m)"
    using assms by (simp_all add: scsi_emit_def Let_def split: if_splits)
  show le: "scsi_Actual c' \<le> scsi_Length c" and "scsi_Actual c' \<le> alloc" by (auto simp: e)
  have "m' x = m x" if "unat (scsi_Length c) \<le> unat (x - scsi_Data c)" for x
  proof -
    have "length (take (unat ?l) bs) \<le> unat ?l" by simp
    also have "\<dots> \<le> unat (x - scsi_Data c)" using le that by (simp add: e word_le_nat_alt)
    finally show ?thesis using mem_put_outside by (auto simp: e)
  qed
  then show "confined (c, m) (c', m')" by (simp add: confined_def e)
qed

text \<open>The allocation length of a descriptor block: the number of bytes the initiator asks for.\<close>

definition alloc_len :: "u8 \<Rightarrow> scsi_st \<Rightarrow> u32" where
  "alloc_len opc st = (let a = scsi_Command (fst st); m = snd st in
     if opc \<in> {0x03, 0x1A} then ucast (cdb st 4)
     else if opc = 0x12 then ucast (scsi_load_be16 m (a + 3))
     else if opc = 0x5A then ucast (scsi_load_be16 m (a + 7))
     else if opc = 0x25 then 8
     else if opc = 0x9E then scsi_load_be32 m (a + 10)
     else 0)"

lemma emitted_bounds:
  assumes "emitted bs alloc (c, m) = (e, c', m')"
  shows "confined (c, m) (c', m') \<and> (e = IOERR_NO_ERROR \<longrightarrow> scsi_Actual c' \<le> scsi_Length c \<and> scsi_Actual c' \<le> alloc)"
  using assms scsi_emit_bounds [of bs alloc c m c' m'] by (simp add: emitted_def)

lemma sense_confined: "scsi_make_sense i j e st = st' \<Longrightarrow> confined st st'"
  by auto

lemmas scsi_handlers [scsi_simps] = scsi_inquiry_standard_def scsi_inquiry_vpd_00_def scsi_inquiry_vpd_b0_def
  scsi_inquiry_vpd_b2_def scsi_read_capacity_10_def scsi_read_capacity_16_def scsi_mode_sense_def scsi_mode_sense_10_def
  scsi_request_sense_def Let_def

text \<open>
  C35.  No emulated SCSI command can overrun the client: it changes memory only inside
  the data buffer and, with autosense, inside the first 18 bytes of a sense buffer
  of at least that size; on success the number of bytes it reports is at most the
  size of the data buffer and at most the allocation length of the descriptor block.
\<close>

theorem scsi_emulate_in_bounds:
  assumes "scsi_emulate opc U s (c, m) = (e, c', m')"
  shows "confined (c, m) (c', m') \<and>
    (e = IOERR_NO_ERROR \<longrightarrow> scsi_Actual c' \<le> scsi_Length c \<and> scsi_Actual c' \<le> alloc_len opc (c, m))"
proof -
  have inq: ?thesis if "scsi_inquiry U s (c, m) = (e, c', m')" "opc = 0x12"
    using that(1) unfolding scsi_inquiry_def that(2)
    by (auto simp: scsi_simps alloc_len_def split: if_splits dest!: emitted_bounds sense_confined)
  consider "opc = 0x12" | "opc \<noteq> 0x12" by blast
  then show ?thesis
  proof cases
    case 1
    then show ?thesis using assms inq by (simp add: scsi_emulate_def)
  next
    case 2
    then show ?thesis
      using assms unfolding scsi_emulate_def
      by (auto simp: scsi_simps alloc_len_def confined_def split: if_splits dest!: emitted_bounds sense_confined)
  qed
qed

text \<open>A 36-byte INQUIRY into a buffer of that size, with its descriptor block at address 16.\<close>

definition demo_inquiry :: scsi_st where
  "demo_inquiry = (zero_scsi\<lparr>scsi_Data := 0x1000, scsi_Length := 36, scsi_Command := 16, scsi_CmdLength := 6\<rparr>,
     mem_put 16 [0x12, 0, 0, 0, 36, 0] (\<lambda>_. 0))"

theorem scsi_emulate_in_bounds_witness:
  "\<exists>c' m'. scsi_emulate 0x12 demo_unit demo_ctrl demo_inquiry = (IOERR_NO_ERROR, c', m') \<and>
     scsi_Actual c' \<le> 36 \<and> m' 0x1024 = 0"
proof -
  have c: "demo_inquiry = (fst demo_inquiry, snd demo_inquiry)" by simp
  have f: "scsi_Data (fst demo_inquiry) = 0x1000" "scsi_Length (fst demo_inquiry) = 36" "\<not> sense_wanted (fst demo_inquiry)"
    "snd demo_inquiry 0x1024 = 0"
    by (simp_all add: demo_inquiry_def zero_scsi_def sense_wanted_def mem_put_def)
  obtain e c' m' where r: "scsi_emulate 0x12 demo_unit demo_ctrl demo_inquiry = (e, c', m')" by (metis surj_pair)
  then have "scsi_emulate 0x12 demo_unit demo_ctrl (fst demo_inquiry, snd demo_inquiry) = (e, c', m')" by simp
  note b = scsi_emulate_in_bounds [OF this]
  have "e = IOERR_NO_ERROR"
    using r by (auto simp: scsi_emulate_def scsi_inquiry_def scsi_simps emitted_def demo_inquiry_def zero_scsi_def cdb_def
        mem_put_def split: if_splits)
  moreover have "m' 0x1024 = snd demo_inquiry 0x1024"
    by (rule confinedD [OF conjunct1 [OF b]]) (simp_all add: f)
  ultimately show ?thesis using r b f by auto
qed

section \<open>READ CAPACITY\<close>

lemma emit_whole:
  assumes "of_nat (length bs) \<le> scsi_Length c" "of_nat (length bs) \<le> alloc" "length bs < 2 ^ 32" "bs \<noteq> []"
  shows "scsi_emit bs alloc (c, m) = (c\<lparr>scsi_Actual := of_nat (length bs)\<rparr>, mem_put (scsi_Data c) bs m)"
proof -
  have u: "unat (of_nat (length bs) :: u32) = length bs" using assms(3) by (simp add: unat_of_nat)
  then have "(of_nat (length bs) :: u32) \<noteq> 0" using assms(4) by (metis length_0_conv unat_0)
  then show ?thesis using assms(1,2) u by (auto simp: scsi_emit_def Let_def not_less)
qed

text \<open>
  What READ CAPACITY stores reads back in big-endian order as the last LBA and
  the block size of the unit: the 16-byte form for every non-empty namespace, the
  10-byte form for one of fewer than \<open>2 ^ 32 - 1\<close> blocks, while a larger one is
  reported as \<open>0xFFFFFFFF\<close>.
\<close>

theorem read_capacity_roundtrip:
  assumes "scsi_Data c \<noteq> 0" "15 \<le> scsi_Length c" "scsi_Command c \<noteq> 0" "16 \<le> scsi_CmdLength c"
    and "15 \<le> scsi_load_be32 m (scsi_Command c + 10)" "u_logicalSectors U \<noteq> 0"
  shows "(case scsi_read_capacity_16 U (c, m) of (e, c', m') \<Rightarrow> e = IOERR_NO_ERROR \<and>
      load_be64 m' (scsi_Data c) = u_logicalSectors U - 1 \<and> scsi_load_be32 m' (scsi_Data c + 8) = sector_size U) \<and>
    (case scsi_read_capacity_10 U (c, m) of (e, c', m') \<Rightarrow> e = IOERR_NO_ERROR \<and>
      scsi_load_be32 m' (scsi_Data c) =
        (if u_logicalSectors U < 0xFFFFFFFF then ucast (u_logicalSectors U - 1) else 0xFFFFFFFF) \<and>
      scsi_load_be32 m' (scsi_Data c + 4) = sector_size U)"
proof -
  let ?lba = "u_logicalSectors U - 1" and ?b = "sector_size U"
  let ?bs = "store_be64 ?lba @ scsi_store_be32 ?b @ [0, 0, 0]"
  define lba10 where "lba10 = (if u_logicalSectors U < 0xFFFFFFFF then ucast ?lba else 0xFFFFFFFF :: u32)"
  let ?bs10 = "scsi_store_be32 lba10 @ scsi_store_be32 ?b"
  have len: "length ?bs = 15" "length ?bs10 = 8" "?bs \<noteq> []" "?bs10 \<noteq> []" by (simp_all add: scsi_store_be32_def)
  have ge: "8 \<le> scsi_Length c" using assms(2) by (simp add: word_le_nat_alt)
  have e: "scsi_read_capacity_16 U (c, m) = (IOERR_NO_ERROR, c\<lparr>scsi_Actual := 15\<rparr>, mem_put (scsi_Data c) ?bs m)"
    "scsi_read_capacity_10 U (c, m) = (IOERR_NO_ERROR, c\<lparr>scsi_Actual := 8\<rparr>, mem_put (scsi_Data c) ?bs10 m)"
    using emit_whole [of ?bs c "scsi_load_be32 m (scsi_Command c + 10)" m] emit_whole [of ?bs10 c 8 m] assms ge len
    unfolding scsi_read_capacity_16_def scsi_read_capacity_10_def emitted_def Let_def lba10_def [symmetric]
    by (simp_all add: not_less)
  have "scsi_load_be32 (mem_put (scsi_Data c) ?bs m) (scsi_Data c) = ucast (drop_bit 32 ?lba)"
    "scsi_load_be32 (mem_put (scsi_Data c) ?bs m) (scsi_Data c + 4) = ucast ?lba"
    "scsi_load_be32 (mem_put (scsi_Data c) ?bs m) (scsi_Data c + 8) = ?b"
    using load_be32_at [of ?bs "[]" "ucast (drop_bit 32 ?lba)" "scsi_store_be32 (ucast ?lba) @ scsi_store_be32 ?b @ [0, 0, 0]" "scsi_Data c" m]
      load_be32_at [of ?bs "scsi_store_be32 (ucast (drop_bit 32 ?lba))" "ucast ?lba" "scsi_store_be32 ?b @ [0, 0, 0]" "scsi_Data c" m]
      load_be32_at [of ?bs "store_be64 ?lba" ?b "[0, 0, 0]" "scsi_Data c" m]
    by (simp_all add: store_be64_def)
  moreover have "scsi_load_be32 (mem_put (scsi_Data c) ?bs10 m) (scsi_Data c) = lba10"
    "scsi_load_be32 (mem_put (scsi_Data c) ?bs10 m) (scsi_Data c + 4) = ?b"
    using load_be32_at [of ?bs10 "[]" lba10 "scsi_store_be32 ?b" "scsi_Data c" m]
      load_be32_at [of ?bs10 "scsi_store_be32 lba10" ?b "[]" "scsi_Data c" m] by simp_all
  ultimately show ?thesis unfolding e prod.case load_be64_def lba10_def [symmetric] by (simp add: be64_halves)
qed

text \<open>READ CAPACITY (16) with an allocation length of 32 into a 32-byte buffer.\<close>

definition demo_capacity :: scsi_st where
  "demo_capacity = (zero_scsi\<lparr>scsi_Data := 0x1000, scsi_Length := 32, scsi_Command := 16, scsi_CmdLength := 16\<rparr>,
     mem_put 16 [0x9E, 0x10, 0, 0, 0, 0, 0, 0, 0, 0, 0, 0, 0, 32, 0, 0] (\<lambda>_. 0))"

theorem read_capacity_roundtrip_witness:
  "\<exists>c' m'. scsi_read_capacity_16 demo_unit demo_capacity = (IOERR_NO_ERROR, c', m') \<and> load_be64 m' 0x1000 = 999 \<and>
     scsi_load_be32 m' 0x1008 = 512"
proof -
  have c: "demo_capacity = (fst demo_capacity, snd demo_capacity)" by simp
  have f: "scsi_Data (fst demo_capacity) \<noteq> 0" "15 \<le> scsi_Length (fst demo_capacity)" "scsi_Command (fst demo_capacity) \<noteq> 0"
    "16 \<le> scsi_CmdLength (fst demo_capacity)"
    "15 \<le> scsi_load_be32 (snd demo_capacity) (scsi_Command (fst demo_capacity) + 10)" "u_logicalSectors demo_unit \<noteq> 0"
    by (simp_all add: demo_capacity_def demo_unit_def scsi_load_be32_def mem_put_def)
  have u: "scsi_Data (fst demo_capacity) = 0x1000" "u_logicalSectors demo_unit = 1000" "sector_size demo_unit = 512"
    by (simp_all add: demo_capacity_def demo_unit_def sector_size_def)
  obtain e c' m' where r: "scsi_read_capacity_16 demo_unit demo_capacity = (e, c', m')" by (metis surj_pair)
  show ?thesis using read_capacity_roundtrip [OF f, unfolded c [symmetric]] r u by simp
qed

section \<open>Commands that reach the controller: hand-over\<close>

text \<open>
  The weaker form of \<open>io_handoff\<close> for commands that may also succeed at once: the
  request has one owner after an asynchronous answer and none after any other.
\<close>

definition io_settled :: "nat \<Rightarrow> NVMeController \<Rightarrow> io_error \<Rightarrow> NVMeController \<Rightarrow> bool" where
  "io_settled io s e s' \<longleftrightarrow> tables_ok s' \<and> ctx_refs_ok s' \<and> replies s' = replies s \<and>
     (if e = NVME_IO_ASYNC
      then (\<exists>w. owners s' io = {w} \<and> will_reply s' w) \<and> (\<forall>io'. io' \<noteq> io \<longrightarrow> owners s' io' = owners s io')
      else k_reqs s' = k_reqs s \<and> k_ctxs s' = k_ctxs s)"

lemma handoff_settled: "io_handoff io s e s' \<Longrightarrow> io_settled io s e s'"
  by (auto simp: io_handoff_def io_settled_def split: if_splits)

lemma settled_refl [simp]: "tables_ok s \<Longrightarrow> ctx_refs_ok s \<Longrightarrow> e \<noteq> NVME_IO_ASYNC \<Longrightarrow> io_settled io s e s"
  by (simp add: io_settled_def)

lemma upd_scsi_fields [simp]:
  "k_reqs (upd_scsi a f s) = k_reqs s" "k_ctxs (upd_scsi a f s) = k_ctxs s" "get_q (upd_scsi a f s) sel = get_q s sel"
  "k_trace (upd_scsi a f s) = k_trace s" "k_ctx_stalled (upd_scsi a f s) = k_ctx_stalled s" "k_ios (upd_scsi a f s) = k_ios s"
  "k_state (upd_scsi a f s) = k_state s" "k_io_max_inflight (upd_scsi a f s) = k_io_max_inflight s"
  "k_units (upd_scsi a f s) = k_units s" "k_dma (upd_scsi a f s) = k_dma s" "k_dsm (upd_scsi a f s) = k_dsm s"
  "k_oncs (upd_scsi a f s) = k_oncs s"
  by (simp_all add: upd_scsi_def put_scsi_def)

lemma put_upd_scsi: "put_scsi a st s = upd_scsi a (\<lambda>_. st) s"
  by (simp add: upd_scsi_def)

lemma upd_scsi_facts [simp]:
  "owners (upd_scsi a f s) io = owners s io" "ctx_refs_ok (upd_scsi a f s) = ctx_refs_ok s"
  "nvme_state_terminal (upd_scsi a f s) = nvme_state_terminal s" "sib_cap (upd_scsi a f s) = sib_cap s"
  "tables_ok (upd_scsi a f s) = tables_ok s" "io_settled io (upd_scsi a f s) e s' = io_settled io s e s'"
  "io_settled io s' e (upd_scsi a f s) = io_settled io s' e s"
proof -
  show o: "owners (upd_scsi a f s) io = owners s io" "ctx_refs_ok (upd_scsi a f s) = ctx_refs_ok s" for io
    by (simp_all add: owners_def ctx_refs_ok_def)
  show "nvme_state_terminal (upd_scsi a f s) = nvme_state_terminal s" "sib_cap (upd_scsi a f s) = sib_cap s"
    by (simp_all add: nvme_state_terminal_def sib_cap_def)
  show t: "tables_ok (upd_scsi a f s) = tables_ok s"
    using tables_ok_same [of s "upd_scsi a f s"] tables_ok_same [of "upd_scsi a f s" s] by auto
  have w: "will_reply (upd_scsi a f s) w = will_reply s w" for w
    by (simp add: will_reply_def in_slot_def ctx_counted_def siblings_def cx_def split: sum.split)
  show "io_settled io (upd_scsi a f s) e s' = io_settled io s e s'" "io_settled io s' e (upd_scsi a f s) = io_settled io s' e s"
    by (simp_all add: io_settled_def o t w replies_def)
qed

lemma sub_frame_scsi [simp]: "sub_frame s s' \<Longrightarrow> sub_frame s (upd_scsi a f s')"
  by (simp add: upd_scsi_def put_scsi_def)

text \<open>Range tables.\<close>

lemma dsm_table_eq:
  "dsm_table P bad ds = (if \<forall>d \<in> set ds. \<not> bad (fst d) (snd d)
     then Some (map (\<lambda>(l, n). \<lparr>dr_cattr = p_le32 P 0, dr_nlb = p_le32 P n, dr_slba = p_le64 P l\<rparr>) ds) else None)"
  by (induction ds) (auto, fastforce)

definition table_image :: "platform \<Rightarrow> (u64 \<times> u32) list \<Rightarrow> nvme_dsm_range list" where
  "table_image P ds = map (\<lambda>(l, n). \<lparr>dr_cattr = p_le32 P 0, dr_nlb = p_le32 P n, dr_slba = p_le64 P l\<rparr>) ds @
     replicate (NVME_DSM_MAX_RANGES - length ds) zero_range"

text \<open>
  An accepted table is owned by its request, and the command in the ring points to it and counts its ranges from zero; after a refusal the DMA
  pool is as before.
\<close>

definition dsm_cmd_for :: "platform \<Rightarrow> u32 \<Rightarrow> nat \<Rightarrow> nvme_command \<Rightarrow> bool" where
  "dsm_cmd_for P ranges n cmd \<longleftrightarrow> cmd_opcode cmd = nvme_cmd_dsm \<and> cmd_body cmd = Body_dsm (p_le32 P (of_nat (n - 1))) (p_le32 P 4) \<and>
     cmd_prp1 cmd = p_le64 P (ucast ranges)"

definition table_owned :: "platform \<Rightarrow> nat \<Rightarrow> (u64 \<times> u32) list \<Rightarrow> NVMeController \<Rightarrow> io_error \<Rightarrow> NVMeController \<Rightarrow> bool" where
  "table_owned P io ds s e s' \<longleftrightarrow>
    (if e = NVME_IO_ASYNC
     then \<exists>r ranges. owners s' io = {Inl r} \<and> req_dma (rq s' r) = {ranges} \<and> k_dma s ranges = None \<and>
            k_dma s' = (k_dma s)(ranges := Some 4096) \<and> k_dsm s' ranges = table_image P ds \<and>
            (\<exists>cmd. sq_contents (get_q s' Io_q) = sq_contents (get_q s Io_q) @ [cmd] \<and> dsm_cmd_for P ranges (length ds) cmd)
     else k_dma s' = k_dma s)"

lemma dsm_setup_cmd:
  assumes "nvme_setup_dsm P r ranges nr s = (True, s')" "unat nr = n"
  shows "dsm_cmd_for P ranges n (r_cmd (rq s' r))"
proof -
  have nz: "nr \<noteq> 0" "n \<le> 256" using assms by (auto simp: nvme_setup_dsm_def Let_def split: if_splits)
  have "unat (nr - 1) = n - 1" using nz(1) assms(2) by (simp add: unat_minus_one)
  then have "(ucast (nr - 1) :: u32) = of_nat (n - 1)" by (metis of_nat_unat)
  then show ?thesis using assms by (auto simp: dsm_cmd_for_def nvme_setup_dsm_def Let_def split: if_splits)
qed

lemma submit_dsm_command:
  assumes "tables_ok s" "req_slab_ok P" "\<not> nvme_state_terminal s" and e: "nvme_io_submit_dsm P u io ranges nr s = (NVME_IO_ASYNC, s')"
  shows "\<exists>cmd. sq_contents (get_q s' Io_q) = sq_contents (get_q s Io_q) @ [cmd] \<and> dsm_cmd_for P ranges (unat nr) cmd"
proof -
  obtain res s1 where a: "nvme_req_alloc_io P u (Some io) s = (res, s1)" by (meson surj_pair)
  have "\<exists>r. res = Inr r"
    using e a by (cases res) (auto simp: nvme_io_submit_dsm_def nvme_req_alloc_io_def split: prod.splits sum.splits alloc_failure.splits)
  then obtain r where r: "res = Inr r" by blast
  obtain q where q: "k_reqs s1 = (k_reqs s)(r := Some q)" "tables_ok s1" "in_slot s1 r" "r_q q = Io_q" "r_flags q = 0" "io_frame s s1"
      "sq_contents (get_q s1 Io_q) = sq_contents (get_q s Io_q)"
    using fresh_request [OF assms(1,2) a [unfolded r]] by blast
  obtain okd s2 where st: "nvme_setup_dsm P r ranges nr s1 = (okd, s2)" by (meson surj_pair)
  note df = dsm_setup_frame [OF st]
  have "fst (nvme_fail_nonready_command P r (dma_free ranges s1)) \<noteq> NVME_IO_ASYNC"
    using assms(3) io_frameD(4) [OF q(6)] q(1,5)
    by (auto simp: nvme_fail_nonready_command_def Let_def nvme_state_terminal_def nvme_req_noretry_def rq_def)
  then have ok: "okd" and sub: "nvme_submit_io r s2 = (NVME_IO_ASYNC, s')"
    using e unfolding nvme_io_submit_dsm_def a r prod.case sum.case st by (auto split: if_splits)
  note t2 = req_frame_tables [OF df(1) q(2,3)]
  have "r_q (rq s2 r) = Io_q" "get_q s2 Io_q = get_q s1 Io_q" using df(1) q(1,4) by (auto simp: req_frame_def rq_def)
  then show ?thesis
    using submit_io_accepted(1) [OF t2(1), of r] sub q(7) dsm_setup_cmd [OF st [unfolded eqTrueI [OF ok]] refl]
    by (intro exI [of _ "r_cmd (rq s2 r)"]) simp
qed

lemma dsm_submit_ranges_ok:
  assumes ok: "tables_ok s" "req_slab_ok P" "dma_pool_ok P" "ctx_refs_ok s" "owners s io = {}" "\<not> nvme_state_terminal s"
    and e: "dsm_submit_ranges P u io bad ds s = (e, s')" and len: "length ds < 2 ^ 16"
  shows "io_handoff io s e s' \<and> sub_frame s s' \<and> table_owned P io ds s e s' \<and>
    (e = NVME_IO_ASYNC \<longrightarrow> (\<forall>d \<in> set ds. \<not> bad (fst d) (snd d)))"
proof (cases "p_dma_alloc P 4096 (16 * 256) (\<lambda>a. k_dma s a \<noteq> None)")
  case None
  then have "e = IOERR_SELFTEST" "s' = s" using e by (simp_all add: dsm_submit_ranges_def dma_zalloc_def dma_alloc_def)
  then show ?thesis using ok by (simp add: table_owned_def)
next
  case (Some ranges)
  have fresh: "k_dma s ranges = None" using dma_pool_okD(1) [OF ok(3) Some] by simp
  define s1 where "s1 = s\<lparr>k_dma := (k_dma s)(ranges := Some 4096), k_mem := (\<lambda>b. if b - ranges < 4096 then 0 else k_mem s b)\<rparr>"
  have z: "dma_zalloc P 4096 (16 * 256) s = Some (ranges, s1)"
    using Some by (simp add: dma_zalloc_def dma_alloc_def s1_def cong: if_cong)
  show ?thesis
  proof (cases "dsm_table P bad ds")
    case None
    have "e = IOERR_BADADDRESS" "s' = dma_free ranges s1" using e z None by (simp_all add: dsm_submit_ranges_def)
    moreover have "io_handoff io s IOERR_BADADDRESS (dma_free ranges s1) = io_handoff io s IOERR_BADADDRESS s"
      by (rule handoff_cong(4)) (simp_all add: s1_def)
    moreover have "k_dma (dma_free ranges s1) = k_dma s" using fresh by (auto simp: s1_def)
    moreover have "sub_frame s (dma_free ranges s1)" by (simp add: s1_def)
    ultimately show ?thesis using ok by (simp add: table_owned_def)
  next
    case (Some rs)
    let ?img = "rs @ replicate (NVME_DSM_MAX_RANGES - length rs) zero_range"
    define t where "t = s1\<lparr>k_dsm := (k_dsm s1)(ranges := ?img)\<rparr>"
    have img: "?img = table_image P ds" using Some by (auto simp: dsm_table_eq table_image_def split: if_splits)
    have sub: "nvme_io_submit_dsm P u io ranges (of_nat (length rs)) t = (e, s')"
      using e z Some by (simp add: dsm_submit_ranges_def t_def)
    have tf: "k_reqs t = k_reqs s" "k_ctxs t = k_ctxs s" "\<And>sel. get_q t sel = get_q s sel" "k_trace t = k_trace s" "sub_frame s t"
      "k_state t = k_state s" "k_dma t = (k_dma s)(ranges := Some 4096)" "k_dsm t ranges = ?img"
      by (simp_all add: t_def s1_def)
    have t1: "tables_ok t" by (rule tables_ok_same [OF ok(1)]) (simp_all only: tf)
    have t2: "\<not> nvme_state_terminal t" using ok(6) tf(6) by (simp add: nvme_state_terminal_def)
    have t3: "ctx_refs_ok t" "owners t io = {}" using handoff_cong(2,3) [OF tf(1-4)] ok by simp_all
    have h: "io_handoff io t e s' \<and> dsm_owned io ranges t e s'" by (rule submit_dsm_handoff [OF t1 ok(2) t3 t2 sub])
    have fr: "io_frame t s'" by (rule submit_dsm_frame [OF t1 ok(2) t2 sub])
    have c: "\<exists>cmd. sq_contents (get_q s' Io_q) = sq_contents (get_q s Io_q) @ [cmd] \<and> dsm_cmd_for P ranges (length ds) cmd"
      if "e = NVME_IO_ASYNC"
    proof -
      have "unat (of_nat (length rs) :: u16) = length ds" using Some len by (auto simp: dsm_table_eq unat_of_nat split: if_splits)
      then show ?thesis using submit_dsm_command [OF t1 ok(2) t2 sub [unfolded that]] tf(3) by simp
    qed
    have "table_owned P io ds s e s'"
      using h c fresh tf(7,8) io_frameD(16) [OF fr] unfolding dsm_owned_def table_owned_def img by (auto simp: fun_upd_idem)
    then show ?thesis
      using h handoff_cong(1) [OF tf(1-4)] sub_frame_trans [OF tf(5) sub_frame_io [OF fr]] Some by (auto simp: dsm_table_eq split: if_splits)
  qed
qed

lemma table_owned_scsi [simp]: "table_owned P io ds s e (upd_scsi a f s') = table_owned P io ds s e s'"
  by (simp add: table_owned_def rq_def)

text \<open>Big-endian numbers of the parameter list, by their value.\<close>

definition be_val :: "u8 list \<Rightarrow> nat" where
  "be_val bs = foldl (\<lambda>v b. 256 * v + unat b) 0 bs"

definition mem_bytes :: "memory \<Rightarrow> u32 \<Rightarrow> nat \<Rightarrow> u8 list" where
  "mem_bytes m a n = map (\<lambda>i. m (a + of_nat i)) [0..<n]"

lemma unat_be_step:
  fixes c :: "'a::len word" and b :: u8
  assumes "256 * unat c + unat b < 2 ^ LENGTH('a)" "8 \<le> LENGTH('a)"
  shows "unat (push_bit 8 c OR ucast b) = 256 * unat c + unat b"
proof -
  have b: "unat b < 256" using unat_lt_size [of b] by simp
  have "(256 :: nat) \<le> 2 ^ LENGTH('a)" using power_increasing [OF assms(2), of "2 :: nat"] by simp
  then have u: "unat (ucast b :: 'a word) = unat b" using b by (simp add: unat_ucast_mod)
  have p: "unat (push_bit 8 c) = 256 * unat c" using unat_push_bit [of c 8] assms(1) by simp
  have "push_bit 8 c OR ucast b = push_bit 8 c + (ucast b :: 'a word)"
    by (rule disjunctive_add [symmetric]) (auto simp: bit_simps dest: bit_imp_le_length)
  then show ?thesis using unat_add_no_wrap [of "push_bit 8 c" "ucast b :: 'a word"] p u assms(1) by simp
qed

lemma load_be16_val: "unat (scsi_load_be16 m a) = be_val (mem_bytes m a 2)"
proof -
  have b: "unat (m x) < 256" for x using unat_lt_size [of "m x"] by simp
  have "unat (ucast (m a) :: u16) = unat (m a)" using b [of a] by (simp add: unat_ucast_mod)
  then show ?thesis
    using unat_be_step [of "ucast (m a) :: u16" "m (a + 1)"] b [of a] b [of "a + 1"]
    by (simp add: scsi_load_be16_def be_val_def mem_bytes_def upt_rec)
qed

lemma load_be32_val: "unat (scsi_load_be32 m a) = be_val (mem_bytes m a 4)"
proof -
  have b: "unat (m x) < 256" for x using unat_lt_size [of "m x"] by simp
  define w0 where "w0 = (ucast (m a) :: u32)"
  define w1 where "w1 = push_bit 8 w0 OR ucast (m (a + 1))"
  define w2 where "w2 = push_bit 8 w1 OR ucast (m (a + 2))"
  have l: "scsi_load_be32 m a = push_bit 8 w2 OR ucast (m (a + 3))"
    unfolding w2_def w1_def w0_def scsi_load_be32_def by (rule bit_word_eqI) (auto simp: bit_simps)
  have v0: "unat w0 = unat (m a)" using b [of a] by (simp add: w0_def unat_ucast_mod)
  have v1: "unat w1 = 256 * unat w0 + unat (m (a + 1))" unfolding w1_def by (rule unat_be_step) (use v0 b [of a] b [of "a + 1"] in simp_all)
  have v2: "unat w2 = 256 * unat w1 + unat (m (a + 2))"
    unfolding w2_def by (rule unat_be_step) (use v0 v1 b [of a] b [of "a + 1"] b [of "a + 2"] in simp_all)
  have "unat (push_bit 8 w2 OR ucast (m (a + 3))) = 256 * unat w2 + unat (m (a + 3))"
    by (rule unat_be_step) (use v0 v1 v2 b [of a] b [of "a + 1"] b [of "a + 2"] b [of "a + 3"] in simp_all)
  then show ?thesis using v0 v1 v2 l by (simp add: be_val_def mem_bytes_def upt_rec)
qed

lemma load_be64_val: "unat (load_be64 m a) = be_val (mem_bytes m a 8)"
proof -
  let ?h = "scsi_load_be32 m a" and ?l = "scsi_load_be32 m (a + 4)"
  have u: "unat (ucast x :: u64) = unat x" "unat x < 2 ^ 32" for x :: u32 using unat_lt_size [of x] by (simp_all add: unat_ucast_mod)
  have "push_bit 32 (ucast ?h) OR ucast ?l = push_bit 32 (ucast ?h) + (ucast ?l :: u64)"
    by (rule disjunctive_add [symmetric]) (auto simp: bit_simps dest: bit_imp_le_length)
  moreover have "unat (push_bit 32 (ucast ?h) :: u64) = unat ?h * 2 ^ 32" using unat_push_bit [of "ucast ?h :: u64" 32] u [of ?h] by simp
  ultimately have "unat (load_be64 m a) = unat ?h * 2 ^ 32 + unat ?l"
    using unat_add_no_wrap [of "push_bit 32 (ucast ?h) :: u64" "ucast ?l"] u [of ?h] u [of ?l] by (simp add: load_be64_def)
  also have "\<dots> = be_val (mem_bytes m a 8)" unfolding load_be32_val by (simp add: be_val_def mem_bytes_def upt_rec algebra_simps)
  finally show ?thesis .
qed

text \<open>What UNMAP asks for: the descriptors of the parameter list, as many as its header announces.\<close>

definition lists_descs :: "memory \<Rightarrow> u32 \<Rightarrow> (u64 \<times> u32) list \<Rightarrow> bool" where
  "lists_descs m param ds \<longleftrightarrow> length ds = be_val (mem_bytes m (param + 2) 2) div 16 \<and>
     (\<forall>i < length ds. unat (fst (ds ! i)) = be_val (mem_bytes m (param + 8 + 16 * of_nat i) 8) \<and>
        unat (snd (ds ! i)) = be_val (mem_bytes m (param + 16 + 16 * of_nat i) 4))"

lemma unmap_descs_listed: "lists_descs m param (unmap_descs m param (unat (scsi_load_be16 m (param + 2)) div 16))"
  by (simp add: lists_descs_def unmap_descs_def load_be16_val load_be32_val load_be64_val)

lemma unmap_fits:
  fixes bdl :: u16 and len :: u32
  assumes "\<not> len < 8 + ucast bdl"
  shows "8 + 16 * (unat bdl div 16) \<le> unat len"
proof -
  have b: "unat bdl < 65536" using unat_lt_size [of bdl] by simp
  then have u: "unat (ucast bdl :: u32) = unat bdl" by (simp add: unat_ucast_mod)
  have "unat (8 + ucast bdl :: u32) = 8 + unat bdl"
    using unat_add_no_wrap [of "8 :: u32" "ucast bdl"] b u by simp
  then show ?thesis using assms by (simp add: not_less word_le_nat_alt)
qed

lemma unmap_dispatch:
  assumes ok: "tables_ok s" "req_slab_ok P" "dma_pool_ok P" "ctx_refs_ok s" "owners s io = {}" "\<not> nvme_state_terminal s"
    and e: "scsi_unmap P io s = (e, s')"
  defines "c \<equiv> k_scsi s (io_Data (k_ios s io))" and "U \<equiv> k_units s (io_Unit (k_ios s io))"
  shows "io_settled io s e s' \<and> sub_frame s s' \<and>
    (if e = NVME_IO_ASYNC
     then \<exists>ds. lists_descs (k_mem s) (scsi_Data c) ds \<and> 0 < length ds \<and> length ds \<le> 256 \<and> 8 + 16 * length ds \<le> unat (scsi_Length c) \<and>
            (\<forall>d \<in> set ds. \<not> past_end U (fst d) (snd d)) \<and> table_owned P io ds s e s'
     else k_dma s' = k_dma s)"
proof -
  let ?u = "io_Unit (k_ios s io)" and ?a = "io_Data (k_ios s io)"
  let ?bdl = "scsi_load_be16 (k_mem s) (scsi_Data c + 2)"
  let ?nr = "unat ?bdl div 16"
  let ?ds = "unmap_descs (k_mem s) (scsi_Data c) ?nr"
  obtain e1 s1 where d: "dsm_submit_ranges P ?u io (past_end U) ?ds s = (e1, s1)" by (meson surj_pair)
  have "length ?ds < 2 ^ 16" using unat_lt_size [of ?bdl] by (simp add: unmap_descs_def less_mult_imp_div_less)
  note r = dsm_submit_ranges_ok [OF ok d this]
  consider (local) f where "s' = upd_scsi ?a f s" "e \<noteq> NVME_IO_ASYNC"
    | (dsm) f where "?nr \<noteq> 0" "?nr \<le> 256" "\<not> scsi_Length c < 8 + ucast ?bdl" "e = e1" "s' = upd_scsi ?a f s1"
    using e unfolding scsi_unmap_def Let_def c_def [symmetric] U_def [symmetric] d prod.case
    by (auto split: if_splits simp: not_less)
  then show ?thesis
  proof cases
    case (local f)
    then show ?thesis using ok by simp
  next
    case (dsm f)
    have o: "table_owned P io ?ds s e s'" using r dsm by simp
    show ?thesis
    proof (cases "e = NVME_IO_ASYNC")
      case True
      then have "\<exists>ds. lists_descs (k_mem s) (scsi_Data c) ds \<and> 0 < length ds \<and> length ds \<le> 256 \<and> 8 + 16 * length ds \<le> unat (scsi_Length c) \<and>
            (\<forall>d \<in> set ds. \<not> past_end U (fst d) (snd d)) \<and> table_owned P io ds s e s'"
        using o r dsm(1-4) unmap_fits [OF dsm(3)] unmap_descs_listed by (intro exI [of _ ?ds]) (auto simp: unmap_descs_def)
      then show ?thesis using True r dsm(4,5) handoff_settled by auto
    next
      case False
      then show ?thesis using o r dsm(4,5) handoff_settled by (auto simp: table_owned_def)
    qed
  qed
qed


text \<open>
  C34.  UNMAP is translated descriptor by descriptor.  When it is accepted, the range
  table that goes to the controller lists every descriptor that the header of the parameter list announces, in
  order, with the LBA and count that stand there in big-endian form, in device byte order, and the rest of the 256 entries zero; there are
  between one and 256 of them, all inside the parameter buffer and none refused by
  the range check; the request owns the table, and the one command appended to the ring points to it and carries that
  number of ranges.  Any other outcome leaves the DMA pool, the requests and the transfer contexts as they were.
\<close>

theorem unmap_translates:
  assumes ok: "tables_ok s" "req_slab_ok P" "dma_pool_ok P" "ctx_refs_ok s" "owners s io = {}" "\<not> nvme_state_terminal s"
    and e: "scsi_unmap P io s = (e, s')"
  defines "c \<equiv> k_scsi s (io_Data (k_ios s io))" and "U \<equiv> k_units s (io_Unit (k_ios s io))"
  shows "io_settled io s e s' \<and> sub_frame s s' \<and>
    (if e = NVME_IO_ASYNC
     then \<exists>ds. lists_descs (k_mem s) (scsi_Data c) ds \<and> 0 < length ds \<and> length ds \<le> 256 \<and> 8 + 16 * length ds \<le> unat (scsi_Length c) \<and>
            (\<forall>d \<in> set ds. \<not> past_end U (fst d) (snd d)) \<and> table_owned P io ds s e s'
     else k_dma s' = k_dma s)"
  unfolding c_def U_def by (rule unmap_dispatch [OF ok e])

text \<open>An UNMAP of one descriptor: eight blocks at LBA 77.\<close>

definition demo_unmap :: NVMeController where
  "demo_unmap = demo_ctrl\<lparr>k_oncs := 4, k_ios := (\<lambda>_. zero_io\<lparr>io_Data := 0x500\<rparr>),
     k_scsi := (\<lambda>_. zero_scsi\<lparr>scsi_Data := 0x1000, scsi_Length := 24, scsi_Command := 16, scsi_CmdLength := 10\<rparr>),
     k_mem := mem_put 0x1000 ([0, 22, 0, 16, 0, 0, 0, 0] @ store_be64 77 @ scsi_store_be32 8 @ [0, 0, 0, 0])
       (mem_put 16 [0x42, 0, 0, 0, 0, 0, 0, 0, 24, 0] (\<lambda>_. 0))\<rparr>"

lemma demo_unmap_ok:
  "tables_ok demo_unmap" "ctx_refs_ok demo_unmap" "owners demo_unmap 7 = {}" "\<not> nvme_state_terminal demo_unmap"
  "0 < sib_cap demo_unmap" "k_dma demo_unmap = (\<lambda>_. None)"
proof -
  show "tables_ok demo_unmap"
    by (rule tables_ok_same [OF demo_tables_ok]) (simp_all add: demo_unmap_def get_q_def split: queue_sel.split)
qed (simp_all add: ctx_refs_ok_def owners_def nvme_state_terminal_def sib_cap_def demo_unmap_def demo_ctrl_def zero_ctrl_def)

theorem unmap_translates_witness:
  "\<exists>e s'. scsi_unmap m68k_platform 7 demo_unmap = (e, s') \<and> io_settled 7 demo_unmap e s' \<and>
     (e \<noteq> NVME_IO_ASYNC \<longrightarrow> k_dma s' = (\<lambda>_. None))"
proof -
  obtain e s' where e: "scsi_unmap m68k_platform 7 demo_unmap = (e, s')" by (meson surj_pair)
  show ?thesis
    using unmap_translates [OF demo_unmap_ok(1) m68k_req_slab_ok m68k_dma_pool_ok demo_unmap_ok(2-4) e] e demo_unmap_ok(6)
    by (intro exI [of _ e] exI [of _ s']) (simp split: if_splits)
qed

section \<open>The dispatcher as a whole\<close>

lemma drop_bit_count:
  fixes len count :: u32
  assumes "\<not> drop_bit n len < count"
  shows "unat count * 2 ^ n \<le> unat len"
proof -
  have "unat count \<le> unat len div 2 ^ n" using assms by (simp add: not_less word_le_nat_alt unat_drop_bit)
  then have "unat count * 2 ^ n \<le> unat len div 2 ^ n * 2 ^ n" by simp
  also have "\<dots> \<le> unat len" by simp
  finally show ?thesis .
qed

lemma scsi_transfer_ok:
  assumes ok: "tables_ok s" "req_slab_ok P" "ctx_refs_ok s" "owners s io = {}" "\<not> nvme_state_terminal s" "0 < sib_cap s"
    and e: "scsi_transfer P io s = (e, s')"
  defines "c \<equiv> k_scsi s (io_Data (k_ios s io))" and "U \<equiv> k_units s (io_Unit (k_ios s io))"
    and "count \<equiv> snd (cdb_range (get_scsi (io_Data (k_ios s io)) s))"
  shows "io_settled io s e s' \<and> sub_frame s s' \<and>
    (e = NVME_IO_ASYNC \<longrightarrow> 0 < count \<and> scsi_Data c \<noteq> 0 \<and> unat count * 2 ^ unat (u_blockShift U) \<le> unat (scsi_Length c))"
proof -
  let ?u = "io_Unit (k_ios s io)" and ?a = "io_Data (k_ios s io)"
  let ?opc = "if scsi_Flags c AND SCSIF_READ \<noteq> 0 then nvme_cmd_read else nvme_cmd_write"
  obtain lba where r: "cdb_range (get_scsi ?a s) = (lba, count)" by (cases "cdb_range (get_scsi ?a s)") (auto simp: count_def)
  obtain e1 s1 where d: "nvme_io_submit_rw P ?u io lba count ?opc (scsi_Data c) s = (e1, s1)" by (meson surj_pair)
  note h = submit_rw_dispatch [OF ok d] and f = submit_frames(1) [OF ok(1,2,5), of ?u io lba count ?opc "scsi_Data c", unfolded d snd_conv]
  consider (short) g where "s' = upd_scsi ?a g s" "e \<noteq> NVME_IO_ASYNC"
    | (go) g where "\<not> drop_bit (unat (u_blockShift U)) (scsi_Length c) < count" "e = e1" "s' = upd_scsi ?a g s1"
    using e unfolding scsi_transfer_def Let_def c_def [symmetric] U_def [symmetric] r prod.case d
    by (auto split: if_splits)
  then show ?thesis
  proof cases
    case (short g)
    then show ?thesis using ok by simp
  next
    case (go g)
    have "count \<noteq> 0" if "block_bytes U count \<noteq> 0" using that by (auto simp: block_bytes_def)
    then show ?thesis using go h f handoff_settled drop_bit_count [OF go(1)] by (auto simp: U_def word_neq_0_conv)
  qed
qed

lemma scsi_sync_ok:
  assumes ok: "tables_ok s" "req_slab_ok P" "ctx_refs_ok s" "owners s io = {}" "\<not> nvme_state_terminal s"
    and e: "scsi_sync_cache P io s = (e, s')"
  shows "io_settled io s e s' \<and> sub_frame s s'"
proof -
  obtain e1 s1 where d: "nvme_io_submit_flush P (io_Unit (k_ios s io)) io s = (e1, s1)" by (meson surj_pair)
  have "io_settled io s e1 s1" using handoff_settled [OF submit_flush_handoff [OF ok d]] .
  moreover have "sub_frame s s1" using submit_frames(2) [OF ok(1,2,5), of "io_Unit (k_ios s io)" io] d by simp
  ultimately show ?thesis using e d by (auto simp: scsi_sync_cache_def Let_def split: if_splits)
qed

lemma emulate_not_async: "fst (scsi_emulate opc U s st) \<noteq> NVME_IO_ASYNC"
  by (simp add: scsi_emulate_def scsi_inquiry_def scsi_simps emitted_def)

lemma handle_scsi_dispatch:
  assumes ok: "tables_ok s" "req_slab_ok P" "dma_pool_ok P" "ctx_refs_ok s" "owners s io = {}" "\<not> nvme_state_terminal s" "0 < sib_cap s"
    and e: "handle_scsi_cmd P io s = (e, s')"
  defines "a \<equiv> io_Data (k_ios s io)"
  defines "c \<equiv> k_scsi s a" and "U \<equiv> k_units s (io_Unit (k_ios s io))" and "opc \<equiv> cdb (get_scsi a s) 0"
    and "count \<equiv> snd (cdb_range (get_scsi a s))"
  shows "io_settled io s e s' \<and> sub_frame s s' \<and>
    (e = NVME_IO_ASYNC \<longrightarrow> opc \<in> {0x42, 0x35, 0x08, 0x0A, 0x28, 0x2A, 0x88, 0x8A}) \<and>
    (e = NVME_IO_ASYNC \<and> opc \<in> {0x08, 0x0A, 0x28, 0x2A, 0x88, 0x8A} \<longrightarrow>
       0 < count \<and> scsi_Data c \<noteq> 0 \<and> unat count * 2 ^ unat (u_blockShift U) \<le> unat (scsi_Length c))"
proof -
  define s1 where "s1 = upd_scsi a (\<lambda>(c, m). (c\<lparr>scsi_SenseActual := 0\<rparr>, m)) s"
  have s1: "tables_ok s1" "ctx_refs_ok s1" "owners s1 io = {}" "\<not> nvme_state_terminal s1" "0 < sib_cap s1" "k_ios s1 = k_ios s"
    "k_units s1 = k_units s" "sub_frame s s1" "\<And>e s'. io_settled io s1 e s' = io_settled io s e s'"
    using ok by (simp_all add: s1_def)
  have c1: "k_scsi s1 a = c\<lparr>scsi_SenseActual := 0\<rparr>" "k_mem s1 = k_mem s"
    by (simp_all add: s1_def upd_scsi_def put_scsi_def get_scsi_def c_def split: prod.split)
  have g1: "cdb (get_scsi a s1) i = cdb (get_scsi a s) i" "cdb_range (get_scsi a s1) = cdb_range (get_scsi a s)" for i
    by (simp_all add: cdb_def get_scsi_def c1 cdb_range_def c_def Let_def)
  note un = unmap_dispatch [OF s1(1) ok(2,3) s1(2-4)] and sy = scsi_sync_ok [OF s1(1) ok(2) s1(2-4)]
    and tr = scsi_transfer_ok [OF s1(1) ok(2) s1(2-5)]
  have fin: "io_settled io s e' s2' \<and> sub_frame s s2'" if "io_settled io s1 e' s2 \<and> sub_frame s1 s2" "s2' = s2 \<or> s2' = upd_scsi a f s2" for e' s2 s2' f
    using that s1(8,9) sub_frame_trans by auto
  obtain e0 st0 where em: "scsi_emulate opc U s1 (get_scsi a s1) = (e0, st0)" by (meson surj_pair)
  have na: "e0 \<noteq> NVME_IO_ASYNC" using emulate_not_async [of opc U s1 "get_scsi a s1"] em by simp
  obtain eu su where u: "scsi_unmap P io s1 = (eu, su)" by (meson surj_pair)
  obtain ey sy where y: "scsi_sync_cache P io s1 = (ey, sy)" by (meson surj_pair)
  obtain et st where t: "scsi_transfer P io s1 = (et, st)" by (meson surj_pair)
  consider (early) "s' = s \<or> s' = s1" "e \<in> {IOERR_BADADDRESS, IOERR_BADLENGTH}"
    | (unmap) s2 f where "opc = 0x42" "scsi_unmap P io s1 = (e, s2)" "s' = s2 \<or> s' = upd_scsi a f s2"
    | (sync) s2 f where "opc = 0x35" "scsi_sync_cache P io s1 = (e, s2)" "s' = s2 \<or> s' = upd_scsi a f s2"
    | (rw) s2 f where "opc \<in> {0x08, 0x0A, 0x28, 0x2A, 0x88, 0x8A}" "scsi_transfer P io s1 = (e, s2)" "s' = s2 \<or> s' = upd_scsi a f s2"
    | (local) f g where "s' = upd_scsi a f (upd_scsi a g s1)" "e \<noteq> NVME_IO_ASYNC"
    using e na unfolding handle_scsi_cmd_def Let_def a_def [symmetric] s1_def [symmetric] g1(1) opc_def [symmetric] s1(7)
      U_def [symmetric] em u y t prod.case put_upd_scsi
    by (auto split: if_splits)
  then show ?thesis
  proof cases
    case early
    have "io_settled io s1 e s1" using early(2) s1(1,2) by auto
    then show ?thesis using early ok s1(8,9) by auto
  next
    case unmap
    then show ?thesis using un [OF unmap(2)] fin by (auto simp: unmap(1))
  next
    case sync
    then show ?thesis using sy [OF sync(2)] fin by (auto simp: sync(1))
  next
    case rw
    have "io_settled io s e s' \<and> sub_frame s s'" using tr [OF rw(2)] fin rw(3) by blast
    moreover have "e = NVME_IO_ASYNC \<longrightarrow> 0 < count \<and> scsi_Data c \<noteq> 0 \<and> unat count * 2 ^ unat (u_blockShift U) \<le> unat (scsi_Length c)"
      using tr [OF rw(2)] unfolding s1(6,7) a_def [symmetric] c1 g1 U_def [symmetric] count_def [symmetric] by simp
    ultimately show ?thesis using rw(1) by blast
  next
    case local
    have "io_settled io s1 e s1" using local(2) s1(1,2) by simp
    then show ?thesis using local s1(8,9) by simp
  qed
qed

text \<open>
  C33.  \<open>handle_scsi_cmd\<close> settles its request: an asynchronous answer, which only
  READ, WRITE, UNMAP and SYNCHRONIZE CACHE give, leaves the AmigaOS request with
  exactly one owner that will reply it, and any other answer leaves the requests and
  contexts as they were.  A READ or WRITE is accepted only if the blocks its
  descriptor block asks for fit the client's buffer, whatever the count and without
  wrap-around.
\<close>

theorem scsi_command_settled:
  assumes ok: "tables_ok s" "req_slab_ok P" "dma_pool_ok P" "ctx_refs_ok s" "owners s io = {}" "\<not> nvme_state_terminal s" "0 < sib_cap s"
    and e: "handle_scsi_cmd P io s = (e, s')"
  defines "a \<equiv> io_Data (k_ios s io)"
  defines "c \<equiv> k_scsi s a" and "U \<equiv> k_units s (io_Unit (k_ios s io))" and "opc \<equiv> cdb (get_scsi a s) 0"
    and "count \<equiv> snd (cdb_range (get_scsi a s))"
  shows "io_settled io s e s' \<and>
    (e = NVME_IO_ASYNC \<longrightarrow> opc \<in> {0x42, 0x35, 0x08, 0x0A, 0x28, 0x2A, 0x88, 0x8A}) \<and>
    (e = NVME_IO_ASYNC \<and> opc \<in> {0x08, 0x0A, 0x28, 0x2A, 0x88, 0x8A} \<longrightarrow>
       0 < count \<and> scsi_Data c \<noteq> 0 \<and> unat count * 2 ^ unat (u_blockShift U) \<le> unat (scsi_Length c))"
  using handle_scsi_dispatch [OF ok e] unfolding a_def c_def U_def opc_def count_def by blast

theorem scsi_command_settled_witness:
  "\<exists>e s'. handle_scsi_cmd m68k_platform 7 demo_unmap = (e, s') \<and> io_settled 7 demo_unmap e s'"
proof -
  obtain e s' where e: "handle_scsi_cmd m68k_platform 7 demo_unmap = (e, s')" by (meson surj_pair)
  show ?thesis
    using scsi_command_settled [OF demo_unmap_ok(1) m68k_req_slab_ok m68k_dma_pool_ok demo_unmap_ok(2-5) e] e by blast
qed

end
