(* ===== verification/Nvme_Commands.thy ===== *)
theory Nvme_Commands
  imports Nvme_Scsi
begin

text \<open>
  Command dispatch in the unit task: \<open>ProcessCommand\<close> of src/unit_commands.c and the
  back-pressure loop \<open>nvme_drain_msgport\<close> of src/unit_task.c.
\<close>

section \<open>Command codes\<close>

text \<open>From exec/io.h, devices/trackdisk.h, devices/newstyle.h and include/devices/nvme.h.\<close>

abbreviation (input) CMD_READ :: u16 where "CMD_READ \<equiv> 2"
abbreviation (input) CMD_WRITE :: u16 where "CMD_WRITE \<equiv> 3"
abbreviation (input) CMD_UPDATE :: u16 where "CMD_UPDATE \<equiv> 4"
abbreviation (input) CMD_CLEAR :: u16 where "CMD_CLEAR \<equiv> 5"
abbreviation (input) CMD_STOP :: u16 where "CMD_STOP \<equiv> 6"
abbreviation (input) CMD_START :: u16 where "CMD_START \<equiv> 7"
abbreviation (input) TD_MOTOR :: u16 where "TD_MOTOR \<equiv> 9"
abbreviation (input) TD_FORMAT :: u16 where "TD_FORMAT \<equiv> 11"
abbreviation (input) TD_READ64 :: u16 where "TD_READ64 \<equiv> 24"
abbreviation (input) TD_WRITE64 :: u16 where "TD_WRITE64 \<equiv> 25"
abbreviation (input) TD_FORMAT64 :: u16 where "TD_FORMAT64 \<equiv> 27"
abbreviation (input) HD_SCSICMD :: u16 where "HD_SCSICMD \<equiv> 28"
abbreviation (input) CMD_INTERNAL_ABORT_REQUEST :: u16 where "CMD_INTERNAL_ABORT_REQUEST \<equiv> 0x109"
abbreviation (input) ETD_READ :: u16 where "ETD_READ \<equiv> 0x8002"
abbreviation (input) ETD_WRITE :: u16 where "ETD_WRITE \<equiv> 0x8003"
abbreviation (input) ETD_UPDATE :: u16 where "ETD_UPDATE \<equiv> 0x8004"
abbreviation (input) ETD_FORMAT :: u16 where "ETD_FORMAT \<equiv> 0x800B"
abbreviation (input) NSCMD_TD_READ64 :: u16 where "NSCMD_TD_READ64 \<equiv> 0xC000"
abbreviation (input) NSCMD_TD_WRITE64 :: u16 where "NSCMD_TD_WRITE64 \<equiv> 0xC001"
abbreviation (input) NSCMD_TD_FORMAT64 :: u16 where "NSCMD_TD_FORMAT64 \<equiv> 0xC003"
abbreviation (input) NSCMD_ETD_READ64 :: u16 where "NSCMD_ETD_READ64 \<equiv> 0xE000"
abbreviation (input) NSCMD_ETD_WRITE64 :: u16 where "NSCMD_ETD_WRITE64 \<equiv> 0xE001"
abbreviation (input) NSCMD_ETD_FORMAT64 :: u16 where "NSCMD_ETD_FORMAT64 \<equiv> 0xE003"
abbreviation (input) NSCMD_NVME_TRIM :: u16 where "NSCMD_NVME_TRIM \<equiv> 0x8022"
abbreviation (input) NSCMD_NVME_WRITE_ZEROES :: u16 where "NSCMD_NVME_WRITE_ZEROES \<equiv> 0x8023"

definition read_commands :: "u16 set" where
  "read_commands = {CMD_READ, ETD_READ, TD_READ64, NSCMD_TD_READ64, NSCMD_ETD_READ64}"

definition write_commands :: "u16 set" where
  "write_commands = {CMD_WRITE, ETD_WRITE, TD_WRITE64, NSCMD_TD_WRITE64, NSCMD_ETD_WRITE64,
     TD_FORMAT, ETD_FORMAT, TD_FORMAT64, NSCMD_TD_FORMAT64, NSCMD_ETD_FORMAT64}"

text \<open>The commands whose io_Actual carries the high half of the byte offset.\<close>

definition wide_commands :: "u16 set" where
  "wide_commands = {TD_READ64, TD_WRITE64, TD_FORMAT64, NSCMD_TD_READ64, NSCMD_TD_WRITE64, NSCMD_TD_FORMAT64,
     NSCMD_ETD_READ64, NSCMD_ETD_WRITE64, NSCMD_ETD_FORMAT64, NSCMD_NVME_WRITE_ZEROES}"

section \<open>ProcessCommand\<close>

definition reply_io :: "nat \<Rightarrow> io_error \<Rightarrow> NVMeController \<Rightarrow> NVMeController" where
  "reply_io io error s = emit (Ev_reply io) (upd_io io (\<lambda>x. x\<lparr>io_Error := error\<rparr>) s)"

definition reply_unless_async :: "nat \<Rightarrow> io_error \<times> NVMeController \<Rightarrow> NVMeController" where
  "reply_unless_async io = (\<lambda>(error, s). if error \<noteq> NVME_IO_ASYNC then reply_io io error s else s)"

definition decode_lba :: "u32 \<Rightarrow> u32 \<Rightarrow> u16 \<Rightarrow> u64" where
  "decode_lba io_actual io_offset blockShift =
    (let hi = drop_bit (unat blockShift) io_actual;
         lo = push_bit (32 - unat blockShift) io_actual OR drop_bit (unat blockShift) io_offset
     in push_bit 32 (ucast hi) OR ucast lo)"

definition trim_descs :: "memory \<Rightarrow> u32 \<Rightarrow> nat \<Rightarrow> (u64 \<times> u32) list" where
  "trim_descs m tr nr = map (\<lambda>i. let a = tr + 12 * of_nat i in
     (push_bit 32 (ucast (scsi_load_be32 m a)) OR ucast (scsi_load_be32 m (a + 4)), scsi_load_be32 m (a + 8))) [0..<nr]"

definition process_trim :: "platform \<Rightarrow> nat \<Rightarrow> NVMeController \<Rightarrow> io_error \<times> NVMeController" where
  "process_trim P io s =
    (let x = k_ios s io; u = io_Unit x; tr = io_Data x; nr = (if tr \<noteq> 0 then unat (io_Length x div 12) else 0) in
     if tr = 0 \<or> nr = 0 then (IOERR_BADLENGTH, s)
     else if NVME_DSM_MAX_RANGES < nr then (IOERR_BADLENGTH, s)
     else dsm_submit_ranges P u io (\<lambda>slba blocks. blocks = 0 \<or> past_end (k_units s u) slba blocks)
            (trim_descs (k_mem s) tr nr) s)"

definition process_transfer :: "platform \<Rightarrow> nat \<Rightarrow> u32 \<Rightarrow> NVMeController \<Rightarrow> io_error \<times> NVMeController" where
  "process_transfer P io high_offset s =
    (let x = k_ios s io; u = io_Unit x; shift = u_blockShift (k_units s u) in
     nvme_io_submit_rw P u io (decode_lba high_offset (io_Offset x) (ucast shift))
       (drop_bit (unat shift) (io_Length x)) (if io_Command x \<in> read_commands then nvme_cmd_read else nvme_cmd_write) (io_Data x) s)"

definition process_write_zeroes :: "platform \<Rightarrow> nat \<Rightarrow> u32 \<Rightarrow> NVMeController \<Rightarrow> io_error \<times> NVMeController" where
  "process_write_zeroes P io high_offset s =
    (let x = k_ios s io; u = io_Unit x; shift = u_blockShift (k_units s u) in
     nvme_io_submit_write_zeroes P u io (decode_lba high_offset (io_Offset x) (ucast shift))
       (drop_bit (unat shift) (io_Length x)) s)"

text \<open>The body of an internal abort request; its own message is returned to the metadata pool.\<close>

definition process_abort :: "platform \<Rightarrow> nat \<Rightarrow> NVMeController \<Rightarrow> NVMeController" where
  "process_abort P target s = pool_free 48 (snd (nvme_io_abort P target s))"

definition ProcessCommand :: "platform \<Rightarrow> nat \<Rightarrow> NVMeController \<Rightarrow> NVMeController" where
  "ProcessCommand P io s =
    (let x = k_ios s io; cmd = io_Command x in
     if u_flags (k_units s (io_Unit x)) AND NVME_UNIT_DEAD \<noteq> 0 then reply_io io TDERR_DiskChanged s
     else
       let high_offset = (if cmd \<in> wide_commands then io_Actual x else 0);
           s1 = upd_io io (\<lambda>x. x\<lparr>io_Actual := 0\<rparr>) s
       in if cmd = CMD_START \<or> cmd = CMD_STOP then reply_io io IOERR_NO_ERROR s1
          else if cmd \<in> read_commands \<union> write_commands then reply_unless_async io (process_transfer P io high_offset s1)
          else if cmd = NSCMD_NVME_WRITE_ZEROES then reply_unless_async io (process_write_zeroes P io high_offset s1)
          else if cmd = NSCMD_NVME_TRIM then reply_unless_async io (process_trim P io s1)
          else if cmd = CMD_UPDATE \<or> cmd = ETD_UPDATE then reply_unless_async io (nvme_io_submit_flush P (io_Unit x) io s1)
          else if cmd = HD_SCSICMD then reply_unless_async io (handle_scsi_cmd P io s1)
          else if cmd = CMD_INTERNAL_ABORT_REQUEST then process_abort P (unat (io_Data x)) s1
          else reply_io io IOERR_NOCMD s1)"

text \<open>
  An internal abort request at the port: on a dead unit it is replied like a client's
  request, which its missing reply port turns into a no-op, and never freed.
\<close>

definition process_msg :: "platform \<Rightarrow> port_msg \<Rightarrow> NVMeController \<Rightarrow> NVMeController" where
  "process_msg P msg s = (case msg of
     Io_msg io \<Rightarrow> ProcessCommand P io s
   | Abort_msg u target \<Rightarrow>
       if u_flags (k_units s u) AND NVME_UNIT_DEAD \<noteq> 0 then s else process_abort P target s)"

section \<open>The back-pressure loop\<close>

definition io_room :: "NVMeController \<Rightarrow> bool" where
  "io_room s \<longleftrightarrow> q_inflight_count (k_io_q s) < k_io_max_inflight s"

text \<open>Parked contexts: the first argument bounds the passes by the length of the list.\<close>

fun repump_loop :: "nat \<Rightarrow> platform \<Rightarrow> NVMeController \<Rightarrow> NVMeController" where
  "repump_loop 0 P s = s"
| "repump_loop (Suc n) P s =
    (if \<not> io_room s then s
     else case k_ctx_stalled s of
       [] \<Rightarrow> s
     | c # cs \<Rightarrow>
        (case nvme_io_context_pump P c (upd_ctx c (\<lambda>x. x\<lparr>x_stalled := False\<rparr>) (s\<lparr>k_ctx_stalled := cs\<rparr>)) of (err, s1) \<Rightarrow>
           if x_stalled (cx s1 c) then s1
           else repump_loop n P
             (if err \<noteq> NVME_IO_ASYNC \<and> x_inflight (cx s1 c) = 0 then nvme_io_context_finish c s1 else s1)))"

fun resubmit_loop :: "nat \<Rightarrow> platform \<Rightarrow> NVMeController \<Rightarrow> NVMeController" where
  "resubmit_loop 0 P s = s"
| "resubmit_loop (Suc n) P s =
    (if \<not> io_room s then s
     else case k_io_pending s of
       [] \<Rightarrow> s
     | io # ios \<Rightarrow> resubmit_loop n P (ProcessCommand P io (s\<lparr>k_io_pending := ios\<rparr>)))"

definition take_msg :: "platform \<Rightarrow> port_msg \<Rightarrow> NVMeController \<Rightarrow> NVMeController" where
  "take_msg P msg s = (case msg of
     Io_msg io \<Rightarrow>
       if io_Command (k_ios s io) \<noteq> CMD_INTERNAL_ABORT_REQUEST \<and> (\<not> io_room s \<or> k_io_pending s \<noteq> [])
       then s\<lparr>k_io_pending := k_io_pending s @ [io]\<rparr> else ProcessCommand P io s
   | Abort_msg u target \<Rightarrow> process_msg P msg s)"

fun getmsg_loop :: "nat \<Rightarrow> platform \<Rightarrow> NVMeController \<Rightarrow> NVMeController" where
  "getmsg_loop 0 P s = s"
| "getmsg_loop (Suc n) P s =
    (case k_msgPort s of [] \<Rightarrow> s | msg # msgs \<Rightarrow> getmsg_loop n P (take_msg P msg (s\<lparr>k_msgPort := msgs\<rparr>)))"

definition nvme_drain_msgport :: "platform \<Rightarrow> NVMeController \<Rightarrow> NVMeController" where
  "nvme_drain_msgport P s =
    (if bit (k_flags s) NVME_CTRL_STOPPED \<or> bit (k_flags s) NVME_CTRL_FROZEN then s
     else
       let s1 = nvme_sq_batch_begin Io_q s;
           s2 = repump_loop (length (k_ctx_stalled s1)) P s1;
           s3 = resubmit_loop (length (k_io_pending s2)) P s2;
           s4 = getmsg_loop (length (k_msgPort s3)) P s3
       in nvme_sq_batch_end Io_q s4)"

section \<open>Byte offsets and block addresses\<close>

text \<open>
  The two-word shift of \<open>decode_lba\<close> computes the block address of the 64-bit
  byte offset: the quotient of the offset by the block size.
\<close>

theorem decode_lba_div:
  assumes "0 < unat blockShift" "unat blockShift < 32"
  shows "unat (decode_lba hi lo blockShift) = (unat hi * 2 ^ 32 + unat lo) div 2 ^ unat blockShift"
proof -
  let ?n = "unat blockShift"
  let ?w = "push_bit 32 (ucast hi) OR ucast lo :: u64"
  have "decode_lba hi lo blockShift = drop_bit ?n ?w"
  proof (rule bit_word_eqI)
    fix i
    assume "i < LENGTH(64)"
    then consider "i < 32 - ?n" | "32 - ?n \<le> i" "i < 32" | "32 \<le> i" "i < 64" by fastforce
    then show "bit (decode_lba hi lo blockShift) i = bit (drop_bit ?n ?w) i"
      using assms
      by cases (auto simp: decode_lba_def Let_def bit_simps add.commute dest: bit_imp_le_length)
  qed
  moreover have "unat ?w = unat hi * 2 ^ 32 + unat lo"
  proof -
    have "?w = push_bit 32 (ucast hi) + ucast lo"
      by (rule disjunctive_add_eq_or [symmetric]) (auto simp: bit_eq_iff bit_simps dest: bit_imp_le_length)
    moreover have "unat (push_bit 32 (ucast hi :: u64)) = unat hi * 2 ^ 32"
      using unat_lt_size [of hi] by (subst unat_push_bit) simp_all
    ultimately show ?thesis
      using unat_lt_size [of hi] unat_lt_size [of lo]
      by (simp add: unat_add_no_wrap)
  qed
  ultimately show ?thesis by (simp only: unat_drop_bit)
qed

theorem decode_lba_div_witness: "unat (decode_lba 1 512 9) = (1 * 2 ^ 32 + 512) div 2 ^ 9"
  using decode_lba_div [of 9 1 512] by simp

section \<open>Every request is answered once\<close>

text \<open>
  The request has been replied and has no owner left, or it has not been replied and
  has exactly one owner; other requests are untouched.
\<close>

definition io_answered :: "nat \<Rightarrow> NVMeController \<Rightarrow> NVMeController \<Rightarrow> bool" where
  "io_answered io s s' \<longleftrightarrow> tables_ok s' \<and> ctx_refs_ok s' \<and> (\<forall>io'. io' \<noteq> io \<longrightarrow> owners s' io' = owners s io') \<and>
     (replies s' = replies s @ [io] \<and> owners s' io = {} \<or>
      replies s' = replies s \<and> (\<exists>w. owners s' io = {w} \<and> will_reply s' w))"

text \<open>What dispatch leaves of the state besides the request itself.\<close>

definition cmd_frame :: "NVMeController \<Rightarrow> NVMeController \<Rightarrow> bool" where
  "cmd_frame s s' \<longleftrightarrow> k_units s' = k_units s \<and> k_state s' = k_state s \<and> k_io_max_inflight s' = k_io_max_inflight s \<and>
     k_io_pending s' = k_io_pending s \<and> k_msgPort s' = k_msgPort s \<and> k_adminPort s' = k_adminPort s \<and>
     (\<forall>io. io_Command (k_ios s' io) = io_Command (k_ios s io) \<and> io_Unit (k_ios s' io) = io_Unit (k_ios s io))"

lemma cmd_frame_refl [simp]: "cmd_frame s s"
  by (simp add: cmd_frame_def)

lemma cmd_frame_trans: "cmd_frame s s' \<Longrightarrow> cmd_frame s' s'' \<Longrightarrow> cmd_frame s s''"
  by (simp add: cmd_frame_def)

lemma sub_frame_adminPort: "sub_frame s s' \<Longrightarrow> k_adminPort s' = k_adminPort s"
  unfolding sub_frame_def by (erule ssubst) simp

lemma cmd_frame_sub: "sub_frame s s' \<Longrightarrow> cmd_frame s s'"
  by (simp add: cmd_frame_def sub_frameD sub_frame_adminPort)

lemma upd_io_facts [simp]:
  "k_reqs (upd_io io f s) = k_reqs s" "k_ctxs (upd_io io f s) = k_ctxs s" "get_q (upd_io io f s) sel = get_q s sel"
  "owners (upd_io io f s) io' = owners s io'" "ctx_refs_ok (upd_io io f s) = ctx_refs_ok s" "replies (upd_io io f s) = replies s"
  "nvme_state_terminal (upd_io io f s) = nvme_state_terminal s" "sib_cap (upd_io io f s) = sib_cap s"
  "tables_ok (upd_io io f s) = tables_ok s" "k_ios (upd_io io f s) io = f (k_ios s io)"
  "will_reply (upd_io io f s) w = will_reply s w" "io_settled io' (upd_io io f s) e s' = io_settled io' s e s'"
proof -
  show k: "k_reqs (upd_io io f s) = k_reqs s" "k_ctxs (upd_io io f s) = k_ctxs s" "get_q (upd_io io f s) sel = get_q s sel" for sel
    by (cases sel; simp add: upd_io_def get_q_def)+
  show o: "owners (upd_io io f s) io' = owners s io'" "ctx_refs_ok (upd_io io f s) = ctx_refs_ok s"
    "replies (upd_io io f s) = replies s" "nvme_state_terminal (upd_io io f s) = nvme_state_terminal s"
    "sib_cap (upd_io io f s) = sib_cap s" "k_ios (upd_io io f s) io = f (k_ios s io)" for io'
    by (simp_all add: owners_def ctx_refs_ok_def upd_io_def replies_def nvme_state_terminal_def sib_cap_def)
  show "tables_ok (upd_io io f s) = tables_ok s"
    using tables_ok_same [of s "upd_io io f s"] tables_ok_same [of "upd_io io f s" s] k by auto
  show "will_reply (upd_io io f s) w = will_reply s w"
    by (simp add: will_reply_def in_slot_def ctx_counted_def siblings_def cx_def k upd_io_def split: sum.split)
  show "io_settled io' (upd_io io f s) e s' = io_settled io' s e s'"
    by (simp add: io_settled_def o k)
qed

lemma reply_io_facts [simp]:
  "tables_ok (reply_io io e s) = tables_ok s" "ctx_refs_ok (reply_io io e s) = ctx_refs_ok s"
  "owners (reply_io io e s) io' = owners s io'" "replies (reply_io io e s) = replies s @ [io]"
proof -
  have k: "k_reqs (emit e s) = k_reqs s" "k_ctxs (emit e s) = k_ctxs s" for e s by (simp_all add: emit_def)
  have "tables_ok (emit e s) = tables_ok s" for e s
    using tables_ok_same [of s "emit e s"] tables_ok_same [of "emit e s" s] k by auto
  then show "tables_ok (reply_io io e s) = tables_ok s" by (simp add: reply_io_def)
  show "ctx_refs_ok (reply_io io e s) = ctx_refs_ok s" "owners (reply_io io e s) io' = owners s io'"
    by (simp_all add: reply_io_def ctx_refs_ok_def owners_def k)
  show "replies (reply_io io e s) = replies s @ [io]" by (simp add: reply_io_def)
qed

lemma cmd_frame_step [simp]:
  assumes "cmd_frame s s'"
  shows "cmd_frame s (emit e s')" "cmd_frame s (reply_io io er s')" "cmd_frame s (upd_io io (\<lambda>x. x\<lparr>io_Actual := n\<rparr>) s')"
  using assms by (auto simp: cmd_frame_def emit_def reply_io_def upd_io_def)

lemma settled_answered:
  assumes "io_settled io s e s'" "owners s io = {}"
  shows "io_answered io s (reply_unless_async io (e, s'))"
proof (cases "e = NVME_IO_ASYNC")
  case True
  then show ?thesis using assms by (simp add: io_settled_def io_answered_def reply_unless_async_def)
next
  case False
  then have "owners s' io' = owners s io'" for io' using assms(1) by (simp add: io_settled_def owners_def)
  then show ?thesis using assms False by (simp add: io_settled_def io_answered_def reply_unless_async_def)
qed

lemma frame_reply: "cmd_frame s s' \<Longrightarrow> cmd_frame s (reply_unless_async io (e, s'))"
  by (simp add: reply_unless_async_def)

lemma answered_now: "tables_ok s \<Longrightarrow> ctx_refs_ok s \<Longrightarrow> owners s io = {} \<Longrightarrow> io_answered io s (reply_io io e s)"
  by (simp add: io_answered_def)

lemma process_trim_ok:
  assumes ok: "tables_ok s" "req_slab_ok P" "dma_pool_ok P" "ctx_refs_ok s" "owners s io = {}" "\<not> nvme_state_terminal s"
    and e: "process_trim P io s = (e, s')"
  shows "io_settled io s e s' \<and> sub_frame s s'"
proof (cases "e \<noteq> NVME_IO_ASYNC \<and> s' = s")
  case True
  then show ?thesis using ok by simp
next
  case False
  let ?x = "k_ios s io"
  let ?nr = "unat (io_Length ?x div 12)"
  have d: "dsm_submit_ranges P (io_Unit ?x) io (\<lambda>slba blocks. blocks = 0 \<or> past_end (k_units s (io_Unit ?x)) slba blocks)
      (trim_descs (k_mem s) (io_Data ?x) ?nr) s = (e, s')" and n: "?nr \<le> 256"
    using e False unfolding process_trim_def Let_def by (auto simp: not_less split: if_splits)
  have "length (trim_descs (k_mem s) (io_Data ?x) ?nr) < 2 ^ 16" using n by (simp add: trim_descs_def)
  then show ?thesis using dsm_submit_ranges_ok [OF ok d] handoff_settled by blast
qed

lemma process_command_answers:
  assumes ok: "tables_ok s" "req_slab_ok P" "dma_pool_ok P" "ctx_refs_ok s" "owners s io = {}" "\<not> nvme_state_terminal s" "0 < sib_cap s"
    and cmd: "io_Command (k_ios s io) \<noteq> CMD_INTERNAL_ABORT_REQUEST"
  shows "io_answered io s (ProcessCommand P io s) \<and> cmd_frame s (ProcessCommand P io s)"
proof -
  define s1 where "s1 = upd_io io (\<lambda>x. x\<lparr>io_Actual := 0\<rparr>) s"
  have ok1: "tables_ok s1" "ctx_refs_ok s1" "owners s1 io = {}" "\<not> nvme_state_terminal s1" "0 < sib_cap s1"
    using ok by (simp_all add: s1_def)
  have f1: "cmd_frame s s1" by (simp add: s1_def)
  have same: "io_answered io s1 t = io_answered io s t" for t by (simp add: io_answered_def s1_def)
  have async: "io_answered io s (reply_unless_async io r) \<and> cmd_frame s (reply_unless_async io r)"
    if "\<And>e s'. r = (e, s') \<Longrightarrow> io_settled io s1 e s' \<and> sub_frame s1 s'" for r
  proof -
    obtain e s' where r: "r = (e, s')" by (cases r)
    then have "io_settled io s1 e s'" "cmd_frame s1 s'" using that cmd_frame_sub by auto
    then show ?thesis
      using settled_answered [OF _ ok1(3)] frame_reply [OF cmd_frame_trans [OF f1]] unfolding r same by blast
  qed
  have now: "io_answered io s (reply_io io e s1) \<and> cmd_frame s (reply_io io e s1)" for e
    using answered_now [OF ok1(1-3), of e] f1 unfolding same by simp
  have rw: "io_settled io s1 e s' \<and> sub_frame s1 s'" if "process_transfer P io h s1 = (e, s')" for h e s'
    using that unfolding process_transfer_def Let_def
    using submit_rw_dispatch [OF ok1(1) ok(2) ok1(2-5)] submit_frames(1) [OF ok1(1) ok(2) ok1(4)] handoff_settled
    by (metis snd_conv)
  have wz: "io_settled io s1 e s' \<and> sub_frame s1 s'" if "process_write_zeroes P io h s1 = (e, s')" for h e s'
    using that unfolding process_write_zeroes_def Let_def
    using submit_wz_dispatch [OF ok1(1) ok(2,3) ok1(2-5)] submit_wz_frame [OF ok1(1) ok(2) ok1(4)] handoff_settled
    by (metis snd_conv)
  have fl: "io_settled io s1 e s' \<and> sub_frame s1 s'" if "nvme_io_submit_flush P u io s1 = (e, s')" for u e s'
    using submit_flush_handoff [OF ok1(1) ok(2) ok1(2-4) that] submit_frames(2) [OF ok1(1) ok(2) ok1(4), of u io] that handoff_settled
    by (metis snd_conv)
  have tr: "io_settled io s1 e s' \<and> sub_frame s1 s'" if "process_trim P io s1 = (e, s')" for e s'
    using process_trim_ok [OF ok1(1) ok(2,3) ok1(2-4) that] .
  have sc: "io_settled io s1 e s' \<and> sub_frame s1 s'" if "handle_scsi_cmd P io s1 = (e, s')" for e s'
    using handle_scsi_dispatch [OF ok1(1) ok(2,3) ok1(2-5) that] by blast
  show ?thesis
  proof (cases "u_flags (k_units s (io_Unit (k_ios s io))) AND NVME_UNIT_DEAD \<noteq> 0")
    case True
    then show ?thesis using answered_now [OF ok(1,4,5)] by (simp add: ProcessCommand_def Let_def)
  next
    case False
    show ?thesis
      using False cmd unfolding ProcessCommand_def Let_def s1_def [symmetric]
      by (simp add: now async [OF rw] async [OF wz] async [OF tr] async [OF fl] async [OF sc])
  qed
qed

text \<open>
  C32.  \<open>ProcessCommand\<close> never loses a request and never answers one twice.  Of a
  request that nobody owns yet, and whose command is not the driver's internal one,
  it either sends exactly one reply and keeps no owner, or sends none and leaves
  exactly one owner, in flight or on the stalled list, that will reply it; the owners of
  all other requests are as before, and so is the queue of waiting requests.
\<close>

theorem process_command_once:
  assumes "tables_ok s" "req_slab_ok P" "dma_pool_ok P" "ctx_refs_ok s" "owners s io = {}" "\<not> nvme_state_terminal s" "0 < sib_cap s"
    and "io_Command (k_ios s io) \<noteq> CMD_INTERNAL_ABORT_REQUEST"
  shows "io_answered io s (ProcessCommand P io s) \<and> k_io_pending (ProcessCommand P io s) = k_io_pending s \<and>
    k_msgPort (ProcessCommand P io s) = k_msgPort s"
  using process_command_answers [OF assms] by (simp add: cmd_frame_def)

theorem process_command_once_witness:
  "let s = demo_unmap\<lparr>k_ios := (\<lambda>_. zero_io\<lparr>io_Command := HD_SCSICMD, io_Data := 0x500\<rparr>)\<rparr> in
   io_answered 7 s (ProcessCommand m68k_platform 7 s)"
proof -
  let ?s = "demo_unmap\<lparr>k_ios := (\<lambda>_. zero_io\<lparr>io_Command := HD_SCSICMD, io_Data := 0x500\<rparr>)\<rparr>"
  have "tables_ok ?s" by (rule tables_ok_same [OF demo_unmap_ok(1)]) simp_all
  moreover have "ctx_refs_ok ?s" "owners ?s 7 = {}" "\<not> nvme_state_terminal ?s" "0 < sib_cap ?s"
    using demo_unmap_ok by (simp_all add: ctx_refs_ok_def owners_def nvme_state_terminal_def sib_cap_def split: if_splits)
  ultimately show ?thesis
    using process_command_once [OF _ m68k_req_slab_ok m68k_dma_pool_ok, of ?s 7] by (simp add: Let_def)
qed

end
