(* ===== verification/Nvme_Backpressure.thy ===== *)
theory Nvme_Backpressure
  imports Nvme_Commands
begin

text \<open>
  What the back-pressure loop of src/unit_task.c promises to the clients: a pass of
  \<open>nvme_drain_msgport\<close> loses no request and answers none twice, and dispatches the
  waiting requests in the order in which they arrived.
\<close>

section \<open>Conservation of requests\<close>

definition msg_io :: "port_msg \<Rightarrow> nat option" where
  "msg_io msg = (case msg of Io_msg io \<Rightarrow> Some io | Abort_msg u target \<Rightarrow> None)"

text \<open>The client requests that wait for dispatch, in order: stashed ones before new messages.\<close>

definition waiting :: "NVMeController \<Rightarrow> nat list" where
  "waiting s = k_io_pending s @ List.map_filter msg_io (k_msgPort s)"

text \<open>In how many places a request is: waiting, owned, or replied.\<close>

definition places :: "NVMeController \<Rightarrow> nat \<Rightarrow> nat" where
  "places s io = count_list (waiting s) io + card (owners s io) + count_list (replies s) io"

definition dispatch_ok :: "NVMeController \<Rightarrow> bool" where
  "dispatch_ok s \<longleftrightarrow> tables_ok s \<and> ctx_refs_ok s \<and> \<not> nvme_state_terminal s \<and> 0 < sib_cap s \<and>
     (\<forall>io. finite (owners s io)) \<and> distinct (waiting s) \<and>
     (\<forall>io \<in> set (waiting s). owners s io = {} \<and> io_Command (k_ios s io) \<noteq> CMD_INTERNAL_ABORT_REQUEST)"

text \<open>A run of the loops: nothing is lost, what leaves the waiting line leaves it at the front, and the port of the admin task is left alone.\<close>

definition conserves :: "NVMeController \<Rightarrow> NVMeController \<Rightarrow> bool" where
  "conserves s s' \<longleftrightarrow> dispatch_ok s' \<and> (\<forall>io. places s' io = places s io) \<and> (\<exists>k. waiting s' = drop k (waiting s)) \<and>
     k_adminPort s' = k_adminPort s"

lemma conserves_refl: "dispatch_ok s \<Longrightarrow> conserves s s"
  unfolding conserves_def by (metis drop0)

lemma conserves_trans: "conserves s s' \<Longrightarrow> conserves s' s'' \<Longrightarrow> conserves s s''"
  unfolding conserves_def by (metis drop_drop)

text \<open>Steps that touch neither the line nor any owner.\<close>

lemma conserves_same:
  assumes "dispatch_ok s" "tables_ok s'" "ctx_refs_ok s'" "\<And>io. owners s' io = owners s io" "replies s' = replies s"
    and "waiting s' = waiting s" "k_state s' = k_state s" "k_io_max_inflight s' = k_io_max_inflight s"
    and "\<And>io. io_Command (k_ios s' io) = io_Command (k_ios s io)" "k_adminPort s' = k_adminPort s"
  shows "conserves s s'"
proof -
  have c: "nvme_state_terminal s' = nvme_state_terminal s" "sib_cap s' = sib_cap s"
    using assms(7,8) by (simp_all add: nvme_state_terminal_def sib_cap_def)
  have "dispatch_ok s'" using assms unfolding dispatch_ok_def c by simp
  moreover have "waiting s' = drop 0 (waiting s)" using assms(6) by simp
  ultimately show ?thesis unfolding conserves_def places_def by (metis assms(4-6,10))
qed

lemma batch_conserves:
  assumes "dispatch_ok s"
  shows "conserves s (nvme_sq_batch_begin Io_q s)" "conserves s (nvme_sq_batch_end Io_q s)"
proof -
  have f: "io_frame s (nvme_sq_batch_begin Io_q s)" "io_frame s (nvme_sq_batch_end Io_q s)" by simp_all
  have k: "k_reqs (nvme_sq_batch_begin Io_q s) = k_reqs s" "k_reqs (nvme_sq_batch_end Io_q s) = k_reqs s"
    "replies (nvme_sq_batch_begin Io_q s) = replies s" "replies (nvme_sq_batch_end Io_q s) = replies s"
    by (simp_all add: nvme_sq_batch_begin_def nvme_sq_batch_end_def Let_def)
  have t: "tables_ok (nvme_sq_batch_begin Io_q s)" "tables_ok (nvme_sq_batch_end Io_q s)"
    using assms batch_begin_ok batch_end_ok by (simp_all add: dispatch_ok_def)
  show "conserves s (nvme_sq_batch_begin Io_q s)" "conserves s (nvme_sq_batch_end Io_q s)"
    using io_frameD [OF f(1)] io_frameD [OF f(2)] k t assms
    by (auto intro!: conserves_same simp: owners_def ctx_refs_ok_def waiting_def dispatch_ok_def)
qed

text \<open>Dispatch of the request at the front of the line.\<close>

lemma process_front:
  assumes ok: "dispatch_ok s" "req_slab_ok P" "dma_pool_ok P" and w: "waiting s = io # ws"
    and s0: "s0 = s\<lparr>k_io_pending := pend, k_msgPort := msgs\<rparr>" "waiting s0 = ws"
  shows "conserves s (ProcessCommand P io s0) \<and> k_io_pending (ProcessCommand P io s0) = pend \<and>
    k_msgPort (ProcessCommand P io s0) = msgs"
proof -
  let ?s = "ProcessCommand P io s0"
  have r0: "tables_ok s0" by (rule tables_ok_same [of s]) (use ok in \<open>simp_all add: s0 dispatch_ok_def\<close>)
  have o0: "owners s0 io' = owners s io'" "replies s0 = replies s" for io' by (simp_all add: s0 owners_def replies_def)
  have "ctx_refs_ok s0" "owners s0 io = {}" "\<not> nvme_state_terminal s0" "0 < sib_cap s0"
      "io_Command (k_ios s0 io) \<noteq> CMD_INTERNAL_ABORT_REQUEST"
    using ok(1) w o0 by (auto simp: dispatch_ok_def s0(1) ctx_refs_ok_def nvme_state_terminal_def sib_cap_def)
  then have a: "io_answered io s0 ?s" and f: "cmd_frame s0 ?s" using process_command_answers [OF r0 ok(2,3)] by blast+
  have ws: "waiting ?s = ws" using f s0(2) by (simp add: cmd_frame_def waiting_def)
  have nin: "io \<notin> set ws" "distinct ws" using ok(1) w by (auto simp: dispatch_ok_def)
  have own: "owners ?s io' = owners s io'" if "io' \<noteq> io" for io' using a that o0 by (simp add: io_answered_def)
  have fin: "finite (owners ?s io')" for io'
  proof (cases "io' = io")
    case True
    then show ?thesis using a by (auto simp: io_answered_def)
  next
    case False
    then show ?thesis using own [OF False] ok(1) by (simp add: dispatch_ok_def)
  qed
  have "places ?s io' = places s io'" for io'
  proof (cases "io' = io")
    case True
    have "count_list ws io = 0" "owners s io = {}" using nin ok(1) w by (auto simp: count_list_0_iff dispatch_ok_def)
    then show ?thesis using a o0 w ws True by (auto simp: places_def io_answered_def)
  next
    case False
    then show ?thesis using a o0 own w ws by (auto simp: places_def io_answered_def)
  qed
  moreover have "dispatch_ok ?s"
  proof -
    have c: "nvme_state_terminal ?s = nvme_state_terminal s" "sib_cap ?s = sib_cap s"
      using f by (simp_all add: cmd_frame_def nvme_state_terminal_def sib_cap_def s0(1))
    have "owners ?s io' = {} \<and> io_Command (k_ios ?s io') \<noteq> CMD_INTERNAL_ABORT_REQUEST" if "io' \<in> set ws" for io'
    proof -
      have "io' \<noteq> io" using nin that by auto
      then show ?thesis using own ok(1) w that f by (simp add: dispatch_ok_def cmd_frame_def s0(1))
    qed
    then show ?thesis using ok(1) a fin ws nin unfolding dispatch_ok_def c by (simp add: io_answered_def)
  qed
  moreover have "waiting ?s = drop 1 (waiting s)" using w ws by simp
  ultimately show ?thesis using f unfolding conserves_def by (auto simp: cmd_frame_def s0(1))
qed

section \<open>An internal abort\<close>

lemma replies_async [simp]: "replies (snd (nvme_submit_async_cmd P cmd b n d priv fl s)) = replies s"
proof -
  obtain v s1 where a: "req_alloc P Admin_q id s = (v, s1)" by (meson surj_pair)
  have r: "replies s1 = replies s" using replies_req_alloc [of P Admin_q id s] a by simp
  have st: "replies (nvme_stage_admin_prps P r b n s) = replies s" for r s
    by (simp add: nvme_stage_admin_prps_def Let_def)
  show ?thesis
    by (cases v) (auto simp: nvme_submit_async_cmd_def nvme_req_alloc_admin_def a r st Let_def split_def
      split: alloc_failure.split)
qed

lemma async_conserves:
  assumes "dispatch_ok s" "req_slab_ok P"
  shows "conserves s (snd (nvme_submit_async_cmd P cmd b n d priv fl s))"
proof -
  obtain e s' where e: "nvme_submit_async_cmd P cmd b n d priv fl s = (e, s')" by (meson surj_pair)
  have ok: "tables_ok s" "ctx_refs_ok s" using assms(1) by (simp_all add: dispatch_ok_def)
  note c = submit_async_cases [OF ok(1) assms(2) e]
  have "io_frame s s'" using io_frame_async [OF io_frame_refl, of s P cmd b n d priv fl] e by simp
  note f = io_frameD [OF this]
  have "k_reqs s' = k_reqs s \<or> (\<exists>r q. k_reqs s r = None \<and> k_reqs s' = (k_reqs s)(r := Some q) \<and> r_io q = None \<and> r_ctx q = None)"
    using c(2,3) by (cases e) (auto simp: async_req_def)
  then have reqs: "(\<exists>q. k_reqs s' r = Some q \<and> r_io q = Some io) \<longleftrightarrow> (\<exists>q. k_reqs s r = Some q \<and> r_io q = Some io)"
      "(\<exists>q. k_reqs s' r = Some q \<and> r_ctx q = Some x) \<longleftrightarrow> (\<exists>q. k_reqs s r = Some q \<and> r_ctx q = Some x)" for r io x
    by (auto split: if_splits)
  have "\<And>r x. \<exists>q. k_reqs s r = Some q \<and> r_ctx q = Some x \<Longrightarrow> k_ctxs s x \<noteq> None" using ok(2) by (auto simp: ctx_refs_ok_def)
  then have k: "owners s' io = owners s io" "ctx_refs_ok s'" for io
    unfolding owners_def ctx_refs_ok_def reqs f(1) using reqs(2) by blast+
  have "replies s' = replies s" using replies_async [of P cmd b n d priv fl s] e by simp
  then show ?thesis unfolding e snd_conv
    by (intro conserves_same [OF assms(1) c(1) k(2,1)]) (simp_all add: f waiting_def)
qed

lemma conserves_ok: "conserves s s' \<Longrightarrow> dispatch_ok s'"
  by (simp add: conserves_def)

lemma destroy_queues:
  assumes "r_q (rq s r) \<noteq> sel"
  shows "get_q (nvme_req_destroy r s) sel = get_q s sel"
proof -
  have "get_q (nvme_req_free_dma_buffers r t) sel = get_q t sel" for t
    by (simp add: nvme_req_free_dma_buffers_def Let_def free_prp_pages_def fold_dma_free split: option.split)
  then show ?thesis using assms by (simp add: nvme_req_destroy_def Let_def get_q_upd_other)
qed

lemma async_io_q:
  assumes ok: "tables_ok s" "req_slab_ok P" and a: "nvme_submit_async_cmd P cmd b n d priv fl s = (e, s')"
  shows "k_io_q s' = k_io_q s"
proof -
  obtain v s1 where v: "nvme_req_alloc_admin P s = (v, s1)" by (meson surj_pair)
  have "get_q s' Io_q = get_q s Io_q"
  proof (cases v)
    case (Inl err)
    then show ?thesis using alloc_admin_ok(1) [OF ok v] a v by (auto simp: nvme_submit_async_cmd_def)
  next
    case (Inr r)
    note al = alloc_admin_ok(2) [OF ok v Inr]
    define s5 where "s5 = nvme_stage_admin_prps P r b n (upd_req r (\<lambda>q. q\<lparr>r_flags := r_flags q OR fl\<rparr>)
      (upd_req r (\<lambda>q. stamp_cid (nvme_init_request cmd q)) (upd_req r (\<lambda>q. q\<lparr>r_done := Some d, r_priv := priv\<rparr>) s1)))"
    have f: "req_frame r s1 s5"
      unfolding s5_def
      by (intro req_frame_stage req_frame_upd req_frame_refl) (simp_all add: stamp_cid_def nvme_init_request_def)
    have s': "s' = snd (nvme_submit_io r s5)"
      using a Inr v by (simp add: nvme_submit_async_cmd_def Let_def split_def s5_def)
    have rq5: "r_q (rq s5 r) = Admin_q" using f al by (auto simp: req_frame_def rq_def)
    have q5: "get_q s5 Io_q = get_q s Io_q" using f al by (simp add: req_frame_def)
    show ?thesis
    proof (cases "fst (nvme_submit_io r s5) = NVME_IO_ASYNC")
      case True
      then have "nvme_submit_io r s5 = (NVME_IO_ASYNC, s')" by (simp add: s' prod_eq_iff)
      then show ?thesis by (rule submit_io_Async) (simp add: rq5 q5)
    next
      case False
      then have "s' = nvme_req_destroy r s5" using submit_io_cases [of r s5] by (auto simp: s')
      then show ?thesis using destroy_queues [of s5 r Io_q] rq5 q5 by simp
    qed
  qed
  then show ?thesis by (simp add: get_q_def)
qed

text \<open>What an abort leaves of the line and of the I/O queue.\<close>

definition line_kept :: "NVMeController \<Rightarrow> NVMeController \<Rightarrow> bool" where
  "line_kept s s' \<longleftrightarrow> k_io_pending s' = k_io_pending s \<and> k_msgPort s' = k_msgPort s \<and>
     k_io_max_inflight s' = k_io_max_inflight s \<and> k_io_q s' = k_io_q s"

lemma async_line:
  assumes "tables_ok s" "req_slab_ok P" "nvme_submit_async_cmd P cmd b n d priv fl s = (e, s')"
  shows "line_kept s s'"
  using io_frameD [OF io_frame_async [OF io_frame_refl, of s P cmd b n d priv fl]] async_io_q [OF assms] assms(3)
  by (simp add: line_kept_def)

lemma abort_loop_conserves:
  assumes "dispatch_ok s" "req_slab_ok P" "abort_loop P target tags (n, s) = (m, s')"
  shows "conserves s s' \<and> line_kept s s'"
  using assms
proof (induction tags arbitrary: n s)
  case Nil
  then show ?case by (simp add: conserves_refl line_kept_def)
next
  case (Cons tag tags)
  show ?case
  proof (cases "\<exists>r. slot (get_q s Io_q) tag = Some r \<and> abort_match s target (rq s r)")
    case False
    then show ?thesis using Cons by (auto split: option.splits if_splits)
  next
    case True
    then obtain r where r: "slot (get_q s Io_q) tag = Some r" "abort_match s target (rq s r)" by blast
    obtain e s1 where e: "nvme_abort_request P r s = (e, s1)" by (meson surj_pair)
    then have c: "conserves s s1"
      using async_conserves [OF Cons.prems(1,2)] by (metis nvme_abort_request_def nvme_submit_abort_sqe_def snd_conv)
    have l: "line_kept s s1"
      using async_line [OF _ Cons.prems(2)] Cons.prems(1) e
      by (simp add: nvme_abort_request_def nvme_submit_abort_sqe_def dispatch_ok_def)
    obtain n' where "abort_loop P target tags (n', s1) = (m, s')" using Cons.prems(3) r e by (cases e) auto
    then show ?thesis using Cons.IH [OF conserves_ok [OF c] Cons.prems(2)] conserves_trans [OF c] l by (simp add: line_kept_def)
  qed
qed

lemma abort_conserves:
  assumes "dispatch_ok s" "req_slab_ok P"
  shows "conserves s (process_abort P target s) \<and> line_kept s (process_abort P target s)"
proof -
  obtain b s1 where b: "nvme_io_abort P target s = (b, s1)" by (meson surj_pair)
  have c: "conserves s s1" "line_kept s s1"
  proof -
    have "s1 = s \<or> (\<exists>m. abort_loop P target [0..<q_depth (get_q s Io_q)] (0, s) = (m, s1))"
      using b by (auto simp: nvme_io_abort_def split: if_splits prod.splits)
    moreover have "line_kept s s" by (simp add: line_kept_def)
    ultimately show "conserves s s1" "line_kept s s1"
      using abort_loop_conserves [OF assms] conserves_refl [OF assms(1)] by blast+
  qed
  have k: "k_reqs (pool_free 48 s1) = k_reqs s1" "k_ctxs (pool_free 48 s1) = k_ctxs s1" "get_q (pool_free 48 s1) sel = get_q s1 sel"
    "replies (pool_free 48 s1) = replies s1" "waiting (pool_free 48 s1) = waiting s1" for sel
    by (cases sel; simp add: pool_free_def get_q_def replies_def waiting_def)+
  have "tables_ok (pool_free 48 s1)"
    using conserves_ok [OF c(1)] by - (rule tables_ok_same [of s1], simp_all add: k dispatch_ok_def)
  then have "conserves s1 (pool_free 48 s1)"
    using conserves_ok [OF c(1)] k(4,5)
    by (intro conserves_same) (simp_all add: owners_def ctx_refs_ok_def k dispatch_ok_def, simp_all add: pool_free_def)
  then show ?thesis using conserves_trans [OF c(1)] c(2) by (simp add: process_abort_def b pool_free_def line_kept_def)
qed

section \<open>The two dispatch loops\<close>

lemma resubmit_conserves:
  assumes "dispatch_ok s" "req_slab_ok P" "dma_pool_ok P"
  shows "conserves s (resubmit_loop n P s) \<and> k_msgPort (resubmit_loop n P s) = k_msgPort s"
  using assms
proof (induction n arbitrary: s)
  case 0
  then show ?case by (simp add: conserves_refl)
next
  case (Suc n)
  show ?case
  proof (cases "\<not> io_room s \<or> k_io_pending s = []")
    case True
    then show ?thesis using Suc.prems by (auto simp: conserves_refl)
  next
    case False
    then obtain io ios where p: "io_room s" "k_io_pending s = io # ios" by (cases "k_io_pending s") auto
    let ?s = "ProcessCommand P io (s\<lparr>k_io_pending := ios\<rparr>)"
    have "conserves s ?s \<and> k_io_pending ?s = ios \<and> k_msgPort ?s = k_msgPort s"
      by (rule process_front [OF Suc.prems, of io "ios @ List.map_filter msg_io (k_msgPort s)"])
        (simp_all add: waiting_def p)
    then have c: "conserves s ?s" "k_msgPort ?s = k_msgPort s" by blast+
    have "conserves ?s (resubmit_loop n P ?s) \<and> k_msgPort (resubmit_loop n P ?s) = k_msgPort ?s"
      by (rule Suc.IH [OF conserves_ok [OF c(1)] Suc.prems(2,3)])
    then show ?thesis using conserves_trans [OF c(1)] c(2) p by simp
  qed
qed

lemma take_msg_conserves:
  assumes ok: "dispatch_ok s" "req_slab_ok P" "dma_pool_ok P" and m: "k_msgPort s = msg # msgs"
  shows "conserves s (take_msg P msg (s\<lparr>k_msgPort := msgs\<rparr>)) \<and> k_msgPort (take_msg P msg (s\<lparr>k_msgPort := msgs\<rparr>)) = msgs"
proof -
  let ?s0 = "s\<lparr>k_msgPort := msgs\<rparr>"
  have t0: "tables_ok s0" if "s0 = s\<lparr>k_msgPort := msgs, k_io_pending := p\<rparr>" for s0 p
    using ok(1) by - (rule tables_ok_same [of s], simp_all add: that dispatch_ok_def)
  have line: "conserves s s0" if "s0 = s\<lparr>k_msgPort := msgs, k_io_pending := p\<rparr>" "waiting s0 = waiting s" for s0 p
    using t0 [OF that(1)] ok(1) that(2)
    by (intro conserves_same [OF ok(1)]) (simp_all add: that(1) owners_def ctx_refs_ok_def replies_def dispatch_ok_def)
  show ?thesis
  proof (cases msg)
    case (Io_msg io)
    have cmd: "io_Command (k_ios s io) \<noteq> CMD_INTERNAL_ABORT_REQUEST"
      using ok(1) m Io_msg by (simp add: dispatch_ok_def waiting_def msg_io_def map_filter_simps)
    show ?thesis
    proof (cases "\<not> io_room ?s0 \<or> k_io_pending s \<noteq> []")
      case True
      then have "take_msg P msg ?s0 = s\<lparr>k_msgPort := msgs, k_io_pending := k_io_pending s @ [io]\<rparr>"
        using cmd Io_msg by (simp add: take_msg_def)
      then show ?thesis using line [OF refl, of "k_io_pending s @ [io]"] m Io_msg
        by (simp add: waiting_def msg_io_def map_filter_simps)
    next
      case False
      then have t: "take_msg P msg ?s0 = ProcessCommand P io ?s0" using cmd Io_msg by (simp add: take_msg_def)
      have "conserves s (ProcessCommand P io ?s0) \<and> k_io_pending (ProcessCommand P io ?s0) = [] \<and> k_msgPort (ProcessCommand P io ?s0) = msgs"
        using False by (intro process_front [OF ok, of io "List.map_filter msg_io msgs"])
          (simp_all add: waiting_def msg_io_def m Io_msg map_filter_simps)
      then show ?thesis unfolding t by simp
    qed
  next
    case (Abort_msg u target)
    have c: "conserves s ?s0" using line [of ?s0 "k_io_pending s"] m Abort_msg
      by (simp add: waiting_def msg_io_def map_filter_simps)
    show ?thesis
      using c conserves_trans [OF c] abort_conserves [OF conserves_ok [OF c] ok(2), of target] Abort_msg
      by (simp add: take_msg_def process_msg_def line_kept_def)
  qed
qed

lemma getmsg_conserves:
  assumes "dispatch_ok s" "req_slab_ok P" "dma_pool_ok P" "n = length (k_msgPort s)"
  shows "conserves s (getmsg_loop n P s) \<and> k_msgPort (getmsg_loop n P s) = []"
  using assms
proof (induction n arbitrary: s)
  case 0
  then show ?case by (simp add: conserves_refl)
next
  case (Suc n)
  then obtain msg msgs where m: "k_msgPort s = msg # msgs" by (cases "k_msgPort s") auto
  note c = take_msg_conserves [OF Suc.prems(1-3) m]
  let ?s = "take_msg P msg (s\<lparr>k_msgPort := msgs\<rparr>)"
  have "conserves ?s (getmsg_loop n P ?s) \<and> k_msgPort (getmsg_loop n P ?s) = []"
    using c Suc.prems(4) m by (intro Suc.IH [OF conserves_ok Suc.prems(2,3)]) auto
  then show ?case using conserves_trans [OF conjunct1 [OF c]] m by simp
qed

section \<open>Parked contexts\<close>

text \<open>Every context on the stalled list is live, once, with exact books.\<close>

definition ctx_books :: "NVMeController \<Rightarrow> nat \<Rightarrow> bool" where
  "ctx_books s c \<longleftrightarrow> k_ctxs s c \<noteq> None \<and> ctx_counted s c \<and> x_dispatched (cx s c) \<le> x_total_bytes (cx s c)"

definition stalled_ok :: "NVMeController \<Rightarrow> bool" where
  "stalled_ok s \<longleftrightarrow> distinct (k_ctx_stalled s) \<and> (\<forall>c \<in> set (k_ctx_stalled s). ctx_books s c)"

definition parks :: "nat \<Rightarrow> NVMeController \<Rightarrow> NVMeController \<Rightarrow> bool" where
  "parks c s s' \<longleftrightarrow> x_stalled (cx s' c) = x_stalled (cx s c) \<and> k_ctx_stalled s' = k_ctx_stalled s \<or>
     x_stalled (cx s' c) \<and> k_ctx_stalled s' = k_ctx_stalled s @ [c]"

lemma stop_parks:
  assumes "pump_once P c s = Pump_stop e s'"
  shows "parks c s s'"
proof -
  obtain res s1 where a: "nvme_req_alloc_io P (x_unit (cx s c)) None s = (res, s1)" by (meson surj_pair)
  have f1: "io_frame s s1" using io_frame_alloc_io [of s s P "x_unit (cx s c)" None] a by simp
  show ?thesis
  proof (cases res)
    case (Inl err)
    then show ?thesis using assms a io_frame_cx [OF f1] io_frameD [OF f1]
      by (auto simp: pump_once_alt parks_def split: if_splits)
  next
    case (Inr r)
    obtain serr s3 where e3: "alloc_setup P c r s s1 = (serr, s3)" by (meson surj_pair)
    have "io_frame s (snd (alloc_setup P c r s s1))" using f1 by (simp add: alloc_setup_def Let_def)
    then have f3: "io_frame s s3" using e3 by simp
    let ?s4 = "upd_ctx c (\<lambda>x. x\<lparr>x_dispatched := x_dispatched x + next_bytes s (cx s c),
                x_inflight := x_inflight x + 1\<rparr>) s3"
    obtain suberr s5 where sub: "nvme_submit_io r ?s4 = (suberr, s5)" by (meson surj_pair)
    have "io_frame ?s4 s5" using io_frame_submit [OF io_frame_refl, of ?s4 r] unfolding sub by simp
    then have f5: "x_stalled (cx s5 c) = x_stalled (cx s c)" "k_ctx_stalled s5 = k_ctx_stalled s"
      using io_frame_cx [of ?s4 s5 c] io_frameD [of ?s4 s5] io_frame_cx [OF f3, of c] io_frameD [OF f3] by simp_all
    have "io_frame s (nvme_req_destroy r s3)" using io_frame_destroy [OF f3] .
    then have fd: "cx (nvme_req_destroy r s3) c = cx s c" "k_ctx_stalled (nvme_req_destroy r s3) = k_ctx_stalled s"
      using io_frame_cx io_frameD by auto
    show ?thesis
      using assms f5 fd unfolding pump_once_alt a prod.case Inr sum.case e3 sub Let_def parks_def by (auto split: if_splits)
  qed
qed

lemma pump_parks: "parks c s (snd (nvme_io_context_pump P c s))"
proof (induction P c s rule: nvme_io_context_pump.induct)
  case (1 P c s)
  show ?case
  proof (cases "pump_once P c s")
    case (Pump_stop e s')
    then show ?thesis using stop_parks [OF Pump_stop]
      by (subst nvme_io_context_pump.simps) (simp add: parks_def)
  next
    case (Pump_more s1)
    show ?thesis using 1 [OF _ Pump_more] pump_once_more_ctx(1,4) [OF Pump_more] Pump_more
      by (subst nvme_io_context_pump.simps) (auto simp: parks_def)
  qed
qed

lemma pump_books_other:
  assumes "tables_ok s" "req_slab_ok P" "k_ctxs s c \<noteq> None" "nvme_io_context_pump P c s = (e, s')" "c' \<noteq> c" "ctx_books s c'"
  shows "ctx_books s' c'"
proof -
  have own: "k_reqs s' r = k_reqs s r \<or> k_reqs s r = None \<and> (\<exists>q. k_reqs s' r = Some q \<and> r_ctx q = Some c \<and> r_io q = None)" for r
    using pump_only_own [OF assms(1-4)] by blast
  have "k_ctxs s' c' = k_ctxs s c'" using pump_only_own [OF assms(1-4)] assms(5) by blast
  moreover have "siblings s' c' = siblings s c'"
    unfolding siblings_def
  proof (intro Collect_cong)
    fix r
    show "(\<exists>q. k_reqs s' r = Some q \<and> r_ctx q = Some c') \<longleftrightarrow> (\<exists>q. k_reqs s r = Some q \<and> r_ctx q = Some c')"
      using own [of r] assms(5) by (elim disjE conjE exE) simp_all
  qed
  ultimately show ?thesis using assms(6) by (simp add: ctx_books_def ctx_counted_def cx_def)
qed

lemma pump_refs:
  assumes "tables_ok s" "req_slab_ok P" "k_ctxs s c \<noteq> None" "nvme_io_context_pump P c s = (e, s')" "k_ctxs s' c \<noteq> None"
    and "ctx_refs_ok s"
  shows "ctx_refs_ok s'"
  unfolding ctx_refs_ok_def
proof (intro allI impI)
  fix r q d
  assume "k_reqs s' r = Some q" "r_ctx q = Some d"
  then show "k_ctxs s' d \<noteq> None"
    using pump_only_own [OF assms(1-4)] assms(5,6) by (cases "d = c") (auto simp: ctx_refs_ok_def, metis option.sel option.distinct(1))
qed

text \<open>A pump of a context with exact books disturbs neither the line nor any owner.\<close>

lemma pump_conserves:
  assumes ok: "dispatch_ok s" "req_slab_ok P" "ctx_books s c" and p: "nvme_io_context_pump P c s = (e, s')"
  shows "conserves s s' \<and> ctx_books s' c"
proof -
  have t: "tables_ok s" "ctx_refs_ok s" "k_ctxs s c \<noteq> None" "ctx_counted s c" "x_dispatched (cx s c) \<le> x_total_bytes (cx s c)"
    using ok by (simp_all add: dispatch_ok_def ctx_books_def)
  note a = pump_accounting_aux [OF t(1) ok(2) t(3-5) p]
  have f: "sub_frame s s'" using sub_frame_pump [of s P c] p by simp
  have live: "k_ctxs s' c \<noteq> None" using a by blast
  have "replies s' = replies s" using replies_pump [of P c s] p by simp
  then have "conserves s s'"
    using a pump_refs [OF t(1) ok(2) t(3) p live t(2)] pump_owners [OF t(1) ok(2) t(3) p live] sub_frameD [OF f] sub_frame_adminPort [OF f]
    by (intro conserves_same [OF ok(1)]) (simp_all add: waiting_def)
  then show ?thesis using a by (simp add: ctx_books_def)
qed

text \<open>A finish moves a request from its last owner to the replies.\<close>

lemma finish_conserves:
  assumes ok: "dispatch_ok s" "ctx_books s c" "x_inflight (cx s c) = 0"
  shows "conserves s (nvme_io_context_finish c s)"
proof -
  obtain x where x: "k_ctxs s c = Some x" using ok(2) by (auto simp: ctx_books_def)
  then have cx: "cx s c = x" by (simp add: cx_def)
  let ?s = "nvme_io_context_finish c s"
  have none: "siblings s c = {}" using ok(2,3) by (auto simp: ctx_books_def ctx_counted_def)
  have own: "owners ?s io = owners s io - {Inr c}" "Inr c \<in> owners s io \<longleftrightarrow> io = x_io x" for io
    using x by (auto simp: owners_def finish_shape [OF x])
  have w: "waiting ?s = waiting s" by (simp add: waiting_def finish_shape [OF x])
  have t: "tables_ok ?s"
    by (rule tables_ok_same [of s]) (use ok(1) in \<open>simp_all add: dispatch_ok_def finish_fields\<close>)
  have refs: "ctx_refs_ok ?s"
    using ok(1) none by (auto simp: ctx_refs_ok_def finish_shape [OF x] dispatch_ok_def siblings_def)
  have k: "k_state ?s = k_state s" "k_io_max_inflight ?s = k_io_max_inflight s"
    "io_Command (k_ios ?s io) = io_Command (k_ios s io)" for io by (simp_all add: finish_shape [OF x])
  have "dispatch_ok ?s"
  proof -
    have c: "nvme_state_terminal ?s = nvme_state_terminal s" "sib_cap ?s = sib_cap s"
      using k by (simp_all add: nvme_state_terminal_def sib_cap_def)
    show ?thesis using ok(1) t refs unfolding dispatch_ok_def c w own(1) k(3) by auto
  qed
  moreover have "places ?s io = places s io" for io
  proof -
    have fin: "finite (owners s io)" using ok(1) by (simp add: dispatch_ok_def)
    show ?thesis
      using own(2) [of io] fin card_Suc_Diff1 [of "owners s io" "Inr c"]
      by (cases "io = x_io x") (simp_all add: places_def w own(1) replies_finish cx)
  qed
  moreover have "k_adminPort ?s = k_adminPort s" by (simp add: finish_shape [OF x])
  ultimately show ?thesis unfolding conserves_def by (metis w drop0)
qed

lemma finish_books_other:
  assumes "c' \<noteq> c" "ctx_books s c'"
  shows "ctx_books (nvme_io_context_finish c s) c'"
proof -
  have "siblings (nvme_io_context_finish c s) c' = siblings s c'" by (rule siblings_cong) (rule finish_fields)
  moreover have "k_ctxs (nvme_io_context_finish c s) c' = k_ctxs s c'"
    using assms(1) by (simp add: nvme_io_context_finish_def Let_def free_ctx_def upd_io_def emit_def)
  ultimately show ?thesis using assms(2) by (simp add: ctx_books_def ctx_counted_def cx_def)
qed

lemma repump_conserves:
  assumes "dispatch_ok s" "stalled_ok s" "req_slab_ok P"
  shows "conserves s (repump_loop n P s)"
  using assms
proof (induction n arbitrary: s)
  case 0
  then show ?case by (simp add: conserves_refl)
next
  case (Suc n)
  show ?case
  proof (cases "\<not> io_room s \<or> k_ctx_stalled s = []")
    case True
    then show ?thesis using Suc.prems by (auto simp: conserves_refl)
  next
    case False
    then obtain c cs where p: "io_room s" "k_ctx_stalled s = c # cs" by (cases "k_ctx_stalled s") auto
    define s0 where "s0 = upd_ctx c (\<lambda>x. x\<lparr>x_stalled := False\<rparr>) (s\<lparr>k_ctx_stalled := cs\<rparr>)"
    have bk: "ctx_books s0 c'" if "c' \<in> set (c # cs)" for c'
      using Suc.prems(2) that p by (auto simp: stalled_ok_def ctx_books_def ctx_counted_def siblings_def s0_def upd_ctx_def cx_def)
    have live: "k_ctxs s c \<noteq> None" using Suc.prems(2) p by (simp add: stalled_ok_def ctx_books_def)
    have c0: "conserves s s0"
    proof (rule conserves_same [OF Suc.prems(1)])
      show "tables_ok s0" by (rule tables_ok_same [of s]) (use Suc.prems(1) in \<open>simp_all add: dispatch_ok_def s0_def\<close>)
      show "ctx_refs_ok s0" "owners s0 io = owners s io" for io
        using Suc.prems(1) live by (auto simp: dispatch_ok_def ctx_refs_ok_def owners_def s0_def upd_ctx_def cx_def)
    qed (simp_all add: s0_def upd_ctx_def replies_def waiting_def)
    obtain e s1 where e: "nvme_io_context_pump P c s0 = (e, s1)" by (meson surj_pair)
    have c1: "conserves s0 s1" "ctx_books s1 c" using pump_conserves [OF conserves_ok [OF c0] Suc.prems(3) bk e] by simp_all
    have pk: "parks c s0 s1" using pump_parks [of c s0 P] e by simp
    have st: "x_stalled (cx s0 c) = False" "k_ctx_stalled s0 = cs" by (simp_all add: s0_def)
    define s2 where "s2 = (if e \<noteq> NVME_IO_ASYNC \<and> x_inflight (cx s1 c) = 0 then nvme_io_context_finish c s1 else s1)"
    have c2: "conserves s1 s2"
      using finish_conserves [OF conserves_ok [OF c1(1)] c1(2)] conserves_refl [OF conserves_ok [OF c1(1)]] by (simp add: s2_def)
    have res: "repump_loop (Suc n) P s = (if x_stalled (cx s1 c) then s1 else repump_loop n P s2)"
      using p e by (simp add: s2_def flip: s0_def)
    have s2ok: "stalled_ok s2" if "\<not> x_stalled (cx s1 c)"
    proof -
      have l: "k_ctx_stalled s2 = cs"
        using pk st that by (auto simp: parks_def s2_def nvme_io_context_finish_def Let_def free_ctx_def upd_io_def emit_def)
      have "ctx_books s2 c'" if "c' \<in> set cs" for c'
      proof -
        have ne: "c' \<noteq> c" using that Suc.prems(2) p by (auto simp: stalled_ok_def)
        have "ctx_books s1 c'"
          using pump_books_other [OF _ Suc.prems(3) _ e ne] bk that conserves_ok [OF c0] by (simp add: dispatch_ok_def ctx_books_def)
        then show ?thesis using finish_books_other [OF ne] by (simp add: s2_def)
      qed
      then show ?thesis using l Suc.prems(2) p by (simp add: stalled_ok_def)
    qed
    show ?thesis
      using res conserves_trans [OF c0 c1(1)] conserves_trans [OF conserves_trans [OF c0 c1(1)] c2]
        Suc.IH [OF conserves_ok [OF c2] s2ok Suc.prems(3)] conserves_trans by (cases "x_stalled (cx s1 c)") auto
  qed
qed

section \<open>No request waits while there is room\<close>

definition work_conserving :: "NVMeController \<Rightarrow> bool" where
  "work_conserving s \<longleftrightarrow> \<not> io_room s \<or> k_io_pending s = []"

lemma resubmit_work:
  assumes "dispatch_ok s" "req_slab_ok P" "dma_pool_ok P" "n = length (k_io_pending s)"
  shows "work_conserving (resubmit_loop n P s)"
  using assms
proof (induction n arbitrary: s)
  case 0
  then show ?case by (simp add: work_conserving_def)
next
  case (Suc n)
  then obtain io ios where p: "k_io_pending s = io # ios" by (cases "k_io_pending s") auto
  show ?case
  proof (cases "io_room s")
    case False
    then show ?thesis by (simp add: work_conserving_def)
  next
    case True
    let ?s = "ProcessCommand P io (s\<lparr>k_io_pending := ios\<rparr>)"
    have c: "conserves s ?s \<and> k_io_pending ?s = ios \<and> k_msgPort ?s = k_msgPort s"
      by (rule process_front [OF Suc.prems(1-3), of io "ios @ List.map_filter msg_io (k_msgPort s)"])
        (simp_all add: waiting_def p)
    have "work_conserving (resubmit_loop n P ?s)"
      using c Suc.prems(4) p by (intro Suc.IH [OF conserves_ok Suc.prems(2,3)]) auto
    then show ?thesis using True p by simp
  qed
qed

lemma take_msg_work:
  assumes ok: "dispatch_ok s" "req_slab_ok P" "dma_pool_ok P" and m: "k_msgPort s = msg # msgs" and w: "work_conserving s"
  shows "work_conserving (take_msg P msg (s\<lparr>k_msgPort := msgs\<rparr>))"
proof (cases msg)
  case (Io_msg io)
  let ?s0 = "s\<lparr>k_msgPort := msgs\<rparr>"
  have cmd: "io_Command (k_ios s io) \<noteq> CMD_INTERNAL_ABORT_REQUEST"
    using ok(1) m Io_msg by (simp add: dispatch_ok_def waiting_def msg_io_def map_filter_simps)
  show ?thesis
  proof (cases "\<not> io_room ?s0 \<or> k_io_pending s \<noteq> []")
    case True
    then show ?thesis using w cmd Io_msg by (auto simp: take_msg_def work_conserving_def io_room_def)
  next
    case False
    then have t: "take_msg P msg ?s0 = ProcessCommand P io ?s0" using cmd Io_msg by (simp add: take_msg_def)
    have "conserves s (ProcessCommand P io ?s0) \<and> k_io_pending (ProcessCommand P io ?s0) = [] \<and> k_msgPort (ProcessCommand P io ?s0) = msgs"
      using False by (intro process_front [OF ok, of io "List.map_filter msg_io msgs"])
        (simp_all add: waiting_def msg_io_def m Io_msg map_filter_simps)
    then show ?thesis unfolding t by (simp add: work_conserving_def)
  qed
next
  case (Abort_msg u target)
  let ?s0 = "s\<lparr>k_msgPort := msgs\<rparr>"
  have "dispatch_ok ?s0"
  proof -
    have "tables_ok ?s0" by (rule tables_ok_same [of s]) (use ok(1) in \<open>simp_all add: dispatch_ok_def\<close>)
    moreover have "waiting ?s0 = waiting s" using m Abort_msg by (simp add: waiting_def msg_io_def map_filter_simps)
    ultimately show ?thesis
      using ok(1) by (intro conserves_ok [OF conserves_same [OF ok(1)]])
        (simp_all add: owners_def ctx_refs_ok_def replies_def dispatch_ok_def)
  qed
  then have "line_kept ?s0 (process_abort P target ?s0)" using abort_conserves [OF _ ok(2)] by blast
  then show ?thesis using w Abort_msg
    by (simp add: take_msg_def process_msg_def work_conserving_def io_room_def line_kept_def)
qed

lemma getmsg_work:
  assumes "dispatch_ok s" "req_slab_ok P" "dma_pool_ok P" "work_conserving s"
  shows "work_conserving (getmsg_loop n P s)"
  using assms
proof (induction n arbitrary: s)
  case 0
  then show ?case by simp
next
  case (Suc n)
  show ?case
  proof (cases "k_msgPort s")
    case Nil
    then show ?thesis using Suc.prems by simp
  next
    case (Cons msg msgs)
    let ?s = "take_msg P msg (s\<lparr>k_msgPort := msgs\<rparr>)"
    have "dispatch_ok ?s" using conserves_ok take_msg_conserves [OF Suc.prems(1-3) Cons] by blast
    then have "work_conserving (getmsg_loop n P ?s)"
      by (rule Suc.IH [OF _ Suc.prems(2,3) take_msg_work [OF Suc.prems(1-3) Cons Suc.prems(4)]])
    then show ?thesis using Cons by simp
  qed
qed

lemma batch_end_room: "io_room (nvme_sq_batch_end Io_q s) = io_room s" "k_io_pending (nvme_sq_batch_end Io_q s) = k_io_pending s"
    "k_msgPort (nvme_sq_batch_end Io_q s) = k_msgPort s"
  by (simp_all add: nvme_sq_batch_end_def Let_def nvme_sq_commit_def io_room_def upd_q_def get_q_def emit_def)

lemma drain_conserves:
  assumes "dispatch_ok s" "stalled_ok s" "req_slab_ok P" "dma_pool_ok P"
  defines "s' \<equiv> nvme_drain_msgport P s"
  shows "conserves s s' \<and>
    (if bit (k_flags s) NVME_CTRL_STOPPED \<or> bit (k_flags s) NVME_CTRL_FROZEN then s' = s
     else k_msgPort s' = [] \<and> (io_room s' \<longrightarrow> waiting s' = []))"
proof (cases "bit (k_flags s) NVME_CTRL_STOPPED \<or> bit (k_flags s) NVME_CTRL_FROZEN")
  case True
  then have "s' = s" by (simp add: s'_def nvme_drain_msgport_def)
  then show ?thesis using conserves_refl [OF assms(1)] True by simp
next
  case False
  define s1 where "s1 = nvme_sq_batch_begin Io_q s"
  define s2 where "s2 = repump_loop (length (k_ctx_stalled s1)) P s1"
  define s3 where "s3 = resubmit_loop (length (k_io_pending s2)) P s2"
  define s4 where "s4 = getmsg_loop (length (k_msgPort s3)) P s3"
  have s': "s' = nvme_sq_batch_end Io_q s4"
    using False by (simp add: s'_def nvme_drain_msgport_def Let_def s1_def s2_def s3_def s4_def)
  have c1: "conserves s s1" using batch_conserves [OF assms(1)] by (simp add: s1_def)
  have "stalled_ok s1"
    using assms(2) by (simp add: s1_def nvme_sq_batch_begin_def stalled_ok_def ctx_books_def ctx_counted_def siblings_def cx_def upd_q_def split: queue_sel.split)
  then have c2: "conserves s s2"
    using conserves_trans [OF c1 repump_conserves [OF conserves_ok [OF c1] _ assms(3)]] by (simp add: s2_def)
  have c3: "conserves s s3" "work_conserving s3"
    using conserves_trans [OF c2] resubmit_conserves [OF conserves_ok [OF c2] assms(3,4)]
      resubmit_work [OF conserves_ok [OF c2] assms(3,4)] by (auto simp: s3_def)
  have c4: "conserves s s4" "work_conserving s4" "k_msgPort s4 = []"
    using conserves_trans [OF c3(1)] getmsg_conserves [OF conserves_ok [OF c3(1)] assms(3,4)]
      getmsg_work [OF conserves_ok [OF c3(1)] assms(3,4) c3(2)] by (auto simp: s4_def)
  have "conserves s s'" using conserves_trans [OF c4(1) batch_conserves(2) [OF conserves_ok [OF c4(1)]]] by (simp add: s')
  moreover have "k_msgPort s' = []" "io_room s' \<Longrightarrow> waiting s' = []"
    using c4(2,3) by (auto simp: s' waiting_def work_conserving_def batch_end_room map_filter_simps)
  ultimately show ?thesis using False by auto
qed

text \<open>
  C30.  A pass of the unit task's dispatch loop conserves the clients' requests: for every
  request, the number of places it is in (waiting for dispatch, owned by a command or
  a chunked transfer, or replied) is the same before and after, so none is lost
  and none is answered twice.  What left the waiting line left it from the front, in
  arrival order.  A quiesced or frozen controller is left alone; otherwise the
  port is empty afterwards, and while the I/O queue has room nothing waits.
\<close>

theorem drain_msgport_conserves:
  assumes "dispatch_ok s" "stalled_ok s" "req_slab_ok P" "dma_pool_ok P"
  defines "s' \<equiv> nvme_drain_msgport P s"
  shows "dispatch_ok s' \<and> (\<forall>io. places s' io = places s io) \<and> (\<exists>k. waiting s' = drop k (waiting s)) \<and>
    (if bit (k_flags s) NVME_CTRL_STOPPED \<or> bit (k_flags s) NVME_CTRL_FROZEN then s' = s
     else k_msgPort s' = [] \<and> (io_room s' \<longrightarrow> waiting s' = []))"
  using drain_conserves [OF assms(1-4)] unfolding s'_def conserves_def by blast

theorem drain_msgport_conserves_witness:
  "let s = demo_unmap\<lparr>k_ios := (\<lambda>_. zero_io\<lparr>io_Command := HD_SCSICMD, io_Data := 0x500\<rparr>), k_msgPort := [Io_msg 7, Abort_msg 0 7, Io_msg 8]\<rparr>
   in waiting s = [7, 8] \<and> (\<forall>io. places (nvme_drain_msgport m68k_platform s) io = places s io)"
proof -
  let ?s = "demo_unmap\<lparr>k_ios := (\<lambda>_. zero_io\<lparr>io_Command := HD_SCSICMD, io_Data := 0x500\<rparr>), k_msgPort := [Io_msg 7, Abort_msg 0 7, Io_msg 8]\<rparr>"
  have t: "tables_ok ?s" by (rule tables_ok_same [OF demo_unmap_ok(1)]) simp_all
  have w: "waiting ?s = [7, 8]" by (simp add: waiting_def msg_io_def map_filter_simps demo_unmap_def demo_ctrl_def zero_ctrl_def)
  have o: "owners ?s io = {}" for io by (simp add: owners_def demo_unmap_def demo_ctrl_def zero_ctrl_def)
  have "ctx_refs_ok ?s" "\<not> nvme_state_terminal ?s" "0 < sib_cap ?s"
    using demo_unmap_ok by (simp_all add: ctx_refs_ok_def nvme_state_terminal_def sib_cap_def split: if_splits)
  then have "dispatch_ok ?s" using t unfolding dispatch_ok_def w o by simp
  moreover have "stalled_ok ?s" by (simp add: stalled_ok_def demo_unmap_def demo_ctrl_def zero_ctrl_def)
  ultimately show ?thesis
    using drain_msgport_conserves [OF _ _ m68k_req_slab_ok m68k_dma_pool_ok, of ?s] w by (simp add: Let_def)
qed

end
