(* ===== verification/Nvme_Device.thy ===== *)
theory Nvme_Device
  imports Nvme_Backpressure
begin

text \<open>
  The client side of the device: \<open>beginIO\<close> and its quick handlers
  (src/device_beginio.c), \<open>abortIO\<close> (src/device_abortio.c) and the open counters of a
  unit (src/unit.c).  A request is either finished in the caller's context or put on
  the port of the unit task or of the admin task.  Every unit of the model
  belongs to the controller, and the controller has its metadata pool.
\<close>

section \<open>More command codes\<close>

abbreviation (input) TD_CHANGENUM :: u16 where "TD_CHANGENUM \<equiv> 13"
abbreviation (input) TD_CHANGESTATE :: u16 where "TD_CHANGESTATE \<equiv> 14"
abbreviation (input) TD_PROTSTATUS :: u16 where "TD_PROTSTATUS \<equiv> 15"
abbreviation (input) TD_GETDRIVETYPE :: u16 where "TD_GETDRIVETYPE \<equiv> 18"
abbreviation (input) TD_GETNUMTRACKS :: u16 where "TD_GETNUMTRACKS \<equiv> 19"
abbreviation (input) TD_ADDCHANGEINT :: u16 where "TD_ADDCHANGEINT \<equiv> 20"
abbreviation (input) TD_REMCHANGEINT :: u16 where "TD_REMCHANGEINT \<equiv> 21"
abbreviation (input) TD_GETGEOMETRY :: u16 where "TD_GETGEOMETRY \<equiv> 22"
abbreviation (input) TD_EJECT :: u16 where "TD_EJECT \<equiv> 23"
abbreviation (input) ETD_CLEAR :: u16 where "ETD_CLEAR \<equiv> 0x8005"
abbreviation (input) ETD_MOTOR :: u16 where "ETD_MOTOR \<equiv> 0x8009"
abbreviation (input) ETD_SEEK :: u16 where "ETD_SEEK \<equiv> 0x800A"
abbreviation (input) NSCMD_DEVICEQUERY :: u16 where "NSCMD_DEVICEQUERY \<equiv> 0x4000"
abbreviation (input) NSCMD_NVME_ADMIN_PASS :: u16 where "NSCMD_NVME_ADMIN_PASS \<equiv> 0x8020"
abbreviation (input) NSCMD_NVME_IO_PASS :: u16 where "NSCMD_NVME_IO_PASS \<equiv> 0x8021"
abbreviation (input) NSCMD_NVME_UNIT_INFO :: u16 where "NSCMD_NVME_UNIT_INFO \<equiv> 0x8024"

abbreviation (input) IOF_QUICK :: u8 where "IOF_QUICK \<equiv> 1"
abbreviation (input) DG_DIRECT_ACCESS :: u8 where "DG_DIRECT_ACCESS \<equiv> 0"
abbreviation (input) MEMF_PUBLIC :: u32 where "MEMF_PUBLIC \<equiv> 1"
abbreviation (input) MEMF_FAST :: u32 where "MEMF_FAST \<equiv> 4"
abbreviation (input) NSDEVTYPE_TRACKDISK :: u16 where "NSDEVTYPE_TRACKDISK \<equiv> 5"
abbreviation (input) NVME_REG_CAP :: u32 where "NVME_REG_CAP \<equiv> 0"
abbreviation (input) NVME_REG_VS :: u32 where "NVME_REG_VS \<equiv> 8"
abbreviation (input) NVME_CTRL_VWC_PRESENT :: u8 where "NVME_CTRL_VWC_PRESENT \<equiv> 1"

definition SupportedCommands :: "u16 list" where
  "SupportedCommands = [CMD_READ, CMD_WRITE, CMD_UPDATE, CMD_CLEAR, CMD_STOP, CMD_START, TD_MOTOR, TD_FORMAT,
     TD_CHANGENUM, TD_CHANGESTATE, TD_PROTSTATUS, TD_GETDRIVETYPE, TD_ADDCHANGEINT, TD_REMCHANGEINT, TD_GETGEOMETRY,
     TD_READ64, TD_WRITE64, TD_FORMAT64, ETD_MOTOR, ETD_FORMAT, ETD_READ, ETD_WRITE, ETD_UPDATE, ETD_CLEAR,
     NSCMD_TD_READ64, NSCMD_TD_WRITE64, NSCMD_TD_FORMAT64, NSCMD_ETD_READ64, NSCMD_ETD_WRITE64, NSCMD_ETD_FORMAT64,
     NSCMD_DEVICEQUERY, NSCMD_NVME_ADMIN_PASS, NSCMD_NVME_IO_PASS, NSCMD_NVME_TRIM, NSCMD_NVME_WRITE_ZEROES,
     NSCMD_NVME_UNIT_INFO, 0]"

section \<open>Quick handlers\<close>

definition set_result :: "nat \<Rightarrow> io_error \<Rightarrow> u32 \<Rightarrow> NVMeController \<Rightarrow> NVMeController" where
  "set_result io error actual = upd_io io (\<lambda>x. x\<lparr>io_Error := error, io_Actual := actual\<rparr>)"

definition fill_client :: "nat \<Rightarrow> client_struct \<Rightarrow> NVMeController \<Rightarrow> NVMeController" where
  "fill_client io c s = s\<lparr>k_client := (k_client s)(io_Data (k_ios s io) := Some c)\<rparr>"

definition do_nscmd_devicequery :: "nat \<Rightarrow> NVMeController \<Rightarrow> NVMeController" where
  "do_nscmd_devicequery io s =
    (if io_Length (k_ios s io) < 16 then upd_io io (\<lambda>x. x\<lparr>io_Error := IOERR_BADLENGTH\<rparr>) s
     else set_result io IOERR_NO_ERROR 16 (fill_client io
       (Cs_query \<lparr>nsdqr_SizeAvailable = 16, nsdqr_DeviceType = NSDEVTYPE_TRACKDISK, nsdqr_DeviceSubType = 0,
          nsdqr_SupportedCommands = SupportedCommands\<rparr>) s))"

text \<open>A space- or NUL-padded field, its padding dropped and a NUL appended.\<close>

definition copy_trimmed :: "u8 list \<Rightarrow> u8 list" where
  "copy_trimmed src = rev (dropWhile (\<lambda>b. b = 0x20 \<or> b = 0) (rev src)) @ [0]"

definition do_nscmd_unit_info :: "nat \<Rightarrow> nat \<Rightarrow> NVMeController \<Rightarrow> NVMeController" where
  "do_nscmd_unit_info io u s =
    (if io_Data (k_ios s io) = 0 \<or> io_Length (k_ios s io) < 112
     then upd_io io (\<lambda>x. x\<lparr>io_Error := IOERR_BADLENGTH\<rparr>) s
     else set_result io IOERR_NO_ERROR 112 (fill_client io
       (Cs_info \<lparr>nui_StructSize = 112, nui_UnitNumber = of_nat (u_unitNumber (k_units s u)), nui_Nsid = u_nsid (k_units s u),
          nui_CtrlFirstUnit = k_firstUnitNumber s, nui_CtrlUnitCount = k_nsCount s, nui_CapLo = k_regs s NVME_REG_CAP,
          nui_CapHi = k_regs s (NVME_REG_CAP + 4), nui_Version = k_regs s NVME_REG_VS,
          nui_Serial = copy_trimmed (k_serial s), nui_Model = copy_trimmed (k_model s),
          nui_Firmware = copy_trimmed (k_firmware s)\<rparr>) s))"

definition total_sectors :: "NVMeUnit \<Rightarrow> u32" where
  "total_sectors U = (if u_blockSize U = 0 then 0
     else let sectorsPerBlock = drop_bit 9 (u_blockSize U);
              total64 = u_logicalSectors U * ucast sectorsPerBlock
          in if 0xFFFFFFFF < total64 then 0xFFFFFFFF else ucast total64)"

definition do_td_getgeometry :: "nat \<Rightarrow> nat \<Rightarrow> NVMeController \<Rightarrow> NVMeController" where
  "do_td_getgeometry io u s =
    (let U = k_units s u in
     if io_Length (k_ios s io) < 32 then upd_io io (\<lambda>x. x\<lparr>io_Error := IOERR_BADLENGTH\<rparr>) s
     else set_result io IOERR_NO_ERROR 32 (fill_client io
       (Cs_geometry \<lparr>dg_SectorSize = (if u_blockSize U \<noteq> 0 then u_blockSize U else 512), dg_TotalSectors = total_sectors U,
          dg_Cylinders = 0, dg_CylSectors = 0, dg_Heads = 0, dg_TrackSectors = 0, dg_BufMemType = MEMF_PUBLIC OR MEMF_FAST,
          dg_DeviceType = DG_DIRECT_ACCESS, dg_Flags = 0, dg_Reserved = 0\<rparr>) s))"

definition nvme_cmd_is_etd :: "u16 \<Rightarrow> bool" where
  "nvme_cmd_is_etd cmd \<longleftrightarrow> cmd \<in> {ETD_READ, ETD_WRITE, ETD_MOTOR, ETD_SEEK, ETD_FORMAT, ETD_UPDATE, ETD_CLEAR,
     NSCMD_ETD_READ64, NSCMD_ETD_WRITE64, NSCMD_ETD_FORMAT64}"

section \<open>beginIO\<close>

definition reply_unless_quick :: "nat \<Rightarrow> NVMeController \<Rightarrow> NVMeController" where
  "reply_unless_quick io s = (if io_Flags (k_ios s io) AND IOF_QUICK = 0 then emit (Ev_reply io) s else s)"

definition clear_quick :: "nat \<Rightarrow> NVMeController \<Rightarrow> NVMeController" where
  "clear_quick io = upd_io io (\<lambda>x. x\<lparr>io_Flags := io_Flags x AND NOT IOF_QUICK\<rparr>)"

text \<open>PutMsg links the message at the tail of the port and signals the port's task.\<close>

definition put_unit_msg :: "port_msg \<Rightarrow> NVMeController \<Rightarrow> NVMeController" where
  "put_unit_msg msg s = emit (Ev_signal Sig_msgport) (s\<lparr>k_msgPort := k_msgPort s @ [msg]\<rparr>)"

definition put_admin_msg :: "nat \<Rightarrow> NVMeController \<Rightarrow> NVMeController" where
  "put_admin_msg io s = emit (Ev_signal Sig_adminport) (s\<lparr>k_adminPort := k_adminPort s @ [io]\<rparr>)"

definition no_op_commands :: "u16 set" where
  "no_op_commands = {TD_MOTOR, ETD_MOTOR, CMD_CLEAR, ETD_CLEAR, TD_CHANGESTATE, TD_PROTSTATUS, TD_ADDCHANGEINT, TD_REMCHANGEINT}"

text \<open>The commands answered at once, with their effect on the request; \<open>None\<close> for the others.\<close>

definition quick_command :: "nat \<Rightarrow> NVMeController \<Rightarrow> NVMeController option" where
  "quick_command io s =
    (let cmd = io_Command (k_ios s io); u = io_Unit (k_ios s io); U = k_units s u in
     if cmd \<in> no_op_commands then Some (upd_io io (\<lambda>x. x\<lparr>io_Actual := 0\<rparr>) s)
     else if cmd = TD_CHANGENUM then Some (upd_io io (\<lambda>x. x\<lparr>io_Actual := u_changeCount U\<rparr>) s)
     else if cmd = TD_EJECT \<or> cmd = TD_GETNUMTRACKS then Some (upd_io io (\<lambda>x. x\<lparr>io_Error := IOERR_NOCMD\<rparr>) s)
     else if cmd = TD_GETDRIVETYPE then Some (upd_io io (\<lambda>x. x\<lparr>io_Actual := ucast DG_DIRECT_ACCESS\<rparr>) s)
     else if cmd = TD_GETGEOMETRY then Some (do_td_getgeometry io u s)
     else if cmd = NSCMD_DEVICEQUERY then Some (do_nscmd_devicequery io s)
     else if cmd = NSCMD_NVME_UNIT_INFO then Some (do_nscmd_unit_info io u s)
     else None)"

definition beginIO :: "nat \<Rightarrow> NVMeController \<Rightarrow> NVMeController" where
  "beginIO io s0 =
    (let s = upd_io io (\<lambda>x. x\<lparr>io_Error := IOERR_NO_ERROR\<rparr>) s0;
         x = k_ios s io; U = k_units s (io_Unit x); cmd = io_Command x
     in if u_flags U AND NVME_UNIT_DEAD \<noteq> 0 \<or> nvme_cmd_is_etd cmd \<and> iotd_Count x < u_changeCount U
        then reply_unless_quick io (upd_io io (\<lambda>x. x\<lparr>io_Error := TDERR_DiskChanged\<rparr>) s)
        else case quick_command io s of
          Some s1 \<Rightarrow> reply_unless_quick io s1
        | None \<Rightarrow>
           if cmd = NSCMD_NVME_ADMIN_PASS \<or> cmd = NSCMD_NVME_IO_PASS then
             if io_Data x = 0 \<or> io_Length x \<noteq> 64
             then reply_unless_quick io (upd_io io (\<lambda>x. x\<lparr>io_Error := IOERR_BADLENGTH\<rparr>) s)
             else if \<not> k_admin_task s
             then reply_unless_quick io (upd_io io (\<lambda>x. x\<lparr>io_Error := IOERR_OPENFAIL\<rparr>) s)
             else put_admin_msg io (clear_quick io s)
           else put_unit_msg (Io_msg io) (clear_quick io s))"

section \<open>abortIO\<close>

text \<open>The size of struct IOStdReq is 48 bytes; \<open>True\<close> is the result 0, \<open>False\<close> is -1.\<close>

definition post_abort_request :: "platform \<Rightarrow> nat \<Rightarrow> NVMeController \<Rightarrow> bool \<times> NVMeController" where
  "post_abort_request P io s = (case pool_zalloc P 48 s of
     None \<Rightarrow> (False, s)
   | Some s1 \<Rightarrow> (True, put_unit_msg (Abort_msg (io_Unit (k_ios s io)) io) s1))"

definition abortIO :: "platform \<Rightarrow> nat option \<Rightarrow> NVMeController \<Rightarrow> bool \<times> NVMeController" where
  "abortIO P io s = (case io of None \<Rightarrow> (False, s) | Some i \<Rightarrow> post_abort_request P i s)"

section \<open>Open counters\<close>

definition UnitOpen :: "nat \<Rightarrow> u32 \<Rightarrow> NVMeController \<Rightarrow> bool \<times> NVMeController" where
  "UnitOpen u flags s =
    (if u_flags (k_units s u) AND NVME_UNIT_DEAD \<noteq> 0 then (False, s)
     else (True, s\<lparr>k_units := (k_units s)(u := (k_units s u)\<lparr>u_flags := flags, u_openCnt := u_openCnt (k_units s u) + 1\<rparr>),
       k_openUnits := k_openUnits s + 1\<rparr>))"

text \<open>
  The flush of the last close, up to the wait for its reply: \<open>io\<close> is the request on
  the caller's stack, \<open>port\<close> tells whether CreateMsgPort succeeded.
\<close>

definition nvme_unit_close_flush :: "bool \<Rightarrow> nat \<Rightarrow> nat \<Rightarrow> NVMeController \<Rightarrow> NVMeController" where
  "nvme_unit_close_flush port io u s =
    (if k_vwc s AND NVME_CTRL_VWC_PRESENT = 0 \<or> u_flags (k_units s u) AND NVME_UNIT_DEAD \<noteq> 0 \<or> \<not> k_unit_task s \<or> \<not> port then s
     else put_unit_msg (Io_msg io) (upd_io io (\<lambda>_. zero_io\<lparr>io_Unit := u, io_Command := CMD_UPDATE\<rparr>) s))"

definition UnitClose :: "bool \<Rightarrow> nat \<Rightarrow> nat \<Rightarrow> NVMeController \<Rightarrow> u16 \<times> NVMeController" where
  "UnitClose port io u s =
    (let U = k_units s u;
         n = (if 0 < u_openCnt U then u_openCnt U - 1 else u_openCnt U);
         s1 = s\<lparr>k_units := (k_units s)(u := U\<lparr>u_openCnt := n\<rparr>),
                k_openUnits := (if 0 < k_openUnits s then k_openUnits s - 1 else k_openUnits s)\<rparr>
     in (n, if n = 0 then nvme_unit_close_flush port io u s1 else s1))"

section \<open>A request is taken over exactly once\<close>

definition is_quick :: "IOStdReq \<Rightarrow> bool" where
  "is_quick x \<longleftrightarrow> io_Flags x AND IOF_QUICK \<noteq> 0"

text \<open>A handler that works in the caller's context: the request's result and the client's structure.\<close>

definition inline_done :: "nat \<Rightarrow> NVMeController \<Rightarrow> NVMeController \<Rightarrow> bool" where
  "inline_done io s s' \<longleftrightarrow> (\<exists>e a cl. s' = s\<lparr>k_ios := (k_ios s)(io := (k_ios s io)\<lparr>io_Error := e, io_Actual := a\<rparr>), k_client := cl\<rparr>)"

lemma inline_upd:
  assumes "\<And>x. \<exists>e a. f x = x\<lparr>io_Error := e, io_Actual := a\<rparr>"
  shows "inline_done io s (upd_io io f s)"
proof -
  obtain e a where "f (k_ios s io) = (k_ios s io)\<lparr>io_Error := e, io_Actual := a\<rparr>" using assms by blast
  then have "upd_io io f s = s\<lparr>k_ios := (k_ios s)(io := (k_ios s io)\<lparr>io_Error := e, io_Actual := a\<rparr>), k_client := k_client s\<rparr>"
    by (simp add: upd_io_def)
  then show ?thesis unfolding inline_done_def by blast
qed

lemma inline_set:
  "inline_done io s (upd_io io (\<lambda>x. x\<lparr>io_Error := e\<rparr>) s)" "inline_done io s (upd_io io (\<lambda>x. x\<lparr>io_Actual := a\<rparr>) s)"
  by (rule inline_upd, metis IOStdReq.surjective IOStdReq.update_convs(4,5))+

lemma inline_fill: "inline_done io s (set_result io e a (fill_client io c s))"
  unfolding inline_done_def set_result_def fill_client_def upd_io_def
  by (intro exI [of _ e] exI [of _ a] exI [of _ "(k_client s)(io_Data (k_ios s io) := Some c)"]) simp

lemma inline_trans:
  assumes "inline_done io s s'" "inline_done io s' s''"
  shows "inline_done io s s''"
proof -
  obtain e a cl where "s' = s\<lparr>k_ios := (k_ios s)(io := (k_ios s io)\<lparr>io_Error := e, io_Actual := a\<rparr>), k_client := cl\<rparr>"
    using assms(1) unfolding inline_done_def by blast
  moreover obtain e' a' cl' where "s'' = s'\<lparr>k_ios := (k_ios s')(io := (k_ios s' io)\<lparr>io_Error := e', io_Actual := a'\<rparr>), k_client := cl'\<rparr>"
    using assms(2) unfolding inline_done_def by blast
  ultimately have "s'' = s\<lparr>k_ios := (k_ios s)(io := (k_ios s io)\<lparr>io_Error := e', io_Actual := a'\<rparr>), k_client := cl'\<rparr>" by simp
  then show ?thesis unfolding inline_done_def by blast
qed

lemma quick_inline:
  assumes "quick_command io s = Some s'"
  shows "inline_done io s s'"
  using assms inline_set inline_fill
  unfolding quick_command_def Let_def do_td_getgeometry_def do_nscmd_devicequery_def do_nscmd_unit_info_def
  by (auto split: if_splits)

text \<open>How \<open>beginIO\<close> may leave a request.\<close>

datatype taken = Replied | Finished_quick | Queued_unit | Queued_admin

definition begun :: "taken \<Rightarrow> nat \<Rightarrow> NVMeController \<Rightarrow> NVMeController \<Rightarrow> bool" where
  "begun w io s s' \<longleftrightarrow> (\<exists>t. inline_done io s t \<and> (case w of
       Replied \<Rightarrow> \<not> is_quick (k_ios s io) \<and> s' = emit (Ev_reply io) t
     | Finished_quick \<Rightarrow> is_quick (k_ios s io) \<and> s' = t
     | Queued_unit \<Rightarrow> s' = put_unit_msg (Io_msg io) (clear_quick io t)
     | Queued_admin \<Rightarrow> k_admin_task s \<and> s' = put_admin_msg io (clear_quick io t)))"

lemma begun_inline:
  assumes "inline_done io s t"
  shows "\<exists>w. begun w io s (reply_unless_quick io t)"
proof -
  have "io_Flags (k_ios t io) = io_Flags (k_ios s io)" using assms by (auto simp: inline_done_def)
  then have "begun (if is_quick (k_ios s io) then Finished_quick else Replied) io s (reply_unless_quick io t)"
    unfolding begun_def reply_unless_quick_def by (intro exI [of _ t]) (simp add: assms is_quick_def)
  then show ?thesis by blast
qed

lemma begin_cases: "\<exists>w. begun w io s (beginIO io s)"
proof -
  define s0 where "s0 = upd_io io (\<lambda>x. x\<lparr>io_Error := IOERR_NO_ERROR\<rparr>) s"
  have i0: "inline_done io s s0" unfolding s0_def by (rule inline_set)
  have fin: "\<exists>w. begun w io s (reply_unless_quick io (upd_io io (\<lambda>x. x\<lparr>io_Error := e\<rparr>) s0))" for e
    by (rule begun_inline [OF inline_trans [OF i0 inline_set(1)]])
  have quick: "\<exists>w. begun w io s (reply_unless_quick io s1)" if "quick_command io s0 = Some s1" for s1
    by (rule begun_inline [OF inline_trans [OF i0 quick_inline [OF that]]])
  have un: "\<exists>w. begun w io s (put_unit_msg (Io_msg io) (clear_quick io s0))"
    unfolding begun_def by (rule exI [of _ Queued_unit]) (use i0 in auto)
  have ad: "\<exists>w. begun w io s (put_admin_msg io (clear_quick io s0))" if "k_admin_task s0"
  proof -
    have "k_admin_task s" using i0 that by (auto simp: inline_done_def)
    then show ?thesis unfolding begun_def by (intro exI [of _ Queued_admin]) (use i0 in auto)
  qed
  show ?thesis
    unfolding beginIO_def Let_def s0_def [symmetric]
    using fin quick un ad by (auto split: option.split)
qed

text \<open>A request that nobody holds may enter the line.\<close>

lemma enter_line:
  assumes ok: "dispatch_ok s" "owners s io = {}" "io \<notin> set (waiting s)"
      "io_Command (k_ios s io) \<noteq> CMD_INTERNAL_ABORT_REQUEST"
    and t: "t = s\<lparr>k_ios := (k_ios s)(io := x), k_client := cl, k_msgPort := p, k_adminPort := q, k_trace := tr\<rparr>"
      "io_Command x = io_Command (k_ios s io)" "waiting t \<in> {waiting s, waiting s @ [io]}"
  shows "dispatch_ok t"
proof -
  have tab: "tables_ok t" by (rule tables_ok_same [of s]) (use ok(1) in \<open>simp_all add: t(1) dispatch_ok_def\<close>)
  have k: "owners t io' = owners s io'" "ctx_refs_ok t = ctx_refs_ok s" "nvme_state_terminal t = nvme_state_terminal s"
    "sib_cap t = sib_cap s" "io_Command (k_ios t io') = io_Command (k_ios s io')" for io'
    using t(2) by (simp_all add: t(1) owners_def ctx_refs_ok_def nvme_state_terminal_def sib_cap_def)
  have "distinct (waiting t)" "\<forall>io' \<in> set (waiting t). owners s io' = {} \<and> io_Command (k_ios s io') \<noteq> CMD_INTERNAL_ABORT_REQUEST"
    using ok t(3) by (auto simp: dispatch_ok_def)
  then show ?thesis using ok(1) tab unfolding dispatch_ok_def k by simp
qed

text \<open>The requests of the model, the admin task's included.\<close>

definition accounted :: "NVMeController \<Rightarrow> nat \<Rightarrow> nat" where
  "accounted s io = places s io + count_list (k_adminPort s) io"

lemma begun_accounts:
  assumes ok: "dispatch_ok s" "owners s io = {}" "io \<notin> set (waiting s)"
      "io_Command (k_ios s io) \<noteq> CMD_INTERNAL_ABORT_REQUEST"
    and b: "begun w io s s'"
  shows "dispatch_ok s' \<and> (\<forall>io'. accounted s' io' = accounted s io' + (if io' = io \<and> w \<noteq> Finished_quick then 1 else 0)) \<and>
    (w \<noteq> Queued_admin \<longrightarrow> k_adminPort s' = k_adminPort s) \<and> (is_quick (k_ios s' io) \<longleftrightarrow> w = Finished_quick) \<and>
    k_ctx_stalled s' = k_ctx_stalled s \<and> k_ctxs s' = k_ctxs s \<and> k_reqs s' = k_reqs s \<and> k_flags s' = k_flags s"
proof -
  obtain t where t: "inline_done io s t" and s': "case w of
       Replied \<Rightarrow> \<not> is_quick (k_ios s io) \<and> s' = emit (Ev_reply io) t
     | Finished_quick \<Rightarrow> is_quick (k_ios s io) \<and> s' = t
     | Queued_unit \<Rightarrow> s' = put_unit_msg (Io_msg io) (clear_quick io t)
     | Queued_admin \<Rightarrow> k_admin_task s \<and> s' = put_admin_msg io (clear_quick io t)"
    using b by (auto simp: begun_def)
  obtain e a cl where t': "t = s\<lparr>k_ios := (k_ios s)(io := (k_ios s io)\<lparr>io_Error := e, io_Actual := a\<rparr>), k_client := cl\<rparr>"
    using t by (auto simp: inline_done_def)
  define y where "y = (k_ios s io)\<lparr>io_Error := e, io_Actual := a\<rparr>"
  define x where "x = (if w = Queued_unit \<or> w = Queued_admin then y\<lparr>io_Flags := io_Flags y AND NOT IOF_QUICK\<rparr> else y)"
  define tr where "tr = (case w of Replied \<Rightarrow> [Ev_reply io] | Finished_quick \<Rightarrow> []
    | Queued_unit \<Rightarrow> [Ev_signal Sig_msgport] | Queued_admin \<Rightarrow> [Ev_signal Sig_adminport])"
  have ty: "t = s\<lparr>k_ios := (k_ios s)(io := y), k_client := cl\<rparr>" by (simp add: t' y_def)
  have sh: "s' = s\<lparr>k_ios := (k_ios s)(io := x), k_client := cl, k_msgPort := k_msgPort s @ (if w = Queued_unit then [Io_msg io] else []),
      k_adminPort := k_adminPort s @ (if w = Queued_admin then [io] else []), k_trace := k_trace s @ tr\<rparr>"
    by (rule NVMeController.equality)
      (use s' in \<open>cases w; simp add: x_def tr_def ty emit_def put_unit_msg_def put_admin_msg_def clear_quick_def upd_io_def\<close>)+
  have xc: "io_Command x = io_Command (k_ios s io)" by (simp add: x_def y_def)
  have "(b AND NOT 1) AND 1 = 0" for b :: u8 by (simp add: bit_eq_iff bit_simps) auto
  then have xq: "is_quick x \<longleftrightarrow> w = Finished_quick"
    using s' by (cases w) (simp_all add: x_def y_def is_quick_def)
  note x = xc xq
  have w: "waiting s' = waiting s @ (if w = Queued_unit then [io] else [])"
    by (simp add: sh waiting_def map_filter_simps msg_io_def)
  have d: "dispatch_ok s'" by (rule enter_line [OF ok sh x(1)]) (simp add: w)
  have o: "owners s' io' = owners s io'" for io' by (simp add: sh owners_def)
  have r: "replies s' = replies s @ (if w = Replied then [io] else [])"
    by (cases w) (simp_all add: sh replies_def tr_def map_filter_simps)
  show ?thesis
    using d x(2) by (cases w) (auto simp: accounted_def places_def w o r, simp_all add: sh)
qed

lemma begin_accounts:
  assumes "dispatch_ok s" "owners s io = {}" "io \<notin> set (waiting s)"
      "io_Command (k_ios s io) \<noteq> CMD_INTERNAL_ABORT_REQUEST"
  shows "dispatch_ok (beginIO io s) \<and>
    (\<forall>io'. accounted (beginIO io s) io' = accounted s io' + (if io' = io \<and> \<not> is_quick (k_ios (beginIO io s) io) then 1 else 0))"
proof -
  obtain w where "begun w io s (beginIO io s)" using begin_cases by blast
  from begun_accounts [OF assms this] show ?thesis by auto
qed

text \<open>
  C31.  \<open>beginIO\<close> takes a request over exactly once.  Of a request that nobody holds,
  one more copy is accounted for afterwards, as a reply or at the port of the
  unit task or the admin task, unless the caller asked for quick I/O and got it, in
  which case nothing was sent and the quick flag still tells the caller so.  No
  other request is touched, and the dispatcher's invariant holds for what it may find.
  On a removed namespace nothing is queued and the error says that the medium is gone.
\<close>

theorem begin_io_once:
  assumes "dispatch_ok s" "owners s io = {}" "io \<notin> set (waiting s)" "io_Command (k_ios s io) \<noteq> CMD_INTERNAL_ABORT_REQUEST"
  defines "s' \<equiv> beginIO io s"
  shows "dispatch_ok s' \<and>
    (\<forall>io'. accounted s' io' = accounted s io' + (if io' = io \<and> \<not> is_quick (k_ios s' io) then 1 else 0)) \<and>
    (u_flags (k_units s (io_Unit (k_ios s io))) AND NVME_UNIT_DEAD \<noteq> 0 \<longrightarrow>
       io_Error (k_ios s' io) = TDERR_DiskChanged \<and> k_msgPort s' = k_msgPort s \<and> k_adminPort s' = k_adminPort s)"
proof -
  have "io_Error (k_ios s' io) = TDERR_DiskChanged \<and> k_msgPort s' = k_msgPort s \<and> k_adminPort s' = k_adminPort s"
    if "u_flags (k_units s (io_Unit (k_ios s io))) AND NVME_UNIT_DEAD \<noteq> 0"
    using that by (simp add: s'_def beginIO_def Let_def reply_unless_quick_def upd_io_def emit_def)
  then show ?thesis using begin_accounts [OF assms(1-4)] unfolding s'_def by blast
qed

text \<open>An idle controller with one waiting client.\<close>

definition demo_idle :: NVMeController where
  "demo_idle = demo_unmap\<lparr>k_ios := (\<lambda>_. zero_io\<lparr>io_Command := HD_SCSICMD, io_Data := 0x500\<rparr>)\<rparr>"

lemma demo_idle_ok:
  "dispatch_ok demo_idle" "stalled_ok demo_idle" "owners demo_idle io = {}" "waiting demo_idle = []"
  "io_Command (k_ios demo_idle io) = HD_SCSICMD" "replies demo_idle = []" "k_adminPort demo_idle = []"
proof -
  have t: "tables_ok demo_idle" unfolding demo_idle_def by (rule tables_ok_same [OF demo_unmap_ok(1)]) simp_all
  show w: "waiting demo_idle = []" and o: "owners demo_idle io = {}" for io
    by (simp_all add: owners_def waiting_def map_filter_simps demo_idle_def demo_unmap_def demo_ctrl_def zero_ctrl_def)
  have "ctx_refs_ok demo_idle" "\<not> nvme_state_terminal demo_idle" "0 < sib_cap demo_idle"
    using demo_unmap_ok by (simp_all add: demo_idle_def ctx_refs_ok_def nvme_state_terminal_def sib_cap_def split: if_splits)
  then show "dispatch_ok demo_idle" using t unfolding dispatch_ok_def w o by simp
qed (simp_all add: stalled_ok_def demo_idle_def demo_unmap_def demo_ctrl_def zero_ctrl_def replies_def map_filter_simps)

theorem begin_io_once_witness:
  "dispatch_ok (beginIO 7 demo_idle) \<and>
   accounted (beginIO 7 demo_idle) 7 = accounted demo_idle 7 + (if is_quick (k_ios (beginIO 7 demo_idle) 7) then 0 else 1)"
  using begin_io_once [OF demo_idle_ok(1,3), of 7] demo_idle_ok(4,5) by auto

section \<open>abortIO leaves the request where it is\<close>

lemma abort_io_conserves:
  assumes "dispatch_ok s"
  shows "conserves s (snd (abortIO P io s))"
proof -
  have "conserves s (put_unit_msg (Abort_msg u i) (s\<lparr>k_meta := m\<rparr>))" for u i m
  proof (rule conserves_same [OF assms])
    let ?t = "put_unit_msg (Abort_msg u i) (s\<lparr>k_meta := m\<rparr>)"
    show "tables_ok ?t"
      by (rule tables_ok_same [of s]) (use assms in \<open>simp_all add: dispatch_ok_def put_unit_msg_def emit_def get_q_def split: queue_sel.split\<close>)
  qed (use assms in \<open>simp_all add: put_unit_msg_def emit_def ctx_refs_ok_def owners_def replies_def waiting_def
      map_filter_simps msg_io_def dispatch_ok_def\<close>)
  then show ?thesis
    using conserves_refl [OF assms]
    by (auto simp: abortIO_def post_abort_request_def pool_zalloc_def split: option.split)
qed

section \<open>Opening and closing\<close>

text \<open>
  \<open>UnitOpen\<close> stores the caller's open flags over the unit's state flags: an
  OpenDevice with bit 0 set (TDF_ALLOW_NON_3_5 of trackdisk.device) succeeds and
  marks the namespace as removed, for every client: all requests are refused
  with \<open>TDERR_DiskChanged\<close> and no later open succeeds.
\<close>

theorem unit_open_marks_dead:
  assumes "UnitOpen u flags s = (True, s')" "flags AND 1 \<noteq> 0"
  shows "UnitOpen u flags' s' = (False, s') \<and>
    (io_Unit (k_ios s' io) = u \<longrightarrow> io_Error (k_ios (beginIO io s') io) = TDERR_DiskChanged \<and>
       k_msgPort (beginIO io s') = k_msgPort s' \<and> k_adminPort (beginIO io s') = k_adminPort s')"
proof -
  have "u_flags (k_units s' u) AND NVME_UNIT_DEAD \<noteq> 0"
    using assms by (auto simp: UnitOpen_def split: if_splits)
  then show ?thesis by (simp add: UnitOpen_def beginIO_def Let_def reply_unless_quick_def upd_io_def emit_def)
qed

theorem unit_open_marks_dead_witness:
  "fst (UnitOpen 0 1 demo_idle) \<and> \<not> fst (UnitOpen 0 0 (snd (UnitOpen 0 1 demo_idle))) \<and>
   io_Error (k_ios (beginIO 7 (snd (UnitOpen 0 1 demo_idle))) 7) = TDERR_DiskChanged"
proof -
  have f: "u_flags (k_units demo_idle 0) = 0" "io_Unit (k_ios demo_idle 7) = 0"
    by (simp_all add: demo_idle_def demo_unmap_def demo_ctrl_def demo_unit_def zero_unit_def zero_io_def)
  obtain s' where s': "UnitOpen 0 1 demo_idle = (True, s')" "k_ios s' = k_ios demo_idle" using f by (simp add: UnitOpen_def)
  show ?thesis using unit_open_marks_dead [OF s'(1), of 0 7] s' f by simp
qed

lemma open_close_counts:
  assumes "UnitOpen u flags s = (True, s1)" "UnitClose port io u s1 = (n, s2)" "u_openCnt (k_units s u) \<noteq> - 1" "k_openUnits s \<noteq> - 1"
  shows "n = u_openCnt (k_units s u)" "u_openCnt (k_units s2 u) = u_openCnt (k_units s u)" "k_openUnits s2 = k_openUnits s"
proof -
  have nz: "u_openCnt (k_units s u) + 1 \<noteq> 0" "k_openUnits s + 1 \<noteq> 0" using assms(3,4) by (simp_all add: eq_neg_iff_add_eq_0)
  have u: "u_openCnt (k_units s1 u) = u_openCnt (k_units s u) + 1" "k_openUnits s1 = k_openUnits s + 1"
    using assms(1) by (auto simp: UnitOpen_def split: if_splits)
  have f: "k_units (nvme_unit_close_flush port io u t) = k_units t" "k_openUnits (nvme_unit_close_flush port io u t) = k_openUnits t" for t
    by (simp_all add: nvme_unit_close_flush_def put_unit_msg_def emit_def upd_io_def)
  show "n = u_openCnt (k_units s u)" "u_openCnt (k_units s2 u) = u_openCnt (k_units s u)" "k_openUnits s2 = k_openUnits s"
    using assms(2) u nz by (auto simp: UnitClose_def Let_def f word_neq_0_conv split: if_splits)
qed

text \<open>
  \<open>TD_GETGEOMETRY\<close> reports the number of 512-byte units next to the native block
  size, capped at the largest 32-bit value.  Their product is the capacity exactly for
  512-byte namespaces; in general it is the capacity times the number of 512-byte units per block.
\<close>

theorem geometry_product:
  assumes b: "u_blockSize U = 512 * of_nat k" "0 < k" "k < 2 ^ 23"
    and c: "unat (u_logicalSectors U) * k < 2 ^ 32"
    and U: "k_units s (io_Unit (k_ios s io)) = U" "u_flags U AND NVME_UNIT_DEAD = 0"
    and io: "io_Command (k_ios s io) = TD_GETGEOMETRY" "32 \<le> io_Length (k_ios s io)"
  shows "\<exists>g. k_client (beginIO io s) (io_Data (k_ios s io)) = Some (Cs_geometry g) \<and>
    io_Error (k_ios (beginIO io s) io) = IOERR_NO_ERROR \<and>
    unat (dg_SectorSize g) = unat (u_blockSize U) \<and>
    unat (dg_TotalSectors g) * unat (dg_SectorSize g) = k * (unat (u_logicalSectors U) * unat (u_blockSize U))"
proof -
  have "unat (u_blockSize U) = 512 * k mod 2 ^ 32"
    unfolding b(1) by (simp add: unat_word_ariths(2) unat_of_nat mod_mult_right_eq)
  then have bs: "unat (u_blockSize U) = 512 * k" using b(3) by simp
  then have d: "unat (drop_bit 9 (u_blockSize U)) = k" "u_blockSize U \<noteq> 0" using b(2) by (auto simp: unat_drop_bit)
  have t: "unat (u_logicalSectors U * ucast (drop_bit 9 (u_blockSize U))) = unat (u_logicalSectors U) * k"
    using c d(1) by (simp add: unat_word_ariths(2))
  have total: "unat (total_sectors U) = unat (u_logicalSectors U) * k"
    using c t d(2) by (simp add: total_sectors_def Let_def word_less_nat_alt unat_ucast_mod)
  define s0 where "s0 = upd_io io (\<lambda>x. x\<lparr>io_Error := IOERR_NO_ERROR\<rparr>) s"
  have s0: "k_units s0 = k_units s" "io_Unit (k_ios s0 io) = io_Unit (k_ios s io)" "io_Command (k_ios s0 io) = TD_GETGEOMETRY"
    "io_Length (k_ios s0 io) = io_Length (k_ios s io)" "io_Data (k_ios s0 io) = io_Data (k_ios s io)"
    using io(1) by (simp_all add: s0_def upd_io_def)
  let ?g = "\<lparr>dg_SectorSize = (if u_blockSize U \<noteq> 0 then u_blockSize U else 512), dg_TotalSectors = total_sectors U,
          dg_Cylinders = 0, dg_CylSectors = 0, dg_Heads = 0, dg_TrackSectors = 0, dg_BufMemType = MEMF_PUBLIC OR MEMF_FAST,
          dg_DeviceType = DG_DIRECT_ACCESS, dg_Flags = 0, dg_Reserved = 0\<rparr>"
  have "quick_command io s0 = Some (do_td_getgeometry io (io_Unit (k_ios s io)) s0)"
    by (simp add: quick_command_def Let_def s0 no_op_commands_def)
  moreover have "do_td_getgeometry io (io_Unit (k_ios s io)) s0 = set_result io IOERR_NO_ERROR 32 (fill_client io (Cs_geometry ?g) s0)"
    using io(2) U(1) by (simp add: do_td_getgeometry_def Let_def s0)
  moreover have "\<not> nvme_cmd_is_etd TD_GETGEOMETRY" by (simp add: nvme_cmd_is_etd_def)
  ultimately have "beginIO io s = reply_unless_quick io (set_result io IOERR_NO_ERROR 32 (fill_client io (Cs_geometry ?g) s0))"
    using U(2) unfolding beginIO_def Let_def s0_def [symmetric] s0 U(1) by simp
  then have "k_client (beginIO io s) (io_Data (k_ios s io)) = Some (Cs_geometry ?g)" "io_Error (k_ios (beginIO io s) io) = IOERR_NO_ERROR"
    by (simp_all add: reply_unless_quick_def set_result_def fill_client_def upd_io_def emit_def s0)
  then show ?thesis using total bs d(2) by (auto simp: mult_ac)
qed

text \<open>A namespace with 4096-byte blocks: the reported size is eight times its capacity.\<close>

theorem geometry_product_witness:
  "\<exists>s io g. k_client (beginIO io s) (io_Data (k_ios s io)) = Some (Cs_geometry g) \<and> u_blockSize (k_units s 0) = 4096 \<and>
     unat (dg_TotalSectors g) * unat (dg_SectorSize g) = 8 * (unat (u_logicalSectors (k_units s 0)) * 4096)"
proof -
  let ?U = "zero_unit\<lparr>u_blockSize := 4096, u_logicalSectors := 1000\<rparr>"
  let ?s = "zero_ctrl\<lparr>k_units := (\<lambda>_. ?U), k_ios := (\<lambda>_. zero_io\<lparr>io_Command := TD_GETGEOMETRY, io_Length := 32, io_Data := 0x700\<rparr>)\<rparr>"
  have "\<exists>g. k_client (beginIO 7 ?s) (io_Data (k_ios ?s 7)) = Some (Cs_geometry g) \<and>
    io_Error (k_ios (beginIO 7 ?s) 7) = IOERR_NO_ERROR \<and> unat (dg_SectorSize g) = unat (u_blockSize ?U) \<and>
    unat (dg_TotalSectors g) * unat (dg_SectorSize g) = 8 * (unat (u_logicalSectors ?U) * unat (u_blockSize ?U))"
    by (rule geometry_product) (simp_all add: zero_unit_def zero_io_def)
  then obtain g where "k_client (beginIO 7 ?s) (io_Data (k_ios ?s 7)) = Some (Cs_geometry g)"
    "unat (dg_TotalSectors g) * unat (dg_SectorSize g) = 8 * (unat (u_logicalSectors ?U) * unat (u_blockSize ?U))" by blast
  then show ?thesis by (intro exI [of _ ?s] exI [of _ 7] exI [of _ g]) simp
qed

section \<open>From the client to the unit task\<close>

text \<open>The part of \<open>stalled_ok\<close> that a client can see stays.\<close>

lemma begin_stalled:
  assumes "dispatch_ok s" "owners s io = {}" "io \<notin> set (waiting s)" "io_Command (k_ios s io) \<noteq> CMD_INTERNAL_ABORT_REQUEST" "stalled_ok s"
  shows "stalled_ok (beginIO io s)"
proof -
  obtain w where "begun w io s (beginIO io s)" using begin_cases by blast
  from begun_accounts [OF assms(1-4) this] show ?thesis
    using assms(5) by (simp add: stalled_ok_def ctx_books_def ctx_counted_def siblings_def cx_def)
qed

lemma begin_admin_port:
  assumes "io_Command (k_ios s io) \<notin> {NSCMD_NVME_ADMIN_PASS, NSCMD_NVME_IO_PASS}"
  shows "k_adminPort (beginIO io s) = k_adminPort s"
proof -
  define s0 where "s0 = upd_io io (\<lambda>x. x\<lparr>io_Error := IOERR_NO_ERROR\<rparr>) s"
  have s0: "k_adminPort s0 = k_adminPort s" "io_Command (k_ios s0 io) = io_Command (k_ios s io)"
    by (simp_all add: s0_def upd_io_def)
  have q: "k_adminPort s1 = k_adminPort s" if "quick_command io s0 = Some s1" for s1
    using quick_inline [OF that] s0 by (auto simp: inline_done_def)
  have r: "k_adminPort (reply_unless_quick io t) = k_adminPort t" for t by (simp add: reply_unless_quick_def emit_def)
  show ?thesis
    using assms q unfolding beginIO_def Let_def s0_def [symmetric] s0
    by (auto simp: r put_unit_msg_def clear_quick_def upd_io_def emit_def s0 split: option.split)
qed

lemma abort_stalled:
  assumes "stalled_ok s"
  shows "stalled_ok (snd (abortIO P io s))"
  using assms
  by (auto simp: abortIO_def post_abort_request_def pool_zalloc_def put_unit_msg_def emit_def stalled_ok_def ctx_books_def
      ctx_counted_def siblings_def cx_def split: option.split)

lemma places_none:
  assumes "dispatch_ok s" "places s io = 0"
  shows "owners s io = {}" "io \<notin> set (waiting s)" "io \<notin> set (replies s)"
  using assms by (auto simp: places_def dispatch_ok_def count_list_0_iff)

end
