(* ===== verification/Nvme_Identify.thy ===== *)
theory Nvme_Identify
  imports Nvme_Admin
begin

text \<open>
  The Identify path of src/nvme/nvme_identify.c: the commands, the field reads of the
  responses (struct layouts of nvme_defs.h), the parser of the Namespace Identification
  Descriptor list, and the gathering of one namespace's data.

  A response buffer is a function from byte offset to byte; offsets past the buffer are the
  memory behind it.  The answer of the controller to a synchronous command is the parameter
  \<open>sync\<close>: the result of \<open>nvme_submit_sync_cmd\<close> and the bytes it leaves in the buffer.
\<close>

section \<open>Synchronous commands and response fields\<close>

text \<open>A C \<open>int\<close> result: zero, a negative errno, or a positive NVMe status.\<close>

datatype sync_ret = Ret_ok | Ret_errno errno | Ret_status u16

type_synonym id_buf = "nat \<Rightarrow> u8"
type_synonym sync_dev = "nvme_command \<Rightarrow> sync_ret \<times> id_buf"

abbreviation (input) DMA_ALIGN_MIN :: u32 where "DMA_ALIGN_MIN \<equiv> 64"
abbreviation (input) NVME_IDENTIFY_DATA_SIZE :: nat where "NVME_IDENTIFY_DATA_SIZE \<equiv> 4096"

abbreviation (input) NVME_ID_CNS_NS :: u8 where "NVME_ID_CNS_NS \<equiv> 0"
abbreviation (input) NVME_ID_CNS_CTRL :: u8 where "NVME_ID_CNS_CTRL \<equiv> 1"
abbreviation (input) NVME_ID_CNS_NS_ACTIVE_LIST :: u8 where "NVME_ID_CNS_NS_ACTIVE_LIST \<equiv> 2"
abbreviation (input) NVME_ID_CNS_NS_DESC_LIST :: u8 where "NVME_ID_CNS_NS_DESC_LIST \<equiv> 3"
abbreviation (input) NVME_ID_CNS_CS_NS :: u8 where "NVME_ID_CNS_CS_NS \<equiv> 5"
abbreviation (input) NVME_ID_CNS_CS_CTRL :: u8 where "NVME_ID_CNS_CS_CTRL \<equiv> 6"
abbreviation (input) NVME_ID_CNS_NS_CS_INDEP :: u8 where "NVME_ID_CNS_NS_CS_INDEP \<equiv> 8"
abbreviation (input) NVME_CSI_NVM :: u8 where "NVME_CSI_NVM \<equiv> 0"
abbreviation (input) NVME_CTRL_ATTR_ELBAS :: u32 where "NVME_CTRL_ATTR_ELBAS \<equiv> 0x8000"

definition NVME_VS :: "u32 \<Rightarrow> u32 \<Rightarrow> u32 \<Rightarrow> u32" where
  "NVME_VS major minor tertiary = push_bit 16 major OR push_bit 8 minor OR tertiary"

definition get_le16 :: "id_buf \<Rightarrow> nat \<Rightarrow> u16" where
  "get_le16 d o' = ucast (d o') OR push_bit 8 (ucast (d (o' + 1)))"

definition get_le32 :: "id_buf \<Rightarrow> nat \<Rightarrow> u32" where
  "get_le32 d o' = ucast (get_le16 d o') OR push_bit 16 (ucast (get_le16 d (o' + 2)))"

definition get_le64 :: "id_buf \<Rightarrow> nat \<Rightarrow> u64" where
  "get_le64 d o' = ucast (get_le32 d o') OR push_bit 32 (ucast (get_le32 d (o' + 4)))"

definition get_bytes :: "id_buf \<Rightarrow> nat \<Rightarrow> nat \<Rightarrow> u8 list" where
  "get_bytes d o' n = map (\<lambda>i. d (o' + i)) [0..<n]"

definition memchr_inv :: "u8 list \<Rightarrow> u8 \<Rightarrow> bool" where
  "memchr_inv bs c = list_ex (\<lambda>b. b \<noteq> c) bs"

definition nvme_multi_css :: "NVMeController \<Rightarrow> bool" where
  "nvme_multi_css s \<longleftrightarrow> c_ctrl_config (k_caps s) AND 0x70 = 0x60"

definition nvme_id_cns_ok :: "NVMeController \<Rightarrow> u8 \<Rightarrow> bool" where
  "nvme_id_cns_ok s cns =
    (if NVME_VS 1 2 0 \<le> c_vs (k_caps s) then True
     else if NVME_VS 1 1 0 \<le> c_vs (k_caps s) \<and> \<not> bit (k_quirks s) NVME_QUIRK_IDENTIFY_CNS then cns \<le> 3
     else cns \<le> 1)"

definition nvme_lbaf_index :: "u8 \<Rightarrow> u8" where
  "nvme_lbaf_index flbas = (flbas AND 0xf) OR drop_bit 1 (flbas AND 0x60)"

section \<open>Issuing Identify\<close>

definition identify_cmd :: "u32 \<Rightarrow> u8 \<Rightarrow> u8 \<Rightarrow> nvme_command" where
  "identify_cmd nsid cns csi = zero_cmd\<lparr>cmd_opcode := nvme_admin_identify, cmd_nsid := nsid, cmd_body := Body_identify cns 0 csi\<rparr>"

definition nvme_submit_identify ::
    "platform \<Rightarrow> sync_dev \<Rightarrow> nvme_command \<Rightarrow> u32 \<Rightarrow> NVMeController \<Rightarrow> (sync_ret + u32 \<times> id_buf) \<times> NVMeController" where
  "nvme_submit_identify P sync c len s =
    (case dma_zalloc P DMA_ALIGN_MIN len s of
       None \<Rightarrow> (Inl (Ret_errno ENOMEM), s)
     | Some (buf, s1) \<Rightarrow>
        (case sync c of (ret, data) \<Rightarrow>
           let s2 = emit (Ev_sync c) s1 in
           if ret \<noteq> Ret_ok then (Inl ret, dma_free buf s2) else (Inr (buf, data), s2)))"

definition nvme_identify_ctrl :: "platform \<Rightarrow> sync_dev \<Rightarrow> NVMeController \<Rightarrow> (sync_ret + u32 \<times> id_buf) \<times> NVMeController" where
  "nvme_identify_ctrl P sync s = nvme_submit_identify P sync (identify_cmd 0 NVME_ID_CNS_CTRL 0) 4096 s"

definition nvme_identify_ctrl_nvm :: "platform \<Rightarrow> sync_dev \<Rightarrow> NVMeController \<Rightarrow> (sync_ret + u32 \<times> id_buf) \<times> NVMeController" where
  "nvme_identify_ctrl_nvm P sync s = nvme_submit_identify P sync (identify_cmd 0 NVME_ID_CNS_CS_CTRL NVME_CSI_NVM) 4096 s"

definition nvme_identify_ns :: "platform \<Rightarrow> sync_dev \<Rightarrow> u32 \<Rightarrow> NVMeController \<Rightarrow> (sync_ret + u32 \<times> id_buf) \<times> NVMeController" where
  "nvme_identify_ns P sync nsid s = nvme_submit_identify P sync (identify_cmd (p_le32 P nsid) NVME_ID_CNS_NS 0) 4096 s"

section \<open>The descriptor list\<close>

datatype ns_desc_result = Desc_bad | Desc_len nat

definition nvme_process_ns_desc ::
    "bool \<Rightarrow> id_buf \<Rightarrow> nat \<Rightarrow> nvme_ns_ids \<Rightarrow> bool \<Rightarrow> ns_desc_result \<times> nvme_ns_ids \<times> bool" where
  "nvme_process_ns_desc bogus d pos ids csi_seen =
    (let nidt = d pos; nidl = d (pos + 1) in
     if nidt = 1 then
       if nidl \<noteq> 8 then (Desc_bad, ids, csi_seen)
       else if bogus then (Desc_len 8, ids, csi_seen)
       else (Desc_len 8, ids\<lparr>ids_eui64 := get_bytes d (pos + 4) 8\<rparr>, csi_seen)
     else if nidt = 2 then
       if nidl \<noteq> 16 then (Desc_bad, ids, csi_seen)
       else if bogus then (Desc_len 16, ids, csi_seen)
       else (Desc_len 16, ids\<lparr>ids_nguid := get_bytes d (pos + 4) 16\<rparr>, csi_seen)
     else if nidt = 3 then
       if nidl \<noteq> 16 then (Desc_bad, ids, csi_seen)
       else if bogus then (Desc_len 16, ids, csi_seen)
       else (Desc_len 16, ids\<lparr>ids_uuid := get_bytes d (pos + 4) 16\<rparr>, csi_seen)
     else if nidt = 4 then
       if nidl \<noteq> 1 then (Desc_bad, ids, csi_seen)
       else (Desc_len 1, ids\<lparr>ids_csi := d (pos + 4)\<rparr>, True)
     else (Desc_len (unat nidl), ids, csi_seen))"

function ns_desc_loop :: "bool \<Rightarrow> id_buf \<Rightarrow> nat \<Rightarrow> nvme_ns_ids \<Rightarrow> bool \<Rightarrow> nvme_ns_ids \<times> bool" where
  "ns_desc_loop bogus d pos ids csi_seen =
    (if NVME_IDENTIFY_DATA_SIZE \<le> pos \<or> d (pos + 1) = 0 then (ids, csi_seen)
     else case nvme_process_ns_desc bogus d pos ids csi_seen of
       (Desc_bad, ids', seen') \<Rightarrow> (ids', seen')
     | (Desc_len len, ids', seen') \<Rightarrow> ns_desc_loop bogus d (pos + (len + 4)) ids' seen')"
  by pat_completeness auto
termination
  by (relation "measure (\<lambda>(bogus, d, pos, ids, seen). NVME_IDENTIFY_DATA_SIZE - pos)") auto

declare ns_desc_loop.simps [simp del]

section \<open>One namespace\<close>

record nvme_ns_info =
  i_ids :: nvme_ns_ids
  i_nsid :: u32
  i_anagrpid :: u32
  i_endgid :: u16
  i_is_shared :: bool
  i_is_readonly :: bool
  i_is_ready :: bool
  i_is_removed :: bool
  i_is_rotational :: bool
  i_no_vwc :: bool
  i_lba_shift :: u8
  i_nsze :: u64
  i_deac :: bool
  i_ms :: u16
  i_pi_type :: u8
  i_pic :: u8
  i_elbaf :: u32
  i_lbstm :: u64

definition zero_info :: nvme_ns_info where
  "zero_info = \<lparr>i_ids = zero_ids, i_nsid = 0, i_anagrpid = 0, i_endgid = 0, i_is_shared = False, i_is_readonly = False,
     i_is_ready = False, i_is_removed = False, i_is_rotational = False, i_no_vwc = False, i_lba_shift = 0, i_nsze = 0,
     i_deac = False, i_ms = 0, i_pi_type = 0, i_pic = 0, i_elbaf = 0, i_lbstm = 0\<rparr>"

type_synonym ident_step = "nvme_ns_info \<Rightarrow> NVMeController \<Rightarrow> sync_ret \<times> nvme_ns_info \<times> NVMeController"

definition nvme_identify_ns_descs :: "platform \<Rightarrow> sync_dev \<Rightarrow> ident_step" where
  "nvme_identify_ns_descs P sync info s =
    (if c_vs (k_caps s) < NVME_VS 1 3 0 \<and> \<not> nvme_multi_css s then (Ret_ok, info, s)
     else if bit (k_quirks s) NVME_QUIRK_NO_NS_DESC_LIST then (Ret_ok, info, s)
     else case nvme_submit_identify P sync (identify_cmd (p_le32 P (i_nsid info)) NVME_ID_CNS_NS_DESC_LIST 0) 4096 s of
       (Inl ret, s1) \<Rightarrow> (ret, info, s1)
     | (Inr (buf, d), s1) \<Rightarrow>
        (case ns_desc_loop (bit (k_quirks s) NVME_QUIRK_BOGUS_NID) d 0 (i_ids info) False of (ids, csi_seen) \<Rightarrow>
           (if nvme_multi_css s \<and> \<not> csi_seen then Ret_errno EINVAL else Ret_ok, info\<lparr>i_ids := ids\<rparr>, dma_free buf s1)))"

definition nvme_identify_ns_nvm :: "platform \<Rightarrow> sync_dev \<Rightarrow> u32 \<Rightarrow> u8 \<Rightarrow> ident_step" where
  "nvme_identify_ns_nvm P sync nsid lbaf info s =
    (case nvme_submit_identify P sync (identify_cmd (p_le32 P nsid) NVME_ID_CNS_CS_NS NVME_CSI_NVM) 4096 s of
       (Inl ret, s1) \<Rightarrow> (ret, info, s1)
     | (Inr (nvm, d), s1) \<Rightarrow>
        (Ret_ok, info\<lparr>i_elbaf := get_le32 d (12 + 4 * unat lbaf), i_pic := d 8, i_lbstm := get_le64 d 0\<rparr>, dma_free nvm s1))"

definition info_of_identify :: "platform \<Rightarrow> bool \<Rightarrow> u32 \<Rightarrow> id_buf \<Rightarrow> nvme_ns_info \<Rightarrow> nvme_ns_info" where
  "info_of_identify P bogus vs d info =
    (let lbaf = nvme_lbaf_index (d 26); dlfeat = d 33;
         info1 = info\<lparr>i_anagrpid := p_le32 P (get_le32 d 92), i_is_shared := d 30 AND 1 \<noteq> 0, i_is_readonly := d 99 AND 1 \<noteq> 0,
           i_is_ready := True, i_endgid := get_le16 d 102, i_lba_shift := d (128 + 4 * unat lbaf + 2), i_nsze := get_le64 d 0,
           i_ms := get_le16 d (128 + 4 * unat lbaf), i_pi_type := d 29 AND 7, i_deac := dlfeat AND 7 = 1 \<and> dlfeat AND 8 \<noteq> 0\<rparr>;
         ids = i_ids info1;
         ids1 = (if NVME_VS 1 1 0 \<le> vs \<and> \<not> memchr_inv (ids_eui64 ids) 0 then ids\<lparr>ids_eui64 := get_bytes d 120 8\<rparr> else ids);
         ids2 = (if NVME_VS 1 2 0 \<le> vs \<and> \<not> memchr_inv (ids_nguid ids1) 0 then ids1\<lparr>ids_nguid := get_bytes d 104 16\<rparr> else ids1)
     in if bogus then info1 else info1\<lparr>i_ids := ids2\<rparr>)"

definition nvme_ns_info_from_identify :: "platform \<Rightarrow> sync_dev \<Rightarrow> ident_step" where
  "nvme_ns_info_from_identify P sync info s =
    (case nvme_identify_ns P sync (i_nsid info) s of
       (Inl ret, s1) \<Rightarrow> (ret, info, s1)
     | (Inr (buf, d), s1) \<Rightarrow>
        if get_le64 d 8 = 0 then (Ret_errno ENODEV, info\<lparr>i_is_removed := True\<rparr>, dma_free buf s1)
        else
          let info1 = info_of_identify P (bit (k_quirks s1) NVME_QUIRK_BOGUS_NID) (c_vs (k_caps s1)) d info in
          if c_ctratt (k_caps s1) AND NVME_CTRL_ATTR_ELBAS \<noteq> 0 then
            (case nvme_identify_ns_nvm P sync (i_nsid info1) (nvme_lbaf_index (d 26)) info1 s1 of (ret, info2, s2) \<Rightarrow>
               (case ret of Ret_status _ \<Rightarrow> Ret_ok | _ \<Rightarrow> ret, info2, dma_free buf s2))
          else (Ret_ok, info1, dma_free buf s1))"

definition nvme_ns_info_from_id_cs_indep :: "platform \<Rightarrow> sync_dev \<Rightarrow> ident_step" where
  "nvme_ns_info_from_id_cs_indep P sync info s =
    (case nvme_submit_identify P sync (identify_cmd (p_le32 P (i_nsid info)) NVME_ID_CNS_NS_CS_INDEP 0) 4096 s of
       (Inl ret, s1) \<Rightarrow> (ret, info, s1)
     | (Inr (buf, d), s1) \<Rightarrow>
        (Ret_ok, info\<lparr>i_anagrpid := p_le32 P (get_le32 d 4), i_is_shared := d 1 AND 1 \<noteq> 0, i_is_readonly := d 8 AND 1 \<noteq> 0,
           i_is_ready := d 14 AND 1 \<noteq> 0, i_is_rotational := d 0 AND 0x10 \<noteq> 0, i_no_vwc := d 0 AND 0x20 \<noteq> 0,
           i_endgid := get_le16 d 12\<rparr>, dma_free buf s1))"

definition nvme_identify_ns_info :: "platform \<Rightarrow> sync_dev \<Rightarrow> ident_step" where
  "nvme_identify_ns_info P sync info s =
    (case nvme_identify_ns_descs P sync info s of (ret, info1, s1) \<Rightarrow>
     if ret \<noteq> Ret_ok then (ret, info1, s1)
     else if ids_csi (i_ids info1) \<noteq> NVME_CSI_NVM \<and> \<not> nvme_multi_css s1 then (Ret_errno EINVAL, info1, s1)
     else case nvme_ns_info_from_identify P sync info1 s1 of (ret, info2, s2) \<Rightarrow>
       if ret \<noteq> Ret_ok then (ret, info2, s2)
       else if bit (k_cap s2) 60 \<or> ids_csi (i_ids info2) \<noteq> NVME_CSI_NVM \<or> NVME_VS 2 0 0 \<le> c_vs (k_caps s2) then
         (case nvme_ns_info_from_id_cs_indep P sync info2 s2 of (ret, info3, s3) \<Rightarrow>
            (case ret of Ret_errno e \<Rightarrow> Ret_errno e | _ \<Rightarrow> Ret_ok, info3, s3))
       else (Ret_ok, info2, s2))"

section \<open>Nothing is leaked\<close>

text \<open>What an Identify exchange leaves behind: bytes of freed buffers, and the commands it sent.\<close>

definition ident_frame :: "NVMeController \<Rightarrow> NVMeController \<Rightarrow> bool" where
  "ident_frame s s' \<longleftrightarrow> (\<exists>m tr. s' = s\<lparr>k_mem := m, k_trace := k_trace s @ tr\<rparr>)"

lemma ident_frame_refl [simp]: "ident_frame s s"
  unfolding ident_frame_def by (intro exI [of _ "k_mem s"] exI [of _ "[]"]) simp

lemma ident_frame_trans: "ident_frame s s1 \<Longrightarrow> ident_frame s1 s2 \<Longrightarrow> ident_frame s s2"
  unfolding ident_frame_def by force

lemma ident_frameI: "s' = s\<lparr>k_mem := m, k_trace := k_trace s @ tr\<rparr> \<Longrightarrow> ident_frame s s'"
  unfolding ident_frame_def by blast

lemma ident_frame_free:
  assumes "ident_frame s s'"
  shows "ident_frame (dma_free b s) (dma_free b s')"
proof -
  obtain m tr where "s' = s\<lparr>k_mem := m, k_trace := k_trace s @ tr\<rparr>" using assms unfolding ident_frame_def by blast
  then show ?thesis by (intro ident_frameI [where m = m and tr = tr]) (simp add: dma_free_def)
qed

lemma ident_frame_sel:
  assumes "ident_frame s s'"
  shows "k_dma s' = k_dma s" "k_quirks s' = k_quirks s" "k_caps s' = k_caps s" "k_namespaces s' = k_namespaces s"
    "k_units s' = k_units s" "k_base_units s' = k_base_units s" "k_nextUnitNumber s' = k_nextUnitNumber s"
    "k_meta s' = k_meta s" "k_flags s' = k_flags s" "k_state s' = k_state s" "k_events s' = k_events s"
    "k_cap s' = k_cap s" "k_max_zeroes_sectors s' = k_max_zeroes_sectors s"
  using assms by (auto simp: ident_frame_def)

lemma submit_identify_cases:
  assumes ok: "dma_pool_ok P" and a: "nvme_submit_identify P sync c len s = (v, s')"
  shows "case v of Inl ret \<Rightarrow> ret \<noteq> Ret_ok \<and> ident_frame s s'
    | Inr (buf, d) \<Rightarrow> sync c = (Ret_ok, d) \<and> ident_frame s (dma_free buf s') \<and>
        k_dma s buf = None \<and> (\<exists>m tr. s' = s\<lparr>k_dma := (k_dma s)(buf := Some len), k_mem := m, k_trace := k_trace s @ tr\<rparr>)"
proof (cases "p_dma_alloc P DMA_ALIGN_MIN len (\<lambda>a. k_dma s a \<noteq> None)")
  case None
  then show ?thesis using a by (auto simp: nvme_submit_identify_def dma_zalloc_def dma_alloc_def)
next
  case (Some buf)
  then have "k_dma s buf = None" using dma_pool_okD(1) [OF ok Some] by simp
  then have "(k_dma s)(buf := None) = k_dma s" by (simp add: fun_upd_idem)
  define m where "m = (\<lambda>b. if b - buf < len then 0 else k_mem (s\<lparr>k_dma := (k_dma s)(buf := Some len)\<rparr>) b)"
  define s2 where "s2 = s\<lparr>k_dma := (k_dma s)(buf := Some len), k_mem := m, k_trace := k_trace s @ [Ev_sync c]\<rparr>"
  have f: "ident_frame s (dma_free buf s2)"
    by (rule ident_frameI [where m = m and tr = "[Ev_sync c]"]) (simp add: s2_def dma_free_def \<open>(k_dma s)(buf := None) = k_dma s\<close>)
  have "dma_zalloc P DMA_ALIGN_MIN len s = Some (buf, s\<lparr>k_dma := (k_dma s)(buf := Some len), k_mem := m\<rparr>)"
    using Some by (simp add: dma_zalloc_def dma_alloc_def m_def)
  then have "(v, s') = (if fst (sync c) \<noteq> Ret_ok then (Inl (fst (sync c)), dma_free buf s2) else (Inr (buf, snd (sync c)), s2))"
    using a by (cases "sync c") (auto simp: nvme_submit_identify_def Let_def emit_def s2_def)
  moreover have "\<exists>m tr. s2 = s\<lparr>k_dma := (k_dma s)(buf := Some len), k_mem := m, k_trace := k_trace s @ tr\<rparr>" unfolding s2_def by blast
  moreover note \<open>k_dma s buf = None\<close>
  ultimately show ?thesis using f by (cases "sync c") (auto split: if_splits)
qed

lemma identify_descs_frame:
  assumes ok: "dma_pool_ok P" and a: "nvme_identify_ns_descs P sync info s = (ret, info', s')"
  shows "ident_frame s s' \<and> i_nsid info' = i_nsid info \<and> i_is_removed info' = i_is_removed info"
proof -
  obtain v s1 where v: "nvme_submit_identify P sync (identify_cmd (p_le32 P (i_nsid info)) NVME_ID_CNS_NS_DESC_LIST 0) 4096 s = (v, s1)"
    by (meson surj_pair)
  show ?thesis
    using a v submit_identify_cases [OF ok v]
    by (auto simp: nvme_identify_ns_descs_def split: if_splits sum.splits prod.splits)
qed

lemma identify_ns_nvm_frame:
  assumes ok: "dma_pool_ok P" and a: "nvme_identify_ns_nvm P sync nsid lbaf info s = (ret, info', s')"
  shows "ident_frame s s' \<and> i_nsid info' = i_nsid info \<and> i_is_removed info' = i_is_removed info"
proof -
  obtain v s1 where v: "nvme_submit_identify P sync (identify_cmd (p_le32 P nsid) NVME_ID_CNS_CS_NS NVME_CSI_NVM) 4096 s = (v, s1)"
    by (meson surj_pair)
  show ?thesis
    using a v submit_identify_cases [OF ok v]
    by (auto simp: nvme_identify_ns_nvm_def split: sum.splits)
qed

lemma info_of_identify_sel: "i_nsid (info_of_identify P bogus vs d info) = i_nsid info"
    "i_is_removed (info_of_identify P bogus vs d info) = i_is_removed info"
  by (simp_all add: info_of_identify_def Let_def)

lemma from_identify_frame:
  assumes ok: "dma_pool_ok P" and a: "nvme_ns_info_from_identify P sync info s = (ret, info', s')"
  shows "ident_frame s s' \<and> i_nsid info' = i_nsid info"
proof -
  obtain v s1 where v: "nvme_submit_identify P sync (identify_cmd (p_le32 P (i_nsid info)) NVME_ID_CNS_NS 0) 4096 s = (v, s1)"
    by (meson surj_pair)
  note c = submit_identify_cases [OF ok v]
  show ?thesis
  proof (cases v)
    case (Inl r)
    then show ?thesis using a v c by (auto simp: nvme_ns_info_from_identify_def nvme_identify_ns_def)
  next
    case (Inr p)
    obtain buf d where p: "p = (buf, d)" by (cases p)
    have f: "ident_frame s (dma_free buf s1)" using c Inr p by auto
    define i1 where "i1 = info_of_identify P (bit (k_quirks s1) NVME_QUIRK_BOGUS_NID) (c_vs (k_caps s1)) d info"
    obtain r2 i2 s2 where n: "nvme_identify_ns_nvm P sync (i_nsid i1) (nvme_lbaf_index (d 26)) i1 s1 = (r2, i2, s2)"
      by (metis prod_cases3)
    note nf = identify_ns_nvm_frame [OF ok n]
    have "ident_frame s (dma_free buf s2)" using nf f ident_frame_free ident_frame_trans by blast
    then show ?thesis
      using a v Inr p f n nf
      by (auto simp: nvme_ns_info_from_identify_def nvme_identify_ns_def i1_def Let_def info_of_identify_sel split: if_splits)
  qed
qed

lemma cs_indep_frame:
  assumes ok: "dma_pool_ok P" and a: "nvme_ns_info_from_id_cs_indep P sync info s = (ret, info', s')"
  shows "ident_frame s s' \<and> i_nsid info' = i_nsid info"
proof -
  obtain v s1 where v: "nvme_submit_identify P sync (identify_cmd (p_le32 P (i_nsid info)) NVME_ID_CNS_NS_CS_INDEP 0) 4096 s = (v, s1)"
    by (meson surj_pair)
  show ?thesis
    using a v submit_identify_cases [OF ok v]
    by (auto simp: nvme_ns_info_from_id_cs_indep_def split: sum.splits)
qed

lemma ns_info_frame:
  assumes ok: "dma_pool_ok P" and a: "nvme_identify_ns_info P sync info s = (ret, info', s')"
  shows "ident_frame s s' \<and> i_nsid info' = i_nsid info"
proof -
  obtain r1 i1 s1 where d: "nvme_identify_ns_descs P sync info s = (r1, i1, s1)" by (metis prod_cases3)
  obtain r2 i2 s2 where n: "nvme_ns_info_from_identify P sync i1 s1 = (r2, i2, s2)" by (metis prod_cases3)
  obtain r3 i3 s3 where c: "nvme_ns_info_from_id_cs_indep P sync i2 s2 = (r3, i3, s3)" by (metis prod_cases3)
  note f1 = identify_descs_frame [OF ok d] and f2 = from_identify_frame [OF ok n] and f3 = cs_indep_frame [OF ok c]
  have f12: "ident_frame s s2" using f1 f2 ident_frame_trans by blast
  then have f13: "ident_frame s s3" using f3 ident_frame_trans by blast
  have "(info', s') \<in> {(i1, s1), (i2, s2), (i3, s3)}"
    using a d n c by (auto simp: nvme_identify_ns_info_def split: if_splits)
  then show ?thesis using f1 f2 f3 f12 f13 by auto
qed

section \<open>The descriptor parser\<close>

lemma byte_swap_0: "byte_swap 0 = 0"
  by (rule bit_word_eqI) (simp add: bit_byte_swap)

text \<open>
  The wire form of a descriptor, and what a list of them says: each known type sets its
  identifier (unless the identifiers of the controller are bogus), later ones override
  earlier ones, unknown types are ignored.
\<close>

type_synonym ns_desc = "u8 \<times> u8 list"

definition enc_desc :: "ns_desc \<Rightarrow> u8 list" where
  "enc_desc p = [fst p, of_nat (length (snd p)), 0, 0] @ snd p"

definition desc_wf :: "ns_desc \<Rightarrow> bool" where
  "desc_wf p \<longleftrightarrow> (let t = fst p; n = length (snd p) in
     0 < n \<and> n < 256 \<and> (t = 1 \<longrightarrow> n = 8) \<and> (t = 2 \<or> t = 3 \<longrightarrow> n = 16) \<and> (t = 4 \<longrightarrow> n = 1))"

definition desc_value :: "bool \<Rightarrow> ns_desc \<Rightarrow> nvme_ns_ids \<times> bool \<Rightarrow> nvme_ns_ids \<times> bool" where
  "desc_value bogus p = (\<lambda>(ids, seen).
     if fst p = 4 then (ids\<lparr>ids_csi := hd (snd p)\<rparr>, True)
     else if bogus then (ids, seen)
     else if fst p = 1 then (ids\<lparr>ids_eui64 := snd p\<rparr>, seen)
     else if fst p = 2 then (ids\<lparr>ids_nguid := snd p\<rparr>, seen)
     else if fst p = 3 then (ids\<lparr>ids_uuid := snd p\<rparr>, seen)
     else (ids, seen))"

lemma get_bytes_append: "get_bytes d o' (m + n) = get_bytes d o' m @ get_bytes d (o' + m) n"
  by (rule nth_equalityI) (auto simp: get_bytes_def nth_append)

lemma length_get_bytes [simp]: "length (get_bytes d o' n) = n"
  by (simp add: get_bytes_def)

lemma get_bytes_Suc: "get_bytes d o' (Suc n) = d o' # get_bytes d (Suc o') n"
  using get_bytes_append [of d o' 1 n] by (simp add: get_bytes_def)

lemma length_enc_desc: "length (enc_desc p) = length (snd p) + 4"
  by (simp add: enc_desc_def)

lemma unat_of_nat8: "k < 256 \<Longrightarrow> unat (of_nat k :: u8) = k"
  by (simp add: unat_of_nat)

lemma process_desc:
  assumes wf: "desc_wf p" and g: "get_bytes d pos (length (enc_desc p)) = enc_desc p"
  shows "nvme_process_ns_desc bogus d pos ids seen = (Desc_len (length (snd p)), desc_value bogus p (ids, seen))"
    "d (pos + 1) \<noteq> 0"
proof -
  obtain t bs where p: "p = (t, bs)" by (cases p)
  have n: "0 < length bs" "length bs < 256" using wf by (auto simp: p desc_wf_def Let_def)
  have "get_bytes d pos (Suc (Suc (Suc (Suc (length bs))))) = [t, of_nat (length bs), 0, 0] @ bs"
    using g by (simp add: p enc_desc_def)
  then have f: "d pos = t" "d (pos + 1) = of_nat (length bs)" "get_bytes d (pos + 4) (length bs) = bs"
    by (simp_all add: get_bytes_Suc eval_nat_numeral)
  have u: "unat (of_nat (length bs) :: u8) = length bs" using n(2) by (simp add: unat_of_nat)
  then show "d (pos + 1) \<noteq> 0" using n(1) f(2) by (metis unat_0 neq0_conv)
  have eq: "(of_nat (length bs) = (of_nat k :: u8)) = (length bs = k)" if "k < 256" for k
    using that u by (metis unat_of_nat8)
  have "d (pos + 4) = hd bs" if "length bs = 1" using f(3) that by (auto simp: get_bytes_def)
  then show "nvme_process_ns_desc bogus d pos ids seen = (Desc_len (length (snd p)), desc_value bogus p (ids, seen))"
    using wf f u eq [of 8] eq [of 16] eq [of 1]
    by (auto simp: nvme_process_ns_desc_def Let_def desc_value_def p desc_wf_def)
qed

text \<open>
  C15.  Parsing undoes the encoding: for a response that holds a sequence of well-formed
  descriptors of at most 4096 bytes, closed by a zero length byte or by the end of the
  buffer, the parser computes exactly what the descriptors say, in order.
\<close>

theorem ns_desc_roundtrip:
  assumes "\<forall>p \<in> set ps. desc_wf p" "get_bytes d pos (length (concat (map enc_desc ps))) = concat (map enc_desc ps)"
    and "pos + length (concat (map enc_desc ps)) \<le> NVME_IDENTIFY_DATA_SIZE"
    and "pos + length (concat (map enc_desc ps)) = NVME_IDENTIFY_DATA_SIZE \<or> d (pos + length (concat (map enc_desc ps)) + 1) = 0"
  shows "ns_desc_loop bogus d pos ids seen = fold (desc_value bogus) ps (ids, seen)"
  using assms
proof (induction ps arbitrary: pos ids seen)
  case Nil
  then show ?case by (auto simp: ns_desc_loop.simps)
next
  case (Cons p ps)
  let ?n = "length (enc_desc p)" and ?r = "concat (map enc_desc ps)"
  have "get_bytes d pos ?n @ get_bytes d (pos + ?n) (length ?r) = enc_desc p @ ?r"
    using Cons.prems(2) by (simp add: get_bytes_append [symmetric])
  then have g: "get_bytes d pos ?n = enc_desc p" "get_bytes d (pos + ?n) (length ?r) = ?r" by (auto simp: append_eq_append_conv)
  note pd = process_desc [OF _ g(1)]
  obtain ids' seen' where v: "desc_value bogus p (ids, seen) = (ids', seen')" by (meson surj_pair)
  have "ns_desc_loop bogus d (pos + ?n) ids' seen' = fold (desc_value bogus) ps (ids', seen')"
    by (rule Cons.IH) (use Cons.prems g(2) in \<open>auto simp: add.assoc\<close>)
  then show ?case
    using pd Cons.prems v by (subst ns_desc_loop.simps) (auto simp: length_enc_desc)
qed

definition demo_descs :: id_buf where
  "demo_descs o' = (let bs = enc_desc (4, [0]) @ enc_desc (1, [1, 2, 3, 4, 5, 6, 7, 8]) in if o' < length bs then bs ! o' else 0)"

theorem ns_desc_roundtrip_witness:
  "ns_desc_loop False demo_descs 0 zero_ids False = (zero_ids\<lparr>ids_eui64 := [1, 2, 3, 4, 5, 6, 7, 8], ids_csi := 0\<rparr>, True)"
proof -
  let ?ps = "[(4, [0]), (1, [1, 2, 3, 4, 5, 6, 7, 8])] :: ns_desc list"
  have l: "length (concat (map enc_desc ?ps)) = 17" by (simp add: enc_desc_def)
  have g: "get_bytes demo_descs 0 17 = concat (map enc_desc ?ps)"
    by (simp add: get_bytes_def upt_rec demo_descs_def enc_desc_def)
  have "ns_desc_loop False demo_descs 0 zero_ids False = fold (desc_value False) ?ps (zero_ids, False)"
    by (rule ns_desc_roundtrip) (simp_all only: l g, simp_all add: desc_wf_def demo_descs_def enc_desc_def)
  then show ?thesis by (simp add: desc_value_def zero_ids_def)
qed

text \<open>
  The parser ends, whatever the controller answers, and looks at no byte beyond the
  nineteenth after the response: two buffers that agree up to there give the same identifiers.
\<close>

theorem ns_desc_reads_bounded:
  assumes "\<forall>i < NVME_IDENTIFY_DATA_SIZE + 19. d' i = d i"
  shows "ns_desc_loop bogus d' pos ids seen = ns_desc_loop bogus d pos ids seen"
  using assms
proof (induction bogus d pos ids seen rule: ns_desc_loop.induct)
  case (1 bogus d pos ids seen)
  show ?case
  proof (cases "NVME_IDENTIFY_DATA_SIZE \<le> pos")
    case True
    then show ?thesis by (simp add: ns_desc_loop.simps)
  next
    case False
    have "get_bytes d' (pos + 4) n = get_bytes d (pos + 4) n" if "n \<le> 16" for n
      using that 1(2) False by (auto simp: get_bytes_def)
    then have e: "nvme_process_ns_desc bogus d' pos ids seen = nvme_process_ns_desc bogus d pos ids seen" "d' (pos + 1) = d (pos + 1)"
      using 1(2) False by (auto simp: nvme_process_ns_desc_def Let_def)
    show ?thesis using 1 False e
      by (subst (1 2) ns_desc_loop.simps) (auto split: prod.splits ns_desc_result.splits)
  qed
qed

theorem ns_desc_reads_bounded_witness:
  "ns_desc_loop False (demo_descs(5000 := 7)) 0 zero_ids False = ns_desc_loop False demo_descs 0 zero_ids False"
  by (rule ns_desc_reads_bounded) simp

text \<open>A response whose last descriptor starts at its last byte.\<close>

definition edge_descs :: "u8 \<Rightarrow> id_buf" where
  "edge_descs x o' =
    (if o' < 3885 then (if o' mod 259 = 0 then 9 else if o' mod 259 = 1 then 255 else 0)
     else if o' = 3885 then 9 else if o' = 3886 then 206 else if o' = 4095 then 4 else if o' = 4096 then x else 0)"

lemma edge_loop: "ns_desc_loop False (edge_descs x) 0 zero_ids False = ns_desc_loop False (edge_descs x) 4095 zero_ids False"
  by (simp add: ns_desc_loop.simps [of False "edge_descs x" "numeral k" for k] ns_desc_loop.simps [of False "edge_descs x" 0]
      nvme_process_ns_desc_def edge_descs_def)

text \<open>
  The bytes behind the response do decide the outcome: two responses that agree in all
  their 4096 bytes, but are followed by different memory, are parsed differently.
\<close>

theorem ns_desc_overread:
  "get_bytes (edge_descs 1) 0 NVME_IDENTIFY_DATA_SIZE = get_bytes (edge_descs 0) 0 NVME_IDENTIFY_DATA_SIZE \<and>
   ns_desc_loop False (edge_descs 1) 0 zero_ids False \<noteq> ns_desc_loop False (edge_descs 0) 0 zero_ids False"
proof -
  have "snd (ns_desc_loop False (edge_descs 1) 4095 zero_ids False)" "\<not> snd (ns_desc_loop False (edge_descs 0) 4095 zero_ids False)"
    by (simp_all add: ns_desc_loop.simps nvme_process_ns_desc_def edge_descs_def)
  then show ?thesis unfolding edge_loop by (auto simp: get_bytes_def edge_descs_def)
qed

end
