(* ===== verification/Nvme_Hmb.thy ===== *)
theory Nvme_Hmb
  imports Nvme_Identify
begin

text \<open>
  The Host Memory Buffer of src/nvme/nvme_hmb.c: the greedy allocator, the Set Features
  command that announces the buffer, and its release.  Sizes are naturals: the 64-bit
  values of the code stay below 2^44, so none of its sums wraps.  The answer of the
  controller to a synchronous command is the parameter \<open>sync\<close>.
\<close>

section \<open>The allocator\<close>

abbreviation (input) NVME_CTRL_PAGE_SIZE :: nat where "NVME_CTRL_PAGE_SIZE \<equiv> 4096"
abbreviation (input) NVME_MAX_HMB_BYTES :: nat where "NVME_MAX_HMB_BYTES \<equiv> 134217728"
abbreviation (input) NVME_HMB_START_CHUNK :: nat where "NVME_HMB_START_CHUNK \<equiv> 16777216"
abbreviation (input) NVME_HMB_MIN_CHUNK :: nat where "NVME_HMB_MIN_CHUNK \<equiv> 8192"
abbreviation (input) NVME_FEAT_HOST_MEM_BUF :: u32 where "NVME_FEAT_HOST_MEM_BUF \<equiv> 0xd"
abbreviation (input) NVME_HOST_MEM_ENABLE :: u32 where "NVME_HOST_MEM_ENABLE \<equiv> 1"

definition hmb_floor :: "u32 \<Rightarrow> nat" where
  "hmb_floor hmminds = (let hmminds_bytes = unat hmminds * NVME_CTRL_PAGE_SIZE in
     if NVME_HMB_MIN_CHUNK < hmminds_bytes then hmminds_bytes else NVME_HMB_MIN_CHUNK)"

definition hmmaxd_cap :: "nvme_caps \<Rightarrow> nat \<Rightarrow> nat" where
  "hmmaxd_cap c preferred = (let floor = hmb_floor (c_hmminds c) in
     if c_hmmaxd c \<noteq> 0 then unat (c_hmmaxd c) else (preferred + floor - 1) div floor)"

definition hmb_desc :: "platform \<Rightarrow> u32 \<Rightarrow> nat \<Rightarrow> nvme_host_mem_buf_desc" where
  "hmb_desc P buf bytes = \<lparr>hd_addr = p_le64 P (ucast buf), hd_size = p_le32 P (of_nat (bytes div NVME_CTRL_PAGE_SIZE))\<rparr>"

definition zero_desc :: nvme_host_mem_buf_desc where
  "zero_desc = \<lparr>hd_addr = 0, hd_size = 0\<rparr>"

lemma hmb_floor_ge: "NVME_HMB_MIN_CHUNK \<le> hmb_floor m"
  by (simp add: hmb_floor_def Let_def)

text \<open>The greedy fill: the descriptors so far, the bytes they cover, and the state.\<close>

function hmb_fill :: "platform \<Rightarrow> u32 \<Rightarrow> nat \<Rightarrow> nat \<Rightarrow> nat \<Rightarrow> nvme_host_mem_buf_desc list \<Rightarrow> nat \<Rightarrow> NVMeController \<Rightarrow>
    nvme_host_mem_buf_desc list \<times> nat \<times> NVMeController" where
  "hmb_fill P hmminds preferred cap attempt descs got s =
    (if got < preferred \<and> length descs < cap \<and> hmb_floor hmminds \<le> attempt then
       let remaining = preferred - got;
           chunk_size = (if attempt < remaining then attempt else remaining)
       in if chunk_size < hmb_floor hmminds then (descs, got, s)
          else case dma_alloc P 4096 (of_nat chunk_size) s of
            Some (buf, s') \<Rightarrow>
              hmb_fill P hmminds preferred cap attempt (descs @ [hmb_desc P buf chunk_size]) (got + chunk_size) s'
          | None \<Rightarrow> hmb_fill P hmminds preferred cap (attempt div 2) descs got s
     else (descs, got, s))"
  by pat_completeness auto
termination
proof (relation "measure (\<lambda>(P, m, preferred, cap, attempt, descs, got, s). attempt + (preferred - got))")
  fix P :: platform and m :: u32 and preferred cap attempt got :: nat and descs :: "nvme_host_mem_buf_desc list"
    and s :: NVMeController and x xa xb xc xd
  note ge = hmb_floor_ge [of m]
  assume a: "got < preferred \<and> length descs < cap \<and> hmb_floor m \<le> attempt"
  { assume "x = preferred - got" "xa = (if attempt < x then attempt else x)" "\<not> xa < hmb_floor m"
    then show "((P, m, preferred, cap, attempt, descs @ [hmb_desc P xc xa], got + xa, xd), P, m, preferred, cap, attempt, descs, got, s)
       \<in> measure (\<lambda>(P, m, preferred, cap, attempt, descs, got, s). attempt + (preferred - got))"
      using a ge by (auto split: if_splits) }
  { show "((P, m, preferred, cap, attempt div 2, descs, got, s), P, m, preferred, cap, attempt, descs, got, s)
       \<in> measure (\<lambda>(P, m, preferred, cap, attempt, descs, got, s). attempt + (preferred - got))"
      using a ge by auto }
qed auto

declare hmb_fill.simps [simp del]

section \<open>Allocation, announcement and release\<close>

definition hmb_chunks_free :: "platform \<Rightarrow> NVMeController \<Rightarrow> NVMeController" where
  "hmb_chunks_free P s =
    (case k_hmb_descs s of
       None \<Rightarrow> s
     | Some (tab, descs) \<Rightarrow>
        let bufs = filter (\<lambda>a. a \<noteq> 0) (map (\<lambda>d. ucast (p_le64 P (hd_addr d))) (take (k_hmb_nr_descs s) descs))
        in dma_free tab (fold dma_free bufs s)\<lparr>k_hmb_descs := None\<rparr>)
      \<lparr>k_hmb_nr_descs := 0, k_hmb_size := 0\<rparr>"

definition hmb_one_block :: "platform \<Rightarrow> u32 \<Rightarrow> nat \<Rightarrow> NVMeController \<Rightarrow> nvme_host_mem_buf_desc list \<times> nat \<times> NVMeController" where
  "hmb_one_block P hmminds preferred s =
    (if hmb_floor hmminds \<le> preferred then
       case dma_alloc P 4096 (of_nat preferred) s of
         Some (buf, s') \<Rightarrow> ([hmb_desc P buf preferred], preferred, s')
       | None \<Rightarrow> ([], 0, s)
     else ([], 0, s))"

definition nvme_alloc_host_mem :: "platform \<Rightarrow> nat \<Rightarrow> nat \<Rightarrow> NVMeController \<Rightarrow> bool \<times> NVMeController" where
  "nvme_alloc_host_mem P minimum preferred s =
    (let hmminds = c_hmminds (k_caps s); cap = hmmaxd_cap (k_caps s) preferred;
         descs_size = of_nat (cap * 16)
     in case dma_zalloc P 4096 descs_size s of
       None \<Rightarrow> (False, s)
     | Some (tab, s1) \<Rightarrow>
        let s2 = s1\<lparr>k_hmb_descs := Some (tab, replicate cap zero_desc), k_hmb_nr_descs := 0, k_hmb_size := 0\<rparr>;
            (descs0, got0, s3) = hmb_one_block P hmminds preferred s2;
            attempt = (if preferred < NVME_HMB_START_CHUNK then preferred else NVME_HMB_START_CHUNK);
            (descs, got, s4) = hmb_fill P hmminds preferred cap attempt descs0 got0 s3;
            s5 = s4\<lparr>k_hmb_descs := Some (tab, descs @ replicate (cap - length descs) zero_desc),
                     k_hmb_nr_descs := length descs, k_hmb_size := of_nat got\<rparr>
        in if got < minimum then (False, hmb_chunks_free P s5) else (True, emit (Ev_flush tab descs_size True) s5))"

definition host_mem_cmd :: "platform \<Rightarrow> u32 \<Rightarrow> NVMeController \<Rightarrow> nvme_command" where
  "host_mem_cmd P bits s =
    (let pages = k_hmb_size s div 4096;
         dma_addr = (case k_hmb_descs s of Some (tab, _) \<Rightarrow> ucast tab | None \<Rightarrow> 0) :: u64
     in zero_cmd\<lparr>cmd_opcode := nvme_admin_set_features,
          cmd_body := Body_cdw [p_le32 P NVME_FEAT_HOST_MEM_BUF, p_le32 P bits, p_le32 P pages,
            p_le32 P (ucast dma_addr), p_le32 P (ucast (drop_bit 32 dma_addr)), p_le32 P (of_nat (k_hmb_nr_descs s))]\<rparr>)"

definition nvme_set_host_mem :: "platform \<Rightarrow> (nvme_command \<Rightarrow> sync_ret) \<Rightarrow> u32 \<Rightarrow> NVMeController \<Rightarrow> sync_ret \<times> NVMeController" where
  "nvme_set_host_mem P sync bits s = (let cmd = host_mem_cmd P bits s in (sync cmd, emit (Ev_sync cmd) s))"

definition nvme_setup_host_mem :: "platform \<Rightarrow> (nvme_command \<Rightarrow> sync_ret) \<Rightarrow> NVMeController \<Rightarrow> NVMeController" where
  "nvme_setup_host_mem P sync s =
    (if c_hmpre (k_caps s) = 0 then s
     else
       let preferred0 = unat (c_hmpre (k_caps s)) * NVME_CTRL_PAGE_SIZE;
           minimum = unat (c_hmmin (k_caps s)) * NVME_CTRL_PAGE_SIZE;
           preferred = (if NVME_MAX_HMB_BYTES < preferred0 then NVME_MAX_HMB_BYTES else preferred0)
       in if NVME_MAX_HMB_BYTES < minimum then s
          else case nvme_alloc_host_mem P minimum preferred s of
            (False, s1) \<Rightarrow> s1
          | (True, s1) \<Rightarrow>
             (case nvme_set_host_mem P sync NVME_HOST_MEM_ENABLE s1 of (ret, s2) \<Rightarrow>
                if ret \<noteq> Ret_ok then hmb_chunks_free P s2 else s2))"

definition nvme_free_host_mem :: "platform \<Rightarrow> (nvme_command \<Rightarrow> sync_ret) \<Rightarrow> NVMeController \<Rightarrow> NVMeController" where
  "nvme_free_host_mem P sync s =
    (if k_hmb_descs s = None then s else hmb_chunks_free P (snd (nvme_set_host_mem P sync 0 s)))"

section \<open>What the allocator has taken\<close>

text \<open>
  The chunks behind a descriptor list, as address and byte count: fresh, distinct,
  page-aligned pieces of the DMA pool, none below the floor.
\<close>

definition hmb_taken :: "platform \<Rightarrow> u32 \<Rightarrow> (u32 \<rightharpoonup> u32) \<Rightarrow> (u32 \<times> nat) list \<Rightarrow>
    nvme_host_mem_buf_desc list \<Rightarrow> nat \<Rightarrow> (u32 \<rightharpoonup> u32) \<Rightarrow> bool" where
  "hmb_taken P m D cs descs got D' \<longleftrightarrow> descs = map (\<lambda>(a, n). hmb_desc P a n) cs \<and> got = sum_list (map snd cs) \<and>
     distinct (map fst cs) \<and> D' = D ++ map_of (map (\<lambda>(a, n). (a, of_nat n)) cs) \<and>
     (\<forall>(a, n) \<in> set cs. D a = None \<and> a \<noteq> 0 \<and> unat a mod NVME_CTRL_PAGE_SIZE = 0 \<and> hmb_floor m \<le> n)"

lemma hmb_taken_nil: "hmb_taken P m D [] [] 0 D"
  by (simp add: hmb_taken_def)

lemma dom_chunks: "dom (map_of (map (\<lambda>(a, n). (a, of_nat n :: u32)) cs)) = fst ` set cs"
  by (simp add: dom_map_of_conv_image_fst image_image split_def)

lemma hmb_taken_alloc:
  assumes t: "hmb_taken P m D cs descs got (k_dma s)" and ok: "dma_pool_ok P"
    and a: "dma_alloc P 4096 (of_nat n) s = Some (a, s')" and n: "hmb_floor m \<le> n"
  shows "hmb_taken P m D (cs @ [(a, n)]) (descs @ [hmb_desc P a n]) (got + n) (k_dma s')"
proof -
  have p: "p_dma_alloc P 4096 (of_nat n) (\<lambda>a. k_dma s a \<noteq> None) = Some a" and s': "k_dma s' = (k_dma s)(a := Some (of_nat n))"
    using a by (auto simp: dma_alloc_def split: option.splits)
  have f: "k_dma s a = None" "a \<noteq> 0" "unat a mod NVME_CTRL_PAGE_SIZE = 0" using dma_pool_okD [OF ok p] by simp_all
  have D: "k_dma s = D ++ map_of (map (\<lambda>(a, n). (a, of_nat n)) cs)" using t by (simp add: hmb_taken_def)
  then have na: "D a = None" "map_of (map (\<lambda>(a, n). (a, of_nat n :: u32)) cs) a = None"
    using f(1) by (simp_all add: map_add_None)
  then have "a \<notin> fst ` set cs" using dom_chunks [of cs] by (auto simp: domIff)
  moreover have "k_dma s' = D ++ map_of (map (\<lambda>(a, n). (a, of_nat n)) (cs @ [(a, n)]))"
    using na by (auto simp: s' D fun_eq_iff map_add_def split: option.split)
  ultimately show ?thesis using t f na n by (auto simp: hmb_taken_def)
qed

lemma hmb_fill_taken:
  assumes ok: "dma_pool_ok P" and t: "hmb_taken P m D cs descs got (k_dma s)" "length descs \<le> cap" "got \<le> preferred"
    and f: "hmb_fill P m preferred cap attempt descs got s = (descs', got', s')"
  shows "\<exists>cs'. hmb_taken P m D cs' descs' got' (k_dma s') \<and> length descs' \<le> cap \<and> got' \<le> preferred \<and> got \<le> got' \<and>
    s' = s\<lparr>k_dma := k_dma s'\<rparr>"
  using ok t f
proof (induction P m preferred cap attempt descs got s arbitrary: cs rule: hmb_fill.induct)
  case (1 P m preferred cap attempt descs got s)
  let ?c = "if attempt < preferred - got then attempt else preferred - got"
  show ?case
  proof (cases "got < preferred \<and> length descs < cap \<and> hmb_floor m \<le> attempt \<and> \<not> ?c < hmb_floor m")
    case False
    then have "(descs', got', s') = (descs, got, s)" using 1(7) by (subst (asm) hmb_fill.simps) (auto simp: Let_def split: if_splits)
    then show ?thesis using 1(4-6) by auto
  next
    case go: True
    show ?thesis
    proof (cases "dma_alloc P 4096 (of_nat ?c) s")
      case None
      then have "hmb_fill P m preferred cap (attempt div 2) descs got s = (descs', got', s')"
        using 1(7) go by (subst (asm) hmb_fill.simps) (simp add: Let_def)
      then show ?thesis using 1(1) [OF _ refl refl _ None 1(3-6)] go by blast
    next
      case (Some p)
      obtain a s1 where p: "p = (a, s1)" by (cases p)
      obtain d where s1: "s1 = s\<lparr>k_dma := d\<rparr>" using Some p by (auto simp: dma_alloc_def split: option.splits)
      have rest: "hmb_fill P m preferred cap attempt (descs @ [hmb_desc P a ?c]) (got + ?c) s1 = (descs', got', s')"
        using 1(7) go Some p by (subst (asm) hmb_fill.simps) (simp add: Let_def)
      have t1: "hmb_taken P m D (cs @ [(a, ?c)]) (descs @ [hmb_desc P a ?c]) (got + ?c) (k_dma s1)"
        by (rule hmb_taken_alloc [OF 1(4,3) Some [unfolded p]]) (use go in simp)
      have le: "got + ?c \<le> preferred" "length (descs @ [hmb_desc P a ?c]) \<le> cap" using go by auto
      obtain cs' where "hmb_taken P m D cs' descs' got' (k_dma s')" "length descs' \<le> cap" "got' \<le> preferred" "got + ?c \<le> got'"
        "s' = s1\<lparr>k_dma := k_dma s'\<rparr>"
        using 1(2) [OF _ refl refl _ Some p [symmetric] 1(3) t1 le(2,1) rest] go by blast
      then show ?thesis using s1 by (intro exI [of _ cs']) simp
    qed
  qed
qed

lemma hmb_one_block_taken:
  assumes ok: "dma_pool_ok P" and f: "hmb_one_block P m preferred s = (descs, got, s')" and cap: "hmb_floor m \<le> preferred \<Longrightarrow> 0 < cap"
  shows "\<exists>cs. hmb_taken P m (k_dma s) cs descs got (k_dma s') \<and> length descs \<le> cap \<and> got \<le> preferred \<and> s' = s\<lparr>k_dma := k_dma s'\<rparr>"
proof (cases "hmb_floor m \<le> preferred \<and> dma_alloc P 4096 (of_nat preferred) s \<noteq> None")
  case False
  then have "(descs, got, s') = ([], 0, s)" using f by (auto simp: hmb_one_block_def split: if_splits option.splits)
  then show ?thesis using hmb_taken_nil by auto
next
  case True
  then obtain a s1 where a: "dma_alloc P 4096 (of_nat preferred) s = Some (a, s1)" by auto
  then have e: "descs = [hmb_desc P a preferred]" "got = preferred" "s' = s1" using f True by (auto simp: hmb_one_block_def)
  have "s1 = s\<lparr>k_dma := k_dma s1\<rparr>" using a by (auto simp: dma_alloc_def split: option.splits)
  then show ?thesis using hmb_taken_alloc [OF hmb_taken_nil ok a] True e cap by force
qed

lemma cap_pos: "hmb_floor (c_hmminds c) \<le> preferred \<Longrightarrow> 0 < hmmaxd_cap c preferred"
  using hmb_floor_ge [of "c_hmminds c"]
  by (auto simp: hmmaxd_cap_def Let_def unat_gt_0 div_greater_zero_iff)

section \<open>Release\<close>

lemma chunk_addrs:
  assumes "le_ok P" "\<forall>(a, n) \<in> set cs. a \<noteq> 0"
  shows "filter (\<lambda>a. a \<noteq> 0) (map (\<lambda>d. ucast (p_le64 P (hd_addr d)) :: u32) (map (\<lambda>(a, n). hmb_desc P a n) cs)) = map fst cs"
proof -
  have "(\<lambda>d. ucast (p_le64 P (hd_addr d)) :: u32) \<circ> (\<lambda>(a, n). hmb_desc P a n) = fst"
    by (auto simp: fun_eq_iff hmb_desc_def le_okD [OF assms(1)] ucast_up_down_32)
  then have "map (\<lambda>d. ucast (p_le64 P (hd_addr d)) :: u32) (map (\<lambda>(a, n). hmb_desc P a n) cs) = map fst cs" by simp
  moreover have "filter (\<lambda>a. a \<noteq> 0) (map fst cs) = map fst cs" using assms(2) by (auto simp: filter_id_conv)
  ultimately show ?thesis by (simp only:)
qed

lemma chunks_free_restores:
  assumes le: "le_ok P" and D: "D tab = None" and t: "hmb_taken P m (D(tab := Some x)) cs descs got (k_dma s)"
    and k: "k_hmb_descs s = Some (tab, descs @ pad)" "k_hmb_nr_descs s = length descs"
  shows "hmb_chunks_free P s = s\<lparr>k_dma := D, k_hmb_descs := None, k_hmb_nr_descs := 0, k_hmb_size := 0\<rparr>"
proof -
  have d: "descs = map (\<lambda>(a, n). hmb_desc P a n) cs" and nz: "\<forall>(a, n) \<in> set cs. a \<noteq> 0"
    and kd: "k_dma s = D(tab := Some x) ++ map_of (map (\<lambda>(a, n). (a, of_nat n)) cs)"
    and none: "\<forall>(a, n) \<in> set cs. (D(tab := Some x)) a = None" using t by (auto simp: hmb_taken_def)
  have "(if a = tab \<or> a \<in> fst ` set cs then None else k_dma s a) = D a" for a
  proof -
    have "map_of (map (\<lambda>(a, n). (a, of_nat n :: u32)) cs) a = None" if "a \<notin> fst ` set cs"
      using that dom_chunks [of cs] by blast
    moreover have "D a = None" if "a \<in> fst ` set cs" using none that D by (auto split: if_splits)
    ultimately show ?thesis using D by (auto simp: kd map_add_def)
  qed
  then have "(if a = tab then None else if a \<in> set (map fst cs) then None else k_dma s a) = D a" for a
    by (metis set_map)
  then have "(\<lambda>a. if a = tab then None else if a \<in> set (map fst cs) then None else k_dma s a) = D" by (rule ext)
  then have D': "D = (\<lambda>a. if a = tab then None else if a \<in> set (map fst cs) then None else k_dma s a)" by simp
  have "take (k_hmb_nr_descs s) (descs @ pad) = map (\<lambda>(a, n). hmb_desc P a n) cs" by (simp add: k d)
  then have b: "filter (\<lambda>a. a \<noteq> 0) (map (\<lambda>d. ucast (p_le64 P (hd_addr d)) :: u32) (take (length descs) (descs @ pad))) = map fst cs"
    using chunk_addrs [OF le nz] by (simp only: k)
  have "hmb_chunks_free P s = dma_free tab (fold dma_free (map fst cs) s)\<lparr>k_hmb_descs := None, k_hmb_nr_descs := 0, k_hmb_size := 0\<rparr>"
    unfolding hmb_chunks_free_def k option.case prod.case Let_def b ..
  then show ?thesis
    by (subst D') (simp add: fold_dma_free dma_free_def fun_upd_def cong del: if_weak_cong)
qed

section \<open>Contracts\<close>

text \<open>An enabled buffer: the table and its chunks, on top of what the pool had before.\<close>

definition hmb_ready :: "platform \<Rightarrow> u32 \<Rightarrow> (u32 \<rightharpoonup> u32) \<Rightarrow> (u32 \<times> nat) list \<Rightarrow> NVMeController \<Rightarrow> bool" where
  "hmb_ready P m D cs s \<longleftrightarrow> (\<exists>tab x pad. D tab = None \<and>
     hmb_taken P m (D(tab := Some x)) cs (map (\<lambda>(a, n). hmb_desc P a n) cs) (sum_list (map snd cs)) (k_dma s) \<and>
     k_hmb_descs s = Some (tab, map (\<lambda>(a, n). hmb_desc P a n) cs @ pad) \<and> k_hmb_nr_descs s = length cs \<and>
     unat (k_hmb_size s) = sum_list (map snd cs))"

lemma ready_free:
  assumes "le_ok P" "hmb_ready P m D cs s"
  shows "hmb_chunks_free P s = s\<lparr>k_dma := D, k_hmb_descs := None, k_hmb_nr_descs := 0, k_hmb_size := 0\<rparr>"
  using assms chunks_free_restores [OF assms(1)] unfolding hmb_ready_def by (metis length_map)

lemma alloc_host_mem_cases:
  assumes ok: "dma_pool_ok P" "le_ok P" and b: "preferred \<le> NVME_MAX_HMB_BYTES" and h: "k_hmb_descs s = None"
    and a: "nvme_alloc_host_mem P minimum preferred s = (res, s')"
  shows "if res
    then \<exists>cs. hmb_ready P (c_hmminds (k_caps s)) (k_dma s) cs s' \<and> length cs \<le> hmmaxd_cap (k_caps s) preferred \<and>
      minimum \<le> sum_list (map snd cs) \<and> sum_list (map snd cs) \<le> preferred
    else k_dma s' = k_dma s \<and> k_hmb_descs s' = None"
proof -
  let ?m = "c_hmminds (k_caps s)" and ?cap = "hmmaxd_cap (k_caps s) preferred"
  show ?thesis
  proof (cases "dma_zalloc P 4096 (of_nat (?cap * 16)) s")
    case None
    then show ?thesis using a h by (simp add: nvme_alloc_host_mem_def Let_def)
  next
    case (Some p)
    obtain tab s1 where p: "p = (tab, s1)" by (cases p)
    have z: "p_dma_alloc P 4096 (of_nat (?cap * 16)) (\<lambda>a. k_dma s a \<noteq> None) = Some tab"
      and s1: "k_dma s1 = (k_dma s)(tab := Some (of_nat (?cap * 16)))"
      using Some p by (auto simp: dma_zalloc_def dma_alloc_def split: option.splits)
    have tab: "k_dma s tab = None" using dma_pool_okD(1) [OF ok(1) z] by simp
    define s2 where "s2 = s1\<lparr>k_hmb_descs := Some (tab, replicate ?cap zero_desc), k_hmb_nr_descs := 0, k_hmb_size := 0\<rparr>"
    obtain d0 g0 s3 where o: "hmb_one_block P ?m preferred s2 = (d0, g0, s3)" by (metis prod_cases3)
    obtain cs0 where c0: "hmb_taken P ?m (k_dma s2) cs0 d0 g0 (k_dma s3)" "length d0 \<le> ?cap" "g0 \<le> preferred"
      using hmb_one_block_taken [OF ok(1) o cap_pos] by blast
    define att where "att = (if preferred < NVME_HMB_START_CHUNK then preferred else NVME_HMB_START_CHUNK)"
    obtain d g s4 where f: "hmb_fill P ?m preferred ?cap att d0 g0 s3 = (d, g, s4)" by (metis prod_cases3)
    obtain cs where c: "hmb_taken P ?m (k_dma s2) cs d g (k_dma s4)" "length d \<le> ?cap" "g \<le> preferred"
      using hmb_fill_taken [OF ok(1) c0 f] by blast
    define s5 where "s5 = s4\<lparr>k_hmb_descs := Some (tab, d @ replicate (?cap - length d) zero_desc),
                     k_hmb_nr_descs := length d, k_hmb_size := of_nat g\<rparr>"
    have d: "d = map (\<lambda>(a, n). hmb_desc P a n) cs" "g = sum_list (map snd cs)" using c(1) by (auto simp: hmb_taken_def)
    have "unat (of_nat g :: u32) = g" using c(3) b by (simp add: unat_of_nat)
    then have r: "hmb_ready P ?m (k_dma s) cs s5" unfolding hmb_ready_def
      using tab c(1) by (intro exI [of _ tab] exI [of _ "of_nat (?cap * 16)"]) (auto simp: s5_def s2_def s1 d)
    have res: "(res, s') = (if g < minimum then (False, hmb_chunks_free P s5) else (True, emit (Ev_flush tab (of_nat (?cap * 16)) True) s5))"
      using a by (simp only: nvme_alloc_host_mem_def Let_def Some p option.case prod.case s2_def [symmetric] o
        att_def [symmetric] f s5_def)
    show ?thesis
    proof (cases "g < minimum")
      case True
      then show ?thesis using res ready_free [OF ok(2) r] by simp
    next
      case False
      have "hmb_ready P ?m (k_dma s) cs (emit e s5)" for e using r by (simp add: hmb_ready_def emit_def)
      moreover have "length cs \<le> ?cap" using c(2) d(1) by simp
      ultimately show ?thesis using False res c(3) d(2) by (auto intro!: exI [of _ cs])
    qed
  qed
qed

lemma ready_emit: "hmb_ready P m D cs (emit e s) = hmb_ready P m D cs s"
  by (simp add: hmb_ready_def emit_def)

text \<open>
  C9.  Setting up the host memory buffer is all or nothing, whatever the pool grants and
  whatever the controller answers.  Either no buffer is recorded and the DMA pool is as
  before, or the recorded table describes fresh, distinct, page-aligned chunks, none below
  the controller's minimum descriptor size, at most as many as the controller takes, that
  together hold at least the minimum and at most the preferred size.  Releasing the buffer
  gives the pool back exactly what it had before the set-up.
\<close>

theorem host_mem_all_or_nothing:
  fixes P :: platform and s :: NVMeController and sync sync' :: "nvme_command \<Rightarrow> sync_ret"
  assumes ok: "dma_pool_ok P" "le_ok P" and h: "k_hmb_descs s = None"
  defines "s' \<equiv> nvme_setup_host_mem P sync s" and "c \<equiv> k_caps s"
  shows "k_dma (nvme_free_host_mem P sync' s') = k_dma s \<and> k_hmb_descs (nvme_free_host_mem P sync' s') = None \<and>
    (k_hmb_descs s' = None \<and> k_dma s' = k_dma s \<or>
     (\<exists>cs. hmb_ready P (c_hmminds c) (k_dma s) cs s' \<and>
        unat (c_hmmin c) * NVME_CTRL_PAGE_SIZE \<le> sum_list (map snd cs) \<and>
        sum_list (map snd cs) \<le> min (unat (c_hmpre c) * NVME_CTRL_PAGE_SIZE) NVME_MAX_HMB_BYTES \<and>
        (c_hmmaxd c \<noteq> 0 \<longrightarrow> length cs \<le> unat (c_hmmaxd c))))"
proof -
  let ?min = "unat (c_hmmin c) * NVME_CTRL_PAGE_SIZE" and ?pre = "unat (c_hmpre c) * NVME_CTRL_PAGE_SIZE"
  define pre where "pre = (if NVME_MAX_HMB_BYTES < ?pre then NVME_MAX_HMB_BYTES else ?pre)"
  obtain res s1 where a: "nvme_alloc_host_mem P ?min pre s = (res, s1)" by (cases "nvme_alloc_host_mem P ?min pre s")
  have pre: "pre \<le> NVME_MAX_HMB_BYTES" "pre = min ?pre NVME_MAX_HMB_BYTES" by (auto simp: pre_def)
  note al = alloc_host_mem_cases [OF ok pre(1) h a]
  have off: "k_dma (nvme_free_host_mem P sync' t) = k_dma s \<and> k_hmb_descs (nvme_free_host_mem P sync' t) = None"
    if "k_hmb_descs t = None" "k_dma t = k_dma s" for t using that by (simp add: nvme_free_host_mem_def)
  have "s' = (if c_hmpre c = 0 \<or> NVME_MAX_HMB_BYTES < ?min then s else if \<not> res then s1
      else let t = emit (Ev_sync (host_mem_cmd P NVME_HOST_MEM_ENABLE s1)) s1
        in if sync (host_mem_cmd P NVME_HOST_MEM_ENABLE s1) \<noteq> Ret_ok then hmb_chunks_free P t else t)"
    unfolding s'_def nvme_setup_host_mem_def c_def [symmetric] Let_def pre_def [symmetric] a
    by (cases res) (simp_all add: nvme_set_host_mem_def Let_def)
  then consider (skip) "s' = s" | (fail) "\<not> res" "s' = s1"
    | (refused) e where "res" "s' = hmb_chunks_free P (emit e s1)" | (on) e where "res" "s' = emit e s1"
    by (auto simp: Let_def split: if_splits)
  then show ?thesis
  proof cases
    case skip
    then show ?thesis using off h by simp
  next
    case fail
    then show ?thesis using off al by simp
  next
    case refused
    then obtain cs where "hmb_ready P (c_hmminds c) (k_dma s) cs (emit e s1)" using al by (auto simp: ready_emit c_def)
    then show ?thesis using refused off ready_free [OF ok(2)] by simp
  next
    case on
    then obtain cs where r: "hmb_ready P (c_hmminds c) (k_dma s) cs s'" and len: "length cs \<le> hmmaxd_cap c pre"
      and b: "?min \<le> sum_list (map snd cs)" "sum_list (map snd cs) \<le> pre" using al by (auto simp: ready_emit c_def)
    have "hmb_ready P (c_hmminds c) (k_dma s) cs (snd (nvme_set_host_mem P sync' 0 s'))"
      using r by (simp add: nvme_set_host_mem_def Let_def ready_emit)
    moreover have "k_hmb_descs s' \<noteq> None" using r by (auto simp: hmb_ready_def)
    ultimately have "nvme_free_host_mem P sync' s' = (snd (nvme_set_host_mem P sync' 0 s'))
        \<lparr>k_dma := k_dma s, k_hmb_descs := None, k_hmb_nr_descs := 0, k_hmb_size := 0\<rparr>"
      using ready_free [OF ok(2)] by (simp only: nvme_free_host_mem_def if_False)
    moreover have "c_hmmaxd c \<noteq> 0 \<longrightarrow> length cs \<le> unat (c_hmmaxd c)" using len by (auto simp: hmmaxd_cap_def Let_def)
    ultimately show ?thesis using r b pre(2) by auto
  qed
qed

definition demo_hmb :: NVMeController where
  "demo_hmb = demo_ctrl\<lparr>k_caps := zero_caps\<lparr>c_hmpre := 5, c_hmmaxd := 4\<rparr>\<rparr>"

theorem host_mem_all_or_nothing_witness:
  "k_dma (nvme_free_host_mem m68k_platform (\<lambda>_. Ret_ok) (nvme_setup_host_mem m68k_platform (\<lambda>_. Ret_ok) demo_hmb)) = k_dma demo_hmb"
  by (rule host_mem_all_or_nothing [OF m68k_dma_pool_ok m68k_le_ok, THEN conjunct1])
    (simp add: demo_hmb_def demo_ctrl_def zero_ctrl_def)

section \<open>Sizes announced\<close>

lemma replicate_2: "replicate 2 x = [x, x]"
  by (simp add: numeral_2_eq_2)

text \<open>A pool that grants no more than ten kilobytes in one piece.\<close>

definition small_pool :: platform where
  "small_pool = m68k_platform\<lparr>p_dma_alloc := (\<lambda>al n live. if n \<le> 10240 then p_dma_alloc m68k_platform al n live else None)\<rparr>"

lemma small_pool_ok: "dma_pool_ok small_pool" "le_ok small_pool"
  using m68k_dma_pool_ok m68k_le_ok by (auto simp: dma_pool_ok_def le_ok_def small_pool_def)

text \<open>
  Halving a chunk size loses page alignment: a controller that prefers twenty
  kilobytes, served by a pool that grants ten at a time, is told of a buffer of five pages,
  while the two descriptors it is given cover two pages each.
\<close>

theorem host_mem_size_mismatch:
  "\<exists>tab descs cmd. k_hmb_descs (nvme_setup_host_mem small_pool (\<lambda>_. Ret_ok) demo_hmb) = Some (tab, descs) \<and>
     map (\<lambda>d. p_le32 small_pool (hd_size d)) descs = [2, 2, 0, 0] \<and>
     last (k_trace (nvme_setup_host_mem small_pool (\<lambda>_. Ret_ok) demo_hmb)) = Ev_sync cmd \<and>
     cmd_body cmd = Body_cdw (map (p_le32 small_pool) [NVME_FEAT_HOST_MEM_BUF, NVME_HOST_MEM_ENABLE, 5, tab, 0, 2])"
  by (simp add: nvme_setup_host_mem_def demo_hmb_def zero_caps_def nvme_alloc_host_mem_def Let_def hmmaxd_cap_def
      hmb_floor_def dma_zalloc_def dma_alloc_def small_pool_def m68k_platform_def demo_ctrl_def zero_ctrl_def
      demo_pages_def hmb_one_block_def hmb_fill.simps nvme_set_host_mem_def host_mem_cmd_def emit_def hmb_desc_def
      zero_desc_def byte_swap_swap byte_swap_0 replicate_2)

end
