(* ===== verification/Nvme_Quirks.thy ===== *)
theory Nvme_Quirks
  imports Nvme_Identify
begin

text \<open>
  The quirk tables of src/nvme/nvme_quirks.c: the PCI identifier table with its lookup, and
  the Identify-string table with its matcher.  The vendor numbers of pci_ids.h are the
  parameter \<open>V\<close>.
\<close>

section \<open>The PCI identifier table\<close>

abbreviation (input) NVME_QUIRK_IGNORE_DEV_SUBNQN :: nat where "NVME_QUIRK_IGNORE_DEV_SUBNQN \<equiv> 8"
abbreviation (input) NVME_QUIRK_SINGLE_VECTOR :: nat where "NVME_QUIRK_SINGLE_VECTOR \<equiv> 11"
abbreviation (input) NVME_QUIRK_SHARED_TAGS :: nat where "NVME_QUIRK_SHARED_TAGS \<equiv> 13"
abbreviation (input) NVME_QUIRK_NO_TEMP_THRESH_CHANGE :: nat where "NVME_QUIRK_NO_TEMP_THRESH_CHANGE \<equiv> 14"
abbreviation (input) NVME_QUIRK_DMA_ADDRESS_BITS_48 :: nat where "NVME_QUIRK_DMA_ADDRESS_BITS_48 \<equiv> 16"
abbreviation (input) NVME_QUIRK_NO_SECONDARY_TEMP_THRESH :: nat where "NVME_QUIRK_NO_SECONDARY_TEMP_THRESH \<equiv> 19"
abbreviation (input) NVME_QUIRK_BROKEN_MSI :: nat where "NVME_QUIRK_BROKEN_MSI \<equiv> 21"
abbreviation (input) NVME_QUIRK_DMAPOOL_ALIGN_512 :: nat where "NVME_QUIRK_DMAPOOL_ALIGN_512 \<equiv> 22"

record pci_vendors =
  PCI_VENDOR_ID_INTEL :: u16
  PCI_VENDOR_ID_REDHAT :: u16
  PCI_VENDOR_ID_APPLE :: u16

abbreviation (input) PCI_VENDOR_ID_AMAZON :: u16 where "PCI_VENDOR_ID_AMAZON \<equiv> 0x1d0f"

record nvme_quirk_id =
  qi_vendor :: u16
  qi_device :: u16
  qi_driver_data :: u32

definition quirk_mask :: "nat list \<Rightarrow> u32" where
  "quirk_mask bs = foldr (\<lambda>b m. push_bit b 1 OR m) bs 0"

definition quirk_id :: "u16 \<Rightarrow> u16 \<Rightarrow> nat list \<Rightarrow> nvme_quirk_id" where
  "quirk_id v d bs = \<lparr>qi_vendor = v, qi_device = d, qi_driver_data = quirk_mask bs\<rparr>"

definition nvme_quirk_ids :: "pci_vendors \<Rightarrow> nvme_quirk_id list" where
  "nvme_quirk_ids V =
    [quirk_id (PCI_VENDOR_ID_INTEL V) 0x0953 [NVME_QUIRK_STRIPE_SIZE, NVME_QUIRK_DEALLOCATE_ZEROES],
     quirk_id (PCI_VENDOR_ID_INTEL V) 0x0a53 [NVME_QUIRK_STRIPE_SIZE, NVME_QUIRK_DEALLOCATE_ZEROES],
     quirk_id (PCI_VENDOR_ID_INTEL V) 0x0a54 [NVME_QUIRK_STRIPE_SIZE, NVME_QUIRK_IGNORE_DEV_SUBNQN, NVME_QUIRK_BOGUS_NID],
     quirk_id (PCI_VENDOR_ID_INTEL V) 0x0a55 [NVME_QUIRK_STRIPE_SIZE],
     quirk_id (PCI_VENDOR_ID_INTEL V) 0xf1a5 [NVME_QUIRK_MEDIUM_PRIO_SQ, NVME_QUIRK_NO_TEMP_THRESH_CHANGE, NVME_QUIRK_DISABLE_WRITE_ZEROES],
     quirk_id (PCI_VENDOR_ID_INTEL V) 0xf1a6 [NVME_QUIRK_IGNORE_DEV_SUBNQN],
     quirk_id (PCI_VENDOR_ID_INTEL V) 0x5845 [NVME_QUIRK_IDENTIFY_CNS, NVME_QUIRK_DISABLE_WRITE_ZEROES, NVME_QUIRK_BOGUS_NID],
     quirk_id (PCI_VENDOR_ID_REDHAT V) 0x0010 [NVME_QUIRK_BOGUS_NID],
     quirk_id 0x1217 0x8760 [NVME_QUIRK_DMAPOOL_ALIGN_512],
     quirk_id 0x126f 0x1001 [NVME_QUIRK_IGNORE_DEV_SUBNQN],
     quirk_id 0x126f 0x2262 [NVME_QUIRK_BOGUS_NID],
     quirk_id 0x126f 0x2263 [NVME_QUIRK_NO_NS_DESC_LIST, NVME_QUIRK_BOGUS_NID],
     quirk_id 0x1bb1 0x0100 [NVME_QUIRK_DELAY_BEFORE_CHK_RDY, NVME_QUIRK_NO_NS_DESC_LIST],
     quirk_id 0x1c58 0x0003 [NVME_QUIRK_DELAY_BEFORE_CHK_RDY],
     quirk_id 0x1c58 0x0023 [NVME_QUIRK_DELAY_BEFORE_CHK_RDY],
     quirk_id 0x1c5f 0x0540 [NVME_QUIRK_DELAY_BEFORE_CHK_RDY],
     quirk_id 0x144d 0xa821 [NVME_QUIRK_DELAY_BEFORE_CHK_RDY],
     quirk_id 0x144d 0xa822 [NVME_QUIRK_DELAY_BEFORE_CHK_RDY, NVME_QUIRK_DISABLE_WRITE_ZEROES, NVME_QUIRK_IGNORE_DEV_SUBNQN],
     quirk_id 0x15b7 0x5008 [NVME_QUIRK_BROKEN_MSI],
     quirk_id 0x15b7 0x5009 [NVME_QUIRK_BROKEN_MSI],
     quirk_id 0x1987 0x5012 [NVME_QUIRK_BOGUS_NID],
     quirk_id 0x1987 0x5016 [NVME_QUIRK_IGNORE_DEV_SUBNQN, NVME_QUIRK_BOGUS_NID],
     quirk_id 0x1987 0x5019 [NVME_QUIRK_DISABLE_WRITE_ZEROES],
     quirk_id 0x1987 0x5021 [NVME_QUIRK_DISABLE_WRITE_ZEROES],
     quirk_id 0x1b4b 0x1092 [NVME_QUIRK_NO_NS_DESC_LIST, NVME_QUIRK_IGNORE_DEV_SUBNQN],
     quirk_id 0x1cc1 0x33f8 [NVME_QUIRK_BOGUS_NID],
     quirk_id 0x10ec 0x5762 [NVME_QUIRK_IGNORE_DEV_SUBNQN, NVME_QUIRK_BOGUS_NID],
     quirk_id 0x10ec 0x5763 [NVME_QUIRK_BOGUS_NID],
     quirk_id 0x1cc1 0x8201 [NVME_QUIRK_IGNORE_DEV_SUBNQN],
     quirk_id 0x1344 0x5407 [NVME_QUIRK_IGNORE_DEV_SUBNQN],
     quirk_id 0x1344 0x6001 [NVME_QUIRK_BOGUS_NID],
     quirk_id 0x1c5c 0x1504 [NVME_QUIRK_DISABLE_WRITE_ZEROES],
     quirk_id 0x1c5c 0x174a [NVME_QUIRK_BOGUS_NID],
     quirk_id 0x1c5c 0x1d59 [NVME_QUIRK_DISABLE_WRITE_ZEROES],
     quirk_id 0x15b7 0x2001 [NVME_QUIRK_DISABLE_WRITE_ZEROES],
     quirk_id 0x1d97 0x2263 [NVME_QUIRK_DISABLE_WRITE_ZEROES],
     quirk_id 0x144d 0xa80b [NVME_QUIRK_DISABLE_WRITE_ZEROES, NVME_QUIRK_BOGUS_NID],
     quirk_id 0x144d 0xa809 [NVME_QUIRK_DISABLE_WRITE_ZEROES],
     quirk_id 0x144d 0xa802 [NVME_QUIRK_BOGUS_NID],
     quirk_id 0x1cc4 0x6303 [NVME_QUIRK_DISABLE_WRITE_ZEROES],
     quirk_id 0x1cc4 0x6302 [NVME_QUIRK_DISABLE_WRITE_ZEROES],
     quirk_id 0x2646 0x5013 [NVME_QUIRK_NO_SECONDARY_TEMP_THRESH],
     quirk_id 0x2646 0x5018 [NVME_QUIRK_DISABLE_WRITE_ZEROES],
     quirk_id 0x2646 0x5016 [NVME_QUIRK_DISABLE_WRITE_ZEROES],
     quirk_id 0x2646 0x501a [NVME_QUIRK_DISABLE_WRITE_ZEROES],
     quirk_id 0x2646 0x501b [NVME_QUIRK_DISABLE_WRITE_ZEROES],
     quirk_id 0x2646 0x501e [NVME_QUIRK_DISABLE_WRITE_ZEROES],
     quirk_id 0x1f40 0x1202 [NVME_QUIRK_BOGUS_NID],
     quirk_id 0x1f40 0x5236 [NVME_QUIRK_BOGUS_NID],
     quirk_id 0x1e4b 0x1001 [NVME_QUIRK_BOGUS_NID],
     quirk_id 0x1e4b 0x1002 [NVME_QUIRK_BOGUS_NID],
     quirk_id 0x1e4b 0x1202 [NVME_QUIRK_BOGUS_NID],
     quirk_id 0x1e4b 0x1602 [NVME_QUIRK_BOGUS_NID],
     quirk_id 0x1cc1 0x5350 [NVME_QUIRK_BOGUS_NID],
     quirk_id 0x1dbe 0x5216 [NVME_QUIRK_BOGUS_NID],
     quirk_id 0x1dbe 0x5236 [NVME_QUIRK_BOGUS_NID],
     quirk_id 0x1fa0 0x2283 [NVME_QUIRK_NO_SECONDARY_TEMP_THRESH],
     quirk_id 0xc0a9 0x540a [NVME_QUIRK_BOGUS_NID],
     quirk_id 0x1d97 0x2263 [NVME_QUIRK_BOGUS_NID],
     quirk_id 0x1d97 0x1d97 [NVME_QUIRK_BOGUS_NID],
     quirk_id 0x1d97 0x2269 [NVME_QUIRK_BOGUS_NID, NVME_QUIRK_IGNORE_DEV_SUBNQN],
     quirk_id 0x10ec 0x5763 [NVME_QUIRK_BOGUS_NID],
     quirk_id 0x1e4b 0x1602 [NVME_QUIRK_BOGUS_NID],
     quirk_id 0x10ec 0x5765 [NVME_QUIRK_BOGUS_NID],
     quirk_id PCI_VENDOR_ID_AMAZON 0x0061 [NVME_QUIRK_DMA_ADDRESS_BITS_48],
     quirk_id PCI_VENDOR_ID_AMAZON 0x0065 [NVME_QUIRK_DMA_ADDRESS_BITS_48],
     quirk_id PCI_VENDOR_ID_AMAZON 0x8061 [NVME_QUIRK_DMA_ADDRESS_BITS_48],
     quirk_id PCI_VENDOR_ID_AMAZON 0xcd00 [NVME_QUIRK_DMA_ADDRESS_BITS_48],
     quirk_id PCI_VENDOR_ID_AMAZON 0xcd01 [NVME_QUIRK_DMA_ADDRESS_BITS_48],
     quirk_id PCI_VENDOR_ID_AMAZON 0xcd02 [NVME_QUIRK_DMA_ADDRESS_BITS_48],
     quirk_id (PCI_VENDOR_ID_APPLE V) 0x2001 [NVME_QUIRK_SINGLE_VECTOR, NVME_QUIRK_QDEPTH_ONE],
     quirk_id (PCI_VENDOR_ID_APPLE V) 0x2003 [],
     quirk_id (PCI_VENDOR_ID_APPLE V) 0x2005 [NVME_QUIRK_SINGLE_VECTOR, NVME_QUIRK_128_BYTES_SQES, NVME_QUIRK_SHARED_TAGS, NVME_QUIRK_SKIP_CID_GEN, NVME_QUIRK_IDENTIFY_CNS]]"

fun lookup_quirk_rows :: "nvme_quirk_id list \<Rightarrow> u16 \<Rightarrow> u16 \<Rightarrow> u32" where
  "lookup_quirk_rows [] vendor device = 0"
| "lookup_quirk_rows (q # qs) vendor device =
    (if qi_vendor q = vendor \<and> qi_device q = device then qi_driver_data q else lookup_quirk_rows qs vendor device)"

definition nvme_lookup_quirks :: "pci_vendors \<Rightarrow> u16 \<Rightarrow> u16 \<Rightarrow> u32" where
  "nvme_lookup_quirks V vendor device = lookup_quirk_rows (nvme_quirk_ids V) vendor device"

section \<open>Identify strings\<close>

record nvme_core_quirk_entry =
  cq_vid :: u16
  cq_mn :: "u8 list option"
  cq_fr :: "u8 list option"
  cq_quirks :: u32

definition chars :: "string \<Rightarrow> u8 list" where
  "chars = map of_char"

definition core_quirks :: "nvme_core_quirk_entry list" where
  "core_quirks = [\<lparr>cq_vid = 0x144d, cq_mn = Some (chars ''Samsung Portable SSD X5''), cq_fr = None,
     cq_quirks = quirk_mask [NVME_QUIRK_DELAY_BEFORE_CHK_RDY]\<rparr>]"

fun match_prefix :: "id_buf \<Rightarrow> u8 list \<Rightarrow> nat \<Rightarrow> nat \<Rightarrow> nat option" where
  "match_prefix idstr [] i len = Some i"
| "match_prefix idstr (c # cs) i len = (if len \<le> i \<or> idstr i \<noteq> c then None else match_prefix idstr cs (Suc i) len)"

definition string_matches :: "id_buf \<Rightarrow> u8 list option \<Rightarrow> nat \<Rightarrow> bool" where
  "string_matches idstr pat len =
    (case pat of None \<Rightarrow> True
     | Some m \<Rightarrow> (case match_prefix idstr m 0 len of None \<Rightarrow> False | Some i \<Rightarrow> list_all (\<lambda>j. idstr j = 0x20) [i..<len]))"

definition quirk_matches :: "id_buf \<Rightarrow> nvme_core_quirk_entry \<Rightarrow> bool" where
  "quirk_matches d q \<longleftrightarrow> cq_vid q = get_le16 d 0 \<and> string_matches (\<lambda>i. d (24 + i)) (cq_mn q) 40 \<and>
     string_matches (\<lambda>i. d (64 + i)) (cq_fr q) 8"

definition nvme_match_id_quirks :: "id_buf \<Rightarrow> u32" where
  "nvme_match_id_quirks d = fold (\<lambda>q quirks. if quirk_matches d q then quirks OR cq_quirks q else quirks) core_quirks 0"

section \<open>What the tables mean\<close>

lemma get_bytes_0 [simp]: "get_bytes d o' 0 = []"
  by (simp add: get_bytes_def)

lemma match_prefix_iff: "match_prefix idstr m i len = (if i + length m \<le> len \<and> get_bytes idstr i (length m) = m then Some (i + length m)
    else if m = [] then Some i else None)"
  by (induction m arbitrary: i) (auto simp: get_bytes_Suc)

lemma string_matches_iff:
  "string_matches idstr (Some m) len \<longleftrightarrow> length m \<le> len \<and> get_bytes idstr 0 len = m @ replicate (len - length m) 0x20"
proof (cases "length m \<le> len")
  case True
  then obtain k where k: "len = length m + k" using le_Suc_ex by blast
  have "list_all (\<lambda>j. idstr j = 0x20) [length m..<length m + k] = (get_bytes idstr (length m) k = replicate k 0x20)"
    by (auto simp: list_all_iff get_bytes_def list_eq_iff_nth_eq) (metis le_add_diff_inverse nat_add_left_cancel_less)
  then show ?thesis
    by (auto simp: string_matches_def match_prefix_iff k get_bytes_append append_eq_append_conv)
next
  case False
  then show ?thesis by (auto simp: string_matches_def match_prefix_iff)
qed

text \<open>
  A controller gets the quirk of the string table exactly when its vendor is Samsung
  and its model field is the name of the table, padded with blanks to the forty bytes of the
  field.  A name with a suffix, such as that of another product under the same PCI
  identifier, does not match.
\<close>

theorem match_id_quirks_iff:
  "nvme_match_id_quirks d =
    (if get_le16 d 0 = 0x144d \<and> get_bytes (\<lambda>i. d (24 + i)) 0 40 = chars ''Samsung Portable SSD X5'' @ replicate 17 0x20
     then quirk_mask [NVME_QUIRK_DELAY_BEFORE_CHK_RDY] else 0)"
  by (auto simp: nvme_match_id_quirks_def core_quirks_def quirk_matches_def string_matches_iff chars_def)
    (simp_all add: string_matches_def)

text \<open>
  The table has a row that gives the controller 0x1d97:0x2263 the bogus-identifier
  quirk, and the lookup never applies it: an earlier row for the same controller hides it.
\<close>

theorem quirk_row_shadowed:
  "list_ex (\<lambda>q. qi_vendor q = 0x1d97 \<and> qi_device q = 0x2263 \<and> bit (qi_driver_data q) NVME_QUIRK_BOGUS_NID) (nvme_quirk_ids V) \<and>
   nvme_lookup_quirks V 0x1d97 0x2263 = quirk_mask [NVME_QUIRK_DISABLE_WRITE_ZEROES] \<and>
   \<not> bit (nvme_lookup_quirks V 0x1d97 0x2263) NVME_QUIRK_BOGUS_NID"
proof -
  have "nvme_lookup_quirks V 0x1d97 0x2263 = quirk_mask [NVME_QUIRK_DISABLE_WRITE_ZEROES]"
    by (simp add: nvme_lookup_quirks_def nvme_quirk_ids_def quirk_id_def)
  then show ?thesis by (auto simp: nvme_quirk_ids_def quirk_id_def quirk_mask_def bit_simps)
qed

end
