(* ===== verification/Nvme_Init.thy ===== *)
theory Nvme_Init
  imports Nvme_Quirks Nvme_Ctrl
begin

text \<open>
  Controller identification of src/nvme/nvme_ctrl.c: the Command Effects Log, the limits and
  identity strings taken from Identify Controller, and the command set limits read before a
  namespace scan.
\<close>

section \<open>Command effects\<close>

abbreviation (input) NVME_CMD_EFFECTS_LBCC :: u32 where "NVME_CMD_EFFECTS_LBCC \<equiv> 2"
abbreviation (input) NVME_CMD_EFFECTS_NCC :: u32 where "NVME_CMD_EFFECTS_NCC \<equiv> 4"
abbreviation (input) NVME_CMD_EFFECTS_CSE_MASK :: u32 where "NVME_CMD_EFFECTS_CSE_MASK \<equiv> 0x70000"
abbreviation (input) nvme_admin_format_nvm :: u8 where "nvme_admin_format_nvm \<equiv> 0x80"
abbreviation (input) nvme_admin_security_recv :: u8 where "nvme_admin_security_recv \<equiv> 0x82"
abbreviation (input) nvme_admin_sanitize_nvm :: u8 where "nvme_admin_sanitize_nvm \<equiv> 0x84"
abbreviation (input) nvme_cmd_write_uncor :: u8 where "nvme_cmd_write_uncor \<equiv> 4"
abbreviation (input) NVME_CTRL_ONCS_WRITE_ZEROES :: u16 where "NVME_CTRL_ONCS_WRITE_ZEROES \<equiv> 8"

definition nvme_init_effects_log :: "platform \<Rightarrow> NVMeController \<Rightarrow> sync_ret \<times> NVMeController" where
  "nvme_init_effects_log P s =
    (case dma_zalloc P DMA_ALIGN_MIN 4096 s of
       None \<Rightarrow> (Ret_errno ENOMEM, s)
     | Some (b, s1) \<Rightarrow> (Ret_ok, s1\<lparr>k_effects := Some (b, \<lparr>fx_acs = (\<lambda>_. 0), fx_iocs = (\<lambda>_. 0)\<rparr>)\<rparr>))"

definition known_effects :: "platform \<Rightarrow> nvme_effects_log \<Rightarrow> nvme_effects_log" where
  "known_effects P l =
    (let acs = fx_acs l;
         acs1 = acs(nvme_admin_format_nvm := acs nvme_admin_format_nvm OR
           p_le32 P (NVME_CMD_EFFECTS_LBCC OR NVME_CMD_EFFECTS_NCC OR NVME_CMD_EFFECTS_CSE_MASK));
         acs2 = acs1(nvme_admin_sanitize_nvm := acs1 nvme_admin_sanitize_nvm OR
           p_le32 P (NVME_CMD_EFFECTS_LBCC OR NVME_CMD_EFFECTS_CSE_MASK));
         acs3 = acs2(nvme_admin_security_recv := acs2 nvme_admin_security_recv AND p_le32 P (NOT NVME_CMD_EFFECTS_CSE_MASK));
         io = fx_iocs l;
         io1 = io(nvme_cmd_write := io nvme_cmd_write OR p_le32 P NVME_CMD_EFFECTS_LBCC);
         io2 = io1(nvme_cmd_write_zeroes := io1 nvme_cmd_write_zeroes OR p_le32 P NVME_CMD_EFFECTS_LBCC);
         io3 = io2(nvme_cmd_write_uncor := io2 nvme_cmd_write_uncor OR p_le32 P NVME_CMD_EFFECTS_LBCC)
     in \<lparr>fx_acs = acs3, fx_iocs = io3\<rparr>)"

definition nvme_init_known_nvm_effects :: "platform \<Rightarrow> NVMeController \<Rightarrow> NVMeController" where
  "nvme_init_known_nvm_effects P s = s\<lparr>k_effects := map_option (\<lambda>(b, l). (b, known_effects P l)) (k_effects s)\<rparr>"

definition effects_of_buf :: "platform \<Rightarrow> id_buf \<Rightarrow> nvme_effects_log" where
  "effects_of_buf P d = \<lparr>fx_acs = (\<lambda>op. p_le32 P (get_le32 d (4 * unat op))),
     fx_iocs = (\<lambda>op. p_le32 P (get_le32 d (1024 + 4 * unat op)))\<rparr>"

definition nvme_get_effects_log :: "platform \<Rightarrow> sync_dev \<Rightarrow> NVMeController \<Rightarrow> sync_ret \<times> NVMeController" where
  "nvme_get_effects_log P sync s =
    (case dma_zalloc P DMA_ALIGN_MIN 4096 s of
       None \<Rightarrow> (Ret_errno ENOMEM, s)
     | Some (b, s1) \<Rightarrow>
        let c = get_log_cmd P 0 5 0 NVME_CSI_NVM 4096 0; s2 = emit (Ev_sync c) s1 in
        (case sync c of (ret, d) \<Rightarrow>
           if ret \<noteq> Ret_ok then (ret, dma_free b s2) else (Ret_ok, s2\<lparr>k_effects := Some (b, effects_of_buf P d)\<rparr>)))"

definition nvme_init_effects :: "platform \<Rightarrow> sync_dev \<Rightarrow> u8 \<Rightarrow> NVMeController \<Rightarrow> sync_ret \<times> NVMeController" where
  "nvme_init_effects P sync lpa s =
    (if k_effects s \<noteq> None then (Ret_ok, s)
     else
       let (ret, s1) = (if lpa AND 2 \<noteq> 0 then nvme_get_effects_log P sync s else (Ret_ok, s)) in
       case ret of
         Ret_errno e \<Rightarrow> (Ret_errno e, s1)
       | _ \<Rightarrow>
          (let (ret2, s2) = (if k_effects s1 = None then nvme_init_effects_log P s1 else (Ret_ok, s1)) in
           case ret2 of
             Ret_errno e \<Rightarrow> (Ret_errno e, s2)
           | _ \<Rightarrow> (Ret_ok, nvme_init_known_nvm_effects P s2)))"

section \<open>Identify Controller\<close>

abbreviation (input) NVME_DEFAULT_SHUTDOWN_TIMEOUT :: u32 where "NVME_DEFAULT_SHUTDOWN_TIMEOUT \<equiv> 5"

definition nvme_cache_id_strings :: "id_buf \<Rightarrow> NVMeController \<Rightarrow> NVMeController" where
  "nvme_cache_id_strings d s = s\<lparr>k_model := get_bytes d 24 40, k_firmware := get_bytes d 64 8, k_serial := get_bytes d 4 20\<rparr>"

definition shutdown_timeout_of :: "u32 \<Rightarrow> u32" where
  "shutdown_timeout_of rtd3e =
    (if rtd3e \<noteq> 0 then
       let t = rtd3e div 1000000;
           t1 = (if t < NVME_DEFAULT_SHUTDOWN_TIMEOUT then NVME_DEFAULT_SHUTDOWN_TIMEOUT else t)
       in if 60 < t1 then 60 else t1
     else NVME_DEFAULT_SHUTDOWN_TIMEOUT)"

definition cache_id_limits :: "id_buf \<Rightarrow> NVMeController \<Rightarrow> NVMeController" where
  "cache_id_limits d s =
    (let s1 = (nvme_cache_id_strings d s)\<lparr>k_crdt := [get_le16 d 128, get_le16 d 130, get_le16 d 132],
           k_oncs := get_le16 d 520, k_mtfa := get_le16 d 270, k_oaes := get_le32 d 92, k_vwc := d 525,
           k_caps := (k_caps s)\<lparr>c_oacs := get_le16 d 256, c_wctemp := get_le16 d 266, c_cctemp := get_le16 d 268,
             c_abort_limit := ucast (d 258) + 1\<rparr>\<rparr>;
         s2 = apply_mdts (d 77) s1
     in s2\<lparr>k_caps := (k_caps s2)\<lparr>c_sgls := get_le32 d 536, c_max_namespaces := get_le32 d 540, c_ctratt := get_le32 d 96,
          c_cntrltype := d 111, c_shutdown_timeout := shutdown_timeout_of (get_le32 d 88),
          c_hmpre := get_le32 d 272, c_hmmin := get_le32 d 276, c_hmminds := get_le32 d 332, c_hmmaxd := get_le16 d 336\<rparr>\<rparr>)"

definition nvme_init_identify :: "platform \<Rightarrow> sync_dev \<Rightarrow> NVMeController \<Rightarrow> sync_ret \<times> NVMeController" where
  "nvme_init_identify P sync s =
    (case nvme_identify_ctrl P sync s of
       (Inl _, s1) \<Rightarrow> (Ret_errno EIO, s1)
     | (Inr (id', d), s1) \<Rightarrow>
        let s2 = s1\<lparr>k_caps := (k_caps s1)\<lparr>c_cntlid := get_le16 d 78\<rparr>, k_quirks := k_quirks s1 OR nvme_match_id_quirks d\<rparr>;
            (ret, s3) = (if \<not> c_identified (k_caps s2) then nvme_init_effects P sync (d 261) s2 else (Ret_ok, s2))
        in if ret \<noteq> Ret_ok then (ret, dma_free id' s3) else (ret, dma_free id' (cache_id_limits d s3)))"

definition nvme_is_io_ctrl :: "NVMeController \<Rightarrow> bool" where
  "nvme_is_io_ctrl s \<longleftrightarrow> c_cntrltype (k_caps s) \<noteq> 3"

definition nvme_init_non_mdts_limits :: "platform \<Rightarrow> sync_dev \<Rightarrow> NVMeController \<Rightarrow> sync_ret \<times> NVMeController" where
  "nvme_init_non_mdts_limits P sync s =
    (let s1 = s\<lparr>k_max_zeroes_sectors :=
           (if k_oncs s AND NVME_CTRL_ONCS_WRITE_ZEROES \<noteq> 0 \<and> \<not> bit (k_quirks s) NVME_QUIRK_DISABLE_WRITE_ZEROES
            then k_max_hw_sectors s else 0)\<rparr>
     in if \<not> nvme_is_io_ctrl s1 \<or> \<not> nvme_id_cns_ok s1 NVME_ID_CNS_CS_CTRL \<or> bit (k_flags s1) NVME_CTRL_SKIP_ID_CNS_CS
        then (Ret_ok, s1)
        else case nvme_identify_ctrl_nvm P sync s1 of
          (Inl ret, s2) \<Rightarrow>
            (ret, case ret of Ret_status _ \<Rightarrow> s2\<lparr>k_flags := k_flags s2 OR push_bit NVME_CTRL_SKIP_ID_CNS_CS 1\<rparr> | _ \<Rightarrow> s2)
        | (Inr (id', d), s2) \<Rightarrow>
           let s3 = s2\<lparr>k_caps := (k_caps s2)\<lparr>c_dmrl := d 3, c_dmrsl := get_le32 d 4\<rparr>\<rparr>;
               s4 = (if d 1 \<noteq> 0 then s3\<lparr>k_max_zeroes_sectors := nvme_mps_to_sectors s3 (ucast (d 1))\<rparr> else s3)
           in (Ret_ok, dma_free id' s4))"

section \<open>Contracts\<close>

text \<open>The byte order helper permutes bits: it commutes with the bitwise operations.\<close>

definition le32_bits :: "platform \<Rightarrow> bool" where
  "le32_bits P \<longleftrightarrow> (\<forall>x y. p_le32 P (x OR y) = p_le32 P x OR p_le32 P y) \<and> (\<forall>x y. p_le32 P (x AND y) = p_le32 P x AND p_le32 P y)"

lemma m68k_le32_bits: "le32_bits m68k_platform"
  by (auto simp: le32_bits_def m68k_platform_def bit_eq_iff bit_byte_swap bit_simps)

definition effects_of :: "platform \<Rightarrow> nvme_effects_log \<Rightarrow> u8 \<Rightarrow> u32" where
  "effects_of P l op = p_le32 P (fx_acs l op)"

lemma known_effects_acs:
  assumes "le32_bits P" "le_ok P"
  shows "effects_of P (known_effects P l) op =
    (if op = nvme_admin_format_nvm then effects_of P l op OR 0x70006
     else if op = nvme_admin_sanitize_nvm then effects_of P l op OR 0x70002
     else if op = nvme_admin_security_recv then effects_of P l op AND NOT 0x70000
     else effects_of P l op)"
proof -
  have o: "p_le32 P (x OR y) = p_le32 P x OR p_le32 P y" "p_le32 P (x AND y) = p_le32 P x AND p_le32 P y" for x y
    using assms(1) by (simp_all add: le32_bits_def)
  show ?thesis by (simp add: effects_of_def known_effects_def Let_def o le_okD [OF assms(2)])
qed

lemma zalloc_shape:
  assumes "dma_pool_ok P" "dma_zalloc P al n s = Some (b, s1)"
  shows "k_dma s b = None \<and> (\<exists>m. s1 = s\<lparr>k_dma := (k_dma s)(b := Some n), k_mem := m\<rparr>)"
proof -
  have p: "p_dma_alloc P al n (\<lambda>a. k_dma s a \<noteq> None) = Some b"
    using assms(2) by (auto simp: dma_zalloc_def dma_alloc_def split: option.splits)
  then have "s1 = s\<lparr>k_dma := (k_dma s)(b := Some n),
      k_mem := (\<lambda>a. if a - b < n then 0 else k_mem (s\<lparr>k_dma := (k_dma s)(b := Some n)\<rparr>) a)\<rparr>"
    using assms(2) by (simp add: dma_zalloc_def dma_alloc_def)
  then show ?thesis using dma_pool_okD(1) [OF assms(1) p] by blast
qed

text \<open>A log buffer taken and recorded, or nothing taken.\<close>

definition log_step :: "NVMeController \<Rightarrow> sync_ret \<Rightarrow> NVMeController \<Rightarrow> bool" where
  "log_step s ret s' \<longleftrightarrow> (if ret = Ret_ok
     then \<exists>b l m tr. k_dma s b = None \<and>
       s' = s\<lparr>k_dma := (k_dma s)(b := Some 4096), k_mem := m, k_trace := k_trace s @ tr, k_effects := Some (b, l)\<rparr>
     else ident_frame s s')"

lemma log_stepI: "k_dma s b = None \<Longrightarrow>
    s' = s\<lparr>k_dma := (k_dma s)(b := Some 4096), k_mem := m, k_trace := k_trace s @ tr, k_effects := Some (b, l)\<rparr> \<Longrightarrow> log_step s Ret_ok s'"
  unfolding log_step_def by auto

lemma init_effects_log_step:
  assumes ok: "dma_pool_ok P" and a: "nvme_init_effects_log P s = (ret, s')"
  shows "log_step s ret s'"
proof (cases "dma_zalloc P DMA_ALIGN_MIN 4096 s")
  case None
  then show ?thesis using a by (auto simp: nvme_init_effects_log_def log_step_def)
next
  case (Some p)
  obtain b s1 where p: "p = (b, s1)" by (cases p)
  obtain m where m: "k_dma s b = None" "s1 = s\<lparr>k_dma := (k_dma s)(b := Some 4096), k_mem := m\<rparr>"
    using zalloc_shape [OF ok Some [unfolded p]] by blast
  have "ret = Ret_ok" using a Some p by (simp add: nvme_init_effects_log_def)
  then show ?thesis
    using a Some p m by (auto simp: nvme_init_effects_log_def intro!: log_stepI [where tr = "[]" and m = m])
qed

lemma get_effects_log_step:
  assumes ok: "dma_pool_ok P" and a: "nvme_get_effects_log P sync s = (ret, s')"
  shows "log_step s ret s'"
proof (cases "dma_zalloc P DMA_ALIGN_MIN 4096 s")
  case None
  then show ?thesis using a by (auto simp: nvme_get_effects_log_def log_step_def)
next
  case (Some p)
  let ?c = "get_log_cmd P 0 5 0 NVME_CSI_NVM 4096 0"
  obtain b s1 where p: "p = (b, s1)" by (cases p)
  obtain m where m: "k_dma s b = None" "s1 = s\<lparr>k_dma := (k_dma s)(b := Some 4096), k_mem := m\<rparr>"
    using zalloc_shape [OF ok Some [unfolded p]] by blast
  obtain r d where r: "sync ?c = (r, d)" by (cases "sync ?c")
  have res: "(ret, s') = (if r \<noteq> Ret_ok then (r, dma_free b (emit (Ev_sync ?c) s1))
      else (Ret_ok, (emit (Ev_sync ?c) s1)\<lparr>k_effects := Some (b, effects_of_buf P d)\<rparr>))"
    using a Some p r by (simp add: nvme_get_effects_log_def Let_def)
  show ?thesis
  proof (cases "r = Ret_ok")
    case True
    then show ?thesis using res m by (auto simp: emit_def intro!: log_stepI [where tr = "[Ev_sync ?c]" and m = m])
  next
    case False
    have "ident_frame s (dma_free b (emit (Ev_sync ?c) s1))"
      using m by (intro ident_frameI [where m = m and tr = "[Ev_sync ?c]"]) (simp add: dma_free_def emit_def fun_upd_idem)
    then show ?thesis using res False by (auto simp: log_step_def)
  qed
qed

definition effects_ready :: "platform \<Rightarrow> NVMeController \<Rightarrow> sync_ret \<Rightarrow> NVMeController \<Rightarrow> bool" where
  "effects_ready P s ret s' \<longleftrightarrow> (if ret = Ret_ok
     then \<exists>b l m tr. k_dma s b = None \<and>
       s' = s\<lparr>k_dma := (k_dma s)(b := Some 4096), k_mem := m, k_trace := k_trace s @ tr, k_effects := Some (b, known_effects P l)\<rparr>
     else ident_frame s s')"

lemma known_ready: "log_step s Ret_ok s' \<Longrightarrow> effects_ready P s Ret_ok (nvme_init_known_nvm_effects P s')"
proof -
  assume "log_step s Ret_ok s'"
  then obtain b l m tr where b: "k_dma s b = None"
    and s': "s' = s\<lparr>k_dma := (k_dma s)(b := Some 4096), k_mem := m, k_trace := k_trace s @ tr, k_effects := Some (b, l)\<rparr>"
    unfolding log_step_def by auto
  have "nvme_init_known_nvm_effects P s' =
      s\<lparr>k_dma := (k_dma s)(b := Some 4096), k_mem := m, k_trace := k_trace s @ tr, k_effects := Some (b, known_effects P l)\<rparr>"
    by (simp add: nvme_init_known_nvm_effects_def s')
  then show ?thesis using b unfolding effects_ready_def if_P [OF refl] by blast
qed

lemma log_step_err: "log_step s ret s' \<Longrightarrow> ret \<noteq> Ret_ok \<Longrightarrow> ident_frame s s'"
  by (simp add: log_step_def)

lemma log_step_some: "log_step s Ret_ok s' \<Longrightarrow> k_effects s' \<noteq> None"
  by (auto simp: log_step_def)

lemma ident_log_step:
  assumes "ident_frame s s1" "log_step s1 ret s'"
  shows "log_step s ret s'"
proof -
  obtain m tr where s1: "s1 = s\<lparr>k_mem := m, k_trace := k_trace s @ tr\<rparr>" using assms(1) unfolding ident_frame_def by blast
  show ?thesis
  proof (cases "ret = Ret_ok")
    case True
    then obtain b l m' tr' where "k_dma s b = None"
      "s' = s\<lparr>k_dma := (k_dma s)(b := Some 4096), k_mem := m', k_trace := k_trace s @ (tr @ tr'), k_effects := Some (b, l)\<rparr>"
      using assms(2) unfolding log_step_def s1 by auto
    then show ?thesis using True log_stepI by blast
  next
    case False
    then show ?thesis using assms ident_frame_trans by (auto simp: log_step_def)
  qed
qed

lemma init_effects_ready:
  assumes ok: "dma_pool_ok P" and e: "k_effects s = None" and a: "nvme_init_effects P sync lpa s = (ret, s')"
  shows "effects_ready P s ret s'"
proof -
  define r where "r = (if lpa AND 2 \<noteq> 0 then nvme_get_effects_log P sync s else (Ret_ok, s))"
  obtain r1 s1 where r1: "r = (r1, s1)" by (cases r)
  have a': "(ret, s') = (case r1 of Ret_errno e \<Rightarrow> (Ret_errno e, s1)
      | _ \<Rightarrow> (case if k_effects s1 = None then nvme_init_effects_log P s1 else (Ret_ok, s1) of (r2, s2) \<Rightarrow>
           case r2 of Ret_errno e \<Rightarrow> (Ret_errno e, s2) | _ \<Rightarrow> (Ret_ok, nvme_init_known_nvm_effects P s2)))"
    using a e r1 unfolding nvme_init_effects_def r_def [symmetric] Let_def by simp
  have st: "(lpa AND 2 \<noteq> 0 \<longrightarrow> log_step s r1 s1) \<and> (lpa AND 2 = 0 \<longrightarrow> r1 = Ret_ok \<and> s1 = s)"
    using get_effects_log_step [OF ok] r1 by (auto simp: r_def)
  consider (err) x where "r1 = Ret_errno x" | (got) "log_step s Ret_ok s1" "r1 = Ret_ok" "lpa AND 2 \<noteq> 0"
    | (none) "ident_frame s s1" "\<forall>x. r1 \<noteq> Ret_errno x" using st log_step_err [of s r1 s1] by (cases r1) auto
  then show ?thesis
  proof cases
    case err
    then have "(ret, s') = (r1, s1)" using a' by simp
    then show ?thesis using st err log_step_err [of s r1 s1] by (auto simp: effects_ready_def)
  next
    case got
    note log_step_some [OF got(1)]
    then have "(ret, s') = (Ret_ok, nvme_init_known_nvm_effects P s1)"
      using a' got by auto
    then show ?thesis using known_ready [OF got(1)] by simp
  next
    case none
    then have "k_effects s1 = None" using e by (auto simp: ident_frame_def)
    moreover obtain r2 s2 where r2: "nvme_init_effects_log P s1 = (r2, s2)" by (meson surj_pair)
    ultimately have "(ret, s') = (case r2 of Ret_errno x \<Rightarrow> (Ret_errno x, s2) | _ \<Rightarrow> (Ret_ok, nvme_init_known_nvm_effects P s2))"
      using a' none(2) by (cases r1) simp_all
    moreover have "log_step s r2 s2" using ident_log_step none(1) init_effects_log_step [OF ok r2] by blast
    moreover have "r2 = Ret_ok \<or> r2 = Ret_errno ENOMEM" using r2 by (auto simp: nvme_init_effects_log_def split: option.splits)
    ultimately show ?thesis using known_ready [of s s2 P] log_step_err [of s r2 s2] by (auto simp: effects_ready_def)
  qed
qed

lemma shutdown_timeout_bounds: "5 \<le> shutdown_timeout_of t \<and> shutdown_timeout_of t \<le> 60"
  by (auto simp: shutdown_timeout_of_def Let_def not_less)

lemma cache_id_limits_sel:
  "k_dma (cache_id_limits d s) = k_dma s" "k_effects (cache_id_limits d s) = k_effects s"
  "c_shutdown_timeout (k_caps (cache_id_limits d s)) = shutdown_timeout_of (get_le32 d 88)"
  "c_abort_limit (k_caps (cache_id_limits d s)) = ucast (d 258) + 1"
  "k_model (cache_id_limits d s) = get_bytes d 24 40" "k_firmware (cache_id_limits d s) = get_bytes d 64 8"
  "k_serial (cache_id_limits d s) = get_bytes d 4 20"
  by (simp_all add: cache_id_limits_def nvme_cache_id_strings_def apply_mdts_def nvme_set_limits_def Let_def)

lemma abort_limit_bounds: "(ucast (a :: u8) :: u32) + 1 \<in> {1..256}"
proof -
  have "unat a < 2 ^ LENGTH(8)" by (rule unsigned_less)
  then have "unat (ucast a :: u32) < 256" by (simp add: unat_ucast_mod)
  then show ?thesis by (simp add: word_le_nat_alt unat_word_ariths(1))
qed

lemma or_mask_and: "m AND k = k \<Longrightarrow> (x OR m) AND k = (k :: 'a::len word)"
proof -
  assume "m AND k = k"
  then have "(x OR m) AND k = (x AND k) OR k" by (simp add: bit.conj_disj_distrib2)
  also have "\<dots> = k" by (rule bit_word_eqI) (auto simp: bit_simps)
  finally show ?thesis .
qed

lemma not_mask_and: "(x AND NOT k) AND k = (0 :: 'a::len word)"
  by (simp add: and.assoc)

text \<open>
  The first identification of a controller either fails and leaves the DMA pool and the
  effects pointer as they were, or succeeds with the identity strings cached at their full
  width, the shutdown timeout between five and sixty seconds, a positive abort limit, and one
  buffer taken from the pool: the effects log, whose entries make Format and Sanitize
  exclusive and Security Receive not, whatever the controller reported.
\<close>

theorem init_identify_contract:
  assumes ok: "dma_pool_ok P" "le_ok P" "le32_bits P" and new: "\<not> c_identified (k_caps s)" "k_effects s = None"
    and a: "nvme_init_identify P sync s = (ret, s')"
  shows "if ret = Ret_ok then
      (\<exists>b l. k_effects s' = Some (b, l) \<and> k_dma s b = None \<and> k_dma s' = (k_dma s)(b := Some 4096) \<and>
        effects_of P l nvme_admin_format_nvm AND NVME_CMD_EFFECTS_CSE_MASK = NVME_CMD_EFFECTS_CSE_MASK \<and>
        effects_of P l nvme_admin_sanitize_nvm AND NVME_CMD_EFFECTS_CSE_MASK = NVME_CMD_EFFECTS_CSE_MASK \<and>
        effects_of P l nvme_admin_security_recv AND NVME_CMD_EFFECTS_CSE_MASK = 0) \<and>
      length (k_model s') = 40 \<and> length (k_firmware s') = 8 \<and> length (k_serial s') = 20 \<and>
      c_shutdown_timeout (k_caps s') \<in> {5..60} \<and> c_abort_limit (k_caps s') \<in> {1..256}
    else k_dma s' = k_dma s \<and> k_effects s' = None"
proof -
  obtain v s1 where v: "nvme_submit_identify P sync (identify_cmd 0 NVME_ID_CNS_CTRL 0) 4096 s = (v, s1)" by (meson surj_pair)
  note c = submit_identify_cases [OF ok(1) v]
  show ?thesis
  proof (cases v)
    case (Inl r)
    then have "ret = Ret_errno EIO" "s' = s1" "ident_frame s s1"
      using a v c by (auto simp: nvme_init_identify_def nvme_identify_ctrl_def)
    then show ?thesis using new(2) by (auto simp: ident_frame_def)
  next
    case (Inr p)
    obtain id' d where p: "p = (id', d)" by (cases p)
    have d1: "k_dma s id' = None" "k_dma s1 = (k_dma s)(id' := Some 4096)" and e1: "k_effects s1 = None" "\<not> c_identified (k_caps s1)"
      using c Inr p new by auto
    then have fr: "(k_dma s1)(id' := None) = k_dma s" by (simp add: fun_upd_idem)
    define s2 where "s2 = s1\<lparr>k_caps := (k_caps s1)\<lparr>c_cntlid := get_le16 d 78\<rparr>, k_quirks := k_quirks s1 OR nvme_match_id_quirks d\<rparr>"
    obtain r3 s3 where e3: "nvme_init_effects P sync (d 261) s2 = (r3, s3)" by (meson surj_pair)
    have s2: "k_dma s2 = k_dma s1" "k_effects s2 = None" using e1 by (simp_all add: s2_def)
    note er = init_effects_ready [OF ok(1) s2(2) e3]
    have res: "ret = r3" "s' = dma_free id' (if r3 = Ret_ok then cache_id_limits d s3 else s3)"
      using a v Inr p e1 e3 by (auto simp: nvme_init_identify_def nvme_identify_ctrl_def Let_def s2_def split: if_splits)
    show ?thesis
    proof (cases "r3 = Ret_ok")
      case True
      then obtain b l where b: "k_dma s1 b = None" "k_dma s3 = (k_dma s1)(b := Some 4096)" "k_effects s3 = Some (b, known_effects P l)"
        using er by (auto simp: effects_ready_def s2)
      have nid: "b \<noteq> id'" "k_dma s b = None" using b(1) d1 by (auto split: if_splits)
      have D: "k_dma s' = (k_dma s)(b := Some 4096)"
        using res(2) True b(2) nid(1) fr by (simp add: dma_free_def cache_id_limits_sel fun_upd_twist)
      have E: "k_effects s' = Some (b, known_effects P l)" using res(2) True b(3) by (simp add: dma_free_def cache_id_limits_sel)
      have ab: "(ucast (d 258) :: u32) + 1 \<in> {1..256}" by (rule abort_limit_bounds)
      have k: "(x OR 0x70006) AND 0x70000 = (0x70000 :: u32)" "(x OR 0x70002) AND 0x70000 = (0x70000 :: u32)" "(x AND NOT 0x70000) AND 0x70000 = (0 :: u32)" for x
        by (simp_all only: not_mask_and) (simp_all add: or_mask_and)
      have "\<exists>b l. k_effects s' = Some (b, l) \<and> k_dma s b = None \<and> k_dma s' = (k_dma s)(b := Some 4096) \<and>
        effects_of P l nvme_admin_format_nvm AND NVME_CMD_EFFECTS_CSE_MASK = NVME_CMD_EFFECTS_CSE_MASK \<and>
        effects_of P l nvme_admin_sanitize_nvm AND NVME_CMD_EFFECTS_CSE_MASK = NVME_CMD_EFFECTS_CSE_MASK \<and>
        effects_of P l nvme_admin_security_recv AND NVME_CMD_EFFECTS_CSE_MASK = 0"
        using nid(2) by (intro exI [of _ b] exI [of _ "known_effects P l"]) (simp add: D E known_effects_acs [OF ok(3,2)] k(1,2) k(3) [simplified])
      then show ?thesis
        using res True ab shutdown_timeout_bounds by (simp add: dma_free_def cache_id_limits_sel)
    next
      case False
      then have "ident_frame s2 s3" using er by (simp add: effects_ready_def)
      then show ?thesis using res False fr s2 by (auto simp: ident_frame_def dma_free_def)
    qed
  qed
qed

definition demo_id_ctrl :: id_buf where
  "demo_id_ctrl o' = (if o' = 258 then 3 else 0)"

theorem init_identify_contract_witness:
  "c_abort_limit (k_caps (snd (nvme_init_identify m68k_platform (\<lambda>_. (Ret_ok, demo_id_ctrl)) zero_ctrl))) \<in> {1..256}"
proof -
  have "fst (nvme_init_identify m68k_platform (\<lambda>_. (Ret_ok, demo_id_ctrl)) zero_ctrl) = Ret_ok"
    by (simp add: nvme_init_identify_def nvme_identify_ctrl_def nvme_submit_identify_def dma_zalloc_def dma_alloc_def m68k_platform_def
        demo_pages_def zero_ctrl_def zero_caps_def Let_def emit_def nvme_init_effects_def nvme_init_effects_log_def demo_id_ctrl_def)
  then show ?thesis
    using init_identify_contract [OF m68k_dma_pool_ok m68k_le_ok m68k_le32_bits, of zero_ctrl "\<lambda>_. (Ret_ok, demo_id_ctrl)"]
    by (cases "nvme_init_identify m68k_platform (\<lambda>_. (Ret_ok, demo_id_ctrl)) zero_ctrl") (simp add: zero_ctrl_def zero_caps_def)
qed

text \<open>
  Reading the command set limits takes nothing from the pool; a controller that rejects
  the command is not asked again.
\<close>

lemma non_mdts_limits_frame:
  assumes ok: "dma_pool_ok P" and a: "nvme_init_non_mdts_limits P sync s = (ret, s')"
  shows "k_dma s' = k_dma s \<and> k_namespaces s' = k_namespaces s \<and> k_units s' = k_units s \<and> k_base_units s' = k_base_units s \<and>
    k_nextUnitNumber s' = k_nextUnitNumber s \<and> k_quirks s' = k_quirks s \<and>
    (\<forall>st. ret = Ret_status st \<longrightarrow> bit (k_flags s') NVME_CTRL_SKIP_ID_CNS_CS)"
proof -
  define s1 where "s1 = s\<lparr>k_max_zeroes_sectors :=
           (if k_oncs s AND NVME_CTRL_ONCS_WRITE_ZEROES \<noteq> 0 \<and> \<not> bit (k_quirks s) NVME_QUIRK_DISABLE_WRITE_ZEROES
            then k_max_hw_sectors s else 0)\<rparr>"
  have s1: "k_dma s1 = k_dma s" "k_namespaces s1 = k_namespaces s" "k_units s1 = k_units s" "k_base_units s1 = k_base_units s"
    "k_nextUnitNumber s1 = k_nextUnitNumber s" "k_quirks s1 = k_quirks s" by (simp_all add: s1_def)
  obtain v s2 where v: "nvme_submit_identify P sync (identify_cmd 0 NVME_ID_CNS_CS_CTRL NVME_CSI_NVM) 4096 s1 = (v, s2)"
    by (meson surj_pair)
  note c = submit_identify_cases [OF ok v]
  show ?thesis
  proof (cases "\<not> nvme_is_io_ctrl s1 \<or> \<not> nvme_id_cns_ok s1 NVME_ID_CNS_CS_CTRL \<or> bit (k_flags s1) NVME_CTRL_SKIP_ID_CNS_CS")
    case True
    then have "(ret, s') = (Ret_ok, s1)" using a unfolding nvme_init_non_mdts_limits_def Let_def s1_def [symmetric] by simp
    then show ?thesis by (simp add: s1)
  next
    case False
    then have r: "(ret, s') = (case v of Inl ret \<Rightarrow>
            (ret, case ret of Ret_status _ \<Rightarrow> s2\<lparr>k_flags := k_flags s2 OR push_bit NVME_CTRL_SKIP_ID_CNS_CS 1\<rparr> | _ \<Rightarrow> s2)
        | Inr (id', d) \<Rightarrow>
           let s3 = s2\<lparr>k_caps := (k_caps s2)\<lparr>c_dmrl := d 3, c_dmrsl := get_le32 d 4\<rparr>\<rparr>;
               s4 = (if d 1 \<noteq> 0 then s3\<lparr>k_max_zeroes_sectors := nvme_mps_to_sectors s3 (ucast (d 1))\<rparr> else s3)
           in (Ret_ok, dma_free id' s4))"
      using a unfolding nvme_init_non_mdts_limits_def Let_def s1_def [symmetric] nvme_identify_ctrl_nvm_def v
      by (cases v) auto
    show ?thesis
    proof (cases v)
      case (Inl e)
      then have "ident_frame s1 s2" using c by simp
      then show ?thesis using r Inl ident_frame_sel [of s1 s2] by (cases e) (auto simp: s1 bit_simps)
    next
      case (Inr p)
      obtain id' d where p: "p = (id', d)" by (cases p)
      have "ident_frame s1 (dma_free id' s2)" using c Inr p by simp
      then show ?thesis using r Inr p ident_frame_sel [of s1 "dma_free id' s2"] by (auto simp: s1 dma_free_def Let_def)
    qed
  qed
qed

end
