(* ===== verification/Nvme_Reset.thy ===== *)
theory Nvme_Reset
  imports Nvme_Device Nvme_Hmb Nvme_Init
begin

text \<open>
  Enabling, disabling and resetting a controller, src/nvme/nvme_probe.c, the features set during
  bring-up, src/nvme/nvme_admin.c, and the firmware activation work of src/nvme/nvme_fw.c.

  The hardware and the clock are parameters: \<open>pe_csts\<close> gives what the successive reads of CSTS in a
  polling loop return and \<open>pe_time\<close> the microsecond clock, at the start of the loop and after each
  delay.  The comparison \<open>time_deadline_passed\<close> comes from the platform's timing header and is the
  parameter \<open>passed\<close>; \<open>deadline_ok\<close> states that it compares points of a wrapping clock less than half
  its range apart.  The registers are read before and after the first write of CC, since CAP may
  change with it.  Polling loops take fuel; None is a loop that is still polling.
\<close>

section \<open>Waiting for CSTS\<close>

record poll_env =
  pe_csts :: "nat \<Rightarrow> u32"
  pe_time :: "nat \<Rightarrow> u32"

abbreviation (input) NVME_CSTS_RDY :: u32 where "NVME_CSTS_RDY \<equiv> 1"
abbreviation (input) NVME_CSTS_PP :: u32 where "NVME_CSTS_PP \<equiv> 0x20"
abbreviation (input) NVME_CSTS_SHST_MASK :: u32 where "NVME_CSTS_SHST_MASK \<equiv> 0xC"
abbreviation (input) NVME_CSTS_SHST_CMPLT :: u32 where "NVME_CSTS_SHST_CMPLT \<equiv> 8"
abbreviation (input) NVME_CC_ENABLE :: u32 where "NVME_CC_ENABLE \<equiv> 1"
abbreviation (input) NVME_CC_SHN_MASK :: u32 where "NVME_CC_SHN_MASK \<equiv> 0xC000"
abbreviation (input) NVME_CC_SHN_NORMAL :: u32 where "NVME_CC_SHN_NORMAL \<equiv> 0x4000"
abbreviation (input) NVME_REG_CC :: u32 where "NVME_REG_CC \<equiv> 0x14"
abbreviation (input) NVME_REG_CRTO :: u32 where "NVME_REG_CRTO \<equiv> 0x68"

type_synonym deadline_test = "u32 \<Rightarrow> u32 \<Rightarrow> bool"

fun wait_ready_loop :: "nat \<Rightarrow> deadline_test \<Rightarrow> poll_env \<Rightarrow> u32 \<Rightarrow> u32 \<Rightarrow> u32 \<Rightarrow> nat \<Rightarrow> errno option option" where
  "wait_ready_loop 0 passed e msk val deadline n = None"
| "wait_ready_loop (Suc fuel) passed e msk val deadline n =
    (let csts = pe_csts e n in
     if csts = - 1 then Some (Some ENODEV)
     else if csts AND msk = val then Some None
     else if passed (pe_time e (n + 1)) deadline then Some (Some ENODEV)
     else wait_ready_loop fuel passed e msk val deadline (n + 1))"

definition nvme_wait_ready :: "nat \<Rightarrow> deadline_test \<Rightarrow> poll_env \<Rightarrow> u32 \<Rightarrow> u32 \<Rightarrow> u32 \<Rightarrow> errno option option" where
  "nvme_wait_ready fuel passed e msk val timeout =
    wait_ready_loop fuel passed e msk val (pe_time e 0 + timeout * 1000000) 0"

section \<open>Enable and disable\<close>

definition nvme_reg_read64 :: "(u32 \<Rightarrow> u32) \<Rightarrow> u32 \<Rightarrow> u64" where
  "nvme_reg_read64 regs off = push_bit 32 (ucast (regs (off + 4))) OR ucast (regs off)"

definition NVME_CAP_MQES :: "u64 \<Rightarrow> u32" where
  "NVME_CAP_MQES cap = ucast (cap AND 0xffff)"

definition NVME_CAP_TIMEOUT :: "u64 \<Rightarrow> u32" where
  "NVME_CAP_TIMEOUT cap = ucast (drop_bit 24 cap AND 0xff)"

definition NVME_CAP_CSS :: "u64 \<Rightarrow> u32" where
  "NVME_CAP_CSS cap = ucast (drop_bit 37 cap AND 0xff)"

definition set_ctrl_config :: "u32 \<Rightarrow> NVMeController \<Rightarrow> NVMeController" where
  "set_ctrl_config cc s = s\<lparr>k_caps := (k_caps s)\<lparr>c_ctrl_config := cc\<rparr>\<rparr>"

text \<open>CC for a memory page size of 4096 bytes, round robin, 64-byte submission and 16-byte completion entries.\<close>

definition enable_config :: "u64 \<Rightarrow> u32" where
  "enable_config cap = ((if NVME_CAP_CSS cap AND 0x40 \<noteq> 0 then 0x60 else 0) AND NOT 0x1000000) OR push_bit 16 6 OR push_bit 20 4"

definition ready_timeout :: "(u32 \<Rightarrow> u32) \<Rightarrow> u64 \<Rightarrow> u32" where
  "ready_timeout regs cap =
    (let timeout = NVME_CAP_TIMEOUT cap in
     if bit cap 59 then let rt = regs NVME_REG_CRTO AND 0xffff in if rt < timeout then timeout else rt else timeout)"

definition nvme_enable_ctrl ::
    "nat \<Rightarrow> deadline_test \<Rightarrow> (u32 \<Rightarrow> u32) \<Rightarrow> (u32 \<Rightarrow> u32) \<Rightarrow> poll_env \<Rightarrow> NVMeController \<Rightarrow> (errno option \<times> NVMeController) option" where
  "nvme_enable_ctrl fuel passed regs0 regs1 e s =
    (let cap0 = nvme_reg_read64 regs0 NVME_REG_CAP; s1 = s\<lparr>k_cap := cap0\<rparr> in
     if 12 < NVME_CAP_MPSMIN cap0 + 12 then Some (Some ENODEV, s1)
     else
       let cc = enable_config cap0;
           s2 = emit (Ev_mmio NVME_REG_CC cc) (set_ctrl_config cc s1);
           cap1 = nvme_reg_read64 regs1 NVME_REG_CAP;
           timeout = ready_timeout regs1 cap1;
           s3 = emit (Ev_mmio NVME_REG_CC (cc OR NVME_CC_ENABLE)) (set_ctrl_config (cc OR NVME_CC_ENABLE) (s2\<lparr>k_cap := cap1\<rparr>))
       in map_option (\<lambda>r. (r, s3)) (nvme_wait_ready fuel passed e NVME_CSTS_RDY NVME_CSTS_RDY ((timeout + 1) div 2)))"

definition nvme_disable_ctrl ::
    "nat \<Rightarrow> deadline_test \<Rightarrow> poll_env \<Rightarrow> bool \<Rightarrow> NVMeController \<Rightarrow> (errno option \<times> NVMeController) option" where
  "nvme_disable_ctrl fuel passed e shutdown s =
    (let cc = c_ctrl_config (k_caps s) AND NOT NVME_CC_SHN_MASK;
         cc1 = (if shutdown then cc OR NVME_CC_SHN_NORMAL else cc AND NOT NVME_CC_ENABLE);
         s1 = emit (Ev_mmio NVME_REG_CC cc1) (set_ctrl_config cc1 s)
     in map_option (\<lambda>r. (r, s1))
          (if shutdown then nvme_wait_ready fuel passed e NVME_CSTS_SHST_MASK NVME_CSTS_SHST_CMPLT (c_shutdown_timeout (k_caps s))
           else nvme_wait_ready fuel passed e NVME_CSTS_RDY 0 ((NVME_CAP_TIMEOUT (k_cap s) + 1) div 2)))"

section \<open>Features set during bring-up\<close>

text \<open>
  The timestamp travels in an 8-byte buffer on the stack of the caller; the model keeps the command.
  The answer to a synchronous command is the parameter \<open>sync\<close>, as in the identification.
\<close>

definition nvme_set_features ::
    "platform \<Rightarrow> (nvme_command \<Rightarrow> sync_ret) \<Rightarrow> u32 \<Rightarrow> u32 \<Rightarrow> NVMeController \<Rightarrow> sync_ret \<times> NVMeController" where
  "nvme_set_features P sync fid dword11 s =
    (let c = set_features_cmd P fid dword11 in (sync c, emit (Ev_sync c) s))"

definition nvme_configure_timestamp :: "platform \<Rightarrow> (nvme_command \<Rightarrow> sync_ret) \<Rightarrow> NVMeController \<Rightarrow> sync_ret \<times> NVMeController" where
  "nvme_configure_timestamp P sync s = (if k_oncs s AND 0x40 = 0 then (Ret_ok, s) else nvme_set_features P sync 0x0e 0 s)"

definition nvme_configure_irq_coalesce ::
    "platform \<Rightarrow> (nvme_command \<Rightarrow> sync_ret) \<Rightarrow> u32 \<Rightarrow> u32 \<Rightarrow> NVMeController \<Rightarrow> sync_ret \<times> NVMeController" where
  "nvme_configure_irq_coalesce P sync time thr s =
    (if time = 0 \<and> thr = 0 then (Ret_ok, s)
     else nvme_set_features P sync 0x08 (push_bit 8 (time AND 0xFF) OR (thr AND 0xFF)) s)"

definition nvme_configure_host_options :: "platform \<Rightarrow> (nvme_command \<Rightarrow> sync_ret) \<Rightarrow> NVMeController \<Rightarrow> sync_ret \<times> NVMeController" where
  "nvme_configure_host_options P sync s =
    (case dma_zalloc P DMA_ALIGN_MIN 512 s of
       None \<Rightarrow> (Ret_ok, s)
     | Some (host, s1) \<Rightarrow>
        let acre = k_crdt s1 ! 0 \<noteq> 0; lbafee = c_ctratt (k_caps s1) AND NVME_CTRL_ATTR_ELBAS \<noteq> 0;
            s2 = s1\<lparr>k_mem := (k_mem s1)(host := (if acre then 1 else k_mem s1 host), host + 2 := (if lbafee then 1 else k_mem s1 (host + 2)))\<rparr>
        in if \<not> acre \<and> \<not> lbafee then (Ret_ok, s2)
           else case nvme_set_features P sync 0x16 0 s2 of (ret, s3) \<Rightarrow> (ret, dma_free host s3))"

definition ret_negative :: "sync_ret \<Rightarrow> bool" where
  "ret_negative r = (case r of Ret_errno _ \<Rightarrow> True | _ \<Rightarrow> False)"

definition nvme_init_ctrl_finish ::
    "platform \<Rightarrow> sync_dev \<Rightarrow> u32 \<Rightarrow> u32 \<Rightarrow> u32 \<Rightarrow> NVMeController \<Rightarrow> sync_ret \<times> NVMeController" where
  "nvme_init_ctrl_finish P sync vs time thr s =
    (let c = k_caps s;
         s1 = s\<lparr>k_caps := c\<lparr>c_vs := vs,
           c_sqsize := (if NVME_CAP_MQES (k_cap s) < ucast (c_sqsize c) then ucast (NVME_CAP_MQES (k_cap s)) else c_sqsize c)\<rparr>\<rparr>
     in case nvme_init_identify P sync s1 of (ret, s2) \<Rightarrow>
        if ret \<noteq> Ret_ok then (ret, s2)
        else
          let s3 = (if \<not> nvme_is_io_ctrl s2 then s2\<lparr>k_caps := (k_caps s2)\<lparr>c_queue_count := 1\<rparr>\<rparr> else s2) in
          case nvme_configure_timestamp P (\<lambda>cmd. fst (sync cmd)) s3 of (ret4, s4) \<Rightarrow>
          if ret_negative ret4 then (ret4, s4)
          else case nvme_configure_host_options P (\<lambda>cmd. fst (sync cmd)) s4 of (ret5, s5) \<Rightarrow>
          if ret_negative ret5 then (ret5, s5)
          else
            let s6 = snd (nvme_configure_irq_coalesce P (\<lambda>cmd. fst (sync cmd)) time thr s5)
            in (Ret_ok, s6\<lparr>k_flags := snd (test_and_clear_flag NVME_CTRL_DIRTY_CAPABILITY (k_flags s6)),
                  k_caps := (k_caps s6)\<lparr>c_identified := True\<rparr>\<rparr>))"

section \<open>Reset and shutdown\<close>

text \<open>
  The reset runs on the unit task.  A completion callback of the flush may put that task to sleep for
  ever (\<open>k_unit_waits\<close>); nothing after it is executed then.
\<close>

record reset_env =
  re_disable :: poll_env
  re_regs0 :: "u32 \<Rightarrow> u32"
  re_regs1 :: "u32 \<Rightarrow> u32"
  re_enable :: poll_env

definition nvme_reset_controller ::
    "nat \<Rightarrow> platform \<Rightarrow> deadline_test \<Rightarrow> bool \<Rightarrow> reset_env \<Rightarrow> NVMeController \<Rightarrow> NVMeController option" where
  "nvme_reset_controller fuel P passed bar0 e s =
    (if \<not> bar0 then Some s
     else case nvme_change_ctrl_state NVME_CTRL_RESETTING s of
       (False, s1) \<Rightarrow> Some s1
     | (True, s1) \<Rightarrow>
        let s2 = nvme_quiesce_admin_queue (nvme_quiesce_io_queues s1);
            s3 = nvme_flush_queue_inflight P Io_q s2
        in if k_unit_waits s3 \<noteq> None then Some s3
        else let s4 = nvme_flush_queue_inflight P Admin_q s3
        in if k_unit_waits s4 \<noteq> None then Some s4
        else case nvme_disable_ctrl fuel passed (re_disable e) False s4 of
          None \<Rightarrow> None
        | Some (_, s5) \<Rightarrow>
           (case nvme_setup_admin_queue P (re_regs0 e (NVME_REG_CAP + 4)) (nvme_teardown_queue Admin_q (nvme_teardown_queue Io_q s5)) of
              (False, s6) \<Rightarrow> Some (nvme_reset_finish P False s6)
            | (True, s6) \<Rightarrow>
               (case nvme_enable_ctrl fuel passed (re_regs0 e) (re_regs1 e) (re_enable e) s6 of
                  None \<Rightarrow> None
                | Some (Some _, s7) \<Rightarrow> Some (nvme_reset_finish P False s7)
                | Some (None, s7) \<Rightarrow> Some (nvme_reset_rebuild_io_async P (nvme_unquiesce_admin_queue s7)))))"

definition nvme_ctrl_reset_quiesce :: "nat \<Rightarrow> deadline_test \<Rightarrow> poll_env \<Rightarrow> bool \<Rightarrow> NVMeController \<Rightarrow> NVMeController option" where
  "nvme_ctrl_reset_quiesce fuel passed e bar0 s =
    (if bar0 then map_option snd (nvme_disable_ctrl fuel passed e True s) else Some s)"

definition nvme_ctrl_shutdown ::
    "nat \<Rightarrow> platform \<Rightarrow> deadline_test \<Rightarrow> poll_env \<Rightarrow> (nvme_command \<Rightarrow> sync_ret) \<Rightarrow> bool \<Rightarrow> NVMeController \<Rightarrow> NVMeController option" where
  "nvme_ctrl_shutdown fuel P passed e sync bar0 s =
    (let s1 = nvme_quiesce_admin_queue (nvme_quiesce_io_queues s);
         s2 = nvme_flush_queue_inflight P Admin_q (nvme_flush_queue_inflight P Io_q s1)
     in if bar0 then map_option snd (nvme_disable_ctrl fuel passed e True (nvme_free_host_mem P sync s2)) else Some s2)"

section \<open>Firmware activation\<close>

abbreviation (input) NVME_ADMIN_TIMEOUT :: u32 where "NVME_ADMIN_TIMEOUT \<equiv> 60000"

definition nvme_ctrl_pp_status :: "u32 \<Rightarrow> NVMeController \<Rightarrow> bool" where
  "nvme_ctrl_pp_status csts s \<longleftrightarrow> csts \<noteq> - 1 \<and> c_ctrl_config (k_caps s) AND NVME_CC_ENABLE \<noteq> 0 \<and> csts AND NVME_CSTS_PP \<noteq> 0"

text \<open>The polling of \<open>nvme_fw_act_work\<close>: Some False when the deadline passed.  The clock is read before each delay.\<close>

fun fw_act_loop :: "nat \<Rightarrow> deadline_test \<Rightarrow> poll_env \<Rightarrow> u32 \<Rightarrow> nat \<Rightarrow> NVMeController \<Rightarrow> bool option" where
  "fw_act_loop 0 passed e deadline n s = None"
| "fw_act_loop (Suc fuel) passed e deadline n s =
    (if \<not> nvme_ctrl_pp_status (pe_csts e n) s then Some True
     else if passed (pe_time e (n + 1)) deadline then Some False
     else fw_act_loop fuel passed e deadline (n + 1) s)"

definition fw_act_deadline :: "u32 \<Rightarrow> u16 \<Rightarrow> u32" where
  "fw_act_deadline now mtfa = (if mtfa \<noteq> 0 then now + ucast mtfa * 100 * 1000 else now + NVME_ADMIN_TIMEOUT * 1000)"

definition nvme_fw_act_work :: "nat \<Rightarrow> platform \<Rightarrow> deadline_test \<Rightarrow> poll_env \<Rightarrow> NVMeController \<Rightarrow> NVMeController option" where
  "nvme_fw_act_work fuel P passed e s =
    (let s1 = nvme_quiesce_io_queues s in
     case fw_act_loop fuel passed e (fw_act_deadline (pe_time e 0) (k_mtfa s)) 0 s1 of
       None \<Rightarrow> None
     | Some False \<Rightarrow> Some (snd (nvme_reset_ctrl s1))
     | Some True \<Rightarrow>
        (case nvme_change_ctrl_state NVME_CTRL_CONNECTING s1 of
           (False, s2) \<Rightarrow> Some s2
         | (True, s2) \<Rightarrow>
            (case nvme_change_ctrl_state NVME_CTRL_LIVE s2 of
               (False, s3) \<Rightarrow> Some s3
             | (True, s3) \<Rightarrow> Some (nvme_submit_aer P (nvme_get_fw_slot_info P (nvme_unquiesce_io_queues s3))))))"

section \<open>The polling loop\<close>

definition deadline_ok :: "deadline_test \<Rightarrow> bool" where
  "deadline_ok passed \<longleftrightarrow> (\<forall>d t. t < 2 ^ 31 \<longrightarrow> passed (d + of_nat t) d \<and> (0 < t \<longrightarrow> \<not> passed (d - of_nat t) d))"

text \<open>A comparison by the sign of the wrapped difference has this property.\<close>

definition signed_passed :: deadline_test where
  "signed_passed now deadline \<longleftrightarrow> unat (now - deadline) < 2 ^ 31"

lemma signed_deadline_ok: "deadline_ok signed_passed"
proof -
  have "unat (of_nat t :: u32) = t" if "t < 2 ^ 31" for t using that by (simp add: unat_of_nat)
  moreover have "\<not> unat (- of_nat t :: u32) < 2 ^ 31" if "t < 2 ^ 31" "0 < t" for t
  proof -
    have "uint (of_nat t :: u32) = int t" using that by (simp add: uint_nat unat_of_nat)
    then have "uint (- of_nat t :: u32) = (- int t) mod 2 ^ 32" by (simp add: uint_word_ariths)
    also have "\<dots> = 2 ^ 32 - int t" using that by (simp add: zmod_zminus1_eq_if)
    finally have "nat (uint (- of_nat t :: u32)) = 2 ^ 32 - t" using that by (simp only: nat_diff_distrib' nat_int) (simp add: nat_power_eq)
    then show ?thesis using that unfolding nat_uint_eq by simp
  qed
  ultimately show ?thesis by (simp add: deadline_ok_def signed_passed_def)
qed

lemma deadline_passed:
  assumes "deadline_ok passed" "D < 2 ^ 31" "x < D + 2 ^ 31"
  shows "passed (a + of_nat x) (a + of_nat D) \<longleftrightarrow> D \<le> x"
proof (cases "D \<le> x")
  case True
  then have "a + of_nat x = (a + of_nat D) + (of_nat (x - D) :: u32)" by (simp add: of_nat_diff)
  moreover have "x - D < 2 ^ 31" using assms(3) by simp
  ultimately show ?thesis using True assms(1) unfolding deadline_ok_def by metis
next
  case False
  then have "a + of_nat x = (a + of_nat D) - (of_nat (D - x) :: u32)" by (simp add: of_nat_diff)
  moreover have "D - x < 2 ^ 31" "0 < D - x" using assms(2) False by simp_all
  ultimately show ?thesis using False assms(1) unfolding deadline_ok_def by metis
qed

text \<open>
  A clock that the delay of a polling loop advances by at least \<open>lo\<close> microseconds and at most one
  second; \<open>T n\<close> is the time elapsed after \<open>n\<close> delays.
\<close>

definition clock_ok :: "nat \<Rightarrow> (nat \<Rightarrow> u32) \<Rightarrow> (nat \<Rightarrow> nat) \<Rightarrow> bool" where
  "clock_ok lo time T \<longleftrightarrow> T 0 = 0 \<and> (\<forall>n. time n = time 0 + of_nat (T n) \<and> T n + lo \<le> T (Suc n) \<and> T (Suc n) \<le> T n + 1000000)"

text \<open>
  The same for a loop whose first reading of the clock may come earlier, \<open>first\<close> microseconds after the start: a loop that
  reads it before its delay has \<open>first\<close> zero.
\<close>

definition paced :: "nat \<Rightarrow> nat \<Rightarrow> (nat \<Rightarrow> u32) \<Rightarrow> (nat \<Rightarrow> nat) \<Rightarrow> bool" where
  "paced first lo time T \<longleftrightarrow> T 0 = 0 \<and>
    (\<forall>n. time n = time 0 + of_nat (T n) \<and> T n + (if n = 0 then first else lo) \<le> T (Suc n) \<and> T (Suc n) \<le> T n + 1000000)"

lemma pacedD:
  assumes "paced first lo time T"
  shows "T 0 = 0" "time n = time 0 + of_nat (T n)" "T n + (if n = 0 then first else lo) \<le> T (Suc n)" "T (Suc n) \<le> T n + 1000000"
proof -
  note c = assms [unfolded paced_def]
  note a = spec [OF conjunct2 [OF c], of n]
  show "T 0 = 0" by (rule conjunct1 [OF c])
  show "time n = time 0 + of_nat (T n)" by (rule conjunct1 [OF a])
  show "T n + (if n = 0 then first else lo) \<le> T (Suc n)" by (rule conjunct1 [OF conjunct2 [OF a]])
  show "T (Suc n) \<le> T n + 1000000" by (rule conjunct2 [OF conjunct2 [OF a]])
qed

lemma clock_ok_paced: "clock_ok lo time T \<Longrightarrow> paced lo lo time T"
  unfolding clock_ok_def paced_def if_cancel by assumption

text \<open>
  What the polling loops of the driver have in common: poll \<open>n\<close> may stop the loop with a result,
  \<open>stop n\<close>; otherwise the clock is compared with the deadline and the loop gives up with \<open>late\<close> or goes
  on.
\<close>

locale deadline_poll =
  fixes poll :: "nat \<Rightarrow> u32 \<Rightarrow> nat \<Rightarrow> 'r option" and stop :: "nat \<Rightarrow> 'r option" and late :: 'r
    and passed :: "u32 \<Rightarrow> u32 \<Rightarrow> bool" and time :: "nat \<Rightarrow> u32"
  assumes poll_0: "poll 0 d n = None"
    and poll_Suc: "poll (Suc f) d n = (case stop n of Some r \<Rightarrow> Some r
        | None \<Rightarrow> if passed (time (Suc n)) d then Some late else poll f d (Suc n))"
begin

lemma poll_ends_from:
  assumes "deadline_ok passed" "paced first lo time T" "D < 2 ^ 31" "n = 0 \<or> T n < D" "D + (if n = 0 then lo - first else 0) < T n + lo * fuel"
    "first \<le> lo"
  shows "\<exists>r. poll fuel (time 0 + of_nat D) n = Some r \<and>
    ((\<exists>k \<ge> n. (k = n \<or> T k < D) \<and> stop k = Some r \<and> (\<forall>j. n \<le> j \<and> j < k \<longrightarrow> stop j = None)) \<or>
     r = late \<and> (\<forall>k \<ge> n. k = n \<or> T k < D \<longrightarrow> stop k = None))"
  using assms(4,5)
proof (induction fuel arbitrary: n)
  case 0
  then show ?case using pacedD(1) [OF assms(2)] by auto
next
  case (Suc fuel)
  note T = pacedD [OF assms(2)]
  have mono: "T j \<le> T k" if "j \<le> k" for j k by (rule lift_Suc_mono_le [of T, OF add_leD1 [OF T(3)] that])
  have p: "passed (time (Suc n)) (time 0 + of_nat D) \<longleftrightarrow> D \<le> T (Suc n)"
    unfolding T(2) [of "Suc n"] by (rule deadline_passed [OF assms(1,3)]) (use T(1) T(4) [of n] Suc.prems(1) assms(3) in auto)
  consider (stop) r where "stop n = Some r" | (late) "stop n = None" "D \<le> T (Suc n)" | (go) "stop n = None" "T (Suc n) < D" by fastforce
  then show ?case
  proof cases
    case (stop r)
    then show ?thesis by (auto simp: poll_Suc)
  next
    case late
    have "stop k = None" if "n \<le> k" "k = n \<or> T k < D" for k
      using that late mono [of "Suc n" k] by (cases "k = n") auto
    then show ?thesis using late p by (auto simp: poll_Suc)
  next
    case go
    have "D + (if Suc n = 0 then lo - first else 0) < T (Suc n) + lo * fuel"
      using Suc.prems(2) T(1) T(3) [of n] assms(6) by (cases "n = 0") simp_all
    from Suc.IH [OF disjI2 [OF go(2)] this] obtain r where r: "poll fuel (time 0 + of_nat D) (Suc n) = Some r"
      "(\<exists>k \<ge> Suc n. (k = Suc n \<or> T k < D) \<and> stop k = Some r \<and> (\<forall>j. Suc n \<le> j \<and> j < k \<longrightarrow> stop j = None)) \<or>
       r = late \<and> (\<forall>k \<ge> Suc n. k = Suc n \<or> T k < D \<longrightarrow> stop k = None)" by blast
    have eq: "poll (Suc fuel) (time 0 + of_nat D) n = Some r" using r(1) go p by (simp add: poll_Suc)
    from r(2) show ?thesis
    proof
      assume "\<exists>k \<ge> Suc n. (k = Suc n \<or> T k < D) \<and> stop k = Some r \<and> (\<forall>j. Suc n \<le> j \<and> j < k \<longrightarrow> stop j = None)"
      then obtain k where k: "Suc n \<le> k" "k = Suc n \<or> T k < D" "stop k = Some r" "\<forall>j. Suc n \<le> j \<and> j < k \<longrightarrow> stop j = None" by blast
      have "stop j = None" if "n \<le> j" "j < k" for j using that k(4) go(1) by (cases "j = n") auto
      moreover have "n \<le> k" "T k < D" using k(1,2) go(2) by auto
      ultimately show ?thesis using eq k(3) by blast
    next
      assume l: "r = late \<and> (\<forall>k \<ge> Suc n. k = Suc n \<or> T k < D \<longrightarrow> stop k = None)"
      have "stop k = None" if "n \<le> k" "k = n \<or> T k < D" for k using that l go(1) by (cases "k = n") auto
      then show ?thesis using eq l by blast
    qed
  qed
qed

text \<open>Enough fuel ends the loop: with the result of the first stopping poll before the deadline, or late.\<close>

lemma poll_ends:
  assumes "deadline_ok passed" "clock_ok lo time T" "D < 2 ^ 31" "D < lo * fuel"
  shows "\<exists>r. poll fuel (time 0 + of_nat D) 0 = Some r \<and>
    ((\<exists>k. (k = 0 \<or> T k < D) \<and> stop k = Some r \<and> (\<forall>j < k. stop j = None)) \<or> r = late \<and> (\<forall>k. k = 0 \<or> T k < D \<longrightarrow> stop k = None))"
  using poll_ends_from [OF assms(1) clock_ok_paced [OF assms(2)] assms(3), of 0 fuel] assms(4) pacedD(1) [OF clock_ok_paced [OF assms(2)]] by simp

lemma poll_ends_early_clock:
  assumes "deadline_ok passed" "paced 0 lo time T" "D < 2 ^ 31" "D < lo * fuel"
  shows "\<exists>r. poll (Suc fuel) (time 0 + of_nat D) 0 = Some r \<and>
    ((\<exists>k. (k = 0 \<or> T k < D) \<and> stop k = Some r \<and> (\<forall>j < k. stop j = None)) \<or> r = late \<and> (\<forall>k. k = 0 \<or> T k < D \<longrightarrow> stop k = None))"
  using poll_ends_from [OF assms(1-3), of 0 "Suc fuel"] assms(4) pacedD(1) [OF assms(2)] by simp

text \<open>The loop ends for every deadline, also for one beyond half the range of the clock, which may count as passed at once.\<close>

lemma poll_total_from:
  assumes "deadline_ok passed" "clock_ok lo time T"
  shows "n = 0 \<or> T n < D \<Longrightarrow> D < T n + lo * fuel \<Longrightarrow> \<exists>r. poll fuel (time 0 + of_nat D) n = Some r"
proof (induction fuel arbitrary: n)
  case 0
  then show ?case using pacedD(1) [OF clock_ok_paced [OF assms(2)]] by auto
next
  case (Suc fuel)
  note T = pacedD [OF clock_ok_paced [OF assms(2)], unfolded if_cancel]
  show ?case
  proof (cases "D \<le> T (Suc n)")
    case True
    have "T (Suc n) - D \<le> 1000000" using Suc.prems(1) T(1) T(4) [of n] by auto
    moreover have "time (Suc n) = time 0 + of_nat D + of_nat (T (Suc n) - D)"
      unfolding T(2) [of "Suc n"] using True by (simp only: add.assoc of_nat_add [symmetric] le_add_diff_inverse)
    ultimately have "passed (time (Suc n)) (time 0 + of_nat D)"
      using assms(1) [unfolded deadline_ok_def, rule_format, of "T (Suc n) - D" "time 0 + of_nat D"] by (simp only:) simp
    then show ?thesis by (simp add: poll_Suc split: option.split)
  next
    case False
    have "\<exists>r. poll fuel (time 0 + of_nat D) (Suc n) = Some r" by (rule Suc.IH) (use False Suc.prems(2) T(3) [of n] in auto)
    then show ?thesis by (auto simp: poll_Suc split: option.split)
  qed
qed

lemma poll_total:
  assumes "deadline_ok passed" "clock_ok lo time T" "D < lo * fuel"
  shows "\<exists>r. poll fuel (time 0 + of_nat D) 0 = Some r"
  by (rule poll_total_from [OF assms(1,2)]) (use assms(3) in simp_all)

end

definition csts_stop :: "poll_env \<Rightarrow> u32 \<Rightarrow> u32 \<Rightarrow> nat \<Rightarrow> errno option option" where
  "csts_stop e msk val n = (if pe_csts e n = - 1 then Some (Some ENODEV) else if pe_csts e n AND msk = val then Some None else None)"

interpretation csts_poll: deadline_poll "\<lambda>f d. wait_ready_loop f passed e msk val d" "csts_stop e msk val" "Some ENODEV" passed "pe_time e"
  for passed e msk val
  by unfold_locales (simp_all add: csts_stop_def Let_def)

text \<open>Whatever the timeout, the wait for CSTS ends within the range of the clock, at one poll per millisecond.\<close>

lemma wait_ready_ends:
  assumes "deadline_ok passed" "clock_ok 1000 (pe_time e) T" "4294968 \<le> fuel"
  shows "\<exists>r. nvme_wait_ready fuel passed e msk val timeout = Some r"
proof -
  have "unat (timeout * 1000000) < 2 ^ 32" using unsigned_less [of "timeout * 1000000", where ?'a = nat] by simp
  then have "\<exists>r. wait_ready_loop fuel passed e msk val (pe_time e 0 + of_nat (unat (timeout * 1000000))) 0 = Some r"
    by (intro csts_poll.poll_total [OF assms(1,2)]) (use assms(3) in simp)
  then show ?thesis by (simp add: nvme_wait_ready_def)
qed

lemma enable_ends:
  assumes "deadline_ok passed" "clock_ok 1000 (pe_time e) T" "4294968 \<le> fuel"
  shows "\<exists>r s'. nvme_enable_ctrl fuel passed regs0 regs1 e s = Some (r, s')"
proof -
  obtain r where "nvme_wait_ready fuel passed e NVME_CSTS_RDY NVME_CSTS_RDY ((ready_timeout regs1 (nvme_reg_read64 regs1 NVME_REG_CAP) + 1) div 2) = Some r"
    using wait_ready_ends [OF assms] by blast
  then show ?thesis by (simp add: nvme_enable_ctrl_def Let_def)
qed

lemma disable_ends:
  assumes "deadline_ok passed" "clock_ok 1000 (pe_time e) T" "4294968 \<le> fuel"
  shows "\<exists>r s'. nvme_disable_ctrl fuel passed e shutdown s = Some (r, s')"
proof -
  obtain r1 r2 where "nvme_wait_ready fuel passed e NVME_CSTS_SHST_MASK NVME_CSTS_SHST_CMPLT (c_shutdown_timeout (k_caps s)) = Some r1"
    "nvme_wait_ready fuel passed e NVME_CSTS_RDY 0 ((NVME_CAP_TIMEOUT (k_cap s) + 1) div 2) = Some r2"
    using wait_ready_ends [OF assms] by blast
  then show ?thesis by (simp add: nvme_disable_ctrl_def Let_def)
qed

definition pp_stop :: "poll_env \<Rightarrow> NVMeController \<Rightarrow> nat \<Rightarrow> bool option" where
  "pp_stop e s n = (if nvme_ctrl_pp_status (pe_csts e n) s then None else Some True)"

interpretation fw_poll: deadline_poll "\<lambda>f d n. fw_act_loop f passed e d n s" "pp_stop e s" False passed "pe_time e"
  for passed e s
  by unfold_locales (simp_all add: pp_stop_def)

text \<open>
  C12.  While its timeout stays below 2147 seconds, the wait for CSTS ends after at most one poll per
  millisecond of it.  It reports success exactly when a poll made before the deadline read the awaited
  value and no poll up to that one read all ones; otherwise it reports ENODEV.
\<close>

theorem wait_ready_contract:
  assumes "deadline_ok passed" "clock_ok 1000 (pe_time e) T" "timeout < 2147"
  shows "nvme_wait_ready (1000 * unat timeout + 1) passed e msk val timeout =
    Some (if \<exists>k. (k = 0 \<or> T k < unat timeout * 1000000) \<and> pe_csts e k AND msk = val \<and> (\<forall>j \<le> k. pe_csts e j \<noteq> - 1)
      then None else Some ENODEV)"
proof -
  have t: "unat timeout * 1000000 < 2 ^ 31" using assms(3) by (simp add: word_less_nat_alt)
  have tw: "timeout * 1000000 = of_nat (unat timeout * 1000000)" by simp
  let ?D = "unat timeout * 1000000"
  obtain r where r: "nvme_wait_ready (1000 * unat timeout + 1) passed e msk val timeout = Some r"
      "(\<exists>k. (k = 0 \<or> T k < ?D) \<and> csts_stop e msk val k = Some r \<and> (\<forall>j < k. csts_stop e msk val j = None)) \<or>
       r = Some ENODEV \<and> (\<forall>k. k = 0 \<or> T k < ?D \<longrightarrow> csts_stop e msk val k = None)"
    using csts_poll.poll_ends [OF assms(1,2) t, of "1000 * unat timeout + 1" msk val] unfolding nvme_wait_ready_def tw by auto
  have "r = (if \<exists>k. (k = 0 \<or> T k < ?D) \<and> pe_csts e k AND msk = val \<and> (\<forall>j \<le> k. pe_csts e j \<noteq> - 1) then None else Some ENODEV)"
  proof (cases "\<exists>k. (k = 0 \<or> T k < ?D) \<and> pe_csts e k AND msk = val \<and> (\<forall>j \<le> k. pe_csts e j \<noteq> - 1)")
    case True
    then obtain k where k: "k = 0 \<or> T k < ?D" "pe_csts e k AND msk = val" "\<forall>j \<le> k. pe_csts e j \<noteq> - 1" by blast
    then have "csts_stop e msk val k = Some None" by (simp add: csts_stop_def)
    then obtain m where m: "csts_stop e msk val m = Some r" "\<forall>j < m. csts_stop e msk val j = None" using r(2) k(1) by (metis option.distinct(1))
    have "m \<le> k" using m(2) \<open>csts_stop e msk val k = Some None\<close> by (metis not_less option.distinct(1))
    then show ?thesis using m(1) k(3) True by (auto simp: csts_stop_def split: if_splits)
  next
    case False
    have "r = Some ENODEV" if k: "k = 0 \<or> T k < ?D" "csts_stop e msk val k = Some r" "\<forall>j < k. csts_stop e msk val j = None" for k
    proof (rule ccontr)
      assume "r \<noteq> Some ENODEV"
      then have "pe_csts e k AND msk = val" "pe_csts e k \<noteq> - 1" using k(2) by (auto simp: csts_stop_def split: if_splits)
      moreover have "pe_csts e j \<noteq> - 1" if "j < k" for j using k(3) that by (auto simp: csts_stop_def)
      ultimately have "\<forall>j \<le> k. pe_csts e j \<noteq> - 1" by (metis le_neq_implies_less)
      then show False using False k(1) \<open>pe_csts e k AND msk = val\<close> by blast
    qed
    then show ?thesis using r(2) False by auto
  qed
  then show ?thesis using r(1) by simp
qed

definition demo_poll :: poll_env where
  "demo_poll = \<lparr>pe_csts = (\<lambda>n. if n = 3 then 1 else 0), pe_time = (\<lambda>n. of_nat (1000 * n))\<rparr>"

lemma demo_clock: "clock_ok 1000 (pe_time demo_poll) (\<lambda>n. 1000 * n)"
  by (simp add: clock_ok_def demo_poll_def)

theorem wait_ready_contract_witness: "nvme_wait_ready 1001 signed_passed demo_poll 1 1 1 = Some None"
proof -
  have "\<exists>k. (k = 0 \<or> 1000 * k < unat (1 :: u32) * 1000000) \<and> pe_csts demo_poll k AND 1 = 1 \<and> (\<forall>j \<le> k. pe_csts demo_poll j \<noteq> - 1)"
    by (rule exI [of _ 3]) (simp add: demo_poll_def)
  then show ?thesis using wait_ready_contract [OF signed_deadline_ok demo_clock, of 1 1 1] by simp
qed

text \<open>
  The timeout in seconds is multiplied by a million in 32 bits.  A controller that announces the
  longest ready timeout of CRTO, nine hours, gets a deadline that has already passed: unless the
  very first poll finds it ready, enabling it fails after one millisecond.
\<close>

theorem enable_timeout_wraps:
  assumes "deadline_ok passed" and cap: "NVME_CAP_MPSMIN (nvme_reg_read64 regs0 NVME_REG_CAP) = 0" "bit (nvme_reg_read64 regs1 NVME_REG_CAP) 59"
    and crto: "regs1 NVME_REG_CRTO AND 0xffff = 0xffff"
    and csts: "pe_csts e 0 AND NVME_CSTS_RDY = 0" and tick: "pe_time e 1 = pe_time e 0 + 1000"
  shows "\<exists>s'. nvme_enable_ctrl (Suc fuel) passed regs0 regs1 e s = Some (Some ENODEV, s')"
proof -
  let ?cap = "nvme_reg_read64 regs1 NVME_REG_CAP"
  have "NVME_CAP_TIMEOUT ?cap \<le> 0xff"
  proof -
    have "unat (drop_bit 24 ?cap AND 0xff) \<le> unat (0xff :: u64)" using word_and_le1 word_le_nat_alt by blast
    then have "unat (drop_bit 24 ?cap AND 0xff) \<le> 255" by simp
    then show ?thesis by (simp add: NVME_CAP_TIMEOUT_def word_le_nat_alt unsigned_ucast_eq take_bit_nat_eq_self)
  qed
  then have "\<not> (0xffff :: u32) < NVME_CAP_TIMEOUT ?cap" by (simp add: word_le_nat_alt word_less_nat_alt)
  then have t: "ready_timeout regs1 ?cap = 0xffff" using cap(2) crto by (simp add: ready_timeout_def Let_def)
  have q: "passed (d + of_nat t) d" if "t < 2 ^ 31" for d t using assms(1) that unfolding deadline_ok_def by blast
  have "passed ((pe_time e 0 + 32768 * 1000000) + of_nat 1591739368) (pe_time e 0 + 32768 * 1000000)" by (rule q) simp
  moreover have "(32768 * 1000000 + of_nat 1591739368 :: u32) = 1000" by simp
  ultimately have p: "passed (pe_time e 0 + 1000) (pe_time e 0 + 32768 * 1000000)" by (simp only: add.assoc)
  have "nvme_wait_ready (Suc fuel) passed e NVME_CSTS_RDY NVME_CSTS_RDY 32768 = Some (Some ENODEV)"
    using csts tick p by (simp add: nvme_wait_ready_def Let_def)
  then show ?thesis using cap(1) by (simp add: nvme_enable_ctrl_def Let_def t)
qed

text \<open>
  The buffer for the host behaviour options is not given back when neither option is needed.
\<close>

theorem host_options_leak:
  assumes "dma_pool_ok P" "dma_zalloc P DMA_ALIGN_MIN 512 s = Some (host, s1)" "k_crdt s ! 0 = 0" "c_ctratt (k_caps s) AND NVME_CTRL_ATTR_ELBAS = 0"
  shows "fst (nvme_configure_host_options P sync s) = Ret_ok \<and> k_dma s host = None \<and>
    k_dma (snd (nvme_configure_host_options P sync s)) host = Some 512"
proof -
  obtain m where "k_dma s host = None" "s1 = s\<lparr>k_dma := (k_dma s)(host := Some 512), k_mem := m\<rparr>"
    using zalloc_shape [OF assms(1,2)] by blast
  then show ?thesis using assms(2-4) by (simp add: nvme_configure_host_options_def)
qed

section \<open>Resets that do not come back\<close>

lemma flush_loop_idle: "\<forall>tag. slot (get_q s sel) tag = None \<Longrightarrow> flush_loop P sel is s = s"
  by (induction "is") simp_all

lemma flush_idle: "\<forall>tag. slot (get_q s sel) tag = None \<Longrightarrow> nvme_flush_queue_inflight P sel s = s"
  by (simp add: nvme_flush_queue_inflight_def flush_loop_idle)

text \<open>What a reset does to the gates and the state of the controller and nothing else.\<close>

lemma reset_refused: "k_state s \<notin> {NVME_CTRL_NEW, NVME_CTRL_LIVE} \<Longrightarrow> nvme_reset_controller fuel P passed bar0 e s = Some s"
  by (simp add: nvme_reset_controller_def nvme_change_ctrl_state_def ctrl_can_change_def)

lemma fw_done_frame:
  "k_state (nvme_submit_aer P (nvme_get_fw_slot_info P s)) = k_state s" "k_flags (nvme_submit_aer P (nvme_get_fw_slot_info P s)) = k_flags s"
proof -
  have a: "io_frame s (snd (nvme_submit_async_cmd P cmd b n d priv fl s))" for cmd b n d priv fl s by simp
  have g: "k_state (nvme_get_fw_slot_info P s) = k_state s \<and> k_flags (nvme_get_fw_slot_info P s) = k_flags s"
  proof (cases "dma_zalloc P 64 512 s")
    case (Some z)
    obtain log s1 where z: "z = (log, s1)" by (cases z)
    have s1: "k_state s1 = k_state s" "k_flags s1 = k_flags s"
      using Some z by (auto simp: dma_zalloc_def dma_alloc_def split: option.splits)
    obtain er s2 where u: "nvme_submit_async_cmd P (get_log_cmd P 0xFFFFFFFF 3 0 0 512 0) log 512 Done_fw_slot_info log 0 s1 = (er, s2)" by fastforce
    have "k_state s2 = k_state s1" "k_flags s2 = k_flags s1" using io_frameD [OF a, of "get_log_cmd P 0xFFFFFFFF 3 0 0 512 0" log 512 Done_fw_slot_info log 0 s1] u by simp_all
    then show ?thesis using Some z u s1 by (simp add: nvme_get_fw_slot_info_def dma_free_def split: option.split)
  qed (simp add: nvme_get_fw_slot_info_def)
  show "k_state (nvme_submit_aer P (nvme_get_fw_slot_info P s)) = k_state s" "k_flags (nvme_submit_aer P (nvme_get_fw_slot_info P s)) = k_flags s"
    using g io_frameD [OF a, of aer_cmd 0 0 Done_aer 0 NVME_REQ_AER "nvme_get_fw_slot_info P s"] by (simp_all add: nvme_submit_aer_def)
qed

text \<open>The time a firmware activation is given, in microseconds.\<close>

definition fw_act_limit :: "u16 \<Rightarrow> nat" where
  "fw_act_limit mtfa = (if mtfa \<noteq> 0 then unat mtfa * 100000 else 60000000)"

lemma fw_act_deadline_limit: "fw_act_deadline now mtfa = now + of_nat (fw_act_limit mtfa)"
  by (simp add: fw_act_deadline_def fw_act_limit_def mult.assoc)

text \<open>
  C24.  The firmware activation work that a Firmware Activation Starting event of a live controller
  asks for ends, while its time limit is below 2^31 microseconds (an MTFA up to 21474), with at most ten polls per second of the limit and two more.
  The clock is read before each delay of at least 100 ms, the first time at once.  If a poll made before the clock was seen past the limit finds that
  the controller has left the paused state, it is live again and the I/O gate is open.  If none does, it
  stays in RESETTING with the I/O gate closed for good: the state was entered when the event was
  handled, and the reset that the time-out asks for is refused in that state.
\<close>

theorem fw_activation_outcome:
  fixes s :: NVMeController and result :: u32
  assumes live: "k_state s = NVME_CTRL_LIVE" and ev: "nvme_aer_subtype result = 1"
    and clock: "deadline_ok passed" "paced 0 100000 (pe_time e) T" "fw_act_limit (k_mtfa s) < 2 ^ 31"
  defines "s1 \<equiv> snd (nvme_handle_aen_notice result s)"
  shows "\<exists>s2. nvme_fw_act_work (fw_act_limit (k_mtfa s) div 100000 + 2) P passed e s1 = Some s2 \<and>
    (if \<exists>k. (k = 0 \<or> T k < fw_act_limit (k_mtfa s)) \<and> \<not> nvme_ctrl_pp_status (pe_csts e k) s
     then k_state s2 = NVME_CTRL_LIVE \<and> \<not> bit (k_flags s2) NVME_CTRL_STOPPED
     else k_state s2 = NVME_CTRL_RESETTING \<and> bit (k_flags s2) NVME_CTRL_STOPPED \<and>
       (\<forall>fuel' passed' bar0 e'. nvme_reset_controller fuel' P passed' bar0 e' s2 = Some s2))"
proof -
  let ?D = "fw_act_limit (k_mtfa s)"
  have s1: "k_state s1 = NVME_CTRL_RESETTING" "k_mtfa s1 = k_mtfa s" "k_caps s1 = k_caps s"
    using live ev by (simp_all add: s1_def nvme_handle_aen_notice_def nvme_change_ctrl_state_def ctrl_can_change_def nvme_queue_fw_act_work_def emit_def)
  define q where "q = nvme_quiesce_io_queues s1"
  have q: "k_state q = NVME_CTRL_RESETTING" "bit (k_flags q) NVME_CTRL_STOPPED" "k_caps q = k_caps s"
    using s1 by (simp_all add: q_def nvme_quiesce_io_queues_def gate_close_def test_and_set_flag_def bit_simps)
  then have pp: "nvme_ctrl_pp_status c q = nvme_ctrl_pp_status c s" for c by (simp add: nvme_ctrl_pp_status_def)
  obtain r where r: "fw_act_loop (?D div 100000 + 2) passed e (pe_time e 0 + of_nat ?D) 0 q = Some r"
      "(\<exists>k. (k = 0 \<or> T k < ?D) \<and> pp_stop e q k = Some r \<and> (\<forall>j < k. pp_stop e q j = None)) \<or>
       r = False \<and> (\<forall>k. k = 0 \<or> T k < ?D \<longrightarrow> pp_stop e q k = None)"
    using fw_poll.poll_ends_early_clock [OF clock, of "?D div 100000 + 1" q] dividend_less_div_times [of 100000 ?D] by (auto simp del: fw_act_loop.simps)
  have rv: "r \<longleftrightarrow> (\<exists>k. (k = 0 \<or> T k < ?D) \<and> \<not> nvme_ctrl_pp_status (pe_csts e k) s)"
  proof -
    have "pp_stop e q k = Some b \<longleftrightarrow> b \<and> \<not> nvme_ctrl_pp_status (pe_csts e k) s" "pp_stop e q k = None \<longleftrightarrow> nvme_ctrl_pp_status (pe_csts e k) s" for k b
      by (auto simp: pp_stop_def pp)
    then show ?thesis using r(2) by blast
  qed
  have w: "nvme_fw_act_work (?D div 100000 + 2) P passed e s1 = Some
      (if r then nvme_submit_aer P (nvme_get_fw_slot_info P (nvme_unquiesce_io_queues (q\<lparr>k_state := NVME_CTRL_LIVE\<rparr>))) else snd (nvme_reset_ctrl q))"
    using r(1) q(1) unfolding nvme_fw_act_work_def Let_def q_def [symmetric] s1(2) fw_act_deadline_limit
    by (simp add: nvme_change_ctrl_state_def ctrl_can_change_def split: bool.split)
  show ?thesis
  proof (cases r)
    case True
    then show ?thesis using w rv
      by (simp add: fw_done_frame nvme_unquiesce_io_queues_def) (simp add: gate_open_shape test_and_clear_flag_def bit_simps)
  next
    case False
    then have st: "k_state (snd (nvme_reset_ctrl q)) = NVME_CTRL_RESETTING" "bit (k_flags (snd (nvme_reset_ctrl q))) NVME_CTRL_STOPPED"
      using q by (simp_all add: nvme_reset_ctrl_def emit_def)
    then have "nvme_reset_controller fuel' P passed' bar0 e' (snd (nvme_reset_ctrl q)) = Some (snd (nvme_reset_ctrl q))" for fuel' passed' bar0 e'
      by (intro reset_refused) simp
    then show ?thesis using w rv st False by auto
  qed
qed

definition demo_paused :: poll_env where
  "demo_paused = \<lparr>pe_csts = (\<lambda>_. 0x21), pe_time = (\<lambda>n. of_nat (100000 * (n - 1)))\<rparr>"

definition demo_fw :: NVMeController where
  "demo_fw = zero_ctrl\<lparr>k_state := NVME_CTRL_LIVE, k_mtfa := 1, k_caps := zero_caps\<lparr>c_ctrl_config := 1\<rparr>\<rparr>"

definition demo_reset :: reset_env where
  "demo_reset = \<lparr>re_disable = demo_poll, re_regs0 = (\<lambda>_. 0x10000), re_regs1 = (\<lambda>_. 0), re_enable = demo_paused\<rparr>"

theorem fw_activation_outcome_witness:
  "\<exists>s2. nvme_fw_act_work 3 m68k_platform signed_passed demo_paused (snd (nvme_handle_aen_notice 0x102 demo_fw)) = Some s2 \<and>
    k_state s2 = NVME_CTRL_RESETTING \<and> nvme_reset_controller 1 m68k_platform signed_passed True demo_reset s2 = Some s2"
proof -
  have ev: "nvme_aer_subtype 0x102 = 1" by (simp add: nvme_aer_subtype_def)
  have st: "k_state demo_fw = NVME_CTRL_LIVE" "k_mtfa demo_fw = 1" "c_ctrl_config (k_caps demo_fw) = 1" by (simp_all add: demo_fw_def)
  have c: "paced 0 100000 (pe_time demo_paused) (\<lambda>n. 100000 * (n - 1))"
    unfolding paced_def demo_paused_def by (auto simp: gr0_conv_Suc simp del: of_nat_mult)
  have "nvme_ctrl_pp_status (pe_csts demo_paused k) demo_fw" for k by (simp add: nvme_ctrl_pp_status_def demo_paused_def st)
  then have n: "\<not> (\<exists>k. (k = 0 \<or> 100000 * (k - 1) < fw_act_limit (k_mtfa demo_fw)) \<and> \<not> nvme_ctrl_pp_status (pe_csts demo_paused k) demo_fw)" by blast
  have l: "fw_act_limit (k_mtfa demo_fw) < 2 ^ 31" "fw_act_limit (k_mtfa demo_fw) div 100000 + 2 = 3" by (simp_all add: fw_act_limit_def st)
  from fw_activation_outcome [OF st(1) ev signed_deadline_ok c l(1), of m68k_platform, unfolded l(2) if_not_P [OF n]]
  show ?thesis by blast
qed

section \<open>A reset that fails\<close>

definition gates :: "NVMeController \<Rightarrow> u32 \<times> nvme_ctrl_state \<times> nat option \<times> port_msg list" where
  "gates s = (k_flags s, k_state s, k_unit_waits s, k_msgPort s)"

lemma gates_prim [simp]:
  "gates (set_q sel q s) = gates s" "gates (dma_free a s) = gates s" "gates (pool_free n s) = gates s" "gates (emit e s) = gates s"
  by (cases sel) (simp_all add: gates_def set_q_def upd_q_def dma_free_def pool_free_def emit_def)

lemma gates_alloc:
  "dma_zalloc P a n s = Some (b, s') \<Longrightarrow> gates s' = gates s" "pool_zalloc P n s = Some s' \<Longrightarrow> gates s' = gates s"
  by (auto simp: gates_def dma_zalloc_def dma_alloc_def pool_zalloc_def split: option.splits if_splits)

lemma gates_teardown [simp]: "gates (nvme_teardown_queue sel s) = gates s"
  by (simp add: nvme_teardown_queue_def Let_def split: option.split)

lemma gates_setup:
  assumes "nvme_setup_queue P sel qid depth s = (ok, s')"
  shows "gates s' = gates s"
  using assms by (auto simp: nvme_setup_queue_def Let_def dest!: gates_alloc split: option.splits)

lemma gates_setup_admin:
  assumes "nvme_setup_admin_queue P cap_hi s = (ok, s')"
  shows "gates s' = gates s"
proof -
  let ?s = "s\<lparr>k_db_stride := push_bit (unat (cap_hi AND 0xF)) 4\<rparr>"
  obtain b t where q: "nvme_setup_queue P Admin_q 0 NVME_ADMIN_QUEUE_SIZE ?s = (b, t)" by fastforce
  have "gates ?s = gates s" by (simp add: gates_def)
  then show ?thesis using assms gates_setup [OF q] by (auto simp: nvme_setup_admin_queue_def Let_def q split: if_splits)
qed

lemma gates_enable: "nvme_enable_ctrl fuel passed regs0 regs1 e s = Some (r, s') \<Longrightarrow> gates s' = gates s"
  by (auto simp: nvme_enable_ctrl_def Let_def set_ctrl_config_def split: if_splits) (simp_all add: gates_def emit_def)

lemma gates_disable: "nvme_disable_ctrl fuel passed e sd s = Some (r, s') \<Longrightarrow> gates s' = gates s"
  by (auto simp: nvme_disable_ctrl_def Let_def set_ctrl_config_def split: if_splits) (simp_all add: gates_def emit_def)

lemma drain_closed: "bit (k_flags s) NVME_CTRL_STOPPED \<Longrightarrow> nvme_drain_msgport P s = s"
  by (simp add: nvme_drain_msgport_def)

text \<open>
  A reset of an idle controller that cannot be enabled again ends with the controller DEAD and
  the I/O gate still closed.  A request that \<open>beginIO\<close> then leaves at the port of the unit task is
  not answered: no number of dispatch passes takes it from the port.
\<close>

theorem failed_reset_strands_requests:
  fixes s :: NVMeController
  assumes live: "k_state s = NVME_CTRL_LIVE" "k_unit_waits s = None" and idle: "\<forall>sel tag. slot (get_q s sel) tag = None"
    and r: "nvme_reset_controller fuel P passed True e s = Some s'"
    and dead: "\<forall>t u. nvme_enable_ctrl fuel passed (re_regs0 e) (re_regs1 e) (re_enable e) t \<noteq> Some (None, u)"
  shows "k_state s' = NVME_CTRL_DEAD \<and> bit (k_flags s') NVME_CTRL_STOPPED \<and>
    (\<forall>io n. begun Queued_unit io s' (beginIO io s') \<longrightarrow>
      (nvme_drain_msgport P ^^ n) (beginIO io s') = beginIO io s' \<and> Io_msg io \<in> set (k_msgPort (beginIO io s')))"
proof -
  define s2 where "s2 = nvme_quiesce_admin_queue (nvme_quiesce_io_queues (s\<lparr>k_state := NVME_CTRL_RESETTING\<rparr>))"
  have g2: "get_q s2 sel = get_q s sel" for sel
    by (cases sel) (simp_all add: s2_def get_q_def nvme_quiesce_admin_queue_def nvme_quiesce_io_queues_def gate_close_def)
  have s2: "k_state s2 = NVME_CTRL_RESETTING" "bit (k_flags s2) NVME_CTRL_STOPPED" "k_unit_waits s2 = None"
    using live(2) by (simp_all add: s2_def nvme_quiesce_admin_queue_def nvme_quiesce_io_queues_def gate_close_def test_and_set_flag_def bit_simps)
  have fl: "nvme_flush_queue_inflight P sel s2 = s2" for sel by (rule flush_idle) (simp add: g2 idle)
  have fin: "s' = nvme_reset_finish P False t \<Longrightarrow> gates t = gates s2 \<Longrightarrow> k_state s' = NVME_CTRL_DEAD \<and> bit (k_flags s') NVME_CTRL_STOPPED" for t
    using s2 by (simp add: nvme_reset_finish_def nvme_change_ctrl_state_def ctrl_can_change_def gates_def)
  obtain q s5 where d: "nvme_disable_ctrl fuel passed (re_disable e) False s2 = Some (q, s5)"
    using r live(1) by (auto simp: nvme_reset_controller_def nvme_change_ctrl_state_def ctrl_can_change_def Let_def fl s2 s2_def [symmetric] split: option.splits)
  let ?s5 = "nvme_teardown_queue Admin_q (nvme_teardown_queue Io_q s5)"
  have r': "(case nvme_setup_admin_queue P (re_regs0 e (NVME_REG_CAP + 4)) ?s5 of
              (False, s6) \<Rightarrow> Some (nvme_reset_finish P False s6)
            | (True, s6) \<Rightarrow>
               (case nvme_enable_ctrl fuel passed (re_regs0 e) (re_regs1 e) (re_enable e) s6 of
                  None \<Rightarrow> None
                | Some (Some _, s7) \<Rightarrow> Some (nvme_reset_finish P False s7)
                | Some (None, s7) \<Rightarrow> Some (nvme_reset_rebuild_io_async P (nvme_unquiesce_admin_queue s7)))) = Some s'"
    using r live(1) by (simp add: nvme_reset_controller_def nvme_change_ctrl_state_def ctrl_can_change_def Let_def fl s2 s2_def [symmetric] d)
  obtain b s6 where a: "nvme_setup_admin_queue P (re_regs0 e (NVME_REG_CAP + 4)) ?s5 = (b, s6)" by fastforce
  have g6: "gates s6 = gates s2" using gates_setup_admin [OF a] gates_disable [OF d] by simp
  have "k_state s' = NVME_CTRL_DEAD \<and> bit (k_flags s') NVME_CTRL_STOPPED"
  proof (cases b)
    case False
    then show ?thesis using r' a fin [OF _ g6] by auto
  next
    case True
    then obtain er s7 where e: "nvme_enable_ctrl fuel passed (re_regs0 e) (re_regs1 e) (re_enable e) s6 = Some (Some er, s7)"
      using r' a dead by (cases "nvme_enable_ctrl fuel passed (re_regs0 e) (re_regs1 e) (re_enable e) s6") (auto split: option.splits)
    then show ?thesis using r' a True fin [of s7] gates_enable [OF e] g6 by simp
  qed
  moreover have "(nvme_drain_msgport P ^^ n) t = t" if "bit (k_flags t) NVME_CTRL_STOPPED" for t n
    by (induction n) (simp_all add: drain_closed that)
  moreover have "k_flags (beginIO io s') = k_flags s' \<and> Io_msg io \<in> set (k_msgPort (beginIO io s'))" if "begun Queued_unit io s' (beginIO io s')" for io
    using that by (auto simp: begun_def inline_done_def put_unit_msg_def clear_quick_def upd_io_def emit_def)
  ultimately show ?thesis by simp
qed

theorem failed_reset_strands_requests_witness:
  "\<exists>s'. nvme_reset_controller 1 m68k_platform signed_passed True demo_reset demo_fw = Some s' \<and> k_state s' = NVME_CTRL_DEAD \<and>
    bit (k_flags s') NVME_CTRL_STOPPED"
proof -
  have st: "k_state demo_fw = NVME_CTRL_LIVE" "k_unit_waits demo_fw = None" by (simp_all add: demo_fw_def zero_ctrl_def)
  have "slot (get_q demo_fw sel) tag = None" for sel tag by (cases sel) (simp_all add: demo_fw_def zero_ctrl_def get_q_def slot_def zero_queue_def)
  note idle = allI [OF allI [OF this]]
  have "12 < NVME_CAP_MPSMIN (nvme_reg_read64 (\<lambda>_. 0x10000) NVME_REG_CAP) + 12"
    by (simp add: NVME_CAP_MPSMIN_def nvme_reg_read64_def)
  then have en: "nvme_enable_ctrl 1 signed_passed (re_regs0 demo_reset) (re_regs1 demo_reset) (re_enable demo_reset) t =
      Some (Some ENODEV, t\<lparr>k_cap := nvme_reg_read64 (\<lambda>_. 0x10000) NVME_REG_CAP\<rparr>)" for t
    by (simp add: nvme_enable_ctrl_def demo_reset_def Let_def)
  have "nvme_wait_ready 1 signed_passed demo_poll NVME_CSTS_RDY 0 timeout = Some None" for timeout
    by (simp add: nvme_wait_ready_def demo_poll_def)
  then have "\<forall>t. \<exists>u. nvme_disable_ctrl 1 signed_passed (re_disable demo_reset) False t = Some (None, u)"
    by (simp add: nvme_disable_ctrl_def Let_def demo_reset_def)
  then obtain F where dis: "\<And>t. nvme_disable_ctrl 1 signed_passed (re_disable demo_reset) False t = Some (None, F t)" by metis
  have "\<exists>s'. nvme_reset_controller 1 m68k_platform signed_passed True demo_reset demo_fw = Some s'"
    using dis en st by (auto simp: nvme_reset_controller_def nvme_change_ctrl_state_def ctrl_can_change_def Let_def split: prod.split bool.split option.split)
  then obtain s' where s': "nvme_reset_controller 1 m68k_platform signed_passed True demo_reset demo_fw = Some s'" by blast
  from failed_reset_strands_requests [OF st idle s'] s' show ?thesis using en by simp
qed

end
