(* ===== verification/Nvme_Scan.thy ===== *)
theory Nvme_Scan
  imports Nvme_Init
begin

text \<open>
  Namespace discovery of src/nvme/nvme_scan.c and the unit allocation of
  src/nvme/nvme_probe.c: the namespaces of the controller, the units they expose in the
  unit list of the device base, and the scan that adds, revalidates and removes them.

  A namespace pointer is the list entry with its namespace identifier; a unit handle is the
  unit number, which is never reused.  The loop over the pages of the active list ends when
  the controller ends the list: it takes fuel, one unit a page.
\<close>

section \<open>Units\<close>

abbreviation (input) SIZEOF_NVMeUnit :: u32 where "SIZEOF_NVMeUnit \<equiv> 90"
abbreviation (input) SIZEOF_nvme_ns :: u32 where "SIZEOF_nvme_ns \<equiv> 100"
abbreviation (input) NVME_NS_REMOVING :: nat where "NVME_NS_REMOVING \<equiv> 0"
abbreviation (input) NVME_NS_READY :: nat where "NVME_NS_READY \<equiv> 4"
abbreviation (input) NVME_AER_NOTICE_NS_CHANGED :: nat where "NVME_AER_NOTICE_NS_CHANGED \<equiv> 0"

definition wz_limit :: "u32 \<Rightarrow> u8 \<Rightarrow> u32" where
  "wz_limit max_zeroes_sectors blockShift =
    (let by_dev = push_bit 9 (ucast max_zeroes_sectors) :: u64; by_nlb = push_bit (unat blockShift) 0x10000 :: u64;
         lim = (if by_dev < by_nlb then by_dev else by_nlb);
         lim' = (if 0xFFFFFFFF < lim then 0xFFFFFFFF else lim)
     in ucast lim' AND NOT (push_bit (unat blockShift) 1 - 1))"

definition nvme_alloc_nvmeunit ::
    "platform \<Rightarrow> u32 \<Rightarrow> u32 \<Rightarrow> u8 \<Rightarrow> u64 \<Rightarrow> u32 \<Rightarrow> NVMeController \<Rightarrow> nat option \<times> NVMeController" where
  "nvme_alloc_nvmeunit P nsid blockSize blockShift logicalSectors features s =
    (case pool_zalloc P SIZEOF_NVMeUnit s of
       None \<Rightarrow> (None, s)
     | Some s1 \<Rightarrow>
        let u = unat (k_nextUnitNumber s1);
            U = zero_unit\<lparr>u_nsid := nsid, u_blockSize := blockSize, u_blockShift := ucast blockShift,
              u_logicalSectors := logicalSectors, u_features := features,
              u_wz_max_bytes := wz_limit (k_max_zeroes_sectors s1) blockShift, u_changeCount := 1, u_unitNumber := u\<rparr>
        in (Some u, s1\<lparr>k_units := (k_units s1)(u := U), k_nextUnitNumber := k_nextUnitNumber s1 + 1,
              k_base_units := k_base_units s1 @ [u]\<rparr>))"

section \<open>Namespaces\<close>

definition nvme_lba_to_sect :: "u8 \<Rightarrow> u64 \<Rightarrow> u64" where
  "nvme_lba_to_sect lba_shift lba = push_bit (unat lba_shift - 9) lba"

definition nvme_find_ns :: "u32 \<Rightarrow> NVMeController \<Rightarrow> nvme_ns option" where
  "nvme_find_ns nsid s = find (\<lambda>ns. ns_id ns = nsid) (k_namespaces s)"

definition nvme_ns_ids_equal :: "nvme_ns_ids \<Rightarrow> nvme_ns_ids \<Rightarrow> bool" where
  "nvme_ns_ids_equal a b \<longleftrightarrow> ids_uuid a = ids_uuid b \<and> ids_nguid a = ids_nguid b \<and> ids_eui64 a = ids_eui64 b \<and> ids_csi a = ids_csi b"

definition nvme_ns_ids_duplicate :: "nvme_ns_ids \<Rightarrow> NVMeController \<Rightarrow> bool" where
  "nvme_ns_ids_duplicate ids s =
    (let has_eui64 = memchr_inv (ids_eui64 ids) 0; has_nguid = memchr_inv (ids_nguid ids) 0; has_uuid = memchr_inv (ids_uuid ids) 0 in
     if \<not> has_eui64 \<and> \<not> has_nguid \<and> \<not> has_uuid then False
     else list_ex (\<lambda>ns. has_eui64 \<and> ids_eui64 ids = ids_eui64 (ns_ids ns) \<or> has_nguid \<and> ids_nguid ids = ids_nguid (ns_ids ns) \<or>
       has_uuid \<and> ids_uuid ids = ids_uuid (ns_ids ns)) (k_namespaces s))"

definition set_deac :: "bool \<Rightarrow> NVMeUnit \<Rightarrow> NVMeUnit" where
  "set_deac deac U = U\<lparr>u_features := (u_features U AND NOT NVME_NS_DEAC) OR (if deac then NVME_NS_DEAC else 0)\<rparr>"

definition nvme_update_ns_info :: "nvme_ns_info \<Rightarrow> nvme_ns \<Rightarrow> NVMeController \<Rightarrow> nvme_ns \<times> NVMeController" where
  "nvme_update_ns_info info ns s =
    (if ids_csi (i_ids info) \<noteq> NVME_CSI_NVM then (ns\<lparr>ns_flags := ns_flags ns OR push_bit NVME_NS_READY 1\<rparr>, s)
     else
       let ns1 = ns\<lparr>ns_lba_shift := i_lba_shift info, ns_ms := i_ms info, ns_pi_type := i_pi_type info, ns_pic := i_pic info,
             ns_elbaf := i_elbaf info, ns_lbstm := i_lbstm info\<rparr>;
           s1 = (case ns_unit ns of None \<Rightarrow> s | Some u \<Rightarrow> s\<lparr>k_units := (k_units s)(u := set_deac (i_deac info) (k_units s u))\<rparr>);
           ns2 = (if i_ms info = 0 \<and> i_pi_type info = 0 \<and> 9 \<le> ns_lba_shift ns1 \<and> ns_lba_shift ns1 \<le> 12
                  then ns1\<lparr>ns_disk_capacity_sectors := nvme_lba_to_sect (ns_lba_shift ns1) (i_nsze info)\<rparr> else ns1)
       in (ns2\<lparr>ns_flags := ns_flags ns2 OR push_bit NVME_NS_READY 1\<rparr>, s1))"

definition nvme_alloc_ns :: "platform \<Rightarrow> nvme_ns_info \<Rightarrow> NVMeController \<Rightarrow> NVMeController" where
  "nvme_alloc_ns P info s =
    (let dup = \<not> bit (k_quirks s) NVME_QUIRK_BOGUS_NID \<and> nvme_ns_ids_duplicate (i_ids info) s;
         info1 = (if dup then info\<lparr>i_ids := (i_ids info)\<lparr>ids_eui64 := replicate 8 0, ids_nguid := replicate 16 0, ids_uuid := replicate 16 0\<rparr>\<rparr>
                  else info);
         s1 = (if dup then s\<lparr>k_quirks := k_quirks s OR push_bit NVME_QUIRK_BOGUS_NID 1\<rparr> else s)
     in case pool_zalloc P SIZEOF_nvme_ns s1 of
       None \<Rightarrow> s1
     | Some s2 \<Rightarrow>
        (case nvme_update_ns_info info1 (zero_ns\<lparr>ns_id := i_nsid info1, ns_ids := i_ids info1\<rparr>) s2 of (ns, s3) \<Rightarrow>
         (case nvme_alloc_nvmeunit P (ns_id ns) (push_bit (unat (ns_lba_shift ns)) 1) (ns_lba_shift ns) (ns_disk_capacity_sectors ns)
             (if i_deac info1 then NVME_NS_DEAC else 0) s3 of (u, s4) \<Rightarrow>
            s4\<lparr>k_namespaces := k_namespaces s4 @ [ns\<lparr>ns_unit := u\<rparr>]\<rparr>)))"

definition kill_unit :: "nat \<Rightarrow> NVMeController \<Rightarrow> NVMeController" where
  "kill_unit u s = s\<lparr>k_units := (k_units s)(u := (k_units s u)\<lparr>u_flags := u_flags (k_units s u) OR NVME_UNIT_DEAD\<rparr>),
     k_base_units := remove1 u (k_base_units s)\<rparr>"

definition nvme_ns_remove :: "nvme_ns \<Rightarrow> NVMeController \<Rightarrow> NVMeController" where
  "nvme_ns_remove ns s =
    (if bit (ns_flags ns) NVME_NS_REMOVING then s
     else
       let s1 = (case ns_unit ns of None \<Rightarrow> s | Some u \<Rightarrow> kill_unit u s)
       in pool_free SIZEOF_nvme_ns (s1\<lparr>k_namespaces := remove1 ns (k_namespaces s1)\<rparr>))"

definition nvme_ns_remove_by_nsid :: "u32 \<Rightarrow> NVMeController \<Rightarrow> NVMeController" where
  "nvme_ns_remove_by_nsid nsid s = (case nvme_find_ns nsid s of None \<Rightarrow> s | Some ns \<Rightarrow> nvme_ns_remove ns s)"

definition nvme_validate_ns :: "nvme_ns \<Rightarrow> nvme_ns_info \<Rightarrow> NVMeController \<Rightarrow> NVMeController" where
  "nvme_validate_ns ns info s =
    (if \<not> nvme_ns_ids_equal (ns_ids ns) (i_ids info) then nvme_ns_remove ns s
     else case nvme_update_ns_info info ns s of (ns', s1) \<Rightarrow>
       s1\<lparr>k_namespaces := map (\<lambda>n. if ns_id n = ns_id ns then ns' else n) (k_namespaces s1)\<rparr>)"

definition nvme_scan_ns :: "platform \<Rightarrow> sync_dev \<Rightarrow> u32 \<Rightarrow> NVMeController \<Rightarrow> NVMeController" where
  "nvme_scan_ns P sync nsid s =
    (case nvme_identify_ns_info P sync (zero_info\<lparr>i_nsid := nsid\<rparr>) s of (ret, info, s1) \<Rightarrow>
       let s2 = (if i_is_removed info then nvme_ns_remove_by_nsid nsid s1 else s1) in
       if ret \<noteq> Ret_ok \<or> \<not> i_is_ready info then s2
       else case nvme_find_ns nsid s2 of
         Some ns \<Rightarrow> nvme_validate_ns ns info s2
       | None \<Rightarrow> nvme_alloc_ns P info s2)"

section \<open>Scans\<close>

definition nvme_remove_invalid_namespaces :: "u32 \<Rightarrow> NVMeController \<Rightarrow> NVMeController" where
  "nvme_remove_invalid_namespaces nsid s = fold (\<lambda>ns s. if nsid < ns_id ns then nvme_ns_remove ns s else s) (k_namespaces s) s"

lemma unat_pred_less: "(w :: 'a::len word) \<noteq> 0 \<Longrightarrow> unat (w - 1) < unat w"
  by (metis One_nat_def diff_less lessI linorder_not_less unat_0 unat_gt_0 unat_sub unsigned_1 word_less_eq_iff_unsigned word_less_1 word_not_simps(1) word_order.not_eq_extremum)

text \<open>\<open>while (++prev < nsid) nvme_ns_remove_by_nsid(ctrl, prev)\<close>, with the wrap of the increment.\<close>

function remove_gap :: "u32 \<Rightarrow> u32 \<Rightarrow> NVMeController \<Rightarrow> u32 \<times> NVMeController" where
  "remove_gap nsid prev s =
    (if prev + 1 < nsid then remove_gap nsid (prev + 1) (nvme_ns_remove_by_nsid (prev + 1) s) else (prev + 1, s))"
  by pat_completeness auto
termination
proof (relation "measure (\<lambda>(nsid, prev, s). unat (nsid - (prev + 1)))")
  fix nsid prev :: u32 and s
  assume "prev + 1 < nsid"
  then have "nsid - (prev + 1) \<noteq> 0" by auto
  then have "unat (nsid - (prev + 1) - 1) < unat (nsid - (prev + 1))" by (rule unat_pred_less)
  moreover have "nsid - (prev + 1 + 1) = nsid - (prev + 1) - 1" by (simp add: algebra_simps)
  ultimately show "((nsid, prev + 1, nvme_ns_remove_by_nsid (prev + 1) s), nsid, prev, s) \<in> measure (\<lambda>(nsid, prev, s). unat (nsid - (prev + 1)))"
    by (simp only: in_measure prod.case)
qed auto

declare remove_gap.simps [simp del]

text \<open>One page of the active list: whether its end was reached, the last identifier, the state.\<close>

fun scan_page :: "platform \<Rightarrow> sync_dev \<Rightarrow> u32 list \<Rightarrow> u32 \<Rightarrow> NVMeController \<Rightarrow> bool \<times> u32 \<times> NVMeController" where
  "scan_page P sync [] prev s = (False, prev, s)"
| "scan_page P sync (nsid # rest) prev s =
    (if nsid = 0 then (True, prev, s)
     else case remove_gap nsid prev (nvme_scan_ns P sync nsid s) of (prev', s1) \<Rightarrow> scan_page P sync rest prev' s1)"

fun scan_list_loop :: "nat \<Rightarrow> platform \<Rightarrow> sync_dev \<Rightarrow> u32 \<Rightarrow> NVMeController \<Rightarrow> (sync_ret \<times> NVMeController) option" where
  "scan_list_loop 0 P sync prev s = None"
| "scan_list_loop (Suc fuel) P sync prev s =
    (let cmd = identify_cmd (p_le32 P prev) NVME_ID_CNS_NS_ACTIVE_LIST 0; s1 = emit (Ev_sync cmd) s in
     case sync cmd of (ret, d) \<Rightarrow>
       if ret \<noteq> Ret_ok then Some (ret, s1)
       else case scan_page P sync (map (\<lambda>i. get_le32 d (4 * i)) [0..<1024]) prev s1 of (ended, prev', s2) \<Rightarrow>
         if ended then Some (Ret_ok, nvme_remove_invalid_namespaces prev' s2) else scan_list_loop fuel P sync prev' s2)"

definition nvme_scan_ns_list :: "nat \<Rightarrow> platform \<Rightarrow> sync_dev \<Rightarrow> NVMeController \<Rightarrow> (sync_ret \<times> NVMeController) option" where
  "nvme_scan_ns_list fuel P sync s =
    (case dma_zalloc P DMA_ALIGN_MIN 4096 s of
       None \<Rightarrow> Some (Ret_errno ENOMEM, s)
     | Some (ns_list, s1) \<Rightarrow> map_option (\<lambda>(ret, s2). (ret, dma_free ns_list s2)) (scan_list_loop fuel P sync 0 s1))"

text \<open>The sequential scan, with its 32-bit counter: the result is None where the loop never ends.\<close>

partial_function (option) seq_scan :: "platform \<Rightarrow> sync_dev \<Rightarrow> u32 \<Rightarrow> u32 \<Rightarrow> NVMeController \<Rightarrow> NVMeController option" where
  "seq_scan pl sync nn i s = (if i \<le> nn then seq_scan pl sync nn (i + 1) (nvme_scan_ns pl sync i s) else Some s)"

definition nvme_scan_ns_sequential :: "platform \<Rightarrow> sync_dev \<Rightarrow> NVMeController \<Rightarrow> NVMeController option" where
  "nvme_scan_ns_sequential P sync s =
    (case nvme_identify_ctrl P sync s of
       (Inl _, s1) \<Rightarrow> Some s1
     | (Inr (id', d), s1) \<Rightarrow>
        let nn = get_le32 d 516
        in map_option (nvme_remove_invalid_namespaces nn) (seq_scan P sync nn 1 (dma_free id' s1)))"

definition nvme_clear_changed_ns_log :: "platform \<Rightarrow> sync_dev \<Rightarrow> NVMeController \<Rightarrow> NVMeController" where
  "nvme_clear_changed_ns_log P sync s =
    (case dma_zalloc P DMA_ALIGN_MIN 4096 s of
       None \<Rightarrow> s
     | Some (log', s1) \<Rightarrow> dma_free log' (emit (Ev_sync (get_log_cmd P 0xFFFFFFFF 4 0 NVME_CSI_NVM 4096 0)) s1))"

definition nvme_scan_namespaces :: "nat \<Rightarrow> platform \<Rightarrow> sync_dev \<Rightarrow> NVMeController \<Rightarrow> NVMeController option" where
  "nvme_scan_namespaces fuel P sync s =
    (if k_state s \<noteq> NVME_CTRL_LIVE then Some s
     else case nvme_init_non_mdts_limits P sync s of
       (Ret_errno _, s1) \<Rightarrow> Some s1
     | (_, s1) \<Rightarrow>
        let (changed, ev) = test_and_clear_flag NVME_AER_NOTICE_NS_CHANGED (k_events s1);
            s2 = s1\<lparr>k_events := ev\<rparr>;
            s3 = (if changed then nvme_clear_changed_ns_log P sync s2 else s2);
            scanned = (if \<not> nvme_id_cns_ok s3 NVME_ID_CNS_NS_ACTIVE_LIST then nvme_scan_ns_sequential P sync s3
              else Option.bind (nvme_scan_ns_list fuel P sync s3) (\<lambda>(ret, s4). case ret of
                     Ret_status st \<Rightarrow> if st AND NVME_STATUS_DNR \<noteq> 0 then nvme_scan_ns_sequential P sync s4 else Some s4
                   | _ \<Rightarrow> Some s4))
        in map_option (\<lambda>s5. if bit (k_events s5) NVME_AER_NOTICE_NS_CHANGED then nvme_queue_scan s5 else s5) scanned)"

definition nvme_remove_namespaces :: "NVMeController \<Rightarrow> NVMeController" where
  "nvme_remove_namespaces s =
    (let s1 = nvme_unquiesce_io_queues s; s2 = snd (nvme_change_ctrl_state NVME_CTRL_DELETING_NOIO s1)
     in fold nvme_ns_remove (k_namespaces s2) s2)"

section \<open>The namespace table\<close>

text \<open>
  The invariant of the scan: namespace identifiers are non-zero and listed once, the units of
  listed namespaces are in the unit list and carry their identifier, unit numbers in use are
  distinct and below the counter.
\<close>

definition scan_ok :: "NVMeController \<Rightarrow> bool" where
  "scan_ok s \<longleftrightarrow> distinct (map ns_id (k_namespaces s)) \<and>
     (\<forall>ns \<in> set (k_namespaces s). ns_id ns \<noteq> 0 \<and> \<not> bit (ns_flags ns) NVME_NS_REMOVING \<and>
        (\<forall>u. ns_unit ns = Some u \<longrightarrow> u \<in> set (k_base_units s) \<and> u_nsid (k_units s u) = ns_id ns)) \<and>
     distinct (k_base_units s) \<and> (\<forall>u \<in> set (k_base_units s). u < unat (k_nextUnitNumber s))"

definition nsids :: "NVMeController \<Rightarrow> u32 set" where
  "nsids s = ns_id ` set (k_namespaces s)"

text \<open>One step of a scan that takes at most \<open>k\<close> new units and leaves only namespaces of \<open>A\<close>.\<close>

definition scan_step :: "nat \<Rightarrow> u32 set \<Rightarrow> NVMeController \<Rightarrow> NVMeController \<Rightarrow> bool" where
  "scan_step k A s s' \<longleftrightarrow> scan_ok s' \<and> nsids s' \<subseteq> A \<and> unat (k_nextUnitNumber s') \<le> unat (k_nextUnitNumber s) + k \<and> k_dma s' = k_dma s"

lemma scan_step_trans: "scan_step k A s s1 \<Longrightarrow> scan_step l B s1 s2 \<Longrightarrow> scan_step (k + l) B s s2"
  by (auto simp: scan_step_def)

lemma scan_ok_same:
  assumes "scan_ok s" "k_namespaces s' = k_namespaces s" "k_units s' = k_units s" "k_base_units s' = k_base_units s"
    "k_nextUnitNumber s' = k_nextUnitNumber s"
  shows "scan_ok s'"
  using assms by (simp add: scan_ok_def)

lemma scan_step_refl: "scan_ok s \<Longrightarrow> nsids s \<subseteq> A \<Longrightarrow> scan_step k A s s"
  by (simp add: scan_step_def)

lemma find_ns: "nvme_find_ns nsid s = Some ns \<Longrightarrow> ns \<in> set (k_namespaces s) \<and> ns_id ns = nsid"
    "nvme_find_ns nsid s = None \<longleftrightarrow> nsid \<notin> nsids s"
  by (auto simp: nvme_find_ns_def find_None_iff nsids_def dest: find_SomeD)

lemma distinct_ids_unique:
  "distinct (map f xs) \<Longrightarrow> x \<in> set xs \<Longrightarrow> y \<in> set xs \<Longrightarrow> f x = f y \<Longrightarrow> x = y"
  by (simp add: distinct_map inj_on_def)

lemma removed_unit:
  assumes "scan_ok s" "ns \<in> set (k_namespaces s)" "ns_unit ns = Some u"
  shows "u \<notin> set (k_base_units (nvme_ns_remove ns s)) \<and>
    u_flags (k_units (nvme_ns_remove ns s) u) AND NVME_UNIT_DEAD \<noteq> 0"
proof -
  have "(u_flags U OR 1) AND 1 = (1 :: u32)" for U by (rule or_mask_and) simp
  then show ?thesis
    using assms by (auto simp: nvme_ns_remove_def Let_def kill_unit_def pool_free_def scan_ok_def)
qed

lemma ns_remove_step:
  assumes ok: "scan_ok s" and ns: "ns \<in> set (k_namespaces s)"
  shows "scan_step k (nsids s - {ns_id ns}) s (nvme_ns_remove ns s)"
proof -
  let ?L = "remove1 ns (k_namespaces s)"
  have d: "distinct (map ns_id (k_namespaces s))" and nr: "\<not> bit (ns_flags ns) NVME_NS_REMOVING" using ok ns by (auto simp: scan_ok_def)
  have rest: "set ?L = set (k_namespaces s) - {ns}" using d by (simp add: distinct_map)
  have other: "ns_id n \<noteq> ns_id ns" if "n \<in> set ?L" for n using that rest distinct_ids_unique [OF d _ ns] by auto
  define s' where "s' = nvme_ns_remove ns s"
  have L: "k_namespaces s' = ?L" "k_nextUnitNumber s' = k_nextUnitNumber s" "k_dma s' = k_dma s"
    and B: "k_base_units s' = (case ns_unit ns of None \<Rightarrow> k_base_units s | Some u \<Rightarrow> remove1 u (k_base_units s))"
    and U: "\<And>v. u_nsid (k_units s' v) = u_nsid (k_units s v)"
    using nr by (auto simp: s'_def nvme_ns_remove_def Let_def kill_unit_def pool_free_def split: option.split)
  have "ns_unit n = Some u \<Longrightarrow> u \<in> set (k_base_units s') \<and> u_nsid (k_units s' u) = ns_id n" if "n \<in> set ?L" for n u
  proof -
    assume u: "ns_unit n = Some u"
    have "n \<in> set (k_namespaces s)" using that rest by blast
    then have n: "u \<in> set (k_base_units s)" "u_nsid (k_units s u) = ns_id n" using ok u by (auto simp: scan_ok_def)
    moreover have "ns_unit ns \<noteq> Some u" using ok ns n(2) other [OF that] by (auto simp: scan_ok_def)
    ultimately show ?thesis by (auto simp: B U split: option.split)
  qed
  moreover have "distinct (map ns_id ?L)" using d by (simp add: distinct_map inj_on_def rest)
  ultimately have "scan_ok s'"
    using ok rest by (auto simp: scan_ok_def L B split: option.split dest: in_set_remove1 [THEN iffD1])
  moreover have "nsids s' \<subseteq> nsids s - {ns_id ns}" using rest other by (auto simp: nsids_def L)
  ultimately show ?thesis by (simp add: scan_step_def s'_def [symmetric] L)
qed

lemma remove_by_nsid_step:
  assumes "scan_ok s"
  shows "scan_step k (nsids s - {nsid}) s (nvme_ns_remove_by_nsid nsid s)"
proof (cases "nvme_find_ns nsid s")
  case None
  then have "nsids s - {nsid} = nsids s" using find_ns(2) by blast
  then show ?thesis using assms None by (simp add: nvme_ns_remove_by_nsid_def scan_step_refl)
next
  case (Some ns)
  then show ?thesis using ns_remove_step [OF assms] find_ns(1) [OF Some] by (auto simp: nvme_ns_remove_by_nsid_def)
qed

lemma update_ns_info_shape:
  assumes "nvme_update_ns_info info ns s = (ns', s')"
  shows "ns_id ns' = ns_id ns" "ns_unit ns' = ns_unit ns" "ns_ids ns' = ns_ids ns" "ns_flags ns' = ns_flags ns OR push_bit NVME_NS_READY 1"
    "\<exists>U. s' = s\<lparr>k_units := U\<rparr> \<and> (\<forall>u. u_nsid (U u) = u_nsid (k_units s u) \<and> u_flags (U u) = u_flags (k_units s u))"
proof -
  show "ns_id ns' = ns_id ns" "ns_unit ns' = ns_unit ns" "ns_ids ns' = ns_ids ns" "ns_flags ns' = ns_flags ns OR push_bit NVME_NS_READY 1"
    using assms by (auto simp: nvme_update_ns_info_def Let_def split: if_splits)
  have "s' = s \<or> (\<exists>u. s' = s\<lparr>k_units := (k_units s)(u := set_deac (i_deac info) (k_units s u))\<rparr>)"
    using assms by (auto simp: nvme_update_ns_info_def Let_def split: if_splits option.splits)
  then show "\<exists>U. s' = s\<lparr>k_units := U\<rparr> \<and> (\<forall>u. u_nsid (U u) = u_nsid (k_units s u) \<and> u_flags (U u) = u_flags (k_units s u))"
  proof
    assume "s' = s"
    then show ?thesis by (intro exI [of _ "k_units s"]) simp
  next
    assume "\<exists>u. s' = s\<lparr>k_units := (k_units s)(u := set_deac (i_deac info) (k_units s u))\<rparr>"
    then obtain u where "s' = s\<lparr>k_units := (k_units s)(u := set_deac (i_deac info) (k_units s u))\<rparr>" ..
    then show ?thesis by (intro exI [of _ "(k_units s)(u := set_deac (i_deac info) (k_units s u))"]) (simp add: set_deac_def)
  qed
qed

lemma validate_step:
  assumes ok: "scan_ok s" and ns: "ns \<in> set (k_namespaces s)"
  shows "scan_step k (nsids s) s (nvme_validate_ns ns info s)"
proof (cases "nvme_ns_ids_equal (ns_ids ns) (i_ids info)")
  case False
  then show ?thesis using ns_remove_step [OF ok ns, of k] by (auto simp: nvme_validate_ns_def scan_step_def)
next
  case True
  obtain ns' s1 where u: "nvme_update_ns_info info ns s = (ns', s1)" by (meson surj_pair)
  obtain U where U: "s1 = s\<lparr>k_units := U\<rparr>" "\<And>u. u_nsid (U u) = u_nsid (k_units s u)"
    using update_ns_info_shape(5) [OF u] by blast
  note sh = update_ns_info_shape(1-4) [OF u]
  let ?f = "\<lambda>n. if ns_id n = ns_id ns then ns' else n"
  have id: "ns_id (?f n) = ns_id n" for n by (simp add: sh)
  have ids: "map ns_id (map ?f (k_namespaces s)) = map ns_id (k_namespaces s)" by (simp add: id)
  have e: "nvme_validate_ns ns info s = s\<lparr>k_units := U, k_namespaces := map ?f (k_namespaces s)\<rparr>"
    using True u by (simp add: nvme_validate_ns_def U(1))
  have "ns_id (?f n) \<noteq> 0 \<and> \<not> bit (ns_flags (?f n)) NVME_NS_REMOVING \<and>
      (\<forall>u. ns_unit (?f n) = Some u \<longrightarrow> u \<in> set (k_base_units s) \<and> u_nsid (U u) = ns_id (?f n))" if "n \<in> set (k_namespaces s)" for n
    using ok ns that by (auto simp: scan_ok_def sh U(2) bit_simps)
  moreover define L where "L = map ?f (k_namespaces s)"
  ultimately have "\<forall>n \<in> set L. ns_id n \<noteq> 0 \<and> \<not> bit (ns_flags n) NVME_NS_REMOVING \<and>
      (\<forall>u. ns_unit n = Some u \<longrightarrow> u \<in> set (k_base_units s) \<and> u_nsid (U u) = ns_id n)" "distinct (map ns_id L)"
    using ok ids by (simp_all only: set_map ball_simps scan_ok_def) blast
  then have "scan_ok (nvme_validate_ns ns info s)" using ok by (simp add: e scan_ok_def L_def [symmetric])
  moreover have "nsids (nvme_validate_ns ns info s) = nsids s"
    using arg_cong [OF ids, of set] unfolding nsids_def e by (simp only: set_map) simp
  ultimately show ?thesis by (simp add: scan_step_def) (simp add: e)
qed

lemma alloc_ns_step:
  assumes ok: "scan_ok s" and new: "i_nsid info \<notin> nsids s" "i_nsid info \<noteq> 0" and room: "unat (k_nextUnitNumber s) + 1 < 2 ^ 32"
  shows "scan_step 1 (insert (i_nsid info) (nsids s)) s (nvme_alloc_ns P info s)"
proof -
  define dup where "dup \<longleftrightarrow> \<not> bit (k_quirks s) NVME_QUIRK_BOGUS_NID \<and> nvme_ns_ids_duplicate (i_ids info) s"
  define info1 where "info1 = (if dup then info\<lparr>i_ids := (i_ids info)\<lparr>ids_eui64 := replicate 8 0, ids_nguid := replicate 16 0, ids_uuid := replicate 16 0\<rparr>\<rparr> else info)"
  define s1 where "s1 = (if dup then s\<lparr>k_quirks := k_quirks s OR push_bit NVME_QUIRK_BOGUS_NID 1\<rparr> else s)"
  have i1: "i_nsid info1 = i_nsid info" by (simp add: info1_def)
  have sel: "k_namespaces s1 = k_namespaces s" "k_units s1 = k_units s" "k_base_units s1 = k_base_units s" "k_nextUnitNumber s1 = k_nextUnitNumber s" "k_dma s1 = k_dma s"
    by (simp_all add: s1_def)
  have ok1: "scan_ok s1" by (rule scan_ok_same [OF ok]) (simp_all add: sel)
  show ?thesis
  proof (cases "p_pool_alloc P SIZEOF_nvme_ns (k_meta s1)")
    case False
    then have "nvme_alloc_ns P info s = s1" by (simp add: nvme_alloc_ns_def Let_def s1_def dup_def pool_zalloc_def)
    then show ?thesis using ok1 by (auto simp: scan_step_def sel nsids_def)
  next
    case True
    define s2 where "s2 = s1\<lparr>k_meta := SIZEOF_nvme_ns # k_meta s1\<rparr>"
    obtain ns s3 where u: "nvme_update_ns_info info1 (zero_ns\<lparr>ns_id := i_nsid info1, ns_ids := i_ids info1\<rparr>) s2 = (ns, s3)" by (meson surj_pair)
    note sh = update_ns_info_shape(1-4) [OF u]
    obtain U where U: "s3 = s2\<lparr>k_units := U\<rparr>" "\<And>u. u_nsid (U u) = u_nsid (k_units s2 u)"
      using update_ns_info_shape(5) [OF u] by blast
    obtain w s4 where w: "nvme_alloc_nvmeunit P (ns_id ns) (push_bit (unat (ns_lba_shift ns)) 1) (ns_lba_shift ns) (ns_disk_capacity_sectors ns)
             (if i_deac info1 then NVME_NS_DEAC else 0) s3 = (w, s4)" by (meson surj_pair)
    have r: "nvme_alloc_ns P info s = s4\<lparr>k_namespaces := k_namespaces s4 @ [ns\<lparr>ns_unit := w\<rparr>]\<rparr>"
      using True u w unfolding nvme_alloc_ns_def Let_def dup_def [symmetric] info1_def [symmetric] s1_def [symmetric]
      by (simp add: pool_zalloc_def s2_def)
    let ?n = "unat (k_nextUnitNumber s)"
    have nn: "unat (k_nextUnitNumber s + 1) = ?n + 1" using room by (simp add: unat_word_ariths(1))
    have w4: "w = None \<and> k_units s4 = U \<and> k_base_units s4 = k_base_units s \<and> k_nextUnitNumber s4 = k_nextUnitNumber s \<or>
        w = Some ?n \<and> (\<exists>V. k_units s4 = U(?n := V) \<and> u_nsid V = ns_id ns) \<and> k_base_units s4 = k_base_units s @ [?n] \<and>
          k_nextUnitNumber s4 = k_nextUnitNumber s + 1"
      and f4: "k_namespaces s4 = k_namespaces s" "k_dma s4 = k_dma s"
      using w by (auto simp: nvme_alloc_nvmeunit_def pool_zalloc_def Let_def U(1) s2_def sel split: if_splits)
    have old: "u \<in> set (k_base_units s4) \<and> u_nsid (k_units s4 u) = ns_id n" if "n \<in> set (k_namespaces s)" "ns_unit n = Some u" for n u
    proof -
      have "u \<in> set (k_base_units s)" "u_nsid (k_units s u) = ns_id n" "u < ?n" using ok that by (auto simp: scan_ok_def)
      then show ?thesis using w4 U(2) by (auto simp: s2_def sel)
    qed
    have base: "distinct (k_base_units s4) \<and> (\<forall>u \<in> set (k_base_units s4). u < unat (k_nextUnitNumber s4))"
      using ok w4 nn by (auto simp: scan_ok_def) (metis less_SucI)+
    have mine: "w = Some u \<Longrightarrow> u \<in> set (k_base_units s4) \<and> u_nsid (k_units s4 u) = i_nsid info" for u
      using w4 sh(1) i1 by auto
    have "scan_ok (nvme_alloc_ns P info s)"
      using ok new base old mine by (auto simp: r scan_ok_def f4 sh i1 nsids_def zero_ns_def bit_simps)
    moreover have "nsids (nvme_alloc_ns P info s) = insert (i_nsid info) (nsids s)" by (simp add: nsids_def r f4 sh i1)
    ultimately show ?thesis using w4 nn by (auto simp: scan_step_def r f4)
  qed
qed

lemma scan_ns_step:
  assumes ok: "scan_ok s" and P: "dma_pool_ok P" and nz: "nsid \<noteq> 0" and room: "unat (k_nextUnitNumber s) + 1 < 2 ^ 32"
  shows "scan_step 1 (insert nsid (nsids s)) s (nvme_scan_ns P sync nsid s)"
proof -
  obtain ret info s1 where i: "nvme_identify_ns_info P sync (zero_info\<lparr>i_nsid := nsid\<rparr>) s = (ret, info, s1)" by (metis prod_cases3)
  have f: "ident_frame s s1" and id: "i_nsid info = nsid" using ns_info_frame [OF P i] by (auto simp: zero_info_def)
  note sel = ident_frame_sel [OF f]
  have ok1: "scan_ok s1" by (rule scan_ok_same [OF ok]) (simp_all add: sel)
  define s2 where "s2 = (if i_is_removed info then nvme_ns_remove_by_nsid nsid s1 else s1)"
  have ids1: "nsids s1 = nsids s" by (simp add: nsids_def sel)
  have st: "scan_step 0 (nsids s) s1 s2"
    using remove_by_nsid_step [OF ok1, of 0 nsid] ok1 ids1 by (auto simp: s2_def scan_step_def)
  then have st0: "scan_step 0 (nsids s) s s2" by (simp add: scan_step_def sel)
  then have ok2: "scan_ok s2" and room2: "unat (k_nextUnitNumber s2) + 1 < 2 ^ 32" and sub: "nsids s2 \<subseteq> nsids s" using room by (auto simp: scan_step_def)
  have r: "nvme_scan_ns P sync nsid s = (if ret \<noteq> Ret_ok \<or> \<not> i_is_ready info then s2
      else case nvme_find_ns nsid s2 of Some ns \<Rightarrow> nvme_validate_ns ns info s2 | None \<Rightarrow> nvme_alloc_ns P info s2)"
    unfolding nvme_scan_ns_def i prod.case s2_def [symmetric] Let_def ..
  have "scan_step 1 (insert nsid (nsids s2)) s2 (nvme_scan_ns P sync nsid s)"
  proof (cases "ret \<noteq> Ret_ok \<or> \<not> i_is_ready info")
    case True
    then show ?thesis using ok2 by (auto simp: r intro: scan_step_refl)
  next
    case go: False
    show ?thesis
    proof (cases "nvme_find_ns nsid s2")
      case None
      then show ?thesis using go alloc_ns_step [OF ok2 _ _ room2, of info P] nz find_ns(2) [of nsid s2] by (simp add: r id)
    next
      case (Some ns)
      then show ?thesis using go validate_step [OF ok2, of ns 1 info] find_ns(1) [OF Some] by (auto simp: r scan_step_def)
    qed
  qed
  then show ?thesis using st0 sub by (auto simp: scan_step_def)
qed

lemma remove_invalid_step:
  assumes "scan_ok s"
  shows "scan_step k {i \<in> nsids s. i \<le> nsid} s (nvme_remove_invalid_namespaces nsid s)"
proof -
  have "scan_ok t \<Longrightarrow> set L \<subseteq> set (k_namespaces t) \<Longrightarrow> distinct L \<Longrightarrow>
      scan_step k (nsids t - {ns_id n |n. n \<in> set L \<and> nsid < ns_id n}) t
        (fold (\<lambda>ns s. if nsid < ns_id ns then nvme_ns_remove ns s else s) L t)" for L t
  proof (induction L arbitrary: t)
    case Nil
    then show ?case by (simp add: scan_step_refl)
  next
    case (Cons n L)
    define t1 where "t1 = (if nsid < ns_id n then nvme_ns_remove n t else t)"
    have st: "scan_step 0 (nsids t - {i. i = ns_id n \<and> nsid < i}) t t1"
      using ns_remove_step [OF Cons.prems(1), of n 0] Cons.prems by (auto simp: t1_def intro: scan_step_refl) (simp add: scan_step_def, blast)?
    have "distinct (k_namespaces t)" using Cons.prems(1) by (simp add: scan_ok_def distinct_map)
    then have keep: "set L \<subseteq> set (k_namespaces t1)"
      using Cons.prems by (auto simp: t1_def nvme_ns_remove_def Let_def pool_free_def kill_unit_def split: option.split)
    have "scan_ok t1" using st by (simp add: scan_step_def)
    from Cons.IH [OF this keep] Cons.prems(3)
    have "scan_step k (nsids t1 - {ns_id n |n. n \<in> set L \<and> nsid < ns_id n}) t1
        (fold (\<lambda>ns s. if nsid < ns_id ns then nvme_ns_remove ns s else s) L t1)" by simp
    then show ?case using st unfolding scan_step_def fold_simps comp_def t1_def [symmetric] by auto
  qed
  from this [OF assms subset_refl]
  have "scan_step k (nsids s - {ns_id n |n. n \<in> set (k_namespaces s) \<and> nsid < ns_id n}) s (nvme_remove_invalid_namespaces nsid s)"
    using assms by (simp add: nvme_remove_invalid_namespaces_def scan_ok_def distinct_map)
  moreover have "nsids s - {ns_id n |n. n \<in> set (k_namespaces s) \<and> nsid < ns_id n} \<subseteq> {i \<in> nsids s. i \<le> nsid}"
    by (auto simp: nsids_def not_less)
  ultimately show ?thesis by (auto simp: scan_step_def)
qed

lemma remove_gap_step:
  assumes "scan_ok s" "prev < nsid" "remove_gap nsid prev s = (prev', s')"
  shows "prev' = nsid \<and> scan_step k {i \<in> nsids s. i \<le> prev \<or> nsid \<le> i} s s'"
  using assms
proof (induction nsid prev s rule: remove_gap.induct)
  case (1 nsid prev s)
  have le: "i \<le> prev + 1 \<longleftrightarrow> i \<le> prev \<or> i = prev + 1" for i
  proof -
    have "unat prev + 1 < 2 ^ LENGTH(32)" using 1(3) unsigned_less [of nsid, where ?'a = nat] by (simp add: word_less_nat_alt)
    then have "unat (prev + 1) = unat prev + 1" by (simp add: unat_word_ariths(1))
    then show ?thesis by (auto simp: word_le_nat_alt le_Suc_eq word_unat_eq_iff)
  qed
  show ?case
  proof (cases "prev + 1 < nsid")
    case True
    let ?t = "nvme_ns_remove_by_nsid (prev + 1) s"
    have st: "scan_step 0 (nsids s - {prev + 1}) s ?t" by (rule remove_by_nsid_step [OF 1(2)])
    then have "prev' = nsid \<and> scan_step k {i \<in> nsids ?t. i \<le> prev + 1 \<or> nsid \<le> i} ?t s'"
      using 1(1) [OF True _ True] 1(4) True by (simp add: remove_gap.simps [of nsid prev] scan_step_def)
    then show ?thesis using st le by (auto simp: scan_step_def)
  next
    case False
    then have "nsid = prev + 1" using 1(3) by (metis inc_le order_antisym not_less)
    moreover have "(prev', s') = (prev + 1, s)" using 1(4) False by (simp add: remove_gap.simps [of nsid prev])
    moreover have "i \<le> prev \<or> prev + 1 \<le> i" for i using le [of i] by (cases "i \<le> prev + 1") auto
    then have "nsids s \<subseteq> {i \<in> nsids s. i \<le> prev \<or> prev + 1 \<le> i}" by blast
    ultimately show ?thesis using scan_step_refl [OF 1(2)] by simp
  qed
qed

section \<open>A scan of the active list\<close>

text \<open>
  A controller that serves the active namespace list as the specification says: asked for
  the identifiers above \<open>prev\<close>, it returns the first 1024 of them in ascending order,
  padded with zeros.
\<close>

definition above :: "u32 list \<Rightarrow> u32 \<Rightarrow> u32 list" where
  "above active prev = filter (\<lambda>n. prev < n) active"

definition serves_list :: "platform \<Rightarrow> sync_dev \<Rightarrow> u32 list \<Rightarrow> bool" where
  "serves_list P sync active \<longleftrightarrow> sorted_wrt (<) active \<and> 0 \<notin> set active \<and>
     (\<forall>prev. \<exists>d. sync (identify_cmd (p_le32 P prev) NVME_ID_CNS_NS_ACTIVE_LIST 0) = (Ret_ok, d) \<and>
        map (\<lambda>i. get_le32 d (4 * i)) [0..<1024] = take 1024 (above active prev) @ replicate (1024 - length (above active prev)) 0)"

text \<open>Halfway through a scan, everything up to the last identifier seen is active.\<close>

definition scanned :: "u32 set \<Rightarrow> u32 \<Rightarrow> nat \<Rightarrow> NVMeController \<Rightarrow> bool" where
  "scanned A prev k s \<longleftrightarrow> scan_ok s \<and> {i \<in> nsids s. i \<le> prev} \<subseteq> A \<and> unat (k_nextUnitNumber s) + k < 2 ^ 32"

lemma scan_page_scanned:
  assumes "dma_pool_ok P" "sorted_wrt (<) (prev # xs)" "set xs \<subseteq> A" "scanned A prev (length xs + k) s"
  shows "\<exists>s'. scan_page P sync (xs @ replicate n 0) prev s = (n \<noteq> 0, last (prev # xs), s') \<and>
    scanned A (last (prev # xs)) k s' \<and> k_dma s' = k_dma s"
  using assms
proof (induction xs arbitrary: prev s)
  case Nil
  then show ?case by (cases n) auto
next
  case (Cons nsid xs)
  have lt: "prev < nsid" "nsid \<noteq> 0" "nsid \<in> A" using Cons.prems(2,3) by auto
  have ok: "scan_ok s" and le: "{i \<in> nsids s. i \<le> prev} \<subseteq> A" and room: "unat (k_nextUnitNumber s) + Suc (length xs + k) < 2 ^ 32"
    using Cons.prems(4) by (auto simp: scanned_def)
  define s1 where "s1 = nvme_scan_ns P sync nsid s"
  have st1: "scan_step 1 (insert nsid (nsids s)) s s1"
    unfolding s1_def by (rule scan_ns_step [OF ok Cons.prems(1) lt(2)]) (use room in simp)
  obtain prev' s2 where g: "remove_gap nsid prev s1 = (prev', s2)" by (meson surj_pair)
  have st2: "prev' = nsid" "scan_step 0 {i \<in> nsids s1. i \<le> prev \<or> nsid \<le> i} s1 s2"
    using remove_gap_step [OF _ lt(1) g, of 0] st1 by (auto simp: scan_step_def)
  have "{i \<in> nsids s2. i \<le> nsid} \<subseteq> A"
    using st1 st2(2) le lt by (fastforce simp: scan_step_def)
  then have "scanned A nsid (length xs + k) s2" using st1 st2(2) room by (auto simp: scanned_def scan_step_def)
  moreover have "sorted_wrt (<) (nsid # xs)" "set xs \<subseteq> A" using Cons.prems by auto
  ultimately obtain s' where "scan_page P sync (xs @ replicate n 0) nsid s2 = (n \<noteq> 0, last (nsid # xs), s')"
    "scanned A (last (nsid # xs)) k s'" "k_dma s' = k_dma s2"
    using Cons.IH [OF Cons.prems(1)] by blast
  then show ?case using g st1 st2 lt(2) by (auto simp: s1_def [symmetric] scan_step_def)
qed

lemma last_max: "sorted_wrt (<) (xs @ ys) \<Longrightarrow> xs \<noteq> [] \<Longrightarrow> x \<in> set xs \<Longrightarrow> \<not> last xs < (x :: u32)"
  by (induction xs rule: rev_induct) (auto simp: sorted_wrt_append)

lemma above_split:
  assumes "sorted_wrt (<) active" "above active prev = xs @ ys" "xs \<noteq> []"
  shows "above active (last xs) = ys"
proof -
  have s: "sorted_wrt (<) (xs @ ys)" using sorted_wrt_filter [OF assms(1)] assms(2) by (metis above_def)
  have "last xs \<in> set (above active prev)" using assms(2,3) by simp
  then have "prev < last xs" by (simp add: above_def)
  then have "above active (last xs) = filter (\<lambda>n. last xs < n) (above active prev)"
    by (auto simp: above_def intro!: filter_cong)
  also have "\<dots> = filter (\<lambda>n. last xs < n) xs @ filter (\<lambda>n. last xs < n) ys" by (simp add: assms(2))
  also have "filter (\<lambda>n. last xs < n) xs = []"
    using last_max [OF s assms(3)] by (auto simp: filter_empty_conv)
  also have "filter (\<lambda>n. last xs < n) ys = ys"
    using s assms(3) by (auto simp: filter_id_conv sorted_wrt_append)
  finally show ?thesis by simp
qed

lemma scan_list_loop_ok:
  assumes P: "dma_pool_ok P" and dev: "serves_list P sync active"
    and inv: "scanned (set active) prev (length (above active prev)) s" and fuel: "length (above active prev) < fuel"
  shows "\<exists>s'. scan_list_loop fuel P sync prev s = Some (Ret_ok, s') \<and> scan_ok s' \<and> nsids s' \<subseteq> set active \<and> k_dma s' = k_dma s"
  using inv fuel
proof (induction fuel arbitrary: prev s)
  case 0
  then show ?case by simp
next
  case (Suc fuel)
  let ?l = "above active prev" and ?cmd = "identify_cmd (p_le32 P prev) NVME_ID_CNS_NS_ACTIVE_LIST 0"
  obtain d where d: "sync ?cmd = (Ret_ok, d)"
    "map (\<lambda>i. get_le32 d (4 * i)) [0..<1024] = take 1024 ?l @ replicate (1024 - length ?l) 0"
    using dev by (auto simp: serves_list_def)
  define xs where "xs = take 1024 ?l"
  have l: "?l = xs @ drop 1024 ?l" by (simp add: xs_def)
  have srt: "sorted_wrt (<) active" using dev by (simp add: serves_list_def)
  then have "sorted_wrt (<) (prev # ?l)" using sorted_wrt_filter [OF srt] by (auto simp: above_def)
  then have sx: "sorted_wrt (<) (prev # xs)" by (metis l sorted_wrt_append append_Cons)
  have "set xs \<subseteq> set ?l" by (simp add: xs_def set_take_subset)
  then have sub: "set xs \<subseteq> set active" by (auto simp: above_def)
  have "length ?l = length xs + length (drop 1024 ?l)" by (metis l length_append)
  then have "scanned (set active) prev (length xs + length (drop 1024 ?l)) (emit (Ev_sync ?cmd) s)"
    using Suc.prems(1) scan_ok_same [of s] by (simp add: scanned_def nsids_def emit_def)
  from scan_page_scanned [OF P sx sub this, of sync "1024 - length ?l"]
  obtain s2 where pg: "scan_page P sync (xs @ replicate (1024 - length ?l) 0) prev (emit (Ev_sync ?cmd) s) =
      (1024 - length ?l \<noteq> 0, last (prev # xs), s2)" and sc: "scanned (set active) (last (prev # xs)) (length (drop 1024 ?l)) s2"
    and "k_dma s2 = k_dma (emit (Ev_sync ?cmd) s)" by blast
  then have dm: "k_dma s2 = k_dma s" by (simp add: emit_def)
  have step: "scan_list_loop (Suc fuel) P sync prev s = (if length ?l < 1024
      then Some (Ret_ok, nvme_remove_invalid_namespaces (last (prev # xs)) s2) else scan_list_loop fuel P sync (last (prev # xs)) s2)"
    unfolding scan_list_loop.simps Let_def d xs_def [symmetric] prod.case pg by simp
  show ?case
  proof (cases "length ?l < 1024")
    case True
    have "scan_step 0 {i \<in> nsids s2. i \<le> last (prev # xs)} s2 (nvme_remove_invalid_namespaces (last (prev # xs)) s2)"
      by (rule remove_invalid_step) (use sc in \<open>simp add: scanned_def\<close>)
    then show ?thesis using step True sc dm by (auto simp: scanned_def scan_step_def)
  next
    case False
    then have ne: "xs \<noteq> []" by (auto simp: xs_def)
    have ab: "above active (last (prev # xs)) = drop 1024 ?l" using above_split [OF srt l ne] ne by simp
    have lt: "length (drop 1024 ?l) < fuel" using Suc.prems(2) False by simp
    obtain s' where "scan_list_loop fuel P sync (last (prev # xs)) s2 = Some (Ret_ok, s')" "scan_ok s'" "nsids s' \<subseteq> set active" "k_dma s' = k_dma s2"
      using Suc.IH [OF sc [folded ab] lt [folded ab]] by blast
    then show ?thesis using step False dm by auto
  qed
qed

text \<open>
  C8.  A scan of the active list, against a controller that serves the list as specified,
  ends, gives its buffer back and keeps the namespace table well formed: identifiers listed
  once, every listed unit exposed under its own identifier, unit numbers never shared.  When
  it completes, every namespace still listed is active, so that namespaces which disappeared,
  between or above the active ones, are gone.
\<close>

theorem scan_list_converges:
  assumes ok: "scan_ok s" "dma_pool_ok P" and dev: "serves_list P sync active"
    and room: "unat (k_nextUnitNumber s) + length active < 2 ^ 32" and fuel: "length active < fuel"
  shows "\<exists>ret s'. nvme_scan_ns_list fuel P sync s = Some (ret, s') \<and> scan_ok s' \<and> k_dma s' = k_dma s \<and>
    (if ret = Ret_ok then nsids s' \<subseteq> set active else ret = Ret_errno ENOMEM \<and> s' = s)"
proof (cases "dma_zalloc P DMA_ALIGN_MIN 4096 s")
  case None
  then show ?thesis using ok by (simp add: nvme_scan_ns_list_def)
next
  case (Some p)
  obtain b s1 where p: "p = (b, s1)" by (cases p)
  obtain m where m: "k_dma s b = None" "s1 = s\<lparr>k_dma := (k_dma s)(b := Some 4096), k_mem := m\<rparr>"
    using zalloc_shape [OF ok(2) Some [unfolded p]] by blast
  have z: "0 \<notin> set active" using dev by (simp add: serves_list_def)
  then have ab: "above active 0 = active" by (auto simp: above_def filter_id_conv word_gt_0)
  have "0 \<notin> nsids s" using ok(1) by (auto simp: scan_ok_def nsids_def)
  then have "scanned (set active) 0 (length active) s1"
    using ok(1) room scan_ok_same [OF ok(1), of s1] by (auto simp: scanned_def nsids_def m(2))
  then obtain s' where "scan_list_loop fuel P sync 0 s1 = Some (Ret_ok, s')" "scan_ok s'" "nsids s' \<subseteq> set active" "k_dma s' = k_dma s1"
    using scan_list_loop_ok [OF ok(2) dev, of 0 s1 fuel] fuel by (auto simp: ab)
  moreover have "scan_ok (dma_free b s')" by (rule scan_ok_same [OF \<open>scan_ok s'\<close>]) (simp_all add: dma_free_def)
  ultimately show ?thesis
    using Some p m by (simp add: nvme_scan_ns_list_def dma_free_def nsids_def fun_upd_idem)
qed

text \<open>A controller with the one namespace 1.\<close>

definition demo_dev :: sync_dev where
  "demo_dev cmd = (if cmd_body cmd = Body_identify NVME_ID_CNS_NS_ACTIVE_LIST 0 0
     then (Ret_ok, \<lambda>o'. if cmd_nsid cmd = 0 \<and> o' = 0 then 1 else 0) else (Ret_status 2, \<lambda>_. 0))"

lemma demo_dev_serves: "serves_list m68k_platform demo_dev [1]"
proof -
  have m68k_zero: "p_le32 m68k_platform 0 = 0" by (simp add: m68k_platform_def byte_swap_0)
  have le: "p_le32 m68k_platform prev = 0 \<longleftrightarrow> prev = 0" for prev
    by (metis le_okD(2) m68k_le_ok m68k_zero)
  have "map (\<lambda>i. get_le32 (\<lambda>o'. if prev = 0 \<and> o' = 0 then 1 else 0) (4 * i)) [0..<1024] =
      take 1024 (above [1] prev) @ replicate (1024 - length (above [1] prev)) 0" for prev :: u32
    by (rule nth_equalityI) (auto simp: above_def nth_append get_le32_def get_le16_def nth_Cons' word_gt_0 word_less_1)
  then show ?thesis by (simp add: serves_list_def demo_dev_def identify_cmd_def zero_cmd_def le)
qed

theorem scan_list_converges_witness:
  "\<exists>ret s'. nvme_scan_ns_list 2 m68k_platform demo_dev zero_ctrl = Some (ret, s') \<and> scan_ok s'"
proof -
  have "scan_ok zero_ctrl" by (simp add: scan_ok_def zero_ctrl_def)
  then show ?thesis
    using scan_list_converges [OF _ m68k_dma_pool_ok demo_dev_serves, of zero_ctrl 2] by (auto simp: zero_ctrl_def)
qed

section \<open>Revalidation\<close>

text \<open>A controller whose two namespaces report the same EUI-64.\<close>

definition dup_dev :: sync_dev where
  "dup_dev cmd = (Ret_ok, \<lambda>o'. if o' = 0 \<or> o' = 8 \<or> o' = 120 then 1 else if o' = 130 then 9 else 0)"

definition demo_scan :: NVMeController where
  "demo_scan = zero_ctrl\<lparr>k_caps := zero_caps\<lparr>c_vs := NVME_VS 1 1 0\<rparr>\<rparr>"

definition scan_seq :: "u32 list \<Rightarrow> NVMeController" where
  "scan_seq L = fold (nvme_scan_ns m68k_platform dup_dev) L demo_scan"

definition dup_info :: "bool \<Rightarrow> u32 \<Rightarrow> nvme_ns_info" where
  "dup_info bogus nsid = zero_info\<lparr>i_nsid := nsid, i_is_ready := True, i_lba_shift := 9, i_nsze := 1,
     i_ids := (if bogus then zero_ids else zero_ids\<lparr>ids_eui64 := [1, 0, 0, 0, 0, 0, 0, 0]\<rparr>)\<rparr>"

lemma dup_identify:
  assumes "k_caps s = k_caps demo_scan" "k_cap s = 0" "k_dma s = (\<lambda>_. None)"
  shows "\<exists>s1. nvme_identify_ns_info m68k_platform dup_dev (zero_info\<lparr>i_nsid := nsid\<rparr>) s =
    (Ret_ok, dup_info (bit (k_quirks s) NVME_QUIRK_BOGUS_NID) nsid, s1)"
proof -
  have c: "c_vs (k_caps s) = 0x10100" "c_ctrl_config (k_caps s) = 0" "c_ctratt (k_caps s) = 0"
    using assms(1) by (simp_all add: demo_scan_def NVME_VS_def zero_caps_def)
  have b: "get_bytes (\<lambda>o'. if o' = 0 \<or> o' = 8 \<or> o' = 120 then 1 else if o' = 130 then 9 else 0) 120 8 = [1, 0, 0, 0, 0, 0, 0, 0]"
    by (simp add: get_bytes_def upt_rec)
  have z: "\<not> list_ex (\<lambda>b. b \<noteq> 0) (replicate 8 (0 :: u8))" by (simp add: list_ex_iff)
  show ?thesis
    using assms(2,3)
    by (simp add: nvme_identify_ns_info_def nvme_identify_ns_descs_def c NVME_VS_def nvme_multi_css_def
      nvme_ns_info_from_identify_def nvme_identify_ns_def nvme_submit_identify_def dma_zalloc_def dma_alloc_def
      m68k_platform_def demo_pages_def dup_dev_def Let_def emit_def get_le64_def get_le32_def get_le16_def dma_free_def
      info_of_identify_def dup_info_def zero_info_def zero_ids_def memchr_inv_def nvme_lbaf_index_def b z byte_swap_0)
qed

text \<open>The state of the scan that matters here.\<close>

definition dup_state :: "u32 \<Rightarrow> nvme_ns list \<Rightarrow> u32 \<Rightarrow> NVMeController \<Rightarrow> bool" where
  "dup_state q L n s \<longleftrightarrow> k_caps s = k_caps demo_scan \<and> k_cap s = 0 \<and> k_dma s = (\<lambda>_. None) \<and> k_quirks s = q \<and>
     k_namespaces s = L \<and> k_nextUnitNumber s = n"

definition dup_ns :: "bool \<Rightarrow> u32 \<Rightarrow> nat \<Rightarrow> nvme_ns" where
  "dup_ns bogus nsid u = zero_ns\<lparr>ns_id := nsid, ns_lba_shift := 9, ns_disk_capacity_sectors := 1, ns_unit := Some u,
     ns_ids := i_ids (dup_info bogus nsid), ns_flags := 16\<rparr>"

lemma dup_scan:
  assumes "dup_state q L n s"
  shows "\<exists>s1. ident_frame s s1 \<and> dup_state q L n s1 \<and> nvme_scan_ns m68k_platform dup_dev nsid s =
    (case find (\<lambda>ns. ns_id ns = nsid) L of
       Some ns \<Rightarrow> nvme_validate_ns ns (dup_info (bit q NVME_QUIRK_BOGUS_NID) nsid) s1
     | None \<Rightarrow> nvme_alloc_ns m68k_platform (dup_info (bit q NVME_QUIRK_BOGUS_NID) nsid) s1)"
proof -
  obtain s1 where i: "nvme_identify_ns_info m68k_platform dup_dev (zero_info\<lparr>i_nsid := nsid\<rparr>) s =
    (Ret_ok, dup_info (bit q NVME_QUIRK_BOGUS_NID) nsid, s1)" using dup_identify [of s nsid] assms by (auto simp: dup_state_def)
  have f: "ident_frame s s1" using ns_info_frame [OF m68k_dma_pool_ok i] by simp
  then have d: "dup_state q L n s1" using assms ident_frame_sel [OF f] by (simp add: dup_state_def)
  moreover have "\<not> i_is_removed (dup_info b nsid)" "i_is_ready (dup_info b nsid)" for b by (simp_all add: dup_info_def zero_info_def)
  ultimately show ?thesis
    using f i by (intro exI [of _ s1]) (simp add: nvme_scan_ns_def i nvme_find_ns_def dup_state_def)
qed

lemma dup_alloc:
  assumes "dup_state q L n s"
  defines "dup \<equiv> \<not> bit q NVME_QUIRK_BOGUS_NID \<and> list_ex (\<lambda>ns. [1, 0, 0, 0, 0, 0, 0, 0] = ids_eui64 (ns_ids ns)) L"
  shows "dup_state (if dup then q OR push_bit NVME_QUIRK_BOGUS_NID 1 else q) (L @ [dup_ns (bit q NVME_QUIRK_BOGUS_NID \<or> dup) nsid (unat n)]) (n + 1)
    (nvme_alloc_ns m68k_platform (dup_info (bit q NVME_QUIRK_BOGUS_NID) nsid) s)"
proof -
  have z: "\<not> list_ex (\<lambda>b. b \<noteq> 0) (replicate k (0 :: u8))" for k by (simp add: list_ex_iff)
  have e: "zero_ids\<lparr>ids_eui64 := replicate 8 0, ids_nguid := replicate 16 0, ids_uuid := replicate 16 0\<rparr> = zero_ids" by (simp add: zero_ids_def)
  have d: "nvme_ns_ids_duplicate (i_ids (dup_info (bit q NVME_QUIRK_BOGUS_NID) nsid)) s = dup" if "\<not> bit q NVME_QUIRK_BOGUS_NID"
    using assms(1) that by (auto simp: nvme_ns_ids_duplicate_def Let_def dup_info_def memchr_inv_def zero_ids_def z dup_def dup_state_def list_ex_iff)
  have "dup \<longrightarrow> \<not> bit q NVME_QUIRK_BOGUS_NID" by (simp add: dup_def)
  then show ?thesis
    using assms(1) d by (cases "bit q NVME_QUIRK_BOGUS_NID"; cases dup)
      (auto simp: nvme_alloc_ns_def Let_def dup_state_def pool_zalloc_def m68k_platform_def nvme_update_ns_info_def dup_info_def zero_info_def
        zero_ns_def nvme_alloc_nvmeunit_def dup_ns_def nvme_lba_to_sect_def zero_ids_def)
qed

text \<open>
  A controller whose two namespaces report the same EUI-64 loses the first one at the
  next scan, although its answers have not changed: the first scan exposes both and latches
  the bogus-identifier quirk, the quirk hides the identifiers from then on, and the recorded
  identifiers of the first namespace no longer match.  Its unit is dead and unlisted.
\<close>

theorem rescan_drops_namespace:
  "map ns_id (k_namespaces (scan_seq [1, 2])) = [1, 2] \<and> map ns_id (k_namespaces (scan_seq [1, 2, 1])) = [2] \<and>
   ns_unit (hd (k_namespaces (scan_seq [1, 2]))) = Some 0 \<and> u_flags (k_units (scan_seq [1, 2, 1]) 0) AND NVME_UNIT_DEAD \<noteq> 0 \<and>
   0 \<notin> set (k_base_units (scan_seq [1, 2, 1]))"
proof -
  have z: "dup_state 0 [] 0 demo_scan" "scan_ok demo_scan" by (simp_all add: dup_state_def demo_scan_def zero_ctrl_def scan_ok_def)
  have seq: "scan_seq [1] = nvme_scan_ns m68k_platform dup_dev 1 demo_scan"
    "scan_seq [1, 2] = nvme_scan_ns m68k_platform dup_dev 2 (scan_seq [1])"
    "scan_seq [1, 2, 1] = nvme_scan_ns m68k_platform dup_dev 1 (scan_seq [1, 2])" by (simp_all add: scan_seq_def)
  have id: "ids_eui64 (ns_ids (dup_ns False i u)) = [1, 0, 0, 0, 0, 0, 0, 0]" "ns_id (dup_ns b i u) = i" "ns_unit (dup_ns b i u) = Some u" for b i u
    by (simp_all add: dup_ns_def dup_info_def)
  obtain t where t: "dup_state 0 [] 0 t" "scan_seq [1] = nvme_alloc_ns m68k_platform (dup_info False 1) t"
    using dup_scan [OF z(1), of 1] by (auto simp: seq)
  then have s1: "dup_state 0 [dup_ns False 1 0] 1 (scan_seq [1])" using dup_alloc [OF t(1), of 1] by simp
  then obtain t2 where t2: "dup_state 0 [dup_ns False 1 0] 1 t2" "scan_seq [1, 2] = nvme_alloc_ns m68k_platform (dup_info False 2) t2"
    using dup_scan [OF s1, of 2] by (auto simp: seq(2) id)
  then have s2: "dup_state (push_bit NVME_QUIRK_BOGUS_NID 1) [dup_ns False 1 0, dup_ns True 2 1] 2 (scan_seq [1, 2])"
    using dup_alloc [OF t2(1), of 2] by (simp add: id)
  have ok1: "scan_ok (scan_seq [1])"
    using scan_ns_step [OF z(2) m68k_dma_pool_ok, of 1 dup_dev] z(1) by (simp add: seq scan_step_def dup_state_def)
  have ok2: "scan_ok (scan_seq [1, 2])"
    using scan_ns_step [OF ok1 m68k_dma_pool_ok, of 2 dup_dev] s1 by (simp add: seq(2) scan_step_def dup_state_def)
  obtain t3 where t3: "ident_frame (scan_seq [1, 2]) t3" "dup_state (push_bit NVME_QUIRK_BOGUS_NID 1) [dup_ns False 1 0, dup_ns True 2 1] 2 t3"
    "scan_seq [1, 2, 1] = nvme_validate_ns (dup_ns False 1 0) (dup_info True 1) t3"
    using dup_scan [OF s2, of 1] by (auto simp: seq(3) id bit_simps)
  have ok3: "scan_ok t3" by (rule scan_ok_same [OF ok2]) (simp_all add: ident_frame_sel [OF t3(1)])
  have "\<not> nvme_ns_ids_equal (ns_ids (dup_ns False 1 0)) (i_ids (dup_info True 1))"
    by (simp add: nvme_ns_ids_equal_def id) (simp add: dup_info_def zero_ids_def eval_nat_numeral)
  then have r: "scan_seq [1, 2, 1] = nvme_ns_remove (dup_ns False 1 0) t3" by (simp add: t3(3) nvme_validate_ns_def)
  have L: "k_namespaces t3 = [dup_ns False 1 0, dup_ns True 2 1]" using t3(2) by (simp add: dup_state_def)
  have "k_namespaces (scan_seq [1, 2, 1]) = [dup_ns True 2 1]"
    unfolding r using L by (simp add: nvme_ns_remove_def Let_def pool_free_def kill_unit_def id) (simp add: dup_ns_def bit_simps)
  then show ?thesis
    using s2 removed_unit [OF ok3, of "dup_ns False 1 0" 0] L by (simp add: dup_state_def id r)
qed

section \<open>Geometry of a new unit\<close>

lemma and_not_mask: "x AND NOT (push_bit k 1 - 1) = push_bit k (drop_bit k (x :: 'a::len word))"
  by (rule bit_word_eqI) (auto simp: bit_simps mask_eq_exp_minus_1 [symmetric] push_bit_of_1 simp flip: mask_eq_exp_minus_1)

lemma unat_align_down: "unat (push_bit k (drop_bit k (x :: 'a::len word))) = unat x div 2 ^ k * 2 ^ k"
proof -
  have "unat x div 2 ^ k * 2 ^ k < 2 ^ LENGTH('a)"
    using unsigned_less [of x, where ?'a = nat] by (meson div_times_less_eq_dividend le_less_trans)
  then show ?thesis unfolding unsigned_push_bit_eq unat_drop_bit by (simp add: take_bit_eq_mod push_bit_eq_mult)
qed

text \<open>
  The Write Zeroes cap of a unit is a whole number of its blocks, fits the 16-bit block
  count of the command, and does not exceed what the controller accepts.
\<close>

theorem wz_limit_bounds:
  assumes "blockShift \<le> 12"
  shows "2 ^ unat blockShift dvd unat (wz_limit m blockShift) \<and> unat (wz_limit m blockShift) \<le> unat m * 512 \<and>
    unat (wz_limit m blockShift) div 2 ^ unat blockShift \<le> 0x10000"
proof -
  let ?k = "unat blockShift"
  define by_dev :: u64 where "by_dev = push_bit 9 (ucast m)"
  define by_nlb :: u64 where "by_nlb = push_bit ?k 0x10000"
  define lim where "lim = (if by_dev < by_nlb then by_dev else by_nlb)"
  have k: "?k \<le> 12" using assms by (simp add: word_le_nat_alt)
  then have p: "(2 :: nat) ^ ?k \<le> 2 ^ 12" by (rule power_increasing) simp
  have d: "unat by_dev = unat m * 512"
    using unsigned_less [of m, where ?'a = nat] unfolding by_dev_def unsigned_push_bit_eq by (simp add: take_bit_eq_mod push_bit_eq_mult)
  have n: "unat by_nlb = 0x10000 * 2 ^ ?k" using p unfolding by_nlb_def unsigned_push_bit_eq by (simp add: take_bit_eq_mod push_bit_eq_mult)
  have l: "unat lim = min (unat m * 512) (0x10000 * 2 ^ ?k)" by (auto simp: lim_def word_less_nat_alt d n)
  then have small: "unat lim \<le> 0x10000 * 2 ^ 12" using p by simp
  then have "\<not> 0xFFFFFFFF < lim" by (simp add: word_less_nat_alt)
  then have w: "wz_limit m blockShift = push_bit ?k (drop_bit ?k (ucast lim))"
    by (simp add: wz_limit_def Let_def by_dev_def [symmetric] by_nlb_def [symmetric] lim_def [symmetric] and_not_mask [simplified])
  have "unat (ucast lim :: u32) = unat lim" using small by (simp add: unat_ucast_mod)
  then have u: "unat (wz_limit m blockShift) = unat lim div 2 ^ ?k * 2 ^ ?k" by (simp add: w unat_align_down)
  have "unat lim div 2 ^ ?k \<le> 0x10000" using l by (metis div_le_mono min.cobounded2 nonzero_mult_div_cancel_right power_not_zero zero_neq_numeral)
  moreover have "unat lim div 2 ^ ?k * 2 ^ ?k \<le> unat m * 512" using l by (metis div_times_less_eq_dividend le_trans min.cobounded1)
  ultimately show ?thesis by (simp add: u)
qed

theorem wz_limit_bounds_witness: "2 ^ 12 dvd unat (wz_limit 100 12) \<and> unat (wz_limit 100 12) \<le> 51200"
  using wz_limit_bounds [of 12 100] by simp

text \<open>
  The unit of a newly found plain namespace counts its capacity in 512-byte sectors
  while its block size is the native one: the product of the two, which is how the rest of
  the driver reads the geometry, exceeds the namespace by the factor of the block size over
  512.
\<close>

theorem new_unit_geometry:
  assumes plain: "ids_csi (i_ids info) = NVME_CSI_NVM" "i_ms info = 0" "i_pi_type info = 0" "9 \<le> i_lba_shift info" "i_lba_shift info \<le> 12"
    and pool: "p_pool_alloc P SIZEOF_nvme_ns (k_meta s)" "p_pool_alloc P SIZEOF_NVMeUnit (SIZEOF_nvme_ns # k_meta s)"
    and fits: "unat (i_nsze info) * 8 < 2 ^ 64"
  defines "U \<equiv> k_units (nvme_alloc_ns P info s) (unat (k_nextUnitNumber s))"
  shows "unat (u_blockSize U) = 2 ^ unat (i_lba_shift info) \<and> u_blockShift U = ucast (i_lba_shift info) \<and>
    unat (u_logicalSectors U) = unat (i_nsze info) * 2 ^ (unat (i_lba_shift info) - 9) \<and>
    unat (u_logicalSectors U) * unat (u_blockSize U) = (unat (i_nsze info) * 2 ^ unat (i_lba_shift info)) * 2 ^ (unat (i_lba_shift info) - 9)"
proof -
  let ?k = "unat (i_lba_shift info)"
  have k: "9 \<le> ?k" "?k \<le> 12" using plain(4,5) by (simp_all add: word_le_nat_alt)
  have p: "(2 :: nat) ^ (?k - 9) \<le> 2 ^ 3" "(2 :: nat) ^ ?k \<le> 2 ^ 12" using k by (intro power_increasing; simp)+
  have "unat (i_nsze info) * 2 ^ (?k - 9) < 2 ^ 64" 
    by (rule le_less_trans [OF mult_le_mono2 [OF p(1)]]) (use fits in simp)
  then have L: "unat (push_bit (?k - 9) (i_nsze info)) = unat (i_nsze info) * 2 ^ (?k - 9)"
    unfolding unsigned_push_bit_eq by (simp add: take_bit_eq_mod push_bit_eq_mult)
  have B: "unat (push_bit ?k 1 :: u32) = 2 ^ ?k"
    using p(2) unfolding unsigned_push_bit_eq by (simp add: take_bit_eq_mod push_bit_eq_mult)
  have U: "u_blockSize U = push_bit ?k 1" "u_blockShift U = ucast (i_lba_shift info)" "u_logicalSectors U = push_bit (?k - 9) (i_nsze info)"
    using plain pool unfolding U_def
    by (auto simp: nvme_alloc_ns_def Let_def pool_zalloc_def nvme_update_ns_info_def zero_ns_def nvme_alloc_nvmeunit_def nvme_lba_to_sect_def)
  show ?thesis by (simp add: U L B [simplified])
qed

definition info_4kn :: nvme_ns_info where
  "info_4kn = zero_info\<lparr>i_nsid := 1, i_lba_shift := 12, i_nsze := 1000\<rparr>"

theorem new_unit_geometry_witness:
  "unat (u_logicalSectors (k_units (nvme_alloc_ns m68k_platform info_4kn zero_ctrl) 0)) *
   unat (u_blockSize (k_units (nvme_alloc_ns m68k_platform info_4kn zero_ctrl) 0)) = 8 * (1000 * 4096)"
  using new_unit_geometry [of info_4kn m68k_platform zero_ctrl]
  by (simp add: info_4kn_def zero_info_def zero_ids_def m68k_platform_def zero_ctrl_def)

section \<open>The sequential scan\<close>

lemma scan_fold_step:
  assumes "scan_ok t" "dma_pool_ok P" "unat (k_nextUnitNumber t) + length L < 2 ^ 32" "\<forall>i \<in> set L. 0 < i \<and> i < 2 ^ 32"
  shows "scan_step (length L) (nsids t \<union> of_nat ` set L) t (fold (\<lambda>i. nvme_scan_ns P sync (of_nat i)) L t)"
  using assms(1,3,4)
proof (induction L arbitrary: t)
  case Nil
  then show ?case by (simp add: scan_step_refl)
next
  case (Cons i L)
  let ?t = "nvme_scan_ns P sync (of_nat i) t"
  have "unat (of_nat i :: u32) = i" using Cons.prems(3) by (simp add: unat_of_nat)
  then have "(of_nat i :: u32) \<noteq> 0" using Cons.prems(3) by (metis list.set_intros(1) unat_0 nless_le)
  then have st: "scan_step 1 (insert (of_nat i) (nsids t)) t ?t" by (intro scan_ns_step) (use Cons.prems assms(2) in auto)
  moreover have "scan_step (length L) (nsids ?t \<union> of_nat ` set L) ?t (fold (\<lambda>i. nvme_scan_ns P sync (of_nat i)) L ?t)"
    by (rule Cons.IH) (use st Cons.prems in \<open>auto simp: scan_step_def\<close>)
  ultimately show ?case by (auto simp: scan_step_def)
qed

text \<open>The loop runs through the identifiers in order; its counter cannot pass the largest 32-bit number.\<close>

lemma seq_scan_endless: "seq_scan P sync 0xFFFFFFFF i s = None"
proof (cases "seq_scan P sync 0xFFFFFFFF i s")
  case (Some s')
  have "nn = 0xFFFFFFFF \<longrightarrow> False" if "seq_scan P sync nn i s = Some s'" for nn
  proof (rule seq_scan.raw_induct [where P = "\<lambda>_ _ nn _ _ _. nn = 0xFFFFFFFF \<longrightarrow> False", OF _ that])
    fix f :: "platform \<Rightarrow> sync_dev \<Rightarrow> u32 \<Rightarrow> u32 \<Rightarrow> NVMeController \<Rightarrow> NVMeController option" and P sync and m j :: u32 and t t'
    assume IH: "\<And>P sync m j t t'. f P sync m j t = Some t' \<Longrightarrow> m = 0xFFFFFFFF \<longrightarrow> False"
      and step: "(if j \<le> m then f P sync m (j + 1) (nvme_scan_ns P sync j t) else Some t) = Some t'"
    have "j \<le> 0xFFFFFFFF" using unsigned_less [of j, where ?'a = nat] by (simp add: word_le_nat_alt)
    then show "m = 0xFFFFFFFF \<longrightarrow> False" using IH step by (metis (full_types))
  qed
  then show ?thesis using Some by blast
qed simp

lemma seq_scan_fold:
  assumes "nn \<noteq> 0xFFFFFFFF" "unat i \<le> unat nn + 1"
  shows "seq_scan P sync nn i s = Some (fold (\<lambda>i. nvme_scan_ns P sync (of_nat i)) [unat i..<unat nn + 1] s)"
  using assms(2)
proof (induction "unat nn + 1 - unat i" arbitrary: i s)
  case 0
  then show ?case by (subst seq_scan.simps) (simp add: word_le_nat_alt)
next
  case (Suc n)
  have "unat nn \<noteq> unat (0xFFFFFFFF :: u32)" using assms(1) by (simp only: word_unat_eq_iff not_False_eq_True)
  then have nn: "unat nn + 1 < 2 ^ 32" using unsigned_less [of nn, where ?'a = nat] by simp
  have le: "unat i \<le> unat nn" using Suc.hyps(2) by simp
  then have u: "unat (i + 1) = unat i + 1" using nn by (subst unat_add_no_wrap) simp_all
  have "seq_scan P sync nn (i + 1) (nvme_scan_ns P sync i s) =
      Some (fold (\<lambda>i. nvme_scan_ns P sync (of_nat i)) [unat (i + 1)..<unat nn + 1] (nvme_scan_ns P sync i s))"
    by (rule Suc.hyps(1)) (use Suc.hyps(2) u le in simp_all)
  moreover have "[unat i..<unat nn + 1] = unat i # [unat i + 1..<unat nn + 1]" using le by (simp add: upt_rec)
  ultimately show ?case using le u by (subst seq_scan.simps) (simp add: word_le_nat_alt del: upt_Suc)
qed

lemma scan_sequential_eq:
  "nvme_scan_ns_sequential P sync s =
    (case nvme_identify_ctrl P sync s of
       (Inl _, s1) \<Rightarrow> Some s1
     | (Inr (id', d), s1) \<Rightarrow>
        let nn = get_le32 d 516
        in if nn = 0xFFFFFFFF then None
           else Some (nvme_remove_invalid_namespaces nn (fold (\<lambda>i. nvme_scan_ns P sync (of_nat i)) [1..<unat nn + 1] (dma_free id' s1))))"
  by (auto simp: nvme_scan_ns_sequential_def seq_scan_endless seq_scan_fold Let_def split: sum.split prod.split simp del: upt_Suc)

text \<open>
  C16.  A sequential scan, whatever the controller answers to each command: when Identify Controller
  fails nothing of the table changes.  When it succeeds with NN = 0xFFFFFFFF the 32-bit counter never
  passes NN and the scan does not end.  Otherwise it ends, having scanned each identifier 1..NN once
  and in order and then removed what is above NN: the table is well formed (identifiers listed once,
  every listed unit exposed under its own identifier, unit numbers distinct and below the counter), no
  namespace above NN is left and the DMA pool is as before.  The unit numbers are assumed not to run
  out during the scan.
\<close>

theorem sequential_scan_typed:
  assumes ok: "scan_ok s" "dma_pool_ok P"
    and room: "unat (k_nextUnitNumber s) + unat (get_le32 (snd (sync (identify_cmd 0 NVME_ID_CNS_CTRL 0))) 516) < 2 ^ 32"
  shows "case nvme_identify_ctrl P sync s of
      (Inl _, s1) \<Rightarrow> nvme_scan_ns_sequential P sync s = Some s1 \<and> ident_frame s s1 \<and> scan_ok s1
    | (Inr (id', d), s1) \<Rightarrow>
        if get_le32 d 516 = 0xFFFFFFFF then nvme_scan_ns_sequential P sync s = None
        else \<exists>s'. nvme_scan_ns_sequential P sync s = Some s' \<and>
          s' = nvme_remove_invalid_namespaces (get_le32 d 516)
                 (fold (\<lambda>i. nvme_scan_ns P sync (of_nat i)) [1..<unat (get_le32 d 516) + 1] (dma_free id' s1)) \<and>
          scan_ok s' \<and> k_dma s' = k_dma s \<and> (\<forall>i \<in> nsids s'. i \<le> get_le32 d 516)"
proof -
  obtain v s1 where v: "nvme_identify_ctrl P sync s = (v, s1)" by fastforce
  note c = submit_identify_cases [OF ok(2) v [unfolded nvme_identify_ctrl_def]]
  show ?thesis
  proof (cases v)
    case (Inl ret)
    then have f: "ident_frame s s1" using c by simp
    have "scan_ok s1" by (rule scan_ok_same [OF ok(1)]) (simp_all add: ident_frame_sel [OF f])
    then show ?thesis using Inl v f by (simp add: scan_sequential_eq)
  next
    case (Inr z)
    obtain buf d where z: "z = (buf, d)" by (cases z)
    have d: "snd (sync (identify_cmd 0 NVME_ID_CNS_CTRL 0)) = d" and f: "ident_frame s (dma_free buf s1)" using c Inr z by auto
    let ?nn = "get_le32 d 516"
    let ?L = "[1..<unat ?nn + 1]"
    let ?t = "fold (\<lambda>i. nvme_scan_ns P sync (of_nat i)) ?L (dma_free buf s1)"
    note sel = ident_frame_sel [OF f]
    have ok2: "scan_ok (dma_free buf s1)" by (rule scan_ok_same [OF ok(1)]) (simp_all add: sel)
    have st: "scan_step (length ?L) (nsids (dma_free buf s1) \<union> of_nat ` set ?L) (dma_free buf s1) ?t"
    proof (rule scan_fold_step [OF ok2 ok(2)])
      show "\<forall>i \<in> set ?L. 0 < i \<and> i < 2 ^ 32" using unsigned_less [of ?nn, where ?'a = nat] by auto
    qed (use room d sel in simp)
    then have rm: "scan_step 0 {i \<in> nsids ?t. i \<le> ?nn} ?t (nvme_remove_invalid_namespaces ?nn ?t)"
      by (intro remove_invalid_step) (simp add: scan_step_def)
    have "scan_ok (nvme_remove_invalid_namespaces ?nn ?t)" "k_dma (nvme_remove_invalid_namespaces ?nn ?t) = k_dma s"
      "\<forall>i \<in> nsids (nvme_remove_invalid_namespaces ?nn ?t). i \<le> ?nn"
      using rm st sel by (auto simp: scan_step_def simp del: upt_Suc)
    then show ?thesis using v Inr z by (simp add: scan_sequential_eq Let_def del: upt_Suc)
  qed
qed

text \<open>A controller with two namespaces that answers only Identify Controller: both are scanned.\<close>

definition two_ns_dev :: sync_dev where
  "two_ns_dev cmd = (if cmd_body cmd = Body_identify NVME_ID_CNS_CTRL 0 0
     then (Ret_ok, \<lambda>o'. if o' = 516 then 2 else 0) else (Ret_status 2, \<lambda>_. 0))"

theorem sequential_scan_typed_witness:
  "\<exists>s'. nvme_scan_ns_sequential m68k_platform two_ns_dev zero_ctrl = Some s' \<and> scan_ok s' \<and> (\<forall>i \<in> nsids s'. i \<le> 2)"
proof -
  have ok: "scan_ok zero_ctrl" "unat (k_nextUnitNumber zero_ctrl) = 0" by (simp_all add: scan_ok_def zero_ctrl_def)
  let ?d = "\<lambda>o'. if o' = 516 then 2 else (0 :: u8)"
  have nn: "get_le32 ?d 516 = 2" by (simp add: get_le32_def get_le16_def)
  have dev: "two_ns_dev (identify_cmd 0 NVME_ID_CNS_CTRL 0) = (Ret_ok, ?d)"
    by (simp add: two_ns_dev_def identify_cmd_def zero_cmd_def)
  obtain b s1 where id': "nvme_identify_ctrl m68k_platform two_ns_dev zero_ctrl = (Inr (b, ?d), s1)"
    using dev by (auto simp: nvme_identify_ctrl_def nvme_submit_identify_def dma_zalloc_def dma_alloc_def zero_ctrl_def m68k_platform_def demo_pages_def Let_def)
  show ?thesis
    using sequential_scan_typed [OF ok(1) m68k_dma_pool_ok, of two_ns_dev] ok(2) id' dev nn by auto
qed

text \<open>
  A scan ends against every controller that either refuses the active namespace list or serves it in
  increasing order, whatever the state of the driver, unless NN is the largest 32-bit number.
\<close>

definition list_ends :: "platform \<Rightarrow> sync_dev \<Rightarrow> u32 list \<Rightarrow> bool" where
  "list_ends P sync active \<longleftrightarrow> serves_list P sync active \<or>
     (\<forall>prev. fst (sync (identify_cmd (p_le32 P prev) NVME_ID_CNS_NS_ACTIVE_LIST 0)) \<noteq> Ret_ok)"

lemma remove_gap_reaches:
  assumes "prev < nsid"
  shows "fst (remove_gap nsid prev s) = nsid"
  using assms
proof (induction nsid prev s rule: remove_gap.induct)
  case (1 nsid prev s)
  have "prev + 1 \<le> nsid" using 1(2) by (rule inc_le)
  then show ?case using 1(1) remove_gap.simps [of nsid prev s] by (cases "prev + 1 = nsid") auto
qed

lemma scan_page_ends:
  assumes "sorted_wrt (<) (prev # xs)"
  shows "\<exists>s'. scan_page P sync (xs @ replicate n 0) prev s = (n \<noteq> 0, last (prev # xs), s')"
  using assms
proof (induction xs arbitrary: prev s)
  case Nil
  then show ?case by (cases n) simp_all
next
  case (Cons x xs)
  obtain s1 where g: "remove_gap x prev (nvme_scan_ns P sync x s) = (x, s1)"
    using remove_gap_reaches [of prev x "nvme_scan_ns P sync x s"] Cons.prems by (metis list.set_intros(1) prod.collapse sorted_wrt.simps(2))
  obtain s' where "scan_page P sync (xs @ replicate n 0) x s1 = (n \<noteq> 0, last (x # xs), s')"
    using Cons.IH [of x s1] Cons.prems by auto
  moreover have "x \<noteq> 0" using Cons.prems by auto
  ultimately show ?case using g by simp
qed

lemma scan_list_loop_ends:
  assumes "serves_list P sync active"
  shows "length (above active prev) < fuel \<Longrightarrow> \<exists>ret s'. scan_list_loop fuel P sync prev s = Some (ret, s')"
proof (induction fuel arbitrary: prev s)
  case (Suc fuel)
  let ?l = "above active prev" and ?cmd = "identify_cmd (p_le32 P prev) NVME_ID_CNS_NS_ACTIVE_LIST 0"
  obtain d where d: "sync ?cmd = (Ret_ok, d)"
    "map (\<lambda>i. get_le32 d (4 * i)) [0..<1024] = take 1024 ?l @ replicate (1024 - length ?l) 0"
    using assms by (auto simp: serves_list_def)
  have srt: "sorted_wrt (<) active" using assms by (simp add: serves_list_def)
  then have sl: "sorted_wrt (<) (prev # ?l)" using sorted_wrt_filter [OF srt] by (auto simp: above_def)
  have "sorted_wrt (<) (take 1025 (prev # ?l))" by (rule sorted_wrt_take [OF sl])
  then have sx: "sorted_wrt (<) (prev # take 1024 ?l)" by simp
  obtain s2 where pg: "scan_page P sync (take 1024 ?l @ replicate (1024 - length ?l) 0) prev (emit (Ev_sync ?cmd) s) =
      (1024 - length ?l \<noteq> 0, last (prev # take 1024 ?l), s2)" using scan_page_ends [OF sx] by blast
  show ?case
  proof (cases "length ?l < 1024")
    case True
    then show ?thesis using d pg by (simp add: Let_def)
  next
    case False
    let ?x = "last (prev # take 1024 ?l)"
    have ne: "take 1024 ?l \<noteq> []" using False by auto
    then have "?x = last (take 1024 ?l)" by (rule last_ConsR)
    then have x: "?x \<in> set ?l" using in_set_takeD [OF last_in_set [OF ne]] by simp
    have sub: "above active y = filter (\<lambda>n. y < n) ?l" if "prev < y" for y using that by (auto simp: above_def intro!: filter_cong)
    have "prev < ?x" using x by (simp add: above_def)
    then have "set (above active ?x) = {n \<in> set ?l. ?x < n}" by (simp only: sub set_filter)
    then have "set (above active ?x) \<subset> set ?l" using x by blast
    moreover have "distinct ?l" "distinct (above active ?x)" using srt by (simp_all add: above_def strict_sorted_iff strict_sorted_imp_sorted)
    ultimately have "length (above active ?x) < length ?l" by (metis List.finite_set distinct_card psubset_card_mono)
    then have "\<exists>ret s'. scan_list_loop fuel P sync ?x s2 = Some (ret, s')" by (intro Suc.IH) (use Suc.prems in simp)
    then show ?thesis using d pg False by (simp add: Let_def del: last.simps)
  qed
qed simp

lemma scan_ends:
  assumes "list_ends P sync active" "length active < fuel"
    and nn: "get_le32 (snd (sync (identify_cmd 0 NVME_ID_CNS_CTRL 0))) 516 \<noteq> 0xFFFFFFFF"
  shows "\<exists>s'. nvme_scan_namespaces fuel P sync s = Some s'"
proof -
  have seq: "\<exists>s'. nvme_scan_ns_sequential P sync x = Some s'" for x
    using nn by (auto simp: scan_sequential_eq nvme_identify_ctrl_def nvme_submit_identify_def Let_def split: option.split prod.splits)
  have loop: "\<exists>ret s'. scan_list_loop fuel P sync 0 x = Some (ret, s')" for x
  proof (cases "serves_list P sync active")
    case True
    have "length (above active 0) < fuel" using assms(2) by (simp add: above_def le_less_trans [OF length_filter_le])
    then show ?thesis by (rule scan_list_loop_ends [OF True])
  next
    case False
    then have "fst (sync (identify_cmd (p_le32 P 0) NVME_ID_CNS_NS_ACTIVE_LIST 0)) \<noteq> Ret_ok" using assms(1) by (simp add: list_ends_def)
    then show ?thesis using assms(2) by (cases fuel) (auto simp: Let_def split: prod.splits)
  qed
  then have list: "\<exists>ret s'. nvme_scan_ns_list fuel P sync x = Some (ret, s')" for x
    by (auto simp: nvme_scan_ns_list_def split: option.split)
  have step: "\<exists>s'. Option.bind (nvme_scan_ns_list fuel P sync x) (\<lambda>(ret, s4). case ret of
      Ret_status st \<Rightarrow> if st AND NVME_STATUS_DNR \<noteq> 0 then nvme_scan_ns_sequential P sync s4 else Some s4 | _ \<Rightarrow> Some s4) = Some s'" for x
    using list [of x] seq by (auto split: sync_ret.split)
  show ?thesis using seq step by (auto simp: nvme_scan_namespaces_def Let_def split: prod.split sync_ret.split)
qed

text \<open>Tearing the namespaces down unlinks them all and marks their units.\<close>

lemma remove_all_step:
  assumes "scan_ok s"
  shows "scan_step 0 {} s (fold nvme_ns_remove (k_namespaces s) s)"
proof -
  have "scan_ok t \<Longrightarrow> k_namespaces t = L \<Longrightarrow> scan_step 0 {} t (fold nvme_ns_remove L t)" for L t
  proof (induction L arbitrary: t)
    case Nil
    then show ?case by (auto simp: scan_step_def nsids_def)
  next
    case (Cons ns L)
    let ?t = "nvme_ns_remove ns t"
    have st: "scan_step 0 (nsids t - {ns_id ns}) t ?t" by (rule ns_remove_step) (use Cons.prems in auto)
    have "\<not> bit (ns_flags ns) NVME_NS_REMOVING" using Cons.prems by (auto simp: scan_ok_def)
    then have "k_namespaces ?t = L"
      using Cons.prems(2) by (simp add: nvme_ns_remove_def Let_def kill_unit_def pool_free_def split: option.split)
    then have "scan_step 0 {} ?t (fold nvme_ns_remove L ?t)" using Cons.IH st by (simp add: scan_step_def)
    then show ?case using scan_step_trans [OF st] by auto
  qed
  then show ?thesis using assms by blast
qed

end
