(* ===== verification/Nvme_Passthru.thy ===== *)
theory Nvme_Passthru
  imports Nvme_Scan Nvme_Device
begin

text \<open>
  Administrative passthrough, src/nvme/nvme_passthru.c, and the admin worker that serves it,
  src/admin_task.c.  The worker blocks twice, for the I/O queue to drain and for its command:
  what the other tasks do meanwhile are the parameters \<open>env_wait\<close> and \<open>env_cmd\<close>, functions on the
  controller state.  The controller's part of the command is \<open>dev\<close>: the result of the submission,
  dword 0 of the completion as stored in memory, and the memory it leaves.
\<close>

section \<open>Effects and the freeze\<close>

abbreviation (input) NVME_CMD_EFFECTS_NIC :: u32 where "NVME_CMD_EFFECTS_NIC \<equiv> 8"
abbreviation (input) NVME_CMD_EFFECTS_CCC :: u32 where "NVME_CMD_EFFECTS_CCC \<equiv> 0x10"
abbreviation (input) NVME_CMD_EFFECTS_CSER_MASK :: u32 where "NVME_CMD_EFFECTS_CSER_MASK \<equiv> 0xc000"

definition nvme_command_effects :: "platform \<Rightarrow> nvme_effects_log option \<Rightarrow> u8 \<Rightarrow> NVMeController \<Rightarrow> u32" where
  "nvme_command_effects P ns opcode s =
    (case ns of
       Some log' \<Rightarrow> p_le32 P (fx_iocs log' opcode) AND NOT NVME_CMD_EFFECTS_CSE_MASK
     | None \<Rightarrow>
        (let effects = (case k_effects s of Some (_, l) \<Rightarrow> effects_of P l opcode | None \<Rightarrow> 0) in
         if effects AND NVME_CMD_EFFECTS_CSER_MASK \<noteq> 0 then effects AND NOT NVME_CMD_EFFECTS_CSE_MASK else effects))"

definition nvme_passthru_start ::
    "platform \<Rightarrow> (NVMeController \<Rightarrow> NVMeController) \<Rightarrow> nvme_effects_log option \<Rightarrow> u8 \<Rightarrow> NVMeController \<Rightarrow> u32 \<times> NVMeController" where
  "nvme_passthru_start P env_wait ns opcode s =
    (let effects = nvme_command_effects P ns opcode s
     in (effects, if effects AND NVME_CMD_EFFECTS_CSE_MASK \<noteq> 0 then env_wait (nvme_start_freeze s) else s))"

definition nvme_passthru_end :: "u32 \<Rightarrow> NVMeController \<Rightarrow> NVMeController" where
  "nvme_passthru_end effects s =
    (let s1 = (if effects AND NVME_CMD_EFFECTS_CSE_MASK \<noteq> 0 then nvme_unfreeze s else s);
         s2 = (if effects AND NVME_CMD_EFFECTS_CCC \<noteq> 0
               then s1\<lparr>k_flags := snd (test_and_set_flag NVME_CTRL_DIRTY_CAPABILITY (k_flags s1))\<rparr> else s1)
     in if effects AND (NVME_CMD_EFFECTS_NIC OR NVME_CMD_EFFECTS_NCC) \<noteq> 0 then nvme_queue_scan s2 else s2)"

section \<open>One passthrough command\<close>

type_synonym pass_dev = "nvme_command \<Rightarrow> u32 \<Rightarrow> u32 \<Rightarrow> (u32 \<Rightarrow> u8) \<Rightarrow> sync_ret \<times> u32 \<times> (u32 \<Rightarrow> u8)"

text \<open>The NVMe status a client sees: its low eight bits, as a BYTE.\<close>

definition pass_error :: "sync_ret \<Rightarrow> io_error" where
  "pass_error ret = (case ret of
     Ret_errno _ \<Rightarrow> IOERR_BADADDRESS
   | Ret_ok \<Rightarrow> IOERR_NO_ERROR
   | Ret_status st \<Rightarrow> if st AND 0xff = 0 then IOERR_NO_ERROR else IOERR_other (ucast st))"

definition pass_cmd :: "platform \<Rightarrow> NVMePassthruCmd \<Rightarrow> nvme_command" where
  "pass_cmd P uc = zero_cmd\<lparr>cmd_opcode := pt_Opcode uc, cmd_flags := pt_Flags uc, cmd_nsid := p_le32 P (pt_Nsid uc),
     cmd_body := Body_cdw (map (p_le32 P) [pt_Cdw2 uc, pt_Cdw3 uc, pt_Cdw10 uc, pt_Cdw11 uc, pt_Cdw12 uc, pt_Cdw13 uc, pt_Cdw14 uc, pt_Cdw15 uc])\<rparr>"

definition pass_bounced :: "platform \<Rightarrow> NVMePassthruCmd \<Rightarrow> bool" where
  "pass_bounced P uc \<longleftrightarrow> pt_Addr uc \<noteq> 0 \<and> pt_DataLen uc \<noteq> 0 \<and>
     (nvme_needs_bounce P (pt_Addr uc) (pt_DataLen uc) False \<or> pt_DataLen uc AND 63 \<noteq> 0)"

definition pass_stage :: "platform \<Rightarrow> NVMePassthruCmd \<Rightarrow> NVMeController \<Rightarrow> (u32 option \<times> NVMeController) option" where
  "pass_stage P uc s =
    (if pass_bounced P uc then
       case dma_alloc P DMA_ALIGN_MIN (pt_DataLen uc) s of
         None \<Rightarrow> None
       | Some (b, s1) \<Rightarrow> Some (Some b, s1\<lparr>k_mem := mem_copy b (pt_Addr uc) (pt_DataLen uc) (k_mem s1)\<rparr>)
     else Some (None, s))"

definition pass_finish :: "platform \<Rightarrow> nat \<Rightarrow> u32 \<Rightarrow> NVMePassthruCmd \<Rightarrow> u32 option \<Rightarrow> sync_ret \<Rightarrow> u32 \<Rightarrow> NVMeController \<Rightarrow> NVMeController" where
  "pass_finish P io a uc bounce ret result s =
    (let s1 = (case bounce of None \<Rightarrow> s
         | Some b \<Rightarrow> dma_free b (s\<lparr>k_mem := mem_copy (pt_Addr uc) b (pt_DataLen uc) (k_mem s)\<rparr>));
         s2 = s1\<lparr>k_pass := (k_pass s1)(a := (k_pass s1 a)\<lparr>pt_Result := p_le32 P result\<rparr>)\<rparr>
     in case ret of
          Ret_errno _ \<Rightarrow> reply_io io (pass_error ret) s2
        | _ \<Rightarrow> reply_io io (pass_error ret) (upd_io io (\<lambda>x. x\<lparr>io_Actual := pt_DataLen uc\<rparr>) s2))"

definition nvme_passthru_process ::
    "platform \<Rightarrow> pass_dev \<Rightarrow> (NVMeController \<Rightarrow> NVMeController) \<Rightarrow> (NVMeController \<Rightarrow> NVMeController) \<Rightarrow> nat \<Rightarrow> NVMeController \<Rightarrow> NVMeController" where
  "nvme_passthru_process P dev env_wait env_cmd io s =
    (let a = io_Data (k_ios s io); uc = k_pass s a in
     if k_state s \<noteq> NVME_CTRL_LIVE then reply_io io IOERR_UNITBUSY s
     else if io_Command (k_ios s io) = NSCMD_NVME_IO_PASS then reply_io io IOERR_NOCMD s
     else if pt_Metadata uc \<noteq> 0 \<or> pt_MetadataLen uc \<noteq> 0 then reply_io io IOERR_BADLENGTH s
     else if 1024 * 1024 < pt_DataLen uc then reply_io io IOERR_BADLENGTH s
     else case pass_stage P uc s of
       None \<Rightarrow> reply_io io IOERR_BADADDRESS s
     | Some (bounce, s1) \<Rightarrow>
        (let cmd = pass_cmd P uc; buf = (case bounce of Some b \<Rightarrow> b | None \<Rightarrow> pt_Addr uc) in
         case nvme_passthru_start P env_wait None (pt_Opcode uc) s1 of (effects, s2) \<Rightarrow>
           let s3 = env_cmd (emit (Ev_sync cmd) s2) in
           case dev cmd buf (pt_DataLen uc) (k_mem s3) of (ret, result, mem) \<Rightarrow>
             pass_finish P io a uc bounce ret result (nvme_passthru_end effects (s3\<lparr>k_mem := mem\<rparr>))))"

section \<open>The admin worker\<close>

fun adminport_loop :: "(nat \<Rightarrow> NVMeController \<Rightarrow> NVMeController) \<Rightarrow> nat \<Rightarrow> NVMeController \<Rightarrow> NVMeController" where
  "adminport_loop process 0 s = s"
| "adminport_loop process (Suc fuel) s =
    (case k_adminPort s of [] \<Rightarrow> s | io # rest \<Rightarrow> adminport_loop process fuel (process io (s\<lparr>k_adminPort := rest\<rparr>)))"

text \<open>
  The worker's answer to its port signal.  \<open>process\<close> is the passthrough handler; the port is drained
  with fuel, which bounds the messages served in one pass.
\<close>

definition admin_drain :: "nat \<Rightarrow> (nat \<Rightarrow> NVMeController \<Rightarrow> NVMeController) \<Rightarrow> NVMeController \<Rightarrow> NVMeController" where
  "admin_drain fuel process s =
    (if \<not> bit (k_flags s) NVME_CTRL_ADMIN_Q_STOPPED then adminport_loop process fuel s else s)"

text \<open>The exit of the worker: the port is deleted as it is.\<close>

definition AdminWorker_exit :: "NVMeController \<Rightarrow> NVMeController" where
  "AdminWorker_exit s = s\<lparr>k_adminPort := [], k_admin_task := False\<rparr>"

section \<open>Every passthrough request is answered once\<close>

text \<open>
  What the other tasks do while the worker waits: they answer requests of their own, leave the freeze
  gate alone, and clients may queue further messages behind those in the worker's port.
\<close>

definition quiet :: "nat set \<Rightarrow> (NVMeController \<Rightarrow> NVMeController) \<Rightarrow> bool" where
  "quiet A e \<longleftrightarrow> (\<forall>s. (\<forall>io \<in> A. count_list (replies (e s)) io = count_list (replies s) io) \<and>
     bit (k_flags (e s)) NVME_CTRL_FROZEN = bit (k_flags s) NVME_CTRL_FROZEN \<and>
     (\<exists>new. k_adminPort (e s) = k_adminPort s @ new \<and> set new \<inter> A = {}))"

lemma replies_eqI: "k_trace s' = k_trace s \<Longrightarrow> replies s' = replies s"
  by (simp add: replies_def)

lemma quietD:
  assumes "quiet A e"
  shows "io \<in> A \<Longrightarrow> count_list (replies (e s)) io = count_list (replies s) io"
    "bit (k_flags (e s)) NVME_CTRL_FROZEN = bit (k_flags s) NVME_CTRL_FROZEN"
    "\<exists>new. k_adminPort (e s) = k_adminPort s @ new \<and> set new \<inter> A = {}"
  using assms by (simp_all add: quiet_def)

lemma replies_flags: "replies (s\<lparr>k_flags := w\<rparr>) = replies s"
  by (simp add: replies_def)

lemma replies_sig: "replies (gate_open n task sig s) = replies s" "replies (nvme_queue_scan s) = replies s"
  by (simp_all add: gate_open_def nvme_queue_scan_def Let_def test_and_clear_flag_def replies_def emit_def map_filter_def)

lemma gate_open_frame: "k_dma (gate_open n task sig s) = k_dma s" "k_adminPort (gate_open n task sig s) = k_adminPort s"
    "bit (k_flags (gate_open n task sig s)) m \<longleftrightarrow> bit (k_flags s) m \<and> m \<noteq> n"
  using bit_imp_le_length [of "k_flags s" m] by (auto simp: gate_open_shape test_and_clear_flag_def bit_simps)

lemma gate_close_frame: "k_dma (gate_close n s) = k_dma s" "k_adminPort (gate_close n s) = k_adminPort s" "replies (gate_close n s) = replies s"
    "n < 32 \<Longrightarrow> bit (k_flags (gate_close n s)) m \<longleftrightarrow> bit (k_flags s) m \<or> m = n"
  by (auto simp: gate_close_def test_and_set_flag_def bit_simps replies_def)

lemma queue_scan_frame: "k_dma (nvme_queue_scan s) = k_dma s" "k_adminPort (nvme_queue_scan s) = k_adminPort s" "k_flags (nvme_queue_scan s) = k_flags s"
  by (simp_all add: nvme_queue_scan_def emit_def)

lemma pass_start_frame:
  assumes "quiet A e" "nvme_passthru_start P e None opc s = (effects, s')"
  shows "io \<in> A \<Longrightarrow> count_list (replies s') io = count_list (replies s) io"
    and "bit (k_flags s') NVME_CTRL_FROZEN \<longleftrightarrow> effects AND NVME_CMD_EFFECTS_CSE_MASK \<noteq> 0 \<or> bit (k_flags s) NVME_CTRL_FROZEN"
    and "\<exists>new. k_adminPort s' = k_adminPort s @ new \<and> set new \<inter> A = {}"
  using assms(2) quietD(1) [OF assms(1), of io "nvme_start_freeze s"] quietD(2,3) [OF assms(1), of "nvme_start_freeze s"]
  by (auto simp: nvme_passthru_start_def Let_def nvme_start_freeze_def gate_close_frame split: if_splits)

lemma pass_end_frame:
  "replies (nvme_passthru_end effects s) = replies s" "k_dma (nvme_passthru_end effects s) = k_dma s"
  "k_adminPort (nvme_passthru_end effects s) = k_adminPort s"
  "bit (k_flags (nvme_passthru_end effects s)) NVME_CTRL_FROZEN \<longleftrightarrow>
     effects AND NVME_CMD_EFFECTS_CSE_MASK = 0 \<and> bit (k_flags s) NVME_CTRL_FROZEN"
proof -
  define s1 where "s1 = (if effects AND NVME_CMD_EFFECTS_CSE_MASK \<noteq> 0 then nvme_unfreeze s else s)"
  define s2 where "s2 = (if effects AND NVME_CMD_EFFECTS_CCC \<noteq> 0
               then s1\<lparr>k_flags := snd (test_and_set_flag NVME_CTRL_DIRTY_CAPABILITY (k_flags s1))\<rparr> else s1)"
  have e: "nvme_passthru_end effects s = (if effects AND (NVME_CMD_EFFECTS_NIC OR NVME_CMD_EFFECTS_NCC) \<noteq> 0 then nvme_queue_scan s2 else s2)"
    unfolding nvme_passthru_end_def Let_def s1_def [symmetric] s2_def [symmetric] ..
  have f1: "k_adminPort s1 = k_adminPort s" "replies s1 = replies s" "k_dma s1 = k_dma s"
    "bit (k_flags s1) NVME_CTRL_FROZEN \<longleftrightarrow> effects AND NVME_CMD_EFFECTS_CSE_MASK = 0 \<and> bit (k_flags s) NVME_CTRL_FROZEN"
    by (simp_all add: s1_def nvme_unfreeze_def replies_sig gate_open_frame)
  have f2: "k_adminPort s2 = k_adminPort s1" "replies s2 = replies s1" "k_dma s2 = k_dma s1"
     "bit (k_flags s2) NVME_CTRL_FROZEN = bit (k_flags s1) NVME_CTRL_FROZEN"
    by (simp_all add: s2_def replies_flags test_and_set_flag_def bit_simps)
  show "replies (nvme_passthru_end effects s) = replies s" "k_dma (nvme_passthru_end effects s) = k_dma s"
  "k_adminPort (nvme_passthru_end effects s) = k_adminPort s"
    "bit (k_flags (nvme_passthru_end effects s)) NVME_CTRL_FROZEN \<longleftrightarrow>
     effects AND NVME_CMD_EFFECTS_CSE_MASK = 0 \<and> bit (k_flags s) NVME_CTRL_FROZEN"
    by (simp_all add: e f1 f2 replies_sig queue_scan_frame)
qed

lemma reply_io_frame:
  "k_adminPort (reply_io io e s) = k_adminPort s"
  "k_flags (reply_io io e s) = k_flags s" "k_dma (reply_io io e s) = k_dma s"
  "io_Error (k_ios (reply_io io e s) io) = e" "io_Actual (k_ios (reply_io io e s) io) = io_Actual (k_ios s io)"
  by (simp_all add: reply_io_def upd_io_def emit_def)

lemma pass_finish_frame:
  "replies (pass_finish P io a uc bounce ret result s) = replies s @ [io]" (is ?A)
  "k_adminPort (pass_finish P io a uc bounce ret result s) = k_adminPort s" (is ?P)
  "k_flags (pass_finish P io a uc bounce ret result s) = k_flags s" (is ?B)
  "k_dma (pass_finish P io a uc bounce ret result s) = (case bounce of None \<Rightarrow> k_dma s | Some b \<Rightarrow> (k_dma s)(b := None))" (is ?C)
  "io_Error (k_ios (pass_finish P io a uc bounce ret result s) io) = pass_error ret" (is ?D)
proof -
  have "\<exists>t. pass_finish P io a uc bounce ret result s = reply_io io (pass_error ret) t \<and> k_trace t = k_trace s \<and>
      k_adminPort t = k_adminPort s \<and>      k_flags t = k_flags s \<and> k_dma t = (case bounce of None \<Rightarrow> k_dma s | Some b \<Rightarrow> (k_dma s)(b := None))"
    unfolding pass_finish_def Let_def
    by (cases ret) (auto simp: upd_io_def dma_free_def split: option.split)
  then obtain t where t: "pass_finish P io a uc bounce ret result s = reply_io io (pass_error ret) t" "k_trace t = k_trace s"
      "k_adminPort t = k_adminPort s"       "k_flags t = k_flags s" "k_dma t = (case bounce of None \<Rightarrow> k_dma s | Some b \<Rightarrow> (k_dma s)(b := None))" by blast
  show ?A ?P ?B ?C ?D unfolding t(1) using replies_eqI [OF t(2)] t(3,4,5) by (simp_all add: reply_io_frame)
qed

lemma pass_stage_frame:
  assumes "pass_stage P uc s = Some (bounce, s1)"
  shows "replies s1 = replies s" "k_adminPort s1 = k_adminPort s" "k_flags s1 = k_flags s"
  using assms by (auto simp: pass_stage_def dma_alloc_def replies_def split: if_splits option.splits)

text \<open>The guards in front of the command.\<close>

definition pass_refused :: "NVMeController \<Rightarrow> nat \<Rightarrow> io_error option" where
  "pass_refused s io = (let uc = k_pass s (io_Data (k_ios s io)) in
     if k_state s \<noteq> NVME_CTRL_LIVE then Some IOERR_UNITBUSY
     else if io_Command (k_ios s io) = NSCMD_NVME_IO_PASS then Some IOERR_NOCMD
     else if pt_Metadata uc \<noteq> 0 \<or> pt_MetadataLen uc \<noteq> 0 \<or> 1024 * 1024 < pt_DataLen uc then Some IOERR_BADLENGTH else None)"

lemma pass_process_cases:
  fixes s :: NVMeController and P :: platform and dev :: pass_dev
  assumes q: "quiet A ew" "quiet A ec" and io: "io \<in> A"
  defines "uc \<equiv> k_pass s (io_Data (k_ios s io))" and "s' \<equiv> nvme_passthru_process P dev ew ec io s"
  obtains (refused) er where "pass_refused s io = Some er" "s' = reply_io io er s"
  | (nomem) "pass_refused s io = None" "pass_stage P uc s = None" "s' = reply_io io IOERR_BADADDRESS s"
  | (sent) bounce s1 effects s3 ret result where "pass_refused s io = None" "pass_stage P uc s = Some (bounce, s1)"
      "s' = pass_finish P io (io_Data (k_ios s io)) uc bounce ret result (nvme_passthru_end effects s3)"
      "count_list (replies s3) io = count_list (replies s) io"
      "bit (k_flags s3) NVME_CTRL_FROZEN \<longleftrightarrow> effects AND NVME_CMD_EFFECTS_CSE_MASK \<noteq> 0 \<or> bit (k_flags s) NVME_CTRL_FROZEN"
      "\<exists>new. k_adminPort s3 = k_adminPort s @ new \<and> set new \<inter> A = {}"
      "\<forall>io' \<in> A. count_list (replies s3) io' = count_list (replies s) io'"
      "ret = fst (dev (pass_cmd P uc) (case bounce of Some b \<Rightarrow> b | None \<Rightarrow> pt_Addr uc) (pt_DataLen uc)
          (k_mem (ec (emit (Ev_sync (pass_cmd P uc)) (snd (nvme_passthru_start P ew None (pt_Opcode uc) s1))))))"
proof (cases "pass_refused s io")
  case (Some er)
  then have "s' = reply_io io er s"
    by (auto simp: pass_refused_def s'_def nvme_passthru_process_def Let_def split: if_splits)
  with Some show ?thesis by (rule refused)
next
  case ok: None
  then have s': "s' = (case pass_stage P uc s of
       None \<Rightarrow> reply_io io IOERR_BADADDRESS s
     | Some (bounce, s1) \<Rightarrow>
        (let cmd = pass_cmd P uc; buf = (case bounce of Some b \<Rightarrow> b | None \<Rightarrow> pt_Addr uc) in
         case nvme_passthru_start P ew None (pt_Opcode uc) s1 of (effects, s2) \<Rightarrow>
           let s3 = ec (emit (Ev_sync cmd) s2) in
           case dev cmd buf (pt_DataLen uc) (k_mem s3) of (ret, result, mem) \<Rightarrow>
             pass_finish P io (io_Data (k_ios s io)) uc bounce ret result (nvme_passthru_end effects (s3\<lparr>k_mem := mem\<rparr>))))"
    unfolding s'_def nvme_passthru_process_def Let_def uc_def [symmetric]
    by (simp add: pass_refused_def Let_def uc_def split: if_splits)
  show ?thesis
  proof (cases "pass_stage P uc s")
    case None
    with ok s' show ?thesis by (simp add: nomem)
  next
    case st: (Some z)
    obtain bounce s1 where z: "z = (bounce, s1)" by (cases z)
    let ?cmd = "pass_cmd P uc" and ?buf = "case bounce of Some b \<Rightarrow> b | None \<Rightarrow> pt_Addr uc"
    obtain effects s2 where b: "nvme_passthru_start P ew None (pt_Opcode uc) s1 = (effects, s2)" by fastforce
    define s3 where "s3 = ec (emit (Ev_sync ?cmd) s2)"
    obtain ret result mem where d: "dev ?cmd ?buf (pt_DataLen uc) (k_mem s3) = (ret, result, mem)" by (cases "dev ?cmd ?buf (pt_DataLen uc) (k_mem s3)")
    have f: "replies s1 = replies s" "k_adminPort s1 = k_adminPort s" "k_flags s1 = k_flags s"
      by (rule pass_stage_frame, rule st [unfolded z])+
    have em: "replies (emit (Ev_sync ?cmd) s2) = replies s2" "k_flags (emit (Ev_sync ?cmd) s2) = k_flags s2"
      "k_adminPort (emit (Ev_sync ?cmd) s2) = k_adminPort s2" by (simp_all) (simp_all add: emit_def)
    have r: "count_list (replies s3) io' = count_list (replies s) io'" if "io' \<in> A" for io'
      using quietD(1) [OF q(2) that] pass_start_frame(1) [OF q(1) b that] by (simp add: s3_def em f)
    have fl: "bit (k_flags s3) NVME_CTRL_FROZEN \<longleftrightarrow> effects AND NVME_CMD_EFFECTS_CSE_MASK \<noteq> 0 \<or> bit (k_flags s) NVME_CTRL_FROZEN"
      using quietD(2) [OF q(2)] pass_start_frame(2) [OF q(1) b] by (simp add: s3_def em f)
    obtain n1 where n1: "k_adminPort s2 = k_adminPort s @ n1" "set n1 \<inter> A = {}"
      using pass_start_frame(3) [OF q(1) b] f by auto
    obtain n2 where n2: "k_adminPort s3 = k_adminPort s2 @ n2" "set n2 \<inter> A = {}"
      using quietD(3) [OF q(2), of "emit (Ev_sync ?cmd) s2"] by (auto simp: s3_def em)
    have po: "\<exists>new. k_adminPort s3 = k_adminPort s @ new \<and> set new \<inter> A = {}"
      by (rule exI [of _ "n1 @ n2"]) (use n1 n2 in auto)
    have sh: "s' = pass_finish P io (io_Data (k_ios s io)) uc bounce ret result (nvme_passthru_end effects (s3\<lparr>k_mem := mem\<rparr>))"
      by (simp add: s' st z Let_def b s3_def [symmetric] d)
    have rt: "ret = fst (dev (pass_cmd P uc) ?buf (pt_DataLen uc)
          (k_mem (ec (emit (Ev_sync (pass_cmd P uc)) (snd (nvme_passthru_start P ew None (pt_Opcode uc) s1))))))"
      by (simp add: b s3_def [symmetric] d)
    show ?thesis
      by (rule sent [OF ok st [unfolded z] sh _ _ _ _ rt]) (use r fl po io in auto)
  qed
qed

text \<open>
  C10.  Whatever the other tasks do with their own requests while the worker sleeps, a passthrough
  request is replied exactly once on every path, the freeze it took is released again, the bounce
  buffer it took is returned, and the guards and a failed allocation give the errors of the code.
\<close>

theorem passthru_settled:
  fixes P :: platform and dev :: pass_dev and s :: NVMeController
  assumes q: "quiet A env_wait" "quiet A env_cmd" and io: "io \<in> A" and u: "\<not> bit (k_flags s) NVME_CTRL_FROZEN"
  defines "uc \<equiv> k_pass s (io_Data (k_ios s io))" and "s' \<equiv> nvme_passthru_process P dev env_wait env_cmd io s"
  shows "count_list (replies s') io = count_list (replies s) io + 1 \<and> \<not> bit (k_flags s') NVME_CTRL_FROZEN \<and>
    (case pass_refused s io of
       Some er \<Rightarrow> io_Error (k_ios s' io) = er \<and> k_dma s' = k_dma s
     | None \<Rightarrow> (case pass_stage P uc s of
         None \<Rightarrow> io_Error (k_ios s' io) = IOERR_BADADDRESS \<and> k_dma s' = k_dma s
       | Some (Some b, _) \<Rightarrow> k_dma s' b = None
       | Some (None, _) \<Rightarrow> True))"
  using q io
proof (cases rule: pass_process_cases [of A env_wait env_cmd io s P dev])
  case (sent bounce s1 effects s3 ret result)
  then show ?thesis using u
    by (simp add: s'_def uc_def pass_finish_frame pass_end_frame split: option.split)
qed (use u in \<open>simp_all add: s'_def uc_def reply_io_frame\<close>)

definition demo_pass :: NVMeController where
  "demo_pass = zero_ctrl\<lparr>k_state := NVME_CTRL_LIVE, k_pass := (\<lambda>_. zero_pass\<lparr>pt_Opcode := 6\<rparr>)\<rparr>"

theorem passthru_settled_witness:
  "count_list (replies (nvme_passthru_process m68k_platform (\<lambda>c b n m. (Ret_ok, 0, m)) id id 7 demo_pass)) 7 = 1"
proof -
  have q: "quiet {7} id" by (simp add: quiet_def)
  have "\<not> bit (k_flags demo_pass) NVME_CTRL_FROZEN" "replies demo_pass = []"
    by (simp_all add: demo_pass_def zero_ctrl_def replies_def map_filter_simps)
  then show ?thesis using passthru_settled [OF q q, of 7 demo_pass m68k_platform "\<lambda>c b n m. (Ret_ok, 0, m)"] by simp
qed

lemma pass_process_port:
  assumes "quiet A ew" "quiet A ec" "io \<in> A"
  shows "\<exists>new. k_adminPort (nvme_passthru_process P dev ew ec io s) = k_adminPort s @ new \<and> set new \<inter> A = {}"
    and "io' \<in> A \<Longrightarrow> count_list (replies (nvme_passthru_process P dev ew ec io s)) io' =
      count_list (replies s) io' + (if io' = io then 1 else 0)"
proof -
  show "\<exists>new. k_adminPort (nvme_passthru_process P dev ew ec io s) = k_adminPort s @ new \<and> set new \<inter> A = {}"
    using assms by (cases rule: pass_process_cases [of A ew ec io s P dev]) (simp_all add: reply_io_frame pass_finish_frame pass_end_frame)
  show "count_list (replies (nvme_passthru_process P dev ew ec io s)) io' =
      count_list (replies s) io' + (if io' = io then 1 else 0)" if "io' \<in> A"
    using assms by (cases rule: pass_process_cases [of A ew ec io s P dev])
      (use that in \<open>simp_all add: reply_io_frame pass_finish_frame pass_end_frame\<close>)
qed

text \<open>
  C11.  One pass over the worker's port answers exactly the requests that were queued, each once per
  message, also while clients queue further ones behind them; with the admin queue quiesced the port
  is left alone.
\<close>

theorem adminport_served:
  assumes q: "quiet A env_wait" "quiet A env_cmd" and port: "set (k_adminPort s) \<subseteq> A" and io: "io \<in> A"
  shows "if bit (k_flags s) NVME_CTRL_ADMIN_Q_STOPPED
    then admin_drain (length (k_adminPort s)) (nvme_passthru_process P dev env_wait env_cmd) s = s
    else count_list (replies (admin_drain (length (k_adminPort s)) (nvme_passthru_process P dev env_wait env_cmd) s)) io =
        count_list (replies s) io + count_list (k_adminPort s) io \<and>
      set (k_adminPort (admin_drain (length (k_adminPort s)) (nvme_passthru_process P dev env_wait env_cmd) s)) \<inter> A = {}"
proof -
  let ?f = "nvme_passthru_process P dev env_wait env_cmd"
  have "count_list (replies (adminport_loop ?f (length xs) s)) io = count_list (replies s) io + count_list xs io \<and>
      set (k_adminPort (adminport_loop ?f (length xs) s)) \<inter> A = {}"
    if "set xs \<subseteq> A" "k_adminPort s = xs @ ys" "set ys \<inter> A = {}" for s xs ys
    using that
  proof (induction xs arbitrary: s ys)
    case (Cons x xs)
    let ?s1 = "?f x (s\<lparr>k_adminPort := xs @ ys\<rparr>)"
    have x: "x \<in> A" using Cons.prems by simp
    obtain new where n: "k_adminPort ?s1 = xs @ ys @ new" "set new \<inter> A = {}"
      using pass_process_port(1) [OF q x, of P dev "s\<lparr>k_adminPort := xs @ ys\<rparr>"] by auto
    have "replies (s\<lparr>k_adminPort := xs @ ys\<rparr>) = replies s" by (simp add: replies_def)
    then have "count_list (replies ?s1) io = count_list (replies s) io + (if io = x then 1 else 0)"
      using pass_process_port(2) [OF q x io, of P dev "s\<lparr>k_adminPort := xs @ ys\<rparr>"] by simp
    moreover have "set (ys @ new) \<inter> A = {}" "set xs \<subseteq> A" using Cons.prems n by auto
    moreover note Cons.IH [OF this(2) n(1) this(1)]
    ultimately show ?case using Cons.prems(2) by simp
  qed simp
  from this [OF port, of s "[]"] show ?thesis by (simp add: admin_drain_def)
qed

theorem adminport_served_witness:
  "count_list (replies (admin_drain 2 (nvme_passthru_process m68k_platform (\<lambda>c b n m. (Ret_ok, 0, m)) id id)
     (demo_pass\<lparr>k_adminPort := [7, 8]\<rparr>))) 8 = 1"
proof -
  let ?s = "demo_pass\<lparr>k_adminPort := [7, 8]\<rparr>"
  have q: "quiet {7, 8} id" by (simp add: quiet_def)
  have "replies ?s = []" "\<not> bit (k_flags ?s) NVME_CTRL_ADMIN_Q_STOPPED"
    by (simp_all add: demo_pass_def zero_ctrl_def replies_def map_filter_simps)
  then show ?thesis
    using adminport_served [OF q q, of ?s 8 m68k_platform "\<lambda>c b n m. (Ret_ok, 0, m)"] by (simp add: numeral_2_eq_2)
qed

text \<open>
  A command the controller fails with a command-specific status whose code byte is zero, such as
  0x100, Completion Queue Invalid, is reported to the client as a success.
\<close>

theorem passthru_status_hidden:
  fixes P :: platform and dev :: pass_dev
  assumes d: "\<And>c b n m. fst (dev c b n m) = Ret_status st" and st: "st AND 0xff = 0"
    and ok: "pass_refused s io = None" "pass_stage P (k_pass s (io_Data (k_ios s io))) s \<noteq> None"
  shows "io_Error (k_ios (nvme_passthru_process P dev id id io s) io) = IOERR_NO_ERROR"
proof -
  have "quiet {io} id" by (simp add: quiet_def)
  from this this singletonI show ?thesis
  proof (cases rule: pass_process_cases [of "{io}" id id io s P dev])
    case (sent bounce s1 effects s3 ret result)
    then show ?thesis by (simp add: pass_finish_frame d pass_error_def st)
  qed (use ok in simp_all)
qed

theorem passthru_status_hidden_witness:
  "io_Error (k_ios (nvme_passthru_process m68k_platform (\<lambda>c b n m. (Ret_status 0x100, 0, m)) id id 7 demo_pass) 7) = IOERR_NO_ERROR"
  by (rule passthru_status_hidden [where st = "0x100"])
    (simp_all add: pass_refused_def pass_stage_def pass_bounced_def demo_pass_def zero_ctrl_def zero_pass_def zero_io_def)

end
