(* ===== verification/Nvme_Unit.thy ===== *)
theory Nvme_Unit
  imports Nvme_Reset Nvme_Passthru
begin

text \<open>
  The two tasks of a controller and its interrupt server: one pass of the loop of \<open>UnitTask\<close>
  (src/unit_task.c) and of \<open>AdminWorker\<close> (src/admin_task.c) after \<open>Wait()\<close> returned a set of signals,
  the end of the unit task, and src/irq.c.  \<open>msi\<close> is the field \<open>msi_enabled\<close>, fixed when the interrupt is
  attached; \<open>Ev_vector\<close> is the mask (False) or unmask (True) of the message vector at the root complex.
  A step that puts the unit task to sleep for ever ends its pass.
\<close>

section \<open>Interrupts\<close>

abbreviation (input) NVME_REG_INTMS :: u32 where "NVME_REG_INTMS \<equiv> 0xC"
abbreviation (input) NVME_REG_INTMC :: u32 where "NVME_REG_INTMC \<equiv> 0x10"
abbreviation (input) NVME_INTM_ALL_VECTORS :: u32 where "NVME_INTM_ALL_VECTORS \<equiv> 0xFFFFFFFF"

definition nvme_int_isr :: "platform \<Rightarrow> bool \<Rightarrow> NVMeController \<Rightarrow> bool \<times> NVMeController" where
  "nvme_int_isr P msi s =
    (if msi then (True, emit (Ev_signal Sig_irq) (emit (Ev_vector False) s))
     else case nvme_cq_pending P Io_q s of (io, s1) \<Rightarrow>
       (case (if io then (True, s1) else nvme_cq_pending P Admin_q s1) of (pending, s2) \<Rightarrow>
          if \<not> pending then (False, s2)
          else (True, emit (Ev_signal Sig_irq) (emit (Ev_mmio NVME_REG_INTMS NVME_INTM_ALL_VECTORS) s2))))"

definition nvme_int_rearm :: "bool \<Rightarrow> NVMeController \<Rightarrow> NVMeController" where
  "nvme_int_rearm msi s = (if msi then emit (Ev_vector True) s else emit (Ev_mmio NVME_REG_INTMC NVME_INTM_ALL_VECTORS) s)"

text \<open>
  Attaching: the allowed interrupt types as a set, and the type the bus driver granted (None: failure).
  The build options are \<open>use_msi\<close> and \<open>use_msix\<close>.
\<close>

datatype irq_type = PCI_IRQ_INTX | PCI_IRQ_MSI | PCI_IRQ_MSIX

definition irq_flags :: "bool \<Rightarrow> bool \<Rightarrow> NVMeController \<Rightarrow> irq_type set" where
  "irq_flags use_msi use_msix s = {PCI_IRQ_INTX} \<union>
     (if use_msi \<and> \<not> bit (k_quirks s) NVME_QUIRK_BROKEN_MSI then {PCI_IRQ_MSI} else {}) \<union> (if use_msix then {PCI_IRQ_MSIX} else {})"

definition nvme_pci_int_enable ::
    "bool \<Rightarrow> bool \<Rightarrow> (irq_type set \<Rightarrow> irq_type option) \<Rightarrow> NVMeController \<Rightarrow> bool option \<times> NVMeController" where
  "nvme_pci_int_enable use_msi use_msix attach s =
    (case attach (irq_flags use_msi use_msix s) of
       None \<Rightarrow> (None, s)
     | Some itype \<Rightarrow> (Some (itype \<noteq> PCI_IRQ_INTX),
         if itype \<noteq> PCI_IRQ_MSIX then emit (Ev_mmio NVME_REG_INTMC NVME_INTM_ALL_VECTORS) s else s))"

definition nvme_int_shutdown :: "bool \<Rightarrow> bool \<Rightarrow> NVMeController \<Rightarrow> bool \<times> NVMeController" where
  "nvme_int_shutdown bar0 msi s =
    (if \<not> bar0 then (msi, s)
     else (False, if \<not> msi then emit (Ev_mmio NVME_REG_INTMS NVME_INTM_ALL_VECTORS) s else s))"

section \<open>The unit task\<close>

record unit_signals =
  us_irq :: bool
  us_reset :: bool
  us_timer :: bool
  us_ctrl_c :: bool

definition unit_runs :: "(NVMeController \<Rightarrow> NVMeController) \<Rightarrow> NVMeController \<Rightarrow> NVMeController" where
  "unit_runs f s = (if k_unit_waits s \<noteq> None then s else f s)"

definition UnitTask_pass ::
    "nat \<Rightarrow> platform \<Rightarrow> deadline_test \<Rightarrow> bool \<Rightarrow> bool \<Rightarrow> reset_env \<Rightarrow> unit_signals \<Rightarrow> NVMeController \<Rightarrow> NVMeController option" where
  "UnitTask_pass fuel P passed bar0 msi e sg s =
    (let s1 = (if us_irq sg then unit_runs (nvme_int_rearm msi) (snd (nvme_process_completions P s)) else s) in
     case (if us_reset sg \<and> k_unit_waits s1 = None then nvme_reset_controller fuel P passed bar0 e s1 else Some s1) of
       None \<Rightarrow> None
     | Some s2 \<Rightarrow>
        let s3 = (if us_timer sg then unit_runs (nvme_tick_watchdog P) s2 else s2)
        in Some (if us_ctrl_c sg then s3 else unit_runs (nvme_drain_msgport P) s3))"

fun exit_pending :: "nat list \<Rightarrow> NVMeController \<Rightarrow> NVMeController" where
  "exit_pending [] s = s"
| "exit_pending (io # ios) s = exit_pending ios (reply_io io IOERR_ABORTED (s\<lparr>k_io_pending := ios\<rparr>))"

fun exit_stalled :: "nat list \<Rightarrow> NVMeController \<Rightarrow> NVMeController" where
  "exit_stalled [] s = s"
| "exit_stalled (c # cs) s = exit_stalled cs
    (nvme_io_context_finish c (upd_ctx c (\<lambda>x. x\<lparr>x_stalled := False, x_first_error := IOERR_ABORTED\<rparr>) (s\<lparr>k_ctx_stalled := cs\<rparr>)))"

definition UnitTask_exit :: "NVMeController \<Rightarrow> NVMeController" where
  "UnitTask_exit s =
    (let s1 = exit_pending (k_io_pending s) s; s2 = exit_stalled (k_ctx_stalled s1) s1
     in s2\<lparr>k_msgPort := [], k_unit_task := False\<rparr>)"

section \<open>The admin worker\<close>

record admin_signals =
  sg_scan :: bool
  sg_fw_act :: bool
  sg_adminport :: bool
  sg_ctrl_c :: bool

text \<open>The scan may not end and the firmware work may still be polling: None.\<close>

definition AdminWorker_pass ::
    "nat \<Rightarrow> platform \<Rightarrow> deadline_test \<Rightarrow> sync_dev \<Rightarrow> pass_dev \<Rightarrow> (NVMeController \<Rightarrow> NVMeController) \<Rightarrow> (NVMeController \<Rightarrow> NVMeController) \<Rightarrow>
     poll_env \<Rightarrow> admin_signals \<Rightarrow> NVMeController \<Rightarrow> NVMeController option" where
  "AdminWorker_pass fuel P passed sync dev env_wait env_cmd e sg s =
    (case (if sg_scan sg then nvme_scan_namespaces fuel P sync s else Some s) of
       None \<Rightarrow> None
     | Some s1 \<Rightarrow>
        (case (if sg_fw_act sg then nvme_fw_act_work fuel P passed e s1 else Some s1) of
           None \<Rightarrow> None
         | Some s2 \<Rightarrow>
            Some (if sg_adminport sg then admin_drain fuel (nvme_passthru_process P dev env_wait env_cmd) s2 else s2)))"

section \<open>The interrupt test and the drain agree\<close>

lemma drain_takes_iff:
  assumes "k_unit_waits s = None"
  shows "0 < fst (drain_cq P sel s) \<or> k_unit_waits (snd (drain_cq P sel s)) \<noteq> None \<longleftrightarrow>
    q_cq_base (get_q s sel) \<noteq> None \<and> cqe_fresh P (q_cq (get_q s sel) ! q_cq_head (get_q s sel)) (q_cq_phase (get_q s sel))"
proof (cases "q_cq_base (get_q s sel)")
  case None
  then show ?thesis using assms by (simp add: drain_cq_def)
next
  case (Some base)
  let ?q = "get_q s sel" and ?d = "\<lparr>d_head = q_cq_head (get_q s sel), d_phase = q_cq_phase (get_q s sel), d_drained = 0, d_line = 1\<rparr>"
  obtain d1 s1 where i: "drain_inval base ?d s = (d1, s1)" by fastforce
  then have h: "d_head d1 = q_cq_head ?q" "d_phase d1 = q_cq_phase ?q" "d_drained d1 = 0" and w: "k_unit_waits s1 = None"
    using assms by (auto simp: drain_inval_def Let_def emit_def split: if_splits)
  have grow: "d_drained d \<le> d_drained (fst (drain_loop n P sel base cq depth d s))" for n cq depth d s
  proof (induction n arbitrary: d s)
    case (Suc n)
    have "d_drained (fst (drain_inval base d s)) = d_drained d" by (simp add: drain_inval_def Let_def)
    moreover have "d_drained (drain_next depth d') = Suc (d_drained d')" for d' by (simp add: drain_next_def)
    ultimately show ?case using Suc [of "drain_next depth (fst (drain_inval base d s))"] by (auto simp: Let_def split: prod.split intro: Suc_leD)
  qed simp
  show ?thesis
  proof (cases "cqe_fresh P (q_cq ?q ! q_cq_head ?q) (q_cq_phase ?q)")
    case False
    then have "drain_loop (Suc (q_depth ?q)) P sel base (q_cq ?q) (q_depth ?q) ?d s = (d1, s1)" by (simp add: i h)
    then show ?thesis using False Some h(3) w by (simp add: drain_cq_def Let_def)
  next
    case True
    define s2 where "s2 = drain_cqe P sel (q_cq ?q ! q_cq_head ?q) s1"
    obtain d' s' where l: "drain_loop (Suc (q_depth ?q)) P sel base (q_cq ?q) (q_depth ?q) ?d s = (d', s')" by fastforce
    have "k_unit_waits s' \<noteq> None \<or> 0 < d_drained d'"
    proof (cases "k_unit_waits s2 = None")
      case False
      then show ?thesis using l True by (auto simp: i h Let_def s2_def)
    next
      case c: True
      then have "drain_loop (q_depth ?q) P sel base (q_cq ?q) (q_depth ?q) (drain_next (q_depth ?q) d1) s2 = (d', s')"
        using l True by (simp add: i h Let_def s2_def)
      moreover have "d_drained (drain_next (q_depth ?q) d1) = 1" using h(3) by (simp add: drain_next_def)
      ultimately show ?thesis using grow [of "drain_next (q_depth ?q) d1" "q_depth ?q" "q_cq ?q" "q_depth ?q" s2] by simp
    qed
    then show ?thesis using Some True l by (auto simp: drain_cq_def Let_def)
  qed
qed

text \<open>
  C13.  On a shared level-triggered line the interrupt server claims the interrupt exactly when a drain
  of one of the two completion queues would take an entry: no completion is left unannounced and no
  foreign interrupt is swallowed.  When it claims, it masks the controller and then wakes the unit task;
  when it declines, it has only looked.
\<close>

theorem isr_claims_exactly_work:
  assumes "k_unit_waits s = None"
  shows "(fst (nvme_int_isr P False s) \<longleftrightarrow> (\<exists>sel. 0 < fst (drain_cq P sel s) \<or> k_unit_waits (snd (drain_cq P sel s)) \<noteq> None)) \<and>
    (\<exists>l. set l \<subseteq> {Ev_inval a 16 |a. True} \<and> snd (nvme_int_isr P False s) = s\<lparr>k_trace := k_trace s @ l @
      (if fst (nvme_int_isr P False s) then [Ev_mmio NVME_REG_INTMS NVME_INTM_ALL_VECTORS, Ev_signal Sig_irq] else [])\<rparr>)"
proof -
  have sel: "(\<exists>sel. Q sel) \<longleftrightarrow> Q Io_q \<or> Q Admin_q" for Q by (metis queue_sel.exhaust)
  define L where "L sel = (case q_cq_base (get_q s sel) of None \<Rightarrow> [] | Some a \<Rightarrow> [Ev_inval (a + of_nat (q_cq_head (get_q s sel)) * 16) 16])" for sel
  define F where "F sel \<longleftrightarrow> q_cq_base (get_q s sel) \<noteq> None \<and> cqe_fresh P (q_cq (get_q s sel) ! q_cq_head (get_q s sel)) (q_cq_phase (get_q s sel))" for sel
  have p: "nvme_cq_pending P sel (s\<lparr>k_trace := l\<rparr>) = (F sel, s\<lparr>k_trace := l @ L sel\<rparr>)" for sel l
    by (cases sel) (simp_all add: nvme_cq_pending_def Let_def get_q_def L_def F_def emit_def split: option.split)
  have isr: "nvme_int_isr P False s = (F Io_q \<or> F Admin_q, s\<lparr>k_trace := k_trace s @ (L Io_q @ (if F Io_q then [] else L Admin_q)) @
      (if F Io_q \<or> F Admin_q then [Ev_mmio NVME_REG_INTMS NVME_INTM_ALL_VECTORS, Ev_signal Sig_irq] else [])\<rparr>)"
    using p [of Io_q "k_trace s"] p [of Admin_q "k_trace s @ L Io_q"] by (simp add: nvme_int_isr_def emit_def)
  have "fst (nvme_int_isr P False s) \<longleftrightarrow> (\<exists>sel. 0 < fst (drain_cq P sel s) \<or> k_unit_waits (snd (drain_cq P sel s)) \<noteq> None)"
    unfolding drain_takes_iff [OF assms] sel F_def [symmetric] isr by simp
  moreover have "set (L Io_q @ (if F Io_q then [] else L Admin_q)) \<subseteq> {Ev_inval a 16 |a. True}" by (auto simp: L_def split: option.splits)
  then have "\<exists>l. set l \<subseteq> {Ev_inval a 16 |a. True} \<and> snd (nvme_int_isr P False s) = s\<lparr>k_trace := k_trace s @ l @
      (if fst (nvme_int_isr P False s) then [Ev_mmio NVME_REG_INTMS NVME_INTM_ALL_VECTORS, Ev_signal Sig_irq] else [])\<rparr>"
    unfolding isr by (intro exI [of _ "L Io_q @ (if F Io_q then [] else L Admin_q)"]) (simp only: fst_conv snd_conv)
  ultimately show ?thesis by blast
qed

theorem isr_claims_exactly_work_witness: "fst (nvme_int_isr m68k_platform False demo_posted)"
proof -
  let ?q = "get_q demo_posted Io_q"
  have w: "k_unit_waits demo_posted = None" by (simp add: demo_posted_def demo_ctrl_def zero_ctrl_def)
  have "q_cq_base ?q = Some 0x2000" "q_cq ?q ! q_cq_head ?q = zero_cqe\<lparr>cqe_command_id := 7, cqe_status := 0x100\<rparr>" "q_cq_phase ?q"
    by (simp_all add: get_q_def demo_posted_ok(5) demo_queue_def zero_queue_def)
  moreover have "cqe_fresh m68k_platform (zero_cqe\<lparr>cqe_command_id := 7, cqe_status := 0x100\<rparr>) True"
    using demo_swap by (simp add: cqe_fresh_def)
  ultimately have "0 < fst (drain_cq m68k_platform Io_q demo_posted) \<or> k_unit_waits (snd (drain_cq m68k_platform Io_q demo_posted)) \<noteq> None"
    using drain_takes_iff [OF w, of m68k_platform Io_q] by simp
  then show ?thesis using isr_claims_exactly_work [OF w, of m68k_platform] by blast
qed

section \<open>The end of the unit task\<close>

lemma exit_pending_spec:
  "exit_pending ios s = s\<lparr>k_io_pending := (if ios = [] then k_io_pending s else []),
     k_ios := (\<lambda>io. if io \<in> set ios then (k_ios s io)\<lparr>io_Error := IOERR_ABORTED\<rparr> else k_ios s io), k_trace := k_trace s @ map Ev_reply ios\<rparr>"
proof (induction ios arbitrary: s)
  case (Cons io ios)
  show ?case by (simp add: Cons reply_io_def upd_io_def emit_def fun_eq_iff)
qed simp

lemma exit_stalled_spec:
  assumes "distinct cs" "\<forall>c \<in> set cs. k_ctxs s c \<noteq> None"
  defines "s' \<equiv> exit_stalled cs s"
  shows "replies s' = replies s @ map (\<lambda>c. x_io (cx s c)) cs \<and> k_ctxs s' = (\<lambda>c. if c \<in> set cs then None else k_ctxs s c) \<and>
    (cs \<noteq> [] \<longrightarrow> k_ctx_stalled s' = []) \<and> k_reqs s' = k_reqs s \<and>
    (\<forall>io. io_Error (k_ios s' io) = (if io \<in> (\<lambda>c. x_io (cx s c)) ` set cs then IOERR_ABORTED else io_Error (k_ios s io)))"
  using assms(1,2) unfolding s'_def
proof (induction cs arbitrary: s)
  case (Cons c cs)
  obtain x where x: "k_ctxs s c = Some x" using Cons.prems(2) by auto
  let ?t = "upd_ctx c (\<lambda>x. x\<lparr>x_stalled := False, x_first_error := IOERR_ABORTED\<rparr>) (s\<lparr>k_ctx_stalled := cs\<rparr>)"
  let ?x = "x\<lparr>x_stalled := False, x_first_error := IOERR_ABORTED\<rparr>"
  have t: "k_ctxs ?t c = Some ?x" using x by (simp add: upd_ctx_def cx_def)
  let ?u = "nvme_io_context_finish c ?t"
  have u: "k_ctxs ?u = (k_ctxs s)(c := None)" "k_ctx_stalled ?u = cs" "k_reqs ?u = k_reqs s" "replies ?u = replies s @ [x_io x]"
    "io_Error (k_ios ?u io) = (if io = x_io x then IOERR_ABORTED else io_Error (k_ios s io))" for io
    using x by (simp_all add: finish_shape [OF t] replies_def)
  have "cx ?u c' = cx s c'" if "c' \<in> set cs" for c' using that Cons.prems(1) u(1) by (auto simp: cx_def)
  then have m: "map (\<lambda>c. x_io (cx ?u c)) cs = map (\<lambda>c. x_io (cx s c)) cs" "(\<lambda>c. x_io (cx ?u c)) ` set cs = (\<lambda>c. x_io (cx s c)) ` set cs" by auto
  have cx: "cx s c = x" using x by (simp add: cx_def)
  have "\<forall>c \<in> set cs. k_ctxs ?u c \<noteq> None" using Cons.prems u(1) by auto
  note ih = Cons.IH [OF _ this]
  have "k_ctx_stalled (exit_stalled cs ?u) = []" using ih Cons.prems(1) u(2) by (cases "cs = []") simp_all
  then show ?case using ih Cons.prems(1) unfolding exit_stalled.simps m by (auto simp: u cx fun_eq_iff)
qed simp

text \<open>
  C14.  When the unit task ends, every request it still held back is answered exactly once with
  IOERR_ABORTED: the requests of the back-pressure list and those of the parked chunked transfers,
  whose contexts are freed.  Messages that are still at the port are not: the port is deleted with
  them.
\<close>

theorem unit_exit_answers:
  fixes s :: NVMeController
  assumes "distinct (k_ctx_stalled s)" "\<forall>c \<in> set (k_ctx_stalled s). k_ctxs s c \<noteq> None"
  defines "s' \<equiv> UnitTask_exit s"
  shows "replies s' = replies s @ k_io_pending s @ map (\<lambda>c. x_io (cx s c)) (k_ctx_stalled s) \<and>
    (\<forall>io \<in> set (k_io_pending s) \<union> (\<lambda>c. x_io (cx s c)) ` set (k_ctx_stalled s). io_Error (k_ios s' io) = IOERR_ABORTED) \<and>
    (\<forall>c \<in> set (k_ctx_stalled s). k_ctxs s' c = None) \<and> k_io_pending s' = [] \<and> k_ctx_stalled s' = [] \<and> k_msgPort s' = []"
proof -
  define s1 where "s1 = exit_pending (k_io_pending s) s"
  have s1: "k_ctxs s1 = k_ctxs s" "k_ctx_stalled s1 = k_ctx_stalled s" "k_io_pending s1 = []" "replies s1 = replies s @ k_io_pending s"
    "io \<in> set (k_io_pending s) \<Longrightarrow> io_Error (k_ios s1 io) = IOERR_ABORTED" for io
    by (simp_all add: s1_def exit_pending_spec replies_def map_filter_def comp_def)
  have cx: "cx s1 = cx s" by (simp add: cx_def s1 fun_eq_iff)
  define s2 where "s2 = exit_stalled (k_ctx_stalled s1) s1"
  have p: "k_io_pending (exit_stalled cs t) = k_io_pending t" for cs t
    by (induction cs arbitrary: t) (simp_all add: nvme_io_context_finish_def Let_def free_ctx_def upd_io_def emit_def upd_ctx_def)
  note e = exit_stalled_spec [of "k_ctx_stalled s1" s1, folded s2_def, unfolded cx]
  have "s' = s2\<lparr>k_msgPort := [], k_unit_task := False\<rparr>" by (simp add: s'_def UnitTask_exit_def Let_def s1_def [symmetric] s2_def)
  moreover have "replies (s2\<lparr>k_msgPort := [], k_unit_task := False\<rparr>) = replies s2" by (simp add: replies_def)
  moreover have "k_ctx_stalled s2 = []" using e assms(1,2) s1 by (cases "k_ctx_stalled s = []") (auto simp: s2_def)
  moreover have "k_io_pending s2 = []" using p s1 by (simp add: s2_def)
  ultimately show ?thesis using e assms(1,2) s1 by auto
qed

theorem unit_exit_answers_witness:
  "replies (UnitTask_exit (demo_idle\<lparr>k_io_pending := [7], k_ctxs := (\<lambda>_. None)(2 := Some (demo_ctx\<lparr>x_io := 9\<rparr>)), k_ctx_stalled := [2]\<rparr>)) =
     replies demo_idle @ [7, 9]"
proof -
  let ?s = "demo_idle\<lparr>k_io_pending := [7], k_ctxs := (\<lambda>_. None)(2 := Some (demo_ctx\<lparr>x_io := 9\<rparr>)), k_ctx_stalled := [2]\<rparr>"
  have "replies ?s = replies demo_idle" by (simp add: replies_def)
  moreover have "distinct (k_ctx_stalled ?s)" "\<forall>c \<in> set (k_ctx_stalled ?s). k_ctxs ?s c \<noteq> None" by simp_all
  note unit_exit_answers [OF this]
  ultimately show ?thesis by (simp add: cx_def)
qed

end
