(* ===== verification/Nvme_Probe.thy ===== *)
theory Nvme_Probe
  imports Nvme_Unit Nvme_Quirks
begin

text \<open>
  Bringing a controller up and taking it down: \<open>nvme_probe_controller\<close>, \<open>nvme_probe_all\<close> and
  \<open>nvme_unprobe_all\<close> of src/nvme/nvme_probe.c, \<open>nvme_setup_io_queue\<close> of src/nvme/nvme_queue.c and the start of
  the two tasks.  A \<open>probe_ctrl\<close> is a controller with what the operating system holds for it: the board
  owner attribute, the mapped registers, the two memory pools and the interrupt server.  The results
  of the operating system and the registers are the fields of \<open>probe_env\<close>; commands of the probing task
  are answered by \<open>pv_sync\<close>, since the unit task is free to deliver their completions.
\<close>

section \<open>The I/O queue\<close>

definition nvme_setup_io_queue :: "platform \<Rightarrow> (nvme_command \<Rightarrow> sync_ret) \<Rightarrow> NVMeController \<Rightarrow> bool \<times> NVMeController" where
  "nvme_setup_io_queue P sync s =
    (let c1 = nvme_build_set_num_queues P; s1 = emit (Ev_sync c1) s in
     if sync c1 \<noteq> Ret_ok then (False, s1)
     else case nvme_setup_queue P Io_q 1 256 s1 of
       (False, s2) \<Rightarrow> (False, s2)
     | (True, s2) \<Rightarrow>
        let c2 = nvme_build_create_cq P s2; s3 = emit (Ev_sync c2) s2 in
        if sync c2 \<noteq> Ret_ok then (False, nvme_teardown_queue Io_q s3)
        else
          let c3 = nvme_build_create_sq P s3; s4 = emit (Ev_sync c3) s3 in
          if sync c3 \<noteq> Ret_ok then (False, nvme_teardown_queue Io_q s4)
          else (True, nvme_set_io_max_inflight s4))"

section \<open>Task start and end\<close>

text \<open>What a starting task asks of the operating system, in the order of the code: a port, signals, the timer.\<close>

record task_env =
  te_port :: bool
  te_sig1 :: bool
  te_sig2 :: bool
  te_timer :: bool

definition UnitTask_start :: "task_env \<Rightarrow> NVMeController \<Rightarrow> bool \<times> NVMeController" where
  "UnitTask_start e s =
    (let s1 = s\<lparr>k_retry_list := [], k_io_pending := [], k_ctx_stalled := []\<rparr> in
     if \<not> te_port e then (False, s1)
     else if \<not> te_sig1 e \<or> \<not> te_sig2 e \<or> \<not> te_timer e then (False, s1\<lparr>k_msgPort := []\<rparr>)
     else (True, s1\<lparr>k_msgPort := [], k_unit_task := True\<rparr>))"

definition AdminWorker_start :: "task_env \<Rightarrow> NVMeController \<Rightarrow> bool \<times> NVMeController" where
  "AdminWorker_start e s =
    (if \<not> te_port e then (False, s)
     else if \<not> te_sig1 e \<or> \<not> te_sig2 e then (False, s\<lparr>k_adminPort := []\<rparr>)
     else (True, s\<lparr>k_adminPort := [], k_admin_task := True\<rparr>))"

text \<open>\<open>drv_task_join\<close>: the task, when there is one, leaves its loop and runs to its end.\<close>

definition join_admin_task :: "NVMeController \<Rightarrow> NVMeController" where
  "join_admin_task s = (if k_admin_task s then AdminWorker_exit s else s)"

definition join_unit_task :: "NVMeController \<Rightarrow> NVMeController" where
  "join_unit_task s = (if k_unit_task s then UnitTask_exit s else s)"

section \<open>One controller\<close>

record probe_ctrl =
  pc_ctrl :: NVMeController
  pc_owned :: bool
  pc_bar0 :: bool
  pc_dmaPool :: bool
  pc_metaPool :: bool
  pc_isr :: bool
  pc_msi :: bool

record probe_env =
  pv_vendor :: u16
  pv_device :: u16
  pv_board_free :: bool
  pv_bar0 :: bool
  pv_dmaPool :: bool
  pv_metaPool :: bool
  pv_unit_spawn :: "task_env option"
  pv_admin_spawn :: "task_env option"
  pv_attach :: "irq_type set \<Rightarrow> irq_type option"
  pv_disable :: poll_env
  pv_cap_hi :: u32
  pv_regs0 :: "u32 \<Rightarrow> u32"
  pv_regs1 :: "u32 \<Rightarrow> u32"
  pv_enable :: poll_env
  pv_vs :: u32
  pv_sync :: sync_dev
  pv_undo :: poll_env

record probe_config =
  cf_vendors :: pci_vendors
  cf_use_msi :: bool
  cf_use_msix :: bool
  cf_coalesce_time :: u32
  cf_coalesce_thr :: u32

datatype probe_err = ERR_ALLOC_ERROR | ERR_CONTROLLER_ERROR | ERR_SPAWN | ERR_INT

definition on_ctrl :: "(NVMeController \<Rightarrow> NVMeController) \<Rightarrow> probe_ctrl \<Rightarrow> probe_ctrl" where
  "on_ctrl f c = c\<lparr>pc_ctrl := f (pc_ctrl c)\<rparr>"

definition nvme_pci_is_supported :: "u16 \<Rightarrow> u16 \<Rightarrow> bool" where
  "nvme_pci_is_supported vendor device \<longleftrightarrow> \<not> (vendor = 0xFFFF \<and> device = 0xFFFF)"

definition hw_init :: "probe_env \<Rightarrow> probe_ctrl \<Rightarrow> bool \<times> probe_ctrl" where
  "hw_init e c =
    (if \<not> nvme_pci_is_supported (pv_vendor e) (pv_device e) \<or> \<not> pv_board_free e then (False, c)
     else if \<not> pv_bar0 e then (False, c\<lparr>pc_owned := False\<rparr>)
     else (True, c\<lparr>pc_owned := True, pc_bar0 := True\<rparr>))"

definition hw_shutdown :: "probe_ctrl \<Rightarrow> probe_ctrl" where
  "hw_shutdown c = c\<lparr>pc_owned := False, pc_bar0 := False\<rparr>"

definition nvme_init_ctrl :: "u32 \<Rightarrow> NVMeController \<Rightarrow> NVMeController" where
  "nvme_init_ctrl quirks s = s\<lparr>k_state := NVME_CTRL_NEW, k_namespaces := [], k_quirks := quirks\<rparr>"

text \<open>Destroying the slab caches and deleting the pools frees everything that was taken from them.\<close>

definition delete_pools :: "probe_ctrl \<Rightarrow> probe_ctrl" where
  "delete_pools c = c\<lparr>pc_dmaPool := False, pc_metaPool := False,
     pc_ctrl := (pc_ctrl c)\<lparr>k_prp_small := Map.empty, k_prp_large := Map.empty, k_ctxs := Map.empty, k_reqs := Map.empty,
       k_dma := Map.empty, k_meta := []\<rparr>\<rparr>"

definition int_enable :: "probe_config \<Rightarrow> probe_env \<Rightarrow> probe_ctrl \<Rightarrow> bool \<times> probe_ctrl" where
  "int_enable C e c =
    (case nvme_pci_int_enable (cf_use_msi C) (cf_use_msix C) (pv_attach e) (pc_ctrl c) of
       (None, s) \<Rightarrow> (False, c\<lparr>pc_ctrl := s\<rparr>)
     | (Some msi, s) \<Rightarrow> (True, c\<lparr>pc_ctrl := s, pc_isr := True, pc_msi := msi\<rparr>))"

definition int_shutdown :: "probe_ctrl \<Rightarrow> probe_ctrl" where
  "int_shutdown c = (case nvme_int_shutdown (pc_bar0 c) (pc_msi c) (pc_ctrl c) of (msi, s) \<Rightarrow>
     c\<lparr>pc_ctrl := s, pc_msi := msi, pc_isr := pc_isr c \<and> \<not> pc_bar0 c\<rparr>)"

text \<open>\<open>nvme_start_ctrl\<close> on the probing task, which may wait for Set Features.\<close>

definition nvme_start_ctrl_probe :: "platform \<Rightarrow> NVMeController \<Rightarrow> NVMeController" where
  "nvme_start_ctrl_probe P s =
    (let supported = NVME_AEN_SUPPORTED AND k_oaes s;
         s1 = (if supported = 0 then s else emit (Ev_sync (set_features_cmd P 0xb supported)) s)
     in nvme_unquiesce_io_queues (nvme_submit_aer P s1))"

text \<open>The labels of \<open>nvme_probe_controller\<close>, last to first.\<close>

definition fail_pool :: "probe_ctrl \<Rightarrow> probe_ctrl" where
  "fail_pool c = hw_shutdown (delete_pools c)"

definition fail_unit_task :: "probe_ctrl \<Rightarrow> probe_ctrl" where
  "fail_unit_task c = fail_pool (on_ctrl join_unit_task c)"

definition fail_admin_task :: "probe_ctrl \<Rightarrow> probe_ctrl" where
  "fail_admin_task c = fail_unit_task (on_ctrl join_admin_task c)"

definition fail_int :: "probe_ctrl \<Rightarrow> probe_ctrl" where
  "fail_int c = fail_admin_task (int_shutdown c)"

definition fail_admin :: "probe_ctrl \<Rightarrow> probe_ctrl" where
  "fail_admin c = fail_int (on_ctrl (nvme_teardown_queue Admin_q) c)"

definition fail_enable :: "nat \<Rightarrow> deadline_test \<Rightarrow> probe_env \<Rightarrow> probe_ctrl \<Rightarrow> probe_ctrl option" where
  "fail_enable fuel passed e c =
    map_option (\<lambda>(_, s). fail_admin (c\<lparr>pc_ctrl := s\<rparr>)) (nvme_disable_ctrl fuel passed (pv_undo e) False (pc_ctrl c))"

type_synonym probe_result = "(probe_err option \<times> probe_ctrl) option"

text \<open>From the first admin command to the namespace scan, with the admin queue enabled.\<close>

definition probe_online :: "nat \<Rightarrow> platform \<Rightarrow> deadline_test \<Rightarrow> probe_config \<Rightarrow> probe_env \<Rightarrow> probe_ctrl \<Rightarrow> probe_result" where
  "probe_online fuel P passed C e c =
    (let answer = (\<lambda>cmd. fst (pv_sync e cmd)) in
     case nvme_setup_io_queue P answer (pc_ctrl c) of
       (False, s1) \<Rightarrow> map_option (\<lambda>c'. (Some ERR_CONTROLLER_ERROR, c')) (fail_enable fuel passed e (c\<lparr>pc_ctrl := s1\<rparr>))
     | (True, s1) \<Rightarrow>
        let s2 = snd (nvme_change_ctrl_state NVME_CTRL_CONNECTING s1) in
        (case nvme_init_ctrl_finish P (pv_sync e) (pv_vs e) (cf_coalesce_time C) (cf_coalesce_thr C) s2 of (ret, s3) \<Rightarrow>
           if ret \<noteq> Ret_ok
           then map_option (\<lambda>c'. (Some ERR_CONTROLLER_ERROR, c')) (fail_enable fuel passed e (c\<lparr>pc_ctrl := s3\<rparr>))
           else
             let s4 = nvme_setup_host_mem P answer s3;
                 s5 = nvme_start_ctrl_probe P (snd (nvme_change_ctrl_state NVME_CTRL_LIVE s4))
             in map_option (\<lambda>s6. (None, c\<lparr>pc_ctrl := s6\<rparr>)) (nvme_scan_namespaces fuel P (pv_sync e) s5)))"

text \<open>From the first disable to CSTS.RDY.\<close>

definition probe_enable :: "nat \<Rightarrow> platform \<Rightarrow> deadline_test \<Rightarrow> probe_config \<Rightarrow> probe_env \<Rightarrow> probe_ctrl \<Rightarrow> probe_result" where
  "probe_enable fuel P passed C e c =
    (case nvme_disable_ctrl fuel passed (pv_disable e) False (pc_ctrl c) of
       None \<Rightarrow> None
     | Some (Some _, s1) \<Rightarrow> Some (Some ERR_CONTROLLER_ERROR, fail_int (c\<lparr>pc_ctrl := s1\<rparr>))
     | Some (None, s1) \<Rightarrow>
        (case nvme_setup_admin_queue P (pv_cap_hi e) s1 of
           (False, s2) \<Rightarrow> Some (Some ERR_CONTROLLER_ERROR, fail_int (c\<lparr>pc_ctrl := s2\<rparr>))
         | (True, s2) \<Rightarrow>
            (case nvme_enable_ctrl fuel passed (pv_regs0 e) (pv_regs1 e) (pv_enable e) s2 of
               None \<Rightarrow> None
             | Some (Some _, s3) \<Rightarrow> Some (Some ERR_CONTROLLER_ERROR, fail_admin (c\<lparr>pc_ctrl := s3\<rparr>))
             | Some (None, s3) \<Rightarrow> probe_online fuel P passed C e (c\<lparr>pc_ctrl := s3\<rparr>))))"

definition nvme_probe_controller :: "nat \<Rightarrow> platform \<Rightarrow> deadline_test \<Rightarrow> probe_config \<Rightarrow> probe_env \<Rightarrow> probe_ctrl \<Rightarrow> probe_result" where
  "nvme_probe_controller fuel P passed C e c =
    (case hw_init e c of
       (False, c1) \<Rightarrow> Some (Some ERR_CONTROLLER_ERROR, c1)
     | (True, c1) \<Rightarrow>
        if \<not> pv_dmaPool e \<or> \<not> pv_metaPool e
        then Some (Some ERR_ALLOC_ERROR, hw_shutdown (c1\<lparr>pc_dmaPool := False, pc_metaPool := False\<rparr>))
        else
          let c2 = on_ctrl (nvme_init_ctrl (nvme_lookup_quirks (cf_vendors C) (pv_vendor e) (pv_device e)))
                     (c1\<lparr>pc_dmaPool := True, pc_metaPool := True\<rparr>)
          in case (case pv_unit_spawn e of None \<Rightarrow> (False, pc_ctrl c2) | Some t \<Rightarrow> UnitTask_start t (pc_ctrl c2)) of
            (False, s3) \<Rightarrow> Some (Some ERR_SPAWN, fail_pool (c2\<lparr>pc_ctrl := s3\<rparr>))
          | (True, s3) \<Rightarrow>
             (case (case pv_admin_spawn e of None \<Rightarrow> (False, s3) | Some t \<Rightarrow> AdminWorker_start t s3) of
                (False, s4) \<Rightarrow> Some (Some ERR_SPAWN, fail_unit_task (c2\<lparr>pc_ctrl := s4\<rparr>))
              | (True, s4) \<Rightarrow>
                 (case int_enable C e (c2\<lparr>pc_ctrl := s4\<rparr>) of
                    (False, c5) \<Rightarrow> Some (Some ERR_INT, fail_admin_task c5)
                  | (True, c5) \<Rightarrow> probe_enable fuel P passed C e c5)))"

section \<open>What bring-up leaves alone\<close>

text \<open>
  Bring-up changes the memory of the controller, its queues, limits and identity.  A view is a part of the
  state that depends on none of these; every step of the bring-up keeps it.  What depends on the queues only is kept by
  the steps after their creation.
\<close>

locale ident_view =
  fixes v :: "NVMeController \<Rightarrow> 'v"
  assumes mem: "v (s\<lparr>k_dma := d\<rparr>) = v s" "v (s\<lparr>k_mem := m\<rparr>) = v s" "v (s\<lparr>k_meta := l\<rparr>) = v s" "v (s\<lparr>k_trace := t\<rparr>) = v s"
    and caps: "v (s\<lparr>k_caps := c\<rparr>) = v s" "v (s\<lparr>k_cap := cp\<rparr>) = v s" "v (s\<lparr>k_effects := ef\<rparr>) = v s" "v (s\<lparr>k_quirks := x\<rparr>) = v s"
    and limits: "v (s\<lparr>k_crdt := cr\<rparr>) = v s" "v (s\<lparr>k_oncs := h\<rparr>) = v s" "v (s\<lparr>k_mtfa := h\<rparr>) = v s" "v (s\<lparr>k_oaes := x\<rparr>) = v s"
      "v (s\<lparr>k_vwc := b\<rparr>) = v s" "v (s\<lparr>k_max_hw_sectors := x\<rparr>) = v s" "v (s\<lparr>k_max_transfer_bytes := x\<rparr>) = v s"
      "v (s\<lparr>k_max_zeroes_sectors := x\<rparr>) = v s"
    and strings: "v (s\<lparr>k_model := bs\<rparr>) = v s" "v (s\<lparr>k_firmware := bs\<rparr>) = v s" "v (s\<lparr>k_serial := bs\<rparr>) = v s"
    and hmb: "v (s\<lparr>k_hmb_descs := hd'\<rparr>) = v s" "v (s\<lparr>k_hmb_nr_descs := n\<rparr>) = v s" "v (s\<lparr>k_hmb_size := x\<rparr>) = v s"
    and dirty: "v (s\<lparr>k_flags := snd (test_and_clear_flag NVME_CTRL_DIRTY_CAPABILITY (k_flags s))\<rparr>) = v s"
begin

lemmas fields = mem caps limits strings hmb dirty

lemma prims [simp]:
  "v (dma_free a s) = v s" "v (pool_free n s) = v s" "v (emit e s) = v s" "v (set_ctrl_config cc s) = v s"
  by (simp_all add: fields dma_free_def pool_free_def emit_def set_ctrl_config_def)

lemma alloc:
  "dma_alloc P a n s = Some (b, s') \<Longrightarrow> v s' = v s" "dma_zalloc P a n s = Some (b, s') \<Longrightarrow> v s' = v s"
  "pool_zalloc P n s = Some s' \<Longrightarrow> v s' = v s"
  by (auto simp: fields dma_zalloc_def dma_alloc_def pool_zalloc_def split: option.splits if_splits)

lemma enable: "nvme_enable_ctrl fuel passed regs0 regs1 e s = Some (r, s') \<Longrightarrow> v s' = v s"
  by (auto simp: nvme_enable_ctrl_def Let_def caps split: if_splits)

lemma disable: "nvme_disable_ctrl fuel passed e sd s = Some (r, s') \<Longrightarrow> v s' = v s"
  by (auto simp: nvme_disable_ctrl_def Let_def split: if_splits)

lemma ident: "ident_frame s s' \<Longrightarrow> v s' = v s"
  by (auto simp: ident_frame_def mem)

lemma identify_ctrl: "nvme_submit_identify P sync c len s = (r, s') \<Longrightarrow> v s' = v s"
  by (auto simp: nvme_submit_identify_def Let_def dest!: alloc split: option.splits prod.splits if_splits)

lemma effects: "nvme_init_effects P sync lpa s = (r, s') \<Longrightarrow> v s' = v s"
  by (auto simp: nvme_init_effects_def nvme_get_effects_log_def nvme_init_effects_log_def nvme_init_known_nvm_effects_def Let_def caps
      dest!: alloc split: option.splits prod.splits if_splits sync_ret.splits)

lemma limits_of_id [simp]: "v (cache_id_limits d s) = v s"
  by (simp add: cache_id_limits_def nvme_cache_id_strings_def apply_mdts_def nvme_set_limits_def Let_def fields)

lemma init_identify:
  assumes "nvme_init_identify P sync s = (r, s')"
  shows "v s' = v s"
proof -
  obtain a s1 where i: "nvme_identify_ctrl P sync s = (a, s1)" by fastforce
  note v1 = identify_ctrl [OF i [unfolded nvme_identify_ctrl_def]]
  show ?thesis
  proof (cases a)
    case (Inl ret)
    then show ?thesis using assms v1 by (simp add: nvme_init_identify_def i)
  next
    case (Inr bd)
    obtain b d where bd: "bd = (b, d)" by fastforce
    let ?s2 = "s1\<lparr>k_caps := (k_caps s1)\<lparr>c_cntlid := get_le16 d 78\<rparr>, k_quirks := k_quirks s1 OR nvme_match_id_quirks d\<rparr>"
    obtain ret s3 where e: "(if \<not> c_identified (k_caps ?s2) then nvme_init_effects P sync (d 261) ?s2 else (Ret_ok, ?s2)) = (ret, s3)" by fastforce
    have "v s3 = v ?s2" using e effects by (auto split: if_splits)
    then have v3: "v s3 = v s" using v1 by (simp add: caps)
    have "(r, s') = (if ret \<noteq> Ret_ok then (ret, dma_free b s3) else (ret, dma_free b (cache_id_limits d s3)))"
      using assms e unfolding nvme_init_identify_def i Inr bd by (simp only: prod.case sum.case Let_def)
    then show ?thesis using v3 by (auto split: if_splits)
  qed
qed

lemma features: "v (snd (nvme_set_features P answer fid dw s)) = v s"
  by (simp add: nvme_set_features_def Let_def)

lemma timestamp: "v (snd (nvme_configure_timestamp P answer s)) = v s"
  by (simp add: nvme_configure_timestamp_def features)

lemma coalesce: "v (snd (nvme_configure_irq_coalesce P answer time thr s)) = v s"
  by (simp add: nvme_configure_irq_coalesce_def features)

lemma host_options: "v (snd (nvme_configure_host_options P answer s)) = v s"
proof (cases "dma_zalloc P DMA_ALIGN_MIN 512 s")
  case (Some p)
  obtain b s1 where p: "p = (b, s1)" by fastforce
  have "v s1 = v s" using Some p alloc(2) by blast
  then show ?thesis using Some p features by (auto simp: nvme_configure_host_options_def Let_def mem nvme_set_features_def)
qed (simp add: nvme_configure_host_options_def)

lemma init_finish:
  assumes "nvme_init_ctrl_finish P sync vs time thr s = (r, s')"
  shows "v s' = v s"
proof -
  let ?a = "\<lambda>cmd. fst (sync cmd)" and ?c = "k_caps s"
  let ?s1 = "s\<lparr>k_caps := ?c\<lparr>c_vs := vs,
    c_sqsize := (if NVME_CAP_MQES (k_cap s) < ucast (c_sqsize ?c) then ucast (NVME_CAP_MQES (k_cap s)) else c_sqsize ?c)\<rparr>\<rparr>"
  obtain r2 s2 where i: "nvme_init_identify P sync ?s1 = (r2, s2)" by fastforce
  have v2: "v s2 = v s" using init_identify [OF i] by (simp add: caps)
  define s3 where "s3 = (if \<not> nvme_is_io_ctrl s2 then s2\<lparr>k_caps := (k_caps s2)\<lparr>c_queue_count := 1\<rparr>\<rparr> else s2)"
  obtain r4 s4 where t: "nvme_configure_timestamp P ?a s3 = (r4, s4)" by fastforce
  obtain r5 s5 where h: "nvme_configure_host_options P ?a s4 = (r5, s5)" by fastforce
  define s6 where "s6 = snd (nvme_configure_irq_coalesce P ?a time thr s5)"
  have v3: "v s3 = v s" by (simp add: s3_def v2 caps)
  have v4: "v s4 = v s" using timestamp [of P ?a s3] v3 t by simp
  have v5: "v s5 = v s" using host_options [of P ?a s4] v4 h by simp
  have v6: "v s6 = v s" using coalesce [of P ?a time thr s5] v5 by (simp add: s6_def)
  have "(r, s') = (if r2 \<noteq> Ret_ok then (r2, s2) else if ret_negative r4 then (r4, s4) else if ret_negative r5 then (r5, s5)
    else (Ret_ok, s6\<lparr>k_flags := snd (test_and_clear_flag NVME_CTRL_DIRTY_CAPABILITY (k_flags s6)), k_caps := (k_caps s6)\<lparr>c_identified := True\<rparr>\<rparr>))"
    using assms unfolding nvme_init_ctrl_finish_def Let_def i prod.case unfolding s3_def [symmetric] t prod.case h s6_def [symmetric] by (rule sym)
  then show ?thesis using v2 v4 v5 v6 by (auto simp: caps dirty split: if_splits)
qed

lemma chunks_free: "v (hmb_chunks_free P s) = v s"
proof -
  have "v (fold dma_free bs x) = v x" for bs x by (induction bs arbitrary: x) simp_all
  then show ?thesis by (simp add: hmb_chunks_free_def Let_def hmb split: option.split prod.split)
qed

lemma fill: "hmb_fill P m pref cp att descs got s = (ds, g, s') \<Longrightarrow> v s' = v s"
proof (induction P m pref cp att descs got s arbitrary: ds g s' rule: hmb_fill.induct)
  case (1 P m pref cp att descs got s)
  show ?case using 1 hmb_fill.simps [of P m pref cp att descs got s]
    by (auto simp: Let_def dest: alloc split: if_splits option.splits)
qed

lemma alloc_hmb:
  assumes "nvme_alloc_host_mem P minimum preferred s = (ok, s')"
  shows "v s' = v s"
proof -
  have one: "v x' = v x" if "hmb_one_block P m pr x = (ds, g, x')" for m pr x ds g x'
    using that by (auto simp: hmb_one_block_def dest: alloc split: if_splits option.splits)
  let ?m = "c_hmminds (k_caps s)" and ?cap = "hmmaxd_cap (k_caps s) preferred"
  show ?thesis
  proof (cases "dma_zalloc P 4096 (of_nat (?cap * 16)) s")
    case None
    then show ?thesis using assms by (simp add: nvme_alloc_host_mem_def Let_def)
  next
    case (Some p)
    obtain tab s1 where p: "p = (tab, s1)" by fastforce
    note a = Some [unfolded p]
    let ?s2 = "s1\<lparr>k_hmb_descs := Some (tab, replicate ?cap zero_desc), k_hmb_nr_descs := 0, k_hmb_size := 0\<rparr>"
    obtain d0 g0 s3 where o: "hmb_one_block P ?m preferred ?s2 = (d0, g0, s3)" by (metis prod_cases3)
    obtain ds g s4 where f: "hmb_fill P ?m preferred ?cap (if preferred < NVME_HMB_START_CHUNK then preferred else NVME_HMB_START_CHUNK) d0 g0 s3 = (ds, g, s4)"
      by (metis prod_cases3)
    have v4: "v s4 = v s" using fill [OF f] one [OF o] alloc(2) [OF a] by (simp add: hmb)
    show ?thesis using assms v4 unfolding nvme_alloc_host_mem_def Let_def a option.case prod.case o f by (auto simp: chunks_free hmb split: if_splits)
  qed
qed

lemma host_mem: "v (nvme_setup_host_mem P answer s) = v s"
proof -
  have "v s' = v s" if "nvme_alloc_host_mem P mn pr s = (ok, s')" for mn pr ok s' using that by (rule alloc_hmb)
  then show ?thesis
    by (auto simp: nvme_setup_host_mem_def nvme_set_host_mem_def Let_def chunks_free split: prod.split bool.split)
qed

end

locale bring_up_view = ident_view v for v :: "NVMeController \<Rightarrow> 'v" +
  assumes queues: "v (s\<lparr>k_admin_q := q\<rparr>) = v s" "v (s\<lparr>k_io_q := q\<rparr>) = v s" "v (s\<lparr>k_db_stride := x\<rparr>) = v s"
      "v (s\<lparr>k_io_max_inflight := n\<rparr>) = v s" "v (s\<lparr>k_reqs := w\<rparr>) = v s"
      "v (s\<lparr>k_prp_small := h1\<rparr>) = v s" "v (s\<lparr>k_prp_large := h1\<rparr>) = v s"
begin

lemma set_queue [simp]: "v (set_q sel q s) = v s"
  by (cases sel) (simp_all add: queues set_q_def upd_q_def)

lemma teardown [simp]: "v (nvme_teardown_queue sel s) = v s"
  by (simp add: nvme_teardown_queue_def Let_def split: option.split)

lemma ring_setup: "nvme_setup_queue P sel qid depth s = (ok, s') \<Longrightarrow> v s' = v s"
  by (auto simp: nvme_setup_queue_def Let_def dest!: alloc split: option.splits)

lemma setup_admin:
  assumes "nvme_setup_admin_queue P cap_hi s = (ok, s')"
  shows "v s' = v s"
proof -
  obtain b t where q: "nvme_setup_queue P Admin_q 0 NVME_ADMIN_QUEUE_SIZE (s\<lparr>k_db_stride := push_bit (unat (cap_hi AND 0xF)) 4\<rparr>) = (b, t)"
    by fastforce
  then show ?thesis using assms ring_setup [OF q] by (auto simp: nvme_setup_admin_queue_def Let_def queues split: if_splits)
qed

lemma setup_io:
  assumes "nvme_setup_io_queue P sync s = (ok, s')"
  shows "v s' = v s"
proof -
  obtain b t where q: "nvme_setup_queue P Io_q 1 256 (emit (Ev_sync (nvme_build_set_num_queues P)) s) = (b, t)" by fastforce
  have "v (nvme_set_io_max_inflight x) = v x" for x by (simp add: nvme_set_io_max_inflight_def queues)
  then show ?thesis using assms ring_setup [OF q] by (auto simp: nvme_setup_io_queue_def Let_def q split: if_splits bool.splits)
qed

lemma frame:
  assumes "io_frame s s'"
  shows "v s' = v s"
  by (subst assms [unfolded io_frame_def]) (simp only: mem queues)

lemma aer [simp]: "v (nvme_submit_aer P s) = v s"
  by (rule frame) (simp add: nvme_submit_aer_def)

end

text \<open>
  A scan changes in addition the namespaces, the units of the device base, the events and one flag.  What it
  keeps is stated for predicates: a new unit starts closed, other units change their flags and features only.
\<close>

locale scan_inv = ident_view I for I :: "NVMeController \<Rightarrow> bool" +
  assumes ns: "I (s\<lparr>k_namespaces := nss\<rparr>) = I s" "I (s\<lparr>k_events := x\<rparr>) = I s"
    and skip: "I (s\<lparr>k_flags := k_flags s OR push_bit NVME_CTRL_SKIP_ID_CNS_CS 1\<rparr>) = I s"
    and listed: "I (s\<lparr>k_base_units := ul\<rparr>) = I s" "I (s\<lparr>k_nextUnitNumber := x\<rparr>) = I s"
    and unit_new: "u_openCnt U = 0 \<Longrightarrow> I s \<Longrightarrow> I (s\<lparr>k_units := (k_units s)(u := U)\<rparr>)"
    and unit_flags: "I s \<Longrightarrow> I (s\<lparr>k_units := (k_units s)(u := (k_units s u)\<lparr>u_flags := fl\<rparr>)\<rparr>)"
    and unit_features: "I s \<Longrightarrow> I (s\<lparr>k_units := (k_units s)(u := (k_units s u)\<lparr>u_features := fl\<rparr>)\<rparr>)"
begin

lemma remove [intro]: "I s \<Longrightarrow> I (nvme_ns_remove ns s)" "I s \<Longrightarrow> I (nvme_ns_remove_by_nsid nsid s)"
  using unit_flags by (auto simp: nvme_ns_remove_by_nsid_def nvme_ns_remove_def kill_unit_def Let_def ns listed split: option.split)

lemma update_info: "nvme_update_ns_info info ns s = (ns', s') \<Longrightarrow> I s \<Longrightarrow> I s'"
  using unit_features by (auto simp: nvme_update_ns_info_def set_deac_def Let_def split: if_splits option.splits)

lemma alloc_unit:
  assumes "nvme_alloc_nvmeunit P nsid bs sh n fe s = (u, s')" "I s"
  shows "I s'"
proof -
  have "I (s1\<lparr>k_units := (k_units s1)(w := zero_unit\<lparr>u_nsid := a, u_blockSize := b, u_blockShift := c, u_logicalSectors := d, u_features := e,
      u_wz_max_bytes := f, u_changeCount := g, u_unitNumber := h\<rparr>)\<rparr>)" if "I s1" for s1 w a b c d e f g h
    by (rule unit_new [OF _ that]) (simp add: zero_unit_def)
  then show ?thesis using assms by (auto simp: nvme_alloc_nvmeunit_def Let_def listed dest!: alloc split: option.splits)
qed

lemma alloc_ns [intro]: "I s \<Longrightarrow> I (nvme_alloc_ns P info s)"
  by (auto simp: nvme_alloc_ns_def Let_def ns caps dest!: alloc update_info alloc_unit split: option.splits prod.splits)

lemma scan_ns [intro]:
  assumes "dma_pool_ok P" "I s"
  shows "I (nvme_scan_ns P sync nsid s)"
proof -
  obtain ret info s1 where i: "nvme_identify_ns_info P sync (zero_info\<lparr>i_nsid := nsid\<rparr>) s = (ret, info, s1)" by (metis prod_cases3)
  have "I s1" using ns_info_frame [OF assms(1) i] ident assms(2) by blast
  then have "I (if i_is_removed info then nvme_ns_remove_by_nsid nsid s1 else s1)" by auto
  moreover have "I (nvme_validate_ns n info x)" if "I x" for n x
    using that by (auto simp: nvme_validate_ns_def ns dest!: update_info split: prod.split)
  ultimately show ?thesis by (auto simp: nvme_scan_ns_def i Let_def split: option.split)
qed

lemma remove_invalid [intro]: "I s \<Longrightarrow> I (nvme_remove_invalid_namespaces nsid s)"
proof -
  have "I x \<Longrightarrow> I (fold (\<lambda>ns s. if nsid < ns_id ns then nvme_ns_remove ns s else s) nss x)" for nss x
    by (induction nss arbitrary: x) auto
  then show "I s \<Longrightarrow> I (nvme_remove_invalid_namespaces nsid s)" by (simp add: nvme_remove_invalid_namespaces_def)
qed

lemma gap: "remove_gap nsid prev s = (prev', s') \<Longrightarrow> I s \<Longrightarrow> I s'"
proof (induction nsid prev s arbitrary: prev' s' rule: remove_gap.induct)
  case (1 nsid prev s)
  then show ?case using remove_gap.simps [of nsid prev s] by (auto split: if_splits)
qed

lemma page:
  assumes "dma_pool_ok P"
  shows "scan_page P sync ids prev s = (ended, prev', s') \<Longrightarrow> I s \<Longrightarrow> I s'"
  by (induction ids arbitrary: prev s) (auto dest!: gap intro: scan_ns [OF assms] split: if_splits prod.splits)

lemma list_loop:
  assumes "dma_pool_ok P"
  shows "scan_list_loop fuel P sync prev s = Some (ret, s') \<Longrightarrow> I s \<Longrightarrow> I s'"
  by (induction fuel arbitrary: prev s) (auto simp: Let_def dest!: page [OF assms] split: if_splits prod.splits)

lemma scan_list:
  assumes "dma_pool_ok P" "nvme_scan_ns_list fuel P sync s = Some (ret, s')" "I s"
  shows "I s'"
  using assms(2,3) by (auto simp: nvme_scan_ns_list_def dest!: alloc list_loop [OF assms(1)] split: option.splits)

lemma sequential:
  assumes "dma_pool_ok P" "nvme_scan_ns_sequential P sync s = Some s'" "I s"
  shows "I s'"
proof -
  have "I x \<Longrightarrow> I (fold (\<lambda>i. nvme_scan_ns P sync (of_nat i)) is x)" for "is" x
    by (induction "is" arbitrary: x) (auto intro: scan_ns [OF assms(1)])
  then show ?thesis using assms(2,3)
    by (auto simp: scan_sequential_eq nvme_identify_ctrl_def Let_def simp del: upt_Suc dest!: identify_ctrl split: sum.splits prod.splits if_splits)
qed

lemma non_mdts: "nvme_init_non_mdts_limits P sync s = (ret, s') \<Longrightarrow> I s' = I s"
  by (auto simp: nvme_init_non_mdts_limits_def nvme_identify_ctrl_nvm_def Let_def limits caps skip [simplified]
      dest!: identify_ctrl split: sum.splits prod.splits if_splits sync_ret.splits)

lemma changed_log [simp]: "I (nvme_clear_changed_ns_log P sync s) = I s"
  by (auto simp: nvme_clear_changed_ns_log_def dest!: alloc split: option.splits)

lemma scan:
  assumes ok: "dma_pool_ok P" and a: "nvme_scan_namespaces fuel P sync s = Some s'" and I: "I s"
  shows "I s'"
proof (cases "k_state s = NVME_CTRL_LIVE")
  case True
  obtain ret s1 where m: "nvme_init_non_mdts_limits P sync s = (ret, s1)" by fastforce
  have v1: "I s1" using non_mdts [OF m] I by simp
  define s3 where "s3 = (let (changed, ev) = test_and_clear_flag NVME_AER_NOTICE_NS_CHANGED (k_events s1)
    in if changed then nvme_clear_changed_ns_log P sync (s1\<lparr>k_events := ev\<rparr>) else s1\<lparr>k_events := ev\<rparr>)"
  have v3: "I s3" by (simp add: s3_def v1 test_and_clear_flag_def ns)
  define scanned where "scanned = (if \<not> nvme_id_cns_ok s3 NVME_ID_CNS_NS_ACTIVE_LIST then nvme_scan_ns_sequential P sync s3
     else Option.bind (nvme_scan_ns_list fuel P sync s3) (\<lambda>(ret, s4). case ret of
        Ret_status st \<Rightarrow> if st AND NVME_STATUS_DNR \<noteq> 0 then nvme_scan_ns_sequential P sync s4 else Some s4 | _ \<Rightarrow> Some s4))"
  have sc: "I s5" if "scanned = Some s5" for s5
  proof (cases "nvme_scan_ns_list fuel P sync s3")
    case None
    then show ?thesis using that v3 sequential [OF ok] by (auto simp: scanned_def split: if_splits)
  next
    case (Some p)
    obtain r s4 where p: "p = (r, s4)" by fastforce
    have "I s4" by (rule scan_list [OF ok Some [unfolded p] v3])
    then show ?thesis using that Some p v3 sequential [OF ok] by (cases r) (auto simp: scanned_def split: if_splits)
  qed
  have q: "I (nvme_queue_scan x) = I x" for x by (simp add: nvme_queue_scan_def)
  have "(ret \<noteq> Ret_ok \<and> (\<exists>e. ret = Ret_errno e) \<and> s' = s1) \<or> (\<exists>s5. scanned = Some s5 \<and> (s' = s5 \<or> s' = nvme_queue_scan s5))"
    using a True by (cases ret) (auto simp: nvme_scan_namespaces_def m Let_def s3_def scanned_def test_and_clear_flag_def split: if_splits)
  then show ?thesis using v1 sc q by auto
qed (use a I in \<open>simp add: nvme_scan_namespaces_def\<close>)

end

text \<open>The units of the device base and the tasks; the part of the state that opens the I/O path.\<close>

definition held :: "NVMeController \<Rightarrow> (nat \<Rightarrow> NVMeUnit) \<times> nat list \<times> u32 \<times> bool \<times> bool" where
  "held s = (k_units s, k_base_units s, k_nextUnitNumber s, k_unit_task s, k_admin_task s)"

definition ctl :: "NVMeController \<Rightarrow> nvme_ctrl_state \<times> bool \<times> bool \<times> bool" where
  "ctl s = (k_state s, bit (k_flags s) NVME_CTRL_STOPPED, k_unit_task s, k_admin_task s)"

interpretation held_v: bring_up_view held
  by unfold_locales (simp_all add: held_def)

interpretation ctl_v: bring_up_view ctl
  by unfold_locales (simp_all add: ctl_def test_and_clear_flag_def bit_simps)

interpretation ctl_scan: scan_inv "\<lambda>s. ctl s = x" for x
  by unfold_locales (simp_all add: ctl_def test_and_clear_flag_def bit_simps)

text \<open>Every unit is closed.\<close>

definition all_closed :: "NVMeController \<Rightarrow> bool" where
  "all_closed s \<longleftrightarrow> (\<forall>u. u_openCnt (k_units s u) = 0)"

interpretation closed_scan: scan_inv all_closed
  by unfold_locales (auto simp: all_closed_def)

interpretation closed_v: bring_up_view all_closed
  by unfold_locales (auto simp: all_closed_def)

section \<open>The queue pairs\<close>

text \<open>What makes a queue the one the controller was told of: number, depth and the two rings.\<close>

definition ring :: "nvme_queue \<Rightarrow> u16 \<times> nat \<times> u32 option \<times> u32 option" where
  "ring q = (q_qid q, q_depth q, q_sq_base q, q_cq_base q)"

definition rings :: "NVMeController \<Rightarrow> (u16 \<times> nat \<times> u32 option \<times> u32 option) \<times> u16 \<times> nat \<times> u32 option \<times> u32 option" where
  "rings s = (ring (k_admin_q s), ring (k_io_q s))"

interpretation rings_scan: scan_inv "\<lambda>s. rings s = x" for x
  by unfold_locales (simp_all add: rings_def)

interpretation rings_v: ident_view rings
  by unfold_locales (simp_all add: rings_def)

lemma ring_ops:
  "ring (nvme_inflight_release q cid) = ring q" "ring (nvme_inflight_claim q cid r) = ring q"
  "nvme_alloc_cid q = (cid, q') \<Longrightarrow> ring q' = ring q" "sq_push cmd q = Some q' \<Longrightarrow> ring q' = ring q"
  by (auto simp: ring_def nvme_inflight_release_def nvme_inflight_claim_def nvme_alloc_cid_def sq_push_def Let_def split: if_splits)

lemma rings_prims [simp]:
  "rings (emit e s) = rings s" "rings (upd_req r f s) = rings s" "rings (free_req r s) = rings s"
  "rings (s\<lparr>k_reqs := w\<rparr>) = rings s" "rings (s\<lparr>k_state := st\<rparr>) = rings s" "rings (s\<lparr>k_flags := fl\<rparr>) = rings s"
  by (simp_all add: rings_def emit_def upd_req_def free_req_def)

lemma rings_set_q: "ring q = ring (get_q s sel) \<Longrightarrow> rings (set_q sel q s) = rings s"
  by (cases sel) (simp_all add: rings_def set_q_def upd_q_def get_q_def)

lemma rings_commit [simp]: "rings (nvme_sq_commit sel s) = rings s"
  by (cases sel) (simp_all add: rings_def nvme_sq_commit_def upd_q_def Let_def emit_def ring_def get_q_def)

lemma rings_destroy [simp]: "rings (nvme_req_destroy r s) = rings s"
proof -
  have "rings (upd_q sel (\<lambda>q. nvme_inflight_release q c) s) = rings s" for sel c s
    by (cases sel) (simp_all add: rings_def upd_q_def ring_ops)
  moreover have "rings (fold dma_free l s) = rings s" for l s by (induction l arbitrary: s) simp_all
  then have "rings (free_prp_pages q s) = rings s" for q s
    by (auto simp: free_prp_pages_def Let_def) (simp add: rings_def set_prp_slab_def)
  ultimately show ?thesis
    by (simp add: nvme_req_destroy_def nvme_req_free_dma_buffers_def Let_def split: option.split)
qed

lemma rings_submit: "rings (snd (nvme_submit_io r s)) = rings s"
  by (auto simp: nvme_submit_io_def Let_def split: option.split intro!: trans [OF rings_set_q])
    (auto dest: ring_ops(4) simp: get_q_def emit_def split: queue_sel.split)

lemma rings_alloc:
  assumes "nvme_req_alloc_admin P s = (x, s')"
  shows "rings s' = rings s"
proof -
  have "rings y = rings s" if "req_alloc P Admin_q id s = (z, y)" for z y
    using that by (auto simp: req_alloc_def Let_def ring_ops(2) get_q_def dest!: ring_ops(3)
        intro!: trans [OF rings_set_q] split: option.splits prod.splits if_splits)
  then show ?thesis using assms by (auto simp: nvme_req_alloc_admin_def split: prod.splits sum.splits alloc_failure.splits)
qed

lemma rings_aer [simp]: "rings (nvme_submit_aer P s) = rings s"
proof -
  obtain x s1 where a: "nvme_req_alloc_admin P s = (x, s1)" by fastforce
  show ?thesis
  proof (cases x)
    case (Inl e)
    then show ?thesis using rings_alloc [OF a] by (simp add: nvme_submit_aer_def nvme_submit_async_cmd_def a)
  next
    case (Inr r)
    have st: "rings (nvme_stage_admin_prps P r b n y) = rings y" for b n y by (simp add: nvme_stage_admin_prps_def Let_def)
    show ?thesis
      using rings_alloc [OF a] Inr rings_submit
      by (simp add: nvme_submit_aer_def nvme_submit_async_cmd_def a Let_def split_beta st)
  qed
qed

lemma rings_start [simp]: "rings (nvme_start_ctrl_probe P s) = rings s"
proof -
  have "rings (nvme_unquiesce_io_queues x) = rings x" for x
    by (simp add: nvme_unquiesce_io_queues_def gate_open_def test_and_clear_flag_def Let_def)
  then show ?thesis by (simp add: nvme_start_ctrl_probe_def Let_def)
qed

lemma queue_made:
  assumes "nvme_setup_queue P sel qid depth s = (True, s')"
  shows "\<exists>sq cq. ring (get_q s' sel) = (qid, depth, Some sq, Some cq)" "sel = Io_q \<Longrightarrow> k_admin_q s' = k_admin_q s"
proof -
  have k: "k_admin_q y = k_admin_q x" if "dma_zalloc P a n x = Some (b, y)" for a n x b y
    using that by (auto simp: dma_zalloc_def dma_alloc_def split: option.splits)
  have l: "k_admin_q y = k_admin_q x" if "pool_zalloc P n x = Some y" for n x y
    using that by (auto simp: pool_zalloc_def split: if_splits)
  show "\<exists>sq cq. ring (get_q s' sel) = (qid, depth, Some sq, Some cq)"
    using assms by (cases sel) (auto simp: nvme_setup_queue_def Let_def queue_header_def ring_def get_q_def set_q_def upd_q_def
      split: option.splits)
  show "sel = Io_q \<Longrightarrow> k_admin_q s' = k_admin_q s"
    using assms by (auto simp: nvme_setup_queue_def Let_def set_q_def upd_q_def emit_def dest!: k l split: option.splits)
qed

text \<open>
  Both queue pairs exist and the controller accepted the creation of the I/O queue pair the driver holds.  The priority of the
  submission queue comes from the quirks known at that time.
\<close>

definition queues_up :: "platform \<Rightarrow> (nvme_command \<Rightarrow> sync_ret) \<Rightarrow> NVMeController \<Rightarrow> bool" where
  "queues_up P answer s \<longleftrightarrow> (\<exists>sq cq. ring (k_admin_q s) = (0, NVME_ADMIN_QUEUE_SIZE, Some sq, Some cq)) \<and>
     (\<exists>sq cq. ring (k_io_q s) = (1, 256, Some sq, Some cq)) \<and>
     answer (nvme_build_create_cq P s) = Ret_ok \<and> (\<exists>quirks. answer (nvme_build_create_sq P (s\<lparr>k_quirks := quirks\<rparr>)) = Ret_ok)"

lemma create_of_rings:
  assumes "rings s' = rings s"
  shows "nvme_build_create_cq P s' = nvme_build_create_cq P s"
    "nvme_build_create_sq P (s'\<lparr>k_quirks := qk\<rparr>) = nvme_build_create_sq P (s\<lparr>k_quirks := qk\<rparr>)"
  using assms by (simp_all add: rings_def ring_def nvme_build_create_cq_def nvme_build_create_sq_def)

lemma queues_up_same: "queues_up P answer s \<Longrightarrow> rings s' = rings s \<Longrightarrow> queues_up P answer s'"
  unfolding queues_up_def using create_of_rings [of s' s P] by (simp add: rings_def)

lemma admin_queue_made:
  assumes "nvme_setup_admin_queue P cap_hi s = (True, s')"
  shows "\<exists>sq cq. ring (k_admin_q s') = (0, NVME_ADMIN_QUEUE_SIZE, Some sq, Some cq)"
proof -
  obtain ok t where q: "nvme_setup_queue P Admin_q 0 NVME_ADMIN_QUEUE_SIZE (s\<lparr>k_db_stride := push_bit (unat (cap_hi AND 0xF)) 4\<rparr>) = (ok, t)"
    by fastforce
  then have "ok" "k_admin_q s' = k_admin_q t" using assms by (auto simp: nvme_setup_admin_queue_def Let_def emit_def split: if_splits)
  then show ?thesis using queue_made(1) [of P Admin_q] q by (simp add: get_q_def)
qed

lemma io_queue_made:
  assumes "nvme_setup_io_queue P answer s = (True, s')" "\<exists>sq cq. ring (k_admin_q s) = (0, NVME_ADMIN_QUEUE_SIZE, Some sq, Some cq)"
  shows "queues_up P answer s'"
proof -
  let ?s1 = "emit (Ev_sync (nvme_build_set_num_queues P)) s"
  obtain ok t where q: "nvme_setup_queue P Io_q 1 256 ?s1 = (ok, t)" by fastforce
  let ?s3 = "emit (Ev_sync (nvme_build_create_cq P t)) t"
  have ok: ok and a: "answer (nvme_build_create_cq P t) = Ret_ok" "answer (nvme_build_create_sq P ?s3) = Ret_ok"
    and s': "s' = nvme_set_io_max_inflight (emit (Ev_sync (nvme_build_create_sq P ?s3)) ?s3)"
    using assms(1) by (auto simp: nvme_setup_io_queue_def Let_def q split: if_splits bool.splits)
  have r: "rings s' = rings t" by (simp add: s' nvme_set_io_max_inflight_def rings_def emit_def)
  have "k_admin_q t = k_admin_q s" using queue_made(2) [of P Io_q] q ok by (simp add: emit_def)
  moreover have "nvme_build_create_sq P (t\<lparr>k_quirks := k_quirks t\<rparr>) = nvme_build_create_sq P ?s3"
    by (simp add: nvme_build_create_sq_def emit_def)
  then have "\<exists>qk. answer (nvme_build_create_sq P (t\<lparr>k_quirks := qk\<rparr>)) = Ret_ok" using a(2) by metis
  ultimately have "queues_up P answer t"
    using a(1) queue_made(1) [of P Io_q] q ok assms(2) by (simp add: queues_up_def get_q_def)
  then show ?thesis using queues_up_same r by blast
qed

section \<open>A probe attaches everything or nothing\<close>

definition unit_base :: "NVMeController \<Rightarrow> (nat \<Rightarrow> NVMeUnit) \<times> nat list \<times> u32" where
  "unit_base s = (k_units s, k_base_units s, k_nextUnitNumber s)"

text \<open>The enable bit of the value last written to CC.\<close>

definition cc_enabled :: "NVMeController \<Rightarrow> bool" where
  "cc_enabled s \<longleftrightarrow> bit (c_ctrl_config (k_caps s)) 0"

text \<open>Nothing is held for a controller; everything is.\<close>

definition released :: "probe_ctrl \<Rightarrow> bool" where
  "released c \<longleftrightarrow> \<not> pc_owned c \<and> \<not> pc_bar0 c \<and> \<not> pc_dmaPool c \<and> \<not> pc_metaPool c \<and> \<not> pc_isr c \<and>
     \<not> k_unit_task (pc_ctrl c) \<and> \<not> k_admin_task (pc_ctrl c) \<and> k_dma (pc_ctrl c) = Map.empty \<and> k_meta (pc_ctrl c) = []"

definition attached :: "probe_ctrl \<Rightarrow> bool" where
  "attached c \<longleftrightarrow> pc_owned c \<and> pc_bar0 c \<and> pc_dmaPool c \<and> pc_metaPool c \<and> pc_isr c \<and>
     k_unit_task (pc_ctrl c) \<and> k_admin_task (pc_ctrl c)"

lemma held_base: "held s' = held s \<Longrightarrow> unit_base s' = unit_base s"
  by (simp add: held_def unit_base_def)

lemma exit_frame: "unit_base (UnitTask_exit s) = unit_base s" "cc_enabled (UnitTask_exit s) = cc_enabled s"
    "\<not> k_unit_task (UnitTask_exit s)" "k_admin_task (UnitTask_exit s) = k_admin_task s"
proof -
  let ?g = "\<lambda>s. (k_units s, k_base_units s, k_nextUnitNumber s, k_caps s, k_admin_task s)"
  have p: "?g (exit_pending ios s) = ?g s" for ios s
    by (induction ios s rule: exit_pending.induct) (simp_all add: reply_io_def emit_def upd_io_def)
  have t: "?g (exit_stalled cs s) = ?g s" for cs s
    by (induction cs s rule: exit_stalled.induct)
      (simp_all add: nvme_io_context_finish_def Let_def emit_def upd_io_def free_ctx_def upd_ctx_def split: option.split)
  show "unit_base (UnitTask_exit s) = unit_base s" "cc_enabled (UnitTask_exit s) = cc_enabled s"
    "\<not> k_unit_task (UnitTask_exit s)" "k_admin_task (UnitTask_exit s) = k_admin_task s"
    using p [of "k_io_pending s" s] t [of "k_ctx_stalled (exit_pending (k_io_pending s) s)" "exit_pending (k_io_pending s) s"]
    by (simp_all add: UnitTask_exit_def Let_def unit_base_def cc_enabled_def)
qed

text \<open>Each label of the ladder releases the rest.\<close>

definition undone :: "probe_ctrl \<Rightarrow> probe_ctrl \<Rightarrow> bool" where
  "undone c c' \<longleftrightarrow> released c' \<and> unit_base (pc_ctrl c') = unit_base (pc_ctrl c) \<and> cc_enabled (pc_ctrl c') = cc_enabled (pc_ctrl c)"

lemma fail_pool_undone:
  assumes "\<not> pc_isr c" "\<not> k_unit_task (pc_ctrl c)" "\<not> k_admin_task (pc_ctrl c)"
  shows "undone c (fail_pool c)"
  using assms by (simp add: undone_def released_def fail_pool_def hw_shutdown_def delete_pools_def unit_base_def cc_enabled_def)

lemma undone_trans:
  assumes "undone c1 c2" "unit_base (pc_ctrl c1) = unit_base (pc_ctrl c)" "cc_enabled (pc_ctrl c1) = cc_enabled (pc_ctrl c)"
  shows "undone c c2"
  using assms by (simp add: undone_def)

lemma fail_unit_undone:
  assumes "\<not> pc_isr c" "\<not> k_admin_task (pc_ctrl c)"
  shows "undone c (fail_unit_task c)"
proof -
  let ?c = "on_ctrl join_unit_task c"
  have j: "unit_base (pc_ctrl ?c) = unit_base (pc_ctrl c)" "cc_enabled (pc_ctrl ?c) = cc_enabled (pc_ctrl c)"
    "\<not> k_unit_task (pc_ctrl ?c)" "\<not> k_admin_task (pc_ctrl ?c)" "\<not> pc_isr ?c"
    using assms exit_frame by (simp_all add: on_ctrl_def join_unit_task_def)
  show ?thesis unfolding fail_unit_task_def by (rule undone_trans [OF fail_pool_undone [OF j(5,3,4)] j(1,2)])
qed

lemma fail_admin_task_undone:
  assumes "\<not> pc_isr c"
  shows "undone c (fail_admin_task c)"
proof -
  let ?c = "on_ctrl join_admin_task c"
  have j: "unit_base (pc_ctrl ?c) = unit_base (pc_ctrl c)" "cc_enabled (pc_ctrl ?c) = cc_enabled (pc_ctrl c)"
    "\<not> k_admin_task (pc_ctrl ?c)" "\<not> pc_isr ?c"
    using assms by (auto simp: on_ctrl_def join_admin_task_def AdminWorker_exit_def unit_base_def cc_enabled_def)
  show ?thesis unfolding fail_admin_task_def by (rule undone_trans [OF fail_unit_undone [OF j(4,3)] j(1,2)])
qed

lemma fail_int_undone:
  assumes "pc_bar0 c"
  shows "undone c (fail_int c)"
proof -
  have j: "unit_base (pc_ctrl (int_shutdown c)) = unit_base (pc_ctrl c)" "cc_enabled (pc_ctrl (int_shutdown c)) = cc_enabled (pc_ctrl c)"
    "\<not> pc_isr (int_shutdown c)"
    using assms by (simp_all add: int_shutdown_def nvme_int_shutdown_def unit_base_def cc_enabled_def emit_def)
  show ?thesis unfolding fail_int_def by (rule undone_trans [OF fail_admin_task_undone [OF j(3)] j(1,2)])
qed

lemma fail_admin_undone:
  assumes "pc_bar0 c"
  shows "undone c (fail_admin c)"
proof -
  let ?c = "on_ctrl (nvme_teardown_queue Admin_q) c"
  have "k_caps (nvme_teardown_queue Admin_q s) = k_caps s" for s
    by (simp add: nvme_teardown_queue_def Let_def set_q_def upd_q_def dma_free_def pool_free_def split: option.split)
  then have j: "unit_base (pc_ctrl ?c) = unit_base (pc_ctrl c)" "cc_enabled (pc_ctrl ?c) = cc_enabled (pc_ctrl c)" "pc_bar0 ?c"
    using assms held_base [OF held_v.teardown] by (simp_all add: on_ctrl_def cc_enabled_def)
  show ?thesis unfolding fail_admin_def by (rule undone_trans [OF fail_int_undone [OF j(3)] j(1,2)])
qed

lemma disable_disables: "nvme_disable_ctrl fuel passed e False s = Some (r, s') \<Longrightarrow> \<not> cc_enabled s'"
  by (auto simp: nvme_disable_ctrl_def Let_def cc_enabled_def set_ctrl_config_def emit_def bit_simps)

lemma fail_enable_undone:
  assumes "pc_bar0 c" "fail_enable fuel passed e c = Some c'"
  shows "released c' \<and> unit_base (pc_ctrl c') = unit_base (pc_ctrl c) \<and> \<not> cc_enabled (pc_ctrl c')"
proof -
  obtain r s where d: "nvme_disable_ctrl fuel passed (pv_undo e) False (pc_ctrl c) = Some (r, s)"
    and c': "c' = fail_admin (c\<lparr>pc_ctrl := s\<rparr>)" using assms(2) by (auto simp: fail_enable_def)
  show ?thesis
    using fail_admin_undone [of "c\<lparr>pc_ctrl := s\<rparr>"] assms(1) held_base [OF held_v.disable [OF d]] disable_disables [OF d]
    by (simp add: undone_def c')
qed

text \<open>What the result of a probe promises, given what was attached before.\<close>

definition probe_outcome :: "bool \<Rightarrow> (NVMeController \<Rightarrow> bool) \<Rightarrow> probe_ctrl \<Rightarrow> probe_err option \<Rightarrow> probe_ctrl \<Rightarrow> bool" where
  "probe_outcome may_run up c err c' \<longleftrightarrow> (case err of
     Some _ \<Rightarrow> released c' \<and> unit_base (pc_ctrl c') = unit_base (pc_ctrl c) \<and> (cc_enabled (pc_ctrl c') \<longrightarrow> may_run)
   | None \<Rightarrow> attached c' \<and> up (pc_ctrl c') \<and> k_state (pc_ctrl c') = NVME_CTRL_LIVE \<and>
       \<not> bit (k_flags (pc_ctrl c')) NVME_CTRL_STOPPED \<and> (all_closed (pc_ctrl c) \<longrightarrow> all_closed (pc_ctrl c')))"

lemma probe_outcome_base:
  assumes "probe_outcome may_run up c1 err c'" "unit_base (pc_ctrl c1) = unit_base (pc_ctrl c)"
  shows "probe_outcome may_run up c err c'"
  using assms by (simp add: probe_outcome_def unit_base_def all_closed_def split: option.splits)

lemma start_probe_closed: "all_closed (nvme_start_ctrl_probe P s) = all_closed s"
proof -
  have "all_closed (nvme_unquiesce_io_queues x) = all_closed x" for x
    by (simp add: nvme_unquiesce_io_queues_def gate_open_def test_and_clear_flag_def Let_def all_closed_def emit_def)
  then show ?thesis by (simp add: nvme_start_ctrl_probe_def Let_def)
qed

lemma start_probe_ctl:
  assumes "ctl s = (st, b, True, True)"
  shows "ctl (nvme_start_ctrl_probe P s) = (st, False, True, True)"
proof -
  define s1 where "s1 = nvme_submit_aer P (if NVME_AEN_SUPPORTED AND k_oaes s = 0 then s
    else emit (Ev_sync (set_features_cmd P 0xb (NVME_AEN_SUPPORTED AND k_oaes s))) s)"
  have "ctl s1 = ctl s" by (simp add: s1_def)
  then show ?thesis
    using assms by (simp add: nvme_start_ctrl_probe_def Let_def s1_def [symmetric] nvme_unquiesce_io_queues_def gate_open_def
      test_and_clear_flag_def ctl_def emit_def bit_simps)
qed

lemma probe_online_outcome:
  assumes P: "dma_pool_ok P" and at: "attached c" "k_state (pc_ctrl c) = NVME_CTRL_NEW"
    and adm: "\<exists>sq cq. ring (k_admin_q (pc_ctrl c)) = (0, NVME_ADMIN_QUEUE_SIZE, Some sq, Some cq)"
    and r: "probe_online fuel P passed C e c = Some (err, c')"
  shows "probe_outcome may_run (queues_up P (\<lambda>cmd. fst (pv_sync e cmd))) c err c'"
proof -
  let ?a = "\<lambda>cmd. fst (pv_sync e cmd)"
  have bar0: "pc_bar0 c" using at(1) by (simp add: attached_def)
  have undo: "probe_outcome may_run (queues_up P (\<lambda>cmd. fst (pv_sync e cmd))) c err c'"
    if "map_option (\<lambda>c'. (Some ERR_CONTROLLER_ERROR, c')) (fail_enable fuel passed e (c\<lparr>pc_ctrl := s\<rparr>)) = Some (err, c')"
      "unit_base s = unit_base (pc_ctrl c)" for s
    using that fail_enable_undone [of "c\<lparr>pc_ctrl := s\<rparr>"] bar0 by (auto simp: probe_outcome_def)
  obtain ok s1 where q: "nvme_setup_io_queue P ?a (pc_ctrl c) = (ok, s1)" by fastforce
  note h1 = held_v.setup_io [OF q] and k1 = ctl_v.setup_io [OF q]
  show ?thesis
  proof (cases ok)
    case False
    then show ?thesis using undo [of s1] held_base [OF h1] r by (simp add: probe_online_def q Let_def)
  next
    case True
    define s2 where "s2 = snd (nvme_change_ctrl_state NVME_CTRL_CONNECTING s1)"
    have "k_state s1 = NVME_CTRL_NEW" using k1 at(2) by (simp add: ctl_def)
    then have s2: "s2 = s1\<lparr>k_state := NVME_CTRL_CONNECTING\<rparr>" by (simp add: s2_def nvme_change_ctrl_state_def ctrl_can_change_def)
    obtain ret s3 where f: "nvme_init_ctrl_finish P (pv_sync e) (pv_vs e) (cf_coalesce_time C) (cf_coalesce_thr C) s2 = (ret, s3)" by fastforce
    have "held s2 = held s1" by (simp add: s2 held_def)
    then have h3: "held s3 = held (pc_ctrl c)" using held_v.init_finish [OF f] h1 by simp
    show ?thesis
    proof (cases "ret = Ret_ok")
      case False
      then show ?thesis using undo [of s3] held_base [OF h3] r True by (simp add: probe_online_def q Let_def s2_def [symmetric] f)
    next
      case ok: True
      define s4 where "s4 = nvme_setup_host_mem P ?a s3"
      have "ctl s4 = ctl s2" using ctl_v.init_finish [OF f] ctl_v.host_mem [of P ?a s3] by (simp add: s4_def)
      moreover have "k_unit_task s2" "k_admin_task s2" using k1 at(1) by (simp_all add: s2 ctl_def attached_def)
      ultimately obtain b where "ctl s4 = (NVME_CTRL_CONNECTING, b, True, True)" by (simp add: s2 ctl_def)
      then have "ctl (snd (nvme_change_ctrl_state NVME_CTRL_LIVE s4)) = (NVME_CTRL_LIVE, b, True, True)"
        by (simp add: ctl_def nvme_change_ctrl_state_def ctrl_can_change_def)
      then have l: "ctl (nvme_start_ctrl_probe P (snd (nvme_change_ctrl_state NVME_CTRL_LIVE s4))) = (NVME_CTRL_LIVE, False, True, True)"
        by (rule start_probe_ctl)
      obtain s6 where s6: "nvme_scan_namespaces fuel P (pv_sync e) (nvme_start_ctrl_probe P (snd (nvme_change_ctrl_state NVME_CTRL_LIVE s4))) = Some s6"
        and res: "err = None" "c' = c\<lparr>pc_ctrl := s6\<rparr>"
        using r True ok by (auto simp: probe_online_def q Let_def s2_def [symmetric] f s4_def)
      have "all_closed s2 = all_closed s1" by (simp add: s2 all_closed_def)
      then have "all_closed s4 = all_closed (pc_ctrl c)"
        using closed_v.setup_io [OF q] closed_scan.init_finish [OF f] closed_scan.host_mem [of P ?a s3] by (simp add: s4_def)
      moreover have "all_closed (snd (nvme_change_ctrl_state NVME_CTRL_LIVE s4)) = all_closed s4"
        by (simp add: nvme_change_ctrl_state_def all_closed_def)
      ultimately have "all_closed (pc_ctrl c) \<Longrightarrow> all_closed s6"
        using closed_scan.scan [OF P s6] by (simp add: start_probe_closed)
      moreover have "ctl s6 = (NVME_CTRL_LIVE, False, True, True)" by (rule ctl_scan.scan [OF P s6 l])
      moreover have "rings s4 = rings s1" using rings_v.init_finish [OF f] rings_v.host_mem [of P ?a s3] by (simp add: s4_def s2)
      then have "rings (nvme_start_ctrl_probe P (snd (nvme_change_ctrl_state NVME_CTRL_LIVE s4))) = rings s1"
        by (simp add: nvme_change_ctrl_state_def)
      then have "rings s6 = rings s1" by (rule rings_scan.scan [OF P s6])
      then have "queues_up P ?a s6" using io_queue_made [OF q [unfolded eqTrueI [OF True]] adm] queues_up_same by blast
      ultimately show ?thesis using at(1) by (simp add: probe_outcome_def res attached_def ctl_def)
    qed
  qed
qed

text \<open>The controller supports 4 KiB pages, was told to start and did not report ready in time.\<close>

definition start_timed_out :: "nat \<Rightarrow> deadline_test \<Rightarrow> probe_env \<Rightarrow> bool" where
  "start_timed_out fuel passed e \<longleftrightarrow> \<not> 12 < NVME_CAP_MPSMIN (nvme_reg_read64 (pv_regs0 e) NVME_REG_CAP) + 12 \<and>
     (\<exists>x. nvme_wait_ready fuel passed (pv_enable e) NVME_CSTS_RDY NVME_CSTS_RDY
        ((ready_timeout (pv_regs1 e) (nvme_reg_read64 (pv_regs1 e) NVME_REG_CAP) + 1) div 2) = Some (Some x))"

lemma setup_admin_caps:
  assumes "nvme_setup_admin_queue P cap_hi s = (ok, s')"
  shows "k_caps s' = k_caps s"
proof -
  have "k_caps y = k_caps z" if "dma_zalloc P a n z = Some (b, y)" for a n z b y
    using that by (auto simp: dma_zalloc_def dma_alloc_def split: option.splits)
  moreover have "k_caps y = k_caps z" if "pool_zalloc P n z = Some y" for n z y
    using that by (auto simp: pool_zalloc_def split: if_splits)
  ultimately show ?thesis
    using assms by (auto simp: nvme_setup_admin_queue_def nvme_setup_queue_def Let_def set_q_def upd_q_def dma_free_def pool_free_def emit_def
      split: option.splits if_splits prod.splits)
qed

lemma enable_failure:
  assumes "nvme_enable_ctrl fuel passed (pv_regs0 e) (pv_regs1 e) (pv_enable e) s = Some (Some x, s')" "\<not> cc_enabled s" "cc_enabled s'"
  shows "start_timed_out fuel passed e"
  using assms by (auto simp: nvme_enable_ctrl_def start_timed_out_def Let_def cc_enabled_def split: if_splits)

lemma probe_enable_outcome:
  assumes P: "dma_pool_ok P" and at: "attached c" "k_state (pc_ctrl c) = NVME_CTRL_NEW"
    and r: "probe_enable fuel P passed C e c = Some (err, c')"
  shows "probe_outcome (start_timed_out fuel passed e) (queues_up P (\<lambda>cmd. fst (pv_sync e cmd))) c err c'"
    (is "probe_outcome ?may ?up c err c'")
proof -
  have bar0: "pc_bar0 c" using at(1) by (simp add: attached_def)
  obtain x s1 where d: "nvme_disable_ctrl fuel passed (pv_disable e) False (pc_ctrl c) = Some (x, s1)"
    using r by (auto simp: probe_enable_def split: option.splits)
  note h1 = held_v.disable [OF d] and n1 = disable_disables [OF d]
  obtain ok s2 where q: "nvme_setup_admin_queue P (pv_cap_hi e) s1 = (ok, s2)" by fastforce
  have h2: "held s2 = held (pc_ctrl c)" using held_v.setup_admin [OF q] h1 by simp
  have n2: "\<not> cc_enabled s2" using setup_admin_caps [OF q] n1 by (simp add: cc_enabled_def)
  have undo: "probe_outcome ?may ?up c (Some ERR_CONTROLLER_ERROR) (fail_int (c\<lparr>pc_ctrl := s\<rparr>))"
    if "held s = held (pc_ctrl c)" "\<not> cc_enabled s" for s
    using fail_int_undone [of "c\<lparr>pc_ctrl := s\<rparr>"] bar0 held_base [OF that(1)] that(2) by (simp add: probe_outcome_def undone_def)
  show ?thesis
  proof (cases "x = None \<and> ok")
    case False
    show ?thesis
    proof (cases x)
      case None
      then show ?thesis using False r d q undo [OF h2 n2] by (auto simp: probe_enable_def)
    next
      case (Some y)
      then show ?thesis using r d undo [OF h1 n1] by (auto simp: probe_enable_def)
    qed
  next
    case True
    then obtain z s3 where en: "nvme_enable_ctrl fuel passed (pv_regs0 e) (pv_regs1 e) (pv_enable e) s2 = Some (z, s3)"
      using r d q by (auto simp: probe_enable_def split: option.splits)
    have h3: "held s3 = held (pc_ctrl c)" using held_v.enable [OF en] h2 by simp
    show ?thesis
    proof (cases z)
      case (Some w)
      then have res: "err = Some ERR_CONTROLLER_ERROR" "c' = fail_admin (c\<lparr>pc_ctrl := s3\<rparr>)" using r d q True en by (auto simp: probe_enable_def)
      have "cc_enabled s3 \<Longrightarrow> ?may" using enable_failure en Some n2 by blast
      then show ?thesis
        using fail_admin_undone [of "c\<lparr>pc_ctrl := s3\<rparr>"] bar0 held_base [OF h3] by (simp add: probe_outcome_def undone_def res)
    next
      case None
      let ?c = "c\<lparr>pc_ctrl := s3\<rparr>"
      have "ctl s3 = ctl (pc_ctrl c)" using ctl_v.enable [OF en] ctl_v.setup_admin [OF q] ctl_v.disable [OF d] by simp
      then have "attached ?c" "k_state (pc_ctrl ?c) = NVME_CTRL_NEW" using at by (simp_all add: attached_def ctl_def)
      moreover have "\<exists>sq cq. ring (k_admin_q (pc_ctrl ?c)) = (0, NVME_ADMIN_QUEUE_SIZE, Some sq, Some cq)"
        using admin_queue_made [of P "pv_cap_hi e" s1 s2] q True rings_v.enable [OF en] by (simp add: rings_def)
      moreover have "probe_online fuel P passed C e ?c = Some (err, c')" using r d q True en None by (simp add: probe_enable_def)
      ultimately have "probe_outcome ?may ?up ?c err c'" by (rule probe_online_outcome [OF P])
      then show ?thesis by (rule probe_outcome_base) (simp add: held_base [OF h3])
    qed
  qed
qed

lemma probe_result_outcome:
  assumes fresh: "released c" "\<not> cc_enabled (pc_ctrl c)" and P: "dma_pool_ok P"
    and r: "nvme_probe_controller fuel P passed C e c = Some (err, c')"
  shows "probe_outcome (start_timed_out fuel passed e) (queues_up P (\<lambda>cmd. fst (pv_sync e cmd))) c err c'"
    (is "probe_outcome ?may ?up c err c'")
proof -
  note pd = probe_outcome_def and nc = nvme_probe_controller_def
  obtain ok c1 where h: "hw_init e c = (ok, c1)" by fastforce
  have c1: "c1 = (if ok then c\<lparr>pc_owned := True, pc_bar0 := True\<rparr> else c)"
    using h fresh(1) by (auto simp: hw_init_def released_def split: if_splits)
  define c2 where "c2 = on_ctrl (nvme_init_ctrl (nvme_lookup_quirks (cf_vendors C) (pv_vendor e) (pv_device e)))
    (c1\<lparr>pc_dmaPool := True, pc_metaPool := True\<rparr>)"
  obtain ok3 s3 where u: "(case pv_unit_spawn e of None \<Rightarrow> (False, pc_ctrl c2) | Some t \<Rightarrow> UnitTask_start t (pc_ctrl c2)) = (ok3, s3)" by fastforce
  obtain ok4 s4 where a: "(case pv_admin_spawn e of None \<Rightarrow> (False, s3) | Some t \<Rightarrow> AdminWorker_start t s3) = (ok4, s4)" by fastforce
  obtain ok5 c5 where i: "int_enable C e (c2\<lparr>pc_ctrl := s4\<rparr>) = (ok5, c5)" by fastforce
  have b2: "unit_base (pc_ctrl c2) = unit_base (pc_ctrl c)" "\<not> cc_enabled (pc_ctrl c2)" "\<not> k_unit_task (pc_ctrl c2)"
    "\<not> k_admin_task (pc_ctrl c2)" "k_state (pc_ctrl c2) = NVME_CTRL_NEW" "\<not> pc_isr c2"
    using fresh by (auto simp: c2_def c1 on_ctrl_def nvme_init_ctrl_def unit_base_def cc_enabled_def released_def)
  have b3: "unit_base s3 = unit_base (pc_ctrl c)" "\<not> cc_enabled s3" "k_unit_task s3 = ok3" "\<not> k_admin_task s3" "k_state s3 = NVME_CTRL_NEW"
    using u b2 by (auto simp: UnitTask_start_def Let_def unit_base_def cc_enabled_def split: option.splits if_splits)
  have b4: "unit_base s4 = unit_base (pc_ctrl c)" "\<not> cc_enabled s4" "k_unit_task s4 = ok3" "k_admin_task s4 = ok4" "k_state s4 = NVME_CTRL_NEW"
    using a b3 by (auto simp: AdminWorker_start_def unit_base_def cc_enabled_def split: option.splits if_splits)
  have b5: "unit_base (pc_ctrl c5) = unit_base (pc_ctrl c)" "\<not> cc_enabled (pc_ctrl c5)" "k_unit_task (pc_ctrl c5) = ok3" "k_admin_task (pc_ctrl c5) = ok4"
    "k_state (pc_ctrl c5) = NVME_CTRL_NEW" "pc_isr c5 = ok5" "pc_bar0 c5 = pc_bar0 c1" "pc_owned c5 = pc_owned c1" "pc_dmaPool c5" "pc_metaPool c5"
    using i b4 b2(6) by (auto simp: int_enable_def nvme_pci_int_enable_def unit_base_def cc_enabled_def emit_def c2_def on_ctrl_def split: option.splits prod.splits if_splits)
  have red: "Some (err, c') = (if \<not> ok3 then Some (Some ERR_SPAWN, fail_pool (c2\<lparr>pc_ctrl := s3\<rparr>))
      else if \<not> ok4 then Some (Some ERR_SPAWN, fail_unit_task (c2\<lparr>pc_ctrl := s4\<rparr>))
      else if \<not> ok5 then Some (Some ERR_INT, fail_admin_task c5) else probe_enable fuel P passed C e c5)"
    if "ok" "pv_dmaPool e" "pv_metaPool e"
    using r that unfolding nc h prod.case Let_def c2_def [symmetric] u a i by (cases ok3; cases ok4; cases ok5) (simp_all add: a i)
  consider (hw) "\<not> ok" | (pools) "ok" "\<not> (pv_dmaPool e \<and> pv_metaPool e)" | (unit) "ok" "pv_dmaPool e \<and> pv_metaPool e" "\<not> ok3"
    | (admin) "ok" "pv_dmaPool e \<and> pv_metaPool e" ok3 "\<not> ok4" | (int) "ok" "pv_dmaPool e \<and> pv_metaPool e" ok3 ok4 "\<not> ok5"
    | (up) "ok" "pv_dmaPool e \<and> pv_metaPool e" ok3 ok4 ok5 by blast
  then show ?thesis
  proof cases
    case hw
    then show ?thesis using r fresh h c1 by (auto simp: nc pd)
  next
    case pools
    then have "err = Some ERR_ALLOC_ERROR" "c' = hw_shutdown (c1\<lparr>pc_dmaPool := False, pc_metaPool := False\<rparr>)"
      using r h by (auto simp: nc)
    then show ?thesis using fresh pools(1) by (simp add: pd c1 hw_shutdown_def released_def)
  next
    case unit
    then have "err = Some ERR_SPAWN" "c' = fail_pool (c2\<lparr>pc_ctrl := s3\<rparr>)" using red by auto
    then show ?thesis using fail_pool_undone [of "c2\<lparr>pc_ctrl := s3\<rparr>"] b2(6) b3 unit(3) by (simp add: pd undone_def)
  next
    case admin
    then have "err = Some ERR_SPAWN" "c' = fail_unit_task (c2\<lparr>pc_ctrl := s4\<rparr>)" using red by auto
    then show ?thesis using fail_unit_undone [of "c2\<lparr>pc_ctrl := s4\<rparr>"] b2(6) b4 admin(4) by (simp add: pd undone_def)
  next
    case int
    then have "err = Some ERR_INT" "c' = fail_admin_task c5" using red by auto
    then show ?thesis using fail_admin_task_undone [of c5] b5 int(5) by (simp add: pd undone_def)
  next
    case up
    then have "probe_enable fuel P passed C e c5 = Some (err, c')" using red by auto
    moreover have "attached c5" using b5 up by (simp add: attached_def c1)
    ultimately have "probe_outcome ?may ?up c5 err c'" using probe_enable_outcome [OF P _ b5(5)] by blast
    then show ?thesis by (rule probe_outcome_base) (rule b5(1))
  qed
qed

text \<open>Every loop of a probe ends: the three waits within the range of the clock, the scan by what the controller serves.\<close>

lemma probe_ends:
  assumes dl: "deadline_ok passed" and clk: "\<And>pe. pe \<in> {pv_disable e, pv_enable e, pv_undo e} \<Longrightarrow> \<exists>T. clock_ok 1000 (pe_time pe) T"
    and dev: "list_ends P (pv_sync e) active" "get_le32 (snd (pv_sync e (identify_cmd 0 NVME_ID_CNS_CTRL 0))) 516 \<noteq> 0xFFFFFFFF"
    and fuel: "4294968 \<le> fuel" "length active < fuel"
  shows "\<exists>err c'. nvme_probe_controller fuel P passed C e c = Some (err, c')"
proof -
  obtain T1 T2 T3 where T: "clock_ok 1000 (pe_time (pv_disable e)) T1" "clock_ok 1000 (pe_time (pv_enable e)) T2"
    "clock_ok 1000 (pe_time (pv_undo e)) T3" using clk [of "pv_disable e"] clk [of "pv_enable e"] clk [of "pv_undo e"] by (elim exE meta_impE) simp_all
  have dis: "\<exists>r s'. nvme_disable_ctrl fuel passed (pv_disable e) False s = Some (r, s')"
    "\<exists>r s'. nvme_disable_ctrl fuel passed (pv_undo e) False s = Some (r, s')"
    "\<exists>r s'. nvme_enable_ctrl fuel passed (pv_regs0 e) (pv_regs1 e) (pv_enable e) s = Some (r, s')" for s
    by (rule disable_ends [OF dl T(1) fuel(1)], rule disable_ends [OF dl T(3) fuel(1)], rule enable_ends [OF dl T(2) fuel(1)])
  have undo: "\<exists>c'. fail_enable fuel passed e x = Some c'" for x using dis(2) [of "pc_ctrl x"] by (auto simp: fail_enable_def)
  have on: "\<exists>err c'. probe_online fuel P passed C e x = Some (err, c')" for x
  proof -
    obtain ok s1 where q: "nvme_setup_io_queue P (\<lambda>cmd. fst (pv_sync e cmd)) (pc_ctrl x) = (ok, s1)" by fastforce
    obtain ret s3 where f: "nvme_init_ctrl_finish P (pv_sync e) (pv_vs e) (cf_coalesce_time C) (cf_coalesce_thr C)
      (snd (nvme_change_ctrl_state NVME_CTRL_CONNECTING s1)) = (ret, s3)" by fastforce
    show ?thesis
      using undo [of "x\<lparr>pc_ctrl := s1\<rparr>"] undo [of "x\<lparr>pc_ctrl := s3\<rparr>"] scan_ends [OF dev(1) fuel(2) dev(2)]
      by (cases ok; cases "ret = Ret_ok") (auto simp: probe_online_def q f Let_def)
  qed
  have en: "\<exists>err c'. probe_enable fuel P passed C e x = Some (err, c')" for x
  proof -
    obtain r1 s1 where d: "nvme_disable_ctrl fuel passed (pv_disable e) False (pc_ctrl x) = Some (r1, s1)" using dis(1) by blast
    obtain ok s2 where q: "nvme_setup_admin_queue P (pv_cap_hi e) s1 = (ok, s2)" by fastforce
    obtain r3 s3 where n: "nvme_enable_ctrl fuel passed (pv_regs0 e) (pv_regs1 e) (pv_enable e) s2 = Some (r3, s3)" using dis(3) by blast
    show ?thesis using on [of "x\<lparr>pc_ctrl := s3\<rparr>"] by (cases r1; cases ok; cases r3) (auto simp: probe_enable_def d q n)
  qed
  show ?thesis using en by (auto simp: nvme_probe_controller_def Let_def split: prod.split bool.split)
qed

text \<open>
  C7.  A probe of a controller ends, and it either attaches everything or nothing.  On success the controller is LIVE, its
  I/O gate is open, the admin queue and the I/O queue pair exist and the controller accepted both commands that
  create the pair the driver holds, both tasks run, the interrupt server is attached and the
  pools exist, and no unit is open that was not.  On any failure board ownership, register mapping, tasks, interrupt server, pools and
  all DMA memory are given back and the unit list of the device is as it was.  The controller is then left disabled, with one
  exception: one that supports the page size, was told to start and did not report ready in time.  Assumed is
  that the clock advances between polls by one millisecond to one second, that the controller either refuses the list of active namespaces or
  serves it in increasing order, and that NN is not the largest 32-bit number; the fuel is one poll per
  millisecond of the range of the clock and more than the number of active namespaces.
\<close>

theorem probe_controller_outcome:
  assumes fresh: "released c" "\<not> cc_enabled (pc_ctrl c)" and P: "dma_pool_ok P"
    and dl: "deadline_ok passed" and clk: "\<And>pe. pe \<in> {pv_disable e, pv_enable e, pv_undo e} \<Longrightarrow> \<exists>T. clock_ok 1000 (pe_time pe) T"
    and dev: "list_ends P (pv_sync e) active" "get_le32 (snd (pv_sync e (identify_cmd 0 NVME_ID_CNS_CTRL 0))) 516 \<noteq> 0xFFFFFFFF"
    and fuel: "4294968 \<le> fuel" "length active < fuel"
  shows "\<exists>err c'. nvme_probe_controller fuel P passed C e c = Some (err, c') \<and> (case err of
     None \<Rightarrow> attached c' \<and> queues_up P (\<lambda>cmd. fst (pv_sync e cmd)) (pc_ctrl c') \<and> k_state (pc_ctrl c') = NVME_CTRL_LIVE \<and>
       \<not> bit (k_flags (pc_ctrl c')) NVME_CTRL_STOPPED \<and> (all_closed (pc_ctrl c) \<longrightarrow> all_closed (pc_ctrl c'))
   | Some _ \<Rightarrow> released c' \<and> unit_base (pc_ctrl c') = unit_base (pc_ctrl c) \<and>
       (cc_enabled (pc_ctrl c') \<longrightarrow> start_timed_out fuel passed e))"
  using probe_ends [OF dl clk dev fuel, of C c] probe_result_outcome [OF fresh P] unfolding probe_outcome_def by metis


definition demo_probe :: probe_ctrl where
  "demo_probe = \<lparr>pc_ctrl = zero_ctrl, pc_owned = False, pc_bar0 = False, pc_dmaPool = False, pc_metaPool = False, pc_isr = False, pc_msi = False\<rparr>"

definition demo_probe_env :: probe_env where
  "demo_probe_env = \<lparr>pv_vendor = 0x144d, pv_device = 0xa808, pv_board_free = True, pv_bar0 = True, pv_dmaPool = True, pv_metaPool = True,
     pv_unit_spawn = Some \<lparr>te_port = True, te_sig1 = True, te_sig2 = True, te_timer = True\<rparr>,
     pv_admin_spawn = Some \<lparr>te_port = True, te_sig1 = True, te_sig2 = True, te_timer = True\<rparr>,
     pv_attach = (\<lambda>_. Some PCI_IRQ_MSIX), pv_disable = \<lparr>pe_csts = (\<lambda>_. - 1), pe_time = (\<lambda>n. of_nat (1000 * n))\<rparr>, pv_cap_hi = 0,
     pv_regs0 = (\<lambda>_. 0), pv_regs1 = (\<lambda>_. 0), pv_enable = \<lparr>pe_csts = (\<lambda>_. - 1), pe_time = (\<lambda>n. of_nat (1000 * n))\<rparr>, pv_vs = 0,
     pv_sync = (\<lambda>_. (Ret_ok, \<lambda>_. 0)), pv_undo = \<lparr>pe_csts = (\<lambda>_. - 1), pe_time = (\<lambda>n. of_nat (1000 * n))\<rparr>\<rparr>"

definition demo_config :: probe_config where
  "demo_config = \<lparr>cf_vendors = \<lparr>PCI_VENDOR_ID_INTEL = 0x8086, PCI_VENDOR_ID_REDHAT = 0x1b36, PCI_VENDOR_ID_APPLE = 0x106b\<rparr>,
     cf_use_msi = True, cf_use_msix = True, cf_coalesce_time = 0, cf_coalesce_thr = 0\<rparr>"

text \<open>A device that answers all reads with ones: the probe fails after the tasks run and the interrupt is attached.\<close>

lemma demo_probe_ends:
  "\<exists>T. clock_ok 1000 (\<lambda>n. of_nat (1000 * n)) T" "list_ends m68k_platform (pv_sync demo_probe_env) []"
  "get_le32 (snd (pv_sync demo_probe_env cmd)) 516 \<noteq> 0xFFFFFFFF"
proof -
  have "clock_ok 1000 (\<lambda>n. of_nat (1000 * n)) (\<lambda>n. 1000 * n)" by (simp add: clock_ok_def)
  then show "\<exists>T. clock_ok 1000 (\<lambda>n. of_nat (1000 * n)) T" by blast
  have "map (\<lambda>i. get_le32 (\<lambda>_. 0) (4 * i)) [0..<1024] = replicate 1024 0"
    by (rule nth_equalityI) (simp_all add: get_le32_def get_le16_def)
  then show "list_ends m68k_platform (pv_sync demo_probe_env) []"
    by (simp add: list_ends_def serves_list_def demo_probe_env_def above_def)
  show "get_le32 (snd (pv_sync demo_probe_env cmd)) 516 \<noteq> 0xFFFFFFFF"
    by (simp add: demo_probe_env_def get_le32_def get_le16_def)
qed

lemma demo_probe_wait: "nvme_wait_ready 4294968 passed \<lparr>pe_csts = (\<lambda>_. - 1), pe_time = time\<rparr> msk val timeout = Some (Some ENODEV)"
proof -
  have "(4294968 :: nat) = Suc 4294967" by simp
  then show ?thesis unfolding nvme_wait_ready_def by (simp only: wait_ready_loop.simps Let_def poll_env.simps simp_thms if_True)
qed

theorem probe_controller_outcome_witness:
  "\<exists>c'. nvme_probe_controller 4294968 m68k_platform signed_passed demo_config demo_probe_env demo_probe = Some (Some ERR_CONTROLLER_ERROR, c') \<and>
    released c' \<and> unit_base (pc_ctrl c') = unit_base (pc_ctrl demo_probe)"
proof -
  have "released demo_probe" "\<not> cc_enabled (pc_ctrl demo_probe)"
    by (simp_all add: released_def demo_probe_def zero_ctrl_def cc_enabled_def zero_caps_def)
  moreover have "\<exists>T. clock_ok 1000 (pe_time pe) T" if "pe \<in> {pv_disable demo_probe_env, pv_enable demo_probe_env, pv_undo demo_probe_env}" for pe
    using that demo_probe_ends(1) by (auto simp: demo_probe_env_def)
  moreover obtain c' where "nvme_probe_controller 4294968 m68k_platform signed_passed demo_config demo_probe_env demo_probe = Some (Some ERR_CONTROLLER_ERROR, c')"
    by (simp add: demo_probe_wait nvme_probe_controller_def hw_init_def nvme_pci_is_supported_def demo_probe_env_def demo_probe_def Let_def UnitTask_start_def
      AdminWorker_start_def int_enable_def nvme_pci_int_enable_def probe_enable_def nvme_disable_ctrl_def)
  ultimately show ?thesis
    using probe_controller_outcome [of demo_probe m68k_platform signed_passed demo_probe_env "[]" 4294968 demo_config]
      m68k_dma_pool_ok signed_deadline_ok demo_probe_ends(2,3) by auto
qed

text \<open>
  The exception: a controller that supports the page size but does not report ready is left with
  CC.EN set, although the admin queue it was told to use has been freed.
\<close>

lemma enable_timeout_left_enabled:
  assumes at: "pc_bar0 c" and d: "nvme_disable_ctrl fuel passed (pv_disable e) False (pc_ctrl c) = Some (None, s1)"
    and q: "nvme_setup_admin_queue P (pv_cap_hi e) s1 = (True, s2)"
    and en: "nvme_enable_ctrl fuel passed (pv_regs0 e) (pv_regs1 e) (pv_enable e) s2 = Some (Some x, s3)"
    and page: "NVME_CAP_MPSMIN (nvme_reg_read64 (pv_regs0 e) NVME_REG_CAP) = 0"
  shows "\<exists>c'. probe_enable fuel P passed C e c = Some (Some ERR_CONTROLLER_ERROR, c') \<and> cc_enabled (pc_ctrl c') \<and>
    k_dma (pc_ctrl c') = Map.empty"
proof -
  have "cc_enabled s3" using en page by (auto simp: nvme_enable_ctrl_def Let_def cc_enabled_def set_ctrl_config_def emit_def bit_simps)
  then have "undone (c\<lparr>pc_ctrl := s3\<rparr>) (fail_admin (c\<lparr>pc_ctrl := s3\<rparr>)) \<and> cc_enabled s3" using fail_admin_undone [of "c\<lparr>pc_ctrl := s3\<rparr>"] at by simp
  then show ?thesis using d q en by (auto simp: probe_enable_def undone_def released_def)
qed

end
