(* ===== verification/Nvme_Library.thy ===== *)
theory Nvme_Library
  imports Nvme_Probe
begin

text \<open>
  The device base of src/device.c: the support libraries, probing at most once, the vectors
  \<open>openLib\<close>, \<open>closeLib\<close> and \<open>expungeLib\<close>, and the loops over all controllers of src/nvme/nvme_probe.c.

  The base holds the controllers and the unit list.  A unit handle is its position in \<open>b_unit\<close>, its
  controller the position \<open>b_unit_ctrl\<close> in the list of controllers.  An operation of a controller
  works on the controller with the unit list loaded from the base, and the list is stored back.
  \<open>b_listed\<close> tells whether the base is in the device list of exec: it is freed when this becomes False.
  \<open>b_freed\<close> records what the controller structures held when their memory was freed.
  None is a polling loop or a scan that has not ended.
\<close>

record NVMeDevice =
  b_probed :: bool
  b_utilityBase :: bool
  b_pcieBase :: bool
  b_controllers :: "probe_ctrl list"
  b_units :: "nat list"
  b_unit :: "nat \<Rightarrow> NVMeUnit"
  b_unit_ctrl :: "nat \<Rightarrow> nat"
  b_nextUnitNumber :: u32
  b_OpenCnt :: u16
  b_Flags :: u8
  b_guard :: bool
  b_listed :: bool
  b_freed :: "probe_ctrl list"

abbreviation (input) LIBF_CHANGED :: u8 where "LIBF_CHANGED \<equiv> 2"
abbreviation (input) LIBF_SUMUSED :: u8 where "LIBF_SUMUSED \<equiv> 4"
abbreviation (input) LIBF_DELEXP :: u8 where "LIBF_DELEXP \<equiv> 8"

definition load_base :: "NVMeDevice \<Rightarrow> NVMeController \<Rightarrow> NVMeController" where
  "load_base b s = s\<lparr>k_units := b_unit b, k_base_units := b_units b, k_nextUnitNumber := b_nextUnitNumber b\<rparr>"

definition store_base :: "NVMeController \<Rightarrow> NVMeDevice \<Rightarrow> NVMeDevice" where
  "store_base s b = b\<lparr>b_unit := k_units s, b_units := k_base_units s, b_nextUnitNumber := k_nextUnitNumber s\<rparr>"

definition initFunction :: "bool \<Rightarrow> NVMeDevice" where
  "initFunction guard = \<lparr>b_probed = False, b_utilityBase = False, b_pcieBase = False, b_controllers = [], b_units = [],
     b_unit = (\<lambda>_. zero_unit), b_unit_ctrl = (\<lambda>_. 0), b_nextUnitNumber = 0, b_OpenCnt = 0, b_Flags = LIBF_SUMUSED OR LIBF_CHANGED,
     b_guard = guard, b_listed = True, b_freed = []\<rparr>"

section \<open>Support libraries\<close>

record lib_env =
  le_utility :: bool
  le_pcie :: bool
  le_bcm2711 :: bool

definition nvme_close_libraries :: "NVMeDevice \<Rightarrow> NVMeDevice" where
  "nvme_close_libraries b = b\<lparr>b_pcieBase := False, b_utilityBase := False\<rparr>"

definition nvme_open_libraries :: "lib_env \<Rightarrow> NVMeDevice \<Rightarrow> bool \<times> NVMeDevice" where
  "nvme_open_libraries e b =
    (if b_utilityBase b \<and> b_pcieBase b then (True, b)
     else
       let b1 = nvme_close_libraries b in
       if \<not> le_utility e then (False, b1)
       else if \<not> le_pcie e \<or> \<not> le_bcm2711 e then (False, nvme_close_libraries (b1\<lparr>b_utilityBase := True\<rparr>))
       else (True, b1\<lparr>b_utilityBase := True, b_pcieBase := True\<rparr>))"

section \<open>All controllers\<close>

text \<open>A controller structure as \<open>AllocMem\<close> clears it.\<close>

definition fresh_ctrl :: "NVMeDevice \<Rightarrow> probe_ctrl" where
  "fresh_ctrl b = \<lparr>pc_ctrl = load_base b zero_ctrl, pc_owned = False, pc_bar0 = False, pc_dmaPool = False, pc_metaPool = False,
     pc_isr = False, pc_msi = False\<rparr>"

definition link_ctrl :: "probe_ctrl \<Rightarrow> NVMeDevice \<Rightarrow> NVMeDevice" where
  "link_ctrl c b =
    (let n = length (b_controllers b); new = set (k_base_units (pc_ctrl c)) - set (b_units b)
     in (store_base (pc_ctrl c) b)\<lparr>b_controllers := b_controllers b @ [c],
          b_unit_ctrl := (\<lambda>u. if u \<in> new then n else b_unit_ctrl b u)\<rparr>)"

text \<open>The devices found on the bus in order, each with the result of the allocation of its structure.\<close>

fun probe_loop :: "nat \<Rightarrow> platform \<Rightarrow> deadline_test \<Rightarrow> probe_config \<Rightarrow> (bool \<times> probe_env) list \<Rightarrow> nat \<Rightarrow> NVMeDevice \<Rightarrow>
    (bool \<times> NVMeDevice) option" where
  "probe_loop fuel P passed C [] nctrls b = Some (0 < b_nextUnitNumber b, b)"
| "probe_loop fuel P passed C ((mem, e) # pds) nctrls b =
    (if \<not> mem then Some (0 < nctrls, b)
     else case nvme_probe_controller fuel P passed C e (fresh_ctrl b) of
       None \<Rightarrow> None
     | Some (Some _, c) \<Rightarrow> probe_loop fuel P passed C pds nctrls (store_base (pc_ctrl c) b)
     | Some (None, c) \<Rightarrow> probe_loop fuel P passed C pds (nctrls + 1) (link_ctrl c b))"

definition nvme_probe_all :: "nat \<Rightarrow> platform \<Rightarrow> deadline_test \<Rightarrow> probe_config \<Rightarrow> (bool \<times> probe_env) list \<Rightarrow> NVMeDevice \<Rightarrow>
    (bool \<times> NVMeDevice) option" where
  "nvme_probe_all fuel P passed C pds b = probe_loop fuel P passed C pds 0 (b\<lparr>b_nextUnitNumber := 0\<rparr>)"

text \<open>Taking one controller down; the flush of its queues runs on the task that expunges.\<close>

definition unprobe_ctrl :: "nat \<Rightarrow> platform \<Rightarrow> deadline_test \<Rightarrow> poll_env \<Rightarrow> (nvme_command \<Rightarrow> sync_ret) \<Rightarrow> probe_ctrl \<Rightarrow> probe_ctrl option" where
  "unprobe_ctrl fuel P passed e sync c =
    map_option (\<lambda>s.
      let c1 = c\<lparr>pc_ctrl := (if pc_bar0 c then nvme_teardown_queue Admin_q (nvme_teardown_queue Io_q s) else s)\<rparr>;
          c2 = on_ctrl join_unit_task (on_ctrl join_admin_task (int_shutdown c1));
          c3 = hw_shutdown c2;
          c4 = on_ctrl (\<lambda>s. case k_effects s of None \<Rightarrow> s | Some (a, _) \<Rightarrow> (dma_free a s)\<lparr>k_effects := None\<rparr>) c3
      in delete_pools c4)
     (nvme_ctrl_shutdown fuel P passed e sync (pc_bar0 c) (pc_ctrl c))"

fun unprobe_loop :: "nat \<Rightarrow> platform \<Rightarrow> deadline_test \<Rightarrow> (nat \<Rightarrow> poll_env) \<Rightarrow> (nvme_command \<Rightarrow> sync_ret) \<Rightarrow> nat \<Rightarrow> probe_ctrl list \<Rightarrow>
    probe_ctrl list option" where
  "unprobe_loop fuel P passed e sync i [] = Some []"
| "unprobe_loop fuel P passed e sync i (c # cs) =
    (case unprobe_ctrl fuel P passed (e i) sync c of
       None \<Rightarrow> None
     | Some c' \<Rightarrow> map_option ((#) c') (unprobe_loop fuel P passed e sync (i + 1) cs))"

definition nvme_unprobe_all :: "nat \<Rightarrow> platform \<Rightarrow> deadline_test \<Rightarrow> (nat \<Rightarrow> poll_env) \<Rightarrow> (nvme_command \<Rightarrow> sync_ret) \<Rightarrow> NVMeDevice \<Rightarrow>
    NVMeDevice option" where
  "nvme_unprobe_all fuel P passed e sync b =
    map_option (\<lambda>cs. b\<lparr>b_controllers := [], b_units := [], b_freed := b_freed b @ cs\<rparr>) (unprobe_loop fuel P passed e sync 0 (b_controllers b))"

fun nvme_reset_quiesce_all :: "nat \<Rightarrow> deadline_test \<Rightarrow> (nat \<Rightarrow> poll_env) \<Rightarrow> nat \<Rightarrow> probe_ctrl list \<Rightarrow> probe_ctrl list option" where
  "nvme_reset_quiesce_all fuel passed e i [] = Some []"
| "nvme_reset_quiesce_all fuel passed e i (c # cs) =
    (case nvme_ctrl_reset_quiesce fuel passed (e i) (pc_bar0 c) (pc_ctrl c) of
       None \<Rightarrow> None
     | Some s \<Rightarrow> map_option ((#) (c\<lparr>pc_ctrl := s\<rparr>)) (nvme_reset_quiesce_all fuel passed e (i + 1) cs))"

section \<open>Open, close and expunge\<close>

record bus_env =
  be_libs :: lib_env
  be_devices :: "(bool \<times> probe_env) list"

definition devEnsureProbed :: "nat \<Rightarrow> platform \<Rightarrow> deadline_test \<Rightarrow> probe_config \<Rightarrow> bus_env \<Rightarrow> NVMeDevice \<Rightarrow> (bool \<times> NVMeDevice) option" where
  "devEnsureProbed fuel P passed C e b =
    (if b_probed b then Some (True, b)
     else case nvme_open_libraries (be_libs e) b of
       (False, b1) \<Rightarrow> Some (False, b1)
     | (True, b1) \<Rightarrow> map_option (\<lambda>(_, b2). (True, b2\<lparr>b_probed := True\<rparr>)) (nvme_probe_all fuel P passed C (be_devices e) b1))"

text \<open>An operation on the controller of a unit.\<close>

definition on_unit :: "nat \<Rightarrow> (NVMeController \<Rightarrow> 'r \<times> NVMeController) \<Rightarrow> NVMeDevice \<Rightarrow> 'r \<times> NVMeDevice" where
  "on_unit u f b =
    (let i = b_unit_ctrl b u; c = b_controllers b ! i; (r, s) = f (load_base b (pc_ctrl c))
     in (r, (store_base s b)\<lparr>b_controllers := (b_controllers b)[i := c\<lparr>pc_ctrl := s\<rparr>]\<rparr>))"

text \<open>
  The reply of \<open>openLib\<close>: the unit, or None for \<open>IOERR_OPENFAIL\<close> with \<open>io_Device\<close> and \<open>io_Unit\<close> cleared.
\<close>

definition openLib :: "nat \<Rightarrow> platform \<Rightarrow> deadline_test \<Rightarrow> probe_config \<Rightarrow> bus_env \<Rightarrow> nat \<Rightarrow> u32 \<Rightarrow> NVMeDevice \<Rightarrow>
    (nat option \<times> NVMeDevice) option" where
  "openLib fuel P passed C e unitNumber flags b =
    (case devEnsureProbed fuel P passed C e b of
       None \<Rightarrow> None
     | Some (False, b1) \<Rightarrow> Some (None, b1)
     | Some (True, b1) \<Rightarrow>
        (case find (\<lambda>u. u_unitNumber (b_unit b1 u) = unitNumber) (b_units b1) of
           None \<Rightarrow> Some (None, b1)
         | Some u \<Rightarrow>
            (case on_unit u (UnitOpen u flags) b1 of
               (True, b2) \<Rightarrow> Some (Some u, b2\<lparr>b_OpenCnt := b_OpenCnt b2 + 1, b_Flags := b_Flags b2 AND NOT LIBF_DELEXP\<rparr>)
             | (False, b2) \<Rightarrow> Some (None, b2))))"

text \<open>The result tells whether the segment list was returned, that is whether the base is gone.\<close>

definition expungeLib :: "nat \<Rightarrow> platform \<Rightarrow> deadline_test \<Rightarrow> (nat \<Rightarrow> poll_env) \<Rightarrow> (nvme_command \<Rightarrow> sync_ret) \<Rightarrow> bool \<Rightarrow> NVMeDevice \<Rightarrow>
    (bool \<times> NVMeDevice) option" where
  "expungeLib fuel P passed e sync removable b =
    (if 0 < b_OpenCnt b then Some (False, b\<lparr>b_Flags := b_Flags b OR LIBF_DELEXP\<rparr>)
     else if \<not> removable then Some (False, b)
     else map_option (\<lambda>b1. (True, (nvme_close_libraries (b1\<lparr>b_guard := False\<rparr>))\<lparr>b_listed := False\<rparr>))
            (nvme_unprobe_all fuel P passed e sync b))"

text \<open>\<open>wait\<close> is what the tasks do to the controller while the last close waits for its flush.\<close>

definition closeLib :: "nat \<Rightarrow> platform \<Rightarrow> deadline_test \<Rightarrow> (nat \<Rightarrow> poll_env) \<Rightarrow> (nvme_command \<Rightarrow> sync_ret) \<Rightarrow> bool \<Rightarrow>
    (NVMeController \<Rightarrow> NVMeController) \<Rightarrow> bool \<Rightarrow> nat \<Rightarrow> nat \<Rightarrow> NVMeDevice \<Rightarrow> (bool \<times> NVMeDevice) option" where
  "closeLib fuel P passed e sync removable wait port io u b =
    (let (n, b1) = on_unit u (\<lambda>s. case UnitClose port io u s of (n, s1) \<Rightarrow> (n, if n = 0 then wait s1 else s1)) b;
         b2 = b1\<lparr>b_OpenCnt := b_OpenCnt b1 - 1\<rparr>
     in if b_OpenCnt b2 = 0 \<and> b_Flags b2 AND LIBF_DELEXP \<noteq> 0 then expungeLib fuel P passed e sync removable b2
        else Some (False, b2))"

text \<open>The initialisation by exec, and the units handed to the mounter: none when an allocation fails.\<close>

definition devMountUnits :: "bool \<Rightarrow> bool \<Rightarrow> NVMeDevice \<Rightarrow> u32 list" where
  "devMountUnits units results b = (if units \<and> results then map of_nat [0..<unat (b_nextUnitNumber b)] else [])"

definition doInit :: "nat \<Rightarrow> platform \<Rightarrow> deadline_test \<Rightarrow> probe_config \<Rightarrow> bus_env \<Rightarrow> bool \<Rightarrow> bool \<Rightarrow> bool \<Rightarrow> bool \<Rightarrow> bool \<Rightarrow>
    (NVMeDevice \<times> u32 list) option option" where
  "doInit fuel P passed C e range_ops library guard units results =
    (if \<not> range_ops \<or> \<not> library then Some None
     else case devEnsureProbed fuel P passed C e (initFunction guard) of
       None \<Rightarrow> None
     | Some (False, b) \<Rightarrow> Some (Some (b, []))
     | Some (True, b) \<Rightarrow> Some (Some (b, devMountUnits units results b)))"

section \<open>Counting opens\<close>

definition counts :: "NVMeDevice \<Rightarrow> nat \<Rightarrow> u16" where
  "counts b u = u_openCnt (b_unit b u)"

definition opens :: "(nat \<Rightarrow> u16) \<Rightarrow> nat" where
  "opens f = (\<Sum>u | f u \<noteq> 0. unat (f u))"

lemma opens_update:
  assumes "finite {u. f u \<noteq> 0}"
  shows "finite {v. (f(u := x)) v \<noteq> 0}" "opens (f(u := x)) + unat (f u) = opens f + unat x"
proof -
  let ?A = "insert u {v. f v \<noteq> 0}"
  have fin: "finite ?A" using assms by simp
  have sub: "{v. (f(u := x)) v \<noteq> 0} \<subseteq> ?A" "{v. f v \<noteq> 0} \<subseteq> ?A" by auto
  show "finite {v. (f(u := x)) v \<noteq> 0}" using fin sub(1) by (rule rev_finite_subset)
  have "opens (f(u := x)) = (\<Sum>v \<in> ?A. unat ((f(u := x)) v))" "opens f = (\<Sum>v \<in> ?A. unat (f v))"
    unfolding opens_def by (rule sum.mono_neutral_left [OF fin sub(1)], simp) (rule sum.mono_neutral_left [OF fin sub(2)], simp)
  moreover have "(\<Sum>v \<in> ?A. unat (g v)) = unat (g u) + (\<Sum>v \<in> ?A - {u}. unat (g v))" for g :: "nat \<Rightarrow> u16"
    by (rule sum.remove [OF fin]) simp
  moreover have "(\<Sum>v \<in> ?A - {u}. unat ((f(u := x)) v)) = (\<Sum>v \<in> ?A - {u}. unat (f v))" by (rule sum.cong) auto
  ultimately show "opens (f(u := x)) + unat (f u) = opens f + unat x" by simp
qed

lemma count_le_opens:
  assumes "finite {u. f u \<noteq> 0}"
  shows "unat (f u) \<le> opens f"
proof (cases "f u = 0")
  case False
  then show ?thesis unfolding opens_def by (intro member_le_sum) (use assms in auto)
qed simp

lemma opens_zero: "finite {u. f u \<noteq> 0} \<Longrightarrow> opens f = 0 \<Longrightarrow> f u = 0"
  using count_le_opens [of f u] by (simp add: unat_eq_zero)

text \<open>What the tasks of a controller do by themselves: a scan may add and remove units.\<close>

definition ctrl_runs :: "nat \<Rightarrow> (NVMeController \<Rightarrow> NVMeController) \<Rightarrow> NVMeDevice \<Rightarrow> NVMeDevice" where
  "ctrl_runs i f b =
    (let c = b_controllers b ! i; s = f (load_base b (pc_ctrl c)); new = set (k_base_units s) - set (b_units b)
     in (store_base s b)\<lparr>b_controllers := (b_controllers b)[i := c\<lparr>pc_ctrl := s\<rparr>],
          b_unit_ctrl := (\<lambda>u. if u \<in> new then i else b_unit_ctrl b u)\<rparr>)"

definition keeps_opens :: "NVMeController \<Rightarrow> NVMeController \<Rightarrow> bool" where
  "keeps_opens s s' \<longleftrightarrow> (\<forall>u. u_openCnt (k_units s' u) = u_openCnt (k_units s u))"

text \<open>
  The functions of a scan that write units keep the counts: a removal and an update in any case, a new
  unit when the handle it takes is closed.
\<close>

lemma ns_remove_keeps_opens: "keeps_opens s (nvme_ns_remove ns s)"
  by (simp add: keeps_opens_def nvme_ns_remove_def kill_unit_def Let_def pool_free_def split: option.split)

lemma update_keeps_opens: "nvme_update_ns_info info ns s = (ns', s') \<Longrightarrow> keeps_opens s s'"
  by (auto simp: keeps_opens_def nvme_update_ns_info_def set_deac_def Let_def split: if_splits option.splits)

lemma alloc_keeps_opens:
  assumes "nvme_alloc_nvmeunit P nsid bs sh n fe s = (u, s')" "u_openCnt (k_units s (unat (k_nextUnitNumber s))) = 0"
  shows "keeps_opens s s'"
  using assms by (auto simp: keeps_opens_def nvme_alloc_nvmeunit_def pool_zalloc_def zero_unit_def Let_def split: option.splits if_splits)

section \<open>Histories of the device base\<close>

text \<open>
  Exec serialises the vectors.  A client closes a unit it has open; fewer than 65535 opens are
  outstanding when another one is made.
\<close>

inductive dev_reach :: "bool \<Rightarrow> NVMeDevice \<Rightarrow> bool" for guard where
  start: "dev_reach guard (initFunction guard)"
| opened: "dev_reach guard b \<Longrightarrow> b_listed b \<Longrightarrow> dma_pool_ok P \<Longrightarrow> unat (b_OpenCnt b) < 65535 \<Longrightarrow>
    openLib fuel P passed C e unitNumber flags b = Some (r, b') \<Longrightarrow> dev_reach guard b'"
| closed: "dev_reach guard b \<Longrightarrow> b_listed b \<Longrightarrow> u_openCnt (b_unit b u) \<noteq> 0 \<Longrightarrow> \<forall>s. unit_base (wait s) = unit_base s \<Longrightarrow>
    closeLib fuel P passed pe sync removable wait port io u b = Some (gone, b') \<Longrightarrow> dev_reach guard b'"
| expunged: "dev_reach guard b \<Longrightarrow> b_listed b \<Longrightarrow> expungeLib fuel P passed pe sync removable b = Some (gone, b') \<Longrightarrow> dev_reach guard b'"
| ran: "dev_reach guard b \<Longrightarrow> b_listed b \<Longrightarrow> i < length (b_controllers b) \<Longrightarrow> s = load_base b (pc_ctrl (b_controllers b ! i)) \<Longrightarrow>
    keeps_opens s (f s) \<Longrightarrow> dev_reach guard (ctrl_runs i f b)"

text \<open>The units that may be used: listed ones and open ones, which may have left the list.\<close>

definition owned :: "NVMeDevice \<Rightarrow> bool" where
  "owned b \<longleftrightarrow> (\<forall>u. u \<in> set (b_units b) \<or> counts b u \<noteq> 0 \<longrightarrow> b_unit_ctrl b u < length (b_controllers b))"

definition lib_ok :: "NVMeDevice \<Rightarrow> bool" where
  "lib_ok b \<longleftrightarrow> finite {u. counts b u \<noteq> 0} \<and> owned b \<and> list_all pc_bar0 (b_controllers b) \<and> unat (b_OpenCnt b) = opens (counts b) \<and>
     (\<not> b_probed b \<longrightarrow> b_controllers b = [] \<and> b_units b = [])"

lemma counts_closed: "(\<forall>u. counts b u = 0) \<Longrightarrow> opens (counts b) = 0 \<and> finite {u. counts b u \<noteq> 0}"
  by (simp add: opens_def)

lemma lib_ok_unprobed:
  assumes "lib_ok b" "\<not> b_probed b"
  shows "counts b u = 0"
  using assms by (auto simp: lib_ok_def owned_def)

definition lib_frame :: "NVMeDevice \<Rightarrow> u16 \<times> u8 \<times> bool \<times> bool \<times> probe_ctrl list" where
  "lib_frame b = (b_OpenCnt b, b_Flags b, b_listed b, b_guard b, b_freed b)"

lemma probe_loop_ok:
  assumes P: "dma_pool_ok P"
  shows "probe_loop fuel P passed C pds n b = Some (r, b') \<Longrightarrow> \<forall>u. counts b u = 0 \<Longrightarrow> owned b \<Longrightarrow> list_all pc_bar0 (b_controllers b) \<Longrightarrow>
    (\<forall>u. counts b' u = 0) \<and> owned b' \<and> list_all pc_bar0 (b_controllers b') \<and> lib_frame b' = lib_frame b"
proof (induction pds arbitrary: n b)
  case (Cons pd pds)
  obtain mem e where pd: "pd = (mem, e)" by fastforce
  show ?case
  proof (cases "mem \<and> nvme_probe_controller fuel P passed C e (fresh_ctrl b) \<noteq> None")
    case False
    then have "\<not> mem \<or> nvme_probe_controller fuel P passed C e (fresh_ctrl b) = None" by blast
    then show ?thesis using Cons.prems by (elim disjE) (simp_all add: pd split: if_splits)
  next
    case True
    then obtain err c where pc: "nvme_probe_controller fuel P passed C e (fresh_ctrl b) = Some (err, c)" by fastforce
    have f: "released (fresh_ctrl b)" "\<not> cc_enabled (pc_ctrl (fresh_ctrl b))" "all_closed (pc_ctrl (fresh_ctrl b))"
      "unit_base (pc_ctrl (fresh_ctrl b)) = (b_unit b, b_units b, b_nextUnitNumber b)"
      using Cons.prems(2)
      by (simp_all add: fresh_ctrl_def load_base_def released_def zero_ctrl_def cc_enabled_def zero_caps_def all_closed_def unit_base_def counts_def)
    note o = probe_result_outcome [OF f(1,2) P pc, unfolded probe_outcome_def]
    show ?thesis
    proof (cases err)
      case (Some x)
      then have "unit_base (pc_ctrl c) = (b_unit b, b_units b, b_nextUnitNumber b)" using o f(4) by simp
      then have "store_base (pc_ctrl c) b = b" by (simp add: store_base_def unit_base_def)
      then show ?thesis using Cons pd True pc Some by simp
    next
      case None
      let ?b = "link_ctrl c b"
      have "\<forall>u. counts ?b u = 0" using o None f(3) by (simp add: counts_def link_ctrl_def Let_def store_base_def all_closed_def)
      moreover have "owned ?b" using calculation Cons.prems(3) by (auto simp: owned_def link_ctrl_def Let_def store_base_def less_SucI)
      moreover have "list_all pc_bar0 (b_controllers ?b)"
        using o None Cons.prems(4) by (simp add: link_ctrl_def Let_def store_base_def attached_def)
      moreover have "lib_frame ?b = lib_frame b" by (simp add: lib_frame_def link_ctrl_def Let_def store_base_def)
      ultimately show ?thesis using Cons.IH [of "n + 1" ?b] Cons.prems(1) pd True pc None by auto
    qed
  qed
qed simp

lemma ensure_probed_ok:
  assumes P: "dma_pool_ok P" and ok: "lib_ok b" and d: "devEnsureProbed fuel P passed C e b = Some (r, b')"
  shows "lib_ok b' \<and> lib_frame b' = lib_frame b"
proof (cases "b_probed b")
  case True
  then show ?thesis using d ok by (simp add: devEnsureProbed_def)
next
  case False
  obtain k b1 where l: "nvme_open_libraries (be_libs e) b = (k, b1)" by fastforce
  have b1: "b_controllers b1 = b_controllers b" "b_units b1 = b_units b" "b_unit b1 = b_unit b" "b_unit_ctrl b1 = b_unit_ctrl b"
      "b_probed b1 = b_probed b" "lib_frame b1 = lib_frame b"
    using l by (auto simp: nvme_open_libraries_def nvme_close_libraries_def lib_frame_def Let_def split: if_splits)
  have "counts b1 = counts b" "b_OpenCnt b1 = b_OpenCnt b" using b1 by (simp_all add: counts_def [abs_def] lib_frame_def)
  then have ok1: "lib_ok b1" "lib_frame b1 = lib_frame b" "\<not> b_probed b1" using ok False b1 by (auto simp: lib_ok_def owned_def)
  show ?thesis
  proof (cases k)
    case False
    then show ?thesis using d l ok1 \<open>\<not> b_probed b\<close> by (simp add: devEnsureProbed_def)
  next
    case True
    then obtain q b2 where q: "probe_loop fuel P passed C (be_devices e) 0 (b1\<lparr>b_nextUnitNumber := 0\<rparr>) = Some (q, b2)"
      and b': "b' = b2\<lparr>b_probed := True\<rparr>" using d l \<open>\<not> b_probed b\<close> by (auto simp: devEnsureProbed_def nvme_probe_all_def)
    have z: "counts b1 u = 0" for u by (rule lib_ok_unprobed [OF ok1(1,3)])
    then have "\<forall>u. counts (b1\<lparr>b_nextUnitNumber := 0\<rparr>) u = 0" by (simp add: counts_def)
    moreover have "owned (b1\<lparr>b_nextUnitNumber := 0\<rparr>)" using ok1(1) by (simp add: lib_ok_def owned_def counts_def)
    moreover have "list_all pc_bar0 (b_controllers (b1\<lparr>b_nextUnitNumber := 0\<rparr>))" using ok1(1) by (simp add: lib_ok_def)
    ultimately have r: "\<forall>u. counts b2 u = 0" "owned b2" "list_all pc_bar0 (b_controllers b2)" "lib_frame b2 = lib_frame b"
      using probe_loop_ok [OF P q] ok1(2) by (simp_all add: lib_frame_def)
    have "unat (b_OpenCnt b) = 0" using ok1(1,2) counts_closed [of b1] z by (simp add: lib_ok_def lib_frame_def)
    moreover have "counts b' = counts b2" by (simp add: counts_def [abs_def] b')
    ultimately show ?thesis
      using r counts_closed [of b2] by (simp add: lib_ok_def b' lib_frame_def owned_def)
  qed
qed

lemma on_unit_ok:
  assumes "on_unit u f b = (r, b')" "b_unit_ctrl b u < length (b_controllers b)"
    and f: "f (load_base b (pc_ctrl (b_controllers b ! b_unit_ctrl b u))) = (r, s)" and l: "k_base_units s = b_units b"
  shows "b_unit b' = k_units s" "b_units b' = b_units b" "b_unit_ctrl b' = b_unit_ctrl b" "length (b_controllers b') = length (b_controllers b)"
    "lib_frame b' = lib_frame b" "b_probed b' = b_probed b" "list_all pc_bar0 (b_controllers b) \<Longrightarrow> list_all pc_bar0 (b_controllers b')"
  using assms by (auto simp: list_all_length nth_list_update on_unit_def Let_def store_base_def lib_frame_def split: prod.splits)

lemma open_ok:
  assumes P: "dma_pool_ok P" and ok: "lib_ok b" "unat (b_OpenCnt b) < 65535"
    and o: "openLib fuel P passed C e unitNumber flags b = Some (r, b')"
  shows "lib_ok b' \<and> b_listed b' = b_listed b \<and> b_freed b' = b_freed b"
proof -
  obtain k b1 where d: "devEnsureProbed fuel P passed C e b = Some (k, b1)" using o by (auto simp: openLib_def split: option.splits prod.splits)
  note e = ensure_probed_ok [OF P ok(1) d]
  let ?f = "find (\<lambda>u. u_unitNumber (b_unit b1 u) = unitNumber) (b_units b1)"
  show ?thesis
  proof (cases "k \<and> ?f \<noteq> None")
    case False
    then have "b' = b1" using o d by (auto simp: openLib_def split: option.splits bool.splits)
    then show ?thesis using e by (simp add: lib_frame_def)
  next
    case True
    then obtain u where u: "?f = Some u" by blast
    then have "u \<in> set (b_units b1)" by (auto dest: find_SomeD)
    then have i: "b_unit_ctrl b1 u < length (b_controllers b1)" using e by (auto simp: lib_ok_def owned_def)
    let ?s = "load_base b1 (pc_ctrl (b_controllers b1 ! b_unit_ctrl b1 u))"
    obtain opn s where f: "UnitOpen u flags ?s = (opn, s)" by fastforce
    obtain x b2 where ou: "on_unit u (UnitOpen u flags) b1 = (x, b2)" by fastforce
    have x: "x = opn" using ou f by (simp add: on_unit_def Let_def)
    have s: "k_base_units s = b_units b1" "k_units s = (if opn then (b_unit b1)(u := (b_unit b1 u)\<lparr>u_flags := flags, u_openCnt := u_openCnt (b_unit b1 u) + 1\<rparr>) else b_unit b1)"
      using f by (auto simp: UnitOpen_def load_base_def split: if_splits)
    note b2 = on_unit_ok [OF ou i f [folded x] s(1)]
    have cn: "counts b2 = (if opn then (counts b1)(u := counts b1 u + 1) else counts b1)"
      by (auto simp: counts_def b2(1) s(2))
    have l1: "finite {u. counts b1 u \<noteq> 0}" "unat (b_OpenCnt b1) = opens (counts b1)" "owned b1" "unat (b_OpenCnt b1) < 65535"
      using e ok(2) by (auto simp: lib_ok_def lib_frame_def)
    have le: "unat (counts b1 u) < 65535" using count_le_opens [OF l1(1), of u] l1(2,4) by simp
    have inc: "unat (w + 1 :: u16) = unat w + 1" if "unat w < 65535" for w :: u16 using that by (simp add: unat_word_ariths(1))
    have op: "owned b2" using l1(3) i by (auto simp: owned_def b2 cn split: if_splits)
    have pb: "\<not> b_probed b2 \<longrightarrow> b_controllers b2 = [] \<and> b_units b2 = []" using e b2(2,4,6) by (auto simp: lib_ok_def)
    have br: "list_all pc_bar0 (b_controllers b2)" using e b2(7) by (simp add: lib_ok_def)
    show ?thesis
    proof (cases opn)
      case False
      then have "b' = b2" using o d u True ou x by (simp add: openLib_def)
      then show ?thesis using e b2(5) cn False op pb br l1 by (auto simp: lib_ok_def lib_frame_def)
    next
      case opn: True
      then have b': "b' = b2\<lparr>b_OpenCnt := b_OpenCnt b2 + 1, b_Flags := b_Flags b2 AND NOT LIBF_DELEXP\<rparr>" using o d u True ou x by (simp add: openLib_def)
      have "opens (counts b2) = opens (counts b1) + 1" using opens_update(2) [OF l1(1), of u "counts b1 u + 1"] inc [OF le] cn opn by simp
      moreover have "unat (b_OpenCnt b2 + 1) = unat (b_OpenCnt b1) + 1" using inc l1(4) b2(5) by (simp add: lib_frame_def)
      moreover have "counts b' = counts b2" by (simp add: counts_def [abs_def] b')
      ultimately show ?thesis
        using opens_update(1) [OF l1(1), of u "counts b1 u + 1"] l1(2) cn opn op pb br e b2(5) by (simp add: lib_ok_def b' owned_def lib_frame_def)
    qed
  qed
qed

text \<open>Taking down a controller that was probed gives back all that the probe took.\<close>

lemma unprobe_releases:
  assumes "pc_bar0 c" "unprobe_ctrl fuel P passed e sync c = Some c'"
  shows "released c'"
proof -
  obtain s where c': "c' = (let c1 = c\<lparr>pc_ctrl := nvme_teardown_queue Admin_q (nvme_teardown_queue Io_q s)\<rparr>;
      c2 = on_ctrl join_unit_task (on_ctrl join_admin_task (int_shutdown c1))
    in delete_pools (on_ctrl (\<lambda>s. case k_effects s of None \<Rightarrow> s | Some (a, _) \<Rightarrow> (dma_free a s)\<lparr>k_effects := None\<rparr>) (hw_shutdown c2)))"
    using assms by (auto simp: unprobe_ctrl_def Let_def)
  have a: "\<not> k_admin_task (join_admin_task x)" for x by (simp add: join_admin_task_def AdminWorker_exit_def)
  have u: "\<not> k_unit_task (join_unit_task x)" "k_admin_task (join_unit_task x) = k_admin_task x" for x
    using exit_frame(3,4) by (simp_all add: join_unit_task_def)
  have "\<not> pc_isr (int_shutdown x)" if "pc_bar0 x" for x using that by (simp add: int_shutdown_def nvme_int_shutdown_def)
  then show ?thesis using assms(1) a u
    by (auto simp: c' Let_def released_def delete_pools_def hw_shutdown_def on_ctrl_def dma_free_def split: option.split)
qed

lemma unprobe_loop_releases:
  "list_all pc_bar0 cs \<Longrightarrow> unprobe_loop fuel P passed e sync i cs = Some cs' \<Longrightarrow> list_all released cs' \<and> length cs' = length cs"
proof (induction cs arbitrary: i cs')
  case (Cons c cs)
  then obtain d ds where "unprobe_ctrl fuel P passed (e i) sync c = Some d" "unprobe_loop fuel P passed e sync (i + 1) cs = Some ds" "cs' = d # ds"
    by (auto split: option.splits)
  then show ?case using Cons.IH [of "i + 1" ds] Cons.prems(1) unprobe_releases [of c] by auto
qed simp

text \<open>What an expunge did: the base is kept as it is, or it is gone and every controller was taken down.\<close>

definition expunge_result :: "NVMeDevice \<Rightarrow> bool \<Rightarrow> NVMeDevice \<Rightarrow> bool" where
  "expunge_result b gone b' \<longleftrightarrow> b_listed b' = (b_listed b \<and> \<not> gone) \<and>
     (if gone then b_OpenCnt b' = 0 \<and> b_controllers b' = [] \<and> b_units b' = [] \<and>
        (\<exists>cs. b_freed b' = b_freed b @ cs \<and> list_all released cs \<and> length cs = length (b_controllers b))
      else length (b_controllers b') = length (b_controllers b) \<and> b_freed b' = b_freed b)"

lemma expunge_ok:
  assumes ok: "lib_ok b" and x: "expungeLib fuel P passed pe sync removable b = Some (gone, b')"
  shows "lib_ok b' \<and> expunge_result b gone b'"
proof (cases "0 < b_OpenCnt b \<or> \<not> removable")
  case True
  then show ?thesis using x ok by (auto simp: expungeLib_def lib_ok_def owned_def counts_def [abs_def] expunge_result_def split: if_splits)
next
  case False
  then obtain cs where u: "unprobe_loop fuel P passed pe sync 0 (b_controllers b) = Some cs" and g: gone
    and b': "b' = (nvme_close_libraries (b\<lparr>b_controllers := [], b_units := [], b_freed := b_freed b @ cs, b_guard := False\<rparr>))\<lparr>b_listed := False\<rparr>"
    using x by (auto simp: expungeLib_def nvme_unprobe_all_def)
  have "b_OpenCnt b = 0" using False by (simp add: word_gt_0)
  then have "opens (counts b) = 0" "finite {u. counts b u \<noteq> 0}" using ok by (auto simp: lib_ok_def)
  then have z: "counts b u = 0" for u using opens_zero by blast
  moreover have "counts b' = counts b" by (simp add: counts_def [abs_def] b' nvme_close_libraries_def)
  ultimately have "counts b' u = 0" for u by simp
  then have "lib_ok b'" using \<open>b_OpenCnt b = 0\<close> counts_closed [of b'] by (simp add: lib_ok_def owned_def b' nvme_close_libraries_def)
  moreover have "list_all released cs \<and> length cs = length (b_controllers b)" using unprobe_loop_releases [OF _ u] ok by (simp add: lib_ok_def)
  ultimately show ?thesis using g \<open>b_OpenCnt b = 0\<close> by (simp add: expunge_result_def b' nvme_close_libraries_def)
qed

lemma close_flush_base: "unit_base (nvme_unit_close_flush port io u s) = unit_base s"
  by (simp add: nvme_unit_close_flush_def put_unit_msg_def upd_io_def emit_def unit_base_def)

lemma unit_close_base:
  assumes "u_openCnt (k_units s u) \<noteq> 0"
  shows "unit_base (snd (UnitClose port io u s)) =
    ((k_units s)(u := (k_units s u)\<lparr>u_openCnt := u_openCnt (k_units s u) - 1\<rparr>), k_base_units s, k_nextUnitNumber s)"
  using assms by (simp add: UnitClose_def Let_def close_flush_base word_gt_0) (simp add: unit_base_def)

lemma close_ok:
  assumes ok: "lib_ok b" and u: "u_openCnt (b_unit b u) \<noteq> 0" and w: "\<forall>s. unit_base (wait s) = unit_base s"
    and c: "closeLib fuel P passed pe sync removable wait port io u b = Some (gone, b')"
  shows "lib_ok b' \<and> expunge_result b gone b'"
proof -
  let ?g = "\<lambda>s. case UnitClose port io u s of (n, s1) \<Rightarrow> (n, if n = 0 then wait s1 else s1)"
  let ?s = "load_base b (pc_ctrl (b_controllers b ! b_unit_ctrl b u))"
  have i: "b_unit_ctrl b u < length (b_controllers b)" using ok u by (auto simp: lib_ok_def owned_def counts_def)
  obtain n s where f: "?g ?s = (n, s)" by (cases "?g ?s")
  obtain x b1 where ou: "on_unit u ?g b = (x, b1)" by (cases "on_unit u ?g b")
  have x: "x = n" using ou f by (simp add: on_unit_def Let_def split: prod.splits)
  obtain n' s1 where uc: "UnitClose port io u ?s = (n', s1)" by fastforce
  have "unit_base s1 = ((b_unit b)(u := (b_unit b u)\<lparr>u_openCnt := u_openCnt (b_unit b u) - 1\<rparr>), b_units b, b_nextUnitNumber b)"
    using unit_close_base [of ?s u port io] uc u by (simp add: load_base_def)
  moreover have "unit_base s = unit_base s1" using f uc w by (auto split: if_splits)
  ultimately have s: "k_base_units s = b_units b" "k_units s = (b_unit b)(u := (b_unit b u)\<lparr>u_openCnt := u_openCnt (b_unit b u) - 1\<rparr>)"
    by (simp_all add: unit_base_def)
  note b1 = on_unit_ok [OF ou i f [folded x] s(1)]
  have cn: "counts b1 = (counts b)(u := counts b u - 1)" by (auto simp: counts_def b1(1) s(2))
  have l: "finite {u. counts b u \<noteq> 0}" "unat (b_OpenCnt b) = opens (counts b)" "owned b" "counts b u \<noteq> 0" using ok u by (auto simp: lib_ok_def counts_def)
  define b2 where "b2 = b1\<lparr>b_OpenCnt := b_OpenCnt b1 - 1\<rparr>"
  have dec: "unat (y - 1) = unat y - 1" if "y \<noteq> 0" for y :: u16 using that by (metis unat_minus_one)
  have pos: "0 < unat (counts b u)" "0 < opens (counts b)" using l(4) count_le_opens [OF l(1), of u] by (auto simp: unat_eq_zero intro!: gr0I)
  then have "b_OpenCnt b \<noteq> 0" using l(2) by auto
  then have "unat (b_OpenCnt b2) = unat (b_OpenCnt b) - 1" using dec b1(5) by (simp add: b2_def lib_frame_def)
  moreover have "opens (counts b1) = opens (counts b) - 1"
    using opens_update(2) [OF l(1), of u "counts b u - 1"] dec [OF l(4)] pos cn by simp
  moreover have c2: "counts b2 = counts b1" by (simp add: counts_def [abs_def] b2_def)
  moreover have "owned b2" using l(3,4) by (auto simp: owned_def b2_def b1 c2 [unfolded b2_def] cn split: if_splits)
  moreover have "\<not> b_probed b2 \<longrightarrow> b_controllers b2 = [] \<and> b_units b2 = []" using ok b1(2,4,6) by (auto simp: lib_ok_def b2_def)
  moreover have "list_all pc_bar0 (b_controllers b2)" using b1(7) ok by (simp add: b2_def lib_ok_def)
  ultimately have ok2: "lib_ok b2" using l(2) opens_update(1) [OF l(1), of u "counts b u - 1"] cn by (simp add: lib_ok_def)
  have li: "b_listed b2 = b_listed b" "b_freed b2 = b_freed b" "length (b_controllers b2) = length (b_controllers b)"
    using b1(4,5) by (simp_all add: b2_def lib_frame_def)
  have "(gone, b') = (False, b2) \<or> expungeLib fuel P passed pe sync removable b2 = Some (gone, b')"
    using c ou by (auto simp: closeLib_def Let_def b2_def split: if_splits)
  then show ?thesis
  proof
    assume "(gone, b') = (False, b2)"
    then show ?thesis using ok2 li by (simp add: expunge_result_def)
  next
    assume x: "expungeLib fuel P passed pe sync removable b2 = Some (gone, b')"
    have "expunge_result b gone b' = expunge_result b2 gone b'" by (simp add: expunge_result_def li)
    then show ?thesis using expunge_ok [OF ok2 x] by simp
  qed
qed

lemma runs_ok:
  assumes ok: "lib_ok b" and i: "i < length (b_controllers b)"
    and f: "keeps_opens (load_base b (pc_ctrl (b_controllers b ! i))) (f (load_base b (pc_ctrl (b_controllers b ! i))))"
  shows "lib_ok (ctrl_runs i f b)"
proof -
  have "counts (ctrl_runs i f b) = counts b"
    using f by (auto simp: counts_def ctrl_runs_def Let_def store_base_def load_base_def keeps_opens_def)
  then show ?thesis using ok i by (auto simp: lib_ok_def owned_def list_all_length nth_list_update ctrl_runs_def Let_def store_base_def lib_frame_def)
qed

text \<open>
  The open count of the library is the number of opens of its units, in every history of opens,
  closes, expunges and activity of the tasks that keeps the counts, and a unit that is listed or still open has a
  controller.  An expunge removes the base only when no unit is open; it then took down every controller the base held, and
  each of them gave back board, registers, interrupt server, tasks, pools and DMA memory.
\<close>

theorem library_opens_accounted:
  assumes "dev_reach guard b"
  shows "unat (b_OpenCnt b) = opens (counts b) \<and>
    (\<forall>u. u \<in> set (b_units b) \<or> u_openCnt (b_unit b u) \<noteq> 0 \<longrightarrow> b_unit_ctrl b u < length (b_controllers b)) \<and>
    (b_listed b \<longrightarrow> b_freed b = []) \<and>
    (\<not> b_listed b \<longrightarrow> b_controllers b = [] \<and> b_units b = [] \<and> (\<forall>u. u_openCnt (b_unit b u) = 0) \<and> list_all released (b_freed b)) \<and>
    (\<forall>fuel P passed pe sync removable gone b'. expungeLib fuel P passed pe sync removable b = Some (gone, b') \<longrightarrow> expunge_result b gone b')"
proof -
  have "lib_ok b \<and> (if b_listed b then b_freed b = [] else b_controllers b = [] \<and> b_units b = [] \<and> b_OpenCnt b = 0 \<and> list_all released (b_freed b))"
    using assms
  proof induction
    case start
    have "counts (initFunction guard) u = 0" for u by (simp add: counts_def initFunction_def zero_unit_def)
    then show ?case using counts_closed [of "initFunction guard"] by (simp add: lib_ok_def owned_def) (simp add: initFunction_def)
  next
    case (opened b P fuel passed C e unitNumber flags r b')
    then show ?case using open_ok [OF opened.hyps(3) _ opened.hyps(4,5)] by simp
  next
    case (closed b u wait fuel P passed pe sync removable port io gone b')
    then show ?case using close_ok [OF _ closed.hyps(3,4,5)] by (auto simp: expunge_result_def split: if_splits)
  next
    case (expunged b fuel P passed pe sync removable gone b')
    then show ?case using expunge_ok [OF _ expunged.hyps(3)] by (auto simp: expunge_result_def split: if_splits)
  next
    case (ran b i s f)
    have "b_listed (ctrl_runs i f b) = b_listed b" "b_freed (ctrl_runs i f b) = b_freed b" by (simp_all add: ctrl_runs_def Let_def store_base_def)
    then show ?case using ran runs_ok [of b i f] by simp
  qed
  then have ok: "lib_ok b" "if b_listed b then b_freed b = [] else b_controllers b = [] \<and> b_units b = [] \<and> b_OpenCnt b = 0 \<and> list_all released (b_freed b)"
    by blast+
  have closed: "u_openCnt (b_unit b u) = 0" if "b_OpenCnt b = 0" for u
    using ok(1) that opens_zero [of "counts b" u] by (simp add: lib_ok_def counts_def)
  show ?thesis using ok closed expunge_ok [OF ok(1)] by (auto simp: lib_ok_def owned_def counts_def split: if_splits)
qed

theorem library_opens_accounted_witness:
  "\<exists>b. dev_reach True b \<and> \<not> b_listed b \<and> b_OpenCnt b = 0 \<and> b_controllers b = []"
proof -
  let ?b0 = "initFunction True" and ?e = "\<lparr>be_libs = \<lparr>le_utility = False, le_pcie = True, le_bcm2711 = True\<rparr>, be_devices = []\<rparr>"
  have o: "openLib 1 m68k_platform signed_passed demo_config ?e 0 0 ?b0 = Some (None, ?b0)"
    by (simp add: openLib_def devEnsureProbed_def nvme_open_libraries_def nvme_close_libraries_def initFunction_def)
  have r0: "dev_reach True ?b0"
    by (rule dev_reach.opened [OF dev_reach.start _ m68k_dma_pool_ok _ o]) (simp_all add: initFunction_def)
  define b where "b = (nvme_close_libraries (?b0\<lparr>b_controllers := [], b_units := [], b_guard := False\<rparr>))\<lparr>b_listed := False\<rparr>"
  have "expungeLib 1 m68k_platform signed_passed (\<lambda>_. demo_poll) (\<lambda>_. Ret_ok) True ?b0 = Some (True, b)"
    by (simp add: expungeLib_def nvme_unprobe_all_def b_def initFunction_def)
  then have "dev_reach True b" by (rule dev_reach.expunged [OF r0, rotated]) (simp add: initFunction_def)
  moreover have "\<not> b_listed b" by (simp add: b_def)
  ultimately show ?thesis using library_opens_accounted [of True b] by (auto simp: b_def initFunction_def nvme_close_libraries_def)
qed

text \<open>
  An expunge that finds the device open is remembered and carried out by the close of the last
  unit, unless the reset guard has been patched over.
\<close>

lemma last_close_expunges:
  assumes "b_OpenCnt b = 1" "b_Flags b AND LIBF_DELEXP \<noteq> 0"
    and c: "closeLib fuel P passed pe sync True wait port io u b = Some (gone, b')"
  shows "gone \<and> \<not> b_listed b'"
proof -
  let ?g = "\<lambda>s. case UnitClose port io u s of (n, s1) \<Rightarrow> (n, if n = 0 then wait s1 else s1)"
  obtain n b1 where ou: "on_unit u ?g b = (n, b1)" by (cases "on_unit u ?g b")
  then have "b_OpenCnt b1 = 1" "b_Flags b1 AND LIBF_DELEXP \<noteq> 0" using assms(1,2) by (auto simp: on_unit_def Let_def store_base_def split: prod.splits)
  then have "expungeLib fuel P passed pe sync True (b1\<lparr>b_OpenCnt := 0\<rparr>) = Some (gone, b')" using c ou by (simp add: closeLib_def Let_def)
  then show ?thesis by (auto simp: expungeLib_def nvme_close_libraries_def)
qed

end
