(* ===== verification/Adm_Format.thy ===== *)
theory Adm_Format
  imports Nvme_Prelude
begin

text \<open>
  Number formatting of the nvmeadm program, src/tools/nvmeadm_core.c: little-endian reads, decimal
  text of integers of up to 24 bytes, and sizes scaled to binary units.

  A byte buffer is its list of bytes, lowest first; its length is the length argument of the code.
  A formatted text is the string up to its terminating zero.  A \<open>Printf\<close> is recorded with its format
  string and arguments; the expansion of the format is the work of dos.library.  \<open>ABuf n f xs\<close> is an argument that
  the program first formats, with f and xs, into a buffer of n bytes.
\<close>

section \<open>Output\<close>

datatype parg = AStr string | ANum u32 | ABuf nat string "parg list"

datatype out = Printf string "parg list"

section \<open>Little-endian integers\<close>

definition read_le16 :: "u8 list \<Rightarrow> u16" where
  "read_le16 bytes = ucast (bytes ! 0) OR push_bit 8 (ucast (bytes ! 1))"

definition read_le32 :: "u8 list \<Rightarrow> u32" where
  "read_le32 bytes = ucast (bytes ! 0) OR push_bit 8 (ucast (bytes ! 1)) OR push_bit 16 (ucast (bytes ! 2)) OR
     push_bit 24 (ucast (bytes ! 3))"

definition read_le64 :: "u8 list \<Rightarrow> u64" where
  "read_le64 bytes = ucast (bytes ! 0) OR push_bit 8 (ucast (bytes ! 1)) OR push_bit 16 (ucast (bytes ! 2)) OR
     push_bit 24 (ucast (bytes ! 3)) OR push_bit 32 (ucast (bytes ! 4)) OR push_bit 40 (ucast (bytes ! 5)) OR
     push_bit 48 (ucast (bytes ! 6)) OR push_bit 56 (ucast (bytes ! 7))"

fun bytes_all_zero :: "u8 list \<Rightarrow> bool" where
  "bytes_all_zero [] = True"
| "bytes_all_zero (b # bs) = (if b \<noteq> 0 then False else bytes_all_zero bs)"

text \<open>The number a buffer stands for, the reference of this theory.\<close>

fun le_val :: "u8 list \<Rightarrow> nat" where
  "le_val [] = 0"
| "le_val (b # bs) = unat b + 256 * le_val bs"

section \<open>Division\<close>

text \<open>
  The loop from the highest byte down, shared by the decimal conversion and by
  \<open>le_bytes_divide_u16\<close>: the quotient bytes in place and the remainder.
\<close>

fun le_bytes_divide :: "u32 \<Rightarrow> u8 list \<Rightarrow> u8 list \<times> u32" where
  "le_bytes_divide d [] = ([], 0)"
| "le_bytes_divide d (b # bs) =
    (let (qs, carry) = le_bytes_divide d bs; cur = push_bit 8 carry OR ucast b
     in (ucast (cur div d) # qs, cur mod d))"

definition le_bytes_divide_u16 :: "u8 list \<Rightarrow> u16 \<Rightarrow> u8 list \<times> u16" where
  "le_bytes_divide_u16 bytes divisor = map_prod id ucast (le_bytes_divide (ucast divisor) bytes)"

section \<open>Decimal text\<close>

text \<open>
  The digits come lowest first and are written out in reverse, so the accumulator holds the text.  The first
  argument is the free space of the digit buffer.
\<close>

fun digit_loop :: "nat \<Rightarrow> u8 list \<Rightarrow> string \<Rightarrow> string" where
  "digit_loop 0 tmp digits = digits"
| "digit_loop (Suc room) tmp digits =
    (if bytes_all_zero tmp then digits
     else let (q, carry) = le_bytes_divide 10 tmp in digit_loop room q (char_of (48 + unat carry) # digits))"

text \<open>None is an output buffer of length zero, which is left as it is.\<close>

definition format_le_decimal :: "u8 list \<Rightarrow> nat \<Rightarrow> string option" where
  "format_le_decimal bytes out_len =
    (if out_len = 0 then None
     else if 24 < length bytes then Some ''''
     else if bytes_all_zero bytes then Some (if 1 < out_len then ''0'' else '''')
     else Some (take (out_len - 1) (digit_loop 39 bytes '''')))"

definition format_le128_decimal :: "u8 list \<Rightarrow> nat \<Rightarrow> string option" where
  "format_le128_decimal bytes out_len = format_le_decimal (take 16 bytes) out_len"

definition u64_bytes :: "u64 \<Rightarrow> u8 list" where
  "u64_bytes bytes = map (\<lambda>i. ucast (drop_bit (8 * i) bytes AND 0xff)) [0..<8]"

definition format_u64_decimal :: "u64 \<Rightarrow> nat \<Rightarrow> string option" where
  "format_u64_decimal bytes out_len = format_le128_decimal (u64_bytes bytes @ replicate 8 0) out_len"

section \<open>Scaled sizes\<close>

fun mul_loop :: "u32 \<Rightarrow> u8 list \<Rightarrow> u32 \<Rightarrow> u8 list \<times> u32" where
  "mul_loop m [] carry = ([], carry)"
| "mul_loop m (b # bs) carry =
    (let product = ucast b * m + carry; (os, c) = mul_loop m bs (drop_bit 8 product)
     in (ucast (product AND 0xff) # os, c))"

fun carry_loop :: "nat \<Rightarrow> u32 \<Rightarrow> u8 list" where
  "carry_loop 0 carry = []"
| "carry_loop (Suc n) carry =
    (if carry = 0 then replicate (Suc n) 0 else ucast (carry AND 0xff) # carry_loop n (drop_bit 8 carry))"

definition mul_u128_small :: "u8 list \<Rightarrow> u32 \<Rightarrow> nat \<Rightarrow> u8 list" where
  "mul_u128_small bytes multiplier out_len =
    (let (os, carry) = mul_loop multiplier (take (min 16 out_len) bytes) 0
     in if out_len < 16 then os else os @ carry_loop (out_len - 16) carry)"

definition le_bytes_ge_u16 :: "u8 list \<Rightarrow> u16 \<Rightarrow> bool" where
  "le_bytes_ge_u16 bytes threshold \<longleftrightarrow> (\<exists>b \<in> set (drop 2 bytes). b \<noteq> 0) \<or> threshold \<le> read_le16 bytes"

fun scale_loop :: "nat \<Rightarrow> u8 list \<Rightarrow> u16 \<Rightarrow> nat \<Rightarrow> u8 list \<times> u16 \<times> nat" where
  "scale_loop 0 bytes remainder unit_index = (bytes, remainder, unit_index)"
| "scale_loop (Suc left) bytes remainder unit_index =
    (if le_bytes_ge_u16 bytes 1024
     then case le_bytes_divide_u16 bytes 1024 of (q, r) \<Rightarrow> scale_loop left q r (unit_index + 1)
     else (bytes, remainder, unit_index))"

definition size_units :: "string list" where
  "size_units = [''B'', ''KiB'', ''MiB'', ''GiB'', ''TiB'']"

definition print_le_bytes_scaled :: "string \<Rightarrow> u8 list \<Rightarrow> out list" where
  "print_le_bytes_scaled label bytes =
    (case scale_loop 4 bytes 0 0 of (q, remainder, unit_index) \<Rightarrow>
       let integer_text = (case format_le_decimal q 40 of None \<Rightarrow> '''' | Some t \<Rightarrow> t) in
       if unit_index = 0 \<or> remainder = 0
       then [Printf ''%-24s %s %s\<newline>'' [AStr label, AStr integer_text, AStr (size_units ! unit_index)]]
       else [Printf ''%-24s %s.%lu %s\<newline>''
              [AStr label, AStr integer_text, ANum (ucast remainder * 10 div 1024), AStr (size_units ! unit_index)]])"

definition print_smart_data_amount :: "string \<Rightarrow> u8 list \<Rightarrow> out list" where
  "print_smart_data_amount label bytes = print_le_bytes_scaled label (mul_u128_small bytes 512000 24)"

definition print_binary_size :: "string \<Rightarrow> u64 \<Rightarrow> out list" where
  "print_binary_size label bytes = print_le_bytes_scaled label (u64_bytes bytes)"

section \<open>The arithmetic is exact\<close>

lemma bytes_all_zero_iff: "bytes_all_zero bs \<longleftrightarrow> le_val bs = 0"
  by (induction bs) (auto simp: unat_eq_zero)

lemma byte_bound: "unat (b :: u8) < 256"
  using unat_lt_size [of b] by simp

lemma le_val_bound: "le_val bs < 256 ^ length bs"
proof (induction bs)
  case (Cons b bs)
  then show ?case using byte_bound [of b] by simp
qed simp

lemma le_val_append: "le_val (xs @ ys) = le_val xs + 256 ^ length xs * le_val ys"
  by (induction xs) (auto simp: algebra_simps)

lemma le_val_zeros [simp]: "le_val (replicate n 0) = 0"
  by (induction n) auto

lemma unat_byte [simp]: "unat (ucast (b :: u8) :: u32) = unat b"
  using byte_bound [of b] by (simp add: unat_ucast_mod)

lemma unat_shift_or:
  fixes c :: u32 and b :: u8
  assumes "unat c < 2 ^ 24"
  shows "unat (push_bit 8 c OR ucast b) = 256 * unat c + unat b"
proof -
  have "push_bit 8 c OR ucast b = push_bit 8 c + (ucast b :: u32)"
    by (rule disjunctive_add [symmetric]) (auto simp: bit_simps dest: bit_imp_le_length)
  then show ?thesis using assms byte_bound [of b] by (simp add: unat_word_ariths push_bit_eq_mult)
qed

lemma le_bytes_divide_ok:
  assumes "0 < unat d" "unat d \<le> 2 ^ 16" "le_bytes_divide d bs = (qs, r)"
  shows "length qs = length bs \<and> unat r < unat d \<and> le_val qs = le_val bs div unat d \<and> unat r = le_val bs mod unat d"
  using assms(3)
proof (induction bs arbitrary: qs r)
  case (Cons b bs)
  obtain qs' c where rec: "le_bytes_divide d bs = (qs', c)" by (cases "le_bytes_divide d bs")
  note ih = Cons.IH [OF rec]
  define cur where "cur = push_bit 8 c OR (ucast b :: u32)"
  have c: "unat cur = 256 * unat c + unat b" unfolding cur_def by (rule unat_shift_or) (use ih assms(2) in simp)
  have "unat cur < unat d * 256" using c ih byte_bound [of b] by linarith
  then have q: "unat (cur div d) < 256" by (simp add: unat_div less_mult_imp_div_less)
  have "unat (ucast (cur div d) :: u8) = unat (cur div d)" using q by (simp add: unat_ucast_mod)
  then have qv: "le_val (ucast (cur div d) # qs') = unat cur div unat d + 256 * le_val qs'" by (simp add: unat_div)
  have "le_val bs = unat d * le_val qs' + unat c" using ih by simp
  then have v: "le_val (b # bs) = unat cur + (256 * le_val qs') * unat d" by (simp add: c algebra_simps)
  have "qs = ucast (cur div d) # qs'" "r = cur mod d" using Cons.prems rec by (auto simp: cur_def Let_def)
  then show ?case using ih qv v assms(1) by (simp add: unat_mod)
qed (use assms in simp)

section \<open>Decimal text is right\<close>

text \<open>The reference: the decimal digits of a number without leading zeros, and the number of a text.\<close>

fun dec_digits :: "nat \<Rightarrow> string" where
  "dec_digits n = (if n = 0 then '''' else dec_digits (n div 10) @ [char_of (48 + n mod 10)])"

declare dec_digits.simps [simp del]

definition dec_text :: "nat \<Rightarrow> string" where
  "dec_text n = (if n = 0 then ''0'' else dec_digits n)"

definition dec_val :: "string \<Rightarrow> nat" where
  "dec_val t = foldl (\<lambda>n c. 10 * n + (of_char c - 48)) 0 t"

lemma dec_digits_0 [simp]: "dec_digits 0 = ''''"
  by (simp add: dec_digits.simps)

lemma digit_char: "d < 10 \<Longrightarrow> of_char (char_of (48 + d) :: char) = (48 + d :: nat)"
  by (simp add: of_char_of)

lemma dec_val_digits: "dec_val (dec_digits n) = n"
proof (induction n rule: dec_digits.induct)
  case (1 n)
  then show ?case
    by (subst dec_digits.simps) (auto simp: dec_val_def digit_char)
qed

lemma length_dec_digits: "length (dec_digits n) \<le> k \<longleftrightarrow> n < 10 ^ k"
proof (induction n arbitrary: k rule: dec_digits.induct)
  case (1 n)
  show ?case
  proof (cases "n = 0")
    case False
    then have "length (dec_digits n) = Suc (length (dec_digits (n div 10)))" by (subst dec_digits.simps) simp
    then show ?thesis using 1 [OF False, of "k - 1"] False
      by (cases k) (simp_all add: less_mult_imp_div_less div_less_iff_less_mult algebra_simps)
  qed simp
qed

lemma dec_digits_shape: "0 < n \<Longrightarrow> dec_digits n \<noteq> '''' \<and> hd (dec_digits n) \<noteq> CHR ''0'' \<and>
    (\<forall>c \<in> set (dec_digits n). of_char c \<in> {48..57 :: nat})"
proof (induction n rule: dec_digits.induct)
  case (1 n)
  have z: "of_char (CHR ''0'') = (48 :: nat)" by simp
  have d: "char_of (48 + n mod 10) \<noteq> CHR ''0''" if "n div 10 = 0"
  proof -
    have "0 < n mod 10" using that 1(2) by (simp add: div_eq_0_iff)
    then show ?thesis using digit_char [of "n mod 10"] by (metis add_cancel_right_right less_not_refl of_char_eq_iff pos_mod_bound z mod_less_divisor zero_less_numeral)
  qed
  have r: "(of_char (char_of (48 + n mod 10) :: char) :: nat) \<in> {48..57}" by (simp add: digit_char)
  show ?case
  proof (cases "n div 10 = 0")
    case True
    then show ?thesis using 1(2) d r by (subst (1 2 3) dec_digits.simps) (simp del: of_char_of)
  next
    case False
    then show ?thesis using 1 r by (subst (1 2 3) dec_digits.simps) (auto simp del: of_char_of)
  qed
qed

lemma digit_loop_digits: "le_val tmp < 10 ^ room \<Longrightarrow> digit_loop room tmp acc = dec_digits (le_val tmp) @ acc"
proof (induction room tmp acc rule: digit_loop.induct)
  case (2 room tmp digits)
  show ?case
  proof (cases "bytes_all_zero tmp")
    case False
    obtain q r where d: "le_bytes_divide 10 tmp = (q, r)" by (cases "le_bytes_divide 10 tmp")
    note ok = le_bytes_divide_ok [of 10, OF _ _ d]
    have "le_val q < 10 ^ room" using ok 2(2) by (simp add: less_mult_imp_div_less mult.commute)
    then have "digit_loop room q (char_of (48 + unat r) # digits) = dec_digits (le_val q) @ char_of (48 + unat r) # digits"
      using 2(1) [OF False d [symmetric] refl] by simp
    moreover have "dec_digits (le_val tmp) = dec_digits (le_val q) @ [char_of (48 + unat r)]"
      using False ok by (subst dec_digits.simps) (simp add: bytes_all_zero_iff)
    ultimately show ?thesis using False by (simp add: d)
  qed (simp add: bytes_all_zero_iff)
qed simp

lemma format_le_decimal_text:
  assumes "length bytes \<le> 24" "le_val bytes < 10 ^ (out_len - 1)" "1 < out_len" "out_len \<le> 40"
  shows "format_le_decimal bytes out_len = Some (dec_text (le_val bytes))"
proof -
  have "(10::nat) ^ (out_len - 1) \<le> 10 ^ 39" by (rule power_increasing) (use assms in auto)
  then have "digit_loop 39 bytes '''' = dec_digits (le_val bytes)" using digit_loop_digits [of bytes 39 "''''"] assms(2) by simp
  moreover have "length (dec_digits (le_val bytes)) \<le> out_len - 1" using assms(2) length_dec_digits by blast
  ultimately show ?thesis using assms by (simp add: format_le_decimal_def bytes_all_zero_iff dec_text_def)
qed

lemma unat_high: "unat (drop_bit k (w :: 'a::len word)) = unat w div 2 ^ k"
proof -
  have "take_bit LENGTH('a) (unat w) = unat w" by (rule take_bit_nat_eq_self) (rule unat_lt_size)
  then have "unat (drop_bit k w) = drop_bit k (unat w)" by (simp only: unsigned_drop_bit_eq)
  then show ?thesis by (simp only: drop_bit_nat_def)
qed

lemma unat_low: "unat (ucast (w AND 0xff :: 'a::len word) :: u8) = unat w mod 256"
proof -
  have "w AND 0xff = take_bit 8 w" by (simp add: take_bit_eq_mask mask_eq_decr_exp)
  then show ?thesis by (simp only: unat_ucast_mod unsigned_take_bit_eq) (simp add: take_bit_eq_mod)
qed

lemma le_val_low_bytes:
  "le_val (map (\<lambda>i. ucast (drop_bit (8 * i) (v :: 'a::len word) AND 0xff)) [k..<k + n]) = unat v div 256 ^ k mod 256 ^ n"
proof (induction n arbitrary: k)
  case (Suc n)
  have "[k..<k + Suc n] = k # [Suc k..<Suc k + n]" by (simp add: upt_conv_Cons)
  moreover have "(2::nat) ^ (8 * k) = 256 ^ k" by (simp add: power_mult)
  moreover have "unat v div 256 ^ Suc k = unat v div 256 ^ k div 256" by (simp add: div_mult2_eq [symmetric] mult.commute)
  ultimately show ?case using Suc [of "Suc k"]
    by (simp add: unat_low unat_high mod_mult2_eq del: upt_Suc power_Suc add: power_Suc [of 256 n])
qed simp

lemma u64_bytes_ok: "length (u64_bytes v) = 8" "le_val (u64_bytes v) = unat v"
proof -
  show "length (u64_bytes v) = 8" by (simp add: u64_bytes_def)
  show "le_val (u64_bytes v) = unat v"
    using le_val_low_bytes [of v 0 8] unat_lt_size [of v] by (simp add: u64_bytes_def)
qed

lemma format_u64_text: "format_u64_decimal n 24 = Some (dec_text (unat n))"
proof -
  have "le_val (u64_bytes n @ replicate 8 0) = unat n" by (simp add: le_val_append u64_bytes_ok)
  moreover have "unat n < 2 ^ 64" using unat_lt_size [of n] by simp
  ultimately have "format_le_decimal (u64_bytes n @ replicate 8 0) 24 = Some (dec_text (unat n))"
    by (subst format_le_decimal_text) (auto simp: u64_bytes_ok)
  then show ?thesis by (simp add: format_u64_decimal_def format_le128_decimal_def u64_bytes_ok)
qed

lemma format_le128_text: "length counter = 16 \<Longrightarrow> format_le128_decimal counter 40 = Some (dec_text (le_val counter))"
  using le_val_bound [of counter] by (simp add: format_le128_decimal_def) (rule format_le_decimal_text, simp_all)

lemma dec_val_text: "dec_val (dec_text k) = k"
  using dec_val_digits [of k] by (simp add: dec_text_def) (simp add: dec_val_def)

text \<open>
  C40.  Decimal output is right.  A number of at most 24 bytes that fits the output buffer and its
  39 digits is written as the decimal text of its value: digits only, no leading zero, and reading
  it gives the number back.  A 128-bit counter always fits the 40-byte buffers of the callers and
  a 64-bit number the 24-byte one.
\<close>

theorem decimal_roundtrip:
  assumes "length bytes \<le> 24" "le_val bytes < 10 ^ (out_len - 1)" "1 < out_len" "out_len \<le> 40" "length counter = 16"
  shows "(\<exists>t. format_le_decimal bytes out_len = Some t \<and> t \<noteq> '''' \<and> (\<forall>c \<in> set t. of_char c \<in> {48..57 :: nat}) \<and>
      (hd t = CHR ''0'' \<longrightarrow> t = ''0'') \<and> dec_val t = le_val bytes) \<and>
    (\<exists>t. format_le128_decimal counter 40 = Some t \<and> dec_val t = le_val counter) \<and>
    (\<exists>t. format_u64_decimal n 24 = Some t \<and> dec_val t = unat n)"
proof -
  have "dec_text k \<noteq> '''' \<and> (\<forall>c \<in> set (dec_text k). of_char c \<in> {48..57 :: nat}) \<and> (hd (dec_text k) = CHR ''0'' \<longrightarrow> dec_text k = ''0'')" for k
    using dec_digits_shape [of k] by (auto simp: dec_text_def)
  then show ?thesis
    using format_le_decimal_text [OF assms(1-4)] format_le128_text [OF assms(5)] format_u64_text [of n] dec_val_text by blast
qed

theorem decimal_roundtrip_witness:
  "format_le_decimal [0x39, 0x30] 10 = Some ''12345'' \<and> dec_val ''12345'' = le_val [0x39, 0x30]"
proof -
  have f: "format_le_decimal [0x39, 0x30] 10 = Some ''12345''" by code_simp
  then show ?thesis using decimal_roundtrip [of "[0x39, 0x30]" 10 "replicate 16 0" 0] by auto
qed

section \<open>Scaled sizes are right\<close>

lemma mul_loop_ok:
  assumes "unat m < 2 ^ 23" "unat carry < 2 ^ 23" "mul_loop m bs carry = (os, c)"
  shows "length os = length bs \<and> unat c < 2 ^ 23 \<and> le_val os + 256 ^ length bs * unat c = unat m * le_val bs + unat carry"
  using assms(2,3)
proof (induction bs arbitrary: carry os c)
  case (Cons b bs)
  define p where "p = ucast b * m + carry"
  obtain os' where rec: "mul_loop m bs (drop_bit 8 p) = (os', c)" and os: "os = ucast (p AND 0xff) # os'"
    using Cons.prems(2) by (auto simp: Let_def p_def split: prod.splits)
  have "unat b * unat m \<le> 255 * (2 ^ 23 - 1)" using byte_bound [of b] assms(1) by (intro mult_le_mono) auto
  then have p: "unat p = unat b * unat m + unat carry" using Cons.prems(1) by (simp add: p_def unat_word_ariths)
  have hi: "unat (drop_bit 8 p) = unat p div 256" using unat_high [of 8 p] by simp
  note lo = unat_low [of p]
  have "unat (drop_bit 8 p) < 2 ^ 23" using p hi \<open>unat b * unat m \<le> _\<close> Cons.prems(1) by simp
  from Cons.IH [OF this rec] have ih: "length os' = length bs" "unat c < 2 ^ 23"
    "le_val os' + 256 ^ length bs * unat c = unat m * le_val bs + unat p div 256" by (simp_all add: hi)
  have "le_val os + 256 ^ length (b # bs) * unat c = unat p mod 256 + 256 * (le_val os' + 256 ^ length bs * unat c)"
    by (simp add: os lo algebra_simps)
  also have "\<dots> = unat p + 256 * (unat m * le_val bs)" by (simp add: ih(3) distrib_left)
  finally show ?case using ih by (simp add: os p algebra_simps)
qed (use assms in simp)

lemma carry_loop_ok: "unat carry < 256 ^ n \<Longrightarrow> length (carry_loop n carry) = n \<and> le_val (carry_loop n carry) = unat carry"
proof (induction n carry rule: carry_loop.induct)
  case (2 n carry)
  have hi: "unat (drop_bit 8 carry) = unat carry div 256" using unat_high [of 8 carry] by simp
  have "unat (drop_bit 8 carry) < 256 ^ n" using 2(2) hi by (simp add: less_mult_imp_div_less mult.commute)
  then show ?case using 2(1) by (auto simp: hi unat_low simp del: replicate_Suc)
qed simp

lemma mul_u128_small_ok:
  assumes "length bytes = 16" "unat m < 2 ^ 23" "19 \<le> out_len"
  shows "length (mul_u128_small bytes m out_len) = out_len \<and> le_val (mul_u128_small bytes m out_len) = unat m * le_val bytes"
proof -
  obtain os c where l: "mul_loop m bytes 0 = (os, c)" by (cases "mul_loop m bytes 0")
  note ok = mul_loop_ok [OF assms(2) _ l]
  have "(256::nat) ^ 3 \<le> 256 ^ (out_len - 16)" by (rule power_increasing) (use assms in auto)
  then have "length (carry_loop (out_len - 16) c) = out_len - 16 \<and> le_val (carry_loop (out_len - 16) c) = unat c"
    using ok by (intro carry_loop_ok) simp
  then show ?thesis using assms ok by (simp add: mul_u128_small_def l le_val_append)
qed

lemma unat_read_le16: "unat (read_le16 (a # b # bs)) = unat a + 256 * unat b"
proof -
  have "ucast a OR push_bit 8 (ucast b) = (ucast a :: u16) + push_bit 8 (ucast b)"
    by (rule disjunctive_add [symmetric]) (auto simp: bit_simps dest: bit_imp_le_length)
  moreover have "unat (ucast x :: u16) = unat x" for x :: u8 using byte_bound [of x] by (simp add: unat_ucast_mod)
  ultimately show ?thesis
    using byte_bound [of a] byte_bound [of b] by (simp add: read_le16_def unat_word_ariths push_bit_eq_mult)
qed

lemma le_bytes_ge_iff: "2 \<le> length bytes \<Longrightarrow> le_bytes_ge_u16 bytes t \<longleftrightarrow> unat t \<le> le_val bytes"
proof -
  assume "2 \<le> length bytes"
  then obtain a b bs where bs: "bytes = a # b # bs" by (cases bytes; cases "tl bytes") auto
  have z: "(\<exists>x \<in> set bs. x \<noteq> 0) \<longleftrightarrow> le_val bs \<noteq> 0" by (induction bs) (auto simp: unat_eq_zero)
  have "unat t < 65536" using unat_lt_size [of t] by simp
  then show ?thesis
    by (auto simp: le_bytes_ge_u16_def bs z word_le_nat_alt unat_read_le16)
qed

lemma scale_loop_ok:
  assumes "2 \<le> length bytes" "scale_loop left bytes r u = (q, r', u')"
  shows "\<exists>j \<le> left. u' = u + j \<and> length q = length bytes \<and> le_val q = le_val bytes div 1024 ^ j \<and>
    (j < left \<longrightarrow> le_val bytes < 1024 ^ Suc j) \<and> (0 < j \<longrightarrow> 1024 ^ j \<le> le_val bytes) \<and>
    unat r' = (if j = 0 then unat r else le_val bytes div 1024 ^ (j - 1) mod 1024)"
  using assms
proof (induction left bytes r u rule: scale_loop.induct)
  case (2 left bytes r u)
  let ?v = "le_val bytes"
  show ?case
  proof (cases "1024 \<le> ?v")
    case False
    then have "q = bytes \<and> r' = r \<and> u' = u" using 2(2,3) by (simp add: le_bytes_ge_iff)
    then show ?thesis using False by (intro exI [of _ 0]) simp
  next
    case True
    obtain b1 c where d: "le_bytes_divide 1024 bytes = (b1, c)" by (cases "le_bytes_divide 1024 bytes")
    note ok = le_bytes_divide_ok [of 1024, OF _ _ d]
    have ge: "le_bytes_ge_u16 bytes 1024" using True 2(2) by (simp add: le_bytes_ge_iff)
    have d1: "le_bytes_divide_u16 bytes 1024 = (b1, ucast c)" by (simp add: le_bytes_divide_u16_def d)
    have "unat (ucast c :: u16) = unat c" using ok by (simp add: unat_ucast_mod)
    then have c: "unat (ucast c :: u16) = ?v mod 1024" using ok by simp
    from 2(1) [OF ge d1 [symmetric]] 2(2,3) ok d1 ge obtain j where j: "j \<le> left" "u' = u + 1 + j" "length q = length bytes"
      "le_val q = ?v div 1024 div 1024 ^ j" "j < left \<longrightarrow> ?v div 1024 < 1024 ^ Suc j" "0 < j \<longrightarrow> 1024 ^ j \<le> ?v div 1024"
      "unat r' = (if j = 0 then ?v mod 1024 else ?v div 1024 div 1024 ^ (j - 1) mod 1024)"
      by (auto simp: c)
    have "?v div 1024 ^ Suc j = ?v div 1024 div 1024 ^ j" for j by (simp add: div_mult2_eq)
    moreover from this have "j \<noteq> 0 \<Longrightarrow> ?v div 1024 ^ j = ?v div 1024 div 1024 ^ (j - 1)" by (cases j) simp_all
    ultimately show ?thesis using j True
      by (intro exI [of _ "Suc j"]) (auto simp: less_eq_div_iff_mult_less_eq div_less_iff_less_mult mult.commute)
  qed
qed auto

text \<open>
  The reference for a size: the largest unit not above it, at most TiB, the number of whole units, and
  one decimal unless the 1024th parts below the unit are zero.
\<close>

definition size_unit :: "nat \<Rightarrow> nat" where
  "size_unit v = (if v < 1024 then 0 else if v < 1024 ^ 2 then 1 else if v < 1024 ^ 3 then 2 else if v < 1024 ^ 4 then 3 else 4)"

definition scaled_text :: "string \<Rightarrow> nat \<Rightarrow> out" where
  "scaled_text label v =
    (let u = size_unit v; part = v div 1024 ^ (u - 1) mod 1024 in
     if u = 0 \<or> part = 0 then Printf ''%-24s %s %s\<newline>'' [AStr label, AStr (dec_text (v div 1024 ^ u)), AStr (size_units ! u)]
     else Printf ''%-24s %s.%lu %s\<newline>'' [AStr label, AStr (dec_text (v div 1024 ^ u)), ANum (of_nat (10 * part div 1024)), AStr (size_units ! u)])"

lemma size_unit_unique:
  assumes "u \<le> 4" "u < 4 \<longrightarrow> v < 1024 ^ Suc u" "0 < u \<longrightarrow> 1024 ^ u \<le> v"
  shows "u = size_unit v"
proof -
  consider "u = 0" | "u = 1" | "u = 2" | "u = 3" | "u = 4" using assms(1) by linarith
  then show ?thesis using assms(2,3) by cases (auto simp: size_unit_def)
qed

lemma print_scaled_ok:
  assumes "2 \<le> length bytes" "length bytes \<le> 24" "le_val bytes < 1024 ^ 4 * 10 ^ 39"
  shows "print_le_bytes_scaled label bytes = [scaled_text label (le_val bytes)]"
proof -
  let ?v = "le_val bytes"
  obtain q r u where s: "scale_loop 4 bytes 0 0 = (q, r, u)" by (cases "scale_loop 4 bytes 0 0")
  from scale_loop_ok [OF assms(1) s] have u: "u \<le> 4" "length q = length bytes" "le_val q = ?v div 1024 ^ u"
    "u < 4 \<longrightarrow> ?v < 1024 ^ Suc u" "0 < u \<longrightarrow> 1024 ^ u \<le> ?v" and r: "unat r = (if u = 0 then 0 else ?v div 1024 ^ (u - 1) mod 1024)"
    by auto
  have su: "size_unit ?v = u" using size_unit_unique u by simp
  have "le_val q < 10 ^ 39"
  proof (cases "u = 4")
    case True
    then show ?thesis using u(3) assms(3) by (simp add: less_mult_imp_div_less mult.commute)
  next
    case False
    then have "?v < 1024 ^ Suc u" using u by simp
    then show ?thesis using u(3) less_mult_imp_div_less [of ?v 1024 "1024 ^ u"] by simp
  qed
  then have t: "format_le_decimal q 40 = Some (dec_text (?v div 1024 ^ u))"
    using format_le_decimal_text [of q 40] u assms(2) by simp
  have "unat (ucast r :: u32) = unat r" using unat_lt_size [of r] by (simp add: unat_ucast_mod)
  then have "ucast r * 10 div 1024 = (of_nat (10 * unat r div 1024) :: u32)"
    using r by (intro word_unat_eq_iff [THEN iffD2]) (auto simp: unat_div unat_word_ariths unat_of_nat)
  moreover have "r = 0 \<longleftrightarrow> unat r = 0" by (simp add: unat_eq_zero)
  ultimately show ?thesis using r by (simp add: print_le_bytes_scaled_def scaled_text_def Let_def s t su split: if_splits)
qed

text \<open>The printed decimal is never above the exact one and at most one tenth below it.\<close>

lemma tenths_close:
  fixes v u :: nat
  assumes "0 < u"
  defines "shown \<equiv> 10 * (v div 1024 ^ u) + 10 * (v div 1024 ^ (u - 1) mod 1024) div 1024"
  shows "shown \<le> 10 * v div 1024 ^ u \<and> 10 * v div 1024 ^ u \<le> shown + 1"
proof -
  define w where "w = v div 1024 ^ (u - 1)"
  obtain k where k: "u = Suc k" using assms(1) by (cases u) auto
  have "v div 1024 ^ u = w div 1024" by (simp add: w_def k div_mult2_eq [symmetric] mult.commute)
  moreover have "10 * w = 10 * (w mod 1024) + 10 * (w div 1024) * 1024" using div_mult_mod_eq [of w 1024] by linarith
  then have "10 * w div 1024 = 10 * (w div 1024) + 10 * (w mod 1024) div 1024" by (metis div_mult_self1 zero_neq_numeral)
  ultimately have s: "shown = 10 * w div 1024" unfolding shown_def w_def [symmetric] by simp
  have lo: "10 * w div 1024 = 10 * w * 1024 ^ k div 1024 ^ u" by (simp add: k)
  have "w * 1024 ^ k \<le> v" by (simp add: w_def k)
  then have 1: "10 * w * 1024 ^ k div 1024 ^ u \<le> 10 * v div 1024 ^ u" by (intro div_le_mono) simp
  have "v < (w + 1) * 1024 ^ k" unfolding w_def k using dividend_less_div_times [of "1024 ^ k" v] by simp
  then have "10 * v div 1024 ^ u \<le> 10 * (w + 1) * 1024 ^ k div 1024 ^ u"
    by (intro div_le_mono) (simp add: distrib_left distrib_right)
  also have "\<dots> = 10 * (w + 1) div 1024" by (simp add: k)
  also have "\<dots> \<le> (10 * w + 1 * 1024) div 1024" by (intro div_le_mono) simp
  also have "\<dots> = 10 * w div 1024 + 1" by (subst div_mult_self1) simp_all
  finally show ?thesis using 1 s lo by simp
qed

text \<open>
  Sizes are shown right.  The amount of data of a 128-bit SMART counter, which counts units of
  1000 times 512 bytes, and any 64-bit byte count are printed in the unit and with the whole
  number the reference computes from the exact product, without overflow in 128 bits or in the multiplication;
  the decimal is cut, at most one tenth below the exact one.
\<close>

theorem sizes_exact:
  assumes "length counter = 16"
  shows "print_smart_data_amount label counter = [scaled_text label (512000 * le_val counter)] \<and>
    print_binary_size label n = [scaled_text label (unat n)] \<and>
    (\<forall>v. let u = size_unit v; shown = 10 * (v div 1024 ^ u) + 10 * (v div 1024 ^ (u - 1) mod 1024) div 1024
         in 0 < u \<longrightarrow> shown \<le> 10 * v div 1024 ^ u \<and> 10 * v div 1024 ^ u \<le> shown + 1)"
proof -
  have m: "length (mul_u128_small counter 512000 24) = 24 \<and> le_val (mul_u128_small counter 512000 24) = 512000 * le_val counter"
    using mul_u128_small_ok [OF assms, of 512000 24] by simp
  have "le_val counter < 256 ^ 16" using le_val_bound [of counter] assms by simp
  then have "print_smart_data_amount label counter = [scaled_text label (512000 * le_val counter)]"
    using print_scaled_ok [of "mul_u128_small counter 512000 24"] m by (simp add: print_smart_data_amount_def)
  moreover have "unat n < 2 ^ 64" using unat_lt_size [of n] by simp
  then have "print_binary_size label n = [scaled_text label (unat n)]"
    using print_scaled_ok [of "u64_bytes n"] by (simp add: print_binary_size_def u64_bytes_ok)
  ultimately show ?thesis using tenths_close by (simp add: Let_def)
qed

theorem sizes_exact_witness:
  "print_smart_data_amount ''Data'' (3 # replicate 15 0) = [Printf ''%-24s %s.%lu %s\<newline>'' [AStr ''Data'', AStr ''1'', ANum 4, AStr ''MiB'']]"
proof -
  have "scaled_text ''Data'' 1536000 = Printf ''%-24s %s.%lu %s\<newline>'' [AStr ''Data'', AStr ''1'', ANum 4, AStr ''MiB'']"
    by (simp add: scaled_text_def size_unit_def size_units_def dec_text_def dec_digits.simps [of 1] Let_def) code_simp
  then show ?thesis using sizes_exact [of "3 # replicate 15 0" "''Data''" 0] by simp
qed

end
