(* ===== verification/Adm_Session.thy ===== *)
theory Adm_Session
  imports Adm_Format Nvme_Identify "HOL-Library.State_Monad"
begin

text \<open>
  The nvmeadm program of src/tools up to its commands: arguments, sessions with the driver, the
  builders of passthrough commands (nvmeadm_core.c) and the helpers of nvmeadm_util.c.

  A function of the program is a computation in the state monad over \<open>adm_state\<close>: the output, the commands
  handed to the driver with the unit and the data they point to, and what the process holds of the
  system (memory, message ports, I/O requests, open units, file handles).  Each call of the system takes
  its answer from \<open>adm_env\<close>, indexed by the number of calls made before, so that the answers are arbitrary.
  Allocations answer with an address, zero for none.  What a buffer holds is the function from offsets to bytes;
  a cleared one holds zeros.  The fault texts of the system (\<open>PrintFault\<close>) and the secondary error code (\<open>SetIoErr\<close>) are not part of
  the output; the break signal is an answer of the environment.
\<close>

section \<open>The process and its environment\<close>

record adm_state =
  a_out :: "out list"
  a_sent :: "(u32 \<times> NVMePassthruCmd \<times> u8 list) list"
  a_mem :: "(u32 \<times> nat) list"
  a_ports :: nat
  a_ioreqs :: nat
  a_opens :: "u32 list"
  a_files :: nat
  a_calls :: nat

type_synonym 'a adm = "(adm_state, 'a) state"

record pass_reply =
  pr_status :: u8
  pr_result :: u32
  pr_actual :: u32
  pr_data :: id_buf

record adm_env =
  ae_alloc :: "nat \<Rightarrow> u32"
  ae_open :: "nat \<Rightarrow> u32 \<Rightarrow> u8"
  ae_info :: "nat \<Rightarrow> u32 \<Rightarrow> NVMeUnitInfo option"
  ae_pass :: "nat \<Rightarrow> u32 \<Rightarrow> NVMePassthruCmd \<Rightarrow> pass_reply"
  ae_sector :: "nat \<Rightarrow> u32 \<Rightarrow> u32"
  ae_break :: "nat \<Rightarrow> bool"
  ae_file :: "nat \<Rightarrow> string \<Rightarrow> u8 list option"
  ae_seek :: "nat \<Rightarrow> bool"
  ae_read :: "nat \<Rightarrow> nat option"

text \<open>Parsed command line: \<open>nvmeadm_cli_args\<close>.\<close>

record nvmeadm_cli_args =
  cl_unit :: u32
  cl_slot :: u32
  cl_lbaf :: u32
  cl_ses :: u32
  cl_owpass :: u32
  cl_file :: "string option"
  cl_has_unit :: bool
  cl_has_slot :: bool
  cl_has_lbaf :: bool
  cl_has_ses :: bool
  cl_has_owpass :: bool
  cl_ause :: bool
  cl_oipbp :: bool
  cl_nodas :: bool
  cl_confirm :: bool

datatype retcode = RETURN_OK | RETURN_ERROR | RETURN_FAIL

text \<open>A call of the system, with the number of calls before it; printing is not one.\<close>

definition call :: "(nat \<Rightarrow> adm_state \<Rightarrow> 'a \<times> adm_state) \<Rightarrow> 'a adm" where
  "call f = State (\<lambda>s. f (a_calls s) (s\<lparr>a_calls := a_calls s + 1\<rparr>))"

definition print :: "out list \<Rightarrow> unit adm" where
  "print xs = State (\<lambda>s. ((), s\<lparr>a_out := a_out s @ xs\<rparr>))"

definition print_line :: "string \<Rightarrow> unit adm" where
  "print_line t = print [Printf t []]"

definition on_cond :: "bool \<Rightarrow> unit adm \<Rightarrow> unit adm" where
  "on_cond b m = (if b then m else State_Monad.return ())"

abbreviation return :: "'a \<Rightarrow> 'a adm" where "return \<equiv> State_Monad.return"

section \<open>Memory\<close>

definition AllocMem :: "adm_env \<Rightarrow> nat \<Rightarrow> u32 adm" where
  "AllocMem E n = call (\<lambda>i s. (ae_alloc E i, if ae_alloc E i \<noteq> 0 then s\<lparr>a_mem := (ae_alloc E i, n) # a_mem s\<rparr> else s))"

definition FreeMem :: "u32 \<Rightarrow> nat \<Rightarrow> unit adm" where
  "FreeMem p n = State (\<lambda>s. ((), s\<lparr>a_mem := remove1 (p, n) (a_mem s)\<rparr>))"

definition nvmeadm_alloc_clear :: "adm_env \<Rightarrow> nat \<Rightarrow> u32 adm" where
  "nvmeadm_alloc_clear E n = do {
     p \<leftarrow> AllocMem E n;
     on_cond (p = 0) (print_line ''alloc failed\<newline>'');
     return p }"

section \<open>Sessions\<close>

record nvmeadm_session =
  se_port :: bool
  se_io :: bool
  se_device_open :: bool
  se_unit :: u32
  se_info :: NVMeUnitInfo

definition zero_info :: NVMeUnitInfo where
  "zero_info = \<lparr>nui_StructSize = 0, nui_UnitNumber = 0, nui_Nsid = 0, nui_CtrlFirstUnit = 0, nui_CtrlUnitCount = 0, nui_CapLo = 0,
     nui_CapHi = 0, nui_Version = 0, nui_Serial = [], nui_Model = [], nui_Firmware = []\<rparr>"

definition CreateMsgPort :: "adm_env \<Rightarrow> bool adm" where
  "CreateMsgPort E = call (\<lambda>i s. if ae_alloc E i \<noteq> 0 then (True, s\<lparr>a_ports := a_ports s + 1\<rparr>) else (False, s))"

definition CreateIORequest :: "adm_env \<Rightarrow> bool adm" where
  "CreateIORequest E = call (\<lambda>i s. if ae_alloc E i \<noteq> 0 then (True, s\<lparr>a_ioreqs := a_ioreqs s + 1\<rparr>) else (False, s))"

definition OpenDevice :: "adm_env \<Rightarrow> u32 \<Rightarrow> u8 adm" where
  "OpenDevice E u = call (\<lambda>i s. (ae_open E i u, if ae_open E i u = 0 then s\<lparr>a_opens := u # a_opens s\<rparr> else s))"

definition nvmeadm_close :: "nvmeadm_session \<Rightarrow> unit adm" where
  "nvmeadm_close se = State (\<lambda>s. ((),
     let s1 = (if se_device_open se then s\<lparr>a_opens := remove1 (se_unit se) (a_opens s)\<rparr> else s);
         s2 = (if se_io se then s1\<lparr>a_ioreqs := a_ioreqs s1 - 1\<rparr> else s1)
     in if se_port se then s2\<lparr>a_ports := a_ports s2 - 1\<rparr> else s2))"

definition nvmeadm_fetch_unit_info :: "adm_env \<Rightarrow> nvmeadm_session \<Rightarrow> nvmeadm_session option adm" where
  "nvmeadm_fetch_unit_info E se = do {
     r \<leftarrow> call (\<lambda>i s. (ae_info E i (se_unit se), s));
     case r of
       None \<Rightarrow> do { print_line ''nvme.device lacks the unit-info query; update the driver\<newline>''; return None }
     | Some info \<Rightarrow> return (Some (se\<lparr>se_info := info\<rparr>)) }"

definition nvmeadm_open_unit_internal :: "adm_env \<Rightarrow> u32 \<Rightarrow> bool \<Rightarrow> nvmeadm_session option adm" where
  "nvmeadm_open_unit_internal E u quiet = do {
     let se0 = \<lparr>se_port = False, se_io = False, se_device_open = False, se_unit = u, se_info = zero_info\<rparr>;
     port \<leftarrow> CreateMsgPort E;
     if \<not> port then return None
     else do {
       io \<leftarrow> CreateIORequest E;
       if \<not> io then do { nvmeadm_close (se0\<lparr>se_port := True\<rparr>); return None }
       else do {
         open_err \<leftarrow> OpenDevice E u;
         if open_err \<noteq> 0
         then do {
           on_cond (\<not> quiet) (print [Printf ''OpenDevice(nvme.device,%lu) failed: %ld\<newline>'' [ANum u, ANum (ucast open_err)]]);
           nvmeadm_close (se0\<lparr>se_port := True, se_io := True\<rparr>);
           return None }
         else do {
           let se1 = se0\<lparr>se_port := True, se_io := True, se_device_open := True\<rparr>;
           r \<leftarrow> nvmeadm_fetch_unit_info E se1;
           case r of
             None \<Rightarrow> do { nvmeadm_close se1; return None }
           | Some se2 \<Rightarrow> return (Some se2) } } } }"

definition nvmeadm_open_unit_quiet :: "adm_env \<Rightarrow> u32 \<Rightarrow> nvmeadm_session option adm" where
  "nvmeadm_open_unit_quiet E u = nvmeadm_open_unit_internal E u True"

definition nvmeadm_open_unit :: "adm_env \<Rightarrow> u32 \<Rightarrow> nvmeadm_session option adm" where
  "nvmeadm_open_unit E u = nvmeadm_open_unit_internal E u False"

definition nvmeadm_open_cli_session :: "adm_env \<Rightarrow> nvmeadm_cli_args \<Rightarrow> nvmeadm_session option adm" where
  "nvmeadm_open_cli_session E A = nvmeadm_open_unit E (cl_unit A)"

section \<open>Passthrough\<close>

text \<open>\<open>buf\<close> is what the buffer of the command holds when it is handed over; the reply carries what it holds afterwards.\<close>

definition nvmeadm_admin_passthru :: "adm_env \<Rightarrow> nvmeadm_session \<Rightarrow> NVMePassthruCmd \<Rightarrow> id_buf \<Rightarrow> pass_reply adm" where
  "nvmeadm_admin_passthru E se cmd buf = call (\<lambda>i s. (ae_pass E i (se_unit se) cmd,
     s\<lparr>a_sent := a_sent s @ [(se_unit se, cmd, get_bytes buf 0 (unat (pt_DataLen cmd)))]\<rparr>))"

definition print_admin_failure :: "string \<Rightarrow> pass_reply \<Rightarrow> unit adm" where
  "print_admin_failure operation r = print [Printf ''%s failed: status=0x%02lx result=0x%08lx actual=%lu\<newline>''
     [AStr operation, ANum (ucast (pr_status r)), ANum (pr_result r), ANum (pr_actual r)]]"

definition nvmeadm_submit :: "adm_env \<Rightarrow> nvmeadm_session \<Rightarrow> NVMePassthruCmd \<Rightarrow> id_buf \<Rightarrow> string \<Rightarrow> u32 option adm" where
  "nvmeadm_submit E se cmd buf operation = do {
     r \<leftarrow> nvmeadm_admin_passthru E se cmd buf;
     if pr_status r \<noteq> 0 then do { print_admin_failure operation r; return None }
     else return (Some (pr_result r)) }"

definition nvmeadm_submit_quiet :: "adm_env \<Rightarrow> nvmeadm_session \<Rightarrow> NVMePassthruCmd \<Rightarrow> id_buf \<Rightarrow> pass_reply option adm" where
  "nvmeadm_submit_quiet E se cmd buf = do {
     r \<leftarrow> nvmeadm_admin_passthru E se cmd buf;
     return (if pr_status r \<noteq> 0 then None else Some r) }"

section \<open>Command builders\<close>

definition nvme_bytes_to_numd :: "u32 \<Rightarrow> u32" where
  "nvme_bytes_to_numd bytes = drop_bit 2 bytes - 1"

definition nvmeadm_build_get_log :: "u32 \<Rightarrow> u8 \<Rightarrow> u8 \<Rightarrow> u8 \<Rightarrow> u32 \<Rightarrow> u32 \<Rightarrow> NVMePassthruCmd" where
  "nvmeadm_build_get_log nsid log_page lsp csi buffer len =
    (let numd = nvme_bytes_to_numd len in
     zero_pass\<lparr>pt_Opcode := 0x02, pt_Nsid := nsid, pt_Addr := buffer, pt_DataLen := len,
       pt_Cdw10 := ucast log_page OR push_bit 8 (ucast lsp) OR push_bit 16 (numd AND 0xFFFF),
       pt_Cdw11 := drop_bit 16 numd AND 0xFFFF, pt_Cdw14 := push_bit 24 (ucast csi)\<rparr>)"

definition nvmeadm_build_identify :: "u32 \<Rightarrow> u32 \<Rightarrow> u32 \<Rightarrow> u32 \<Rightarrow> NVMePassthruCmd" where
  "nvmeadm_build_identify nsid cns buffer len =
    zero_pass\<lparr>pt_Opcode := 0x06, pt_Nsid := nsid, pt_Addr := buffer, pt_DataLen := len, pt_Cdw10 := cns\<rparr>"

definition nvmeadm_build_identify_csi :: "u32 \<Rightarrow> u8 \<Rightarrow> u8 \<Rightarrow> u32 \<Rightarrow> u32 \<Rightarrow> NVMePassthruCmd" where
  "nvmeadm_build_identify_csi nsid cns csi buffer len =
    zero_pass\<lparr>pt_Opcode := 0x06, pt_Nsid := nsid, pt_Addr := buffer, pt_DataLen := len, pt_Cdw10 := ucast cns,
      pt_Cdw11 := push_bit 24 (ucast csi)\<rparr>"

definition nvmeadm_build_get_features :: "u32 \<Rightarrow> u8 \<Rightarrow> u8 \<Rightarrow> u32 \<Rightarrow> u32 \<Rightarrow> NVMePassthruCmd" where
  "nvmeadm_build_get_features nsid fid sel buffer len =
    zero_pass\<lparr>pt_Opcode := 0x0a, pt_Nsid := nsid, pt_Addr := buffer, pt_DataLen := len,
      pt_Cdw10 := ucast fid OR push_bit 8 (ucast sel)\<rparr>"

definition nvmeadm_build_self_test :: "u32 \<Rightarrow> u8 \<Rightarrow> NVMePassthruCmd" where
  "nvmeadm_build_self_test nsid stc = zero_pass\<lparr>pt_Opcode := 0x14, pt_Nsid := nsid, pt_Cdw10 := ucast stc\<rparr>"

definition nvmeadm_build_download_fw :: "u32 \<Rightarrow> u32 \<Rightarrow> u32 \<Rightarrow> NVMePassthruCmd" where
  "nvmeadm_build_download_fw buffer len offset_bytes =
    zero_pass\<lparr>pt_Opcode := 0x11, pt_Addr := buffer, pt_DataLen := len, pt_Cdw10 := nvme_bytes_to_numd len,
      pt_Cdw11 := drop_bit 2 offset_bytes\<rparr>"

definition nvmeadm_build_format_nvm :: "u32 \<Rightarrow> u8 \<Rightarrow> u8 \<Rightarrow> NVMePassthruCmd" where
  "nvmeadm_build_format_nvm nsid lbaf ses =
    zero_pass\<lparr>pt_Opcode := 0x80, pt_Nsid := nsid, pt_Cdw10 := ucast lbaf OR push_bit 9 (ucast ses)\<rparr>"

definition nvmeadm_build_sanitize_nvm :: "u8 \<Rightarrow> bool \<Rightarrow> u8 \<Rightarrow> bool \<Rightarrow> bool \<Rightarrow> NVMePassthruCmd" where
  "nvmeadm_build_sanitize_nvm sanact ause owpass oipbp nodas =
    zero_pass\<lparr>pt_Opcode := 0x84,
      pt_Cdw10 := ucast (sanact AND 0x7) OR push_bit 3 (of_bool ause) OR push_bit 4 (ucast (owpass AND 0x0f)) OR
        push_bit 8 (of_bool oipbp) OR push_bit 9 (of_bool nodas)\<rparr>"

definition nvmeadm_build_activate_fw :: "u8 \<Rightarrow> u8 \<Rightarrow> NVMePassthruCmd" where
  "nvmeadm_build_activate_fw sl action = zero_pass\<lparr>pt_Opcode := 0x10, pt_Cdw10 := ucast sl OR ucast action\<rparr>"

section \<open>Reading logs and Identify data\<close>

text \<open>The commands below read from the controller; what their buffer holds before does not matter and is taken as zero.\<close>

definition fetch :: "adm_env \<Rightarrow> nvmeadm_session \<Rightarrow> string \<Rightarrow> NVMePassthruCmd \<Rightarrow> id_buf option adm" where
  "fetch E se operation cmd = do {
     r \<leftarrow> nvmeadm_admin_passthru E se cmd (\<lambda>_. 0);
     if pr_status r \<noteq> 0 then do { print_admin_failure operation r; return None }
     else return (Some (pr_data r)) }"

definition nvmeadm_fetch_get_log :: "adm_env \<Rightarrow> nvmeadm_session \<Rightarrow> string \<Rightarrow> u32 \<Rightarrow> u8 \<Rightarrow> u8 \<Rightarrow> u8 \<Rightarrow> u32 \<Rightarrow> nat \<Rightarrow> id_buf option adm" where
  "nvmeadm_fetch_get_log E se operation nsid log_page lsp csi buffer len =
    fetch E se operation (nvmeadm_build_get_log nsid log_page lsp csi buffer (of_nat len))"

definition nvmeadm_fetch_identify :: "adm_env \<Rightarrow> nvmeadm_session \<Rightarrow> string \<Rightarrow> u32 \<Rightarrow> u32 \<Rightarrow> u32 \<Rightarrow> nat \<Rightarrow> id_buf option adm" where
  "nvmeadm_fetch_identify E se operation nsid cns buffer len =
    fetch E se operation (nvmeadm_build_identify nsid cns buffer (of_nat len))"

definition nvmeadm_fetch_identify_quiet :: "adm_env \<Rightarrow> nvmeadm_session \<Rightarrow> u32 \<Rightarrow> u32 \<Rightarrow> u32 \<Rightarrow> nat \<Rightarrow> id_buf option adm" where
  "nvmeadm_fetch_identify_quiet E se nsid cns buffer len = do {
     r \<leftarrow> nvmeadm_submit_quiet E se (nvmeadm_build_identify nsid cns buffer (of_nat len)) (\<lambda>_. 0);
     return (map_option pr_data r) }"

definition nvmeadm_fetch_identify_csi :: "adm_env \<Rightarrow> nvmeadm_session \<Rightarrow> u32 \<Rightarrow> u8 \<Rightarrow> u8 \<Rightarrow> u32 \<Rightarrow> nat \<Rightarrow> (bool \<times> u8 \<times> u32) adm" where
  "nvmeadm_fetch_identify_csi E se nsid cns csi buffer len = do {
     r \<leftarrow> nvmeadm_admin_passthru E se (nvmeadm_build_identify_csi nsid cns csi buffer (of_nat len)) (\<lambda>_. 0);
     return (pr_status r = 0, pr_status r, pr_result r) }"

text \<open>
  The exit ladders of the program: a buffer, or a session, is taken, the rest runs, and the label gives
  it back on every way out.
\<close>

definition with_buffer :: "adm_env \<Rightarrow> nat \<Rightarrow> 'a \<Rightarrow> (u32 \<Rightarrow> 'a adm) \<Rightarrow> 'a adm" where
  "with_buffer E n failed body = do {
     p \<leftarrow> nvmeadm_alloc_clear E n;
     if p = 0 then return failed
     else do { rc \<leftarrow> body p; FreeMem p n; return rc } }"

definition with_session :: "adm_env \<Rightarrow> u32 \<Rightarrow> 'a \<Rightarrow> (nvmeadm_session \<Rightarrow> 'a adm) \<Rightarrow> 'a adm" where
  "with_session E u failed body = do {
     r \<leftarrow> nvmeadm_open_unit E u;
     case r of
       None \<Rightarrow> return failed
     | Some se \<Rightarrow> do { rc \<leftarrow> body se; nvmeadm_close se; return rc } }"

text \<open>
  The buffer that \<open>nvmeadm_read_log\<close> and \<open>nvmeadm_read_identify\<close> return belongs to the caller, which frees it last.
\<close>

definition read_with :: "adm_env \<Rightarrow> nvmeadm_cli_args \<Rightarrow> nat \<Rightarrow> (nvmeadm_session \<Rightarrow> u32 \<Rightarrow> id_buf option adm) \<Rightarrow> (u32 \<times> id_buf) option adm" where
  "read_with E A len get = do {
     buffer \<leftarrow> nvmeadm_alloc_clear E len;
     if buffer = 0 then return None
     else do {
       d \<leftarrow> with_session E (cl_unit A) None (\<lambda>se. get se buffer);
       case d of
         None \<Rightarrow> do { FreeMem buffer len; return None }
       | Some b \<Rightarrow> return (Some (buffer, b)) } }"

definition nvmeadm_read_log :: "adm_env \<Rightarrow> nvmeadm_cli_args \<Rightarrow> string \<Rightarrow> u32 \<Rightarrow> u8 \<Rightarrow> u8 \<Rightarrow> u8 \<Rightarrow> nat \<Rightarrow> (u32 \<times> id_buf) option adm" where
  "nvmeadm_read_log E A operation nsid log_page lsp csi len =
    read_with E A len (\<lambda>se buffer. nvmeadm_fetch_get_log E se operation nsid log_page lsp csi buffer len)"

definition nvmeadm_read_identify :: "adm_env \<Rightarrow> nvmeadm_cli_args \<Rightarrow> string \<Rightarrow> u32 \<Rightarrow> u32 \<Rightarrow> nat \<Rightarrow> (u32 \<times> id_buf) option adm" where
  "nvmeadm_read_identify E A operation nsid cns len =
    read_with E A len (\<lambda>se buffer. nvmeadm_fetch_identify E se operation nsid cns buffer len)"

section \<open>Arguments and interruption\<close>

definition nvmeadm_require_file :: "nvmeadm_cli_args \<Rightarrow> string option adm" where
  "nvmeadm_require_file A = do {
     on_cond (cl_file A = None) (print_line ''This command requires FILE <path>\<newline>'');
     return (cl_file A) }"

definition nvmeadm_require_lbaf :: "nvmeadm_cli_args \<Rightarrow> u32 option adm" where
  "nvmeadm_require_lbaf A = do {
     on_cond (\<not> cl_has_lbaf A) (print_line ''This command requires LBAF <n>\<newline>'');
     return (if cl_has_lbaf A then Some (cl_lbaf A) else None) }"

definition nvmeadm_check_break :: "adm_env \<Rightarrow> bool adm" where
  "nvmeadm_check_break E = call (\<lambda>i s. (ae_break E i, s))"

definition nvmeadm_require_confirm :: "nvmeadm_cli_args \<Rightarrow> bool adm" where
  "nvmeadm_require_confirm A = do {
     on_cond (\<not> cl_confirm A) (print_line ''Refusing to submit without CONFIRM\<newline>'');
     return (cl_confirm A) }"

section \<open>Labelled output\<close>

definition print_kv_str :: "string \<Rightarrow> string \<Rightarrow> unit adm" where
  "print_kv_str label v = print [Printf ''%-24s %s\<newline>'' [AStr label, AStr v]]"

definition print_kv_u32 :: "string \<Rightarrow> u32 \<Rightarrow> unit adm" where
  "print_kv_u32 label v = print [Printf ''%-24s %lu\<newline>'' [AStr label, ANum v]]"

definition print_kv_hex8 :: "string \<Rightarrow> u32 \<Rightarrow> unit adm" where
  "print_kv_hex8 label v = print [Printf ''%-24s 0x%02lx\<newline>'' [AStr label, ANum v]]"

definition print_kv_hex16 :: "string \<Rightarrow> u32 \<Rightarrow> unit adm" where
  "print_kv_hex16 label v = print [Printf ''%-24s 0x%04lx\<newline>'' [AStr label, ANum v]]"

definition print_kv_hex32 :: "string \<Rightarrow> u32 \<Rightarrow> unit adm" where
  "print_kv_hex32 label v = print [Printf ''%-24s 0x%08lx\<newline>'' [AStr label, ANum v]]"

definition print_yes_no :: "string \<Rightarrow> bool \<Rightarrow> unit adm" where
  "print_yes_no label enabled = print [Printf ''%-24s %s\<newline>'' [AStr label, AStr (if enabled then ''yes'' else ''no'')]]"

definition chars :: "u8 list \<Rightarrow> string" where
  "chars bs = map (char_of \<circ> unat) (takeWhile (\<lambda>b. b \<noteq> 0) bs)"

definition print_fw_revision :: "parg \<Rightarrow> u8 list \<Rightarrow> unit adm" where
  "print_fw_revision label frs = print [Printf ''%-24s %.8s\<newline>'' [label, AStr (chars (take 8 frs))]]"

definition print_feature_value :: "string \<Rightarrow> u8 \<Rightarrow> u32 \<Rightarrow> unit adm" where
  "print_feature_value label fid v =
    (let f = (\<lambda>fmt args. print [Printf fmt (AStr label # ANum v # args)]);
         flag = (\<lambda>yes no. AStr (if v AND 1 \<noteq> 0 then yes else no))
     in if fid = 0x02 then f ''%-24s 0x%08lx  ps=%lu\<newline>'' [ANum (v AND 0x1f)]
        else if fid = 0x04 then f ''%-24s 0x%08lx  threshold=%lu K\<newline>'' [ANum (v AND 0xffff)]
        else if fid = 0x05 then f ''%-24s 0x%08lx  tler=%lu\<newline>'' [ANum (v AND 0xffff)]
        else if fid = 0x06 then f ''%-24s 0x%08lx  %s\<newline>'' [flag ''enabled'' ''disabled'']
        else if fid = 0x07 then f ''%-24s 0x%08lx  sq=%lu cq=%lu\<newline>''
               [ANum ((v AND 0xffff) + 1), ANum ((drop_bit 16 v AND 0xffff) + 1)]
        else if fid = 0x08 then f ''%-24s 0x%08lx  thr=%lu time=%lu\<newline>'' [ANum (v AND 0xff), ANum (drop_bit 8 v AND 0xff)]
        else if fid = 0x0b then f ''%-24s 0x%08lx\<newline>'' []
        else if fid = 0x11 then f ''%-24s 0x%08lx  %s\<newline>'' [flag ''enabled'' ''disabled'']
        else if fid = 0x0f then f ''%-24s 0x%08lx  %lu x 100ms\<newline>'' [ANum (v AND 0xffff)]
        else if fid = 0x0d then f ''%-24s 0x%08lx  %s\<newline>'' [flag ''enabled'' ''disabled'']
        else if fid = 0x0e then f ''%-24s 0x%08lx\<newline>'' []
        else if fid = 0x17 then f ''%-24s 0x%08lx  no-deallocate=%s\<newline>'' [flag ''set'' ''clear'']
        else f ''%-24s 0x%08lx\<newline>'' [])"

section \<open>Which formats the driver exposes\<close>

definition lbaf_data_size_bytes :: "u8 \<Rightarrow> u32" where
  "lbaf_data_size_bytes ds = (if 32 \<le> unat ds then 0 else push_bit (unat ds) 1)"

definition namespace_plain_block_supported :: "u8 \<Rightarrow> u32 \<Rightarrow> u16 \<Rightarrow> bool" where
  "namespace_plain_block_supported dps sector_size metadata_size \<longleftrightarrow>
    (let pi_type = dps AND 0x7 in metadata_size = 0 \<and> pi_type = 0 \<and> 512 \<le> sector_size \<and> sector_size \<le> 4096)"

definition candidate_plain_block_supported :: "u32 \<Rightarrow> u16 \<Rightarrow> bool" where
  "candidate_plain_block_supported sector_size metadata_size \<longleftrightarrow> metadata_size = 0 \<and> 512 \<le> sector_size \<and> sector_size \<le> 4096"

section \<open>Contracts of every function\<close>

text \<open>
  What the process holds of the system, and the commands it has handed over.  A \<open>tidy\<close> computation gives back
  all it takes; \<open>sends P\<close> adds only commands with the property P; a \<open>mute\<close> one only prints and asks.  All are closed under
  the ways the program composes its functions.
\<close>

definition holds :: "adm_state \<Rightarrow> (u32 \<times> nat) list \<times> nat \<times> nat \<times> u32 list \<times> nat" where
  "holds s = (a_mem s, a_ports s, a_ioreqs s, a_opens s, a_files s)"

definition tidy :: "'a adm \<Rightarrow> bool" where
  "tidy m \<longleftrightarrow> (\<forall>s. holds (snd (run_state m s)) = holds s)"

definition sends :: "(u32 \<times> NVMePassthruCmd \<times> u8 list \<Rightarrow> bool) \<Rightarrow> 'a adm \<Rightarrow> bool" where
  "sends P m \<longleftrightarrow> (\<forall>s. \<exists>cs. a_sent (snd (run_state m s)) = a_sent s @ cs \<and> list_all P cs)"

locale adm_contract =
  fixes ok :: "adm_state \<Rightarrow> adm_state \<Rightarrow> bool"
  assumes same: "ok s s"
    and chain: "ok s s' \<Longrightarrow> ok s' s'' \<Longrightarrow> ok s s''"
    and quiet: "ok s (s\<lparr>a_out := x\<rparr>)" "ok s (s\<lparr>a_calls := n\<rparr>)"
begin

definition meets :: "'a adm \<Rightarrow> bool" where
  "meets m \<longleftrightarrow> (\<forall>s. ok s (snd (run_state m s)))"

lemma return_meets: "meets (State_Monad.return x)"
  by (simp add: meets_def same)

lemma bind_meets:
  assumes "meets m" "\<And>x. meets (f x)"
  shows "meets (State_Monad.bind m f)"
proof -
  have "ok s (snd (run_state (State_Monad.bind m f) s))" for s
  proof (cases "run_state m s")
    case (Pair x s1)
    then have "ok s s1" using assms(1) by (metis meets_def snd_conv)
    then show ?thesis using chain assms(2) Pair by (auto simp: meets_def)
  qed
  then show ?thesis by (simp add: meets_def)
qed

lemma if_meets: "(b \<Longrightarrow> meets m) \<Longrightarrow> (\<not> b \<Longrightarrow> meets n) \<Longrightarrow> meets (if b then m else n)"
  by simp

lemma print_meets: "meets (print xs)"
  by (simp add: meets_def print_def quiet)

lemma cond_meets: "meets m \<Longrightarrow> meets (on_cond b m)"
  by (simp add: on_cond_def return_meets)

lemma line_meets: "meets (print_line t)"
  by (simp add: print_line_def print_meets)

lemma call_meets:
  assumes "\<And>i s. ok s (snd (f i s))"
  shows "meets (call f)"
  unfolding meets_def call_def using chain [OF quiet(2) assms] by simp

lemma labelled_meets: "meets (print_kv_str l v)" "meets (print_kv_u32 l x)" "meets (print_kv_hex8 l x)" "meets (print_kv_hex16 l x)"
  "meets (print_kv_hex32 l x)" "meets (print_yes_no l b)" "meets (print_fw_revision g r)" "meets (print_admin_failure v rep)"
  by (simp_all add: print_kv_str_def print_kv_u32_def print_kv_hex8_def print_kv_hex16_def print_kv_hex32_def print_yes_no_def
    print_fw_revision_def print_admin_failure_def print_meets)

lemma feature_meets: "meets (print_feature_value l fid x)"
  by (simp add: print_feature_value_def Let_def print_meets)

lemma require_meets: "meets (nvmeadm_require_file A)" "meets (nvmeadm_require_lbaf A)" "meets (nvmeadm_require_confirm A)"
  by (auto simp: nvmeadm_require_file_def nvmeadm_require_lbaf_def nvmeadm_require_confirm_def
    intro!: bind_meets cond_meets line_meets return_meets)

lemma break_meets: "meets (nvmeadm_check_break E)"
  unfolding nvmeadm_check_break_def by (rule call_meets) (simp add: same)

lemma option_meets: "meets m \<Longrightarrow> (\<And>x. meets (f x)) \<Longrightarrow> meets (case r of None \<Rightarrow> m | Some x \<Rightarrow> f x)"
  by (simp split: option.split)

lemma let_meets: "meets (f x) \<Longrightarrow> meets (Let x f)"
  by simp

lemmas basic_meets = return_meets bind_meets if_meets option_meets let_meets print_meets cond_meets line_meets labelled_meets feature_meets require_meets break_meets

end

interpretation keep: adm_contract "\<lambda>s s'. holds s' = holds s"
  by unfold_locales (simp_all add: holds_def)

interpretation send: adm_contract "\<lambda>s s'. \<exists>cs. a_sent s' = a_sent s @ cs \<and> list_all P cs" for P
proof unfold_locales
  fix s s' s'' :: adm_state
  assume "\<exists>cs. a_sent s' = a_sent s @ cs \<and> list_all P cs" "\<exists>cs. a_sent s'' = a_sent s' @ cs \<and> list_all P cs"
  then obtain c d where "a_sent s' = a_sent s @ c" "list_all P c" "a_sent s'' = a_sent s' @ d" "list_all P d" by blast
  then show "\<exists>cs. a_sent s'' = a_sent s @ cs \<and> list_all P cs" by (intro exI [of _ "c @ d"]) simp
qed simp_all

lemma tidy_meets: "tidy m = keep.meets m"
  by (simp add: tidy_def keep.meets_def)

lemma sends_meets: "sends P m = send.meets P m"
  by (simp add: sends_def send.meets_def)

named_theorems tidy \<open>computations that give back what they take\<close>

definition mute :: "'a adm \<Rightarrow> bool" where
  "mute m \<longleftrightarrow> (\<forall>s. holds (snd (run_state m s)) = holds s \<and> a_sent (snd (run_state m s)) = a_sent s)"

interpretation mute: adm_contract "\<lambda>s s'. holds s' = holds s \<and> a_sent s' = a_sent s"
  by unfold_locales (simp_all add: holds_def)

lemma mute_meets: "mute m = mute.meets m"
  by (simp add: mute_def mute.meets_def)

lemma mute_quiet: "mute m \<Longrightarrow> tidy m" "mute m \<Longrightarrow> sends P m"
  by (auto simp: mute_def tidy_def sends_def)

lemmas mute_rules = mute.basic_meets [folded mute_meets]
lemmas tidy_rules = keep.basic_meets [folded tidy_meets]
lemmas sends_rules = send.basic_meets [folded sends_meets]

lemma free_first [simp]: "remove1 x (x # xs) = xs"
  by simp

lemma alloc_run:
  "run_state (nvmeadm_alloc_clear E n) s =
    (let p = ae_alloc E (a_calls s); s1 = s\<lparr>a_calls := a_calls s + 1\<rparr>
     in (p, if p = 0 then s1\<lparr>a_out := a_out s @ [Printf ''alloc failed\<newline>'' []]\<rparr> else s1\<lparr>a_mem := (p, n) # a_mem s\<rparr>))"
  by (simp add: nvmeadm_alloc_clear_def AllocMem_def call_def on_cond_def print_line_def print_def Let_def)

lemma free_run: "run_state (FreeMem p n) s = ((), s\<lparr>a_mem := remove1 (p, n) (a_mem s)\<rparr>)"
  by (simp add: FreeMem_def)

text \<open>An opened session holds a port, a request and the unit; a failed open holds nothing.\<close>

lemma open_holds:
  assumes "run_state (nvmeadm_open_unit_internal E u quiet) s = (r, s')"
  shows "(case r of None \<Rightarrow> holds s' = holds s
    | Some se \<Rightarrow> se_unit se = u \<and> se_port se \<and> se_io se \<and> se_device_open se \<and>
        holds s' = (a_mem s, a_ports s + 1, a_ioreqs s + 1, u # a_opens s, a_files s)) \<and> a_sent s' = a_sent s"
  using assms
  by (auto simp: nvmeadm_open_unit_internal_def CreateMsgPort_def CreateIORequest_def OpenDevice_def nvmeadm_fetch_unit_info_def
    nvmeadm_close_def call_def on_cond_def print_line_def print_def holds_def Let_def split: if_splits option.splits prod.splits)

lemma close_holds:
  assumes "se_unit se = u" "se_port se" "se_io se" "se_device_open se" "holds s = (m, p + 1, i + 1, u # us, f)"
  shows "holds (snd (run_state (nvmeadm_close se) s)) = (m, p, i, us, f)" "a_sent (snd (run_state (nvmeadm_close se) s)) = a_sent s"
  using assms by (auto simp: nvmeadm_close_def holds_def)

lemma tidy_pass [tidy]: "tidy (nvmeadm_admin_passthru E se cmd buf)"
  unfolding tidy_meets nvmeadm_admin_passthru_def by (rule keep.call_meets) (simp add: holds_def)

lemma sends_pass: "(\<And>d. P (se_unit se, cmd, d)) \<Longrightarrow> sends P (nvmeadm_admin_passthru E se cmd buf)"
  unfolding sends_meets nvmeadm_admin_passthru_def by (rule send.call_meets) simp

lemma tidy_submit [tidy]: "tidy (nvmeadm_submit E se cmd buf op)" "tidy (nvmeadm_submit_quiet E se cmd buf)" "tidy (fetch E se op cmd)"
  unfolding nvmeadm_submit_def nvmeadm_submit_quiet_def fetch_def by (intro tidy_rules tidy_pass)+

lemma sends_submit:
  assumes "\<And>d. P (se_unit se, cmd, d)"
  shows "sends P (nvmeadm_submit E se cmd buf op)" "sends P (nvmeadm_submit_quiet E se cmd buf)" "sends P (fetch E se op cmd)"
  unfolding nvmeadm_submit_def nvmeadm_submit_quiet_def fetch_def by (intro sends_rules sends_pass assms)+

lemma tidy_fetch [tidy]: "tidy (nvmeadm_fetch_get_log E se op nsid lp lsp csi b n)" "tidy (nvmeadm_fetch_identify E se op nsid cns b n)"
  "tidy (nvmeadm_fetch_identify_quiet E se nsid cns b n)" "tidy (nvmeadm_fetch_identify_csi E se nsid cns' csi b n)"
  unfolding nvmeadm_fetch_get_log_def nvmeadm_fetch_identify_def nvmeadm_fetch_identify_quiet_def nvmeadm_fetch_identify_csi_def
  by (intro tidy_rules tidy_submit tidy_pass)+

lemma sends_fetch:
  assumes "\<And>c d. pt_Opcode c \<in> {0x02, 0x06} \<Longrightarrow> P (se_unit se, c, d)"
  shows "sends P (nvmeadm_fetch_get_log E se op nsid lp lsp csi b n)" "sends P (nvmeadm_fetch_identify E se op nsid cns b n)"
    "sends P (nvmeadm_fetch_identify_quiet E se nsid cns b n)" "sends P (nvmeadm_fetch_identify_csi E se nsid cns' csi b n)"
  unfolding nvmeadm_fetch_get_log_def nvmeadm_fetch_identify_def nvmeadm_fetch_identify_quiet_def nvmeadm_fetch_identify_csi_def
  by (intro sends_rules sends_submit sends_pass assms;
      simp add: nvmeadm_build_get_log_def nvmeadm_build_identify_def nvmeadm_build_identify_csi_def Let_def)+

lemma tidy_with_buffer [tidy]:
  assumes "\<And>p. tidy (body p)"
  shows "tidy (with_buffer E n x body)"
  unfolding tidy_def
proof
  fix s :: adm_state
  let ?p = "ae_alloc E (a_calls s)"
  define s1 where "s1 = s\<lparr>a_calls := a_calls s + 1, a_mem := (?p, n) # a_mem s\<rparr>"
  obtain r s2 where b: "run_state (body ?p) s1 = (r, s2)" by (cases "run_state (body ?p) s1")
  then have "holds s2 = holds s1" using assms by (metis tidy_def snd_conv)
  then show "holds (snd (run_state (with_buffer E n x body) s)) = holds s"
    using b by (auto simp: with_buffer_def alloc_run free_run Let_def s1_def holds_def)
qed

lemma tidy_with_session [tidy]:
  assumes "\<And>se. tidy (body se)"
  shows "tidy (with_session E u x body)"
  unfolding tidy_def
proof
  fix s
  obtain r s1 where o: "run_state (nvmeadm_open_unit E u) s = (r, s1)" by (cases "run_state (nvmeadm_open_unit E u) s")
  note h = open_holds [OF o [unfolded nvmeadm_open_unit_def]]
  show "holds (snd (run_state (with_session E u x body) s)) = holds s"
  proof (cases r)
    case None
    then show ?thesis using o h by (simp add: with_session_def)
  next
    case (Some se)
    obtain rc s2 where b: "run_state (body se) s1 = (rc, s2)" by (cases "run_state (body se) s1")
    then have "holds s2 = holds s1" using assms by (metis tidy_def snd_conv)
    then have "holds (snd (run_state (nvmeadm_close se) s2)) = holds s"
      using close_holds(1) [of se u s2] h Some by (simp add: holds_def)
    then show ?thesis using o b Some by (auto simp: with_session_def split: prod.split)
  qed
qed

lemma sends_with_buffer: "(\<And>p. sends P (body p)) \<Longrightarrow> sends P (with_buffer E n x body)"
  unfolding with_buffer_def
  by (intro sends_rules) (auto simp: sends_def alloc_run free_run Let_def)

lemma sends_with_session:
  assumes "\<And>se. se_unit se = u \<Longrightarrow> sends P (body se)"
  shows "sends P (with_session E u x body)"
  unfolding sends_def
proof
  fix s
  obtain r s1 where o: "run_state (nvmeadm_open_unit E u) s = (r, s1)" by (cases "run_state (nvmeadm_open_unit E u) s")
  note h = open_holds [OF o [unfolded nvmeadm_open_unit_def]]
  show "\<exists>cs. a_sent (snd (run_state (with_session E u x body) s)) = a_sent s @ cs \<and> list_all P cs"
  proof (cases r)
    case None
    then show ?thesis using o h by (simp add: with_session_def)
  next
    case (Some se)
    obtain rc s2 where b: "run_state (body se) s1 = (rc, s2)" by (cases "run_state (body se) s1")
    have "se_unit se = u" using h Some by simp
    then obtain cs where "a_sent s2 = a_sent s1 @ cs" "list_all P cs" using assms b by (metis sends_def snd_conv)
    moreover have "a_sent (snd (run_state (nvmeadm_close se) s2)) = a_sent s2" by (simp add: nvmeadm_close_def Let_def)
    ultimately show ?thesis using o b Some h by (auto simp: with_session_def split: prod.split)
  qed
qed

text \<open>The shape of the log commands: read a buffer, show it, free it.\<close>

definition with_data :: "(u32 \<times> id_buf) option adm \<Rightarrow> nat \<Rightarrow> (id_buf \<Rightarrow> unit adm) \<Rightarrow> retcode adm" where
  "with_data get n body = do {
     r \<leftarrow> get;
     case r of
       None \<Rightarrow> return RETURN_FAIL
     | Some (p, d) \<Rightarrow> do { body d; FreeMem p n; return RETURN_OK } }"

lemma read_with_holds:
  assumes "run_state (read_with E A n get) s = (r, s')" "\<And>se b. tidy (get se b)"
  shows "case r of None \<Rightarrow> holds s' = holds s
    | Some (p, d) \<Rightarrow> holds s' = ((p, n) # a_mem s, a_ports s, a_ioreqs s, a_opens s, a_files s)"
proof -
  let ?p = "ae_alloc E (a_calls s)"
  show ?thesis
  proof (cases "?p = 0")
    case True
    then show ?thesis using assms(1) by (auto simp: read_with_def alloc_run Let_def holds_def)
  next
    case False
    define s1 where "s1 = s\<lparr>a_calls := a_calls s + 1, a_mem := (?p, n) # a_mem s\<rparr>"
    obtain d s2 where w: "run_state (with_session E (cl_unit A) None (\<lambda>se. get se ?p)) s1 = (d, s2)"
      by (cases "run_state (with_session E (cl_unit A) None (\<lambda>se. get se ?p)) s1")
    have "tidy (with_session E (cl_unit A) None (\<lambda>se. get se ?p))" by (rule tidy_with_session) (rule assms(2))
    then have h: "holds s2 = holds s1" using w by (metis tidy_def snd_conv)
    have "run_state (read_with E A n get) s = (case d of
        None \<Rightarrow> (None, s2\<lparr>a_mem := remove1 (?p, n) (a_mem s2)\<rparr>) | Some b \<Rightarrow> (Some (?p, b), s2))"
      using False w by (simp add: read_with_def alloc_run free_run Let_def s1_def split: option.split)
    then show ?thesis using assms(1) h by (cases d) (auto simp: s1_def holds_def)
  qed
qed

lemma tidy_with_data:
  assumes "\<And>se b. tidy (get se b)" "\<And>d. tidy (body d)"
  shows "tidy (with_data (read_with E A n get) n body)"
  unfolding tidy_def
proof
  fix s :: adm_state
  obtain r s1 where g: "run_state (read_with E A n get) s = (r, s1)" by (cases "run_state (read_with E A n get) s")
  note h = read_with_holds [OF g assms(1)]
  show "holds (snd (run_state (with_data (read_with E A n get) n body) s)) = holds s"
  proof (cases r)
    case None
    then show ?thesis using g h by (simp add: with_data_def)
  next
    case (Some pd)
    obtain p d where pd: "pd = (p, d)" by (cases pd)
    obtain s2 where b: "run_state (body d) s1 = ((), s2)" by (cases "run_state (body d) s1") auto
    then have "holds s2 = holds s1" using assms(2) by (metis tidy_def snd_conv)
    then show ?thesis using g h Some pd b by (simp add: with_data_def free_run) (simp add: holds_def)
  qed
qed

lemma sends_with_data:
  assumes "\<And>se b. se_unit se = cl_unit A \<Longrightarrow> sends P (get se b)" "\<And>d. sends P (body d)"
  shows "sends P (with_data (read_with E A n get) n body)"
proof -
  have a: "sends P (nvmeadm_alloc_clear E n)" "sends P (FreeMem p n)" for p by (auto simp: sends_def alloc_run free_run Let_def)
  have "sends P (read_with E A n get)"
    unfolding read_with_def
    by (intro sends_rules a sends_with_session assms) (auto intro!: sends_rules a split: option.split)
  then show ?thesis
    unfolding with_data_def by (intro sends_rules) (auto intro!: sends_rules a assms split: option.split)
qed

section \<open>What the builders encode\<close>

text \<open>
  Fields of the command doublewords, by the layout of the NVMe specification: bits \<open>lo\<close> up to, not including, \<open>lo + n\<close>.
\<close>

definition bits :: "nat \<Rightarrow> nat \<Rightarrow> u32 \<Rightarrow> u32" where
  "bits lo n w = take_bit n (drop_bit lo w)"

lemma bit_bits: "bit (bits lo n w) i \<longleftrightarrow> i < n \<and> bit w (lo + i)"
  by (auto simp: bits_def bit_simps)

lemma bits_or: "bits lo n (v OR w) = bits lo n v OR bits lo n w"
  by (rule bit_word_eqI) (auto simp: bit_bits bit_simps)

lemma and_low_bits: "x AND 0x7 = take_bit 3 (x :: u8)" "x AND 0x0f = take_bit 4 (x :: u8)"
  by (simp_all add: take_bit_eq_mask mask_eq_decr_exp)

lemma take_bit_small: "unat (x :: 'a::len word) < 2 ^ n \<Longrightarrow> take_bit n x = x"
  by (metis take_bit_nat_eq_self unsigned_take_bit_eq word_unat_eq_iff)

lemma sanitize_fields:
  fixes ause oipbp nodas :: bool
  assumes "unat sanact < 8" "unat owpass < 16"
  defines "w \<equiv> pt_Cdw10 (nvmeadm_build_sanitize_nvm sanact ause owpass oipbp nodas)"
  shows "bits 0 3 w = ucast sanact \<and> bits 3 1 w = of_bool ause \<and> bits 4 4 w = ucast owpass \<and>
    bits 8 1 w = of_bool oipbp \<and> bits 9 1 w = of_bool nodas \<and> bits 10 22 w = 0"
proof -
  have t: "ucast sanact = (ucast (take_bit 3 sanact) :: u32)" "ucast owpass = (ucast (take_bit 4 owpass) :: u32)"
    using assms take_bit_small [of sanact 3] take_bit_small [of owpass 4] by simp_all
  show ?thesis unfolding t
    by (intro conjI; rule bit_word_eqI)
      (auto simp: w_def nvmeadm_build_sanitize_nvm_def and_low_bits bit_bits bit_simps)
qed

lemma format_fields:
  fixes nsid :: u32
  assumes "unat lbaf < 16" "unat ses < 8"
  defines "w \<equiv> pt_Cdw10 (nvmeadm_build_format_nvm nsid lbaf ses)"
  shows "bits 0 4 w = ucast lbaf \<and> bits 4 5 w = 0 \<and> bits 9 3 w = ucast ses \<and> bits 12 20 w = 0"
proof -
  have t: "ucast ses = (ucast (take_bit 3 ses) :: u32)" "ucast lbaf = (ucast (take_bit 4 lbaf) :: u32)"
    using assms take_bit_small [of ses 3] take_bit_small [of lbaf 4] by simp_all
  have w: "w = ucast (take_bit 4 lbaf) OR push_bit 9 (ucast (take_bit 3 ses))"
    by (simp add: w_def nvmeadm_build_format_nvm_def t)
  show ?thesis unfolding t w by (intro conjI; rule bit_word_eqI) (auto simp: bit_bits bit_simps)
qed

lemma activate_fields:
  assumes "unat sl < 8" "action \<in> {0, 8, 16}"
  defines "w \<equiv> pt_Cdw10 (nvmeadm_build_activate_fw sl action)"
  shows "bits 0 3 w = ucast sl \<and> bits 3 3 w = ucast (drop_bit 3 action) \<and> bits 6 26 w = 0"
proof -
  have t: "ucast sl = (ucast (take_bit 3 sl) :: u32)" using assms take_bit_small [of sl 3] by simp
  have "action = push_bit 3 0 \<or> action = push_bit 3 1 \<or> action = push_bit 3 2" using assms(2) by simp
  then obtain a where a: "action = push_bit 3 a" "a \<in> {0, 1, 2}" by blast
  then have "action = push_bit 3 (take_bit 2 a)" using take_bit_small [of a 2] by auto
  then have w: "w = ucast (take_bit 3 sl) OR push_bit 3 (ucast (take_bit 2 a))"
    by (simp add: w_def nvmeadm_build_activate_fw_def t) (rule bit_word_eqI, auto simp: bit_simps)
  have d: "drop_bit 3 action = take_bit 2 a" unfolding \<open>action = push_bit 3 (take_bit 2 a)\<close>
    by (rule bit_word_eqI) (auto simp: bit_simps)
  show ?thesis unfolding t w d by (intro conjI; rule bit_word_eqI) (auto simp: bit_bits bit_simps)
qed

end
