(* ===== verification/Adm_Maint.thy ===== *)
theory Adm_Maint
  imports Adm_Session
begin

text \<open>
  The nvmeadm commands that act on the drive: src/tools/nvmeadm_maint.c (format, sanitize), nvmeadm_firmware.c
  (download, activate), the control part of nvmeadm_selftest.c and nvmeadm_features.c.
\<close>

abbreviation (input) NVME_NSID_ALL :: u32 where "NVME_NSID_ALL \<equiv> 0xffffffff"

section \<open>Format\<close>

definition format_secure_erase_name :: "u32 \<Rightarrow> string" where
  "format_secure_erase_name ses = (if ses = 0 then ''none'' else if ses = 1 then ''user data erase''
     else if ses = 2 then ''cryptographic erase'' else ''unknown'')"

definition print_format_summary :: "u32 \<Rightarrow> u32 \<Rightarrow> u32 \<Rightarrow> u32 \<Rightarrow> u32 \<Rightarrow> u16 \<Rightarrow> u32 \<Rightarrow> bool \<Rightarrow> bool \<Rightarrow> unit adm" where
  "print_format_summary u nsid current_lbaf requested_lbaf sector_size metadata_size ses currently_supported requested_supported = do {
     print_line ''Format NVM\<newline>'';
     print_kv_u32 ''  Unit:'' u;
     print_kv_u32 ''  NSID:'' nsid;
     print_kv_u32 ''  Current LBAF:'' current_lbaf;
     print_kv_u32 ''  Requested LBAF:'' requested_lbaf;
     print [Printf ''  Requested Sector:     %lu bytes\<newline>'' [ANum sector_size],
            Printf ''  Requested Metadata:   %lu bytes\<newline>'' [ANum (ucast metadata_size)],
            Printf ''  Secure Erase:         %s (%lu)\<newline>'' [AStr (format_secure_erase_name ses), ANum ses]];
     print_kv_str ''  Current Driver View:'' (if currently_supported then ''usable'' else ''not-exposed'');
     print_kv_str ''  Requested Driver View:'' (if requested_supported then ''usable'' else ''not-exposed'');
     print [Printf ''  Opcode:               0x%02lx (Format NVM)\<newline>'' [ANum 0x80]] }"

text \<open>LBA format \<open>i\<close> of an Identify Namespace buffer: the offset of its metadata size and data size.\<close>

definition lbaf_ms :: "id_buf \<Rightarrow> nat \<Rightarrow> u16" where
  "lbaf_ms ns i = read_le16 (get_bytes ns (128 + 4 * i) 2)"

definition lbaf_ds :: "id_buf \<Rightarrow> nat \<Rightarrow> u8" where
  "lbaf_ds ns i = ns (128 + 4 * i + 2)"

definition format_checked :: "adm_env \<Rightarrow> nvmeadm_cli_args \<Rightarrow> nvmeadm_session \<Rightarrow> u32 \<Rightarrow> u32 \<Rightarrow> id_buf \<Rightarrow> retcode adm" where
  "format_checked E A se lbaf ses ns =
    (if ucast (ns 25) < lbaf
     then do { print [Printf ''Requested LBAF %lu is out of range for this namespace (max=%lu)\<newline>'' [ANum lbaf, ANum (ucast (ns 25))]];
               return RETURN_FAIL }
     else if 15 < lbaf
     then do { print [Printf ''Requested LBAF %lu needs extended Format NVM encoding; this first implementation supports 0..15 only\<newline>'' [ANum lbaf]];
               return RETURN_FAIL }
     else do {
       let nsid = nui_Nsid (se_info se);
       let current_lbaf = (ucast (nvme_lbaf_index (ns 26)) :: u32);
       let in_range = current_lbaf \<le> ucast (ns 25);
       let current_supported = in_range \<and> namespace_plain_block_supported (ns 29)
             (lbaf_data_size_bytes (lbaf_ds ns (unat current_lbaf))) (lbaf_ms ns (unat current_lbaf));
       let requested_metadata_size = lbaf_ms ns (unat lbaf);
       let requested_sector_size = lbaf_data_size_bytes (lbaf_ds ns (unat lbaf));
       let requested_supported = candidate_plain_block_supported requested_sector_size requested_metadata_size;
       print_format_summary (nui_UnitNumber (se_info se)) nsid current_lbaf lbaf requested_sector_size requested_metadata_size
         ses current_supported requested_supported;
       on_cond (current_lbaf \<noteq> lbaf)
         (print_line ''  Warning:              requested LBAF differs from the current namespace format\<newline>'');
       if \<not> requested_supported
       then do {
         print_line ''  Warning:              requested format will not be exposed by the current Amiga driver model\<newline>'';
         print_line ''Refusing to submit Format NVM for a non-exposed namespace shape\<newline>'';
         return RETURN_FAIL }
       else do {
         ok \<leftarrow> nvmeadm_require_confirm A;
         if \<not> ok then return RETURN_FAIL
         else do {
           r \<leftarrow> nvmeadm_submit E se (nvmeadm_build_format_nvm nsid (ucast lbaf) (ucast ses)) (\<lambda>_. 0) ''Format NVM'';
           case r of
             None \<Rightarrow> return RETURN_FAIL
           | Some res \<Rightarrow> do {
               print_line ''Format NVM submitted successfully\<newline>'';
               print_kv_hex32 ''Completion result:'' res;
               print_line ''Follow-up:               namespace readiness may change until the controller finishes formatting\<newline>'';
               return RETURN_OK } } } })"

definition run_format_nvm :: "adm_env \<Rightarrow> nvmeadm_cli_args \<Rightarrow> retcode adm" where
  "run_format_nvm E A = do {
     l \<leftarrow> nvmeadm_require_lbaf A;
     case l of
       None \<Rightarrow> return RETURN_ERROR
     | Some lbaf \<Rightarrow> do {
         let ses = (if cl_has_ses A then cl_ses A else 0);
         if cl_has_ses A \<and> 2 < ses
         then do { print_line ''format only supports SES values 0, 1, or 2\<newline>''; return RETURN_ERROR }
         else with_buffer E 4096 RETURN_FAIL (\<lambda>buf.
           with_session E (cl_unit A) RETURN_FAIL (\<lambda>se. do {
             r \<leftarrow> nvmeadm_fetch_identify E se ''Identify Namespace'' (nui_Nsid (se_info se)) 0 buf 4096;
             case r of None \<Rightarrow> return RETURN_FAIL | Some ns \<Rightarrow> format_checked E A se lbaf ses ns })) } }"

section \<open>Sanitize\<close>

definition print_sanitize_summary :: "u32 \<Rightarrow> string \<Rightarrow> u8 \<Rightarrow> bool \<Rightarrow> bool \<Rightarrow> u8 \<Rightarrow> bool \<Rightarrow> bool \<Rightarrow> unit adm" where
  "print_sanitize_summary u action_name sanact ause has_owpass owpass oipbp nodas = do {
     print_line ''Sanitize NVM\<newline>'';
     print_kv_u32 ''  Unit:'' u;
     print_kv_str ''  Action:'' action_name;
     print_kv_hex8 ''  SANACT:'' (ucast sanact);
     print_kv_str ''  AUSE:'' (if ause then ''set'' else ''clear'');
     (if has_owpass then print_kv_u32 ''  OWPASS:'' (ucast owpass)
     else print_line ''  OWPASS:               default (controller-defined; 0 means 16 passes if used)\<newline>'');
     print_kv_str ''  OIPBP:'' (if oipbp then ''set'' else ''clear'');
     print_kv_str ''  NODAS:'' (if nodas then ''set'' else ''clear'');
     print [Printf ''  Opcode:               0x%02lx (Sanitize NVM)\<newline>'' [ANum 0x84]] }"

definition run_sanitize_control :: "adm_env \<Rightarrow> nvmeadm_cli_args \<Rightarrow> u8 \<Rightarrow> string \<Rightarrow> retcode adm" where
  "run_sanitize_control E A sanact action_name =
    (if (cl_ause A \<or> cl_nodas A) \<and> sanact = 1
     then do { print_line ''AUSE and NODAS are not valid with sanitize exit-failure\<newline>''; return RETURN_ERROR }
     else if sanact \<noteq> 3 \<and> (cl_has_owpass A \<or> cl_oipbp A)
     then do { print_line ''OWPASS and OIPBP are only valid with sanitize overwrite\<newline>''; return RETURN_ERROR }
     else if sanact = 3 \<and> cl_has_owpass A \<and> 15 < cl_owpass A
     then do { print_line ''OWPASS must be in the range 0-15\<newline>''; return RETURN_ERROR }
     else do {
       print_sanitize_summary (cl_unit A) action_name sanact (cl_ause A) (cl_has_owpass A) (ucast (cl_owpass A)) (cl_oipbp A) (cl_nodas A);
       ok \<leftarrow> nvmeadm_require_confirm A;
       if \<not> ok then return RETURN_FAIL
       else with_session E (cl_unit A) RETURN_FAIL (\<lambda>se. do {
         r \<leftarrow> nvmeadm_submit E se (nvmeadm_build_sanitize_nvm sanact (cl_ause A) (ucast (cl_owpass A)) (cl_oipbp A) (cl_nodas A))
               (\<lambda>_. 0) ''Sanitize NVM'';
         case r of
           None \<Rightarrow> return RETURN_FAIL
         | Some res \<Rightarrow> do {
             print_line ''Sanitize NVM submitted successfully\<newline>'';
             print_kv_hex32 ''Completion result:'' res;
             print_line ''Follow-up:               run 'nvmeadm sanitize-status' to track progress and completion\<newline>'';
             return RETURN_OK } }) })"

section \<open>Firmware\<close>

definition print_fw_activate_summary :: "string \<Rightarrow> u32 \<Rightarrow> u32 \<Rightarrow> unit adm" where
  "print_fw_activate_summary action_name u sl = do {
     print_line ''Activate Firmware\<newline>'';
     print_kv_u32 ''  Unit:'' u;
     print_kv_u32 ''  Slot:'' sl;
     print_kv_str ''  Action:'' action_name;
     print [Printf ''  Opcode:               0x%02lx (Firmware Commit)\<newline>'' [ANum 0x10]];
     print_line ''  Warning:              controller reset or delayed activation may be required\<newline>'' }"

definition print_fw_download_summary :: "string \<Rightarrow> u32 \<Rightarrow> u32 \<Rightarrow> u32 \<Rightarrow> unit adm" where
  "print_fw_download_summary file_path u file_size chunk_size = do {
     let chunk_count = (file_size + chunk_size - 1) div chunk_size;
     print_line ''Download Firmware\<newline>'';
     print_kv_u32 ''  Unit:'' u;
     print_kv_str ''  File:'' file_path;
     print_kv_u32 ''  Bytes:'' file_size;
     print_kv_u32 ''  Chunks:'' chunk_count;
     print_kv_u32 ''  Chunk Size:'' chunk_size;
     print [Printf ''  Opcode:               0x%02lx (Download Firmware)\<newline>'' [ANum 0x11]];
     print_line ''  Follow-up:            choose a slot later with fw-activate\<newline>'' }"

text \<open>
  File access through dos.library.  A file is its content; a read returns how many of the wanted
  bytes it got, or None for an error.
\<close>

definition OpenFile :: "adm_env \<Rightarrow> string \<Rightarrow> u8 list option adm" where
  "OpenFile E path = call (\<lambda>i s. (ae_file E i path, if ae_file E i path = None then s else s\<lparr>a_files := a_files s + 1\<rparr>))"

definition CloseFile :: "unit adm" where
  "CloseFile = State (\<lambda>s. ((), s\<lparr>a_files := a_files s - 1\<rparr>))"

definition Seek :: "adm_env \<Rightarrow> bool adm" where
  "Seek E = call (\<lambda>i s. (ae_seek E i, s))"

definition ReadFile :: "adm_env \<Rightarrow> u8 list \<Rightarrow> u8 list option adm" where
  "ReadFile E wanted = call (\<lambda>i s. (map_option (\<lambda>n. take n wanted) (ae_read E i), s))"

text \<open>
  The download loop.  The file position is the offset, so \<open>rest\<close> is what is left of the file there; the result
  tells whether the end was reached.
\<close>

function fw_loop :: "adm_env \<Rightarrow> nvmeadm_session \<Rightarrow> u32 \<Rightarrow> u32 \<Rightarrow> u8 list \<Rightarrow> bool adm" where
  "fw_loop E se buffer offs [] = return True"
| "fw_loop E se buffer offs (b # bs) = do {
     stop \<leftarrow> nvmeadm_check_break E;
     if stop then return False
     else do {
       let chunk = take 4096 (b # bs);
       r \<leftarrow> ReadFile E chunk;
       if r \<noteq> Some chunk
       then do {
         (case r of
            None \<Rightarrow> print [Printf ''Read firmware file failed at offset %lu\<newline>'' [ANum offs]]
          | Some got \<Rightarrow> print [Printf ''Read firmware file failed at offset %lu (read=%lu wanted=%lu)\<newline>''
              [ANum offs, ANum (of_nat (length got)), ANum (of_nat (length chunk))]]);
         return False }
       else do {
         reply \<leftarrow> nvmeadm_admin_passthru E se (nvmeadm_build_download_fw buffer (of_nat (length chunk)) offs) (\<lambda>i. chunk ! i);
         if pr_status reply \<noteq> 0
         then do {
           print [Printf ''Download Firmware failed at byte offset %lu\<newline>'' [ANum offs]];
           print_admin_failure ''Download Firmware'' reply;
           return False }
         else fw_loop E se buffer (offs + of_nat (length chunk)) (drop 4096 (b # bs)) } } }"
  by pat_completeness auto
termination by (relation "measure (\<lambda>(E, se, buffer, offs, rest). length rest)") auto

definition fw_transfer :: "adm_env \<Rightarrow> nvmeadm_session \<Rightarrow> u32 \<Rightarrow> u8 list \<Rightarrow> retcode adm" where
  "fw_transfer E se buffer content = do {
     finished \<leftarrow> fw_loop E se buffer 0 content;
     if \<not> finished then return RETURN_FAIL
     else do {
       print_line ''Firmware download submitted successfully\<newline>'';
       print_kv_u32 ''Transferred Bytes:'' (of_nat (length content));
       print_line ''Follow-up:              run fw-activate to commit the downloaded image to a slot\<newline>'';
       return RETURN_OK } }"

definition fw_send :: "adm_env \<Rightarrow> nvmeadm_cli_args \<Rightarrow> string \<Rightarrow> u8 list \<Rightarrow> u32 \<Rightarrow> retcode adm" where
  "fw_send E A file_path content buffer = do {
     print_fw_download_summary file_path (cl_unit A) (of_nat (length content)) 4096;
     ok \<leftarrow> nvmeadm_require_confirm A;
     if \<not> ok then return RETURN_FAIL
     else with_session E (cl_unit A) RETURN_FAIL (\<lambda>se. fw_transfer E se buffer content) }"

definition fw_from_file :: "adm_env \<Rightarrow> nvmeadm_cli_args \<Rightarrow> string \<Rightarrow> u8 list \<Rightarrow> retcode adm" where
  "fw_from_file E A file_path content = do {
     at_end \<leftarrow> Seek E;
     if \<not> at_end then return RETURN_FAIL
     else do {
       at_start \<leftarrow> Seek E;
       if \<not> at_start then return RETURN_FAIL
       else if content = [] then do { print_line ''Firmware file is empty\<newline>''; return RETURN_FAIL }
       else if length content mod 4 \<noteq> 0
       then do { print_line ''Firmware file size must be a multiple of 4 bytes\<newline>''; return RETURN_FAIL }
       else with_buffer E 4096 RETURN_FAIL (fw_send E A file_path content) } }"

definition with_file :: "adm_env \<Rightarrow> string \<Rightarrow> 'a \<Rightarrow> (u8 list \<Rightarrow> 'a adm) \<Rightarrow> 'a adm" where
  "with_file E path failed body = do {
     h \<leftarrow> OpenFile E path;
     case h of
       None \<Rightarrow> return failed
     | Some content \<Rightarrow> do { rc \<leftarrow> body content; CloseFile; return rc } }"

definition run_fw_download :: "adm_env \<Rightarrow> nvmeadm_cli_args \<Rightarrow> retcode adm" where
  "run_fw_download E A = do {
     f \<leftarrow> nvmeadm_require_file A;
     case f of
       None \<Rightarrow> return RETURN_ERROR
     | Some file_path \<Rightarrow> with_file E file_path RETURN_FAIL (fw_from_file E A file_path) }"

definition run_fw_activate_control :: "adm_env \<Rightarrow> nvmeadm_cli_args \<Rightarrow> u8 \<Rightarrow> string \<Rightarrow> retcode adm" where
  "run_fw_activate_control E A action action_name =
    (if \<not> cl_has_unit A then do { print_line ''fw-activate requires UNIT <n>\<newline>''; return RETURN_ERROR }
     else if \<not> cl_has_slot A then do { print_line ''fw-activate requires SLOT <n>\<newline>''; return RETURN_ERROR }
     else if cl_slot A = 0 \<or> 7 < cl_slot A
     then do { print_line ''fw-activate requires SLOT in the range 1..7\<newline>''; return RETURN_ERROR }
     else do {
       print_fw_activate_summary action_name (cl_unit A) (cl_slot A);
       ok \<leftarrow> nvmeadm_require_confirm A;
       if \<not> ok then return RETURN_FAIL
       else with_session E (cl_unit A) RETURN_FAIL (\<lambda>se. do {
         r \<leftarrow> nvmeadm_submit E se (nvmeadm_build_activate_fw (ucast (cl_slot A)) action) (\<lambda>_. 0) ''Firmware activate'';
         case r of
           None \<Rightarrow> return RETURN_FAIL
         | Some res \<Rightarrow> do {
             print_line ''Firmware activate submitted successfully\<newline>'';
             print_kv_hex32 ''Completion result:'' res;
             print_line ''Follow-up:               run 'nvmeadm fw-log' and reset if activation is deferred\<newline>'';
             return RETURN_OK } }) })"

section \<open>Self-test and features\<close>

definition run_self_test_control :: "adm_env \<Rightarrow> nvmeadm_cli_args \<Rightarrow> u8 \<Rightarrow> string \<Rightarrow> retcode adm" where
  "run_self_test_control E A stc label = with_session E (cl_unit A) RETURN_FAIL (\<lambda>se. do {
     r \<leftarrow> nvmeadm_submit E se (nvmeadm_build_self_test NVME_NSID_ALL stc) (\<lambda>_. 0) label;
     case r of
       None \<Rightarrow> return RETURN_FAIL
     | Some res \<Rightarrow> do {
         print [Printf ''%s submitted successfully\<newline>'' [AStr label]];
         print_kv_hex32 ''Completion result:'' res;
         return RETURN_OK } })"

definition features :: "(u8 \<times> string) list" where
  "features = [(0x02, ''Power Management:''), (0x04, ''Temperature Threshold:''), (0x05, ''Error Recovery:''),
     (0x06, ''Volatile Write Cache:''), (0x07, ''Number of Queues:''), (0x08, ''IRQ Coalescing:''), (0x0b, ''Async Event Config:''),
     (0x0d, ''Host Memory Buffer:''), (0x0e, ''Timestamp:''), (0x0f, ''Keep Alive Timeout:''), (0x17, ''Sanitize Config:''),
     (0x11, ''Non-Operational PS:'')]"

fun feature_loop :: "adm_env \<Rightarrow> nvmeadm_session \<Rightarrow> (u8 \<times> string) list \<Rightarrow> unit adm" where
  "feature_loop E se [] = return ()"
| "feature_loop E se ((fid, label) # fs) = do {
     r \<leftarrow> nvmeadm_admin_passthru E se (nvmeadm_build_get_features 0 fid 0 0 0) (\<lambda>_. 0);
     (if pr_status r \<noteq> 0
      then print [Printf ''%-24s failed: status=0x%02lx result=0x%08lx\<newline>'' [AStr label, ANum (ucast (pr_status r)), ANum (pr_result r)]]
      else print_feature_value label fid (pr_result r));
     feature_loop E se fs }"

definition run_get_feature :: "adm_env \<Rightarrow> nvmeadm_cli_args \<Rightarrow> retcode adm" where
  "run_get_feature E A = with_session E (cl_unit A) RETURN_FAIL (\<lambda>se. do {
     print_line ''Get Features (controller scope)\<newline>'';
     feature_loop E se features;
     return RETURN_OK })"

section \<open>Everything is given back, nothing is destroyed unasked\<close>

definition destructive :: "NVMePassthruCmd \<Rightarrow> bool" where
  "destructive c \<longleftrightarrow> pt_Opcode c \<in> {0x80, 0x84, 0x10, 0x11}"

definition allowed :: "nvmeadm_cli_args \<Rightarrow> u32 \<times> NVMePassthruCmd \<times> u8 list \<Rightarrow> bool" where
  "allowed A = (\<lambda>(u, c, d). u = cl_unit A \<and> (destructive c \<longrightarrow> cl_confirm A))"

lemma sends_fetch_allowed:
  assumes "se_unit se = cl_unit A"
  shows "sends (allowed A) (nvmeadm_fetch_get_log E se op nsid lp lsp csi b n)" "sends (allowed A) (nvmeadm_fetch_identify E se op nsid cns b n)"
    "sends (allowed A) (nvmeadm_fetch_identify_quiet E se nsid cns b n)" "sends (allowed A) (nvmeadm_fetch_identify_csi E se nsid cns' csi b n)"
  by (rule sends_fetch, use assms in \<open>auto simp: allowed_def destructive_def\<close>)+

lemma sends_confirm:
  assumes "cl_confirm A \<Longrightarrow> sends P (f True)" "sends P (f False)"
  shows "sends P (State_Monad.bind (nvmeadm_require_confirm A) f)"
proof -
  have "State_Monad.bind (nvmeadm_require_confirm A) f = State_Monad.bind (nvmeadm_require_confirm A) (\<lambda>_. f (cl_confirm A))"
    by (rule state_ext) (simp add: nvmeadm_require_confirm_def on_cond_def print_line_def print_def)
  moreover have "sends P (f (cl_confirm A))" using assms by (cases "cl_confirm A") auto
  then have "sends P (State_Monad.bind (nvmeadm_require_confirm A) (\<lambda>_. f (cl_confirm A)))" by (intro sends_rules)
  ultimately show ?thesis by simp
qed

lemma summary_rules:
  "tidy (print_format_summary a b c d e f g h i)" "sends P (print_format_summary a b c d e f g h i)"
  "tidy (print_sanitize_summary a j k h l m n i)" "sends P (print_sanitize_summary a j k h l m n i)"
  "tidy (print_fw_activate_summary j a b)" "sends P (print_fw_activate_summary j a b)"
  "tidy (print_fw_download_summary j a b c)" "sends P (print_fw_download_summary j a b c)"
  unfolding print_format_summary_def print_sanitize_summary_def print_fw_activate_summary_def print_fw_download_summary_def
  by (intro tidy_rules sends_rules)+

lemma format_tidy [tidy]: "tidy (run_format_nvm E A)"
  unfolding run_format_nvm_def format_checked_def by (intro tidy_rules tidy summary_rules)

lemma sanitize_tidy [tidy]: "tidy (run_sanitize_control E A k n)"
  unfolding run_sanitize_control_def by (intro tidy_rules tidy summary_rules)

lemma activate_tidy [tidy]: "tidy (run_fw_activate_control E A k n)"
  unfolding run_fw_activate_control_def by (intro tidy_rules tidy summary_rules)

lemma self_test_control_tidy [tidy]: "tidy (run_self_test_control E A k n)"
  unfolding run_self_test_control_def by (intro tidy_rules tidy)

lemma feature_loop_tidy: "tidy (feature_loop E se fs)"
proof (induction fs)
  case (Cons f fs)
  then show ?case by (cases f) (auto intro!: tidy_rules tidy)
qed (auto intro: tidy_rules)

lemma feature_tidy [tidy]: "tidy (run_get_feature E A)"
  unfolding run_get_feature_def by (intro tidy_rules tidy feature_loop_tidy)

lemma file_run:
  "run_state (OpenFile E path) s = (ae_file E (a_calls s) path,
     if ae_file E (a_calls s) path = None then s\<lparr>a_calls := a_calls s + 1\<rparr> else s\<lparr>a_calls := a_calls s + 1, a_files := a_files s + 1\<rparr>)"
  "run_state CloseFile s = ((), s\<lparr>a_files := a_files s - 1\<rparr>)"
  by (simp_all add: OpenFile_def CloseFile_def call_def)

lemma io_tidy [tidy]: "tidy (Seek E)" "tidy (ReadFile E w)"
  unfolding Seek_def ReadFile_def tidy_meets by (rule keep.call_meets, simp)+

lemma io_sends: "sends P (Seek E)" "sends P (ReadFile E w)" "sends P (OpenFile E path)" "sends P CloseFile"
  by (auto simp: sends_def Seek_def ReadFile_def call_def file_run)

lemma fw_loop_tidy: "tidy (fw_loop E se buffer offs rest)"
proof (induction E se buffer offs rest rule: fw_loop.induct)
  case (2 E se buffer offs b bs)
  show ?case unfolding fw_loop.simps by (intro tidy_rules tidy 2 refl)
qed (auto intro: tidy_rules)

lemma fw_from_file_tidy: "tidy (fw_from_file E A p c)"
  unfolding fw_from_file_def fw_send_def fw_transfer_def by (intro tidy_rules tidy summary_rules fw_loop_tidy)

lemma tidy_with_file [tidy]:
  assumes "\<And>c. tidy (body c)"
  shows "tidy (with_file E path x body)"
  unfolding tidy_def
proof
  fix s :: adm_state
  show "holds (snd (run_state (with_file E path x body) s)) = holds s"
  proof (cases "ae_file E (a_calls s) path")
    case (Some c)
    let ?s1 = "s\<lparr>a_calls := a_calls s + 1, a_files := a_files s + 1\<rparr>"
    obtain rc s2 where r: "run_state (body c) ?s1 = (rc, s2)" by (cases "run_state (body c) ?s1")
    then have "holds s2 = holds ?s1" using assms by (metis tidy_def snd_conv)
    then show ?thesis using Some r by (simp add: with_file_def file_run holds_def)
  qed (simp add: with_file_def file_run holds_def)
qed

lemma download_tidy [tidy]: "tidy (run_fw_download E A)"
  unfolding run_fw_download_def by (intro tidy_rules tidy fw_from_file_tidy)

lemma format_allowed: "sends (allowed A) (run_format_nvm E A)"
  unfolding run_format_nvm_def format_checked_def
  by (intro sends_confirm sends_rules sends_with_buffer sends_with_session sends_fetch_allowed summary_rules sends_submit)
    (auto simp: allowed_def)

lemma sanitize_allowed: "sends (allowed A) (run_sanitize_control E A k n)"
  unfolding run_sanitize_control_def
  by (intro sends_confirm sends_rules sends_with_session summary_rules sends_submit) (auto simp: allowed_def)

lemma activate_allowed: "sends (allowed A) (run_fw_activate_control E A k n)"
  unfolding run_fw_activate_control_def
  by (intro sends_confirm sends_rules sends_with_session summary_rules sends_submit) (auto simp: allowed_def)

lemma self_test_control_allowed: "sends (allowed A) (run_self_test_control E A k n)"
  unfolding run_self_test_control_def
  by (intro sends_rules sends_with_session sends_submit) (auto simp: allowed_def destructive_def nvmeadm_build_self_test_def)

lemma feature_loop_allowed: "se_unit se = cl_unit A \<Longrightarrow> sends (allowed A) (feature_loop E se fs)"
proof (induction fs)
  case (Cons f fs)
  then show ?case
    by (cases f) (auto intro!: sends_rules sends_pass simp: allowed_def destructive_def nvmeadm_build_get_features_def)
qed (auto intro: sends_rules)

lemma feature_allowed: "sends (allowed A) (run_get_feature E A)"
  unfolding run_get_feature_def by (intro sends_rules sends_with_session feature_loop_allowed)

lemma fw_loop_allowed: "se_unit se = cl_unit A \<Longrightarrow> cl_confirm A \<Longrightarrow> sends (allowed A) (fw_loop E se buffer offs rest)"
proof (induction E se buffer offs rest rule: fw_loop.induct)
  case (2 E se buffer offs b bs)
  show ?case unfolding fw_loop.simps by (intro sends_rules io_sends sends_pass 2 refl) (auto simp: allowed_def 2)
qed (auto intro: sends_rules)

lemma download_allowed: "sends (allowed A) (run_fw_download E A)"
  unfolding run_fw_download_def with_file_def fw_from_file_def fw_send_def fw_transfer_def
  by (intro sends_confirm sends_rules io_sends sends_with_buffer sends_with_session summary_rules fw_loop_allowed) auto

section \<open>A download transfers the file\<close>

text \<open>The commands of a download from a byte offset on: each carries the doublewords of its data at that offset.\<close>

fun fw_parts :: "nat \<Rightarrow> (u32 \<times> NVMePassthruCmd \<times> u8 list) list \<Rightarrow> bool" where
  "fw_parts offs [] = True"
| "fw_parts offs ((u, c, d) # cs) \<longleftrightarrow>
    pt_Opcode c = 0x11 \<and> d \<noteq> [] \<and> length d \<le> 4096 \<and> unat (pt_DataLen c) = length d \<and>
    4 * (unat (pt_Cdw10 c) + 1) = length d \<and> 4 * unat (pt_Cdw11 c) = offs \<and> fw_parts (offs + length d) cs"

definition data_of :: "(u32 \<times> NVMePassthruCmd \<times> u8 list) list \<Rightarrow> u8 list" where
  "data_of cs = concat (map (\<lambda>(u, c, d). d) cs)"

lemma data_of_Cons: "data_of ((u, c, d) # cs) = d @ data_of cs"
  by (simp add: data_of_def)

lemma numd_exact: "0 < n \<Longrightarrow> n mod 4 = 0 \<Longrightarrow> n \<le> 4096 \<Longrightarrow> 4 * (unat (nvme_bytes_to_numd (of_nat n)) + 1) = n"
proof -
  assume n: "0 < n" "n mod 4 = 0" "n \<le> 4096"
  have "unat (drop_bit 2 (of_nat n :: u32)) = n div 4" using n unat_high [of 2 "of_nat n :: u32"] by (simp add: unat_of_nat)
  moreover have "1 \<le> n div 4" using n by presburger
  ultimately have "unat (nvme_bytes_to_numd (of_nat n)) = n div 4 - 1"
    unfolding nvme_bytes_to_numd_def using unat_sub_le [of 1 "drop_bit 2 (of_nat n :: u32)"] by simp
  then show ?thesis using n by presburger
qed

lemma unat_offset: "n \<le> 4096 \<Longrightarrow> unat (x :: u32) + n < 2 ^ 32 \<Longrightarrow> unat (x + of_nat n) = unat x + n"
  by (subst unat_add_no_wrap) (auto simp: unat_of_nat)

lemma get_bytes_nth: "n = length xs \<Longrightarrow> get_bytes (\<lambda>i. xs ! i) 0 n = xs"
  by (simp add: get_bytes_def map_nth)

lemma fw_part:
  assumes "d \<noteq> []" "length d \<le> 4096" "length d mod 4 = 0" "unat offs mod 4 = 0"
  shows "fw_parts (unat offs) ((u, nvmeadm_build_download_fw buffer (of_nat (length d)) offs, d) # cs) \<longleftrightarrow> fw_parts (unat offs + length d) cs"
    "get_bytes (\<lambda>i. d ! i) 0 (unat (pt_DataLen (nvmeadm_build_download_fw buffer (of_nat (length d)) offs))) = d"
  using assms numd_exact [of "length d"] unat_high [of 2 offs]
  by (auto simp: nvmeadm_build_download_fw_def unat_of_nat intro: get_bytes_nth)

lemma fw_loop_covers:
  assumes "run_state (fw_loop E se buffer offs rest) s = (finished, s')"
    and "unat offs + length rest < 2 ^ 32" "unat offs mod 4 = 0" "length rest mod 4 = 0"
  shows "\<exists>cs tail. a_sent s' = a_sent s @ cs \<and> fw_parts (unat offs) cs \<and> rest = data_of cs @ tail \<and> (finished \<longrightarrow> tail = [])"
  using assms
proof (induction E se buffer offs rest arbitrary: s rule: fw_loop.induct)
  case (1 E se buffer offs)
  then show ?case by (intro exI [of _ "[]"]) (auto simp: data_of_def)
next
  case (2 E se buffer offs b bs)
  let ?chunk = "take 4096 (b # bs)" and ?rest = "drop 4096 (b # bs)"
  let ?cmd = "nvmeadm_build_download_fw buffer (of_nat (length ?chunk)) offs"
  have len: "length ?chunk \<le> 4096" "0 < length ?chunk" "length ?chunk mod 4 = 0" "unat offs + length ?chunk + length ?rest < 2 ^ 32"
    using 2(3,5) by (auto simp: min_def)
  have o: "unat (offs + of_nat (length ?chunk)) = unat offs + length ?chunk"
    by (rule unat_offset [OF len(1)]) (use len(4) in linarith)
  have part: "fw_parts (unat offs) ((u, ?cmd, ?chunk) # cs) \<longleftrightarrow> fw_parts (unat offs + length ?chunk) cs"
    and sent: "get_bytes (\<lambda>i. ?chunk ! i) 0 (unat (pt_DataLen ?cmd)) = ?chunk" for u cs
    by (rule fw_part [OF _ len(1,3) 2(4)], simp)+
  let ?i = "a_calls s"
  consider (stop) "ae_break E ?i" | (short) "\<not> ae_break E ?i" "map_option (\<lambda>n. take n ?chunk) (ae_read E (?i + 1)) \<noteq> Some ?chunk"
    | (failed) "\<not> ae_break E ?i" "map_option (\<lambda>n. take n ?chunk) (ae_read E (?i + 1)) = Some ?chunk"
        "pr_status (ae_pass E (?i + 2) (se_unit se) ?cmd) \<noteq> 0"
    | (sent) "\<not> ae_break E ?i" "map_option (\<lambda>n. take n ?chunk) (ae_read E (?i + 1)) = Some ?chunk"
        "pr_status (ae_pass E (?i + 2) (se_unit se) ?cmd) = 0" by blast
  then show ?case
  proof cases
    case stop
    then have "finished = False \<and> a_sent s' = a_sent s" using 2(2) by (auto simp: nvmeadm_check_break_def call_def)
    then show ?thesis by - (rule exI [of _ "[]"], rule exI [of _ "b # bs"], simp add: data_of_def)
  next
    case short
    then have "finished = False \<and> a_sent s' = a_sent s"
      using 2(2) by (auto simp: nvmeadm_check_break_def ReadFile_def call_def print_def Let_def simp del: take_Suc_Cons split: option.splits)
    then show ?thesis by - (rule exI [of _ "[]"], rule exI [of _ "b # bs"], simp add: data_of_def)
  next
    case failed
    then have "finished = False \<and> a_sent s' = a_sent s @ [(se_unit se, ?cmd, ?chunk)]"
      using 2(2) sent by (auto simp: nvmeadm_check_break_def ReadFile_def nvmeadm_admin_passthru_def print_admin_failure_def call_def print_def
        Let_def simp del: take_Suc_Cons)
    moreover have "fw_parts (unat offs) [(se_unit se, ?cmd, ?chunk)]" using part [of "se_unit se" "[]"] by (simp only: fw_parts.simps)
    moreover have "b # bs = data_of [(se_unit se, ?cmd, ?chunk)] @ ?rest" by (simp add: data_of_def)
    ultimately show ?thesis by blast
  next
    case sent
    define s1 where "s1 = s\<lparr>a_calls := Suc (Suc (Suc ?i)), a_sent := a_sent s @ [(se_unit se, ?cmd, ?chunk)]\<rparr>"
    have run: "run_state (fw_loop E se buffer (offs + of_nat (length ?chunk)) ?rest) s1 = (finished, s')"
      using 2(2) sent \<open>get_bytes _ _ _ = _\<close> unfolding s1_def
      by (auto simp: nvmeadm_check_break_def ReadFile_def nvmeadm_admin_passthru_def call_def Let_def simp del: take_Suc_Cons drop_Suc_Cons)
    have "length ?rest mod 4 = 0" using 2(5) len(3) by (simp del: take_Suc_Cons drop_Suc_Cons) presburger
    moreover have "unat (offs + of_nat (length ?chunk)) mod 4 = 0" using 2(4) len(3) o by presburger
    ultimately obtain cs tail where ih: "a_sent s' = a_sent s1 @ cs" "fw_parts (unat offs + length ?chunk) cs"
      "?rest = data_of cs @ tail" "finished \<longrightarrow> tail = []"
      using 2(1) [OF _ refl _ _ run] sent len o by (metis (no_types, lifting))
    then have "b # bs = data_of ((se_unit se, ?cmd, ?chunk) # cs) @ tail"
      by (metis append.assoc append_take_drop_id data_of_Cons)
    moreover have "fw_parts (unat offs) ((se_unit se, ?cmd, ?chunk) # cs)" using part [of "se_unit se" cs] ih(2) by (simp only:)
    moreover have "a_sent s' = a_sent s @ (se_unit se, ?cmd, ?chunk) # cs" using ih(1) by (simp add: s1_def)
    ultimately show ?thesis using ih(4) by blast
  qed
qed

text \<open>
  What a computation returns against what it sends: \<open>post P\<close> relates the result with the commands before and after.
\<close>

definition post :: "('a \<Rightarrow> (u32 \<times> NVMePassthruCmd \<times> u8 list) list \<Rightarrow> (u32 \<times> NVMePassthruCmd \<times> u8 list) list \<Rightarrow> bool) \<Rightarrow> 'a adm \<Rightarrow> bool" where
  "post P m \<longleftrightarrow> (\<forall>s. P (fst (run_state m s)) (a_sent s) (a_sent (snd (run_state m s))))"

lemma post_run: "post P m \<Longrightarrow> run_state m s = (x, s') \<Longrightarrow> P x (a_sent s) (a_sent s')"
  unfolding post_def by (erule allE [of _ s]) simp

lemma post_return: "(\<And>l. P x l l) \<Longrightarrow> post P (return x)"
  by (simp add: post_def)

lemma post_if: "(b \<Longrightarrow> post P m) \<Longrightarrow> (\<not> b \<Longrightarrow> post P n) \<Longrightarrow> post P (if b then m else n)"
  by simp

lemma silent_keeps: "sends (\<lambda>_. False) m \<Longrightarrow> run_state m s = (x, s') \<Longrightarrow> a_sent s' = a_sent s"
proof -
  assume "sends (\<lambda>_. False) m" "run_state m s = (x, s')"
  then obtain cs where "a_sent s' = a_sent s @ cs" "list_all (\<lambda>_. False) cs" by (metis sends_def snd_conv)
  then show ?thesis by (cases cs) simp_all
qed

lemma post_silent:
  assumes "sends (\<lambda>_. False) m" "\<And>x. post P (f x)"
  shows "post P (State_Monad.bind m f)"
proof -
  have "P (fst (run_state (State_Monad.bind m f) s)) (a_sent s) (a_sent (snd (run_state (State_Monad.bind m f) s)))" for s
  proof (cases "run_state m s")
    case (Pair x s1)
    then show ?thesis using assms(2) [of x] silent_keeps [OF assms(1) Pair] by (simp add: post_def) metis
  qed
  then show ?thesis by (simp add: post_def)
qed

lemma post_then:
  assumes "post P m" "\<And>x. sends (\<lambda>_. False) (f x)"
  shows "post P (do { x \<leftarrow> m; f x; return x })"
proof -
  have "P (fst (run_state (do { x \<leftarrow> m; f x; return x }) s)) (a_sent s) (a_sent (snd (run_state (do { x \<leftarrow> m; f x; return x }) s)))" for s
  proof (cases "run_state m s")
    case (Pair x s1)
    moreover obtain y s2 where "run_state (f x) s1 = (y, s2)" by (cases "run_state (f x) s1")
    ultimately show ?thesis using assms(1) silent_keeps [OF assms(2)] by (simp add: post_def) (metis fst_conv snd_conv)
  qed
  then show ?thesis by (simp add: post_def)
qed

lemma silent_system: "sends P (nvmeadm_alloc_clear E n)" "sends P (FreeMem p n)" "sends P (nvmeadm_open_unit E u)" "sends P (nvmeadm_close se)"
proof -
  show "sends P (nvmeadm_open_unit E u)"
    unfolding sends_def
  proof
    fix s
    obtain r s1 where "run_state (nvmeadm_open_unit_internal E u False) s = (r, s1)" by (cases "run_state (nvmeadm_open_unit_internal E u False) s")
    then show "\<exists>cs. a_sent (snd (run_state (nvmeadm_open_unit E u) s)) = a_sent s @ cs \<and> list_all P cs"
      using open_holds by (auto simp: nvmeadm_open_unit_def)
  qed
qed (auto simp: sends_def alloc_run free_run Let_def nvmeadm_close_def)

lemma post_with:
  assumes "\<And>l. P x l l"
  shows "(\<And>p. post P (body p)) \<Longrightarrow> post P (with_buffer E n x body)" "(\<And>se. post P (body' se)) \<Longrightarrow> post P (with_session E u x body')"
    "(\<And>c. (\<exists>i. ae_file E i path = Some c) \<Longrightarrow> post P (body'' c)) \<Longrightarrow> post P (with_file E path x body'')"
proof -
  assume b: "\<And>p. post P (body p)"
  then show "post P (with_buffer E n x body)"
    unfolding with_buffer_def by (intro post_silent silent_system post_if post_return assms post_then b)
next
  assume b: "\<And>se. post P (body' se)"
  show "post P (with_session E u x body')" unfolding with_session_def
    by (rule post_silent [OF silent_system(3)]) (auto split: option.split intro!: post_return assms post_then b silent_system)
next
  assume b: "\<And>c. (\<exists>i. ae_file E i path = Some c) \<Longrightarrow> post P (body'' c)"
  have "P (fst (run_state (with_file E path x body'') s)) (a_sent s) (a_sent (snd (run_state (with_file E path x body'') s)))" for s
  proof (cases "ae_file E (a_calls s) path")
    case None
    then show ?thesis using assms by (simp add: with_file_def file_run)
  next
    case (Some c)
    let ?s1 = "s\<lparr>a_calls := a_calls s + 1, a_files := a_files s + 1\<rparr>" and ?m = "do { rc \<leftarrow> body'' c; CloseFile; return rc }"
    have "post P ?m" using b Some by (intro post_then io_sends) blast
    then have "P (fst (run_state ?m ?s1)) (a_sent ?s1) (a_sent (snd (run_state ?m ?s1)))" unfolding post_def by blast
    moreover have "run_state (with_file E path x body'') s = run_state ?m ?s1" using Some by (simp add: with_file_def file_run)
    ultimately show ?thesis by simp
  qed
  then show "post P (with_file E path x body'')" by (simp add: post_def)
qed

definition transferred :: "u8 list \<Rightarrow> bool \<Rightarrow> (u32 \<times> NVMePassthruCmd \<times> u8 list) list \<Rightarrow> (u32 \<times> NVMePassthruCmd \<times> u8 list) list \<Rightarrow> bool" where
  "transferred content complete l l' \<longleftrightarrow>
    (\<exists>cs tail. l' = l @ cs \<and> fw_parts 0 cs \<and> content = data_of cs @ tail \<and> (complete \<longrightarrow> tail = []))"

lemma nothing_transferred: "transferred content False l l"
  by (auto simp: transferred_def data_of_def intro: exI [of _ "[]"])

lemma fw_transfer_ok:
  assumes "length content < 2 ^ 31" "length content mod 4 = 0"
  shows "post (\<lambda>rc. transferred content (rc = RETURN_OK)) (fw_transfer E se buffer content)"
  unfolding post_def
proof
  fix s
  obtain finished s1 where l: "run_state (fw_loop E se buffer 0 content) s = (finished, s1)"
    by (cases "run_state (fw_loop E se buffer 0 content) s")
  have "transferred content finished (a_sent s) (a_sent s1)"
    using fw_loop_covers [OF l] assms unfolding transferred_def by simp
  then show "transferred content (fst (run_state (fw_transfer E se buffer content) s) = RETURN_OK) (a_sent s)
      (a_sent (snd (run_state (fw_transfer E se buffer content) s)))"
    using l by (cases finished) (simp_all add: fw_transfer_def print_line_def print_kv_u32_def print_def)
qed

lemma fw_send_transfers:
  assumes "length content < 2 ^ 31" "length content mod 4 = 0"
  shows "post (\<lambda>rc. transferred content (rc = RETURN_OK)) (fw_send E A path content buffer)"
  unfolding fw_send_def
  by (intro post_silent summary_rules sends_rules post_if post_return post_with(2) fw_transfer_ok assms) (simp_all add: nothing_transferred)

lemma download_transferred:
  assumes "\<And>i c. ae_file E i path = Some c \<Longrightarrow> c = content" "cl_file A = Some path" "length content < 2 ^ 31"
  shows "post (\<lambda>rc. transferred content (rc = RETURN_OK)) (run_fw_download E A)"
proof -
  have n: "transferred content (RETURN_FAIL = RETURN_OK) l l" for l by (simp add: nothing_transferred)
  have "post (\<lambda>rc. transferred content (rc = RETURN_OK)) (fw_from_file E A path content)"
    unfolding fw_from_file_def
    by (intro post_silent io_sends sends_rules post_if post_return n post_with(1) fw_send_transfers) (use assms in auto)
  then have w: "post (\<lambda>rc. transferred content (rc = RETURN_OK)) (with_file E path RETURN_FAIL (fw_from_file E A path))"
    using assms(1) by (intro post_with(3) n) auto
  have "run_fw_download E A = with_file E path RETURN_FAIL (fw_from_file E A path)"
    by (rule state_ext) (simp add: run_fw_download_def nvmeadm_require_file_def assms(2) on_cond_def)
  then show ?thesis using w by simp
qed

text \<open>An environment in which nothing fails.\<close>

definition all_well :: "adm_env \<Rightarrow> bool" where
  "all_well E \<longleftrightarrow> (\<forall>i u c. ae_alloc E i \<noteq> 0 \<and> ae_open E i u = 0 \<and> ae_info E i u \<noteq> None \<and> pr_status (ae_pass E i u c) = 0 \<and>
     \<not> ae_break E i \<and> ae_seek E i \<and> (case ae_read E i of None \<Rightarrow> False | Some n \<Rightarrow> 4096 \<le> n))"

lemma pred_state_iff: "pred_state Q m \<longleftrightarrow> (\<forall>s. Q (fst (run_state m s)))"
  by (auto dest: pred_stateD pred_state_run_state intro: pred_stateI) (metis fst_conv pred_stateI)

lemma fw_loop_ends: "all_well E \<Longrightarrow> pred_state (\<lambda>b. b) (fw_loop E se buffer offs rest)"
proof (induction E se buffer offs rest rule: fw_loop.induct)
  case (2 E se buffer offs b bs)
  have "run_state (nvmeadm_check_break E) s = (False, s\<lparr>a_calls := a_calls s + 1\<rparr>)" for s
    using 2(2) by (auto simp: nvmeadm_check_break_def call_def all_well_def)
  moreover have "run_state (ReadFile E (take 4096 (b # bs))) s = (Some (take 4096 (b # bs)), s\<lparr>a_calls := a_calls s + 1\<rparr>)" for s
  proof -
    have "case ae_read E (a_calls s) of None \<Rightarrow> False | Some n \<Rightarrow> 4096 \<le> n" using 2(2) by (simp add: all_well_def)
    then show ?thesis by (cases "ae_read E (a_calls s)") (simp_all add: ReadFile_def call_def min_def del: take_Suc_Cons)
  qed
  moreover have ok: "pr_status x = 0" if "run_state (nvmeadm_admin_passthru E se c d) s = (x, y)" for c d s x y
    using 2(2) that by (auto simp: nvmeadm_admin_passthru_def call_def all_well_def)
  moreover have "pred_state (\<lambda>b. b) (fw_loop E se buffer (offs + of_nat (length (take 4096 (b # bs)))) (drop 4096 (b # bs)))"
    using 2(1) [OF _ refl, of False "Some (take 4096 (b # bs))" "ae_pass E 0 0 zero_pass"] 2(2) by (simp add: all_well_def)
  ultimately show ?case unfolding pred_state_iff by (auto simp: Let_def split: prod.split dest!: ok simp del: take_Suc_Cons drop_Suc_Cons)
qed (auto simp: pred_state_iff)

lemma open_well:
  assumes "all_well E"
  shows "\<exists>se s'. run_state (nvmeadm_open_unit E u) s = (Some se, s')"
proof -
  have "ae_info E i u \<noteq> None" "ae_alloc E i \<noteq> 0" "ae_open E i u = 0" for i using assms by (simp_all add: all_well_def)
  moreover obtain info where "ae_info E (Suc (Suc (Suc (a_calls s)))) u = Some info" using calculation(1) by blast
  ultimately show ?thesis
    by (simp add: nvmeadm_open_unit_def nvmeadm_open_unit_internal_def CreateMsgPort_def CreateIORequest_def OpenDevice_def
      nvmeadm_fetch_unit_info_def call_def Let_def)
qed

lemma fst_then: "fst (run_state (do { x \<leftarrow> m; f x; return x }) s) = fst (run_state m s)"
  by (simp split: prod.split)

lemma session_well:
  assumes "all_well E" "\<And>se. se_unit se = u \<Longrightarrow> pred_state Q (body se)"
  shows "pred_state Q (with_session E u x body)"
  unfolding pred_state_iff
proof
  fix s
  obtain se s1 where o: "run_state (nvmeadm_open_unit E u) s = (Some se, s1)" using open_well [OF assms(1)] by blast
  then have u: "se_unit se = u" using open_holds [OF o [unfolded nvmeadm_open_unit_def]] by simp
  have "run_state (with_session E u x body) s = run_state (do { rc \<leftarrow> body se; nvmeadm_close se; return rc }) s1"
    using o by (simp add: with_session_def)
  then show "Q (fst (run_state (with_session E u x body) s))" using assms(2) [OF u] by (simp only: fst_then pred_state_iff)
qed

lemma buffer_well:
  assumes "all_well E" "\<And>p. pred_state Q (body p)"
  shows "pred_state Q (with_buffer E n x body)"
  unfolding pred_state_iff
proof
  fix s :: adm_state
  let ?p = "ae_alloc E (a_calls s)"
  have "?p \<noteq> 0" using assms(1) by (simp add: all_well_def)
  then have "run_state (with_buffer E n x body) s =
      run_state (do { rc \<leftarrow> body ?p; FreeMem ?p n; return rc }) (s\<lparr>a_calls := a_calls s + 1, a_mem := (?p, n) # a_mem s\<rparr>)"
    by (simp add: with_buffer_def alloc_run Let_def)
  then show "Q (fst (run_state (with_buffer E n x body) s))" using assms(2) by (simp only: fst_then pred_state_iff)
qed

lemma confirmed: "cl_confirm A \<Longrightarrow> nvmeadm_require_confirm A = return True"
  by (rule state_ext) (simp add: nvmeadm_require_confirm_def on_cond_def)

lemma download_ends:
  assumes "all_well E" "cl_confirm A" "cl_file A = Some path" "ae_file E (a_calls s) path = Some content" "content \<noteq> []" "length content mod 4 = 0"
  shows "fst (run_state (run_fw_download E A) s) = RETURN_OK"
proof -
  have t: "pred_state (\<lambda>rc. rc = RETURN_OK) (fw_transfer E se buffer content)" for se buffer
    unfolding pred_state_iff
  proof
    fix s
    obtain f s1 where l: "run_state (fw_loop E se buffer 0 content) s = (f, s1)" by (cases "run_state (fw_loop E se buffer 0 content) s")
    moreover have "f" using fw_loop_ends [OF assms(1), of se buffer 0 content] l by (metis pred_state_iff fst_conv)
    ultimately show "fst (run_state (fw_transfer E se buffer content) s) = RETURN_OK"
      by (simp add: fw_transfer_def print_line_def print_kv_u32_def print_def)
  qed
  have "pred_state (\<lambda>rc. rc = RETURN_OK) (fw_send E A path content buffer)" for buffer
  proof -
    have "pred_state (\<lambda>rc. rc = RETURN_OK) (with_session E (cl_unit A) RETURN_FAIL (\<lambda>se. fw_transfer E se buffer content))"
      by (rule session_well [OF assms(1) t])
    then show ?thesis unfolding fw_send_def confirmed [OF assms(2)] by (simp add: pred_state_iff split: prod.split)
  qed
  then have "pred_state (\<lambda>rc. rc = RETURN_OK) (with_buffer E 4096 RETURN_FAIL (fw_send E A path content))"
    by (rule buffer_well [OF assms(1)])
  moreover have "ae_seek E i" for i using assms(1) by (simp add: all_well_def)
  ultimately have "pred_state (\<lambda>rc. rc = RETURN_OK) (fw_from_file E A path content)"
    using assms(5,6) unfolding fw_from_file_def by (simp add: pred_state_iff Seek_def call_def)
  moreover have "run_state (run_fw_download E A) s =
      run_state (do { rc \<leftarrow> fw_from_file E A path content; CloseFile; return rc }) (s\<lparr>a_calls := a_calls s + 1, a_files := a_files s + 1\<rparr>)"
    using assms(3,4) by (simp add: run_fw_download_def nvmeadm_require_file_def on_cond_def with_file_def file_run)
  ultimately show ?thesis by (simp only: fst_then pred_state_iff)
qed

text \<open>
  C37.  A firmware download transfers the file and nothing else.  Whatever the system and the drive answer, the
  commands it adds carry a leading part of the file in order, without gap or overlap, in pieces of at most 4096
  bytes whose offset and length in doublewords are those of the data; the result OK means that the
  whole file was transferred, and commands are sent only with CONFIRM.  When nothing fails, a
  non-empty file of whole doublewords gives OK.
\<close>

theorem fw_download_transfers:
  assumes "\<And>i c. ae_file E i path = Some c \<Longrightarrow> c = content" "cl_file A = Some path" "length content < 2 ^ 31"
    and "run_state (run_fw_download E A) s = (rc, s')"
  shows "(\<exists>cs tail. a_sent s' = a_sent s @ cs \<and> fw_parts 0 cs \<and> content = data_of cs @ tail \<and> (rc = RETURN_OK \<longrightarrow> tail = []) \<and>
      (cs \<noteq> [] \<longrightarrow> cl_confirm A)) \<and>
    (all_well E \<and> cl_confirm A \<and> ae_file E (a_calls s) path = Some content \<and> content \<noteq> [] \<and> length content mod 4 = 0 \<longrightarrow> rc = RETURN_OK)"
proof -
  have "transferred content (rc = RETURN_OK) (a_sent s) (a_sent s')"
    using post_run [OF download_transferred [OF assms(1-3)] assms(4)] .
  then obtain cs tail where cs: "a_sent s' = a_sent s @ cs" "fw_parts 0 cs" "content = data_of cs @ tail" "rc = RETURN_OK \<longrightarrow> tail = []"
    by (auto simp: transferred_def)
  have "cl_confirm A" if ne: "cs \<noteq> []"
  proof -
    obtain u c d cs' where h: "cs = (u, c, d) # cs'" using ne by (cases cs) auto
    obtain cs2 where "a_sent (snd (run_state (run_fw_download E A) s)) = a_sent s @ cs2" "list_all (allowed A) cs2"
      using download_allowed [of A E] unfolding sends_def by blast
    then have "list_all (allowed A) cs" using assms(4) cs(1) by simp
    then show ?thesis using cs(2) by (simp add: h allowed_def destructive_def)
  qed
  moreover have "rc = RETURN_OK" if "all_well E" "cl_confirm A" "ae_file E (a_calls s) path = Some content" "content \<noteq> []" "length content mod 4 = 0"
    using download_ends [OF that(1,2) assms(2) that(3-5)] assms(4) by simp
  ultimately show ?thesis using cs by (intro conjI impI exI [of _ cs] exI [of _ tail]) auto
qed

definition well_env :: "u8 list \<Rightarrow> adm_env" where
  "well_env content = \<lparr>ae_alloc = (\<lambda>_. 0x1000), ae_open = (\<lambda>_ _. 0), ae_info = (\<lambda>_ u. Some (zero_info\<lparr>nui_UnitNumber := u, nui_Nsid := 1\<rparr>)),
     ae_pass = (\<lambda>_ _ _. \<lparr>pr_status = 0, pr_result = 0, pr_actual = 0, pr_data = (\<lambda>_. 0)\<rparr>), ae_sector = (\<lambda>_ _. 512),
     ae_break = (\<lambda>_. False), ae_file = (\<lambda>_ _. Some content), ae_seek = (\<lambda>_. True), ae_read = (\<lambda>_. Some 4096)\<rparr>"

definition start_state :: adm_state where
  "start_state = \<lparr>a_out = [], a_sent = [], a_mem = [], a_ports = 0, a_ioreqs = 0, a_opens = [], a_files = 0, a_calls = 0\<rparr>"

definition zero_args :: nvmeadm_cli_args where
  "zero_args = \<lparr>cl_unit = 0, cl_slot = 0, cl_lbaf = 0, cl_ses = 0, cl_owpass = 0, cl_file = None, cl_has_unit = False, cl_has_slot = False,
     cl_has_lbaf = False, cl_has_ses = False, cl_has_owpass = False, cl_ause = False, cl_oipbp = False, cl_nodas = False, cl_confirm = False\<rparr>"

theorem fw_download_transfers_witness:
  "\<exists>s'. run_state (run_fw_download (well_env [1, 2, 3, 4]) (zero_args\<lparr>cl_file := Some ''fw'', cl_confirm := True\<rparr>)) start_state = (RETURN_OK, s') \<and>
    data_of (a_sent s') = [1, 2, 3, 4]"
proof -
  let ?E = "well_env [1, 2, 3, 4]" and ?A = "zero_args\<lparr>cl_file := Some ''fw'', cl_confirm := True\<rparr>"
  obtain rc s' where r: "run_state (run_fw_download ?E ?A) start_state = (rc, s')" by (cases "run_state (run_fw_download ?E ?A) start_state")
  have "all_well ?E" by (simp add: all_well_def well_env_def)
  moreover have "ae_file ?E i ''fw'' = Some [1, 2, 3, 4]" for i by (simp add: well_env_def)
  ultimately show ?thesis using fw_download_transfers [of ?E "''fw''" "[1, 2, 3, 4]" ?A start_state rc s'] r
    by (auto simp: zero_args_def start_state_def)
qed

section \<open>Format and sanitize ask for what was confirmed\<close>

text \<open>
  A Format command is sent only for the namespace of the opened unit and with an LBA format that the
  namespace has, that this encoding can carry and that the driver exposes; \<open>ns\<close> is the Identify data it was checked against.
\<close>

definition format_ok :: "adm_env \<Rightarrow> nvmeadm_cli_args \<Rightarrow> u32 \<times> NVMePassthruCmd \<times> u8 list \<Rightarrow> bool" where
  "format_ok E A = (\<lambda>(u, c, d). pt_Opcode c = 0x80 \<longrightarrow> cl_confirm A \<and> cl_has_lbaf A \<and> u = cl_unit A \<and>
     (\<exists>i j buf info. ae_info E i u = Some info \<and> pt_Nsid c = nui_Nsid info \<and>
        (let ns = pr_data (ae_pass E j u (nvmeadm_build_identify (nui_Nsid info) 0 buf 4096)) in
          cl_lbaf A \<le> ucast (ns 25) \<and>
          candidate_plain_block_supported (lbaf_data_size_bytes (lbaf_ds ns (unat (cl_lbaf A)))) (lbaf_ms ns (unat (cl_lbaf A))))) \<and>
     bits 0 4 (pt_Cdw10 c) = cl_lbaf A \<and> bits 4 5 (pt_Cdw10 c) = 0 \<and>
     bits 9 3 (pt_Cdw10 c) = (if cl_has_ses A then cl_ses A else 0) \<and> bits 12 20 (pt_Cdw10 c) = 0)"

lemma sends_bind_pred:
  assumes "sends P m" "pred_state Q m" "\<And>x. Q x \<Longrightarrow> sends P (f x)"
  shows "sends P (State_Monad.bind m f)"
  unfolding sends_def
proof
  fix s
  obtain x s1 where m: "run_state m s = (x, s1)" by (cases "run_state m s")
  then have "Q x" using assms(2) by (metis pred_state_iff fst_conv)
  moreover obtain cs where "a_sent s1 = a_sent s @ cs" "list_all P cs" using assms(1) m by (metis sends_def snd_conv)
  moreover obtain cs' where "a_sent (snd (run_state (f x) s1)) = a_sent s1 @ cs'" "list_all P cs'" using assms(3) calculation(1) by (metis sends_def)
  ultimately show "\<exists>cs. a_sent (snd (run_state (State_Monad.bind m f) s)) = a_sent s @ cs \<and> list_all P cs"
    using m by (intro exI [of _ "cs @ cs'"]) simp
qed

lemma open_info: "pred_state (\<lambda>r. \<forall>se. r = Some se \<longrightarrow> se_unit se = u \<and> (\<exists>i. ae_info E i u = Some (se_info se))) (nvmeadm_open_unit E u)"
  by (auto simp: pred_state_iff nvmeadm_open_unit_def nvmeadm_open_unit_internal_def CreateMsgPort_def CreateIORequest_def OpenDevice_def
    nvmeadm_fetch_unit_info_def nvmeadm_close_def call_def on_cond_def print_line_def print_def Let_def split: option.split)

lemma sends_with_session_info:
  assumes "\<And>se i. se_unit se = u \<Longrightarrow> ae_info E i u = Some (se_info se) \<Longrightarrow> sends P (body se)"
  shows "sends P (with_session E u x body)"
  unfolding with_session_def
proof (rule sends_bind_pred [OF silent_system(3) open_info])
  fix r :: "nvmeadm_session option"
  assume "\<forall>se. r = Some se \<longrightarrow> se_unit se = u \<and> (\<exists>i. ae_info E i u = Some (se_info se))"
  then show "sends P (case r of None \<Rightarrow> return x | Some se \<Rightarrow> do { rc \<leftarrow> body se; nvmeadm_close se; return rc })"
    by (cases r) (auto intro!: sends_rules silent_system assms)
qed

lemma fetch_data: "pred_state (\<lambda>r. \<forall>d. r = Some d \<longrightarrow> (\<exists>j. d = pr_data (ae_pass E j (se_unit se) cmd))) (fetch E se op cmd)"
  by (auto simp: pred_state_iff fetch_def nvmeadm_admin_passthru_def call_def print_admin_failure_def print_def)

lemma format_checked_ok:
  assumes "se_unit se = cl_unit A" "ae_info E i (cl_unit A) = Some (se_info se)" "cl_has_lbaf A" "ses \<le> 2"
    and "ns = pr_data (ae_pass E j (cl_unit A) (nvmeadm_build_identify (nui_Nsid (se_info se)) 0 buf 4096))"
    and s: "(if cl_has_ses A then cl_ses A else 0) = ses"
  shows "sends (format_ok E A) (format_checked E A se (cl_lbaf A) ses ns)"
proof -
  have cmd: "format_ok E A (se_unit se, nvmeadm_build_format_nvm (nui_Nsid (se_info se)) (ucast (cl_lbaf A)) (ucast ses), d)"
    if "cl_confirm A" "\<not> ucast (ns 25) < cl_lbaf A" "\<not> 15 < cl_lbaf A"
      "candidate_plain_block_supported (lbaf_data_size_bytes (lbaf_ds ns (unat (cl_lbaf A)))) (lbaf_ms ns (unat (cl_lbaf A)))" for d
  proof -
    have l: "unat (cl_lbaf A) < 16" "unat ses < 8" using that(3) assms(4) by (auto simp: word_less_nat_alt word_le_nat_alt)
    then have u: "unat (ucast (cl_lbaf A) :: u8) < 16" "unat (ucast ses :: u8) < 8" by (simp_all add: unat_ucast_mod)
    have b: "ucast (ucast (cl_lbaf A) :: u8) = cl_lbaf A" "ucast (ucast ses :: u8) = ses"
      using l by (simp_all add: word_unat_eq_iff unat_ucast_mod)
    have c: "cl_lbaf A \<le> ucast (ns 25)" using that(2) by (simp add: not_less)
    show ?thesis unfolding format_ok_def split s
      using format_fields [OF u, of "nui_Nsid (se_info se)"] b c that assms(1-3,5)
      by (intro impI conjI exI [of _ i] exI [of _ j] exI [of _ buf] exI [of _ "se_info se"])
        (auto simp: Let_def nvmeadm_build_format_nvm_def)
  qed
  show ?thesis unfolding format_checked_def Let_def
    by (intro sends_confirm sends_rules summary_rules sends_submit cmd) auto
qed

text \<open>A Sanitize command carries the action and the options given, and only options that go with the action.\<close>

definition sanitize_ok :: "nvmeadm_cli_args \<Rightarrow> u8 \<Rightarrow> u32 \<times> NVMePassthruCmd \<times> u8 list \<Rightarrow> bool" where
  "sanitize_ok A sanact = (\<lambda>(u, c, d). pt_Opcode c = 0x84 \<and> cl_confirm A \<and> u = cl_unit A \<and> bits 0 3 (pt_Cdw10 c) = ucast sanact \<and>
     bits 3 1 (pt_Cdw10 c) = of_bool (cl_ause A) \<and> bits 4 4 (pt_Cdw10 c) = cl_owpass A \<and> bits 8 1 (pt_Cdw10 c) = of_bool (cl_oipbp A) \<and>
     bits 9 1 (pt_Cdw10 c) = of_bool (cl_nodas A) \<and> bits 10 22 (pt_Cdw10 c) = 0 \<and>
     (sanact = 1 \<longrightarrow> \<not> cl_ause A \<and> \<not> cl_nodas A) \<and> (sanact \<noteq> 3 \<longrightarrow> cl_owpass A = 0 \<and> \<not> cl_oipbp A))"

lemma sanitize_exact:
  assumes "unat sanact < 8" "\<not> cl_has_owpass A \<longrightarrow> cl_owpass A = 0"
  shows "sends (sanitize_ok A sanact) (run_sanitize_control E A sanact n)"
proof -
  have cmd: "sanitize_ok A sanact (u, nvmeadm_build_sanitize_nvm sanact (cl_ause A) (ucast (cl_owpass A)) (cl_oipbp A) (cl_nodas A), d)"
    if "cl_confirm A" "\<not> ((cl_ause A \<or> cl_nodas A) \<and> sanact = 1)" "\<not> (sanact \<noteq> 3 \<and> (cl_has_owpass A \<or> cl_oipbp A))"
      "\<not> (sanact = 3 \<and> cl_has_owpass A \<and> 15 < cl_owpass A)" "u = cl_unit A" for u d
  proof -
    have "cl_owpass A \<le> 15" using that(3,4) assms(2) by (cases "cl_has_owpass A") (auto simp: not_less)
    then have o: "unat (cl_owpass A) < 16" by (simp add: word_le_nat_alt)
    then have "unat (ucast (cl_owpass A) :: u8) < 16" by (simp add: unat_ucast_mod)
    note f = sanitize_fields [OF assms(1) this, of "cl_ause A" "cl_oipbp A" "cl_nodas A"]
    have "ucast (ucast (cl_owpass A) :: u8) = cl_owpass A" using o by (simp add: word_unat_eq_iff unat_ucast_mod)
    then show ?thesis unfolding sanitize_ok_def split using f that assms(2) by (auto simp: nvmeadm_build_sanitize_nvm_def)
  qed
  show ?thesis unfolding run_sanitize_control_def
    by (intro sends_confirm sends_rules sends_with_session summary_rules sends_submit cmd) auto
qed

lemma activate_exact:
  assumes "action \<in> {0, 8, 16}"
  shows "sends (\<lambda>(u, c, d). pt_Opcode c = 0x10 \<and> cl_confirm A \<and> u = cl_unit A \<and> cl_has_unit A \<and> 1 \<le> cl_slot A \<and> cl_slot A \<le> 7 \<and>
      bits 0 3 (pt_Cdw10 c) = cl_slot A \<and> bits 3 3 (pt_Cdw10 c) = ucast (drop_bit 3 action) \<and> bits 6 26 (pt_Cdw10 c) = 0)
    (run_fw_activate_control E A action n)" (is "sends ?P _")
proof -
  have cmd: "?P (u, nvmeadm_build_activate_fw (ucast (cl_slot A)) action, d)"
    if "cl_confirm A" "\<not> \<not> cl_has_unit A" "\<not> (cl_slot A = 0 \<or> 7 < cl_slot A)" "u = cl_unit A" for u d
  proof -
    have l: "unat (cl_slot A) < 8" using that(3) by (auto simp: word_less_nat_alt not_less)
    then have "unat (ucast (cl_slot A) :: u8) < 8" by (simp add: unat_ucast_mod)
    note f = activate_fields [OF this assms]
    have "ucast (ucast (cl_slot A) :: u8) = cl_slot A" using l by (simp add: word_unat_eq_iff unat_ucast_mod)
    moreover have "1 \<le> cl_slot A" using that(3) by (simp add: word_le_nat_alt word_unat_eq_iff)
    ultimately show ?thesis using f that by (simp add: nvmeadm_build_activate_fw_def not_less)
  qed
  show ?thesis unfolding run_fw_activate_control_def
    by (intro sends_confirm sends_rules sends_with_session summary_rules sends_submit cmd) auto
qed

text \<open>What is true of the last command added when the result is OK.\<close>

definition ends_with :: "u8 \<Rightarrow> retcode adm \<Rightarrow> bool" where
  "ends_with op = post (\<lambda>rc l l'. rc = RETURN_OK \<longrightarrow> length l < length l' \<and> pt_Opcode (fst (snd (last l'))) = op)"

lemma ends_bind:
  assumes "sends (\<lambda>_. True) m" "\<And>x. ends_with op (f x)"
  shows "ends_with op (State_Monad.bind m f)"
  unfolding ends_with_def post_def
proof (intro allI impI)
  fix s
  assume ok: "fst (run_state (State_Monad.bind m f) s) = RETURN_OK"
  obtain x s1 where m: "run_state m s = (x, s1)" by (cases "run_state m s")
  have "length (a_sent s) \<le> length (a_sent s1)" using assms(1) m unfolding sends_def by (metis length_append le_add1 snd_conv)
  moreover obtain y s2 where f: "run_state (f x) s1 = (y, s2)" by (cases "run_state (f x) s1")
  moreover have "y = RETURN_OK" using ok m f by simp
  ultimately show "length (a_sent s) < length (a_sent (snd (run_state (State_Monad.bind m f) s))) \<and>
      pt_Opcode (fst (snd (last (a_sent (snd (run_state (State_Monad.bind m f) s)))))) = op"
    using post_run [OF assms(2) [unfolded ends_with_def] f] m by simp
qed

lemma ends_failed: "rc \<noteq> RETURN_OK \<Longrightarrow> ends_with op (return rc)"
  by (simp add: ends_with_def post_def)

lemma ends_if: "ends_with op m \<Longrightarrow> ends_with op n \<Longrightarrow> ends_with op (if b then m else n)"
  by simp

lemma ends_option: "ends_with op m \<Longrightarrow> (\<And>x. ends_with op (f x)) \<Longrightarrow> ends_with op (case r of None \<Rightarrow> m | Some x \<Rightarrow> f x)"
  by (simp split: option.split)

lemma ends_then: "ends_with op m \<Longrightarrow> (\<And>x. sends (\<lambda>_. False) (f x)) \<Longrightarrow> ends_with op (do { x \<leftarrow> m; f x; return x })"
  unfolding ends_with_def by (rule post_then)

lemma ends_with_session: "(\<And>se. ends_with op (body se)) \<Longrightarrow> ends_with op (with_session E u RETURN_FAIL body)"
  unfolding with_session_def by (intro ends_bind ends_option ends_failed ends_then silent_system) simp_all

lemma ends_with_buffer: "(\<And>p. ends_with op (body p)) \<Longrightarrow> ends_with op (with_buffer E n RETURN_FAIL body)"
  unfolding with_buffer_def by (intro ends_bind ends_if ends_failed ends_then silent_system) simp_all

lemma ends_submit:
  assumes "pt_Opcode c = op"
  shows "ends_with op (do { r \<leftarrow> nvmeadm_submit E se c buf n;
     case r of None \<Rightarrow> return RETURN_FAIL | Some res \<Rightarrow> do { print_line a; print_kv_hex32 b res; print_line d; return RETURN_OK } })"
  using assms by (auto simp: ends_with_def post_def nvmeadm_submit_def nvmeadm_admin_passthru_def call_def print_admin_failure_def
    print_line_def print_kv_hex32_def print_def)

lemma format_ends: "ends_with 0x80 (run_format_nvm E A)"
proof -
  have confirm: "sends Q (nvmeadm_require_confirm A)" "sends Q (nvmeadm_require_lbaf A)" for Q
    by (auto simp: sends_def nvmeadm_require_confirm_def nvmeadm_require_lbaf_def on_cond_def print_line_def print_def)
  have id': "sends (\<lambda>_. True) (nvmeadm_fetch_identify E se op nsid cns b n)" for se op nsid cns b n
    unfolding nvmeadm_fetch_identify_def by (rule sends_submit(3)) simp
  have "ends_with 0x80 (format_checked E A se lbaf ses ns)" for se lbaf ses ns
    unfolding format_checked_def Let_def
    by (intro ends_if ends_failed ends_submit ends_bind [where m = "print _"] ends_bind [where m = "print_line _"] ends_bind [where m = "on_cond _ _"]
      ends_bind [where m = "print_format_summary _ _ _ _ _ _ _ _ _"] ends_bind [where m = "nvmeadm_require_confirm _"] confirm summary_rules sends_rules)
      (simp_all add: nvmeadm_build_format_nvm_def)
  then show ?thesis unfolding run_format_nvm_def Let_def
    by (intro ends_bind ends_option ends_if ends_with_session ends_with_buffer confirm id' sends_rules) (auto intro: ends_failed)
qed

text \<open>
  C38.  Format does what was asked and confirmed.  Whatever the system and the drive answer, every Format command the
  format command adds goes, with CONFIRM given, to the namespace of the selected unit, encodes exactly
  the LBA format and secure erase setting of the command line with no other bit set, and names a format
  that the namespace reported, without metadata and with sectors the driver exposes.  The result OK means that
  a Format command was among the added ones, the last of them.
\<close>

theorem format_exact:
  assumes "run_state (run_format_nvm E A) s = (rc, s')"
  shows "\<exists>cs. a_sent s' = a_sent s @ cs \<and> list_all (format_ok E A) cs \<and>
    (rc = RETURN_OK \<longrightarrow> cs \<noteq> [] \<and> pt_Opcode (fst (snd (last cs))) = 0x80)"
proof -
  have id: "format_ok E A (u, nvmeadm_build_identify nsid cns b n, d)" for u nsid cns b n d
    by (simp add: format_ok_def nvmeadm_build_identify_def)
  define ses where "ses = (if cl_has_ses A then cl_ses A else 0)"
  have body: "sends (format_ok E A) (do {
      r \<leftarrow> nvmeadm_fetch_identify E se ''Identify Namespace'' (nui_Nsid (se_info se)) 0 buf 4096;
      case r of None \<Rightarrow> return RETURN_FAIL | Some ns \<Rightarrow> format_checked E A se (cl_lbaf A) ses ns })"
    if "se_unit se = cl_unit A" "ae_info E i (cl_unit A) = Some (se_info se)" "cl_has_lbaf A" "ses \<le> 2" for se i buf
    unfolding nvmeadm_fetch_identify_def
  proof (rule sends_bind_pred [OF sends_submit(3) fetch_data], goal_cases)
    case (2 r)
    then show ?case using that format_checked_ok [OF that _ ses_def [symmetric]]
      by (cases r) (auto intro!: sends_rules(1))
  qed (rule id)
  have "sends (format_ok E A) (run_format_nvm E A)"
  proof (cases "cl_has_lbaf A")
    case True
    then have l: "nvmeadm_require_lbaf A = return (Some (cl_lbaf A))"
      by (intro state_ext) (simp add: nvmeadm_require_lbaf_def on_cond_def)
    have r: "run_format_nvm E A = (if cl_has_ses A \<and> 2 < ses
        then do { print_line ''format only supports SES values 0, 1, or 2\<newline>''; return RETURN_ERROR }
        else with_buffer E 4096 RETURN_FAIL (\<lambda>buf. with_session E (cl_unit A) RETURN_FAIL (\<lambda>se. do {
          r \<leftarrow> nvmeadm_fetch_identify E se ''Identify Namespace'' (nui_Nsid (se_info se)) 0 buf 4096;
          case r of None \<Rightarrow> return RETURN_FAIL | Some ns \<Rightarrow> format_checked E A se (cl_lbaf A) ses ns })))"
      unfolding run_format_nvm_def l ses_def Let_def by simp
    have "ses \<le> 2" if "\<not> (cl_has_ses A \<and> 2 < ses)" using that by (auto simp: ses_def not_less)
    then show ?thesis unfolding r
      by (intro sends_rules(3) sends_with_buffer sends_with_session_info body True) (auto intro: sends_rules)
  next
    case False
    then show ?thesis by (auto simp: sends_def run_format_nvm_def nvmeadm_require_lbaf_def on_cond_def print_line_def print_def)
  qed
  then obtain cs where cs: "a_sent s' = a_sent s @ cs" "list_all (format_ok E A) cs" using assms unfolding sends_def by (metis snd_conv)
  then show ?thesis using post_run [OF format_ends [unfolded ends_with_def] assms] by (intro exI [of _ cs]) auto
qed

definition format_env :: adm_env where
  "format_env = (well_env [])\<lparr>ae_pass := (\<lambda>_ _ _. \<lparr>pr_status = 0, pr_result = 0, pr_actual = 0, pr_data = (\<lambda>i. if i = 130 then 9 else 0)\<rparr>)\<rparr>"

theorem format_exact_witness:
  "\<exists>c cs. a_sent (snd (run_state (run_format_nvm format_env (zero_args\<lparr>cl_has_lbaf := True, cl_confirm := True\<rparr>)) start_state)) = cs @ [c] \<and>
     pt_Opcode (fst (snd c)) = 0x80"
proof -
  let ?A = "zero_args\<lparr>cl_has_lbaf := True, cl_confirm := True\<rparr>"
  obtain rc s' where r: "run_state (run_format_nvm format_env ?A) start_state = (rc, s')" by (cases "run_state (run_format_nvm format_env ?A) start_state")
  have "read_le16 (get_bytes (\<lambda>i. if i = 130 then 9 else 0) 128 2) = 0" by (simp add: read_le16_def get_bytes_def upt_rec)
  then have "fst (run_state (run_format_nvm format_env ?A) start_state) = RETURN_OK"
    by (simp add: run_format_nvm_def format_checked_def nvmeadm_require_lbaf_def nvmeadm_require_confirm_def on_cond_def with_buffer_def with_session_def
      alloc_run free_run Let_def nvmeadm_open_unit_def nvmeadm_open_unit_internal_def CreateMsgPort_def CreateIORequest_def OpenDevice_def
      nvmeadm_fetch_unit_info_def nvmeadm_close_def call_def nvmeadm_fetch_identify_def fetch_def nvmeadm_admin_passthru_def nvmeadm_submit_def
      format_env_def well_env_def zero_args_def start_state_def zero_info_def nvme_lbaf_index_def lbaf_ms_def lbaf_ds_def lbaf_data_size_bytes_def
      candidate_plain_block_supported_def print_format_summary_def print_line_def print_kv_u32_def print_kv_str_def print_kv_hex32_def print_def)
  then have "rc = RETURN_OK" using r by simp
  then obtain cs where "a_sent s' = a_sent start_state @ cs" "cs \<noteq> []" "pt_Opcode (fst (snd (last cs))) = 0x80" using format_exact [OF r] by blast
  then show ?thesis using r by (metis append.assoc append_butlast_last_id snd_conv)
qed

end
