(* ===== verification/Adm_Logs.thy ===== *)
theory Adm_Logs
  imports Adm_Maint
begin

text \<open>
  The nvmeadm commands that only read: the log pages of src/tools/nvmeadm_logs.c, nvmeadm_smart.c, the firmware slot
  log of nvmeadm_firmware.c, the sanitize log of nvmeadm_maint.c and the self-test log of nvmeadm_selftest.c.  Offsets into a
  buffer are those of the structures of include/nvme/nvme_defs.h.
\<close>

definition rd16 :: "id_buf \<Rightarrow> nat \<Rightarrow> u16" where "rd16 d i = read_le16 (get_bytes d i 2)"

definition rd32 :: "id_buf \<Rightarrow> nat \<Rightarrow> u32" where "rd32 d i = read_le32 (get_bytes d i 4)"

definition rd64 :: "id_buf \<Rightarrow> nat \<Rightarrow> u64" where "rd64 d i = read_le64 (get_bytes d i 8)"

definition hi32 :: "u64 \<Rightarrow> u32" where "hi32 w = ucast (drop_bit 32 w)"

definition lo32 :: "u64 \<Rightarrow> u32" where "lo32 w = ucast w"

section \<open>Error log\<close>

definition nvme_status_type_name :: "u16 \<Rightarrow> string" where
  "nvme_status_type_name sct = (if sct = 0 then ''Generic'' else if sct = 0x0100 then ''Command Specific''
     else if sct = 0x0200 then ''Media/Data Integrity'' else if sct = 0x0300 then ''Path''
     else if sct = 0x0700 then ''Vendor Specific'' else ''Reserved'')"

definition print_error_entry :: "nat \<Rightarrow> id_buf \<Rightarrow> nat \<Rightarrow> unit adm" where
  "print_error_entry index d b = do {
     let cmdid = rd16 d (b + 10);
     let status_field = rd16 d (b + 12);
     let sc = status_field AND 0x00ff;
     let sct = status_field AND 0x0700;
     let nsid = rd32 d (b + 24);
     let cs = rd64 d (b + 32);
     print [Printf ''Entry %lu\<newline>'' [ANum (of_nat index + 1)]];
     print_kv_str ''  Error Count:'' (case format_u64_decimal (rd64 d b) 24 of None \<Rightarrow> '''' | Some t \<Rightarrow> t);
     (if cmdid = 0xFFFF then print_kv_str ''  Command:'' ''not associated with a specific command''
      else do {
        print_kv_u32 ''  SQID:'' (ucast (rd16 d (b + 8)));
        print_kv_hex16 ''  Command ID:'' (ucast cmdid);
        let pel = rd16 d (b + 14);
        if pel = 0xFFFF then print_kv_str ''  Param Error Location:'' ''not reported''
        else do {
          print_kv_hex16 ''  Param Error Location:'' (ucast pel);
          print_kv_u32 ''    Byte:'' (ucast (pel AND 0x00ff));
          print_kv_u32 ''    Bit:'' (ucast (drop_bit 8 pel AND 0x7)) } });
     print_kv_hex16 ''  Status Field:'' (ucast status_field);
     print_kv_u32 ''    Phase Tag:'' (ucast (status_field AND 0x1));
     print_kv_hex8 ''    SC:'' (ucast sc);
     print [Printf ''    SCT:                0x%02lx (%s)\<newline>'' [ANum (ucast (drop_bit 8 sct)), AStr (nvme_status_type_name sct)]];
     print_yes_no ''    More:'' (status_field AND 0x2000 \<noteq> 0);
     print_yes_no ''    Do Not Retry:'' (status_field AND 0x4000 \<noteq> 0);
     (if nsid = 0 then print_kv_str ''  NSID:'' ''n/a''
      else if nsid = NVME_NSID_ALL then print_kv_str ''  NSID:'' ''all namespaces''
      else do {
        print_kv_u32 ''  NSID:'' nsid;
        print [Printf ''  LBA:                  0x%08lx%08lx\<newline>'' [ANum (hi32 (rd64 d (b + 16))), ANum (lo32 (rd64 d (b + 16)))]] });
     on_cond (d (b + 28) \<noteq> 0) (print_kv_hex8 ''  Vendor Specific:'' (ucast (d (b + 28))));
     on_cond (cs \<noteq> 0) (print [Printf ''  Command Specific:     0x%08lx%08lx\<newline>'' [ANum (hi32 cs), ANum (lo32 cs)]]) }"

fun error_loop :: "id_buf \<Rightarrow> nat list \<Rightarrow> bool \<Rightarrow> u32 \<Rightarrow> (bool \<times> u32) adm" where
  "error_loop d [] printed_any stale_count = return (printed_any, stale_count)"
| "error_loop d (i # is) printed_any stale_count =
    (if rd64 d (64 * i) = 0 then error_loop d is printed_any stale_count
     else if bytes_all_zero (get_bytes d (64 * i + 8) 56) then error_loop d is printed_any (stale_count + 1)
     else do { print_error_entry i d (64 * i); error_loop d is True stale_count })"

definition run_error_log :: "adm_env \<Rightarrow> nvmeadm_cli_args \<Rightarrow> retcode adm" where
  "run_error_log E A = with_buffer E 4096 RETURN_FAIL (\<lambda>cbuf. with_session E (cl_unit A) RETURN_FAIL (\<lambda>se. do {
     c \<leftarrow> nvmeadm_fetch_identify E se ''Identify Controller'' 0 1 cbuf 4096;
     case c of
       None \<Rightarrow> return RETURN_FAIL
     | Some ctrl \<Rightarrow> do {
         let entry_count = min (unat (ctrl 262) + 1) 16;
         let log_size = entry_count * 64;
         with_buffer E log_size RETURN_FAIL (\<lambda>lbuf. do {
           l \<leftarrow> nvmeadm_fetch_get_log E se ''Error log'' NVME_NSID_ALL 0x01 0 0 lbuf log_size;
           case l of
             None \<Rightarrow> return RETURN_FAIL
           | Some log \<Rightarrow> do {
               print_line ''Error Information Log\<newline>'';
               r \<leftarrow> error_loop log [0..<entry_count] False 0;
               on_cond (snd r \<noteq> 0) (print [Printf ''%lu stale/empty entries skipped.\<newline>'' [ANum (snd r)]]);
               on_cond (\<not> fst r \<and> snd r = 0) (print_line ''No populated error log entries.\<newline>'');
               return RETURN_OK } }) } }))"

section \<open>Effects log and changed namespaces\<close>

definition print_effect_flags :: "u32 \<Rightarrow> unit adm" where
  "print_effect_flags effects = do {
     let cse = drop_bit 16 (effects AND 0x70000);
     print_kv_hex32 ''    Raw:'' effects;
     print_yes_no ''    Supported:'' (effects AND 0x01 \<noteq> 0);
     print_yes_no ''    LBCC:'' (effects AND 0x02 \<noteq> 0);
     print_yes_no ''    NCC:'' (effects AND 0x04 \<noteq> 0);
     print_yes_no ''    NIC:'' (effects AND 0x08 \<noteq> 0);
     print_yes_no ''    CCC:'' (effects AND 0x10 \<noteq> 0);
     print_kv_u32 ''    CSE Field:'' cse }"

definition print_effect_entry :: "string \<Rightarrow> u32 \<Rightarrow> unit adm" where
  "print_effect_entry label effects = do { print [Printf ''%s\<newline>'' [AStr label]]; print_effect_flags effects }"

definition show_effects :: "id_buf \<Rightarrow> unit adm" where
  "show_effects log = do {
     print_line ''Command Effects Log\<newline>'';
     print_line ''Admin Commands\<newline>'';
     print_effect_entry ''  Get Log Page'' (rd32 log (4 * 0x02));
     print_effect_entry ''  Identify'' (rd32 log (4 * 0x06));
     print_effect_entry ''  Activate Firmware'' (rd32 log (4 * 0x10));
     print_effect_entry ''  Format NVM'' (rd32 log (4 * 0x80));
     print_effect_entry ''  Sanitize NVM'' (rd32 log (4 * 0x84));
     print_line ''I/O Commands\<newline>'';
     print_effect_entry ''  Write'' (rd32 log (1024 + 4 * 0x01));
     print_effect_entry ''  Write Uncorrectable'' (rd32 log (1024 + 4 * 0x04));
     print_effect_entry ''  Write Zeroes'' (rd32 log (1024 + 4 * 0x08)) }"

definition run_effects_log :: "adm_env \<Rightarrow> nvmeadm_cli_args \<Rightarrow> retcode adm" where
  "run_effects_log E A = with_data (nvmeadm_read_log E A ''Command Effects log'' 0 0x05 0 0 4096) 4096 show_effects"

fun changed_loop :: "id_buf \<Rightarrow> nat list \<Rightarrow> bool \<Rightarrow> bool adm" where
  "changed_loop log [] printed_any = return printed_any"
| "changed_loop log (i # is) printed_any =
    (let nsid = rd32 log (4 * i) in
     if nsid = 0 then changed_loop log is printed_any
     else do {
       (if nsid = NVME_NSID_ALL then print [Printf ''Entry %lu:               all namespaces changed\<newline>'' [ANum (of_nat i + 1)]]
        else print [Printf ''Entry %lu:               nsid=%lu\<newline>'' [ANum (of_nat i + 1), ANum nsid]]);
       changed_loop log is True })"

definition run_changed_ns :: "adm_env \<Rightarrow> nvmeadm_cli_args \<Rightarrow> retcode adm" where
  "run_changed_ns E A = with_buffer E 4096 RETURN_FAIL (\<lambda>cbuf. with_buffer E 4096 RETURN_FAIL (\<lambda>lbuf.
     with_session E (cl_unit A) RETURN_FAIL (\<lambda>se. do {
       c \<leftarrow> nvmeadm_fetch_identify E se ''Identify Controller'' 0 1 cbuf 4096;
       case c of
         None \<Rightarrow> return RETURN_FAIL
       | Some ctrl \<Rightarrow> do {
           print_line ''Changed Namespace List\<newline>'';
           if rd32 ctrl 92 AND 0x100 = 0
           then do { print_line ''Not supported by this controller (no Namespace Attribute Notices)\<newline>''; return RETURN_OK }
           else do {
             l \<leftarrow> nvmeadm_fetch_get_log E se ''Changed Namespace log'' NVME_NSID_ALL 0x04 0 0 lbuf 4096;
             case l of
               None \<Rightarrow> return RETURN_FAIL
             | Some log \<Rightarrow> do {
                 any \<leftarrow> changed_loop log [0..<1024] False;
                 on_cond (\<not> any) (print_line ''No changed namespaces reported.\<newline>'');
                 return RETURN_OK } } } })))"

section \<open>SMART log\<close>

definition print_critical_warning :: "u8 \<Rightarrow> unit adm" where
  "print_critical_warning warning = do {
     print_kv_hex8 ''Critical Warning:'' (ucast warning);
     if warning = 0 then print_line ''  none\<newline>''
     else do {
       on_cond (warning AND 0x01 \<noteq> 0) (print_line ''  available spare below threshold\<newline>'');
       on_cond (warning AND 0x02 \<noteq> 0) (print_line ''  temperature threshold exceeded\<newline>'');
       on_cond (warning AND 0x04 \<noteq> 0) (print_line ''  device reliability degraded\<newline>'');
       on_cond (warning AND 0x08 \<noteq> 0) (print_line ''  media is read-only\<newline>'');
       on_cond (warning AND 0x10 \<noteq> 0) (print_line ''  volatile memory backup failed\<newline>'');
       on_cond (warning AND 0x20 \<noteq> 0) (print_line ''  persistent memory region degraded\<newline>'') } }"

definition print_endurance_group_warning :: "u8 \<Rightarrow> unit adm" where
  "print_endurance_group_warning warning = do {
     print_kv_hex8 ''Endurance Warnings:'' (ucast warning);
     if warning = 0 then print_line ''  none\<newline>''
     else do {
       on_cond (warning AND 0x01 \<noteq> 0) (print_line ''  endurance-group spare below threshold\<newline>'');
       on_cond (warning AND 0x04 \<noteq> 0) (print_line ''  endurance-group reliability degraded\<newline>'');
       on_cond (warning AND 0x08 \<noteq> 0) (print_line ''  endurance-group media is read-only\<newline>'') } }"

definition print_temperature_celsius :: "u16 \<Rightarrow> unit adm" where
  "print_temperature_celsius temp_k =
    (let temp_c = ucast temp_k - 273 :: u32 in
     if sint temp_c < 0 then print [Printf ''%lu K (-%lu C)\<newline>'' [ANum (ucast temp_k), ANum (0 - temp_c)]]
     else print [Printf ''%lu K (%lu C)\<newline>'' [ANum (ucast temp_k), ANum temp_c]])"

fun sensor_loop :: "id_buf \<Rightarrow> nat list \<Rightarrow> bool \<Rightarrow> unit adm" where
  "sensor_loop log [] printed_any = return ()"
| "sensor_loop log (i # is) printed_any =
    (let temp_k = rd16 log (200 + 2 * i) in
     if temp_k = 0 then sensor_loop log is printed_any
     else do {
       on_cond (\<not> printed_any) (print_line ''Temperature Sensors:\<newline>'');
       print [Printf ''  Sensor %lu:            '' [ANum (of_nat i + 1)]];
       print_temperature_celsius temp_k;
       sensor_loop log is True })"

definition print_smart_u32_value :: "string \<Rightarrow> u32 \<Rightarrow> string option \<Rightarrow> string option \<Rightarrow> unit adm" where
  "print_smart_u32_value label v units zero_text =
    (case (if v = 0 then zero_text else None) of
       Some t \<Rightarrow> print [Printf ''%-24s %s\<newline>'' [AStr label, AStr t]]
     | None \<Rightarrow> (case units of
         Some u \<Rightarrow> print [Printf ''%-24s %lu %s\<newline>'' [AStr label, ANum v, AStr u]]
       | None \<Rightarrow> print [Printf ''%-24s %lu\<newline>'' [AStr label, ANum v]]))"

definition print_percentage_used :: "u8 \<Rightarrow> unit adm" where
  "print_percentage_used v = (if v = 255 then print_line ''Percentage Used:        >=255 %%\<newline>''
     else print [Printf ''Percentage Used:        %lu %%\<newline>'' [ANum (ucast v)]])"

definition print_smart_counter :: "string \<Rightarrow> u8 list \<Rightarrow> string option \<Rightarrow> unit adm" where
  "print_smart_counter label counter units =
    (let decimal = (case format_le128_decimal counter 40 of None \<Rightarrow> '''' | Some t \<Rightarrow> t) in
     case units of
       Some u \<Rightarrow> print [Printf ''%-24s %s %s\<newline>'' [AStr label, AStr decimal, AStr u]]
     | None \<Rightarrow> print [Printf ''%-24s %s\<newline>'' [AStr label, AStr decimal]])"

definition show_smart :: "id_buf \<Rightarrow> unit adm" where
  "show_smart log = do {
     print_line ''SMART / Health Information\<newline>'';
     print_critical_warning (log 0);
     (let temp_k = rd16 log 1 in
      if temp_k = 0 then print_line ''Temperature:            not reported\<newline>''
      else do { print_line ''Temperature:            ''; print_temperature_celsius temp_k });
     print [Printf ''Available Spare:        %lu %%\<newline>'' [ANum (ucast (log 3))]];
     print [Printf ''Spare Threshold:        %lu %%\<newline>'' [ANum (ucast (log 4))]];
     print_percentage_used (log 5);
     print_endurance_group_warning (log 6);
     print_smart_u32_value ''Warning Temp Time:'' (rd32 log 192) (Some ''minutes'') (Some ''0 (none or unsupported)'');
     print_smart_u32_value ''Critical Comp Time:'' (rd32 log 196) (Some ''minutes'') (Some ''0 (none or unsupported)'');
     print (print_smart_data_amount ''Data Units Read:'' (get_bytes log 32 16));
     print (print_smart_data_amount ''Data Units Written:'' (get_bytes log 48 16));
     print_smart_counter ''Host Read Commands:'' (get_bytes log 64 16) None;
     print_smart_counter ''Host Write Commands:'' (get_bytes log 80 16) None;
     print_smart_counter ''Controller Busy Time:'' (get_bytes log 96 16) (Some ''minutes'');
     print_smart_counter ''Power Cycles:'' (get_bytes log 112 16) None;
     print_smart_counter ''Power On Hours:'' (get_bytes log 128 16) (Some ''hours'');
     print_smart_counter ''Unsafe Shutdowns:'' (get_bytes log 144 16) None;
     print_smart_counter ''Media/Data Errors:'' (get_bytes log 160 16) None;
     print_smart_counter ''Error Log Entries:'' (get_bytes log 176 16) None;
     print_smart_u32_value ''Thermal Temp1 Count:'' (rd32 log 216) None (Some ''0 (never or unsupported)'');
     print_smart_u32_value ''Thermal Temp2 Count:'' (rd32 log 220) None (Some ''0 (never or unsupported)'');
     print_smart_u32_value ''Thermal Temp1 Time:'' (rd32 log 224) (Some ''seconds'') (Some ''0 (never or unsupported)'');
     print_smart_u32_value ''Thermal Temp2 Time:'' (rd32 log 228) (Some ''seconds'') (Some ''0 (never or unsupported)'');
     sensor_loop log [0..<8] False }"

definition run_smart :: "adm_env \<Rightarrow> nvmeadm_cli_args \<Rightarrow> retcode adm" where
  "run_smart E A = with_data (nvmeadm_read_log E A ''SMART log'' NVME_NSID_ALL 0x02 0 0 512) 512 show_smart"

section \<open>Firmware slots\<close>

definition print_fw_slot_label :: "nat \<Rightarrow> u32 \<Rightarrow> u8 \<Rightarrow> u8 \<Rightarrow> parg" where
  "print_fw_slot_label label_len sl active_slot next_slot =
    (if ucast sl = active_slot \<and> next_slot \<noteq> 0 \<and> next_slot \<noteq> active_slot
     then ABuf label_len ''Slot %lu [active, reset pending]:'' [ANum sl]
     else if ucast sl = active_slot then ABuf label_len ''Slot %lu [active]:'' [ANum sl]
     else if ucast sl = next_slot then ABuf label_len ''Slot %lu [next reset]:'' [ANum sl]
     else ABuf label_len ''Slot %lu:'' [ANum sl])"

fun fw_slot_loop :: "id_buf \<Rightarrow> u8 \<Rightarrow> u8 \<Rightarrow> nat list \<Rightarrow> unit adm" where
  "fw_slot_loop log active_slot next_slot [] = return ()"
| "fw_slot_loop log active_slot next_slot (i # is) =
    (let frs = get_bytes log (8 + 8 * i) 8 in
     if bytes_all_zero frs then fw_slot_loop log active_slot next_slot is
     else do {
       print_fw_revision (print_fw_slot_label 24 (of_nat i + 1) active_slot next_slot) frs;
       fw_slot_loop log active_slot next_slot is })"

definition show_fw_log :: "id_buf \<Rightarrow> unit adm" where
  "show_fw_log log = do {
     let active_slot = log 0 AND 0x7;
     let next_slot = drop_bit 4 (log 0 AND 0x70);
     print_line ''Firmware Slot Information\<newline>'';
     print_kv_u32 ''Active Slot:'' (ucast active_slot);
     (if next_slot \<noteq> 0 then print_kv_u32 ''Next Active Slot:'' (ucast next_slot) else print_kv_str ''Next Active Slot:'' ''none'');
     (if next_slot \<noteq> 0 \<and> next_slot \<noteq> active_slot
      then print_kv_str ''Activation State:'' ''activation deferred until controller reset''
      else print_kv_str ''Activation State:'' ''settled'');
     fw_slot_loop log active_slot next_slot [0..<7] }"

definition run_fw_log :: "adm_env \<Rightarrow> nvmeadm_cli_args \<Rightarrow> retcode adm" where
  "run_fw_log E A = with_data (nvmeadm_read_log E A ''Firmware Slot log'' NVME_NSID_ALL 0x03 0 0 512) 512 show_fw_log"

section \<open>Self-test log\<close>

definition self_test_op_name :: "u8 \<Rightarrow> string" where
  "self_test_op_name op = (if op = 0 then ''no self-test in progress'' else if op = 1 then ''short self-test in progress''
     else if op = 2 then ''extended self-test in progress'' else if op = 0x0e then ''vendor specific self-test in progress''
     else if op = 0x0f then ''reserved'' else ''unknown'')"

definition self_test_code_name :: "u8 \<Rightarrow> string" where
  "self_test_code_name code = (if code = 0 then ''reserved'' else if code = 1 then ''short self-test'' else if code = 2 then ''extended self-test''
     else if code = 3 then ''host-initiated refresh'' else if code = 0x0e then ''vendor specific''
     else if code = 0x0f then ''abort self-test'' else ''unknown'')"

definition self_test_result_name :: "u8 \<Rightarrow> string" where
  "self_test_result_name code = (if code = 0 then ''completed without error'' else if code = 1 then ''aborted by device self-test command''
     else if code = 2 then ''aborted by controller reset'' else if code = 3 then ''aborted due to namespace removal''
     else if code = 4 then ''aborted due to format nvm command'' else if code = 5 then ''fatal error or unknown test error''
     else if code = 6 then ''completed with unknown failed segment'' else if code = 7 then ''completed with known failed segment''
     else if code = 8 then ''aborted for unknown reason'' else if code = 9 then ''aborted due to sanitize operation''
     else if code = 0x0f then ''entry not used'' else ''unknown'')"

fun self_test_loop :: "id_buf \<Rightarrow> nat list \<Rightarrow> bool \<Rightarrow> bool adm" where
  "self_test_loop log [] printed_any = return printed_any"
| "self_test_loop log (i # is) printed_any =
    (let b = 4 + 28 * i; result = log b AND 0x0f; code = drop_bit 4 (log b) AND 0x0f in
     if result = 0x0f \<or> code = 0 \<or> bytes_all_zero (get_bytes log b 28) then self_test_loop log is printed_any
     else do {
       let poh = rd64 log (b + 4);
       let flba = rd64 log (b + 16);
       print [Printf ''Result %lu\<newline>'' [ANum (of_nat i + 1)],
              Printf ''  Self-test Code:       0x%02lx (%s)\<newline>'' [ANum (ucast code), AStr (self_test_code_name code)],
              Printf ''  Result:               0x%02lx (%s)\<newline>'' [ANum (ucast result), AStr (self_test_result_name result)]];
       print_kv_u32 ''  Segment:'' (ucast (log (b + 1)));
       print_kv_hex8 ''  Valid Diagnostic Info:'' (ucast (log (b + 2)));
       print_kv_u32 ''  Power On Hours:'' (lo32 poh);
       print_kv_u32 ''  NSID:'' (rd32 log (b + 12));
       print [Printf ''  Failing LBA:          0x%08lx%08lx\<newline>'' [ANum (hi32 flba), ANum (lo32 flba)]];
       print_kv_hex8 ''  Status Code Type:'' (ucast (log (b + 24)));
       print_kv_hex8 ''  Status Code:'' (ucast (log (b + 25)));
       print [Printf ''  Vendor Specific:      0x%02lx%02lx\<newline>'' [ANum (ucast (log (b + 26))), ANum (ucast (log (b + 27)))]];
       self_test_loop log is True })"

definition show_self_test :: "id_buf \<Rightarrow> unit adm" where
  "show_self_test log = do {
     let current_operation = log 0 AND 0x0f;
     let current_completion = log 1 AND 0x7f;
     print_line ''Device Self-test Log\<newline>'';
     print [Printf ''Current Operation:      0x%02lx (%s)\<newline>'' [ANum (ucast current_operation), AStr (self_test_op_name current_operation)]];
     (if current_operation = 0 then print_line ''Completion:             n/a\<newline>''
      else print [Printf ''Completion:             %lu %%\<newline>'' [ANum (ucast current_completion)]]);
     any \<leftarrow> self_test_loop log [0..<20] False;
     on_cond (\<not> any) (print_line ''No completed self-test results recorded.\<newline>'') }"

definition run_self_test :: "adm_env \<Rightarrow> nvmeadm_cli_args \<Rightarrow> retcode adm" where
  "run_self_test E A = with_data (nvmeadm_read_log E A ''Self-test log'' NVME_NSID_ALL 0x06 0 0 564) 564 show_self_test"

section \<open>Sanitize log\<close>

definition sanitize_nodmmas_name :: "u32 \<Rightarrow> string" where
  "sanitize_nodmmas_name n = (if n = 0 then ''not reported'' else if n = 1 then ''media not modified after sanitize''
     else if n = 2 then ''media modified after sanitize'' else ''reserved'')"

definition print_sanitize_capabilities :: "u32 \<Rightarrow> unit adm" where
  "print_sanitize_capabilities sanicap = do {
     print_kv_hex32 ''Sanitize Capabilities:'' sanicap;
     print_yes_no ''  Crypto Erase:'' (sanicap AND 0x1 \<noteq> 0);
     print_yes_no ''  Block Erase:'' (sanicap AND 0x2 \<noteq> 0);
     print_yes_no ''  Overwrite:'' (sanicap AND 0x4 \<noteq> 0);
     print_yes_no ''  No-Dealloc Inhibited:'' (sanicap AND 0x20000000 \<noteq> 0);
     let nodmmas = drop_bit 30 (sanicap AND 0xc0000000);
     print [Printf ''  NODMMAS:              %lu (%s)\<newline>'' [ANum nodmmas, AStr (sanitize_nodmmas_name nodmmas)]] }"

definition sanitize_status_name :: "u32 \<Rightarrow> string" where
  "sanitize_status_name st = (if st = 0 then ''never sanitized'' else if st = 1 then ''last sanitize completed successfully''
     else if st = 2 then ''sanitize in progress'' else if st = 3 then ''last sanitize failed''
     else if st = 4 then ''completed successfully, no deallocation'' else ''reserved'')"

definition print_sanitize_time :: "string \<Rightarrow> u32 \<Rightarrow> unit adm" where
  "print_sanitize_time label seconds = (if seconds = 0xFFFFFFFF then print_kv_str label ''not reported''
     else print [Printf ''%-24s %lu s\<newline>'' [AStr label, ANum seconds]])"

definition print_sanitize_log :: "id_buf \<Rightarrow> unit adm" where
  "print_sanitize_log log = do {
     let sstat = rd16 log 2;
     let st = ucast sstat AND 0x7;
     print [Printf ''Status:                 0x%lx (%s)\<newline>'' [ANum st, AStr (sanitize_status_name st)]];
     on_cond (st = 2) (print [Printf ''Progress:               %lu %%\<newline>'' [ANum (drop_bit 16 (ucast (rd16 log 0) * 100))]]);
     print_kv_u32 ''Overwrite Passes:'' (drop_bit 3 (ucast sstat AND 0xf8));
     print_yes_no ''Global Data Erased:'' (sstat AND 0x100 \<noteq> 0);
     print_kv_hex32 ''Last Sanitize CDW10:'' (rd32 log 4);
     print_sanitize_time ''Est. Overwrite:'' (rd32 log 8);
     print_sanitize_time ''Est. Block Erase:'' (rd32 log 12);
     print_sanitize_time ''Est. Crypto Erase:'' (rd32 log 16) }"

definition run_sanitize_status :: "adm_env \<Rightarrow> nvmeadm_cli_args \<Rightarrow> retcode adm" where
  "run_sanitize_status E A = with_buffer E 4096 RETURN_FAIL (\<lambda>cbuf. with_session E (cl_unit A) RETURN_FAIL (\<lambda>se. do {
     c \<leftarrow> nvmeadm_fetch_identify E se ''Identify Controller'' 0 1 cbuf 4096;
     case c of
       None \<Rightarrow> return RETURN_FAIL
     | Some ctrl \<Rightarrow> do {
         let sanicap = rd32 ctrl 328;
         print_line ''Sanitize Status\<newline>'';
         if sanicap = 0
         then do { print_line ''Sanitize:               not supported by this controller\<newline>''; return RETURN_OK }
         else do {
           print_sanitize_capabilities sanicap;
           got \<leftarrow> with_buffer E 512 False (\<lambda>lbuf. do {
             l \<leftarrow> nvmeadm_fetch_get_log E se ''Sanitize Status log'' NVME_NSID_ALL 0x81 0 0 lbuf 512;
             (case l of None \<Rightarrow> return () | Some log \<Rightarrow> print_sanitize_log log);
             return True });
           if \<not> got then return RETURN_FAIL
           else do {
             r \<leftarrow> nvmeadm_submit_quiet E se (nvmeadm_build_get_features 0 0x17 0 0 0) (\<lambda>_. 0);
             (case r of
                Some rep \<Rightarrow> print_feature_value ''Configured NODRM:'' 0x17 (pr_result rep)
              | None \<Rightarrow> print [Printf ''%-24s not reported by this controller\<newline>'' [AStr ''Configured NODRM:'']]);
             return RETURN_OK } } } }))"

section \<open>Reading leaves nothing behind\<close>

lemma shown_mute: "mute (print_error_entry k d b)" "mute (show_effects d)" "mute (print_critical_warning w)" "mute (print_endurance_group_warning w)"
  "mute (print_temperature_celsius t)" "mute (print_smart_u32_value l v a b')" "mute (print_percentage_used w)" "mute (print_smart_counter l bs a)"
  "mute (print_sanitize_capabilities v)" "mute (print_sanitize_time l v)" "mute (print_sanitize_log d)"
  unfolding print_error_entry_def show_effects_def print_effect_entry_def print_effect_flags_def print_critical_warning_def
    print_endurance_group_warning_def print_temperature_celsius_def print_smart_u32_value_def print_percentage_used_def print_smart_counter_def
    print_sanitize_capabilities_def print_sanitize_time_def print_sanitize_log_def
  by (intro mute_rules)+

lemma loops_mute: "mute (error_loop d is a n)" "mute (changed_loop d is a)" "mute (sensor_loop d is a)" "mute (fw_slot_loop d x y is)"
  "mute (self_test_loop d is a)"
proof -
  show "mute (error_loop d is a n)" by (induction d "is" a n rule: error_loop.induct) (auto intro!: mute_rules shown_mute)
  show "mute (changed_loop d is a)" by (induction d "is" a rule: changed_loop.induct) (auto simp: Let_def intro!: mute_rules)
  show "mute (sensor_loop d is a)" by (induction d "is" a rule: sensor_loop.induct) (auto simp: Let_def intro!: mute_rules shown_mute)
  show "mute (fw_slot_loop d x y is)" by (induction d x y "is" rule: fw_slot_loop.induct) (auto simp: Let_def intro!: mute_rules)
  show "mute (self_test_loop d is a)" by (induction d "is" a rule: self_test_loop.induct) (auto simp: Let_def intro!: mute_rules)
qed

lemma logs_mute: "mute (show_smart d)" "mute (show_fw_log d)" "mute (show_self_test d)"
  unfolding show_smart_def show_fw_log_def show_self_test_def by (intro mute_rules shown_mute loops_mute)+

lemmas mute_tidy = shown_mute [THEN mute_quiet(1)] loops_mute [THEN mute_quiet(1)] logs_mute [THEN mute_quiet(1)]
lemmas mute_sends = shown_mute [THEN mute_quiet(2)] loops_mute [THEN mute_quiet(2)] logs_mute [THEN mute_quiet(2)]

lemma logs_tidy [tidy]: "tidy (run_error_log E A)" "tidy (run_changed_ns E A)" "tidy (run_sanitize_status E A)"
  unfolding run_error_log_def run_changed_ns_def run_sanitize_status_def by (intro tidy_rules tidy mute_tidy)+

lemma data_tidy [tidy]: "tidy (run_effects_log E A)" "tidy (run_smart E A)" "tidy (run_fw_log E A)" "tidy (run_self_test E A)"
  unfolding run_effects_log_def run_smart_def run_fw_log_def run_self_test_def nvmeadm_read_log_def
  by (intro tidy_with_data tidy mute_tidy)+

lemma features_allowed: "se_unit se = cl_unit A \<Longrightarrow> sends (allowed A) (nvmeadm_submit_quiet E se (nvmeadm_build_get_features n f l b k) d)"
  by (rule sends_submit) (simp add: allowed_def destructive_def nvmeadm_build_get_features_def)

lemma logs_allowed: "sends (allowed A) (run_error_log E A)" "sends (allowed A) (run_changed_ns E A)" "sends (allowed A) (run_sanitize_status E A)"
  unfolding run_error_log_def run_changed_ns_def run_sanitize_status_def
  by (intro sends_rules sends_with_buffer sends_with_session sends_fetch_allowed mute_sends features_allowed; assumption)+

lemma data_allowed: "sends (allowed A) (run_effects_log E A)" "sends (allowed A) (run_smart E A)" "sends (allowed A) (run_fw_log E A)"
  "sends (allowed A) (run_self_test E A)"
  unfolding run_effects_log_def run_smart_def run_fw_log_def run_self_test_def nvmeadm_read_log_def
  by (intro sends_with_data sends_fetch_allowed mute_sends; assumption)+

end
