(* ===== verification/Adm_Cli.thy ===== *)
theory Adm_Cli
  imports Adm_Logs
begin

text \<open>
  Unit listing and Identify of src/tools/nvmeadm_identify.c, and the dispatch of src/tools/nvmeadm.c.  The loops of
  \<open>run_units\<close> and \<open>run_list_ns\<close> go on as long as units open and full pages come; they take fuel, one unit for each
  turn, and None is a loop that has not ended.
\<close>

section \<open>Identify Controller and Namespace\<close>

definition nvmeadm_id_cns_ok :: "u32 \<Rightarrow> u8 \<Rightarrow> bool" where
  "nvmeadm_id_cns_ok version cns =
    (if 0x05 \<le> cns \<and> cns \<le> 0x08 then NVME_VS 2 0 0 \<le> version
     else if NVME_VS 1 2 0 \<le> version then True
     else if NVME_VS 1 1 0 \<le> version then cns \<le> 3
     else cns \<le> 1)"

definition controller_type_name :: "u8 \<Rightarrow> string" where
  "controller_type_name t = (if t = 0 then ''not reported'' else if t = 1 then ''I/O controller'' else if t = 2 then ''discovery controller''
     else if t = 3 then ''administrative controller'' else ''unknown'')"

definition discovery_controller_type_name :: "u8 \<Rightarrow> string" where
  "discovery_controller_type_name t = (if t = 0 then ''not reported'' else if t = 1 then ''direct discovery controller''
     else if t = 2 then ''central discovery controller'' else ''unknown'')"

definition print_queue_entry_size :: "string \<Rightarrow> u8 \<Rightarrow> unit adm" where
  "print_queue_entry_size label encoded =
    (let required_log2 = encoded AND 0x0f; maximum_log2 = drop_bit 4 encoded AND 0x0f in
     if required_log2 = 0 \<and> maximum_log2 = 0 then print [Printf ''%-24s not reported\<newline>'' [AStr label]]
     else print [Printf ''%-24s req=%lu B max=%lu B\<newline>'' [AStr label, ANum (push_bit (unat required_log2) 1), ANum (push_bit (unat maximum_log2) 1)]])"

definition mdts_bytes_for_mpsmin :: "u8 \<Rightarrow> u8 \<Rightarrow> u64 option" where
  "mdts_bytes_for_mpsmin mdts mpsmin =
    (let shift = unat mdts + 12 + unat mpsmin in if 64 \<le> shift then None else Some (push_bit shift 1))"

definition print_mdts :: "u8 \<Rightarrow> u8 \<Rightarrow> unit adm" where
  "print_mdts mdts mpsmin =
    (if mdts = 0 then print_line ''MDTS:                   not reported\<newline>''
     else do {
       print [Printf ''MDTS:                   raw=%lu  => 2^%lu * min page size\<newline>'' [ANum (ucast mdts), ANum (ucast mdts)]];
       case mdts_bytes_for_mpsmin mdts mpsmin of
         None \<Rightarrow> return ()
       | Some bytes \<Rightarrow> print (print_binary_size ''MDTS Bytes:'' bytes) })"

definition print_hmb_capabilities :: "id_buf \<Rightarrow> unit adm" where
  "print_hmb_capabilities ctrl =
    (let preferred_size = rd32 ctrl 272; minimum_size = rd32 ctrl 276; minimum_desc_size = rd32 ctrl 332 in
     if preferred_size = 0 \<and> minimum_size = 0 \<and> minimum_desc_size = 0
     then print_kv_str ''Host Memory Buffer:'' ''not reported or not supported''
     else do {
       print_kv_str ''Host Memory Buffer:'' ''reported'';
       print_kv_hex32 ''  Preferred Size:'' preferred_size;
       print_kv_hex32 ''  Minimum Size:'' minimum_size;
       print_kv_hex32 ''  Min Desc Entry Size:'' minimum_desc_size })"

definition print_command_set_probe :: "string \<Rightarrow> bool \<Rightarrow> bool \<Rightarrow> u8 \<Rightarrow> u32 \<Rightarrow> unit adm" where
  "print_command_set_probe label supported probed st res =
    (if \<not> probed then print [Printf ''%-24s not probed on this controller version\<newline>'' [AStr label]]
     else if supported then print [Printf ''%-24s yes\<newline>'' [AStr label]]
     else print [Printf ''%-24s no (status=0x%02lx result=0x%08lx)\<newline>'' [AStr label, ANum (ucast st), ANum res]])"

definition lbaf_relative_performance_name :: "u8 \<Rightarrow> string" where
  "lbaf_relative_performance_name rp = (if rp = 0 then ''best'' else if rp = 1 then ''better'' else if rp = 2 then ''good''
     else if rp = 3 then ''degraded'' else ''unknown'')"

definition print_u64_le_decimal_line :: "string \<Rightarrow> u8 list \<Rightarrow> unit adm" where
  "print_u64_le_decimal_line label bytes = print [Printf ''%-24s %s\<newline>''
     [AStr label, AStr (case format_u64_decimal (read_le64 bytes) 40 of None \<Rightarrow> '''' | Some t \<Rightarrow> t)]]"

definition lbaf_supported :: "id_buf \<Rightarrow> nat \<Rightarrow> bool" where
  "lbaf_supported ns i = namespace_plain_block_supported (ns 29) (lbaf_data_size_bytes (lbaf_ds ns i)) (lbaf_ms ns i)"

definition print_nsid_list_entry :: "u32 \<Rightarrow> id_buf \<Rightarrow> unit adm" where
  "print_nsid_list_entry nsid ns =
    (let current_lbaf = nvme_lbaf_index (ns 26) in
     if ns 25 < current_lbaf
     then print [Printf ''NSID %lu: current LBAF out of range (nlbaf=%lu)\<newline>'' [ANum nsid, ANum (ucast (ns 25))]]
     else print [Printf ''NSID %lu: sector=%lu metadata=%lu PI=%lu %s\<newline>''
       [ANum nsid, ANum (lbaf_data_size_bytes (lbaf_ds ns (unat current_lbaf))), ANum (ucast (lbaf_ms ns (unat current_lbaf))),
        ANum (ucast (ns 29 AND 0x7)), AStr (if lbaf_supported ns (unat current_lbaf) then ''usable'' else ''not-exposed'')]])"

definition show_identify :: "id_buf \<Rightarrow> unit adm" where
  "show_identify ctrl = print [Printf ''Identify Controller\<newline>'' [],
     Printf ''VID:                    %04lx\<newline>'' [ANum (ucast (rd16 ctrl 0))],
     Printf ''SSVID:                  %04lx\<newline>'' [ANum (ucast (rd16 ctrl 2))],
     Printf ''Serial Number:          %.20s\<newline>'' [AStr (chars (get_bytes ctrl 4 20))],
     Printf ''Model Number:           %.40s\<newline>'' [AStr (chars (get_bytes ctrl 24 40))],
     Printf ''Firmware Revision:      %.8s\<newline>'' [AStr (chars (get_bytes ctrl 64 8))]]"

definition run_identify :: "adm_env \<Rightarrow> nvmeadm_cli_args \<Rightarrow> retcode adm" where
  "run_identify E A = with_data (nvmeadm_read_identify E A ''Identify Controller'' 0 1 4096) 4096 show_identify"

definition show_lbaf :: "id_buf \<Rightarrow> nat \<Rightarrow> out" where
  "show_lbaf ns i = Printf ''  LBAF %lu%s:          data=%lu metadata=%lu rp=%s %s\<newline>''
     [ANum (of_nat i), AStr (if i = unat (nvme_lbaf_index (ns 26)) then '' [current]'' else ''''),
      ANum (lbaf_data_size_bytes (lbaf_ds ns i)), ANum (ucast (lbaf_ms ns i)),
      AStr (lbaf_relative_performance_name (ns (128 + 4 * i + 3) AND 0x3)),
      AStr (if lbaf_supported ns i then ''exposed'' else ''not-exposed'')]"

definition show_namespace :: "u32 \<Rightarrow> id_buf \<Rightarrow> id_buf option \<Rightarrow> unit adm" where
  "show_namespace nsid ns indep = do {
     print_line ''Identify Namespace\<newline>'';
     print_kv_u32 ''NSID:'' nsid;
     print_u64_le_decimal_line ''Namespace Size:'' (get_bytes ns 0 8);
     print_u64_le_decimal_line ''Namespace Capacity:'' (get_bytes ns 8 8);
     print_u64_le_decimal_line ''Namespace Utilization:'' (get_bytes ns 16 8);
     print_kv_hex8 ''Namespace Features:'' (ucast (ns 24));
     print [Printf ''Current LBAF:           %lu%s\<newline>'' [ANum (ucast (nvme_lbaf_index (ns 26))),
       AStr (if ns 26 AND 0x10 \<noteq> 0 then '' (metadata in extended LBA)'' else '''')]];
     print_kv_hex8 ''Metadata Capabilities:'' (ucast (ns 27));
     print_kv_hex8 ''Protection Capabilities:'' (ucast (ns 28));
     print_kv_hex8 ''Protection Setting:'' (ucast (ns 29));
     print_yes_no ''Shared Namespace:'' (ns 30 AND 0x1 \<noteq> 0);
     (case indep of
        Some d \<Rightarrow> print_kv_str ''Namespace Ready:'' (if d 14 AND 0x1 \<noteq> 0 then ''no'' else ''yes'')
      | None \<Rightarrow> print_line ''Namespace Ready:        not reported by this controller path\<newline>'');
     print_line ''\<newline>LBA Formats\<newline>'';
     print (map (show_lbaf ns) [0..<min (unat (ns 25) + 1) 64]) }"

definition run_identify_ns :: "adm_env \<Rightarrow> nvmeadm_cli_args \<Rightarrow> retcode adm" where
  "run_identify_ns E A = with_buffer E 4096 RETURN_FAIL (\<lambda>cbuf. with_buffer E 4096 RETURN_FAIL (\<lambda>nbuf. with_buffer E 4096 RETURN_FAIL (\<lambda>ibuf.
     with_session E (cl_unit A) RETURN_FAIL (\<lambda>se. do {
       let nsid = nui_Nsid (se_info se);
       c \<leftarrow> nvmeadm_fetch_identify E se ''Identify Controller'' 0 1 cbuf 4096;
       case c of
         None \<Rightarrow> return RETURN_FAIL
       | Some ctrl \<Rightarrow> do {
           n \<leftarrow> nvmeadm_fetch_identify E se ''Identify Namespace'' nsid 0 nbuf 4096;
           case n of
             None \<Rightarrow> return RETURN_FAIL
           | Some ns \<Rightarrow> do {
               indep \<leftarrow> (if nvmeadm_id_cns_ok (rd32 ctrl 80) 0x08 then nvmeadm_fetch_identify_quiet E se nsid 0x08 ibuf 4096 else return None);
               show_namespace nsid ns indep;
               return RETURN_OK } } }))))"

definition show_caps :: "id_buf \<Rightarrow> u32 \<Rightarrow> bool \<Rightarrow> bool \<times> u8 \<times> u32 \<Rightarrow> bool \<times> u8 \<times> u32 \<Rightarrow> unit adm" where
  "show_caps ctrl cap_hi can_probe_cs nvm zns = do {
     let ctratt = rd32 ctrl 96;
     let oaes = rd32 ctrl 92;
     let oacs = rd16 ctrl 256;
     let oncs = rd16 ctrl 520;
     print_line ''Identify Controller Capabilities\<newline>'';
     print [Printf ''Controller Type:        0x%02lx (%s)\<newline>'' [ANum (ucast (ctrl 111)), AStr (controller_type_name (ctrl 111))],
            Printf ''Discovery Type:         0x%02lx (%s)\<newline>'' [ANum (ucast (ctrl 1806)), AStr (discovery_controller_type_name (ctrl 1806))]];
     print_kv_u32 ''Controller ID:'' (ucast (rd16 ctrl 78));
     print [Printf ''Async Req Limit:        %lu outstanding requests\<newline>'' [ANum (ucast (ctrl 259) + 1)]];
     print_kv_hex32 ''OAES:'' oaes;
     print_line ''\<newline>Controller Multipath / Sharing\<newline>'';
     print_yes_no ''  Multi-port:'' (ctrl 76 AND 0x1 \<noteq> 0);
     print_yes_no ''  Multi-controller:'' (ctrl 76 AND 0x2 \<noteq> 0);
     print_yes_no ''  ANA reporting:'' (ctrl 76 AND 0x8 \<noteq> 0);
     print_line ''\<newline>Transfer / Queue Limits\<newline>'';
     print_mdts (ctrl 77) (ucast (drop_bit 16 cap_hi AND 0xF));
     print_queue_entry_size ''SQ Entry Size:'' (ctrl 512);
     print_queue_entry_size ''CQ Entry Size:'' (ctrl 513);
     print_kv_u32 ''Max Outstanding Cmds:'' (ucast (rd16 ctrl 514));
     print [Printf ''IO Command Capsule:     %lu bytes\<newline>'' [ANum (rd32 ctrl 1792 * 16)]];
     print_line ''\<newline>Admin Capabilities\<newline>'';
     print_kv_hex16 ''OACS:'' (ucast oacs);
     print_yes_no ''  Security Cmds:'' (oacs AND 0x1 \<noteq> 0);
     print_yes_no ''  Namespace Mgmt:'' (oacs AND 0x8 \<noteq> 0);
     print_yes_no ''  Namespace Creation:'' (oacs AND 0x8 \<noteq> 0);
     print_yes_no ''  Directives:'' (oacs AND 0x20 \<noteq> 0);
     print_yes_no ''  Doorbell Buffer:'' (oacs AND 0x100 \<noteq> 0);
     print_line ''\<newline>NVM Command Capabilities\<newline>'';
     print_kv_hex16 ''ONCS:'' (ucast oncs);
     print_yes_no ''  Compare:'' (oncs AND 0x1 \<noteq> 0);
     print_yes_no ''  Write Uncorrectable:'' (oncs AND 0x2 \<noteq> 0);
     print_yes_no ''  Dataset Mgmt:'' (oncs AND 0x4 \<noteq> 0);
     print_yes_no ''  Write Zeroes:'' (oncs AND 0x8 \<noteq> 0);
     print_yes_no ''  Reservations:'' (oncs AND 0x20 \<noteq> 0);
     print_yes_no ''  Timestamp:'' (oncs AND 0x40 \<noteq> 0);
     print_line ''\<newline>Log / Event Support\<newline>'';
     print_kv_hex8 ''LPA:'' (ucast (ctrl 261));
     print_yes_no ''  Cmd Effects Log:'' (ctrl 261 AND 0x2 \<noteq> 0);
     print_kv_hex32 ''AER Support Mask:'' oaes;
     print_line ''\<newline>Controller Attributes\<newline>'';
     print_kv_hex32 ''CTRATT:'' ctratt;
     print_yes_no ''  128-bit Host ID:'' (ctratt AND 0x1 \<noteq> 0);
     print_yes_no ''  Non-op PSP:'' (ctratt AND 0x2 \<noteq> 0);
     print_yes_no ''  NVM Sets:'' (ctratt AND 0x4 \<noteq> 0);
     print_yes_no ''  Read Recovery Lvls:'' (ctratt AND 0x8 \<noteq> 0);
     print_yes_no ''  Endurance Groups:'' (ctratt AND 0x10 \<noteq> 0);
     print_yes_no ''  Predictable Latency:'' (ctratt AND 0x20 \<noteq> 0);
     print_yes_no ''  Namespace Granularity:'' (ctratt AND 0x80 \<noteq> 0);
     print_yes_no ''  UUID List:'' (ctratt AND 0x200 \<noteq> 0);
     print_line ''\<newline>Memory / Thermal / Self-test\<newline>'';
     print_hmb_capabilities ctrl;
     print_kv_hex16 ''HCTMA:'' (ucast (rd16 ctrl 322));
     print_kv_hex8 ''DSTO:'' (ucast (ctrl 318));
     print_line ''\<newline>Supported Command Sets\<newline>'';
     print_yes_no ''  NVM Sets Attr:'' (ctratt AND 0x4 \<noteq> 0);
     print_command_set_probe ''  NVM CS Identify:'' (fst nvm) can_probe_cs (fst (snd nvm)) (snd (snd nvm));
     print_command_set_probe ''  ZNS CS Identify:'' (fst zns) can_probe_cs (fst (snd zns)) (snd (snd zns));
     print_line (if \<not> can_probe_cs then ''  CSI note:             controller version predates safe extended CNS probing\<newline>''
       else if \<not> fst nvm \<and> \<not> fst zns then ''  CSI combinations:     no command-set-specific Identify data advertised\<newline>''
       else if fst nvm \<and> \<not> fst zns then ''  CSI combinations:     NVM-specific Identify data available\<newline>''
       else ''  CSI combinations:     multiple CSI-specific Identify paths responded\<newline>'') }"

definition run_identify_caps :: "adm_env \<Rightarrow> nvmeadm_cli_args \<Rightarrow> retcode adm" where
  "run_identify_caps E A = with_buffer E 4096 RETURN_FAIL (\<lambda>cbuf. with_buffer E 4096 RETURN_FAIL (\<lambda>nbuf.
     with_session E (cl_unit A) RETURN_FAIL (\<lambda>se. do {
       c \<leftarrow> nvmeadm_fetch_identify E se ''Identify Controller'' 0 1 cbuf 4096;
       case c of
         None \<Rightarrow> return RETURN_FAIL
       | Some ctrl \<Rightarrow> do {
           let can_probe_cs = nvmeadm_id_cns_ok (rd32 ctrl 80) 0x06;
           nvm \<leftarrow> (if can_probe_cs then nvmeadm_fetch_identify_csi E se 0 0x06 0 nbuf 4096 else return (False, 0, 0));
           zns \<leftarrow> (if can_probe_cs then nvmeadm_fetch_identify_csi E se 0 0x06 2 nbuf 4096 else return (False, 0, 0));
           show_caps ctrl (nui_CapHi (se_info se)) can_probe_cs nvm zns;
           return RETURN_OK } })))"

section \<open>Units and namespaces\<close>

fun units_loop :: "nat \<Rightarrow> adm_env \<Rightarrow> u32 \<Rightarrow> bool \<Rightarrow> bool option adm" where
  "units_loop 0 E u any = return None"
| "units_loop (Suc fuel) E u any = do {
     stop \<leftarrow> nvmeadm_check_break E;
     if stop then return (Some any)
     else do {
       r \<leftarrow> nvmeadm_open_unit_quiet E u;
       case r of
         None \<Rightarrow> return (Some any)
       | Some se \<Rightarrow> do {
           let info = se_info se;
           on_cond (u = nui_CtrlFirstUnit info)
             (print [Printf ''Controller at unit %lu: %s (S/N %s, FW %s, NVMe %lu.%lu)\<newline>''
               [ANum u, AStr (chars (nui_Model info)), AStr (chars (nui_Serial info)), AStr (chars (nui_Firmware info)),
                ANum (drop_bit 16 (nui_Version info)), ANum (drop_bit 8 (nui_Version info) AND 0xFF)]]);
           sector \<leftarrow> call (\<lambda>i s. (ae_sector E i u, s));
           print [Printf ''  Unit %lu:  NSID %lu  sector=%lu\<newline>'' [ANum u, ANum (nui_Nsid info), ANum sector]];
           nvmeadm_close se;
           units_loop fuel E (u + 1) True } } }"

definition run_units :: "nat \<Rightarrow> adm_env \<Rightarrow> retcode option adm" where
  "run_units fuel E = do {
     r \<leftarrow> units_loop fuel E 0 False;
     case r of
       None \<Rightarrow> return None
     | Some any \<Rightarrow>
        if \<not> any then do { print_line ''No nvme.device units found.\<newline>''; return (Some RETURN_FAIL) }
        else return (Some RETURN_OK) }"

definition list_count :: "id_buf \<Rightarrow> nat" where
  "list_count list = length (takeWhile (\<lambda>i. rd32 list (4 * i) \<noteq> 0) [0..<1024])"

text \<open>The entries of one page; the result tells whether the end was reached without a break.\<close>

fun entries_loop :: "adm_env \<Rightarrow> nvmeadm_session \<Rightarrow> u32 \<Rightarrow> id_buf \<Rightarrow> nat list \<Rightarrow> bool adm" where
  "entries_loop E se nbuf list [] = return True"
| "entries_loop E se nbuf list (i # is) = do {
     stop \<leftarrow> nvmeadm_check_break E;
     if stop then return False
     else do {
       let nsid = rd32 list (4 * i);
       r \<leftarrow> nvmeadm_fetch_identify E se ''Identify Namespace'' nsid 0 nbuf 4096;
       (case r of
          Some ns \<Rightarrow> print_nsid_list_entry nsid ns
        | None \<Rightarrow> print [Printf ''NSID %lu: Identify Namespace failed, skipped\<newline>'' [ANum nsid]]);
       entries_loop E se nbuf list is } }"

fun pages_loop :: "nat \<Rightarrow> adm_env \<Rightarrow> nvmeadm_session \<Rightarrow> u32 \<Rightarrow> u32 \<Rightarrow> u32 \<Rightarrow> bool \<Rightarrow> retcode option adm" where
  "pages_loop 0 E se lbuf nbuf start_nsid printed_any = return None"
| "pages_loop (Suc fuel) E se lbuf nbuf start_nsid printed_any = do {
     l \<leftarrow> nvmeadm_fetch_identify E se ''Identify Active Namespace List'' start_nsid 0x02 lbuf 4096;
     case l of
       None \<Rightarrow> return (Some RETURN_FAIL)
     | Some list \<Rightarrow> do {
         let count = list_count list;
         ok \<leftarrow> entries_loop E se nbuf list [0..<count];
         if \<not> ok then return (Some RETURN_FAIL)
         else do {
           let next_nsid = rd32 list (4 * 1023);
           let any = printed_any \<or> 0 < count;
           if count < 1024 \<or> 0xFFFFFFFE \<le> next_nsid
           then do { on_cond (\<not> any) (print_line ''No active namespaces reported.\<newline>''); return (Some RETURN_OK) }
           else pages_loop fuel E se lbuf nbuf next_nsid any } } }"

definition run_list_ns :: "nat \<Rightarrow> adm_env \<Rightarrow> nvmeadm_cli_args \<Rightarrow> retcode option adm" where
  "run_list_ns fuel E A = with_buffer E 4096 (Some RETURN_FAIL) (\<lambda>lbuf. with_session E (cl_unit A) (Some RETURN_FAIL) (\<lambda>se.
     with_buffer E 4096 (Some RETURN_FAIL) (\<lambda>nbuf. do {
       print_line ''Active Namespaces\<newline>'';
       pages_loop fuel E se lbuf nbuf 0 False })))"

section \<open>Dispatch\<close>

type_synonym command_entry = "string \<times> string option \<times> string option \<times> retcode option adm"

definition strempty :: "string option \<Rightarrow> bool" where
  "strempty text = (case text of None \<Rightarrow> True | Some t \<Rightarrow> t = '''')"

text \<open>\<open>same\<close> is the case-insensitive comparison of emu68-common.\<close>

definition token_matches :: "(string \<Rightarrow> string \<Rightarrow> bool) \<Rightarrow> string option \<Rightarrow> string option \<Rightarrow> bool" where
  "token_matches same expected actual = (case expected of
     None \<Rightarrow> strempty actual
   | Some e \<Rightarrow> (case actual of None \<Rightarrow> False | Some a \<Rightarrow> same e a))"

definition ended :: "retcode adm \<Rightarrow> retcode option adm" where
  "ended m = do { rc \<leftarrow> m; return (Some rc) }"

definition nvmeadm_commands :: "nat \<Rightarrow> adm_env \<Rightarrow> nvmeadm_cli_args \<Rightarrow> command_entry list" where
  "nvmeadm_commands fuel E A = [
     (''units'', None, None, run_units fuel E),
     (''smart'', None, None, ended (run_smart E A)),
     (''identify'', None, None, ended (run_identify E A)),
     (''identify'', Some ''caps'', None, ended (run_identify_caps E A)),
     (''identify'', Some ''ns'', None, ended (run_identify_ns E A)),
     (''list-ns'', None, None, run_list_ns fuel E A),
     (''changed-ns'', None, None, ended (run_changed_ns E A)),
     (''error-log'', None, None, ended (run_error_log E A)),
     (''effects-log'', None, None, ended (run_effects_log E A)),
     (''fw-log'', None, None, ended (run_fw_log E A)),
     (''fw-download'', None, None, ended (run_fw_download E A)),
     (''fw-activate'', Some ''replace'', None, ended (run_fw_activate_control E A 0 ''replace'')),
     (''fw-activate'', Some ''replace-activate'', None, ended (run_fw_activate_control E A 8 ''replace-activate'')),
     (''fw-activate'', Some ''activate'', None, ended (run_fw_activate_control E A 16 ''activate'')),
     (''format'', None, None, ended (run_format_nvm E A)),
     (''sanitize'', Some ''exit-failure'', None, ended (run_sanitize_control E A 1 ''exit-failure'')),
     (''sanitize'', Some ''block-erase'', None, ended (run_sanitize_control E A 2 ''block-erase'')),
     (''sanitize'', Some ''overwrite'', None, ended (run_sanitize_control E A 3 ''overwrite'')),
     (''sanitize'', Some ''crypto'', None, ended (run_sanitize_control E A 4 ''crypto'')),
     (''sanitize-status'', None, None, ended (run_sanitize_status E A)),
     (''get-feature'', None, None, ended (run_get_feature E A)),
     (''self-test'', Some ''status'', None, ended (run_self_test E A)),
     (''self-test'', Some ''start'', Some ''short'', ended (run_self_test_control E A 1 ''Self-test start short'')),
     (''self-test'', Some ''start'', Some ''extended'', ended (run_self_test_control E A 2 ''Self-test start extended'')),
     (''self-test'', Some ''abort'', None, ended (run_self_test_control E A 0x0f ''Self-test abort''))]"

definition nvmeadm_docs :: "(string \<times> string \<times> string \<times> string option) list" where
  "nvmeadm_docs = [
     (''units'', ''units'',
      ''List units grouped by controller'', None),
     (''smart'', ''smart [UNIT <n>]'',
      ''Read SMART / health log'', None),
     (''identify'', ''identify [caps|ns] [UNIT <n>]'',
      ''Identify Controller; 'caps' decodes capabilities, 'ns' the unit's namespace'', None),
     (''list-ns'', ''list-ns [UNIT <n>]'',
      ''List active namespaces on the unit's controller'', None),
     (''changed-ns'', ''changed-ns [UNIT <n>]'',
      ''Read Changed Namespace List log'', None),
     (''error-log'', ''error-log [UNIT <n>]'',
      ''Read Error Information log'', None),
     (''effects-log'', ''effects-log [UNIT <n>]'',
      ''Read Command Effects log'', None),
     (''fw-log'', ''fw-log [UNIT <n>]'',
      ''Read Firmware Slot Information log'', None),
     (''fw-download'', ''fw-download FILE <path> [UNIT <n>] CONFIRM'',
      ''Download a firmware image'', None),
     (''fw-activate'', ''fw-activate <replace|replace-activate|activate> UNIT <n> SLOT <n> CONFIRM'',
      ''Commit downloaded firmware to a slot'', Some ''Actions:\<newline>  replace           Store the downloaded image in SLOT without activating\<newline>  replace-activate  Store the image in SLOT and activate it on next reset\<newline>  activate          Activate the image already stored in SLOT on next reset\<newline>''),
     (''format'', ''format LBAF <n> [SES <0|1|2>] [UNIT <n>] CONFIRM'',
      ''Format the unit's namespace to an LBA format'', Some ''LBAF selects an LBA format index as listed by 'nvmeadm identify ns'.\<newline>\<newline>SES (Secure Erase Settings):\<newline>  0  no secure erase (default)\<newline>  1  user data erase - erase all user data\<newline>  2  cryptographic erase - destroy the media encryption key\<newline>\<newline>CONFIRM is required. Formatting DESTROYS ALL DATA in the namespace.\<newline>''),
     (''sanitize'', ''sanitize <action> [UNIT <n>] [AUSE] [OWPASS <0-15>] [OIPBP] [NODAS] CONFIRM'',
      ''Sanitize the unit's controller (all namespaces)'', Some ''Actions:\<newline>  block-erase   Erase all blocks (typically fast; recommended)\<newline>  crypto        Destroy the media encryption key (instant, needs crypto support)\<newline>  overwrite     Overwrite media with a pattern (slow; see OWPASS/OIPBP)\<newline>  exit-failure  Recover a drive stuck in sanitize-failed state\<newline>\<newline>Options:\<newline>  AUSE          Allow Unrestricted Sanitize Exit - drive stays usable if\<newline>                sanitize fails (default: restricted, drive blocks I/O)\<newline>  OWPASS <n>    Overwrite passes, 1-15 (0 or omitted = 16 passes; overwrite only)\<newline>  OIPBP         Invert the overwrite pattern between passes (overwrite only)\<newline>  NODAS         No Deallocate After Sanitize (leave blocks allocated)\<newline>  CONFIRM       Required. Sanitize DESTROYS ALL DATA on the drive.\<newline>\<newline>Run 'nvmeadm sanitize-status' first to see which actions the drive\<newline>supports, and afterwards to track progress and completion.\<newline>''),
     (''sanitize-status'', ''sanitize-status [UNIT <n>]'',
      ''Read sanitize capabilities, status, and progress'', None),
     (''get-feature'', ''get-feature [UNIT <n>]'',
      ''Read selected controller feature values'', None),
     (''self-test'', ''self-test status|start <short|extended>|abort [UNIT <n>]'',
      ''Device self-test status and control'', None)]"

definition print_usage :: "unit adm" where
  "print_usage = do {
     print_line ''nvmeadm - NVMe admin utility for nvme.device\<newline>'';
     print_line ''Usage: nvmeadm <command> [subcommand] [action] [options]\<newline>'';
     print_line ''Commands:\<newline>'';
     print (map (\<lambda>(c, u, t, h). Printf ''  %-16s %s\<newline>'' [AStr c, AStr t]) nvmeadm_docs);
     print_line ''\<newline>'';
     print_line ''A unit is one namespace; UNIT <n> (or UNIT=<n>) also selects the\<newline>'';
     print_line ''controller that owns it - see 'nvmeadm units'. Commands and keywords\<newline>'';
     print_line ''are case-insensitive.\<newline>'' }"

definition print_command_help :: "string \<times> string \<times> string \<times> string option \<Rightarrow> unit adm" where
  "print_command_help doc = (case doc of (c, u, t, h) \<Rightarrow> do {
     print [Printf ''Usage: nvmeadm %s\<newline>'' [AStr u]];
     case h of None \<Rightarrow> return () | Some x \<Rightarrow> print [Printf ''\<newline>%s'' [AStr x]] })"

definition dispatch_command :: "(string \<Rightarrow> string \<Rightarrow> bool) \<Rightarrow> nat \<Rightarrow> adm_env \<Rightarrow> nvmeadm_cli_args \<Rightarrow>
    string option \<Rightarrow> string option \<Rightarrow> string option \<Rightarrow> retcode option adm" where
  "dispatch_command same fuel E A command subcommand action =
    (case find (\<lambda>(c, s, a, m). token_matches same (Some c) command \<and> token_matches same s subcommand \<and> token_matches same a action)
         (nvmeadm_commands fuel E A) of
       Some (c, s, a, m) \<Rightarrow> m
     | None \<Rightarrow>
        (case find (\<lambda>(c, d). token_matches same (Some c) command) nvmeadm_docs of
           Some doc \<Rightarrow> do { print_command_help doc; return (Some RETURN_ERROR) }
         | None \<Rightarrow> do {
             print [Printf ''Unknown command: %s'' [AStr (case command of None \<Rightarrow> '''' | Some c \<Rightarrow> c)]];
             (case subcommand of Some t \<Rightarrow> on_cond (t \<noteq> '''') (print [Printf '' %s'' [AStr t]]) | None \<Rightarrow> return ());
             (case action of Some t \<Rightarrow> on_cond (t \<noteq> '''') (print [Printf '' %s'' [AStr t]]) | None \<Rightarrow> return ());
             print_line ''\<newline>\<newline>'';
             print_usage;
             return (Some RETURN_ERROR) }))"

text \<open>What \<open>ReadArgs\<close> leaves in its array: strings, numbers behind pointers, and switches.\<close>

record arg_vals =
  av_command :: "string option"
  av_subcommand :: "string option"
  av_action :: "string option"
  av_unit :: "u32 option"
  av_slot :: "u32 option"
  av_lbaf :: "u32 option"
  av_ses :: "u32 option"
  av_file :: "string option"
  av_ause :: bool
  av_owpass :: "u32 option"
  av_oipbp :: bool
  av_nodas :: bool
  av_confirm :: bool

definition number_or_zero :: "u32 option \<Rightarrow> u32" where
  "number_or_zero n = (case n of None \<Rightarrow> 0 | Some x \<Rightarrow> x)"

definition parse_args :: "arg_vals \<Rightarrow> nvmeadm_cli_args" where
  "parse_args v = \<lparr>cl_unit = number_or_zero (av_unit v), cl_slot = number_or_zero (av_slot v), cl_lbaf = number_or_zero (av_lbaf v),
     cl_ses = number_or_zero (av_ses v), cl_owpass = number_or_zero (av_owpass v), cl_file = (if av_file v = Some '''' then None else av_file v),
     cl_has_unit = (av_unit v \<noteq> None), cl_has_slot = (av_slot v \<noteq> None), cl_has_lbaf = (av_lbaf v \<noteq> None),
     cl_has_ses = (av_ses v \<noteq> None), cl_has_owpass = (av_owpass v \<noteq> None), cl_ause = av_ause v, cl_oipbp = av_oipbp v,
     cl_nodas = av_nodas v, cl_confirm = av_confirm v\<rparr>"

definition nvmeadm_main :: "(string \<Rightarrow> string \<Rightarrow> bool) \<Rightarrow> nat \<Rightarrow> adm_env \<Rightarrow> arg_vals option \<Rightarrow> retcode option adm" where
  "nvmeadm_main same fuel E rda = (case rda of
     None \<Rightarrow> return (Some RETURN_ERROR)
   | Some v \<Rightarrow> dispatch_command same fuel E (parse_args v) (av_command v) (av_subcommand v) (av_action v))"

section \<open>Every command gives back what it takes and sends only what was asked\<close>

lemma identify_mute: "mute (show_identify d)" "mute (show_namespace n d i)" "mute (show_caps d h b p q)" "mute (print_nsid_list_entry n d)"
  unfolding show_identify_def show_namespace_def show_caps_def print_nsid_list_entry_def print_mdts_def print_queue_entry_size_def
    print_hmb_capabilities_def print_command_set_probe_def print_u64_le_decimal_line_def
  by (intro mute_rules)+

lemma help_mute: "mute print_usage" "mute (print_command_help h)"
proof -
  show "mute print_usage" unfolding print_usage_def by (intro mute_rules)
  obtain c u t x where "h = (c, u, t, x)" by (cases h)
  then show "mute (print_command_help h)" unfolding print_command_help_def by (auto intro!: mute_rules)
qed

lemma print_run: "run_state (print xs) s = ((), s\<lparr>a_out := a_out s @ xs\<rparr>)"
  "run_state (on_cond b (print xs)) s = ((), s\<lparr>a_out := a_out s @ (if b then xs else [])\<rparr>)"
  by (simp_all add: on_cond_def print_def)

lemma identify_tidy [tidy]: "tidy (run_identify E A)" "tidy (run_identify_ns E A)" "tidy (run_identify_caps E A)"
proof -
  show "tidy (run_identify E A)"
    unfolding run_identify_def nvmeadm_read_identify_def by (intro tidy_with_data tidy identify_mute [THEN mute_quiet(1)])
  show "tidy (run_identify_ns E A)" "tidy (run_identify_caps E A)"
    unfolding run_identify_ns_def run_identify_caps_def by (intro tidy_rules tidy identify_mute [THEN mute_quiet(1)])+
qed

lemma identify_allowed: "sends (allowed A) (run_identify E A)" "sends (allowed A) (run_identify_ns E A)" "sends (allowed A) (run_identify_caps E A)"
proof -
  show "sends (allowed A) (run_identify E A)"
    unfolding run_identify_def nvmeadm_read_identify_def
    by (intro sends_with_data sends_fetch_allowed identify_mute [THEN mute_quiet(2)]; assumption)
  show "sends (allowed A) (run_identify_ns E A)" "sends (allowed A) (run_identify_caps E A)"
    unfolding run_identify_ns_def run_identify_caps_def
    by (intro sends_rules sends_with_buffer sends_with_session sends_fetch_allowed identify_mute [THEN mute_quiet(2)]; assumption)+
qed

text \<open>A turn of the unit loop that opened a unit: it has closed the unit again, and has only printed.\<close>

lemma units_step:
  assumes "\<not> ae_break E (a_calls s)" "run_state (nvmeadm_open_unit_quiet E u) (s\<lparr>a_calls := a_calls s + 1\<rparr>) = (Some se, s1)"
  obtains s2 where "run_state (units_loop (Suc fuel) E u any) s = run_state (units_loop fuel E (u + 1) True) s2"
    "holds s2 = holds s" "a_sent s2 = a_sent s"
proof -
  let ?s = "s\<lparr>a_calls := a_calls s + 1\<rparr>"
  note h = open_holds [OF assms(2) [unfolded nvmeadm_open_unit_quiet_def]]
  have b: "run_state (nvmeadm_check_break E) s = (False, ?s)" using assms(1) by (simp add: nvmeadm_check_break_def call_def)
  have "\<exists>o'. run_state (units_loop (Suc fuel) E u any) s =
      run_state (units_loop fuel E (u + 1) True) (snd (run_state (nvmeadm_close se) (s1\<lparr>a_calls := a_calls s1 + 1, a_out := o'\<rparr>)))"
    using assms(2) b by (simp add: print_run call_def Let_def case_prod_beta) (intro conjI impI; rule exI, rule refl)
  then obtain o' where r: "run_state (units_loop (Suc fuel) E u any) s =
      run_state (units_loop fuel E (u + 1) True) (snd (run_state (nvmeadm_close se) (s1\<lparr>a_calls := a_calls s1 + 1, a_out := o'\<rparr>)))" by blast
  define s2 where "s2 = snd (run_state (nvmeadm_close se) (s1\<lparr>a_calls := a_calls s1 + 1, a_out := o'\<rparr>))"
  have c: "holds (s1\<lparr>a_calls := a_calls s1 + 1, a_out := o'\<rparr>) = (a_mem s, a_ports s + 1, a_ioreqs s + 1, u # a_opens s, a_files s)"
    using h by (simp add: holds_def)
  have "holds s2 = holds s" "a_sent s2 = a_sent s"
    unfolding s2_def using close_holds [OF _ _ _ _ c, of se] h by (simp_all add: holds_def)
  then show ?thesis using that r by (simp add: s2_def)
qed

lemma units_mute: "mute (units_loop fuel E u any)"
proof (induction fuel arbitrary: u any)
  case 0
  show ?case by (simp add: mute_rules)
next
  case (Suc fuel)
  have "holds (snd (run_state (units_loop (Suc fuel) E u any) s)) = holds s \<and> a_sent (snd (run_state (units_loop (Suc fuel) E u any) s)) = a_sent s" for s
  proof (cases "ae_break E (a_calls s)")
    case True
    then show ?thesis by (simp add: nvmeadm_check_break_def call_def holds_def)
  next
    case False
    let ?s = "s\<lparr>a_calls := a_calls s + 1\<rparr>"
    obtain r s1 where o: "run_state (nvmeadm_open_unit_quiet E u) ?s = (r, s1)" by (cases "run_state (nvmeadm_open_unit_quiet E u) ?s")
    show ?thesis
    proof (cases r)
      case None
      then show ?thesis using False o open_holds [OF o [unfolded nvmeadm_open_unit_quiet_def]]
        by (simp add: nvmeadm_check_break_def call_def holds_def)
    next
      case (Some se)
      obtain s2 where "run_state (units_loop (Suc fuel) E u any) s = run_state (units_loop fuel E (u + 1) True) s2"
        "holds s2 = holds s" "a_sent s2 = a_sent s" using units_step [OF False o [unfolded Some]] .
      then show ?thesis using Suc by (metis mute_def)
    qed
  qed
  then show ?case by (simp add: mute_def)
qed

lemma run_units_mute: "mute (run_units fuel E)"
  unfolding run_units_def by (intro mute_rules units_mute)

lemma entries_tidy: "tidy (entries_loop E se b d is)"
  by (induction E se b d "is" rule: entries_loop.induct)
    (auto simp: Let_def intro!: tidy_rules tidy identify_mute [THEN mute_quiet(1)] split: option.split)

lemma pages_tidy: "tidy (pages_loop fuel E se l b n p)"
proof (induction fuel arbitrary: n p)
  case (Suc fuel)
  show ?case unfolding pages_loop.simps by (intro tidy_rules tidy entries_tidy Suc)
qed (simp add: tidy_rules)

lemma list_ns_tidy [tidy]: "tidy (run_list_ns fuel E A)"
  unfolding run_list_ns_def by (intro tidy_rules tidy pages_tidy)

lemma entries_allowed: "se_unit se = cl_unit A \<Longrightarrow> sends (allowed A) (entries_loop E se b d is)"
  by (induction E se b d "is" rule: entries_loop.induct)
    (auto simp: Let_def intro!: sends_rules sends_fetch_allowed identify_mute [THEN mute_quiet(2)] split: option.split)

lemma pages_allowed: "se_unit se = cl_unit A \<Longrightarrow> sends (allowed A) (pages_loop fuel E se l b n p)"
proof (induction fuel arbitrary: n p)
  case (Suc fuel)
  show ?case unfolding pages_loop.simps by (intro sends_rules sends_fetch_allowed entries_allowed Suc)
qed (simp add: sends_rules)

lemma list_ns_allowed: "sends (allowed A) (run_list_ns fuel E A)"
  unfolding run_list_ns_def by (intro sends_rules sends_with_buffer sends_with_session pages_allowed)

lemma ended_rules: "tidy m \<Longrightarrow> tidy (ended m)" "sends P m \<Longrightarrow> sends P (ended m)"
  unfolding ended_def by (intro tidy_rules sends_rules; assumption)+

lemma table_tidy: "list_all (\<lambda>(c, s, a, m). tidy m) (nvmeadm_commands fuel E A)"
  unfolding nvmeadm_commands_def list.pred_inject split by (intro conjI ended_rules tidy run_units_mute [THEN mute_quiet(1)]) simp

lemma table_allowed: "list_all (\<lambda>(c, s, a, m). sends (allowed A) m) (nvmeadm_commands fuel E A)"
  unfolding nvmeadm_commands_def list.pred_inject split
  by (intro conjI ended_rules run_units_mute [THEN mute_quiet(2)] identify_allowed list_ns_allowed logs_allowed data_allowed download_allowed
    activate_allowed format_allowed sanitize_allowed feature_allowed self_test_control_allowed) simp

text \<open>The commands that may destroy data or replace the firmware; the others do not look at CONFIRM.\<close>

definition dangerous :: "string list" where
  "dangerous = [''fw-download'', ''fw-activate'', ''format'', ''sanitize'']"

definition guarded :: "nvmeadm_cli_args \<Rightarrow> string \<Rightarrow> u32 \<times> NVMePassthruCmd \<times> u8 list \<Rightarrow> bool" where
  "guarded A name = (\<lambda>(u, c, d). u = cl_unit A \<and> (destructive c \<longrightarrow> cl_confirm A \<and> name \<in> set dangerous))"

lemma sends_mono: "(\<And>x. P x \<Longrightarrow> Q x) \<Longrightarrow> sends P m \<Longrightarrow> sends Q m"
  unfolding sends_def by (meson list.pred_mono_strong)

lemma guarded_reader:
  assumes "\<And>B. sends (allowed B) (f B)" "f (A\<lparr>cl_confirm := False\<rparr>) = f A"
  shows "sends (guarded A name) (f A)"
proof (rule sends_mono)
  show "sends (allowed (A\<lparr>cl_confirm := False\<rparr>)) (f A)" using assms by metis
qed (auto simp: allowed_def guarded_def)

lemma guarded_writer: "name \<in> set dangerous \<Longrightarrow> sends (allowed A) m \<Longrightarrow> sends (guarded A name) m"
  by (rule sends_mono [of "allowed A"]) (auto simp: allowed_def guarded_def)

lemma logs_guarded: "sends (guarded A n) (run_error_log E A)" "sends (guarded A n) (run_changed_ns E A)" "sends (guarded A n) (run_sanitize_status E A)"
  "sends (guarded A n) (run_effects_log E A)" "sends (guarded A n) (run_smart E A)" "sends (guarded A n) (run_fw_log E A)"
  "sends (guarded A n) (run_self_test E A)"
  by (rule guarded_reader, rule logs_allowed data_allowed,
      simp add: run_error_log_def run_changed_ns_def run_sanitize_status_def run_effects_log_def run_smart_def run_fw_log_def run_self_test_def
        nvmeadm_read_log_def read_with_def cong: if_cong)+

lemma identify_guarded: "sends (guarded A n) (run_identify E A)" "sends (guarded A n) (run_identify_ns E A)" "sends (guarded A n) (run_identify_caps E A)"
  "sends (guarded A n) (run_list_ns fuel E A)" "sends (guarded A n) (run_get_feature E A)" "sends (guarded A n) (run_self_test_control E A k t)"
  by (rule guarded_reader, rule identify_allowed list_ns_allowed feature_allowed self_test_control_allowed,
      simp add: run_identify_def run_identify_ns_def run_identify_caps_def run_list_ns_def run_get_feature_def run_self_test_control_def
        nvmeadm_read_identify_def read_with_def cong: if_cong)+

lemma writers_guarded: "sends (guarded A ''fw-download'') (run_fw_download E A)" "sends (guarded A ''fw-activate'') (run_fw_activate_control E A k t)"
  "sends (guarded A ''format'') (run_format_nvm E A)" "sends (guarded A ''sanitize'') (run_sanitize_control E A k t)"
  by (rule guarded_writer, simp add: dangerous_def, rule download_allowed activate_allowed format_allowed sanitize_allowed)+

lemma table_guarded: "list_all (\<lambda>(c, s, a, m). sends (guarded A c) m) (nvmeadm_commands fuel E A)"
  unfolding nvmeadm_commands_def list.pred_inject split
  by (intro conjI ended_rules run_units_mute [THEN mute_quiet(2)] logs_guarded identify_guarded writers_guarded) simp

lemma unknown_mute: "mute (do {
    print [Printf ''Unknown command: %s'' [AStr n]];
    (case sub of Some t \<Rightarrow> on_cond (t \<noteq> '''') (print [Printf '' %s'' [AStr t]]) | None \<Rightarrow> return ());
    (case act of Some t \<Rightarrow> on_cond (t \<noteq> '''') (print [Printf '' %s'' [AStr t]]) | None \<Rightarrow> return ());
    print_line ''\<newline>\<newline>''; print_usage; return x })"
  by (intro mute_rules help_mute)

lemma dispatch_cases:
  obtains c s a m where "(c, s, a, m) \<in> set (nvmeadm_commands fuel E A)" "token_matches same (Some c) command"
    "dispatch_command same fuel E A command sub act = m"
  | "mute (dispatch_command same fuel E A command sub act)"
proof (cases "find (\<lambda>(c, s, a, m). token_matches same (Some c) command \<and> token_matches same s sub \<and> token_matches same a act)
    (nvmeadm_commands fuel E A)")
  case (Some r)
  obtain c s a m where r: "r = (c, s, a, m)" by (cases r)
  have "dispatch_command same fuel E A command sub act = m" unfolding dispatch_command_def Some r by simp
  moreover have "(c, s, a, m) \<in> set (nvmeadm_commands fuel E A)" "token_matches same (Some c) command"
    using Some r by (auto simp: find_Some_iff in_set_conv_nth)
  ultimately show thesis using that(1) by blast
next
  case None
  then have "mute (dispatch_command same fuel E A command sub act)"
    unfolding dispatch_command_def None by (auto simp: unknown_mute intro!: mute_rules(1,2) help_mute split: option.split)
  then show thesis by (rule that(2))
qed

text \<open>
  C36.  Whatever the command line, the system and the drive answer, the program gives back every buffer, port, request,
  open unit and file it took, on every way out; every command it adds goes to the unit selected; and one that
  formats, sanitizes, downloads or commits firmware is added only with CONFIRM given and for the words
  that name such an operation.  With a command line that does not parse it adds none.
\<close>

theorem dispatch_guarded:
  assumes "run_state (nvmeadm_main same fuel E rda) s = (rc, s')"
  shows "holds s' = holds s \<and> (\<exists>cs. a_sent s' = a_sent s @ cs \<and> (\<forall>(u, c, d) \<in> set cs. \<exists>v. rda = Some v \<and> u = number_or_zero (av_unit v) \<and>
    (destructive c \<longrightarrow> av_confirm v \<and> (\<exists>name \<in> set dangerous. token_matches same (Some name) (av_command v)))))"
proof (cases rda)
  case None
  then show ?thesis using assms by (simp add: nvmeadm_main_def)
next
  case (Some v)
  let ?A = "parse_args v"
  let ?m = "dispatch_command same fuel E ?A (av_command v) (av_subcommand v) (av_action v)"
  have m: "run_state ?m s = (rc, s')" using assms Some by (simp add: nvmeadm_main_def)
  show ?thesis
  proof (rule dispatch_cases [of fuel E ?A same "av_command v" "av_subcommand v" "av_action v"], goal_cases)
    case (1 c b a m')
    then have "tidy ?m" "sends (guarded ?A c) ?m"
      using table_tidy [of fuel E ?A] table_guarded [of ?A fuel E] by (auto simp: list_all_iff)
    then obtain cs where "holds s' = holds s" "a_sent s' = a_sent s @ cs" "list_all (guarded ?A c) cs"
      using m unfolding tidy_def sends_def by (metis snd_conv)
    then show ?case using Some 1(2) by (auto simp: list_all_iff guarded_def parse_args_def)
  next
    case 2
    then have "holds s' = holds s" "a_sent s' = a_sent s" using m unfolding mute_def by (metis snd_conv)+
    then show ?case by simp
  qed
qed

definition bare_args :: arg_vals where
  "bare_args = \<lparr>av_command = None, av_subcommand = None, av_action = None, av_unit = None, av_slot = None, av_lbaf = None, av_ses = None,
     av_file = None, av_ause = False, av_owpass = None, av_oipbp = False, av_nodas = False, av_confirm = False\<rparr>"

theorem dispatch_guarded_witness:
  "holds (snd (run_state (nvmeadm_main (=) 1 format_env (Some (bare_args\<lparr>av_command := Some ''smart'', av_confirm := True\<rparr>))) start_state)) =
     holds start_state \<and>
   list_all (\<lambda>(u, c, d). u = 0 \<and> \<not> destructive c) (a_sent (snd (run_state (nvmeadm_main (=) 1 format_env
      (Some (bare_args\<lparr>av_command := Some ''smart'', av_confirm := True\<rparr>))) start_state)))"
proof -
  let ?m = "nvmeadm_main (=) 1 format_env (Some (bare_args\<lparr>av_command := Some ''smart'', av_confirm := True\<rparr>))"
  obtain rc s' where r: "run_state ?m start_state = (rc, s')" by (cases "run_state ?m start_state")
  have "a_sent start_state = []" by (simp add: start_state_def)
  then show ?thesis using dispatch_guarded [OF r] r
    by (auto simp: list_all_iff bare_args_def dangerous_def token_matches_def number_or_zero_def)
qed

section \<open>The namespace list\<close>

text \<open>
  What the Active Namespace ID list is: the page asked for from \<open>start\<close> holds, in order, the first 1024 active namespace
  identifiers above it, then zeros.
\<close>

definition lists :: "adm_env \<Rightarrow> u32 \<Rightarrow> u32 list \<Rightarrow> bool" where
  "lists E u active \<longleftrightarrow> (\<forall>i b start k. k < 1024 \<longrightarrow>
     rd32 (pr_data (ae_pass E i u (nvmeadm_build_identify start 2 b 4096))) (4 * k) =
       (let page = filter (\<lambda>n. start < n) active in if k < length page then page ! k else 0))"

definition ns_identified :: "(u32 \<times> NVMePassthruCmd \<times> u8 list) list \<Rightarrow> u32 list" where
  "ns_identified l = map pt_Nsid (filter (\<lambda>c. pt_Opcode c = 0x06 \<and> pt_Cdw10 c = 0) (map (\<lambda>(u, c, d). c) l))"

lemma ns_identified_simps [simp]: "ns_identified [] = []" "ns_identified (l @ l') = ns_identified l @ ns_identified l'"
  "ns_identified [(u, nvmeadm_build_identify n cns b k, d)] = (if cns = 0 then [n] else [])"
  by (simp_all add: ns_identified_def nvmeadm_build_identify_def)

lemma filter_above:
  "sorted_wrt (<) xs \<Longrightarrow> k < length xs \<Longrightarrow> filter (\<lambda>n. xs ! k < n) xs = drop (Suc k) (xs :: 'a::linorder list)"
proof (induction xs arbitrary: k)
  case (Cons x xs)
  show ?case
  proof (cases k)
    case 0
    then show ?thesis using Cons(2) by (simp add: filter_id_conv)
  next
    case (Suc j)
    then have "x < xs ! j" using Cons(2,3) by simp
    then have "\<not> xs ! j < x" by simp
    then show ?thesis using Cons Suc by simp
  qed
qed simp

lemma filter_above_again: "start < y \<Longrightarrow> filter (\<lambda>n. y < n) (filter (\<lambda>n. start < n) xs) = filter (\<lambda>n. y < n) (xs :: 'a::linorder list)"
  by (simp add: filter_filter) (metis less_trans)

lemma takeWhile_upt: "m \<le> n \<Longrightarrow> (\<And>i. i < n \<Longrightarrow> P i \<longleftrightarrow> i < m) \<Longrightarrow> length (takeWhile P [0..<n]) = m"
proof -
  assume a: "m \<le> n" "\<And>i. i < n \<Longrightarrow> P i \<longleftrightarrow> i < m"
  have "[0..<n] = [0..<m] @ [m..<n]" using a(1) by (metis le0 upt_add_eq_append le_add_diff_inverse)
  moreover have "takeWhile P [m..<n] = []" using a by (cases "m = n") (auto simp: upt_conv_Cons)
  moreover have "takeWhile P ([0..<m] @ [m..<n]) = [0..<m] @ takeWhile P [m..<n]" using a by (intro takeWhile_append2) auto
  ultimately show ?thesis by simp
qed

lemma page_count:
  assumes "\<And>k. k < 1024 \<Longrightarrow> rd32 d (4 * k) = (if k < length page then page ! k else 0)" "0 \<notin> set page"
  shows "list_count d = min 1024 (length page)" "map (\<lambda>i. rd32 d (4 * i)) [0..<list_count d] = take 1024 page"
proof -
  show c: "list_count d = min 1024 (length page)"
    unfolding list_count_def
  proof (rule takeWhile_upt)
    fix i :: nat
    assume "i < 1024"
    moreover have "page ! i \<noteq> 0" if "i < length page" using assms(2) that nth_mem by fastforce
    ultimately show "rd32 d (4 * i) \<noteq> 0 \<longleftrightarrow> i < min 1024 (length page)" using assms(1) by simp
  qed simp
  show "map (\<lambda>i. rd32 d (4 * i)) [0..<list_count d] = take 1024 page"
    by (rule nth_equalityI) (auto simp: c assms(1))
qed

lemma fetch_run:
  "\<exists>s1. run_state (nvmeadm_fetch_identify E se op n cns b k) s =
      ((if pr_status (ae_pass E (a_calls s) (se_unit se) (nvmeadm_build_identify n cns b (of_nat k))) = 0
        then Some (pr_data (ae_pass E (a_calls s) (se_unit se) (nvmeadm_build_identify n cns b (of_nat k)))) else None), s1) \<and>
    ns_identified (a_sent s1) = ns_identified (a_sent s) @ (if cns = 0 then [n] else [])"
  by (simp add: nvmeadm_fetch_identify_def fetch_def nvmeadm_admin_passthru_def call_def print_admin_failure_def print_def)

lemma entries_identify:
  assumes "run_state (entries_loop E se b d is) s = (ok, s')"
  shows "(ok \<longrightarrow> ns_identified (a_sent s') = ns_identified (a_sent s) @ map (\<lambda>i. rd32 d (4 * i)) is) \<and> (all_well E \<longrightarrow> ok)"
  using assms
proof (induction "is" arbitrary: s)
  case (Cons i js)
  let ?s = "s\<lparr>a_calls := a_calls s + 1\<rparr>" and ?n = "rd32 d (4 * i)"
  have b: "run_state (nvmeadm_check_break E) s = (ae_break E (a_calls s), ?s)" by (simp add: nvmeadm_check_break_def call_def)
  show ?case
  proof (cases "ae_break E (a_calls s)")
    case True
    then show ?thesis using Cons(2) b by (auto simp: all_well_def)
  next
    case False
    obtain r s1 where f: "run_state (nvmeadm_fetch_identify E se ''Identify Namespace'' ?n 0 b 4096) ?s = (r, s1)"
      "ns_identified (a_sent s1) = ns_identified (a_sent s) @ [?n]"
      using fetch_run [of E se "''Identify Namespace''" ?n 0 b 4096 ?s] by auto
    let ?p = "case r of Some ns \<Rightarrow> print_nsid_list_entry ?n ns | None \<Rightarrow> print [Printf ''NSID %lu: Identify Namespace failed, skipped\<newline>'' [ANum ?n]]"
    obtain s2 where p: "run_state ?p s1 = ((), s2)" by (cases "run_state ?p s1") auto
    have "mute ?p" by (intro mute_rules identify_mute)
    then have "a_sent s2 = a_sent s1" using p by (metis mute_def snd_conv)
    moreover have "run_state (entries_loop E se b d (i # js)) s = run_state (entries_loop E se b d js) s2"
      using b False f(1) p by (simp add: Let_def)
    ultimately show ?thesis using Cons(1) [of s2] Cons(2) f(2) by auto
  qed
qed simp

lemma pages_identify:
  assumes "lists E (se_unit se) active" "sorted_wrt (<) active" "set active \<subseteq> {1..0xFFFFFFFE}"
    and "length (filter (\<lambda>n. start < n) active) < 1024 * fuel"
    and "run_state (pages_loop fuel E se l b start any) s = (rc, s')"
  shows "(\<exists>r. rc = Some r \<and>
      (r = RETURN_OK \<longrightarrow> ns_identified (a_sent s') = ns_identified (a_sent s) @ filter (\<lambda>n. start < n) active)) \<and>
    (all_well E \<longrightarrow> rc = Some RETURN_OK)"
  using assms(4,5)
proof (induction fuel arbitrary: start any s)
  case (Suc fuel)
  let ?cmd = "nvmeadm_build_identify start 2 l 4096" and ?page = "filter (\<lambda>n. start < n) active"
  let ?r = "ae_pass E (a_calls s) (se_unit se) ?cmd"
  obtain s1 where f: "run_state (nvmeadm_fetch_identify E se ''Identify Active Namespace List'' start 2 l 4096) s =
      ((if pr_status ?r = 0 then Some (pr_data ?r) else None), s1)" "ns_identified (a_sent s1) = ns_identified (a_sent s)"
    using fetch_run [of E se "''Identify Active Namespace List''" start 2 l 4096 s] by auto
  show ?case
  proof (cases "pr_status ?r = 0")
    case False
    then show ?thesis using Suc(3) f(1) by (auto simp: all_well_def)
  next
    case True
    let ?d = "pr_data ?r"
    have d: "rd32 ?d (4 * k) = (if k < length ?page then ?page ! k else 0)" if "k < 1024" for k
      using assms(1) that by (simp add: lists_def Let_def)
    have z: "0 \<notin> set ?page" by simp
    note count = page_count [of ?d ?page, OF d z]
    have sp: "sorted_wrt (<) ?page" using assms(2) by (rule sorted_wrt_filter)
    obtain ok s2 where e: "run_state (entries_loop E se b ?d [0..<list_count ?d]) s1 = (ok, s2)"
      by (cases "run_state (entries_loop E se b ?d [0..<list_count ?d]) s1")
    have i: "ok \<longrightarrow> ns_identified (a_sent s2) = ns_identified (a_sent s) @ take 1024 ?page" "all_well E \<longrightarrow> ok"
      using entries_identify [OF e] count(2) f(2) by simp_all
    let ?next = "rd32 ?d (4 * 1023)" and ?any = "any \<or> 0 < list_count ?d"
    have run: "run_state (pages_loop (Suc fuel) E se l b start any) s = (if \<not> ok then (Some RETURN_FAIL, s2)
        else if list_count ?d < 1024 \<or> 0xFFFFFFFE \<le> ?next
        then run_state (do { on_cond (\<not> ?any) (print_line ''No active namespaces reported.\<newline>''); return (Some RETURN_OK) }) s2
        else run_state (pages_loop fuel E se l b ?next ?any) s2)"
      using f(1) True e by (simp add: Let_def)
    consider (broken) "\<not> ok" | (last) "ok" "list_count ?d < 1024 \<or> 0xFFFFFFFE \<le> ?next" | (more) "ok" "\<not> list_count ?d < 1024" "\<not> 0xFFFFFFFE \<le> ?next"
      by blast
    then show ?thesis
    proof cases
      case broken
      then show ?thesis using run Suc(3) i by auto
    next
      case last
      have "length ?page \<le> 1024"
      proof (rule ccontr)
        assume n: "\<not> length ?page \<le> 1024"
        then have "?page ! 1023 < ?page ! 1024" using sorted_wrt_nth_less [OF sp, of 1023 1024] by simp
        moreover have "?page ! 1024 \<in> set ?page" using n by (intro nth_mem) simp
        then have "?page ! 1024 \<le> 0xFFFFFFFE" using assms(3) by auto
        moreover have "?next = ?page ! 1023" using d [of 1023] n by simp
        ultimately show False using last(2) n count(1) by auto
      qed
      moreover have "rc = Some RETURN_OK" "a_sent s' = a_sent s2" using run Suc(3) last by (auto simp: print_line_def print_run)
      ultimately show ?thesis using i last(1) by simp
    next
      case more
      then have n: "1024 \<le> length ?page" using count(1) by simp
      then have x: "?next = ?page ! 1023" using d [of 1023] by simp
      have "?page ! 1023 \<in> set ?page" using n by (intro nth_mem) simp
      then have "start < ?next" using x by simp
      then have r: "filter (\<lambda>n. ?next < n) active = drop 1024 ?page"
        using filter_above [OF sp, of 1023] filter_above_again [of start ?next active] n x by simp
      then have "length (filter (\<lambda>n. ?next < n) active) < 1024 * fuel" using Suc(2) n by simp
      moreover have "run_state (pages_loop fuel E se l b ?next ?any) s2 = (rc, s')" using run Suc(3) more by simp
      ultimately show ?thesis using Suc(1) i more(1) r append_take_drop_id [of 1024 ?page] by (metis append_assoc)
    qed
  qed
qed simp

lemma post_open:
  assumes "\<And>l. P x l l" "\<And>se. se_unit se = u \<Longrightarrow> post P (body se)"
  shows "post P (with_session E u x body)"
  unfolding post_def
proof
  fix s
  obtain r s1 where o: "run_state (nvmeadm_open_unit E u) s = (r, s1)" by (cases "run_state (nvmeadm_open_unit E u) s")
  then have k: "a_sent s1 = a_sent s" by (rule silent_keeps [OF silent_system(3)])
  show "P (fst (run_state (with_session E u x body) s)) (a_sent s) (a_sent (snd (run_state (with_session E u x body) s)))"
  proof (cases r)
    case None
    then show ?thesis using o k assms(1) by (simp add: with_session_def)
  next
    case (Some se)
    then have "se_unit se = u" using open_holds [OF o [unfolded nvmeadm_open_unit_def]] by simp
    then have "post P (do { rc \<leftarrow> body se; nvmeadm_close se; return rc })" by (intro post_then assms(2) silent_system)
    then have "P (fst (run_state (do { rc \<leftarrow> body se; nvmeadm_close se; return rc }) s1)) (a_sent s1)
        (a_sent (snd (run_state (do { rc \<leftarrow> body se; nvmeadm_close se; return rc }) s1)))" unfolding post_def by blast
    moreover have "run_state (with_session E u x body) s = run_state (do { rc \<leftarrow> body se; nvmeadm_close se; return rc }) s1"
      using o Some by (simp add: with_session_def)
    ultimately show ?thesis using k by simp
  qed
qed

text \<open>
  C39.  The namespace list is complete and ends.  On a controller that answers the Active Namespace ID list as the
  NVMe specification defines it, the loop over its pages ends after one page for each 1024 active namespaces
  and one more at most; when the result is OK, an Identify Namespace was sent for every active namespace, in ascending
  order, each once, no matter which of them failed; and the result is OK when nothing fails.
\<close>

theorem list_ns_complete:
  assumes "lists E (cl_unit A) active" "sorted_wrt (<) active" "set active \<subseteq> {1..0xFFFFFFFE}" "length active < 1024 * fuel"
    and "run_state (run_list_ns fuel E A) s = (rc, s')"
  shows "(\<exists>r. rc = Some r \<and> (r = RETURN_OK \<longrightarrow> ns_identified (a_sent s') = ns_identified (a_sent s) @ active)) \<and>
    (all_well E \<longrightarrow> rc = Some RETURN_OK)"
proof -
  have "0 < n" if "n \<in> set active" for n using assms(3) that by (auto simp: word_gt_0)
  then have all: "filter (\<lambda>n. 0 < n) active = active" by (simp add: filter_id_conv)
  define P where "P rc l l' \<longleftrightarrow> (\<exists>r. rc = Some r \<and> (r = RETURN_OK \<longrightarrow> ns_identified l' = ns_identified l @ active))" for rc l l'
  have fail: "P (Some RETURN_FAIL) l l" for l by (simp add: P_def)
  have run: "P (fst (run_state (pages_loop fuel E se l b 0 False) s)) (a_sent s) (a_sent (snd (run_state (pages_loop fuel E se l b 0 False) s))) \<and>
      (all_well E \<longrightarrow> fst (run_state (pages_loop fuel E se l b 0 False) s) = Some RETURN_OK)" if "se_unit se = cl_unit A" for se l b s
  proof (cases "run_state (pages_loop fuel E se l b 0 False) s")
    case (Pair x t)
    have l: "lists E (se_unit se) active" unfolding that by (rule assms(1))
    have n: "length (filter (\<lambda>n. 0 < n) active) < 1024 * fuel" unfolding all by (rule assms(4))
    show ?thesis unfolding P_def Pair fst_conv snd_conv by (rule pages_identify [OF l assms(2,3) n Pair, unfolded all])
  qed
  have pages: "post P (pages_loop fuel E se l b 0 False)" "all_well E \<Longrightarrow> pred_state (\<lambda>rc. rc = Some RETURN_OK) (pages_loop fuel E se l b 0 False)"
    if "se_unit se = cl_unit A" for se l b
    using run [OF that] by (simp_all add: post_def pred_state_iff)
  have "post P (run_list_ns fuel E A)"
    unfolding run_list_ns_def
    by (intro post_with(1) [where P = P] post_open [where P = P] fail post_silent [where P = P] sends_rules pages)
  then have "P rc (a_sent s) (a_sent s')" using assms(5) by (rule post_run)
  moreover have "rc = Some RETURN_OK" if w: "all_well E"
  proof -
    have "pred_state (\<lambda>rc. rc = Some RETURN_OK) (do { print_line t; pages_loop fuel E se l b 0 False })" if "se_unit se = cl_unit A" for se l b t
      using pages(2) [OF that w] by (simp add: pred_state_iff split: prod.split)
    then have "pred_state (\<lambda>rc. rc = Some RETURN_OK) (run_list_ns fuel E A)"
      unfolding run_list_ns_def by (intro buffer_well session_well w)
    then have "fst (run_state (run_list_ns fuel E A) s) = Some RETURN_OK" unfolding pred_state_iff by (rule spec)
    then show ?thesis unfolding assms(5) by simp
  qed
  ultimately show ?thesis by (simp add: P_def)
qed

text \<open>A drive with the namespaces 1 and 3.\<close>

definition page_of :: "u32 list \<Rightarrow> id_buf" where
  "page_of page = (\<lambda>i. if i mod 4 = 0 \<and> i div 4 < length page then ucast (page ! (i div 4)) else 0)"

definition list_env :: adm_env where
  "list_env = (well_env [])\<lparr>ae_pass := (\<lambda>_ _ c. \<lparr>pr_status = 0, pr_result = 0, pr_actual = 0,
     pr_data = page_of (filter (\<lambda>n. pt_Nsid c < n) [1, 3])\<rparr>)\<rparr>"

lemma page_of_entry:
  assumes "\<forall>n \<in> set page. unat n < 256"
  shows "rd32 (page_of page) (4 * k) = (if k < length page then page ! k else 0)"
proof -
  have "get_bytes (page_of page) (4 * k) 4 = [if k < length page then ucast (page ! k) else 0, 0, 0, 0]"
    by (simp add: get_bytes_def page_of_def upt_rec)
  moreover have "ucast (ucast (page ! k) :: u8) = page ! k" if "k < length page"
    using assms that by (simp add: word_unat_eq_iff unat_ucast_mod)
  ultimately show ?thesis by (simp add: rd32_def read_le32_def)
qed

theorem list_ns_complete_witness:
  "\<exists>s'. run_state (run_list_ns 1 list_env zero_args) start_state = (Some RETURN_OK, s') \<and> ns_identified (a_sent s') = [1, 3]"
proof -
  obtain rc s' where r: "run_state (run_list_ns 1 list_env zero_args) start_state = (rc, s')"
    by (cases "run_state (run_list_ns 1 list_env zero_args) start_state")
  have "rd32 (page_of (filter (\<lambda>n. start < n) [1, 3])) (4 * k) =
      (if k < length (filter (\<lambda>n. start < n) [1, 3]) then filter (\<lambda>n. start < n) [1, 3] ! k else 0)" for start k
    by (rule page_of_entry) simp
  moreover have "pr_data (ae_pass list_env i u (nvmeadm_build_identify start 2 b 4096)) = page_of (filter (\<lambda>n. start < n) [1, 3])" for i u start b
    by (simp add: list_env_def nvmeadm_build_identify_def)
  ultimately have l: "lists list_env (cl_unit zero_args) [1, 3]" unfolding lists_def Let_def by simp
  have w: "all_well list_env" by (simp add: all_well_def list_env_def well_env_def)
  have o: "sorted_wrt (<) [1, 3 :: u32]" "set [1, 3 :: u32] \<subseteq> {1..0xFFFFFFFE}" "length [1, 3 :: u32] < 1024 * 1" by simp_all
  have z: "ns_identified (a_sent start_state) = []" by (simp add: start_state_def)
  from list_ns_complete [OF l o r] w have "rc = Some RETURN_OK" "ns_identified (a_sent s') = ns_identified (a_sent start_state) @ [1, 3]" by auto
  then show ?thesis using r z by simp
qed

text \<open>The listing of units ends, one turn after the units below one that does not open.\<close>

lemma units_end:
  assumes "\<And>i. ae_open E i (u + of_nat n) \<noteq> 0"
  shows "\<exists>b. fst (run_state (units_loop (Suc n) E u any) s) = Some b"
  using assms
proof (induction n arbitrary: u any s)
  case 0
  let ?s = "s\<lparr>a_calls := a_calls s + 1\<rparr>"
  have "fst (run_state (nvmeadm_open_unit_quiet E u) ?s) = None"
    using 0 by (simp add: nvmeadm_open_unit_quiet_def nvmeadm_open_unit_internal_def CreateMsgPort_def CreateIORequest_def OpenDevice_def
      nvmeadm_close_def call_def on_cond_def Let_def)
  then obtain s1 where "run_state (nvmeadm_open_unit_quiet E u) ?s = (None, s1)" by (cases "run_state (nvmeadm_open_unit_quiet E u) ?s") simp
  then show ?case by (cases "ae_break E (a_calls s)") (simp_all add: nvmeadm_check_break_def call_def)
next
  case (Suc n)
  show ?case
  proof (cases "ae_break E (a_calls s)")
    case True
    then show ?thesis by (simp add: nvmeadm_check_break_def call_def)
  next
    case False
    let ?s = "s\<lparr>a_calls := a_calls s + 1\<rparr>"
    obtain r s1 where o: "run_state (nvmeadm_open_unit_quiet E u) ?s = (r, s1)" by (cases "run_state (nvmeadm_open_unit_quiet E u) ?s")
    show ?thesis
    proof (cases r)
      case None
      then show ?thesis using False o by (simp add: nvmeadm_check_break_def call_def)
    next
      case (Some se)
      obtain s2 where "run_state (units_loop (Suc (Suc n)) E u any) s = run_state (units_loop (Suc n) E (u + 1) True) s2"
        using units_step [OF False o [unfolded Some]] by metis
      moreover have "ae_open E i (u + 1 + of_nat n) \<noteq> 0" for i using Suc(2) [of i] by (simp add: ac_simps)
      ultimately show ?thesis using Suc(1) by simp
    qed
  qed
qed

lemma run_units_ends: "(\<And>i. ae_open E i (of_nat n) \<noteq> 0) \<Longrightarrow> \<exists>rc. fst (run_state (run_units (Suc n) E) s) = Some rc"
proof -
  assume "\<And>i. ae_open E i (of_nat n) \<noteq> 0"
  then obtain b where "fst (run_state (units_loop (Suc n) E 0 False) s) = Some b" using units_end [of E 0 n False s] by (simp del: units_loop.simps) blast
  then show ?thesis unfolding run_units_def by (cases "run_state (units_loop (Suc n) E 0 False) s") (simp add: print_line_def print_run del: units_loop.simps)
qed

text \<open>Every command of the dispatch table has one line in the help, and every line a command.\<close>

lemma docs_cover: "remdups (map fst (nvmeadm_commands fuel E A)) = map fst nvmeadm_docs"
  by (simp add: nvmeadm_commands_def nvmeadm_docs_def)

end
