(* ===== verification/Adm_Info.thy ===== *)
theory Adm_Info
  imports Adm_Format Nvme_Reset
begin

text \<open>
  The nvmeinfo program, src/tools/nvmeinfo.c: it reads the registers of every NVMe function on the PCI
  bus and prints their fields.  A function of the program is the list of what it prints.  The devices that \<open>pci_find_class\<close>
  returns, one after the other, and the registers behind each base address (\<open>mmio\<close>) are arguments.
\<close>

definition yes_no :: "string \<Rightarrow> string \<Rightarrow> u32 \<Rightarrow> parg" where
  "yes_no y n b = AStr (if b \<noteq> 0 then y else n)"

definition out_if :: "bool \<Rightarrow> string \<Rightarrow> out list" where
  "out_if b t = (if b then [Printf t []] else [])"

definition decode_cap :: "u32 \<Rightarrow> u32 \<Rightarrow> out list" where
  "decode_cap lo hi =
    (let mqes = (lo AND 0xFFFF) + 1; cqr = drop_bit 16 lo AND 1; ams = drop_bit 17 lo AND 3; to = drop_bit 24 lo AND 0xFF;
         dstrd = hi AND 0xF; nssrs = drop_bit 4 hi AND 1; css = drop_bit 5 hi AND 0xFF; bps = drop_bit 13 hi AND 1;
         cps = drop_bit 14 hi AND 3; mpsmin = drop_bit 16 hi AND 0xF; mpsmax = drop_bit 20 hi AND 0xF;
         pmrs = drop_bit 24 hi AND 1; cmbs = drop_bit 25 hi AND 1; nsss = drop_bit 26 hi AND 1;
         cps_str = [''not reported'', ''controller'', ''domain'', ''NVM subsystem'']
     in [Printf ''  CAP   = 0x%08lx_%08lx\<newline>'' [ANum hi, ANum lo],
         Printf ''    Max Queue Entries:    %lu\<newline>'' [ANum mqes],
         Printf ''    Contiguous Queues:    %s\<newline>'' [yes_no ''required'' ''not required'' cqr],
         Printf ''    Arbitration (AMS):    Round Robin'' []] @
        out_if (ams AND 1 \<noteq> 0) '', WRR+urgent'' @ out_if (ams AND 2 \<noteq> 0) '', vendor-specific'' @
        [Printf ''\<newline>'' [],
         Printf ''    Timeout (TO):         %lu ms max\<newline>'' [ANum (to * 500)],
         Printf ''    Doorbell Stride:      %lu bytes\<newline>'' [ANum (push_bit (unat dstrd) 4)],
         Printf ''    Subsys Reset (NSSRS): %s\<newline>'' [yes_no ''yes'' ''no'' nssrs],
         Printf ''    Command Sets (CSS):\<newline>'' []] @
        out_if (css = 0) ''      (none reported)\<newline>'' @ out_if (css AND 0x01 \<noteq> 0) ''      NVM Command Set\<newline>'' @
        out_if (css AND 0x40 \<noteq> 0) ''      I/O Command Sets (KV/ZNS)\<newline>'' @ out_if (css AND 0x80 \<noteq> 0) ''      Admin-only (no I/O)\<newline>'' @
        [Printf ''    Boot Partitions:      %s\<newline>'' [yes_no ''yes'' ''no'' bps],
         Printf ''    Power Scope (CPS):    %s\<newline>'' [AStr (cps_str ! unat cps)],
         Printf ''    Min Page Size:        %lu bytes (2^%lu)\<newline>'' [ANum (push_bit (unat mpsmin) 4096), ANum (12 + mpsmin)],
         Printf ''    Max Page Size:        %lu bytes (2^%lu)\<newline>'' [ANum (push_bit (unat mpsmax) 4096), ANum (12 + mpsmax)],
         Printf ''    Persistent Mem (PMRS):%s\<newline>'' [yes_no '' yes'' '' no'' pmrs],
         Printf ''    Ctrl Mem Buf  (CMBS): %s\<newline>'' [yes_no ''yes'' ''no'' cmbs],
         Printf ''    Subsys Shutdown:      %s\<newline>'' [yes_no ''yes'' ''no'' nsss]])"

definition decode_vs :: "u32 \<Rightarrow> out list" where
  "decode_vs vs =
    (let mjr = drop_bit 16 vs AND 0xFFFF; mnr = drop_bit 8 vs AND 0xFF; ter = vs AND 0xFF in
     if ter \<noteq> 0 then [Printf ''  VS    = 0x%08lx  ->  NVMe %lu.%lu.%lu\<newline>'' [ANum vs, ANum mjr, ANum mnr, ANum ter]]
     else [Printf ''  VS    = 0x%08lx  ->  NVMe %lu.%lu\<newline>'' [ANum vs, ANum mjr, ANum mnr]])"

definition decode_cc :: "u32 \<Rightarrow> out list" where
  "decode_cc cc =
    (let css_str = [''NVM Command Set'', ''?'', ''?'', ''?'', ''?'', ''?'', ''I/O Command Sets'', ''Admin-only''];
         ams_str = [''Round Robin'', ''WRR+urgent'', ''?'', ''?'', ''?'', ''?'', ''?'', ''vendor''];
         shn_str = [''none'', ''normal shutdown'', ''abrupt shutdown'', ''?''];
         en = cc AND 1; css = drop_bit 4 cc AND 7; mps = drop_bit 7 cc AND 0xF; ams = drop_bit 11 cc AND 7;
         shn = drop_bit 14 cc AND 3; iosqes = drop_bit 16 cc AND 0xF; iocqes = drop_bit 20 cc AND 0xF
     in [Printf ''  CC    = 0x%08lx\<newline>'' [ANum cc],
         Printf ''    Enable (EN):          %s\<newline>'' [yes_no ''yes'' ''no'' en],
         Printf ''    I/O Command Set:      %s\<newline>'' [AStr (css_str ! unat css)],
         Printf ''    Memory Page Size:     %lu bytes\<newline>'' [ANum (push_bit (unat mps) 4096)],
         Printf ''    Arbitration (AMS):    %s\<newline>'' [AStr (ams_str ! unat ams)],
         Printf ''    Shutdown (SHN):       %s\<newline>'' [AStr (shn_str ! unat shn)],
         Printf ''    SQ Entry Size:        %lu bytes\<newline>'' [ANum (push_bit (unat iosqes) 1)],
         Printf ''    CQ Entry Size:        %lu bytes\<newline>'' [ANum (push_bit (unat iocqes) 1)]])"

definition decode_csts :: "u32 \<Rightarrow> out list" where
  "decode_csts csts =
    (let shst_str = [''normal operation'', ''shutdown in progress'', ''shutdown complete'', ''?''];
         rdy = csts AND 1; cfs = drop_bit 1 csts AND 1; shst = drop_bit 2 csts AND 3; nssro = drop_bit 4 csts AND 1; pp = drop_bit 5 csts AND 1
     in [Printf ''  CSTS  = 0x%08lx\<newline>'' [ANum csts],
         Printf ''    Ready (RDY):          %s\<newline>'' [yes_no ''yes'' ''no'' rdy],
         Printf ''    Fatal Status (CFS):   %s\<newline>'' [yes_no ''*** CONTROLLER FATAL ERROR ***'' ''no'' cfs],
         Printf ''    Shutdown (SHST):      %s\<newline>'' [AStr (shst_str ! unat shst)],
         Printf ''    Subsys Reset Occurred:%s\<newline>'' [yes_no '' yes'' '' no'' nssro],
         Printf ''    Processing Paused:    %s\<newline>'' [yes_no ''yes'' ''no'' pp]])"

definition decode_aqa :: "u32 \<Rightarrow> out list" where
  "decode_aqa aqa =
    (let asqs = (aqa AND 0xFFF) + 1; acqs = (drop_bit 16 aqa AND 0xFFF) + 1
     in [Printf ''  AQA   = 0x%08lx\<newline>'' [ANum aqa],
         Printf ''    Admin SQ size:        %lu entries\<newline>'' [ANum asqs],
         Printf ''    Admin CQ size:        %lu entries\<newline>'' [ANum acqs]])"

definition feature_summary :: "u32 \<Rightarrow> u32 \<Rightarrow> u32 \<Rightarrow> u32 \<Rightarrow> out list" where
  "feature_summary cap_lo cap_hi cc csts =
    (let css_cap = drop_bit 5 cap_hi AND 0xFF; ams_cap = drop_bit 17 cap_lo AND 3; en = cc AND 1; rdy = csts AND 1; cfs = drop_bit 1 csts AND 1;
         sup = (\<lambda>n. yes_no ''supported'' ''not supported'' (drop_bit n cap_hi AND 1))
     in [Printf ''\<newline>--- Feature Summary ---\<newline>'' [],
         (if cfs \<noteq> 0 then Printf ''  State:                %s [*** FATAL ERROR ***]\<newline>'' [yes_no ''enabled'' ''disabled'' en]
          else Printf ''  State:                %s\<newline>''
            [AStr (if en \<noteq> 0 then (if rdy \<noteq> 0 then ''enabled, ready'' else ''enabled, NOT ready'') else ''disabled'')]),
         Printf ''  Command sets:        '' []] @
        out_if (css_cap AND 0x01 \<noteq> 0) '' NVM'' @ out_if (css_cap AND 0x40 \<noteq> 0) '' KV/ZNS'' @ out_if (css_cap AND 0x80 \<noteq> 0) '' admin-only'' @
        out_if (css_cap AND 0xC1 = 0) '' (none reported)'' @
        [Printf ''\<newline>'' [], Printf ''  Arbitration:          Round Robin'' []] @
        out_if (ams_cap AND 1 \<noteq> 0) '', WRR+urgent'' @ out_if (ams_cap AND 2 \<noteq> 0) '', vendor'' @
        [Printf ''\<newline>'' [],
         Printf ''  NVM Subsystem Reset:  %s\<newline>'' [sup 4],
         Printf ''  Boot Partitions:      %s\<newline>'' [sup 13],
         Printf ''  Persistent Mem Rgn:   %s\<newline>'' [sup 24],
         Printf ''  Controller Mem Buf:   %s\<newline>'' [sup 25],
         Printf ''  Subsystem Shutdown:   %s\<newline>'' [sup 26]])"

definition dump_nvme_regs :: "(u32 \<Rightarrow> u32) \<Rightarrow> out list" where
  "dump_nvme_regs mmio =
    (let cap_lo = mmio 0x00; cap_hi = mmio 0x04; vs = mmio 0x08; intms = mmio 0x0C; intmc = mmio 0x10; cc = mmio 0x14; csts = mmio 0x1C;
         aqa = mmio 0x24; asq_lo = mmio 0x28; asq_hi = mmio 0x2C; acq_lo = mmio 0x30; acq_hi = mmio 0x34
     in decode_cap cap_lo cap_hi @ decode_vs vs @ decode_cc cc @ decode_csts csts @ decode_aqa aqa @
        [Printf ''  INTMS = 0x%08lx  INTMC = 0x%08lx\<newline>'' [ANum intms, ANum intmc],
         Printf ''  ASQ   = 0x%08lx_%08lx\<newline>'' [ANum asq_hi, ANum asq_lo],
         Printf ''  ACQ   = 0x%08lx_%08lx\<newline>'' [ANum acq_hi, ANum acq_lo]] @
        feature_summary cap_lo cap_hi cc csts)"

record pci_function =
  pf_vendor :: u16
  pf_device :: u16
  pf_base :: u32

fun nvmeinfo_loop :: "(u32 \<Rightarrow> u32 \<Rightarrow> u32) \<Rightarrow> u32 \<Rightarrow> pci_function list \<Rightarrow> out list" where
  "nvmeinfo_loop mmio found [] =
    (if found = 0 then [Printf ''No NVMe devices found (class 0x%06lx)\<newline>'' [ANum 0x010802]] else [])"
| "nvmeinfo_loop mmio found (pd # pds) =
    [Printf ''NVMe device #%ld\<newline>'' [ANum (found + 1)],
     Printf ''  Vendor:Device = %04lx:%04lx\<newline>'' [ANum (ucast (pf_vendor pd)), ANum (ucast (pf_device pd))],
     Printf ''  BAR0          = 0x%08lx\<newline>\<newline>'' [ANum (pf_base pd)]] @
    (if pf_base pd \<noteq> 0 then dump_nvme_regs (mmio (pf_base pd)) else [Printf ''  BAR0 not mapped\<newline>'' []]) @
    [Printf ''\<newline>'' []] @
    nvmeinfo_loop mmio (found + 1) pds"

definition nvmeinfo_main :: "bool \<Rightarrow> (u32 \<Rightarrow> u32 \<Rightarrow> u32) \<Rightarrow> pci_function list \<Rightarrow> out list \<times> u32" where
  "nvmeinfo_main library mmio pds =
    (if \<not> library then ([Printf ''Failed to open bcmpcie.library\<newline>'' []], 10) else (nvmeinfo_loop mmio 0 pds, 0))"

section \<open>Agreement with the driver\<close>

lemma cap_fields:
  fixes regs :: "u32 \<Rightarrow> u32"
  defines "cap \<equiv> nvme_reg_read64 regs 0"
  shows "NVME_CAP_MQES cap = regs 0 AND 0xFFFF" "NVME_CAP_TIMEOUT cap = drop_bit 24 (regs 0) AND 0xFF"
    "NVME_CAP_MPSMIN cap = drop_bit 16 (regs 4) AND 0xF" "NVME_CAP_CSS cap = drop_bit 5 (regs 4) AND 0xFF"
proof -
  have m: "(0xFFFF :: 'a::len word) = mask 16" "(0xFF :: 'a::len word) = mask 8" "(0xF :: 'a::len word) = mask 4"
    by (simp_all add: mask_eq_decr_exp)
  show "NVME_CAP_MQES cap = regs 0 AND 0xFFFF" "NVME_CAP_TIMEOUT cap = drop_bit 24 (regs 0) AND 0xFF"
    "NVME_CAP_MPSMIN cap = drop_bit 16 (regs 4) AND 0xF" "NVME_CAP_CSS cap = drop_bit 5 (regs 4) AND 0xFF"
    unfolding cap_def nvme_reg_read64_def NVME_CAP_MQES_def NVME_CAP_TIMEOUT_def NVME_CAP_MPSMIN_def NVME_CAP_CSS_def m
    by (rule bit_word_eqI; auto simp: bit_simps dest: bit_imp_le_length)+
qed

text \<open>
  What nvmeinfo shows is what the driver works with: the queue entries, the ready timeout and the
  minimum page size printed for a controller are those the driver computes from the 64-bit capability
  register, and the configuration the driver writes to enable a controller is shown as enabled, with pages of
  4096 bytes, round robin, 64-byte submission and 16-byte completion entries and no shutdown.
\<close>

theorem info_matches_driver:
  fixes regs :: "u32 \<Rightarrow> u32"
  defines "cap \<equiv> nvme_reg_read64 regs 0" and "cc \<equiv> enable_config (nvme_reg_read64 regs 0) OR NVME_CC_ENABLE"
  shows "{Printf ''    Max Queue Entries:    %lu\<newline>'' [ANum (NVME_CAP_MQES cap + 1)],
      Printf ''    Timeout (TO):         %lu ms max\<newline>'' [ANum (NVME_CAP_TIMEOUT cap * 500)],
      Printf ''    Min Page Size:        %lu bytes (2^%lu)\<newline>'' [ANum (push_bit (unat (NVME_CAP_MPSMIN cap)) 4096), ANum (12 + NVME_CAP_MPSMIN cap)]}
      \<subseteq> set (dump_nvme_regs regs) \<and>
    decode_cc cc = [Printf ''  CC    = 0x%08lx\<newline>'' [ANum cc],
      Printf ''    Enable (EN):          %s\<newline>'' [AStr ''yes''],
      Printf ''    I/O Command Set:      %s\<newline>'' [AStr (if NVME_CAP_CSS cap AND 0x40 \<noteq> 0 then ''I/O Command Sets'' else ''NVM Command Set'')],
      Printf ''    Memory Page Size:     %lu bytes\<newline>'' [ANum 4096],
      Printf ''    Arbitration (AMS):    %s\<newline>'' [AStr ''Round Robin''],
      Printf ''    Shutdown (SHN):       %s\<newline>'' [AStr ''none''],
      Printf ''    SQ Entry Size:        %lu bytes\<newline>'' [ANum 64],
      Printf ''    CQ Entry Size:        %lu bytes\<newline>'' [ANum 16]]"
    (is "?shown \<subseteq> _ \<and> _ = ?config")
proof -
  have "?shown \<subseteq> set (decode_cap (regs 0) (regs 4))" unfolding cap_def cap_fields decode_cap_def Let_def by simp
  then have "?shown \<subseteq> set (dump_nvme_regs regs)" unfolding dump_nvme_regs_def Let_def by (simp only: set_append) blast
  moreover have "cc = (if NVME_CAP_CSS cap AND 0x40 \<noteq> 0 then 0x460061 else 0x460001)"
    by (simp add: cc_def cap_def enable_config_def)
  then have "decode_cc cc = ?config"
    by (cases "NVME_CAP_CSS cap AND 0x40 = 0") (simp_all add: decode_cc_def yes_no_def Let_def)
  ultimately show ?thesis by blast
qed

end
