(* ===== verification/Spec2Isabelle.thy ===== *)
theory Spec2Isabelle
  imports Nvme_Device Nvme_Library Adm_Cli Adm_Info
begin

text \<open>
  A verification development for nvme.device, the AmigaOS NVMe block driver under
  src/nvme.device/, and its shell programs nvmeadm and nvmeinfo under src/tools/.  File names of the driver are
  relative to src/nvme.device/.

  \<^bold>\<open>The program.\<close>  A client sends an \<open>IOStdReq\<close> with \<open>beginIO\<close> (src/device_beginio.c).  Commands
  that need no device are answered in the caller's context; passthrough goes to the port of the
  admin worker (src/admin_task.c), everything else to the port of the unit task
  (src/unit_task.c).  The unit task takes messages from its port while the I/O queue has room,
  dispatches them (src/unit_commands.c, src/unit_commands_scsi.c), splits transfers at the
  transfer limit, builds PRP lists, puts commands in the submission ring (src/nvme/nvme_io.c) and
  drains the completion queues when the interrupt server (src/irq.c) signals
  (src/nvme/nvme_queue.c, src/nvme/nvme_completion.c).  Its timer drives retries and the command
  watchdog, which aborts commands and escalates to a reset (src/nvme/nvme_probe.c).  The admin
  worker runs what must block: namespace scans (src/nvme/nvme_scan.c), passthrough
  (src/nvme/nvme_passthru.c) and firmware activation (src/nvme/nvme_fw.c).  nvmeadm opens a unit, asks the driver for its
  namespace and sends admin commands through passthrough; nvmeinfo decodes the registers of
  the controllers on the bus.

  \<^bold>\<open>State.\<close>  \<open>NVMeController\<close> (Nvme_Types) is the record of \<open>struct NVMeController\<close> with the objects it
  reaches: queues, requests, chunked contexts, AmigaOS requests, units, namespaces, DMA
  buffers, client memory, ports and registers.  Pointers are keys of maps in that
  record.  What the driver does to the outside, register writes, cache maintenance,
  replies and signals, is appended to \<open>k_trace\<close>, so that ordering can be stated.  The model has one
  controller; a unit of the device list that belongs to another one is only told apart.

  \<^bold>\<open>Theories.\<close>
  \<^item> Nvme_Prelude: machine integers, result codes, the \<open>platform\<close> record of the byte order helpers
    and allocators of emu68-common, and shared lemmas.
  \<^item> Nvme_Types: include/nvme/nvme_defs.h, nvme_queue.h, nvme_completion.h, nvme_ctrl.h, device.h.
  \<^item> Nvme_Prp, Nvme_Io, Nvme_Setup, Nvme_Chunk, Nvme_Submit: src/nvme/nvme_io.c.  PRP lists decode to
    the pages of the buffer; set-up fills the command it should; a submission is accepted exactly
    when the ring has room; the chunks cover the transfer and are counted; a dispatcher
    takes a request over completely or refuses it without a trace.
  \<^item> Nvme_Queue, Nvme_Drain: src/nvme/nvme_queue.c.  The identifier pool and the ring keep their
    invariants; a drain consumes the fresh entries, rejects stale ones and ends; flush and watchdog.
  \<^item> Nvme_Completion: src/nvme/nvme_completion.c.  Every completion replies once, retries, or hands
    the status to its waiter or callback.
  \<^item> Nvme_Ctrl, Nvme_Init, Nvme_Quirks: src/nvme/nvme_ctrl.c and nvme_quirks.c.  The state machine and its
    gates, the limits from Identify, the quirk tables.
  \<^item> Nvme_Admin, Nvme_Aen: src/nvme/nvme_admin.c, nvme_aen.c, the slot log of nvme_fw.c and the
    asynchronous queue rebuild after a reset.
  \<^item> Nvme_Identify, Nvme_Scan: src/nvme/nvme_identify.c, nvme_scan.c.  Descriptor lists parse back to what was
    encoded; a scan ends and leaves the namespaces the controller reports, up to the findings.
  \<^item> Nvme_Hmb: src/nvme/nvme_hmb.c.  The buffer is announced completely or released completely.
  \<^item> Nvme_Scsi, Nvme_Commands, Nvme_Backpressure: src/unit_commands_scsi.c, src/unit_commands.c and the
    dispatch pass of src/unit_task.c.  Emulated commands stay in their buffers; each
    command is settled once; the pass loses no request and keeps their order.
  \<^item> Nvme_Device: src/device_beginio.c, device_abortio.c, unit.c.
  \<^item> Nvme_Passthru: src/nvme/nvme_passthru.c, src/admin_task.c.  The I/O freeze is undone on every path and
    every request at the port is answered once.
  \<^item> Nvme_Reset: enable, disable, reset and shutdown of src/nvme/nvme_probe.c, the feature commands of
    nvme_admin.c, and src/nvme/nvme_fw.c.
  \<^item> Nvme_Unit: src/unit_task.c and src/irq.c, one pass of each task and the interrupt server.
  \<^item> Nvme_Probe: the bring-up of one controller in src/nvme/nvme_probe.c with its ladder of labels.  A probe
    ends and attaches the controller completely, with the queue pairs it created, or gives everything back.
  \<^item> Nvme_Library: src/device.c and the loops over all controllers of src/nvme/nvme_probe.c.  Opens are
    counted exactly in every history of the base, and the base goes only when all are closed and every controller has
    been taken down.
  \<^item> Adm_Format: the number output of src/tools/nvmeadm_core.c.  Decimal text reads back as the number, sizes are
    scaled exactly.
  \<^item> Adm_Session: buffers, sessions, passthrough and command builders of nvmeadm_core.c and nvmeadm_util.c.
  \<^item> Adm_Maint: nvmeadm_maint.c, nvmeadm_features.c, download and commit of nvmeadm_firmware.c, self-test control
    of nvmeadm_selftest.c.  A download transfers the file, a format is the one asked for and confirmed.
  \<^item> Adm_Logs: the log pages, nvmeadm_logs.c, nvmeadm_smart.c and the rest of those files.
  \<^item> Adm_Cli: nvmeadm_identify.c and nvmeadm.c, tables, dispatch and main.  Everything taken is given back and destructive
    commands need their word and CONFIRM; the namespace list is complete.
  \<^item> Adm_Info: nvmeinfo.c; what it shows is what the driver computes from the same registers.

  The properties of this theory span components: a request on its way from the entry points through the dispatch pass and
  everything below it, and what nvmeadm calls exposed against what the driver exposes.

  \<^bold>\<open>Interfaces.\<close>  \<open>slot_pool\<close> (command identifiers) and \<open>bounded_fifo\<close> (submission ring) are interpreted in
  Nvme_Queue, \<open>transition_system\<close> (the controller states) in Nvme_Ctrl, \<open>request_setup\<close> (what the single-shot
  dispatcher asks of a set-up function) in Nvme_Submit for three set-up functions, \<open>deadline_poll\<close>
  (a polling loop under a deadline) in Nvme_Reset for the CSTS and the firmware loop.  In Nvme_Probe \<open>ident_view\<close> is a part of
  the controller state that no step after the creation of the queues writes, \<open>bring_up_view\<close> extends it to the creation of
  the queues and \<open>scan_inv\<close> to what a namespace scan keeps; they are interpreted for the units and tasks, the gate, the open
  counts and the queue rings.  \<open>adm_contract\<close> (Adm_Session) is a relation that every computation of nvmeadm built from
  its helpers keeps, interpreted for what the process holds and for the commands it sends.

  \<^bold>\<open>Loops.\<close>  Loops over the rings and lists of the driver are structural or carry a measure.  A
  drain gets one step more than the queue is deep, the dispatch and admin loops one step for each
  entry of their list when they start; the theorems show that this is enough.  The list
  scan takes fuel, one unit a page, and is shown to end with more fuel than the controller has
  active namespaces; the sequential scan is a loop that may not return, with None for an endless run.  The polling loops
  take one unit for each delay of their timeout; that they
  end by then, for a clock that moves on (\<open>clock_ok\<close>, and \<open>paced\<close> for a loop that reads it before its first delay), is a
  theorem, and for every timeout they end within the range of the 32-bit clock.  In nvmeadm the loop over
  the units takes one unit of fuel each, the loop over the namespace list one for each page of 1024.

  \<^bold>\<open>Parameters.\<close>  Byte order helpers, slabs, DMA pool and reachability of an address by the device are fields
  of \<open>platform\<close>, with the hypotheses \<open>le_ok\<close>, \<open>prp_slab_ok\<close>, \<open>req_slab_ok\<close>, \<open>dma_pool_ok\<close>; \<open>m68k_platform\<close> is the
  instance of the witnesses.  The answers of the controller to synchronous commands (\<open>sync\<close>), register
  reads and the clock (\<open>poll_env\<close>), the deadline comparison (\<open>passed\<close>), what other tasks do during
  a wait (\<open>env_wait\<close>, \<open>env_cmd\<close>) and the PCI vendor numbers are arguments.  For the programs the answers of system and driver
  are the fields of \<open>adm_env\<close>, the case-insensitive comparison of emu68-common is the argument \<open>same\<close>, and nvmeinfo gets the list of
  PCI functions.  A drain works on the ring as it was at its start, the admin worker on the messages queued at that time; what
  arrives later is seen by the next pass.  \<open>DMA_ALIGN_MIN\<close> is 64, as
  the comment in nvme_io.h documents.

  \<^bold>\<open>Not modelled.\<close>  Debug printing and profile counters; the
  name tables of nvme_constants.c; the thin wrappers of kcompat.c; the extra delay of one quirk before
  the first poll of a disable; checks for null pointers that the model cannot have (a unit without controller, a
  request without unit); emu68-common, a submodule that is not part of the tree.  The fault texts the
  system prints for the programs are left out.
\<close>

section \<open>A client's request through the driver\<close>

text \<open>
  C1.  A client's request is never lost and never answered twice between \<open>beginIO\<close> and the hardware queue.  The places
  a request can be in are counted: waiting for the unit task, in the port of the admin task, owned by a command or a
  chunked transfer, and each reply sent.  A client calls \<open>beginIO\<close> on a request that is in none of them, with any command
  of the device, transfer, SCSI, management or passthrough; some client calls \<open>abortIO\<close>; the unit task makes a dispatch pass.
  Afterwards that request is in exactly one place, unless it was finished in the caller's context under the quick flag,
  in which case it is in none; every other request is in as many places as before (a waiting one may have moved on to an
  owner or a reply).  A passthrough request that is not refused goes to the admin task, and the dispatch pass
  leaves the port of that task alone.  While the open gate finds room in the I/O queue the new request no longer waits.
\<close>

theorem client_request_conserved:
  fixes target :: "nat option" and P :: platform and s :: NVMeController
  assumes ok: "dispatch_ok s" "stalled_ok s" "req_slab_ok P" "dma_pool_ok P" and new: "accounted s io = 0"
    and cmd: "io_Command (k_ios s io) \<noteq> CMD_INTERNAL_ABORT_REQUEST"
  defines "s1 \<equiv> beginIO io s"
  defines "s2 \<equiv> nvme_drain_msgport P (snd (abortIO P target s1))"
  shows "dispatch_ok s2 \<and> (\<forall>io'. accounted s2 io' = accounted s io' + (if io' = io \<and> \<not> is_quick (k_ios s1 io) then 1 else 0)) \<and>
    (\<exists>l. k_adminPort s2 = k_adminPort s @ l \<and> set l \<subseteq> {io} \<and>
      (l \<noteq> [] \<longrightarrow> io_Command (k_ios s io) \<in> {NSCMD_NVME_ADMIN_PASS, NSCMD_NVME_IO_PASS})) \<and>
    (\<not> bit (k_flags s) NVME_CTRL_STOPPED \<and> \<not> bit (k_flags s) NVME_CTRL_FROZEN \<and> io_room s2 \<longrightarrow> io \<notin> set (waiting s2))"
proof -
  have pl: "places s io = 0" using new by (simp add: accounted_def)
  have o: "owners s io = {}" "io \<notin> set (waiting s)" using places_none [OF ok(1) pl] by auto
  obtain w where w: "begun w io s s1" unfolding s1_def using begin_cases by blast
  note b = begun_accounts [OF ok(1) o cmd w]
  have p1: "accounted s1 io' = accounted s io' + (if io' = io \<and> \<not> is_quick (k_ios s1 io) then 1 else 0)" for io'
    using b by simp
  define sa where "sa = snd (abortIO P target s1)"
  have ca: "conserves s1 sa" unfolding sa_def by (rule abort_io_conserves) (use b in blast)
  have sta: "stalled_ok sa" unfolding sa_def s1_def by (rule abort_stalled [OF begin_stalled [OF ok(1) o cmd ok(2)]])
  have fl: "k_flags sa = k_flags s"
    using b by (auto simp: sa_def abortIO_def post_abort_request_def pool_zalloc_def put_unit_msg_def emit_def split: option.split)
  note d = drain_conserves [OF conserves_ok [OF ca] sta ok(3,4), folded s2_def [folded sa_def], unfolded fl]
  have c: "conserves s1 s2" using conserves_trans [OF ca] d by blast
  have acc: "accounted s2 io' = accounted s1 io'" for io' using c by (simp add: conserves_def accounted_def)
  have adm: "k_adminPort s2 = k_adminPort s1" using c by (simp add: conserves_def)
  have port: "k_adminPort s1 = k_adminPort s @ [io]" if "k_adminPort s1 \<noteq> k_adminPort s"
  proof -
    have "w = Queued_admin" using b that by blast
    then obtain t where "inline_done io s t" "s1 = put_admin_msg io (clear_quick io t)" using w by (auto simp: begun_def)
    then show ?thesis by (auto simp: inline_done_def put_admin_msg_def clear_quick_def upd_io_def emit_def)
  qed
  have pass: "k_adminPort s1 = k_adminPort s" if "io_Command (k_ios s io) \<notin> {NSCMD_NVME_ADMIN_PASS, NSCMD_NVME_IO_PASS}"
    unfolding s1_def by (rule begin_admin_port [OF that])
  have "\<exists>l. k_adminPort s2 = k_adminPort s @ l \<and> set l \<subseteq> {io} \<and>
      (l \<noteq> [] \<longrightarrow> io_Command (k_ios s io) \<in> {NSCMD_NVME_ADMIN_PASS, NSCMD_NVME_IO_PASS})"
  proof (cases "k_adminPort s1 = k_adminPort s")
    case True
    then show ?thesis using adm by (intro exI [of _ "[]"]) simp
  next
    case False
    then show ?thesis using adm port pass by (intro exI [of _ "[io]"]) auto
  qed
  moreover have "dispatch_ok s2" by (rule conserves_ok [OF c])
  ultimately show ?thesis using d p1 acc by auto
qed

theorem client_request_conserved_witness:
  "accounted (nvme_drain_msgport m68k_platform (snd (abortIO m68k_platform (Some 7) (beginIO 7 demo_idle)))) 7 =
     (if is_quick (k_ios (beginIO 7 demo_idle) 7) then 0 else 1)"
proof -
  have "accounted demo_idle 7 = 0" by (simp add: accounted_def places_def demo_idle_ok)
  then show ?thesis
    using client_request_conserved [OF demo_idle_ok(1,2) m68k_req_slab_ok m68k_dma_pool_ok, of 7 "Some 7"]
    by (simp add: demo_idle_ok)
qed

section \<open>What the tool reports and what the driver does\<close>

lemma sector_size_range: "512 \<le> lbaf_data_size_bytes ds \<and> lbaf_data_size_bytes ds \<le> 4096 \<longleftrightarrow> 9 \<le> ds \<and> ds \<le> 12"
proof (cases "32 \<le> unat ds")
  case True
  then show ?thesis by (simp add: lbaf_data_size_bytes_def word_le_nat_alt)
next
  case False
  then have l: "unat ds \<le> 31" by simp
  have "(2 :: nat) ^ unat ds \<le> 2 ^ 31" using l by (rule power_increasing) simp
  then have u: "unat (lbaf_data_size_bytes ds) = 2 ^ unat ds"
    using False unat_push_bit [of "1 :: u32" "unat ds"] by (simp add: lbaf_data_size_bytes_def)
  have "(512 :: nat) \<le> 2 ^ unat ds \<longleftrightarrow> 9 \<le> unat ds" "(2 :: nat) ^ unat ds \<le> 4096 \<longleftrightarrow> unat ds \<le> 12"
    using power_increasing_iff [of "2 :: nat" 9 "unat ds"] power_increasing_iff [of "2 :: nat" "unat ds" 12] by simp_all
  then show ?thesis using u by (simp add: word_le_nat_alt)
qed

lemma lbaf_ms_read: "lbaf_ms d i = get_le16 d (128 + 4 * i)"
  by (simp add: lbaf_ms_def read_le16_def get_le16_def get_bytes_def upt_rec)

text \<open>
  The tool calls a namespace exposed exactly when the driver gives it a capacity: on the same Identify Namespace
  data, the check of nvmeadm for the current format agrees with the one of the driver, and the capacity the driver then
  keeps is the size of the namespace in that format; otherwise the driver leaves the capacity as it was.
\<close>

theorem tool_shows_exposed:
  assumes "ids_csi (i_ids info) = NVME_CSI_NVM"
  defines "lbaf \<equiv> \<lambda>d. unat (nvme_lbaf_index (d 26))"
  shows "ns_disk_capacity_sectors (fst (nvme_update_ns_info (info_of_identify P bogus vs d info) ns s)) =
    (if lbaf_supported d (lbaf d) then nvme_lba_to_sect (lbaf_ds d (lbaf d)) (get_le64 d 0) else ns_disk_capacity_sectors ns)"
proof -
  let ?i = "info_of_identify P bogus vs d info"
  have i: "ids_csi (i_ids ?i) = NVME_CSI_NVM" "i_ms ?i = lbaf_ms d (lbaf d)" "i_pi_type ?i = d 29 AND 7" "i_lba_shift ?i = lbaf_ds d (lbaf d)"
    "i_nsze ?i = get_le64 d 0"
    using assms(1) by (simp_all add: info_of_identify_def Let_def lbaf_def lbaf_ms_read lbaf_ds_def)
  have "lbaf_supported d (lbaf d) \<longleftrightarrow> i_ms ?i = 0 \<and> i_pi_type ?i = 0 \<and> 9 \<le> i_lba_shift ?i \<and> i_lba_shift ?i \<le> 12"
    unfolding i lbaf_supported_def namespace_plain_block_supported_def Let_def using sector_size_range by auto
  then show ?thesis using i by (simp add: nvme_update_ns_info_def Let_def)
qed

theorem tool_shows_exposed_witness:
  "ns_disk_capacity_sectors (fst (nvme_update_ns_info (info_of_identify m68k_platform False 0
     (\<lambda>i. if i = 0 then 200 else if i = 130 then 12 else 0) Nvme_Identify.zero_info) zero_ns demo_idle)) = 1600"
  using tool_shows_exposed [of Nvme_Identify.zero_info m68k_platform False 0 "\<lambda>i. if i = 0 then 200 else if i = 130 then 12 else 0" zero_ns demo_idle]
  by (simp add: Nvme_Identify.zero_info_def zero_ids_def lbaf_supported_def namespace_plain_block_supported_def lbaf_ms_read lbaf_ds_def
    nvme_lbaf_index_def get_le16_def get_le32_def get_le64_def lbaf_data_size_bytes_def nvme_lba_to_sect_def)

end
